(* ===== verification/Srs_Prelude.thy ===== *)
theory Srs_Prelude
  imports Main "HOL-Library.Word"
begin

text \<open>
  Shared vocabulary of the development: the machine integers of the C++ sources, byte buffers,
  big-endian field access, and the sequence-number arithmetic that every RLC window relies on.

  A \<open>byte_buffer\<close> (and its views, slices and readers) is a list of bytes: the segmented storage of
  \<open>include/srsran/adt/byte_buffer.h\<close> is invisible to the protocol code, which only appends, slices,
  advances and iterates.  The loops of the RLC entities run over sequence numbers modulo a power of
  two; \<open>sn_loop\<close> is their common shape, and the locale \<open>sn_space\<close> collects the arithmetic of such
  a sequence-number space.
\<close>

unbundle bit_operations_syntax

type_synonym u8 = "8 word"
type_synonym u16 = "16 word"
type_synonym u32 = "32 word"
type_synonym u64 = "64 word"
type_synonym bytes = "u8 list"

named_theorems sn_arith \<open>integer readings of sequence-number terms\<close>

section \<open>Generic lemmas\<close>

lemma ucast_up_down [simp]:
  fixes b :: "'a::len word"
  assumes "LENGTH('a) \<le> LENGTH('b::len)"
  shows "ucast (ucast b :: 'b word) = b"
  by (rule bit_word_eqI) (use assms in \<open>simp add: bit_ucast_iff\<close>)

lemma option_bind_Some_conv: "Option.bind x f = Some y \<longleftrightarrow> (\<exists>z. x = Some z \<and> f z = Some y)"
  by (cases x) auto

lemma list_length_Suc_split: "n \<le> length xs \<Longrightarrow> \<exists>ys zs. xs = ys @ zs \<and> length ys = n"
  by (rule exI [of _ "take n xs"], rule exI [of _ "drop n xs"]) simp

text \<open>Masks as bit truncation, and single-bit tests: the normal form for all header fields.\<close>

lemma and_masks:
  fixes x :: "'a::len word"
  shows "x AND 1 = take_bit 1 x" "x AND 3 = take_bit 2 x" "x AND 7 = take_bit 3 x"
    "x AND 0xf = take_bit 4 x" "x AND 0x1f = take_bit 5 x" "x AND 0x3f = take_bit 6 x"
    "x AND 0x7f = take_bit 7 x" "x AND 0xff = take_bit 8 x"
  by (simp_all add: take_bit_eq_mask mask_eq_exp_minus_1)

lemma and_flag_iff:
  fixes x :: u8
  shows "x AND 0x80 = 0 \<longleftrightarrow> \<not> bit x 7" "x AND 0x40 = 0 \<longleftrightarrow> \<not> bit x 6"
    "x AND 0x20 = 0 \<longleftrightarrow> \<not> bit x 5" "x AND 0x10 = 0 \<longleftrightarrow> \<not> bit x 4"
    "x AND 0x08 = 0 \<longleftrightarrow> \<not> bit x 3" "x AND 0x04 = 0 \<longleftrightarrow> \<not> bit x 2"
    "x AND 0x02 = 0 \<longleftrightarrow> \<not> bit x 1" "x AND 0x01 = 0 \<longleftrightarrow> \<not> bit x 0"
  using and_exp_eq_0_iff_not_bit [of x 7] and_exp_eq_0_iff_not_bit [of x 6]
    and_exp_eq_0_iff_not_bit [of x 5] and_exp_eq_0_iff_not_bit [of x 4]
    and_exp_eq_0_iff_not_bit [of x 3] and_exp_eq_0_iff_not_bit [of x 2]
    and_exp_eq_0_iff_not_bit [of x 1] and_exp_eq_0_iff_not_bit [of x 0]
  by simp_all

lemma take_bit_eq_self_less:
  fixes x :: "'a::len word"
  assumes "x < push_bit n 1" "n < LENGTH('a)"
  shows "take_bit n x = x"
proof -
  have "0 < (2 ^ n :: 'a word)" using assms(2) by (simp add: word_gt_0)
  then have "uint x < 2 ^ n" using assms by (simp add: push_bit_eq_mult word_less_def uint_2p)
  then show ?thesis by (simp add: word_uint_eq_iff unsigned_take_bit_eq take_bit_int_eq_self)
qed

lemma bit_less_exp:
  fixes x :: "'a::len word"
  assumes "x < push_bit n 1" "n < LENGTH('a)" "bit x i"
  shows "i < n"
  using assms take_bit_eq_self_less [OF assms(1,2)] by (metis bit_take_bit_iff)

lemma drop_bit_and_one: "drop_bit n (x :: 'a::len word) AND 1 = of_bool (bit x n)"
  by (simp add: and_one_eq bit_iff_odd_drop_bit mod_2_eq_odd)

lemma bit_u8_flags:
  "bit (0x80 :: u8) i \<longleftrightarrow> i = 7" "bit (0x40 :: u8) i \<longleftrightarrow> i = 6" "bit (0x20 :: u8) i \<longleftrightarrow> i = 5"
  "bit (0x10 :: u8) i \<longleftrightarrow> i = 4" "bit (0x08 :: u8) i \<longleftrightarrow> i = 3" "bit (0x04 :: u8) i \<longleftrightarrow> i = 2"
  "bit (0x02 :: u8) i \<longleftrightarrow> i = 1"
proof -
  have e: "bit (2 ^ n :: u8) i \<longleftrightarrow> i = n" if "n < 8" for n
    using that by (auto simp: bit_exp_iff possible_bit_word)
  show "bit (0x80 :: u8) i \<longleftrightarrow> i = 7" using e [of 7] by simp
  show "bit (0x40 :: u8) i \<longleftrightarrow> i = 6" using e [of 6] by simp
  show "bit (0x20 :: u8) i \<longleftrightarrow> i = 5" using e [of 5] by simp
  show "bit (0x10 :: u8) i \<longleftrightarrow> i = 4" using e [of 4] by simp
  show "bit (0x08 :: u8) i \<longleftrightarrow> i = 3" using e [of 3] by simp
  show "bit (0x04 :: u8) i \<longleftrightarrow> i = 2" using e [of 2] by simp
  show "bit (0x02 :: u8) i \<longleftrightarrow> i = 1" using e [of 1] by simp
qed

lemma drop_bit_and_high:
  "drop_bit 4 (x AND 0xf0) = drop_bit 4 (x :: u8)" "drop_bit 6 (x AND 0xc0) = drop_bit 6 (x :: u8)"
  "drop_bit 2 (x AND 0xfc) = drop_bit 2 (x :: u8)"
  by (simp_all add: and_masks) (rule bit_word_eqI; auto simp: bit_simps dest: bit_imp_le_length)+

lemma word_less_exp_bits:
  fixes x :: "'a::len word"
  assumes "\<And>i. bit x i \<Longrightarrow> i < n" "n < LENGTH('a)"
  shows "x < 2 ^ n"
proof -
  have "take_bit n x = x" using assms(1) by (intro bit_word_eqI) (auto simp: bit_take_bit_iff)
  then have "take_bit n (uint x) = uint x" by (metis unsigned_take_bit_eq)
  then have "uint x < 2 ^ n" by (metis take_bit_int_less_exp)
  moreover have "0 < (2 ^ n :: 'a word)" using assms(2) by (simp add: word_gt_0)
  ultimately show ?thesis by (simp add: word_less_def uint_2p)
qed

lemma uint_lt_1_iff: "uint (x :: 'a::len word) < 1 \<longleftrightarrow> x = 0"
proof -
  have "0 \<le> uint x" by simp
  then have "uint x < 1 \<longleftrightarrow> uint x = 0" by linarith
  then show ?thesis by (simp add: word_uint_eq_iff)
qed

lemma unat_of_nat_u32: "n < 2 ^ 32 \<Longrightarrow> unat (of_nat n :: u32) = n"
  by (simp add: unsigned_of_nat take_bit_nat_eq_self)

lemma take_bit_uint_u32: "take_bit 32 (uint (x :: u32)) = uint x"
  by (rule take_bit_int_eq_self) (use uint_lt2p [of x] in simp_all)

lemma uint_drop_bit_u32: "uint (drop_bit n (x :: u32)) = uint x div 2 ^ n"
  unfolding unsigned_drop_bit_eq by (simp only: len_of_numeral_defs mult_1_right numeral_times_numeral Num.mult_num_simps take_bit_uint_u32 drop_bit_eq_div)

section \<open>Sequence-number arithmetic\<close>

text \<open>
  \<open>sn_dist m b x\<close> is the code's \<open>(x - b) % m\<close> on \<open>uint32_t\<close> (\<open>rx_mod_base\<close>, \<open>tx_mod_base\<close>), and
  \<open>sn_next m x\<close> its \<open>(x + 1) % m\<close>.  Both wrap around at \<open>2\<^sup>32\<close> first, as the machine does.
\<close>

definition sn_dist :: "u32 \<Rightarrow> u32 \<Rightarrow> u32 \<Rightarrow> u32" where
  "sn_dist m b x = (x - b) mod m"

definition sn_next :: "u32 \<Rightarrow> u32 \<Rightarrow> u32" where
  "sn_next m x = (x + 1) mod m"

locale sn_space =
  fixes m :: u32
  assumes m_dvd: "uint m dvd 2 ^ 32"
begin

lemma m_pos: "0 < uint m"
  using m_dvd by (metis dvd_0_left_iff uint_ge_0 order_le_less power_not_zero zero_neq_numeral)

lemma uint_sn_dist: "uint (sn_dist m b x) = (uint x - uint b) mod uint m"
  using m_dvd by (simp add: sn_dist_def uint_mod uint_word_ariths mod_mod_cancel)

lemma uint_sn_next: "uint (sn_next m x) = (uint x + 1) mod uint m"
  using m_dvd by (simp add: sn_next_def uint_mod uint_word_ariths mod_mod_cancel)

lemma dist_less_m: "uint (sn_dist m b x) < uint m"
  by (simp add: uint_sn_dist m_pos)

lemma dist_less: "sn_dist m b x < m"
  by (simp add: word_less_def dist_less_m)

lemma dist_self [simp]: "sn_dist m b b = 0"
  by (simp add: sn_dist_def)

lemma next_less: "sn_next m x < m"
  by (simp add: word_less_def uint_sn_next m_pos)

lemma uint_dist_next: "uint (sn_dist m b (sn_next m x)) = (uint (sn_dist m b x) + 1) mod uint m"
  by (simp add: uint_sn_dist uint_sn_next mod_simps algebra_simps)

lemma dist_next_below:
  assumes "uint (sn_dist m b x) < uint (sn_dist m b y)"
  shows "uint (sn_dist m b (sn_next m x)) = uint (sn_dist m b x) + 1"
proof -
  have "uint (sn_dist m b x) + 1 < uint m" using assms dist_less_m [of b y] by linarith
  then show ?thesis by (simp add: uint_dist_next)
qed

lemma dist_rebase: "uint (sn_dist m c x) = (uint (sn_dist m b x) - uint (sn_dist m b c)) mod uint m"
  by (simp add: uint_sn_dist mod_simps)

lemma dist_rebase_le:
  assumes "uint (sn_dist m b c) \<le> uint (sn_dist m b x)"
  shows "uint (sn_dist m c x) = uint (sn_dist m b x) - uint (sn_dist m b c)"
proof -
  have "uint (sn_dist m b x) - uint (sn_dist m b c) < uint m"
    using dist_less_m [of b x] uint_ge_0 [of "sn_dist m b c"] by linarith
  with assms show ?thesis by (simp add: dist_rebase [of c x b])
qed

lemma dist_inj:
  assumes "x < m" "y < m" "uint (sn_dist m b x) = uint (sn_dist m b y)"
  shows "x = y"
proof -
  have "uint x < uint m" "uint y < uint m" using assms by (simp_all add: word_less_def)
  moreover have "uint x mod uint m = uint y mod uint m"
  proof -
    have "(uint x - uint b) mod uint m = (uint y - uint b) mod uint m"
      using assms(3) by (simp add: uint_sn_dist)
    then have "(uint x - uint b + uint b) mod uint m = (uint y - uint b + uint b) mod uint m"
      by (metis mod_add_left_eq)
    then show ?thesis by simp
  qed
  ultimately show ?thesis by (simp add: word_uint_eq_iff)
qed

text \<open>There are exactly \<open>n\<close> numbers at a distance below \<open>n\<close>.\<close>

lemma dist_onto:
  assumes "0 \<le> j" "j < uint m"
  shows "\<exists>x < m. uint (sn_dist m b x) = j"
proof -
  let ?x = "word_of_int ((uint b + j) mod uint m) :: u32"
  have "(uint b + j) mod uint m < 2 ^ 32" using pos_mod_bound [OF m_pos, of "uint b + j"] uint_lt2p [of m] by simp
  then have x: "uint ?x = (uint b + j) mod uint m"
    using m_pos by (simp add: unsigned_of_int take_bit_int_eq_self)
  then have "?x < m" using m_pos by (simp add: word_less_def)
  moreover have "uint (sn_dist m b ?x) = j" using assms by (simp add: uint_sn_dist x mod_simps)
  ultimately show ?thesis by blast
qed

lemma card_dist_below:
  assumes "0 \<le> n" "n \<le> uint m"
  shows "card {x. x < m \<and> uint (sn_dist m b x) < n} = nat n"
proof -
  let ?S = "{x. x < m \<and> uint (sn_dist m b x) < n}"
  have "(\<lambda>x. uint (sn_dist m b x)) ` ?S = {0..<n}"
  proof (intro set_eqI iffI)
    fix j
    assume "j \<in> {0..<n}"
    then show "j \<in> (\<lambda>x. uint (sn_dist m b x)) ` ?S" using dist_onto [of j b] assms by force
  next
    fix j
    assume "j \<in> (\<lambda>x. uint (sn_dist m b x)) ` ?S"
    then show "j \<in> {0..<n}" by fastforce
  qed
  moreover have "inj_on (\<lambda>x. uint (sn_dist m b x)) ?S" unfolding inj_on_def using dist_inj by simp
  ultimately have "card {0..<n} = card ?S" by (simp only: card_image [symmetric])
  then show ?thesis by simp
qed

lemma dist_zero_iff: "b < m \<Longrightarrow> x < m \<Longrightarrow> sn_dist m b x = 0 \<longleftrightarrow> x = b"
  using dist_inj [of x b b] by auto

text \<open>A walk towards \<open>y\<close> gets closer with every step.\<close>

lemma dist_step:
  assumes "x < m" "y < m" "x \<noteq> y"
  shows "uint (sn_dist m (sn_next m x) y) = uint (sn_dist m x y) - 1" "0 < uint (sn_dist m x y)"
proof -
  have "uint (sn_dist m x y) \<noteq> 0" using assms dist_zero_iff [of x y] by (auto simp: uint_0_iff)
  then show pos: "0 < uint (sn_dist m x y)" using uint_ge_0 [of "sn_dist m x y"] by linarith
  then have "uint (sn_dist m x (sn_next m x)) = 1" using dist_next_below [of x x y] by simp
  then show "uint (sn_dist m (sn_next m x) y) = uint (sn_dist m x y) - 1"
    using dist_rebase_le [of x "sn_next m x" y] pos by simp
qed

end

section \<open>The loops over sequence numbers\<close>

text \<open>
  \<open>for (i = start; (i - base) % m < (stop - base) % m; i = (i + 1) % m)\<close> with a body that either
  breaks (\<open>None\<close>) or updates the loop state.  The result is the final \<open>i\<close> and the final state.
\<close>

function sn_loop ::
  "u32 \<Rightarrow> u32 \<Rightarrow> u32 \<Rightarrow> (u32 \<Rightarrow> 's \<Rightarrow> 's option) \<Rightarrow> u32 \<Rightarrow> 's \<Rightarrow> u32 \<times> 's" where
  "sn_loop m base stop body i s =
     (if uint m dvd 2 ^ 32 \<and> sn_dist m base i < sn_dist m base stop
      then (case body i s of None \<Rightarrow> (i, s)
            | Some s' \<Rightarrow> sn_loop m base stop body (sn_next m i) s')
      else (i, s))"
  by pat_completeness auto
termination
proof (relation "measure (\<lambda>(m, base, stop, body, i, s).
    nat (uint (sn_dist m base stop) - uint (sn_dist m base i)))", goal_cases)
  case 1
  show ?case by simp
next
  case (2 m base stop body i s s')
  then have m: "sn_space m" by (simp add: sn_space_def)
  have "uint (sn_dist m base i) < uint (sn_dist m base stop)"
    using 2 by (simp add: word_less_def)
  then show ?case using sn_space.dist_next_below [OF m, of base i stop] by simp
qed

declare sn_loop.simps [simp del]

context sn_space
begin

text \<open>The Hoare rule of the loop: a body-invariant relation holds on exit, and the loop only
  exits at the stop number or at a break.\<close>

lemma sn_loop_rule:
  assumes "I i s"
    and "uint (sn_dist m b i) \<le> uint (sn_dist m b stop)"
    and step: "\<And>i s s'. I i s \<Longrightarrow> uint (sn_dist m b i) < uint (sn_dist m b stop) \<Longrightarrow>
      body i s = Some s' \<Longrightarrow> I (sn_next m i) s'"
    and "sn_loop m b stop body i s = (j, t)"
  shows "I j t \<and> uint (sn_dist m b i) \<le> uint (sn_dist m b j) \<and>
    uint (sn_dist m b j) \<le> uint (sn_dist m b stop) \<and>
    (uint (sn_dist m b j) = uint (sn_dist m b stop) \<or> body j t = None)"
  using assms(1,2,4)
proof (induction "nat (uint (sn_dist m b stop) - uint (sn_dist m b i))" arbitrary: i s
    rule: less_induct)
  case less
  show ?case
  proof (cases "uint (sn_dist m b i) < uint (sn_dist m b stop) \<and> body i s \<noteq> None")
    case True
    then obtain s' where s': "body i s = Some s'" by blast
    have n: "uint (sn_dist m b (sn_next m i)) = uint (sn_dist m b i) + 1"
      using True dist_next_below by blast
    have "sn_loop m b stop body (sn_next m i) s' = (j, t)"
      using less.prems(3) True s' m_dvd
      by (simp add: sn_loop.simps [of m b stop body i s] word_less_def)
    then show ?thesis
      using less.hyps [of "sn_next m i" s'] True n step [OF less.prems(1) _ s'] by auto
  next
    case False
    then have "i = j" "s = t" "uint (sn_dist m b i) = uint (sn_dist m b stop) \<or> body i s = None"
      using less.prems m_dvd
      by (auto simp: sn_loop.simps [of m b stop body i s] word_less_def split: if_splits option.splits)
    then show ?thesis using less.prems by auto
  qed
qed

end

end
