(* ===== verification/Rlc_Config.thy ===== *)
theory Rlc_Config
  imports Srs_Prelude
begin

text \<open>
  The enumerations and derived constants of \<open>include/srsran/rlc/rlc_config.h\<close> that the RLC code
  computes with: sequence-number sizes, their cardinality and window size, and the header fields.
\<close>

datatype rlc_um_sn_size = um_size6bits | um_size12bits
datatype rlc_am_sn_size = am_size12bits | am_size18bits

fun um_to_number :: "rlc_um_sn_size \<Rightarrow> nat" where
  "um_to_number um_size6bits = 6"
| "um_to_number um_size12bits = 12"

fun am_to_number :: "rlc_am_sn_size \<Rightarrow> nat" where
  "am_to_number am_size12bits = 12"
| "am_to_number am_size18bits = 18"

text \<open>\<open>1 << sn_size\<close>; the assertion \<open>sn_size < 32\<close> holds for every size above.\<close>

definition cardinality :: "nat \<Rightarrow> u32" where
  "cardinality sn_size = push_bit sn_size 1"

definition window_size :: "nat \<Rightarrow> u32" where
  "window_size sn_size = cardinality (sn_size - 1)"

datatype rlc_dc_field = dc_control | dc_data

fun dc_to_number :: "rlc_dc_field \<Rightarrow> u8" where
  "dc_to_number dc_control = 0"
| "dc_to_number dc_data = 1"

datatype rlc_si_field = full_sdu | first_segment | last_segment | middle_segment

fun si_to_number :: "rlc_si_field \<Rightarrow> u8" where
  "si_to_number full_sdu = 0"
| "si_to_number first_segment = 1"
| "si_to_number last_segment = 2"
| "si_to_number middle_segment = 3"

text \<open>The casts \<open>(rlc_dc_field)((b >> 7) & 1)\<close> and \<open>(rlc_si_field)((b >> n) & 3)\<close>.\<close>

definition dc_of_bits :: "u8 \<Rightarrow> rlc_dc_field" where
  "dc_of_bits b = (if b = 0 then dc_control else dc_data)"

definition si_of_bits :: "u8 \<Rightarrow> rlc_si_field" where
  "si_of_bits b = (if b = 0 then full_sdu else if b = 1 then first_segment
     else if b = 2 then last_segment else middle_segment)"

lemma dc_of_bits_to_number [simp]: "dc_of_bits (dc_to_number d) = d"
  by (cases d) (simp_all add: dc_of_bits_def)

lemma si_of_bits_to_number [simp]: "si_of_bits (si_to_number s) = s"
  by (cases s) (simp_all add: si_of_bits_def)

lemma cardinality_simps [simp]:
  "cardinality 6 = 64" "cardinality 12 = 4096" "cardinality 18 = 262144"
  "window_size 6 = 32" "window_size 12 = 2048" "window_size 18 = 131072"
  by (simp_all add: cardinality_def window_size_def)

abbreviation am_mod :: "rlc_am_sn_size \<Rightarrow> u32" where
  "am_mod sz \<equiv> cardinality (am_to_number sz)"

abbreviation um_mod :: "rlc_um_sn_size \<Rightarrow> u32" where
  "um_mod sz \<equiv> cardinality (um_to_number sz)"

text \<open>The sequence-number spaces of AM and UM.\<close>

interpretation am_sn: sn_space "am_mod sz" for sz
  by unfold_locales (cases sz; simp)

interpretation um_sn: sn_space "um_mod sz" for sz
  by unfold_locales (cases sz; simp)

lemma am_window_half: "uint (am_mod sz) = 2 * uint (window_size (am_to_number sz))"
  by (cases sz) simp_all

lemma um_window_half: "uint (um_mod sz) = 2 * uint (window_size (um_to_number sz))"
  by (cases sz) simp_all

end
