(* ===== verification/Rlc_Am_Pdu.thy ===== *)
theory Rlc_Am_Pdu
  imports Rlc_Config
begin

text \<open>
  The AMD PDU header and the STATUS PDU of RLC acknowledged mode
  (\<open>lib/rlc/rlc_am_pdu.h\<close> and \<open>lib/rlc/rlc_am_pdu.cpp\<close>): reading and writing of the data PDU header,
  the NACK container with its range merging, trimming to a grant, and the wire format for 12-bit and
  18-bit sequence numbers.

  A buffer reader is the list of the remaining bytes; reading past its end is the \<open>return false\<close>
  of the code, here \<open>None\<close>.  A writer returns the bytes it puts at the start of the buffer, whose
  number is the returned length.
\<close>

section \<open>Data PDU header\<close>

record rlc_am_pdu_header =
  am_dc :: rlc_dc_field
  am_p :: u8
  am_si :: rlc_si_field
  am_sn_size :: rlc_am_sn_size
  am_sn :: u32
  am_so :: u16

definition INVALID_RLC_SN :: u32 where "INVALID_RLC_SN = 0xffffffff"
definition RETX_COUNT_NOT_STARTED :: u32 where "RETX_COUNT_NOT_STARTED = 0xffffffff"

fun rlc_am_pdu_header_min_size :: "rlc_am_sn_size \<Rightarrow> nat" where
  "rlc_am_pdu_header_min_size am_size12bits = 2"
| "rlc_am_pdu_header_min_size am_size18bits = 3"

definition rlc_am_pdu_header_max_size :: "rlc_am_sn_size \<Rightarrow> nat" where
  "rlc_am_pdu_header_max_size sz = rlc_am_pdu_header_min_size sz + 2"

definition am_get_packed_size :: "rlc_am_pdu_header \<Rightarrow> nat" where
  "am_get_packed_size h =
     (if am_si h = last_segment \<or> am_si h = middle_segment
      then rlc_am_pdu_header_max_size (am_sn_size h)
      else rlc_am_pdu_header_min_size (am_sn_size h))"

text \<open>The optional SO field (\<open>rlc_am_pdu.h:243-258\<close>); absent, it keeps its initial value 0.\<close>

fun am_read_so :: "rlc_si_field \<Rightarrow> bytes \<Rightarrow> u16 option" where
  "am_read_so si r =
     (if si = last_segment \<or> si = middle_segment
      then (case r of
              b1 # b2 # _ \<Rightarrow> Some (push_bit 8 (ucast b1 AND 0xff) OR (ucast b2 AND 0xff))
            | _ \<Rightarrow> None)
      else Some 0)"

definition rlc_am_read_data_pdu_header ::
  "bytes \<Rightarrow> rlc_am_sn_size \<Rightarrow> rlc_am_pdu_header option" where
  "rlc_am_read_data_pdu_header pdu sn_size =
     (if length pdu \<le> rlc_am_pdu_header_min_size sn_size then None
      else case pdu of [] \<Rightarrow> None | b0 # r0 \<Rightarrow>
        let dc = dc_of_bits (drop_bit 7 b0 AND 1);
            p = drop_bit 6 b0 AND 1;
            si = si_of_bits (drop_bit 4 b0 AND 3);
            hdr = (\<lambda>sn so. \<lparr>am_dc = dc, am_p = p, am_si = si, am_sn_size = sn_size,
                            am_sn = sn, am_so = so\<rparr>)
        in case sn_size of
             am_size12bits \<Rightarrow>
               (case r0 of
                  b1 # r1 \<Rightarrow>
                    let sn = push_bit 8 (ucast b0 AND 0x0f) OR (ucast b1 AND 0xff)
                    in map_option (hdr sn) (am_read_so si r1)
                | [] \<Rightarrow> None)
           | am_size18bits \<Rightarrow>
               (if b0 AND 0x0c \<noteq> 0 then None
                else case r0 of
                  b1 # b2 # r2 \<Rightarrow>
                    let sn = push_bit 16 (ucast b0 AND 0x03) OR push_bit 8 (ucast b1 AND 0xff)
                             OR (ucast b2 AND 0xff)
                    in map_option (hdr sn) (am_read_so si r2)
                | _ \<Rightarrow> None))"

definition rlc_am_write_data_pdu_header :: "rlc_am_pdu_header \<Rightarrow> bytes" where
  "rlc_am_write_data_pdu_header h =
     (let b0 = push_bit 7 (dc_to_number (am_dc h) AND 1) OR push_bit 6 (am_p h AND 1)
               OR push_bit 4 (si_to_number (am_si h) AND 3);
          sn = am_sn h; so = am_so h;
          fixed = (case am_sn_size h of
             am_size12bits \<Rightarrow> [b0 OR ucast (drop_bit 8 sn AND 0x0f), ucast (sn AND 0xff)]
           | am_size18bits \<Rightarrow> [b0 OR ucast (drop_bit 16 sn AND 0x3), ucast (drop_bit 8 sn),
                               ucast (sn AND 0xff)])
      in fixed @ (if so \<noteq> 0 then [ucast (drop_bit 8 so), ucast (so AND 0xff)] else []))"

section \<open>NACKs and the STATUS PDU\<close>

record rlc_am_status_nack =
  nack_sn :: u32
  has_so :: bool
  so_start :: u16
  so_end :: u16
  has_nack_range :: bool
  nack_range :: u8

definition so_end_of_sdu :: u16 where "so_end_of_sdu = 0xffff"

text \<open>The default constructor.\<close>

definition rlc_am_status_nack_init :: rlc_am_status_nack where
  "rlc_am_status_nack_init = \<lparr>nack_sn = 0, has_so = False, so_start = 0, so_end = so_end_of_sdu,
     has_nack_range = False, nack_range = 0\<rparr>"

record rlc_am_status_pdu =
  sp_sn_size :: rlc_am_sn_size
  sp_nacks :: "rlc_am_status_nack list"
  sp_packed_size :: u32
  sp_ack_sn :: u32

definition sizeof_header_ack_sn :: u32 where "sizeof_header_ack_sn = 3"

definition rlc_am_status_pdu_init :: "rlc_am_sn_size \<Rightarrow> rlc_am_status_pdu" where
  "rlc_am_status_pdu_init sz = \<lparr>sp_sn_size = sz, sp_nacks = [],
     sp_packed_size = sizeof_header_ack_sn, sp_ack_sn = INVALID_RLC_SN\<rparr>"

definition sp_reset :: "rlc_am_status_pdu \<Rightarrow> rlc_am_status_pdu" where
  "sp_reset s = s\<lparr>sp_ack_sn := INVALID_RLC_SN, sp_nacks := [],
     sp_packed_size := sizeof_header_ack_sn\<rparr>"

abbreviation mod_nr :: "rlc_am_status_pdu \<Rightarrow> u32" where
  "mod_nr s \<equiv> am_mod (sp_sn_size s)"

definition can_be_merged ::
  "rlc_am_status_pdu \<Rightarrow> rlc_am_status_nack \<Rightarrow> rlc_am_status_nack \<Rightarrow> bool" where
  "can_be_merged s left right =
     (if nack_sn right \<noteq> (if has_nack_range left then nack_sn left + ucast (nack_range left)
                          else nack_sn left + 1) mod mod_nr s then False
      else if has_so left \<and> so_end left \<noteq> so_end_of_sdu then False
      else if has_so right \<and> so_start right \<noteq> 0 then False
      else let left_range = (if has_nack_range left then unat (nack_range left) else 1);
               right_range = (if has_nack_range right then unat (nack_range right) else 1)
           in left_range + right_range \<le> 255)"

definition nack_size :: "rlc_am_status_pdu \<Rightarrow> rlc_am_status_nack \<Rightarrow> u32" where
  "nack_size s nack =
     (case sp_sn_size s of am_size12bits \<Rightarrow> 2 | am_size18bits \<Rightarrow> 3)
     + (if has_so nack then 4 else 0) + (if has_nack_range nack then 1 else 0)"

text \<open>The expansion of the previous NACK (\<open>rlc_am_pdu.cpp:85-125\<close>).\<close>

definition expand_nack :: "rlc_am_status_nack \<Rightarrow> rlc_am_status_nack \<Rightarrow> rlc_am_status_nack" where
  "expand_nack prev nack =
     (let prev1 =
        (if has_nack_range nack then
           (if has_nack_range prev then prev\<lparr>nack_range := nack_range prev + nack_range nack\<rparr>
            else prev\<lparr>nack_range := nack_range nack + 1, has_nack_range := True\<rparr>)
         else
           (if has_nack_range prev then prev\<lparr>nack_range := nack_range prev + 1\<rparr>
            else prev\<lparr>nack_range := 2, has_nack_range := True\<rparr>))
      in if has_so nack then
           (if \<not> has_so prev1 then prev1\<lparr>has_so := True, so_start := 0, so_end := so_end nack\<rparr>
            else prev1\<lparr>so_end := so_end nack\<rparr>)
         else
           (if has_so prev1 then prev1\<lparr>so_end := so_end_of_sdu\<rparr> else prev1))"

definition push_nack :: "rlc_am_status_pdu \<Rightarrow> rlc_am_status_nack \<Rightarrow> rlc_am_status_pdu" where
  "push_nack s nack =
     (if sp_nacks s = [] \<or> \<not> can_be_merged s (last (sp_nacks s)) nack
      then s\<lparr>sp_nacks := sp_nacks s @ [nack], sp_packed_size := sp_packed_size s + nack_size s nack\<rparr>
      else let prev = last (sp_nacks s); prev' = expand_nack prev nack
           in s\<lparr>sp_nacks := butlast (sp_nacks s) @ [prev'],
                sp_packed_size := sp_packed_size s - nack_size s prev + nack_size s prev'\<rparr>)"

text \<open>\<open>trim\<close>: the removal loop, then the operation with its boolean result.\<close>

function trim_loop :: "u32 \<Rightarrow> rlc_am_status_pdu \<Rightarrow> rlc_am_status_pdu" where
  "trim_loop max_packed_size s =
     (if sp_nacks s \<noteq> [] \<and> (max_packed_size < sp_packed_size s \<or>
                          nack_sn (last (sp_nacks s)) = sp_ack_sn s)
      then trim_loop max_packed_size
             (s\<lparr>sp_packed_size := sp_packed_size s - nack_size s (last (sp_nacks s)),
                sp_ack_sn := nack_sn (last (sp_nacks s)),
                sp_nacks := butlast (sp_nacks s)\<rparr>)
      else s)"
  by pat_completeness auto
termination
  by (relation "measure (\<lambda>(m, s). length (sp_nacks s))") (auto simp: Suc_le_eq)

declare trim_loop.simps [simp del]

definition sp_trim :: "rlc_am_status_pdu \<Rightarrow> u32 \<Rightarrow> rlc_am_status_pdu \<times> bool" where
  "sp_trim s max_packed_size =
     (if max_packed_size \<ge> sp_packed_size s then (s, True)
      else if max_packed_size < sizeof_header_ack_sn then (s, False)
      else (trim_loop max_packed_size s, True))"

definition refresh_packed_size :: "rlc_am_status_pdu \<Rightarrow> rlc_am_status_pdu" where
  "refresh_packed_size s = s\<lparr>sp_packed_size :=
     foldl (\<lambda>sz nack. sz + nack_size s nack) sizeof_header_ack_sn (sp_nacks s)\<rparr>"

section \<open>STATUS PDU wire format\<close>

text \<open>\<open>is_control_pdu\<close> dereferences the first byte: \<open>None\<close> for an empty buffer.\<close>

definition is_control_pdu :: "bytes \<Rightarrow> bool option" where
  "is_control_pdu pdu = (case pdu of [] \<Rightarrow> None
     | b # _ \<Rightarrow> Some (drop_bit 7 b AND 1 = dc_to_number dc_control))"

text \<open>The optional SO pair and range of one NACK, common to both formats.\<close>

definition unpack_nack_so :: "bool \<Rightarrow> rlc_am_status_nack \<Rightarrow> bytes \<Rightarrow> (rlc_am_status_nack \<times> bytes) option" where
  "unpack_nack_so e2 nack r =
     (if \<not> e2 then Some (nack, r)
      else case r of
        b1 # b2 # b3 # b4 # r' \<Rightarrow>
          Some (nack\<lparr>has_so := True, so_start := push_bit 8 (ucast b1) OR ucast b2,
                     so_end := push_bit 8 (ucast b3) OR ucast b4\<rparr>, r')
      | _ \<Rightarrow> None)"

definition unpack_nack_range :: "bool \<Rightarrow> rlc_am_status_nack \<Rightarrow> bytes \<Rightarrow> (rlc_am_status_nack \<times> bytes) option" where
  "unpack_nack_range e3 nack r =
     (if \<not> e3 then Some (nack, r)
      else case r of
        b # r' \<Rightarrow> Some (nack\<lparr>has_nack_range := True, nack_range := b\<rparr>, r')
      | [] \<Rightarrow> None)"

text \<open>One iteration of the NACK loop: the NACK, the new E1 flag and the rest of the input.\<close>

definition unpack_nack_12bit :: "bytes \<Rightarrow> (rlc_am_status_nack \<times> bool \<times> bytes) option" where
  "unpack_nack_12bit r =
     (case r of
        b1 # b2 # r2 \<Rightarrow>
          let e1 = (b2 AND 0x08 \<noteq> 0); e2 = (b2 AND 0x04 \<noteq> 0); e3 = (b2 AND 0x02 \<noteq> 0);
              nack = rlc_am_status_nack_init\<lparr>nack_sn :=
                push_bit 4 (ucast b1 AND 0xff) OR ucast (drop_bit 4 (b2 AND 0xf0))\<rparr>
          in if b2 AND 0x01 \<noteq> 0 then None
             else Option.bind (unpack_nack_so e2 nack r2) (\<lambda>(nack, r3).
                  Option.bind (unpack_nack_range e3 nack r3) (\<lambda>(nack, r4).
                  Some (nack, e1, r4)))
      | _ \<Rightarrow> None)"

definition unpack_nack_18bit :: "bytes \<Rightarrow> (rlc_am_status_nack \<times> bool \<times> bytes) option" where
  "unpack_nack_18bit r =
     (case r of
        b1 # b2 # b3 # r3 \<Rightarrow>
          let e1 = (b3 AND 0x20 \<noteq> 0); e2 = (b3 AND 0x10 \<noteq> 0); e3 = (b3 AND 0x08 \<noteq> 0);
              nack = rlc_am_status_nack_init\<lparr>nack_sn :=
                push_bit 10 (ucast b1 AND 0xff) OR push_bit 2 (ucast b2 AND 0xff)
                OR ucast (drop_bit 6 (b3 AND 0xc0))\<rparr>
          in if b3 AND 0x07 \<noteq> 0 then None
             else Option.bind (unpack_nack_so e2 nack r3) (\<lambda>(nack, r4).
                  Option.bind (unpack_nack_range e3 nack r4) (\<lambda>(nack, r5).
                  Some (nack, e1, r5)))
      | _ \<Rightarrow> None)"

definition unpack_nack :: "rlc_am_sn_size \<Rightarrow> bytes \<Rightarrow> (rlc_am_status_nack \<times> bool \<times> bytes) option" where
  "unpack_nack sz r = (case sz of am_size12bits \<Rightarrow> unpack_nack_12bit r
                                | am_size18bits \<Rightarrow> unpack_nack_18bit r)"

lemma unpack_nack_so_length: "unpack_nack_so e2 n r = Some (n', r') \<Longrightarrow> length r' \<le> length r"
  by (auto simp: unpack_nack_so_def split: if_splits list.splits)

lemma unpack_nack_range_length:
  "unpack_nack_range e3 n r = Some (n', r') \<Longrightarrow> length r' \<le> length r"
  by (auto simp: unpack_nack_range_def split: if_splits list.splits)

lemma unpack_nack_shorter:
  "unpack_nack sz r = Some (nack, e1, r') \<Longrightarrow> length r' < length r"
  by (cases sz; cases r)
    (fastforce simp: unpack_nack_def unpack_nack_12bit_def unpack_nack_18bit_def Let_def
      option_bind_Some_conv split: list.splits if_splits
      dest: unpack_nack_so_length unpack_nack_range_length)+

function unpack_nacks :: "bool \<Rightarrow> rlc_am_status_pdu \<Rightarrow> bytes \<Rightarrow> rlc_am_status_pdu option" where
  "unpack_nacks e1 s r =
     (if \<not> e1 then Some s
      else case unpack_nack (sp_sn_size s) r of
             None \<Rightarrow> None
           | Some (nack, e1', r') \<Rightarrow> unpack_nacks e1' (push_nack s nack) r')"
  by pat_completeness auto
termination
  by (relation "measure (\<lambda>(e1, s, r). length r)") (auto dest: unpack_nack_shorter)

declare unpack_nacks.simps [simp del]

definition unpack_12bit :: "rlc_am_status_pdu \<Rightarrow> bytes \<Rightarrow> rlc_am_status_pdu option" where
  "unpack_12bit s pdu =
     (case pdu of
        b1 # b2 # b3 # r \<Rightarrow>
          if is_control_pdu pdu \<noteq> Some True then None
          else if drop_bit 4 b1 AND 0x07 \<noteq> 0 then None
          else let s1 = (sp_reset s)\<lparr>sp_ack_sn :=
                     push_bit 8 (ucast b1 AND 0x0f) OR (ucast b2 AND 0xff)\<rparr>;
                   e1 = (b3 AND 0x80 \<noteq> 0)
               in if b3 AND 0x7f \<noteq> 0 then None else unpack_nacks e1 s1 r
      | _ \<Rightarrow> None)"

definition unpack_18bit :: "rlc_am_status_pdu \<Rightarrow> bytes \<Rightarrow> rlc_am_status_pdu option" where
  "unpack_18bit s pdu =
     (case pdu of
        b1 # b2 # b3 # r \<Rightarrow>
          if is_control_pdu pdu \<noteq> Some True then None
          else if drop_bit 4 b1 AND 0x07 \<noteq> 0 then None
          else let s1 = (sp_reset s)\<lparr>sp_ack_sn :=
                     push_bit 14 (ucast b1 AND 0x0f) OR push_bit 6 (ucast b2 AND 0xff)
                     OR ucast (drop_bit 2 (b3 AND 0xfc))\<rparr>;
                   e1 = (b3 AND 0x02 \<noteq> 0)
               in if b3 AND 0x01 \<noteq> 0 then None else unpack_nacks e1 s1 r
      | _ \<Rightarrow> None)"

definition sp_unpack :: "rlc_am_status_pdu \<Rightarrow> bytes \<Rightarrow> rlc_am_status_pdu option" where
  "sp_unpack s pdu = (case sp_sn_size s of am_size12bits \<Rightarrow> unpack_12bit s pdu
                                         | am_size18bits \<Rightarrow> unpack_18bit s pdu)"

definition pack_nack_ext :: "rlc_am_status_nack \<Rightarrow> bytes" where
  "pack_nack_ext nack =
     (if has_so nack then [ucast (drop_bit 8 (so_start nack)), ucast (so_start nack),
                           ucast (drop_bit 8 (so_end nack)), ucast (so_end nack)] else [])
     @ (if has_nack_range nack then [nack_range nack] else [])"

definition pack_nack_12bit :: "bool \<Rightarrow> rlc_am_status_nack \<Rightarrow> bytes" where
  "pack_nack_12bit has_next nack =
     [ucast (drop_bit 4 (nack_sn nack) AND 0xff),
      ucast (push_bit 4 (nack_sn nack AND 0x0f)) OR (if has_next then 0x08 else 0)
        OR (if has_so nack then 0x04 else 0) OR (if has_nack_range nack then 0x02 else 0)]
     @ pack_nack_ext nack"

definition pack_nack_18bit :: "bool \<Rightarrow> rlc_am_status_nack \<Rightarrow> bytes" where
  "pack_nack_18bit has_next nack =
     [ucast (drop_bit 10 (nack_sn nack) AND 0xff), ucast (drop_bit 2 (nack_sn nack) AND 0xff),
      ucast (push_bit 6 (nack_sn nack) AND 0xc0) OR (if has_next then 0x20 else 0)
        OR (if has_so nack then 0x10 else 0) OR (if has_nack_range nack then 0x08 else 0)]
     @ pack_nack_ext nack"

fun pack_nacks :: "(bool \<Rightarrow> rlc_am_status_nack \<Rightarrow> bytes) \<Rightarrow> rlc_am_status_nack list \<Rightarrow> bytes" where
  "pack_nacks pk [] = []"
| "pack_nacks pk (nack # rest) = pk (rest \<noteq> []) nack @ pack_nacks pk rest"

definition pack_12bit :: "rlc_am_status_pdu \<Rightarrow> bytes" where
  "pack_12bit s =
     [ucast (drop_bit 8 (sp_ack_sn s) AND 0x0f), ucast (sp_ack_sn s AND 0xff),
      (if sp_nacks s \<noteq> [] then 0x80 else 0)]
     @ pack_nacks pack_nack_12bit (sp_nacks s)"

definition pack_18bit :: "rlc_am_status_pdu \<Rightarrow> bytes" where
  "pack_18bit s =
     [ucast (drop_bit 14 (sp_ack_sn s) AND 0x0f), ucast (drop_bit 6 (sp_ack_sn s) AND 0xff),
      ucast (push_bit 2 (sp_ack_sn s) AND 0xfc) OR (if sp_nacks s \<noteq> [] then 0x02 else 0)]
     @ pack_nacks pack_nack_18bit (sp_nacks s)"

definition sp_pack :: "rlc_am_status_pdu \<Rightarrow> bytes" where
  "sp_pack s = (case sp_sn_size s of am_size12bits \<Rightarrow> pack_12bit s | am_size18bits \<Rightarrow> pack_18bit s)"

section \<open>Data PDU header: round trip\<close>

definition am_header_ok :: "rlc_am_pdu_header \<Rightarrow> bool" where
  "am_header_ok h \<longleftrightarrow> am_p h \<le> 1 \<and> am_sn h < am_mod (am_sn_size h) \<and>
     (am_so h \<noteq> 0 \<longleftrightarrow> am_si h = last_segment \<or> am_si h = middle_segment)"

lemma am_read_so_write:
  "(so \<noteq> 0 \<longleftrightarrow> si = last_segment \<or> si = middle_segment) \<Longrightarrow>
   am_read_so si ((if so \<noteq> 0 then [ucast (drop_bit 8 so), ucast (so AND 0xff)] else []) @ r) = Some so"
  apply (auto simp: and_masks)
  apply (rule bit_word_eqI; auto simp: bit_simps)+
  done

lemma am_write_length: "am_header_ok h \<Longrightarrow>
  length (rlc_am_write_data_pdu_header h) = am_get_packed_size h"
  by (cases "am_sn_size h") (simp_all add: am_header_ok_def rlc_am_write_data_pdu_header_def
      am_get_packed_size_def rlc_am_pdu_header_max_size_def Let_def)

lemma hdr_bits:
  fixes lo p :: u8
  assumes "p \<le> 1" "take_bit 4 lo = lo"
    and b0_def: "b0 = (push_bit 7 (dc_to_number dc AND 1) OR push_bit 6 (p AND 1)
               OR push_bit 4 (si_to_number si AND 3)) OR lo"
  shows "drop_bit 7 b0 AND 1 = dc_to_number dc" "drop_bit 6 b0 AND 1 = p"
    "drop_bit 4 b0 AND 3 = si_to_number si" "take_bit 4 b0 = lo"
proof -
  have lo4: "bit lo i \<Longrightarrow> i < 4" for i using assms(2) by (metis bit_take_bit_iff)
  then have lo: "\<not> bit lo 4" "\<not> bit lo 5" "\<not> bit lo 6" "\<not> bit lo 7" by fastforce+
  have p: "p = 0 \<or> p = 1" using assms(1) by (simp add: word_le_def word_uint_eq_iff) (use uint_ge_0 [of p] in linarith)
  have "take_bit 2 (si_to_number si) = si_to_number si" by (cases si) simp_all
  then have s: "bit (si_to_number si) n \<Longrightarrow> n < 2" for n by (metis bit_take_bit_iff)
  have d: "bit (dc_to_number dc) n \<longleftrightarrow> dc = dc_data \<and> n = 0" for n by (cases dc) (auto simp: bit_simps)
  have pb: "bit p n \<longleftrightarrow> p = 1 \<and> n = 0" for n using p by (auto simp: bit_simps)
  have "bit b0 7 \<longleftrightarrow> dc = dc_data" "bit b0 6 \<longleftrightarrow> p = 1"
    unfolding b0_def by (auto simp: bit_simps d lo pb dest: s)
  then show "drop_bit 7 b0 AND 1 = dc_to_number dc" "drop_bit 6 b0 AND 1 = p"
    using p by (cases dc; auto simp: drop_bit_and_one)+
  show "drop_bit 4 b0 AND 3 = si_to_number si"
    unfolding b0_def and_masks 
    by (rule bit_word_eqI) (auto simp: bit_simps d pb dest: s lo4)
  show "take_bit 4 b0 = lo"
    unfolding b0_def and_masks by (rule bit_word_eqI) (auto simp: bit_simps d lo pb dest: s lo4)
qed

lemma am_read_12bit:
  "rlc_am_read_data_pdu_header (b0 # b1 # r) am_size12bits = (if r = [] then None else
     map_option (\<lambda>so. \<lparr>am_dc = dc_of_bits (drop_bit 7 b0 AND 1), am_p = drop_bit 6 b0 AND 1,
         am_si = si_of_bits (drop_bit 4 b0 AND 3), am_sn_size = am_size12bits,
         am_sn = push_bit 8 (ucast b0 AND 0x0f) OR (ucast b1 AND 0xff), am_so = so\<rparr>)
       (am_read_so (si_of_bits (drop_bit 4 b0 AND 3)) r))"
  by (cases r) (simp_all only: rlc_am_read_data_pdu_header_def Let_def list.case rlc_am_sn_size.case
    if_True if_False rlc_am_pdu_header_min_size.simps, simp_all)

lemma am_read_18bit:
  "rlc_am_read_data_pdu_header (b0 # b1 # b2 # r) am_size18bits =
     (if r = [] \<or> b0 AND 0x0c \<noteq> 0 then None else
     map_option (\<lambda>so. \<lparr>am_dc = dc_of_bits (drop_bit 7 b0 AND 1), am_p = drop_bit 6 b0 AND 1,
         am_si = si_of_bits (drop_bit 4 b0 AND 3), am_sn_size = am_size18bits,
         am_sn = push_bit 16 (ucast b0 AND 0x03) OR push_bit 8 (ucast b1 AND 0xff)
           OR (ucast b2 AND 0xff), am_so = so\<rparr>)
       (am_read_so (si_of_bits (drop_bit 4 b0 AND 3)) r))"
  by (cases r) (simp_all only: rlc_am_read_data_pdu_header_def Let_def list.case rlc_am_sn_size.case
    if_True if_False rlc_am_pdu_header_min_size.simps, simp_all)

lemma am_header_roundtrip_12bit:
  assumes h: "am_header_ok h" and pl: "payload \<noteq> []" and sz: "am_sn_size h = am_size12bits"
  shows "rlc_am_read_data_pdu_header (rlc_am_write_data_pdu_header h @ payload) am_size12bits = Some h"
proof -
  define so :: bytes where
    "so = (if am_so h \<noteq> 0 then [ucast (drop_bit 8 (am_so h)), ucast (am_so h AND 0xff)] else [])"
  have so: "am_read_so (am_si h) (so @ payload) = Some (am_so h)"
    unfolding so_def by (rule am_read_so_write) (use h in \<open>simp add: am_header_ok_def\<close>)
  have p1: "am_p h \<le> 1" using h by (simp add: am_header_ok_def)
  define lo :: u8 where "lo = ucast (drop_bit 8 (am_sn h) AND 0x0f)"
  have lo: "take_bit 4 lo = lo" unfolding lo_def and_masks
    by (rule bit_word_eqI) (auto simp: bit_simps)
  have sn: "bit (am_sn h) i \<Longrightarrow> i < 12" for i
    using h sz bit_less_exp [of "am_sn h" 12 i] by (simp add: am_header_ok_def push_bit_eq_mult)
  define b0 where "b0 = (push_bit 7 (dc_to_number (am_dc h) AND 1) OR push_bit 6 (am_p h AND 1)
    OR push_bit 4 (si_to_number (am_si h) AND 3)) OR lo"
  note hb = hdr_bits [OF p1 lo b0_def]
  have lo_b0: "ucast b0 AND 0x0f = (ucast ((take_bit 4 b0)) :: u32)"
    unfolding and_masks by (rule bit_word_eqI) (auto simp: bit_simps)
  have e: "push_bit 8 (ucast b0 AND 0x0f) OR (ucast (ucast (am_sn h AND 0xff) :: u8) AND 0xff) = am_sn h"
    unfolding lo_b0 hb(4) unfolding and_masks lo_def
    by (intro bit_word_eqI) (auto simp: bit_simps dest: sn)
  have w: "rlc_am_write_data_pdu_header h @ payload = b0 # ucast (am_sn h AND 0xff) # so @ payload"
    unfolding rlc_am_write_data_pdu_header_def Let_def b0_def lo_def so_def using sz by simp
  show ?thesis
    unfolding w am_read_12bit hb e si_of_bits_to_number so using pl sz by simp
qed

lemma am_header_roundtrip_18bit:
  assumes h: "am_header_ok h" and pl: "payload \<noteq> []" and sz: "am_sn_size h = am_size18bits"
  shows "rlc_am_read_data_pdu_header (rlc_am_write_data_pdu_header h @ payload) am_size18bits = Some h"
proof -
  define so :: bytes where
    "so = (if am_so h \<noteq> 0 then [ucast (drop_bit 8 (am_so h)), ucast (am_so h AND 0xff)] else [])"
  have so: "am_read_so (am_si h) (so @ payload) = Some (am_so h)"
    unfolding so_def by (rule am_read_so_write) (use h in \<open>simp add: am_header_ok_def\<close>)
  have p1: "am_p h \<le> 1" using h by (simp add: am_header_ok_def)
  define lo :: u8 where "lo = ucast (drop_bit 16 (am_sn h) AND 0x03)"
  have lo: "take_bit 4 lo = lo" unfolding lo_def and_masks
    by (rule bit_word_eqI) (auto simp: bit_simps)
  have sn: "bit (am_sn h) i \<Longrightarrow> i < 18" for i
    using h sz bit_less_exp [of "am_sn h" 18 i] by (simp add: am_header_ok_def push_bit_eq_mult)
  define b0 where "b0 = (push_bit 7 (dc_to_number (am_dc h) AND 1) OR push_bit 6 (am_p h AND 1)
    OR push_bit 4 (si_to_number (am_si h) AND 3)) OR lo"
  note hb = hdr_bits [OF p1 lo b0_def]
  have lo_b0: "ucast b0 AND 0x03 = (ucast (take_bit 2 (take_bit 4 b0)) :: u32)"
    unfolding and_masks by (rule bit_word_eqI) (auto simp: bit_simps)
  have e: "push_bit 16 (ucast b0 AND 0x03)
      OR push_bit 8 (ucast (ucast (drop_bit 8 (am_sn h)) :: u8) AND 0xff) OR (ucast (ucast (am_sn h AND 0xff) :: u8) AND 0xff) = am_sn h"
    unfolding lo_b0 hb(4) unfolding and_masks lo_def
    by (intro bit_word_eqI) (auto simp: bit_simps dest: sn)
  have "b0 AND 0x0c = take_bit 4 b0 AND 0x0c"
    by (simp add: take_bit_eq_mask mask_eq_exp_minus_1 and.assoc)
  also have "\<dots> = (lo AND 3) AND 0x0c"
    unfolding hb(4) and_masks lo_def by (rule bit_word_eqI) (auto simp: bit_simps)
  also have "\<dots> = 0" by (simp add: and.assoc)
  finally have r: "b0 AND 0x0c = 0" .
  have w: "rlc_am_write_data_pdu_header h @ payload = b0 # ucast (drop_bit 8 (am_sn h)) # ucast (am_sn h AND 0xff) # so @ payload"
    unfolding rlc_am_write_data_pdu_header_def Let_def b0_def lo_def so_def using sz by simp
  show ?thesis
    unfolding w am_read_18bit hb e si_of_bits_to_number so using pl sz r by simp
qed

text \<open>
  Writing an AMD PDU header (12- or 18-bit SN) and reading it back from a PDU with a
  non-empty payload gives the same header.  \<open>am_header_ok\<close> is the form of the headers the transmitter
  builds: a 1-bit polling field, an SN in range, and an SO exactly when the SI announces one.
\<close>

lemma am_header_roundtrip:
  assumes "am_header_ok h" and "payload \<noteq> []"
  shows "rlc_am_read_data_pdu_header (rlc_am_write_data_pdu_header h @ payload) (am_sn_size h) = Some h
    \<and> length (rlc_am_write_data_pdu_header h) = am_get_packed_size h"
  using am_header_roundtrip_12bit [OF assms] am_header_roundtrip_18bit [OF assms]
    am_write_length [OF assms(1)] by (cases "am_sn_size h") simp_all

definition am_header_example :: rlc_am_pdu_header where
  "am_header_example = \<lparr>am_dc = dc_data, am_p = 1, am_si = middle_segment,
     am_sn_size = am_size18bits, am_sn = 0x2abcd, am_so = 0x1234\<rparr>"

lemma am_header_roundtrip_witness:
  "rlc_am_read_data_pdu_header (rlc_am_write_data_pdu_header am_header_example @ [7])
     (am_sn_size am_header_example) = Some am_header_example
   \<and> length (rlc_am_write_data_pdu_header am_header_example) = am_get_packed_size am_header_example"
  by (rule am_header_roundtrip) (simp_all add: am_header_example_def am_header_ok_def)

section \<open>What a STATUS PDU reports missing\<close>

text \<open>
  \<open>nack_covers m n sn off\<close>: the NACK \<open>n\<close> reports byte \<open>off\<close> of the SDU \<open>sn\<close> as missing.  A NACK
  range covers consecutive sequence numbers; its segment offsets bound the first and the last of them
  (TS 38.322, 6.2.2.5), and \<open>so_end_of_sdu\<close> stands for the end of the SDU.
\<close>

definition nack_count :: "rlc_am_status_nack \<Rightarrow> int" where
  "nack_count n = (if has_nack_range n then uint (nack_range n) else 1)"

definition nack_covers :: "u32 \<Rightarrow> rlc_am_status_nack \<Rightarrow> u32 \<Rightarrow> nat \<Rightarrow> bool" where
  "nack_covers m n sn off \<longleftrightarrow>
     (let k = uint (sn_dist m (nack_sn n) sn)
      in sn < m \<and> k < nack_count n \<and>
         (has_so n \<longrightarrow>
            (k = 0 \<longrightarrow> unat (so_start n) \<le> off) \<and>
            (k = nack_count n - 1 \<longrightarrow> off \<le> unat (so_end n) \<or> so_end n = so_end_of_sdu)))"

definition status_covers :: "rlc_am_status_pdu \<Rightarrow> u32 \<Rightarrow> nat \<Rightarrow> bool" where
  "status_covers s sn off \<longleftrightarrow> (\<exists>n \<in> set (sp_nacks s). nack_covers (mod_nr s) n sn off)"

definition nack_wf :: "u32 \<Rightarrow> rlc_am_status_nack \<Rightarrow> bool" where
  "nack_wf m n \<longleftrightarrow> nack_sn n < m \<and> (has_nack_range n \<longrightarrow> nack_range n \<noteq> 0)"

lemma nack_count_le: "nack_count n \<le> 255"
  using uint_lt2p [of "nack_range n"] by (simp add: nack_count_def)

lemma nack_count_unat: "nack_count n = int (if has_nack_range n then unat (nack_range n) else 1)"
  by (simp add: nack_count_def)

lemma nack_count_pos: "nack_wf m n \<Longrightarrow> 1 \<le> nack_count n"
  using unat_eq_zero [of "nack_range n"] unfolding nack_wf_def nack_count_unat
  by (cases "unat (nack_range n)") auto

lemma can_be_merged_count: "can_be_merged s p n \<Longrightarrow> nack_count p + nack_count n \<le> 255"
proof -
  assume "can_be_merged s p n"
  then have "(if has_nack_range p then unat (nack_range p) else 1)
      + (if has_nack_range n then unat (nack_range n) else 1) \<le> 255" (is "?l + ?r \<le> 255")
    unfolding can_be_merged_def Let_def by (metis (full_types))
  then show ?thesis unfolding nack_count_unat by linarith
qed

lemma can_be_merged_sn:
  assumes "can_be_merged s p n"
  shows "uint (nack_sn n) = (uint (nack_sn p) + nack_count p) mod uint (mod_nr s)"
proof -
  have "nack_sn n = (nack_sn p + word_of_int (nack_count p)) mod mod_nr s"
    using assms by (simp add: can_be_merged_def nack_count_def split: if_splits)
  moreover have "0 \<le> nack_count p" "nack_count p < 2 ^ 32"
    using nack_count_le [of p] by (auto simp: nack_count_def)
  ultimately show ?thesis
    using am_sn.m_dvd [of "sp_sn_size s"]
    by (simp add: uint_mod uint_word_ariths mod_mod_cancel uint_word_of_int mod_simps)
qed

lemma merged_dist:
  assumes "can_be_merged s p n" "nack_wf (mod_nr s) p" "nack_wf (mod_nr s) n"
  shows "uint (sn_dist (mod_nr s) (nack_sn n) x) < nack_count n \<longleftrightarrow>
    nack_count p \<le> uint (sn_dist (mod_nr s) (nack_sn p) x) \<and>
    uint (sn_dist (mod_nr s) (nack_sn p) x) < nack_count p + nack_count n"
    "nack_count p \<le> uint (sn_dist (mod_nr s) (nack_sn p) x) \<Longrightarrow>
      uint (sn_dist (mod_nr s) (nack_sn n) x) = uint (sn_dist (mod_nr s) (nack_sn p) x) - nack_count p"
proof -
  let ?m = "mod_nr s" and ?d = "\<lambda>b. uint (sn_dist (mod_nr s) b x)"
  have m: "4096 \<le> uint ?m" by (cases "sp_sn_size s") simp_all
  have c: "1 \<le> nack_count p" "1 \<le> nack_count n" "nack_count p + nack_count n \<le> 255"
    using assms nack_count_pos can_be_merged_count by blast+
  have pn: "uint (sn_dist ?m (nack_sn p) (nack_sn n)) = nack_count p"
    using c m by (simp add: am_sn.uint_sn_dist can_be_merged_sn [OF assms(1)] mod_simps)
  have d: "0 \<le> ?d (nack_sn p)" "?d (nack_sn p) < uint ?m" using am_sn.dist_less_m by auto
  show ge: "?d (nack_sn n) = ?d (nack_sn p) - nack_count p" if "nack_count p \<le> ?d (nack_sn p)"
    using am_sn.dist_rebase_le [of "sp_sn_size s" "nack_sn p" "nack_sn n" x] that pn by simp
  have lt: "?d (nack_sn n) = ?d (nack_sn p) - nack_count p + uint ?m" if "?d (nack_sn p) < nack_count p"
  proof -
    have "?d (nack_sn n) = (?d (nack_sn p) - nack_count p) mod uint ?m"
      using am_sn.dist_rebase [of "sp_sn_size s" "nack_sn n" x "nack_sn p"] pn by simp
    also have "\<dots> = (?d (nack_sn p) - nack_count p + uint ?m) mod uint ?m" by simp
    also have "\<dots> = ?d (nack_sn p) - nack_count p + uint ?m"
      using that c m d by (intro mod_pos_pos_trivial) linarith+
    finally show ?thesis .
  qed
  show "?d (nack_sn n) < nack_count n \<longleftrightarrow>
    nack_count p \<le> ?d (nack_sn p) \<and> ?d (nack_sn p) < nack_count p + nack_count n"
    using ge lt c m d by linarith
qed

lemma expand_nack_count:
  assumes "can_be_merged s p n"
  shows "nack_count (expand_nack p n) = nack_count p + nack_count n"
  using can_be_merged_count [OF assms] uint_ge_0 [of "nack_range p"] uint_ge_0 [of "nack_range n"]
  by (auto simp: nack_count_def expand_nack_def Let_def uint_word_ariths simp del: uint_ge_0)

lemma expand_nack_so:
  "nack_sn (expand_nack p n) = nack_sn p"
  "has_nack_range (expand_nack p n)"
  "has_so (expand_nack p n) \<longleftrightarrow> has_so p \<or> has_so n"
  "so_start (expand_nack p n) = (if has_so p then so_start p else if has_so n then 0 else so_start p)"
  "so_end (expand_nack p n) = (if has_so n then so_end n else if has_so p then so_end_of_sdu else so_end p)"
  by (auto simp: expand_nack_def Let_def)

text \<open>Merging two NACKs reports exactly the bytes the two reported.\<close>

lemma expand_nack_covers:
  assumes m: "can_be_merged s p n" and wf: "nack_wf (mod_nr s) p" "nack_wf (mod_nr s) n"
  shows "nack_covers (mod_nr s) (expand_nack p n) x off \<longleftrightarrow>
    nack_covers (mod_nr s) p x off \<or> nack_covers (mod_nr s) n x off"
proof -
  note d = merged_dist [OF assms, of x]
  have c: "1 \<le> nack_count p" "1 \<le> nack_count n" using wf nack_count_pos by blast+
  have so: "has_so p \<longrightarrow> so_end p = so_end_of_sdu" "has_so n \<longrightarrow> so_start n = 0"
    using m by (auto simp: can_be_merged_def split: if_splits)
  have k: "0 \<le> uint (sn_dist (mod_nr s) (nack_sn p) x)" by simp
  show ?thesis
  proof (cases "uint (sn_dist (mod_nr s) (nack_sn p) x) < nack_count p")
    case True
    then show ?thesis using d c so
      by (auto simp: nack_covers_def expand_nack_so expand_nack_count [OF m] Let_def)
  next
    case False
    then show ?thesis using d c so k
      by (auto simp: nack_covers_def expand_nack_so expand_nack_count [OF m] Let_def simp del: uint_ge_0)
  qed
qed

lemma push_nack_covers_iff:
  assumes "\<forall>n \<in> set (sp_nacks s). nack_wf (mod_nr s) n" and "nack_wf (mod_nr s) nack"
  shows "status_covers (push_nack s nack) x off \<longleftrightarrow>
    status_covers s x off \<or> nack_covers (mod_nr s) nack x off"
proof (cases "sp_nacks s = [] \<or> \<not> can_be_merged s (last (sp_nacks s)) nack")
  case True
  then show ?thesis by (auto simp: push_nack_def status_covers_def)
next
  case False
  then obtain ns p where ns: "sp_nacks s = ns @ [p]" by (cases "sp_nacks s" rule: rev_cases) auto
  show ?thesis
    using False assms expand_nack_covers [of s p nack x off]
    by (auto simp: push_nack_def status_covers_def ns Let_def)
qed

text \<open>
  Pushing a NACK into a STATUS PDU, merging it into the previous one where the code does,
  changes the set of bytes reported missing by exactly the bytes of that NACK.
\<close>

lemma push_nack_covers:
  assumes "\<forall>n \<in> set (sp_nacks s). nack_wf (mod_nr s) n" and "nack_wf (mod_nr s) nack"
  shows "status_covers (push_nack s nack) x off \<longleftrightarrow>
    status_covers s x off \<or> nack_covers (mod_nr s) nack x off"
  using assms by (rule push_nack_covers_iff)

definition status_example :: rlc_am_status_pdu where
  "status_example = push_nack (rlc_am_status_pdu_init am_size12bits)
     (rlc_am_status_nack_init\<lparr>nack_sn := 4095\<rparr>)"

definition nack_example :: rlc_am_status_nack where
  "nack_example = rlc_am_status_nack_init\<lparr>has_so := True, so_end := 9\<rparr>"

lemma push_nack_covers_witness:
  "(status_covers (push_nack status_example nack_example) 0 3 \<longleftrightarrow>
     status_covers status_example 0 3 \<or> nack_covers (mod_nr status_example) nack_example 0 3) \<and>
   length (sp_nacks (push_nack status_example nack_example)) = 1"
  using push_nack_covers [of status_example nack_example 0 3]
  by (simp add: status_example_def nack_example_def push_nack_def can_be_merged_def nack_wf_def Let_def
      rlc_am_status_pdu_init_def rlc_am_status_nack_init_def)

section \<open>The packed size and the wire format of STATUS PDUs\<close>

text \<open>The bookkept size is the size of the NACKs, and the form \<open>push_nack\<close> gives a list of NACKs:
  encodable fields, with the defaults in absent ones, and no adjacent pair left to merge.\<close>

definition sp_size_ok :: "rlc_am_status_pdu \<Rightarrow> bool" where
  "sp_size_ok s \<longleftrightarrow> sp_packed_size s = sizeof_header_ack_sn + sum_list (map (nack_size s) (sp_nacks s))"

definition nack_enc_ok :: "u32 \<Rightarrow> rlc_am_status_nack \<Rightarrow> bool" where
  "nack_enc_ok m n \<longleftrightarrow> nack_sn n < m \<and> (\<not> has_so n \<longrightarrow> so_start n = 0 \<and> so_end n = so_end_of_sdu) \<and>
     (\<not> has_nack_range n \<longrightarrow> nack_range n = 0)"

fun nacks_normal :: "rlc_am_status_pdu \<Rightarrow> rlc_am_status_nack list \<Rightarrow> bool" where
  "nacks_normal s (a # b # ns) \<longleftrightarrow> \<not> can_be_merged s a b \<and> nacks_normal s (b # ns)"
| "nacks_normal s _ \<longleftrightarrow> True"

definition sp_normal :: "rlc_am_status_pdu \<Rightarrow> bool" where
  "sp_normal s \<longleftrightarrow> sp_size_ok s \<and> (\<forall>n \<in> set (sp_nacks s). nack_enc_ok (mod_nr s) n) \<and>
     nacks_normal s (sp_nacks s)"

lemma nack_size_cong: "sp_sn_size s = sp_sn_size t \<Longrightarrow> nack_size s = nack_size t"
  by (rule ext) (simp add: nack_size_def)

lemma can_be_merged_cong: "sp_sn_size s = sp_sn_size t \<Longrightarrow> can_be_merged s = can_be_merged t"
  by (intro ext) (simp add: can_be_merged_def)

lemma nacks_normal_cong: "sp_sn_size s = sp_sn_size t \<Longrightarrow> nacks_normal s ns = nacks_normal t ns"
  by (induction s ns rule: nacks_normal.induct) (auto dest: can_be_merged_cong)

lemma nacks_normal_append:
  "nacks_normal s (ns @ [a]) \<longleftrightarrow> nacks_normal s ns \<and> (ns \<noteq> [] \<longrightarrow> \<not> can_be_merged s (last ns) a)"
  by (induction s ns rule: nacks_normal.induct) auto

lemma push_nack_sn_size [simp]: "sp_sn_size (push_nack s n) = sp_sn_size s"
  by (simp add: push_nack_def Let_def)

lemma push_nack_ack_sn [simp]: "sp_ack_sn (push_nack s n) = sp_ack_sn s"
  by (simp add: push_nack_def Let_def)

lemma nacks_normal_snoc_snoc:
  "nacks_normal s (ns @ [a]) \<Longrightarrow> \<not> can_be_merged s a b \<Longrightarrow> nacks_normal s (ns @ [a, b])"
  using nacks_normal_append [of s "ns @ [a]" b] by simp

lemma expand_not_mergeable:
  assumes "\<not> can_be_merged s q p" "can_be_merged s p n"
  shows "\<not> can_be_merged s q (expand_nack p n)"
proof -
  have "int (unat (nack_range (expand_nack p n))) = nack_count p + nack_count n"
    using expand_nack_count [OF assms(2)] by (simp add: nack_count_unat expand_nack_so)
  then have "(if has_nack_range p then unat (nack_range p) else 1) \<le> unat (nack_range (expand_nack p n))"
    unfolding nack_count_unat by linarith
  then show ?thesis using assms
    unfolding can_be_merged_def Let_def
    by (auto simp: expand_nack_so split: if_splits)
qed

lemma push_nack_normal:
  assumes "sp_normal s" "nack_enc_ok (mod_nr s) n"
  shows "sp_normal (push_nack s n)"
proof (cases "sp_nacks s = [] \<or> \<not> can_be_merged s (last (sp_nacks s)) n")
  case True
  then show ?thesis using assms nack_size_cong [of "push_nack s n" s] 
     nacks_normal_cong [of "push_nack s n" s] nacks_normal_append [of s "sp_nacks s" n]
    by (auto simp: sp_normal_def sp_size_ok_def push_nack_def)
next
  case False
  then obtain ns p where ns: "sp_nacks s = ns @ [p]" by (cases "sp_nacks s" rule: rev_cases) auto
  with False have m: "can_be_merged s p n" by simp
  have e: "nack_enc_ok (mod_nr s) (expand_nack p n)"
    using assms ns by (auto simp: sp_normal_def nack_enc_ok_def expand_nack_so)
  have nn: "nacks_normal s (ns @ [expand_nack p n])"
    using assms expand_not_mergeable [OF _ m] by (auto simp: sp_normal_def ns nacks_normal_append)
  show ?thesis using False assms e nn m nack_size_cong [of "push_nack s n" s] 
     nacks_normal_cong [of "push_nack s n" s]
    by (auto simp: sp_normal_def sp_size_ok_def push_nack_def ns Let_def)
qed

lemma unpack_nack_ext:
  assumes "nack_enc_ok m n"
  shows "Option.bind (unpack_nack_so (has_so n) (rlc_am_status_nack_init\<lparr>nack_sn := nack_sn n\<rparr>)
          (pack_nack_ext n @ r)) (\<lambda>(nack, r3).
        Option.bind (unpack_nack_range (has_nack_range n) nack r3) (\<lambda>(nack, r4).
          Some (nack, e1, r4))) = Some (n, e1, r)"
proof -
  have u16_bytes: "push_bit 8 (ucast (ucast (drop_bit 8 x) :: u8)) OR ucast (ucast x :: u8) = x" for x :: u16
    by (rule bit_word_eqI) (auto simp: bit_simps)
  show ?thesis using assms
    by (cases n) (auto simp: unpack_nack_so_def unpack_nack_range_def pack_nack_ext_def u16_bytes
      nack_enc_ok_def rlc_am_status_nack_init_def)
qed

lemma unpack_pack_nack_12bit:
  assumes n: "nack_enc_ok 4096 n"
  shows "unpack_nack_12bit (pack_nack_12bit e1 n @ r) = Some (n, e1, r)"
proof -
  define b2 :: u8 where "b2 = ucast (push_bit 4 (nack_sn n AND 0x0f)) OR (if e1 then 0x08 else 0)
    OR (if has_so n then 0x04 else 0) OR (if has_nack_range n then 0x02 else 0)"
  have sn: "bit (nack_sn n) i \<Longrightarrow> i < 12" for i
    using n bit_less_exp [of "nack_sn n" 12 i] by (simp add: nack_enc_ok_def push_bit_eq_mult)
  have b: "bit b2 i \<longleftrightarrow> (4 \<le> i \<and> i < 8 \<and> bit (nack_sn n) (i - 4)) \<or> (i = 3 \<and> e1) \<or>
      (i = 2 \<and> has_so n) \<or> (i = 1 \<and> has_nack_range n)" for i
    unfolding b2_def and_masks bit_or_iff if_distrib [of "\<lambda>x. bit x i"] bit_u8_flags
    by (auto simp: bit_simps)
  have e: "push_bit 4 (ucast (ucast (drop_bit 4 (nack_sn n) AND 0xff) :: u8) AND 0xff)
      OR ucast (drop_bit 4 (b2 AND 0xf0)) = nack_sn n"
    unfolding drop_bit_and_high and_masks by (rule bit_word_eqI) (auto simp: bit_simps b dest: sn)
  have z: "b2 AND 0x01 = 0" "(b2 AND 0x08 \<noteq> 0) = e1" "(b2 AND 0x04 \<noteq> 0) = has_so n"
    "(b2 AND 0x02 \<noteq> 0) = has_nack_range n"
    unfolding and_flag_iff by (simp_all add: b)
  show ?thesis
    unfolding unpack_nack_12bit_def pack_nack_12bit_def b2_def [symmetric] append_Cons append_Nil
      list.case Let_def z e
    using unpack_nack_ext [OF n] by simp
qed

lemma unpack_pack_nack_18bit:
  assumes n: "nack_enc_ok 262144 n"
  shows "unpack_nack_18bit (pack_nack_18bit e1 n @ r) = Some (n, e1, r)"
proof -
  define b3 :: u8 where "b3 = ucast (push_bit 6 (nack_sn n) AND 0xc0) OR (if e1 then 0x20 else 0)
    OR (if has_so n then 0x10 else 0) OR (if has_nack_range n then 0x08 else 0)"
  have sn: "bit (nack_sn n) i \<Longrightarrow> i < 18" for i
    using n bit_less_exp [of "nack_sn n" 18 i] by (simp add: nack_enc_ok_def push_bit_eq_mult)
  have c0: "ucast (push_bit 6 (nack_sn n) AND 0xc0) = (ucast (push_bit 6 (nack_sn n AND 3)) :: u8)"
    by simp
  have b: "bit b3 i \<longleftrightarrow> (6 \<le> i \<and> i < 8 \<and> bit (nack_sn n) (i - 6)) \<or> (i = 5 \<and> e1) \<or>
      (i = 4 \<and> has_so n) \<or> (i = 3 \<and> has_nack_range n)" for i
    unfolding b3_def c0 and_masks bit_or_iff if_distrib [of "\<lambda>x. bit x i"] bit_u8_flags
    by (auto simp: bit_simps)
  have e: "push_bit 10 (ucast (ucast (drop_bit 10 (nack_sn n) AND 0xff) :: u8) AND 0xff)
      OR push_bit 2 (ucast (ucast (drop_bit 2 (nack_sn n) AND 0xff) :: u8) AND 0xff)
      OR ucast (drop_bit 6 (b3 AND 0xc0)) = nack_sn n" (is "?w = _")
  proof (rule bit_word_eqI)
    fix i
    have "2 \<le> i \<Longrightarrow> Suc (Suc (i - 2)) = i" "10 \<le> i \<Longrightarrow> 10 + (i - 10) = i" by simp_all
    then show "bit ?w i = bit (nack_sn n) i" unfolding drop_bit_and_high and_masks
      by (cases "i < 2"; cases "i < 10") (auto simp: bit_simps b dest: sn)
  qed
  have z7: "b3 AND 0x07 = 0"
    unfolding and_masks by (rule bit_word_eqI) (auto simp: bit_simps b)
  have z: "(b3 AND 0x20 \<noteq> 0) = e1" "(b3 AND 0x10 \<noteq> 0) = has_so n"
    "(b3 AND 0x08 \<noteq> 0) = has_nack_range n"
    unfolding and_flag_iff by (simp_all add: b)
  show ?thesis
    unfolding unpack_nack_18bit_def pack_nack_18bit_def b3_def [symmetric] append_Cons append_Nil
      list.case Let_def z z7 e
    using unpack_nack_ext [OF n] by simp
qed

definition pack_nack :: "rlc_am_sn_size \<Rightarrow> bool \<Rightarrow> rlc_am_status_nack \<Rightarrow> bytes" where
  "pack_nack sz = (case sz of am_size12bits \<Rightarrow> pack_nack_12bit | am_size18bits \<Rightarrow> pack_nack_18bit)"

lemma unpack_pack_nack: "nack_enc_ok (am_mod sz) n \<Longrightarrow> unpack_nack sz (pack_nack sz e1 n @ r) = Some (n, e1, r)"
  by (cases sz) (simp_all add: unpack_nack_def pack_nack_def unpack_pack_nack_12bit unpack_pack_nack_18bit)

lemma unpack_pack_nacks:
  assumes "\<forall>n \<in> set ns. nack_enc_ok (mod_nr s) n"
  shows "unpack_nacks (ns \<noteq> []) s (pack_nacks (pack_nack (sp_sn_size s)) ns) = Some (foldl push_nack s ns)"
  using assms
proof (induction ns arbitrary: s)
  case (Cons n ns)
  then show ?case
    using Cons.IH [of "push_nack s n"]
    by (simp add: unpack_nacks.simps [of True s] unpack_pack_nack)
qed (simp add: unpack_nacks.simps)

text \<open>Pushing the NACKs of a normal list one by one onto an empty PDU rebuilds that list.\<close>

lemma foldl_push_nack_normal:
  assumes "nacks_normal s (sp_nacks s @ ns)"
  shows "foldl push_nack s ns = s\<lparr>sp_nacks := sp_nacks s @ ns,
    sp_packed_size := sp_packed_size s + sum_list (map (nack_size s) ns)\<rparr>"
  using assms
proof (induction ns arbitrary: s)
  case (Cons n ns)
  have nm: "sp_nacks s = [] \<or> \<not> can_be_merged s (last (sp_nacks s)) n"
  proof (cases "sp_nacks s" rule: rev_cases)
    case (snoc ms l)
    have "nacks_normal s (ms @ l # n # ns) \<Longrightarrow> \<not> can_be_merged s l n"
      by (induction s ms rule: nacks_normal.induct) auto
    then show ?thesis using Cons.prems snoc by simp
  qed simp
  have "nacks_normal (push_nack s n) (sp_nacks (push_nack s n) @ ns)"
    using nm Cons.prems nacks_normal_cong [of "push_nack s n" s] by (auto simp: push_nack_def)
  from Cons.IH [OF this] nm show ?case
    using nack_size_cong [of "push_nack s n" s] by (auto simp: push_nack_def add.assoc)
qed simp

lemma sp_pack_nacks: "sp_pack s = take 3 (sp_pack s) @ pack_nacks (pack_nack (sp_sn_size s)) (sp_nacks s)"
  by (cases "sp_sn_size s") (simp_all add: sp_pack_def pack_12bit_def pack_18bit_def pack_nack_def)

lemma sp_unpack_pack_header:
  assumes ack: "sp_ack_sn s < mod_nr s" and sz: "sp_sn_size s0 = sp_sn_size s"
  shows "sp_unpack s0 (sp_pack s) = unpack_nacks (sp_nacks s \<noteq> []) ((sp_reset s0)\<lparr>sp_ack_sn := sp_ack_sn s\<rparr>)
    (pack_nacks (pack_nack (sp_sn_size s)) (sp_nacks s))"
proof (cases "sp_sn_size s")
  case am_size12bits
  define b1 :: u8 where "b1 = ucast (drop_bit 8 (sp_ack_sn s) AND 0x0f)"
  define b3 :: u8 where "b3 = (if sp_nacks s \<noteq> [] then 0x80 else 0)"
  have sn: "bit (sp_ack_sn s) i \<Longrightarrow> i < 12" for i
    using ack am_size12bits bit_less_exp [of "sp_ack_sn s" 12 i] by (simp add: push_bit_eq_mult)
  have b: "bit b1 i \<longleftrightarrow> i < 4 \<and> bit (sp_ack_sn s) (i + 8)" for i
    unfolding b1_def and_masks by (auto simp: bit_simps add.commute)
  have d: "drop_bit 4 b1 = 0" by (rule bit_word_eqI) (simp add: bit_simps b)
  have d7: "drop_bit 7 b1 = 0" by (rule bit_word_eqI) (simp add: bit_simps b)
  have e: "push_bit 8 (ucast b1 AND 0x0f) OR (ucast (ucast (sp_ack_sn s AND 0xff) :: u8) AND 0xff) = sp_ack_sn s"
    unfolding and_masks by (rule bit_word_eqI) (auto simp: bit_simps b dest: sn)
  have z: "b3 AND 0x7f = 0" "(b3 AND 0x80 \<noteq> 0) = (sp_nacks s \<noteq> [])" by (simp_all add: b3_def)
  have w: "sp_pack s = b1 # ucast (sp_ack_sn s AND 0xff) # b3 # pack_nacks (pack_nack am_size12bits) (sp_nacks s)"
    unfolding sp_pack_def am_size12bits pack_12bit_def b1_def b3_def pack_nack_def by simp
  show ?thesis
    unfolding w unfolding sp_unpack_def unpack_12bit_def sz am_size12bits rlc_am_sn_size.case list.case
      Let_def e z is_control_pdu_def d d7 by simp
next
  case am_size18bits
  define b1 :: u8 where "b1 = ucast (drop_bit 14 (sp_ack_sn s) AND 0x0f)"
  define b3 :: u8 where "b3 = ucast (push_bit 2 (sp_ack_sn s) AND 0xfc) OR (if sp_nacks s \<noteq> [] then 0x02 else 0)"
  have sn: "bit (sp_ack_sn s) i \<Longrightarrow> i < 18" for i
    using ack am_size18bits bit_less_exp [of "sp_ack_sn s" 18 i] by (simp add: push_bit_eq_mult)
  have b: "bit b1 i \<longleftrightarrow> i < 4 \<and> bit (sp_ack_sn s) (i + 14)" for i
    unfolding b1_def and_masks by (auto simp: bit_simps add.commute)
  have d: "drop_bit 4 b1 = 0" by (rule bit_word_eqI) (simp add: bit_simps b)
  have d7: "drop_bit 7 b1 = 0" by (rule bit_word_eqI) (simp add: bit_simps b)
  have c: "ucast (push_bit 2 (sp_ack_sn s) AND 0xfc) = (ucast (push_bit 2 (sp_ack_sn s AND 0x3f)) :: u8)"
    by simp
  have b': "bit b3 i \<longleftrightarrow> (2 \<le> i \<and> i < 8 \<and> bit (sp_ack_sn s) (i - 2)) \<or> (i = 1 \<and> sp_nacks s \<noteq> [])" for i
    unfolding b3_def c and_masks bit_or_iff if_distrib [of "\<lambda>x. bit x i"] bit_u8_flags
    by (auto simp: bit_simps)
  have e: "push_bit 14 (ucast b1 AND 0x0f) OR push_bit 6 (ucast (ucast (drop_bit 6 (sp_ack_sn s) AND 0xff) :: u8) AND 0xff)
      OR ucast (drop_bit 2 (b3 AND 0xfc)) = sp_ack_sn s" (is "?w = _")
  proof (rule bit_word_eqI)
    fix i :: nat
    have "6 \<le> i \<Longrightarrow> 6 + (i - 6) = i" "14 \<le> i \<Longrightarrow> 14 + (i - 14) = i" by simp_all
    then show "bit ?w i = bit (sp_ack_sn s) i" unfolding drop_bit_and_high and_masks
      by (cases "i < 6"; cases "i < 14") (auto simp: bit_simps b b' dest: sn)
  qed
  have z: "b3 AND 0x01 = 0" "(b3 AND 0x02 \<noteq> 0) = (sp_nacks s \<noteq> [])"
    unfolding and_flag_iff by (simp_all add: b')
  have w: "sp_pack s = b1 # ucast (drop_bit 6 (sp_ack_sn s) AND 0xff) # b3
      # pack_nacks (pack_nack am_size18bits) (sp_nacks s)"
    unfolding sp_pack_def am_size18bits pack_18bit_def b1_def b3_def pack_nack_def by simp
  show ?thesis
    unfolding w unfolding sp_unpack_def unpack_18bit_def sz am_size18bits rlc_am_sn_size.case list.case
      Let_def e z is_control_pdu_def d d7 by simp
qed

lemma sp_unpack_pack_normal:
  assumes "sp_normal s" "sp_ack_sn s < mod_nr s" "sp_sn_size s0 = sp_sn_size s"
  shows "sp_unpack s0 (sp_pack s) = Some s"
proof -
  let ?s1 = "(sp_reset s0)\<lparr>sp_ack_sn := sp_ack_sn s\<rparr>"
  have n: "nacks_normal ?s1 (sp_nacks ?s1 @ sp_nacks s)"
    using assms nacks_normal_cong [of ?s1 s] by (simp add: sp_normal_def sp_reset_def)
  have "sp_unpack s0 (sp_pack s) = Some (foldl push_nack ?s1 (sp_nacks s))"
    using sp_unpack_pack_header [OF assms(2,3)] unpack_pack_nacks [of "sp_nacks s" ?s1] assms
    by (simp add: sp_normal_def sp_reset_def)
  also have "foldl push_nack ?s1 (sp_nacks s) = s"
    unfolding foldl_push_nack_normal [OF n]
    using assms nack_size_cong [of ?s1 s] by (simp add: sp_normal_def sp_size_ok_def sp_reset_def)
  finally show ?thesis .
qed

lemma pack_nack_length: "of_nat (length (pack_nack (sp_sn_size s) e1 n)) = nack_size s n"
  by (cases "sp_sn_size s") (simp_all add: pack_nack_def pack_nack_12bit_def pack_nack_18bit_def
    pack_nack_ext_def nack_size_def)

lemma sp_pack_length: "of_nat (length (sp_pack s)) = sizeof_header_ack_sn + sum_list (map (nack_size s) (sp_nacks s))"
proof -
  have "of_nat (length (pack_nacks (pack_nack (sp_sn_size s)) ns)) = sum_list (map (nack_size s) ns)" for ns
    by (induction ns) (simp_all add: pack_nack_length)
  moreover have "length (take 3 (sp_pack s)) = 3"
    by (cases "sp_sn_size s") (simp_all add: sp_pack_def pack_12bit_def pack_18bit_def)
  ultimately show ?thesis
    by (subst sp_pack_nacks) (simp add: sizeof_header_ack_sn_def)
qed

text \<open>
  Property C30: a STATUS PDU that was filled by \<open>push_nack\<close> from an empty one survives the wire, for both
  SN sizes: unpacking what \<open>pack\<close> wrote, into any status object, gives the same PDU back, and the
  bookkept packed size is the number of bytes written.
\<close>

theorem status_pdu_roundtrip:
  assumes "\<forall>n \<in> set ns. nack_enc_ok (am_mod sz) n" and "ack < am_mod sz" and "sp_sn_size s0 = sz"
  defines "s \<equiv> foldl push_nack ((rlc_am_status_pdu_init sz)\<lparr>sp_ack_sn := ack\<rparr>) ns"
  shows "sp_unpack s0 (sp_pack s) = Some s \<and> of_nat (length (sp_pack s)) = sp_packed_size s"
proof -
  have "sp_normal (foldl push_nack t ns) \<and> sp_ack_sn (foldl push_nack t ns) = sp_ack_sn t
      \<and> sp_sn_size (foldl push_nack t ns) = sp_sn_size t"
    if "sp_normal t" "\<forall>n \<in> set ns. nack_enc_ok (mod_nr t) n" for t
    using that by (induction ns arbitrary: t) (auto simp: push_nack_normal)
  from this [of "(rlc_am_status_pdu_init sz)\<lparr>sp_ack_sn := ack\<rparr>"] assms(1)
  have "sp_normal s" "sp_ack_sn s = ack" "sp_sn_size s = sz"
    by (auto simp: s_def rlc_am_status_pdu_init_def sp_normal_def sp_size_ok_def)
  then show ?thesis using assms(2,3) sp_unpack_pack_normal [of s s0] sp_pack_length [of s]
    by (simp add: sp_normal_def sp_size_ok_def)
qed

theorem status_pdu_roundtrip_witness:
  "let s = foldl push_nack ((rlc_am_status_pdu_init am_size12bits)\<lparr>sp_ack_sn := 5\<rparr>)
       [rlc_am_status_nack_init\<lparr>nack_sn := 4095\<rparr>, nack_example]
   in sp_unpack (rlc_am_status_pdu_init am_size12bits) (sp_pack s) = Some s
      \<and> of_nat (length (sp_pack s)) = sp_packed_size s"
  using status_pdu_roundtrip [of "[rlc_am_status_nack_init\<lparr>nack_sn := 4095\<rparr>, nack_example]" am_size12bits 5
    "rlc_am_status_pdu_init am_size12bits"]
  unfolding Let_def by (simp add: nack_enc_ok_def nack_example_def rlc_am_status_nack_init_def
    rlc_am_status_pdu_init_def)

section \<open>Trimming\<close>

lemma trim_loop_size:
  assumes "sp_size_ok s" "sizeof_header_ack_sn \<le> mx"
  shows "sp_packed_size (trim_loop mx s) \<le> mx \<and> sp_size_ok (trim_loop mx s)"
  using assms
proof (induction mx s rule: trim_loop.induct)
  case (1 mx s)
  show ?case
  proof (cases "sp_nacks s \<noteq> [] \<and> (mx < sp_packed_size s \<or> nack_sn (last (sp_nacks s)) = sp_ack_sn s)")
    case True
    then obtain ns l where ns: "sp_nacks s = ns @ [l]" by (cases "sp_nacks s" rule: rev_cases) auto
    let ?s' = "s\<lparr>sp_packed_size := sp_packed_size s - nack_size s l, sp_ack_sn := nack_sn l, sp_nacks := ns\<rparr>"
    have "sp_size_ok ?s'" using "1.prems" nack_size_cong [of ?s' s] by (simp add: sp_size_ok_def ns)
    then show ?thesis using "1.IH" [OF True] True "1.prems"
      by (simp add: trim_loop.simps [of mx s] ns)
  next
    case False
    then show ?thesis using "1.prems"
      by (auto simp: trim_loop.simps [of mx s] sp_size_ok_def not_less)
  qed
qed

lemma trim_loop_last:
  "sp_nacks (trim_loop mx s) \<noteq> [] \<Longrightarrow> nack_sn (last (sp_nacks (trim_loop mx s))) \<noteq> sp_ack_sn (trim_loop mx s)"
  by (induction mx s rule: trim_loop.induct) (metis trim_loop.simps)

lemma trim_loop_prefix:
  "\<exists>k \<le> length (sp_nacks s). sp_nacks (trim_loop mx s) = take k (sp_nacks s) \<and>
     sp_ack_sn (trim_loop mx s) = (if k < length (sp_nacks s) then nack_sn (sp_nacks s ! k) else sp_ack_sn s)"
proof (induction mx s rule: trim_loop.induct)
  case (1 mx s)
  show ?case
  proof (cases "sp_nacks s \<noteq> [] \<and> (mx < sp_packed_size s \<or> nack_sn (last (sp_nacks s)) = sp_ack_sn s)")
    case True
    then obtain ns l where ns: "sp_nacks s = ns @ [l]" by (cases "sp_nacks s" rule: rev_cases) auto
    from "1.IH" [OF True] obtain k where "k \<le> length ns"
      "sp_nacks (trim_loop mx s) = take k ns"
      "sp_ack_sn (trim_loop mx s) = (if k < length ns then nack_sn (ns ! k) else nack_sn l)"
      using True by (auto simp: trim_loop.simps [of mx s] ns)
    then show ?thesis by (intro exI [of _ k]) (auto simp: ns nth_append)
  next
    case False
    then have "trim_loop mx s = s" by (subst trim_loop.simps) auto
    then show ?thesis by (intro exI [of _ "length (sp_nacks s)"]) simp
  qed
qed

text \<open>
  Trimming a STATUS PDU to a grant of at least the fixed part succeeds, fits the grant, keeps
  a prefix of the NACKs, moves ACK_SN back to the first dropped NACK (so nothing that was reported
  missing becomes acknowledged) and leaves no trailing NACK with the new ACK_SN.
\<close>

lemma sp_trim_correct:
  assumes "sp_size_ok s" and "sizeof_header_ack_sn \<le> mx"
  shows "snd (sp_trim s mx) \<and> sp_packed_size (fst (sp_trim s mx)) \<le> mx \<and> sp_size_ok (fst (sp_trim s mx)) \<and>
    (\<exists>k \<le> length (sp_nacks s). sp_nacks (fst (sp_trim s mx)) = take k (sp_nacks s) \<and>
       sp_ack_sn (fst (sp_trim s mx)) =
         (if k < length (sp_nacks s) then nack_sn (sp_nacks s ! k) else sp_ack_sn s) \<and>
       (0 < k \<and> k < length (sp_nacks s) \<longrightarrow> nack_sn (sp_nacks s ! (k - 1)) \<noteq> nack_sn (sp_nacks s ! k)))"
proof (cases "sp_packed_size s \<le> mx")
  case True
  then show ?thesis using assms by (auto simp: sp_trim_def intro!: exI [of _ "length (sp_nacks s)"])
next
  case False
  obtain k where k: "k \<le> length (sp_nacks s)" "sp_nacks (trim_loop mx s) = take k (sp_nacks s)"
    "sp_ack_sn (trim_loop mx s) = (if k < length (sp_nacks s) then nack_sn (sp_nacks s ! k) else sp_ack_sn s)"
    using trim_loop_prefix by blast
  have "0 < k \<and> k < length (sp_nacks s) \<longrightarrow> nack_sn (sp_nacks s ! (k - 1)) \<noteq> nack_sn (sp_nacks s ! k)"
    using trim_loop_last [of mx s] unfolding k by (cases "sp_nacks s = []") (auto simp: last_conv_nth)
  then show ?thesis using k trim_loop_size [OF assms] False assms(2)
    by (auto simp: sp_trim_def not_less not_le)
qed

definition trim_example :: rlc_am_status_pdu where
  "trim_example = foldl push_nack ((rlc_am_status_pdu_init am_size12bits)\<lparr>sp_ack_sn := 9\<rparr>)
     [rlc_am_status_nack_init\<lparr>nack_sn := 2\<rparr>, rlc_am_status_nack_init\<lparr>nack_sn := 4\<rparr>,
      rlc_am_status_nack_init\<lparr>nack_sn := 6\<rparr>]"

lemma sp_trim_correct_witness:
  "snd (sp_trim trim_example 8) \<and> sp_packed_size (fst (sp_trim trim_example 8)) \<le> 8 \<and>
   sp_packed_size trim_example = 9"
proof -
  have "sp_size_ok trim_example" "sp_packed_size trim_example = 9"
    by (simp_all add: trim_example_def sp_size_ok_def push_nack_def can_be_merged_def nack_size_def
      rlc_am_status_pdu_init_def rlc_am_status_nack_init_def sizeof_header_ack_sn_def)
  then show ?thesis
    using sp_trim_correct [of trim_example 8] by (simp add: sizeof_header_ack_sn_def)
qed

end
