(* ===== verification/Rlc_Segments.thy ===== *)
theory Rlc_Segments
  imports Rlc_Config
begin

text \<open>
  Buffering of SDU segments in the receiver (\<open>lib/rlc/rlc_rx_am_entity.h\<close> and \<open>.cpp\<close>; the UM receiver
  has the same container): the ordered set of segments of one SDU, the insertion that trims or drops
  overlapping bytes, the inventory that decides whether an SDU is complete, and reassembly.

  A \<open>std::set\<close> ordered by SO is the list of its elements in iteration order; \<open>seg_insert\<close> is its
  \<open>insert\<close>, which places the element by key and ignores it when the key is present.  SO is a \<open>uint16_t\<close>;
  the last-byte computations are \<open>uint32_t\<close>, and the assignments back to SO truncate, as in the source.
\<close>

section \<open>Definitions\<close>

record rx_sdu_segment =
  seg_si :: rlc_si_field
  seg_so :: u16
  seg_payload :: bytes

datatype sdu_data = Full_sdu bytes | Segment_set "rx_sdu_segment list"

record rx_sdu_info =
  fully_received :: bool
  has_gap :: bool
  info_data :: sdu_data

definition rx_sdu_info_init :: rx_sdu_info where
  "rx_sdu_info_init = \<lparr>fully_received = False, has_gap = False, info_data = Full_sdu []\<rparr>"

fun seg_insert :: "rx_sdu_segment \<Rightarrow> rx_sdu_segment list \<Rightarrow> rx_sdu_segment list" where
  "seg_insert s [] = [s]"
| "seg_insert s (t # ts) =
     (if seg_so s < seg_so t then s # t # ts
      else if seg_so s = seg_so t then t # ts
      else t # seg_insert s ts)"

definition seg_last_byte :: "rx_sdu_segment \<Rightarrow> u32" where
  "seg_last_byte s = ucast (seg_so s) + of_nat (length (seg_payload s)) - 1"

text \<open>\<open>payload.advance(n); so = last + 1\<close> on a segment.\<close>

definition seg_cut_front :: "u32 \<Rightarrow> rx_sdu_segment \<Rightarrow> rx_sdu_segment" where
  "seg_cut_front last_byte s = s\<lparr>seg_payload := drop (unat (last_byte + 1 - ucast (seg_so s))) (seg_payload s),
     seg_so := ucast (last_byte + 1)\<rparr>"

text \<open>
  The loop of \<open>store_segment\<close>: \<open>seen\<close> holds the segments before \<open>cur_segment\<close>.  The result is the
  set after the loop and the (trimmed) new segment, or no segment where the code returns false.
\<close>

fun store_loop :: "rx_sdu_segment list \<Rightarrow> rx_sdu_segment list \<Rightarrow> rx_sdu_segment \<Rightarrow>
    rx_sdu_segment list \<times> rx_sdu_segment option" where
  "store_loop seen [] new = (seen, Some new)"
| "store_loop seen (cur # rest) new =
     (let cur_last_byte = seg_last_byte cur;
          new_last_byte = seg_last_byte new
      in if ucast (seg_so new) > cur_last_byte then store_loop (seen @ [cur]) rest new
         else if seg_so new \<ge> seg_so cur then
           (if new_last_byte \<le> cur_last_byte then (seen @ cur # rest, None)
            else store_loop (seen @ [cur]) rest (seg_cut_front cur_last_byte new))
         else if new_last_byte < ucast (seg_so cur) then (seen @ cur # rest, Some new)
         else if new_last_byte < cur_last_byte then
           (seg_insert (seg_cut_front new_last_byte cur) (seen @ rest), Some new)
         else store_loop seen rest new)"

definition segments_of :: "sdu_data \<Rightarrow> rx_sdu_segment list" where
  "segments_of d = (case d of Full_sdu _ \<Rightarrow> [] | Segment_set ss \<Rightarrow> ss)"

definition store_segment :: "rx_sdu_info \<Rightarrow> rx_sdu_segment \<Rightarrow> rx_sdu_info \<times> bool" where
  "store_segment sdu_info new_segment =
     (case store_loop [] (segments_of (info_data sdu_info)) new_segment of
        (segs, None) \<Rightarrow> (sdu_info\<lparr>info_data := Segment_set segs\<rparr>, False)
      | (segs, Some s) \<Rightarrow> (sdu_info\<lparr>info_data := Segment_set (seg_insert s segs)\<rparr>, True))"

text \<open>The inventory loop returns the pair (has_gap, fully_received).\<close>

fun inventory_loop :: "u32 \<Rightarrow> rx_sdu_segment list \<Rightarrow> bool \<times> bool" where
  "inventory_loop next_byte [] = (False, False)"
| "inventory_loop next_byte (segm # rest) =
     (if ucast (seg_so segm) \<noteq> next_byte then (True, False)
      else if seg_si segm = last_segment then (False, True)
      else inventory_loop (next_byte + of_nat (length (seg_payload segm))) rest)"

text \<open>\<open>None\<close> is the failed assertion on the variant.\<close>

definition update_segment_inventory :: "rx_sdu_info \<Rightarrow> rx_sdu_info option" where
  "update_segment_inventory rx_sdu =
     (case info_data rx_sdu of
        Full_sdu _ \<Rightarrow> None
      | Segment_set segs \<Rightarrow>
          (if segs = [] then Some (rx_sdu\<lparr>fully_received := False, has_gap := False\<rparr>)
           else case inventory_loop 0 segs of (gap, full) \<Rightarrow>
             Some (rx_sdu\<lparr>has_gap := gap, fully_received := full\<rparr>)))"

text \<open>
  \<open>chain_ok\<close> says whether the segment pool can serve \<open>byte_buffer_chain::create\<close> and the appends.
\<close>

definition reassemble_sdu :: "bool \<Rightarrow> rx_sdu_info \<Rightarrow> bytes option" where
  "reassemble_sdu chain_ok sdu_info =
     (if \<not> fully_received sdu_info then None
      else if \<not> chain_ok then None
      else Some (case info_data sdu_info of
             Full_sdu payload \<Rightarrow> payload
           | Segment_set segs \<Rightarrow> concat (map seg_payload segs)))"

text \<open>Storing one segment and refreshing the inventory, as \<open>handle_segment_data_sdu\<close> does.\<close>

definition receive_segment :: "rx_sdu_info \<Rightarrow> rx_sdu_segment \<Rightarrow> (rx_sdu_info \<times> bool) option" where
  "receive_segment i s = (case store_segment i s of (i', stored) \<Rightarrow>
     map_option (\<lambda>i''. (i'', stored)) (update_segment_inventory i'))"


section \<open>Specification: segments of one SDU\<close>

text \<open>
  \<open>seg_wf s\<close>: the segment is not empty and ends within the first 65535 bytes (the offset 0xffff stands for the end of an SDU).
  \<open>seg_ok sdu s\<close>: the segment \<open>s\<close> is a non-empty slice of \<open>sdu\<close>, and it is marked as the last one
  exactly when it reaches the end of the SDU.  \<open>segs_ok P\<close> is the invariant of the ordered set: the
  segments satisfy \<open>P\<close> and lie behind one another, without overlap, from the offset \<open>lo\<close> on.
\<close>

abbreviation seg_begin :: "rx_sdu_segment \<Rightarrow> nat" where
  "seg_begin s \<equiv> unat (seg_so s)"

abbreviation seg_end :: "rx_sdu_segment \<Rightarrow> nat" where
  "seg_end s \<equiv> unat (seg_so s) + length (seg_payload s)"

definition seg_wf :: "rx_sdu_segment \<Rightarrow> bool" where
  "seg_wf s \<longleftrightarrow> seg_payload s \<noteq> [] \<and> seg_end s \<le> 65535"

definition seg_ok :: "bytes \<Rightarrow> rx_sdu_segment \<Rightarrow> bool" where
  "seg_ok sdu s \<longleftrightarrow> length sdu \<le> 65535 \<and> seg_payload s \<noteq> [] \<and> seg_end s \<le> length sdu \<and>
     seg_payload s = take (length (seg_payload s)) (drop (seg_begin s) sdu) \<and>
     (seg_si s = last_segment \<longleftrightarrow> seg_end s = length sdu)"

fun segs_ok :: "(rx_sdu_segment \<Rightarrow> bool) \<Rightarrow> nat \<Rightarrow> rx_sdu_segment list \<Rightarrow> bool" where
  "segs_ok P lo [] \<longleftrightarrow> True"
| "segs_ok P lo (s # ss) \<longleftrightarrow> lo \<le> seg_begin s \<and> P s \<and> segs_ok P (seg_end s) ss"

definition seg_dom :: "rx_sdu_segment \<Rightarrow> nat set" where
  "seg_dom s = {seg_begin s..<seg_end s}"

definition segs_dom :: "rx_sdu_segment list \<Rightarrow> nat set" where
  "segs_dom ss = (\<Union>s \<in> set ss. seg_dom s)"

section \<open>Storing a segment\<close>

lemma segs_dom_simps [simp]:
  "segs_dom [] = {}" "segs_dom (s # ss) = seg_dom s \<union> segs_dom ss"
  "segs_dom (xs @ ys) = segs_dom xs \<union> segs_dom ys"
  by (auto simp: segs_dom_def)

lemma segs_ok_lower: "segs_ok P lo ss \<Longrightarrow> x \<in> segs_dom ss \<Longrightarrow> lo \<le> x"
  by (induction P lo ss rule: segs_ok.induct) (auto simp: seg_dom_def)

lemma segs_ok_mono: "segs_ok P lo ss \<Longrightarrow> lo' \<le> lo \<Longrightarrow> segs_ok P lo' ss"
  by (cases ss) auto

text \<open>The end of the covered range below a list, used as the frontier while walking it.\<close>

fun segs_hi :: "nat \<Rightarrow> rx_sdu_segment list \<Rightarrow> nat" where
  "segs_hi lo [] = lo"
| "segs_hi lo (s # ss) = segs_hi (seg_end s) ss"

lemma segs_hi_append [simp]: "segs_hi lo (xs @ ys) = segs_hi (segs_hi lo xs) ys"
  by (induction lo xs rule: segs_hi.induct) auto

lemma segs_ok_append: "segs_ok P lo (xs @ ys) \<longleftrightarrow> segs_ok P lo xs \<and> segs_ok P (segs_hi lo xs) ys"
  by (induction P lo xs rule: segs_ok.induct) auto

lemma seg_wf_length: "seg_wf s \<Longrightarrow> \<exists>k. length (seg_payload s) = Suc k"
  unfolding seg_wf_def by (metis length_0_conv not0_implies_Suc)

lemma seg_begin_in_dom: "seg_wf s \<Longrightarrow> seg_begin s \<in> seg_dom s"
  by (auto simp: seg_dom_def dest: seg_wf_length)

lemma seg_ok_wf: "seg_ok sdu s \<Longrightarrow> seg_wf s"
  by (simp add: seg_wf_def seg_ok_def)

lemma segs_hi_ge: "segs_ok P lo xs \<Longrightarrow> lo \<le> segs_hi lo xs"
  by (induction P lo xs rule: segs_ok.induct) auto

lemma segs_dom_hi: "segs_ok P lo xs \<Longrightarrow> x \<in> segs_dom xs \<Longrightarrow> x < segs_hi lo xs"
  by (induction P lo xs rule: segs_ok.induct) (auto simp: seg_dom_def dest!: segs_hi_ge)

lemma unat_ucast_so: "unat (ucast (so :: u16) :: u32) = unat so"
  using unsigned_less [of so, where ?'a = nat] by (simp add: unsigned_ucast_eq take_bit_nat_eq_self)

lemma unat_seg_last_byte:
  assumes "seg_wf s"
  shows "unat (seg_last_byte s) = seg_end s - 1"
proof -
  obtain k where k: "length (seg_payload s) = Suc k" using seg_wf_length [OF assms] by blast
  have le: "seg_begin s + k < 2 ^ 32" using assms k by (simp add: seg_wf_def)
  have "seg_last_byte s = of_nat (seg_begin s + k)"
    by (simp add: seg_last_byte_def k)
  then show ?thesis using le k by (simp only: unsigned_of_nat) (simp add: take_bit_nat_eq_self)
qed

lemma seg_cut_front_bounds:
  assumes wf: "seg_wf s" and n: "unat lb = n" "seg_begin s \<le> n" "n + 1 < seg_end s"
  shows "seg_begin (seg_cut_front lb s) = n + 1" "seg_end (seg_cut_front lb s) = seg_end s"
    "seg_payload (seg_cut_front lb s) = drop (n + 1 - seg_begin s) (seg_payload s)"
    "seg_wf (seg_cut_front lb s)"
proof -
  have e: "seg_end s \<le> 65535" using wf by (simp add: seg_wf_def)
  have lb1: "unat (lb + 1) = n + 1" using n e by (simp add: unat_word_ariths)
  show b: "seg_begin (seg_cut_front lb s) = n + 1"
    using lb1 n e by (simp add: seg_cut_front_def unsigned_ucast_eq take_bit_nat_eq_self)
  have "unat (lb + 1 - ucast (seg_so s)) = n + 1 - seg_begin s"
    using lb1 n by (subst unat_sub) (simp_all add: word_le_nat_alt unat_ucast_so)
  then show p: "seg_payload (seg_cut_front lb s) = drop (n + 1 - seg_begin s) (seg_payload s)"
    by (simp add: seg_cut_front_def)
  show e': "seg_end (seg_cut_front lb s) = seg_end s" using b p n by simp
  show "seg_wf (seg_cut_front lb s)" using e e' p n by (simp add: seg_wf_def)
qed

lemma seg_cut_front_ok:
  assumes ok: "seg_ok sdu s" and n: "unat lb = n" "seg_begin s \<le> n" "n + 1 < seg_end s"
  shows "seg_ok sdu (seg_cut_front lb s)"
proof -
  note b = seg_cut_front_bounds [OF seg_ok_wf [OF ok] n]
  have "drop (n + 1 - seg_begin s) (seg_payload s) = 
      take (length (seg_payload s) - (n + 1 - seg_begin s)) (drop (n + 1) sdu)"
  proof -
    let ?k = "n + 1 - seg_begin s"
    have "drop ?k (seg_payload s) = drop ?k (take (length (seg_payload s)) (drop (seg_begin s) sdu))"
      using ok by (simp add: seg_ok_def)
    also have "\<dots> = take (length (seg_payload s) - ?k) (drop (?k + seg_begin s) sdu)"
      by (simp add: drop_take add.commute)
    finally show ?thesis using n(2) by simp
  qed
  moreover have "seg_si (seg_cut_front lb s) = seg_si s" by (simp add: seg_cut_front_def)
  ultimately show ?thesis using ok b n unfolding seg_ok_def by (simp add: add.commute)
qed

text \<open>The comparisons of the loop, read as comparisons of offsets.\<close>

lemma store_compare:
  assumes "seg_wf cur" "seg_wf new"
  shows "ucast (seg_so new) > seg_last_byte cur \<longleftrightarrow> seg_end cur \<le> seg_begin new"
    "seg_so new \<ge> seg_so cur \<longleftrightarrow> seg_begin cur \<le> seg_begin new"
    "seg_last_byte new \<le> seg_last_byte cur \<longleftrightarrow> seg_end new \<le> seg_end cur"
    "seg_last_byte new < ucast (seg_so cur) \<longleftrightarrow> seg_end new \<le> seg_begin cur"
    "seg_last_byte new < seg_last_byte cur \<longleftrightarrow> seg_end new < seg_end cur"
  using unat_seg_last_byte [OF assms(1)] unat_seg_last_byte [OF assms(2)]
    seg_wf_length [OF assms(1)] seg_wf_length [OF assms(2)]
  by (auto simp: word_less_nat_alt word_le_nat_alt unat_ucast_so)

text \<open>
  What storing \<open>new\<close> into \<open>segs\<close> has to give: either every byte was present and the set is unchanged,
  or the set with the remaining piece inserted is in order and has exactly the bytes of both.
\<close>

definition store_result :: "(rx_sdu_segment \<Rightarrow> bool) \<Rightarrow> rx_sdu_segment list \<Rightarrow> rx_sdu_segment \<Rightarrow>
    rx_sdu_segment list \<times> rx_sdu_segment option \<Rightarrow> bool" where
  "store_result P segs new r = (case r of
      (ss, None) \<Rightarrow> ss = segs \<and> seg_dom new \<subseteq> segs_dom segs
    | (ss, Some s) \<Rightarrow> segs_ok P 0 (seg_insert s ss) \<and>
        segs_dom (seg_insert s ss) = segs_dom segs \<union> seg_dom new \<and> \<not> seg_dom new \<subseteq> segs_dom segs)"

lemma store_result_trim:
  assumes "store_result P segs new' r" "seg_dom new \<subseteq> segs_dom segs \<union> seg_dom new'" "seg_dom new' \<subseteq> seg_dom new"
  shows "store_result P segs new r"
  using assms by (auto simp: store_result_def split: prod.splits option.splits)

text \<open>
  The contract of a kind of segment that the set may hold: it is well-formed, and cutting bytes off
  the front keeps the kind.  Both the plain bounds and \<open>being a slice of a given SDU\<close> are such kinds.
\<close>

locale segment_kind =
  fixes P :: "rx_sdu_segment \<Rightarrow> bool"
  assumes wf: "P s \<Longrightarrow> seg_wf s"
    and cut: "P s \<Longrightarrow> unat lb = n \<Longrightarrow> seg_begin s \<le> n \<Longrightarrow> n + 1 < seg_end s \<Longrightarrow> P (seg_cut_front lb s)"
begin

lemma seg_insert_between:
  assumes xs: "segs_ok P lo xs" "segs_hi lo xs \<le> seg_begin s"
    and ys: "segs_ok P (seg_end s) ys" and s: "P s"
  shows "seg_insert s (xs @ ys) = xs @ s # ys"
  using xs
proof (induction xs arbitrary: lo)
  case Nil
  have "ys \<noteq> [] \<Longrightarrow> seg_so s < seg_so (hd ys)"
    using ys seg_wf_length [OF wf [OF s]] by (cases ys) (auto simp: word_less_nat_alt)
  then show ?case by (cases ys) auto
next
  case (Cons t ts)
  then have "seg_so t < seg_so s"
    using segs_hi_ge [of P "seg_end t" ts] seg_wf_length [OF wf, of t] by (auto simp: word_less_nat_alt)
  then show ?case using Cons by auto
qed

lemma new_in_front:
  assumes "segs_ok P 0 (seen @ cur # rest)" "P new" "segs_hi 0 seen \<le> seg_begin new" "seg_begin new < seg_begin cur"
  shows "\<not> seg_dom new \<subseteq> segs_dom (seen @ cur # rest)"
proof -
  have "segs_ok P 0 seen" "segs_ok P (seg_end cur) rest" using assms(1) by (auto simp: segs_ok_append)
  then have "seg_begin new \<notin> segs_dom (seen @ cur # rest)"
    using assms(3,4) segs_dom_hi [of P 0 seen "seg_begin new"] segs_ok_lower [of P "seg_end cur" rest "seg_begin new"]
    by (auto simp: seg_dom_def)
  then show ?thesis using seg_begin_in_dom [OF wf [OF assms(2)]] by blast
qed

lemma store_end:
  assumes "segs_ok P 0 seen" "P new" "segs_hi 0 seen \<le> seg_begin new"
  shows "store_result P seen new (seen, Some new)"
proof -
  have i: "seg_insert new seen = seen @ [new]" using seg_insert_between [of 0 seen new "[]"] assms by simp
  have "seg_begin new \<notin> segs_dom seen" using assms segs_dom_hi [of P 0 seen "seg_begin new"] by auto
  then have "\<not> seg_dom new \<subseteq> segs_dom seen" using seg_begin_in_dom [OF wf [OF assms(2)]] by auto
  then show ?thesis using assms by (auto simp: store_result_def i segs_ok_append)
qed

lemma store_before:
  assumes "segs_ok P 0 (seen @ cur # rest)" "P new" "segs_hi 0 seen \<le> seg_begin new"
    and "seg_begin new < seg_begin cur" "seg_end new \<le> seg_begin cur"
  shows "store_result P (seen @ cur # rest) new (seen @ cur # rest, Some new)"
proof -
  have ok: "segs_ok P 0 seen" "segs_ok P (seg_end new) (cur # rest)" using assms by (auto simp: segs_ok_append)
  then have "seg_insert new (seen @ cur # rest) = seen @ new # cur # rest"
    using seg_insert_between [OF ok(1) assms(3) ok(2) assms(2)] by simp
  then show ?thesis using new_in_front [OF assms(1-4)] assms ok
    by (auto simp: store_result_def segs_ok_append)
qed

lemma store_cut:
  assumes "segs_ok P 0 (seen @ cur # rest)" "P new" "segs_hi 0 seen \<le> seg_begin new"
    and c: "seg_begin new < seg_begin cur" "seg_begin cur < seg_end new" "seg_end new < seg_end cur"
  shows "store_result P (seen @ cur # rest) new
    (seg_insert (seg_cut_front (seg_last_byte new) cur) (seen @ rest), Some new)"
proof -
  let ?cur = "seg_cut_front (seg_last_byte new) cur"
  have ok: "segs_ok P 0 seen" "P cur" "segs_ok P (seg_end cur) rest" "segs_hi 0 seen \<le> seg_begin cur"
    using assms by (auto simp: segs_ok_append)
  have lb: "unat (seg_last_byte new) = seg_end new - 1" by (rule unat_seg_last_byte [OF wf [OF assms(2)]])
  have n: "seg_begin ?cur = seg_end new" "seg_end ?cur = seg_end cur" "P ?cur"
    using seg_cut_front_bounds [OF wf [OF ok(2)] lb] cut [OF ok(2) lb] c by auto
  have i1: "seg_insert ?cur (seen @ rest) = seen @ ?cur # rest"
    using seg_insert_between [of 0 seen ?cur rest] ok n c by simp
  have i2: "seg_insert new (seen @ ?cur # rest) = seen @ new # ?cur # rest"
    using seg_insert_between [of 0 seen new "?cur # rest"] ok n c assms(2,3) by simp
  have "seg_dom cur \<union> seg_dom new = seg_dom ?cur \<union> seg_dom new" using n c by (auto simp: seg_dom_def)
  then show ?thesis using new_in_front [OF assms(1-3) c(1)] i1 i2 ok n c assms(2,3)
    by (auto simp: store_result_def segs_ok_append)
qed

lemma store_swallow:
  assumes "segs_ok P 0 (seen @ cur # rest)" "P new" "segs_hi 0 seen \<le> seg_begin new"
    and c: "seg_begin new < seg_begin cur" "seg_end cur \<le> seg_end new"
    and r: "store_result P (seen @ rest) new r"
  shows "store_result P (seen @ cur # rest) new r"
proof -
  have "seg_dom cur \<subseteq> seg_dom new" using c by (auto simp: seg_dom_def)
  then show ?thesis using new_in_front [OF assms(1-3) c(1)] r
    by (auto simp: store_result_def split: prod.splits option.splits)
qed

lemma store_tail:
  assumes "P cur" "P new" and r: "store_result P segs (seg_cut_front (seg_last_byte cur) new) r"
    and c: "seg_begin cur \<le> seg_begin new" "seg_begin new < seg_end cur" "seg_end cur < seg_end new"
    and "seg_dom cur \<subseteq> segs_dom segs"
  shows "store_result P segs new r"
proof -
  have lb: "unat (seg_last_byte cur) = seg_end cur - 1" by (rule unat_seg_last_byte [OF wf [OF assms(1)]])
  show ?thesis
    using seg_cut_front_bounds [OF wf [OF assms(2)] lb] c assms(7)
    by (intro store_result_trim [OF r]) (auto simp: seg_dom_def)
qed

lemma store_loop_correct:
  assumes "segs_ok P 0 (seen @ rest)" "P new" "segs_hi 0 seen \<le> seg_begin new"
  shows "store_result P (seen @ rest) new (store_loop seen rest new)"
  using assms
proof (induction rest arbitrary: seen new)
  case Nil
  then show ?case using store_end by simp
next
  case (Cons cur rest seen new)
  have ok: "segs_hi 0 seen \<le> seg_begin cur" "P cur" "segs_ok P (seg_end cur) rest"
    using Cons.prems by (auto simp: segs_ok_append)
  note cmp = store_compare [OF wf [OF ok(2)] wf [OF Cons.prems(2)]]
  have ne: "seg_begin cur < seg_end cur" using seg_wf_length [OF wf [OF ok(2)]] by auto
  consider (after) "seg_end cur \<le> seg_begin new"
    | (inside) "seg_begin cur \<le> seg_begin new" "seg_begin new < seg_end cur" "seg_end new \<le> seg_end cur"
    | (tail) "seg_begin cur \<le> seg_begin new" "seg_begin new < seg_end cur" "seg_end cur < seg_end new"
    | (before) "seg_begin new < seg_begin cur" "seg_end new \<le> seg_begin cur"
    | (cut) "seg_begin new < seg_begin cur" "seg_begin cur < seg_end new" "seg_end new < seg_end cur"
    | (swallow) "seg_begin new < seg_begin cur" "seg_end cur \<le> seg_end new"
    by linarith
  then show ?case
  proof cases
    case after
    then show ?thesis using Cons.IH [of "seen @ [cur]" new] Cons.prems by (simp add: Let_def cmp)
  next
    case inside
    then show ?thesis using ne by (auto simp: Let_def cmp store_result_def seg_dom_def)
  next
    case tail
    let ?new = "seg_cut_front (seg_last_byte cur) new"
    have lb: "unat (seg_last_byte cur) = seg_end cur - 1" by (rule unat_seg_last_byte [OF wf [OF ok(2)]])
    have n: "seg_begin ?new = seg_end cur" "P ?new"
      using seg_cut_front_bounds [OF wf [OF Cons.prems(2)] lb] local.cut [OF Cons.prems(2) lb] tail by auto
    have "store_result P (seen @ cur # rest) ?new (store_loop (seen @ [cur]) rest ?new)"
      using Cons.IH [of "seen @ [cur]" ?new] Cons.prems n by simp
    from store_tail [OF ok(2) Cons.prems(2) this tail] have
      "store_result P (seen @ cur # rest) new (store_loop (seen @ [cur]) rest ?new)" by auto
    then show ?thesis using tail by (simp add: Let_def cmp)
  next
    case before
    then show ?thesis using store_before [OF Cons.prems] by (simp add: Let_def cmp)
  next
    case cut
    then show ?thesis using store_cut [OF Cons.prems] by (simp add: Let_def cmp)
  next
    case swallow
    have "segs_ok P 0 (seen @ rest)"
      using Cons.prems ok ne by (auto simp: segs_ok_append intro: segs_ok_mono)
    then have "store_result P (seen @ rest) new (store_loop seen rest new)" using Cons by blast
    from store_swallow [OF Cons.prems swallow this] show ?thesis
      using swallow seg_wf_length [OF wf [OF ok(2)]] by (auto simp: Let_def cmp)
  qed
qed

lemma store_segment_correct:
  assumes "segs_ok P 0 (segments_of (info_data i))" "P s" and "store_segment i s = (i', stored)"
  shows "\<exists>ss. info_data i' = Segment_set ss \<and> segs_ok P 0 ss \<and>
    segs_dom ss = segs_dom (segments_of (info_data i)) \<union> seg_dom s \<and>
    (stored \<longleftrightarrow> \<not> seg_dom s \<subseteq> segs_dom (segments_of (info_data i)))"
  using store_loop_correct [of "[]" "segments_of (info_data i)" s] assms
  by (auto simp: store_segment_def store_result_def split: prod.splits option.splits)

lemma receive_segment_segs:
  assumes "segs_ok P 0 (segments_of (info_data i))" "P s"
  shows "\<exists>i' ss stored. receive_segment i s = Some (i', stored) \<and> info_data i' = Segment_set ss \<and> ss \<noteq> [] \<and>
    segs_ok P 0 ss \<and> segs_dom ss = segs_dom (segments_of (info_data i)) \<union> seg_dom s \<and>
    (stored \<longleftrightarrow> \<not> seg_dom s \<subseteq> segs_dom (segments_of (info_data i))) \<and>
    inventory_loop 0 ss = (has_gap i', fully_received i')"
proof -
  obtain i' stored where st: "store_segment i s = (i', stored)" by (cases "store_segment i s")
  obtain ss where ss: "info_data i' = Segment_set ss" "segs_ok P 0 ss"
    "segs_dom ss = segs_dom (segments_of (info_data i)) \<union> seg_dom s"
    "stored \<longleftrightarrow> \<not> seg_dom s \<subseteq> segs_dom (segments_of (info_data i))"
    using store_segment_correct [OF assms st] by blast
  have ne: "ss \<noteq> []" using ss(3) seg_begin_in_dom [OF wf [OF assms(2)]] by auto
  obtain g f where "inventory_loop 0 ss = (g, f)" by (cases "inventory_loop 0 ss")
  then show ?thesis
    using ne ss by (auto simp: receive_segment_def st update_segment_inventory_def)
qed

lemma receive_segment_dropped:
  assumes "segs_ok P 0 (segments_of (info_data i))" "P s" and "receive_segment i s = Some (i', False)"
  shows "segments_of (info_data i) \<noteq> [] \<and> (\<exists>g f. inventory_loop 0 (segments_of (info_data i)) = (g, f) \<and>
    i' = i\<lparr>info_data := Segment_set (segments_of (info_data i)), has_gap := g, fully_received := f\<rparr>)"
proof -
  let ?ss = "segments_of (info_data i)"
  have r: "store_result P ?ss s (store_loop [] ?ss s)" using store_loop_correct [of "[]" ?ss s] assms by simp
  then have "snd (store_loop [] ?ss s) = None"
    using assms(3) by (auto simp: receive_segment_def store_segment_def split: prod.splits option.splits)
  then have l: "store_loop [] ?ss s = (?ss, None)" "seg_dom s \<subseteq> segs_dom ?ss"
    using r by (auto simp: store_result_def split: prod.splits)
  then have "?ss \<noteq> []" using seg_begin_in_dom [OF wf [OF assms(2)]] by auto
  then show ?thesis
    using assms(3) l by (auto simp: receive_segment_def store_segment_def update_segment_inventory_def
        split: prod.splits)
qed

end

interpretation bounded: segment_kind seg_wf
  using seg_cut_front_bounds by unfold_locales auto

interpretation slices: segment_kind "seg_ok sdu" for sdu
  by unfold_locales (auto intro: seg_ok_wf seg_cut_front_ok)

section \<open>Completeness and reassembly\<close>

lemma seg_ok_bounds: "seg_ok sdu s \<Longrightarrow> seg_begin s < seg_end s \<and> seg_end s \<le> length sdu"
  by (cases "seg_payload s") (auto simp: seg_ok_def)

text \<open>The inventory of a well-formed set that is read from byte \<open>k\<close> on.\<close>

lemma inventory_loop_correct:
  assumes "segs_ok (seg_ok sdu) k segs" "k < length sdu" "length sdu \<le> 65535"
  shows "inventory_loop (of_nat k) segs =
    (\<exists>x y. k \<le> x \<and> x < y \<and> x \<notin> segs_dom segs \<and> y \<in> segs_dom segs, {k..<length sdu} \<subseteq> segs_dom segs)"
  using assms
proof (induction segs arbitrary: k)
  case Nil
  then show ?case by auto
next
  case (Cons s ss)
  have k: "unat (of_nat k :: u32) = k" using Cons.prems by (simp add: unsigned_of_nat take_bit_nat_eq_self)
  have so: "ucast (seg_so s) = (of_nat k :: u32) \<longleftrightarrow> seg_begin s = k"
    by (simp add: word_unat_eq_iff unat_ucast_so k)
  have s: "k \<le> seg_begin s" "seg_ok sdu s" "segs_ok (seg_ok sdu) (seg_end s) ss" using Cons.prems by auto
  have ne: "seg_begin s < seg_end s" "seg_end s \<le> length sdu" using seg_ok_bounds [OF s(2)] by auto
  have later: "x \<in> segs_dom ss \<Longrightarrow> seg_end s \<le> x" for x using segs_ok_lower [OF s(3)] by blast
  consider (gap) "seg_begin s \<noteq> k" | (final) "seg_begin s = k" "seg_end s = length sdu"
    | (more_segs) "seg_begin s = k" "seg_end s < length sdu" using ne by linarith
  then show ?case
  proof cases
    case gap
    then have "k < seg_begin s" using s by simp
    then have "k \<notin> segs_dom (s # ss)" "seg_begin s \<in> segs_dom (s # ss)" 
      using ne later [of k] by (auto simp: seg_dom_def)
    moreover from this have "\<not> {k..<length sdu} \<subseteq> segs_dom (s # ss)"
      using Cons.prems(2) by (meson atLeastLessThan_iff order_refl subsetD)
    ultimately show ?thesis using gap so \<open>k < seg_begin s\<close> by auto
  next
    case final
    have "ss = []"
    proof (cases ss)
      case (Cons a list)
      then show ?thesis using s(3) final seg_ok_bounds [of sdu a] seg_wf_length [OF seg_ok_wf, of sdu a] by auto
    qed simp
    then show ?thesis using final so s(2) by (auto simp: seg_ok_def seg_dom_def)
  next
    case more_segs
    have nl: "seg_si s \<noteq> last_segment" using more_segs s(2) by (auto simp: seg_ok_def)
    have "inventory_loop (of_nat k) (s # ss) = inventory_loop (of_nat (seg_end s)) ss"
      using more_segs so nl by simp
    also have "\<dots> = (\<exists>x y. seg_end s \<le> x \<and> x < y \<and> x \<notin> segs_dom ss \<and> y \<in> segs_dom ss,
        {seg_end s..<length sdu} \<subseteq> segs_dom ss)"
      using Cons.IH [OF s(3) more_segs(2) assms(3)] .
    also have "(\<exists>x y. seg_end s \<le> x \<and> x < y \<and> x \<notin> segs_dom ss \<and> y \<in> segs_dom ss) \<longleftrightarrow>
        (\<exists>x y. k \<le> x \<and> x < y \<and> x \<notin> segs_dom (s # ss) \<and> y \<in> segs_dom (s # ss))" 
    proof -
      have d: "z \<in> segs_dom (s # ss) \<longleftrightarrow> (k \<le> z \<and> z < seg_end s) \<or> z \<in> segs_dom ss" for z
        using more_segs(1) by (simp add: seg_dom_def)
      have k: "k \<le> seg_end s" using ne more_segs(1) by simp
      show ?thesis
      proof (intro iffI; elim exE conjE)
        fix x y assume "seg_end s \<le> x" "x < y" "x \<notin> segs_dom ss" "y \<in> segs_dom ss"
        then show "\<exists>x y. k \<le> x \<and> x < y \<and> x \<notin> segs_dom (s # ss) \<and> y \<in> segs_dom (s # ss)"
          unfolding d using k by (intro exI [of _ x] exI [of _ y]) linarith
      next
        fix x y assume "k \<le> x" "x < y" "x \<notin> segs_dom (s # ss)" "y \<in> segs_dom (s # ss)"
        then show "\<exists>x y. seg_end s \<le> x \<and> x < y \<and> x \<notin> segs_dom ss \<and> y \<in> segs_dom ss"
          unfolding d by (intro exI [of _ x] exI [of _ y]) linarith
      qed
    qed
    also have "{seg_end s..<length sdu} \<subseteq> segs_dom ss \<longleftrightarrow> {k..<length sdu} \<subseteq> segs_dom (s # ss)"
      using more_segs by (auto simp: seg_dom_def subset_iff) (metis leI, metis add_leD1 leD)
    finally show ?thesis .
  qed
qed

lemma concat_segs_full:
  assumes "segs_ok (seg_ok sdu) k segs" "{k..<length sdu} \<subseteq> segs_dom segs" "k \<le> length sdu"
  shows "concat (map seg_payload segs) = drop k sdu"
  using assms
proof (induction segs arbitrary: k)
  case (Cons s ss)
  have s: "k \<le> seg_begin s" "seg_ok sdu s" "segs_ok (seg_ok sdu) (seg_end s) ss" using Cons.prems by auto
  have ne: "seg_begin s < seg_end s" "seg_end s \<le> length sdu" using seg_ok_bounds [OF s(2)] by auto
  have later: "x \<in> segs_dom ss \<Longrightarrow> seg_end s \<le> x" for x using segs_ok_lower [OF s(3)] by blast
  have "k \<in> {k..<length sdu}" using s ne by (meson atLeastLessThan_iff le_less_trans less_le_trans order_refl)
  with Cons.prems(2) have "k \<in> segs_dom (s # ss)" by blast
  then have k: "seg_begin s = k" using s(1) ne later [of k] by (auto simp: seg_dom_def)
  have "{seg_end s..<length sdu} \<subseteq> segs_dom ss"
    using Cons.prems(2) k ne by (auto simp: seg_dom_def subset_iff) (metis add_leD1 leD)
  then have "concat (map seg_payload ss) = drop (seg_end s) sdu" using Cons.IH s(3) ne by blast
  moreover have "seg_payload s = take (length (seg_payload s)) (drop k sdu)"
    using s(2) k by (simp add: seg_ok_def)
  ultimately show ?case
    using k by (metis append_take_drop_id add.commute concat.simps(2) drop_drop list.simps(9))
qed simp

section \<open>The receiver's container\<close>

text \<open>
  \<open>info_ok sdu i\<close>: the info object \<open>i\<close> buffers correct segments of \<open>sdu\<close>, and its flags are those of
  the inventory.
\<close>

definition info_ok :: "bytes \<Rightarrow> rx_sdu_info \<Rightarrow> bool" where
  "info_ok sdu i \<longleftrightarrow> (let ss = segments_of (info_data i) in
     segs_ok (seg_ok sdu) 0 ss \<and>
     (fully_received i \<longleftrightarrow> {0..<length sdu} \<subseteq> segs_dom ss) \<and>
     (has_gap i \<longleftrightarrow> (\<exists>x y. x < y \<and> x \<notin> segs_dom ss \<and> y \<in> segs_dom ss)))"

lemma receive_segment_ok:
  assumes "segs_ok (seg_ok sdu) 0 (segments_of (info_data i))" "seg_ok sdu s"
  shows "\<exists>i' ss stored. receive_segment i s = Some (i', stored) \<and> info_ok sdu i' \<and>
    info_data i' = Segment_set ss \<and>
    segs_dom ss = segs_dom (segments_of (info_data i)) \<union> seg_dom s"
proof -
  obtain i' ss stored where r: "receive_segment i s = Some (i', stored)" "info_data i' = Segment_set ss"
    "segs_ok (seg_ok sdu) 0 ss" "segs_dom ss = segs_dom (segments_of (info_data i)) \<union> seg_dom s"
    "inventory_loop 0 ss = (has_gap i', fully_received i')"
    using slices.receive_segment_segs [OF assms] by blast
  have "0 < length sdu" "length sdu \<le> 65535" using assms(2) by (auto simp: seg_ok_def)
  then show ?thesis
    using r inventory_loop_correct [OF r(3)] by (auto simp: info_ok_def segments_of_def Let_def)
qed

fun receive_segments :: "rx_sdu_info \<Rightarrow> rx_sdu_segment list \<Rightarrow> rx_sdu_info option" where
  "receive_segments i [] = Some i"
| "receive_segments i (s # ss) =
     (case receive_segment i s of None \<Rightarrow> None | Some (i', _) \<Rightarrow> receive_segments i' ss)"

lemma receive_segments_ok:
  assumes "segs_ok (seg_ok sdu) 0 (segments_of (info_data i))" "\<forall>s \<in> set ss. seg_ok sdu s" "ss \<noteq> []"
  shows "\<exists>i'. receive_segments i ss = Some i' \<and> info_ok sdu i' \<and>
    (\<exists>xs. info_data i' = Segment_set xs \<and> segs_dom xs = segs_dom (segments_of (info_data i)) \<union> segs_dom ss)"
  using assms
proof (induction ss arbitrary: i)
  case (Cons s ss)
  obtain i1 xs stored where i1: "receive_segment i s = Some (i1, stored)" "info_ok sdu i1"
    "info_data i1 = Segment_set xs" "segs_dom xs = segs_dom (segments_of (info_data i)) \<union> seg_dom s"
    using receive_segment_ok [of sdu i s] Cons.prems by auto
  show ?case
  proof (cases ss)
    case Nil
    then show ?thesis using i1 by auto
  next
    case (Cons t ts)
    have "segs_ok (seg_ok sdu) 0 (segments_of (info_data i1))" using i1(2) by (simp add: info_ok_def Let_def)
    then show ?thesis using Cons.IH [of i1] Cons.prems i1 \<open>ss = t # ts\<close>
      by (auto simp: segments_of_def Un_assoc)
  qed
qed simp

lemma info_ok_reassemble:
  assumes "info_ok sdu i" "info_data i = Segment_set xs" "fully_received i"
  shows "reassemble_sdu True i = Some sdu"
  using assms concat_segs_full [of sdu 0 xs]
  by (simp add: info_ok_def reassemble_sdu_def segments_of_def Let_def)

text \<open>
  Property C27: whatever order, duplication or overlap the segments of an SDU (of at most 65535 bytes, the
  range of the SO; \<open>seg_ok\<close> includes that bound) arrive with, the container never fails; it is marked fully received exactly when every byte has
  arrived, it is marked as having a gap exactly when a byte is missing before a received one, and a
  fully received container reassembles to the SDU.
\<close>

theorem segments_reassembly:
  assumes "\<forall>s \<in> set ss. seg_ok sdu s" and "ss \<noteq> []"
  shows "\<exists>i. receive_segments rx_sdu_info_init ss = Some i \<and>
    (fully_received i \<longleftrightarrow> {0..<length sdu} \<subseteq> segs_dom ss) \<and>
    (has_gap i \<longleftrightarrow> (\<exists>x y. x < y \<and> x \<notin> segs_dom ss \<and> y \<in> segs_dom ss)) \<and>
    (fully_received i \<longrightarrow> reassemble_sdu True i = Some sdu)"
proof -
  have "segs_ok (seg_ok sdu) 0 (segments_of (info_data rx_sdu_info_init))"
    by (simp add: rx_sdu_info_init_def segments_of_def)
  then obtain i xs where "receive_segments rx_sdu_info_init ss = Some i" "info_ok sdu i"
    "info_data i = Segment_set xs" "segs_dom xs = segs_dom ss"
    using receive_segments_ok [of sdu rx_sdu_info_init ss] assms
    by (auto simp: rx_sdu_info_init_def segments_of_def)
  then show ?thesis using info_ok_reassemble [of sdu i xs]
    by (auto simp: info_ok_def segments_of_def Let_def)
qed

definition segments_example :: "rx_sdu_segment list" where
  "segments_example =
     [\<lparr>seg_si = last_segment, seg_so = 3, seg_payload = [13, 14]\<rparr>,
      \<lparr>seg_si = middle_segment, seg_so = 1, seg_payload = [11, 12, 13]\<rparr>,
      \<lparr>seg_si = first_segment, seg_so = 0, seg_payload = [10, 11]\<rparr>]"

theorem segments_reassembly_witness:
  "\<exists>i. receive_segments rx_sdu_info_init segments_example = Some i \<and> fully_received i \<and>
     reassemble_sdu True i = Some [10, 11, 12, 13, 14]"
proof -
  have "\<forall>s \<in> set segments_example. seg_ok [10, 11, 12, 13, 14] s" "segments_example \<noteq> []"
    by (auto simp: segments_example_def seg_ok_def)
  moreover have "{0..<5} \<subseteq> segs_dom segments_example"
    by (auto simp: segments_example_def seg_dom_def)
  ultimately show ?thesis
    using segments_reassembly [of segments_example "[10, 11, 12, 13, 14]"] by auto
qed

end
