(* ===== verification/Sdu_Window.thy ===== *)
theory Sdu_Window
  imports Srs_Prelude
begin

text \<open>
  The SDU windows of the RLC entities: \<open>circular_map\<close> (\<open>include/srsran/adt/circular_map.h\<close>, the
  dynamically sized variant whose capacity is a power of two) and the \<open>sdu_window\<close> wrapper
  (\<open>include/srsran/support/sdu_window.h\<close>).  The storage vector is a function from slot index to an
  optional key/value pair, with its capacity and the element counter beside it.  A failing
  \<open>srsran_assert\<close> (reading an absent key, adding a present one, removing an absent one) is \<open>None\<close>.

  The locale \<open>window_ops\<close> is the contract the entities use: the map laws of a window together with
  its slot function.  It is interpreted on the circular map.
\<close>

section \<open>circular_map\<close>

record 'a circular_map =
  cm_max_size :: u32
  cm_data :: "u32 \<Rightarrow> (u32 \<times> 'a) option"
  cm_count :: nat

definition cm_create :: "u32 \<Rightarrow> 'a circular_map option" where
  "cm_create sz = (if sz AND (sz - 1) = 0
     then Some \<lparr>cm_max_size = sz, cm_data = (\<lambda>_. None), cm_count = 0\<rparr> else None)"

definition get_circular_idx :: "'a circular_map \<Rightarrow> u32 \<Rightarrow> u32" where
  "get_circular_idx cm idx = idx AND (cm_max_size cm - 1)"

definition cm_contains :: "'a circular_map \<Rightarrow> u32 \<Rightarrow> bool" where
  "cm_contains cm key = (case cm_data cm (get_circular_idx cm key) of
     None \<Rightarrow> False | Some (k, _) \<Rightarrow> k = key)"

definition cm_insert :: "'a circular_map \<Rightarrow> u32 \<Rightarrow> 'a \<Rightarrow> 'a circular_map option" where
  "cm_insert cm key obj =
     (let idx = get_circular_idx cm key in
      if cm_data cm idx \<noteq> None then None
      else Some (cm\<lparr>cm_data := (cm_data cm)(idx := Some (key, obj)), cm_count := cm_count cm + 1\<rparr>))"

definition cm_erase :: "'a circular_map \<Rightarrow> u32 \<Rightarrow> 'a circular_map \<times> bool" where
  "cm_erase cm key =
     (if \<not> cm_contains cm key then (cm, False)
      else (cm\<lparr>cm_data := (cm_data cm)(get_circular_idx cm key := None),
               cm_count := cm_count cm - 1\<rparr>, True))"

definition cm_overwrite :: "'a circular_map \<Rightarrow> u32 \<Rightarrow> 'a \<Rightarrow> 'a circular_map" where
  "cm_overwrite cm key obj =
     (let idx = get_circular_idx cm key;
          cm1 = (case cm_data cm idx of None \<Rightarrow> cm | Some (k, _) \<Rightarrow> fst (cm_erase cm k))
      in case cm_insert cm1 key obj of None \<Rightarrow> cm1 | Some cm2 \<Rightarrow> cm2)"

definition cm_get :: "'a circular_map \<Rightarrow> u32 \<Rightarrow> 'a option" where
  "cm_get cm key = (if cm_contains cm key
     then map_option snd (cm_data cm (get_circular_idx cm key)) else None)"

text \<open>Writing through the reference that \<open>operator[]\<close> returns.\<close>

definition cm_modify :: "'a circular_map \<Rightarrow> u32 \<Rightarrow> ('a \<Rightarrow> 'a) \<Rightarrow> 'a circular_map" where
  "cm_modify cm key f = (if cm_contains cm key
     then cm\<lparr>cm_data := (cm_data cm)(get_circular_idx cm key :=
            map_option (\<lambda>(k, v). (k, f v)) (cm_data cm (get_circular_idx cm key)))\<rparr> else cm)"

definition cm_full :: "'a circular_map \<Rightarrow> bool" where
  "cm_full cm = (cm_count cm = unat (cm_max_size cm))"

definition cm_empty :: "'a circular_map \<Rightarrow> bool" where
  "cm_empty cm = (cm_count cm = 0)"

section \<open>sdu_window\<close>

definition add_sn :: "'a circular_map \<Rightarrow> u32 \<Rightarrow> 'a \<Rightarrow> 'a circular_map option" where
  "add_sn w sn v = (if cm_contains w sn then None else Some (cm_overwrite w sn v))"

definition remove_sn :: "'a circular_map \<Rightarrow> u32 \<Rightarrow> 'a circular_map option" where
  "remove_sn w sn = (if \<not> cm_contains w sn then None else Some (fst (cm_erase w sn)))"

abbreviation has_sn :: "'a circular_map \<Rightarrow> u32 \<Rightarrow> bool" where
  "has_sn w sn \<equiv> cm_contains w sn"

section \<open>The map laws of a window\<close>

lemma cm_contains_get: "cm_contains cm k \<longleftrightarrow> cm_get cm k \<noteq> None"
  by (auto simp: cm_get_def cm_contains_def split: option.splits)

lemma cm_get_SomeD: "cm_get cm k = Some v \<Longrightarrow> cm_data cm (get_circular_idx cm k) = Some (k, v)"
  by (cases "cm_data cm (get_circular_idx cm k)") (auto simp: cm_get_def cm_contains_def split: if_splits)

lemma cm_get_erase: "cm_get (fst (cm_erase cm k)) k' = (if k' = k then None else cm_get cm k')"
  by (auto simp: cm_get_def cm_erase_def cm_contains_def get_circular_idx_def
      split: option.splits if_splits)

lemma cm_get_modify:
  "cm_get (cm_modify cm k f) k' = (if k' = k then map_option f (cm_get cm k) else cm_get cm k')"
  by (auto simp: cm_get_def cm_modify_def cm_contains_def get_circular_idx_def
      split: option.splits if_splits)

lemma cm_max_size_simps [simp]:
  "cm_max_size (fst (cm_erase cm k)) = cm_max_size cm"
  "cm_max_size (cm_modify cm k f) = cm_max_size cm"
  "cm_max_size (cm_overwrite cm k v) = cm_max_size cm"
  by (auto simp: cm_erase_def cm_modify_def cm_overwrite_def cm_insert_def Let_def
      split: option.splits)

text \<open>A stored key sits in its own slot; this is what makes \<open>overwrite\<close> evict a colliding key.\<close>

definition cm_wf :: "'a circular_map \<Rightarrow> bool" where
  "cm_wf cm \<longleftrightarrow> (\<exists>n < 32. cm_max_size cm = 2 ^ n) \<and>
     (\<forall>i k v. cm_data cm i = Some (k, v) \<longrightarrow> get_circular_idx cm k = i) \<and>
     cm_count cm = card {i. cm_data cm i \<noteq> None}"

lemma cm_get_overwrite:
  assumes "cm_wf cm"
  shows "cm_get (cm_overwrite cm k v) k' =
    (if k' = k then Some v
     else if get_circular_idx cm k' = get_circular_idx cm k then None else cm_get cm k')"
  using assms
  by (auto simp: cm_get_def cm_overwrite_def cm_insert_def cm_erase_def cm_contains_def
      get_circular_idx_def Let_def cm_wf_def split: option.splits if_splits)

lemma uint_pow2_u32: "n < 32 \<Longrightarrow> uint (2 ^ n :: u32) = 2 ^ n"
  by (rule uint_2p) (simp add: word_gt_0)

lemma circular_idx_eq_iff:
  assumes "cm_wf cm"
  shows "get_circular_idx cm x = get_circular_idx cm y \<longleftrightarrow>
    uint x mod uint (cm_max_size cm) = uint y mod uint (cm_max_size cm)"
proof -
  obtain n where n: "n < 32" "cm_max_size cm = 2 ^ n" using assms by (auto simp: cm_wf_def)
  have idx: "get_circular_idx cm z = take_bit n z" for z
    by (simp add: get_circular_idx_def n(2) take_bit_eq_mask mask_eq_exp_minus_1)
  have sz: "uint (cm_max_size cm) = 2 ^ n"
    using n by (simp add: uint_pow2_u32)
  have "uint (take_bit n z) = uint z mod 2 ^ n" for z :: u32
    by (metis take_bit_eq_mod unsigned_take_bit_eq)
  then show ?thesis by (simp add: idx sz word_uint_eq_iff)
qed

lemma cm_wf_max_size: "cm_wf cm \<Longrightarrow> \<exists>n<32. uint (cm_max_size cm) = 2 ^ n"
  by (auto simp: cm_wf_def uint_pow2_u32)

lemma cm_wf_create: "n < 32 \<Longrightarrow> \<exists>cm. cm_create (2 ^ n) = Some cm \<and> cm_wf cm \<and>
    cm_max_size cm = 2 ^ n \<and> (\<forall>k. cm_get cm k = None) \<and> cm_count cm = 0"
proof -
  assume n: "n < 32"
  have "(2 ^ n :: u32) AND (2 ^ n - 1) = 0"
    by (rule bit_word_eqI) (simp add: bit_and_iff bit_exp_iff flip: mask_eq_exp_minus_1, simp add: bit_mask_iff)
  with n show ?thesis
    by (auto simp: cm_create_def cm_wf_def cm_get_def cm_contains_def)
qed

lemma finite_slots [simp]: "finite {i :: u32. P i}"
  by simp

lemma cm_wf_erase:
  assumes "cm_wf cm"
  shows "cm_wf (fst (cm_erase cm k))"
proof (cases "cm_contains cm k")
  case True
  let ?i = "get_circular_idx cm k"
  have occ: "cm_data cm ?i \<noteq> None" using True by (auto simp: cm_contains_def split: option.splits)
  have "{i. ((cm_data cm)(?i := None)) i \<noteq> None} = {i. cm_data cm i \<noteq> None} - {?i}" by auto
  then have "card {i. ((cm_data cm)(?i := None)) i \<noteq> None} = cm_count cm - 1"
    using assms occ by (simp add: cm_wf_def)
  then show ?thesis using assms True by (auto simp: cm_wf_def cm_erase_def get_circular_idx_def)
qed (use assms in \<open>simp add: cm_erase_def\<close>)

lemma cm_wf_modify:
  assumes "cm_wf cm"
  shows "cm_wf (cm_modify cm k f)"
proof (cases "cm_contains cm k")
  case True
  let ?i = "get_circular_idx cm k"
  have "{i. ((cm_data cm)(?i := map_option (\<lambda>(k, v). (k, f v)) (cm_data cm ?i))) i \<noteq> None} =
      {i. cm_data cm i \<noteq> None}" by auto
  with assms True show ?thesis
    by (auto simp: cm_wf_def cm_modify_def get_circular_idx_def split: if_splits option.splits)
qed (use assms in \<open>simp add: cm_modify_def\<close>)

lemma cm_wf_insert:
  assumes "cm_wf cm" "cm_insert cm k v = Some cm'"
  shows "cm_wf cm'"
proof -
  let ?i = "get_circular_idx cm k"
  have free: "cm_data cm ?i = None" and cm':
    "cm' = cm\<lparr>cm_data := (cm_data cm)(?i := Some (k, v)), cm_count := cm_count cm + 1\<rparr>"
    using assms(2) by (cases "cm_data cm ?i"; simp add: cm_insert_def Let_def)+
  have "{i. ((cm_data cm)(?i := Some (k, v))) i \<noteq> None} = insert ?i {i. cm_data cm i \<noteq> None}"
    by auto
  then have "card {i. ((cm_data cm)(?i := Some (k, v))) i \<noteq> None} = cm_count cm + 1"
    using assms(1) free by (simp add: cm_wf_def)
  then show ?thesis using assms(1) by (auto simp: cm' cm_wf_def get_circular_idx_def)
qed

lemma cm_wf_overwrite:
  assumes "cm_wf cm"
  shows "cm_wf (cm_overwrite cm k v)"
  using assms cm_wf_insert cm_wf_erase
  by (fastforce simp: cm_overwrite_def Let_def split: option.splits)

lemma cm_count_keys:
  assumes "cm_wf cm"
  shows "cm_count cm = card {k. cm_get cm k \<noteq> None}"
proof -
  have own: "cm_data cm i = Some (k, v) \<Longrightarrow> get_circular_idx cm k = i" for i k v
    using assms by (simp add: cm_wf_def)
  have "{i. cm_data cm i \<noteq> None} = get_circular_idx cm ` {k. cm_get cm k \<noteq> None}"
  proof (intro set_eqI iffI)
    fix i
    assume "i \<in> {i. cm_data cm i \<noteq> None}"
    then obtain k v where kv: "cm_data cm i = Some (k, v)" by auto
    then have "get_circular_idx cm k = i" by (rule own)
    with kv have "cm_get cm k \<noteq> None" by (simp add: cm_get_def cm_contains_def)
    with \<open>get_circular_idx cm k = i\<close> show "i \<in> get_circular_idx cm ` {k. cm_get cm k \<noteq> None}"
      by blast
  qed (auto simp: cm_get_def split: if_splits)
  moreover have "inj_on (get_circular_idx cm) {k. cm_get cm k \<noteq> None}"
  proof (rule inj_onI)
    fix x y
    assume xy: "x \<in> {k. cm_get cm k \<noteq> None}" "y \<in> {k. cm_get cm k \<noteq> None}"
      and eq: "get_circular_idx cm x = get_circular_idx cm y"
    from xy obtain v w where "cm_get cm x = Some v" "cm_get cm y = Some w" by blast
    then show "x = y" using eq cm_get_SomeD by (metis option.inject prod.inject)
  qed
  moreover have "cm_count cm = card {i. cm_data cm i \<noteq> None}" using assms by (simp add: cm_wf_def)
  ultimately show ?thesis by (simp only: card_image)
qed

section \<open>The contract of a window\<close>

locale window_ops =
  fixes wf :: "'w \<Rightarrow> bool"
    and cap :: "'w \<Rightarrow> int"
    and get :: "'w \<Rightarrow> u32 \<Rightarrow> 'a option"
    and put :: "'w \<Rightarrow> u32 \<Rightarrow> 'a \<Rightarrow> 'w"
    and del :: "'w \<Rightarrow> u32 \<Rightarrow> 'w"
    and upd :: "'w \<Rightarrow> u32 \<Rightarrow> ('a \<Rightarrow> 'a) \<Rightarrow> 'w"
    and count :: "'w \<Rightarrow> nat"
  assumes get_put: "wf w \<Longrightarrow> get (put w k v) k' =
      (if k' = k then Some v
       else if uint k' mod cap w = uint k mod cap w then None else get w k')"
    and get_del: "get (del w k) k' = (if k' = k then None else get w k')"
    and get_upd: "get (upd w k f) k' = (if k' = k then map_option f (get w k) else get w k')"
    and wf_put: "wf w \<Longrightarrow> wf (put w k v)"
    and wf_del: "wf w \<Longrightarrow> wf (del w k)"
    and wf_upd: "wf w \<Longrightarrow> wf (upd w k f)"
    and cap_put: "cap (put w k v) = cap w"
    and cap_del: "cap (del w k) = cap w"
    and cap_upd: "cap (upd w k f) = cap w"
    and cap_pos: "wf w \<Longrightarrow> 0 < cap w"
    and count_keys: "wf w \<Longrightarrow> count w = card {k. get w k \<noteq> None}"
begin

text \<open>Keys that all lie in one span of the window's capacity never collide.\<close>

definition spans :: "u32 \<Rightarrow> u32 \<Rightarrow> 'w \<Rightarrow> bool" where
  "spans m lo w \<longleftrightarrow> (\<forall>k. get w k \<noteq> None \<longrightarrow> k < m \<and> uint (sn_dist m lo k) < cap w)"

lemma span_no_collision:
  assumes m: "sn_space m" "cap w dvd uint m" and "wf w"
    and k: "k < m" "uint (sn_dist m lo k) < cap w" and k': "k' < m" "uint (sn_dist m lo k') < cap w"
    and "uint k' mod cap w = uint k mod cap w"
  shows "k' = k"
proof -
  have "uint (sn_dist m lo x) mod cap w = (uint x - uint lo) mod cap w" for x
    using m by (simp add: sn_space.uint_sn_dist mod_mod_cancel)
  then have "uint (sn_dist m lo k') mod cap w = uint (sn_dist m lo k) mod cap w"
    using assms(8) by (metis mod_diff_left_eq)
  then have "uint (sn_dist m lo k') = uint (sn_dist m lo k)"
    using k(2) k'(2) by simp
  then show ?thesis using sn_space.dist_inj [OF m(1)] k(1) k'(1) by blast
qed

lemma get_put_span:
  assumes "sn_space m" "cap w dvd uint m" "wf w" "spans m lo w"
    and "k < m" "uint (sn_dist m lo k) < cap w"
  shows "get (put w k v) = (get w)(k \<mapsto> v)"
proof
  fix k'
  show "get (put w k v) k' = ((get w)(k \<mapsto> v)) k'"
    using span_no_collision [OF assms(1,2,3,5,6), of k'] assms(3,4)
    by (cases "get w k'") (auto simp: get_put spans_def)
qed

end

interpretation cmw: window_ops cm_wf "\<lambda>w. uint (cm_max_size w)" cm_get cm_overwrite
    "\<lambda>w k. fst (cm_erase w k)" cm_modify cm_count
proof (unfold_locales, goal_cases)
  case (1 w k v k') then show ?case by (simp add: cm_get_overwrite circular_idx_eq_iff)
next
  case (10 w) then show ?case using cm_wf_max_size [of w] by auto
qed (simp_all add: cm_get_erase cm_get_modify cm_wf_overwrite cm_wf_erase cm_wf_modify cm_count_keys)

lemma add_sn_Some: "\<not> has_sn w sn \<Longrightarrow> add_sn w sn v = Some (cm_overwrite w sn v)"
  by (simp add: add_sn_def)

lemma remove_sn_Some: "has_sn w sn \<Longrightarrow> remove_sn w sn = Some (fst (cm_erase w sn))"
  by (simp add: remove_sn_def)

end
