(* ===== verification/Rlc_Rx_Am.thy ===== *)
theory Rlc_Rx_Am
  imports Rlc_Am_Pdu Rlc_Segments Sdu_Window
begin

text \<open>
  The receiving side of an RLC AM entity (\<open>lib/rlc/rlc_rx_am_entity.h\<close>, \<open>.cpp\<close>): PDU reception, the
  receive window, reassembly and delivery, t-Reassembly, and the status reports with their three
  exchanged buffers.

  The entity is the record \<open>rlc_rx_am_entity\<close>; an operation returns the new entity and the calls it
  makes on its neighbours, and \<open>None\<close> stands for a failed \<open>srsran_assert\<close>.  A timer is its running
  flag; running a timer whose duration was never set fails an assertion
  (\<open>lib/support/timers.cpp:254\<close>).  Metrics, traces, pcap and arrival times are not part of the state.
\<close>

section \<open>State\<close>

record rlc_rx_am_config =
  rx_sn_field_length :: rlc_am_sn_size
  rx_t_reassembly :: int
  rx_t_status_prohibit :: int
  rx_max_sn_per_status :: "u32 option"

record rlc_rx_am_state =
  rx_next :: u32
  rx_next_status_trigger :: u32
  rx_highest_status :: u32
  rx_next_highest :: u32

record rlc_rx_am_entity =
  rxa_cfg :: rlc_rx_am_config
  st :: rlc_rx_am_state
  max_nof_sn_per_status_report :: u32
  do_status :: bool
  rx_window :: "rx_sdu_info circular_map"
  status_owned_by_writer :: rlc_am_status_pdu
  status_for_exchange :: rlc_am_status_pdu
  status_owned_by_reader :: rlc_am_status_pdu
  status_report_size :: u32
  status_prohibit_timer_is_running :: bool
  status_prohibit_timer :: bool
  reassembly_timer :: bool
  rxa_stopped :: bool

datatype rx_am_event =
    On_new_sdu bytes
  | On_status_pdu rlc_am_status_pdu
  | On_status_report_changed
  | Defer_status_prohibit_start

abbreviation rxa_mod :: "rlc_rx_am_entity \<Rightarrow> u32" where
  "rxa_mod e \<equiv> am_mod (rx_sn_field_length (rxa_cfg e))"

abbreviation am_window_size :: "rlc_rx_am_entity \<Rightarrow> u32" where
  "am_window_size e \<equiv> window_size (am_to_number (rx_sn_field_length (rxa_cfg e)))"

definition rx_am_create :: "rlc_rx_am_config \<Rightarrow> rlc_rx_am_entity option" where
  "rx_am_create cfg =
     (let sz = rx_sn_field_length cfg; w = window_size (am_to_number sz);
          s0 = rlc_am_status_pdu_init sz;
          limit = (case rx_max_sn_per_status cfg of
                     Some mx \<Rightarrow> if mx \<le> w \<and> mx > 0 then Some mx else None
                   | None \<Rightarrow> Some w)
      in case (limit, cm_create w) of
           (Some mx, Some win) \<Rightarrow>
             Some \<lparr>rxa_cfg = cfg,
               st = \<lparr>rx_next = 0, rx_next_status_trigger = 0, rx_highest_status = 0, rx_next_highest = 0\<rparr>,
               max_nof_sn_per_status_report = mx, do_status = False, rx_window = win,
               status_owned_by_writer = s0, status_for_exchange = s0\<lparr>sp_ack_sn := 0\<rparr>,
               status_owned_by_reader = s0, status_report_size = sp_packed_size s0,
               status_prohibit_timer_is_running = False, status_prohibit_timer = False,
               reassembly_timer = False, rxa_stopped = False\<rparr>
         | _ \<Rightarrow> None)"

definition rx_am_stop :: "rlc_rx_am_entity \<Rightarrow> rlc_rx_am_entity" where
  "rx_am_stop e = (if \<not> rxa_stopped e
     then e\<lparr>status_prohibit_timer := False, reassembly_timer := False, rxa_stopped := True\<rparr> else e)"

section \<open>Window helpers\<close>

definition rx_mod_base :: "rlc_rx_am_entity \<Rightarrow> u32 \<Rightarrow> u32" where
  "rx_mod_base e sn = sn_dist (rxa_mod e) (rx_next (st e)) sn"

definition inside_rx_window :: "rlc_rx_am_entity \<Rightarrow> u32 \<Rightarrow> bool" where
  "inside_rx_window e sn \<longleftrightarrow> rx_mod_base e sn < am_window_size e"

definition rx_valid_ack_sn :: "rlc_rx_am_entity \<Rightarrow> u32 \<Rightarrow> bool" where
  "rx_valid_ack_sn e sn \<longleftrightarrow> 0 < rx_mod_base e sn \<and> rx_mod_base e sn \<le> am_window_size e"

text \<open>\<open>rx_window.has_sn(sn) && rx_window[sn].fully_received\<close>, and the same for \<open>has_gap\<close>.\<close>

definition fully_received_at :: "rx_sdu_info circular_map \<Rightarrow> u32 \<Rightarrow> bool" where
  "fully_received_at w sn = (case cm_get w sn of None \<Rightarrow> False | Some i \<Rightarrow> fully_received i)"

definition has_gap_at :: "rx_sdu_info circular_map \<Rightarrow> u32 \<Rightarrow> bool" where
  "has_gap_at w sn = (case cm_get w sn of None \<Rightarrow> False | Some i \<Rightarrow> has_gap i)"

definition reassembly_timer_run :: "rlc_rx_am_entity \<Rightarrow> rlc_rx_am_entity option" where
  "reassembly_timer_run e = (if rx_t_reassembly (rxa_cfg e) > 0 then Some (e\<lparr>reassembly_timer := True\<rparr>) else None)"

section \<open>Storing SDUs and segments\<close>

text \<open>The window entry of an SN, created on first use.\<close>

definition window_with_sn :: "rx_sdu_info circular_map \<Rightarrow> u32 \<Rightarrow> (rx_sdu_info circular_map \<times> rx_sdu_info) option" where
  "window_with_sn w sn = (case cm_get w sn of
      Some i \<Rightarrow> Some (w, i)
    | None \<Rightarrow> map_option (\<lambda>w'. (w', rx_sdu_info_init)) (add_sn w sn rx_sdu_info_init))"

definition handle_full_data_sdu ::
  "rlc_rx_am_entity \<Rightarrow> rlc_am_pdu_header \<Rightarrow> bytes \<Rightarrow> (rlc_rx_am_entity \<times> bool) option" where
  "handle_full_data_sdu e header payload =
     (if am_si header \<noteq> full_sdu then Some (e, False)
      else case window_with_sn (rx_window e) (am_sn header) of
        None \<Rightarrow> None
      | Some (w, i) \<Rightarrow>
          Some (e\<lparr>rx_window := cm_modify w (am_sn header)
                    (\<lambda>_. i\<lparr>info_data := Full_sdu payload, fully_received := True, has_gap := False\<rparr>)\<rparr>, True))"

definition handle_segment_data_sdu ::
  "rlc_rx_am_entity \<Rightarrow> rlc_am_pdu_header \<Rightarrow> bytes \<Rightarrow> (rlc_rx_am_entity \<times> bool) option" where
  "handle_segment_data_sdu e header payload =
     (if am_si header = full_sdu then Some (e, False)
      else case window_with_sn (rx_window e) (am_sn header) of
        None \<Rightarrow> None
      | Some (w, i) \<Rightarrow>
          (case receive_segment i \<lparr>seg_si = am_si header, seg_so = am_so header, seg_payload = payload\<rparr> of
             None \<Rightarrow> None
           | Some (i', stored) \<Rightarrow> Some (e\<lparr>rx_window := cm_modify w (am_sn header) (\<lambda>_. i')\<rparr>, stored)))"

section \<open>Status reports\<close>

definition store_status_report :: "rlc_rx_am_entity \<Rightarrow> rlc_rx_am_entity" where
  "store_status_report e = e\<lparr>status_owned_by_writer := status_for_exchange e,
     status_for_exchange := status_owned_by_writer e,
     status_report_size := sp_packed_size (status_owned_by_writer e)\<rparr>"

text \<open>The segment loop of one partly received SDU, with the check for the last segment.\<close>

fun nack_segments :: "u32 \<Rightarrow> rx_sdu_segment list \<Rightarrow> u32 \<Rightarrow> bool \<Rightarrow> rlc_am_status_pdu \<Rightarrow> rlc_am_status_pdu option" where
  "nack_segments i [] last_so have_last_segment s =
     (if have_last_segment then Some s
      else let nack = rlc_am_status_nack_init\<lparr>nack_sn := i, has_so := True, so_start := ucast last_so,
                        so_end := so_end_of_sdu\<rparr>
           in if so_start nack \<le> so_end nack then Some (push_nack s nack) else None)"
| "nack_segments i (segm # rest) last_so have_last_segment s =
     (let have_last = have_last_segment \<or> seg_si segm = last_segment;
          next_so = ucast (seg_so segm) + of_nat (length (seg_payload segm))
      in if ucast (seg_so segm) \<noteq> last_so then
           (let nack = rlc_am_status_nack_init\<lparr>nack_sn := i, has_so := True, so_start := ucast last_so,
                         so_end := seg_so segm - 1\<rparr>
            in if so_start nack \<le> so_end nack
               then nack_segments i rest next_so have_last (push_nack s nack) else None)
         else nack_segments i rest next_so have_last s)"

text \<open>One iteration of the NACK loop for the SN \<open>i\<close>.\<close>

definition nack_sn_step :: "rx_sdu_info circular_map \<Rightarrow> u32 \<Rightarrow> rlc_am_status_pdu \<Rightarrow> rlc_am_status_pdu option" where
  "nack_sn_step w i s =
     (case cm_get w i of
        None \<Rightarrow> Some (push_nack s (rlc_am_status_nack_init\<lparr>nack_sn := i, has_so := False\<rparr>))
      | Some info \<Rightarrow>
          (if fully_received info then Some s
           else case info_data info of
             Full_sdu _ \<Rightarrow> None
           | Segment_set segments \<Rightarrow> nack_segments i segments 0 False s))"

text \<open>The loop state is \<open>None\<close> after a failed assertion.\<close>

definition status_stop_sn :: "rlc_rx_am_entity \<Rightarrow> u32" where
  "status_stop_sn e =
     (let lim = (rx_next (st e) + max_nof_sn_per_status_report e) mod rxa_mod e
      in if rx_mod_base e (rx_highest_status (st e)) > rx_mod_base e lim then lim
         else rx_highest_status (st e))"

definition refresh_status_report :: "rlc_rx_am_entity \<Rightarrow> rlc_rx_am_entity option" where
  "refresh_status_report e =
     (let stop_sn = status_stop_sn e;
          body = (\<lambda>i ms. case ms of None \<Rightarrow> None | Some s \<Rightarrow> Some (nack_sn_step (rx_window e) i s))
      in case sn_loop (rxa_mod e) (rx_next (st e)) stop_sn body (rx_next (st e))
                (Some (sp_reset (status_owned_by_writer e))) of
           (_, None) \<Rightarrow> None
         | (_, Some s) \<Rightarrow> Some (store_status_report (e\<lparr>status_owned_by_writer := s\<lparr>sp_ack_sn := stop_sn\<rparr>\<rparr>)))"

definition get_status_pdu :: "bool \<Rightarrow> rlc_rx_am_entity \<Rightarrow> rlc_rx_am_entity \<times> rlc_am_status_pdu \<times> rx_am_event list" where
  "get_status_pdu defer_ok e =
     (let prohibit = rx_t_status_prohibit (rxa_cfg e) > 0;
          e1 = e\<lparr>do_status := False,
                 status_prohibit_timer_is_running := (status_prohibit_timer_is_running e \<or> prohibit),
                 status_owned_by_reader := status_for_exchange e,
                 status_for_exchange := status_owned_by_reader e\<rparr>
      in (e1, status_owned_by_reader e1, if prohibit \<and> defer_ok then [Defer_status_prohibit_start] else []))"

text \<open>The deferred task of \<open>get_status_pdu\<close>.\<close>

definition start_status_prohibit_timer :: "rlc_rx_am_entity \<Rightarrow> rlc_rx_am_entity" where
  "start_status_prohibit_timer e = e\<lparr>status_prohibit_timer := True\<rparr>"

definition get_status_pdu_length :: "rlc_rx_am_entity \<Rightarrow> u32" where
  "get_status_pdu_length e = status_report_size e"

definition status_report_required :: "rlc_rx_am_entity \<Rightarrow> bool" where
  "status_report_required e \<longleftrightarrow> do_status e \<and> \<not> status_prohibit_timer_is_running e"

definition notify_status_report_changed :: "rlc_rx_am_entity \<Rightarrow> rx_am_event list" where
  "notify_status_report_changed e = (if status_report_required e then [On_status_report_changed] else [])"

definition on_expired_status_prohibit_timer :: "rlc_rx_am_entity \<Rightarrow> rlc_rx_am_entity \<times> rx_am_event list" where
  "on_expired_status_prohibit_timer e =
     (let e1 = e\<lparr>status_prohibit_timer_is_running := False\<rparr> in (e1, notify_status_report_changed e1))"

section \<open>Reception of a data PDU\<close>

text \<open>RX_Next_Highest.\<close>

definition update_next_highest :: "u32 \<Rightarrow> rlc_rx_am_entity \<Rightarrow> rlc_rx_am_entity" where
  "update_next_highest sn e =
     (if rx_mod_base e sn \<ge> rx_mod_base e (rx_next_highest (st e))
      then e\<lparr>st := (st e)\<lparr>rx_next_highest := sn_next (rxa_mod e) sn\<rparr>\<rparr> else e)"

text \<open>RX_Highest_Status: the first SN behind the current one that is not fully received.\<close>

definition update_highest_status :: "u32 \<Rightarrow> rlc_rx_am_entity \<Rightarrow> rlc_rx_am_entity" where
  "update_highest_status sn e =
     (if rx_mod_base e sn = rx_mod_base e (rx_highest_status (st e))
      then let sn_upd = fst (sn_loop (rxa_mod e) (rx_next (st e)) (rx_next_highest (st e))
                 (\<lambda>i (_ :: unit). if fully_received_at (rx_window e) i then Some () else None)
                 (sn_next (rxa_mod e) (rx_highest_status (st e))) ())
           in e\<lparr>st := (st e)\<lparr>rx_highest_status := sn_upd\<rparr>\<rparr>
      else e)"

text \<open>RX_Next: move the lower edge and drop the fully received SDUs from the window.\<close>

definition update_rx_next :: "u32 \<Rightarrow> rlc_rx_am_entity \<Rightarrow> rlc_rx_am_entity" where
  "update_rx_next sn e =
     (if rx_mod_base e sn = rx_mod_base e (rx_next (st e))
      then (case sn_loop (rxa_mod e) (rx_next (st e)) (rx_next_highest (st e))
                   (\<lambda>i w. if fully_received_at w i then remove_sn w i else None)
                   (rx_next (st e) mod rxa_mod e) (rx_window e)
            of (sn_upd, w) \<Rightarrow> e\<lparr>st := (st e)\<lparr>rx_next := sn_upd\<rparr>, rx_window := w\<rparr>)
      else e)"

text \<open>Delivery of a fully received SDU.  On a failed reassembly the SDU is dropped, the state moves on.\<close>

definition deliver_sdu :: "bool \<Rightarrow> u32 \<Rightarrow> rlc_rx_am_entity \<Rightarrow> rlc_rx_am_entity \<times> rx_am_event list" where
  "deliver_sdu chain_ok sn e =
     (case cm_get (rx_window e) sn of
        None \<Rightarrow> (e, [])
      | Some i \<Rightarrow>
          (if \<not> fully_received i then (e, [])
           else (update_rx_next sn (update_highest_status sn
                   (e\<lparr>rx_window := cm_modify (rx_window e) sn (\<lambda>i. i\<lparr>info_data := Full_sdu []\<rparr>)\<rparr>)),
                 (case reassemble_sdu chain_ok i of None \<Rightarrow> [] | Some sdu \<Rightarrow> [On_new_sdu sdu]))))"

text \<open>t-Reassembly while it runs; the access \<open>rx_window[rx_next]\<close> asserts that the SN is present.\<close>

definition check_stop_reassembly :: "rlc_rx_am_entity \<Rightarrow> rlc_rx_am_entity option" where
  "check_stop_reassembly e =
     (if \<not> reassembly_timer e then Some e
      else let trigger = rx_next_status_trigger (st e);
               stop1 = (trigger = rx_next (st e));
               next1 = (rx_mod_base e trigger = rx_mod_base e (rx_next (st e) + 1))
           in if next1 \<and> \<not> has_sn (rx_window e) (rx_next (st e)) then None
              else let stop2 = (next1 \<and> \<not> has_gap_at (rx_window e) (rx_next (st e)));
                       stop3 = (\<not> inside_rx_window e trigger)
                   in Some (if stop1 \<or> stop2 \<or> stop3 then e\<lparr>reassembly_timer := False\<rparr> else e))"

text \<open>(Re)start of t-Reassembly against the SN \<open>low\<close>: RX_Next on reception, RX_Highest_Status on expiry.\<close>

definition restart_needed :: "rlc_rx_am_entity \<Rightarrow> u32 \<Rightarrow> bool" where
  "restart_needed e low \<longleftrightarrow>
     rx_mod_base e (rx_next_highest (st e)) > rx_mod_base e (low + 1) \<or>
     (rx_mod_base e (rx_next_highest (st e)) = rx_mod_base e (low + 1) \<and> has_gap_at (rx_window e) low)"

definition start_reassembly :: "rlc_rx_am_entity \<Rightarrow> rlc_rx_am_entity option" where
  "start_reassembly e = map_option (\<lambda>e'. e'\<lparr>st := (st e')\<lparr>rx_next_status_trigger := rx_next_highest (st e')\<rparr>\<rparr>)
     (reassembly_timer_run e)"

definition check_start_reassembly :: "rlc_rx_am_entity \<Rightarrow> rlc_rx_am_entity option" where
  "check_start_reassembly e =
     (if \<not> reassembly_timer e \<and> restart_needed e (rx_next (st e)) then start_reassembly e else Some e)"

text \<open>The scope exit of \<open>handle_data_pdu\<close>.\<close>

definition data_pdu_exit :: "bool \<Rightarrow> bool \<Rightarrow> rlc_rx_am_entity \<Rightarrow> (rlc_rx_am_entity \<times> rx_am_event list) option" where
  "data_pdu_exit status_changed status_requested e =
     (if \<not> status_changed \<and> \<not> status_requested then Some (e, [])
      else case refresh_status_report e of
        None \<Rightarrow> None
      | Some e1 \<Rightarrow>
          let e2 = (if status_requested then e1\<lparr>do_status := True\<rparr> else e1)
          in Some (e2, notify_status_report_changed e2))"

text \<open>Placing an accepted PDU in the reception buffer and the actions that follow (5.2.3.2.3).\<close>

definition place_pdu :: "bool \<Rightarrow> rlc_am_pdu_header \<Rightarrow> bytes \<Rightarrow> rlc_rx_am_entity \<Rightarrow>
    (rlc_rx_am_entity \<times> bool \<times> rx_am_event list) option" where
  "place_pdu chain_ok header payload e =
     (case (if am_si header = full_sdu then handle_full_data_sdu e header payload
            else handle_segment_data_sdu e header payload) of
        None \<Rightarrow> None
      | Some (e1, status_changed) \<Rightarrow>
          (case deliver_sdu chain_ok (am_sn header) (update_next_highest (am_sn header) e1) of
             (e2, evs) \<Rightarrow>
               Option.bind (check_stop_reassembly e2) (\<lambda>e3.
               Option.bind (check_start_reassembly e3) (\<lambda>e4. Some (e4, status_changed, evs)))))"

definition handle_data_pdu :: "bool \<Rightarrow> rlc_rx_am_entity \<Rightarrow> bytes \<Rightarrow> (rlc_rx_am_entity \<times> rx_am_event list) option" where
  "handle_data_pdu chain_ok e buf =
     (case rlc_am_read_data_pdu_header buf (rx_sn_field_length (rxa_cfg e)) of
        None \<Rightarrow> Some (e, [])
      | Some header \<Rightarrow>
          (if length buf \<le> am_get_packed_size header then Some (e, [])
           else let payload = drop (am_get_packed_size header) buf;
                    status_requested = (am_p header \<noteq> 0)
                in if \<not> inside_rx_window e (am_sn header) then data_pdu_exit False status_requested e
                   else if fully_received_at (rx_window e) (am_sn header) then data_pdu_exit False status_requested e
                   else case place_pdu chain_ok header payload e of
                     None \<Rightarrow> None
                   | Some (e1, status_changed, evs) \<Rightarrow>
                       map_option (\<lambda>(e2, evs2). (e2, evs @ evs2))
                         (data_pdu_exit status_changed status_requested e1)))"

definition rx_handle_control_pdu :: "rlc_rx_am_entity \<Rightarrow> bytes \<Rightarrow> rx_am_event list" where
  "rx_handle_control_pdu e buf =
     (case sp_unpack (rlc_am_status_pdu_init (rx_sn_field_length (rxa_cfg e))) buf of
        Some status_pdu \<Rightarrow> [On_status_pdu status_pdu]
      | None \<Rightarrow> [])"

definition rx_handle_pdu :: "bool \<Rightarrow> rlc_rx_am_entity \<Rightarrow> bytes \<Rightarrow> (rlc_rx_am_entity \<times> rx_am_event list) option" where
  "rx_handle_pdu chain_ok e buf =
     (if buf = [] then Some (e, [])
      else if is_control_pdu buf = Some True then Some (e, rx_handle_control_pdu e buf)
      else handle_data_pdu chain_ok e buf)"

section \<open>Expiry of t-Reassembly\<close>

definition on_expired_reassembly_timer :: "rlc_rx_am_entity \<Rightarrow> (rlc_rx_am_entity \<times> rx_am_event list) option" where
  "on_expired_reassembly_timer e =
     (if reassembly_timer e then Some (e, [])
      else if \<not> rx_valid_ack_sn e (rx_next_status_trigger (st e)) then Some (e, [])
      else let sn_upd = fst (sn_loop (rxa_mod e) (rx_next (st e)) (rx_next_highest (st e))
                 (\<lambda>i (_ :: unit). if fully_received_at (rx_window e) i then Some () else None)
                 (rx_next_status_trigger (st e)) ())
           in if \<not> rx_valid_ack_sn e sn_upd then None
              else let e1 = e\<lparr>st := (st e)\<lparr>rx_highest_status := sn_upd\<rparr>\<rparr>
                   in Option.bind (if restart_needed e1 sn_upd then start_reassembly e1 else Some e1) (\<lambda>e2.
                      Option.bind (refresh_status_report e2) (\<lambda>e3.
                      let e4 = e3\<lparr>do_status := True\<rparr> in Some (e4, notify_status_report_changed e4))))"

section \<open>Status reports: what is NACKed\<close>

lemma am_read_header_bounds:
  assumes "rlc_am_read_data_pdu_header buf sz = Some h"
  shows "am_sn h < am_mod sz \<and> am_sn_size h = sz"
proof (cases sz)
  case am_size12bits
  have sn: "push_bit 8 (ucast (b0 :: u8) AND 0x0f) OR (ucast (b1 :: u8) AND 0xff) < (2 ^ 12 :: u32)" for b0 b1
    unfolding and_masks by (rule word_less_exp_bits) (auto simp: bit_simps)
  have "length buf > 2" using assms am_size12bits
    by (auto simp: rlc_am_read_data_pdu_header_def split: if_splits)
  then obtain b0 b1 r where "buf = b0 # b1 # r" by (cases buf; cases "tl buf") auto
  then show ?thesis using assms sn [of b0 b1] unfolding am_size12bits
    by (auto simp only: am_read_12bit map_option_eq_Some split: if_splits) (auto simp del: push_bit_and)
next
  case am_size18bits
  have sn: "push_bit 16 (ucast (b0 :: u8) AND 0x03) OR push_bit 8 (ucast (b1 :: u8) AND 0xff)
      OR (ucast (b2 :: u8) AND 0xff) < (2 ^ 18 :: u32)" for b0 b1 b2
    unfolding and_masks by (rule word_less_exp_bits) (auto simp: bit_simps)
  have "length buf > 3" using assms am_size18bits
    by (auto simp: rlc_am_read_data_pdu_header_def split: if_splits)
  then obtain b0 b1 b2 r where "buf = b0 # b1 # b2 # r" by (cases buf; cases "tl buf"; cases "tl (tl buf)") auto
  then show ?thesis using assms sn [of b0 b1 b2] unfolding am_size18bits
    by (auto simp only: am_read_18bit map_option_eq_Some split: if_splits) (auto simp del: push_bit_and)
qed

definition seg_set_last :: "rx_sdu_segment list \<Rightarrow> bool" where
  "seg_set_last ss \<longleftrightarrow> (\<exists>s \<in> set ss. seg_si s = last_segment)"

text \<open>Byte \<open>off\<close> is missing among the segments \<open>ss\<close> read from \<open>lo\<close> on.\<close>

definition segs_missing :: "nat \<Rightarrow> bool \<Rightarrow> rx_sdu_segment list \<Rightarrow> nat \<Rightarrow> bool" where
  "segs_missing lo h ss off \<longleftrightarrow> lo \<le> off \<and> off \<notin> segs_dom ss \<and>
     (h \<or> seg_set_last ss \<longrightarrow> off < segs_hi lo ss)"

lemma nack_covers_single:
  assumes "nack_sn n < am_mod sz" "\<not> has_nack_range n"
  shows "nack_covers (am_mod sz) n x off \<longleftrightarrow> x = nack_sn n \<and>
    (has_so n \<longrightarrow> unat (so_start n) \<le> off \<and> (off \<le> unat (so_end n) \<or> so_end n = so_end_of_sdu))"
proof -
  have "x < am_mod sz \<and> uint (sn_dist (am_mod sz) (nack_sn n) x) < 1 \<longleftrightarrow> x = nack_sn n"
    using assms(1) am_sn.dist_zero_iff [of "nack_sn n" sz x]
    by (auto simp: uint_lt_1_iff)
  then show ?thesis using assms(2) by (auto simp: nack_covers_def nack_count_def Let_def)
qed

text \<open>A SO NACK that the receiver builds: one SN, from a byte to another byte or to the end.\<close>

definition so_nack :: "u32 \<Rightarrow> u16 \<Rightarrow> u16 \<Rightarrow> rlc_am_status_nack" where
  "so_nack i a b = rlc_am_status_nack_init\<lparr>nack_sn := i, has_so := True, so_start := a, so_end := b\<rparr>"

lemma push_nack_wf:
  assumes "\<forall>n \<in> set (sp_nacks s). nack_wf (mod_nr s) n" "nack_wf (mod_nr s) nack"
  shows "\<forall>n \<in> set (sp_nacks (push_nack s nack)). nack_wf (mod_nr s) n"
proof (cases "sp_nacks s = [] \<or> \<not> can_be_merged s (last (sp_nacks s)) nack")
  case True
  then show ?thesis using assms by (auto simp: push_nack_def)
next
  case False
  then obtain ns p where ns: "sp_nacks s = ns @ [p]" by (cases "sp_nacks s" rule: rev_cases) auto
  with False have m: "can_be_merged s p nack" by simp
  have "0 < nack_count (expand_nack p nack)"
    using expand_nack_count [OF m] nack_count_pos [of "mod_nr s" p] nack_count_pos [of "mod_nr s" nack] assms ns by simp
  then have "nack_wf (mod_nr s) (expand_nack p nack)"
    using assms ns by (auto simp: nack_wf_def expand_nack_so nack_count_def split: if_splits)
  then show ?thesis using False assms by (auto simp: push_nack_def ns Let_def)
qed

definition status_wf :: "rlc_am_status_pdu \<Rightarrow> bool" where
  "status_wf s \<longleftrightarrow> sp_normal s \<and> (\<forall>n \<in> set (sp_nacks s). nack_wf (mod_nr s) n)"

lemma status_ack_sn [simp]:
  "status_wf (s\<lparr>sp_ack_sn := a\<rparr>) \<longleftrightarrow> status_wf s"
  "status_covers (s\<lparr>sp_ack_sn := a\<rparr>) = status_covers s"
proof -
  show "status_wf (s\<lparr>sp_ack_sn := a\<rparr>) \<longleftrightarrow> status_wf s"
    using nack_size_cong [of "s\<lparr>sp_ack_sn := a\<rparr>" s] nacks_normal_cong [of "s\<lparr>sp_ack_sn := a\<rparr>" s]
    by (simp add: status_wf_def sp_normal_def sp_size_ok_def)
  show "status_covers (s\<lparr>sp_ack_sn := a\<rparr>) = status_covers s"
    by (intro ext) (simp add: status_covers_def)
qed

lemma push_nack_status_wf:
  "status_wf s \<Longrightarrow> nack_wf (mod_nr s) n \<Longrightarrow> nack_enc_ok (mod_nr s) n \<Longrightarrow> status_wf (push_nack s n)"
  using push_nack_normal [of s n] push_nack_wf [of s n] by (simp add: status_wf_def)

lemma push_so_nack:
  assumes "i < mod_nr s" "status_wf s"
  shows "status_wf (push_nack s (so_nack i a b))"
    "status_covers (push_nack s (so_nack i a b)) x off \<longleftrightarrow>
      status_covers s x off \<or> (x = i \<and> unat a \<le> off \<and> (off \<le> unat b \<or> b = so_end_of_sdu))"
proof -
  have wf: "nack_wf (mod_nr s) (so_nack i a b)"
    using assms(1) by (simp add: nack_wf_def so_nack_def rlc_am_status_nack_init_def)
  show "status_wf (push_nack s (so_nack i a b))"
    using assms(1) by (intro push_nack_status_wf [OF assms(2) wf])
      (simp add: nack_enc_ok_def so_nack_def rlc_am_status_nack_init_def)
  show "status_covers (push_nack s (so_nack i a b)) x off \<longleftrightarrow>
      status_covers s x off \<or> (x = i \<and> unat a \<le> off \<and> (off \<le> unat b \<or> b = so_end_of_sdu))"
    using push_nack_covers_iff [OF _ wf] assms(2) nack_covers_single [of "so_nack i a b" "sp_sn_size s" x off] assms(1)
    by (simp add: so_nack_def rlc_am_status_nack_init_def status_wf_def)
qed

lemma nack_segments_correct:
  assumes "segs_ok seg_wf lo ss" "lo \<le> 65535" "i < mod_nr s" "status_wf s"
  shows "\<exists>s'. nack_segments i ss (of_nat lo) h s = Some s' \<and> sp_sn_size s' = sp_sn_size s \<and>
    status_wf s' \<and> sp_ack_sn s' = sp_ack_sn s \<and>
    (\<forall>x off. status_covers s' x off \<longleftrightarrow> status_covers s x off \<or> (x = i \<and> segs_missing lo h ss off))"
  using assms
proof (induction ss arbitrary: lo h s)
  case Nil
  have lo: "unat (ucast (of_nat lo :: u32) :: u16) = lo"
    using Nil by (simp add: unsigned_ucast_eq unsigned_of_nat take_bit_nat_eq_self)
  show ?case
  proof (cases h)
    case True
    then show ?thesis using Nil by (auto simp: segs_missing_def)
  next
    case False
    have "(ucast (of_nat lo :: u32) :: u16) \<le> so_end_of_sdu"
      using Nil lo by (simp add: so_end_of_sdu_def word_le_nat_alt)
    then have e: "nack_segments i [] (of_nat lo) h s = Some (push_nack s (so_nack i (ucast (of_nat lo :: u32)) so_end_of_sdu))"
      using False by (simp add: so_nack_def Let_def)
    show ?thesis unfolding e using push_so_nack [OF Nil(3,4)] False lo
      by (auto simp: segs_missing_def seg_set_last_def)
  qed
next
  case (Cons sg ss)
  have sg: "lo \<le> seg_begin sg" "seg_wf sg" "segs_ok seg_wf (seg_end sg) ss" using Cons.prems by auto
  have lo: "unat (of_nat lo :: u32) = lo" "unat (ucast (of_nat lo :: u32) :: u16) = lo"
    using Cons.prems(2) by (simp_all add: unsigned_ucast_eq unsigned_of_nat take_bit_nat_eq_self)
  have so: "ucast (seg_so sg) = (of_nat lo :: u32) \<longleftrightarrow> seg_begin sg = lo"
    by (simp add: word_unat_eq_iff unat_ucast_so lo)
  have nxt: "ucast (seg_so sg) + of_nat (length (seg_payload sg)) = (of_nat (seg_end sg) :: u32)"
    by simp
  have later: "x \<in> segs_dom ss \<Longrightarrow> seg_end sg \<le> x" for x using segs_ok_lower [OF sg(3)] by blast
  have hi: "seg_end sg \<le> segs_hi (seg_end sg) ss" using segs_hi_ge [OF sg(3)] .
  let ?h = "h \<or> seg_si sg = last_segment"
  have missing: "segs_missing lo h (sg # ss) off \<longleftrightarrow>
      (lo \<le> off \<and> off < seg_begin sg) \<or> segs_missing (seg_end sg) ?h ss off" for off
    using sg(1) later [of off] hi by (auto simp: segs_missing_def seg_set_last_def seg_dom_def)
  show ?case
  proof (cases "seg_begin sg = lo")
    case True
    then have "nack_segments i (sg # ss) (of_nat lo) h s = nack_segments i ss (of_nat (seg_end sg)) ?h s"
      using so nxt by (simp add: Let_def)
    moreover have "segs_missing lo h (sg # ss) off \<longleftrightarrow> segs_missing (seg_end sg) ?h ss off" for off
      using missing [of off] True by auto
    moreover have "seg_end sg \<le> 65535" using sg(2) by (simp add: seg_wf_def)
    ultimately show ?thesis using Cons.IH [OF sg(3) _ Cons.prems(3,4), of ?h] by presburger
  next
    case False
    let ?s = "push_nack s (so_nack i (ucast (of_nat lo :: u32)) (seg_so sg - 1))"
    have so1: "unat (seg_so sg - 1) = seg_begin sg - 1" 
      using False sg(1) by (subst unat_sub) (auto simp: word_le_nat_alt)
    then have "(ucast (of_nat lo :: u32) :: u16) \<le> seg_so sg - 1"
      using False sg(1) lo by (simp add: word_le_nat_alt)
    then have e: "nack_segments i (sg # ss) (of_nat lo) h s = nack_segments i ss (of_nat (seg_end sg)) ?h ?s"
      using False so nxt by (simp add: Let_def so_nack_def)
    have ne: "seg_so sg - 1 \<noteq> so_end_of_sdu"
      using so1 sg(2) unsigned_less [of "seg_so sg", where ?'a = nat] 
      by (auto simp: so_end_of_sdu_def word_unat_eq_iff)
    have off: "off \<le> seg_begin sg - 1 \<longleftrightarrow> off < seg_begin sg" for off using False sg(1) by auto
    obtain s' where s': "nack_segments i ss (of_nat (seg_end sg)) ?h ?s = Some s'" "sp_sn_size s' = sp_sn_size s"
      "status_wf s'" "sp_ack_sn s' = sp_ack_sn s"
      "\<forall>x off. status_covers s' x off \<longleftrightarrow> status_covers ?s x off \<or> (x = i \<and> segs_missing (seg_end sg) ?h ss off)"
      using Cons.IH [OF sg(3), of ?s ?h] sg(2) Cons.prems(3) push_so_nack(1) [OF Cons.prems(3,4)]
      by (auto simp: seg_wf_def)
    show ?thesis unfolding e using s' push_so_nack(2) [OF Cons.prems(3,4)] ne off lo so1 missing
      by auto
  qed
qed

text \<open>The bytes of SDU \<open>sn\<close> that the window still misses.\<close>

definition sdu_missing :: "rx_sdu_info circular_map \<Rightarrow> u32 \<Rightarrow> nat \<Rightarrow> bool" where
  "sdu_missing w sn off = (case cm_get w sn of None \<Rightarrow> True
     | Some i \<Rightarrow> \<not> fully_received i \<and> segs_missing 0 False (segments_of (info_data i)) off)"

definition info_wf :: "rx_sdu_info \<Rightarrow> bool" where
  "info_wf i \<longleftrightarrow> fully_received i \<or> (case info_data i of Full_sdu _ \<Rightarrow> False
     | Segment_set ss \<Rightarrow> segs_ok seg_wf 0 ss \<and> inventory_loop 0 ss = (has_gap i, False))"

lemma nack_sn_step_correct:
  assumes "\<forall>info. cm_get w i = Some info \<longrightarrow> info_wf info" "i < mod_nr s" "status_wf s"
  shows "\<exists>s'. nack_sn_step w i s = Some s' \<and> sp_sn_size s' = sp_sn_size s \<and> status_wf s' \<and>
    (\<forall>x off. status_covers s' x off \<longleftrightarrow> status_covers s x off \<or> (x = i \<and> sdu_missing w i off))"
proof (cases "cm_get w i")
  case None
  let ?n = "rlc_am_status_nack_init\<lparr>nack_sn := i, has_so := False\<rparr>"
  have n: "nack_wf (mod_nr s) ?n" "nack_enc_ok (mod_nr s) ?n"
    using assms(2) by (simp_all add: nack_wf_def nack_enc_ok_def rlc_am_status_nack_init_def)
  have "nack_covers (mod_nr s) ?n x off \<longleftrightarrow> x = i" for x off
    using nack_covers_single [of ?n "sp_sn_size s" x off] assms(2) by (simp add: rlc_am_status_nack_init_def)
  then show ?thesis
    using None push_nack_status_wf [OF assms(3) n] push_nack_covers_iff [OF _ n(1)] assms(3)
    by (auto simp: nack_sn_step_def sdu_missing_def status_wf_def)
next
  case (Some info)
  show ?thesis
  proof (cases "fully_received info")
    case True
    then show ?thesis using Some assms(3) by (simp add: nack_sn_step_def sdu_missing_def)
  next
    case False
    then obtain ss where ss: "info_data info = Segment_set ss" "segs_ok seg_wf 0 ss"
      using assms(1) Some by (auto simp: info_wf_def split: sdu_data.splits)
    then show ?thesis using nack_segments_correct [OF ss(2) _ assms(2,3), of False] False Some
      by (auto simp: nack_sn_step_def sdu_missing_def segments_of_def)
  qed
qed

lemma refresh_status_report_correct:
  assumes win: "\<forall>k i. cm_get (rx_window e) k = Some i \<longrightarrow> info_wf i"
    and sz: "sp_sn_size (status_owned_by_writer e) = rx_sn_field_length (rxa_cfg e)"
    and lt: "rx_next (st e) < rxa_mod e"
  shows "\<exists>s. refresh_status_report e = Some (store_status_report (e\<lparr>status_owned_by_writer := s\<rparr>)) \<and>
    sp_sn_size s = rx_sn_field_length (rxa_cfg e) \<and> status_wf s \<and> sp_ack_sn s = status_stop_sn e \<and>
    (\<forall>x off. status_covers s x off \<longleftrightarrow>
       x < rxa_mod e \<and> rx_mod_base e x < rx_mod_base e (status_stop_sn e) \<and> sdu_missing (rx_window e) x off)"
proof -
  let ?m = "rxa_mod e" and ?b = "rx_next (st e)" and ?stop = "status_stop_sn e"
  let ?d = "\<lambda>x. uint (sn_dist ?m ?b x)"
  let ?body = "\<lambda>i ms. case ms of None \<Rightarrow> None | Some s \<Rightarrow> Some (nack_sn_step (rx_window e) i s)"
  let ?s0 = "sp_reset (status_owned_by_writer e)"
  define I where "I i ms \<longleftrightarrow> i < ?m \<and> (\<exists>s. ms = Some s \<and> sp_sn_size s = rx_sn_field_length (rxa_cfg e) \<and> status_wf s \<and>
    (\<forall>x off. status_covers s x off \<longleftrightarrow> x < ?m \<and> ?d x < ?d i \<and> sdu_missing (rx_window e) x off))" for i ms
  obtain j ms where loop: "sn_loop ?m ?b ?stop ?body ?b (Some ?s0) = (j, ms)" by fastforce
  have init: "I ?b (Some ?s0)"
    using sz lt by (simp add: I_def sp_reset_def status_wf_def sp_normal_def sp_size_ok_def status_covers_def)
  have step: "I (sn_next ?m i) ms'" if I: "I i ms" and lt: "?d i < ?d ?stop" and b: "?body i ms = Some ms'" for i ms ms'
  proof -
    obtain s where s: "ms = Some s" "i < ?m" "sp_sn_size s = rx_sn_field_length (rxa_cfg e)" "status_wf s"
      "\<forall>x off. status_covers s x off \<longleftrightarrow> x < ?m \<and> ?d x < ?d i \<and> sdu_missing (rx_window e) x off"
      using I by (auto simp: I_def)
    obtain s' where s': "ms' = Some s'" "sp_sn_size s' = sp_sn_size s" "status_wf s'"
      "\<forall>x off. status_covers s' x off \<longleftrightarrow> status_covers s x off \<or> (x = i \<and> sdu_missing (rx_window e) i off)"
      using nack_sn_step_correct [of "rx_window e" i s] win s b by auto
    have n: "?d (sn_next ?m i) = ?d i + 1" by (rule am_sn.dist_next_below [OF lt])
    have "x < ?m \<Longrightarrow> ?d x < ?d i + 1 \<longleftrightarrow> ?d x < ?d i \<or> x = i" for x
      using am_sn.dist_inj [of x _ i ?b] s(2) by fastforce
    then show ?thesis using s s' n am_sn.next_less unfolding I_def by auto
  qed
  have le: "?d ?b \<le> ?d ?stop" by simp
  have "I j ms \<and> ?d ?b \<le> ?d j \<and> ?d j \<le> ?d ?stop \<and> (?d j = ?d ?stop \<or> ?body j ms = None)"
    by (rule am_sn.sn_loop_rule [where I = I, OF init le _ loop]) (rule step)
  moreover from this have "?body j ms \<noteq> None" by (auto simp: I_def)
  ultimately obtain s where s: "ms = Some s" "sp_sn_size s = rx_sn_field_length (rxa_cfg e)" "status_wf s"
      "\<forall>x off. status_covers s x off \<longleftrightarrow> x < ?m \<and> ?d x < ?d ?stop \<and> sdu_missing (rx_window e) x off"
    by (auto simp: I_def)
  have "refresh_status_report e = Some (store_status_report (e\<lparr>status_owned_by_writer := s\<lparr>sp_ack_sn := ?stop\<rparr>\<rparr>))"
    using loop s(1) by (simp add: refresh_status_report_def Let_def)
  then show ?thesis using s(2-4)
    by (intro exI [of _ "s\<lparr>sp_ack_sn := ?stop\<rparr>"]) (simp add: rx_mod_base_def word_less_def)
qed

end
