(* ===== verification/Rlc_Retx_Queue.thy ===== *)
theory Rlc_Retx_Queue
  imports Rlc_Am_Pdu
begin

text \<open>
  The retransmission queue of the RLC AM transmitter (\<open>lib/rlc/rlc_retx_queue.h\<close>): a bounded FIFO of
  retransmissions in which elements are removed by marking them invalid, with running totals over the
  valid ones.  The ring buffer of \<open>include/srsran/adt/ring_buffer.h\<close> is a list with its capacity.
\<close>

section \<open>Definitions\<close>

record rlc_tx_amd_retx =
  retx_sn :: u32
  retx_so :: u32
  retx_length :: u32

definition rlc_tx_amd_retx_init :: rlc_tx_amd_retx where
  "rlc_tx_amd_retx_init = \<lparr>retx_sn = INVALID_RLC_SN, retx_so = 0, retx_length = 0\<rparr>"

definition retx_includes :: "rlc_tx_amd_retx \<Rightarrow> u32 \<Rightarrow> u32 \<Rightarrow> bool" where
  "retx_includes r segment_offset segment_length \<longleftrightarrow>
     segment_offset \<ge> retx_so r \<and> segment_offset + segment_length \<le> retx_so r + retx_length r"

record rlc_retx_queue_state =
  retx_bytes :: u32
  n_retx_so_zero :: u32
  n_retx_so_nonzero :: u32

definition retx_state_init :: rlc_retx_queue_state where
  "retx_state_init = \<lparr>retx_bytes = 0, n_retx_so_zero = 0, n_retx_so_nonzero = 0\<rparr>"

definition retx_state_add :: "rlc_retx_queue_state \<Rightarrow> rlc_tx_amd_retx \<Rightarrow> rlc_retx_queue_state" where
  "retx_state_add s elem =
     (let s1 = s\<lparr>retx_bytes := retx_bytes s + retx_length elem\<rparr>
      in if retx_so elem = 0 then s1\<lparr>n_retx_so_zero := n_retx_so_zero s + 1\<rparr>
         else s1\<lparr>n_retx_so_nonzero := n_retx_so_nonzero s + 1\<rparr>)"

definition retx_state_subtract :: "rlc_retx_queue_state \<Rightarrow> rlc_tx_amd_retx \<Rightarrow> rlc_retx_queue_state" where
  "retx_state_subtract s elem =
     (let s1 = s\<lparr>retx_bytes := (if retx_bytes s \<ge> retx_length elem then retx_bytes s - retx_length elem else 0)\<rparr>
      in if retx_so elem = 0
         then (if n_retx_so_zero s > 0 then s1\<lparr>n_retx_so_zero := n_retx_so_zero s - 1\<rparr> else s1)
         else (if n_retx_so_nonzero s > 0 then s1\<lparr>n_retx_so_nonzero := n_retx_so_nonzero s - 1\<rparr> else s1))"

record rlc_retx_queue_item =
  item_invalid :: bool
  item_retx :: rlc_tx_amd_retx

record rlc_retx_queue =
  rq_capacity :: nat
  rq_items :: "rlc_retx_queue_item list"
  rq_st :: rlc_retx_queue_state

definition rq_create :: "nat \<Rightarrow> rlc_retx_queue" where
  "rq_create capacity = \<lparr>rq_capacity = capacity, rq_items = [], rq_st = retx_state_init\<rparr>"

definition rq_try_push :: "rlc_retx_queue \<Rightarrow> rlc_tx_amd_retx \<Rightarrow> rlc_retx_queue \<times> bool" where
  "rq_try_push q r =
     (if length (rq_items q) < rq_capacity q
      then (q\<lparr>rq_items := rq_items q @ [\<lparr>item_invalid = False, item_retx = r\<rparr>],
              rq_st := retx_state_add (rq_st q) r\<rparr>, True)
      else (q, False))"

definition clean_invalid_front :: "rlc_retx_queue \<Rightarrow> rlc_retx_queue" where
  "clean_invalid_front q = q\<lparr>rq_items := dropWhile item_invalid (rq_items q)\<rparr>"

definition rq_pop :: "rlc_retx_queue \<Rightarrow> rlc_retx_queue" where
  "rq_pop q = (case rq_items q of [] \<Rightarrow> q
     | it # its \<Rightarrow> clean_invalid_front (q\<lparr>rq_items := its, rq_st := retx_state_subtract (rq_st q) (item_retx it)\<rparr>))"

text \<open>The two assertions of \<open>front\<close> and \<open>replace_front\<close> are \<open>None\<close>.\<close>

definition rq_front :: "rlc_retx_queue \<Rightarrow> rlc_tx_amd_retx option" where
  "rq_front q = (case rq_items q of [] \<Rightarrow> None
     | it # _ \<Rightarrow> if item_invalid it then None else Some (item_retx it))"

definition rq_replace_front :: "rlc_retx_queue \<Rightarrow> rlc_tx_amd_retx \<Rightarrow> rlc_retx_queue option" where
  "rq_replace_front q r = (case rq_items q of [] \<Rightarrow> None
     | it # its \<Rightarrow> if item_invalid it then None
         else Some (q\<lparr>rq_items := \<lparr>item_invalid = False, item_retx = r\<rparr> # its,
                      rq_st := retx_state_add (retx_state_subtract (rq_st q) (item_retx it)) r\<rparr>))"

definition rq_clear :: "rlc_retx_queue \<Rightarrow> rlc_retx_queue" where
  "rq_clear q = q\<lparr>rq_items := [], rq_st := retx_state_init\<rparr>"

definition rq_size :: "rlc_retx_queue \<Rightarrow> nat" where "rq_size q = length (rq_items q)"

definition rq_empty :: "rlc_retx_queue \<Rightarrow> bool" where "rq_empty q \<longleftrightarrow> rq_items q = []"

definition rq_state :: "rlc_retx_queue \<Rightarrow> rlc_retx_queue_state" where "rq_state q = rq_st q"

definition rq_has_sn :: "rlc_retx_queue \<Rightarrow> u32 \<Rightarrow> bool" where
  "rq_has_sn q sn \<longleftrightarrow> list_ex (\<lambda>it. \<not> item_invalid it \<and> retx_sn (item_retx it) = sn) (rq_items q)"

definition rq_has_segment :: "rlc_retx_queue \<Rightarrow> u32 \<Rightarrow> u32 \<Rightarrow> u32 \<Rightarrow> bool" where
  "rq_has_segment q sn so len \<longleftrightarrow>
     list_ex (\<lambda>it. \<not> item_invalid it \<and> retx_sn (item_retx it) = sn \<and> retx_includes (item_retx it) so len) (rq_items q)"

text \<open>The loop of \<open>remove_sn\<close>: new items, new state, and whether an element was removed.\<close>

fun remove_sn_loop :: "u32 \<Rightarrow> rlc_retx_queue_item list \<Rightarrow> rlc_retx_queue_state \<Rightarrow>
    rlc_retx_queue_item list \<times> rlc_retx_queue_state \<times> bool" where
  "remove_sn_loop sn [] s = ([], s, False)"
| "remove_sn_loop sn (it # its) s =
     (if \<not> item_invalid it \<and> retx_sn (item_retx it) = sn
      then (case remove_sn_loop sn its (retx_state_subtract s (item_retx it)) of
              (its', s', _) \<Rightarrow> (it\<lparr>item_invalid := True\<rparr> # its', s', True))
      else (case remove_sn_loop sn its s of (its', s', r) \<Rightarrow> (it # its', s', r)))"

definition rq_remove_sn :: "rlc_retx_queue \<Rightarrow> u32 \<Rightarrow> rlc_retx_queue \<times> bool" where
  "rq_remove_sn q sn =
     (if rq_items q = [] then (q, False)
      else case remove_sn_loop sn (rq_items q) (rq_st q) of
        (its, s, r) \<Rightarrow> (clean_invalid_front (q\<lparr>rq_items := its, rq_st := s\<rparr>), r))"

section \<open>The contract of a retransmission queue\<close>

text \<open>
  A client sees a FIFO of retransmissions \<open>view q\<close>.  The laws: push appends (unless the queue is full), pop
  drops the head, front and replace act on the head, removal filters by SN, and the totals are those of
  the view.
\<close>

definition view_bytes :: "rlc_tx_amd_retx list \<Rightarrow> nat" where
  "view_bytes rs = (\<Sum>r \<leftarrow> rs. unat (retx_length r))"

definition state_of_view :: "rlc_tx_amd_retx list \<Rightarrow> rlc_retx_queue_state" where
  "state_of_view rs = \<lparr>retx_bytes = of_nat (view_bytes rs),
     n_retx_so_zero = of_nat (length (filter (\<lambda>r. retx_so r = 0) rs)),
     n_retx_so_nonzero = of_nat (length (filter (\<lambda>r. retx_so r \<noteq> 0) rs))\<rparr>"

text \<open>Room in the 32-bit totals.\<close>

definition view_small :: "rlc_tx_amd_retx list \<Rightarrow> bool" where
  "view_small rs \<longleftrightarrow> view_bytes rs < 2 ^ 32 \<and> length rs < 2 ^ 32"

locale retx_fifo =
  fixes invar :: "'q \<Rightarrow> bool"
    and view :: "'q \<Rightarrow> rlc_tx_amd_retx list"
    and push :: "'q \<Rightarrow> rlc_tx_amd_retx \<Rightarrow> 'q \<times> bool"
    and pop :: "'q \<Rightarrow> 'q"
    and front :: "'q \<Rightarrow> rlc_tx_amd_retx option"
    and replace :: "'q \<Rightarrow> rlc_tx_amd_retx \<Rightarrow> 'q option"
    and remove :: "'q \<Rightarrow> u32 \<Rightarrow> 'q \<times> bool"
    and state :: "'q \<Rightarrow> rlc_retx_queue_state"
  assumes push: "invar q \<Longrightarrow> view_small (view q @ [r]) \<Longrightarrow> push q r = (q', ok) \<Longrightarrow>
      invar q' \<and> view q' = (if ok then view q @ [r] else view q)"
    and pop: "invar q \<Longrightarrow> view q \<noteq> [] \<Longrightarrow> invar (pop q) \<and> view (pop q) = tl (view q)"
    and front: "invar q \<Longrightarrow> front q = (case view q of [] \<Rightarrow> None | r # _ \<Rightarrow> Some r)"
    and replace: "invar q \<Longrightarrow> view q = r # rs \<Longrightarrow> view_small (r' # rs) \<Longrightarrow>
      \<exists>q'. replace q r' = Some q' \<and> invar q' \<and> view q' = r' # rs"
    and remove: "invar q \<Longrightarrow> remove q sn = (q', found) \<Longrightarrow>
      invar q' \<and> view q' = filter (\<lambda>r. retx_sn r \<noteq> sn) (view q) \<and> (found \<longleftrightarrow> (\<exists>r \<in> set (view q). retx_sn r = sn))"
    and state: "invar q \<Longrightarrow> state q = state_of_view (view q)"
    and small: "invar q \<Longrightarrow> view_small (view q)"
begin

lemma front_none: "invar q \<Longrightarrow> front q = None \<longleftrightarrow> view q = []"
  by (simp add: front split: list.splits)

lemma removed_not_in: "invar q \<Longrightarrow> remove q sn = (q', found) \<Longrightarrow> r \<in> set (view q') \<Longrightarrow> retx_sn r \<noteq> sn"
  using remove by auto

lemma total_bytes: "invar q \<Longrightarrow> unat (retx_bytes (state q)) = view_bytes (view q)"
  using state small by (simp add: state_of_view_def view_small_def unsigned_of_nat take_bit_nat_eq_self)

end

section \<open>The queue meets the contract\<close>

definition valid_items :: "rlc_retx_queue_item list \<Rightarrow> rlc_tx_amd_retx list" where
  "valid_items its = map item_retx (filter (\<lambda>it. \<not> item_invalid it) its)"

definition rq_view :: "rlc_retx_queue \<Rightarrow> rlc_tx_amd_retx list" where
  "rq_view q = valid_items (rq_items q)"

definition rq_invar :: "rlc_retx_queue \<Rightarrow> bool" where
  "rq_invar q \<longleftrightarrow> rq_st q = state_of_view (rq_view q) \<and> view_small (rq_view q) \<and>
     (rq_items q \<noteq> [] \<longrightarrow> \<not> item_invalid (hd (rq_items q)))"

lemma valid_items_simps [simp]:
  "valid_items [] = []"
  "valid_items (it # its) = (if item_invalid it then valid_items its else item_retx it # valid_items its)"
  "valid_items (xs @ ys) = valid_items xs @ valid_items ys"
  by (simp_all add: valid_items_def)

lemma valid_items_clean [simp]: "valid_items (dropWhile item_invalid its) = valid_items its"
  by (induction its) auto

lemma clean_front: "dropWhile item_invalid its \<noteq> [] \<Longrightarrow> \<not> item_invalid (hd (dropWhile item_invalid its))"
  by (rule hd_dropWhile)

lemma state_add_view: "retx_state_add (state_of_view rs) r = state_of_view (rs @ [r])"
  by (simp add: retx_state_add_def state_of_view_def view_bytes_def Let_def)

text \<open>Subtracting an element that is in the view takes it out of the totals.\<close>

lemma state_subtract_view:
  assumes "view_small (xs @ r # ys)"
  shows "retx_state_subtract (state_of_view (xs @ r # ys)) r = state_of_view (xs @ ys)"
proof -
  have le: "view_bytes (xs @ r # ys) < 2 ^ 32" "Suc (length xs + length ys) < 2 ^ 32"
    using assms by (simp_all add: view_small_def)
  have vb: "view_bytes (xs @ r # ys) = view_bytes (xs @ ys) + unat (retx_length r)" by (simp add: view_bytes_def)
  have b: "retx_length r \<le> (of_nat (view_bytes (xs @ r # ys)) :: u32)"
  proof -
    have "unat (of_nat (view_bytes (xs @ r # ys)) :: u32) = view_bytes (xs @ r # ys)"
      using le(1) by (simp add: unsigned_of_nat take_bit_nat_eq_self)
    then show ?thesis unfolding word_le_nat_alt by (simp only: vb)
  qed
  have pos: "(0 :: u32) < of_nat (Suc n)" if "n \<le> length xs + length ys" for n
    using that le(2) by (simp add: word_less_nat_alt unsigned_of_nat take_bit_nat_eq_self del: of_nat_Suc)
  have len: "length (filter P xs) + length (filter P ys) \<le> length xs + length ys" for P
    by (simp add: add_mono)
  have posP: "(0 :: u32) < of_nat (length (filter P xs)) + (1 + of_nat (length (filter P ys)))" for P
    using pos [OF len, of P] by (simp add: ac_simps)
  show ?thesis
    using b posP [of "\<lambda>r. retx_so r = 0"] posP [of "\<lambda>r. retx_so r \<noteq> 0"]
    by (auto simp: retx_state_subtract_def state_of_view_def Let_def vb)
qed

lemma remove_sn_loop_view:
  assumes "remove_sn_loop sn its s = (its', s', found)" "s = state_of_view (xs @ valid_items its)"
    "view_small (xs @ valid_items its)"
  shows "valid_items its' = filter (\<lambda>r. retx_sn r \<noteq> sn) (valid_items its) \<and>
    s' = state_of_view (xs @ valid_items its') \<and> (found \<longleftrightarrow> (\<exists>r \<in> set (valid_items its). retx_sn r = sn))"
  using assms
proof (induction its arbitrary: its' s s' found xs)
  case (Cons it its)
  show ?case
  proof (cases "\<not> item_invalid it \<and> retx_sn (item_retx it) = sn")
    case True
    have s: "retx_state_subtract s (item_retx it) = state_of_view (xs @ valid_items its)"
      using state_subtract_view [of xs "item_retx it" "valid_items its"] Cons.prems True by simp
    have small: "view_small (xs @ valid_items its)" using Cons.prems(3) True by (simp add: view_small_def view_bytes_def)
    obtain i1 s1 r1 where l: "remove_sn_loop sn its (retx_state_subtract s (item_retx it)) = (i1, s1, r1)"
      by (metis prod_cases3)
    show ?thesis using Cons.IH [OF l s small] Cons.prems(1) True l by auto
  next
    case False
    obtain i1 s1 r1 where l: "remove_sn_loop sn its s = (i1, s1, r1)" by (metis prod_cases3)
    let ?xs = "if item_invalid it then xs else xs @ [item_retx it]"
    have "s = state_of_view (?xs @ valid_items its)" "view_small (?xs @ valid_items its)"
      using Cons.prems by (auto split: if_splits)
    from Cons.IH [OF l this] show ?thesis using Cons.prems(1) False l by (auto split: if_splits)
  qed
qed simp

lemma view_small_tl: "view_small (r # rs) \<Longrightarrow> view_small rs"
  by (simp add: view_small_def view_bytes_def)

interpretation retxq: retx_fifo rq_invar rq_view rq_try_push rq_pop rq_front rq_replace_front rq_remove_sn rq_state
proof (unfold_locales, goal_cases)
  case (1 q r q' ok)
  then show ?case
    by (auto simp: rq_try_push_def rq_invar_def rq_view_def state_add_view hd_append split: if_splits)
next
  case (2 q)
  then obtain it its where q: "rq_items q = it # its" "\<not> item_invalid it"
    by (cases "rq_items q") (auto simp: rq_invar_def rq_view_def)
  have "retx_state_subtract (rq_st q) (item_retx it) = state_of_view (valid_items its)"
    using 2 q state_subtract_view [of "[]" "item_retx it" "valid_items its"] by (simp add: rq_invar_def rq_view_def)
  then show ?case using 2 q clean_front [of its] view_small_tl
    by (auto simp: rq_pop_def clean_invalid_front_def rq_invar_def rq_view_def)
next
  case (3 q)
  then show ?case by (cases "rq_items q") (auto simp: rq_invar_def rq_view_def rq_front_def)
next
  case (4 q r rs r')
  then obtain it its where q: "rq_items q = it # its" "\<not> item_invalid it" "item_retx it = r" "valid_items its = rs"
    by (cases "rq_items q") (auto simp: rq_invar_def rq_view_def)
  have "retx_state_subtract (rq_st q) (item_retx it) = state_of_view rs"
    using 4 q state_subtract_view [of "[]" r rs] by (simp add: rq_invar_def rq_view_def)
  moreover have "state_of_view (rs @ [r']) = state_of_view (r' # rs)"
    by (simp add: state_of_view_def view_bytes_def)
  ultimately show ?case using 4 q by (simp add: rq_replace_front_def rq_invar_def rq_view_def state_add_view)
next
  case (5 q sn q' found)
  show ?case
  proof (cases "rq_items q = []")
    case True
    then show ?thesis using 5 by (auto simp: rq_remove_sn_def rq_view_def)
  next
    case False
    obtain i1 s1 r1 where l: "remove_sn_loop sn (rq_items q) (rq_st q) = (i1, s1, r1)" by (metis prod_cases3)
    have v: "valid_items i1 = filter (\<lambda>r. retx_sn r \<noteq> sn) (valid_items (rq_items q))" "s1 = state_of_view (valid_items i1)"
      "r1 \<longleftrightarrow> (\<exists>r \<in> set (valid_items (rq_items q)). retx_sn r = sn)"
      using remove_sn_loop_view [OF l, of "[]"] 5 by (auto simp: rq_invar_def rq_view_def)
    have "view_small (filter P rs)" if "view_small rs" for P rs
      using that sum_list_filter_le_nat [of "\<lambda>r. unat (retx_length r)" P rs] length_filter_le [of P rs]
      unfolding view_small_def view_bytes_def by linarith
    then show ?thesis using 5 False l v clean_front [of i1]
      by (auto simp: rq_remove_sn_def rq_invar_def rq_view_def clean_invalid_front_def)
  qed
next
  case (6 q) then show ?case by (simp add: rq_state_def rq_invar_def)
next
  case (7 q) then show ?case by (simp add: rq_invar_def)
qed

lemma rq_has_sn_view: "rq_has_sn q sn \<longleftrightarrow> (\<exists>r \<in> set (rq_view q). retx_sn r = sn)"
  by (auto simp: rq_has_sn_def rq_view_def valid_items_def list_ex_iff)

lemma rq_has_segment_view:
  "rq_has_segment q sn so len \<longleftrightarrow> (\<exists>r \<in> set (rq_view q). retx_sn r = sn \<and> retx_includes r so len)"
  by (auto simp: rq_has_segment_def rq_view_def valid_items_def list_ex_iff)

lemma rq_create_invar: "rq_invar (rq_create n) \<and> rq_view (rq_create n) = []"
  by (simp add: rq_invar_def rq_view_def rq_create_def retx_state_init_def state_of_view_def view_small_def view_bytes_def)

text \<open>
  Refinement of the retransmission queue.  Removing an SN by invalidating its elements in place
  is filtering the FIFO of valid retransmissions, reports whether the SN was queued, and keeps the totals
  equal to the bytes and numbers of the remaining elements; the front is a valid element afterwards.
\<close>

lemma retx_queue_remove_refines:
  assumes "rq_invar q" and "rq_remove_sn q sn = (q', found)"
  shows "rq_view q' = filter (\<lambda>r. retx_sn r \<noteq> sn) (rq_view q) \<and> (found \<longleftrightarrow> rq_has_sn q sn) \<and>
    rq_state q' = state_of_view (rq_view q') \<and> rq_front q' = (case rq_view q' of [] \<Rightarrow> None | r # _ \<Rightarrow> Some r)"
  using retxq.remove [OF assms] retxq.state [of q'] retxq.front [of q'] by (simp add: rq_has_sn_view)

definition retx_queue_example :: rlc_retx_queue where
  "retx_queue_example = fst (rq_try_push (fst (rq_try_push (rq_create 4)
     \<lparr>retx_sn = 3, retx_so = 0, retx_length = 10\<rparr>)) \<lparr>retx_sn = 5, retx_so = 2, retx_length = 7\<rparr>)"

lemma retx_queue_remove_refines_witness:
  "rq_view (fst (rq_remove_sn retx_queue_example 3)) = [\<lparr>retx_sn = 5, retx_so = 2, retx_length = 7\<rparr>] \<and>
   snd (rq_remove_sn retx_queue_example 3)"
proof -
  have e: "rq_invar retx_queue_example" "rq_view retx_queue_example =
      [\<lparr>retx_sn = 3, retx_so = 0, retx_length = 10\<rparr>, \<lparr>retx_sn = 5, retx_so = 2, retx_length = 7\<rparr>]"
    by (simp_all add: retx_queue_example_def rq_try_push_def rq_create_def rq_invar_def rq_view_def retx_state_init_def
      retx_state_add_def state_of_view_def view_small_def view_bytes_def Let_def)
  show ?thesis using retx_queue_remove_refines [OF e(1), of 3] e(2)
    by (cases "rq_remove_sn retx_queue_example 3") (simp add: rq_has_sn_view)
qed

end
