(* ===== verification/Pdcp_Sn_Util.thy ===== *)
theory Pdcp_Sn_Util
  imports Rlc_Config
begin

text \<open>
  Extraction of the PDCP sequence number from a PDCP PDU (\<open>include/srsran/pdcp/pdcp_sn_util.h\<close>), which RLC
  uses to identify its SDUs, with the bit reader it is written with (\<open>bit_decoder\<close> of
  \<open>lib/support/bit_encoding.cpp\<close>).  A decoder is the list of the bytes not yet fully read and the bit offset
  inside the first of them.
\<close>

section \<open>bit_decoder\<close>

record bit_decoder =
  bd_rest :: bytes
  bd_offset :: nat

definition bd_create :: "bytes \<Rightarrow> bit_decoder" where
  "bd_create buffer = \<lparr>bd_rest = buffer, bd_offset = 0\<rparr>"

text \<open>The loop of \<open>unpack\<close>, for an unsigned target type; \<open>None\<close> is the result \<open>false\<close>.\<close>

function bd_unpack_loop :: "bytes \<Rightarrow> nat \<Rightarrow> nat \<Rightarrow> 'a::len word \<Rightarrow> ('a word \<times> bit_decoder) option" where
  "bd_unpack_loop rest off n_bits val =
     (if n_bits = 0 then Some (val, \<lparr>bd_rest = rest, bd_offset = off\<rparr>)
      else case rest of
        [] \<Rightarrow> None
      | b # bs \<Rightarrow>
          if 8 - off > n_bits
          then let mask = (push_bit (8 - off) 1 - push_bit (8 - off - n_bits) 1 :: u8)
               in bd_unpack_loop rest (off + n_bits) 0 (val + ucast (drop_bit (8 - off - n_bits) (b AND mask)))
          else let mask = (push_bit (8 - off) 1 - 1 :: u8)
               in bd_unpack_loop bs 0 (n_bits - (8 - off)) (val + push_bit (n_bits + off - 8) (ucast (b AND mask))))"
  by pat_completeness auto
termination by (relation "measure (\<lambda>(rest, off, n, val). length rest + n)") auto

declare bd_unpack_loop.simps [simp del]

definition bd_unpack :: "bit_decoder \<Rightarrow> nat \<Rightarrow> ('a::len word \<times> bit_decoder) option" where
  "bd_unpack d n_bits = bd_unpack_loop (bd_rest d) (bd_offset d) n_bits 0"

section \<open>get_pdcp_sn\<close>

datatype pdcp_sn_size = pdcp_size12bits | pdcp_size18bits | pdcp_size_invalid

definition get_pdcp_sn :: "bytes \<Rightarrow> pdcp_sn_size \<Rightarrow> bool \<Rightarrow> u32 option" where
  "get_pdcp_sn pdcp_pdu pdcp_sn_len is_srb =
     (if pdcp_pdu = [] then None
      else if is_srb \<and> pdcp_sn_len \<noteq> pdcp_size12bits then None
      else case bd_unpack (bd_create pdcp_pdu) 1 of
        None \<Rightarrow> None
      | Some (dc_field :: u8, d1) \<Rightarrow>
          if \<not> is_srb \<and> dc_field = 0 then None
          else if is_srb \<and> dc_field = 1 then None
          else case (case pdcp_sn_len of pdcp_size12bits \<Rightarrow> Some (3, 12) | pdcp_size18bits \<Rightarrow> Some (5, 18)
                     | pdcp_size_invalid \<Rightarrow> None) of
            None \<Rightarrow> None
          | Some (n_reserved, n_sn) \<Rightarrow>
              (case bd_unpack d1 n_reserved of
                 None \<Rightarrow> None
               | Some (reserved :: u8, d2) \<Rightarrow>
                   (case bd_unpack d2 n_sn of
                      None \<Rightarrow> None
                    | Some (pdcp_sn, d3) \<Rightarrow> if reserved \<noteq> 0 then None else Some pdcp_sn)))"

section \<open>What the reader reads\<close>

text \<open>Reference: the bits of a byte sequence, most significant first, and the number a bit list stands for.\<close>

definition byte_bits :: "u8 \<Rightarrow> bool list" where
  "byte_bits b = map (\<lambda>i. bit b (7 - i)) [0..<8]"

definition bd_bits :: "bit_decoder \<Rightarrow> bool list" where
  "bd_bits d = drop (bd_offset d) (concat (map byte_bits (bd_rest d)))"

fun bits_value :: "bool list \<Rightarrow> nat" where
  "bits_value [] = 0"
| "bits_value (x # xs) = of_bool x * 2 ^ length xs + bits_value xs"

lemma bits_value_append: "bits_value (xs @ ys) = bits_value xs * 2 ^ length ys + bits_value ys"
  by (induction xs) (simp_all add: algebra_simps power_add)

lemma bits_value_less: "bits_value xs < 2 ^ length xs"
  by (induction xs) auto

lemma length_byte_bits [simp]: "length (byte_bits b) = 8"
  by (simp add: byte_bits_def)

lemma length_concat_byte_bits [simp]: "length (concat (map byte_bits bs)) = 8 * length bs"
  by (induction bs) auto

lemma drop_take_byte_bits:
  "off + n \<le> 8 \<Longrightarrow> take n (drop off (byte_bits b)) = map (\<lambda>i. bit b (7 - i)) [off..<off + n]"
  by (simp add: byte_bits_def drop_map take_map)

lemma bits_value_byte:
  "off + n \<le> 8 \<Longrightarrow> bits_value (map (\<lambda>i. bit b (7 - i)) [off..<off + n]) = unat (take_bit n (drop_bit (8 - off - n) (b :: u8)))"
proof (induction n)
  case (Suc n)
  let ?k = "8 - off - Suc n"
  have k: "8 - off - n = Suc ?k" "7 - (off + n) = ?k" using Suc.prems by simp_all
  have half: "drop_bit ?k (unat b) div 2 = drop_bit (Suc ?k) (unat b)" by (simp add: drop_bit_Suc drop_bit_half)
  have u: "unat (take_bit m (drop_bit j b)) = take_bit m (drop_bit j (unat b))" for m j
  proof -
    have "take_bit 8 (unat b) = unat b" using unsigned_less [of b, where ?'a = nat] by (simp add: take_bit_nat_eq_self)
    then show ?thesis by (simp add: unsigned_take_bit_eq unsigned_drop_bit_eq)
  qed
  have "unat (take_bit (Suc n) (drop_bit ?k b)) = take_bit (Suc n) (drop_bit ?k (unat b))" by (rule u)
  also have "\<dots> = 2 * take_bit n (drop_bit (Suc ?k) (unat b)) + drop_bit ?k (unat b) mod 2"
    by (simp only: take_bit_Suc half mult.commute)
  also have "drop_bit ?k (unat b) mod 2 = of_bool (bit b ?k)"
    by (simp add: bit_unsigned_iff mod_2_eq_odd flip: bit_iff_odd_drop_bit)
  also have "take_bit n (drop_bit (Suc ?k) (unat b)) = unat (take_bit n (drop_bit (Suc ?k) b))" by (rule u [symmetric])
  finally have t: "unat (take_bit (Suc n) (drop_bit ?k b)) = bits_value (map (\<lambda>i. bit b (7 - i)) [off..<off + n]) * 2 + of_bool (bit b ?k)"
    using Suc.IH Suc.prems by (simp only: k(1) mult.commute)
  have e: "[off..<off + Suc n] = [off..<off + n] @ [off + n]" by simp
  show ?case unfolding t e map_append bits_value_append
    by (simp only: list.map bits_value.simps k(2) list.size power_0 power_one_right power_Suc mult_1_right add_0_right add_0 One_nat_def [symmetric])
qed simp

lemma mask_middle:
  assumes "k + n \<le> 8"
  shows "drop_bit k (b AND (push_bit (k + n) 1 - push_bit k 1)) = take_bit n (drop_bit k (b :: u8))"
proof -
  have "push_bit (k + n) 1 - push_bit k 1 = push_bit k (mask n :: u8)"
    by (simp add: push_bit_eq_mult mask_eq_exp_minus_1 power_add algebra_simps)
  then show ?thesis using assms
    by (intro bit_word_eqI) (auto simp: bit_simps)
qed

lemma mask_low: "(b :: u8) AND (push_bit k 1 - 1) = take_bit k b"
  by (simp add: take_bit_eq_mask mask_eq_exp_minus_1)

text \<open>The reader returns the next bits as a number, and fails exactly when there are too few of them.\<close>

lemma bd_unpack_loop_bits:
  assumes "off < 8"
  shows "bd_unpack_loop rest off n val =
    (let bits = drop off (concat (map byte_bits rest)) in
     if n \<le> length bits
     then Some (val + of_nat (bits_value (take n bits)),
       \<lparr>bd_rest = drop ((off + n) div 8) rest, bd_offset = (off + n) mod 8\<rparr>)
     else None)"
  using assms
proof (induction rest off n val rule: bd_unpack_loop.induct)
  case (1 rest off n val)
  note unfold = bd_unpack_loop.simps [of rest off n val]
  show ?case
  proof (cases "n = 0")
    case True
    then show ?thesis using 1(3) by (simp add: bd_unpack_loop.simps [of rest off 0 val])
  next
    case False
    show ?thesis
    proof (cases rest)
      case Nil
      then show ?thesis using False by (simp add: bd_unpack_loop.simps [of "[]" off n val])
    next
      case (Cons b bs)
      show ?thesis
      proof (cases "8 - off > n")
        case True
        have k: "8 - off - n + n = 8 - off" "off + n \<le> 8" "off \<le> 8" using True by simp_all
        have v: "ucast (drop_bit (8 - off - n) (b AND (push_bit (8 - off) 1 - push_bit (8 - off - n) 1))) =
            (of_nat (bits_value (take n (drop off (byte_bits b)))) :: 'a word)"
          using mask_middle [of "8 - off - n" n b] k bits_value_byte [of off n b]
          by (simp add: drop_take_byte_bits)
        have "bd_unpack_loop rest off n val = Some (val + ucast (drop_bit (8 - off - n)
            (b AND (push_bit (8 - off) 1 - push_bit (8 - off - n) 1))), \<lparr>bd_rest = rest, bd_offset = off + n\<rparr>)"
          using True False Cons
          by (simp add: bd_unpack_loop.simps [of "b # bs" off n val] bd_unpack_loop.simps [of _ _ 0] Let_def)
        from this [unfolded v] show ?thesis using True Cons by (simp; linarith)
      next
        case less: False
        let ?m = "8 - off"
        let ?bits = "drop off (byte_bits b)"
        have l: "length ?bits = ?m" "?m \<le> n" "off \<le> 8" using less 1(3) by simp_all
        have v: "push_bit (n + off - 8) (ucast (b AND (push_bit ?m 1 - 1))) =
            (of_nat (bits_value ?bits * 2 ^ (n - ?m)) :: 'a word)"
          using bits_value_byte [of off ?m b] drop_take_byte_bits [of off ?m b] l
          unfolding mask_low by (simp add: push_bit_eq_mult)
        have ih: "bd_unpack_loop bs 0 (n - ?m) (val + push_bit (n + off - 8) (ucast (b AND (push_bit ?m 1 - 1)))) =
          (if n - ?m \<le> 8 * length bs
           then Some (val + of_nat (bits_value ?bits * 2 ^ (n - ?m)) +
              of_nat (bits_value (take (n - ?m) (concat (map byte_bits bs)))),
              \<lparr>bd_rest = drop ((n - ?m) div 8) bs, bd_offset = (n - ?m) mod 8\<rparr>) else None)"
          using 1(2) [OF False Cons less refl] v by (simp add: Let_def)
        have a: "(off + n) div 8 = Suc ((n - ?m) div 8)" "(off + n) mod 8 = (n - ?m) mod 8"
        proof -
          have e: "off + n = 8 + (n - ?m)" using l by simp
          show "(off + n) div 8 = Suc ((n - ?m) div 8)" "(off + n) mod 8 = (n - ?m) mod 8"
            unfolding e by simp_all
        qed
        have t: "take n (drop off (concat (map byte_bits rest))) = ?bits @ take (n - ?m) (concat (map byte_bits bs))"
          using l by (simp add: Cons)
        have b: "bits_value (take n (drop off (concat (map byte_bits rest)))) =
            bits_value ?bits * 2 ^ (n - ?m) + bits_value (take (n - ?m) (concat (map byte_bits bs)))"
          if "n - ?m \<le> 8 * length bs" using that unfolding t by (simp add: bits_value_append)
        have eq: "bd_unpack_loop rest off n val =
            bd_unpack_loop bs 0 (n - ?m) (val + push_bit (n + off - 8) (ucast (b AND (push_bit ?m 1 - 1))))"
          using False Cons less by (simp add: bd_unpack_loop.simps [of "b # bs" off n val] Let_def)
        have c: "n \<le> length (drop off (concat (map byte_bits rest))) \<longleftrightarrow> n - ?m \<le> 8 * length bs"
          using l by (simp add: Cons; linarith)
        show ?thesis
        proof (cases "n - ?m \<le> 8 * length bs")
          case True
          show ?thesis unfolding eq ih Let_def c if_P [OF True] a b [OF True]
            by (simp only: Cons drop_Suc_Cons of_nat_add add.assoc)
        next
          case False
          show ?thesis unfolding eq ih Let_def c if_not_P [OF False] ..
        qed
      qed
    qed
  qed
qed

definition bd_advance :: "bit_decoder \<Rightarrow> nat \<Rightarrow> bit_decoder" where
  "bd_advance d n = \<lparr>bd_rest = drop ((bd_offset d + n) div 8) (bd_rest d), bd_offset = (bd_offset d + n) mod 8\<rparr>"

lemma bd_bits_advance [simp]: "bd_bits (bd_advance d n) = drop n (bd_bits d)" "bd_offset (bd_advance d n) < 8"
proof -
  have d: "drop (8 * k) (concat (map byte_bits bs)) = concat (map byte_bits (drop k bs))" for k bs
  proof (induction k arbitrary: bs)
    case (Suc k) then show ?case by (cases bs) simp_all
  qed simp
  let ?t = "bd_offset d + n"
  have "drop ?t (concat (map byte_bits (bd_rest d))) =
      drop (?t mod 8) (concat (map byte_bits (drop (?t div 8) (bd_rest d))))"
    unfolding d [symmetric] drop_drop by simp
  then show "bd_bits (bd_advance d n) = drop n (bd_bits d)"
    by (simp add: bd_bits_def bd_advance_def add.commute)
qed (simp add: bd_advance_def)

lemma bd_unpack_bits:
  assumes "bd_offset d < 8"
  shows "bd_unpack d n = (if n \<le> length (bd_bits d)
    then Some (of_nat (bits_value (take n (bd_bits d))), bd_advance d n) else None)"
  using assms by (simp add: bd_unpack_def bd_unpack_loop_bits bd_bits_def bd_advance_def Let_def)

lemma bits_value_zero: "bits_value xs = 0 \<longleftrightarrow> True \<notin> set xs"
  by (induction xs) auto

lemma bits_value_of_nat_zero:
  "length xs \<le> 8 \<Longrightarrow> (of_nat (bits_value xs) :: u8) = 0 \<longleftrightarrow> True \<notin> set xs"
proof -
  assume "length xs \<le> 8"
  then have "(2 :: nat) ^ length xs \<le> 2 ^ 8" by (rule power_increasing) simp
  then have "bits_value xs < 256" using bits_value_less [of xs] by simp
  then show ?thesis by (auto simp: bits_value_zero [symmetric] word_of_nat_eq_0_iff dest: nat_dvd_not_less)
qed

text \<open>The layout of TS 38.323: a D/C (or reserved) bit, reserved bits, the SN.\<close>

fun pdcp_hdr_layout :: "pdcp_sn_size \<Rightarrow> (nat \<times> nat) option" where
  "pdcp_hdr_layout pdcp_size12bits = Some (3, 12)"
| "pdcp_hdr_layout pdcp_size18bits = Some (5, 18)"
| "pdcp_hdr_layout pdcp_size_invalid = None"

definition pdcp_sn_field :: "bytes \<Rightarrow> pdcp_sn_size \<Rightarrow> bool \<Rightarrow> u32 option" where
  "pdcp_sn_field pdu sz srb = (case pdcp_hdr_layout sz of None \<Rightarrow> None
     | Some (r, n) \<Rightarrow>
         (let bits = concat (map byte_bits pdu) in
          if (srb \<longrightarrow> sz = pdcp_size12bits) \<and> 1 + r + n \<le> length bits \<and> hd bits = (\<not> srb) \<and>
             True \<notin> set (take r (tl bits))
          then Some (of_nat (bits_value (take n (drop (1 + r) bits)))) else None))"

lemma get_pdcp_sn_eq: "get_pdcp_sn pdu sz srb = pdcp_sn_field pdu sz srb"
proof (cases pdu)
  case Nil
  then show ?thesis by (cases "pdcp_hdr_layout sz") (auto simp: get_pdcp_sn_def pdcp_sn_field_def)
next
  case (Cons b bs)
  let ?bits = "concat (map byte_bits pdu)"
  have ne: "?bits \<noteq> []" "1 \<le> length ?bits" by (simp_all add: Cons byte_bits_def)
  have hd: "(of_nat (bits_value (take 1 ?bits)) :: u8) = of_bool (hd ?bits)"
    using ne by (cases ?bits) auto
  have c: "bd_offset (bd_create pdu) < 8" "bd_bits (bd_create pdu) = ?bits"
    by (simp_all add: bd_create_def bd_bits_def)
  let ?d1 = "bd_advance (bd_create pdu) 1"
  have u1: "bd_unpack (bd_create pdu) 1 = Some (of_bool (hd ?bits) :: u8, ?d1)"
    unfolding bd_unpack_bits [OF c(1)] c(2) if_P [OF ne(2)] hd ..
  have b1: "bd_bits ?d1 = tl ?bits" unfolding bd_bits_advance c(2) by (simp add: drop_Suc)
  have u2: "bd_unpack ?d1 r = (if r \<le> length (tl ?bits)
      then Some (of_nat (bits_value (take r (tl ?bits))) :: u8, bd_advance ?d1 r) else None)" for r
    unfolding bd_unpack_bits [OF bd_bits_advance(2)] b1 ..
  have u3: "bd_unpack (bd_advance ?d1 r) n = (if n \<le> length (drop r (tl ?bits))
      then Some (of_nat (bits_value (take n (drop r (tl ?bits)))) :: u32, bd_advance (bd_advance ?d1 r) n) else None)" for r n
    unfolding bd_unpack_bits [OF bd_bits_advance(2)] bd_bits_advance(1) [of ?d1] b1 ..
  have z: "(of_nat (bits_value (take r (tl ?bits))) :: u8) = 0 \<longleftrightarrow> True \<notin> set (take r (tl ?bits))" if "r \<le> 5" for r
    by (rule bits_value_of_nat_zero) (use that in simp)
  have d: "drop (1 + r) ?bits = drop r (tl ?bits)" for r by (simp add: drop_Suc)
  have len: "length ?bits = Suc (length (tl ?bits))" using ne(1) by (simp only: length_tl) (use ne(2) in linarith)
  have ps: "pdu \<noteq> []" by (simp add: Cons)
  have gen: "(case bd_unpack ?d1 r of None \<Rightarrow> None
      | Some (reserved :: u8, d2) \<Rightarrow> (case bd_unpack d2 n of None \<Rightarrow> None
        | Some (pdcp_sn :: u32, d3) \<Rightarrow> if reserved \<noteq> 0 then None else Some pdcp_sn)) =
     (if 1 + r + n \<le> length ?bits \<and> True \<notin> set (take r (tl ?bits))
      then Some (of_nat (bits_value (take n (drop (1 + r) ?bits)))) else None)" if "r \<le> 5" for r n
    unfolding u2 d len using u3 [of r n] z [OF that] by (auto simp del: length_tl)
  show ?thesis
    by (cases sz; cases srb; cases "hd ?bits")
      (simp_all add: get_pdcp_sn_def pdcp_sn_field_def u1 [unfolded One_nat_def] u1 ps gen [unfolded One_nat_def] gen Let_def del: length_tl)
qed

text \<open>
  The PDCP SN that RLC extracts from an SDU is the SN field of a PDCP data PDU header: the D/C bit is
  set (clear for an SRB), the reserved bits are clear, and the value is the next 12 or 18 bits, most significant
  first; anything else, including a PDU too short for its header, gives no SN.
\<close>

lemma get_pdcp_sn_field: "get_pdcp_sn pdu sz srb = pdcp_sn_field pdu sz srb"
  by (rule get_pdcp_sn_eq)

lemma get_pdcp_sn_less:
  assumes "get_pdcp_sn pdu sz srb = Some sn"
  shows "unat sn < 2 ^ 18"
proof -
  obtain r n where l: "pdcp_hdr_layout sz = Some (r, n)"
    and sn: "sn = of_nat (bits_value (take n (drop (1 + r) (concat (map byte_bits pdu)))))"
    using assms by (auto simp: get_pdcp_sn_eq pdcp_sn_field_def Let_def split: option.splits if_splits)
  have "n \<le> 18" using l by (cases sz) auto
  then have "(2 :: nat) ^ n \<le> 2 ^ 18" by (rule power_increasing) simp
  moreover have "(2 :: nat) ^ length (take n xs) \<le> 2 ^ n" for xs :: "bool list" by (rule power_increasing) simp_all
  ultimately have "bits_value (take n (drop (1 + r) (concat (map byte_bits pdu)))) < 2 ^ 18"
    using bits_value_less order_less_le_trans order_trans by blast
  then show ?thesis by (simp add: sn unsigned_of_nat take_bit_nat_eq_self)
qed

end
