(* ===== verification/Rlc_Sdu_Queue.thy ===== *)
theory Rlc_Sdu_Queue
  imports Pdcp_Sn_Util
begin

text \<open>
  The SDU queue of the RLC transmitters (\<open>lib/rlc/rlc_sdu_queue_lockfree.h\<close>): a bounded FIFO whose elements can
  be discarded by their PDCP SN while they are queued.  A discard only marks the slot of the SN; the element stays
  in the inner queue until it reaches the front.  The inner single-producer single-consumer queue is a list with
  the capacity; the slot arrays are functions of the slot number; the packed atomic counter is a 64-bit word.  Each
  operation is modelled as one step, that is, without interleaving the two threads inside an operation.
\<close>

section \<open>Definitions\<close>

record rlc_sdu =
  sdu_buf :: bytes
  sdu_is_retx :: bool
  sdu_pdcp_sn :: "u32 option"
  sdu_time_of_arrival :: int

definition STATE_FREE :: u32 where "STATE_FREE = 0xffffffff"
definition STATE_DISCARDED :: u32 where "STATE_DISCARDED = 0xfffffffe"

record rlc_sdu_queue =
  sq_capacity :: u32
  sq_byte_limit :: u32
  sq_state :: u64
  sq_queue :: "rlc_sdu list"
  sq_sdu_states :: "u32 \<Rightarrow> u32"
  sq_sdu_sizes :: "u32 \<Rightarrow> u64"

record sq_state_t =
  n_sdus :: u32
  n_bytes :: u32

definition sq_create :: "u32 \<Rightarrow> u32 \<Rightarrow> rlc_sdu_queue" where
  "sq_create capacity byte_limit = \<lparr>sq_capacity = capacity, sq_byte_limit = byte_limit, sq_state = 0,
     sq_queue = [], sq_sdu_states = (\<lambda>_. STATE_FREE), sq_sdu_sizes = (\<lambda>_. 0)\<rparr>"

definition sq_get_state :: "rlc_sdu_queue \<Rightarrow> sq_state_t" where
  "sq_get_state q = \<lparr>n_sdus = ucast (drop_bit 32 (sq_state q)), n_bytes = ucast (sq_state q AND 0xffffffff)\<rparr>"

definition state_change :: "u32 \<Rightarrow> u64" where
  "state_change sdu_size = push_bit 32 1 OR ucast sdu_size"

definition sq_state_add :: "u32 \<Rightarrow> rlc_sdu_queue \<Rightarrow> rlc_sdu_queue" where
  "sq_state_add sdu_size q = q\<lparr>sq_state := sq_state q + state_change sdu_size\<rparr>"

definition sq_state_sub :: "u32 \<Rightarrow> rlc_sdu_queue \<Rightarrow> rlc_sdu_queue" where
  "sq_state_sub sdu_size q = q\<lparr>sq_state := sq_state q - state_change sdu_size\<rparr>"

definition slot :: "rlc_sdu_queue \<Rightarrow> u32 \<Rightarrow> u32" where
  "slot q sn = sn mod sq_capacity q"

definition sq_write :: "rlc_sdu_queue \<Rightarrow> rlc_sdu \<Rightarrow> rlc_sdu_queue \<times> bool" where
  "sq_write q sdu =
     (if length (sdu_buf sdu) + unat (n_bytes (sq_get_state q)) \<ge> unat (sq_byte_limit q) then (q, False)
      else let sdu_size = length (sdu_buf sdu) in
        case (case sdu_pdcp_sn sdu of
                None \<Rightarrow> Some q
              | Some sn \<Rightarrow>
                  if sq_sdu_states q (slot q sn) \<noteq> STATE_FREE then None
                  else Some (q\<lparr>sq_sdu_sizes := (sq_sdu_sizes q)(slot q sn := of_nat sdu_size),
                               sq_sdu_states := (sq_sdu_states q)(slot q sn := sn)\<rparr>)) of
          None \<Rightarrow> (q, False)
        | Some q1 \<Rightarrow>
            if length (sq_queue q1) < unat (sq_capacity q1)
            then (sq_state_add (of_nat sdu_size) (q1\<lparr>sq_queue := sq_queue q1 @ [sdu]\<rparr>), True)
            else ((case sdu_pdcp_sn sdu of
                     None \<Rightarrow> q1
                   | Some sn \<Rightarrow> q1\<lparr>sq_sdu_states := (sq_sdu_states q1)(slot q1 sn := STATE_FREE)\<rparr>), False))"

definition sq_try_discard :: "rlc_sdu_queue \<Rightarrow> u32 \<Rightarrow> rlc_sdu_queue \<times> bool" where
  "sq_try_discard q sn =
     (if sq_sdu_states q (slot q sn) = sn
      then (sq_state_sub (ucast (sq_sdu_sizes q (slot q sn)))
              (q\<lparr>sq_sdu_states := (sq_sdu_states q)(slot q sn := STATE_DISCARDED)\<rparr>), True)
      else (q, False))"

definition check_and_release :: "rlc_sdu_queue \<Rightarrow> u32 \<Rightarrow> rlc_sdu_queue \<times> bool" where
  "check_and_release q sn =
     (let sdu_size = ucast (sq_sdu_sizes q (slot q sn)) :: u32;
          old_state = sq_sdu_states q (slot q sn);
          q1 = q\<lparr>sq_sdu_states := (sq_sdu_states q)(slot q sn := STATE_FREE)\<rparr>
      in if old_state = sn then (sq_state_sub sdu_size q1, True)
         else if old_state = STATE_DISCARDED then (q1, False)
         else (sq_state_sub sdu_size q1, False))"

definition sq_check :: "rlc_sdu_queue \<Rightarrow> u32 \<Rightarrow> bool" where
  "sq_check q sn \<longleftrightarrow> sq_sdu_states q (slot q sn) = sn"

text \<open>Popping the front of the inner queue and releasing its slot; with the validity of the popped SDU.\<close>

definition sq_pop_release :: "rlc_sdu_queue \<Rightarrow> rlc_sdu \<Rightarrow> rlc_sdu list \<Rightarrow> rlc_sdu_queue \<times> bool" where
  "sq_pop_release q sdu rest =
     (let q1 = q\<lparr>sq_queue := rest\<rparr> in
      case sdu_pdcp_sn sdu of
        Some sn \<Rightarrow> check_and_release q1 sn
      | None \<Rightarrow> (sq_state_sub (of_nat (length (sdu_buf sdu))) q1, True))"

lemma sq_queue_simps [simp]:
  "sq_queue (sq_state_add n q) = sq_queue q" "sq_queue (sq_state_sub n q) = sq_queue q"
  "sq_queue (fst (check_and_release q sn)) = sq_queue q"
  "sq_queue (fst (sq_pop_release q sdu rest)) = rest"
  by (auto simp: sq_state_add_def sq_state_sub_def check_and_release_def sq_pop_release_def Let_def split: option.splits)

function sq_read :: "rlc_sdu_queue \<Rightarrow> rlc_sdu_queue \<times> rlc_sdu option" where
  "sq_read q = (case sq_queue q of
      [] \<Rightarrow> (q, None)
    | sdu # rest \<Rightarrow>
        (case sq_pop_release q sdu rest of
           (q1, sdu_is_valid) \<Rightarrow> if sdu_is_valid then (q1, Some sdu) else sq_read q1))"
  by pat_completeness auto
termination
  by (relation "measure (length \<circ> sq_queue)") (simp, metis comp_apply fst_conv in_measure length_Cons lessI sq_queue_simps(4))

declare sq_read.simps [simp del]

text \<open>\<open>front\<close>; the last component is the SDU behind the returned pointer.\<close>

function sq_front :: "rlc_sdu_queue \<Rightarrow> rlc_sdu_queue \<times> rlc_sdu option" where
  "sq_front q = (case sq_queue q of
      [] \<Rightarrow> (q, None)
    | front_sdu # rest \<Rightarrow>
        (case sdu_pdcp_sn front_sdu of
           None \<Rightarrow> (q, Some front_sdu)
         | Some sn \<Rightarrow>
             if sq_check q sn then (q, Some front_sdu)
             else (case check_and_release (q\<lparr>sq_queue := rest\<rparr>) sn of
                (q1, sdu_is_valid) \<Rightarrow> if sdu_is_valid then (q1, None) else sq_front q1)))"
  by pat_completeness auto
termination
  by (relation "measure (length \<circ> sq_queue)")
    (simp, metis (no_types, lifting) comp_apply fst_conv in_measure length_Cons lessI rlc_sdu_queue.select_convs(4)
      rlc_sdu_queue.surjective rlc_sdu_queue.update_convs(4) sq_queue_simps(3))

declare sq_front.simps [simp del]

definition sq_is_empty :: "rlc_sdu_queue \<Rightarrow> bool" where "sq_is_empty q \<longleftrightarrow> sq_queue q = []"

definition sq_is_full :: "rlc_sdu_queue \<Rightarrow> bool" where
  "sq_is_full q \<longleftrightarrow> length (sq_queue q) \<ge> unat (sq_capacity q)"

section \<open>The contract of an SDU queue\<close>

text \<open>
  The transmitters see the list of the SDUs that are queued and not discarded.  PDCP SNs have at most 18 bits,
  so they never collide with the two sentinels.
\<close>

definition sdus_bytes :: "rlc_sdu list \<Rightarrow> nat" where
  "sdus_bytes xs = (\<Sum>s \<leftarrow> xs. length (sdu_buf s))"

definition sn_ok :: "u32 \<Rightarrow> bool" where "sn_ok sn \<longleftrightarrow> unat sn < 2 ^ 18"

definition sdu_sn_ok :: "rlc_sdu \<Rightarrow> bool" where
  "sdu_sn_ok s \<longleftrightarrow> (\<forall>sn. sdu_pdcp_sn s = Some sn \<longrightarrow> sn_ok sn)"

definition state_of_sdus :: "rlc_sdu list \<Rightarrow> sq_state_t" where
  "state_of_sdus xs = \<lparr>n_sdus = of_nat (length xs), n_bytes = of_nat (sdus_bytes xs)\<rparr>"

locale sdu_fifo =
  fixes invar :: "'q \<Rightarrow> bool"
    and view :: "'q \<Rightarrow> rlc_sdu list"
    and enqueue :: "'q \<Rightarrow> rlc_sdu \<Rightarrow> 'q \<times> bool"
    and discard :: "'q \<Rightarrow> u32 \<Rightarrow> 'q \<times> bool"
    and dequeue :: "'q \<Rightarrow> 'q \<times> rlc_sdu option"
    and front :: "'q \<Rightarrow> 'q \<times> rlc_sdu option"
    and get_state :: "'q \<Rightarrow> sq_state_t"
    and is_empty :: "'q \<Rightarrow> bool"
  assumes enqueue: "invar q \<Longrightarrow> sdu_sn_ok s \<Longrightarrow> enqueue q s = (q', ok) \<Longrightarrow>
      invar q' \<and> view q' = (if ok then view q @ [s] else view q)"
    and discard: "invar q \<Longrightarrow> sn_ok sn \<Longrightarrow> discard q sn = (q', ok) \<Longrightarrow>
      invar q' \<and> view q' = filter (\<lambda>s. sdu_pdcp_sn s \<noteq> Some sn) (view q) \<and>
      (ok \<longleftrightarrow> (\<exists>s \<in> set (view q). sdu_pdcp_sn s = Some sn))"
    and dequeue: "invar q \<Longrightarrow> dequeue q = (q', r) \<Longrightarrow>
      invar q' \<and> view q = (case r of None \<Rightarrow> [] | Some s \<Rightarrow> [s]) @ view q' \<and> (r = None \<longrightarrow> view q' = [])"
    and front: "invar q \<Longrightarrow> front q = (q', r) \<Longrightarrow>
      invar q' \<and> view q' = view q \<and> r = (case view q of [] \<Rightarrow> None | s # _ \<Rightarrow> Some s)"
    and get_state: "invar q \<Longrightarrow> get_state q = state_of_sdus (view q)"
    and is_empty: "invar q \<Longrightarrow> is_empty q \<Longrightarrow> view q = []"
    and bytes_small: "invar q \<Longrightarrow> sdus_bytes (view q) < 2 ^ 32 \<and> length (view q) < 2 ^ 32"
begin

lemma dequeue_some: "invar q \<Longrightarrow> dequeue q = (q', Some s) \<Longrightarrow> view q = s # view q' \<and> invar q'"
  using dequeue by fastforce

lemma dequeue_keeps: "invar q \<Longrightarrow> dequeue q = (q', r) \<Longrightarrow> invar q' \<and> set (view q') \<subseteq> set (view q)"
  using dequeue by fastforce

lemma dequeue_none: "invar q \<Longrightarrow> dequeue q = (q', None) \<Longrightarrow> view q = []"
  using dequeue by fastforce

lemma pending_bytes: "invar q \<Longrightarrow> unat (n_bytes (get_state q)) = sdus_bytes (view q)"
  using get_state bytes_small by (simp add: state_of_sdus_def unsigned_of_nat take_bit_nat_eq_self)

end

section \<open>The packed counter\<close>

definition packed :: "nat \<Rightarrow> nat \<Rightarrow> u64" where
  "packed n b = of_nat (n * 2 ^ 32 + b)"

lemma state_change_eq: "state_change x = 2 ^ 32 + ucast x"
proof -
  have "bit (ucast x :: u64) i \<Longrightarrow> i < 32" for i by (auto simp: bit_ucast_iff dest: bit_imp_le_length)
  then have "push_bit 32 1 + (ucast x :: u64) = push_bit 32 1 OR ucast x"
    by (intro disjunctive_add) (force simp only: bit_push_bit_iff)
  then show ?thesis by (simp add: state_change_def push_bit_eq_mult)
qed

lemma state_change_packed: "b < 2 ^ 32 \<Longrightarrow> state_change (of_nat b) = packed 1 b"
proof -
  assume b: "b < 2 ^ 32"
  have "ucast (of_nat b :: u32) = (of_nat b :: u64)"
    using b by (simp add: word_eq_iff_unsigned unsigned_ucast_eq unsigned_of_nat take_bit_nat_eq_self)
  then show ?thesis by (simp add: state_change_eq packed_def)
qed

lemma packed_add: "packed n b + packed m c = packed (n + m) (b + c)"
  by (simp add: packed_def algebra_simps)

lemma packed_diff: "m \<le> n \<Longrightarrow> c \<le> b \<Longrightarrow> packed n b - packed m c = packed (n - m) (b - c)"
  using packed_add [of "n - m" "b - c" m c] by (simp add: algebra_simps)

lemma get_state_packed:
  assumes "sq_state q = packed n b" "n < 2 ^ 32" "b < 2 ^ 32"
  shows "sq_get_state q = \<lparr>n_sdus = of_nat n, n_bytes = of_nat b\<rparr>"
proof -
  have small: "n * 2 ^ 32 + b < 2 ^ 64" using assms(2,3) by simp
  then have u: "unat (sq_state q) = n * 2 ^ 32 + b"
    unfolding assms(1) packed_def unsigned_of_nat
    using take_bit_nat_eq_self [of "n * 2 ^ 32 + b" 64] small by simp
  have hi: "unat (drop_bit 32 (sq_state q)) = n"
    unfolding unat_drop_bit_eq u using assms(3) by (simp add: drop_bit_eq_div)
  have m: "sq_state q AND 0xffffffff = take_bit 32 (sq_state q)"
    by (simp add: take_bit_eq_mask mask_eq_exp_minus_1)
  have lo: "unat (sq_state q AND 0xffffffff) = b"
    unfolding m unsigned_take_bit_eq u using assms(3) by (simp add: take_bit_eq_mod)
  have "ucast x = (of_nat (unat x) :: u32)" for x :: u64 by simp
  then show ?thesis unfolding sq_get_state_def by (simp only: hi lo)
qed

section \<open>The queue meets the contract\<close>

definition sdu_live :: "rlc_sdu_queue \<Rightarrow> rlc_sdu \<Rightarrow> bool" where
  "sdu_live q s = (case sdu_pdcp_sn s of None \<Rightarrow> True | Some sn \<Rightarrow> sq_sdu_states q (slot q sn) = sn)"

definition sq_view :: "rlc_sdu_queue \<Rightarrow> rlc_sdu list" where
  "sq_view q = filter (sdu_live q) (sq_queue q)"

fun sns :: "rlc_sdu list \<Rightarrow> u32 list" where
  "sns [] = []"
| "sns (s # xs) = (case sdu_pdcp_sn s of None \<Rightarrow> sns xs | Some sn \<Rightarrow> sn # sns xs)"

definition slot_ok :: "rlc_sdu_queue \<Rightarrow> rlc_sdu \<Rightarrow> bool" where
  "slot_ok q s \<longleftrightarrow> (\<forall>sn. sdu_pdcp_sn s = Some sn \<longrightarrow> sn_ok sn \<and>
     sq_sdu_states q (slot q sn) \<in> {sn, STATE_DISCARDED} \<and>
     sq_sdu_sizes q (slot q sn) = of_nat (length (sdu_buf s)))"

definition sq_invar :: "rlc_sdu_queue \<Rightarrow> bool" where
  "sq_invar q \<longleftrightarrow>
     length (sq_queue q) \<le> unat (sq_capacity q) \<and>
     distinct (map (slot q) (sns (sq_queue q))) \<and>
     (\<forall>s \<in> set (sq_queue q). slot_ok q s) \<and>
     (\<forall>i. i \<notin> slot q ` set (sns (sq_queue q)) \<longrightarrow> sq_sdu_states q i = STATE_FREE) \<and>
     sq_state q = packed (length (sq_view q)) (sdus_bytes (sq_view q)) \<and>
     sdus_bytes (sq_view q) < 2 ^ 32"

lemma set_sns: "set (sns xs) = {sn. \<exists>s \<in> set xs. sdu_pdcp_sn s = Some sn}"
  by (induction xs) (auto split: option.splits)

lemma sns_append [simp]: "sns (xs @ ys) = sns xs @ sns ys"
  by (induction xs) (auto split: option.splits)

lemma sdus_bytes_simps [simp]:
  "sdus_bytes [] = 0" "sdus_bytes (s # xs) = length (sdu_buf s) + sdus_bytes xs"
  "sdus_bytes (xs @ ys) = sdus_bytes xs + sdus_bytes ys"
  by (simp_all add: sdus_bytes_def)

lemma sn_ok_sentinels: "sn_ok sn \<Longrightarrow> sn \<noteq> STATE_FREE \<and> sn \<noteq> STATE_DISCARDED"
  by (auto simp: sn_ok_def STATE_FREE_def STATE_DISCARDED_def)

lemma sentinels_differ [simp]: "STATE_FREE \<noteq> STATE_DISCARDED" "STATE_DISCARDED \<noteq> STATE_FREE"
  by (simp_all add: STATE_FREE_def STATE_DISCARDED_def)

lemma slot_cong: "sq_capacity q' = sq_capacity q \<Longrightarrow> slot q' = slot q"
  by (rule ext) (simp add: slot_def)

lemma sq_state_ops [simp]:
  "sq_capacity (sq_state_add n q) = sq_capacity q" "sq_capacity (sq_state_sub n q) = sq_capacity q"
  "sq_sdu_states (sq_state_add n q) = sq_sdu_states q" "sq_sdu_states (sq_state_sub n q) = sq_sdu_states q"
  "sq_sdu_sizes (sq_state_add n q) = sq_sdu_sizes q" "sq_sdu_sizes (sq_state_sub n q) = sq_sdu_sizes q"
  "sq_state (sq_state_add n q) = sq_state q + state_change n"
  "sq_state (sq_state_sub n q) = sq_state q - state_change n"
  by (simp_all add: sq_state_add_def sq_state_sub_def)

lemma sdu_live_cong:
  "sq_capacity q' = sq_capacity q \<Longrightarrow> (\<And>sn. sdu_pdcp_sn s = Some sn \<Longrightarrow>
    sq_sdu_states q' (slot q sn) = sq_sdu_states q (slot q sn)) \<Longrightarrow> sdu_live q' s = sdu_live q s"
  by (auto simp: sdu_live_def slot_def split: option.splits)

lemma sq_invar_capacity: "sq_invar q \<Longrightarrow> length (sq_view q) < 2 ^ 32"
proof -
  assume "sq_invar q"
  then have "length (sq_queue q) \<le> unat (sq_capacity q)" by (simp add: sq_invar_def)
  moreover have "length (sq_view q) \<le> length (sq_queue q)" by (simp add: sq_view_def)
  moreover have "unat (sq_capacity q) < 2 ^ 32" using unsigned_less [of "sq_capacity q", where ?'a = nat] by simp
  ultimately show ?thesis by linarith
qed

lemma sq_get_state_view: "sq_invar q \<Longrightarrow> sq_get_state q = state_of_sdus (sq_view q)"
  using get_state_packed [of q "length (sq_view q)" "sdus_bytes (sq_view q)"] sq_invar_capacity [of q]
  by (simp add: sq_invar_def state_of_sdus_def)

lemma size_cast: "n < 2 ^ 32 \<Longrightarrow> ucast (of_nat n :: u64) = (of_nat n :: u32)"
  by (simp add: word_eq_iff_unsigned unsigned_ucast_eq unsigned_of_nat take_bit_nat_eq_self)

text \<open>Popping the front releases exactly its slot.\<close>

lemma pop_release_invar:
  assumes inv: "sq_invar q" and q: "sq_queue q = s # rest" and p: "sq_pop_release q s rest = (q1, v)"
  shows "sq_invar q1 \<and> v = sdu_live q s \<and> sq_view q1 = filter (sdu_live q) rest \<and> sq_queue q1 = rest"
proof (cases "sdu_pdcp_sn s")
  case None
  have q1: "q1 = sq_state_sub (of_nat (length (sdu_buf s))) (q\<lparr>sq_queue := rest\<rparr>)" "v"
    using p by (auto simp: sq_pop_release_def None)
  have live: "sdu_live q s" by (simp add: sdu_live_def None)
  have lc: "sdu_live q1 = sdu_live q" by (rule ext, rule sdu_live_cong) (simp_all add: q1)
  have sl: "slot q1 = slot q" by (rule slot_cong) (simp add: q1)
  have view: "sq_view q = s # filter (sdu_live q) rest" by (simp add: sq_view_def q live)
  have b: "length (sdu_buf s) < 2 ^ 32" using inv view by (simp add: sq_invar_def)
  have st: "sq_state q1 = packed (length (filter (sdu_live q) rest)) (sdus_bytes (filter (sdu_live q) rest))"
    using inv view b by (simp add: sq_invar_def q1 state_change_packed packed_diff)
  have f: "sq_queue q1 = rest" "sq_capacity q1 = sq_capacity q" "sq_sdu_states q1 = sq_sdu_states q"
    "sq_sdu_sizes q1 = sq_sdu_sizes q" by (simp_all add: q1)
  have so: "slot_ok q1 = slot_ok q" by (rule ext) (simp add: slot_ok_def sl f)
  have "sq_invar q1"
    using inv view st unfolding sq_invar_def sq_view_def lc sl so f by (simp add: q None)
  then show ?thesis using q1(2) live f(1) by (simp add: sq_view_def lc)
next
  case (Some sn)
  let ?i = "slot q sn"
  have ok: "slot_ok q s" "\<forall>t \<in> set rest. slot_ok q t" using inv q by (auto simp: sq_invar_def)
  have sn: "sn \<noteq> STATE_DISCARDED" "sn \<noteq> STATE_FREE" using ok Some sn_ok_sentinels by (auto simp: slot_ok_def)
  have apart: "slot q x \<noteq> ?i" if "t \<in> set rest" "sdu_pdcp_sn t = Some x" for t x
    using inv that by (auto simp: sq_invar_def q Some set_sns image_iff)
  let ?r = "q\<lparr>sq_queue := rest, sq_sdu_states := (sq_sdu_states q)(?i := STATE_FREE)\<rparr>"
  have q1: "q1 = (if sdu_live q s then sq_state_sub (of_nat (length (sdu_buf s))) ?r else ?r)" "v = sdu_live q s"
  proof -
    have "sdu_live q s \<Longrightarrow> length (sdu_buf s) < 2 ^ 32" using inv by (simp add: sq_invar_def sq_view_def q)
    then show "q1 = (if sdu_live q s then sq_state_sub (of_nat (length (sdu_buf s))) ?r else ?r)" "v = sdu_live q s"
      using p ok(1) sn by (auto simp: sq_pop_release_def Some check_and_release_def slot_ok_def sdu_live_def slot_def Let_def size_cast
        split: if_splits)
  qed
  have cap: "sq_capacity q1 = sq_capacity q" and states: "sq_sdu_states q1 = (sq_sdu_states q)(?i := STATE_FREE)"
    and sizes: "sq_sdu_sizes q1 = sq_sdu_sizes q" and rest: "sq_queue q1 = rest"
    by (simp_all add: q1)
  have sl: "slot q1 = slot q" by (rule slot_cong) (rule cap)
  have lc: "sdu_live q1 t = sdu_live q t" if "t \<in> set rest" for t
    by (rule sdu_live_cong) (use apart that in \<open>auto simp: cap states\<close>)
  have view: "sq_view q1 = filter (sdu_live q) rest" unfolding sq_view_def rest by (rule filter_cong) (simp_all add: lc)
  have b: "sdu_live q s \<Longrightarrow> length (sdu_buf s) < 2 ^ 32" using inv by (simp add: sq_invar_def sq_view_def q)
  have st: "sq_state q1 = packed (length (sq_view q1)) (sdus_bytes (sq_view q1))" and small: "sdus_bytes (sq_view q1) < 2 ^ 32"
    using inv b unfolding view
    by (cases "sdu_live q s"; simp add: sq_invar_def sq_view_def q q1 state_change_packed packed_diff)+
  have "slot_ok q1 t" if "t \<in> set rest" for t
    using ok(2) that apart [OF that] by (auto simp: slot_ok_def sl states sizes)
  moreover have "length (sq_queue q1) \<le> unat (sq_capacity q1)" "distinct (map (slot q1) (sns (sq_queue q1)))"
    using inv by (auto simp: sq_invar_def q Some rest cap sl)
  moreover have "sq_sdu_states q1 i = STATE_FREE" if "i \<notin> slot q1 ` set (sns (sq_queue q1))" for i
    using inv that by (auto simp: sq_invar_def q Some rest sl states)
  ultimately show ?thesis using st small view rest q1(2) by (auto simp: sq_invar_def rest)
qed

lemma sq_read_view:
  "sq_invar q \<Longrightarrow> sq_read q = (q', r) \<Longrightarrow>
    sq_invar q' \<and> sq_view q = (case r of None \<Rightarrow> [] | Some s \<Rightarrow> [s]) @ sq_view q' \<and> (r = None \<longrightarrow> sq_view q' = [])"
proof (induction q rule: sq_read.induct)
  case (1 q)
  show ?case
  proof (cases "sq_queue q")
    case Nil
    then show ?thesis using 1 by (auto simp: sq_read.simps [of q] sq_view_def)
  next
    case (Cons s rest)
    obtain q1 v where p: "sq_pop_release q s rest = (q1, v)" by (rule prod.exhaust)
    note P = pop_release_invar [OF 1(2) Cons p]
    show ?thesis
    proof (cases v)
      case True
      then show ?thesis using P 1(3) Cons p by (auto simp: sq_read.simps [of q] sq_view_def)
    next
      case False
      then show ?thesis using P 1(1) [OF Cons p [symmetric] False] 1(3) Cons p
        by (auto simp: sq_read.simps [of q] sq_view_def)
    qed
  qed
qed

lemma sq_front_view:
  "sq_invar q \<Longrightarrow> sq_front q = (q', r) \<Longrightarrow>
    sq_invar q' \<and> sq_view q' = sq_view q \<and> r = (case sq_view q of [] \<Rightarrow> None | s # _ \<Rightarrow> Some s)"
proof (induction q rule: sq_front.induct)
  case (1 q)
  show ?case
  proof (cases "sq_queue q")
    case Nil
    then show ?thesis using 1 by (auto simp: sq_front.simps [of q] sq_view_def)
  next
    case (Cons s rest)
    show ?thesis
    proof (cases "sdu_pdcp_sn s")
      case None
      then show ?thesis using 1 Cons by (auto simp: sq_front.simps [of q] sq_view_def sdu_live_def)
    next
      case (Some sn)
      show ?thesis
      proof (cases "sq_check q sn")
        case True
        then show ?thesis using 1 Cons Some by (auto simp: sq_front.simps [of q] sq_view_def sdu_live_def sq_check_def)
      next
        case False
        obtain q1 v where p: "check_and_release (q\<lparr>sq_queue := rest\<rparr>) sn = (q1, v)" by (rule prod.exhaust)
        have pr: "sq_pop_release q s rest = (q1, v)" by (simp add: sq_pop_release_def Some p)
        note P = pop_release_invar [OF 1(2) Cons pr]
        have dead: "\<not> sdu_live q s" using False by (simp add: sdu_live_def Some sq_check_def)
        then have v: "\<not> v" using P by simp
        show ?thesis using P 1(1) [OF Cons Some False p [symmetric] v] 1(3) Cons Some p False v dead
          by (auto simp: sq_front.simps [of q] sq_view_def)
      qed
    qed
  qed
qed

lemma sq_write_view:
  assumes inv: "sq_invar q" and ok: "sdu_sn_ok s" and w: "sq_write q s = (q', pushed)"
  shows "sq_invar q' \<and> sq_view q' = (if pushed then sq_view q @ [s] else sq_view q)"
proof (cases "length (sdu_buf s) + unat (n_bytes (sq_get_state q)) \<ge> unat (sq_byte_limit q)")
  case True
  then show ?thesis using inv w by (simp add: sq_write_def)
next
  case False
  have lim: "length (sdu_buf s) + sdus_bytes (sq_view q) < 2 ^ 32"
  proof -
    have "unat (n_bytes (sq_get_state q)) = sdus_bytes (sq_view q)"
      using inv by (simp add: sq_get_state_view state_of_sdus_def unsigned_of_nat take_bit_nat_eq_self sq_invar_def)
    then show ?thesis using False unsigned_less [of "sq_byte_limit q", where ?'a = nat] by simp
  qed
  have st: "state_change (of_nat (length (sdu_buf s))) = packed 1 (length (sdu_buf s))"
    by (rule state_change_packed) (use lim in simp)
  show ?thesis
  proof (cases "sdu_pdcp_sn s")
    case None
    then have w': "q' = (if pushed then sq_state_add (of_nat (length (sdu_buf s))) (q\<lparr>sq_queue := sq_queue q @ [s]\<rparr>) else q)"
      and l: "pushed \<longleftrightarrow> length (sq_queue q) < unat (sq_capacity q)"
      using w False by (auto simp: sq_write_def Let_def split: if_splits)
    show ?thesis
    proof (cases pushed)
      case True
      note f = w' [unfolded if_P [OF True]]
      have lc: "sdu_live q' = sdu_live q" by (rule ext, rule sdu_live_cong) (simp_all add: f)
      have sl: "slot q' = slot q" by (rule slot_cong) (simp add: f)
      have g: "sq_queue q' = sq_queue q @ [s]" "sq_capacity q' = sq_capacity q" "sq_sdu_states q' = sq_sdu_states q"
        "sq_sdu_sizes q' = sq_sdu_sizes q" by (simp_all add: f)
      have so: "slot_ok q' = slot_ok q" by (rule ext) (simp add: slot_ok_def sl g)
      have view: "sq_view q' = sq_view q @ [s]" by (simp add: sq_view_def lc g sdu_live_def None)
      have "sq_state q' = packed (length (sq_view q')) (sdus_bytes (sq_view q'))"
      proof -
        have "sq_state q' = sq_state q + packed 1 (length (sdu_buf s))" by (simp add: f st)
        then show ?thesis using inv by (simp add: view packed_add sq_invar_def add.commute)
      qed
      moreover have "sdus_bytes (sq_view q') < 2 ^ 32" using lim by (simp add: view add.commute)
      ultimately have "sq_invar q'"
        using inv l True None unfolding sq_invar_def so sl g by (simp add: slot_ok_def)
      then show ?thesis using view True by simp
    qed (use inv w' in simp)
  next
    case (Some sn)
    let ?i = "slot q sn"
    have sn: "sn_ok sn" "sn \<noteq> STATE_FREE" using ok Some sn_ok_sentinels by (auto simp: sdu_sn_ok_def)
    show ?thesis
    proof (cases "sq_sdu_states q ?i = STATE_FREE")
      case False
      then show ?thesis using w inv Some \<open>\<not> unat (sq_byte_limit q) \<le> _\<close> by (simp add: sq_write_def Let_def)
    next
      case free: True
      have apart: "slot q x \<noteq> ?i" if "t \<in> set (sq_queue q)" "sdu_pdcp_sn t = Some x" for t x
        using inv that free sn_ok_sentinels [of x] by (auto simp: sq_invar_def slot_ok_def)
      let ?r = "q\<lparr>sq_sdu_sizes := (sq_sdu_sizes q)(?i := of_nat (length (sdu_buf s))),
        sq_sdu_states := (sq_sdu_states q)(?i := sn)\<rparr>"
      have l: "pushed \<longleftrightarrow> length (sq_queue q) < unat (sq_capacity q)"
        and w': "q' = (if pushed then sq_state_add (of_nat (length (sdu_buf s))) (?r\<lparr>sq_queue := sq_queue q @ [s]\<rparr>)
          else ?r\<lparr>sq_sdu_states := (sq_sdu_states q)(?i := STATE_FREE)\<rparr>)"
        using w False free Some by (auto simp: sq_write_def Let_def slot_def split: if_splits)
      have cap: "sq_capacity q' = sq_capacity q" and sizes: "sq_sdu_sizes q' = (sq_sdu_sizes q)(?i := of_nat (length (sdu_buf s)))"
        and states: "sq_sdu_states q' = (sq_sdu_states q)(?i := if pushed then sn else STATE_FREE)"
        and queue: "sq_queue q' = (if pushed then sq_queue q @ [s] else sq_queue q)"
        by (simp_all add: w')
      have sl: "slot q' = slot q" by (rule slot_cong) (rule cap)
      have lc: "sdu_live q' t = sdu_live q t" if "t \<in> set (sq_queue q)" for t
        by (rule sdu_live_cong) (use apart [OF that] in \<open>auto simp: cap states\<close>)
      have lf: "filter (sdu_live q') (sq_queue q) = sq_view q"
        unfolding sq_view_def by (rule filter_cong) (simp_all add: lc)
      have live: "pushed \<Longrightarrow> sdu_live q' s" by (simp add: sdu_live_def Some sl states)
      have view: "sq_view q' = (if pushed then sq_view q @ [s] else sq_view q)"
        using lf live by (simp add: sq_view_def [of q'] queue)
      have so: "slot_ok q' t" if "t \<in> set (sq_queue q)" for t
        using inv that apart [OF that] by (auto simp: sq_invar_def slot_ok_def sl states sizes)
      have so': "pushed \<Longrightarrow> slot_ok q' s" using sn by (simp add: slot_ok_def Some sl states sizes)
      have "?i \<notin> slot q ` set (sns (sq_queue q))" 
      proof
        assume "?i \<in> slot q ` set (sns (sq_queue q))"
        then obtain t x where "t \<in> set (sq_queue q)" "sdu_pdcp_sn t = Some x" "?i = slot q x" by (auto simp: set_sns)
        then show False using apart [of t x] by simp
      qed
      then have d: "distinct (map (slot q') (sns (sq_queue q')))"
        using inv by (simp add: sq_invar_def sl queue Some)
      have fr: "sq_sdu_states q' i = STATE_FREE" if "i \<notin> slot q' ` set (sns (sq_queue q'))" for i
      proof -
        have "i \<notin> slot q ` set (sns (sq_queue q))" using that by (auto simp: sl queue split: if_splits)
        then have "sq_sdu_states q i = STATE_FREE" using inv by (simp add: sq_invar_def)
        moreover have "pushed \<Longrightarrow> i \<noteq> ?i" using that by (auto simp: sl queue Some)
        ultimately show ?thesis by (simp add: states)
      qed
      have st': "sq_state q' = sq_state q + (if pushed then packed 1 (length (sdu_buf s)) else 0)"
        by (simp add: w' st)
      have stt: "sq_state q' = packed (length (sq_view q')) (sdus_bytes (sq_view q'))" "sdus_bytes (sq_view q') < 2 ^ 32"
        using inv lim by (cases pushed; simp add: view st' packed_add sq_invar_def add.commute)+
      have "length (sq_queue q') \<le> unat (sq_capacity q')" using inv l by (simp add: queue cap sq_invar_def)
      then have "sq_invar q'" using so so' d fr stt by (auto simp: sq_invar_def queue split: if_splits)
      then show ?thesis using view by simp
    qed
  qed
qed

lemma sq_discard_view:
  assumes inv: "sq_invar q" and sn: "sn_ok sn" and d: "sq_try_discard q sn = (q', ok)"
  shows "sq_invar q' \<and> sq_view q' = filter (\<lambda>s. sdu_pdcp_sn s \<noteq> Some sn) (sq_view q) \<and>
    (ok \<longleftrightarrow> (\<exists>s \<in> set (sq_view q). sdu_pdcp_sn s = Some sn))"
proof (cases "sq_sdu_states q (slot q sn) = sn")
  case False
  then have none: "sdu_pdcp_sn s \<noteq> Some sn" if "s \<in> set (sq_view q)" for s
    using that by (auto simp: sq_view_def sdu_live_def)
  moreover have "q' = q" "\<not> ok" using d False by (auto simp: sq_try_discard_def)
  moreover have "filter (\<lambda>s. sdu_pdcp_sn s \<noteq> Some sn) (sq_view q) = sq_view q"
    by (rule filter_True) (use none in blast)
  ultimately show ?thesis using inv by auto
next
  case True
  let ?i = "slot q sn"
  have snt: "sn \<noteq> STATE_FREE" "sn \<noteq> STATE_DISCARDED" using sn sn_ok_sentinels by auto
  have "?i \<in> slot q ` set (sns (sq_queue q))" using inv True snt by (auto simp: sq_invar_def)
  then obtain t x where t: "t \<in> set (sq_queue q)" "sdu_pdcp_sn t = Some x" "slot q x = ?i" by (auto simp: set_sns)
  then have x: "x = sn" using inv True snt by (auto simp: sq_invar_def slot_ok_def)
  obtain us vs where q: "sq_queue q = us @ t # vs" using t(1) by (meson split_list)
  have apart: "slot q y \<noteq> ?i" if "s \<in> set us \<union> set vs" "sdu_pdcp_sn s = Some y" for s y
    using inv that t(2) by (auto simp: sq_invar_def q set_sns image_iff x)
  have live: "sdu_live q t" using True by (simp add: sdu_live_def t(2) x)
  have view: "sq_view q = filter (sdu_live q) us @ t # filter (sdu_live q) vs" by (simp add: sq_view_def q live)
  let ?us = "filter (sdu_live q) us" and ?vs = "filter (sdu_live q) vs"
  have small: "length (sdu_buf t) < 2 ^ 32" using inv view by (simp add: sq_invar_def)
  have size: "ucast (sq_sdu_sizes q ?i) = (of_nat (length (sdu_buf t)) :: u32)"
    using inv t x size_cast [OF small] by (auto simp: sq_invar_def slot_ok_def)
  have q': "q' = sq_state_sub (of_nat (length (sdu_buf t))) (q\<lparr>sq_sdu_states := (sq_sdu_states q)(?i := STATE_DISCARDED)\<rparr>)" "ok"
    using d True by (auto simp: sq_try_discard_def size)
  have cap: "sq_capacity q' = sq_capacity q" and states: "sq_sdu_states q' = (sq_sdu_states q)(?i := STATE_DISCARDED)"
    and sizes: "sq_sdu_sizes q' = sq_sdu_sizes q" and queue: "sq_queue q' = sq_queue q"
    and st: "sq_state q' = sq_state q - packed 1 (length (sdu_buf t))"
    using small by (simp_all add: q' state_change_packed)
  have sl: "slot q' = slot q" by (rule slot_cong) (rule cap)
  have lc: "sdu_live q' s = sdu_live q s" if "s \<in> set us \<union> set vs" for s
    by (rule sdu_live_cong) (use apart [OF that] in \<open>auto simp: cap states\<close>)
  have dead: "\<not> sdu_live q' t" using snt by (simp add: sdu_live_def t(2) x sl states)
  have view': "sq_view q' = ?us @ ?vs"
    using lc dead by (auto simp: sq_view_def queue q cong: filter_cong)
  have "filter (\<lambda>s. sdu_pdcp_sn s \<noteq> Some sn) (?us @ t # ?vs) = ?us @ ?vs"
  proof -
    have "sdu_pdcp_sn s \<noteq> Some sn" if "s \<in> set us \<union> set vs" for s using apart [OF that] by blast
    then have "filter (\<lambda>s. sdu_pdcp_sn s \<noteq> Some sn) ?us = ?us" "filter (\<lambda>s. sdu_pdcp_sn s \<noteq> Some sn) ?vs = ?vs"
      unfolding filter_filter by (auto intro!: filter_cong)
    then show ?thesis using t(2) x by simp
  qed
  moreover have "slot_ok q' s" if "s \<in> set (sq_queue q)" for s
    using inv that t x apart by (auto simp: sq_invar_def slot_ok_def sl states sizes q)
  moreover have "sq_state q' = packed (length (sq_view q')) (sdus_bytes (sq_view q'))" "sdus_bytes (sq_view q') < 2 ^ 32"
    using inv by (simp_all add: view view' st packed_diff sq_invar_def)
  moreover have "sq_sdu_states q' i = STATE_FREE" if "i \<notin> slot q' ` set (sns (sq_queue q'))" for i
    using inv that t x by (auto simp: sq_invar_def sl queue states set_sns)
  ultimately show ?thesis using inv q'(2) view view' t(2) x
    by (auto simp: sq_invar_def queue cap sl)
qed

interpretation sduq: sdu_fifo sq_invar sq_view sq_write sq_try_discard sq_read sq_front sq_get_state sq_is_empty
proof (unfold_locales, goal_cases)
  case (1 q s q' ok) then show ?case by (rule sq_write_view)
next
  case (2 q sn q' ok) then show ?case by (rule sq_discard_view)
next
  case (3 q q' r) then show ?case by (rule sq_read_view)
next
  case (4 q q' r) then show ?case by (rule sq_front_view)
next
  case (5 q) then show ?case by (rule sq_get_state_view)
next
  case (6 q) then show ?case by (simp add: sq_is_empty_def sq_view_def)
next
  case (7 q) then show ?case using sq_invar_capacity [of q] by (simp add: sq_invar_def)
qed

lemma sq_create_invar: "sq_invar (sq_create cap lim) \<and> sq_view (sq_create cap lim) = []"
  by (simp add: sq_invar_def sq_view_def sq_create_def packed_def)

datatype sq_op = Sq_write rlc_sdu | Sq_discard u32 | Sq_read | Sq_front

fun sq_step :: "sq_op \<Rightarrow> rlc_sdu_queue \<Rightarrow> rlc_sdu_queue" where
  "sq_step (Sq_write s) q = fst (sq_write q s)"
| "sq_step (Sq_discard sn) q = fst (sq_try_discard q sn)"
| "sq_step Sq_read q = fst (sq_read q)"
| "sq_step Sq_front q = fst (sq_front q)"

fun sq_op_ok :: "sq_op \<Rightarrow> bool" where
  "sq_op_ok (Sq_write s) = sdu_sn_ok s"
| "sq_op_ok (Sq_discard sn) = sn_ok sn"
| "sq_op_ok _ = True"

lemma sq_step_invar: "sq_invar q \<Longrightarrow> sq_op_ok op \<Longrightarrow> sq_invar (sq_step op q)"
proof (cases op)
  case (Sq_write s)
  then show "sq_invar q \<Longrightarrow> sq_op_ok op \<Longrightarrow> ?thesis" using sduq.enqueue by (cases "sq_write q s") auto
next
  case (Sq_discard sn)
  then show "sq_invar q \<Longrightarrow> sq_op_ok op \<Longrightarrow> ?thesis" using sduq.discard by (cases "sq_try_discard q sn") auto
next
  case Sq_read
  then show "sq_invar q \<Longrightarrow> sq_op_ok op \<Longrightarrow> ?thesis" using sduq.dequeue by (cases "sq_read q") auto
next
  case Sq_front
  then show "sq_invar q \<Longrightarrow> sq_op_ok op \<Longrightarrow> ?thesis" using sduq.front by (cases "sq_front q") auto
qed

definition sq_run :: "u32 \<Rightarrow> u32 \<Rightarrow> sq_op list \<Rightarrow> rlc_sdu_queue" where
  "sq_run capacity byte_limit ops = fold sq_step ops (sq_create capacity byte_limit)"

lemma sq_run_invar: "list_all sq_op_ok ops \<Longrightarrow> sq_invar (sq_run cap lim ops)"
proof -
  have "sq_invar q \<Longrightarrow> list_all sq_op_ok ops \<Longrightarrow> sq_invar (fold sq_step ops q)" for q
    by (induction ops arbitrary: q) (simp_all add: sq_step_invar)
  then show "list_all sq_op_ok ops \<Longrightarrow> ?thesis" by (simp add: sq_run_def sq_create_invar)
qed

text \<open>A slot is free exactly when no queued SDU, discarded or not, uses it.\<close>

definition slot_taken :: "rlc_sdu_queue \<Rightarrow> rlc_sdu \<Rightarrow> bool" where
  "slot_taken q s \<longleftrightarrow> (\<exists>t \<in> set (sq_queue q). \<exists>x y. sdu_pdcp_sn t = Some x \<and> sdu_pdcp_sn s = Some y \<and> slot q x = slot q y)"

lemma slot_free_iff:
  assumes "sq_invar q" "sdu_pdcp_sn s = Some sn"
  shows "sq_sdu_states q (slot q sn) = STATE_FREE \<longleftrightarrow> \<not> slot_taken q s"
proof
  assume free: "sq_sdu_states q (slot q sn) = STATE_FREE"
  show "\<not> slot_taken q s"
  proof
    assume "slot_taken q s"
    then obtain t x where t: "t \<in> set (sq_queue q)" "sdu_pdcp_sn t = Some x" "slot q x = slot q sn"
      using assms(2) by (auto simp: slot_taken_def)
    then have "sn_ok x" "sq_sdu_states q (slot q x) \<in> {x, STATE_DISCARDED}" using assms(1) by (auto simp: sq_invar_def slot_ok_def)
    then show False using free t(3) sn_ok_sentinels [of x] by auto
  qed
next
  assume "\<not> slot_taken q s"
  then have "slot q sn \<notin> slot q ` set (sns (sq_queue q))" using assms(2) by (auto simp: slot_taken_def set_sns)
  then show "sq_sdu_states q (slot q sn) = STATE_FREE" using assms(1) by (simp add: sq_invar_def)
qed

lemma sq_write_ok_iff:
  assumes inv: "sq_invar q"
  shows "snd (sq_write q s) \<longleftrightarrow> length (sdu_buf s) + sdus_bytes (sq_view q) < unat (sq_byte_limit q) \<and>
    length (sq_queue q) < unat (sq_capacity q) \<and> \<not> slot_taken q s"
proof -
  have b: "unat (n_bytes (sq_get_state q)) = sdus_bytes (sq_view q)" using inv by (rule sduq.pending_bytes)
  show ?thesis
  proof (cases "sdu_pdcp_sn s")
    case None
    then have "\<not> slot_taken q s" by (simp add: slot_taken_def)
    then show ?thesis by (simp add: sq_write_def b None Let_def not_le)
  next
    case (Some sn)
    then show ?thesis using slot_free_iff [OF inv Some] by (simp add: sq_write_def b Let_def not_le)
  qed
qed

text \<open>
  Property C28: the SDU queue is a FIFO with removal.  Whatever sequence of writes, discards, reads and front
  accesses is applied to a fresh queue, the queued and not discarded SDUs form a list to which a successful write
  appends, from which a discard removes exactly the SDU with the PDCP SN (and reports whether there was one) and a
  read takes the first; the packed counters are the number and the bytes of that list.
\<close>

theorem sdu_queue_fifo:
  assumes "list_all sq_op_ok ops" and "q = sq_run cap lim ops" and "sdu_sn_ok s" and "sn_ok sn"
  shows "sq_get_state q = state_of_sdus (sq_view q) \<and>
    sq_view (fst (sq_write q s)) = (if snd (sq_write q s) then sq_view q @ [s] else sq_view q) \<and>
    (snd (sq_write q s) \<longleftrightarrow> length (sdu_buf s) + sdus_bytes (sq_view q) < unat (sq_byte_limit q) \<and>
       length (sq_queue q) < unat (sq_capacity q) \<and> \<not> slot_taken q s) \<and>
    sq_view (fst (sq_try_discard q sn)) = filter (\<lambda>t. sdu_pdcp_sn t \<noteq> Some sn) (sq_view q) \<and>
    (snd (sq_try_discard q sn) \<longleftrightarrow> (\<exists>t \<in> set (sq_view q). sdu_pdcp_sn t = Some sn)) \<and>
    snd (sq_read q) = (case sq_view q of [] \<Rightarrow> None | t # _ \<Rightarrow> Some t) \<and>
    sq_view (fst (sq_read q)) = tl (sq_view q) \<and>
    snd (sq_front q) = snd (sq_read q) \<and> sq_view (fst (sq_front q)) = sq_view q"
proof -
  have inv: "sq_invar q" using assms(1,2) sq_run_invar by simp
  have w: "sq_view (fst (sq_write q s)) = (if snd (sq_write q s) then sq_view q @ [s] else sq_view q)"
    using sduq.enqueue [OF inv assms(3)] by (metis prod.collapse)
  have d: "sq_view (fst (sq_try_discard q sn)) = filter (\<lambda>t. sdu_pdcp_sn t \<noteq> Some sn) (sq_view q) \<and>
      (snd (sq_try_discard q sn) \<longleftrightarrow> (\<exists>t \<in> set (sq_view q). sdu_pdcp_sn t = Some sn))"
    using sduq.discard [OF inv assms(4)] by (metis prod.collapse)
  obtain q' r where rd: "sq_read q = (q', r)" by (rule prod.exhaust)
  have r: "snd (sq_read q) = (case sq_view q of [] \<Rightarrow> None | t # _ \<Rightarrow> Some t)" "sq_view (fst (sq_read q)) = tl (sq_view q)"
    using sduq.dequeue [OF inv rd] by (cases r; simp add: rd)+
  have f: "snd (sq_front q) = (case sq_view q of [] \<Rightarrow> None | t # _ \<Rightarrow> Some t)" "sq_view (fst (sq_front q)) = sq_view q"
    using sduq.front [OF inv, of "fst (sq_front q)" "snd (sq_front q)"] by simp_all
  show ?thesis using sduq.get_state [OF inv] w sq_write_ok_iff [OF inv, of s] d r f by (intro conjI) simp_all
qed

definition sq_example_sdu :: "u32 \<Rightarrow> rlc_sdu" where
  "sq_example_sdu sn = \<lparr>sdu_buf = [1, 2, 3], sdu_is_retx = False, sdu_pdcp_sn = Some sn, sdu_time_of_arrival = 0\<rparr>"

definition sq_example :: rlc_sdu_queue where
  "sq_example = sq_run 4 100 [Sq_write (sq_example_sdu 7), Sq_write (sq_example_sdu 9), Sq_discard 7]"

theorem sdu_queue_fifo_witness:
  "snd (sq_read sq_example) = Some (sq_example_sdu 9) \<and> n_bytes (sq_get_state sq_example) = 3"
proof -
  have ok: "list_all sq_op_ok [Sq_write (sq_example_sdu 7), Sq_write (sq_example_sdu 9), Sq_discard 7]"
    "sdu_sn_ok (sq_example_sdu 1)" "sn_ok 1"
    by (simp_all add: sdu_sn_ok_def sn_ok_def sq_example_sdu_def)
  have v: "sq_view sq_example = [sq_example_sdu 9]" by code_simp
  show ?thesis using sdu_queue_fifo [OF ok(1) sq_example_def ok(2,3)] v
    by (simp add: state_of_sdus_def sq_example_sdu_def)
qed

end
