(* ===== verification/Rlc_Tx_Am.thy ===== *)
theory Rlc_Tx_Am
  imports Rlc_Rx_Am Rlc_Retx_Queue Rlc_Sdu_Queue "HOL-Library.Monad_Syntax"
begin

text \<open>
  The transmitting side of an RLC AM entity (\<open>lib/rlc/rlc_tx_am_entity.h\<close>, \<open>.cpp\<close>): SDUs from the upper layer,
  PDUs pulled by the MAC (status, retransmission, segment, new SDU), status reports from the peer, polling,
  t-PollRetransmit and the buffer state.

  The entity is the record \<open>rlc_tx_am_entity\<close>; an operation returns the new entity and the calls and deferred
  tasks it issues, and \<open>None\<close> stands for a failed \<open>srsran_assert\<close> or an access outside a container.  The status
  provider is the receiving side of the same bearer (\<open>lib/rlc/rlc_am_entity.h\<close>).  A timer is its running flag;
  times are integers.  The recycler that frees acknowledged buffers, metrics, traces and pcap are not part of the
  state.
\<close>

section \<open>State\<close>

record rlc_tx_am_config =
  tx_sn_field_length :: rlc_am_sn_size
  tx_pdcp_sn_len :: pdcp_sn_size
  t_poll_retx :: int
  max_retx_thresh :: u32
  poll_pdu :: int
  poll_byte :: int
  queue_size :: u32
  queue_size_bytes :: u32
  max_window :: u32

record rlc_tx_am_sdu_info =
  tsi_sdu :: bytes
  tsi_is_retx :: bool
  tsi_pdcp_sn :: "u32 option"
  tsi_time_of_arrival :: int
  next_so :: u32
  retx_count :: u32

record rlc_tx_am_state =
  tx_next_ack :: u32
  tx_next :: u32
  poll_sn :: u32
  pdu_without_poll :: u32
  byte_without_poll :: u32

record rlc_buffer_state =
  pending_bytes :: u32
  hol_toa :: "int option"

record rlc_tx_am_entity =
  txa_cfg :: rlc_tx_am_config
  txa_is_srb :: bool
  txa_st :: rlc_tx_am_state
  sdu_queue :: rlc_sdu_queue
  sn_under_segmentation :: u32
  retx_queue :: rlc_retx_queue
  last_retx_sn :: u32
  tx_window :: "rlc_tx_am_sdu_info circular_map"
  poll_retransmit_timer :: bool
  prev_buffer_state :: rlc_buffer_state
  suspend_bs_notif_barring :: bool
  pending_buffer_state :: bool
  stopped_upper :: bool
  stopped_lower :: bool
  max_retx_reached :: bool

datatype tx_am_event =
    On_transmitted_sdu u32 u32
  | On_retransmitted_sdu u32
  | On_delivered_sdu u32
  | On_delivered_retransmitted_sdu u32
  | On_max_retx
  | On_protocol_failure
  | Defer_protocol_failure
  | Defer_buffer_state_update
  | On_buffer_state_update rlc_buffer_state

abbreviation txa_sz :: "rlc_tx_am_entity \<Rightarrow> rlc_am_sn_size" where
  "txa_sz e \<equiv> tx_sn_field_length (txa_cfg e)"

abbreviation txa_mod :: "rlc_tx_am_entity \<Rightarrow> u32" where
  "txa_mod e \<equiv> am_mod (txa_sz e)"

abbreviation txa_window_size :: "rlc_tx_am_entity \<Rightarrow> u32" where
  "txa_window_size e \<equiv> window_size (am_to_number (txa_sz e))"

abbreviation head_min_size :: "rlc_tx_am_entity \<Rightarrow> nat" where
  "head_min_size e \<equiv> rlc_am_pdu_header_min_size (txa_sz e)"

abbreviation head_max_size :: "rlc_tx_am_entity \<Rightarrow> nat" where
  "head_max_size e \<equiv> rlc_am_pdu_header_max_size (txa_sz e)"

definition tx_am_create :: "rlc_tx_am_config \<Rightarrow> bool \<Rightarrow> rlc_tx_am_entity option" where
  "tx_am_create cfg is_srb =
     (let w = window_size (am_to_number (tx_sn_field_length cfg)) in
      if tx_pdcp_sn_len cfg = pdcp_size_invalid then None
      else map_option (\<lambda>win. \<lparr>txa_cfg = cfg, txa_is_srb = is_srb,
        txa_st = \<lparr>tx_next_ack = 0, tx_next = 0, poll_sn = 0, pdu_without_poll = 0, byte_without_poll = 0\<rparr>,
        sdu_queue = sq_create (queue_size cfg) (queue_size_bytes cfg),
        sn_under_segmentation = INVALID_RLC_SN, retx_queue = rq_create (unat w), last_retx_sn = INVALID_RLC_SN,
        tx_window = win, poll_retransmit_timer = False,
        prev_buffer_state = \<lparr>pending_bytes = 0, hol_toa = None\<rparr>, suspend_bs_notif_barring = True,
        pending_buffer_state = False, stopped_upper = False, stopped_lower = False, max_retx_reached = False\<rparr>)
        (cm_create w))"

text \<open>\<open>stop\<close>: the task for the cell executor is run at once.\<close>

definition tx_am_stop :: "rlc_tx_am_entity \<Rightarrow> rlc_tx_am_entity" where
  "tx_am_stop e = (if \<not> stopped_upper e
     then e\<lparr>stopped_upper := True, stopped_lower := True, poll_retransmit_timer := False\<rparr> else e)"

section \<open>Window helpers\<close>

definition tx_mod_base :: "rlc_tx_am_entity \<Rightarrow> u32 \<Rightarrow> u32" where
  "tx_mod_base e sn = sn_dist (txa_mod e) (tx_next_ack (txa_st e)) sn"

definition inside_tx_window :: "rlc_tx_am_entity \<Rightarrow> u32 \<Rightarrow> bool" where
  "inside_tx_window e sn \<longleftrightarrow> tx_mod_base e sn < txa_window_size e"

definition is_tx_window_full :: "rlc_tx_am_entity \<Rightarrow> bool" where
  "is_tx_window_full e \<longleftrightarrow> cm_full (tx_window e) \<or>
     (max_window (txa_cfg e) \<noteq> 0 \<and> tx_mod_base e (tx_next (txa_st e)) > max_window (txa_cfg e))"

definition valid_ack_sn :: "rlc_tx_am_entity \<Rightarrow> u32 \<Rightarrow> bool" where
  "valid_ack_sn e sn \<longleftrightarrow> 0 < tx_mod_base e sn \<and> tx_mod_base e sn \<le> txa_window_size e"

definition nothing_to_send :: "rlc_tx_am_entity \<Rightarrow> bool" where
  "nothing_to_send e \<longleftrightarrow> (sq_is_empty (sdu_queue e) \<and> rq_empty (retx_queue e) \<and> sn_under_segmentation e = INVALID_RLC_SN)
     \<or> is_tx_window_full e"

section \<open>Interface of the upper layer\<close>

definition handle_changed_buffer_state :: "rlc_tx_am_entity \<Rightarrow> rlc_tx_am_entity \<times> tx_am_event list" where
  "handle_changed_buffer_state e =
     (if \<not> pending_buffer_state e then (e\<lparr>pending_buffer_state := True\<rparr>, [Defer_buffer_state_update]) else (e, []))"

definition handle_sdu :: "int \<Rightarrow> bytes \<Rightarrow> bool \<Rightarrow> rlc_tx_am_entity \<Rightarrow> rlc_tx_am_entity \<times> tx_am_event list" where
  "handle_sdu now buf is_retx e =
     (let sdu = \<lparr>sdu_buf = buf, sdu_is_retx = (if txa_is_srb e \<and> is_retx then False else is_retx),
                 sdu_pdcp_sn = get_pdcp_sn buf (tx_pdcp_sn_len (txa_cfg e)) (txa_is_srb e), sdu_time_of_arrival = now\<rparr>
      in case sq_write (sdu_queue e) sdu of
           (q, True) \<Rightarrow> handle_changed_buffer_state (e\<lparr>sdu_queue := q\<rparr>)
         | (q, False) \<Rightarrow> (e\<lparr>sdu_queue := q\<rparr>, []))"

definition discard_sdu :: "u32 \<Rightarrow> rlc_tx_am_entity \<Rightarrow> rlc_tx_am_entity \<times> tx_am_event list" where
  "discard_sdu pdcp_sn e = (case sq_try_discard (sdu_queue e) pdcp_sn of
      (q, True) \<Rightarrow> handle_changed_buffer_state (e\<lparr>sdu_queue := q\<rparr>)
    | (q, False) \<Rightarrow> (e\<lparr>sdu_queue := q\<rparr>, []))"

section \<open>Polling\<close>

definition start_poll_retransmit_timer :: "rlc_tx_am_entity \<Rightarrow> rlc_tx_am_entity" where
  "start_poll_retransmit_timer e =
     (if t_poll_retx (txa_cfg e) > 0 \<and> \<not> stopped_lower e then e\<lparr>poll_retransmit_timer := True\<rparr> else e)"

definition get_polling_bit :: "u32 \<Rightarrow> bool \<Rightarrow> u32 \<Rightarrow> rlc_tx_am_entity \<Rightarrow> rlc_tx_am_entity \<times> u8" where
  "get_polling_bit sn is_retx payload_size e =
     (let cfg = txa_cfg e;
          s1 = (if is_retx then txa_st e
                else (txa_st e)\<lparr>pdu_without_poll := pdu_without_poll (txa_st e) + 1,
                                byte_without_poll := byte_without_poll (txa_st e) + payload_size\<rparr>);
          poll = (\<not> is_retx \<and>
                   ((poll_pdu cfg > 0 \<and> pdu_without_poll s1 \<ge> word_of_int (poll_pdu cfg)) \<or>
                    (poll_byte cfg > 0 \<and> byte_without_poll s1 \<ge> word_of_int (poll_byte cfg))))
                 \<or> nothing_to_send e;
          e1 = e\<lparr>txa_st := s1\<rparr>
      in if poll
         then (let s2 = s1\<lparr>pdu_without_poll := 0, byte_without_poll := 0\<rparr>;
                   s3 = (if is_retx then s2 else s2\<lparr>poll_sn := sn\<rparr>)
               in (start_poll_retransmit_timer (e1\<lparr>txa_st := s3\<rparr>), 1))
         else (e1, 0))"

section \<open>Building PDUs\<close>

text \<open>
  A builder gets the grant length and returns the bytes of the PDU, empty when it returns 0.  \<open>buffer_view\<close> is
  \<open>byte_buffer_view{sdu, so, len}\<close>, undefined outside the buffer; \<open>put_payload\<close> is \<open>copy_segments\<close> into the
  rest of the grant, which gives up (0 bytes) when not all of the segment was copied.
\<close>

definition buffer_view :: "bytes \<Rightarrow> nat \<Rightarrow> nat \<Rightarrow> bytes option" where
  "buffer_view buf start sz = (if start + sz \<le> length buf then Some (take sz (drop start buf)) else None)"

definition copy_segments :: "bytes \<Rightarrow> nat \<Rightarrow> bytes" where
  "copy_segments src dst_size = take dst_size src"

definition window_modify :: "u32 \<Rightarrow> (rlc_tx_am_sdu_info \<Rightarrow> rlc_tx_am_sdu_info) \<Rightarrow> rlc_tx_am_entity \<Rightarrow> rlc_tx_am_entity" where
  "window_modify sn f e = e\<lparr>tx_window := cm_modify (tx_window e) sn f\<rparr>"

definition advance_tx_next :: "rlc_tx_am_entity \<Rightarrow> rlc_tx_am_entity" where
  "advance_tx_next e = e\<lparr>txa_st := (txa_st e)\<lparr>tx_next := sn_next (txa_mod e) (tx_next (txa_st e))\<rparr>\<rparr>"

definition data_header :: "rlc_tx_am_entity \<Rightarrow> u8 \<Rightarrow> rlc_si_field \<Rightarrow> u32 \<Rightarrow> u32 \<Rightarrow> rlc_am_pdu_header" where
  "data_header e p si sn so = \<lparr>am_dc = dc_data, am_p = p, am_si = si, am_sn_size = txa_sz e, am_sn = sn, am_so = ucast so\<rparr>"

text \<open>Header and segment of an SDU in the PDU; the result is empty when the payload could not be written.\<close>

definition assemble_segment :: "rlc_am_pdu_header \<Rightarrow> bytes \<Rightarrow> u32 \<Rightarrow> nat \<Rightarrow> bytes option" where
  "assemble_segment hdr sdu len grant_len =
     (let header = rlc_am_write_data_pdu_header hdr in
      map_option (\<lambda>v. let payload = copy_segments v (grant_len - length header)
                      in if payload = [] \<or> length payload \<noteq> unat len then [] else header @ payload)
        (buffer_view sdu (unat (am_so hdr)) (unat len)))"

definition build_first_sdu_segment ::
  "nat \<Rightarrow> rlc_tx_am_sdu_info \<Rightarrow> rlc_tx_am_entity \<Rightarrow> (rlc_tx_am_entity \<times> bytes) option" where
  "build_first_sdu_segment grant_len sdu_info e =
     (if length (tsi_sdu sdu_info) + head_min_size e \<le> grant_len then Some (e, [])
      else if grant_len \<le> head_min_size e then Some (e, [])
      else let segment_payload_len = of_nat (grant_len - head_min_size e) :: u32;
               sn = tx_next (txa_st e);
               e1 = e\<lparr>sn_under_segmentation := sn\<rparr>;
               (e2, p) = get_polling_bit sn False segment_payload_len e1;
               hdr = data_header e2 p first_segment sn (next_so sdu_info)
           in do {
                pdu \<leftarrow> assemble_segment hdr (tsi_sdu sdu_info) segment_payload_len grant_len;
                Some (if pdu = [] then (e2, [])
                      else (window_modify sn (\<lambda>i. i\<lparr>next_so := next_so i + segment_payload_len\<rparr>) e2, pdu))
              })"

definition build_new_pdu :: "nat \<Rightarrow> rlc_tx_am_entity \<Rightarrow> (rlc_tx_am_entity \<times> tx_am_event list \<times> bytes) option" where
  "build_new_pdu grant_len e =
     (if grant_len \<le> head_min_size e then Some (e, [], [])
      else if is_tx_window_full e then Some (e, [], [])
      else case sq_read (sdu_queue e) of
        (q, None) \<Rightarrow> Some (e\<lparr>sdu_queue := q\<rparr>, [], [])
      | (q, Some sdu) \<Rightarrow>
          let sn = tx_next (txa_st e);
              sdu_info = \<lparr>tsi_sdu = sdu_buf sdu, tsi_is_retx = sdu_is_retx sdu, tsi_pdcp_sn = sdu_pdcp_sn sdu,
                tsi_time_of_arrival = sdu_time_of_arrival sdu, next_so = 0, retx_count = RETX_COUNT_NOT_STARTED\<rparr>;
              evs = (case sdu_pdcp_sn sdu of
                  Some psn \<Rightarrow> [if sdu_is_retx sdu then On_retransmitted_sdu psn
                              else On_transmitted_sdu psn (queue_size_bytes (txa_cfg e))]
                | None \<Rightarrow> [])
          in do {
            w \<leftarrow> add_sn (tx_window e) sn sdu_info;
            let e1 = e\<lparr>sdu_queue := q, tx_window := w\<rparr>;
            if length (sdu_buf sdu) + head_min_size e > grant_len
            then do { (e2, pdu) \<leftarrow> build_first_sdu_segment grant_len sdu_info e1; Some (e2, evs, pdu) }
            else let (e2, p) = get_polling_bit sn False 0 e1;
                     header = rlc_am_write_data_pdu_header (data_header e2 p full_sdu sn 0);
                     payload = copy_segments (sdu_buf sdu) (grant_len - length header)
                 in if payload = [] then Some (e2, evs, [])
                    else Some (advance_tx_next e2, evs, header @ payload)
          })"

definition build_continued_sdu_segment ::
  "nat \<Rightarrow> rlc_tx_am_sdu_info \<Rightarrow> rlc_tx_am_entity \<Rightarrow> (rlc_tx_am_entity \<times> bytes) option" where
  "build_continued_sdu_segment grant_len sdu_info e =
     (let so = next_so sdu_info; sdu_len = length (tsi_sdu sdu_info) in
      if so = 0 then Some (e\<lparr>sn_under_segmentation := INVALID_RLC_SN\<rparr>, [])
      else if unat so \<ge> sdu_len then Some (e\<lparr>sn_under_segmentation := INVALID_RLC_SN\<rparr>, [])
      else if grant_len \<le> head_max_size e then Some (e, [])
      else let rest = of_nat sdu_len - so :: u32;
               middle = unat (rest + of_nat (head_max_size e)) > grant_len;
               segment_payload_len = (if middle then of_nat (grant_len - head_max_size e) else rest);
               si = (if middle then middle_segment else last_segment);
               e1 = (if middle then e else e\<lparr>sn_under_segmentation := INVALID_RLC_SN\<rparr>);
               sn = tx_next (txa_st e);
               (e2, p) = get_polling_bit sn False segment_payload_len e1
           in do {
                pdu \<leftarrow> assemble_segment (data_header e2 p si sn so) (tsi_sdu sdu_info) segment_payload_len grant_len;
                Some (if pdu = [] then (e2, [])
                      else let e3 = window_modify (sn_under_segmentation e)
                                 (\<lambda>i. i\<lparr>next_so := next_so i + segment_payload_len\<rparr>) e2
                           in (if middle then e3 else advance_tx_next e3, pdu))
              })"

text \<open>Dropping retransmissions of SNs that left the window; the queue operations assert a valid front.\<close>

lemma rq_pop_shorter: "\<not> rq_empty q \<Longrightarrow> length (rq_items (rq_pop q)) < length (rq_items q)"
  using length_dropWhile_le [of item_invalid "tl (rq_items q)"]
  by (cases "rq_items q") (auto simp: rq_empty_def rq_pop_def clean_invalid_front_def)

function drop_stale_retx :: "rlc_tx_am_sdu_info circular_map \<Rightarrow> rlc_retx_queue \<Rightarrow> rlc_retx_queue option" where
  "drop_stale_retx w q =
     (if rq_empty q then Some q
      else do {
        retx \<leftarrow> rq_front q;
        if has_sn w (retx_sn retx) then Some q else drop_stale_retx w (rq_pop q)
      })"
  by pat_completeness auto
termination by (relation "measure (\<lambda>(w, q). length (rq_items q))") (auto simp: rq_pop_shorter)

declare drop_stale_retx.simps [simp del]

definition get_retx_expected_hdr_len :: "rlc_tx_am_entity \<Rightarrow> rlc_tx_amd_retx \<Rightarrow> nat" where
  "get_retx_expected_hdr_len e retx = (if retx_so retx = 0 then head_min_size e else head_max_size e)"

definition retx_si :: "u32 \<Rightarrow> bool \<Rightarrow> rlc_si_field" where
  "retx_si so sdu_complete =
     (if so = 0 then (if sdu_complete then full_sdu else first_segment)
      else (if sdu_complete then last_segment else middle_segment))"

text \<open>The front of the queue after sending \<open>len\<close> bytes of it: gone, or its remainder.\<close>

definition retx_sent :: "rlc_tx_amd_retx \<Rightarrow> nat \<Rightarrow> rlc_retx_queue \<Rightarrow> rlc_retx_queue option" where
  "retx_sent retx len q =
     (if len = unat (retx_length retx) then Some (rq_pop q)
      else rq_replace_front q (retx\<lparr>retx_so := retx_so retx + of_nat len, retx_length := retx_length retx - of_nat len\<rparr>))"

definition build_retx_pdu :: "nat \<Rightarrow> rlc_tx_am_entity \<Rightarrow> (rlc_tx_am_entity \<times> bytes) option" where
  "build_retx_pdu grant_len e =
     (if rq_empty (retx_queue e) then Some (e, [])
      else do {
        q \<leftarrow> drop_stale_retx (tx_window e) (retx_queue e);
        let e1 = e\<lparr>retx_queue := q\<rparr>;
        if rq_empty q then Some (e1, [])
        else do {
          retx \<leftarrow> rq_front q;
          let e2 = e1\<lparr>last_retx_sn := retx_sn retx\<rparr>;
          sdu_info \<leftarrow> cm_get (tx_window e) (retx_sn retx);
          let sdu_len = length (tsi_sdu sdu_info);
          if unat (retx_so retx + retx_length retx) > sdu_len then Some (e2\<lparr>retx_queue := rq_pop q\<rparr>, [])
          else let expected_hdr_len = get_retx_expected_hdr_len e retx in
          if grant_len \<le> expected_hdr_len then Some (e2, [])
          else do {
            let retx_payload_len = min (unat (retx_length retx)) (grant_len - expected_hdr_len);
            let retx_complete = (retx_payload_len = unat (retx_length retx));
            let sdu_complete = (unat (retx_so retx) + retx_payload_len \<ge> sdu_len);
            q1 \<leftarrow> retx_sent retx retx_payload_len q;
            let e3 = e2\<lparr>retx_queue := q1,
              max_retx_reached := (max_retx_reached e \<or> (retx_complete \<and> retx_count sdu_info = max_retx_thresh (txa_cfg e)))\<rparr>;
            let (e4, p) = get_polling_bit (retx_sn retx) True 0 e3;
            let hdr = data_header e p (retx_si (retx_so retx) sdu_complete) (retx_sn retx) (retx_so retx);
            if length (rlc_am_write_data_pdu_header hdr) \<noteq> expected_hdr_len then None
            else do {
              pdu \<leftarrow> assemble_segment hdr (tsi_sdu sdu_info) (of_nat retx_payload_len) grant_len;
              Some (e4, pdu)
            }
          }
        }
      })"

section \<open>pull_pdu\<close>

text \<open>The status report of the receiving side, trimmed in place to the grant.\<close>

definition pull_status_pdu :: "bool \<Rightarrow> nat \<Rightarrow> rlc_rx_am_entity \<Rightarrow> rlc_rx_am_entity \<times> rx_am_event list \<times> bytes" where
  "pull_status_pdu defer_ok grant_len rx =
     (if grant_len < unat sizeof_header_ack_sn then (rx, [], [])
      else case get_status_pdu defer_ok rx of
        (rx1, status, evs) \<Rightarrow>
          if unat (sp_packed_size status) > grant_len
          then (case sp_trim status (of_nat grant_len) of
            (status', trimmed) \<Rightarrow>
              (rx1\<lparr>status_owned_by_reader := status'\<rparr>, evs, if trimmed then sp_pack status' else []))
          else (rx1, evs, sp_pack status))"

definition pull_pdu :: "bool \<Rightarrow> nat \<Rightarrow> rlc_rx_am_entity \<Rightarrow> rlc_tx_am_entity \<Rightarrow>
    (rlc_tx_am_entity \<times> rlc_rx_am_entity \<times> tx_am_event list \<times> rx_am_event list \<times> bytes) option" where
  "pull_pdu defer_ok grant_len rx e =
     (if max_retx_reached e then Some (e, rx, [], [], [])
      else if status_report_required rx
      then (case pull_status_pdu defer_ok grant_len rx of (rx1, evs, pdu) \<Rightarrow> Some (e, rx1, [], evs, pdu))
      else if \<not> rq_empty (retx_queue e)
      then do { (e1, pdu) \<leftarrow> build_retx_pdu grant_len e; Some (e1, rx, [], [], pdu) }
      else case (if sn_under_segmentation e \<noteq> INVALID_RLC_SN then cm_get (tx_window e) (sn_under_segmentation e) else None) of
        Some sdu_info \<Rightarrow>
          do { (e1, pdu) \<leftarrow> build_continued_sdu_segment grant_len sdu_info e; Some (e1, rx, [], [], pdu) }
      | None \<Rightarrow>
          let e1 = e\<lparr>sn_under_segmentation := INVALID_RLC_SN\<rparr> in
          if sq_is_empty (sdu_queue e1) then Some (e1, rx, [], [], [])
          else do { (e2, evs, pdu) \<leftarrow> build_new_pdu grant_len e1; Some (e2, rx, evs, [], pdu) })"

section \<open>Buffer state\<close>

text \<open>\<open>MAX_DL_PDU_LENGTH\<close> (\<open>include/srsran/ran/pdsch/pdsch_constants.h\<close>): 156 * 275 * 4 * 8 bits, in bytes.\<close>

definition MAX_DL_PDU_LENGTH :: nat where "MAX_DL_PDU_LENGTH = 171600"

definition hol_of_new :: "rlc_tx_am_entity \<Rightarrow> rlc_tx_am_entity \<times> int option" where
  "hol_of_new e = (case sq_front (sdu_queue e) of
     (q, sdu) \<Rightarrow> (e\<lparr>sdu_queue := q\<rparr>, map_option sdu_time_of_arrival sdu))"

definition get_buffer_state :: "rlc_rx_am_entity \<Rightarrow> rlc_tx_am_entity \<Rightarrow> (rlc_tx_am_entity \<times> rlc_buffer_state) option" where
  "get_buffer_state rx e =
     (let queue_state = sq_get_state (sdu_queue e);
          queue_bytes = n_bytes queue_state + n_sdus queue_state * of_nat (head_min_size e);
          (e1, segment_bytes, toa) =
            (if sn_under_segmentation e \<noteq> INVALID_RLC_SN
             then (case cm_get (tx_window e) (sn_under_segmentation e) of
                     Some i \<Rightarrow> (e, of_nat (length (tsi_sdu i)) - next_so i + of_nat (head_max_size e), Some (tsi_time_of_arrival i))
                   | None \<Rightarrow> (e, 0, None))
             else (case hol_of_new e of (e', t) \<Rightarrow> (e', 0, t)));
          retx_state = rq_state (retx_queue e1);
          retx_total = retx_bytes retx_state + n_retx_so_zero retx_state * of_nat (head_min_size e)
                       + n_retx_so_nonzero retx_state * of_nat (head_max_size e)
      in do {
        q \<leftarrow> drop_stale_retx (tx_window e1) (retx_queue e1);
        hol \<leftarrow> (if rq_empty q then Some toa
                else do { retx \<leftarrow> rq_front q; i \<leftarrow> cm_get (tx_window e1) (retx_sn retx); Some (Some (tsi_time_of_arrival i)) });
        let status_bytes = (if status_report_required rx then get_status_pdu_length rx else 0);
        let pending = queue_bytes + segment_bytes + retx_total + status_bytes;
        Some (e1\<lparr>retx_queue := q,
                 suspend_bs_notif_barring := (suspend_bs_notif_barring e1 \<or> unat pending \<le> MAX_DL_PDU_LENGTH)\<rparr>,
              \<lparr>pending_bytes = pending, hol_toa = hol\<rparr>)
      })"

text \<open>\<open>std::optional\<close> orders the empty value first.\<close>

fun opt_less :: "int option \<Rightarrow> int option \<Rightarrow> bool" where
  "opt_less _ None \<longleftrightarrow> False"
| "opt_less None (Some _) \<longleftrightarrow> True"
| "opt_less (Some a) (Some b) \<longleftrightarrow> a < b"

definition update_mac_buffer_state ::
  "bool \<Rightarrow> rlc_rx_am_entity \<Rightarrow> rlc_tx_am_entity \<Rightarrow> (rlc_tx_am_entity \<times> tx_am_event list) option" where
  "update_mac_buffer_state force_notify rx e =
     do {
       (e1, bs) \<leftarrow> get_buffer_state rx (e\<lparr>pending_buffer_state := False\<rparr>);
       let notify = (force_notify \<or> unat (pending_bytes bs) \<le> MAX_DL_PDU_LENGTH
                     \<or> unat (pending_bytes (prev_buffer_state e1)) \<le> MAX_DL_PDU_LENGTH
                     \<or> suspend_bs_notif_barring e1 \<or> opt_less (hol_toa bs) (hol_toa (prev_buffer_state e1)));
       let e2 = (if notify then e1\<lparr>suspend_bs_notif_barring := False\<rparr> else e1);
       Some (e2\<lparr>prev_buffer_state := bs\<rparr>, if notify then [On_buffer_state_update bs] else [])
     }"

section \<open>Retransmission counters\<close>

definition increment_retx_count :: "u32 \<Rightarrow> rlc_tx_am_entity \<Rightarrow> (rlc_tx_am_entity \<times> tx_am_event list) option" where
  "increment_retx_count sn e =
     do {
       i \<leftarrow> cm_get (tx_window e) sn;
       let n = (if retx_count i = RETX_COUNT_NOT_STARTED then 0 else retx_count i + 1);
       Some (window_modify sn (\<lambda>i. i\<lparr>retx_count := n\<rparr>) e,
             if n = max_retx_thresh (txa_cfg e) then [On_max_retx] else [])
     }"

definition decrement_retx_count :: "u32 \<Rightarrow> rlc_tx_am_entity \<Rightarrow> rlc_tx_am_entity option" where
  "decrement_retx_count sn e =
     do {
       i \<leftarrow> cm_get (tx_window e) sn;
       Some (if retx_count i = RETX_COUNT_NOT_STARTED then e
             else if retx_count i = 0 then window_modify sn (\<lambda>i. i\<lparr>retx_count := RETX_COUNT_NOT_STARTED\<rparr>) e
             else window_modify sn (\<lambda>i. i\<lparr>retx_count := retx_count i - 1\<rparr>) e)
     }"

section \<open>Status reports from the peer\<close>

definition valid_nack :: "u32 \<Rightarrow> rlc_am_status_nack \<Rightarrow> rlc_tx_am_entity \<Rightarrow> bool \<times> tx_am_event list" where
  "valid_nack ack_sn nack e =
     (let last = nack_sn nack + ucast (nack_range nack) - 1 in
      if tx_mod_base e (nack_sn nack) \<ge> tx_mod_base e ack_sn then (False, [])
      else if has_nack_range nack \<and> tx_mod_base e last \<ge> tx_mod_base e ack_sn then (False, [])
      else if \<not> inside_tx_window e (nack_sn nack) then (False, [])
      else if has_nack_range nack \<and> \<not> inside_tx_window e last then (False, [])
      else if tx_mod_base e (nack_sn nack) > tx_mod_base e (tx_next (txa_st e)) then (False, [Defer_protocol_failure])
      else if has_nack_range nack \<and> tx_mod_base e last > tx_mod_base e (tx_next (txa_st e))
           then (False, [Defer_protocol_failure])
      else (True, []))"

fun valid_nacks :: "u32 \<Rightarrow> rlc_am_status_nack list \<Rightarrow> rlc_tx_am_entity \<Rightarrow> bool \<times> tx_am_event list" where
  "valid_nacks ack_sn [] e = (True, [])"
| "valid_nacks ack_sn (n # ns) e = (case valid_nack ack_sn n e of
     (False, evs) \<Rightarrow> (False, evs) | (True, evs) \<Rightarrow> valid_nacks ack_sn ns e)"

text \<open>The sanity checks of \<open>handle_status_pdu\<close>.\<close>

definition status_accepted :: "rlc_am_status_pdu \<Rightarrow> rlc_tx_am_entity \<Rightarrow> bool \<times> tx_am_event list" where
  "status_accepted status e =
     (if \<not> valid_ack_sn e (sp_ack_sn status) then (False, [])
      else if tx_mod_base e (sp_ack_sn status) > tx_mod_base e (tx_next (txa_st e) + 1) then (False, [Defer_protocol_failure])
      else valid_nacks (sp_ack_sn status) (sp_nacks status) e)"

text \<open>
  Processing the ACKs.  The lower edge \<open>tx_next_ack\<close> that \<open>tx_mod_base\<close> subtracts moves inside the loop.  The
  result carries the highest delivered PDCP SNs, new and retransmitted.
\<close>

function ack_loop :: "u32 \<Rightarrow> u32 \<Rightarrow> rlc_tx_am_entity \<Rightarrow> u32 option \<Rightarrow> u32 option \<Rightarrow>
    rlc_tx_am_entity \<times> u32 option \<times> u32 option" where
  "ack_loop stop_sn sn e deliv deliv_retx =
     (if tx_mod_base e sn < tx_mod_base e stop_sn
      then (case cm_get (tx_window e) sn of
        None \<Rightarrow> (e, deliv, deliv_retx)
      | Some i \<Rightarrow>
          let (d, r) = (case tsi_pdcp_sn i of
              None \<Rightarrow> (deliv, deliv_retx)
            | Some psn \<Rightarrow> if tsi_is_retx i then (deliv, Some psn) else (Some psn, deliv_retx));
              next_sn = sn_next (txa_mod e) sn
          in ack_loop stop_sn next_sn
               (e\<lparr>tx_window := fst (cm_erase (tx_window e) sn), txa_st := (txa_st e)\<lparr>tx_next_ack := next_sn\<rparr>\<rparr>) d r)
      else (e, deliv, deliv_retx))"
  by pat_completeness auto
termination
proof (relation "measure (\<lambda>(stop, sn, e, _). nat (uint (sn_dist (txa_mod e) sn stop)))", goal_cases)
  case 1
  show ?case by simp
next
  case (2 stop sn e d r i)
  let ?m = "txa_mod e" and ?a = "tx_next_ack (txa_st e)"
  have lt: "uint (sn_dist ?m ?a sn) < uint (sn_dist ?m ?a stop)"
    using 2(1) by (simp add: tx_mod_base_def word_less_def)
  have n: "uint (sn_dist ?m ?a (sn_next ?m sn)) = uint (sn_dist ?m ?a sn) + 1"
    by (rule am_sn.dist_next_below [OF lt])
  have "uint (sn_dist ?m sn stop) = uint (sn_dist ?m ?a stop) - uint (sn_dist ?m ?a sn)"
    by (rule am_sn.dist_rebase_le) (use lt in simp)
  moreover have "uint (sn_dist ?m (sn_next ?m sn) stop) = uint (sn_dist ?m ?a stop) - (uint (sn_dist ?m ?a sn) + 1)"
    unfolding n [symmetric] by (rule am_sn.dist_rebase_le) (use lt n in simp)
  ultimately have "sn_dist ?m (sn_next ?m sn) stop < sn_dist ?m sn stop" using lt by (simp add: word_less_def)
  then show ?case using 2(3-) by (auto simp: word_less_nat_alt)
qed

declare ack_loop.simps [simp del]

definition ack_stop_sn :: "rlc_am_status_pdu \<Rightarrow> u32" where
  "ack_stop_sn status = (case sp_nacks status of [] \<Rightarrow> sp_ack_sn status | n # _ \<Rightarrow> nack_sn n)"

definition process_acks :: "rlc_am_status_pdu \<Rightarrow> rlc_tx_am_entity \<Rightarrow> rlc_tx_am_entity \<times> tx_am_event list" where
  "process_acks status e =
     (case ack_loop (ack_stop_sn status) (tx_next_ack (txa_st e)) e None None of
        (e1, deliv, deliv_retx) \<Rightarrow>
          (e1, (case deliv of None \<Rightarrow> [] | Some psn \<Rightarrow> [On_delivered_sdu psn]) @
               (case deliv_retx of None \<Rightarrow> [] | Some psn \<Rightarrow> [On_delivered_retransmitted_sdu psn])))"

text \<open>Emptying the retransmission queue, with the counters of SNs not retransmitted since the last report rewound.\<close>

function clear_retx :: "rlc_tx_am_entity \<Rightarrow> rlc_tx_am_entity option" where
  "clear_retx e =
     (if rq_empty (retx_queue e) then Some (e\<lparr>last_retx_sn := INVALID_RLC_SN\<rparr>)
      else case rq_front (retx_queue e) of
        None \<Rightarrow> None
      | Some retx \<Rightarrow>
          (case (if last_retx_sn e \<noteq> retx_sn retx \<and> has_sn (tx_window e) (retx_sn retx)
                 then decrement_retx_count (retx_sn retx) e else Some e) of
             None \<Rightarrow> None
           | Some e1 \<Rightarrow> clear_retx (e1\<lparr>last_retx_sn := retx_sn retx, retx_queue := rq_pop (retx_queue e)\<rparr>)))"
  by pat_completeness auto
termination by (relation "measure (\<lambda>e. length (rq_items (retx_queue e)))") (auto simp: rq_pop_shorter)

declare clear_retx.simps [simp del]

text \<open>The end of a NACK's byte range, and the range after the sanity checks; the events are the reported failures.\<close>

definition nack_so_range :: "rlc_tx_am_entity \<Rightarrow> rlc_am_status_nack \<Rightarrow> rlc_tx_am_sdu_info \<Rightarrow> (u16 \<times> u16) option" where
  "nack_so_range e nack sdu_info =
     (let sdu_length = of_nat (length (tsi_sdu sdu_info)) :: u32;
          start = (if has_so nack then so_start nack else 0);
          stop = (if has_so nack then so_end nack else ucast (sdu_length - 1))
      in if stop \<noteq> so_end_of_sdu then Some (start, stop)
         else if nack_sn nack \<noteq> sn_under_segmentation e then Some (start, ucast (sdu_length - 1))
         else if next_so sdu_info = 0 then None
         else if ucast start > next_so sdu_info then None
         else if ucast start = next_so sdu_info then None
         else Some (start, ucast (next_so sdu_info - 1)))"

definition nack_sanity :: "u32 \<Rightarrow> u16 \<Rightarrow> u16 \<Rightarrow> (u16 \<times> u16) \<times> tx_am_event list" where
  "nack_sanity sdu_length start stop =
     (let (start1, ev1) = (if start > stop then (0, [Defer_protocol_failure]) else (start, []));
          (start2, ev2) = (if ucast start1 \<ge> sdu_length then (0, [Defer_protocol_failure]) else (start1, []));
          (stop1, ev3) = (if ucast stop \<ge> sdu_length
                          then (ucast (sdu_length - 1), [On_protocol_failure, Defer_protocol_failure]) else (stop, []))
      in ((start2, stop1), ev1 @ ev2 @ ev3))"

definition handle_nack :: "rlc_am_status_nack \<Rightarrow> rlc_tx_am_entity \<Rightarrow> (rlc_tx_am_entity \<times> tx_am_event list \<times> bool) option" where
  "handle_nack nack e =
     (if has_nack_range nack then Some (e, [], False)
      else if \<not> (tx_mod_base e (tx_next_ack (txa_st e)) \<le> tx_mod_base e (nack_sn nack) \<and>
                 tx_mod_base e (nack_sn nack) \<le> tx_mod_base e (tx_next (txa_st e))) then Some (e, [], False)
      else do {
        sdu_info \<leftarrow> cm_get (tx_window e) (nack_sn nack);
        case nack_so_range e nack sdu_info of
          None \<Rightarrow> Some (e, [], False)
        | Some (start, stop) \<Rightarrow>
            (case nack_sanity (of_nat (length (tsi_sdu sdu_info))) start stop of
              ((start1, stop1), evs) \<Rightarrow>
                (case rq_try_push (retx_queue e)
                        \<lparr>retx_sn = nack_sn nack, retx_so = ucast start1, retx_length = ucast stop1 - ucast start1 + 1\<rparr> of
                   (q, pushed) \<Rightarrow> Some (e\<lparr>retx_queue := q\<rparr>, evs, pushed)))
      })"

text \<open>One NACK and, once per SN, its retransmission counter; \<open>prev_retx_sn\<close> is passed along.\<close>

definition nack_and_count :: "rlc_am_status_nack \<Rightarrow> rlc_tx_am_entity \<times> u32 \<Rightarrow>
    ((rlc_tx_am_entity \<times> u32) \<times> tx_am_event list) option" where
  "nack_and_count nack ep =
     do {
       (e1, evs, handled) \<leftarrow> handle_nack nack (fst ep);
       if handled \<and> snd ep \<noteq> nack_sn nack
       then do { (e2, evs2) \<leftarrow> increment_retx_count (nack_sn nack) e1; Some ((e2, nack_sn nack), evs @ evs2) }
       else Some ((e1, snd ep), evs)
     }"

text \<open>The NACK for one SN of a NACK range.\<close>

definition range_item :: "u32 \<Rightarrow> rlc_am_status_nack \<Rightarrow> u32 \<Rightarrow> rlc_am_status_nack" where
  "range_item m nack range_sn =
     (if has_so nack
      then (let start = (if range_sn = nack_sn nack then so_start nack else so_start rlc_am_status_nack_init);
                stop = (if range_sn = (nack_sn nack + ucast (nack_range nack) - 1) mod m then so_end nack
                        else so_end rlc_am_status_nack_init)
            in rlc_am_status_nack_init\<lparr>nack_sn := range_sn, so_start := start, so_end := stop,
                 has_so := (start \<noteq> 0 \<or> stop \<noteq> so_end_of_sdu)\<rparr>)
      else rlc_am_status_nack_init\<lparr>nack_sn := range_sn\<rparr>)"

function nack_range_loop :: "rlc_am_sn_size \<Rightarrow> u32 \<Rightarrow> rlc_am_status_nack \<Rightarrow> u32 \<Rightarrow> rlc_tx_am_entity \<times> u32 \<Rightarrow>
    ((rlc_tx_am_entity \<times> u32) \<times> tx_am_event list) option" where
  "nack_range_loop sz ack_sn nack range_sn ep =
     (if range_sn = (nack_sn nack + ucast (nack_range nack)) mod am_mod sz then Some (ep, [])
      else if range_sn = ack_sn then Some (ep, [])
      else case nack_and_count (range_item (am_mod sz) nack range_sn) ep of
        None \<Rightarrow> None
      | Some (ep1, evs) \<Rightarrow>
          (case nack_range_loop sz ack_sn nack (sn_next (am_mod sz) range_sn) ep1 of
             None \<Rightarrow> None | Some (ep2, evs2) \<Rightarrow> Some (ep2, evs @ evs2)))"
  by pat_completeness auto
termination
proof (relation "measure (\<lambda>(sz, ack, nack, x, ep). nat (if x < am_mod sz
    then uint (sn_dist (am_mod sz) x ((nack_sn nack + ucast (nack_range nack)) mod am_mod sz)) else uint (am_mod sz)))",
    goal_cases)
  case 1
  show ?case by simp
next
  case (2 sz ack nack x ep r ep1 evs)
  let ?m = "am_mod sz" and ?stop = "(nack_sn nack + ucast (nack_range nack)) mod am_mod sz"
  have e: "?stop < ?m" by (cases sz) (simp_all add: word_mod_less_divisor)
  have n: "sn_next ?m x < ?m" by (rule am_sn.next_less)
  show ?case
  proof (cases "x < ?m")
    case True
    have "uint (sn_dist ?m (sn_next ?m x) ?stop) = uint (sn_dist ?m x ?stop) - 1"
      using am_sn.dist_step(1) [OF True e] 2(1) by auto
    then have "sn_dist ?m (sn_next ?m x) ?stop < sn_dist ?m x ?stop" by (simp add: word_less_def)
    then show ?thesis using True n by (simp add: word_less_nat_alt)
  next
    case False
    then show ?thesis using n am_sn.dist_less [of sz "sn_next ?m x" ?stop] by (simp add: word_less_nat_alt)
  qed
qed

declare nack_range_loop.simps [simp del]

fun process_nacks :: "u32 \<Rightarrow> rlc_am_status_nack list \<Rightarrow> rlc_tx_am_entity \<times> u32 \<Rightarrow>
    ((rlc_tx_am_entity \<times> u32) \<times> tx_am_event list) option" where
  "process_nacks ack_sn [] ep = Some (ep, [])"
| "process_nacks ack_sn (n # ns) ep =
     do {
       (ep1, evs) \<leftarrow> (if has_nack_range n then nack_range_loop (txa_sz (fst ep)) ack_sn n (nack_sn n) ep
                      else nack_and_count n ep);
       (ep2, evs2) \<leftarrow> process_nacks ack_sn ns ep1;
       Some (ep2, evs @ evs2)
     }"

definition stop_poll_timer :: "rlc_am_status_pdu \<Rightarrow> rlc_tx_am_entity \<Rightarrow> rlc_tx_am_entity" where
  "stop_poll_timer status e =
     (if tx_mod_base e (poll_sn (txa_st e)) < tx_mod_base e (sp_ack_sn status)
      then e\<lparr>poll_retransmit_timer := False\<rparr> else e)"

definition handle_status_pdu :: "rlc_rx_am_entity \<Rightarrow> rlc_am_status_pdu \<Rightarrow> rlc_tx_am_entity \<Rightarrow>
    (rlc_tx_am_entity \<times> tx_am_event list) option" where
  "handle_status_pdu rx status e =
     (case status_accepted status e of
        (False, evs) \<Rightarrow> Some (e, evs)
      | (True, evs) \<Rightarrow>
          (case process_acks status (stop_poll_timer status e) of (e1, evs1) \<Rightarrow>
             do {
               e2 \<leftarrow> clear_retx e1;
               ((e3, _), evs2) \<leftarrow> process_nacks (sp_ack_sn status) (sp_nacks status) (e2, INVALID_RLC_SN);
               (e4, evs3) \<leftarrow> update_mac_buffer_state True rx e3;
               Some (e4, evs @ evs1 @ evs2 @ evs3)
             }))"

text \<open>\<open>on_status_pdu\<close> runs it in the cell executor.  The entity's status-changed notification:\<close>

definition on_status_report_changed :: "rlc_tx_am_entity \<Rightarrow> rlc_tx_am_entity \<times> tx_am_event list" where
  "on_status_report_changed e = handle_changed_buffer_state e"

section \<open>t-PollRetransmit\<close>

text \<open>The handler runs after the timer has stopped.\<close>

definition on_expired_poll_retransmit_timer ::
  "rlc_rx_am_entity \<Rightarrow> rlc_tx_am_entity \<Rightarrow> (rlc_tx_am_entity \<times> tx_am_event list) option" where
  "on_expired_poll_retransmit_timer rx e =
     (let e0 = e\<lparr>poll_retransmit_timer := False\<rparr>; sn = tx_next_ack (txa_st e) in
      if \<not> nothing_to_send e0 then Some (e0, [])
      else if cm_empty (tx_window e0) then Some (e0, [])
      else case cm_get (tx_window e0) sn of
        None \<Rightarrow> Some (e0, [])
      | Some i \<Rightarrow>
          do {
            let (q, pushed) = rq_try_push (retx_queue e0) \<lparr>retx_sn = sn, retx_so = 0, retx_length = of_nat (length (tsi_sdu i))\<rparr>;
            let e1 = e0\<lparr>retx_queue := q\<rparr>;
            (e2, evs) \<leftarrow> (if pushed then increment_retx_count sn e1 else Some (e1, []));
            (e3, evs2) \<leftarrow> update_mac_buffer_state True rx e2;
            Some (e3, evs @ evs2)
          })"

end
