(* ===== verification/Rlc_Tx_Am_Inv.thy ===== *)
theory Rlc_Tx_Am_Inv
  imports Rlc_Tx_Am
begin

text \<open>
  The invariant of the RLC AM transmitter, its reachable states, and the properties that hold in them: the shape of
  the transmit window, the absence of failed assertions, the contents of every PDU, and the effect of a status
  report.
\<close>

section \<open>The invariant\<close>

text \<open>
  The bound on the SDUs that are written: a PDCP PDU carries at most 9000 bytes and its overhead.  With it the
  segment offset fits its 16 bits and the totals of the retransmission queue fit their 32 bits.
\<close>

definition max_sdu :: nat where "max_sdu = 32767"

abbreviation under_seg :: "rlc_tx_am_entity \<Rightarrow> bool" where
  "under_seg e \<equiv> sn_under_segmentation e \<noteq> INVALID_RLC_SN"

abbreviation tx_dist :: "rlc_tx_am_entity \<Rightarrow> u32 \<Rightarrow> int" where
  "tx_dist e sn \<equiv> uint (tx_mod_base e sn)"

abbreviation nxt :: "rlc_tx_am_entity \<Rightarrow> u32" where "nxt e \<equiv> tx_next (txa_st e)"

definition sdu_size_ok :: "bytes \<Rightarrow> bool" where
  "sdu_size_ok b \<longleftrightarrow> b \<noteq> [] \<and> length b \<le> max_sdu"

text \<open>A queued retransmission lies within an SDU of the window.\<close>

definition retx_ok :: "rlc_tx_am_sdu_info circular_map \<Rightarrow> rlc_tx_amd_retx \<Rightarrow> bool" where
  "retx_ok w r \<longleftrightarrow> (\<exists>i. cm_get w (retx_sn r) = Some i \<and> 0 < unat (retx_length r) \<and>
     unat (retx_so r) + unat (retx_length r) \<le> length (tsi_sdu i))"

definition tx_vars_ok :: "rlc_tx_am_entity \<Rightarrow> bool" where
  "tx_vars_ok e \<longleftrightarrow> tx_next_ack (txa_st e) < txa_mod e \<and> nxt e < txa_mod e \<and>
     tx_dist e (nxt e) + of_bool (under_seg e) \<le> uint (txa_window_size e)"

text \<open>The window holds the SNs from the lower edge up to \<open>tx_next\<close>, and \<open>tx_next\<close> itself while it is segmented.\<close>

definition in_flight :: "rlc_tx_am_entity \<Rightarrow> u32 \<Rightarrow> bool" where
  "in_flight e sn \<longleftrightarrow> sn < txa_mod e \<and> (tx_dist e sn < tx_dist e (nxt e) \<or> (under_seg e \<and> sn = nxt e))"

definition tx_window_ok :: "rlc_tx_am_entity \<Rightarrow> bool" where
  "tx_window_ok e \<longleftrightarrow> cm_wf (tx_window e) \<and> cm_max_size (tx_window e) = txa_window_size e \<and>
     (\<forall>sn. cm_get (tx_window e) sn \<noteq> None \<longleftrightarrow> in_flight e sn) \<and>
     (\<forall>sn i. cm_get (tx_window e) sn = Some i \<longrightarrow> sdu_size_ok (tsi_sdu i)) \<and>
     (under_seg e \<longrightarrow> sn_under_segmentation e = nxt e \<and>
        (\<forall>i. cm_get (tx_window e) (nxt e) = Some i \<longrightarrow> 0 < unat (next_so i) \<and> unat (next_so i) < length (tsi_sdu i)))"

definition tx_queues_ok :: "rlc_tx_am_entity \<Rightarrow> bool" where
  "tx_queues_ok e \<longleftrightarrow> sq_invar (sdu_queue e) \<and> (\<forall>s \<in> set (sq_view (sdu_queue e)). sdu_size_ok (sdu_buf s)) \<and>
     rq_invar (retx_queue e) \<and> rq_capacity (retx_queue e) = unat (txa_window_size e) \<and>
     length (rq_items (retx_queue e)) \<le> unat (txa_window_size e)"

definition tx_am_inv :: "rlc_tx_am_entity \<Rightarrow> bool" where
  "tx_am_inv e \<longleftrightarrow> tx_vars_ok e \<and> tx_window_ok e \<and> tx_queues_ok e \<and>
     (\<forall>r \<in> set (rq_view (retx_queue e)). retx_ok (tx_window e) r)"

text \<open>What the invariant depends on.\<close>

definition tx_core :: "rlc_tx_am_entity \<Rightarrow>
    rlc_tx_am_config \<times> u32 \<times> u32 \<times> u32 \<times> rlc_tx_am_sdu_info circular_map \<times> rlc_sdu_queue \<times> rlc_retx_queue" where
  "tx_core e = (txa_cfg e, tx_next_ack (txa_st e), tx_next (txa_st e), sn_under_segmentation e, tx_window e,
     sdu_queue e, retx_queue e)"

lemma tx_mod_base_cong:
  "txa_cfg e = txa_cfg e' \<Longrightarrow> tx_next_ack (txa_st e) = tx_next_ack (txa_st e') \<Longrightarrow> tx_mod_base e = tx_mod_base e'"
  by (rule ext) (simp add: tx_mod_base_def)

lemma tx_am_inv_cong: "tx_core e = tx_core e' \<Longrightarrow> tx_am_inv e = tx_am_inv e'"
  using tx_mod_base_cong [of e e']
  by (simp add: tx_core_def tx_am_inv_def tx_vars_ok_def tx_window_ok_def tx_queues_ok_def in_flight_def)

lemma tx_am_inv_core: "tx_core e = tx_core e' \<Longrightarrow> tx_am_inv e' \<Longrightarrow> tx_am_inv e"
  by (drule tx_am_inv_cong) (simp only:)

lemma start_poll_core [simp]: "tx_core (start_poll_retransmit_timer e) = tx_core e"
  by (simp add: start_poll_retransmit_timer_def tx_core_def)

lemma polling_core: "tx_core (fst (get_polling_bit sn r n e)) = tx_core e"
  by (simp add: get_polling_bit_def Let_def) (simp add: tx_core_def)

lemma changed_buffer_state_core: "tx_core (fst (handle_changed_buffer_state e)) = tx_core e"
  by (simp add: handle_changed_buffer_state_def tx_core_def)

section \<open>Creation and the upper-layer interface\<close>

lemma tx_window_sizes: "uint (txa_window_size e) = 2048 \<or> uint (txa_window_size e) = 131072"
  by (cases "txa_sz e") simp_all

lemma tx_am_create_inv: "tx_am_create cfg srb = Some e \<Longrightarrow> tx_am_inv e"
proof -
  assume c: "tx_am_create cfg srb = Some e"
  define n where "n = am_to_number (tx_sn_field_length cfg) - 1"
  have n: "n < 32" "window_size (am_to_number (tx_sn_field_length cfg)) = 2 ^ n"
    by (cases "tx_sn_field_length cfg"; simp add: n_def)+
  obtain cm :: "rlc_tx_am_sdu_info circular_map" where cm: "cm_create (2 ^ n) = Some cm" "cm_wf cm" "cm_max_size cm = 2 ^ n" "\<forall>k. cm_get cm k = None"
    using cm_wf_create [OF n(1)] by blast
  have f: "txa_cfg e = cfg" "tx_next_ack (txa_st e) = 0" "nxt e = 0" "sn_under_segmentation e = INVALID_RLC_SN"
    "tx_window e = cm" "sdu_queue e = sq_create (queue_size cfg) (queue_size_bytes cfg)" "retx_queue e = rq_create (unat (2 ^ n :: u32))"
    using c cm n(2) by (auto simp: tx_am_create_def Let_def split: if_splits)
  have m: "0 < am_mod (tx_sn_field_length cfg)" using am_sn.m_pos by (simp add: word_less_def)
  have d: "tx_mod_base e 0 = 0" by (simp add: tx_mod_base_def f)
  have z: "\<not> uint x < 0" for x :: u32 by (simp add: not_less)
  have "tx_vars_ok e" by (simp add: tx_vars_ok_def f d m)
  moreover have "tx_window_ok e" using cm by (simp add: tx_window_ok_def f in_flight_def d z n(2))
  moreover have "tx_queues_ok e" "rq_view (retx_queue e) = []"
    using rq_create_invar sq_create_invar by (simp_all add: tx_queues_ok_def f n(2)) (simp_all add: rq_create_def)
  ultimately show ?thesis by (simp add: tx_am_inv_def)
qed

lemma handle_sdu_inv:
  assumes inv: "tx_am_inv e" and b: "sdu_size_ok buf" and h: "handle_sdu now buf is_retx e = (e', evs)"
  shows "tx_am_inv e'"
proof -
  define sdu where "sdu = \<lparr>sdu_buf = buf, sdu_is_retx = (if txa_is_srb e \<and> is_retx then False else is_retx),
    sdu_pdcp_sn = get_pdcp_sn buf (tx_pdcp_sn_len (txa_cfg e)) (txa_is_srb e), sdu_time_of_arrival = now\<rparr>"
  have sn: "sdu_sn_ok sdu" using get_pdcp_sn_less by (auto simp: sdu_sn_ok_def sn_ok_def sdu_def)
  obtain q ok where q: "sq_write (sdu_queue e) sdu = (q, ok)" by (rule prod.exhaust)
  have qi: "sq_invar q" "set (sq_view q) \<subseteq> insert sdu (set (sq_view (sdu_queue e)))"
    using sduq.enqueue [OF _ sn q] inv by (auto simp: tx_am_inv_def tx_queues_ok_def split: if_splits)
  have "tx_core e' = tx_core (e\<lparr>sdu_queue := q\<rparr>)"
    using h q changed_buffer_state_core [of "e\<lparr>sdu_queue := q\<rparr>"]
    by (auto simp: handle_sdu_def Let_def sdu_def [symmetric] split: bool.splits)
  then have "tx_am_inv e' = tx_am_inv (e\<lparr>sdu_queue := q\<rparr>)" by (rule tx_am_inv_cong)
  moreover have "tx_am_inv (e\<lparr>sdu_queue := q\<rparr>)"
    using inv qi b tx_mod_base_cong [of "e\<lparr>sdu_queue := q\<rparr>" e]
    by (auto simp: tx_am_inv_def tx_vars_ok_def tx_window_ok_def tx_queues_ok_def in_flight_def sdu_def)
  ultimately show ?thesis by simp
qed

lemma discard_sdu_inv:
  assumes inv: "tx_am_inv e" and sn: "sn_ok sn" and h: "discard_sdu sn e = (e', evs)"
  shows "tx_am_inv e'"
proof -
  obtain q ok where q: "sq_try_discard (sdu_queue e) sn = (q, ok)" by (rule prod.exhaust)
  have qi: "sq_invar q" "set (sq_view q) \<subseteq> set (sq_view (sdu_queue e))"
    using sduq.discard [OF _ sn q] inv by (auto simp: tx_am_inv_def tx_queues_ok_def)
  have "tx_core e' = tx_core (e\<lparr>sdu_queue := q\<rparr>)"
    using h q changed_buffer_state_core [of "e\<lparr>sdu_queue := q\<rparr>"]
    by (auto simp: discard_sdu_def split: bool.splits)
  then have "tx_am_inv e' = tx_am_inv (e\<lparr>sdu_queue := q\<rparr>)" by (rule tx_am_inv_cong)
  moreover have "tx_am_inv (e\<lparr>sdu_queue := q\<rparr>)"
    using inv qi tx_mod_base_cong [of "e\<lparr>sdu_queue := q\<rparr>" e]
    by (auto simp: tx_am_inv_def tx_vars_ok_def tx_window_ok_def tx_queues_ok_def in_flight_def)
  ultimately show ?thesis by simp
qed

section \<open>Building PDUs\<close>

lemma max_sdu_u16: "n \<le> max_sdu \<Longrightarrow> n < 2 ^ 16" "n \<le> max_sdu \<Longrightarrow> n < 2 ^ 32"
  by (simp_all add: max_sdu_def)

lemma unat_ucast_u16: "unat (so :: u32) \<le> max_sdu \<Longrightarrow> unat (ucast so :: u16) = unat so"
  using max_sdu_u16 [of "unat so"] by (simp add: unsigned_ucast_eq take_bit_nat_eq_self)

lemma am_header_length:
  "length (rlc_am_write_data_pdu_header h) =
    (if am_so h = 0 then rlc_am_pdu_header_min_size (am_sn_size h) else rlc_am_pdu_header_max_size (am_sn_size h))"
  by (cases "am_sn_size h") (simp_all add: rlc_am_write_data_pdu_header_def rlc_am_pdu_header_max_size_def Let_def)

text \<open>A segment inside the SDU that fits the grant is written in full.\<close>

lemma assemble_segment_fits:
  assumes "unat so + unat len \<le> length sdu" "length sdu \<le> max_sdu" "0 < unat len"
    and "length (rlc_am_write_data_pdu_header (data_header e p si sn so)) + unat len \<le> grant"
  shows "assemble_segment (data_header e p si sn so) sdu len grant =
    Some (rlc_am_write_data_pdu_header (data_header e p si sn so) @ take (unat len) (drop (unat so) sdu))"
proof -
  have so: "unat (am_so (data_header e p si sn so)) = unat so"
    using assms(1,2) by (simp add: data_header_def unat_ucast_u16)
  have "min (length sdu - unat so) (unat len) = unat len" using assms(1) by simp
  then show ?thesis using assms
    by (simp add: assemble_segment_def Let_def so buffer_view_def copy_segments_def)
qed

lemma header_size_cases [simp]:
  "2 \<le> head_min_size e" "head_max_size e = head_min_size e + 2"
  by (cases "txa_sz e"; simp add: rlc_am_pdu_header_max_size_def)+

lemma data_header_length:
  assumes "unat so \<le> max_sdu"
  shows "length (rlc_am_write_data_pdu_header (data_header e p si sn so)) =
    (if so = 0 then head_min_size e else head_max_size e)"
proof -
  have "ucast so = (0 :: u16) \<longleftrightarrow> so = 0"
    using unat_ucast_u16 [OF assms] by (metis unsigned_0 unsigned_eq_0_iff)
  then show ?thesis by (simp add: am_header_length data_header_def)
qed

text \<open>The PDU that carries \<open>payload\<close>, the bytes of \<open>sdu\<close> from \<open>so\<close> on, under the SN \<open>sn\<close>.\<close>

definition segment_si :: "nat \<Rightarrow> nat \<Rightarrow> nat \<Rightarrow> rlc_si_field" where
  "segment_si so len sdu_len =
     (if so = 0 then (if len = sdu_len then full_sdu else first_segment)
      else (if so + len = sdu_len then last_segment else middle_segment))"

definition am_pdu_of :: "rlc_am_sn_size \<Rightarrow> u32 \<Rightarrow> bytes \<Rightarrow> nat \<Rightarrow> bytes \<Rightarrow> bytes \<Rightarrow> bool" where
  "am_pdu_of sz sn sdu so payload pdu \<longleftrightarrow>
     payload \<noteq> [] \<and> so + length payload \<le> length sdu \<and> payload = take (length payload) (drop so sdu) \<and>
     (\<exists>p \<le> 1. pdu = rlc_am_write_data_pdu_header \<lparr>am_dc = dc_data, am_p = p,
        am_si = segment_si so (length payload) (length sdu), am_sn_size = sz, am_sn = sn, am_so = of_nat so\<rparr> @ payload)"

lemma assemble_segment_am_pdu:
  assumes len: "unat so + unat len \<le> length sdu" "length sdu \<le> max_sdu" "0 < unat len"
    and fit: "(if so = 0 then head_min_size e else head_max_size e) + unat len \<le> grant"
    and si: "si = segment_si (unat so) (unat len) (length sdu)" and p: "p \<le> 1"
  shows "\<exists>pdu. assemble_segment (data_header e p si sn so) sdu len grant = Some pdu \<and> length pdu \<le> grant \<and> pdu \<noteq> [] \<and>
    am_pdu_of (txa_sz e) sn sdu (unat so) (take (unat len) (drop (unat so) sdu)) pdu"
proof -
  let ?h = "data_header e p si sn so" and ?pl = "take (unat len) (drop (unat so) sdu)"
  have so: "unat so \<le> max_sdu" using len by simp
  have hl: "length (rlc_am_write_data_pdu_header ?h) = (if so = 0 then head_min_size e else head_max_size e)"
    by (rule data_header_length [OF so])
  have a: "assemble_segment ?h sdu len grant = Some (rlc_am_write_data_pdu_header ?h @ ?pl)"
    by (rule assemble_segment_fits [OF len(1-3)]) (use hl fit in simp)
  have pl: "length ?pl = unat len" using len by simp
  have h: "?h = \<lparr>am_dc = dc_data, am_p = p, am_si = segment_si (unat so) (length ?pl) (length sdu), am_sn_size = txa_sz e,
      am_sn = sn, am_so = of_nat (unat so)\<rparr>"
    unfolding pl by (simp add: data_header_def si)
  have "am_pdu_of (txa_sz e) sn sdu (unat so) ?pl (rlc_am_write_data_pdu_header ?h @ ?pl)"
    unfolding am_pdu_of_def h [symmetric] using len p pl h by (auto intro!: exI [of _ p])
  moreover have "rlc_am_write_data_pdu_header ?h @ ?pl \<noteq> []" "length (rlc_am_write_data_pdu_header ?h @ ?pl) \<le> grant"
    using fit hl pl len by auto
  ultimately show ?thesis using a by blast
qed

section \<open>The window\<close>

lemma tx_dist_m: "tx_dist e sn < uint (txa_mod e)"
  by (simp add: tx_mod_base_def am_sn.dist_less_m)

lemma tx_dist_next:
  assumes "tx_dist e sn < uint (txa_window_size e)"
  shows "tx_dist e (sn_next (txa_mod e) sn) = tx_dist e sn + 1"
proof -
  have "tx_dist e sn + 1 < uint (txa_mod e)" using assms am_window_half [of "txa_sz e"] tx_window_sizes [of e] by linarith
  then show ?thesis by (simp add: tx_mod_base_def am_sn.uint_dist_next)
qed

lemma tx_dist_inj: "x < txa_mod e \<Longrightarrow> y < txa_mod e \<Longrightarrow> tx_dist e x = tx_dist e y \<Longrightarrow> x = y"
  using am_sn.dist_inj [of x "txa_sz e" y "tx_next_ack (txa_st e)"] by (simp add: tx_mod_base_def)

lemma tx_sn_not_invalid: "sn < txa_mod e \<Longrightarrow> sn \<noteq> INVALID_RLC_SN"
  by (cases "txa_sz e") (auto simp: INVALID_RLC_SN_def)

lemma in_flight_iff:
  assumes "tx_vars_ok e" "under_seg e \<longrightarrow> sn_under_segmentation e = nxt e"
  shows "in_flight e sn \<longleftrightarrow> sn < txa_mod e \<and> tx_dist e sn < tx_dist e (nxt e) + of_bool (under_seg e)"
proof -
  have "sn < txa_mod e \<Longrightarrow> tx_dist e sn = tx_dist e (nxt e) \<Longrightarrow> sn = nxt e"
    using assms(1) tx_dist_inj by (auto simp: tx_vars_ok_def)
  then show ?thesis using assms(1) by (auto simp: in_flight_def tx_vars_ok_def order_le_less)
qed

lemma tx_window_count:
  assumes "tx_vars_ok e" "tx_window_ok e"
  shows "int (cm_count (tx_window e)) = tx_dist e (nxt e) + of_bool (under_seg e)"
proof -
  let ?n = "tx_dist e (nxt e) + of_bool (under_seg e)"
  have keys: "{k. cm_get (tx_window e) k \<noteq> None} = {x. x < txa_mod e \<and> tx_dist e x < ?n}"
    using assms in_flight_iff [OF assms(1)] by (auto simp: tx_window_ok_def)
  have "?n \<le> uint (txa_mod e)" using assms(1) am_window_half [of "txa_sz e"] uint_ge_0 [of "txa_window_size e"]
    unfolding tx_vars_ok_def by linarith
  then have "card {x. x < txa_mod e \<and> tx_dist e x < ?n} = nat ?n"
    unfolding tx_mod_base_def by (intro am_sn.card_dist_below) simp_all
  moreover have "cm_count (tx_window e) = card {k. cm_get (tx_window e) k \<noteq> None}"
    by (rule cmw.count_keys) (use assms(2) in \<open>simp add: tx_window_ok_def\<close>)
  ultimately have "cm_count (tx_window e) = nat ?n" unfolding keys by (simp only:)
  then show ?thesis by simp
qed

lemma tx_window_not_full:
  assumes "tx_vars_ok e" "tx_window_ok e" "\<not> is_tx_window_full e"
  shows "tx_dist e (nxt e) + of_bool (under_seg e) < uint (txa_window_size e)"
proof -
  have "cm_count (tx_window e) \<noteq> unat (txa_window_size e)"
    using assms(2,3) by (simp add: is_tx_window_full_def cm_full_def tx_window_ok_def)
  then have "int (cm_count (tx_window e)) \<noteq> int (unat (txa_window_size e))" by (metis of_nat_eq_iff)
  then have "int (cm_count (tx_window e)) \<noteq> uint (txa_window_size e)" by (metis uint_nat)
  then show ?thesis using tx_window_count [OF assms(1,2)] assms(1) unfolding tx_vars_ok_def by linarith
qed

text \<open>A new SN at the upper end, and changes of one entry.\<close>

lemma tx_window_put:
  assumes ok: "tx_vars_ok e" "tx_window_ok e" and free: "\<not> under_seg e" "\<not> is_tx_window_full e"
  shows "cm_get (cm_overwrite (tx_window e) (nxt e) i) = (cm_get (tx_window e))(nxt e \<mapsto> i)"
    "add_sn (tx_window e) (nxt e) i = Some (cm_overwrite (tx_window e) (nxt e) i)"
proof -
  let ?w = "tx_window e"
  have wf: "cm_wf ?w" "uint (cm_max_size ?w) = uint (txa_window_size e)" using ok(2) by (simp_all add: tx_window_ok_def)
  have lt: "tx_dist e (nxt e) < uint (txa_window_size e)" using tx_window_not_full [OF ok free(2)] free(1) by simp
  have span: "cmw.spans (txa_mod e) (tx_next_ack (txa_st e)) ?w"
    unfolding cmw.spans_def
  proof (intro allI impI)
    fix k
    assume "cm_get ?w k \<noteq> None"
    then have "in_flight e k" using ok(2) by (simp add: tx_window_ok_def)
    then have "k < txa_mod e" "tx_dist e k < tx_dist e (nxt e)" using free(1) by (auto simp: in_flight_def)
    then show "k < txa_mod e \<and> uint (sn_dist (txa_mod e) (tx_next_ack (txa_st e)) k) < uint (cm_max_size ?w)"
      using lt wf(2) unfolding tx_mod_base_def by linarith
  qed
  show "cm_get (cm_overwrite ?w (nxt e) i) = (cm_get ?w)(nxt e \<mapsto> i)"
  proof (rule cmw.get_put_span [OF am_sn.sn_space_axioms _ wf(1) span])
    show "uint (cm_max_size ?w) dvd uint (txa_mod e)" by (simp add: wf(2) am_window_half)
    show "nxt e < txa_mod e" using ok(1) by (simp add: tx_vars_ok_def)
    show "uint (sn_dist (txa_mod e) (tx_next_ack (txa_st e)) (nxt e)) < uint (cm_max_size ?w)"
      using lt wf(2) by (simp add: tx_mod_base_def)
  qed
  have "\<not> in_flight e (nxt e)" using free(1) by (simp add: in_flight_def)
  then have "\<not> has_sn ?w (nxt e)" using ok(2) by (simp add: tx_window_ok_def cm_contains_get)
  then show "add_sn ?w (nxt e) i = Some (cm_overwrite ?w (nxt e) i)" by (rule add_sn_Some)
qed

lemma in_flight_cong:
  "tx_core e = tx_core e' \<Longrightarrow> in_flight e = in_flight e'"
  using tx_mod_base_cong [of e e'] by (intro ext) (simp add: tx_core_def in_flight_def)

text \<open>The parts of the invariant that survive a change of entries which keeps their SDUs.\<close>

lemma retx_ok_mono:
  "retx_ok w r \<Longrightarrow> (\<And>i. cm_get w (retx_sn r) = Some i \<Longrightarrow> \<exists>i'. cm_get w' (retx_sn r) = Some i' \<and> tsi_sdu i' = tsi_sdu i) \<Longrightarrow>
    retx_ok w' r"
  unfolding retx_ok_def by metis

lemma window_modify_inv:
  assumes inv: "tx_am_inv e" and sdu: "\<And>i. tsi_sdu (f i) = tsi_sdu i"
    and so: "\<And>i. under_seg e \<Longrightarrow> sn = nxt e \<Longrightarrow> cm_get (tx_window e) sn = Some i \<Longrightarrow>
      0 < unat (next_so (f i)) \<and> unat (next_so (f i)) < length (tsi_sdu i)"
  shows "tx_am_inv (window_modify sn f e)"
proof -
  let ?e = "window_modify sn f e"
  have f: "txa_cfg ?e = txa_cfg e" "txa_st ?e = txa_st e" "sn_under_segmentation ?e = sn_under_segmentation e"
    "sdu_queue ?e = sdu_queue e" "retx_queue ?e = retx_queue e" "tx_window ?e = cm_modify (tx_window e) sn f"
    by (simp_all add: window_modify_def)
  have b: "tx_mod_base ?e = tx_mod_base e" by (rule tx_mod_base_cong) (simp_all add: f)
  have fl: "in_flight ?e = in_flight e" by (rule ext) (simp add: in_flight_def b f)
  have "tx_vars_ok ?e" "tx_queues_ok ?e" using inv by (simp_all add: tx_am_inv_def tx_vars_ok_def tx_queues_ok_def b f)
  moreover have "tx_window_ok ?e"
    using inv sdu so unfolding tx_window_ok_def fl f
    by (auto simp: tx_am_inv_def tx_window_ok_def cm_get_modify cm_wf_modify split: if_splits)
  moreover have "retx_ok (tx_window ?e) r" if "r \<in> set (rq_view (retx_queue ?e))" for r
    by (rule retx_ok_mono [of "tx_window e"]) (use inv that sdu in \<open>auto simp: tx_am_inv_def f cm_get_modify\<close>)
  ultimately show ?thesis by (simp add: tx_am_inv_def)
qed

text \<open>The two ways a new SDU enters the window: whole, or under segmentation.\<close>

definition queue_shrunk :: "rlc_sdu_queue \<Rightarrow> rlc_sdu_queue \<Rightarrow> bool" where
  "queue_shrunk q q' \<longleftrightarrow> sq_invar q' \<and> set (sq_view q') \<subseteq> set (sq_view q)"

lemma new_sdu_inv:
  assumes inv: "tx_am_inv e" and free: "\<not> under_seg e" "\<not> is_tx_window_full e"
    and q: "queue_shrunk (sdu_queue e) (sdu_queue e')"
    and w: "cm_get (tx_window e') = (cm_get (tx_window e))(nxt e \<mapsto> i)" "cm_wf (tx_window e')"
      "cm_max_size (tx_window e') = cm_max_size (tx_window e)"
    and i: "sdu_size_ok (tsi_sdu i)"
    and same: "txa_cfg e' = txa_cfg e" "tx_next_ack (txa_st e') = tx_next_ack (txa_st e)" "retx_queue e' = retx_queue e"
    and upper: "(sn_under_segmentation e' = nxt e \<and> nxt e' = nxt e \<and> 0 < unat (next_so i) \<and> unat (next_so i) < length (tsi_sdu i)) \<or>
      (\<not> under_seg e' \<and> nxt e' = sn_next (txa_mod e) (nxt e))"
  shows "tx_am_inv e'"
proof -
  have ok: "tx_vars_ok e" "tx_window_ok e" "tx_queues_ok e" using inv by (simp_all add: tx_am_inv_def)
  have b: "tx_mod_base e' = tx_mod_base e" by (rule tx_mod_base_cong) (simp_all add: same)
  have lt: "tx_dist e (nxt e) < uint (txa_window_size e)" using tx_window_not_full [OF ok(1,2) free(2)] free(1) by simp
  have nm: "nxt e < txa_mod e" using ok(1) by (simp add: tx_vars_ok_def)
  have us: "under_seg e' \<longleftrightarrow> nxt e' = nxt e" "under_seg e' \<longrightarrow> sn_under_segmentation e' = nxt e'"
  proof -
    have "sn_next (txa_mod e) (nxt e) \<noteq> nxt e" using tx_dist_next [OF lt] by force
    then show "under_seg e' \<longleftrightarrow> nxt e' = nxt e" "under_seg e' \<longrightarrow> sn_under_segmentation e' = nxt e'"
      using upper tx_sn_not_invalid [OF nm] by auto
  qed
  have d: "tx_dist e (nxt e') + of_bool (under_seg e') = tx_dist e (nxt e) + 1"
    using upper us tx_dist_next [OF lt] by auto
  have vars: "tx_vars_ok e'"
    using ok(1) lt upper d by (auto simp: tx_vars_ok_def b same am_sn.next_less)
  have fl: "in_flight e' sn \<longleftrightarrow> in_flight e sn \<or> sn = nxt e" for sn
    using in_flight_iff [OF vars us(2)] in_flight_iff [OF ok(1)] ok(2) free(1) nm tx_dist_inj [of sn e "nxt e"] d
    by (auto simp: tx_window_ok_def b same)
  have "tx_window_ok e'"
    using ok(2) w i upper us(2) free(1) fl by (auto simp: tx_window_ok_def same)
  moreover have "tx_queues_ok e'" using ok(3) q by (auto simp: tx_queues_ok_def same queue_shrunk_def)
  moreover have "retx_ok (tx_window e') r" if "r \<in> set (rq_view (retx_queue e'))" for r
  proof -
    have r: "retx_ok (tx_window e) r" using inv that by (simp add: tx_am_inv_def same)
    moreover have "cm_get (tx_window e) (nxt e) = None"
      using ok(2) free(1) by (cases "cm_get (tx_window e) (nxt e)") (force simp: tx_window_ok_def in_flight_def)+
    ultimately show ?thesis by (auto simp: retx_ok_def w)
  qed
  ultimately show ?thesis using vars by (simp add: tx_am_inv_def)
qed

lemma tx_coreD:
  assumes "tx_core e = tx_core e'"
  shows "txa_cfg e = txa_cfg e'" "tx_next_ack (txa_st e) = tx_next_ack (txa_st e')" "nxt e = nxt e'"
    "sn_under_segmentation e = sn_under_segmentation e'" "tx_window e = tx_window e'"
    "sdu_queue e = sdu_queue e'" "retx_queue e = retx_queue e'"
  using assms by (simp_all add: tx_core_def)

lemma polling_bit_le: "snd (get_polling_bit sn r n e) \<le> 1"
  by (simp add: get_polling_bit_def Let_def)

lemma build_first_sdu_segment_ok:
  assumes sdu: "length (tsi_sdu i) \<le> max_sdu" "next_so i = 0"
    and grant: "head_min_size e < grant" "grant < length (tsi_sdu i) + head_min_size e"
  shows "\<exists>e' pdu. build_first_sdu_segment grant i e = Some (e', pdu) \<and> length pdu \<le> grant \<and> pdu \<noteq> [] \<and>
    am_pdu_of (txa_sz e) (nxt e) (tsi_sdu i) 0 (take (grant - head_min_size e) (tsi_sdu i)) pdu \<and>
    tx_core e' = tx_core (e\<lparr>sn_under_segmentation := nxt e,
      tx_window := cm_modify (tx_window e) (nxt e) (\<lambda>i. i\<lparr>next_so := next_so i + of_nat (grant - head_min_size e)\<rparr>)\<rparr>)"
proof -
  let ?n = "grant - head_min_size e" and ?l = "of_nat (grant - head_min_size e) :: u32"
  have l: "unat ?l = ?n" by (rule unat_of_nat_u32, rule max_sdu_u16) (use grant sdu(1) in simp)
  let ?e1 = "e\<lparr>sn_under_segmentation := nxt e\<rparr>"
  obtain e2 p where g: "get_polling_bit (nxt e) False ?l ?e1 = (e2, p)" by (rule prod.exhaust)
  have c: "tx_core e2 = tx_core ?e1" "p \<le> 1"
    using polling_core [of "nxt e" False ?l ?e1] polling_bit_le [of "nxt e" False ?l ?e1] by (simp_all add: g)
  have sz: "txa_sz e2 = txa_sz e" using tx_coreD(1) [OF c(1)] by simp
  obtain pdu where a: "assemble_segment (data_header e2 p first_segment (nxt e) 0) (tsi_sdu i) ?l grant = Some pdu"
    "length pdu \<le> grant" "pdu \<noteq> []" "am_pdu_of (txa_sz e2) (nxt e) (tsi_sdu i) 0 (take ?n (tsi_sdu i)) pdu"
    using assemble_segment_am_pdu [of 0 ?l "tsi_sdu i" e2 grant first_segment p "nxt e"] l sz sdu c(2) grant
    by (auto simp: segment_si_def)
  have "tx_core (window_modify (nxt e) f e2) =
      tx_core (e\<lparr>sn_under_segmentation := nxt e, tx_window := cm_modify (tx_window e) (nxt e) f\<rparr>)" for f
    using c(1) by (simp add: tx_core_def window_modify_def)
  then show ?thesis using grant sdu g a
    by (simp add: build_first_sdu_segment_def Let_def sz)
qed

lemma am_pdu_of_full:
  assumes "sdu \<noteq> []" "p \<le> 1"
  shows "am_pdu_of (txa_sz e) sn sdu 0 sdu (rlc_am_write_data_pdu_header (data_header e p full_sdu sn 0) @ sdu)"
  using assms by (auto simp: am_pdu_of_def segment_si_def data_header_def intro!: exI [of _ p])

lemma build_new_pdu_ok:
  assumes inv: "tx_am_inv e" and free: "\<not> under_seg e"
  shows "\<exists>e' evs pdu. build_new_pdu grant e = Some (e', evs, pdu) \<and> tx_am_inv e' \<and> length pdu \<le> grant \<and>
    (pdu = [] \<longleftrightarrow> grant \<le> head_min_size e \<or> is_tx_window_full e \<or> sq_view (sdu_queue e) = []) \<and>
    (pdu \<noteq> [] \<longrightarrow> (\<exists>s. sq_view (sdu_queue e) = s # sq_view (sdu_queue e') \<and>
       am_pdu_of (txa_sz e) (nxt e) (sdu_buf s) 0 (take (grant - head_min_size e) (sdu_buf s)) pdu \<and>
       map_option tsi_sdu (cm_get (tx_window e') (nxt e)) = Some (sdu_buf s)))"
proof -
  have ok: "tx_vars_ok e" "tx_window_ok e" "sq_invar (sdu_queue e)" using inv by (simp_all add: tx_am_inv_def tx_queues_ok_def)
  consider (small) "grant \<le> head_min_size e \<or> is_tx_window_full e"
    | (go) "head_min_size e < grant" "\<not> is_tx_window_full e" by fastforce
  then show ?thesis
  proof cases
    case small
    then show ?thesis using inv by (auto simp: build_new_pdu_def)
  next
    case go
    obtain q r where rd: "sq_read (sdu_queue e) = (q, r)" by (rule prod.exhaust)
    have qs: "queue_shrunk (sdu_queue e) q" using sduq.dequeue_keeps [OF ok(3) rd] by (simp add: queue_shrunk_def)
    show ?thesis
    proof (cases r)
      case None
      have "tx_am_inv (e\<lparr>sdu_queue := q\<rparr>)"
        using inv qs tx_mod_base_cong [of "e\<lparr>sdu_queue := q\<rparr>" e]
        by (auto simp: tx_am_inv_def tx_vars_ok_def tx_window_ok_def tx_queues_ok_def in_flight_def queue_shrunk_def)
      then show ?thesis using go rd None sduq.dequeue_none [OF ok(3)] by (auto simp: build_new_pdu_def)
    next
      case (Some s)
      have view: "sq_view (sdu_queue e) = s # sq_view q" using sduq.dequeue_some [OF ok(3)] rd Some by simp
      have sz: "sdu_size_ok (sdu_buf s)" using inv view by (simp add: tx_am_inv_def tx_queues_ok_def)
      define i where "i = \<lparr>tsi_sdu = sdu_buf s, tsi_is_retx = sdu_is_retx s, tsi_pdcp_sn = sdu_pdcp_sn s,
        tsi_time_of_arrival = sdu_time_of_arrival s, next_so = 0, retx_count = RETX_COUNT_NOT_STARTED\<rparr>"
      have i: "tsi_sdu i = sdu_buf s" "next_so i = 0" by (simp_all add: i_def)
      define w where "w = cm_overwrite (tx_window e) (nxt e) i"
      have w: "cm_get w = (cm_get (tx_window e))(nxt e \<mapsto> i)" "add_sn (tx_window e) (nxt e) i = Some w" "cm_wf w"
        "cm_max_size w = cm_max_size (tx_window e)"
        using tx_window_put [OF ok(1,2) free go(2), of i] ok(2) by (simp_all add: w_def tx_window_ok_def cm_wf_overwrite)
      let ?e1 = "e\<lparr>sdu_queue := q, tx_window := w\<rparr>"
      let ?evs = "case sdu_pdcp_sn s of Some psn \<Rightarrow> [if sdu_is_retx s then On_retransmitted_sdu psn
          else On_transmitted_sdu psn (queue_size_bytes (txa_cfg e))] | None \<Rightarrow> []"
      show ?thesis
      proof (cases "length (sdu_buf s) + head_min_size e > grant")
        case True
        let ?l = "of_nat (grant - head_min_size e) :: u32"
        have l: "unat ?l = grant - head_min_size e"
        proof (rule unat_of_nat_u32, rule max_sdu_u16)
          have "length (sdu_buf s) \<le> max_sdu" using sz by (simp add: sdu_size_ok_def)
          then show "grant - head_min_size e \<le> max_sdu" using True by linarith
        qed
        obtain e' pdu where b: "build_first_sdu_segment grant i ?e1 = Some (e', pdu)" "length pdu \<le> grant" "pdu \<noteq> []"
          "am_pdu_of (txa_sz e) (nxt e) (sdu_buf s) 0 (take (grant - head_min_size e) (sdu_buf s)) pdu"
          "tx_core e' = tx_core (?e1\<lparr>sn_under_segmentation := nxt e,
            tx_window := cm_modify w (nxt e) (\<lambda>i. i\<lparr>next_so := next_so i + ?l\<rparr>)\<rparr>)"
          using build_first_sdu_segment_ok [of i ?e1 grant] i sz go(1) True by (auto simp: sdu_size_ok_def)
        note c = tx_coreD [OF b(5)]
        have "tx_am_inv e'"
        proof (rule new_sdu_inv [OF inv free go(2), of e' "i\<lparr>next_so := ?l\<rparr>"])
          show "queue_shrunk (sdu_queue e) (sdu_queue e')" using qs c by simp
          show "cm_get (tx_window e') = (cm_get (tx_window e))(nxt e \<mapsto> i\<lparr>next_so := ?l\<rparr>)"
            using c w(1) i(2) by (auto simp: cm_get_modify)
          show "cm_wf (tx_window e')" "cm_max_size (tx_window e') = cm_max_size (tx_window e)"
            using c w by (simp_all add: cm_wf_modify)
          show "(sn_under_segmentation e' = nxt e \<and> nxt e' = nxt e \<and> 0 < unat (next_so (i\<lparr>next_so := ?l\<rparr>)) \<and>
              unat (next_so (i\<lparr>next_so := ?l\<rparr>)) < length (tsi_sdu (i\<lparr>next_so := ?l\<rparr>))) \<or>
            (\<not> under_seg e' \<and> nxt e' = sn_next (txa_mod e) (nxt e))"
          proof -
            have "grant - head_min_size e < length (sdu_buf s)" using True go(1) by linarith
            then show ?thesis using c l go(1) i by simp
          qed
        qed (use c i sz in simp_all)
        moreover have "build_new_pdu grant e = Some (e', ?evs, pdu)"
          using go rd Some True b w(2) by (simp add: build_new_pdu_def Let_def i_def)
        moreover have "map_option tsi_sdu (cm_get (tx_window e') (nxt e)) = Some (sdu_buf s)"
          using c w(1) i by (simp add: cm_get_modify)
        ultimately show ?thesis using b view go c by auto
      next
        case False
        obtain e2 p where g: "get_polling_bit (nxt e) False 0 ?e1 = (e2, p)" by (rule prod.exhaust)
        have c: "tx_core e2 = tx_core ?e1" "p \<le> 1"
          using polling_core [of "nxt e" False 0 ?e1] polling_bit_le [of "nxt e" False 0 ?e1] by (simp_all add: g)
        note c2 = tx_coreD [OF c(1)]
        let ?h = "rlc_am_write_data_pdu_header (data_header e2 p full_sdu (nxt e) 0)"
        have hl: "length ?h = head_min_size e" using data_header_length [of 0 e2] c2(1) by simp
        have pl: "copy_segments (sdu_buf s) (grant - length ?h) = sdu_buf s" "sdu_buf s \<noteq> []"
          using False hl sz by (simp_all add: copy_segments_def sdu_size_ok_def)
        have b: "build_new_pdu grant e = Some (advance_tx_next e2, ?evs, ?h @ sdu_buf s)"
          using go rd Some False w(2) g pl by (simp add: build_new_pdu_def Let_def i_def)
        have "tx_am_inv (advance_tx_next e2)"
          by (rule new_sdu_inv [OF inv free go(2), of "advance_tx_next e2" i])
            (use qs c2 w i sz free in \<open>simp_all add: advance_tx_next_def\<close>)
        moreover have "am_pdu_of (txa_sz e) (nxt e) (sdu_buf s) 0 (take (grant - head_min_size e) (sdu_buf s)) (?h @ sdu_buf s)"
          using am_pdu_of_full [OF pl(2) c(2), of e2 "nxt e"] c2(1) False by simp
        moreover have "sdu_queue (advance_tx_next e2) = q" using c2 by (simp add: advance_tx_next_def)
        moreover have "map_option tsi_sdu (cm_get (tx_window (advance_tx_next e2)) (nxt e)) = Some (sdu_buf s)"
          using c2 w(1) i by (simp add: advance_tx_next_def)
        ultimately show ?thesis using b hl False view go pl(2) by auto
      qed
    qed
  qed
qed

text \<open>The last segment of the SDU under segmentation.\<close>

lemma finish_sdu_inv:
  assumes inv: "tx_am_inv e" and us: "under_seg e"
  shows "tx_am_inv (advance_tx_next (e\<lparr>sn_under_segmentation := INVALID_RLC_SN\<rparr>))"
proof -
  let ?e = "advance_tx_next (e\<lparr>sn_under_segmentation := INVALID_RLC_SN\<rparr>)"
  have ok: "tx_vars_ok e" "tx_window_ok e" using inv by (simp_all add: tx_am_inv_def)
  have f: "txa_cfg ?e = txa_cfg e" "tx_next_ack (txa_st ?e) = tx_next_ack (txa_st e)" "nxt ?e = sn_next (txa_mod e) (nxt e)"
    "sn_under_segmentation ?e = INVALID_RLC_SN" "tx_window ?e = tx_window e" "sdu_queue ?e = sdu_queue e" "retx_queue ?e = retx_queue e"
    by (simp_all add: advance_tx_next_def)
  have b: "tx_mod_base ?e = tx_mod_base e" by (rule tx_mod_base_cong) (simp_all add: f)
  have n: "tx_dist e (sn_next (txa_mod e) (nxt e)) = tx_dist e (nxt e) + 1"
    by (rule tx_dist_next) (use ok(1) us in \<open>simp add: tx_vars_ok_def\<close>)
  have vars: "tx_vars_ok ?e" using ok(1) us n by (simp add: tx_vars_ok_def b f am_sn.next_less)
  have "in_flight ?e = in_flight e"
    using in_flight_iff [OF vars] in_flight_iff [OF ok(1)] ok(2) us n by (intro ext) (simp add: tx_window_ok_def b f)
  then have "tx_window_ok ?e" using ok(2) by (simp add: tx_window_ok_def f)
  then show ?thesis using inv vars by (simp add: tx_am_inv_def tx_queues_ok_def f)
qed

lemma build_continued_sdu_segment_ok:
  assumes inv: "tx_am_inv e" and us: "under_seg e" and i: "cm_get (tx_window e) (nxt e) = Some i"
  shows "\<exists>e' pdu. build_continued_sdu_segment grant i e = Some (e', pdu) \<and> tx_am_inv e' \<and> length pdu \<le> grant \<and>
    (pdu = [] \<longleftrightarrow> grant \<le> head_max_size e) \<and>
    map_option tsi_sdu (cm_get (tx_window e') (nxt e)) = Some (tsi_sdu i) \<and>
    (pdu \<noteq> [] \<longrightarrow> am_pdu_of (txa_sz e) (nxt e) (tsi_sdu i) (unat (next_so i))
       (take (grant - head_max_size e) (drop (unat (next_so i)) (tsi_sdu i))) pdu)"
proof (cases "grant \<le> head_max_size e")
  case True
  have "0 < unat (next_so i)" "unat (next_so i) < length (tsi_sdu i)"
    using inv us i by (auto simp: tx_am_inv_def tx_window_ok_def)
  then show ?thesis using True inv i by (auto simp: build_continued_sdu_segment_def Let_def)
next
  case False
  let ?so = "next_so i" and ?len = "length (tsi_sdu i)"
  have so: "0 < unat ?so" "unat ?so < ?len" and sn: "sn_under_segmentation e = nxt e" and ms: "?len \<le> max_sdu"
    using inv us i by (auto simp: tx_am_inv_def tx_window_ok_def sdu_size_ok_def)
  let ?rest = "of_nat ?len - ?so :: u32"
  let ?middle = "unat (?rest + of_nat (head_max_size e)) > grant"
  let ?l = "if ?middle then of_nat (grant - head_max_size e) else ?rest"
  have u: "unat (of_nat ?len :: u32) = ?len" by (rule unat_of_nat_u32, rule max_sdu_u16) (rule ms)
  have rest: "unat ?rest = ?len - unat ?so" using so by (simp add: unat_sub_if' u)
  have hm: "head_max_size e \<le> 5" by (cases "txa_sz e") (simp_all add: rlc_am_pdu_header_max_size_def)
  have r: "?rest + of_nat (head_max_size e) = of_nat (?len - unat ?so + head_max_size e)"
    unfolding of_nat_add rest [symmetric] by simp
  have "?len - unat ?so + head_max_size e < 2 ^ 32"
    using hm ms diff_le_self [of ?len "unat ?so"] by (simp add: max_sdu_def del: header_size_cases)
  then have "unat (of_nat (?len - unat ?so + head_max_size e) :: u32) = ?len - unat ?so + head_max_size e"
    by (rule unat_of_nat_u32)
  then have mid: "?middle \<longleftrightarrow> grant < ?len - unat ?so + head_max_size e" unfolding r by (simp only:)
  have l: "unat ?l = min (grant - head_max_size e) (?len - unat ?so)"
  proof (cases ?middle)
    case True
    then have "grant - head_max_size e \<le> max_sdu" using mid ms by linarith
    then have "unat (of_nat (grant - head_max_size e) :: u32) = grant - head_max_size e" by (intro unat_of_nat_u32 max_sdu_u16)
    then show ?thesis using True mid by (simp only: if_True)
  next
    case False
    then show ?thesis using rest mid by simp
  qed
  let ?si = "if ?middle then middle_segment else last_segment"
  let ?e1 = "if ?middle then e else e\<lparr>sn_under_segmentation := INVALID_RLC_SN\<rparr>"
  obtain e2 p where g: "get_polling_bit (nxt e) False ?l ?e1 = (e2, p)" by (rule prod.exhaust)
  have c: "tx_core e2 = tx_core ?e1" "p \<le> 1"
    using polling_core [of "nxt e" False ?l ?e1] polling_bit_le [of "nxt e" False ?l ?e1] by (simp_all only: g fst_conv snd_conv)
  have sz: "txa_sz e2 = txa_sz e" using tx_coreD(1) [OF c(1)] by (simp split: if_splits)
  have pos: "0 < unat ?l" "unat ?so + unat ?l \<le> ?len" unfolding l using False so by simp_all
  have si: "?si = segment_si (unat ?so) (unat ?l) ?len"
    using so False mid unfolding segment_si_def l by (cases ?middle) auto
  have sz0: "?so \<noteq> 0" using so(1) by auto
  obtain pdu where a: "assemble_segment (data_header e2 p ?si (nxt e) ?so) (tsi_sdu i) ?l grant = Some pdu"
    "length pdu \<le> grant" "pdu \<noteq> []"
    "am_pdu_of (txa_sz e2) (nxt e) (tsi_sdu i) (unat ?so) (take (unat ?l) (drop (unat ?so) (tsi_sdu i))) pdu"
    using assemble_segment_am_pdu [OF pos(2) ms pos(1) _ si c(2), of e2 grant "nxt e"] sz0 sz False l by fastforce
  have pay: "take (unat ?l) (drop (unat ?so) (tsi_sdu i)) = take (grant - head_max_size e) (drop (unat ?so) (tsi_sdu i))"
    unfolding l by (simp add: min_def)
  let ?f = "\<lambda>i. i\<lparr>next_so := next_so i + ?l\<rparr>"
  define e' where "e' = (let e3 = window_modify (nxt e) ?f e2 in if ?middle then e3 else advance_tx_next e3)"
  have b: "build_continued_sdu_segment grant i e = Some (e', pdu)"
    using False so sz0 g a sz sn by (simp add: build_continued_sdu_segment_def Let_def e'_def)
  have "tx_am_inv e'"
  proof (cases ?middle)
    case True
    have "tx_core e' = tx_core (window_modify (nxt e) ?f e)"
      using c(1) True by (simp add: tx_core_def window_modify_def e'_def)
    moreover have "tx_am_inv (window_modify (nxt e) ?f e)"
    proof (rule window_modify_inv [OF inv])
      fix j
      assume "cm_get (tx_window e) (nxt e) = Some j"
      then have j: "j = i" using i by simp
      have "unat (?so + ?l) = unat ?so + unat ?l"
        using pos(2) ms by (intro unat_add_lem [THEN iffD1]) (simp add: max_sdu_def)
      then show "0 < unat (next_so (?f j)) \<and> unat (next_so (?f j)) < length (tsi_sdu j)"
        using so pos True mid l j by simp
    qed simp
    ultimately show ?thesis by (rule tx_am_inv_core)
  next
    case False
    have "tx_core e' = tx_core (window_modify (nxt e) ?f (advance_tx_next (e\<lparr>sn_under_segmentation := INVALID_RLC_SN\<rparr>)))"
      using c(1) False by (simp add: tx_core_def window_modify_def advance_tx_next_def e'_def)
    moreover have "tx_am_inv (window_modify (nxt e) ?f (advance_tx_next (e\<lparr>sn_under_segmentation := INVALID_RLC_SN\<rparr>)))"
    proof (rule window_modify_inv [OF finish_sdu_inv [OF inv us]])
      have "sn_under_segmentation (advance_tx_next (e\<lparr>sn_under_segmentation := INVALID_RLC_SN\<rparr>)) = INVALID_RLC_SN"
        by (simp add: advance_tx_next_def)
      then show "0 < unat (next_so (?f j)) \<and> unat (next_so (?f j)) < length (tsi_sdu j)"
        if "under_seg (advance_tx_next (e\<lparr>sn_under_segmentation := INVALID_RLC_SN\<rparr>))" for j
        using that by (simp only: simp_thms)
    qed simp
    ultimately show ?thesis by (rule tx_am_inv_core)
  qed
  moreover have "map_option tsi_sdu (cm_get (tx_window e') (nxt e)) = Some (tsi_sdu i)"
  proof -
    have "tx_window e' = cm_modify (tx_window e) (nxt e) ?f"
      using tx_coreD [OF c(1)] unfolding e'_def by (cases ?middle) (simp_all add: window_modify_def advance_tx_next_def)
    then show ?thesis using i by (simp add: cm_get_modify)
  qed
  moreover have "am_pdu_of (txa_sz e) (nxt e) (tsi_sdu i) (unat ?so)
      (take (grant - head_max_size e) (drop (unat ?so) (tsi_sdu i))) pdu"
    using a(4) unfolding sz pay .
  moreover have "pdu = [] \<longleftrightarrow> grant \<le> head_max_size e" using a(3) False by (simp only:)
  ultimately show ?thesis by (intro exI [of _ e'] exI [of _ pdu] conjI impI) (rule b, assumption, rule a(2), assumption+)
qed

end
