(* ===== verification/Rlc_Tx_Am_Retx.thy ===== *)
theory Rlc_Tx_Am_Retx
  imports Rlc_Tx_Am_Inv
begin

text \<open>
  Retransmissions of the RLC AM transmitter under its invariant: building a retransmission PDU, the retransmission
  counters, emptying the queue, the buffer state and the poll timer.
\<close>

section \<open>The retransmission queue under the invariant\<close>

text \<open>The invariant without the retransmissions, which a status report invalidates before it rebuilds them.\<close>

definition tx_base_inv :: "rlc_tx_am_entity \<Rightarrow> bool" where
  "tx_base_inv e \<longleftrightarrow> tx_vars_ok e \<and> tx_window_ok e \<and> tx_queues_ok e"

lemma tx_am_inv_base: "tx_am_inv e \<longleftrightarrow> tx_base_inv e \<and> (\<forall>r \<in> set (rq_view (retx_queue e)). retx_ok (tx_window e) r)"
  by (auto simp: tx_am_inv_def tx_base_inv_def)

lemma tx_am_invD: "tx_am_inv e \<Longrightarrow> tx_base_inv e"
  by (simp add: tx_am_inv_base)

lemma tx_base_inv_cong: "tx_core e = tx_core e' \<Longrightarrow> tx_base_inv e = tx_base_inv e'"
  using tx_mod_base_cong [of e e']
  by (simp add: tx_core_def tx_base_inv_def tx_vars_ok_def tx_window_ok_def tx_queues_ok_def in_flight_def)

lemma unat_less_u32: "unat (x :: u32) < 2 ^ 32"
proof -
  have "unat x < 2 ^ LENGTH(32)" by (rule unsigned_less)
  then show ?thesis by simp
qed

lemma rq_empty_view: "rq_invar q \<Longrightarrow> rq_empty q \<longleftrightarrow> rq_view q = []"
  by (cases "rq_items q") (auto simp: rq_invar_def rq_view_def rq_empty_def)

lemma view_length: "length (rq_view q) \<le> length (rq_items q)"
  by (simp add: rq_view_def valid_items_def)

lemma view_bytes_le: "\<forall>r \<in> set rs. unat (retx_length r) \<le> n \<Longrightarrow> view_bytes rs \<le> length rs * n"
  by (induction rs) (auto simp: view_bytes_def)

lemma retx_ok_length:
  assumes "tx_window_ok e" "retx_ok (tx_window e) r"
  shows "unat (retx_length r) \<le> max_sdu"
proof -
  obtain i where "cm_get (tx_window e) (retx_sn r) = Some i" "unat (retx_so r) + unat (retx_length r) \<le> length (tsi_sdu i)"
    using assms(2) by (auto simp: retx_ok_def)
  then show ?thesis using assms(1) by (fastforce simp: tx_window_ok_def sdu_size_ok_def)
qed

lemma view_small_retx:
  assumes "tx_window_ok e" "\<forall>r \<in> set rs. retx_ok (tx_window e) r" "length rs \<le> unat (txa_window_size e)"
  shows "view_small rs"
proof -
  have "unat (txa_window_size e) \<le> 131072" by (cases "txa_sz e") simp_all
  then have w: "length rs \<le> 131072" using assms(3) by linarith
  have "view_bytes rs \<le> length rs * max_sdu" using view_bytes_le [of rs max_sdu] assms(1,2) retx_ok_length by blast
  also have "\<dots> \<le> 131072 * 32767" using w by (simp add: max_sdu_def)
  finally show ?thesis using w by (simp add: view_small_def)
qed

text \<open>What replacing the queue needs.\<close>

lemma retx_update_inv:
  assumes inv: "tx_base_inv e" and c: "tx_core e' = tx_core (e\<lparr>retx_queue := q\<rparr>)"
    and q: "rq_invar q" "rq_capacity q = rq_capacity (retx_queue e)" "length (rq_items q) \<le> unat (txa_window_size e)"
    and r: "\<forall>r \<in> set (rq_view q). retx_ok (tx_window e) r"
  shows "tx_am_inv e'"
proof -
  have "tx_am_inv (e\<lparr>retx_queue := q\<rparr>)"
    using inv q r tx_mod_base_cong [of "e\<lparr>retx_queue := q\<rparr>" e]
    by (auto simp: tx_am_inv_def tx_base_inv_def tx_vars_ok_def tx_window_ok_def tx_queues_ok_def in_flight_def)
  then show ?thesis using tx_am_inv_cong [OF c] by simp
qed

lemma rq_push_sizes:
  "rq_try_push q r = (q', ok) \<Longrightarrow> rq_capacity q' = rq_capacity q \<and> (\<not> ok \<longrightarrow> q' = q) \<and>
     (ok \<longrightarrow> length (rq_items q') = Suc (length (rq_items q)) \<and> length (rq_items q) < rq_capacity q)"
  by (auto simp: rq_try_push_def split: if_splits)

lemma rq_pop_sizes: "rq_capacity (rq_pop q) = rq_capacity q \<and> length (rq_items (rq_pop q)) \<le> length (rq_items q)"
  using rq_pop_shorter [of q] by (cases "rq_empty q") (auto simp: rq_pop_def clean_invalid_front_def rq_empty_def split: list.splits)

lemma rq_replace_sizes:
  "rq_replace_front q r = Some q' \<Longrightarrow> rq_capacity q' = rq_capacity q \<and> length (rq_items q') = length (rq_items q)"
  by (auto simp: rq_replace_front_def split: list.splits if_splits)

lemma retx_push_inv:
  assumes inv: "tx_am_inv e" and r: "retx_ok (tx_window e) r" and p: "rq_try_push (retx_queue e) r = (q, ok)"
  shows "tx_am_inv (e\<lparr>retx_queue := q\<rparr>) \<and>
    rq_view q = (if ok then rq_view (retx_queue e) @ [r] else rq_view (retx_queue e))"
proof (cases ok)
  case False
  then have "q = retx_queue e" using rq_push_sizes [OF p] by simp
  then show ?thesis using inv False by simp
next
  case True
  let ?v = "rq_view (retx_queue e) @ [r]"
  have wok: "tx_window_ok e" and qi: "rq_invar (retx_queue e)" using inv by (simp_all add: tx_am_inv_def tx_queues_ok_def)
  have s: "length (rq_items q) \<le> unat (txa_window_size e)" "rq_capacity q = rq_capacity (retx_queue e)"
    "length (rq_items (retx_queue e)) < unat (txa_window_size e)"
    using rq_push_sizes [OF p] True inv by (auto simp: tx_am_inv_def tx_queues_ok_def)
  have ro: "\<forall>r \<in> set ?v. retx_ok (tx_window e) r" using inv r by (auto simp: tx_am_inv_def)
  have "view_small ?v"
    by (rule view_small_retx [OF wok ro]) (use s(3) view_length [of "retx_queue e"] in simp)
  from retxq.push [OF qi this p] have q: "rq_invar q" "rq_view q = ?v" using True by simp_all
  have "tx_am_inv (e\<lparr>retx_queue := q\<rparr>)"
    by (rule retx_update_inv [OF tx_am_invD [OF inv] refl q(1) s(2,1)]) (use q(2) ro in simp)
  then show ?thesis using q True by simp
qed

lemma drop_stale_retx_none:
  assumes "tx_am_inv e"
  shows "drop_stale_retx (tx_window e) (retx_queue e) = Some (retx_queue e)"
proof -
  have qi: "rq_invar (retx_queue e)" using assms by (simp add: tx_am_inv_def tx_queues_ok_def)
  show ?thesis
  proof (cases "rq_view (retx_queue e)")
    case Nil
    then show ?thesis using rq_empty_view [OF qi] by (simp add: drop_stale_retx.simps)
  next
    case (Cons r rs)
    then have "has_sn (tx_window e) (retx_sn r)" using assms by (auto simp: tx_am_inv_def retx_ok_def cm_contains_get)
    then show ?thesis using Cons retxq.front [OF qi] by (simp add: drop_stale_retx.simps)
  qed
qed

section \<open>A retransmission PDU\<close>

text \<open>The remainder of the front after \<open>n\<close> bytes of it were sent.\<close>

definition retx_rest :: "rlc_tx_amd_retx \<Rightarrow> nat \<Rightarrow> rlc_tx_amd_retx list" where
  "retx_rest r n = (if n = unat (retx_length r) then []
     else [r\<lparr>retx_so := retx_so r + of_nat n, retx_length := retx_length r - of_nat n\<rparr>])"

lemma retx_rest_ok:
  assumes "retx_ok w r" "n \<le> unat (retx_length r)" "r' \<in> set (retx_rest r n)" "\<And>i. cm_get w (retx_sn r) = Some i \<Longrightarrow> length (tsi_sdu i) \<le> max_sdu"
  shows "retx_ok w r'"
proof -
  obtain i where i: "cm_get w (retx_sn r) = Some i" "unat (retx_so r) + unat (retx_length r) \<le> length (tsi_sdu i)"
    using assms(1) by (auto simp: retx_ok_def)
  have ms: "length (tsi_sdu i) \<le> max_sdu" by (rule assms(4) [OF i(1)])
  have r': "r' = r\<lparr>retx_so := retx_so r + of_nat n, retx_length := retx_length r - of_nat n\<rparr>" "n < unat (retx_length r)"
    using assms(2,3) by (auto simp: retx_rest_def split: if_splits)
  have n: "unat (of_nat n :: u32) = n" by (rule unat_of_nat_u32) (rule order.strict_trans [OF r'(2) unat_less_u32])
  have "(of_nat n :: u32) \<le> retx_length r" using n r'(2) by (simp add: word_le_nat_alt)
  then have l: "unat (retx_length r - of_nat n) = unat (retx_length r) - n" by (simp add: unat_sub n)
  have "unat (retx_so r) + n < 2 ^ 32" using i(2) r'(2) ms by (simp add: max_sdu_def)
  then have "unat (retx_so r + of_nat n) = unat (retx_so r) + n"
    using n by (simp add: unat_add_lem [THEN iffD1])
  then show ?thesis using i r' l by (simp add: retx_ok_def)
qed

lemma retx_sent_ok:
  assumes inv: "tx_am_inv e" and v: "rq_view (retx_queue e) = r # rs" and n: "n \<le> unat (retx_length r)"
  shows "\<exists>q. retx_sent r n (retx_queue e) = Some q \<and> rq_view q = retx_rest r n @ rs \<and> tx_am_inv (e\<lparr>retx_queue := q\<rparr>)"
proof -
  have wok: "tx_window_ok e" and qi: "rq_invar (retx_queue e)"
    and len: "length (rq_items (retx_queue e)) \<le> unat (txa_window_size e)"
    using inv by (simp_all add: tx_am_inv_def tx_queues_ok_def)
  have ro: "\<forall>x \<in> set (retx_rest r n @ rs). retx_ok (tx_window e) x"
    using inv v retx_rest_ok [OF _ n, of "tx_window e"] wok by (auto simp: tx_am_inv_def tx_window_ok_def sdu_size_ok_def)
  have fin: "\<exists>q. retx_sent r n (retx_queue e) = Some q \<and> rq_view q = retx_rest r n @ rs \<and> tx_am_inv (e\<lparr>retx_queue := q\<rparr>)"
    if "retx_sent r n (retx_queue e) = Some q" "rq_view q = retx_rest r n @ rs" "rq_invar q"
      "rq_capacity q = rq_capacity (retx_queue e)" "length (rq_items q) \<le> length (rq_items (retx_queue e))" for q
    using that retx_update_inv [OF tx_am_invD [OF inv] refl that(3,4)] ro len by simp
  show ?thesis
  proof (cases "n = unat (retx_length r)")
    case True
    then show ?thesis using fin [of "rq_pop (retx_queue e)"] retxq.pop [OF qi] v rq_pop_sizes [of "retx_queue e"]
      by (simp add: retx_sent_def retx_rest_def)
  next
    case False
    let ?r = "r\<lparr>retx_so := retx_so r + of_nat n, retx_length := retx_length r - of_nat n\<rparr>"
    have "view_small (?r # rs)"
      by (rule view_small_retx [OF wok]) (use ro False v view_length [of "retx_queue e"] len in \<open>simp_all add: retx_rest_def\<close>)
    from retxq.replace [OF qi v this] obtain q where q: "rq_replace_front (retx_queue e) ?r = Some q" "rq_invar q" "rq_view q = ?r # rs"
      by blast
    show ?thesis using fin [of q] q rq_replace_sizes [OF q(1)] False by (simp add: retx_sent_def retx_rest_def)
  qed
qed

lemma build_retx_pdu_ok:
  assumes inv: "tx_am_inv e" and v: "rq_view (retx_queue e) = r # rs" and i: "cm_get (tx_window e) (retx_sn r) = Some i"
  shows "\<exists>e' pdu. build_retx_pdu grant e = Some (e', pdu) \<and> tx_am_inv e' \<and> tx_window e' = tx_window e \<and> length pdu \<le> grant \<and>
    (pdu = [] \<longleftrightarrow> grant \<le> get_retx_expected_hdr_len e r) \<and>
    (let n = min (unat (retx_length r)) (grant - get_retx_expected_hdr_len e r) in
     pdu \<noteq> [] \<longrightarrow> rq_view (retx_queue e') = retx_rest r n @ rs \<and>
       am_pdu_of (txa_sz e) (retx_sn r) (tsi_sdu i) (unat (retx_so r)) (take n (drop (unat (retx_so r)) (tsi_sdu i))) pdu)"
proof -
  let ?h = "get_retx_expected_hdr_len e r" and ?so = "retx_so r" and ?sdu = "tsi_sdu i"
  have wok: "tx_window_ok e" and qi: "rq_invar (retx_queue e)" using inv by (simp_all add: tx_am_inv_def tx_queues_ok_def)
  have ro: "0 < unat (retx_length r)" "unat ?so + unat (retx_length r) \<le> length ?sdu" and ms: "length ?sdu \<le> max_sdu"
    using inv v i wok by (auto simp: tx_am_inv_def retx_ok_def tx_window_ok_def sdu_size_ok_def)
  have q: "\<not> rq_empty (retx_queue e)" "drop_stale_retx (tx_window e) (retx_queue e) = Some (retx_queue e)"
    "rq_front (retx_queue e) = Some r"
    using rq_empty_view [OF qi] drop_stale_retx_none [OF inv] retxq.front [OF qi] v by simp_all
  have "unat (?so + retx_length r) = unat ?so + unat (retx_length r)"
    using ro(2) ms by (intro unat_add_lem [THEN iffD1]) (simp add: max_sdu_def)
  then have fit: "\<not> unat (?so + retx_length r) > length ?sdu" using ro(2) by simp
  have keep: "tx_am_inv (e\<lparr>last_retx_sn := x\<rparr>)" for x by (rule tx_am_inv_core [OF _ inv]) (simp add: tx_core_def)
  show ?thesis
  proof (cases "grant \<le> ?h")
    case True
    have "build_retx_pdu grant e = Some (e\<lparr>last_retx_sn := retx_sn r\<rparr>, [])"
      using q i fit True by (simp add: build_retx_pdu_def Let_def)
    then show ?thesis using True keep by simp
  next
    case False
    define n where "n = min (unat (retx_length r)) (grant - ?h)"
    have n: "0 < n" "n \<le> unat (retx_length r)" "?h + n \<le> grant" using False ro(1) by (simp_all add: n_def)
    have nw: "unat (of_nat n :: u32) = n"
      by (rule unat_of_nat_u32, rule max_sdu_u16) (use n(2) ro(2) ms in linarith)
    obtain q1 where s: "retx_sent r n (retx_queue e) = Some q1" "rq_view q1 = retx_rest r n @ rs" "tx_am_inv (e\<lparr>retx_queue := q1\<rparr>)"
      using retx_sent_ok [OF inv v n(2)] by blast
    define e3 where "e3 = e\<lparr>last_retx_sn := retx_sn r, retx_queue := q1,
      max_retx_reached := (max_retx_reached e \<or> (n = unat (retx_length r) \<and> retx_count i = max_retx_thresh (txa_cfg e)))\<rparr>"
    obtain e4 p where g: "get_polling_bit (retx_sn r) True 0 e3 = (e4, p)" by (rule prod.exhaust)
    have c: "tx_core e4 = tx_core e3" "p \<le> 1"
      using polling_core [of "retx_sn r" True 0 e3] polling_bit_le [of "retx_sn r" True 0 e3] by (simp_all add: g)
    let ?si = "retx_si ?so (length ?sdu \<le> unat ?so + n)"
    have si: "?si = segment_si (unat ?so) (unat (of_nat n :: u32)) (length ?sdu)"
      using n ro(2) unfolding nw segment_si_def retx_si_def by (auto simp: unat_eq_0 [symmetric])
    have hl: "length (rlc_am_write_data_pdu_header (data_header e p ?si (retx_sn r) ?so)) = ?h"
      using data_header_length [of ?so e p ?si "retx_sn r"] ro(2) ms by (simp add: get_retx_expected_hdr_len_def)
    obtain pdu where a: "assemble_segment (data_header e p ?si (retx_sn r) ?so) ?sdu (of_nat n) grant = Some pdu"
      "length pdu \<le> grant" "pdu \<noteq> []" "am_pdu_of (txa_sz e) (retx_sn r) ?sdu (unat ?so) (take n (drop (unat ?so) ?sdu)) pdu"
      using assemble_segment_am_pdu [of ?so "of_nat n" ?sdu e grant ?si p "retx_sn r"] n ro(2) ms si c(2)
      by (auto simp: nw get_retx_expected_hdr_len_def)
    have b: "build_retx_pdu grant e = Some (e4, pdu)"
      using q i fit False s(1) g hl a(1) by (simp add: build_retx_pdu_def Let_def n_def [symmetric] e3_def)
    have "tx_am_inv e4" by (rule tx_am_inv_core [OF _ s(3)]) (simp add: c(1), simp add: tx_core_def e3_def)
    moreover have "tx_window e4 = tx_window e" "rq_view (retx_queue e4) = retx_rest r n @ rs"
      using tx_coreD [OF c(1)] s(2) by (simp_all add: e3_def)
    ultimately show ?thesis using b a False by (auto simp: n_def [symmetric] Let_def)
  qed
qed

section \<open>What an operation leaves alone\<close>

text \<open>The SDU bytes, the PDCP SN and the progress of the segmentation of an SN in the window.\<close>

definition sdu_at :: "rlc_tx_am_entity \<Rightarrow> u32 \<Rightarrow> (bytes \<times> u32 option \<times> u32) option" where
  "sdu_at e sn = map_option (\<lambda>i. (tsi_sdu i, tsi_pdcp_sn i, next_so i)) (cm_get (tx_window e) sn)"

definition tx_frame :: "rlc_tx_am_entity \<Rightarrow> rlc_tx_am_entity \<Rightarrow> bool" where
  "tx_frame e e' \<longleftrightarrow> txa_cfg e' = txa_cfg e \<and> txa_st e' = txa_st e \<and> sn_under_segmentation e' = sn_under_segmentation e \<and>
     sdu_at e' = sdu_at e"

lemma sdu_at_update [simp]:
  "sdu_at (e\<lparr>retx_queue := q\<rparr>) = sdu_at e" "sdu_at (e\<lparr>last_retx_sn := x\<rparr>) = sdu_at e"
  "sdu_at (e\<lparr>pending_buffer_state := b\<rparr>) = sdu_at e" "sdu_at (e\<lparr>prev_buffer_state := bs\<rparr>) = sdu_at e"
  "sdu_at (e\<lparr>suspend_bs_notif_barring := b\<rparr>) = sdu_at e" "sdu_at (e\<lparr>poll_retransmit_timer := b\<rparr>) = sdu_at e"
  "sdu_at (e\<lparr>sdu_queue := sq\<rparr>) = sdu_at e"
  by (simp_all add: sdu_at_def fun_eq_iff)

lemma tx_frame_refl [intro, simp]: "tx_frame e e"
  by (simp add: tx_frame_def)

lemma tx_frame_trans [trans]: "tx_frame e e' \<Longrightarrow> tx_frame e' e'' \<Longrightarrow> tx_frame e e''"
  by (simp add: tx_frame_def)

lemma tx_frame_mod_base: "tx_frame e e' \<Longrightarrow> tx_mod_base e' = tx_mod_base e"
  by (rule tx_mod_base_cong) (simp_all add: tx_frame_def)

lemma tx_frame_retx_queue [simp]: "tx_frame e (e'\<lparr>retx_queue := q\<rparr>) \<longleftrightarrow> tx_frame e e'"
  by (simp add: tx_frame_def)

lemma tx_frame_last_retx [simp]: "tx_frame e (e'\<lparr>last_retx_sn := x\<rparr>) \<longleftrightarrow> tx_frame e e'"
  by (simp add: tx_frame_def)

lemma sdu_at_Some: "sdu_at e sn = Some (b, p, so) \<Longrightarrow> \<exists>i. cm_get (tx_window e) sn = Some i \<and> tsi_sdu i = b \<and> tsi_pdcp_sn i = p \<and> next_so i = so"
  by (auto simp: sdu_at_def)

lemma retx_count_frame: "tx_frame e (window_modify sn (\<lambda>i. i\<lparr>retx_count := f i\<rparr>) e)"
  by (auto simp: tx_frame_def sdu_at_def window_modify_def cm_get_modify fun_eq_iff option.map_comp comp_def split: option.splits)

section \<open>Retransmission counters\<close>

lemma retx_count_inv:
  assumes inv: "tx_am_inv e"
  shows "tx_am_inv (window_modify sn (\<lambda>i. i\<lparr>retx_count := f i\<rparr>) e)"
  by (rule window_modify_inv [OF inv]) (use inv in \<open>auto simp: tx_am_inv_def tx_window_ok_def\<close>)

lemma increment_retx_count_ok:
  assumes inv: "tx_am_inv e" and i: "cm_get (tx_window e) sn \<noteq> None"
  shows "\<exists>e' evs. increment_retx_count sn e = Some (e', evs) \<and> tx_am_inv e' \<and> tx_frame e e' \<and> retx_queue e' = retx_queue e"
proof -
  obtain j where j: "cm_get (tx_window e) sn = Some j" using i by blast
  show ?thesis
    using j retx_count_inv [OF inv] retx_count_frame
    by (auto simp: increment_retx_count_def Let_def window_modify_def)
qed

text \<open>Rewinding happens while the queue holds retransmissions of SNs that have left the window.\<close>

lemma tx_base_inv_empty: "tx_base_inv e \<Longrightarrow> tx_am_inv (e\<lparr>retx_queue := rq_create (unat (txa_window_size e))\<rparr>)"
  by (rule retx_update_inv [OF _ refl])
    (use rq_create_invar in \<open>simp_all add: tx_base_inv_def tx_queues_ok_def\<close>, simp_all add: rq_create_def)

lemma tx_base_inv_queue:
  assumes "tx_base_inv e" "rq_invar q" "rq_capacity q = unat (txa_window_size e)" "length (rq_items q) \<le> unat (txa_window_size e)"
  shows "tx_base_inv (e\<lparr>retx_queue := q\<rparr>)"
  using assms tx_mod_base_cong [of "e\<lparr>retx_queue := q\<rparr>" e]
  by (simp add: tx_base_inv_def tx_vars_ok_def tx_window_ok_def tx_queues_ok_def in_flight_def)

lemma retx_count_base_inv:
  assumes inv: "tx_base_inv e"
  shows "tx_base_inv (window_modify sn (\<lambda>i. i\<lparr>retx_count := f i\<rparr>) e)"
proof -
  let ?f = "window_modify sn (\<lambda>i. i\<lparr>retx_count := f i\<rparr>)" and ?q = "rq_create (unat (txa_window_size e))"
  have "tx_base_inv (?f (e\<lparr>retx_queue := ?q\<rparr>))" by (rule tx_am_invD, rule retx_count_inv, rule tx_base_inv_empty [OF inv])
  then have "tx_base_inv (?f (e\<lparr>retx_queue := ?q\<rparr>)\<lparr>retx_queue := retx_queue e\<rparr>)"
    by (rule tx_base_inv_queue) (use inv in \<open>auto simp: tx_base_inv_def tx_queues_ok_def window_modify_def\<close>)
  then show ?thesis by (simp add: window_modify_def)
qed

lemma decrement_retx_count_ok:
  assumes inv: "tx_base_inv e" and i: "cm_get (tx_window e) sn \<noteq> None"
  shows "\<exists>e'. decrement_retx_count sn e = Some e' \<and> tx_base_inv e' \<and> tx_frame e e' \<and> retx_queue e' = retx_queue e"
proof -
  obtain j where j: "cm_get (tx_window e) sn = Some j" using i by blast
  have "retx_queue (window_modify sn f e) = retx_queue e" for f by (simp add: window_modify_def)
  then show ?thesis
    using j inv retx_count_base_inv [OF inv] retx_count_frame by (auto simp: decrement_retx_count_def)
qed

lemma clear_retx_ok:
  "tx_base_inv e \<Longrightarrow> \<exists>e'. clear_retx e = Some e' \<and> tx_am_inv e' \<and> tx_frame e e' \<and> rq_items (retx_queue e') = []"
proof (induction e rule: clear_retx.induct)
  case (1 e)
  have qi: "rq_invar (retx_queue e)" using "1.prems" by (simp add: tx_base_inv_def tx_queues_ok_def)
  show ?case
  proof (cases "rq_empty (retx_queue e)")
    case True
    have v: "rq_view (retx_queue e) = []" using rq_empty_view [OF qi] True by simp
    have "tx_am_inv (e\<lparr>last_retx_sn := INVALID_RLC_SN\<rparr>)"
      by (rule tx_am_inv_core [of _ e]) (use "1.prems" v in \<open>simp_all add: tx_core_def tx_am_inv_base\<close>)
    then show ?thesis using True by (auto simp: clear_retx.simps [of e] rq_empty_def)
  next
    case False
    obtain r rs where v: "rq_view (retx_queue e) = r # rs" using rq_empty_view [OF qi] False by (cases "rq_view (retx_queue e)") auto
    have f: "rq_front (retx_queue e) = Some r" using retxq.front [OF qi] v by simp
    obtain e1 where e1: "(if last_retx_sn e \<noteq> retx_sn r \<and> has_sn (tx_window e) (retx_sn r)
        then decrement_retx_count (retx_sn r) e else Some e) = Some e1" "tx_base_inv e1" "tx_frame e e1" "retx_queue e1 = retx_queue e"
    proof (cases "last_retx_sn e \<noteq> retx_sn r \<and> has_sn (tx_window e) (retx_sn r)")
      case True
      then have "cm_get (tx_window e) (retx_sn r) \<noteq> None" by (simp add: cm_contains_get)
      from decrement_retx_count_ok [OF "1.prems" this] obtain e1 where "decrement_retx_count (retx_sn r) e = Some e1"
        "tx_base_inv e1" "tx_frame e e1" "retx_queue e1 = retx_queue e" by blast
      then show ?thesis using that True by simp
    next
      case False
      show ?thesis by (rule that [of e]) (use False "1.prems" in \<open>simp_all only: if_False tx_frame_refl\<close>)
    qed
    let ?e2 = "e1\<lparr>last_retx_sn := retx_sn r, retx_queue := rq_pop (retx_queue e)\<rparr>"
    have p: "rq_invar (rq_pop (retx_queue e))" using retxq.pop [OF qi] v by simp
    have s: "tx_base_inv (e1\<lparr>retx_queue := rq_pop (retx_queue e)\<rparr>)"
      by (rule tx_base_inv_queue [OF e1(2) p])
        (use e1(2,4) rq_pop_sizes [of "retx_queue e"] in \<open>auto simp: tx_base_inv_def tx_queues_ok_def\<close>)
    have "tx_base_inv ?e2" using tx_base_inv_cong [of ?e2 "e1\<lparr>retx_queue := rq_pop (retx_queue e)\<rparr>"] s by (simp add: tx_core_def)
    from "1.IH" [OF False f e1(1) this] obtain e' where e': "clear_retx ?e2 = Some e'" "tx_am_inv e'" "tx_frame ?e2 e'"
      "rq_items (retx_queue e') = []" by blast
    have "tx_frame e ?e2" using e1(3) by simp
    then have "tx_frame e e'" using e'(3) tx_frame_trans by blast
    then show ?thesis using e' False f e1(1) by (simp add: clear_retx.simps [of e])
  qed
qed

section \<open>Buffer state\<close>

lemma sdu_queue_update_inv:
  assumes inv: "tx_am_inv e" and q: "sq_invar q" "sq_view q = sq_view (sdu_queue e)" and c: "tx_core e' = tx_core (e\<lparr>sdu_queue := q\<rparr>)"
  shows "tx_am_inv e'"
proof -
  have "tx_am_inv (e\<lparr>sdu_queue := q\<rparr>)"
    using inv q tx_mod_base_cong [of "e\<lparr>sdu_queue := q\<rparr>" e]
    by (auto simp: tx_am_inv_def tx_vars_ok_def tx_window_ok_def tx_queues_ok_def in_flight_def)
  then show ?thesis using tx_am_inv_cong [OF c] by simp
qed

lemma get_buffer_state_ok:
  assumes inv: "tx_am_inv e"
  shows "\<exists>e' bs q. get_buffer_state rx e = Some (e', bs) \<and> sq_invar q \<and> sq_view q = sq_view (sdu_queue e) \<and>
    tx_core e' = tx_core (e\<lparr>sdu_queue := q\<rparr>) \<and> retx_queue e' = retx_queue e \<and> tx_frame e e'"
proof -
  have sq: "sq_invar (sdu_queue e)" and qi: "rq_invar (retx_queue e)" using inv by (simp_all add: tx_am_inv_def tx_queues_ok_def)
  obtain q s where f: "sq_front (sdu_queue e) = (q, s)" by (rule prod.exhaust)
  define q' where "q' = (if under_seg e then sdu_queue e else q)"
  have q': "sq_invar q'" "sq_view q' = sq_view (sdu_queue e)" using sduq.front [OF sq f] sq by (simp_all add: q'_def)
  obtain e1 sb t where seg: "(if under_seg e
      then (case cm_get (tx_window e) (sn_under_segmentation e) of
              Some i \<Rightarrow> (e, of_nat (length (tsi_sdu i)) - next_so i + of_nat (head_max_size e), Some (tsi_time_of_arrival i))
            | None \<Rightarrow> (e, 0, None))
      else (case hol_of_new e of (e', t) \<Rightarrow> (e', 0, t))) = (e1, sb :: u32, t)"
    by (rule prod_cases3)
  then have e1: "e1 = e\<lparr>sdu_queue := q'\<rparr>"
    using f by (auto simp: q'_def hol_of_new_def split: if_splits option.splits)
  obtain hol where hol: "(if rq_empty (retx_queue e) then Some t
      else do { retx \<leftarrow> rq_front (retx_queue e); i \<leftarrow> cm_get (tx_window e) (retx_sn retx); Some (Some (tsi_time_of_arrival i)) }) = Some hol"
  proof (cases "rq_view (retx_queue e)")
    case Nil
    then show ?thesis using rq_empty_view [OF qi] that by simp
  next
    case (Cons r rs)
    then show ?thesis using rq_empty_view [OF qi] retxq.front [OF qi] inv that by (auto simp: tx_am_inv_def retx_ok_def)
  qed
  have w: "tx_window e1 = tx_window e" "retx_queue e1 = retx_queue e" by (simp_all add: e1)
  have "\<exists>bs x. get_buffer_state rx e = Some (e1\<lparr>retx_queue := retx_queue e, suspend_bs_notif_barring := x\<rparr>, bs)"
    unfolding get_buffer_state_def Let_def seg prod.case w drop_stale_retx_none [OF inv] bind.bind_lunit hol w
    by (intro exI) (rule refl)
  then obtain bs x where g: "get_buffer_state rx e = Some (e1\<lparr>retx_queue := retx_queue e, suspend_bs_notif_barring := x\<rparr>, bs)"
    by blast
  have "tx_core (e1\<lparr>retx_queue := retx_queue e, suspend_bs_notif_barring := x\<rparr>) = tx_core (e\<lparr>sdu_queue := q'\<rparr>)"
    "tx_frame e (e1\<lparr>retx_queue := retx_queue e, suspend_bs_notif_barring := x\<rparr>)"
    by (simp_all add: e1 tx_core_def tx_frame_def)
  then show ?thesis using g q' by force
qed

lemma update_mac_buffer_state_ok:
  assumes inv: "tx_am_inv e"
  shows "\<exists>e' evs. update_mac_buffer_state force rx e = Some (e', evs) \<and> tx_am_inv e' \<and> tx_frame e e' \<and> retx_queue e' = retx_queue e"
proof -
  let ?e = "e\<lparr>pending_buffer_state := False\<rparr>"
  have i: "tx_am_inv ?e" by (rule tx_am_inv_core [OF _ inv]) (simp add: tx_core_def)
  obtain e1 bs q where g: "get_buffer_state rx ?e = Some (e1, bs)" "sq_invar q" "sq_view q = sq_view (sdu_queue ?e)"
    "tx_core e1 = tx_core (?e\<lparr>sdu_queue := q\<rparr>)" "retx_queue e1 = retx_queue ?e" "tx_frame ?e e1"
    using get_buffer_state_ok [OF i] by blast
  have e1: "tx_am_inv e1" by (rule sdu_queue_update_inv [OF i g(2-4)])
  have u: "tx_am_inv (e1\<lparr>prev_buffer_state := b\<rparr>)" "tx_am_inv (e1\<lparr>suspend_bs_notif_barring := x, prev_buffer_state := b\<rparr>)" for x b
    by (rule tx_am_inv_core [OF _ e1], simp add: tx_core_def)+
  have "tx_frame e (e1\<lparr>prev_buffer_state := b\<rparr>)" "tx_frame e (e1\<lparr>suspend_bs_notif_barring := x, prev_buffer_state := b\<rparr>)" for x b
    using g(6) by (simp_all add: tx_frame_def)
  then show ?thesis using g(1,5) u by (simp add: update_mac_buffer_state_def Let_def)
qed

section \<open>t-PollRetransmit\<close>

lemma nth_next_ack_in_window:
  assumes "tx_am_inv e" "cm_get (tx_window e) sn = Some i"
  shows "retx_ok (tx_window e) \<lparr>retx_sn = sn, retx_so = 0, retx_length = of_nat (length (tsi_sdu i))\<rparr>"
proof -
  have l: "tsi_sdu i \<noteq> []" "length (tsi_sdu i) \<le> max_sdu"
    using assms by (auto simp: tx_am_inv_def tx_window_ok_def sdu_size_ok_def)
  then have "unat (of_nat (length (tsi_sdu i)) :: u32) = length (tsi_sdu i)" by (intro unat_of_nat_u32 max_sdu_u16)
  then show ?thesis using assms(2) l(1) by (simp add: retx_ok_def)
qed

lemma on_expired_poll_ok:
  assumes inv: "tx_am_inv e"
  shows "\<exists>e' evs. on_expired_poll_retransmit_timer rx e = Some (e', evs) \<and> tx_am_inv e' \<and> tx_frame e e'"
proof -
  let ?e = "e\<lparr>poll_retransmit_timer := False\<rparr>" and ?sn = "tx_next_ack (txa_st e)"
  have i: "tx_am_inv ?e" by (rule tx_am_inv_core [OF _ inv]) (simp add: tx_core_def)
  have fr: "tx_frame e ?e" by (simp add: tx_frame_def)
  show ?thesis
  proof (cases "nothing_to_send ?e \<and> \<not> cm_empty (tx_window ?e) \<and> cm_get (tx_window ?e) ?sn \<noteq> None")
    case False
    then show ?thesis using i fr by (auto simp: on_expired_poll_retransmit_timer_def Let_def split: option.splits)
  next
    case True
    then obtain s where s: "cm_get (tx_window ?e) ?sn = Some s" by blast
    let ?r = "\<lparr>retx_sn = ?sn, retx_so = 0, retx_length = of_nat (length (tsi_sdu s))\<rparr>"
    obtain q ok where p: "rq_try_push (retx_queue ?e) ?r = (q, ok)" by (rule prod.exhaust)
    let ?e1 = "?e\<lparr>retx_queue := q\<rparr>"
    have i1: "tx_am_inv ?e1" using retx_push_inv [OF i nth_next_ack_in_window [OF i s] p] by blast
    have f1: "tx_frame e ?e1" using fr by simp
    have w: "cm_get (tx_window ?e1) ?sn \<noteq> None" using s by simp
    obtain e2 evs where e2: "(if ok then increment_retx_count ?sn ?e1 else Some (?e1, [])) = Some (e2, evs)" "tx_am_inv e2" "tx_frame e e2"
    proof (cases ok)
      case True
      obtain e2 evs where "increment_retx_count ?sn ?e1 = Some (e2, evs)" "tx_am_inv e2" "tx_frame ?e1 e2"
        using increment_retx_count_ok [OF i1 w] by blast
      then show ?thesis using that True tx_frame_trans [OF f1] by simp
    next
      case False
      then show ?thesis using that i1 f1 by simp
    qed
    obtain e3 evs2 where e3: "update_mac_buffer_state True rx e2 = Some (e3, evs2)" "tx_am_inv e3" "tx_frame e2 e3"
      using update_mac_buffer_state_ok [OF e2(2)] by blast
    have "on_expired_poll_retransmit_timer rx e = Some (e3, evs @ evs2)"
      using True s p e2(1) e3(1) by (simp add: on_expired_poll_retransmit_timer_def Let_def)
    then show ?thesis using e3(2) tx_frame_trans [OF e2(3) e3(3)] by blast
  qed
qed

end
