(* ===== verification/Rlc_Tx_Am_Status.thy ===== *)
theory Rlc_Tx_Am_Status
  imports Rlc_Tx_Am_Retx
begin

text \<open>
  Status reports at the RLC AM transmitter: the effect of the acknowledgements on the window and of the negative
  acknowledgements on the retransmission queue.
\<close>

section \<open>Runs of sequence numbers\<close>

primrec sn_range :: "u32 \<Rightarrow> u32 \<Rightarrow> nat \<Rightarrow> u32 list" where
  "sn_range m x 0 = []"
| "sn_range m x (Suc k) = x # sn_range m (sn_next m x) k"

section \<open>Acknowledgements\<close>

text \<open>The lower edge moves over one SN.\<close>

abbreviation ack_one :: "rlc_tx_am_entity \<Rightarrow> rlc_tx_am_entity" where
  "ack_one e \<equiv> e\<lparr>tx_window := fst (cm_erase (tx_window e) (tx_next_ack (txa_st e))),
     txa_st := (txa_st e)\<lparr>tx_next_ack := sn_next (txa_mod e) (tx_next_ack (txa_st e))\<rparr>\<rparr>"

lemma ack_one_dist:
  assumes "x < txa_mod e" "x \<noteq> tx_next_ack (txa_st e)" "tx_next_ack (txa_st e) < txa_mod e"
  shows "tx_dist (ack_one e) x = tx_dist e x - 1" "0 < tx_dist e x"
  using am_sn.dist_step [OF assms(3,1)] assms(2) by (simp_all add: tx_mod_base_def)

lemma ack_one_inv:
  assumes inv: "tx_base_inv e" and ne: "tx_next_ack (txa_st e) \<noteq> nxt e"
  shows "tx_base_inv (ack_one e)"
proof -
  let ?a = "tx_next_ack (txa_st e)" and ?e = "ack_one e"
  have ok: "tx_vars_ok e" "tx_window_ok e" "tx_queues_ok e" using inv by (simp_all add: tx_base_inv_def)
  have am: "?a < txa_mod e" "nxt e < txa_mod e" using ok(1) by (simp_all add: tx_vars_ok_def)
  have dn: "tx_dist ?e (nxt e) = tx_dist e (nxt e) - 1" "0 < tx_dist e (nxt e)"
    using ack_one_dist [OF am(2) _ am(1)] ne by simp_all
  have vars: "tx_vars_ok ?e" using ok(1) dn(1) by (simp add: tx_vars_ok_def am_sn.next_less)
  have fl: "in_flight ?e x \<longleftrightarrow> in_flight e x \<and> x \<noteq> ?a" for x
  proof (cases "x < txa_mod e \<and> x \<noteq> ?a")
    case True
    then show ?thesis using ack_one_dist [of x e] am dn by (auto simp: in_flight_def)
  next
    case False
    have "\<not> tx_dist ?e ?a < tx_dist ?e (nxt e)"
    proof -
      have "tx_dist ?e ?a = (tx_dist e ?a - tx_dist e (sn_next (txa_mod e) ?a)) mod uint (txa_mod e)"
        using am_sn.dist_rebase [of "txa_sz e" "sn_next (txa_mod e) ?a" ?a ?a] by (simp add: tx_mod_base_def)
      also have "tx_dist e (sn_next (txa_mod e) ?a) = 1"
        using am_sn.dist_next_below [of "txa_sz e" ?a ?a "nxt e"] dn(2) by (simp add: tx_mod_base_def)
      also have "(tx_dist e ?a - 1) mod uint (txa_mod e) = uint (txa_mod e) - 1"
        using am_sn.m_pos [of "txa_sz e"] by (simp add: tx_mod_base_def zmod_minus1)
      finally show ?thesis using tx_dist_m [of ?e "nxt e"] by simp
    qed
    then show ?thesis using False ne by (auto simp: in_flight_def)
  qed
  have "tx_window_ok ?e" using ok(2) fl ne by (auto simp: tx_window_ok_def cm_get_erase cm_wf_erase)
  then show ?thesis using vars ok(3) by (simp add: tx_base_inv_def tx_queues_ok_def)
qed

text \<open>The PDCP SN of the last delivered SDU of a kind.\<close>

definition last_psn :: "bool \<Rightarrow> rlc_tx_am_sdu_info list \<Rightarrow> u32 option \<Rightarrow> u32 option" where
  "last_psn retx infos d = fold (\<lambda>i d. if tsi_is_retx i = retx \<and> tsi_pdcp_sn i \<noteq> None then tsi_pdcp_sn i else d) infos d"

definition acked_infos :: "rlc_tx_am_entity \<Rightarrow> u32 \<Rightarrow> rlc_tx_am_sdu_info list" where
  "acked_infos e stop = List.map_filter (cm_get (tx_window e)) (sn_range (txa_mod e) (tx_next_ack (txa_st e)) (unat (tx_mod_base e stop)))"

definition acks_done :: "u32 \<Rightarrow> rlc_tx_am_entity \<Rightarrow> rlc_tx_am_entity \<Rightarrow> bool" where
  "acks_done stop e e' \<longleftrightarrow> txa_cfg e' = txa_cfg e \<and> tx_next_ack (txa_st e') = stop \<and> nxt e' = nxt e \<and>
     sn_under_segmentation e' = sn_under_segmentation e \<and> sdu_queue e' = sdu_queue e \<and> retx_queue e' = retx_queue e \<and>
     (\<forall>sn. cm_get (tx_window e') sn = (if tx_dist e sn < tx_dist e stop then None else cm_get (tx_window e) sn))"

lemma ack_loop_ok:
  assumes "tx_base_inv e" "stop < txa_mod e" "tx_dist e stop \<le> tx_dist e (nxt e)"
  shows "\<exists>e'. ack_loop stop (tx_next_ack (txa_st e)) e d r =
      (e', last_psn False (acked_infos e stop) d, last_psn True (acked_infos e stop) r) \<and> tx_base_inv e' \<and> acks_done stop e e'"
  using assms
proof (induction "unat (tx_mod_base e stop)" arbitrary: e d r)
  case 0
  then have z: "tx_mod_base e stop = 0" by (simp add: unat_eq_0)
  have a: "tx_next_ack (txa_st e) < txa_mod e" using "0.prems"(1) by (simp add: tx_base_inv_def tx_vars_ok_def)
  have "stop = tx_next_ack (txa_st e)"
    using z am_sn.dist_zero_iff [OF a "0.prems"(2)] by (simp add: tx_mod_base_def)
  moreover have "\<not> uint x < 0" for x :: u32 by (simp add: not_less)
  ultimately have "acks_done stop e e" using z by (simp add: acks_done_def)
  then show ?case using "0.prems"(1) z by (simp add: ack_loop.simps acked_infos_def last_psn_def map_filter_simps)
next
  case (Suc k)
  let ?a = "tx_next_ack (txa_st e)" and ?m = "txa_mod e" and ?e = "ack_one e"
  have a: "?a < ?m" "nxt e < ?m" using Suc.prems(1) by (simp_all add: tx_base_inv_def tx_vars_ok_def)
  have d: "tx_dist e stop = int (Suc k)" using Suc.hyps(2) by (metis uint_nat)
  have d0: "tx_mod_base e ?a = 0" by (simp add: tx_mod_base_def)
  have ne: "?a \<noteq> nxt e" "stop \<noteq> ?a" using d d0 Suc.prems(3) by auto
  have lt: "tx_mod_base e ?a < tx_mod_base e stop" using d d0 by (simp add: word_less_def)
  have "in_flight e ?a" using a d d0 Suc.prems(3) by (simp add: in_flight_def)
  then have "cm_get (tx_window e) ?a \<noteq> None" using Suc.prems(1) unfolding tx_base_inv_def tx_window_ok_def by blast
  then obtain i where i: "cm_get (tx_window e) ?a = Some i" by blast
  have inv: "tx_base_inv ?e" by (rule ack_one_inv [OF Suc.prems(1) ne(1)])
  have ds: "tx_dist ?e stop = tx_dist e stop - 1" "tx_dist ?e (nxt e) = tx_dist e (nxt e) - 1"
    using ack_one_dist [OF _ _ a(1)] Suc.prems(2) a(2) ne by auto
  have k: "k = unat (tx_mod_base ?e stop)"
  proof -
    have "uint (tx_mod_base ?e stop) = int k" using ds(1) d by simp
    then show ?thesis by (metis uint_nat of_nat_eq_iff)
  qed
  obtain d1 r1 where dr: "(case tsi_pdcp_sn i of None \<Rightarrow> (d, r)
      | Some psn \<Rightarrow> if tsi_is_retx i then (d, Some psn) else (Some psn, r)) = (d1, r1)" by (rule prod.exhaust)
  have infos: "acked_infos e stop = i # acked_infos ?e stop"
  proof -
    have "cm_get (tx_window e) x = cm_get (tx_window ?e) x" if "x \<in> set (sn_range ?m (sn_next ?m ?a) k)" for x
    proof -
      have gen: "x \<in> set (sn_range ?m y j) \<Longrightarrow> y < ?m \<Longrightarrow> tx_dist e y + int j \<le> tx_dist e stop \<Longrightarrow> tx_dist e y \<le> tx_dist e x \<and> x < ?m" for y j
      proof (induction j arbitrary: y)
        case (Suc j)
        have "tx_dist e (sn_next ?m y) = tx_dist e y + 1"
          using am_sn.dist_next_below [of "txa_sz e" ?a y stop] Suc.prems(3) by (simp add: tx_mod_base_def)
        then show ?case using Suc.prems Suc.IH [of "sn_next ?m y"] am_sn.next_less [of "txa_sz e" y] by (cases "x = y") auto
      qed simp
      have n1: "tx_dist e (sn_next ?m ?a) = 1"
        using am_sn.dist_next_below [of "txa_sz e" ?a ?a stop] d by (simp add: tx_mod_base_def)
      then have "1 \<le> tx_dist e x" using gen [OF that am_sn.next_less] d by simp
      then have "x \<noteq> ?a" using d0 by auto
      then show ?thesis by (simp add: cm_get_erase)
    qed
    then have "List.map_filter (cm_get (tx_window e)) (sn_range ?m (sn_next ?m ?a) k) =
        List.map_filter (cm_get (tx_window ?e)) (sn_range ?m (sn_next ?m ?a) k)"
      unfolding List.map_filter_def by (intro map_cong filter_cong refl) simp_all
    then show ?thesis using i k by (simp add: acked_infos_def Suc.hyps(2) [symmetric] map_filter_simps)
  qed
  have psn: "last_psn False (acked_infos e stop) d = last_psn False (acked_infos ?e stop) d1"
    "last_psn True (acked_infos e stop) r = last_psn True (acked_infos ?e stop) r1"
    using dr unfolding infos by (auto simp: last_psn_def split: option.splits if_splits)
  obtain e' where e': "ack_loop stop (tx_next_ack (txa_st ?e)) ?e d1 r1 =
      (e', last_psn False (acked_infos ?e stop) d1, last_psn True (acked_infos ?e stop) r1)" "tx_base_inv e'" "acks_done stop ?e e'"
    using Suc.hyps(1) [OF k inv] Suc.prems(2,3) ds by auto
  have "ack_loop stop ?a e d r = ack_loop stop (tx_next_ack (txa_st ?e)) ?e d1 r1"
    using lt i dr by (simp add: ack_loop.simps [of stop ?a e] Let_def)
  moreover have "acks_done stop e e'"
  proof -
    have "cm_get (tx_window e') sn = (if tx_dist e sn < tx_dist e stop then None else cm_get (tx_window e) sn)" for sn
    proof (cases "sn < ?m \<and> sn \<noteq> ?a")
      case True
      then have "tx_dist ?e sn = tx_dist e sn - 1" using ack_one_dist [of sn e] a(1) by simp
      then show ?thesis using e'(3) ds(1) True by (simp add: acks_done_def cm_get_erase)
    next
      case False
      then have "cm_get (tx_window ?e) sn = None"
        using inv Suc.prems(1) by (auto simp: cm_get_erase tx_base_inv_def tx_window_ok_def in_flight_def)
      moreover have "sn = ?a \<or> cm_get (tx_window e) sn = None"
        using False Suc.prems(1) by (auto simp: tx_base_inv_def tx_window_ok_def in_flight_def)
      ultimately show ?thesis using e'(3) d d0 by (auto simp: acks_done_def)
    qed
    then show ?thesis using e'(3) by (simp add: acks_done_def)
  qed
  ultimately show ?case using e'(1,2) psn by auto
qed

section \<open>Negative acknowledgements\<close>

text \<open>The retransmission that a NACK without range asks for.\<close>

definition nack_retx :: "rlc_tx_am_entity \<Rightarrow> rlc_am_status_nack \<Rightarrow> rlc_tx_amd_retx option" where
  "nack_retx e n =
     (if has_nack_range n \<or> tx_mod_base e (nack_sn n) > tx_mod_base e (nxt e) then None
      else do {
        i \<leftarrow> cm_get (tx_window e) (nack_sn n);
        (start, stop) \<leftarrow> nack_so_range e n i;
        let (start1, stop1) = fst (nack_sanity (of_nat (length (tsi_sdu i))) start stop);
        Some \<lparr>retx_sn = nack_sn n, retx_so = ucast start1, retx_length = ucast stop1 - ucast start1 + 1\<rparr>
      })"

lemma nack_retx_frame:
  assumes "tx_frame e e'"
  shows "nack_retx e' = nack_retx e"
proof (rule ext)
  fix n :: rlc_am_status_nack
  have b: "tx_mod_base e' = tx_mod_base e" "nxt e' = nxt e" "sn_under_segmentation e' = sn_under_segmentation e"
    using assms tx_frame_mod_base [OF assms] by (simp_all add: tx_frame_def)
  have a: "sdu_at e' (nack_sn n) = sdu_at e (nack_sn n)" using assms by (simp add: tx_frame_def)
  show "nack_retx e' n = nack_retx e n"
  proof (cases "cm_get (tx_window e) (nack_sn n)")
    case None
    then have "cm_get (tx_window e') (nack_sn n) = None" using a by (simp add: sdu_at_def)
    then show ?thesis using None by (simp add: nack_retx_def)
  next
    case (Some i)
    obtain i' where i': "cm_get (tx_window e') (nack_sn n) = Some i'" "tsi_sdu i' = tsi_sdu i" "next_so i' = next_so i"
      using sdu_at_Some [of e' "nack_sn n" "tsi_sdu i" "tsi_pdcp_sn i" "next_so i"] a Some by (auto simp: sdu_at_def [of e])
    have r: "nack_so_range e' n i' = nack_so_range e n i" unfolding nack_so_range_def b i'(2,3) by (rule refl)
    show ?thesis unfolding nack_retx_def b Some i'(1,2) r bind.bind_lunit by (rule refl)
  qed
qed

lemma unat_ucast_u16_u32: "unat (ucast x :: u32) = unat (x :: u16)"
proof -
  have "unat x < 2 ^ LENGTH(16)" by (rule unsigned_less)
  then have "unat x < 2 ^ 32" by simp
  then show ?thesis by (simp add: unsigned_ucast_eq take_bit_nat_eq_self)
qed

lemma nack_sanity_fits:
  assumes n: "0 < n" "n \<le> max_sdu" and s: "fst (nack_sanity (of_nat n) start stop) = (start1, stop1)"
  shows "unat start1 \<le> unat stop1 \<and> unat stop1 < n"
proof -
  have u: "unat (of_nat n :: u32) = n" by (rule unat_of_nat_u32, rule max_sdu_u16) (rule n(2))
  note c = unat_ucast_u16_u32
  have lt: "ucast x \<ge> (of_nat n :: u32) \<longleftrightarrow> n \<le> unat x" for x :: u16 unfolding word_le_nat_alt u c by (rule refl)
  have "(1 :: u32) \<le> of_nat n" unfolding word_le_nat_alt u using n(1) by simp
  then have "unat (of_nat n - 1 :: u32) = n - 1" using u by (simp add: unat_sub)
  then have l: "unat (ucast (of_nat n - 1 :: u32) :: u16) = n - 1"
    using unat_ucast_u16 [of "of_nat n - 1"] n(2) by simp
  define start2 where "start2 = (if start > stop then 0 else start)"
  have e: "start1 = (if n \<le> unat start2 then 0 else start2)" "stop1 = (if n \<le> unat stop then ucast (of_nat n - 1 :: u32) else stop)"
    using s by (auto simp: nack_sanity_def lt start2_def Let_def split: if_splits)
  have s2: "unat start2 \<le> unat stop" by (auto simp: start2_def word_less_nat_alt)
  have "unat stop1 = min (n - 1) (unat stop)" using l n(1) by (auto simp: e(2))
  then show ?thesis using s2 n(1) by (auto simp: e(1))
qed

lemma nack_retx_ok:
  assumes inv: "tx_am_inv e" and r: "nack_retx e n = Some r"
  shows "retx_ok (tx_window e) r \<and> retx_sn r = nack_sn n"
proof -
  obtain i start stop where i: "cm_get (tx_window e) (nack_sn n) = Some i" "nack_so_range e n i = Some (start, stop)"
    using r by (auto simp: nack_retx_def option_bind_Some_conv split: if_splits)
  obtain start1 stop1 where s: "fst (nack_sanity (of_nat (length (tsi_sdu i))) start stop) = (start1, stop1)" by (rule prod.exhaust)
  have r': "r = \<lparr>retx_sn = nack_sn n, retx_so = ucast start1, retx_length = ucast stop1 - ucast start1 + 1\<rparr>"
    using r i s by (auto simp: nack_retx_def split: if_splits)
  have ms: "tsi_sdu i \<noteq> []" "length (tsi_sdu i) \<le> max_sdu"
    using inv i(1) by (auto simp: tx_am_inv_def tx_window_ok_def sdu_size_ok_def)
  have f: "unat start1 \<le> unat stop1" "unat stop1 < length (tsi_sdu i)"
    using nack_sanity_fits [OF _ ms(2) s] ms(1) by simp_all
  note c = unat_ucast_u16_u32
  have "unat (ucast stop1 - ucast start1 :: u32) = unat stop1 - unat start1"
    using f(1) c by (simp add: unat_sub word_le_nat_alt)
  moreover have "unat (ucast stop1 - ucast start1 :: u32) + unat (1 :: u32) < 2 ^ LENGTH(32)"
    using f(2) ms(2) calculation by (simp add: max_sdu_def)
  ultimately have "unat (retx_length r) = unat stop1 - unat start1 + 1"
    by (simp add: r' unat_add_lem [THEN iffD1])
  then show ?thesis using i(1) f c by (simp add: r' retx_ok_def)
qed

text \<open>What processing a list of NACKs does to the queue: their retransmissions are appended, up to its capacity.\<close>

definition no_holes :: "rlc_retx_queue \<Rightarrow> bool" where
  "no_holes q \<longleftrightarrow> (\<forall>it \<in> set (rq_items q). \<not> item_invalid it)"

lemma no_holes_length: "no_holes q \<Longrightarrow> length (rq_view q) = length (rq_items q)"
  by (simp add: no_holes_def rq_view_def valid_items_def)

definition retx_extended :: "rlc_tx_am_entity \<Rightarrow> rlc_tx_am_entity \<Rightarrow> rlc_am_status_nack list \<Rightarrow> bool" where
  "retx_extended e e' ns \<longleftrightarrow> tx_am_inv e' \<and> tx_frame e e' \<and> no_holes (retx_queue e') \<and>
     rq_view (retx_queue e') = take (unat (txa_window_size e)) (rq_view (retx_queue e) @ List.map_filter (nack_retx e) ns)"

lemma retx_extended_refl: "tx_am_inv e \<Longrightarrow> no_holes (retx_queue e) \<Longrightarrow> retx_extended e e []"
  by (simp add: retx_extended_def map_filter_simps tx_am_inv_def tx_queues_ok_def no_holes_length)

lemma retx_extended_trans:
  assumes "retx_extended e e1 xs" "retx_extended e1 e2 ys"
  shows "retx_extended e e2 (xs @ ys)"
proof -
  have f: "tx_frame e e1" "tx_frame e1 e2" using assms by (simp_all add: retx_extended_def)
  have "List.map_filter g (xs @ ys) = List.map_filter g xs @ List.map_filter g ys" for g :: "_ \<Rightarrow> rlc_tx_amd_retx option"
    by (simp add: List.map_filter_def)
  moreover have "take k (take k us @ vs) = take k (us @ vs)" for k and us vs :: "rlc_tx_amd_retx list"
    by (cases "length us \<le> k") auto
  moreover have "txa_cfg e1 = txa_cfg e" using f(1) by (simp add: tx_frame_def)
  ultimately show ?thesis
    using assms nack_retx_frame [OF f(1)] tx_frame_trans [OF f] by (simp add: retx_extended_def del: take_append)
qed

text \<open>SNs that the code may look up in the window.\<close>

definition nackable :: "rlc_tx_am_entity \<Rightarrow> u32 \<Rightarrow> bool" where
  "nackable e sn \<longleftrightarrow> sn < txa_mod e \<and> (sn = nxt e \<longrightarrow> under_seg e)"

lemma nackable_frame: "tx_frame e e' \<Longrightarrow> nackable e' = nackable e"
  by (simp add: nackable_def tx_frame_def fun_eq_iff)

lemma nackable_in_window:
  assumes inv: "tx_am_inv e" and n: "nackable e sn" and d: "tx_mod_base e sn \<le> tx_mod_base e (nxt e)"
  shows "cm_get (tx_window e) sn \<noteq> None"
proof -
  have m: "sn < txa_mod e" "nxt e < txa_mod e" using n inv by (simp_all add: nackable_def tx_am_inv_def tx_vars_ok_def)
  have "tx_dist e sn < tx_dist e (nxt e) \<or> sn = nxt e"
    using d tx_dist_inj [OF m] by (auto simp: word_le_def order_le_less)
  then have "in_flight e sn" using n m by (auto simp: in_flight_def nackable_def)
  then show ?thesis using inv by (simp add: tx_am_inv_def tx_window_ok_def)
qed

lemma handle_nack_ok:
  assumes inv: "tx_am_inv e" and nh: "no_holes (retx_queue e)" and n: "nackable e (nack_sn n)"
  shows "\<exists>e' evs ok. handle_nack n e = Some (e', evs, ok) \<and> retx_extended e e' [n] \<and>
    (ok \<longrightarrow> cm_get (tx_window e') (nack_sn n) \<noteq> None)"
proof -
  have ref: "retx_extended e e [n]" if "nack_retx e n = None"
    using retx_extended_refl [OF inv nh] that by (simp add: retx_extended_def map_filter_simps)
  have d0: "tx_mod_base e (tx_next_ack (txa_st e)) = 0" by (simp add: tx_mod_base_def)
  show ?thesis
  proof (cases "has_nack_range n \<or> tx_mod_base e (nack_sn n) > tx_mod_base e (nxt e)")
    case True
    then have "handle_nack n e = Some (e, [], False)" by (auto simp: handle_nack_def not_le)
    moreover have "nack_retx e n = None" using True by (simp add: nack_retx_def)
    ultimately show ?thesis using ref by blast
  next
    case False
    then obtain i where i: "cm_get (tx_window e) (nack_sn n) = Some i"
      using nackable_in_window [OF inv n] by (auto simp: not_less)
    have h: "handle_nack n e = (case nack_so_range e n i of None \<Rightarrow> Some (e, [], False)
        | Some (start, stop) \<Rightarrow> (case nack_sanity (of_nat (length (tsi_sdu i))) start stop of
              ((start1, stop1), evs) \<Rightarrow> (case rq_try_push (retx_queue e)
                 \<lparr>retx_sn = nack_sn n, retx_so = ucast start1, retx_length = ucast stop1 - ucast start1 + 1\<rparr> of
                   (q, pushed) \<Rightarrow> Some (e\<lparr>retx_queue := q\<rparr>, evs, pushed))))"
      using False i d0 by (auto simp: handle_nack_def not_less)
    show ?thesis
    proof (cases "nack_so_range e n i")
      case None
      then have "handle_nack n e = Some (e, [], False)" "nack_retx e n = None" using h i False by (simp_all add: nack_retx_def)
      then show ?thesis using ref by blast
    next
      case (Some ss)
      obtain start stop where ss: "ss = (start, stop)" by (rule prod.exhaust)
      obtain start1 stop1 evs where s: "nack_sanity (of_nat (length (tsi_sdu i))) start stop = ((start1, stop1), evs)"
        by (metis prod.exhaust)
      define r where "r = \<lparr>retx_sn = nack_sn n, retx_so = ucast start1, retx_length = ucast stop1 - ucast start1 + 1\<rparr>"
      obtain q ok where p: "rq_try_push (retx_queue e) r = (q, ok)" by (rule prod.exhaust)
      have nr: "nack_retx e n = Some r" using False i Some ss s by (simp add: nack_retx_def r_def)
      have he: "handle_nack n e = Some (e\<lparr>retx_queue := q\<rparr>, evs, ok)" unfolding h using Some ss s p by (simp add: r_def)
      have pi: "tx_am_inv (e\<lparr>retx_queue := q\<rparr>)" "rq_view q = (if ok then rq_view (retx_queue e) @ [r] else rq_view (retx_queue e))"
        using retx_push_inv [OF inv _ p] nack_retx_ok [OF inv nr] by blast+
      have cap: "rq_capacity (retx_queue e) = unat (txa_window_size e)" "length (rq_view (retx_queue e)) \<le> unat (txa_window_size e)"
        using inv no_holes_length [OF nh] by (simp_all add: tx_am_inv_def tx_queues_ok_def)
      have "no_holes q \<and> rq_view q = take (unat (txa_window_size e)) (rq_view (retx_queue e) @ [r])"
        using p nh pi(2) cap no_holes_length [OF nh] by (auto simp: rq_try_push_def no_holes_def split: if_splits)
      then have "retx_extended e (e\<lparr>retx_queue := q\<rparr>) [n]" using pi(1) nr by (simp add: retx_extended_def map_filter_simps)
      then show ?thesis using he i by auto
    qed
  qed
qed

lemma nack_and_count_ok:
  assumes inv: "tx_am_inv (fst ep)" and nh: "no_holes (retx_queue (fst ep))" and n: "nackable (fst ep) (nack_sn n)"
  shows "\<exists>ep' evs. nack_and_count n ep = Some (ep', evs) \<and> retx_extended (fst ep) (fst ep') [n]"
proof -
  obtain e' evs ok where h: "handle_nack n (fst ep) = Some (e', evs, ok)" "retx_extended (fst ep) e' [n]"
    "ok \<longrightarrow> cm_get (tx_window e') (nack_sn n) \<noteq> None"
    using handle_nack_ok [OF inv nh n] by blast
  show ?thesis
  proof (cases "ok \<and> snd ep \<noteq> nack_sn n")
    case False
    then show ?thesis using h by (auto simp: nack_and_count_def)
  next
    case True
    have i: "tx_am_inv e'" using h(2) by (simp add: retx_extended_def)
    obtain e2 evs2 where e2: "increment_retx_count (nack_sn n) e' = Some (e2, evs2)" "tx_am_inv e2" "tx_frame e' e2" "retx_queue e2 = retx_queue e'"
      using increment_retx_count_ok [OF i] h(3) True by blast
    have "retx_extended (fst ep) e2 [n]" using h(2) e2(2-4) tx_frame_trans by (auto simp: retx_extended_def)
    then show ?thesis using h(1) e2(1) True by (auto simp: nack_and_count_def)
  qed
qed

text \<open>A NACK range is a run of single NACKs, cut at ACK_SN.\<close>

definition range_length :: "u32 \<Rightarrow> u32 \<Rightarrow> rlc_am_status_nack \<Rightarrow> u32 \<Rightarrow> nat" where
  "range_length m ack n x = min (unat (sn_dist m x ((nack_sn n + ucast (nack_range n)) mod m))) (unat (sn_dist m x ack))"

definition nack_items :: "u32 \<Rightarrow> u32 \<Rightarrow> rlc_am_status_nack \<Rightarrow> rlc_am_status_nack list" where
  "nack_items m ack n = (if has_nack_range n
     then map (range_item m n) (sn_range m (nack_sn n) (range_length m ack n (nack_sn n))) else [n])"

lemma range_item_sn [simp]: "nack_sn (range_item m n x) = x" "\<not> has_nack_range (range_item m n x)"
  by (simp_all add: range_item_def rlc_am_status_nack_init_def Let_def)

lemma unat_dist_step:
  assumes "x < am_mod sz" "y < am_mod sz" "x \<noteq> y"
  shows "unat (sn_dist (am_mod sz) x y) = Suc (unat (sn_dist (am_mod sz) (sn_next (am_mod sz) x) y))"
proof -
  have "int (unat (sn_dist (am_mod sz) x y)) = int (Suc (unat (sn_dist (am_mod sz) (sn_next (am_mod sz) x) y)))"
    using am_sn.dist_step [OF assms] by (simp add: uint_nat [symmetric])
  then show ?thesis by (metis of_nat_eq_iff)
qed

lemma nack_range_loop_ok:
  assumes "tx_am_inv (fst ep)" "no_holes (retx_queue (fst ep))" "sz = txa_sz (fst ep)" "x < am_mod sz" "ack < am_mod sz"
    and "k = range_length (am_mod sz) ack n x"
    and "\<And>y. y \<in> set (sn_range (am_mod sz) x k) \<Longrightarrow> nackable (fst ep) y"
  shows "\<exists>ep' evs. nack_range_loop sz ack n x ep = Some (ep', evs) \<and>
    retx_extended (fst ep) (fst ep') (map (range_item (am_mod sz) n) (sn_range (am_mod sz) x k))"
  using assms
proof (induction k arbitrary: x ep)
  case 0
  let ?m = "am_mod sz" and ?stop = "(nack_sn n + ucast (nack_range n)) mod am_mod sz"
  have s: "?stop < ?m" by (cases sz) (simp_all add: word_mod_less_divisor)
  have "sn_dist ?m x ?stop = 0 \<or> sn_dist ?m x ack = 0"
    using "0.prems"(6) by (auto simp: range_length_def unat_eq_0 min_def split: if_splits)
  then have "x = ?stop \<or> x = ack" using am_sn.dist_zero_iff [of x sz] "0.prems"(4,5) s by blast
  then have "nack_range_loop sz ack n x ep = Some (ep, [])" by (auto simp: nack_range_loop.simps [of sz ack n x])
  then show ?case using retx_extended_refl "0.prems"(1,2) by auto
next
  case (Suc k)
  let ?m = "am_mod sz" and ?stop = "(nack_sn n + ucast (nack_range n)) mod am_mod sz" and ?nx = "sn_next (am_mod sz) x"
  have s: "?stop < ?m" by (cases sz) (simp_all add: word_mod_less_divisor)
  have ne: "x \<noteq> ?stop" "x \<noteq> ack" using Suc.prems(6) by (auto simp: range_length_def)
  have k: "k = range_length ?m ack n ?nx"
    using Suc.prems(6) unat_dist_step [OF Suc.prems(4) s ne(1)] unat_dist_step [OF Suc.prems(4,5) ne(2)]
    by (simp add: range_length_def)
  have nk: "nackable (fst ep) (nack_sn (range_item ?m n x))" using Suc.prems(7) by simp
  obtain ep1 evs where e1: "nack_and_count (range_item ?m n x) ep = Some (ep1, evs)" "retx_extended (fst ep) (fst ep1) [range_item ?m n x]"
    using nack_and_count_ok [OF Suc.prems(1,2) nk] by blast
  have f: "tx_am_inv (fst ep1)" "no_holes (retx_queue (fst ep1))" "tx_frame (fst ep) (fst ep1)"
    using e1(2) by (simp_all add: retx_extended_def)
  have "sz = txa_sz (fst ep1)" "nackable (fst ep1) = nackable (fst ep)"
    using Suc.prems(3) f(3) nackable_frame [OF f(3)] by (simp_all add: tx_frame_def)
  then obtain ep2 evs2 where e2: "nack_range_loop sz ack n ?nx ep1 = Some (ep2, evs2)"
    "retx_extended (fst ep1) (fst ep2) (map (range_item ?m n) (sn_range ?m ?nx k))"
    using Suc.IH [OF f(1,2) _ am_sn.next_less Suc.prems(5) k] Suc.prems(7) by auto
  have "nack_range_loop sz ack n x ep = Some (ep2, evs @ evs2)"
    using ne e1(1) e2(1) by (simp add: nack_range_loop.simps [of sz ack n x])
  then show ?case using retx_extended_trans [OF e1(2) e2(2)] by auto
qed

lemma process_nacks_ok:
  assumes "tx_am_inv (fst ep)" "no_holes (retx_queue (fst ep))" "ack < txa_mod (fst ep)"
    and "\<And>n y. n \<in> set ns \<Longrightarrow> y \<in> nack_sn ` set (nack_items (txa_mod (fst ep)) ack n) \<Longrightarrow> nackable (fst ep) y"
    and "\<And>n. n \<in> set ns \<Longrightarrow> nack_sn n < txa_mod (fst ep)"
  shows "\<exists>ep' evs. process_nacks ack ns ep = Some (ep', evs) \<and>
    retx_extended (fst ep) (fst ep') (concat (map (nack_items (txa_mod (fst ep)) ack) ns))"
  using assms
proof (induction ns arbitrary: ep)
  case Nil
  then show ?case using retx_extended_refl by auto
next
  case (Cons n ns)
  let ?m = "txa_mod (fst ep)"
  have nk: "y \<in> nack_sn ` set (nack_items ?m ack n) \<Longrightarrow> nackable (fst ep) y" for y using Cons.prems(4) [of n] by simp
  obtain ep1 evs where e1: "(if has_nack_range n then nack_range_loop (txa_sz (fst ep)) ack n (nack_sn n) ep
      else nack_and_count n ep) = Some (ep1, evs)" "retx_extended (fst ep) (fst ep1) (nack_items ?m ack n)"
  proof (cases "has_nack_range n")
    case True
    have "nack_sn ` set (nack_items ?m ack n) = set (sn_range ?m (nack_sn n) (range_length ?m ack n (nack_sn n)))"
      using True by (simp add: nack_items_def image_image)
    then have nk': "y \<in> set (sn_range ?m (nack_sn n) (range_length ?m ack n (nack_sn n))) \<Longrightarrow> nackable (fst ep) y" for y
      using nk by simp
    have sn: "nack_sn n < ?m" using Cons.prems(5) [of n] by simp
    obtain ep1 evs where "nack_range_loop (txa_sz (fst ep)) ack n (nack_sn n) ep = Some (ep1, evs)"
      "retx_extended (fst ep) (fst ep1) (map (range_item ?m n) (sn_range ?m (nack_sn n) (range_length ?m ack n (nack_sn n))))"
      using nack_range_loop_ok [OF Cons.prems(1,2) refl sn Cons.prems(3) refl nk'] by blast
    then show ?thesis using that True by (simp add: nack_items_def)
  next
    case False
    have "nackable (fst ep) (nack_sn n)" using nk False by (simp add: nack_items_def)
    from nack_and_count_ok [OF Cons.prems(1,2) this] obtain ep1 evs where
      "nack_and_count n ep = Some (ep1, evs)" "retx_extended (fst ep) (fst ep1) [n]" by blast
    then show ?thesis using that False by (simp add: nack_items_def)
  qed
  have f: "tx_am_inv (fst ep1)" "no_holes (retx_queue (fst ep1))" "tx_frame (fst ep) (fst ep1)"
    using e1(2) by (simp_all add: retx_extended_def)
  have m: "txa_mod (fst ep1) = ?m" "nackable (fst ep1) = nackable (fst ep)"
    using f(3) nackable_frame [OF f(3)] by (simp_all add: tx_frame_def)
  obtain ep2 evs2 where e2: "process_nacks ack ns ep1 = Some (ep2, evs2)"
    "retx_extended (fst ep1) (fst ep2) (concat (map (nack_items ?m ack) ns))"
    using Cons.IH [OF f(1,2)] Cons.prems(3-5) unfolding m by force
  have "process_nacks ack (n # ns) ep = Some (ep2, evs @ evs2)" using e1(1) e2(1) by simp
  then show ?case using retx_extended_trans [OF e1(2) e2(2)] by auto
qed

section \<open>A status report\<close>

text \<open>
  The reports the transmitter can digest.  A peer that reports \<open>tx_next + 1\<close> can only have seen a segment of the SDU
  under segmentation, and misses the rest of it, so there is such an SDU and the report has a NACK.
\<close>

definition status_plausible :: "rlc_tx_am_entity \<Rightarrow> rlc_am_status_pdu \<Rightarrow> bool" where
  "status_plausible e status \<longleftrightarrow> sp_ack_sn status < txa_mod e \<and> (\<forall>n \<in> set (sp_nacks status). nack_sn n < txa_mod e) \<and>
     (sp_ack_sn status = sn_next (txa_mod e) (nxt e) \<longrightarrow> under_seg e \<and> sp_nacks status \<noteq> [])"

lemma valid_nacks_all: "valid_nacks ack ns e = (True, evs) \<Longrightarrow> n \<in> set ns \<Longrightarrow> fst (valid_nack ack n e)"
  by (induction ns) (auto split: prod.splits bool.splits)

lemma status_accepted_bounds:
  assumes a: "status_accepted status e = (True, evs)" and vars: "tx_vars_ok e"
  shows "0 < tx_dist e (sp_ack_sn status)" "tx_dist e (sp_ack_sn status) \<le> tx_dist e (nxt e) + 1"
    "n \<in> set (sp_nacks status) \<Longrightarrow> tx_dist e (nack_sn n) < tx_dist e (sp_ack_sn status)"
proof -
  have d: "tx_dist e (nxt e + 1) = tx_dist e (nxt e) + 1"
  proof -
    have n1: "uint (nxt e + 1) = uint (nxt e) + 1"
    proof -
      have "uint (nxt e) < uint (txa_mod e)" using vars by (simp add: tx_vars_ok_def word_less_def)
      then have "uint (nxt e) + 1 < 2 ^ 32" by (cases "txa_sz e") simp_all
      then show ?thesis by (simp add: uint_word_ariths)
    qed
    have "tx_dist e (nxt e) + 1 < uint (txa_mod e)"
      using vars am_window_half [of "txa_sz e"] tx_window_sizes [of e] unfolding tx_vars_ok_def by (cases "under_seg e") auto
    moreover have "tx_dist e (nxt e + 1) = (tx_dist e (nxt e) + 1) mod uint (txa_mod e)"
      unfolding tx_mod_base_def am_sn.uint_sn_dist n1 by (simp add: mod_simps algebra_simps)
    ultimately show ?thesis using uint_ge_0 [of "tx_mod_base e (nxt e)"] by simp
  qed
  show "0 < tx_dist e (sp_ack_sn status)" "tx_dist e (sp_ack_sn status) \<le> tx_dist e (nxt e) + 1"
    using a d by (auto simp: status_accepted_def valid_ack_sn_def word_less_def split: if_splits)
  assume "n \<in> set (sp_nacks status)"
  moreover have "valid_nacks (sp_ack_sn status) (sp_nacks status) e = (True, evs)"
    using a by (auto simp: status_accepted_def split: if_splits)
  ultimately have "fst (valid_nack (sp_ack_sn status) n e)" by (rule valid_nacks_all [rotated])
  then show "tx_dist e (nack_sn n) < tx_dist e (sp_ack_sn status)"
    by (auto simp: valid_nack_def Let_def word_less_def not_le split: if_splits)
qed


text \<open>The SNs of a NACK are below ACK_SN, so the transmitter holds them.\<close>

lemma sn_range_below:
  assumes "x \<in> set (sn_range (txa_mod e) y j)" "y < txa_mod e" "tx_dist e y + int j \<le> tx_dist e ack"
  shows "x < txa_mod e \<and> tx_dist e x < tx_dist e ack"
  using assms
proof (induction j arbitrary: y)
  case (Suc j)
  have "tx_dist e (sn_next (txa_mod e) y) = tx_dist e y + 1"
    using am_sn.dist_next_below [of "txa_sz e" "tx_next_ack (txa_st e)" y ack] Suc.prems(3) by (simp add: tx_mod_base_def)
  then show ?case using Suc.prems Suc.IH [of "sn_next (txa_mod e) y"] am_sn.next_less [of "txa_sz e" y] by (cases "x = y") auto
qed simp

lemma nack_items_below:
  assumes n: "nack_sn n < txa_mod e" "tx_dist e (nack_sn n) < tx_dist e ack" and y: "y \<in> nack_sn ` set (nack_items (txa_mod e) ack n)"
  shows "y < txa_mod e \<and> tx_dist e y < tx_dist e ack"
proof (cases "has_nack_range n")
  case False
  then show ?thesis using n y by (simp add: nack_items_def)
next
  case True
  let ?k = "range_length (txa_mod e) ack n (nack_sn n)"
  have y': "y \<in> set (sn_range (txa_mod e) (nack_sn n) ?k)" using y True by (auto simp: nack_items_def)
  have "?k \<le> unat (sn_dist (txa_mod e) (nack_sn n) ack)" by (simp add: range_length_def)
  then have "int ?k \<le> uint (sn_dist (txa_mod e) (nack_sn n) ack)" unfolding uint_nat by (rule of_nat_mono)
  also have "\<dots> = tx_dist e ack - tx_dist e (nack_sn n)"
    using am_sn.dist_rebase_le [of "txa_sz e" "tx_next_ack (txa_st e)" "nack_sn n" ack] n(2) by (simp add: tx_mod_base_def)
  finally show ?thesis by (intro sn_range_below [OF y' n(1)]) simp
qed

text \<open>The retransmissions a report asks for, in order.\<close>

definition status_items :: "rlc_tx_am_entity \<Rightarrow> rlc_am_status_pdu \<Rightarrow> rlc_am_status_nack list" where
  "status_items e status = concat (map (nack_items (txa_mod e) (sp_ack_sn status)) (sp_nacks status))"

definition status_effect :: "rlc_am_status_pdu \<Rightarrow> rlc_tx_am_entity \<Rightarrow> rlc_tx_am_entity \<Rightarrow> bool" where
  "status_effect status e e' \<longleftrightarrow>
     tx_next_ack (txa_st e') = ack_stop_sn status \<and> nxt e' = nxt e \<and>
     (\<forall>sn. sdu_at e' sn = (if tx_dist e sn < tx_dist e (ack_stop_sn status) then None else sdu_at e sn)) \<and>
     rq_view (retx_queue e') = take (unat (txa_window_size e)) (List.map_filter (nack_retx e') (status_items e status))"

lemma handle_status_pdu_ok:
  assumes inv: "tx_am_inv e" and pl: "status_plausible e status"
  shows "\<exists>e' evs. handle_status_pdu rx status e = Some (e', evs) \<and> tx_am_inv e' \<and>
    (if fst (status_accepted status e) then status_effect status e e' else e' = e)"
proof -
  obtain ok evs where acc: "status_accepted status e = (ok, evs)" by (rule prod.exhaust)
  show ?thesis
  proof (cases ok)
    case False
    then show ?thesis using acc inv by (simp add: handle_status_pdu_def)
  next
    case True
    let ?stop = "ack_stop_sn status" and ?ack = "sp_ack_sn status"
    have vars: "tx_vars_ok e" using inv by (simp add: tx_am_inv_def)
    have a: "status_accepted status e = (True, evs)" using acc True by simp
    note b = status_accepted_bounds [OF a vars]
    have m: "?ack < txa_mod e" "nxt e < txa_mod e" "n \<in> set (sp_nacks status) \<Longrightarrow> nack_sn n < txa_mod e" for n
      using pl vars by (simp_all add: status_plausible_def tx_vars_ok_def)
    have dn: "tx_dist e (sn_next (txa_mod e) (nxt e)) = tx_dist e (nxt e) + 1"
    proof -
      have "tx_dist e (nxt e) + 1 < uint (txa_mod e)"
        using vars am_window_half [of "txa_sz e"] tx_window_sizes [of e] unfolding tx_vars_ok_def by (cases "under_seg e") auto
      then show ?thesis by (simp add: tx_mod_base_def am_sn.uint_dist_next)
    qed
    have top: "?ack = sn_next (txa_mod e) (nxt e)" if "tx_dist e ?ack = tx_dist e (nxt e) + 1"
      by (rule tx_dist_inj [OF m(1) am_sn.next_less]) (use that dn in simp)
    have stop: "?stop < txa_mod e" "tx_dist e ?stop \<le> tx_dist e (nxt e)"
    proof -
      have "?stop < txa_mod e \<and> tx_dist e ?stop \<le> tx_dist e (nxt e)"
      proof (cases "sp_nacks status")
        case Nil
        then have "tx_dist e ?ack \<noteq> tx_dist e (nxt e) + 1" using top pl by (auto simp: status_plausible_def)
        then show ?thesis using Nil m(1) b(2) by (simp add: ack_stop_sn_def)
      next
        case (Cons n ns)
        then show ?thesis using m(3) [of n] b(2) b(3) [of n] by (simp add: ack_stop_sn_def)
      qed
      then show "?stop < txa_mod e" "tx_dist e ?stop \<le> tx_dist e (nxt e)" by simp_all
    qed
    define e0 where "e0 = stop_poll_timer status e"
    have e0: "tx_core e0 = tx_core e" "tx_frame e e0" by (simp_all add: e0_def stop_poll_timer_def tx_core_def tx_frame_def)
    note c0 = tx_coreD [OF e0(1)]
    have mb0: "tx_mod_base e0 = tx_mod_base e" by (rule tx_frame_mod_base [OF e0(2)])
    have i0: "tx_base_inv e0" using tx_base_inv_cong [OF e0(1)] tx_am_invD [OF inv] by simp
    have "\<exists>e1. ack_loop ?stop (tx_next_ack (txa_st e0)) e0 None None =
        (e1, last_psn False (acked_infos e0 ?stop) None, last_psn True (acked_infos e0 ?stop) None) \<and> tx_base_inv e1 \<and> acks_done ?stop e0 e1"
      by (rule ack_loop_ok [OF i0]) (use stop c0 mb0 in simp_all)
    then obtain e1 where e1: "ack_loop ?stop (tx_next_ack (txa_st e0)) e0 None None =
        (e1, last_psn False (acked_infos e0 ?stop) None, last_psn True (acked_infos e0 ?stop) None)" "tx_base_inv e1" "acks_done ?stop e0 e1"
      by blast
    obtain evs1 where p: "process_acks status e0 = (e1, evs1)" using e1(1) by (simp add: process_acks_def)
    obtain e2 where e2: "clear_retx e1 = Some e2" "tx_am_inv e2" "tx_frame e1 e2" "rq_items (retx_queue e2) = []"
      using clear_retx_ok [OF e1(2)] by blast
    have same: "txa_cfg e2 = txa_cfg e" "nxt e2 = nxt e" "sn_under_segmentation e2 = sn_under_segmentation e" "tx_next_ack (txa_st e2) = ?stop"
      using e1(3) e2(3) c0 by (simp_all add: acks_done_def tx_frame_def)
    have nk: "nackable e2 y" if "n \<in> set (sp_nacks status)" "y \<in> nack_sn ` set (nack_items (txa_mod e) ?ack n)" for n y
    proof -
      have y: "y < txa_mod e" "tx_dist e y < tx_dist e ?ack" using nack_items_below [OF m(3) b(3)] that by blast+
      have "y = nxt e \<Longrightarrow> under_seg e" using y(2) b(2) top pl by (fastforce simp: status_plausible_def)
      then show ?thesis using y(1) by (simp add: nackable_def same)
    qed
    have nh: "no_holes (retx_queue e2)" using e2(4) by (simp add: no_holes_def)
    obtain ep evs2 where e3: "process_nacks ?ack (sp_nacks status) (e2, INVALID_RLC_SN) = Some (ep, evs2)"
      "retx_extended e2 (fst ep) (status_items e status)"
      using process_nacks_ok [of "(e2, INVALID_RLC_SN)" ?ack "sp_nacks status"] e2(2) nh m(1,3) nk
      by (auto simp: same status_items_def)
    obtain e4 evs3 where e4: "update_mac_buffer_state True rx (fst ep) = Some (e4, evs3)" "tx_am_inv e4" "tx_frame (fst ep) e4"
      "retx_queue e4 = retx_queue (fst ep)"
    proof -
      have "tx_am_inv (fst ep)" using e3(2) by (simp add: retx_extended_def)
      from update_mac_buffer_state_ok [OF this] show ?thesis using that by blast
    qed
    have h: "handle_status_pdu rx status e = Some (e4, evs @ evs1 @ evs2 @ evs3)"
      using a p e2(1) e3(1) e4(1) by (cases ep) (simp add: handle_status_pdu_def e0_def)
    have f: "tx_frame e2 e4" using e3(2) e4(3) tx_frame_trans by (auto simp: retx_extended_def)
    have "sdu_at e4 sn = (if tx_dist e sn < tx_dist e ?stop then None else sdu_at e sn)" for sn
    proof -
      have "sdu_at e4 sn = sdu_at e1 sn" using f e2(3) by (simp add: tx_frame_def)
      then show ?thesis using e1(3) c0 mb0 by (simp add: sdu_at_def acks_done_def)
    qed
    moreover have "nack_retx e4 = nack_retx e2" by (rule nack_retx_frame [OF f])
    moreover have "rq_view (retx_queue e2) = []" using e2(4) by (simp add: rq_view_def)
    ultimately have "status_effect status e e4"
      using e3(2) e4(4) f same by (simp add: status_effect_def retx_extended_def tx_frame_def)
    then show ?thesis using h e4(2) a by simp
  qed
qed

end
