(* ===== verification/Rlc_Rx_Am_Inv.thy ===== *)
theory Rlc_Rx_Am_Inv
  imports Rlc_Rx_Am
begin

text \<open>
  The invariant of the receiving RLC AM entity and its preservation by every operation: the receive
  window and its state variables, t-Reassembly's trigger, and the cached status report.  The last
  sections define the executions of the entity and state its properties.
\<close>

section \<open>The loops that move the state variables\<close>

context sn_space
begin

lemma first_not_loop:
  assumes start: "i0 < m" "uint (sn_dist m b i0) \<le> uint (sn_dist m b stop)"
    and loop: "sn_loop m b stop (\<lambda>i (_ :: unit). if Q i then Some () else None) i0 () = (j, u)"
  shows "j < m \<and> uint (sn_dist m b i0) \<le> uint (sn_dist m b j) \<and> uint (sn_dist m b j) \<le> uint (sn_dist m b stop) \<and>
    (uint (sn_dist m b j) = uint (sn_dist m b stop) \<or> \<not> Q j) \<and>
    (\<forall>k < m. uint (sn_dist m b i0) \<le> uint (sn_dist m b k) \<longrightarrow> uint (sn_dist m b k) < uint (sn_dist m b j) \<longrightarrow> Q k)"
proof -
  let ?d = "\<lambda>x. uint (sn_dist m b x)"
  define I where "I i (u :: unit) \<longleftrightarrow> i < m \<and> ?d i0 \<le> ?d i \<and> (\<forall>k < m. ?d i0 \<le> ?d k \<longrightarrow> ?d k < ?d i \<longrightarrow> Q k)" for i u
  have init: "I i0 ()" using start by (simp add: I_def)
  have step: "I (sn_next m i) u'"
    if "I i u" "?d i < ?d stop" "(if Q i then Some () else None) = Some u'" for i u u'
  proof -
    have n: "?d (sn_next m i) = ?d i + 1" by (rule dist_next_below [OF that(2)])
    have q: "Q i" using that(3) by (simp split: if_splits)
    have "Q k" if "k < m" "?d i0 \<le> ?d k" "?d k < ?d i + 1" for k
    proof (cases "?d k = ?d i")
      case True
      then show ?thesis using q dist_inj [of k i b] \<open>I i u\<close> that(1) by (simp add: I_def)
    next
      case False
      then show ?thesis using \<open>I i u\<close> that by (simp add: I_def)
    qed
    then show ?thesis using that n next_less by (auto simp: I_def)
  qed
  have "I j u \<and> ?d i0 \<le> ?d j \<and> ?d j \<le> ?d stop \<and> (?d j = ?d stop \<or> (if Q j then Some () else None) = None)"
    by (rule sn_loop_rule [where I = I, OF init start(2) _ loop]) (rule step)
  then show ?thesis by (auto simp: I_def split: if_splits)
qed

lemma remove_received_loop:
  assumes b: "b < m" and wf: "cm_wf w0" and keys: "\<forall>k. cm_get w0 k \<noteq> None \<longrightarrow> k < m"
    and loop: "sn_loop m b stop (\<lambda>i w. if fully_received_at w i then remove_sn w i else None) b w0 = (j, w)"
  shows "j < m \<and> uint (sn_dist m b j) \<le> uint (sn_dist m b stop) \<and>
    (uint (sn_dist m b j) = uint (sn_dist m b stop) \<or> \<not> fully_received_at w j) \<and>
    (\<forall>k < m. uint (sn_dist m b k) < uint (sn_dist m b j) \<longrightarrow> fully_received_at w0 k) \<and>
    cm_wf w \<and> cm_max_size w = cm_max_size w0 \<and>
    (\<forall>k. cm_get w k = (if uint (sn_dist m b k) < uint (sn_dist m b j) then None else cm_get w0 k))"
proof -
  let ?d = "\<lambda>x. uint (sn_dist m b x)"
  define I where "I i w \<longleftrightarrow> i < m \<and> (\<forall>k < m. ?d k < ?d i \<longrightarrow> fully_received_at w0 k) \<and>
    cm_wf w \<and> cm_max_size w = cm_max_size w0 \<and> (\<forall>k. cm_get w k = (if ?d k < ?d i then None else cm_get w0 k))" for i w
  have init: "I b w0" using b wf by (simp add: I_def)
  have step: "I (sn_next m i) w'"
    if I: "I i w" and lt: "?d i < ?d stop" and body: "(if fully_received_at w i then remove_sn w i else None) = Some w'"
    for i w w'
  proof -
    have n: "?d (sn_next m i) = ?d i + 1" by (rule dist_next_below [OF lt])
    have full: "fully_received_at w i" using body by (simp split: if_splits)
    then have "has_sn w i" by (auto simp: fully_received_at_def cm_contains_get split: option.splits)
    then have w': "w' = fst (cm_erase w i)" using body full remove_sn_Some [of w i] by simp
    have eq: "?d k = ?d i \<longleftrightarrow> k = i" if "k < m" for k
      using dist_inj [of k i b] that I by (auto simp: I_def)
    have "fully_received_at w0 i" using full I by (simp add: I_def fully_received_at_def)
    then have 1: "\<forall>k < m. ?d k < ?d i + 1 \<longrightarrow> fully_received_at w0 k"
      using I eq unfolding I_def by (metis zle_add1_eq_le zless_add1_eq)
    have 2: "cm_get w' k = (if ?d k < ?d i + 1 then None else cm_get w0 k)" for k
      using I eq [of k] keys unfolding w' cm_get_erase I_def by (cases "cm_get w0 k"; force)
    show ?thesis using I 1 2 n next_less unfolding I_def w' by (simp add: cm_wf_erase)
  qed
  have le: "?d b \<le> ?d stop" by simp
  have "I j w \<and> ?d b \<le> ?d j \<and> ?d j \<le> ?d stop \<and>
      (?d j = ?d stop \<or> (if fully_received_at w j then remove_sn w j else None) = None)"
    by (rule sn_loop_rule [where I = I, OF init le _ loop]) (rule step)
  moreover have "fully_received_at w j \<Longrightarrow> remove_sn w j \<noteq> None"
    by (auto simp: fully_received_at_def cm_contains_get remove_sn_Some split: option.splits)
  ultimately show ?thesis by (auto simp: I_def split: if_splits)
qed

end

section \<open>The receiver invariant\<close>

text \<open>
  \<open>rx_core\<close> is the part on the window: RX_Next, RX_Highest_Status and RX_Next_Highest are ordered and
  at most a window apart, the window holds only SNs between RX_Next and RX_Next_Highest, with sound
  buffers, and the SN below RX_Next_Highest is present.
\<close>

abbreviation sn_off :: "rlc_am_sn_size \<Rightarrow> u32 \<Rightarrow> u32 \<Rightarrow> int" where
  "sn_off sz b x \<equiv> uint (sn_dist (am_mod sz) b x)"

abbreviation win_len :: "rlc_am_sn_size \<Rightarrow> int" where
  "win_len sz \<equiv> uint (window_size (am_to_number sz))"

definition rx_core :: "rlc_am_sn_size \<Rightarrow> u32 \<Rightarrow> u32 \<Rightarrow> u32 \<Rightarrow> rx_sdu_info circular_map \<Rightarrow> bool" where
  "rx_core sz b hs nh w \<longleftrightarrow> cm_wf w \<and> cm_max_size w = window_size (am_to_number sz) \<and>
     b < am_mod sz \<and> hs < am_mod sz \<and> nh < am_mod sz \<and>
     sn_off sz b hs \<le> sn_off sz b nh \<and> sn_off sz b nh \<le> win_len sz \<and>
     (\<forall>k i. cm_get w k = Some i \<longrightarrow> k < am_mod sz \<and> sn_off sz b k < sn_off sz b nh \<and> info_wf i) \<and>
     (nh \<noteq> b \<longrightarrow> (\<exists>k. sn_next (am_mod sz) k = nh \<and> cm_get w k \<noteq> None))"

lemma rx_core_nh_not_in:
  "rx_core sz b hs nh w \<Longrightarrow> \<not> fully_received_at w nh"
  by (auto simp: rx_core_def fully_received_at_def split: option.splits)

text \<open>Placing an SN of the window in the buffer and raising RX_Next_Highest.\<close>

lemma rx_core_put:
  assumes c: "rx_core sz b hs nh w" and sn: "sn < am_mod sz" "sn_off sz b sn < win_len sz" and i: "info_wf i"
    and w': "cm_get w' = (cm_get w)(sn \<mapsto> i)" "cm_wf w'" "cm_max_size w' = cm_max_size w"
  shows "rx_core sz b hs (if sn_off sz b nh \<le> sn_off sz b sn then sn_next (am_mod sz) sn else nh) w'"
proof -
  have m: "uint (am_mod sz) = 2 * win_len sz" by (rule am_window_half)
  have n: "sn_off sz b (sn_next (am_mod sz) sn) = sn_off sz b sn + 1"
  proof -
    have "0 \<le> sn_off sz b sn" by simp
    then have "(sn_off sz b sn + 1) mod uint (am_mod sz) = sn_off sz b sn + 1"
      using sn(2) unfolding m by (intro mod_pos_pos_trivial) linarith+
    then show ?thesis using am_sn.uint_dist_next [of sz b sn] by simp
  qed
  have neq: "sn_next (am_mod sz) sn \<noteq> b"
    using n by (metis am_sn.dist_self uint_0_eq uint_ge_0 zle_add1_eq_le order_less_irrefl)
  show ?thesis
  proof (cases "sn_off sz b nh \<le> sn_off sz b sn")
    case True
    have "\<exists>k. sn_next (am_mod sz) k = sn_next (am_mod sz) sn \<and> cm_get w' k \<noteq> None"
      using w'(1) by (intro exI [of _ sn]) simp
    then show ?thesis using c True n sn i w' am_sn.next_less unfolding rx_core_def by (fastforce split: if_splits)
  next
    case False
    have "nh \<noteq> b \<longrightarrow> (\<exists>k. sn_next (am_mod sz) k = nh \<and> cm_get w' k \<noteq> None)"
      using c w'(1) unfolding rx_core_def by (metis fun_upd_apply option.distinct(1))
    then show ?thesis using c False sn i w' unfolding rx_core_def by (auto split: if_splits)
  qed
qed

text \<open>Moving RX_Highest_Status to the first SN behind it that is not fully received.\<close>

lemma rx_core_highest:
  assumes c: "rx_core sz b hs nh w" and f: "fully_received_at w hs"
    and loop: "sn_loop (am_mod sz) b nh (\<lambda>i (_ :: unit). if fully_received_at w i then Some () else None)
      (sn_next (am_mod sz) hs) () = (j, u)"
  shows "rx_core sz b j nh w \<and> \<not> fully_received_at w j \<and> sn_off sz b hs < sn_off sz b j"
proof -
  have lt: "sn_off sz b hs < sn_off sz b nh"
    using c f by (auto simp: rx_core_def fully_received_at_def split: option.splits)
  have n: "sn_off sz b (sn_next (am_mod sz) hs) = sn_off sz b hs + 1" by (rule am_sn.dist_next_below [OF lt])
  have j: "j < am_mod sz \<and> sn_off sz b hs + 1 \<le> sn_off sz b j \<and> sn_off sz b j \<le> sn_off sz b nh \<and>
    (sn_off sz b j = sn_off sz b nh \<or> \<not> fully_received_at w j)"
    using am_sn.first_not_loop [OF am_sn.next_less _ loop] n lt by auto
  then have "j = nh \<or> \<not> fully_received_at w j"
    using c am_sn.dist_inj [of j sz nh b] by (auto simp: rx_core_def)
  then have "\<not> fully_received_at w j" using rx_core_nh_not_in [OF c] by auto
  then show ?thesis using c j unfolding rx_core_def by auto
qed

text \<open>Moving RX_Next over the fully received SDUs.\<close>

lemma rx_core_next:
  assumes c: "rx_core sz b hs nh w" and hs: "\<not> fully_received_at w hs"
    and loop: "sn_loop (am_mod sz) b nh (\<lambda>i w. if fully_received_at w i then remove_sn w i else None) b w = (j, w')"
  shows "rx_core sz j hs nh w' \<and> \<not> fully_received_at w' j \<and> \<not> fully_received_at w' hs \<and>
    sn_off sz b j \<le> sn_off sz b nh \<and> j < am_mod sz \<and>
    (\<forall>k. cm_get w' k = (if sn_off sz b k < sn_off sz b j then None else cm_get w k))"
proof -
  have b: "b < am_mod sz" "cm_wf w" "\<forall>k. cm_get w k \<noteq> None \<longrightarrow> k < am_mod sz" using c by (auto simp: rx_core_def)
  note r = am_sn.remove_received_loop [OF b loop]
  have le: "sn_off sz b j \<le> sn_off sz b hs" using r hs c by (auto simp: rx_core_def not_le [symmetric])
  have re: "sn_off sz j x = sn_off sz b x - sn_off sz b j" if "sn_off sz b j \<le> sn_off sz b x" for x
    by (rule am_sn.dist_rebase_le [OF that])
  have nh: "sn_off sz j nh = sn_off sz b nh - sn_off sz b j" "sn_off sz j hs = sn_off sz b hs - sn_off sz b j"
    using re r le by auto
  have jnf: "\<not> fully_received_at w' j"
  proof (cases "sn_off sz b j = sn_off sz b nh")
    case True
    then have "j = nh" using r c am_sn.dist_inj [of j sz nh b] by (auto simp: rx_core_def)
    then show ?thesis using r rx_core_nh_not_in [OF c] by (simp add: fully_received_at_def)
  qed (use r in auto)
  have keys: "k < am_mod sz \<and> sn_off sz j k < sn_off sz j nh \<and> info_wf i" if "cm_get w' k = Some i" for k i
  proof -
    have k: "\<not> sn_off sz b k < sn_off sz b j" "cm_get w k = Some i" using that r by (auto split: if_splits)
    then show ?thesis using c re [of k] nh(1) unfolding rx_core_def by fastforce
  qed
  have top: "\<exists>k. sn_next (am_mod sz) k = nh \<and> cm_get w' k \<noteq> None" if "nh \<noteq> j"
  proof -
    have lt: "sn_off sz b j < sn_off sz b nh"
      using that r c am_sn.dist_inj [of j sz nh b] unfolding rx_core_def by fastforce
    then have "nh \<noteq> b" by auto
    then obtain k where k: "sn_next (am_mod sz) k = nh" "cm_get w k \<noteq> None" using c by (auto simp: rx_core_def)
    then have "sn_off sz b k < sn_off sz b nh" using c by (auto simp: rx_core_def)
    then have "sn_off sz b nh = sn_off sz b k + 1" using am_sn.dist_next_below [of sz b k nh] k(1) by simp
    then show ?thesis using k r lt by (intro exI [of _ k]) auto
  qed
  have "\<not> fully_received_at w' hs" using r hs by (auto simp: fully_received_at_def split: option.splits)
  moreover have "sn_off sz j hs \<le> sn_off sz j nh" "sn_off sz j nh \<le> win_len sz"
    using c nh uint_ge_0 [of "sn_dist (am_mod sz) b j"] unfolding rx_core_def by linarith+
  moreover have "cm_max_size w' = window_size (am_to_number sz)" using r c by (simp add: rx_core_def)
  moreover from this have "rx_core sz j hs nh w'"
    using c r keys top calculation(2,3) unfolding rx_core_def by blast
  ultimately show ?thesis using r jnf by blast
qed

section \<open>Placing a PDU in the window\<close>

abbreviation rxa_size :: "rlc_rx_am_entity \<Rightarrow> rlc_am_sn_size" where
  "rxa_size e \<equiv> rx_sn_field_length (rxa_cfg e)"

lemma window_with_sn_get:
  assumes c: "rx_core sz b hs nh w" and sn: "sn < am_mod sz" "sn_off sz b sn < win_len sz"
  shows "\<exists>w1 i0. window_with_sn w sn = Some (w1, i0) \<and> cm_get w1 = (cm_get w)(sn \<mapsto> i0) \<and> cm_wf w1 \<and>
    cm_max_size w1 = cm_max_size w \<and> i0 = (case cm_get w sn of None \<Rightarrow> rx_sdu_info_init | Some i \<Rightarrow> i)"
proof (cases "cm_get w sn")
  case None
  have cap: "uint (cm_max_size w) = win_len sz" "cm_wf w" using c by (auto simp: rx_core_def)
  have "cmw.spans (am_mod sz) b w"
    unfolding cmw.spans_def cap using c by (fastforce simp: rx_core_def)
  moreover have "uint (cm_max_size w) dvd uint (am_mod sz)" unfolding cap am_window_half by simp
  ultimately have "cm_get (cm_overwrite w sn rx_sdu_info_init) = (cm_get w)(sn \<mapsto> rx_sdu_info_init)"
    by (intro cmw.get_put_span [OF am_sn.sn_space_axioms]) (use cap sn in simp_all)
  then show ?thesis using None cap
    by (simp add: window_with_sn_def add_sn_Some cm_contains_get cm_wf_overwrite)
next
  case (Some i)
  then show ?thesis using c by (auto simp: window_with_sn_def rx_core_def fun_eq_iff)
qed

definition pdu_bounded :: "rlc_am_pdu_header \<Rightarrow> bytes \<Rightarrow> bool" where
  "pdu_bounded header payload \<longleftrightarrow> am_si header = full_sdu \<or> unat (am_so header) + length payload \<le> 65535"

lemma place_window:
  assumes c: "rx_core (rxa_size e) b hs nh (rx_window e)"
    and sn: "am_sn h < am_mod (rxa_size e)" "sn_off (rxa_size e) b (am_sn h) < win_len (rxa_size e)"
    and new: "\<not> fully_received_at (rx_window e) (am_sn h)"
    and pl: "payload \<noteq> []" "pdu_bounded h payload"
  shows "\<exists>w i ch. (if am_si h = full_sdu then handle_full_data_sdu e h payload else handle_segment_data_sdu e h payload)
      = Some (e\<lparr>rx_window := w\<rparr>, ch) \<and> cm_get w = (cm_get (rx_window e))(am_sn h \<mapsto> i) \<and> cm_wf w \<and>
    cm_max_size w = cm_max_size (rx_window e) \<and> info_wf i \<and> (\<not> ch \<longrightarrow> cm_get (rx_window e) (am_sn h) = Some i)"
proof -
  obtain w1 i0 where w1: "window_with_sn (rx_window e) (am_sn h) = Some (w1, i0)"
    "cm_get w1 = (cm_get (rx_window e))(am_sn h \<mapsto> i0)" "cm_wf w1" "cm_max_size w1 = cm_max_size (rx_window e)"
    "i0 = (case cm_get (rx_window e) (am_sn h) of None \<Rightarrow> rx_sdu_info_init | Some i \<Rightarrow> i)"
    using window_with_sn_get [OF c sn] by blast
  have md: "cm_get (cm_modify w1 (am_sn h) (\<lambda>_. i)) = (cm_get (rx_window e))(am_sn h \<mapsto> i)" for i
    by (rule ext) (simp add: cm_get_modify w1(2))
  show ?thesis
  proof (cases "am_si h = full_sdu")
    case True
    let ?i = "i0\<lparr>info_data := Full_sdu payload, fully_received := True, has_gap := False\<rparr>"
    have "info_wf ?i" by (simp add: info_wf_def)
    then show ?thesis using True w1(1,3,4) md [of ?i]
      by (intro exI [of _ "cm_modify w1 (am_sn h) (\<lambda>_. ?i)"] exI [of _ ?i] exI [of _ True])
        (simp add: handle_full_data_sdu_def cm_wf_modify)
  next
    case False
    let ?sg = "\<lparr>seg_si = am_si h, seg_so = am_so h, seg_payload = payload\<rparr>"
    have sg: "seg_wf ?sg" using pl False by (simp add: seg_wf_def pdu_bounded_def)
    have i0: "((\<exists>ss. info_data i0 = Segment_set ss \<and> segs_ok seg_wf 0 ss \<and> inventory_loop 0 ss = (has_gap i0, False))
        \<or> i0 = rx_sdu_info_init \<and> cm_get (rx_window e) (am_sn h) = None) \<and> \<not> fully_received i0"
    proof (cases "cm_get (rx_window e) (am_sn h)")
      case None
      then show ?thesis using w1(5) by (simp add: rx_sdu_info_init_def)
    next
      case (Some j)
      then have "info_wf j" "\<not> fully_received j" using c new by (auto simp: rx_core_def fully_received_at_def)
      then show ?thesis using w1(5) Some by (simp add: info_wf_def split: sdu_data.splits)
    qed
    then have ok: "segs_ok seg_wf 0 (segments_of (info_data i0))"
      by (auto simp: segments_of_def rx_sdu_info_init_def)
    obtain i ss st where r: "receive_segment i0 ?sg = Some (i, st)" "info_data i = Segment_set ss"
      "segs_ok seg_wf 0 ss" "st \<longleftrightarrow> \<not> seg_dom ?sg \<subseteq> segs_dom (segments_of (info_data i0))"
      "inventory_loop 0 ss = (has_gap i, fully_received i)"
      using bounded.receive_segment_segs [OF ok sg] by blast
    have "info_wf i" using r by (auto simp: info_wf_def)
    moreover have "cm_get (rx_window e) (am_sn h) = Some i" if "\<not> st"
    proof -
      have "segments_of (info_data i0) \<noteq> []" "i = i0"
        using bounded.receive_segment_dropped [OF ok sg, of i] r(1) i0 that
        by (auto simp: segments_of_def rx_sdu_info_init_def)
      then show ?thesis using i0 w1(5) by (auto simp: rx_sdu_info_init_def segments_of_def split: option.splits)
    qed
    ultimately show ?thesis using False w1(1,3,4) md [of i] r(1)
      by (intro exI [of _ "cm_modify w1 (am_sn h) (\<lambda>_. i)"] exI [of _ i] exI [of _ st])
        (simp add: handle_segment_data_sdu_def cm_wf_modify)
  qed
qed

section \<open>Preservation by the steps of a reception\<close>

definition e_core :: "rlc_rx_am_entity \<Rightarrow> bool" where
  "e_core e \<longleftrightarrow> rx_core (rxa_size e) (rx_next (st e)) (rx_highest_status (st e)) (rx_next_highest (st e)) (rx_window e)"

definition edges_open :: "rlc_rx_am_entity \<Rightarrow> bool" where
  "edges_open e \<longleftrightarrow> \<not> fully_received_at (rx_window e) (rx_next (st e)) \<and>
     \<not> fully_received_at (rx_window e) (rx_highest_status (st e))"

text \<open>The trigger of a running t-Reassembly is the SN behind an SDU of the window.\<close>

definition trigger_ok :: "rlc_rx_am_entity \<Rightarrow> bool" where
  "trigger_ok e \<longleftrightarrow> (\<exists>k. sn_next (rxa_mod e) k = rx_next_status_trigger (st e) \<and> cm_get (rx_window e) k \<noteq> None)"

definition trigger_weak :: "rlc_rx_am_entity \<Rightarrow> bool" where
  "trigger_weak e \<longleftrightarrow> trigger_ok e \<or> rx_next_status_trigger (st e) = rx_next (st e) \<or>
     \<not> inside_rx_window e (rx_next_status_trigger (st e))"

text \<open>\<open>same_rest e e'\<close>: the two entities differ at most in the window, the state variables and t-Reassembly.\<close>

definition same_rest :: "rlc_rx_am_entity \<Rightarrow> rlc_rx_am_entity \<Rightarrow> bool" where
  "same_rest e e' \<longleftrightarrow> e' = e\<lparr>st := st e', rx_window := rx_window e', reassembly_timer := reassembly_timer e'\<rparr>"

lemma same_rest_simps:
  assumes "same_rest e e'"
  shows "rxa_cfg e' = rxa_cfg e" "do_status e' = do_status e"
    "max_nof_sn_per_status_report e' = max_nof_sn_per_status_report e"
    "status_owned_by_writer e' = status_owned_by_writer e" "status_for_exchange e' = status_for_exchange e"
    "status_owned_by_reader e' = status_owned_by_reader e" "status_report_size e' = status_report_size e"
    "status_prohibit_timer_is_running e' = status_prohibit_timer_is_running e"
  using assms unfolding same_rest_def by (cases e; cases e'; simp)+

lemma same_rest_refl: "same_rest e e" by (simp add: same_rest_def)

lemma same_rest_trans: "same_rest e e' \<Longrightarrow> same_rest e' e'' \<Longrightarrow> same_rest e e''"
  unfolding same_rest_def by (cases e; cases e'; cases e'') simp

lemma update_highest_status_core:
  assumes c: "e_core e" and sn: "sn < rxa_mod e" and f: "fully_received_at (rx_window e) sn"
    and o: "rx_highest_status (st e) \<noteq> sn \<longrightarrow> \<not> fully_received_at (rx_window e) (rx_highest_status (st e))"
  shows "\<exists>hs. update_highest_status sn e = e\<lparr>st := (st e)\<lparr>rx_highest_status := hs\<rparr>\<rparr> \<and>
    rx_core (rxa_size e) (rx_next (st e)) hs (rx_next_highest (st e)) (rx_window e) \<and> \<not> fully_received_at (rx_window e) hs"
proof -
  have hs: "rx_mod_base e sn = rx_mod_base e (rx_highest_status (st e)) \<longleftrightarrow> sn = rx_highest_status (st e)"
    using am_sn.dist_inj [of sn "rxa_size e" "rx_highest_status (st e)" "rx_next (st e)"] sn c
    by (auto simp: rx_mod_base_def e_core_def rx_core_def)
  show ?thesis
  proof (cases "sn = rx_highest_status (st e)")
    case True
    obtain j u where l: "sn_loop (rxa_mod e) (rx_next (st e)) (rx_next_highest (st e))
        (\<lambda>i (_ :: unit). if fully_received_at (rx_window e) i then Some () else None)
        (sn_next (rxa_mod e) (rx_highest_status (st e))) () = (j, u)"
      by (rule prod.exhaust)
    then show ?thesis using rx_core_highest [OF c [unfolded e_core_def] _ l] f True
      by (auto simp: update_highest_status_def Let_def)
  next
    case False
    then show ?thesis using c o hs
      by (intro exI [of _ "rx_highest_status (st e)"]) (auto simp: update_highest_status_def e_core_def)
  qed
qed

lemma update_rx_next_core:
  assumes c: "e_core e" and sn: "sn < rxa_mod e" and o: "\<not> fully_received_at (rx_window e) (rx_highest_status (st e))"
    and o2: "rx_next (st e) \<noteq> sn \<longrightarrow> \<not> fully_received_at (rx_window e) (rx_next (st e))"
  shows "\<exists>j w. update_rx_next sn e = e\<lparr>st := (st e)\<lparr>rx_next := j\<rparr>, rx_window := w\<rparr> \<and>
    rx_core (rxa_size e) j (rx_highest_status (st e)) (rx_next_highest (st e)) w \<and>
    \<not> fully_received_at w (rx_highest_status (st e)) \<and> \<not> fully_received_at w j \<and> j < rxa_mod e \<and>
    sn_off (rxa_size e) (rx_next (st e)) j \<le> win_len (rxa_size e) \<and>
    (\<forall>k. cm_get w k = (if sn_off (rxa_size e) (rx_next (st e)) k < sn_off (rxa_size e) (rx_next (st e)) j
        then None else cm_get (rx_window e) k))"
proof -
  have b: "rx_next (st e) < rxa_mod e" using c by (simp add: e_core_def rx_core_def)
  have nx: "rx_mod_base e sn = rx_mod_base e (rx_next (st e)) \<longleftrightarrow> sn = rx_next (st e)"
    using am_sn.dist_inj [of sn "rxa_size e" "rx_next (st e)" "rx_next (st e)"] sn b by (auto simp: rx_mod_base_def)
  have bm: "rx_next (st e) mod rxa_mod e = rx_next (st e)" using b by (simp add: word_uint_eq_iff uint_mod word_less_def)
  show ?thesis
  proof (cases "sn = rx_next (st e)")
    case True
    obtain j w where l: "sn_loop (rxa_mod e) (rx_next (st e)) (rx_next_highest (st e))
        (\<lambda>i w. if fully_received_at w i then remove_sn w i else None) (rx_next (st e)) (rx_window e) = (j, w)"
      by (rule prod.exhaust)
    have "sn_off (rxa_size e) (rx_next (st e)) (rx_next_highest (st e)) \<le> win_len (rxa_size e)"
      using c by (simp add: e_core_def rx_core_def)
    then show ?thesis using rx_core_next [OF c [unfolded e_core_def] o l] True l bm
      by (intro exI [of _ j] exI [of _ w]) (simp add: update_rx_next_def)
  next
    case False
    then have "update_rx_next sn e = e" by (simp add: update_rx_next_def nx)
    then show ?thesis using c o o2 b False
      by (intro exI [of _ "rx_next (st e)"] exI [of _ "rx_window e"]) (auto simp: e_core_def)
  qed
qed

lemma trigger_weak_moved:
  assumes c: "e_core e" and t: "trigger_ok e" and T: "rx_next_status_trigger (st e) < rxa_mod e"
    and j: "j < rxa_mod e" "sn_off (rxa_size e) (rx_next (st e)) j \<le> win_len (rxa_size e)"
    and e': "rxa_cfg e' = rxa_cfg e" "rx_next (st e') = j"
      "rx_next_status_trigger (st e') = rx_next_status_trigger (st e)"
    and w: "\<forall>k. (cm_get (rx_window e') k \<noteq> None) \<longleftrightarrow>
      \<not> sn_off (rxa_size e) (rx_next (st e)) k < sn_off (rxa_size e) (rx_next (st e)) j \<and> cm_get (rx_window e) k \<noteq> None"
  shows "trigger_weak e'"
proof -
  let ?sz = "rxa_size e" and ?b = "rx_next (st e)" and ?T = "rx_next_status_trigger (st e)"
  obtain k where k: "sn_next (am_mod ?sz) k = ?T" "cm_get (rx_window e) k \<noteq> None" using t by (auto simp: trigger_ok_def)
  have "sn_off ?sz ?b k < sn_off ?sz ?b (rx_next_highest (st e))" using c k(2) by (auto simp: e_core_def rx_core_def)
  then have dT: "sn_off ?sz ?b ?T = sn_off ?sz ?b k + 1" using am_sn.dist_next_below k(1) by metis
  show ?thesis
  proof (cases "sn_off ?sz ?b k < sn_off ?sz ?b j")
    case False
    then show ?thesis using w k e' by (auto simp: trigger_weak_def trigger_ok_def)
  next
    case True
    then consider "sn_off ?sz ?b ?T = sn_off ?sz ?b j" | "sn_off ?sz ?b ?T < sn_off ?sz ?b j" using dT by linarith
    then show ?thesis
    proof cases
      case 1
      then have "?T = j" using am_sn.dist_inj T j(1) by blast
      then show ?thesis using e' by (simp add: trigger_weak_def)
    next
      case 2
      have m: "uint (am_mod ?sz) = 2 * win_len ?sz" by (rule am_window_half)
      have "sn_off ?sz j ?T = (sn_off ?sz ?b ?T - sn_off ?sz ?b j + uint (am_mod ?sz)) mod uint (am_mod ?sz)"
        using am_sn.dist_rebase [of ?sz j ?T ?b] by simp
      also have "\<dots> = sn_off ?sz ?b ?T - sn_off ?sz ?b j + uint (am_mod ?sz)"
        using 2 j(2) m uint_ge_0 [of "sn_dist (am_mod ?sz) ?b ?T"] by (intro mod_pos_pos_trivial) linarith+
      finally have "win_len ?sz \<le> sn_off ?sz j ?T"
        using j(2) m uint_ge_0 [of "sn_dist (am_mod ?sz) ?b ?T"] by linarith
      then show ?thesis using e' by (simp add: trigger_weak_def inside_rx_window_def rx_mod_base_def word_less_def)
    qed
  qed
qed

lemma deliver_sdu_core:
  assumes c: "e_core e" and sn: "sn < rxa_mod e"
    and o: "rx_highest_status (st e) \<noteq> sn \<longrightarrow> \<not> fully_received_at (rx_window e) (rx_highest_status (st e))"
      "rx_next (st e) \<noteq> sn \<longrightarrow> \<not> fully_received_at (rx_window e) (rx_next (st e))"
    and T: "rx_next_status_trigger (st e) < rxa_mod e" "reassembly_timer e \<longrightarrow> trigger_ok e"
    and d: "deliver_sdu ok sn e = (e', evs)"
  shows "e_core e' \<and> edges_open e' \<and> same_rest e e' \<and> reassembly_timer e' = reassembly_timer e \<and>
    rx_next_status_trigger (st e') = rx_next_status_trigger (st e) \<and> (reassembly_timer e' \<longrightarrow> trigger_weak e') \<and>
    (\<not> fully_received_at (rx_window e) sn \<longrightarrow> e' = e)"
proof (cases "fully_received_at (rx_window e) sn")
  case False
  then have "e' = e" using d by (auto simp: deliver_sdu_def fully_received_at_def split: option.splits if_splits)
  then show ?thesis using c o False T by (auto simp: edges_open_def same_rest_refl trigger_weak_def)
next
  case True
  let ?w1 = "cm_modify (rx_window e) sn (\<lambda>i. i\<lparr>info_data := Full_sdu []\<rparr>)"
  let ?e1 = "e\<lparr>rx_window := ?w1\<rparr>"
  obtain i where i: "cm_get (rx_window e) sn = Some i" "fully_received i"
    using True by (auto simp: fully_received_at_def split: option.splits)
  have f1: "fully_received_at ?w1 = fully_received_at (rx_window e)"
    by (rule ext) (auto simp: fully_received_at_def cm_get_modify split: option.splits)
  have n1: "cm_get ?w1 k \<noteq> None \<longleftrightarrow> cm_get (rx_window e) k \<noteq> None" for k by (auto simp: cm_get_modify)
  have c1: "e_core ?e1"
  proof -
    have "cm_get ?w1 k = Some x \<Longrightarrow> \<exists>y. cm_get (rx_window e) k = Some y \<and> (info_wf y \<longrightarrow> info_wf x)" for k x
      using i by (auto simp: cm_get_modify info_wf_def split: if_splits)
    then show ?thesis using c n1 unfolding e_core_def rx_core_def by (fastforce simp: cm_wf_modify)
  qed
  obtain hs where hs: "update_highest_status sn ?e1 = ?e1\<lparr>st := (st e)\<lparr>rx_highest_status := hs\<rparr>\<rparr>"
    "rx_core (rxa_size e) (rx_next (st e)) hs (rx_next_highest (st e)) ?w1" "\<not> fully_received_at ?w1 hs"
    using update_highest_status_core [OF c1, of sn] sn True o(1) f1 by auto
  let ?e2 = "?e1\<lparr>st := (st e)\<lparr>rx_highest_status := hs\<rparr>\<rparr>"
  have "e_core ?e2" using hs(2) by (simp add: e_core_def)
  from update_rx_next_core [OF this, of sn] sn hs(3) o(2) f1
  obtain j w where jw: "update_rx_next sn ?e2 = ?e2\<lparr>st := (st ?e2)\<lparr>rx_next := j\<rparr>, rx_window := w\<rparr>"
    "rx_core (rxa_size ?e2) j hs (rx_next_highest (st ?e2)) w" "\<not> fully_received_at w hs" "\<not> fully_received_at w j"
    "j < rxa_mod ?e2" "sn_off (rxa_size ?e2) (rx_next (st ?e2)) j \<le> win_len (rxa_size ?e2)"
    "\<forall>k. cm_get w k = (if sn_off (rxa_size ?e2) (rx_next (st ?e2)) k < sn_off (rxa_size ?e2) (rx_next (st ?e2)) j
        then None else cm_get (rx_window ?e2) k)"
    by auto
  have e': "e' = ?e2\<lparr>st := (st ?e2)\<lparr>rx_next := j\<rparr>, rx_window := w\<rparr>"
    using d i hs(1) jw(1) by (simp add: deliver_sdu_def)
  have "reassembly_timer e' \<longrightarrow> trigger_weak e'"
    using trigger_weak_moved [OF c _ T(1), of j e'] T(2) jw(5-7) n1 e' by auto
  then show ?thesis using True jw e' by (auto simp: e_core_def edges_open_def same_rest_def)
qed

lemma check_stop_reassembly_ok:
  assumes c: "e_core e" and T: "rx_next_status_trigger (st e) < rxa_mod e" and t: "reassembly_timer e \<longrightarrow> trigger_weak e"
  shows "\<exists>e'. check_stop_reassembly e = Some e' \<and> e' = e\<lparr>reassembly_timer := reassembly_timer e'\<rparr> \<and>
    (reassembly_timer e' \<longrightarrow> trigger_ok e')"
proof (cases "reassembly_timer e")
  case False
  then show ?thesis by (simp add: check_stop_reassembly_def)
next
  case True
  let ?T = "rx_next_status_trigger (st e)" and ?b = "rx_next (st e)" and ?sz = "rxa_size e"
  have b: "?b < rxa_mod e" using c by (simp add: e_core_def rx_core_def)
  have one: "sn_off ?sz ?b (?b + 1) = 1" by (cases ?sz) (simp_all add: sn_dist_def)
  have next1: "has_sn (rx_window e) ?b" if n: "rx_mod_base e ?T = rx_mod_base e (?b + 1)"
  proof -
    have dT: "sn_off ?sz ?b ?T = 1" using n one by (simp add: rx_mod_base_def)
    have "1 < win_len ?sz" by (cases ?sz) simp_all
    then have "inside_rx_window e ?T" using dT by (simp add: inside_rx_window_def rx_mod_base_def word_less_def)
    moreover have "?T \<noteq> ?b" using dT by auto
    ultimately have "trigger_ok e" using t True by (auto simp: trigger_weak_def)
    then obtain k where k: "sn_next (rxa_mod e) k = ?T" "cm_get (rx_window e) k \<noteq> None" by (auto simp: trigger_ok_def)
    have kc: "k < rxa_mod e" "sn_off ?sz ?b k < sn_off ?sz ?b (rx_next_highest (st e))"
      using c k(2) by (auto simp: e_core_def rx_core_def)
    then have "sn_off ?sz ?b k = 0" using am_sn.dist_next_below [OF kc(2)] k(1) dT by simp
    then have "k = ?b" using am_sn.dist_inj [of k ?sz ?b ?b] kc b by simp
    then show ?thesis using k by (simp add: cm_contains_get)
  qed
  have stop: "trigger_ok e" if "?T \<noteq> ?b" "inside_rx_window e ?T" using that t True by (auto simp: trigger_weak_def)
  show ?thesis using True next1 stop by (auto simp: check_stop_reassembly_def Let_def trigger_ok_def)
qed

lemma restart_needed_nh:
  assumes c: "e_core e" and r: "restart_needed e low" and low: "low < rxa_mod e"
  shows "rx_next_highest (st e) \<noteq> rx_next (st e)"
proof
  assume eq: "rx_next_highest (st e) = rx_next (st e)"
  have "has_gap_at (rx_window e) low" using r eq by (auto simp: restart_needed_def rx_mod_base_def word_less_def)
  then show False using c eq by (auto simp: has_gap_at_def e_core_def rx_core_def split: option.splits)
qed

lemma start_reassembly_ok:
  assumes "e_core e" "restart_needed e low" "low < rxa_mod e" "0 < rx_t_reassembly (rxa_cfg e)"
  shows "\<exists>e'. start_reassembly e = Some e' \<and>
    e' = e\<lparr>reassembly_timer := True, st := (st e)\<lparr>rx_next_status_trigger := rx_next_highest (st e)\<rparr>\<rparr> \<and> trigger_ok e'"
  using assms restart_needed_nh [OF assms(1-3)]
  by (auto simp: start_reassembly_def reassembly_timer_run_def trigger_ok_def e_core_def rx_core_def)

lemma check_start_reassembly_ok:
  assumes c: "e_core e" and t: "0 < rx_t_reassembly (rxa_cfg e)" "reassembly_timer e \<longrightarrow> trigger_ok e"
    and T: "rx_next_status_trigger (st e) < rxa_mod e"
  shows "\<exists>e'. check_start_reassembly e = Some e' \<and> same_rest e e' \<and> rx_window e' = rx_window e \<and>
    st e' = (st e)\<lparr>rx_next_status_trigger := rx_next_status_trigger (st e')\<rparr> \<and>
    rx_next_status_trigger (st e') < rxa_mod e \<and> (reassembly_timer e' \<longrightarrow> trigger_ok e')"
proof (cases "\<not> reassembly_timer e \<and> restart_needed e (rx_next (st e))")
  case True
  then show ?thesis using start_reassembly_ok [OF c _ _ t(1), of "rx_next (st e)"] c
    by (auto simp: check_start_reassembly_def e_core_def rx_core_def same_rest_def)
next
  case False
  then show ?thesis using t T by (auto simp: check_start_reassembly_def same_rest_refl)
qed

section \<open>The invariant and its preservation\<close>

definition report_ok :: "rlc_rx_am_entity \<Rightarrow> rlc_am_status_pdu \<Rightarrow> bool" where
  "report_ok e s \<longleftrightarrow> status_wf s \<and> sp_ack_sn s = status_stop_sn e \<and>
     (\<forall>x off. status_covers s x off \<longleftrightarrow> x < rxa_mod e \<and>
        rx_mod_base e x < rx_mod_base e (status_stop_sn e) \<and> sdu_missing (rx_window e) x off)"

definition rx_vars_ok :: "rlc_rx_am_entity \<Rightarrow> bool" where
  "rx_vars_ok e \<longleftrightarrow> e_core e \<and> edges_open e \<and> rx_next_status_trigger (st e) < rxa_mod e \<and>
     (reassembly_timer e \<longrightarrow> trigger_ok e)"

definition rx_reports_ok :: "rlc_rx_am_entity \<Rightarrow> bool" where
  "rx_reports_ok e \<longleftrightarrow> sp_sn_size (status_owned_by_writer e) = rxa_size e \<and>
     sp_sn_size (status_for_exchange e) = rxa_size e \<and> sp_sn_size (status_owned_by_reader e) = rxa_size e \<and>
     (do_status e \<longrightarrow> report_ok e (status_for_exchange e) \<and> status_report_size e = sp_packed_size (status_for_exchange e))"

definition rx_am_inv :: "rlc_rx_am_entity \<Rightarrow> bool" where
  "rx_am_inv e \<longleftrightarrow> rx_vars_ok e \<and> rx_reports_ok e"

lemma rx_vars_ok_cong:
  assumes "st e' = st e" "rx_window e' = rx_window e" "rxa_cfg e' = rxa_cfg e" "reassembly_timer e' = reassembly_timer e"
  shows "rx_vars_ok e' = rx_vars_ok e"
  using assms by (simp add: rx_vars_ok_def e_core_def edges_open_def trigger_ok_def)

lemma report_ok_cong:
  assumes "cm_get (rx_window e') = cm_get (rx_window e)" "rx_next (st e') = rx_next (st e)"
    "rx_highest_status (st e') = rx_highest_status (st e)" "rxa_cfg e' = rxa_cfg e"
    "max_nof_sn_per_status_report e' = max_nof_sn_per_status_report e"
  shows "report_ok e' s = report_ok e s"
  using assms by (simp add: report_ok_def status_stop_sn_def rx_mod_base_def sdu_missing_def Let_def)

lemma refresh_inv:
  assumes v: "rx_vars_ok e" and sz: "sp_sn_size (status_owned_by_writer e) = rxa_size e"
    "sp_sn_size (status_for_exchange e) = rxa_size e" "sp_sn_size (status_owned_by_reader e) = rxa_size e"
  shows "\<exists>e'. refresh_status_report e = Some e' \<and> rx_vars_ok e' \<and> report_ok e' (status_for_exchange e') \<and>
    sp_sn_size (status_owned_by_writer e') = rxa_size e' \<and> sp_sn_size (status_for_exchange e') = rxa_size e' \<and>
    sp_sn_size (status_owned_by_reader e') = rxa_size e' \<and> status_report_size e' = sp_packed_size (status_for_exchange e') \<and>
    st e' = st e \<and> rx_window e' = rx_window e \<and> rxa_cfg e' = rxa_cfg e \<and>
    status_prohibit_timer_is_running e' = status_prohibit_timer_is_running e"
proof -
  have w: "\<forall>k i. cm_get (rx_window e) k = Some i \<longrightarrow> info_wf i" "rx_next (st e) < rxa_mod e"
    using v by (auto simp: rx_vars_ok_def e_core_def rx_core_def)
  obtain s where s: "refresh_status_report e = Some (store_status_report (e\<lparr>status_owned_by_writer := s\<rparr>))"
    "sp_sn_size s = rxa_size e" "report_ok e s"
    using refresh_status_report_correct [OF w(1) sz(1) w(2)] unfolding report_ok_def by auto
  let ?e' = "store_status_report (e\<lparr>status_owned_by_writer := s\<rparr>)"
  have "rx_vars_ok ?e'" using v rx_vars_ok_cong [of ?e' e] by (simp add: store_status_report_def)
  moreover have "report_ok ?e' s" using s(3) report_ok_cong [of ?e' e s] by (simp add: store_status_report_def)
  ultimately show ?thesis using s sz by (simp add: store_status_report_def)
qed

lemma data_pdu_exit_inv:
  assumes v: "rx_vars_ok e" and r: "rx_reports_ok e \<or> ch" and sz: "sp_sn_size (status_owned_by_writer e) = rxa_size e"
    "sp_sn_size (status_for_exchange e) = rxa_size e" "sp_sn_size (status_owned_by_reader e) = rxa_size e"
  shows "\<exists>e' evs. data_pdu_exit ch req e = Some (e', evs) \<and> rx_am_inv e' \<and> rxa_cfg e' = rxa_cfg e"
proof (cases "\<not> ch \<and> \<not> req")
  case True
  then show ?thesis using v r by (auto simp: data_pdu_exit_def rx_am_inv_def)
next
  case False
  obtain e' where e': "refresh_status_report e = Some e'" "rx_vars_ok e'" "report_ok e' (status_for_exchange e')"
    "sp_sn_size (status_owned_by_writer e') = rxa_size e'" "sp_sn_size (status_for_exchange e') = rxa_size e'"
    "sp_sn_size (status_owned_by_reader e') = rxa_size e'" "status_report_size e' = sp_packed_size (status_for_exchange e')"
    "rxa_cfg e' = rxa_cfg e"
    using refresh_inv [OF v sz] by blast
  have "report_ok (e'\<lparr>do_status := True\<rparr>) = report_ok e'" by (rule ext) (rule report_ok_cong; simp)
  moreover have "rx_vars_ok (e'\<lparr>do_status := True\<rparr>)" using e'(2) rx_vars_ok_cong [of "e'\<lparr>do_status := True\<rparr>" e'] by simp
  ultimately show ?thesis using False e'
    by (auto simp: data_pdu_exit_def rx_am_inv_def rx_reports_ok_def Let_def)
qed

lemma timers_after_reception:
  assumes c: "e_core e" "edges_open e" and T: "rx_next_status_trigger (st e) < rxa_mod e"
    and t: "0 < rx_t_reassembly (rxa_cfg e)" and weak: "reassembly_timer e \<longrightarrow> trigger_weak e"
  shows "\<exists>e'. Option.bind (check_stop_reassembly e) check_start_reassembly = Some e' \<and> rx_vars_ok e' \<and>
    same_rest e e' \<and> rx_window e' = rx_window e \<and> rx_next (st e') = rx_next (st e) \<and>
    rx_highest_status (st e') = rx_highest_status (st e)"
proof -
  obtain e3 where e3: "check_stop_reassembly e = Some e3" "e3 = e\<lparr>reassembly_timer := reassembly_timer e3\<rparr>"
    "reassembly_timer e3 \<longrightarrow> trigger_ok e3"
    using check_stop_reassembly_ok [OF c(1) T weak] by blast
  have s3: "st e3 = st e" "rx_window e3 = rx_window e" "rxa_cfg e3 = rxa_cfg e"
    by (subst e3(2), simp)+
  have c3: "e_core e3" "rx_next_status_trigger (st e3) < rxa_mod e3" "same_rest e e3"
    using c T s3 by (simp_all add: e_core_def) (simp add: same_rest_def e3(2) [symmetric] s3)
  obtain e4 where e4: "check_start_reassembly e3 = Some e4" "same_rest e3 e4" "rx_window e4 = rx_window e3"
    "st e4 = (st e3)\<lparr>rx_next_status_trigger := rx_next_status_trigger (st e4)\<rparr>"
    "rx_next_status_trigger (st e4) < rxa_mod e3" "reassembly_timer e4 \<longrightarrow> trigger_ok e4"
    using check_start_reassembly_ok [OF c3(1) _ e3(3) c3(2)] t s3(3) by auto
  have s4: "rx_next (st e4) = rx_next (st e)" "rx_highest_status (st e4) = rx_highest_status (st e)"
    "rx_next_highest (st e4) = rx_next_highest (st e)"
    using s3 by (subst e4(4), simp)+
  have cfg4: "rxa_cfg e4 = rxa_cfg e" using s3 same_rest_simps(1) [OF e4(2)] by simp
  have "rx_vars_ok e4" using c e4(3,5,6) s3 s4 cfg4 by (simp add: rx_vars_ok_def e_core_def edges_open_def)
  then show ?thesis using e3(1) e4(1,2,3) s3 s4 c3(3) same_rest_trans by auto
qed

lemma place_pdu_inv:
  assumes v: "rx_vars_ok e" and t: "0 < rx_t_reassembly (rxa_cfg e)"
    and h: "am_sn h < rxa_mod e" "inside_rx_window e (am_sn h)" "\<not> fully_received_at (rx_window e) (am_sn h)"
    and pl: "payload \<noteq> []" "pdu_bounded h payload"
  shows "\<exists>e' ch evs. place_pdu ok h payload e = Some (e', ch, evs) \<and> rx_vars_ok e' \<and> same_rest e e' \<and>
    (\<not> ch \<longrightarrow> cm_get (rx_window e') = cm_get (rx_window e) \<and> rx_next (st e') = rx_next (st e) \<and>
       rx_highest_status (st e') = rx_highest_status (st e))"
proof -
  let ?sn = "am_sn h" and ?b = "rx_next (st e)" and ?sz = "rxa_size e" and ?nh = "rx_next_highest (st e)"
  have c: "e_core e" and o: "edges_open e" using v by (auto simp: rx_vars_ok_def)
  have off: "sn_off ?sz ?b ?sn < win_len ?sz" using h(2) by (simp add: inside_rx_window_def rx_mod_base_def word_less_def)
  obtain w i ch where p: "(if am_si h = full_sdu then handle_full_data_sdu e h payload else handle_segment_data_sdu e h payload)
      = Some (e\<lparr>rx_window := w\<rparr>, ch)" "cm_get w = (cm_get (rx_window e))(?sn \<mapsto> i)" "cm_wf w"
    "cm_max_size w = cm_max_size (rx_window e)" "info_wf i" "\<not> ch \<longrightarrow> cm_get (rx_window e) ?sn = Some i"
    using place_window [OF c [unfolded e_core_def] h(1) off h(3) pl] by blast
  let ?nh' = "if sn_off ?sz ?b ?nh \<le> sn_off ?sz ?b ?sn then sn_next (am_mod ?sz) ?sn else ?nh"
  let ?e1 = "e\<lparr>rx_window := w, st := (st e)\<lparr>rx_next_highest := ?nh'\<rparr>\<rparr>"
  have u: "update_next_highest ?sn (e\<lparr>rx_window := w\<rparr>) = ?e1"
    by (simp add: update_next_highest_def rx_mod_base_def word_le_def)
  have c1: "e_core ?e1" using rx_core_put [OF c [unfolded e_core_def] h(1) off p(5,2-4)] by (simp add: e_core_def)
  have f: "k \<noteq> ?sn \<Longrightarrow> fully_received_at w k = fully_received_at (rx_window e) k" for k
    by (simp add: fully_received_at_def p(2))
  have "cm_get (rx_window e) k \<noteq> None \<Longrightarrow> cm_get w k \<noteq> None" for k by (simp add: p(2))
  then have T: "reassembly_timer ?e1 \<longrightarrow> trigger_ok ?e1" "rx_next_status_trigger (st ?e1) < rxa_mod ?e1"
    using v unfolding rx_vars_ok_def trigger_ok_def by auto
  obtain e2 evs where d: "deliver_sdu ok ?sn ?e1 = (e2, evs)" by (rule prod.exhaust)
  have e2: "e_core e2" "edges_open e2" "same_rest ?e1 e2" "reassembly_timer e2 \<longrightarrow> trigger_weak e2"
    "rx_next_status_trigger (st e2) = rx_next_status_trigger (st e)" "\<not> fully_received_at w ?sn \<longrightarrow> e2 = ?e1"
    using deliver_sdu_core [OF c1, of ?sn ok e2 evs] d h(1) o f T by (auto simp: edges_open_def)
  have cfg2: "rxa_cfg e2 = rxa_cfg e" using same_rest_simps(1) [OF e2(3)] by simp
  have T2: "rx_next_status_trigger (st e2) < rxa_mod e2" "0 < rx_t_reassembly (rxa_cfg e2)"
    using e2(5) v cfg2 t by (simp_all add: rx_vars_ok_def)
  obtain e4 where e4: "Option.bind (check_stop_reassembly e2) check_start_reassembly = Some e4" "rx_vars_ok e4"
    "same_rest e2 e4" "rx_window e4 = rx_window e2" "rx_next (st e4) = rx_next (st e2)"
    "rx_highest_status (st e4) = rx_highest_status (st e2)"
    using timers_after_reception [OF e2(1,2) T2 e2(4)] by blast
  have "same_rest e ?e1" by (simp add: same_rest_def)
  then have rest: "same_rest e e4" using e2(3) e4(3) same_rest_trans by blast
  have same: "cm_get w = cm_get (rx_window e) \<and> e2 = ?e1" if "\<not> ch"
    using that p(2,6) h(3) e2(6) by (auto simp: fully_received_at_def fun_eq_iff)
  have "place_pdu ok h payload e = Some (e4, ch, evs)"
    using p(1) u d e4(1) by (auto simp: place_pdu_def option_bind_Some_conv)
  then show ?thesis using e4(2,4-6) rest same by auto
qed

text \<open>A buffer whose data PDU, if it has one, carries a segment within the first 65535 bytes.\<close>

definition buf_bounded :: "rlc_rx_am_entity \<Rightarrow> bytes \<Rightarrow> bool" where
  "buf_bounded e buf = (case rlc_am_read_data_pdu_header buf (rxa_size e) of None \<Rightarrow> True
     | Some h \<Rightarrow> pdu_bounded h (drop (am_get_packed_size h) buf))"

lemma handle_data_pdu_inv:
  assumes inv: "rx_am_inv e" and t: "0 < rx_t_reassembly (rxa_cfg e)" and b: "buf_bounded e buf"
  shows "\<exists>e' evs. handle_data_pdu ok e buf = Some (e', evs) \<and> rx_am_inv e' \<and> rxa_cfg e' = rxa_cfg e"
proof (cases "rlc_am_read_data_pdu_header buf (rxa_size e)")
  case None
  then show ?thesis using inv by (simp add: handle_data_pdu_def)
next
  case (Some h)
  have v: "rx_vars_ok e" and r: "rx_reports_ok e" using inv by (auto simp: rx_am_inv_def)
  have sz: "sp_sn_size (status_owned_by_writer e) = rxa_size e" "sp_sn_size (status_for_exchange e) = rxa_size e"
    "sp_sn_size (status_owned_by_reader e) = rxa_size e" using r by (auto simp: rx_reports_ok_def)
  let ?pl = "drop (am_get_packed_size h) buf"
  consider (short) "length buf \<le> am_get_packed_size h"
    | (drop) "\<not> length buf \<le> am_get_packed_size h"
        "\<not> inside_rx_window e (am_sn h) \<or> fully_received_at (rx_window e) (am_sn h)"
    | (place) "\<not> length buf \<le> am_get_packed_size h" "inside_rx_window e (am_sn h)"
        "\<not> fully_received_at (rx_window e) (am_sn h)" by blast
  then show ?thesis
  proof cases
    case short
    then show ?thesis using Some inv by (simp add: handle_data_pdu_def)
  next
    case drop
    then show ?thesis using Some data_pdu_exit_inv [OF v disjI1 [OF r] sz] by (auto simp: handle_data_pdu_def Let_def)
  next
    case place
    have sn: "am_sn h < rxa_mod e" using am_read_header_bounds [OF Some] by simp
    have pl: "?pl \<noteq> []" "pdu_bounded h ?pl" using place(1) b Some by (auto simp: buf_bounded_def)
    obtain e1 ch evs where e1: "place_pdu ok h ?pl e = Some (e1, ch, evs)" "rx_vars_ok e1" "same_rest e e1"
      "\<not> ch \<longrightarrow> cm_get (rx_window e1) = cm_get (rx_window e) \<and> rx_next (st e1) = rx_next (st e) \<and>
        rx_highest_status (st e1) = rx_highest_status (st e)"
      using place_pdu_inv [OF v t sn place(2,3) pl] by blast
    note s = same_rest_simps [OF e1(3)]
    have "rx_reports_ok e1 \<or> ch" using e1(4) r report_ok_cong [of e1 e] s by (auto simp: rx_reports_ok_def)
    from data_pdu_exit_inv [OF e1(2) this, of "am_p h \<noteq> 0"] sz s
    obtain e2 evs2 where "data_pdu_exit ch (am_p h \<noteq> 0) e1 = Some (e2, evs2)" "rx_am_inv e2" "rxa_cfg e2 = rxa_cfg e" by auto
    then show ?thesis using Some place e1(1) by (simp add: handle_data_pdu_def Let_def)
  qed
qed

lemma rx_handle_pdu_inv:
  assumes "rx_am_inv e" "0 < rx_t_reassembly (rxa_cfg e)" "buf_bounded e buf"
  shows "\<exists>e' evs. rx_handle_pdu ok e buf = Some (e', evs) \<and> rx_am_inv e' \<and> rxa_cfg e' = rxa_cfg e"
  using handle_data_pdu_inv [OF assms, of ok] assms(1) by (auto simp: rx_handle_pdu_def)

text \<open>The SN that an expiry moves RX_Highest_Status to.\<close>

lemma expiry_target:
  assumes core: "rx_core (rxa_size e) (rx_next (st e)) hs (rx_next_highest (st e)) (rx_window e)"
    and T: "rx_next_status_trigger (st e) < rxa_mod e" "trigger_ok e"
    and l: "sn_loop (rxa_mod e) (rx_next (st e)) (rx_next_highest (st e))
      (\<lambda>i (_ :: unit). if fully_received_at (rx_window e) i then Some () else None) (rx_next_status_trigger (st e)) () = (j, u)"
  shows "rx_core (rxa_size e) (rx_next (st e)) j (rx_next_highest (st e)) (rx_window e) \<and>
    \<not> fully_received_at (rx_window e) j \<and> rx_valid_ack_sn e (rx_next_status_trigger (st e)) \<and> rx_valid_ack_sn e j"
proof -
  let ?sz = "rxa_size e" and ?b = "rx_next (st e)" and ?T = "rx_next_status_trigger (st e)" and ?nh = "rx_next_highest (st e)"
  obtain k where k: "sn_next (rxa_mod e) k = ?T" "cm_get (rx_window e) k \<noteq> None" using T(2) by (auto simp: trigger_ok_def)
  have "sn_off ?sz ?b k < sn_off ?sz ?b ?nh" using core k(2) by (auto simp: rx_core_def)
  then have dT: "sn_off ?sz ?b ?T = sn_off ?sz ?b k + 1" "sn_off ?sz ?b ?T \<le> sn_off ?sz ?b ?nh"
    using am_sn.dist_next_below [of ?sz ?b k ?nh] k(1) by auto
  have nhW: "sn_off ?sz ?b ?nh \<le> win_len ?sz" "?nh < am_mod ?sz" using core by (auto simp: rx_core_def)
  have valid: "rx_valid_ack_sn e x" if "sn_off ?sz ?b ?T \<le> sn_off ?sz ?b x" "sn_off ?sz ?b x \<le> sn_off ?sz ?b ?nh" for x
  proof -
    have "0 \<le> sn_off ?sz ?b k" by simp
    then have "0 < sn_off ?sz ?b x" "sn_off ?sz ?b x \<le> win_len ?sz" using that dT nhW by linarith+
    then show ?thesis by (simp add: rx_valid_ack_sn_def rx_mod_base_def word_less_def word_le_def)
  qed
  note j = am_sn.first_not_loop [OF T(1) dT(2) l]
  have "\<not> fully_received_at (rx_window e) j"
    using j rx_core_nh_not_in [OF core] am_sn.dist_inj [of j ?sz ?nh ?b] nhW by auto
  then show ?thesis using core j valid dT(2) by (auto simp: rx_core_def)
qed

lemma on_expired_reassembly_inv:
  assumes inv: "rx_am_inv e" and run: "reassembly_timer e" and t: "0 < rx_t_reassembly (rxa_cfg e)"
  shows "\<exists>e' evs. on_expired_reassembly_timer (e\<lparr>reassembly_timer := False\<rparr>) = Some (e', evs) \<and> rx_am_inv e' \<and>
    rxa_cfg e' = rxa_cfg e"
proof -
  let ?e0 = "e\<lparr>reassembly_timer := False\<rparr>"
  have c: "e_core e" "edges_open e" "rx_next_status_trigger (st e) < rxa_mod e" "trigger_ok e"
    and rep: "rx_reports_ok e" using inv run by (auto simp: rx_am_inv_def rx_vars_ok_def)
  obtain j u where l: "sn_loop (rxa_mod e) (rx_next (st e)) (rx_next_highest (st e))
      (\<lambda>i (_ :: unit). if fully_received_at (rx_window e) i then Some () else None)
      (rx_next_status_trigger (st e)) () = (j, u)" by (rule prod.exhaust)
  note j = expiry_target [OF c(1) [unfolded e_core_def] c(3,4) l]
  have v: "rx_valid_ack_sn ?e0 x = rx_valid_ack_sn e x" for x by (simp add: rx_valid_ack_sn_def rx_mod_base_def)
  let ?e1 = "?e0\<lparr>st := (st e)\<lparr>rx_highest_status := j\<rparr>\<rparr>"
  have c1: "e_core ?e1" "edges_open ?e1" "j < rxa_mod ?e1"
    using j c(2) by (auto simp: e_core_def rx_core_def edges_open_def)
  have "\<exists>e2. (if restart_needed ?e1 j then start_reassembly ?e1 else Some ?e1) = Some e2 \<and> rx_vars_ok e2 \<and> same_rest e e2"
    using start_reassembly_ok [OF c1(1), of j] t c1 c(3)
    by (auto simp: rx_vars_ok_def e_core_def rx_core_def edges_open_def same_rest_def)
  then obtain e2 where e2: "(if restart_needed ?e1 j then start_reassembly ?e1 else Some ?e1) = Some e2"
    "rx_vars_ok e2" "same_rest e e2" by blast
  note s = same_rest_simps [OF e2(3)]
  obtain e3 where e3: "refresh_status_report e2 = Some e3" "rx_vars_ok e3" "report_ok e3 (status_for_exchange e3)"
    "sp_sn_size (status_owned_by_writer e3) = rxa_size e3" "sp_sn_size (status_for_exchange e3) = rxa_size e3"
    "sp_sn_size (status_owned_by_reader e3) = rxa_size e3" "status_report_size e3 = sp_packed_size (status_for_exchange e3)"
    "rxa_cfg e3 = rxa_cfg e2"
    using refresh_inv [OF e2(2)] rep s by (auto simp: rx_reports_ok_def)
  have "report_ok (e3\<lparr>do_status := True\<rparr>) = report_ok e3" by (rule ext) (rule report_ok_cong; simp)
  moreover have "rx_vars_ok (e3\<lparr>do_status := True\<rparr>)" using e3(2) rx_vars_ok_cong [of "e3\<lparr>do_status := True\<rparr>" e3] by simp
  ultimately have "rx_am_inv (e3\<lparr>do_status := True\<rparr>)" using e3 by (simp add: rx_am_inv_def rx_reports_ok_def)
  then show ?thesis using j v l e2(1) e3(1,8) s(1)
    by (auto simp: on_expired_reassembly_timer_def Let_def)
qed

section \<open>Executions of the receiver\<close>

text \<open>
  One step of the environment: a PDU from below (of a peer that keeps segments within 65535 bytes), the
  expiry of t-Reassembly and of t-StatusProhibit, an expiry handler that runs after the timer was
  restarted, the transmitter fetching a status report, the deferred timer start, and the stop of the
  bearer.
\<close>

inductive rx_am_step :: "rlc_rx_am_entity \<Rightarrow> rlc_rx_am_entity \<Rightarrow> bool" where
  pdu: "buf_bounded e buf \<Longrightarrow> rx_handle_pdu chain_ok e buf = Some (e', evs) \<Longrightarrow> rx_am_step e e'"
| reassembly_expiry: "reassembly_timer e \<Longrightarrow>
    on_expired_reassembly_timer (e\<lparr>reassembly_timer := False\<rparr>) = Some (e', evs) \<Longrightarrow> rx_am_step e e'"
| outdated_expiry: "reassembly_timer e \<Longrightarrow> on_expired_reassembly_timer e = Some (e', evs) \<Longrightarrow> rx_am_step e e'"
| status_sent: "get_status_pdu defer_ok e = (e', s, evs) \<Longrightarrow> rx_am_step e e'"
| prohibit_started: "rx_am_step e (start_status_prohibit_timer e)"
| prohibit_expiry: "on_expired_status_prohibit_timer (e\<lparr>status_prohibit_timer := False\<rparr>) = (e', evs) \<Longrightarrow> rx_am_step e e'"
| stop: "rx_am_step e (rx_am_stop e)"

inductive rx_am_reachable :: "rlc_rx_am_config \<Rightarrow> rlc_rx_am_entity \<Rightarrow> bool" for cfg where
  created: "rx_am_create cfg = Some e \<Longrightarrow> rx_am_reachable cfg e"
| stepped: "rx_am_reachable cfg e \<Longrightarrow> rx_am_step e e' \<Longrightarrow> rx_am_reachable cfg e'"

inductive_cases rx_am_stepE: "rx_am_step e e'"

lemma rx_am_create_inv:
  assumes "rx_am_create cfg = Some e"
  shows "rx_am_inv e \<and> rxa_cfg e = cfg"
proof -
  let ?sz = "rx_sn_field_length cfg"
  have w: "\<exists>win :: rx_sdu_info circular_map. cm_create (window_size (am_to_number ?sz)) = Some win \<and> cm_wf win \<and>
      cm_max_size win = window_size (am_to_number ?sz) \<and> (\<forall>k. cm_get win k = None)"
  proof (cases ?sz)
    case am_size12bits
    then have "window_size (am_to_number ?sz) = 2048" by simp
    then show ?thesis using cm_wf_create [of 11, simplified] by metis
  next
    case am_size18bits
    then have "window_size (am_to_number ?sz) = 131072" by simp
    then show ?thesis using cm_wf_create [of 17, simplified] by metis
  qed
  then obtain win :: "rx_sdu_info circular_map" where win: "cm_create (window_size (am_to_number ?sz)) = Some win" "cm_wf win"
    "cm_max_size win = window_size (am_to_number ?sz)" "\<forall>k. cm_get win k = None" by blast
  have m: "0 < am_mod ?sz" "0 \<le> win_len ?sz" by (cases ?sz; simp)+
  obtain mx where "e = \<lparr>rxa_cfg = cfg,
     st = \<lparr>rx_next = 0, rx_next_status_trigger = 0, rx_highest_status = 0, rx_next_highest = 0\<rparr>,
     max_nof_sn_per_status_report = mx, do_status = False, rx_window = win,
     status_owned_by_writer = rlc_am_status_pdu_init ?sz,
     status_for_exchange = (rlc_am_status_pdu_init ?sz)\<lparr>sp_ack_sn := 0\<rparr>,
     status_owned_by_reader = rlc_am_status_pdu_init ?sz,
     status_report_size = sp_packed_size (rlc_am_status_pdu_init ?sz),
     status_prohibit_timer_is_running = False, status_prohibit_timer = False,
     reassembly_timer = False, rxa_stopped = False\<rparr>"
    using assms win(1) unfolding rx_am_create_def Let_def by (auto split: option.splits if_splits)
  then show ?thesis using win(2-4) m
    by (simp add: rx_am_inv_def rx_vars_ok_def e_core_def rx_core_def edges_open_def
        fully_received_at_def rx_reports_ok_def rlc_am_status_pdu_init_def)
qed

lemma rx_am_inv_cong:
  assumes "rx_am_inv e" "rx_vars_ok e'" "st e' = st e" "rx_window e' = rx_window e" "rxa_cfg e' = rxa_cfg e"
    "max_nof_sn_per_status_report e' = max_nof_sn_per_status_report e" "do_status e' \<longrightarrow> do_status e"
    "status_for_exchange e' = status_for_exchange e" "status_owned_by_writer e' = status_owned_by_writer e"
    "status_owned_by_reader e' = status_owned_by_reader e" "status_report_size e' = status_report_size e"
  shows "rx_am_inv e'"
  using assms report_ok_cong [of e' e] by (auto simp: rx_am_inv_def rx_reports_ok_def)

lemma rx_am_step_inv:
  assumes "rx_am_step e e'" "rx_am_inv e" "0 < rx_t_reassembly (rxa_cfg e)"
  shows "rx_am_inv e' \<and> rxa_cfg e' = rxa_cfg e"
  using assms(1)
proof (cases rule: rx_am_step.cases)
  case (pdu buf ok evs)
  then show ?thesis using rx_handle_pdu_inv [OF assms(2,3), of buf ok] by auto
next
  case (reassembly_expiry evs)
  then show ?thesis using on_expired_reassembly_inv [OF assms(2) _ assms(3)] by auto
next
  case (outdated_expiry evs)
  then show ?thesis using assms(2) by (auto simp: on_expired_reassembly_timer_def)
next
  case (status_sent d s evs)
  have "rx_vars_ok e'" using status_sent assms(2) rx_vars_ok_cong [of e' e] by (auto simp: get_status_pdu_def Let_def rx_am_inv_def)
  then show ?thesis using status_sent assms(2) by (auto simp: get_status_pdu_def Let_def rx_am_inv_def rx_reports_ok_def)
next
  case prohibit_started
  have "rx_vars_ok e'" using prohibit_started assms(2) rx_vars_ok_cong [of e' e] by (auto simp: start_status_prohibit_timer_def rx_am_inv_def)
  then show ?thesis using prohibit_started rx_am_inv_cong [OF assms(2)] by (auto simp: start_status_prohibit_timer_def)
next
  case (prohibit_expiry evs)
  have "rx_vars_ok e'" using prohibit_expiry assms(2) rx_vars_ok_cong [of e' e]
    by (auto simp: on_expired_status_prohibit_timer_def Let_def rx_am_inv_def)
  then show ?thesis using prohibit_expiry rx_am_inv_cong [OF assms(2)] by (auto simp: on_expired_status_prohibit_timer_def Let_def)
next
  case stop
  have "rx_vars_ok e'" using stop assms(2) by (auto simp: rx_am_stop_def rx_am_inv_def rx_vars_ok_def e_core_def edges_open_def)
  then show ?thesis using stop rx_am_inv_cong [OF assms(2)] by (auto simp: rx_am_stop_def)
qed

lemma rx_am_reachable_inv:
  assumes "rx_am_reachable cfg e" "0 < rx_t_reassembly cfg"
  shows "rx_am_inv e \<and> rxa_cfg e = cfg"
  using assms(1)
proof induction
  case (created e)
  then show ?case by (rule rx_am_create_inv)
next
  case (stepped e e')
  then show ?case using rx_am_step_inv [of e e'] assms(2) by auto
qed

section \<open>Properties\<close>

lemma is_control_write_data:
  assumes "am_header_ok h" "am_dc h = dc_data"
  shows "is_control_pdu (rlc_am_write_data_pdu_header h @ payload) = Some False"
proof -
  have p: "am_p h \<le> 1" using assms by (simp add: am_header_ok_def)
  have "drop_bit 7 ((push_bit 7 (dc_to_number dc_data AND 1) OR push_bit 6 (am_p h AND 1)
      OR push_bit 4 (si_to_number (am_si h) AND 3)) OR lo) AND 1 = dc_to_number dc_data" if "take_bit 4 lo = lo" for lo
    using hdr_bits(1) [OF p that refl] .
  moreover have "take_bit 4 (ucast (drop_bit 8 (am_sn h) AND 0x0f) :: u8) = ucast (drop_bit 8 (am_sn h) AND 0x0f)"
    "take_bit 4 (ucast (drop_bit 16 (am_sn h) AND 0x3) :: u8) = ucast (drop_bit 16 (am_sn h) AND 0x3)"
    unfolding and_masks by (rule bit_word_eqI; auto simp: bit_simps)+
  ultimately show ?thesis using assms(2)
    unfolding is_control_pdu_def rlc_am_write_data_pdu_header_def Let_def by (cases "am_sn_size h") simp_all
qed

lemma read_written_pdu:
  assumes "am_header_ok h" "payload \<noteq> []" "am_sn_size h = sz"
  shows "rlc_am_read_data_pdu_header (rlc_am_write_data_pdu_header h @ payload) sz = Some h"
  using am_header_roundtrip_12bit [OF assms(1,2)] am_header_roundtrip_18bit [OF assms(1,2)] assms(3) by (cases sz) auto

lemma buf_bounded_written:
  assumes "am_header_ok h" "payload \<noteq> []" "am_sn_size h = rxa_size e" "pdu_bounded h payload"
  shows "buf_bounded e (rlc_am_write_data_pdu_header h @ payload)"
  using assms read_written_pdu [OF assms(1-3)] am_write_length [OF assms(1)] by (simp add: buf_bounded_def)

lemma rx_handle_written_pdu:
  assumes h: "am_header_ok h" "am_dc h = dc_data" "am_sn_size h = rxa_size e" and pl: "payload \<noteq> []"
    and w: "inside_rx_window e (am_sn h)" "\<not> fully_received_at (rx_window e) (am_sn h)"
  shows "rx_handle_pdu ok e (rlc_am_write_data_pdu_header h @ payload) =
    (case place_pdu ok h payload e of None \<Rightarrow> None
     | Some (e1, status_changed, evs) \<Rightarrow>
         map_option (\<lambda>(e2, evs2). (e2, evs @ evs2)) (data_pdu_exit status_changed (am_p h \<noteq> 0) e1))"
proof -
  let ?buf = "rlc_am_write_data_pdu_header h @ payload"
  have r: "rlc_am_read_data_pdu_header ?buf (rxa_size e) = Some h"
    by (rule read_written_pdu [OF h(1) pl h(3)])
  have l: "length (rlc_am_write_data_pdu_header h) = am_get_packed_size h" by (rule am_write_length [OF h(1)])
  then show ?thesis
    using r w pl is_control_write_data [OF h(1,2), of payload]
    by (simp add: rx_handle_pdu_def handle_data_pdu_def Let_def)
qed

text \<open>The SDU that a placed PDU completes is delivered.\<close>

lemma place_pdu_delivers:
  assumes p: "(if am_si h = full_sdu then handle_full_data_sdu e h payload else handle_segment_data_sdu e h payload)
      = Some (e\<lparr>rx_window := w\<rparr>, ch)" "cm_get w (am_sn h) = Some i" "fully_received i" "reassemble_sdu ok i = Some sdu"
    and r: "place_pdu ok h payload e = Some (e', ch', evs)"
  shows "evs = [On_new_sdu sdu]"
proof -
  have "rx_window (update_next_highest (am_sn h) (e\<lparr>rx_window := w\<rparr>)) = w" by (simp add: update_next_highest_def)
  then show ?thesis using assms
    by (auto simp: place_pdu_def deliver_sdu_def option_bind_Some_conv)
qed


text \<open>
  Property C25: the window invariant.  In every reachable state RX_Next, RX_Highest_Status and RX_Next_Highest
  are in this order, at most one window apart; the window holds only SNs from RX_Next up to below
  RX_Next_Highest; neither RX_Next nor RX_Highest_Status is a fully received SDU; and while t-Reassembly
  runs its trigger lies above RX_Next and at most at RX_Next_Highest.
\<close>

theorem rx_am_window_invariant:
  assumes "rx_am_reachable cfg e" and "0 < rx_t_reassembly cfg"
  shows "rx_mod_base e (rx_highest_status (st e)) \<le> rx_mod_base e (rx_next_highest (st e)) \<and>
    rx_mod_base e (rx_next_highest (st e)) \<le> am_window_size e \<and>
    (\<forall>sn. has_sn (rx_window e) sn \<longrightarrow> inside_rx_window e sn \<and> rx_mod_base e sn < rx_mod_base e (rx_next_highest (st e))) \<and>
    \<not> fully_received_at (rx_window e) (rx_next (st e)) \<and> \<not> fully_received_at (rx_window e) (rx_highest_status (st e)) \<and>
    (reassembly_timer e \<longrightarrow> 0 < rx_mod_base e (rx_next_status_trigger (st e)) \<and>
       rx_mod_base e (rx_next_status_trigger (st e)) \<le> rx_mod_base e (rx_next_highest (st e)))"
proof -
  let ?sz = "rxa_size e" and ?b = "rx_next (st e)" and ?nh = "rx_next_highest (st e)"
  have v: "rx_vars_ok e" using rx_am_reachable_inv [OF assms] by (simp add: rx_am_inv_def)
  then have c: "rx_core ?sz ?b (rx_highest_status (st e)) ?nh (rx_window e)" by (simp add: rx_vars_ok_def e_core_def)
  have t: "0 < sn_off ?sz ?b T \<and> sn_off ?sz ?b T \<le> sn_off ?sz ?b ?nh"
    if k: "T = sn_next (am_mod ?sz) k" "cm_get (rx_window e) k \<noteq> None" for T k
  proof -
    have "sn_off ?sz ?b k < sn_off ?sz ?b ?nh" using c k(2) by (auto simp: rx_core_def)
    with am_sn.dist_next_below [OF this] show ?thesis
      using uint_ge_0 [of "sn_dist (am_mod ?sz) ?b k"] unfolding k(1) by linarith
  qed
  show ?thesis
    using v c t by (fastforce simp: rx_vars_ok_def edges_open_def trigger_ok_def rx_core_def rx_mod_base_def
      word_less_def word_le_def inside_rx_window_def cm_contains_get)
qed

text \<open>
  Property C8: the status report is exact.  Whenever a reachable receiver requires a report, the one it hands to
  the transmitter has ACK_SN at the stop SN, reports precisely the bytes that are missing below that
  SN, has the announced length, and survives the wire: the peer unpacks the same report.
\<close>

theorem rx_am_status_report_exact:
  assumes "rx_am_reachable cfg e" and "0 < rx_t_reassembly cfg" and "status_report_required e"
    and "get_status_pdu defer_ok e = (e', s, evs)" and "sp_sn_size s0 = rx_sn_field_length cfg"
  shows "sp_ack_sn s = status_stop_sn e \<and>
    (\<forall>sn off. status_covers s sn off \<longleftrightarrow>
       sn < rxa_mod e \<and> rx_mod_base e sn < rx_mod_base e (status_stop_sn e) \<and> sdu_missing (rx_window e) sn off) \<and>
    of_nat (length (sp_pack s)) = get_status_pdu_length e \<and> sp_unpack s0 (sp_pack s) = Some s"
proof -
  have i: "rx_am_inv e" "rxa_cfg e = cfg" using rx_am_reachable_inv [OF assms(1,2)] by auto
  have s: "s = status_for_exchange e" using assms(4) by (simp add: get_status_pdu_def Let_def)
  have r: "report_ok e s" "sp_sn_size s = rxa_size e" "status_report_size e = sp_packed_size s"
    using i(1) assms(3) s by (auto simp: rx_am_inv_def rx_reports_ok_def status_report_required_def)
  have hs: "rx_highest_status (st e) < rxa_mod e" using i(1) by (simp add: rx_am_inv_def rx_vars_ok_def e_core_def rx_core_def)
  have "x mod am_mod sz < am_mod sz" for x sz by (cases sz) (simp_all add: word_less_def uint_mod)
  then have "status_stop_sn e < rxa_mod e" using hs by (simp add: status_stop_sn_def Let_def)
  then show ?thesis
    using r i sp_unpack_pack_normal [of s s0] sp_pack_length [of s] assms(5)
    by (simp add: report_ok_def status_wf_def sp_normal_def sp_size_ok_def get_status_pdu_length_def)
qed

text \<open>The segments of the SDU \<open>sn\<close> buffered so far.\<close>

definition buffered_segments :: "rlc_rx_am_entity \<Rightarrow> u32 \<Rightarrow> rx_sdu_segment list" where
  "buffered_segments e sn = (case cm_get (rx_window e) sn of None \<Rightarrow> [] | Some i \<Rightarrow> segments_of (info_data i))"

text \<open>\<open>completes e h payload sdu\<close>: the PDU is all of \<open>sdu\<close>, or the segment that fills its last hole.\<close>

definition completes :: "rlc_rx_am_entity \<Rightarrow> rlc_am_pdu_header \<Rightarrow> bytes \<Rightarrow> bytes \<Rightarrow> bool" where
  "completes e h payload sdu \<longleftrightarrow>
     (if am_si h = full_sdu then payload = sdu \<and> sdu \<noteq> []
      else let sg = \<lparr>seg_si = am_si h, seg_so = am_so h, seg_payload = payload\<rparr>;
               ss = buffered_segments e (am_sn h)
           in seg_ok sdu sg \<and> segs_ok (seg_ok sdu) 0 ss \<and> {0..<length sdu} \<subseteq> segs_dom (sg # ss))"

lemma completes_stored:
  assumes c: "rx_core (rxa_size e) b hs nh (rx_window e)"
    and sn: "am_sn h < am_mod (rxa_size e)" "sn_off (rxa_size e) b (am_sn h) < win_len (rxa_size e)"
    and new: "completes e h payload sdu"
  shows "\<exists>w i ch. (if am_si h = full_sdu then handle_full_data_sdu e h payload else handle_segment_data_sdu e h payload)
      = Some (e\<lparr>rx_window := w\<rparr>, ch) \<and> cm_get w (am_sn h) = Some i \<and> fully_received i \<and> reassemble_sdu True i = Some sdu"
proof -
  obtain w1 i0 where w1: "window_with_sn (rx_window e) (am_sn h) = Some (w1, i0)" "cm_get w1 (am_sn h) = Some i0"
    "i0 = (case cm_get (rx_window e) (am_sn h) of None \<Rightarrow> rx_sdu_info_init | Some i \<Rightarrow> i)"
    using window_with_sn_get [OF c sn] by auto
  show ?thesis
  proof (cases "am_si h = full_sdu")
    case True
    let ?i = "i0\<lparr>info_data := Full_sdu payload, fully_received := True, has_gap := False\<rparr>"
    show ?thesis using w1(1,2) new True
      by (intro exI [of _ "cm_modify w1 (am_sn h) (\<lambda>_. ?i)"] exI [of _ ?i] exI [of _ True])
        (simp add: handle_full_data_sdu_def cm_get_modify reassemble_sdu_def completes_def)
  next
    case False
    let ?sg = "\<lparr>seg_si = am_si h, seg_so = am_so h, seg_payload = payload\<rparr>"
    have ss: "segments_of (info_data i0) = buffered_segments e (am_sn h)"
      using w1(3) by (simp add: buffered_segments_def segments_of_def rx_sdu_info_init_def split: option.splits)
    have n: "seg_ok sdu ?sg" "segs_ok (seg_ok sdu) 0 (segments_of (info_data i0))"
      "{0..<length sdu} \<subseteq> seg_dom ?sg \<union> segs_dom (segments_of (info_data i0))"
      using new False unfolding ss by (auto simp: completes_def Let_def)
    obtain i xs st where r: "receive_segment i0 ?sg = Some (i, st)" "info_ok sdu i" "info_data i = Segment_set xs"
      "segs_dom xs = segs_dom (segments_of (info_data i0)) \<union> seg_dom ?sg"
      using receive_segment_ok [OF n(2,1)] by blast
    then have f: "fully_received i" using n(3) by (auto simp: info_ok_def segments_of_def Let_def)
    then show ?thesis using False w1 r info_ok_reassemble [OF r(2,3) f]
      by (auto simp: handle_segment_data_sdu_def cm_get_modify)
  qed
qed

lemma rx_completing_pdu:
  assumes "rx_am_reachable cfg e" and "0 < rx_t_reassembly cfg"
    and h: "am_header_ok h" "am_dc h = dc_data" "am_sn_size h = rx_sn_field_length cfg" and "pdu_bounded h payload"
    and w: "inside_rx_window e (am_sn h)" "\<not> fully_received_at (rx_window e) (am_sn h)"
    and new: "completes e h payload sdu"
  shows "\<exists>e' evs. rx_handle_pdu True e (rlc_am_write_data_pdu_header h @ payload) = Some (e', On_new_sdu sdu # evs) \<and>
    (\<forall>x. On_new_sdu x \<notin> set evs)"
proof -
  have i: "rx_am_inv e" "rxa_cfg e = cfg" using rx_am_reachable_inv [OF assms(1,2)] by auto
  have v: "rx_vars_ok e" using i(1) by (simp add: rx_am_inv_def)
  then have c: "rx_core (rxa_size e) (rx_next (st e)) (rx_highest_status (st e)) (rx_next_highest (st e)) (rx_window e)"
    by (simp add: rx_vars_ok_def e_core_def)
  have sn: "am_sn h < rxa_mod e" using h i(2) by (simp add: am_header_ok_def)
  have off: "sn_off (rxa_size e) (rx_next (st e)) (am_sn h) < win_len (rxa_size e)"
    using w(1) by (simp add: inside_rx_window_def rx_mod_base_def word_less_def)
  have pl: "payload \<noteq> []" using new by (auto simp: completes_def seg_ok_def Let_def split: if_splits)
  have hw: "rx_handle_pdu True e (rlc_am_write_data_pdu_header h @ payload) =
    (case place_pdu True h payload e of None \<Rightarrow> None
     | Some (e1, status_changed, evs) \<Rightarrow>
         map_option (\<lambda>(e2, evs2). (e2, evs @ evs2)) (data_pdu_exit status_changed (am_p h \<noteq> 0) e1))"
    using rx_handle_written_pdu [OF h(1,2) _ pl w] h(3) i(2) by simp
  obtain w i where p: "\<exists>ch. (if am_si h = full_sdu then handle_full_data_sdu e h payload else handle_segment_data_sdu e h payload)
      = Some (e\<lparr>rx_window := w\<rparr>, ch)" "cm_get w (am_sn h) = Some i" "fully_received i" "reassemble_sdu True i = Some sdu"
    using completes_stored [OF c sn off new] by blast
  obtain e1 ch evs where e1: "place_pdu True h payload e = Some (e1, ch, evs)"
    using place_pdu_inv [OF v _ sn w pl assms(6)] assms(2) i(2) by blast
  have evs: "evs = [On_new_sdu sdu]" using p place_pdu_delivers [OF _ p(2-4) e1] by blast
  obtain e2 evs2 where "rx_handle_pdu True e (rlc_am_write_data_pdu_header h @ payload) = Some (e2, evs @ evs2)"
    "data_pdu_exit ch (am_p h \<noteq> 0) e1 = Some (e2, evs2)"
    using hw e1 rx_handle_pdu_inv [OF i(1), of "rlc_am_write_data_pdu_header h @ payload" True]
      buf_bounded_written [OF h(1) pl, of e] assms(2,6) h(3) i(2) by (auto split: prod.splits)
  moreover from this(2) have "\<forall>x. On_new_sdu x \<notin> set evs2"
    by (auto simp: data_pdu_exit_def notify_status_report_changed_def Let_def split: if_splits option.splits)
  ultimately show ?thesis using evs by auto
qed

text \<open>
  Property C18: delivery.  When a reachable receiver gets a PDU inside its window that carries a whole SDU, or
  the segment that fills the last hole of an SDU, in whatever order the segments came, it delivers
  exactly that SDU to the upper layer, once.
\<close>

theorem rx_am_delivers:
  assumes "rx_am_reachable cfg e" and "0 < rx_t_reassembly cfg"
    and h: "am_header_ok h" "am_dc h = dc_data" "am_sn_size h = rx_sn_field_length cfg" and "pdu_bounded h payload"
    and w: "inside_rx_window e (am_sn h)" "\<not> fully_received_at (rx_window e) (am_sn h)"
    and new: "completes e h payload sdu"
  shows "\<exists>e' evs. rx_handle_pdu True e (rlc_am_write_data_pdu_header h @ payload) = Some (e', On_new_sdu sdu # evs) \<and>
    (\<forall>x. On_new_sdu x \<notin> set evs)"
  using assms by (rule rx_completing_pdu)

text \<open>
  No duplicates.  A PDU whose SN lies outside the receive window, or belongs to an SDU that was
  already received completely, delivers nothing and leaves the window and the state variables alone.
\<close>

lemma rx_am_discards:
  assumes "rlc_am_read_data_pdu_header buf (rx_sn_field_length (rxa_cfg e)) = Some h"
    and "\<not> inside_rx_window e (am_sn h) \<or> fully_received_at (rx_window e) (am_sn h)"
    and "handle_data_pdu chain_ok e buf = Some (e', evs)"
  shows "(\<forall>sdu. On_new_sdu sdu \<notin> set evs) \<and> rx_window e' = rx_window e \<and> st e' = st e \<and>
    reassembly_timer e' = reassembly_timer e"
  using assms
  by (auto simp: handle_data_pdu_def data_pdu_exit_def notify_status_report_changed_def refresh_status_report_def
      store_status_report_def Let_def split: if_splits option.splits prod.splits)

section \<open>Segment offsets that wrap\<close>

text \<open>
  The bound on the segments is needed.  Segments with SO 65535 that are longer than one byte make
  \<open>store_segment\<close> cut the new segment to SO 65536, which wraps to a small 16-bit offset; the set then
  holds overlapping segments, and the next status report has a NACK whose start lies behind its end.
\<close>

definition overflow_segments :: "rx_sdu_segment list" where
  "overflow_segments =
     [\<lparr>seg_si = middle_segment, seg_so = 3, seg_payload = [1]\<rparr>,
      \<lparr>seg_si = middle_segment, seg_so = 65535, seg_payload = [1, 2, 3]\<rparr>,
      \<lparr>seg_si = middle_segment, seg_so = 65535, seg_payload = [1, 2, 3, 4, 5]\<rparr>]"


section \<open>A concrete run\<close>

definition rx_cfg_example :: rlc_rx_am_config where
  "rx_cfg_example = \<lparr>rx_sn_field_length = am_size12bits, rx_t_reassembly = 50, rx_t_status_prohibit = 10,
     rx_max_sn_per_status = None\<rparr>"

definition rx_example :: rlc_rx_am_entity where "rx_example = the (rx_am_create rx_cfg_example)"

definition pdu_header :: "rlc_si_field \<Rightarrow> u32 \<Rightarrow> u16 \<Rightarrow> rlc_am_pdu_header" where
  "pdu_header si sn so = \<lparr>am_dc = dc_data, am_p = 1, am_si = si, am_sn_size = am_size12bits, am_sn = sn, am_so = so\<rparr>"

text \<open>SN 1 arrives before SN 0, then t-Reassembly expires.\<close>

definition rx_example1 :: rlc_rx_am_entity where
  "rx_example1 = fst (the (rx_handle_pdu True rx_example
     (rlc_am_write_data_pdu_header (pdu_header full_sdu 1 0) @ [5, 6])))"

definition rx_example2 :: rlc_rx_am_entity where
  "rx_example2 = fst (the (on_expired_reassembly_timer (rx_example1\<lparr>reassembly_timer := False\<rparr>)))"

lemma rx_example_created: "rx_am_create rx_cfg_example = Some rx_example"
  by (simp add: rx_example_def rx_cfg_example_def rx_am_create_def cm_create_def Let_def)

definition rx_example_pdu :: bytes where
  "rx_example_pdu = rlc_am_write_data_pdu_header (pdu_header full_sdu 1 0) @ [5, 6]"

lemma rx_example_header:
  "am_header_ok (pdu_header full_sdu 1 0)" "am_dc (pdu_header full_sdu 1 0) = dc_data"
  "am_sn_size (pdu_header full_sdu 1 0) = am_size12bits" "pdu_bounded (pdu_header full_sdu 1 0) payload"
  "am_sn (pdu_header full_sdu 1 0) = 1"
  by (simp_all add: pdu_header_def am_header_ok_def pdu_bounded_def)

lemma rx_example_cfg: "rxa_cfg rx_example = rx_cfg_example" "rx_sn_field_length rx_cfg_example = am_size12bits"
    "0 < rx_t_reassembly rx_cfg_example"
  using rx_am_create_inv [OF rx_example_created] by (simp_all add: rx_cfg_example_def)

lemma rx_example_reachable: "rx_am_reachable rx_cfg_example rx_example"
  by (rule created [OF rx_example_created])

lemma rx_example_bounded: "buf_bounded e rx_example_pdu" if "rxa_cfg e = rx_cfg_example"
  using that buf_bounded_written [OF rx_example_header(1) _ _ rx_example_header(4), of "[5, 6]" e] rx_example_cfg rx_example_header(3)
  by (simp add: rx_example_pdu_def)

lemma rx_example1_reachable: "rx_am_reachable rx_cfg_example rx_example1"
proof -
  have i: "rx_am_inv rx_example" using rx_am_create_inv [OF rx_example_created] by simp
  obtain e evs where e: "rx_handle_pdu True rx_example rx_example_pdu = Some (e, evs)"
    using rx_handle_pdu_inv [OF i _ rx_example_bounded, of True] rx_example_cfg by auto
  then have "rx_example1 = e" by (simp add: rx_example1_def rx_example_pdu_def)
  then show ?thesis using e stepped [OF rx_example_reachable pdu [OF rx_example_bounded e]] rx_example_cfg by simp
qed

lemma rx_example1_timer: "reassembly_timer rx_example1" by code_simp

lemma rx_example2_reachable: "rx_am_reachable rx_cfg_example rx_example2"
proof -
  have i: "rx_am_inv rx_example1" "rxa_cfg rx_example1 = rx_cfg_example"
    using rx_am_reachable_inv [OF rx_example1_reachable] rx_example_cfg by auto
  obtain e evs where e: "on_expired_reassembly_timer (rx_example1\<lparr>reassembly_timer := False\<rparr>) = Some (e, evs)"
    using on_expired_reassembly_inv [OF i(1) rx_example1_timer] rx_example_cfg i(2) by auto
  then have "rx_example2 = e" by (simp add: rx_example2_def)
  then show ?thesis using stepped [OF rx_example1_reachable reassembly_expiry [OF rx_example1_timer e]] by simp
qed

lemma rx_example2_required: "status_report_required rx_example2" by code_simp

lemma rx_example1_received: "fully_received_at (rx_window rx_example1) 1" by code_simp

lemma rx_example_open: "inside_rx_window rx_example 1" "\<not> fully_received_at (rx_window rx_example) 1"
  by code_simp+


theorem rx_am_window_invariant_witness:
  "rx_mod_base rx_example1 (rx_next_highest (st rx_example1)) \<le> am_window_size rx_example1 \<and>
   \<not> fully_received_at (rx_window rx_example1) (rx_next (st rx_example1)) \<and>
   0 < rx_mod_base rx_example1 (rx_next_status_trigger (st rx_example1))"
  using rx_am_window_invariant [OF rx_example1_reachable rx_example_cfg(3)] rx_example1_timer by simp

theorem rx_am_status_report_exact_witness:
  "sp_unpack (rlc_am_status_pdu_init am_size12bits) (sp_pack (status_for_exchange rx_example2)) =
     Some (status_for_exchange rx_example2) \<and>
   sp_ack_sn (status_for_exchange rx_example2) = status_stop_sn rx_example2"
  using rx_am_status_report_exact [OF rx_example2_reachable rx_example_cfg(3) rx_example2_required,
      of True _ "status_for_exchange rx_example2" _ "rlc_am_status_pdu_init am_size12bits"] rx_example_cfg(2)
  by (simp add: get_status_pdu_def Let_def rlc_am_status_pdu_init_def)

theorem rx_am_delivers_witness:
  "\<exists>e' evs. rx_handle_pdu True rx_example rx_example_pdu = Some (e', On_new_sdu [5, 6] # evs)"
proof -
  have "completes rx_example (pdu_header full_sdu 1 0) [5, 6] [5, 6]" by (simp add: completes_def pdu_header_def)
  then show ?thesis
    using rx_am_delivers [OF rx_example_reachable rx_example_cfg(3) rx_example_header(1,2) _ rx_example_header(4),
        of "[5, 6]" "[5, 6]"] rx_example_open rx_example_header(3,5) rx_example_cfg(2)
    unfolding rx_example_pdu_def by auto
qed

lemma rx_am_discards_witness:
  "\<exists>e' evs. handle_data_pdu True rx_example1 rx_example_pdu = Some (e', evs) \<and> (\<forall>sdu. On_new_sdu sdu \<notin> set evs)"
proof -
  have i: "rx_am_inv rx_example1" "rxa_cfg rx_example1 = rx_cfg_example"
    using rx_am_reachable_inv [OF rx_example1_reachable] rx_example_cfg by auto
  obtain e' evs where e: "handle_data_pdu True rx_example1 rx_example_pdu = Some (e', evs)"
    using handle_data_pdu_inv [OF i(1) _ rx_example_bounded] i(2) rx_example_cfg(3) by fastforce
  have "rlc_am_read_data_pdu_header rx_example_pdu (rx_sn_field_length (rxa_cfg rx_example1)) = Some (pdu_header full_sdu 1 0)"
    using read_written_pdu [OF rx_example_header(1) _ rx_example_header(3)] i(2) rx_example_cfg(2)
    by (simp add: rx_example_pdu_def)
  from rx_am_discards [OF this _ e] e show ?thesis using rx_example1_received rx_example_header(5) by auto
qed

end
