(* ===== verification/Rlc_Tx_Am_Props.thy ===== *)
theory Rlc_Tx_Am_Props
  imports Rlc_Tx_Am_Status Rlc_Rx_Am_Inv
begin

text \<open>
  The reachable states of the RLC AM transmitter and the properties that hold in them, up to the exchange of PDUs with
  the receiver of the peer.
\<close>

section \<open>pull_pdu\<close>

text \<open>
  The PDU a transmitter hands to the MAC when no status report is due, by priority: the front of the retransmission
  queue, the next segment of the SDU under segmentation, the first SDU of the queue.  The PDU is empty exactly when
  the grant has no room for the header and a byte (or nothing may be sent), and otherwise carries as many bytes as
  fit.
\<close>

definition pulls_retx :: "nat \<Rightarrow> rlc_tx_amd_retx \<Rightarrow> rlc_tx_amd_retx list \<Rightarrow> rlc_tx_am_sdu_info \<Rightarrow>
    rlc_tx_am_entity \<Rightarrow> rlc_tx_am_entity \<Rightarrow> bytes \<Rightarrow> bool" where
  "pulls_retx grant r rs i e e' pdu \<longleftrightarrow>
     (let hdr = get_retx_expected_hdr_len e r; n = min (unat (retx_length r)) (grant - hdr) in
      (pdu = [] \<longleftrightarrow> grant \<le> hdr) \<and> tx_window e' = tx_window e \<and>
      (pdu \<noteq> [] \<longrightarrow> rq_view (retx_queue e') = retx_rest r n @ rs \<and>
         am_pdu_of (txa_sz e) (retx_sn r) (tsi_sdu i) (unat (retx_so r)) (take n (drop (unat (retx_so r)) (tsi_sdu i))) pdu))"

definition pulls_segment :: "nat \<Rightarrow> rlc_tx_am_sdu_info \<Rightarrow> rlc_tx_am_entity \<Rightarrow> rlc_tx_am_entity \<Rightarrow> bytes \<Rightarrow> bool" where
  "pulls_segment grant i e e' pdu \<longleftrightarrow>
     (pdu = [] \<longleftrightarrow> grant \<le> head_max_size e) \<and> map_option tsi_sdu (cm_get (tx_window e') (nxt e)) = Some (tsi_sdu i) \<and>
     (pdu \<noteq> [] \<longrightarrow> am_pdu_of (txa_sz e) (nxt e) (tsi_sdu i) (unat (next_so i))
       (take (grant - head_max_size e) (drop (unat (next_so i)) (tsi_sdu i))) pdu)"

definition pulls_new :: "nat \<Rightarrow> rlc_tx_am_entity \<Rightarrow> rlc_tx_am_entity \<Rightarrow> bytes \<Rightarrow> bool" where
  "pulls_new grant e e' pdu \<longleftrightarrow>
     (pdu = [] \<longleftrightarrow> grant \<le> head_min_size e \<or> is_tx_window_full e \<or> sq_view (sdu_queue e) = []) \<and>
     (pdu \<noteq> [] \<longrightarrow> (\<exists>s. sq_view (sdu_queue e) = s # sq_view (sdu_queue e') \<and>
       am_pdu_of (txa_sz e) (nxt e) (sdu_buf s) 0 (take (grant - head_min_size e) (sdu_buf s)) pdu \<and>
       map_option tsi_sdu (cm_get (tx_window e') (nxt e)) = Some (sdu_buf s)))"

definition pulls :: "nat \<Rightarrow> rlc_tx_am_entity \<Rightarrow> rlc_tx_am_entity \<Rightarrow> bytes \<Rightarrow> bool" where
  "pulls grant e e' pdu \<longleftrightarrow> (case rq_view (retx_queue e) of
       r # rs \<Rightarrow> (\<exists>i. cm_get (tx_window e) (retx_sn r) = Some i \<and> pulls_retx grant r rs i e e' pdu)
     | [] \<Rightarrow> if under_seg e then (\<exists>i. cm_get (tx_window e) (nxt e) = Some i \<and> pulls_segment grant i e e' pdu)
            else pulls_new grant e e' pdu)"

lemma pull_pdu_ok:
  assumes inv: "tx_am_inv e"
  shows "\<exists>e' rx' evs evs' pdu. pull_pdu defer_ok grant rx e = Some (e', rx', evs, evs', pdu) \<and> tx_am_inv e' \<and>
    (\<not> max_retx_reached e \<and> \<not> status_report_required rx \<longrightarrow> length pdu \<le> grant \<and> pulls grant e e' pdu \<and> rx' = rx)"
proof -
  consider (none) "max_retx_reached e" | (status) "\<not> max_retx_reached e" "status_report_required rx"
    | (data) "\<not> max_retx_reached e" "\<not> status_report_required rx" by blast
  then show ?thesis
  proof cases
    case none
    then show ?thesis using inv by (simp add: pull_pdu_def)
  next
    case status
    obtain rx1 evs pdu where "pull_status_pdu defer_ok grant rx = (rx1, evs, pdu)" by (rule prod_cases3)
    then show ?thesis using status inv by (simp add: pull_pdu_def)
  next
    case data
    have qi: "rq_invar (retx_queue e)" "sq_invar (sdu_queue e)" using inv by (simp_all add: tx_am_inv_def tx_queues_ok_def)
    show ?thesis
    proof (cases "rq_view (retx_queue e)")
      case (Cons r rs)
      obtain i where i: "cm_get (tx_window e) (retx_sn r) = Some i" using inv Cons by (auto simp: tx_am_inv_def retx_ok_def)
      obtain e' pdu where b: "build_retx_pdu grant e = Some (e', pdu)" "tx_am_inv e'" "length pdu \<le> grant" "pulls_retx grant r rs i e e' pdu"
        using build_retx_pdu_ok [OF inv Cons i, of grant] by (auto simp: pulls_retx_def Let_def)
      have "\<not> rq_empty (retx_queue e)" using rq_empty_view [OF qi(1)] Cons by simp
      then have "pull_pdu defer_ok grant rx e = Some (e', rx, [], [], pdu)" using data b(1) by (simp add: pull_pdu_def)
      moreover have "pulls grant e e' pdu" using Cons i b(4) by (auto simp: pulls_def)
      ultimately show ?thesis using b by blast
    next
      case Nil
      then have re: "rq_empty (retx_queue e)" using rq_empty_view [OF qi(1)] by simp
      show ?thesis
      proof (cases "under_seg e")
        case True
        have "sn_under_segmentation e = nxt e" "in_flight e (nxt e)"
          using inv True by (simp_all add: tx_am_inv_def tx_window_ok_def in_flight_def tx_vars_ok_def)
        moreover from this obtain i where i: "cm_get (tx_window e) (nxt e) = Some i"
          using inv unfolding tx_am_inv_def tx_window_ok_def by blast
        moreover obtain e' pdu where b: "build_continued_sdu_segment grant i e = Some (e', pdu)" "tx_am_inv e'" "length pdu \<le> grant"
          "pulls_segment grant i e e' pdu"
          using build_continued_sdu_segment_ok [OF inv True i, of grant] by (auto simp: pulls_segment_def)
        ultimately have "pull_pdu defer_ok grant rx e = Some (e', rx, [], [], pdu)"
          using data re True by (simp add: pull_pdu_def)
        moreover have "pulls grant e e' pdu" using Nil True i b(4) by (auto simp: pulls_def)
        ultimately show ?thesis using b by blast
      next
        case False
        then have ee: "e\<lparr>sn_under_segmentation := INVALID_RLC_SN\<rparr> = e" by simp
        show ?thesis
        proof (cases "sq_is_empty (sdu_queue e)")
          case True
          then have "pull_pdu defer_ok grant rx e = Some (e, rx, [], [], [])"
            using data re False ee by (simp add: pull_pdu_def)
          moreover have "pulls grant e e []"
            using Nil False sduq.is_empty [OF qi(2) True] by (simp add: pulls_def pulls_new_def)
          ultimately show ?thesis using inv by auto
        next
          case nonempty: False
          obtain e' evs pdu where b: "build_new_pdu grant e = Some (e', evs, pdu)" "tx_am_inv e'" "length pdu \<le> grant" "pulls_new grant e e' pdu"
            using build_new_pdu_ok [OF inv, of grant] False unfolding pulls_new_def by blast
          have "pull_pdu defer_ok grant rx e = Some (e', rx, evs, [], pdu)"
            unfolding pull_pdu_def Let_def ee using data re False nonempty b(1) by simp
          moreover have "pulls grant e e' pdu" using Nil False b(4) by (simp add: pulls_def)
          ultimately show ?thesis using b by blast
        qed
      qed
    qed
  qed
qed

section \<open>Reachable states\<close>

text \<open>
  One step of the environment: an SDU or a discard from the PDCP, a grant from the MAC, a digestible status report,
  the notification that the receiver's report changed, the deferred buffer state update, the expiry of
  t-PollRetransmit, and the stop of the bearer.  The receiving side of the bearer is in any state.
\<close>

inductive tx_am_step :: "rlc_tx_am_entity \<Rightarrow> rlc_tx_am_entity \<Rightarrow> bool" where
  sdu: "sdu_size_ok buf \<Longrightarrow> handle_sdu now buf is_retx e = (e', evs) \<Longrightarrow> tx_am_step e e'"
| discard: "sn_ok sn \<Longrightarrow> discard_sdu sn e = (e', evs) \<Longrightarrow> tx_am_step e e'"
| pull: "pull_pdu defer_ok grant rx e = Some (e', rx', evs, evs', pdu) \<Longrightarrow> tx_am_step e e'"
| status: "status_plausible e report \<Longrightarrow> handle_status_pdu rx report e = Some (e', evs) \<Longrightarrow> tx_am_step e e'"
| report_changed: "on_status_report_changed e = (e', evs) \<Longrightarrow> tx_am_step e e'"
| buffer_update: "update_mac_buffer_state force rx e = Some (e', evs) \<Longrightarrow> tx_am_step e e'"
| poll_expiry: "poll_retransmit_timer e \<Longrightarrow> on_expired_poll_retransmit_timer rx e = Some (e', evs) \<Longrightarrow> tx_am_step e e'"
| stop: "tx_am_step e (tx_am_stop e)"

inductive tx_am_reachable :: "rlc_tx_am_config \<Rightarrow> bool \<Rightarrow> rlc_tx_am_entity \<Rightarrow> bool" for cfg srb where
  created: "tx_am_create cfg srb = Some e \<Longrightarrow> tx_am_reachable cfg srb e"
| stepped: "tx_am_reachable cfg srb e \<Longrightarrow> tx_am_step e e' \<Longrightarrow> tx_am_reachable cfg srb e'"

lemma tx_am_step_inv: "tx_am_step e e' \<Longrightarrow> tx_am_inv e \<Longrightarrow> tx_am_inv e'"
proof (induction rule: tx_am_step.induct)
  case (sdu buf now is_retx e e' evs)
  then show ?case by (blast intro: handle_sdu_inv)
next
  case (discard sn e e' evs)
  then show ?case by (blast intro: discard_sdu_inv)
next
  case (pull d grant rx e e' rx' evs evs' pdu)
  then show ?case using pull_pdu_ok [OF pull(2), of d grant rx] by auto
next
  case (status e report rx e' evs)
  then show ?case using handle_status_pdu_ok [of e report rx] by auto
next
  case (report_changed e e' evs)
  then show ?case using changed_buffer_state_core [of e] by (auto simp: on_status_report_changed_def intro: tx_am_inv_core)
next
  case (buffer_update force rx e e' evs)
  then show ?case using update_mac_buffer_state_ok [of e force rx] by auto
next
  case (poll_expiry e rx e' evs)
  then show ?case using on_expired_poll_ok [of e rx] by auto
next
  case (stop e)
  have "tx_core (tx_am_stop e) = tx_core e" by (simp add: tx_am_stop_def tx_core_def)
  then show ?case using stop tx_am_inv_core by blast
qed

lemma tx_am_reachable_inv: "tx_am_reachable cfg srb e \<Longrightarrow> tx_am_inv e"
  by (induction rule: tx_am_reachable.induct) (blast intro: tx_am_create_inv tx_am_step_inv)+

section \<open>What the peer reads\<close>

lemma am_pdu_of_header:
  assumes a: "am_pdu_of sz sn sdu so payload pdu" and sn: "sn < am_mod sz" and ms: "length sdu \<le> max_sdu"
  shows "\<exists>h. pdu = rlc_am_write_data_pdu_header h @ payload \<and> am_header_ok h \<and> am_dc h = dc_data \<and> am_sn_size h = sz \<and>
    am_sn h = sn \<and> unat (am_so h) = so \<and> am_si h = segment_si so (length payload) (length sdu)"
proof -
  obtain p where p: "p \<le> 1" "pdu = rlc_am_write_data_pdu_header \<lparr>am_dc = dc_data, am_p = p,
      am_si = segment_si so (length payload) (length sdu), am_sn_size = sz, am_sn = sn, am_so = of_nat so\<rparr> @ payload"
    using a by (auto simp: am_pdu_of_def)
  have so: "so < 2 ^ 16" using a ms by (auto simp: am_pdu_of_def max_sdu_def)
  then have u: "unat (of_nat so :: u16) = so" by (simp add: unsigned_of_nat take_bit_nat_eq_self)
  then have "(of_nat so :: u16) = 0 \<longleftrightarrow> so = 0" by (metis unsigned_0 unsigned_eq_0_iff)
  then show ?thesis using p u sn
    by (intro exI [of _ "\<lparr>am_dc = dc_data, am_p = p, am_si = segment_si so (length payload) (length sdu), am_sn_size = sz,
        am_sn = sn, am_so = of_nat so\<rparr>"]) (auto simp: am_header_ok_def segment_si_def)
qed

lemma pulls_carries:
  assumes inv: "tx_am_inv e" "tx_am_inv e'" and p: "pulls grant e e' pdu" "pdu \<noteq> []"
  shows "\<exists>sn i so payload. cm_get (tx_window e') sn = Some i \<and> sn < txa_mod e \<and> am_pdu_of (txa_sz e) sn (tsi_sdu i) so payload pdu"
proof (cases "rq_view (retx_queue e)")
  case (Cons r rs)
  then obtain i where i: "cm_get (tx_window e) (retx_sn r) = Some i" "pulls_retx grant r rs i e e' pdu" using p(1) by (auto simp: pulls_def)
  have "in_flight e (retx_sn r)" using inv(1) i(1) unfolding tx_am_inv_def tx_window_ok_def by blast
  then show ?thesis using i p(2) unfolding pulls_retx_def Let_def in_flight_def by auto
next
  case Nil
  have n: "nxt e < txa_mod e" using inv(1) by (simp add: tx_am_inv_def tx_vars_ok_def)
  show ?thesis
  proof (cases "under_seg e")
    case True
    then obtain i where "pulls_segment grant i e e' pdu" using p(1) Nil by (auto simp: pulls_def)
    then have "map_option tsi_sdu (cm_get (tx_window e') (nxt e)) = Some (tsi_sdu i)"
      "am_pdu_of (txa_sz e) (nxt e) (tsi_sdu i) (unat (next_so i)) (take (grant - head_max_size e) (drop (unat (next_so i)) (tsi_sdu i))) pdu"
      using p(2) unfolding pulls_segment_def by blast+
    moreover from this(1) obtain j where "cm_get (tx_window e') (nxt e) = Some j" "tsi_sdu j = tsi_sdu i" by (auto simp only: map_option_eq_Some)
    ultimately show ?thesis using n by metis
  next
    case False
    then have "pulls_new grant e e' pdu" using p(1) Nil by (simp add: pulls_def)
    then obtain s :: rlc_sdu where "map_option tsi_sdu (cm_get (tx_window e') (nxt e)) = Some (sdu_buf s)"
      "am_pdu_of (txa_sz e) (nxt e) (sdu_buf s) 0 (take (grant - head_min_size e) (sdu_buf s)) pdu"
      using p(2) unfolding pulls_new_def by blast
    moreover from this(1) obtain j where "cm_get (tx_window e') (nxt e) = Some j" "tsi_sdu j = sdu_buf s"
      by (auto simp only: map_option_eq_Some)
    ultimately show ?thesis using n by metis
  qed
qed

text \<open>The PDU gives the peer the last bytes of the SDU that it misses.\<close>

definition peer_completes :: "rlc_rx_am_entity \<Rightarrow> u32 \<Rightarrow> bytes \<Rightarrow> nat \<Rightarrow> bytes \<Rightarrow> bool" where
  "peer_completes r sn sdu so payload \<longleftrightarrow> inside_rx_window r sn \<and> \<not> fully_received_at (rx_window r) sn \<and>
     segs_ok (seg_ok sdu) 0 (buffered_segments r sn) \<and>
     {0..<length sdu} \<subseteq> {so..<so + length payload} \<union> segs_dom (buffered_segments r sn)"

lemma am_pdu_delivered:
  assumes r: "rx_am_reachable rcfg r" "0 < rx_t_reassembly rcfg" "rx_sn_field_length rcfg = sz"
    and a: "am_pdu_of sz sn sdu so payload pdu" "sn < am_mod sz" "length sdu \<le> max_sdu"
    and c: "peer_completes r sn sdu so payload"
  shows "\<exists>r' evs. rx_handle_pdu True r pdu = Some (r', On_new_sdu sdu # evs) \<and> (\<forall>x. On_new_sdu x \<notin> set evs)"
proof -
  obtain h where h: "pdu = rlc_am_write_data_pdu_header h @ payload" "am_header_ok h" "am_dc h = dc_data" "am_sn_size h = sz"
    "am_sn h = sn" "unat (am_so h) = so" "am_si h = segment_si so (length payload) (length sdu)"
    using am_pdu_of_header [OF a] by blast
  have pl: "payload \<noteq> []" "so + length payload \<le> length sdu" "payload = take (length payload) (drop so sdu)"
    using a(1) unfolding am_pdu_of_def by blast+
  have "completes r h payload sdu"
  proof (cases "am_si h = full_sdu")
    case True
    then have "so = 0" "length payload = length sdu" using h(7) by (auto simp: segment_si_def split: if_splits)
    then show ?thesis using True pl by (auto simp: completes_def)
  next
    case False
    have "seg_ok sdu \<lparr>seg_si = am_si h, seg_so = am_so h, seg_payload = payload\<rparr>"
      using pl h(6,7) False a(3) by (auto simp: seg_ok_def seg_dom_def max_sdu_def segment_si_def split: if_splits)
    then show ?thesis using c False h(5,6) by (auto simp: completes_def Let_def peer_completes_def seg_dom_def )
  qed
  moreover have "pdu_bounded h payload" using pl a(3) h(6) by (simp add: pdu_bounded_def max_sdu_def)
  ultimately show ?thesis
    using rx_completing_pdu [OF r(1,2) h(2,3) _ _ _ _, of payload sdu] c h r(3) by (simp add: peer_completes_def)
qed

section \<open>Polling\<close>

lemma no_poll_counts:
  assumes "get_polling_bit sn False n e = (e', 0)" "0 < poll_pdu (txa_cfg e)"
  shows "pdu_without_poll (txa_st e') = pdu_without_poll (txa_st e) + 1 \<and> txa_cfg e' = txa_cfg e \<and>
    pdu_without_poll (txa_st e) + 1 < word_of_int (poll_pdu (txa_cfg e))"
  using assms by (auto simp: get_polling_bit_def Let_def not_le split: if_splits)

lemma poll_bit_zero: "get_polling_bit sn r n e = (e', p) \<Longrightarrow> p \<noteq> 1 \<Longrightarrow> p = 0"
  by (auto simp: get_polling_bit_def Let_def split: if_splits)

lemma no_poll_run:
  assumes g: "\<And>i. i < k \<Longrightarrow> get_polling_bit (sn i) False (n i) (e i) = (e' i, 0)"
    and c: "\<And>i. Suc i < k \<Longrightarrow> txa_cfg (e (Suc i)) = txa_cfg (e' i) \<and> pdu_without_poll (txa_st (e (Suc i))) = pdu_without_poll (txa_st (e' i))"
    and s: "pdu_without_poll (txa_st (e 0)) = 0" "0 < poll_pdu (txa_cfg (e 0))" and i: "i < k"
  shows "txa_cfg (e i) = txa_cfg (e 0) \<and> pdu_without_poll (txa_st (e i)) = of_nat i \<and>
    of_nat (Suc i) < (word_of_int (poll_pdu (txa_cfg (e 0))) :: u32)"
  using i
proof (induction i)
  case 0
  then show ?case using no_poll_counts [OF g [of 0]] s by simp
next
  case (Suc i)
  then have ih: "txa_cfg (e i) = txa_cfg (e 0)" "pdu_without_poll (txa_st (e i)) = of_nat i" by simp_all
  have "pdu_without_poll (txa_st (e' i)) = of_nat (Suc i) \<and> txa_cfg (e' i) = txa_cfg (e 0)"
    using no_poll_counts [OF g [of i]] ih s(2) Suc.prems by (simp add: add.commute)
  then have e: "txa_cfg (e (Suc i)) = txa_cfg (e 0)" "pdu_without_poll (txa_st (e (Suc i))) = of_nat (Suc i)"
    using c [OF Suc.prems] by simp_all
  then show ?case using no_poll_counts [OF g [OF Suc.prems]] s(2) by (simp add: add.commute)
qed


section \<open>A concrete transmitter\<close>

definition tx_cfg_example :: rlc_tx_am_config where
  "tx_cfg_example = \<lparr>tx_sn_field_length = am_size12bits, tx_pdcp_sn_len = pdcp_size12bits, t_poll_retx = 20, max_retx_thresh = 4,
     poll_pdu = 2, poll_byte = 0, queue_size = 16, queue_size_bytes = 4096, max_window = 0\<rparr>"

definition tx_example :: rlc_tx_am_entity where "tx_example = the (tx_am_create tx_cfg_example False)"

lemma tx_example_created: "tx_am_create tx_cfg_example False = Some tx_example"
  by (simp add: tx_example_def tx_cfg_example_def tx_am_create_def cm_create_def Let_def)

definition tx_with_sdu :: "bytes \<Rightarrow> rlc_tx_am_entity \<Rightarrow> rlc_tx_am_entity" where
  "tx_with_sdu buf e = fst (handle_sdu 0 buf False e)"

definition tx_after_pull :: "nat \<Rightarrow> rlc_tx_am_entity \<Rightarrow> rlc_tx_am_entity" where
  "tx_after_pull grant e = fst (the (pull_pdu True grant rx_example e))"

text \<open>An SDU of four bytes, of which the first two have then been sent under SN 0.\<close>

definition tx_example1 :: rlc_tx_am_entity where "tx_example1 = tx_with_sdu [0x80, 7, 5, 6] tx_example"

definition tx_example2 :: rlc_tx_am_entity where "tx_example2 = tx_after_pull 4 tx_example1"

lemma tx_example1_reachable: "tx_am_reachable tx_cfg_example False tx_example1"
proof (rule stepped [OF created [OF tx_example_created] sdu])
  show "sdu_size_ok [0x80, 7, 5, 6]" by (simp add: sdu_size_ok_def max_sdu_def)
  show "handle_sdu 0 [0x80, 7, 5, 6] False tx_example = (tx_example1, snd (handle_sdu 0 [0x80, 7, 5, 6] False tx_example))"
    by (simp add: tx_example1_def tx_with_sdu_def)
qed

lemma tx_example2_reachable: "tx_am_reachable tx_cfg_example False tx_example2"
proof -
  obtain e' rx' evs evs' pdu where p: "pull_pdu True 4 rx_example tx_example1 = Some (e', rx', evs, evs', pdu)"
    using pull_pdu_ok [OF tx_am_reachable_inv [OF tx_example1_reachable]] by blast
  then have "e' = tx_example2" by (simp add: tx_example2_def tx_after_pull_def)
  then show ?thesis using stepped [OF tx_example1_reachable pull [OF p]] by simp
qed

lemma tx_example_facts:
  "\<not> max_retx_reached tx_example1" "\<not> max_retx_reached tx_example2" "\<not> status_report_required rx_example"
  "txa_sz tx_example2 = am_size12bits" "under_seg tx_example2" "nxt tx_example2 = 0"
  by code_simp+

text \<open>The report of a peer that misses SN 0.\<close>

definition nack0_status :: rlc_am_status_pdu where
  "nack0_status = (rlc_am_status_pdu_init am_size12bits)\<lparr>sp_ack_sn := 1, sp_nacks := [rlc_am_status_nack_init\<lparr>nack_sn := 0\<rparr>]\<rparr>"

lemma nack0_plausible: "status_plausible tx_example2 nack0_status"
  using tx_example_facts by (simp add: status_plausible_def nack0_status_def rlc_am_status_nack_init_def rlc_am_status_pdu_init_def)

section \<open>Properties\<close>






text \<open>
  Property C31: no failed assertion.  With SDUs of 1 to 32767 bytes and digestible status reports, no grant, report,
  timer expiry or buffer state update makes an assertion of the transmitter fail or an access leave its container.
\<close>

theorem tx_am_never_asserts:
  assumes "tx_am_reachable cfg srb e" and "status_plausible e report"
  shows "pull_pdu defer_ok grant rx e \<noteq> None \<and> handle_status_pdu rx report e \<noteq> None \<and>
    on_expired_poll_retransmit_timer rx e \<noteq> None \<and> update_mac_buffer_state force rx e \<noteq> None"
proof -
  note i = tx_am_reachable_inv [OF assms(1)]
  show ?thesis
    using pull_pdu_ok [OF i, of defer_ok grant rx] handle_status_pdu_ok [OF i assms(2), of rx] on_expired_poll_ok [OF i, of rx]
      update_mac_buffer_state_ok [OF i, of force rx] by auto
qed

theorem tx_am_never_asserts_witness:
  "pull_pdu True 7 rx_example tx_example2 \<noteq> None \<and> handle_status_pdu rx_example nack0_status tx_example2 \<noteq> None"
  using tx_am_never_asserts [OF tx_example2_reachable nack0_plausible, of True 7 rx_example] by blast

text \<open>
  Property C26: the transmit window.  In every reachable state the window holds exactly the SNs from TX_Next_Ack up to
  TX_Next, and TX_Next itself while its SDU is under segmentation; it spans at most the window size; the SDU under
  segmentation is partly sent; and every queued retransmission is a non-empty range of an SDU in the window.
\<close>

theorem tx_am_window_invariant:
  assumes "tx_am_reachable cfg srb e"
  shows "(\<forall>sn. cm_get (tx_window e) sn \<noteq> None \<longleftrightarrow>
      sn < txa_mod e \<and> (tx_dist e sn < tx_dist e (nxt e) \<or> under_seg e \<and> sn = nxt e)) \<and>
    tx_dist e (nxt e) + of_bool (under_seg e) \<le> uint (txa_window_size e) \<and>
    (under_seg e \<longrightarrow> sn_under_segmentation e = nxt e \<and>
      (\<exists>i. cm_get (tx_window e) (nxt e) = Some i \<and> 0 < unat (next_so i) \<and> unat (next_so i) < length (tsi_sdu i))) \<and>
    (\<forall>r \<in> set (rq_view (retx_queue e)). \<exists>i. cm_get (tx_window e) (retx_sn r) = Some i \<and> 0 < unat (retx_length r) \<and>
      unat (retx_so r) + unat (retx_length r) \<le> length (tsi_sdu i))"
proof -
  have i: "tx_vars_ok e" "tx_window_ok e" "\<forall>r \<in> set (rq_view (retx_queue e)). retx_ok (tx_window e) r"
    using tx_am_reachable_inv [OF assms] by (simp_all add: tx_am_inv_def)
  have "\<exists>i. cm_get (tx_window e) (nxt e) = Some i" if "under_seg e"
  proof -
    have "in_flight e (nxt e)" using i(1) that by (simp add: in_flight_def tx_vars_ok_def)
    then show ?thesis using i(2) unfolding tx_window_ok_def by blast
  qed
  then show ?thesis using i by (auto simp: tx_window_ok_def in_flight_def tx_vars_ok_def retx_ok_def)
qed

theorem tx_am_window_invariant_witness:
  "cm_get (tx_window tx_example2) 0 \<noteq> None \<and> sn_under_segmentation tx_example2 = nxt tx_example2"
  using tx_am_window_invariant [OF tx_example2_reachable] tx_example_facts(4-6) by simp

text \<open>
  Property C11: across the link.  Every data PDU that a reachable transmitter hands to the MAC carries bytes of the SDU
  its window holds under the PDU's SN; and when those are the last bytes that a reachable receiver at the peer misses
  of that SDU, whatever segments it got before and in whatever order, the receiver delivers exactly that SDU, once.
\<close>

theorem am_link_delivers:
  assumes "tx_am_reachable cfg srb e" and "\<not> max_retx_reached e" and "\<not> status_report_required rx"
    and "pull_pdu defer_ok grant rx e = Some (e', rx', evs, evs', pdu)" and "pdu \<noteq> []"
    and "rx_am_reachable rcfg r" and "0 < rx_t_reassembly rcfg" and "rx_sn_field_length rcfg = txa_sz e"
  shows "\<exists>sn i so payload. cm_get (tx_window e') sn = Some i \<and> am_pdu_of (txa_sz e) sn (tsi_sdu i) so payload pdu \<and>
    (peer_completes r sn (tsi_sdu i) so payload \<longrightarrow>
      (\<exists>r' revs. rx_handle_pdu True r pdu = Some (r', On_new_sdu (tsi_sdu i) # revs) \<and> (\<forall>x. On_new_sdu x \<notin> set revs)))"
proof -
  note inv = tx_am_reachable_inv [OF assms(1)]
  have p: "tx_am_inv e'" "pulls grant e e' pdu" using pull_pdu_ok [OF inv, of defer_ok grant rx] assms(2-4) by auto
  obtain sn i so payload where c: "cm_get (tx_window e') sn = Some i" "sn < txa_mod e" "am_pdu_of (txa_sz e) sn (tsi_sdu i) so payload pdu"
    using pulls_carries [OF inv p assms(5)] by blast
  have "length (tsi_sdu i) \<le> max_sdu" using p(1) c(1) by (auto simp: tx_am_inv_def tx_window_ok_def sdu_size_ok_def)
  then show ?thesis using am_pdu_delivered [OF assms(6-8) c(3,2)] c by blast
qed

theorem am_link_delivers_witness:
  "\<exists>sn i so payload. cm_get (tx_window tx_example2) sn = Some i \<and> am_pdu_of am_size12bits sn (tsi_sdu i) so payload [0x90, 0, 0x80, 7]"
proof -
  have "map_option (snd \<circ> snd \<circ> snd \<circ> snd) (pull_pdu True 4 rx_example tx_example1) = Some [0x90, 0, 0x80, 7]" by code_simp
  then obtain e' rx' evs evs' where p: "pull_pdu True 4 rx_example tx_example1 = Some (e', rx', evs, evs', [0x90, 0, 0x80, 7])"
    by auto
  have e: "e' = tx_example2" using p by (simp add: tx_example2_def tx_after_pull_def)
  have sz: "txa_sz tx_example1 = am_size12bits" by code_simp
  show ?thesis
    using am_link_delivers [OF tx_example1_reachable tx_example_facts(1,3) p _ rx_example_reachable rx_example_cfg(3)]
    unfolding sz e by (auto simp: rx_example_cfg(2))
qed

section \<open>Inputs that break the transmitter\<close>

text \<open>
  An empty SDU.  It is put into the window under TX_Next, but no PDU is built and TX_Next stays, so the
  next SDU is put into the same place of the window and the assertion of \<open>add_sn\<close> fails.
\<close>

lemma empty_sdu_asserts:
  "pull_pdu True 9 rx_example (tx_with_sdu [1, 2] (tx_after_pull 9 (tx_with_sdu [] tx_example))) = None"
  by code_simp

text \<open>
  A NACK for an SN that was never sent.  Right after the creation of the entity a report with ACK_SN 1 and a
  NACK for SN 0 passes the sanity checks, and the access to the window at SN 0 fails.
\<close>

lemma unsent_nack_asserts: "handle_status_pdu rx_example nack0_status tx_example = None"
  by code_simp

text \<open>
  An early acknowledgement.  While SN 0 is under segmentation, a report with ACK_SN 1 and no NACK
  passes the sanity checks and acknowledges it: TX_Next_Ack moves past TX_Next, and the notification that SDU 7 was
  delivered is sent although half of it was never transmitted.
\<close>

lemma early_ack_passes_tx_next:
  "\<exists>e' evs. handle_status_pdu rx_example (nack0_status\<lparr>sp_nacks := []\<rparr>) tx_example2 = Some (e', evs) \<and>
     nxt e' = 0 \<and> tx_next_ack (txa_st e') = 1 \<and> On_delivered_sdu 7 \<in> set evs"
proof -
  have "map_option (\<lambda>(e, evs). (nxt e, tx_next_ack (txa_st e), On_delivered_sdu 7 \<in> set evs))
      (handle_status_pdu rx_example (nack0_status\<lparr>sp_nacks := []\<rparr>) tx_example2) = Some (0, 1, True)"
    by code_simp
  then show ?thesis by auto
qed

end
