(* ===== verification/Rlc_Um_Pdu.thy ===== *)
theory Rlc_Um_Pdu
  imports Rlc_Config
begin

text \<open>
  The UMD PDU header of RLC unacknowledged mode (\<open>lib/rlc/rlc_um_pdu.h\<close>): reading, writing and the packed length
  that the receiver strips.
\<close>

section \<open>Definitions\<close>

record rlc_um_pdu_header =
  um_si :: rlc_si_field
  um_sn_size :: rlc_um_sn_size
  um_sn :: u16
  um_so :: u16

definition rlc_um_pdu_header_size_complete_sdu :: nat where "rlc_um_pdu_header_size_complete_sdu = 1"

fun rlc_um_pdu_header_size_no_so :: "rlc_um_sn_size \<Rightarrow> nat" where
  "rlc_um_pdu_header_size_no_so um_size6bits = 1"
| "rlc_um_pdu_header_size_no_so um_size12bits = 2"

fun rlc_um_pdu_header_size_with_so :: "rlc_um_sn_size \<Rightarrow> nat" where
  "rlc_um_pdu_header_size_with_so um_size6bits = 3"
| "rlc_um_pdu_header_size_with_so um_size12bits = 4"

text \<open>The optional SO; absent, it keeps the value 0 the caller initialises it with.\<close>

definition um_read_so :: "rlc_si_field \<Rightarrow> bytes \<Rightarrow> u16 option" where
  "um_read_so si r =
     (if si = last_segment \<or> si = middle_segment
      then (case r of
              b1 # b2 # _ \<Rightarrow> Some (push_bit 8 (ucast b1 AND 0xff) OR (ucast b2 AND 0xff))
            | _ \<Rightarrow> None)
      else Some 0)"

definition rlc_um_read_data_pdu_header :: "bytes \<Rightarrow> rlc_um_sn_size \<Rightarrow> rlc_um_pdu_header option" where
  "rlc_um_read_data_pdu_header pdu sn_size =
     (case pdu of
        [] \<Rightarrow> None
      | b0 # r0 \<Rightarrow>
          let si = si_of_bits (drop_bit 6 b0 AND 3);
              hdr = (\<lambda>sn so. \<lparr>um_si = si, um_sn_size = sn_size, um_sn = sn, um_so = so\<rparr>)
          in case sn_size of
               um_size6bits \<Rightarrow>
                 let sn = ucast (b0 AND 0x3f) :: u16
                 in if si = full_sdu \<and> sn \<noteq> 0 then None
                    else map_option (hdr sn) (um_read_so si r0)
             | um_size12bits \<Rightarrow>
                 let sn_hi = push_bit 8 (ucast (b0 AND 0x0f)) :: u16
                 in if si = full_sdu \<and> sn_hi \<noteq> 0 then None
                    else if si = first_segment \<and> drop_bit 4 b0 AND 3 \<noteq> 0 then None
                    else if si = full_sdu then map_option (hdr sn_hi) (um_read_so si r0)
                    else (case r0 of
                       [] \<Rightarrow> None
                     | b1 # r1 \<Rightarrow> map_option (hdr (sn_hi OR (ucast b1 AND 0xff))) (um_read_so si r1)))"

definition rlc_um_nr_packed_length :: "rlc_um_pdu_header \<Rightarrow> nat" where
  "rlc_um_nr_packed_length h =
     (if um_si h = full_sdu then 1
      else (case um_sn_size h of um_size6bits \<Rightarrow> 1 | um_size12bits \<Rightarrow> 2) + (if um_so h \<noteq> 0 then 2 else 0))"

definition rlc_um_write_data_pdu_header :: "rlc_um_pdu_header \<Rightarrow> bytes" where
  "rlc_um_write_data_pdu_header h =
     (let b0 = push_bit 6 (si_to_number (um_si h) AND 3); sn = um_sn h; so = um_so h
      in if um_si h = full_sdu then [b0]
         else (case um_sn_size h of
                 um_size6bits \<Rightarrow> [b0 OR ucast (sn AND 0x3f)]
               | um_size12bits \<Rightarrow> [b0 OR ucast (drop_bit 8 sn AND 0xf), ucast (sn AND 0xff)])
              @ (if so \<noteq> 0 then [ucast (drop_bit 8 so), ucast (so AND 0xff)] else []))"

section \<open>Round trip\<close>

text \<open>
  The headers a transmitter forms: in a segment the SN fits its field, and the SO is there exactly for the segments
  after the first.  A complete SDU is sent without SN and SO, whatever the header record holds.
\<close>

definition um_header_ok :: "rlc_um_pdu_header \<Rightarrow> bool" where
  "um_header_ok h \<longleftrightarrow> um_si h = full_sdu \<or>
     (um_sn h < push_bit (um_to_number (um_sn_size h)) 1 \<and>
      (um_so h \<noteq> 0 \<longleftrightarrow> um_si h = last_segment \<or> um_si h = middle_segment))"

definition um_wire :: "rlc_um_pdu_header \<Rightarrow> rlc_um_pdu_header" where
  "um_wire h = (if um_si h = full_sdu then h\<lparr>um_sn := 0, um_so := 0\<rparr> else h)"

lemma um_read_so_write:
  "(so \<noteq> 0 \<longleftrightarrow> si = last_segment \<or> si = middle_segment) \<Longrightarrow>
   um_read_so si ((if so \<noteq> 0 then [ucast (drop_bit 8 so), ucast (so AND 0xff)] else []) @ r) = Some so"
  apply (auto simp: and_masks um_read_so_def)
  apply (rule bit_word_eqI; auto simp: bit_simps)+
  done

lemma um_hdr_bits:
  fixes lo :: u8
  assumes lo: "take_bit 6 lo = lo" and b0: "b0 = push_bit 6 (si_to_number si AND 3) OR lo"
  shows "drop_bit 6 b0 AND 3 = si_to_number si" "take_bit 6 b0 = lo"
proof -
  have lo6: "bit lo i \<Longrightarrow> i < 6" for i using lo by (metis bit_take_bit_iff)
  have "take_bit 2 (si_to_number si) = si_to_number si" by (cases si) simp_all
  then have s: "bit (si_to_number si) n \<Longrightarrow> n < 2" for n by (metis bit_take_bit_iff)
  show "drop_bit 6 b0 AND 3 = si_to_number si"
    unfolding b0 and_masks by (rule bit_word_eqI) (auto simp: bit_simps dest: s lo6)
  show "take_bit 6 b0 = lo"
    unfolding b0 and_masks by (rule bit_word_eqI) (auto simp: bit_simps dest: s lo6)
qed

lemma um_roundtrip_full:
  assumes "um_si h = full_sdu"
  shows "rlc_um_read_data_pdu_header (rlc_um_write_data_pdu_header h @ payload) (um_sn_size h) = Some (um_wire h)"
proof (cases "um_sn_size h")
  case um_size6bits
  then show ?thesis using assms
    by (cases h) (simp add: rlc_um_read_data_pdu_header_def rlc_um_write_data_pdu_header_def um_wire_def um_read_so_def
      si_of_bits_def Let_def)
next
  case um_size12bits
  then show ?thesis using assms
    by (cases h) (simp add: rlc_um_read_data_pdu_header_def rlc_um_write_data_pdu_header_def um_wire_def um_read_so_def
      si_of_bits_def Let_def)
qed

lemma um_roundtrip_6bit:
  assumes h: "um_header_ok h" "um_si h \<noteq> full_sdu" and sz: "um_sn_size h = um_size6bits"
  shows "rlc_um_read_data_pdu_header (rlc_um_write_data_pdu_header h @ payload) um_size6bits = Some h"
proof -
  define so :: bytes where
    "so = (if um_so h \<noteq> 0 then [ucast (drop_bit 8 (um_so h)), ucast (um_so h AND 0xff)] else [])"
  have so: "um_read_so (um_si h) (so @ payload) = Some (um_so h)"
    unfolding so_def by (rule um_read_so_write) (use h in \<open>simp add: um_header_ok_def\<close>)
  define lo :: u8 where "lo = ucast (um_sn h AND 0x3f)"
  have sn: "bit (um_sn h) i \<Longrightarrow> i < 6" for i
    using h sz bit_less_exp [of "um_sn h" 6 i] by (simp add: um_header_ok_def push_bit_eq_mult)
  have m: "(0x3f :: u16) = mask 6" "(0x3f :: u8) = mask 6" by (simp_all add: mask_eq_exp_minus_1)
  have lo: "take_bit 6 lo = lo" unfolding lo_def m by (rule bit_word_eqI) (auto simp: bit_simps)
  define b0 where "b0 = push_bit 6 (si_to_number (um_si h) AND 3) OR lo"
  note hb = um_hdr_bits [OF lo b0_def]
  have "b0 AND 0x3f = lo" unfolding m take_bit_eq_mask [symmetric] by (rule hb(2))
  then have e: "ucast (b0 AND 0x3f) = um_sn h" unfolding lo_def m
    by (simp only:, intro bit_word_eqI) (auto simp: bit_simps dest: sn)
  have w: "rlc_um_write_data_pdu_header h @ payload = b0 # so @ payload"
    unfolding rlc_um_write_data_pdu_header_def Let_def b0_def lo_def so_def using sz h(2) by simp
  show ?thesis
    unfolding w rlc_um_read_data_pdu_header_def list.case Let_def hb(1) si_of_bits_to_number e rlc_um_sn_size.case so
    using h(2) sz by simp
qed

lemma um_roundtrip_12bit:
  assumes h: "um_header_ok h" "um_si h \<noteq> full_sdu" and sz: "um_sn_size h = um_size12bits"
  shows "rlc_um_read_data_pdu_header (rlc_um_write_data_pdu_header h @ payload) um_size12bits = Some h"
proof -
  define so :: bytes where
    "so = (if um_so h \<noteq> 0 then [ucast (drop_bit 8 (um_so h)), ucast (um_so h AND 0xff)] else [])"
  have so: "um_read_so (um_si h) (so @ payload) = Some (um_so h)"
    unfolding so_def by (rule um_read_so_write) (use h in \<open>simp add: um_header_ok_def\<close>)
  define lo :: u8 where "lo = ucast (drop_bit 8 (um_sn h) AND 0xf)"
  have sn: "bit (um_sn h) i \<Longrightarrow> i < 12" for i
    using h sz bit_less_exp [of "um_sn h" 12 i] by (simp add: um_header_ok_def push_bit_eq_mult)
  have lo4: "bit lo i \<Longrightarrow> i < 4" for i unfolding lo_def and_masks by (auto simp: bit_simps)
  have lo: "take_bit 6 lo = lo" by (rule bit_word_eqI) (auto simp: bit_simps dest: lo4)
  define b0 where "b0 = push_bit 6 (si_to_number (um_si h) AND 3) OR lo"
  note hb = um_hdr_bits [OF lo b0_def]
  have b0l: "b0 AND 0xf = take_bit 4 (take_bit 6 b0)" unfolding and_masks by (rule bit_word_eqI) (auto simp: bit_simps)
  have e: "push_bit 8 (ucast (b0 AND 0x0f)) OR (ucast (ucast (um_sn h AND 0xff) :: u8) AND 0xff) = um_sn h"
    unfolding b0l hb(2) unfolding and_masks lo_def by (intro bit_word_eqI) (auto simp: bit_simps dest: sn)
  have r: "drop_bit 4 b0 AND 3 = 0"
  proof -
    have "drop_bit 4 b0 AND 3 = drop_bit 4 (take_bit 6 b0) AND 3" unfolding and_masks by (rule bit_word_eqI) (auto simp: bit_simps)
    also have "\<dots> = 0" unfolding hb(2) and_masks by (rule bit_word_eqI) (auto simp: bit_simps dest: lo4)
    finally show ?thesis .
  qed
  have w: "rlc_um_write_data_pdu_header h @ payload = b0 # ucast (um_sn h AND 0xff) # so @ payload"
    unfolding rlc_um_write_data_pdu_header_def Let_def b0_def lo_def so_def using sz h(2) by simp
  show ?thesis
    unfolding w rlc_um_read_data_pdu_header_def list.case Let_def hb(1) si_of_bits_to_number e rlc_um_sn_size.case so r
    using h(2) sz by simp
qed

lemma um_read_written:
  assumes "um_header_ok h"
  shows "rlc_um_read_data_pdu_header (rlc_um_write_data_pdu_header h @ payload) (um_sn_size h) = Some (um_wire h) \<and>
    length (rlc_um_write_data_pdu_header h) = rlc_um_nr_packed_length (um_wire h)"
proof (cases "um_si h = full_sdu")
  case True
  then show ?thesis using um_roundtrip_full [OF True]
    by (simp add: rlc_um_write_data_pdu_header_def rlc_um_nr_packed_length_def um_wire_def Let_def)
next
  case False
  have "rlc_um_read_data_pdu_header (rlc_um_write_data_pdu_header h @ payload) (um_sn_size h) = Some h"
    using um_roundtrip_6bit [OF assms False] um_roundtrip_12bit [OF assms False] by (cases "um_sn_size h") simp_all
  then show ?thesis using False
    by (cases "um_sn_size h") (simp_all add: um_wire_def rlc_um_write_data_pdu_header_def rlc_um_nr_packed_length_def Let_def)
qed

text \<open>
  A UMD PDU header is read back from the bytes it is written to, for 6- and 12-bit SNs and with or without
  SO, and the length that the receiver strips is the length that was written.
\<close>

lemma um_header_roundtrip:
  assumes "um_header_ok h"
  shows "rlc_um_read_data_pdu_header (rlc_um_write_data_pdu_header h @ payload) (um_sn_size h) = Some (um_wire h) \<and>
    length (rlc_um_write_data_pdu_header h) = rlc_um_nr_packed_length (um_wire h)"
  using assms by (rule um_read_written)

definition um_header_example :: rlc_um_pdu_header where
  "um_header_example = \<lparr>um_si = middle_segment, um_sn_size = um_size12bits, um_sn = 0xabc, um_so = 0x1234\<rparr>"

lemma um_header_roundtrip_witness:
  "rlc_um_read_data_pdu_header (rlc_um_write_data_pdu_header um_header_example @ [9]) (um_sn_size um_header_example) =
     Some (um_wire um_header_example) \<and>
   length (rlc_um_write_data_pdu_header um_header_example) = rlc_um_nr_packed_length (um_wire um_header_example)"
  by (rule um_header_roundtrip) (simp add: um_header_example_def um_header_ok_def push_bit_eq_mult)

end
