(* ===== verification/Rlc_Tx_Um.thy ===== *)
theory Rlc_Tx_Um
  imports Rlc_Um_Pdu Rlc_Tx_Am
begin

text \<open>
  The transmitting side of an RLC UM entity (\<open>lib/rlc/rlc_tx_um_entity.h\<close>, \<open>.cpp\<close>): SDUs from the upper layer and
  their discard, PDUs pulled by the MAC, and the buffer state.

  An operation returns the new entity and the calls and deferred tasks it issues.  \<open>None\<close> stands for a failed
  \<open>srsran_assert\<close> or \<open>srsran_sanity_check\<close>, or a byte range outside of a buffer.  The buffer of the SDU being
  transmitted is empty when there is none.  Metrics, pcap, latencies and logging are not part of the state.
\<close>

section \<open>State\<close>

record rlc_tx_um_config =
  txu_sn_field_length :: rlc_um_sn_size
  txu_pdcp_sn_len :: pdcp_sn_size
  txu_queue_size :: u32
  txu_queue_size_bytes :: u32

record rlc_tx_um_state =
  txu_tx_next :: u32

record rlc_tx_um_entity =
  txu_cfg :: rlc_tx_um_config
  txu_st :: rlc_tx_um_state
  txu_sdu_queue :: rlc_sdu_queue
  txu_sdu :: rlc_sdu
  txu_next_so :: u32
  txu_prev_buffer_state :: rlc_buffer_state
  txu_suspend_bs_notif_barring :: bool
  txu_pending_buffer_state :: bool
  txu_high_metrics_timer :: bool
  txu_low_metrics_timer :: bool
  txu_stopped :: bool

datatype tx_um_event =
    Um_on_transmitted_sdu u32 u32
  | Um_defer_buffer_state_update
  | Um_on_buffer_state_update rlc_buffer_state

abbreviation txu_sz :: "rlc_tx_um_entity \<Rightarrow> rlc_um_sn_size" where
  "txu_sz e \<equiv> txu_sn_field_length (txu_cfg e)"

abbreviation txu_mod :: "rlc_tx_um_entity \<Rightarrow> u32" where "txu_mod e \<equiv> um_mod (txu_sz e)"

definition rlc_sdu_init :: rlc_sdu where
  "rlc_sdu_init = \<lparr>sdu_buf = [], sdu_is_retx = False, sdu_pdcp_sn = None, sdu_time_of_arrival = 0\<rparr>"

text \<open>The timers of the metrics run when a metrics period is configured.\<close>

definition tx_um_create :: "bool \<Rightarrow> rlc_tx_um_config \<Rightarrow> rlc_tx_um_entity option" where
  "tx_um_create metrics cfg =
     (if txu_pdcp_sn_len cfg = pdcp_size_invalid then None
      else Some \<lparr>txu_cfg = cfg, txu_st = \<lparr>txu_tx_next = 0\<rparr>,
        txu_sdu_queue = sq_create (txu_queue_size cfg) (txu_queue_size_bytes cfg), txu_sdu = rlc_sdu_init, txu_next_so = 0,
        txu_prev_buffer_state = \<lparr>pending_bytes = 0, hol_toa = None\<rparr>, txu_suspend_bs_notif_barring = True,
        txu_pending_buffer_state = False, txu_high_metrics_timer = metrics, txu_low_metrics_timer = metrics, txu_stopped = False\<rparr>)"

text \<open>\<open>stop\<close>: the task for the cell executor may be refused.\<close>

definition tx_um_stop :: "bool \<Rightarrow> rlc_tx_um_entity \<Rightarrow> rlc_tx_um_entity" where
  "tx_um_stop execute_ok e =
     (if \<not> txu_stopped e
      then e\<lparr>txu_high_metrics_timer := False,
             txu_low_metrics_timer := (if execute_ok then False else txu_low_metrics_timer e), txu_stopped := True\<rparr>
      else e)"

section \<open>Interface of the upper layer\<close>

definition um_handle_changed_buffer_state :: "rlc_tx_um_entity \<Rightarrow> rlc_tx_um_entity \<times> tx_um_event list" where
  "um_handle_changed_buffer_state e =
     (if \<not> txu_pending_buffer_state e
      then (e\<lparr>txu_pending_buffer_state := True\<rparr>, [Um_defer_buffer_state_update]) else (e, []))"

text \<open>The retransmission flag of PDCP is ignored, with an error in the log.\<close>

definition um_new_sdu :: "int \<Rightarrow> bytes \<Rightarrow> rlc_tx_um_entity \<Rightarrow> rlc_sdu" where
  "um_new_sdu now buf e = \<lparr>sdu_buf = buf, sdu_is_retx = False,
     sdu_pdcp_sn = get_pdcp_sn buf (txu_pdcp_sn_len (txu_cfg e)) False, sdu_time_of_arrival = now\<rparr>"

definition tx_um_handle_sdu :: "int \<Rightarrow> bytes \<Rightarrow> bool \<Rightarrow> rlc_tx_um_entity \<Rightarrow> rlc_tx_um_entity \<times> tx_um_event list" where
  "tx_um_handle_sdu now buf is_retx e =
     (case sq_write (txu_sdu_queue e) (um_new_sdu now buf e) of
        (q, True) \<Rightarrow> um_handle_changed_buffer_state (e\<lparr>txu_sdu_queue := q\<rparr>)
      | (q, False) \<Rightarrow> (e\<lparr>txu_sdu_queue := q\<rparr>, []))"

definition tx_um_discard_sdu :: "u32 \<Rightarrow> rlc_tx_um_entity \<Rightarrow> rlc_tx_um_entity \<times> tx_um_event list" where
  "tx_um_discard_sdu pdcp_sn e =
     (case sq_try_discard (txu_sdu_queue e) pdcp_sn of
        (q, True) \<Rightarrow> um_handle_changed_buffer_state (e\<lparr>txu_sdu_queue := q\<rparr>)
      | (q, False) \<Rightarrow> (e\<lparr>txu_sdu_queue := q\<rparr>, []))"

section \<open>pull_pdu\<close>

abbreviation um_head_len_full :: nat where "um_head_len_full \<equiv> rlc_um_pdu_header_size_complete_sdu"

abbreviation um_head_len_first :: "rlc_tx_um_entity \<Rightarrow> nat" where
  "um_head_len_first e \<equiv> rlc_um_pdu_header_size_no_so (txu_sz e)"

abbreviation um_head_len_not_first :: "rlc_tx_um_entity \<Rightarrow> nat" where
  "um_head_len_not_first e \<equiv> rlc_um_pdu_header_size_with_so (txu_sz e)"

text \<open>The SI and the header length, \<open>None\<close> when the grant has no room for the header and a byte.\<close>

definition get_si_and_expected_header_size ::
  "u32 \<Rightarrow> u32 \<Rightarrow> u32 \<Rightarrow> rlc_tx_um_entity \<Rightarrow> (rlc_si_field \<times> nat) option" where
  "get_si_and_expected_header_size so sdu_len grant_len e =
     (if so = 0
      then (if sdu_len \<le> grant_len - of_nat um_head_len_full then Some (full_sdu, um_head_len_full)
            else if grant_len \<le> of_nat (um_head_len_first e) then None
            else Some (first_segment, um_head_len_first e))
      else if grant_len \<le> of_nat (um_head_len_not_first e) then None
      else if sdu_len - txu_next_so e \<le> grant_len - of_nat (um_head_len_not_first e)
      then Some (last_segment, um_head_len_not_first e)
      else Some (middle_segment, um_head_len_not_first e))"

text \<open>The SDU to transmit: the current one, or the next of the queue.\<close>

definition um_next_sdu :: "rlc_tx_um_entity \<Rightarrow> (rlc_tx_um_entity \<times> tx_um_event list) option" where
  "um_next_sdu e = (case sq_read (txu_sdu_queue e) of
      (q, None) \<Rightarrow> None
    | (q, Some sdu) \<Rightarrow> Some (e\<lparr>txu_sdu_queue := q, txu_sdu := sdu\<rparr>,
        case sdu_pdcp_sn sdu of Some sn \<Rightarrow> [Um_on_transmitted_sdu sn (txu_queue_size_bytes (txu_cfg e))] | None \<Rightarrow> []))"

text \<open>
  The PDU with the next bytes of the current SDU.  The second sanity check assigns the expected length to
  \<open>header_len\<close>; the two lengths are the same in all states of interest, and the written one is taken here.
\<close>

definition um_build_pdu :: "nat \<Rightarrow> rlc_tx_um_entity \<Rightarrow> (rlc_tx_um_entity \<times> bytes) option" where
  "um_build_pdu buf_size e =
     (let grant_len = of_nat buf_size :: u32; buf = sdu_buf (txu_sdu e); next_so = txu_next_so e in
      case get_si_and_expected_header_size next_so (of_nat (length buf)) grant_len e of
        None \<Rightarrow> Some (e, [])
      | Some (si, expected_hdr_len) \<Rightarrow>
          let hdr = rlc_um_write_data_pdu_header
                \<lparr>um_si = si, um_sn_size = txu_sz e, um_sn = ucast (txu_tx_next (txu_st e)), um_so = ucast next_so\<rparr>;
              space = grant_len - of_nat (length hdr);
              rest = of_nat (length buf) - ucast next_so :: u64;
              payload_len = (if ucast space \<ge> rest then ucast rest else space) :: u32
          in do {
            v \<leftarrow> buffer_view buf (unat next_so) (unat payload_len);
            let payload = copy_segments v (buf_size - length hdr);
            if payload = [] \<or> length payload \<noteq> unat payload_len then Some (e, [])
            else let e1 = (if si = full_sdu \<or> si = last_segment
                           then e\<lparr>txu_sdu := (txu_sdu e)\<lparr>sdu_buf := []\<rparr>, txu_next_so := 0\<rparr>
                           else e\<lparr>txu_next_so := next_so + payload_len\<rparr>);
                     e2 = (if si = last_segment
                           then e1\<lparr>txu_st := (txu_st e1)\<lparr>txu_tx_next := sn_next (txu_mod e) (txu_tx_next (txu_st e1))\<rparr>\<rparr>
                           else e1)
                 in Some (e2, hdr @ payload)
          })"

definition tx_um_pull_pdu :: "nat \<Rightarrow> rlc_tx_um_entity \<Rightarrow> (rlc_tx_um_entity \<times> tx_um_event list \<times> bytes) option" where
  "tx_um_pull_pdu buf_size e =
     (if (of_nat buf_size :: u32) \<le> of_nat um_head_len_full then Some (e, [], [])
      else if sdu_buf (txu_sdu e) = []
      then if txu_next_so e \<noteq> 0 then None
           else (case um_next_sdu e of
                   None \<Rightarrow> Some (e\<lparr>txu_sdu_queue := fst (sq_read (txu_sdu_queue e))\<rparr>, [], [])
                 | Some (e1, evs) \<Rightarrow> map_option (\<lambda>(e2, pdu). (e2, evs, pdu)) (um_build_pdu buf_size e1))
      else map_option (\<lambda>(e2, pdu). (e2, [], pdu)) (um_build_pdu buf_size e))"

section \<open>Buffer state\<close>

definition tx_um_get_buffer_state :: "rlc_tx_um_entity \<Rightarrow> rlc_tx_um_entity \<times> rlc_buffer_state" where
  "tx_um_get_buffer_state e =
     (let queue_state = sq_get_state (txu_sdu_queue e);
          queue_bytes = n_bytes queue_state + n_sdus queue_state * of_nat um_head_len_full;
          buf = sdu_buf (txu_sdu e);
          (e1, segment_bytes, toa) =
            (if buf \<noteq> []
             then (e, ucast (of_nat (length buf) - ucast (txu_next_so e) + of_nat (um_head_len_not_first e) :: u64) :: u32,
                   Some (sdu_time_of_arrival (txu_sdu e)))
             else (case sq_front (txu_sdu_queue e) of
                     (q, sdu) \<Rightarrow> (e\<lparr>txu_sdu_queue := q\<rparr>, 0, map_option sdu_time_of_arrival sdu)));
          pending = queue_bytes + segment_bytes
      in (e1\<lparr>txu_suspend_bs_notif_barring := (txu_suspend_bs_notif_barring e1 \<or> unat pending \<le> MAX_DL_PDU_LENGTH)\<rparr>,
          \<lparr>pending_bytes = pending, hol_toa = toa\<rparr>))"

definition tx_um_update_mac_buffer_state :: "rlc_tx_um_entity \<Rightarrow> rlc_tx_um_entity \<times> tx_um_event list" where
  "tx_um_update_mac_buffer_state e =
     (case tx_um_get_buffer_state (e\<lparr>txu_pending_buffer_state := False\<rparr>) of (e1, bs) \<Rightarrow>
        let notify = (unat (pending_bytes bs) \<le> MAX_DL_PDU_LENGTH \<or>
                      unat (pending_bytes (txu_prev_buffer_state e1)) \<le> MAX_DL_PDU_LENGTH \<or> txu_suspend_bs_notif_barring e1);
            e2 = (if notify then e1\<lparr>txu_suspend_bs_notif_barring := False\<rparr> else e1)
        in (e2\<lparr>txu_prev_buffer_state := bs\<rparr>, if notify then [Um_on_buffer_state_update bs] else []))"

end
