(* ===== verification/Rlc_Tx_Um_Inv.thy ===== *)
theory Rlc_Tx_Um_Inv
  imports Rlc_Tx_Um "HOL-Library.Sublist"
begin

text \<open>
  The invariant of the RLC UM transmitter and what its operations do to the stream of SDUs that is pending in it:
  which bytes a PDU carries, the pending bytes it reports, and that grants drain it.
\<close>

section \<open>The invariant\<close>

text \<open>SDUs have at most 65535 bytes, so that every segment offset fits the 16 bits of the SO.\<close>

definition um_sdu_ok :: "rlc_sdu \<Rightarrow> bool" where "um_sdu_ok s \<longleftrightarrow> length (sdu_buf s) \<le> 65535"

definition txu_inv :: "rlc_tx_um_entity \<Rightarrow> bool" where
  "txu_inv e \<longleftrightarrow> txu_tx_next (txu_st e) < txu_mod e \<and> sq_invar (txu_sdu_queue e) \<and>
     (\<forall>s \<in> set (sq_view (txu_sdu_queue e)). um_sdu_ok s) \<and> um_sdu_ok (txu_sdu e) \<and>
     (if sdu_buf (txu_sdu e) = [] then txu_next_so e = 0 else unat (txu_next_so e) < length (sdu_buf (txu_sdu e)))"

text \<open>
  The stream: the SDU in transmission, of which \<open>txu_next_so\<close> bytes are sent, and the queued SDUs.  Empty SDUs never
  reach the MAC.
\<close>

definition txu_backlog :: "rlc_tx_um_entity \<Rightarrow> bytes list" where
  "txu_backlog e = filter (\<lambda>b. b \<noteq> []) (map sdu_buf (sq_view (txu_sdu_queue e)))"

definition txu_current :: "rlc_tx_um_entity \<Rightarrow> bytes list" where
  "txu_current e = (if sdu_buf (txu_sdu e) = [] then [] else [sdu_buf (txu_sdu e)])"

definition txu_pending :: "rlc_tx_um_entity \<Rightarrow> bytes list" where
  "txu_pending e = txu_current e @ txu_backlog e"

section \<open>One PDU\<close>

definition um_segment_si :: "nat \<Rightarrow> nat \<Rightarrow> nat \<Rightarrow> rlc_si_field" where
  "um_segment_si so len sdu_len =
     (if so = 0 then (if len = sdu_len then full_sdu else first_segment)
      else (if so + len = sdu_len then last_segment else middle_segment))"

definition um_hdr_of :: "rlc_um_sn_size \<Rightarrow> u32 \<Rightarrow> bytes \<Rightarrow> nat \<Rightarrow> nat \<Rightarrow> rlc_um_pdu_header" where
  "um_hdr_of sz sn sdu so len = \<lparr>um_si = um_segment_si so len (length sdu), um_sn_size = sz, um_sn = ucast sn, um_so = of_nat so\<rparr>"

text \<open>\<open>pdu\<close> carries \<open>payload\<close>, the bytes of \<open>sdu\<close> from \<open>so\<close> on, under the SN \<open>sn\<close>.\<close>

definition um_pdu_of :: "rlc_um_sn_size \<Rightarrow> u32 \<Rightarrow> bytes \<Rightarrow> nat \<Rightarrow> bytes \<Rightarrow> bytes \<Rightarrow> bool" where
  "um_pdu_of sz sn sdu so payload pdu \<longleftrightarrow>
     payload \<noteq> [] \<and> so + length payload \<le> length sdu \<and> payload = take (length payload) (drop so sdu) \<and>
     pdu = rlc_um_write_data_pdu_header (um_hdr_of sz sn sdu so (length payload)) @ payload"

lemma um_header_sizes [simp]:
  "1 \<le> um_head_len_first e" "um_head_len_first e \<le> 2" "um_head_len_not_first e = um_head_len_first e + 2"
  "um_head_len_full = 1"
  by (cases "txu_sz e"; simp add: rlc_um_pdu_header_size_complete_sdu_def)+

lemma um_head_first_le: "rlc_um_pdu_header_size_no_so sz \<le> 2" "1 \<le> rlc_um_pdu_header_size_no_so sz"
  by (cases sz; simp)+

lemma um_written_length:
  "length (rlc_um_write_data_pdu_header h) = (if um_si h = full_sdu then 1
     else if um_so h = 0 then rlc_um_pdu_header_size_no_so (um_sn_size h) else rlc_um_pdu_header_size_with_so (um_sn_size h))"
  by (cases "um_sn_size h") (simp_all add: rlc_um_write_data_pdu_header_def Let_def)

lemma unat_of_nat_32: "n < 2 ^ 32 \<Longrightarrow> unat (of_nat n :: u32) = n"
  by (simp add: unat_of_nat take_bit_nat_eq_self)

lemma unat_of_nat_64:
  "n < 2 ^ 32 \<Longrightarrow> unat (of_nat n :: u64) = n" "n < 2 ^ 32 \<Longrightarrow> unat (ucast (of_nat n :: u32) :: u64) = n"
  "n < 2 ^ 32 \<Longrightarrow> unat (ucast (of_nat n :: u64) :: u32) = n"
  by (simp_all add: unsigned_ucast_eq unat_of_nat take_bit_nat_eq_self)

lemma um_so16:
  assumes "n \<le> 65535"
  shows "ucast (of_nat n :: u32) = (of_nat n :: u16)" "(of_nat n :: u16) = 0 \<longleftrightarrow> n = 0"
proof -
  have u: "unat (of_nat n :: u16) = n" using assms by (simp add: unat_of_nat take_bit_nat_eq_self)
  show "ucast (of_nat n :: u32) = (of_nat n :: u16)"
    using assms by (simp add: word_unat_eq_iff unsigned_ucast_eq unat_of_nat take_bit_nat_eq_self)
  show "(of_nat n :: u16) = 0 \<longleftrightarrow> n = 0"
  proof
    assume "(of_nat n :: u16) = 0"
    then have "unat (of_nat n :: u16) = 0" by (simp only: unsigned_0)
    then show "n = 0" using u by linarith
  qed simp
qed

text \<open>The SI and the header length, in numbers.\<close>

lemma get_si_nat:
  assumes n: "n \<le> 65535" "unat (txu_next_so e) < n" and g: "2 \<le> g" "g < 2 ^ 32"
  shows "get_si_and_expected_header_size (txu_next_so e) (of_nat n) (of_nat g) e =
    (if txu_next_so e = 0
     then (if n \<le> g - 1 then Some (full_sdu, 1) else if g \<le> um_head_len_first e then None
           else Some (first_segment, um_head_len_first e))
     else if g \<le> um_head_len_not_first e then None
     else if n - unat (txu_next_so e) \<le> g - um_head_len_not_first e then Some (last_segment, um_head_len_not_first e)
     else Some (middle_segment, um_head_len_not_first e))"
proof -
  have le: "(of_nat a :: u32) \<le> of_nat b \<longleftrightarrow> a \<le> b" if "a < 2 ^ 32" "b < 2 ^ 32" for a b
    using that by (simp add: word_le_nat_alt unat_of_nat_32)
  have sub: "(of_nat a :: u32) - of_nat b = of_nat (a - b)" if "b \<le> a" for a b using that by simp
  have so: "txu_next_so e = of_nat (unat (txu_next_so e))" by simp
  let ?h = "um_head_len_first e"
  have h: "?h \<le> 2" by simp
  have a: "(of_nat n :: u32) \<le> of_nat g - of_nat um_head_len_full \<longleftrightarrow> n \<le> g - 1"
    using sub [of um_head_len_full g] le [of n "g - 1"] n g by simp
  have b: "(of_nat g :: u32) \<le> of_nat ?h \<longleftrightarrow> g \<le> ?h" using le [of g ?h] g h by (simp del: um_header_sizes)
  have c: "(of_nat g :: u32) \<le> of_nat (um_head_len_not_first e) \<longleftrightarrow> g \<le> um_head_len_not_first e"
    using le [of g "um_head_len_not_first e"] g h by (simp del: of_nat_add)
  have d: "(of_nat n :: u32) - txu_next_so e \<le> of_nat g - of_nat (um_head_len_not_first e) \<longleftrightarrow>
      n - unat (txu_next_so e) \<le> g - um_head_len_not_first e" if "\<not> g \<le> um_head_len_not_first e"
  proof -
    have "(of_nat n :: u32) - txu_next_so e = of_nat (n - unat (txu_next_so e))" using sub [of "unat (txu_next_so e)" n] n by simp
    moreover have "(of_nat g :: u32) - of_nat (um_head_len_not_first e) = of_nat (g - um_head_len_not_first e)"
      by (rule sub) (use that in simp)
    ultimately show ?thesis using le [of "n - unat (txu_next_so e)" "g - um_head_len_not_first e"] n g by (simp del: of_nat_diff)
  qed
  show ?thesis unfolding get_si_and_expected_header_size_def a b c using d by (simp del: um_header_sizes(1-3))
qed


text \<open>The entity after sending \<open>len\<close> bytes.\<close>

definition um_advance :: "nat \<Rightarrow> rlc_tx_um_entity \<Rightarrow> rlc_tx_um_entity" where
  "um_advance len e =
     (if unat (txu_next_so e) + len = length (sdu_buf (txu_sdu e))
      then e\<lparr>txu_sdu := (txu_sdu e)\<lparr>sdu_buf := []\<rparr>, txu_next_so := 0,
             txu_st := (if txu_next_so e = 0 then txu_st e
                        else (txu_st e)\<lparr>txu_tx_next := sn_next (txu_mod e) (txu_tx_next (txu_st e))\<rparr>)\<rparr>
      else e\<lparr>txu_next_so := txu_next_so e + of_nat len\<rparr>)"

lemma um_build_pdu_ok:
  assumes inv: "txu_inv e" and b: "sdu_buf (txu_sdu e) \<noteq> []" and g: "2 \<le> g" "g < 2 ^ 32"
  shows "\<exists>e' pdu. um_build_pdu g e = Some (e', pdu) \<and> length pdu \<le> g \<and>
    (pdu = [] \<longrightarrow> e' = e \<and> g \<le> um_head_len_not_first e) \<and>
    (pdu \<noteq> [] \<longrightarrow> (\<exists>payload. um_pdu_of (txu_sz e) (txu_tx_next (txu_st e)) (sdu_buf (txu_sdu e)) (unat (txu_next_so e)) payload pdu \<and>
      e' = um_advance (length payload) e))"
proof -
  define buf where "buf = sdu_buf (txu_sdu e)"
  define so where "so = unat (txu_next_so e)"
  have n: "length buf \<le> 65535" "so < length buf" using inv b by (simp_all add: txu_inv_def um_sdu_ok_def buf_def so_def)
  have so: "txu_next_so e = of_nat so" by (simp add: so_def)
  have so0: "txu_next_so e = 0 \<longleftrightarrow> so = 0" by (simp add: so_def unsigned_eq_0_iff)
  note so16 = um_so16 [of so]
  note si = get_si_nat [of "length buf" e g, folded so_def, OF n g, unfolded so0]
  show ?thesis
  proof (cases "get_si_and_expected_header_size (txu_next_so e) (of_nat (length buf)) (of_nat g) e")
    case None
    then have "g \<le> um_head_len_not_first e" using si by (simp split: if_splits)
    then show ?thesis using None by (simp add: um_build_pdu_def buf_def [symmetric] Let_def)
  next
    case (Some p)
    obtain s hl where p: "p = (s, hl)" by (rule prod.exhaust)
    define len where "len = min (g - hl) (length buf - so)"
    have c: "hl < g" "s = um_segment_si so len (length buf)"
        "hl = (if s = full_sdu then 1 else if so = 0 then um_head_len_first e else um_head_len_not_first e)"
      using um_head_first_le [of "txu_sz e"] Some p si g n by (auto simp: len_def um_segment_si_def min_def split: if_splits)
    have len: "0 < len" "so + len \<le> length buf" "len \<le> g - hl" using c(1) n by (simp_all add: len_def)
    define h where "h = um_hdr_of (txu_sz e) (txu_tx_next (txu_st e)) buf so len"
    have h: "\<lparr>um_si = s, um_sn_size = txu_sz e, um_sn = ucast (txu_tx_next (txu_st e)), um_so = ucast (txu_next_so e)\<rparr> = h"
      using so16 n by (simp add: h_def um_hdr_of_def c(2) so)
    have hl: "length (rlc_um_write_data_pdu_header h) = hl"
      unfolding um_written_length using so16(2) n c(2,3) by (simp add: h_def um_hdr_of_def del: um_header_sizes)
    have sp: "(of_nat g :: u32) - of_nat hl = of_nat (g - hl)" using c(1) by simp
    have rest: "of_nat (length buf) - ucast (txu_next_so e) = (of_nat (length buf - so) :: u64)"
    proof -
      have "ucast (of_nat so :: u32) = (of_nat so :: u64)"
        using n by (simp add: word_unat_eq_iff unsigned_ucast_eq unat_of_nat take_bit_nat_eq_self)
      then show ?thesis using n by (simp add: so)
    qed
    define plen where "plen = (if (of_nat (length buf - so) :: u64) \<le> ucast (of_nat (g - hl) :: u32)
      then ucast (of_nat (length buf - so) :: u64) else of_nat (g - hl) :: u32)"
    have ul: "unat plen = len"
    proof -
      have "unat (of_nat (length buf - so) :: u64) = length buf - so" "unat (ucast (of_nat (g - hl) :: u32) :: u64) = g - hl"
        by (rule unat_of_nat_64, use n g in simp)+
      then have "(of_nat (length buf - so) :: u64) \<le> ucast (of_nat (g - hl) :: u32) \<longleftrightarrow> length buf - so \<le> g - hl"
        by (simp only: word_le_nat_alt)
      moreover have "unat (ucast (of_nat (length buf - so) :: u64) :: u32) = length buf - so" "unat (of_nat (g - hl) :: u32) = g - hl"
        by ((rule unat_of_nat_64 unat_of_nat_32, use n g in simp)+)
      ultimately show ?thesis by (simp only: plen_def len_def split: if_split) (simp add: min_def)
    qed
    define pl where "pl = take len (drop so buf)"
    have pl: "length pl = len" "pl \<noteq> []" using len by (auto simp: pl_def)
    have v: "buffer_view buf (unat (txu_next_so e)) (unat plen) = Some pl"
      using len by (simp add: buffer_view_def so_def [symmetric] ul pl_def)
    have cp: "copy_segments pl (g - hl) = pl" using len pl by (simp add: copy_segments_def)
    have adv: "um_advance len e =
      (let e1 = (if s = full_sdu \<or> s = last_segment
                 then e\<lparr>txu_sdu := (txu_sdu e)\<lparr>sdu_buf := []\<rparr>, txu_next_so := 0\<rparr>
                 else e\<lparr>txu_next_so := txu_next_so e + plen\<rparr>)
       in (if s = last_segment
           then e1\<lparr>txu_st := (txu_st e1)\<lparr>txu_tx_next := sn_next (txu_mod e) (txu_tx_next (txu_st e1))\<rparr>\<rparr>
           else e1))"
    proof -
      have "of_nat len = plen" by (simp add: ul [symmetric])
      then show ?thesis
        by (auto simp: um_advance_def Let_def so_def [symmetric] so0 buf_def [symmetric] c(2) um_segment_si_def)
    qed
    have "um_build_pdu g e = Some (um_advance len e, rlc_um_write_data_pdu_header h @ pl)"
      unfolding um_build_pdu_def Let_def buf_def [symmetric] Some p option.case prod.case h sp hl rest plen_def [symmetric] v bind.bind_lunit
      using pl ul cp adv by (simp add: Let_def)
    moreover have "um_pdu_of (txu_sz e) (txu_tx_next (txu_st e)) buf so pl (rlc_um_write_data_pdu_header h @ pl)"
      using pl len by (simp add: um_pdu_of_def h_def) (simp add: pl_def)
    moreover have "length (rlc_um_write_data_pdu_header h @ pl) \<le> g" using hl pl len c(1) by simp
    ultimately show ?thesis using pl by (auto simp: buf_def so_def)
  qed
qed

section \<open>Grants\<close>

text \<open>What is left to send, with one byte of header for every queued SDU.\<close>

definition txu_load :: "rlc_tx_um_entity \<Rightarrow> nat" where
  "txu_load e = (length (sdu_buf (txu_sdu e)) - unat (txu_next_so e)) +
     (sdus_bytes (sq_view (txu_sdu_queue e)) + length (sq_view (txu_sdu_queue e)))"

lemma um_advance_ok:
  assumes inv: "txu_inv e" and len: "0 < len" "unat (txu_next_so e) + len \<le> length (sdu_buf (txu_sdu e))"
  shows "txu_inv (um_advance len e) \<and> txu_cfg (um_advance len e) = txu_cfg e \<and> txu_load (um_advance len e) + len = txu_load e \<and>
    txu_backlog (um_advance len e) = txu_backlog e \<and>
    (if unat (txu_next_so e) + len = length (sdu_buf (txu_sdu e))
     then sdu_buf (txu_sdu (um_advance len e)) = [] \<and> txu_next_so (um_advance len e) = 0 \<and>
       txu_tx_next (txu_st (um_advance len e)) =
         (if txu_next_so e = 0 then txu_tx_next (txu_st e) else sn_next (txu_mod e) (txu_tx_next (txu_st e)))
     else txu_sdu (um_advance len e) = txu_sdu e \<and> unat (txu_next_so (um_advance len e)) = unat (txu_next_so e) + len \<and>
       txu_tx_next (txu_st (um_advance len e)) = txu_tx_next (txu_st e))"
proof (cases "unat (txu_next_so e) + len = length (sdu_buf (txu_sdu e))")
  case True
  then show ?thesis using inv len
    by (auto simp: um_advance_def txu_inv_def txu_load_def txu_backlog_def um_sdu_ok_def um_sn.next_less)
next
  case False
  have b: "length (sdu_buf (txu_sdu e)) \<le> 65535" using inv by (simp add: txu_inv_def um_sdu_ok_def)
  have "unat (txu_next_so e + of_nat len) = unat (txu_next_so e) + len"
  proof -
    have "txu_next_so e + of_nat len = of_nat (unat (txu_next_so e) + len)" by simp
    also have "unat \<dots> = unat (txu_next_so e) + len" by (rule unat_of_nat_32) (use b len in simp)
    finally show ?thesis .
  qed
  then show ?thesis using False inv len b
    by (auto simp: um_advance_def txu_inv_def txu_load_def txu_backlog_def um_sdu_ok_def)
qed

text \<open>The effect of a grant on the stream.\<close>

definition um_sent_from :: "rlc_tx_um_entity \<Rightarrow> rlc_tx_um_entity \<Rightarrow> bytes \<Rightarrow> bytes \<Rightarrow> bytes list \<Rightarrow> bytes \<Rightarrow> bool" where
  "um_sent_from e e' pdu sdu rest payload \<longleftrightarrow>
     txu_pending e = sdu # rest \<and> length sdu \<le> 65535 \<and>
     um_pdu_of (txu_sz e) (txu_tx_next (txu_st e)) sdu (unat (txu_next_so e)) payload pdu \<and>
     (if unat (txu_next_so e) + length payload = length sdu
      then txu_pending e' = rest \<and> txu_next_so e' = 0 \<and>
        txu_tx_next (txu_st e') = (if txu_next_so e = 0 then txu_tx_next (txu_st e) else sn_next (txu_mod e) (txu_tx_next (txu_st e)))
      else txu_pending e' = sdu # rest \<and> unat (txu_next_so e') = unat (txu_next_so e) + length payload \<and>
        txu_tx_next (txu_st e') = txu_tx_next (txu_st e))"

definition um_kept :: "rlc_tx_um_entity \<Rightarrow> rlc_tx_um_entity \<Rightarrow> bool" where
  "um_kept e e' \<longleftrightarrow> txu_pending e' = txu_pending e \<and> txu_next_so e' = txu_next_so e \<and>
     txu_tx_next (txu_st e') = txu_tx_next (txu_st e)"

definition um_pulls :: "nat \<Rightarrow> rlc_tx_um_entity \<Rightarrow> rlc_tx_um_entity \<Rightarrow> bytes \<Rightarrow> bool" where
  "um_pulls g e e' pdu \<longleftrightarrow> txu_inv e' \<and> txu_cfg e' = txu_cfg e \<and> length pdu \<le> g \<and>
     (pdu = [] \<longrightarrow> um_kept e e') \<and> (pdu \<noteq> [] \<longrightarrow> (\<exists>sdu rest payload. um_sent_from e e' pdu sdu rest payload)) \<and>
     txu_load e' \<le> txu_load e \<and> (um_head_len_not_first e < g \<longrightarrow> txu_load e' = 0 \<or> txu_load e' < txu_load e)"

lemma um_build_pulls:
  assumes inv: "txu_inv e" and b: "sdu_buf (txu_sdu e) \<noteq> []" and g: "2 \<le> g" "g < 2 ^ 32"
  shows "\<exists>e' pdu. um_build_pdu g e = Some (e', pdu) \<and> um_pulls g e e' pdu"
proof -
  obtain e' pdu where p: "um_build_pdu g e = Some (e', pdu)" "length pdu \<le> g" "pdu = [] \<Longrightarrow> e' = e \<and> g \<le> um_head_len_not_first e"
    "pdu \<noteq> [] \<Longrightarrow> \<exists>payload. um_pdu_of (txu_sz e) (txu_tx_next (txu_st e)) (sdu_buf (txu_sdu e)) (unat (txu_next_so e)) payload pdu \<and>
      e' = um_advance (length payload) e"
    using um_build_pdu_ok [OF inv b g] by blast
  show ?thesis
  proof (cases "pdu = []")
    case True
    then have "um_pulls g e e' pdu" using p(2,3) inv by (simp add: um_pulls_def um_kept_def)
    then show ?thesis using p(1) by blast
  next
    case False
    then obtain payload where pl: "um_pdu_of (txu_sz e) (txu_tx_next (txu_st e)) (sdu_buf (txu_sdu e)) (unat (txu_next_so e)) payload pdu"
      and e': "e' = um_advance (length payload) e" using p(4) by blast
    have len: "0 < length payload" "unat (txu_next_so e) + length payload \<le> length (sdu_buf (txu_sdu e))"
      using pl by (auto simp: um_pdu_of_def)
    note A = um_advance_ok [OF inv len, folded e']
    have "length (sdu_buf (txu_sdu e)) \<le> 65535" using inv by (simp add: txu_inv_def um_sdu_ok_def)
    then have "um_sent_from e e' pdu (sdu_buf (txu_sdu e)) (txu_backlog e) payload"
      using A pl b by (auto simp: um_sent_from_def txu_pending_def txu_current_def split: if_splits)
    moreover have "txu_inv e'" "txu_cfg e' = txu_cfg e" "txu_load e' < txu_load e" using A len(1) by (blast, blast, linarith)
    ultimately have "um_pulls g e e' pdu" using p(2) False unfolding um_pulls_def by (auto intro: less_imp_le)
    then show ?thesis using p(1) by blast
  qed
qed

lemma um_build_empty:
  assumes "sdu_buf (txu_sdu e) = []" "txu_next_so e = 0" "2 \<le> g" "g < 2 ^ 32"
  shows "um_build_pdu g e = Some (e, [])"
  using assms by (auto simp: um_build_pdu_def get_si_and_expected_header_size_def Let_def buffer_view_def copy_segments_def)

lemma txu_next_sdu:
  assumes inv: "txu_inv e" and b: "sdu_buf (txu_sdu e) = []" and r: "sq_read (txu_sdu_queue e) = (q, Some s)"
  shows "txu_inv (e\<lparr>txu_sdu_queue := q, txu_sdu := s\<rparr>) \<and> um_kept e (e\<lparr>txu_sdu_queue := q, txu_sdu := s\<rparr>) \<and>
    txu_load (e\<lparr>txu_sdu_queue := q, txu_sdu := s\<rparr>) < txu_load e"
proof -
  have q: "sq_invar q" "sq_view (txu_sdu_queue e) = s # sq_view q" using sduq.dequeue_some [OF _ r] inv by (auto simp: txu_inv_def)
  have n: "txu_next_so e = 0" using inv b by (simp add: txu_inv_def)
  show ?thesis using inv q b n
    by (auto simp: txu_inv_def um_kept_def txu_pending_def txu_current_def txu_backlog_def txu_load_def um_sdu_ok_def)
qed

lemma um_pulls_after: "um_kept e e1 \<Longrightarrow> txu_cfg e1 = txu_cfg e \<Longrightarrow> txu_load e1 \<le> txu_load e \<Longrightarrow> um_pulls g e1 e' pdu \<Longrightarrow> um_pulls g e e' pdu"
proof -
  assume k: "um_kept e e1" and c: "txu_cfg e1 = txu_cfg e" and l: "txu_load e1 \<le> txu_load e" and p: "um_pulls g e1 e' pdu"
  have s: "um_sent_from e1 e' pdu = um_sent_from e e' pdu" using k c by (intro ext) (simp add: um_sent_from_def um_kept_def)
  have "um_kept e1 e' = um_kept e e'" using k by (simp add: um_kept_def)
  then show "um_pulls g e e' pdu" using p c l unfolding um_pulls_def s by auto
qed

lemma tx_um_pull_ok:
  assumes inv: "txu_inv e" and g: "g < 2 ^ 32"
  shows "\<exists>e' evs pdu. tx_um_pull_pdu g e = Some (e', evs, pdu) \<and> um_pulls g e e' pdu"
proof (cases "2 \<le> g")
  case False
  then have "(of_nat g :: u32) \<le> of_nat um_head_len_full" using g by (simp add: word_le_nat_alt unat_of_nat_32)
  moreover have "um_pulls g e e []" using inv False by (auto simp: um_pulls_def um_kept_def)
  ultimately show ?thesis by (simp add: tx_um_pull_pdu_def)
next
  case True
  then have gt: "\<not> (of_nat g :: u32) \<le> of_nat um_head_len_full" using g by (simp add: word_le_nat_alt unat_of_nat_32)
  show ?thesis
  proof (cases "sdu_buf (txu_sdu e) = []")
    case False
    then show ?thesis using um_build_pulls [OF inv False True g] gt by (auto simp: tx_um_pull_pdu_def)
  next
    case b: True
    have n: "txu_next_so e = 0" using inv b by (simp add: txu_inv_def)
    obtain q r where r: "sq_read (txu_sdu_queue e) = (q, r)" by (rule prod.exhaust)
    show ?thesis
    proof (cases r)
      case None
      have q: "sq_invar q" "sq_view q = []" "sq_view (txu_sdu_queue e) = []"
        using sduq.dequeue [OF _ r] inv None by (auto simp: txu_inv_def)
      have "um_pulls g e (e\<lparr>txu_sdu_queue := q\<rparr>) []"
        using inv b q n by (simp add: um_pulls_def um_kept_def txu_inv_def txu_pending_def txu_current_def txu_backlog_def txu_load_def)
      then show ?thesis using gt b n r None by (simp add: tx_um_pull_pdu_def um_next_sdu_def)
    next
      case (Some s)
      let ?e = "e\<lparr>txu_sdu_queue := q, txu_sdu := s\<rparr>"
      note N = txu_next_sdu [OF inv b r [unfolded Some]]
      have "\<exists>e' pdu. um_build_pdu g ?e = Some (e', pdu) \<and> um_pulls g e e' pdu"
      proof (cases "sdu_buf s = []")
        case True
        have "um_build_pdu g ?e = Some (?e, [])" by (rule um_build_empty) (use True n \<open>2 \<le> g\<close> g in simp_all)
        moreover have "um_pulls g e ?e []" using N by (auto simp: um_pulls_def)
        ultimately show ?thesis by blast
      next
        case False
        obtain e' pdu where "um_build_pdu g ?e = Some (e', pdu)" "um_pulls g ?e e' pdu"
          using um_build_pulls [of ?e g] N False \<open>2 \<le> g\<close> g by auto
        moreover from this(2) have "um_pulls g e e' pdu" by (rule um_pulls_after [rotated 3]) (use N in simp_all)
        ultimately show ?thesis by blast
      qed
      then show ?thesis using gt b n r Some by (auto simp: tx_um_pull_pdu_def um_next_sdu_def)
    qed
  qed
qed

section \<open>The other operations\<close>

text \<open>The fields the invariant and the stream depend on.\<close>

definition txu_core :: "rlc_tx_um_entity \<Rightarrow> rlc_tx_um_config \<times> rlc_tx_um_state \<times> rlc_sdu_queue \<times> rlc_sdu \<times> u32" where
  "txu_core e = (txu_cfg e, txu_st e, txu_sdu_queue e, txu_sdu e, txu_next_so e)"

lemma txu_core_cong:
  assumes "txu_core e = txu_core e'"
  shows "txu_inv e = txu_inv e'" "txu_pending e = txu_pending e'" "txu_current e = txu_current e'" "txu_backlog e = txu_backlog e'"
    "txu_load e = txu_load e'" "txu_cfg e = txu_cfg e'" "txu_next_so e = txu_next_so e'" "txu_st e = txu_st e'" "txu_sdu e = txu_sdu e'"
  using assms by (simp_all add: txu_core_def txu_inv_def txu_pending_def txu_current_def txu_backlog_def txu_load_def)

lemma um_changed_core: "txu_core (fst (um_handle_changed_buffer_state e)) = txu_core e"
  by (simp add: um_handle_changed_buffer_state_def txu_core_def)

lemma tx_um_create_inv: "tx_um_create m cfg = Some e \<Longrightarrow> txu_inv e \<and> txu_cfg e = cfg \<and> txu_pending e = [] \<and> txu_next_so e = 0 \<and>
    txu_tx_next (txu_st e) = 0"
  using sq_create_invar um_sn.m_pos
  by (auto simp: tx_um_create_def txu_inv_def um_sdu_ok_def rlc_sdu_init_def txu_pending_def txu_current_def txu_backlog_def word_less_def
      split: if_splits)

text \<open>Replacing the queue.\<close>

lemma txu_requeue:
  assumes "txu_inv e" "sq_invar q" "\<forall>s \<in> set (sq_view q). um_sdu_ok s"
  shows "txu_inv (e\<lparr>txu_sdu_queue := q\<rparr>) \<and> txu_current (e\<lparr>txu_sdu_queue := q\<rparr>) = txu_current e \<and>
    txu_backlog (e\<lparr>txu_sdu_queue := q\<rparr>) = filter (\<lambda>b. b \<noteq> []) (map sdu_buf (sq_view q))"
  using assms by (simp add: txu_inv_def txu_current_def txu_backlog_def)

text \<open>The queue takes the SDU.\<close>

definition um_accepts :: "int \<Rightarrow> bytes \<Rightarrow> rlc_tx_um_entity \<Rightarrow> bool" where
  "um_accepts now buf e = snd (sq_write (txu_sdu_queue e) (um_new_sdu now buf e))"

definition um_keeps :: "rlc_tx_um_entity \<Rightarrow> rlc_tx_um_entity \<Rightarrow> bool" where
  "um_keeps e e' \<longleftrightarrow> txu_inv e' \<and> txu_cfg e' = txu_cfg e \<and> txu_st e' = txu_st e \<and> txu_next_so e' = txu_next_so e \<and>
     txu_current e' = txu_current e"

lemma tx_um_handle_sdu_ok:
  assumes inv: "txu_inv e" and b: "length buf \<le> 65535" and h: "tx_um_handle_sdu now buf is_retx e = (e', evs)"
  shows "um_keeps e e' \<and> txu_backlog e' = txu_backlog e @ (if um_accepts now buf e \<and> buf \<noteq> [] then [buf] else [])"
proof -
  define sdu where "sdu = um_new_sdu now buf e"
  have s: "sdu_buf sdu = buf" by (simp add: sdu_def um_new_sdu_def)
  have sn: "sdu_sn_ok sdu" using get_pdcp_sn_less by (auto simp: sdu_sn_ok_def sn_ok_def sdu_def um_new_sdu_def)
  obtain q ok where q: "sq_write (txu_sdu_queue e) sdu = (q, ok)" by (rule prod.exhaust)
  have qi: "sq_invar q" "sq_view q = (if ok then sq_view (txu_sdu_queue e) @ [sdu] else sq_view (txu_sdu_queue e))"
    using sduq.enqueue [OF _ sn q] inv by (simp_all add: txu_inv_def)
  have ok: "um_accepts now buf e = ok" using q by (simp add: um_accepts_def sdu_def)
  have c: "txu_core e' = txu_core (e\<lparr>txu_sdu_queue := q\<rparr>)"
    using h q um_changed_core [of "e\<lparr>txu_sdu_queue := q\<rparr>"]
    by (auto simp: tx_um_handle_sdu_def sdu_def [symmetric] split: bool.splits)
  have "\<forall>s \<in> set (sq_view q). um_sdu_ok s" using qi(2) inv b s by (auto simp: txu_inv_def um_sdu_ok_def split: if_splits)
  note R = txu_requeue [OF inv qi(1) this]
  have "txu_backlog e' = filter (\<lambda>b. b \<noteq> []) (map sdu_buf (sq_view q))" using R txu_core_cong(4) [OF c] by simp
  moreover have "um_keeps e e'" using R by (simp add: um_keeps_def txu_core_cong [OF c])
  ultimately show ?thesis using qi(2) s unfolding ok by (simp add: txu_backlog_def)
qed

lemma tx_um_discard_sdu_ok:
  assumes inv: "txu_inv e" and sn: "sn_ok sn" and h: "tx_um_discard_sdu sn e = (e', evs)"
  shows "um_keeps e e' \<and> subseq (txu_backlog e') (txu_backlog e) \<and>
    sq_view (txu_sdu_queue e') = filter (\<lambda>s. sdu_pdcp_sn s \<noteq> Some sn) (sq_view (txu_sdu_queue e))"
proof -
  obtain q ok where q: "sq_try_discard (txu_sdu_queue e) sn = (q, ok)" by (rule prod.exhaust)
  have qi: "sq_invar q" "sq_view q = filter (\<lambda>s. sdu_pdcp_sn s \<noteq> Some sn) (sq_view (txu_sdu_queue e))"
    using sduq.discard [OF _ sn q] inv by (simp_all add: txu_inv_def)
  have c: "txu_core e' = txu_core (e\<lparr>txu_sdu_queue := q\<rparr>)"
    using h q um_changed_core [of "e\<lparr>txu_sdu_queue := q\<rparr>"] by (auto simp: tx_um_discard_sdu_def split: bool.splits)
  have "\<forall>s \<in> set (sq_view q). um_sdu_ok s" using qi(2) inv by (auto simp: txu_inv_def)
  note R = txu_requeue [OF inv qi(1) this]
  have "subseq (map sdu_buf (sq_view q)) (map sdu_buf (sq_view (txu_sdu_queue e)))"
    unfolding qi(2) by (rule subseq_map) simp
  then have "subseq (filter (\<lambda>b. b \<noteq> []) (map sdu_buf (sq_view q))) (txu_backlog e)"
    unfolding txu_backlog_def by (rule subseq_filter)
  moreover have "txu_sdu_queue e' = q" using c by (simp add: txu_core_def)
  ultimately show ?thesis using R qi(2) by (auto simp: um_keeps_def txu_core_cong [OF c])
qed

text \<open>The bytes pending for the MAC: queued SDUs and a header each, and the rest of the current SDU with its header.\<close>

definition um_bytes_pending :: "rlc_tx_um_entity \<Rightarrow> nat" where
  "um_bytes_pending e = sdus_bytes (sq_view (txu_sdu_queue e)) + length (sq_view (txu_sdu_queue e)) +
     (if sdu_buf (txu_sdu e) = [] then 0
      else length (sdu_buf (txu_sdu e)) - unat (txu_next_so e) + um_head_len_not_first e)"

definition um_oldest :: "rlc_tx_um_entity \<Rightarrow> int option" where
  "um_oldest e = (if sdu_buf (txu_sdu e) = []
     then (case sq_view (txu_sdu_queue e) of [] \<Rightarrow> None | s # _ \<Rightarrow> Some (sdu_time_of_arrival s))
     else Some (sdu_time_of_arrival (txu_sdu e)))"

lemma tx_um_get_buffer_state_ok:
  assumes inv: "txu_inv e" and b: "tx_um_get_buffer_state e = (e', bs)"
  shows "um_keeps e e' \<and> txu_backlog e' = txu_backlog e \<and> pending_bytes bs = of_nat (um_bytes_pending e) \<and> hol_toa bs = um_oldest e"
proof -
  have q: "sq_invar (txu_sdu_queue e)" using inv by (simp add: txu_inv_def)
  have n: "n_bytes (sq_get_state (txu_sdu_queue e)) = of_nat (sdus_bytes (sq_view (txu_sdu_queue e)))"
    "n_sdus (sq_get_state (txu_sdu_queue e)) = of_nat (length (sq_view (txu_sdu_queue e)))"
    using sduq.get_state [OF q] by (simp_all add: state_of_sdus_def)
  show ?thesis
  proof (cases "sdu_buf (txu_sdu e) = []")
    case True
    obtain q' r where f: "sq_front (txu_sdu_queue e) = (q', r)" by (rule prod.exhaust)
    note F = sduq.front [OF q f]
    have "txu_inv (e\<lparr>txu_sdu_queue := q'\<rparr>)" "txu_backlog (e\<lparr>txu_sdu_queue := q'\<rparr>) = txu_backlog e"
      using F inv by (simp_all add: txu_inv_def txu_backlog_def)
    then show ?thesis using b True f F n
      by (auto simp: tx_um_get_buffer_state_def Let_def um_keeps_def um_bytes_pending_def um_oldest_def txu_inv_def txu_current_def
          txu_backlog_def split: list.splits)
  next
    case False
    let ?n = "length (sdu_buf (txu_sdu e))" and ?so = "unat (txu_next_so e)"
    have l: "?n \<le> 65535" "?so < ?n" using inv False by (simp_all add: txu_inv_def um_sdu_ok_def)
    have so: "ucast (txu_next_so e) = (of_nat ?so :: u64)" using unat_of_nat_64(1,2) [of ?so] l by (simp add: word_unat_eq_iff)
    have cast: "(of_nat ?n - ucast (txu_next_so e) + of_nat (um_head_len_not_first e) :: u64) = of_nat (?n - ?so + um_head_len_not_first e)"
      unfolding so using l by (simp del: um_header_sizes)
    have "ucast (of_nat ?n - ucast (txu_next_so e) + of_nat (um_head_len_not_first e) :: u64) =
        (of_nat (?n - ?so + um_head_len_not_first e) :: u32)"
      unfolding cast by (rule size_cast) (use l um_head_first_le [of "txu_sz e"] in \<open>simp del: um_header_sizes(1,2) um_head_first_le\<close>)
    then show ?thesis using b False n inv
      by (auto simp: tx_um_get_buffer_state_def Let_def um_keeps_def um_bytes_pending_def um_oldest_def txu_inv_def txu_current_def
          txu_backlog_def add.assoc)
  qed
qed

lemma tx_um_update_ok:
  assumes inv: "txu_inv e" and u: "tx_um_update_mac_buffer_state e = (e', evs)"
  shows "um_keeps e e' \<and> txu_backlog e' = txu_backlog e"
proof -
  let ?e = "e\<lparr>txu_pending_buffer_state := False\<rparr>"
  have c0: "txu_core ?e = txu_core e" by (simp add: txu_core_def)
  obtain e1 bs where b: "tx_um_get_buffer_state ?e = (e1, bs)" by (rule prod.exhaust)
  have k: "um_keeps ?e e1" "txu_backlog e1 = txu_backlog ?e"
    using tx_um_get_buffer_state_ok [OF _ b] inv txu_core_cong(1) [OF c0] by simp_all
  have c: "txu_core e' = txu_core e1" using u b by (auto simp: tx_um_update_mac_buffer_state_def Let_def txu_core_def)
  show ?thesis using k by (simp add: um_keeps_def txu_core_cong [OF c] txu_core_cong [OF c0])
qed

section \<open>Reachable states\<close>

inductive tx_um_step :: "rlc_tx_um_entity \<Rightarrow> rlc_tx_um_entity \<Rightarrow> bool" where
  sdu: "length buf \<le> 65535 \<Longrightarrow> tx_um_handle_sdu now buf is_retx e = (e', evs) \<Longrightarrow> tx_um_step e e'"
| discard: "sn_ok sn \<Longrightarrow> tx_um_discard_sdu sn e = (e', evs) \<Longrightarrow> tx_um_step e e'"
| pull: "g < 2 ^ 32 \<Longrightarrow> tx_um_pull_pdu g e = Some (e', evs, pdu) \<Longrightarrow> tx_um_step e e'"
| buffer_state: "tx_um_get_buffer_state e = (e', bs) \<Longrightarrow> tx_um_step e e'"
| buffer_update: "tx_um_update_mac_buffer_state e = (e', evs) \<Longrightarrow> tx_um_step e e'"
| stop: "tx_um_step e (tx_um_stop execute_ok e)"

inductive tx_um_reachable :: "rlc_tx_um_config \<Rightarrow> rlc_tx_um_entity \<Rightarrow> bool" for cfg where
  created: "tx_um_create metrics cfg = Some e \<Longrightarrow> tx_um_reachable cfg e"
| stepped: "tx_um_reachable cfg e \<Longrightarrow> tx_um_step e e' \<Longrightarrow> tx_um_reachable cfg e'"

lemma tx_um_step_inv: "tx_um_step e e' \<Longrightarrow> txu_inv e \<Longrightarrow> txu_inv e' \<and> txu_cfg e' = txu_cfg e"
proof (induction rule: tx_um_step.induct)
  case (sdu buf now is_retx e e' evs)
  then show ?case using tx_um_handle_sdu_ok [OF sdu(3,1,2)] by (simp add: um_keeps_def)
next
  case (discard sn e e' evs)
  then show ?case using tx_um_discard_sdu_ok [OF discard(3,1,2)] by (simp add: um_keeps_def)
next
  case (pull g e e' evs pdu)
  then show ?case using tx_um_pull_ok [OF pull(3,1)] by (auto simp: um_pulls_def)
next
  case (buffer_state e e' bs)
  then show ?case using tx_um_get_buffer_state_ok [OF buffer_state(2,1)] by (simp add: um_keeps_def)
next
  case (buffer_update e e' evs)
  then show ?case using tx_um_update_ok [OF buffer_update(2,1)] by (simp add: um_keeps_def)
next
  case (stop e ok)
  then show ?case using txu_core_cong(1,6) [of "tx_um_stop ok e" e] by (simp add: tx_um_stop_def txu_core_def)
qed

lemma tx_um_reachable_inv: "tx_um_reachable cfg e \<Longrightarrow> txu_inv e \<and> txu_cfg e = cfg"
proof (induction rule: tx_um_reachable.induct)
  case (created metrics e)
  then show ?case using tx_um_create_inv by blast
next
  case (stepped e e')
  then show ?case using tx_um_step_inv [of e e'] by simp
qed

section \<open>Properties\<close>


definition txu_cfg_example :: rlc_tx_um_config where
  "txu_cfg_example = \<lparr>txu_sn_field_length = um_size6bits, txu_pdcp_sn_len = pdcp_size12bits, txu_queue_size = 4, txu_queue_size_bytes = 100\<rparr>"

definition txu_example0 :: rlc_tx_um_entity where "txu_example0 = the (tx_um_create False txu_cfg_example)"

definition txu_example :: rlc_tx_um_entity where
  "txu_example = fst (tx_um_handle_sdu 0 [0x80, 7, 5, 6] False txu_example0)"

lemma txu_example_reachable: "tx_um_reachable txu_cfg_example txu_example"
proof -
  have "tx_um_create False txu_cfg_example = Some txu_example0"
    by (simp add: txu_example0_def tx_um_create_def txu_cfg_example_def)
  then have r: "tx_um_reachable txu_cfg_example txu_example0" by (rule created)
  have "tx_um_handle_sdu 0 [0x80, 7, 5, 6] False txu_example0 = (txu_example, snd (tx_um_handle_sdu 0 [0x80, 7, 5, 6] False txu_example0))"
    by (simp add: txu_example_def)
  from stepped [OF r sdu [OF _ this]] show ?thesis by simp
qed


text \<open>
  The buffer state of UM.  The pending bytes are, modulo 2^32, those of the queued SDUs that are not
  discarded, one header byte for each, and the unsent bytes of the SDU in transmission with a segment header; the time
  of arrival is that of the oldest of them.
\<close>

lemma tx_um_buffer_state:
  assumes "tx_um_reachable cfg e"
  shows "pending_bytes (snd (tx_um_get_buffer_state e)) = of_nat (um_bytes_pending e) \<and>
    hol_toa (snd (tx_um_get_buffer_state e)) = um_oldest e \<and>
    txu_pending (fst (tx_um_get_buffer_state e)) = txu_pending e"
proof -
  obtain e' bs where b: "tx_um_get_buffer_state e = (e', bs)" by (rule prod.exhaust)
  show ?thesis using tx_um_get_buffer_state_ok [OF _ b] tx_um_reachable_inv [OF assms] b
    by (simp add: txu_pending_def um_keeps_def)
qed

lemma tx_um_buffer_state_witness:
  "pending_bytes (snd (tx_um_get_buffer_state txu_example)) = of_nat (um_bytes_pending txu_example) \<and>
   pending_bytes (snd (tx_um_get_buffer_state txu_example)) = 5"
proof -
  have "pending_bytes (snd (tx_um_get_buffer_state txu_example)) = 5" by code_simp
  then show ?thesis using tx_um_buffer_state [OF txu_example_reachable] by simp
qed

end
