(* ===== verification/Rlc_Rx_Um.thy ===== *)
theory Rlc_Rx_Um
  imports Rlc_Um_Pdu Rlc_Segments Sdu_Window "HOL-Library.Monad_Syntax"
begin

text \<open>
  The receiving side of an RLC UM entity (\<open>lib/rlc/rlc_rx_um_entity.h\<close>, \<open>.cpp\<close>): PDU reception, the buffer of
  segments, reassembly and delivery, the reassembly window and t-Reassembly.

  The set of segments of an SDU and the loops over it are, word for word, those of the AM receiver; the functions
  \<open>store_loop\<close> and \<open>inventory_loop\<close> of \<open>Rlc_Segments\<close> model both.  A failed \<open>srsran_assert\<close> is
  \<open>None\<close>.  A timer is its running flag; running it when its duration was never set fails an assertion
  (\<open>lib/support/timers.cpp:254\<close>).  Metrics, pcap and arrival times are not part of the state.
\<close>

section \<open>State\<close>

record rx_um_sdu_info =
  um_fully_received :: bool
  um_has_gap :: bool
  um_segments :: "rx_sdu_segment list"

definition rx_um_sdu_info_init :: rx_um_sdu_info where
  "rx_um_sdu_info_init = \<lparr>um_fully_received = False, um_has_gap = False, um_segments = []\<rparr>"

record rlc_rx_um_config =
  um_rx_sn_field_length :: rlc_um_sn_size
  um_t_reassembly :: int

record rlc_rx_um_state =
  rx_next_reassembly :: u32
  rx_timer_trigger :: u32
  um_rx_next_highest :: u32

record rlc_rx_um_entity =
  rxu_cfg :: rlc_rx_um_config
  rxu_st :: rlc_rx_um_state
  rxu_window :: "rx_um_sdu_info circular_map"
  rxu_timer :: bool

datatype rx_um_event = Um_on_new_sdu bytes

abbreviation rxu_sz :: "rlc_rx_um_entity \<Rightarrow> rlc_um_sn_size" where
  "rxu_sz e \<equiv> um_rx_sn_field_length (rxu_cfg e)"

abbreviation um_window_size :: "rlc_um_sn_size \<Rightarrow> u32" where
  "um_window_size sz \<equiv> window_size (um_to_number sz)"

definition rx_um_create :: "rlc_rx_um_config \<Rightarrow> rlc_rx_um_entity option" where
  "rx_um_create cfg = map_option (\<lambda>win. \<lparr>rxu_cfg = cfg,
      rxu_st = \<lparr>rx_next_reassembly = 0, rx_timer_trigger = 0, um_rx_next_highest = 0\<rparr>,
      rxu_window = win, rxu_timer = False\<rparr>) (cm_create (um_window_size (um_rx_sn_field_length cfg)))"

definition rx_um_stop :: "rlc_rx_um_entity \<Rightarrow> rlc_rx_um_entity" where
  "rx_um_stop e = e\<lparr>rxu_timer := False\<rparr>"

section \<open>Window helpers\<close>

text \<open>Of the state these functions read only RX_Next_Highest, which changes while the loops run in the source's order.\<close>

definition um_mod_base :: "rlc_um_sn_size \<Rightarrow> u32 \<Rightarrow> u32 \<Rightarrow> u32" where
  "um_mod_base sz next_highest x = (x - next_highest - um_window_size sz) mod um_mod sz"

definition sn_in_reassembly_window :: "rlc_um_sn_size \<Rightarrow> u32 \<Rightarrow> u32 \<Rightarrow> bool" where
  "sn_in_reassembly_window sz next_highest sn \<longleftrightarrow>
     um_mod_base sz next_highest (next_highest - um_window_size sz) \<le> um_mod_base sz next_highest sn \<and>
     um_mod_base sz next_highest sn < um_mod_base sz next_highest next_highest"

definition sn_invalid_for_rx_buffer :: "rlc_rx_um_entity \<Rightarrow> u32 \<Rightarrow> bool" where
  "sn_invalid_for_rx_buffer e sn \<longleftrightarrow>
     (let sz = rxu_sz e; nh = um_rx_next_highest (rxu_st e) in
      um_mod_base sz nh (nh - um_window_size sz) \<le> um_mod_base sz nh sn \<and>
      um_mod_base sz nh sn < um_mod_base sz nh (rx_next_reassembly (rxu_st e)))"

definition um_fully_received_at :: "rx_um_sdu_info circular_map \<Rightarrow> u32 \<Rightarrow> bool" where
  "um_fully_received_at w sn = (case cm_get w sn of None \<Rightarrow> False | Some i \<Rightarrow> um_fully_received i)"

definition um_has_gap_at :: "rx_um_sdu_info circular_map \<Rightarrow> u32 \<Rightarrow> bool" where
  "um_has_gap_at w sn = (case cm_get w sn of None \<Rightarrow> False | Some i \<Rightarrow> um_has_gap i)"

definition um_no_gap_at :: "rx_um_sdu_info circular_map \<Rightarrow> u32 \<Rightarrow> bool" where
  "um_no_gap_at w sn = (case cm_get w sn of None \<Rightarrow> False | Some i \<Rightarrow> \<not> um_has_gap i)"

definition um_timer_run :: "rlc_rx_um_entity \<Rightarrow> rlc_rx_um_entity option" where
  "um_timer_run e = (if um_t_reassembly (rxu_cfg e) > 0 then Some (e\<lparr>rxu_timer := True\<rparr>) else None)"

section \<open>Segments\<close>

definition um_store_segment :: "rx_um_sdu_info \<Rightarrow> rx_sdu_segment \<Rightarrow> rx_um_sdu_info \<times> bool" where
  "um_store_segment sdu_info new_segment =
     (case store_loop [] (um_segments sdu_info) new_segment of
        (segs, None) \<Rightarrow> (sdu_info\<lparr>um_segments := segs\<rparr>, False)
      | (segs, Some s) \<Rightarrow> (sdu_info\<lparr>um_segments := seg_insert s segs\<rparr>, True))"

definition um_update_segment_inventory :: "rx_um_sdu_info \<Rightarrow> rx_um_sdu_info" where
  "um_update_segment_inventory rx_sdu =
     (if um_segments rx_sdu = [] then rx_sdu\<lparr>um_fully_received := False, um_has_gap := False\<rparr>
      else case inventory_loop 0 (um_segments rx_sdu) of (gap, full) \<Rightarrow>
        rx_sdu\<lparr>um_has_gap := gap, um_fully_received := full\<rparr>)"

definition um_reassemble_sdu :: "bool \<Rightarrow> rx_um_sdu_info \<Rightarrow> bytes option" where
  "um_reassemble_sdu chain_ok sdu_info =
     (if \<not> um_fully_received sdu_info then None
      else if \<not> chain_ok then None
      else Some (concat (map seg_payload (um_segments sdu_info))))"

definition um_handle_segment_data_sdu ::
  "rlc_um_pdu_header \<Rightarrow> bytes \<Rightarrow> rlc_rx_um_entity \<Rightarrow> (rlc_rx_um_entity \<times> bool) option" where
  "um_handle_segment_data_sdu header payload e =
     (let sn = ucast (um_sn header) in
      if um_si header = full_sdu then Some (e, False)
      else do {
        (w, i) \<leftarrow> (case cm_get (rxu_window e) sn of
            Some i \<Rightarrow> Some (rxu_window e, i)
          | None \<Rightarrow> map_option (\<lambda>w. (w, rx_um_sdu_info_init)) (add_sn (rxu_window e) sn rx_um_sdu_info_init));
        let (i1, stored) = um_store_segment i \<lparr>seg_si = um_si header, seg_so = um_so header, seg_payload = payload\<rparr>;
        Some (e\<lparr>rxu_window := cm_modify w sn (\<lambda>_. um_update_segment_inventory i1)\<rparr>, stored)
      })"

section \<open>Placing a PDU in the reception buffer\<close>

text \<open>Removing fully received SDUs from an SN on, up to RX_Next_Highest or the first SDU that is not.\<close>

definition um_skip_received :: "rlc_um_sn_size \<Rightarrow> u32 \<Rightarrow> u32 \<Rightarrow> rx_um_sdu_info circular_map \<Rightarrow>
    u32 \<times> rx_um_sdu_info circular_map" where
  "um_skip_received sz next_highest sn w =
     sn_loop (um_mod sz) (next_highest + um_window_size sz) next_highest
       (\<lambda>i w. if um_fully_received_at w i then Some (fst (cm_erase w i)) else None) sn w"

lemma um_mod_base_dist: "um_mod_base sz nh x = sn_dist (um_mod sz) (nh + um_window_size sz) x"
  by (simp add: um_mod_base_def sn_dist_def algebra_simps)

lemma um_next_highest_dist: "uint (um_mod_base sz nh nh) = uint (um_window_size sz)"
  by (cases sz) (simp_all add: um_mod_base_def uint_mod)

lemma um_lower_edge: "um_mod_base sz nh (nh - um_window_size sz) = 0"
  by (cases sz) (simp_all add: um_mod_base_def word_uint_eq_iff uint_mod)

lemma in_window_dist:
  "sn_in_reassembly_window sz nh sn \<longleftrightarrow> uint (um_mod_base sz nh sn) < uint (um_window_size sz)"
  using um_next_highest_dist [of sz nh] by (simp add: sn_in_reassembly_window_def um_lower_edge word_less_def)

text \<open>Discarding everything from an SN on up to the reassembly window.\<close>

function um_discard_outside :: "rlc_um_sn_size \<Rightarrow> u32 \<Rightarrow> u32 \<Rightarrow> rx_um_sdu_info circular_map \<Rightarrow>
    u32 \<times> rx_um_sdu_info circular_map" where
  "um_discard_outside sz next_highest sn w =
     (if sn_in_reassembly_window sz next_highest sn then (sn, w)
      else um_discard_outside sz next_highest (sn_next (um_mod sz) sn)
             (if has_sn w sn then fst (cm_erase w sn) else w))"
  by pat_completeness auto
termination
proof (relation "measure (\<lambda>(sz, nh, sn, w). nat (if sn < um_mod sz
    then uint (sn_dist (um_mod sz) sn ((nh + um_window_size sz) mod um_mod sz)) else uint (um_mod sz)))", goal_cases)
  case 1
  show ?case by simp
next
  case (2 sz nh sn w)
  let ?m = "um_mod sz" and ?b = "(nh + um_window_size sz) mod um_mod sz"
  have b: "?b < ?m" by (cases sz) (simp_all add: word_mod_less_divisor)
  have n: "sn_next ?m sn < ?m" by (rule um_sn.next_less)
  show ?case
  proof (cases "sn < ?m")
    case True
    have "um_mod_base sz nh ?b = 0"
      using um_sn.uint_sn_dist [of sz "nh + um_window_size sz" ?b] by (simp add: um_mod_base_dist word_uint_eq_iff uint_mod mod_simps)
    moreover have "0 < uint (um_window_size sz)" by (cases sz) simp_all
    ultimately have "sn \<noteq> ?b" using 2 by (auto simp: in_window_dist)
    from um_sn.dist_step [OF True b this] show ?thesis using True n by (simp del: nat_uint_eq)
  next
    case False
    then show ?thesis using n um_sn.dist_less_m [of sz "sn_next ?m sn" ?b] um_sn.m_pos [of sz] by (simp del: nat_uint_eq)
  qed
qed

declare um_discard_outside.simps [simp del]

text \<open>The SN of the PDU is outside of the window: the window moves.\<close>

definition um_move_window :: "u32 \<Rightarrow> rlc_rx_um_entity \<Rightarrow> rlc_rx_um_entity" where
  "um_move_window sn e =
     (let sz = rxu_sz e; nh = sn_next (um_mod sz) sn;
          (i, w) = um_discard_outside sz nh (rx_next_reassembly (rxu_st e) mod um_mod sz) (rxu_window e);
          (j, w') = um_skip_received sz nh i w
      in e\<lparr>rxu_window := w', rxu_st := (rxu_st e)\<lparr>um_rx_next_highest := nh, rx_next_reassembly := j\<rparr>\<rparr>)"

definition um_place_pdu :: "bool \<Rightarrow> u32 \<Rightarrow> rlc_rx_um_entity \<Rightarrow> rlc_rx_um_entity \<times> rx_um_event list" where
  "um_place_pdu chain_ok sn e =
     (case cm_get (rxu_window e) sn of
        None \<Rightarrow> (if \<not> sn_in_reassembly_window (rxu_sz e) (um_rx_next_highest (rxu_st e)) sn then um_move_window sn e else e, [])
      | Some i \<Rightarrow>
          if um_fully_received i
          then let evs = (case um_reassemble_sdu chain_ok i of None \<Rightarrow> [] | Some sdu \<Rightarrow> [Um_on_new_sdu sdu]);
                   e1 = e\<lparr>rxu_window := cm_modify (rxu_window e) sn (\<lambda>i. i\<lparr>um_segments := []\<rparr>)\<rparr>
               in if sn = rx_next_reassembly (rxu_st e1)
                  then (case um_skip_received (rxu_sz e1) (um_rx_next_highest (rxu_st e1))
                               (rx_next_reassembly (rxu_st e1) mod um_mod (rxu_sz e1)) (rxu_window e1) of
                          (j, w) \<Rightarrow> (e1\<lparr>rxu_window := w, rxu_st := (rxu_st e1)\<lparr>rx_next_reassembly := j\<rparr>\<rparr>, evs))
                  else (e1, evs)
          else (if \<not> sn_in_reassembly_window (rxu_sz e) (um_rx_next_highest (rxu_st e)) sn then um_move_window sn e else e, []))"

section \<open>t-Reassembly\<close>

definition um_check_stop_timer :: "rlc_rx_um_entity \<Rightarrow> rlc_rx_um_entity" where
  "um_check_stop_timer e =
     (if \<not> rxu_timer e then e
      else let s = rxu_st e; sz = rxu_sz e
           in if rx_timer_trigger s \<le> rx_next_reassembly s
                 \<or> (\<not> sn_in_reassembly_window sz (um_rx_next_highest s) (rx_timer_trigger s) \<and>
                    rx_timer_trigger s \<noteq> um_rx_next_highest s)
                 \<or> (um_rx_next_highest s = rx_next_reassembly s + 1 \<and> um_no_gap_at (rxu_window e) (um_rx_next_highest s))
              then e\<lparr>rxu_timer := False\<rparr> else e)"

definition um_restart_needed :: "rlc_rx_um_entity \<Rightarrow> bool" where
  "um_restart_needed e \<longleftrightarrow>
     (let s = rxu_st e; sz = rxu_sz e; nh = um_rx_next_highest s
      in um_mod_base sz nh nh > um_mod_base sz nh (rx_next_reassembly s + 1) \<or>
         (um_mod_base sz nh nh = um_mod_base sz nh (rx_next_reassembly s + 1) \<and> um_has_gap_at (rxu_window e) nh))"

definition um_restart_timer :: "rlc_rx_um_entity \<Rightarrow> rlc_rx_um_entity option" where
  "um_restart_timer e =
     (if um_restart_needed e
      then map_option (\<lambda>e1. e1\<lparr>rxu_st := (rxu_st e1)\<lparr>rx_timer_trigger := um_rx_next_highest (rxu_st e1)\<rparr>\<rparr>) (um_timer_run e)
      else Some e)"

definition um_check_start_timer :: "rlc_rx_um_entity \<Rightarrow> rlc_rx_um_entity option" where
  "um_check_start_timer e = (if \<not> rxu_timer e then um_restart_timer e else Some e)"

section \<open>Entry points\<close>

definition rx_um_handle_pdu :: "bool \<Rightarrow> bytes \<Rightarrow> rlc_rx_um_entity \<Rightarrow> (rlc_rx_um_entity \<times> rx_um_event list) option" where
  "rx_um_handle_pdu chain_ok buf e =
     (case rlc_um_read_data_pdu_header buf (rxu_sz e) of
        None \<Rightarrow> Some (e, [])
      | Some header \<Rightarrow>
          let header_len = rlc_um_nr_packed_length header; sn = ucast (um_sn header) in
          if length buf \<le> header_len then Some (e, [])
          else let payload = drop header_len buf in
          if um_si header = full_sdu then Some (e, if chain_ok then [Um_on_new_sdu payload] else [])
          else if sn_invalid_for_rx_buffer e sn then Some (e, [])
          else do {
            (e1, _) \<leftarrow> um_handle_segment_data_sdu header payload e;
            let (e2, evs) = um_place_pdu chain_ok sn e1;
            e3 \<leftarrow> um_check_start_timer (um_check_stop_timer e2);
            Some (e3, evs)
          })"

definition um_on_expired_reassembly_timer :: "rlc_rx_um_entity \<Rightarrow> rlc_rx_um_entity option" where
  "um_on_expired_reassembly_timer e =
     (let sz = rxu_sz e; s = rxu_st e; nh = um_rx_next_highest s;
          (j, w) = sn_loop (um_mod sz) (nh + um_window_size sz) nh
            (\<lambda>i w. if um_mod_base sz nh i < um_mod_base sz nh (rx_timer_trigger s)
                   then Some (if has_sn w i then fst (cm_erase w i) else w)
                   else if um_fully_received_at w i then Some (fst (cm_erase w i)) else None)
            (rx_next_reassembly s) (rxu_window e)
      in um_restart_timer (e\<lparr>rxu_window := w, rxu_st := s\<lparr>rx_next_reassembly := j\<rparr>\<rparr>))"

end
