(* ===== verification/Rlc_Rx_Um_Inv.thy ===== *)
theory Rlc_Rx_Um_Inv
  imports Rlc_Rx_Um
begin

text \<open>
  The invariant of the RLC UM receiver: RX_Next_Reassembly lies in the reassembly window or at its upper edge, and the
  window holds SDUs between the two only.  Its reachable states and the delivery of SDUs.
\<close>

section \<open>Distances from the lower edge of the reassembly window\<close>

abbreviation um_d :: "rlc_um_sn_size \<Rightarrow> u32 \<Rightarrow> u32 \<Rightarrow> int" where
  "um_d sz nh x \<equiv> uint (um_mod_base sz nh x)"

abbreviation um_w :: "rlc_um_sn_size \<Rightarrow> int" where "um_w sz \<equiv> uint (um_window_size sz)"

lemma um_d_bounds: "0 \<le> um_d sz nh x" "um_d sz nh x < 2 * um_w sz"
  using um_sn.dist_less_m [of sz] um_window_half [of sz] by (simp_all add: um_mod_base_dist)

lemma um_w_pos: "0 < um_w sz" by (cases sz) simp_all

lemma um_d_inj: "x < um_mod sz \<Longrightarrow> y < um_mod sz \<Longrightarrow> um_d sz nh x = um_d sz nh y \<Longrightarrow> x = y"
  using um_sn.dist_inj by (simp add: um_mod_base_dist)

lemma um_d_next: "um_d sz nh (sn_next (um_mod sz) x) = (um_d sz nh x + 1) mod (2 * um_w sz)"
  using um_sn.uint_dist_next [of sz "nh + um_window_size sz" x] um_window_half [of sz] by (simp add: um_mod_base_dist)

lemma uint_plus_mod: "uint (a + b :: u32) mod uint (um_mod sz) = (uint a + uint b) mod uint (um_mod sz)"
proof -
  have "uint (um_mod sz) dvd 2 ^ 32" by (rule um_sn.m_dvd)
  then show ?thesis by (simp add: uint_word_ariths mod_mod_cancel)
qed

lemma mod_shift_diff: "(a mod m - (b mod m + c)) mod m = (a - (b + c)) mod (m :: int)"
proof -
  have "(a mod m - b mod m) mod m = (a - b) mod m" by (rule mod_diff_eq)
  then have "(a mod m - b mod m - c) mod m = (a - b - c) mod m" by (rule mod_diff_cong) (rule refl)
  then show ?thesis by (simp add: diff_diff_eq)
qed

text \<open>When the window moves up to an SN outside of it, all distances shrink by the same amount.\<close>

lemma um_d_moved:
  assumes "um_w sz \<le> um_d sz nh x"
  shows "um_d sz (sn_next (um_mod sz) x) y = (um_d sz nh y - (um_d sz nh x + 1 - um_w sz)) mod (2 * um_w sz)"
proof -
  let ?m = "um_mod sz" and ?W = "um_window_size sz" and ?nh = "sn_next (um_mod sz) x"
  have m: "uint ?m = 2 * uint ?W" by (rule um_window_half)
  have "um_d sz ?nh y = (uint y - uint (?nh + ?W)) mod uint ?m"
    by (simp add: um_mod_base_dist um_sn.uint_sn_dist)
  also have "\<dots> = (uint y - (uint x + 1 + uint ?W)) mod uint ?m"
  proof -
    have "uint (?nh + ?W) mod uint ?m = (uint x + 1 + uint ?W) mod uint ?m"
      unfolding uint_plus_mod um_sn.uint_sn_next by (simp add: mod_simps)
    then show ?thesis by (metis mod_diff_right_eq)
  qed
  also have "\<dots> = (um_d sz nh y - (um_d sz nh x + 1 - uint ?W)) mod uint ?m"
  proof -
    have e: "um_d sz nh z = (uint z - uint (nh + ?W)) mod uint ?m" for z
      by (simp add: um_mod_base_dist um_sn.uint_sn_dist)
    have "(um_d sz nh y - (um_d sz nh x + 1 - uint ?W)) mod uint ?m
        = ((uint y - uint (nh + ?W)) - ((uint x - uint (nh + ?W)) + 1 - uint ?W)) mod uint ?m"
      unfolding e using mod_shift_diff [of "uint y - uint (nh + ?W)" "uint ?m" "uint x - uint (nh + ?W)" "1 - uint ?W"]
      by (simp only: add_diff_eq)
    also have "\<dots> = (uint y - (uint x + 1 + uint ?W) + 2 * uint ?W) mod uint ?m" by (simp add: algebra_simps)
    also have "\<dots> = (uint y - (uint x + 1 + uint ?W)) mod uint ?m" unfolding m by (rule mod_add_self2)
    finally show ?thesis by simp
  qed
  finally show ?thesis unfolding m .
qed

section \<open>The loops\<close>

definition um_erased :: "(u32 \<Rightarrow> bool) \<Rightarrow> 'a circular_map \<Rightarrow> 'a circular_map \<Rightarrow> bool" where
  "um_erased P w w' \<longleftrightarrow> (cm_wf w \<longrightarrow> cm_wf w') \<and> cm_max_size w' = cm_max_size w \<and>
     (\<forall>k. cm_get w' k = (if P k then None else cm_get w k))"

lemma um_erased_refl: "(\<And>k. \<not> P k) \<Longrightarrow> um_erased P w w"
  by (simp add: um_erased_def)

lemma um_erased_erase:
  "um_erased P w w' \<Longrightarrow> (\<And>k. Q k \<longleftrightarrow> P k \<or> k = x) \<Longrightarrow> um_erased Q w (fst (cm_erase w' x))"
  by (auto simp: um_erased_def cm_wf_erase cm_get_erase)

text \<open>A loop over SNs that erases what it passes.\<close>

lemma um_loop_erases:
  assumes l: "sn_loop (um_mod sz) (nh + um_window_size sz) nh body i w = (j, w')" and i: "i < um_mod sz" "um_d sz nh i \<le> um_w sz"
    and body: "\<And>x v v'. body x v = Some v' \<Longrightarrow> v' = (if has_sn v x then fst (cm_erase v x) else v)"
  shows "j < um_mod sz \<and> um_d sz nh i \<le> um_d sz nh j \<and> um_d sz nh j \<le> um_w sz \<and> (um_d sz nh j = um_w sz \<or> body j w' = None) \<and>
    um_erased (\<lambda>k. k < um_mod sz \<and> um_d sz nh i \<le> um_d sz nh k \<and> um_d sz nh k < um_d sz nh j) w w' \<and>
    (\<forall>k. k < um_mod sz \<and> um_d sz nh i \<le> um_d sz nh k \<and> um_d sz nh k < um_d sz nh j \<longrightarrow>
      (\<exists>v. body k v \<noteq> None \<and> cm_get v k = cm_get w k))"
proof -
  let ?m = "um_mod sz" and ?b = "nh + um_window_size sz" and ?d = "um_d sz nh"
  let ?P = "\<lambda>x k. k < ?m \<and> ?d i \<le> ?d k \<and> ?d k < ?d x"
  let ?I = "\<lambda>x v. x < ?m \<and> ?d i \<le> ?d x \<and> um_erased (?P x) w v \<and> (\<forall>k. ?P x k \<longrightarrow> (\<exists>v. body k v \<noteq> None \<and> cm_get v k = cm_get w k))"
  have base: "?I i w" using i(1) by (auto intro!: um_erased_refl)
  have le: "uint (sn_dist ?m ?b i) \<le> uint (sn_dist ?m ?b nh)"
    using i(2) um_next_highest_dist [of sz nh] by (simp add: um_mod_base_dist)
  have step: "?I (sn_next ?m x) v'" if "?I x v" "uint (sn_dist ?m ?b x) < uint (sn_dist ?m ?b nh)" "body x v = Some v'" for x v v'
  proof -
    have n: "?d (sn_next ?m x) = ?d x + 1" using um_sn.dist_next_below [OF that(2)] by (simp add: um_mod_base_dist)
    have v': "v' = fst (cm_erase v x)" using body [OF that(3)] by (auto simp: cm_erase_def)
    have p: "?P (sn_next ?m x) k \<longleftrightarrow> ?P x k \<or> k = x" for k
      unfolding n using that(1) um_d_inj [of k sz x nh] by (auto simp: zless_add1_eq order_le_less)
    have "um_erased (?P (sn_next ?m x)) w v'"
      unfolding v' using that(1) p by (intro um_erased_erase [of "?P x"]) auto
    moreover have "\<exists>v. body k v \<noteq> None \<and> cm_get v k = cm_get w k" if k: "?P (sn_next ?m x) k" for k
    proof (cases "k = x")
      case True
      have "cm_get v x = cm_get w x" using \<open>?I x v\<close> by (simp add: um_erased_def)
      then show ?thesis using True \<open>body x v = Some v'\<close> by (intro exI [of _ v]) simp
    next
      case False
      then show ?thesis using k \<open>?I x v\<close> unfolding p by blast
    qed
    ultimately show ?thesis using that(1) n by (simp add: um_sn.next_less)
  qed
  have "?I j w' \<and> uint (sn_dist ?m ?b i) \<le> uint (sn_dist ?m ?b j) \<and> uint (sn_dist ?m ?b j) \<le> uint (sn_dist ?m ?b nh) \<and>
      (uint (sn_dist ?m ?b j) = uint (sn_dist ?m ?b nh) \<or> body j w' = None)"
    by (rule um_sn.sn_loop_rule [of ?I, OF base le step l])
  then show ?thesis using um_next_highest_dist [of sz nh] unfolding um_mod_base_dist by auto
qed

text \<open>The loop that discards everything outside of the window.\<close>

lemma um_discard_outside_erases:
  assumes "um_discard_outside sz nh i w = (j, w')" "i < um_mod sz"
  shows "j < um_mod sz \<and> (if um_d sz nh i < um_w sz then j = i \<and> w' = w
    else um_d sz nh j = 0 \<and> um_erased (\<lambda>k. k < um_mod sz \<and> um_d sz nh i \<le> um_d sz nh k) w w')"
  using assms
proof (induction sz nh i w rule: um_discard_outside.induct)
  case (1 sz nh i w)
  let ?m = "um_mod sz" and ?d = "um_d sz nh" and ?n = "sn_next (um_mod sz) i"
  let ?w = "if has_sn w i then fst (cm_erase w i) else w"
  show ?case
  proof (cases "sn_in_reassembly_window sz nh i")
    case True
    then show ?thesis using "1.prems" by (auto simp: um_discard_outside.simps [of sz nh i] in_window_dist)
  next
    case False
    have w: "?w = fst (cm_erase w i)" by (simp add: cm_erase_def)
    have "um_discard_outside sz nh ?n ?w = (j, w')"
      using False "1.prems"(1) by (simp add: um_discard_outside.simps [of sz nh i])
    then have r: "um_discard_outside sz nh ?n (fst (cm_erase w i)) = (j, w')" by (simp only: w)
    have ih: "j < ?m \<and> (if ?d ?n < um_w sz then j = ?n \<and> w' = fst (cm_erase w i)
      else ?d j = 0 \<and> um_erased (\<lambda>k. k < ?m \<and> ?d ?n \<le> ?d k) (fst (cm_erase w i)) w')"
      by (rule "1.IH" [OF False, unfolded w, OF r um_sn.next_less])
    have ge: "um_w sz \<le> ?d i" using False by (simp add: in_window_dist)
    show ?thesis
    proof (cases "?d i + 1 = 2 * um_w sz")
      case True
      then have n: "?d ?n = 0" by (simp add: um_d_next)
      have k: "k < ?m \<and> ?d i \<le> ?d k \<longleftrightarrow> k = i" for k
        using um_d_inj [of k sz i nh] um_d_bounds(2) [of sz nh k] True "1.prems"(2) by auto
      have "um_erased (\<lambda>k. k < ?m \<and> ?d i \<le> ?d k) w (fst (cm_erase w i))"
        unfolding k by (rule um_erased_erase [of "\<lambda>_. False"]) (auto intro: um_erased_refl)
      then show ?thesis using ih n ge um_w_pos [of sz] um_sn.next_less [of sz i] by simp
    next
      case False
      then have n: "?d ?n = ?d i + 1" using um_d_bounds [of sz nh i] by (simp add: um_d_next)
      have k: "k < ?m \<and> ?d i \<le> ?d k \<longleftrightarrow> k = i \<or> (k < ?m \<and> ?d i + 1 \<le> ?d k)" for k
        using um_d_inj [of k sz i nh] "1.prems"(2) by (auto simp: add1_zle_eq order_le_less [of "um_d sz nh i"])
      have "um_erased (\<lambda>k. k < ?m \<and> ?d i \<le> ?d k) w w'"
        using ih n ge unfolding k by (auto simp: um_erased_def cm_get_erase cm_wf_erase)
      then show ?thesis using ih n ge by auto
    qed
  qed
qed

section \<open>The invariant\<close>

definition rxu_inv :: "rlc_rx_um_entity \<Rightarrow> bool" where
  "rxu_inv e \<longleftrightarrow> (let sz = rxu_sz e; nh = um_rx_next_highest (rxu_st e); r = rx_next_reassembly (rxu_st e); w = rxu_window e in
     nh < um_mod sz \<and> r < um_mod sz \<and> um_d sz nh r \<le> um_w sz \<and> cm_wf w \<and> cm_max_size w = um_window_size sz \<and>
     (\<forall>k. cm_get w k \<noteq> None \<longrightarrow> k < um_mod sz \<and> um_d sz nh r \<le> um_d sz nh k \<and> um_d sz nh k < um_w sz) \<and>
     \<not> um_fully_received_at w r)"

lemma rx_um_create_inv: "rx_um_create cfg = Some e \<Longrightarrow> rxu_inv e \<and> rxu_cfg e = cfg"
proof -
  assume c: "rx_um_create cfg = Some e"
  define n where "n = um_to_number (um_rx_sn_field_length cfg) - 1"
  have n: "n < 32" "um_window_size (um_rx_sn_field_length cfg) = 2 ^ n"
    by (cases "um_rx_sn_field_length cfg"; simp add: n_def)+
  obtain cm :: "rx_um_sdu_info circular_map" where cm: "cm_create (2 ^ n) = Some cm" "cm_wf cm" "cm_max_size cm = 2 ^ n" "\<forall>k. cm_get cm k = None"
    using cm_wf_create [OF n(1)] by blast
  have m: "0 < um_mod (um_rx_sn_field_length cfg)" using um_sn.m_pos by (simp add: word_less_def)
  then show ?thesis using c cm n(2) um_next_highest_dist [of "um_rx_sn_field_length cfg" 0]
    by (auto simp: rx_um_create_def rxu_inv_def Let_def um_fully_received_at_def)
qed

text \<open>Skipping fully received SDUs.\<close>

lemma um_skip_ok:
  assumes s: "um_skip_received sz nh i w = (j, w')" and i: "i < um_mod sz" "um_d sz nh i \<le> um_w sz"
    and w: "cm_wf w" "\<And>k. cm_get w k \<noteq> None \<Longrightarrow> k < um_mod sz \<and> um_d sz nh i \<le> um_d sz nh k \<and> um_d sz nh k < um_w sz"
  shows "j < um_mod sz \<and> um_d sz nh i \<le> um_d sz nh j \<and> um_d sz nh j \<le> um_w sz \<and> cm_wf w' \<and> cm_max_size w' = cm_max_size w \<and>
    (\<forall>k. cm_get w' k \<noteq> None \<longrightarrow> k < um_mod sz \<and> um_d sz nh j \<le> um_d sz nh k \<and> um_d sz nh k < um_w sz) \<and>
    \<not> um_fully_received_at w' j \<and> (\<forall>k. \<not> um_fully_received_at w k \<longrightarrow> cm_get w' k = cm_get w k) \<and>
    (\<forall>k. cm_get w' k = (if k < um_mod sz \<and> um_d sz nh i \<le> um_d sz nh k \<and> um_d sz nh k < um_d sz nh j then None else cm_get w k))"
proof -
  let ?body = "\<lambda>i w. if um_fully_received_at w i then Some (fst (cm_erase w i)) else None"
  have l: "sn_loop (um_mod sz) (nh + um_window_size sz) nh ?body i w = (j, w')" using s by (simp add: um_skip_received_def)
  have b: "?body x v = Some v' \<Longrightarrow> v' = (if has_sn v x then fst (cm_erase v x) else v)" for x and v v' :: "rx_um_sdu_info circular_map"
    by (auto simp: cm_erase_def split: if_splits)
  note r = um_loop_erases [of sz nh ?body, OF l i b]
  have "um_fully_received_at w k" if "k < um_mod sz" "um_d sz nh i \<le> um_d sz nh k" "um_d sz nh k < um_d sz nh j" for k
    using r that by (auto simp: um_fully_received_at_def split: if_splits)
  moreover have "\<not> um_fully_received_at w' j"
  proof (cases "um_d sz nh j = um_w sz")
    case True
    then have "cm_get w j = None" using w(2) [of j] by fastforce
    then show ?thesis using r by (simp add: um_fully_received_at_def um_erased_def)
  next
    case False
    then show ?thesis using r by (auto split: if_splits)
  qed
  moreover have "k < um_mod sz \<and> um_d sz nh j \<le> um_d sz nh k \<and> um_d sz nh k < um_w sz" if k: "cm_get w' k \<noteq> None" for k
  proof -
    have "cm_get w k \<noteq> None" "\<not> (k < um_mod sz \<and> um_d sz nh i \<le> um_d sz nh k \<and> um_d sz nh k < um_d sz nh j)"
      using r k by (simp_all add: um_erased_def split: if_splits)
    then show ?thesis using w(2) [of k] by auto
  qed
  moreover have "cm_get w' k = cm_get w k" if "\<not> um_fully_received_at w k" for k
  proof -
    have "\<not> (k < um_mod sz \<and> um_d sz nh i \<le> um_d sz nh k \<and> um_d sz nh k < um_d sz nh j)" using calculation(1) that by blast
    then show ?thesis using r unfolding um_erased_def by metis
  qed
  moreover have "cm_wf w'" "cm_max_size w' = cm_max_size w"
    "\<forall>k. cm_get w' k = (if k < um_mod sz \<and> um_d sz nh i \<le> um_d sz nh k \<and> um_d sz nh k < um_d sz nh j then None else cm_get w k)"
    using r w(1) by (simp_all add: um_erased_def)
  ultimately show ?thesis using r by blast
qed

section \<open>The window moves\<close>

lemma um_move_window_ok:
  assumes v: "rx_next_reassembly (rxu_st e) < um_mod (rxu_sz e)"
      "um_d (rxu_sz e) (um_rx_next_highest (rxu_st e)) (rx_next_reassembly (rxu_st e)) \<le> um_w (rxu_sz e)"
      "cm_wf (rxu_window e)" "cm_max_size (rxu_window e) = um_window_size (rxu_sz e)"
    and x: "x < um_mod (rxu_sz e)" "um_w (rxu_sz e) \<le> um_d (rxu_sz e) (um_rx_next_highest (rxu_st e)) x"
      "\<not> um_fully_received_at (rxu_window e) x"
    and keys: "\<And>k. cm_get (rxu_window e) k \<noteq> None \<Longrightarrow> k = x \<or> (k < um_mod (rxu_sz e) \<and>
      um_d (rxu_sz e) (um_rx_next_highest (rxu_st e)) (rx_next_reassembly (rxu_st e)) \<le> um_d (rxu_sz e) (um_rx_next_highest (rxu_st e)) k \<and>
      um_d (rxu_sz e) (um_rx_next_highest (rxu_st e)) k < um_w (rxu_sz e))"
  shows "rxu_inv (um_move_window x e) \<and> cm_get (rxu_window (um_move_window x e)) x = cm_get (rxu_window e) x \<and>
    rxu_cfg (um_move_window x e) = rxu_cfg e \<and> rxu_timer (um_move_window x e) = rxu_timer e \<and>
    um_rx_next_highest (rxu_st (um_move_window x e)) = sn_next (um_mod (rxu_sz e)) x \<and>
    (\<forall>k. cm_get (rxu_window (um_move_window x e)) k \<noteq> None \<longrightarrow> cm_get (rxu_window e) k \<noteq> None) \<and>
    (rx_next_reassembly (rxu_st e) = x \<and> cm_get (rxu_window e) x \<noteq> None \<longrightarrow> rx_next_reassembly (rxu_st (um_move_window x e)) = x)"
proof -
  define sz where "sz = rxu_sz e"
  define nh where "nh = um_rx_next_highest (rxu_st e)"
  define r where "r = rx_next_reassembly (rxu_st e)"
  define w where "w = rxu_window e"
  define nh' where "nh' = sn_next (um_mod sz) x"
  define s where "s = um_d sz nh x + 1 - um_w sz"
  note v = v [folded sz_def nh_def r_def w_def] and x = x [folded sz_def nh_def r_def w_def]
    and keys = keys [folded sz_def nh_def r_def w_def]
  have W: "0 < um_w sz" by (rule um_w_pos)
  have s: "1 \<le> s" "s \<le> um_w sz" using x(2) um_d_bounds(2) [of sz nh x] by (simp_all add: s_def)
  have d: "um_d sz nh' y = (if s \<le> um_d sz nh y then um_d sz nh y - s else um_d sz nh y - s + 2 * um_w sz)" for y
  proof -
    have "um_d sz nh' y = (um_d sz nh y - s) mod (2 * um_w sz)" using um_d_moved [OF x(2), of y] by (simp add: nh'_def s_def)
    moreover have "(um_d sz nh y - s) mod (2 * um_w sz) = (um_d sz nh y - s + 2 * um_w sz) mod (2 * um_w sz)"
      by (rule mod_add_self2 [symmetric])
    moreover have "(a :: int) mod (2 * um_w sz) = a" if "0 \<le> a" "a < 2 * um_w sz" for a using that by simp
    ultimately show ?thesis using um_d_bounds [of sz nh y] s W by (cases "s \<le> um_d sz nh y") (simp_all del: mod_add_self2)
  qed
  have dx: "um_d sz nh' x = um_w sz - 1" using x(2) s by (simp add: d s_def)
  have rm: "r mod um_mod sz = r" using v(1) by (simp add: word_less_def word_uint_eq_iff uint_mod)
  obtain i w1 where l1: "um_discard_outside sz nh' r w = (i, w1)" by (rule prod.exhaust)
  note r1 = um_discard_outside_erases [OF l1 v(1)]
  have p: "i < um_mod sz \<and> um_d sz nh' i < um_w sz \<and> cm_wf w1 \<and> cm_max_size w1 = um_window_size sz \<and> cm_get w1 x = cm_get w x \<and>
    (\<forall>k. cm_get w1 k \<noteq> None \<longrightarrow> cm_get w k \<noteq> None) \<and> (r = x \<longrightarrow> i = x) \<and>
    (\<forall>k. cm_get w1 k \<noteq> None \<longrightarrow> k < um_mod sz \<and> um_d sz nh' i \<le> um_d sz nh' k \<and> um_d sz nh' k < um_w sz)"
  proof (cases "um_d sz nh' r < um_w sz")
    case True
    have sr: "s \<le> um_d sz nh r"
    proof (rule ccontr)
      assume "\<not> s \<le> um_d sz nh r"
      then have "um_d sz nh' r = um_d sz nh r - s + 2 * um_w sz" using d [of r] by simp
      then show False using True s um_d_bounds(1) [of sz nh r] by linarith
    qed
    have "k < um_mod sz \<and> um_d sz nh' r \<le> um_d sz nh' k \<and> um_d sz nh' k < um_w sz" if "cm_get w k \<noteq> None" for k
      using keys [OF that] x(1) dx sr True s d [of k] d [of r] by auto
    then show ?thesis using r1 True v by auto
  next
    case False
    have sr: "um_d sz nh r < s"
    proof (rule ccontr)
      assume "\<not> um_d sz nh r < s"
      then have "um_d sz nh' r = um_d sz nh r - s" using d [of r] by simp
      then show False using False v(2) s by linarith
    qed
    have i: "um_d sz nh' i = 0" "um_erased (\<lambda>k. k < um_mod sz \<and> um_d sz nh' r \<le> um_d sz nh' k) w w1" using r1 False by simp_all
    have "k < um_mod sz \<and> 0 \<le> um_d sz nh' k \<and> um_d sz nh' k < um_w sz" if k: "cm_get w1 k \<noteq> None" for k
    proof -
      have "\<not> (k < um_mod sz \<and> um_d sz nh' r \<le> um_d sz nh' k)" "cm_get w k \<noteq> None" using i(2) k by (auto simp: um_erased_def split: if_splits)
      then show ?thesis using keys [of k] x(1) dx W sr s d [of k] d [of r] by (auto split: if_splits)
    qed
    moreover have "cm_get w1 x = cm_get w x" using i(2) dx False by (simp add: um_erased_def)
    moreover have "cm_wf w1" "cm_max_size w1 = um_window_size sz" using i(2) v(3,4) by (simp_all add: um_erased_def)
    moreover have "i < um_mod sz" using r1 by blast
    moreover have "\<forall>k. cm_get w1 k \<noteq> None \<longrightarrow> cm_get w k \<noteq> None" using i(2) by (auto simp: um_erased_def)
    moreover have "r \<noteq> x" using sr x(2) s by auto
    ultimately show ?thesis unfolding i(1) using W by blast
  qed
  obtain j w2 where l2: "um_skip_received sz nh' i w1 = (j, w2)" by (rule prod.exhaust)
  have sk: "j < um_mod sz \<and> um_d sz nh' i \<le> um_d sz nh' j \<and> um_d sz nh' j \<le> um_w sz \<and> cm_wf w2 \<and> cm_max_size w2 = cm_max_size w1 \<and>
    (\<forall>k. cm_get w2 k \<noteq> None \<longrightarrow> k < um_mod sz \<and> um_d sz nh' j \<le> um_d sz nh' k \<and> um_d sz nh' k < um_w sz) \<and>
    \<not> um_fully_received_at w2 j \<and> (\<forall>k. \<not> um_fully_received_at w1 k \<longrightarrow> cm_get w2 k = cm_get w1 k) \<and>
    (\<forall>k. cm_get w2 k = (if k < um_mod sz \<and> um_d sz nh' i \<le> um_d sz nh' k \<and> um_d sz nh' k < um_d sz nh' j then None else cm_get w1 k))"
    by (rule um_skip_ok [OF l2]) (use p in auto)
  have e: "um_move_window x e = e\<lparr>rxu_window := w2, rxu_st := (rxu_st e)\<lparr>um_rx_next_highest := nh', rx_next_reassembly := j\<rparr>\<rparr>"
    using l1 l2 rm by (simp add: um_move_window_def Let_def sz_def [symmetric] nh'_def r_def w_def)
  have gx: "cm_get w2 x = cm_get w x"
  proof -
    have "cm_get w1 x = cm_get w x" using p by blast
    then have "\<not> um_fully_received_at w1 x" using x(3) by (simp add: um_fully_received_at_def)
    then have "cm_get w2 x = cm_get w1 x" using sk by blast
    then show ?thesis using \<open>cm_get w1 x = cm_get w x\<close> by simp
  qed
  have sub: "cm_get w k \<noteq> None" if "cm_get w2 k \<noteq> None" for k
  proof -
    have "cm_get w1 k \<noteq> None" using sk that by metis
    then show ?thesis using p by blast
  qed
  have jx: "j = x" if "r = x" and "cm_get w x \<noteq> None"
  proof (rule um_d_inj)
    have ix: "i = x" using p that(1) by blast
    have "um_d sz nh' i \<le> um_d sz nh' j" using sk by blast
    then have "um_d sz nh' x \<le> um_d sz nh' j" unfolding ix .
    moreover have "cm_get w2 x \<noteq> None" using gx that(2) by simp
    then have "um_d sz nh' j \<le> um_d sz nh' x" using sk by blast
    ultimately show "um_d sz nh' j = um_d sz nh' x" by linarith
    show "j < um_mod sz" "x < um_mod sz" using sk x(1) by blast+
  qed
  have f: "rxu_sz e = sz" "rxu_window e = w" "rx_next_reassembly (rxu_st e) = r" by (simp_all add: sz_def w_def r_def)
  have sk1: "j < um_mod sz" "um_d sz nh' j \<le> um_w sz" "cm_wf w2" "cm_max_size w2 = um_window_size sz" "\<not> um_fully_received_at w2 j"
    "\<forall>k. cm_get w2 k \<noteq> None \<longrightarrow> k < um_mod sz \<and> um_d sz nh' j \<le> um_d sz nh' k \<and> um_d sz nh' k < um_w sz"
    using sk p by (blast, blast, blast, metis, blast, blast)
  have inv: "rxu_inv (um_move_window x e)"
    unfolding e rxu_inv_def Let_def using sk1 by (simp add: f nh'_def um_sn.next_less)
  show ?thesis using inv gx sub jx unfolding e by (simp add: f nh'_def)
qed

section \<open>One PDU\<close>

text \<open>The entry of an SN after one more segment.\<close>

definition um_stored :: "rx_um_sdu_info circular_map \<Rightarrow> u32 \<Rightarrow> rx_sdu_segment \<Rightarrow> rx_um_sdu_info" where
  "um_stored w x sg = um_update_segment_inventory
     (fst (um_store_segment (case cm_get w x of None \<Rightarrow> rx_um_sdu_info_init | Some i \<Rightarrow> i) sg))"

definition um_segment_of :: "rlc_um_pdu_header \<Rightarrow> bytes \<Rightarrow> rx_sdu_segment" where
  "um_segment_of h payload = \<lparr>seg_si = um_si h, seg_so = um_so h, seg_payload = payload\<rparr>"

lemma um_handle_segment_ok:
  assumes inv: "rxu_inv e" and x: "x = ucast (um_sn h)" "x < um_mod (rxu_sz e)" and si: "um_si h \<noteq> full_sdu"
    and valid: "\<not> sn_invalid_for_rx_buffer e x"
  shows "\<exists>w stored. um_handle_segment_data_sdu h payload e = Some (e\<lparr>rxu_window := w\<rparr>, stored) \<and> cm_wf w \<and>
    cm_max_size w = um_window_size (rxu_sz e) \<and> cm_get w x = Some (um_stored (rxu_window e) x (um_segment_of h payload)) \<and>
    (\<forall>k. k \<noteq> x \<and> cm_get w k \<noteq> None \<longrightarrow> cm_get w k = cm_get (rxu_window e) k) \<and>
    (um_d (rxu_sz e) (um_rx_next_highest (rxu_st e)) x < um_w (rxu_sz e) \<longrightarrow> (\<forall>k. k \<noteq> x \<longrightarrow> cm_get w k = cm_get (rxu_window e) k))"
proof -
  let ?sz = "rxu_sz e" and ?nh = "um_rx_next_highest (rxu_st e)" and ?v = "rxu_window e"
  let ?i = "case cm_get ?v x of None \<Rightarrow> rx_um_sdu_info_init | Some i \<Rightarrow> i"
  have w: "cm_wf ?v" "cm_max_size ?v = um_window_size ?sz" using inv by (simp_all add: rxu_inv_def Let_def)
  define w1 where "w1 = (case cm_get ?v x of None \<Rightarrow> cm_overwrite ?v x rx_um_sdu_info_init | Some i \<Rightarrow> ?v)"
  have g1: "(case cm_get ?v x of Some i \<Rightarrow> Some (?v, i)
      | None \<Rightarrow> map_option (\<lambda>w. (w, rx_um_sdu_info_init)) (add_sn ?v x rx_um_sdu_info_init)) = Some (w1, ?i)"
    using add_sn_Some [of ?v x rx_um_sdu_info_init] by (cases "cm_get ?v x") (simp_all add: w1_def cm_contains_get)
  have w1: "cm_wf w1" "cm_max_size w1 = um_window_size ?sz" "cm_get w1 x = Some ?i"
    "\<And>k. k \<noteq> x \<Longrightarrow> cm_get w1 k \<noteq> None \<Longrightarrow> cm_get w1 k = cm_get ?v k"
    using w by (auto simp: w1_def cm_wf_overwrite cm_get_overwrite split: option.splits if_splits)
  have put: "cm_get w1 k = cm_get ?v k" if d: "um_d ?sz ?nh x < um_w ?sz" and k: "k \<noteq> x" for k
  proof (cases "cm_get ?v x")
    case (Some i)
    then show ?thesis by (simp add: w1_def)
  next
    case None
    have span: "cmw.spans (um_mod ?sz) (?nh + um_window_size ?sz) ?v"
      using inv w(2) by (simp add: cmw.spans_def rxu_inv_def Let_def um_mod_base_dist)
    have dvd: "uint (cm_max_size ?v) dvd uint (um_mod ?sz)" using um_window_half [of ?sz] w(2) by simp
    have dx: "uint (sn_dist (um_mod ?sz) (?nh + um_window_size ?sz) x) < uint (cm_max_size ?v)"
      using d w(2) by (simp add: um_mod_base_dist)
    show ?thesis using cmw.get_put_span [OF um_sn.sn_space_axioms dvd w(1) span x(2) dx] k None by (simp add: w1_def)
  qed
  let ?sg = "um_segment_of h payload"
  obtain i2 stored where i2: "um_store_segment ?i ?sg = (i2, stored)" by (rule prod.exhaust)
  let ?w = "cm_modify w1 x (\<lambda>_. um_update_segment_inventory i2)"
  have "um_handle_segment_data_sdu h payload e = Some (e\<lparr>rxu_window := ?w\<rparr>, stored)"
    unfolding um_handle_segment_data_sdu_def Let_def x(1) [symmetric] g1 using si i2 by (simp add: um_segment_of_def)
  moreover have "cm_wf ?w" "cm_max_size ?w = um_window_size ?sz" using w1 by (simp_all add: cm_wf_modify)
  moreover have "cm_get ?w x = Some (um_stored ?v x ?sg)" using w1(3) i2 by (simp add: cm_get_modify um_stored_def)
  moreover have "cm_get ?w k = cm_get w1 k" if "k \<noteq> x" for k using that by (simp add: cm_get_modify)
  ultimately show ?thesis using w1(4) put by (intro exI [of _ ?w] exI [of _ stored]) metis
qed

lemma um_place_ok:
  assumes inv: "rxu_inv e" and x: "x < um_mod (rxu_sz e)" "\<not> sn_invalid_for_rx_buffer e x"
    and w: "cm_wf w" "cm_max_size w = um_window_size (rxu_sz e)" "cm_get w x = Some i"
      "\<And>k. k \<noteq> x \<Longrightarrow> cm_get w k \<noteq> None \<Longrightarrow> cm_get w k = cm_get (rxu_window e) k"
    and out: "um_w (rxu_sz e) \<le> um_d (rxu_sz e) (um_rx_next_highest (rxu_st e)) x \<Longrightarrow> \<not> um_fully_received i"
  shows "rxu_inv (fst (um_place_pdu ok x (e\<lparr>rxu_window := w\<rparr>))) \<and> rxu_cfg (fst (um_place_pdu ok x (e\<lparr>rxu_window := w\<rparr>))) = rxu_cfg e \<and>
    rxu_timer (fst (um_place_pdu ok x (e\<lparr>rxu_window := w\<rparr>))) = rxu_timer e"
proof -
  define sz where "sz = rxu_sz e"
  define nh where "nh = um_rx_next_highest (rxu_st e)"
  define r where "r = rx_next_reassembly (rxu_st e)"
  let ?e = "e\<lparr>rxu_window := w\<rparr>"
  have v: "nh < um_mod sz" "r < um_mod sz" "um_d sz nh r \<le> um_w sz"
    "\<And>k. cm_get (rxu_window e) k \<noteq> None \<Longrightarrow> k < um_mod sz \<and> um_d sz nh r \<le> um_d sz nh k \<and> um_d sz nh k < um_w sz"
    "\<not> um_fully_received_at (rxu_window e) r"
    using inv by (simp_all add: rxu_inv_def Let_def sz_def nh_def r_def)
  have rm: "r mod um_mod sz = r" using v(2) by (simp add: word_less_def word_uint_eq_iff uint_mod)
  have dx: "um_d sz nh r \<le> um_d sz nh x"
    using x(2) by (simp add: sn_invalid_for_rx_buffer_def Let_def um_lower_edge word_less_def sz_def nh_def r_def)
  note w = w [folded sz_def] and out = out [folded sz_def nh_def] and x = x [folded sz_def]
  have keys: "k = x \<or> (k < um_mod sz \<and> um_d sz nh r \<le> um_d sz nh k \<and> um_d sz nh k < um_w sz)" if "cm_get w k \<noteq> None" for k
    using w(4) [of k] v(4) [of k] that by metis
  have nr: "\<not> um_fully_received_at w r" if "x \<noteq> r"
  proof (cases "cm_get w r = None")
    case False
    then have "cm_get w r = cm_get (rxu_window e) r" using w(4) [of r] that by simp
    then show ?thesis using v(5) by (simp add: um_fully_received_at_def)
  qed (simp add: um_fully_received_at_def)
  have folds: "rxu_sz e = sz" "um_rx_next_highest (rxu_st e) = nh" "rx_next_reassembly (rxu_st e) = r"
    by (simp_all add: sz_def nh_def r_def)
  consider (full) "um_fully_received i" | (move) "\<not> um_fully_received i" "um_w sz \<le> um_d sz nh x"
    | (stay) "\<not> um_fully_received i" "um_d sz nh x < um_w sz" by linarith
  then show ?thesis
  proof cases
    case full
    then have xw: "um_d sz nh x < um_w sz" using out by force
    have keysd: "k < um_mod sz \<and> um_d sz nh r \<le> um_d sz nh k \<and> um_d sz nh k < um_w sz" if "cm_get w k \<noteq> None" for k
      using keys [OF that] x(1) dx xw by auto
    define w1 where "w1 = cm_modify w x (\<lambda>i. i\<lparr>um_segments := []\<rparr>)"
    have w1: "cm_wf w1" "cm_max_size w1 = um_window_size sz" "\<And>k. cm_get w1 k \<noteq> None \<longleftrightarrow> cm_get w k \<noteq> None"
      "\<And>k. um_fully_received_at w1 k = um_fully_received_at w k"
      using w(1-3) by (auto simp: w1_def cm_wf_modify cm_get_modify um_fully_received_at_def)
    show ?thesis
    proof (cases "x = r")
      case False
      then have "fst (um_place_pdu ok x ?e) = e\<lparr>rxu_window := w1\<rparr>" using w(3) full by (simp add: um_place_pdu_def Let_def folds w1_def)
      moreover have "rxu_inv (e\<lparr>rxu_window := w1\<rparr>)"
        using v w1 keysd nr [OF False] by (simp add: rxu_inv_def Let_def folds)
      ultimately show ?thesis by simp
    next
      case True
      obtain j w2 where l: "um_skip_received sz nh r w1 = (j, w2)" by (rule prod.exhaust)
      have sk: "j < um_mod sz \<and> um_d sz nh r \<le> um_d sz nh j \<and> um_d sz nh j \<le> um_w sz \<and> cm_wf w2 \<and> cm_max_size w2 = cm_max_size w1 \<and>
        (\<forall>k. cm_get w2 k \<noteq> None \<longrightarrow> k < um_mod sz \<and> um_d sz nh j \<le> um_d sz nh k \<and> um_d sz nh k < um_w sz) \<and>
        \<not> um_fully_received_at w2 j \<and> (\<forall>k. \<not> um_fully_received_at w1 k \<longrightarrow> cm_get w2 k = cm_get w1 k) \<and>
        (\<forall>k. cm_get w2 k = (if k < um_mod sz \<and> um_d sz nh r \<le> um_d sz nh k \<and> um_d sz nh k < um_d sz nh j then None else cm_get w1 k))"
        by (rule um_skip_ok [OF l v(2,3) w1(1)]) (use keysd w1(3) in simp)
      have "fst (um_place_pdu ok x ?e) = e\<lparr>rxu_window := w2, rxu_st := (rxu_st e)\<lparr>rx_next_reassembly := j\<rparr>\<rparr>"
        using w(3) full True l rm by (simp add: um_place_pdu_def Let_def folds w1_def)
      moreover have "j < um_mod sz" "um_d sz nh j \<le> um_w sz" "cm_wf w2" "cm_max_size w2 = um_window_size sz" "\<not> um_fully_received_at w2 j"
        "\<forall>k. cm_get w2 k \<noteq> None \<longrightarrow> k < um_mod sz \<and> um_d sz nh j \<le> um_d sz nh k \<and> um_d sz nh k < um_w sz"
        using sk w1(2) by (blast, blast, blast, metis, blast, blast)
      ultimately show ?thesis using v(1) by (simp add: rxu_inv_def Let_def folds)
    qed
  next
    case move
    have p: "fst (um_place_pdu ok x ?e) = um_move_window x ?e"
      using w(3) move by (simp add: um_place_pdu_def Let_def folds in_window_dist)
    have "\<not> um_fully_received_at w x" using w(3) move by (simp add: um_fully_received_at_def)
    then have "rxu_inv (um_move_window x ?e) \<and> cm_get (rxu_window (um_move_window x ?e)) x = cm_get (rxu_window ?e) x \<and>
      rxu_cfg (um_move_window x ?e) = rxu_cfg ?e \<and> rxu_timer (um_move_window x ?e) = rxu_timer ?e \<and>
      um_rx_next_highest (rxu_st (um_move_window x ?e)) = sn_next (um_mod (rxu_sz ?e)) x \<and>
      (\<forall>k. cm_get (rxu_window (um_move_window x ?e)) k \<noteq> None \<longrightarrow> cm_get (rxu_window ?e) k \<noteq> None) \<and>
      (rx_next_reassembly (rxu_st ?e) = x \<and> cm_get (rxu_window ?e) x \<noteq> None \<longrightarrow> rx_next_reassembly (rxu_st (um_move_window x ?e)) = x)"
      by (intro um_move_window_ok) (use v w x move keys in \<open>simp_all add: folds\<close>)
    then show ?thesis unfolding p by simp
  next
    case stay
    have p: "fst (um_place_pdu ok x ?e) = ?e" using w(3) stay by (simp add: um_place_pdu_def Let_def folds in_window_dist)
    have "k < um_mod sz \<and> um_d sz nh r \<le> um_d sz nh k \<and> um_d sz nh k < um_w sz" if "cm_get w k \<noteq> None" for k
      using keys [OF that] x(1) dx stay by auto
    moreover have "\<not> um_fully_received_at w r" using nr stay w(3) by (cases "x = r") (auto simp: um_fully_received_at_def)
    ultimately show ?thesis unfolding p using v w by (simp add: rxu_inv_def Let_def folds)
  qed
qed

text \<open>The SN that is read fits the SN space.\<close>

lemma um_read_sn_less:
  assumes "rlc_um_read_data_pdu_header buf sz = Some h"
  shows "(ucast (um_sn h) :: u32) < um_mod sz"
proof -
  obtain b0 r0 where buf: "buf = b0 # r0" using assms by (cases buf) (auto simp: rlc_um_read_data_pdu_header_def)
  have b: "i < um_to_number sz" if "bit (um_sn h) i" for i
  proof (cases sz)
    case um_size6bits
    then have sn: "um_sn h = ucast (b0 AND 0x3f)" using assms
      by (auto simp: buf rlc_um_read_data_pdu_header_def Let_def split: if_splits)
    have m: "(0x3f :: u8) = mask 6" by (simp add: mask_eq_exp_minus_1)
    show ?thesis using that um_size6bits unfolding sn m by (simp add: bit_simps)
  next
    case um_size12bits
    define hi where "hi = (push_bit 8 (ucast (b0 AND 0x0f)) :: u16)"
    have hi: "bit hi i \<Longrightarrow> i < 12" for i unfolding hi_def and_masks by (auto simp: bit_simps)
    have "um_sn h = hi \<or> (\<exists>b1 :: u8. um_sn h = hi OR (ucast b1 AND 0xff))" using assms um_size12bits
      by (auto simp: buf rlc_um_read_data_pdu_header_def Let_def hi_def split: if_splits list.splits)
    then show ?thesis using that um_size12bits hi by (auto simp: bit_simps and_masks)
  qed
  have "um_to_number sz < 32" by (cases sz) simp_all
  then have "(ucast (um_sn h) :: u32) < 2 ^ um_to_number sz"
    by (intro word_less_exp_bits) (auto simp: bit_ucast_iff dest: b)
  then show ?thesis by (simp add: cardinality_def push_bit_eq_mult)
qed

lemma um_stored_fresh:
  assumes "cm_get w x = None" "\<not> (seg_si sg = last_segment \<and> seg_so sg = 0)"
  shows "\<not> um_fully_received (um_stored w x sg)"
proof -
  have "ucast (seg_so sg) = (0 :: u32) \<longleftrightarrow> seg_so sg = 0"
    using unat_ucast_so [of "seg_so sg"] by (metis unsigned_0 unsigned_eq_0_iff)
  then show ?thesis using assms
    by (auto simp: um_stored_def um_store_segment_def rx_um_sdu_info_init_def um_update_segment_inventory_def)
qed

text \<open>The peer numbers its segments as the standard says: a last segment has an offset.\<close>

definition um_peer_ok :: "rlc_rx_um_entity \<Rightarrow> bytes \<Rightarrow> bool" where
  "um_peer_ok e buf = (case rlc_um_read_data_pdu_header buf (rxu_sz e) of None \<Rightarrow> True
     | Some h \<Rightarrow> \<not> (um_si h = last_segment \<and> um_so h = 0))"

lemma rxu_inv_cong:
  "rxu_window e' = rxu_window e \<Longrightarrow> rxu_cfg e' = rxu_cfg e \<Longrightarrow> um_rx_next_highest (rxu_st e') = um_rx_next_highest (rxu_st e) \<Longrightarrow>
   rx_next_reassembly (rxu_st e') = rx_next_reassembly (rxu_st e) \<Longrightarrow> rxu_inv e' = rxu_inv e"
  by (simp add: rxu_inv_def Let_def)

lemma um_restart_timer_ok:
  assumes "rxu_inv e" "0 < um_t_reassembly (rxu_cfg e)"
  shows "\<exists>e'. um_restart_timer e = Some e' \<and> rxu_inv e' \<and> rxu_cfg e' = rxu_cfg e \<and> rxu_window e' = rxu_window e \<and>
    um_rx_next_highest (rxu_st e') = um_rx_next_highest (rxu_st e) \<and> rx_next_reassembly (rxu_st e') = rx_next_reassembly (rxu_st e)"
  using assms by (auto simp: um_restart_timer_def um_timer_run_def rxu_inv_def Let_def)

lemma um_timers_ok:
  assumes "rxu_inv e" "0 < um_t_reassembly (rxu_cfg e)"
  shows "\<exists>e'. um_check_start_timer (um_check_stop_timer e) = Some e' \<and> rxu_inv e' \<and> rxu_cfg e' = rxu_cfg e \<and> rxu_window e' = rxu_window e \<and>
    um_rx_next_highest (rxu_st e') = um_rx_next_highest (rxu_st e) \<and> rx_next_reassembly (rxu_st e') = rx_next_reassembly (rxu_st e) \<and>
    (\<not> rxu_timer e \<and> \<not> um_restart_needed e \<longrightarrow> \<not> rxu_timer e')"
proof -
  let ?e = "um_check_stop_timer e"
  have f: "rxu_window ?e = rxu_window e" "rxu_cfg ?e = rxu_cfg e" "rxu_st ?e = rxu_st e"
    by (simp_all add: um_check_stop_timer_def Let_def)
  have i: "rxu_inv ?e" using rxu_inv_cong [of ?e e] f assms(1) by simp
  have "\<not> rxu_timer e \<and> \<not> um_restart_needed e \<longrightarrow> um_check_start_timer ?e = Some e"
    by (simp add: um_check_stop_timer_def um_check_start_timer_def um_restart_timer_def)
  then show ?thesis using um_restart_timer_ok [OF i] f assms(2) i by (auto simp: um_check_start_timer_def)
qed

text \<open>What a PDU with a segment does.\<close>

lemma rx_um_handle_segment_pdu:
  assumes inv: "rxu_inv e" and t: "0 < um_t_reassembly (rxu_cfg e)"
    and h: "rlc_um_read_data_pdu_header buf (rxu_sz e) = Some h" "rlc_um_nr_packed_length h < length buf" "um_si h \<noteq> full_sdu"
      "\<not> (um_si h = last_segment \<and> um_so h = 0)"
    and valid: "\<not> sn_invalid_for_rx_buffer e (ucast (um_sn h))"
  shows "\<exists>w e2 e'. rx_um_handle_pdu ok buf e = Some (e', snd (um_place_pdu ok (ucast (um_sn h)) (e\<lparr>rxu_window := w\<rparr>))) \<and>
    cm_get w (ucast (um_sn h)) = Some (um_stored (rxu_window e) (ucast (um_sn h)) (um_segment_of h (drop (rlc_um_nr_packed_length h) buf))) \<and>
    (\<forall>k. k \<noteq> ucast (um_sn h) \<and> cm_get w k \<noteq> None \<longrightarrow> cm_get w k = cm_get (rxu_window e) k) \<and>
    e2 = fst (um_place_pdu ok (ucast (um_sn h)) (e\<lparr>rxu_window := w\<rparr>)) \<and> cm_wf w \<and> cm_max_size w = um_window_size (rxu_sz e) \<and>
    rxu_inv e' \<and> rxu_cfg e' = rxu_cfg e \<and> rxu_window e' = rxu_window e2 \<and>
    um_rx_next_highest (rxu_st e') = um_rx_next_highest (rxu_st e2) \<and> rx_next_reassembly (rxu_st e') = rx_next_reassembly (rxu_st e2) \<and>
    (\<not> rxu_timer e2 \<and> \<not> um_restart_needed e2 \<longrightarrow> \<not> rxu_timer e')"
proof -
  define x where "x = (ucast (um_sn h) :: u32)"
  define sg where "sg = um_segment_of h (drop (rlc_um_nr_packed_length h) buf)"
  have x: "x < um_mod (rxu_sz e)" using um_read_sn_less [OF h(1)] by (simp add: x_def)
  have v: "\<not> sn_invalid_for_rx_buffer e x" using valid by (simp add: x_def)
  obtain w stored where w: "um_handle_segment_data_sdu h (drop (rlc_um_nr_packed_length h) buf) e = Some (e\<lparr>rxu_window := w\<rparr>, stored)"
    "cm_wf w" "cm_max_size w = um_window_size (rxu_sz e)" "cm_get w x = Some (um_stored (rxu_window e) x sg)"
    "\<forall>k. k \<noteq> x \<and> cm_get w k \<noteq> None \<longrightarrow> cm_get w k = cm_get (rxu_window e) k"
    using um_handle_segment_ok [OF inv x_def x h(3) v] unfolding sg_def by blast
  obtain e2 evs where p: "um_place_pdu ok x (e\<lparr>rxu_window := w\<rparr>) = (e2, evs)" by (rule prod.exhaust)
  have out: "\<not> um_fully_received (um_stored (rxu_window e) x sg)"
    if "um_w (rxu_sz e) \<le> um_d (rxu_sz e) (um_rx_next_highest (rxu_st e)) x"
  proof (rule um_stored_fresh)
    show "cm_get (rxu_window e) x = None" using inv that by (fastforce simp: rxu_inv_def Let_def)
    show "\<not> (seg_si sg = last_segment \<and> seg_so sg = 0)" using h(4) by (simp add: sg_def um_segment_of_def)
  qed
  have e2: "rxu_inv e2" "rxu_cfg e2 = rxu_cfg e"
    using um_place_ok [OF inv x v w(2-4) _ out, of ok] w(5) p by auto
  obtain e' where e': "um_check_start_timer (um_check_stop_timer e2) = Some e'" "rxu_inv e'" "rxu_cfg e' = rxu_cfg e2"
    "rxu_window e' = rxu_window e2" "um_rx_next_highest (rxu_st e') = um_rx_next_highest (rxu_st e2)"
    "rx_next_reassembly (rxu_st e') = rx_next_reassembly (rxu_st e2)" "\<not> rxu_timer e2 \<and> \<not> um_restart_needed e2 \<longrightarrow> \<not> rxu_timer e'"
    using um_timers_ok [OF e2(1)] e2(2) t by auto
  have "rx_um_handle_pdu ok buf e = Some (e', evs)"
    using h v w(1) p e'(1) by (simp add: rx_um_handle_pdu_def Let_def x_def)
  then show ?thesis using w p e' e2 unfolding x_def sg_def by (intro exI [of _ w] exI [of _ e2] exI [of _ e']) simp
qed

lemma rx_um_handle_pdu_inv:
  assumes inv: "rxu_inv e" and t: "0 < um_t_reassembly (rxu_cfg e)" and b: "um_peer_ok e buf"
  shows "\<exists>e' evs. rx_um_handle_pdu ok buf e = Some (e', evs) \<and> rxu_inv e' \<and> rxu_cfg e' = rxu_cfg e"
proof (cases "rlc_um_read_data_pdu_header buf (rxu_sz e)")
  case None
  then show ?thesis using inv by (simp add: rx_um_handle_pdu_def)
next
  case (Some h)
  show ?thesis
  proof (cases "length buf \<le> rlc_um_nr_packed_length h \<or> um_si h = full_sdu \<or> sn_invalid_for_rx_buffer e (ucast (um_sn h))")
    case True
    then show ?thesis using inv Some by (auto simp: rx_um_handle_pdu_def Let_def)
  next
    case False
    have "\<not> (um_si h = last_segment \<and> um_so h = 0)" using b Some by (simp add: um_peer_ok_def)
    then show ?thesis using rx_um_handle_segment_pdu [OF inv t Some] False by (metis linorder_not_le)
  qed
qed

lemma um_expiry_ok:
  assumes inv: "rxu_inv e" and t: "0 < um_t_reassembly (rxu_cfg e)"
  shows "\<exists>e'. um_on_expired_reassembly_timer e = Some e' \<and> rxu_inv e' \<and> rxu_cfg e' = rxu_cfg e"
proof -
  define sz where "sz = rxu_sz e"
  define nh where "nh = um_rx_next_highest (rxu_st e)"
  define r where "r = rx_next_reassembly (rxu_st e)"
  define tr where "tr = rx_timer_trigger (rxu_st e)"
  have v: "nh < um_mod sz" "r < um_mod sz" "um_d sz nh r \<le> um_w sz" "cm_wf (rxu_window e)" "cm_max_size (rxu_window e) = um_window_size sz"
    "\<And>k. cm_get (rxu_window e) k \<noteq> None \<Longrightarrow> k < um_mod sz \<and> um_d sz nh r \<le> um_d sz nh k \<and> um_d sz nh k < um_w sz"
    using inv by (simp_all add: rxu_inv_def Let_def sz_def nh_def r_def)
  let ?body = "\<lambda>i w. if um_mod_base sz nh i < um_mod_base sz nh tr then Some (if has_sn w i then fst (cm_erase w i) else w)
    else if um_fully_received_at w i then Some (fst (cm_erase w i)) else None"
  obtain j w where l: "sn_loop (um_mod sz) (nh + um_window_size sz) nh ?body r (rxu_window e) = (j, w)" by (rule prod.exhaust)
  have b: "?body x v = Some v' \<Longrightarrow> v' = (if has_sn v x then fst (cm_erase v x) else v)" for x and v v' :: "rx_um_sdu_info circular_map"
    by (auto simp: cm_erase_def split: if_splits)
  note lr = um_loop_erases [of sz nh ?body, OF l v(2,3) b]
  let ?e = "e\<lparr>rxu_window := w, rxu_st := (rxu_st e)\<lparr>rx_next_reassembly := j\<rparr>\<rparr>"
  have keys: "k < um_mod sz \<and> um_d sz nh j \<le> um_d sz nh k \<and> um_d sz nh k < um_w sz" if k: "cm_get w k \<noteq> None" for k
  proof -
    have "cm_get (rxu_window e) k \<noteq> None" "\<not> (k < um_mod sz \<and> um_d sz nh r \<le> um_d sz nh k \<and> um_d sz nh k < um_d sz nh j)"
      using lr k by (simp_all add: um_erased_def split: if_splits)
    then show ?thesis using v(6) [of k] by auto
  qed
  have "\<not> um_fully_received_at w j"
  proof (cases "um_d sz nh j = um_w sz")
    case True
    then have "cm_get w j = None" using keys [of j] by force
    then show ?thesis by (simp add: um_fully_received_at_def)
  next
    case False
    then show ?thesis using lr by (auto split: if_splits)
  qed
  moreover have "cm_wf w" "cm_max_size w = um_window_size sz" using lr v(4,5) by (simp_all add: um_erased_def)
  ultimately have i: "rxu_inv ?e" using keys lr v(1) by (simp add: rxu_inv_def Let_def sz_def [symmetric] nh_def [symmetric])
  have "um_on_expired_reassembly_timer e = um_restart_timer ?e"
    using l by (simp add: um_on_expired_reassembly_timer_def Let_def sz_def nh_def r_def tr_def)
  then show ?thesis using um_restart_timer_ok [OF i] t by auto
qed

section \<open>Reachable states\<close>

inductive rx_um_step :: "rlc_rx_um_entity \<Rightarrow> rlc_rx_um_entity \<Rightarrow> bool" where
  pdu: "um_peer_ok e buf \<Longrightarrow> rx_um_handle_pdu chain_ok buf e = Some (e', evs) \<Longrightarrow> rx_um_step e e'"
| expiry: "rxu_timer e \<Longrightarrow> um_on_expired_reassembly_timer (e\<lparr>rxu_timer := False\<rparr>) = Some e' \<Longrightarrow> rx_um_step e e'"
| stop: "rx_um_step e (rx_um_stop e)"

inductive rx_um_reachable :: "rlc_rx_um_config \<Rightarrow> rlc_rx_um_entity \<Rightarrow> bool" for cfg where
  created: "rx_um_create cfg = Some e \<Longrightarrow> rx_um_reachable cfg e"
| stepped: "rx_um_reachable cfg e \<Longrightarrow> rx_um_step e e' \<Longrightarrow> rx_um_reachable cfg e'"

lemma rxu_inv_timer [simp]: "rxu_inv (e\<lparr>rxu_timer := b\<rparr>) = rxu_inv e"
  by (rule rxu_inv_cong) simp_all

lemma rx_um_reachable_inv:
  assumes "rx_um_reachable cfg e" "0 < um_t_reassembly cfg"
  shows "rxu_inv e \<and> rxu_cfg e = cfg"
  using assms(1)
proof (induction rule: rx_um_reachable.induct)
  case (created e)
  then show ?case by (rule rx_um_create_inv)
next
  case (stepped e e')
  then have i: "rxu_inv e" "rxu_cfg e = cfg" by simp_all
  from stepped(2) show ?case
  proof (cases rule: rx_um_step.cases)
    case (pdu buf chain_ok evs)
    then show ?thesis using rx_um_handle_pdu_inv [OF i(1), of buf chain_ok] i(2) assms(2) by auto
  next
    case expiry
    then show ?thesis using um_expiry_ok [of "e\<lparr>rxu_timer := False\<rparr>"] i assms(2) by auto
  next
    case stop
    then show ?thesis using i by (simp add: rx_um_stop_def)
  qed
qed

section \<open>Delivery\<close>

text \<open>The entry as an entry of the AM receiver, whose container of segments is the same.\<close>

definition am_info :: "rx_um_sdu_info \<Rightarrow> rx_sdu_info" where
  "am_info i = \<lparr>fully_received = um_fully_received i, has_gap = um_has_gap i, info_data = Segment_set (um_segments i)\<rparr>"

lemma receive_am_info:
  "receive_segment (am_info i) sg = Some (am_info (um_update_segment_inventory (fst (um_store_segment i sg))), snd (um_store_segment i sg))"
  by (auto simp: receive_segment_def store_segment_def um_store_segment_def update_segment_inventory_def
      um_update_segment_inventory_def am_info_def segments_of_def split: prod.splits option.splits)

definition um_segs :: "rx_um_sdu_info circular_map \<Rightarrow> u32 \<Rightarrow> rx_sdu_segment list" where
  "um_segs w x = (case cm_get w x of None \<Rightarrow> [] | Some i \<Rightarrow> um_segments i)"

lemma um_stored_ok:
  assumes "segs_ok (seg_ok sdu) 0 (um_segs w x)" "seg_ok sdu sg"
  shows "info_ok sdu (am_info (um_stored w x sg)) \<and> segs_dom (um_segments (um_stored w x sg)) = segs_dom (um_segs w x) \<union> seg_dom sg"
proof -
  let ?i = "case cm_get w x of None \<Rightarrow> rx_um_sdu_info_init | Some i \<Rightarrow> i"
  have s: "segments_of (info_data (am_info ?i)) = um_segs w x"
    by (simp add: segments_of_def am_info_def um_segs_def rx_um_sdu_info_init_def split: option.splits)
  obtain i' ss stored where "receive_segment (am_info ?i) sg = Some (i', stored)" "info_ok sdu i'" "info_data i' = Segment_set ss"
    "segs_dom ss = segs_dom (um_segs w x) \<union> seg_dom sg"
    using receive_segment_ok [of sdu "am_info ?i" sg] assms unfolding s by blast
  moreover from this(1) have i': "i' = am_info (um_stored w x sg)" by (simp add: receive_am_info um_stored_def)
  ultimately show ?thesis unfolding i' by (simp add: am_info_def)
qed

lemma um_stored_complete:
  assumes "segs_ok (seg_ok sdu) 0 (um_segs w x)" "seg_ok sdu sg" "{0..<length sdu} \<subseteq> seg_dom sg \<union> segs_dom (um_segs w x)"
  shows "um_fully_received (um_stored w x sg)" "um_reassemble_sdu True (um_stored w x sg) = Some sdu"
proof -
  let ?i = "um_stored w x sg"
  have i: "info_ok sdu (am_info ?i)" "segs_dom (um_segments ?i) = segs_dom (um_segs w x) \<union> seg_dom sg"
    using um_stored_ok [OF assms(1,2)] by simp_all
  have d: "info_data (am_info ?i) = Segment_set (um_segments ?i)" by (simp add: am_info_def)
  show f: "um_fully_received ?i" using i assms(3) by (auto simp: info_ok_def am_info_def segments_of_def Let_def)
  have "reassemble_sdu True (am_info ?i) = Some sdu" by (rule info_ok_reassemble [OF i(1) d]) (simp add: am_info_def f)
  then show "um_reassemble_sdu True ?i = Some sdu" using f by (simp add: reassemble_sdu_def um_reassemble_sdu_def am_info_def)
qed

text \<open>The PDU carries an SDU whole, or the segment that fills its last hole.\<close>

definition um_completes :: "rlc_rx_um_entity \<Rightarrow> rlc_um_pdu_header \<Rightarrow> bytes \<Rightarrow> bytes \<Rightarrow> bool" where
  "um_completes e h payload sdu \<longleftrightarrow>
     (if um_si h = full_sdu then payload = sdu \<and> sdu \<noteq> []
      else let x = ucast (um_sn h); sg = um_segment_of h payload in
        \<not> sn_invalid_for_rx_buffer e x \<and> seg_ok sdu sg \<and> segs_ok (seg_ok sdu) 0 (um_segs (rxu_window e) x) \<and>
        {0..<length sdu} \<subseteq> seg_dom sg \<union> segs_dom (um_segs (rxu_window e) x))"

lemma um_place_delivers:
  assumes "cm_get w x = Some i" "um_fully_received i" "um_reassemble_sdu True i = Some sdu"
  shows "snd (um_place_pdu True x (e\<lparr>rxu_window := w\<rparr>)) = [Um_on_new_sdu sdu]"
  using assms by (simp add: um_place_pdu_def Let_def split: prod.splits)

lemma um_completing_pdu:
  assumes inv: "rxu_inv e" and t: "0 < um_t_reassembly (rxu_cfg e)"
    and h: "um_header_ok h" "um_sn_size h = rxu_sz e" and c: "um_completes e h payload sdu"
  shows "\<exists>e'. rx_um_handle_pdu True (rlc_um_write_data_pdu_header h @ payload) e = Some (e', [Um_on_new_sdu sdu])"
proof -
  let ?buf = "rlc_um_write_data_pdu_header h @ payload"
  have pl: "payload \<noteq> []" using c by (auto simp: um_completes_def seg_ok_def um_segment_of_def Let_def split: if_splits)
  have r: "rlc_um_read_data_pdu_header ?buf (rxu_sz e) = Some (um_wire h)"
    "length (rlc_um_write_data_pdu_header h) = rlc_um_nr_packed_length (um_wire h)"
    using um_read_written [OF h(1), of payload] h(2) by simp_all
  have d: "drop (rlc_um_nr_packed_length (um_wire h)) ?buf = payload" unfolding r(2) [symmetric] by simp
  have len: "rlc_um_nr_packed_length (um_wire h) < length ?buf" using pl by (simp add: r(2))
  show ?thesis
  proof (cases "um_si h = full_sdu")
    case True
    then have "um_si (um_wire h) = full_sdu" "payload = sdu" using c by (simp_all add: um_wire_def um_completes_def)
    then show ?thesis unfolding rx_um_handle_pdu_def r(1) option.case Let_def d using len by simp
  next
    case False
    then have wi: "um_wire h = h" by (simp add: um_wire_def)
    have ok: "\<not> (um_si h = last_segment \<and> um_so h = 0)" using h(1) by (auto simp: um_header_ok_def)
    have cc: "\<not> sn_invalid_for_rx_buffer e (ucast (um_sn h))" "seg_ok sdu (um_segment_of h payload)"
      "segs_ok (seg_ok sdu) 0 (um_segs (rxu_window e) (ucast (um_sn h)))"
      "{0..<length sdu} \<subseteq> seg_dom (um_segment_of h payload) \<union> segs_dom (um_segs (rxu_window e) (ucast (um_sn h)))"
      using c False by (simp_all add: um_completes_def Let_def)
    obtain w e' where w: "rx_um_handle_pdu True ?buf e = Some (e', snd (um_place_pdu True (ucast (um_sn h)) (e\<lparr>rxu_window := w\<rparr>)))"
      "cm_get w (ucast (um_sn h)) = Some (um_stored (rxu_window e) (ucast (um_sn h)) (um_segment_of h payload))"
      using rx_um_handle_segment_pdu [OF inv t r(1) len, of True] False ok cc(1) unfolding wi d [unfolded wi] by blast
    have "snd (um_place_pdu True (ucast (um_sn h)) (e\<lparr>rxu_window := w\<rparr>)) = [Um_on_new_sdu sdu]"
      by (rule um_place_delivers [OF w(2) um_stored_complete [OF cc(3,2,4)]])
    then show ?thesis using w(1) by simp
  qed
qed

text \<open>
  The reassembly window of UM.  In every reachable state RX_Next_Reassembly is in the window or at its upper
  edge, its SDU is not fully received, the buffer holds SDUs from RX_Next_Reassembly up to RX_Next_Highest only, and
  no PDU and no expiry of t-Reassembly makes an assertion fail.
\<close>

lemma rx_um_window_invariant:
  assumes "rx_um_reachable cfg e" and "0 < um_t_reassembly cfg" and "um_peer_ok e buf"
  shows "(let sz = um_rx_sn_field_length cfg; nh = um_rx_next_highest (rxu_st e); r = rx_next_reassembly (rxu_st e) in
      um_d sz nh r \<le> um_w sz \<and> \<not> um_fully_received_at (rxu_window e) r \<and>
      (\<forall>k. cm_get (rxu_window e) k \<noteq> None \<longrightarrow> k < um_mod sz \<and> um_d sz nh r \<le> um_d sz nh k \<and> um_d sz nh k < um_w sz)) \<and>
    rx_um_handle_pdu chain_ok buf e \<noteq> None \<and> um_on_expired_reassembly_timer (e\<lparr>rxu_timer := False\<rparr>) \<noteq> None"
proof -
  have i: "rxu_inv e" "rxu_cfg e = cfg" using rx_um_reachable_inv [OF assms(1,2)] by simp_all
  show ?thesis
    using i rx_um_handle_pdu_inv [OF i(1) _ assms(3), of chain_ok] um_expiry_ok [of "e\<lparr>rxu_timer := False\<rparr>"] assms(2)
    by (auto simp: rxu_inv_def Let_def)
qed

text \<open>
  Property C21: delivery in UM.  When a reachable receiver gets a PDU that carries a whole SDU, or the segment that fills
  the last hole of an SDU of the window, it delivers exactly that SDU.
\<close>

theorem rx_um_delivers:
  assumes "rx_um_reachable cfg e" and "0 < um_t_reassembly cfg"
    and "um_header_ok h" and "um_sn_size h = um_rx_sn_field_length cfg" and "um_completes e h payload sdu"
  shows "\<exists>e'. rx_um_handle_pdu True (rlc_um_write_data_pdu_header h @ payload) e = Some (e', [Um_on_new_sdu sdu])"
proof -
  have i: "rxu_inv e" "rxu_cfg e = cfg" using rx_um_reachable_inv [OF assms(1,2)] by simp_all
  show ?thesis by (rule um_completing_pdu [OF i(1)]) (use i(2) assms in simp_all)
qed

definition um_cfg_example :: rlc_rx_um_config where
  "um_cfg_example = \<lparr>um_rx_sn_field_length = um_size6bits, um_t_reassembly = 50\<rparr>"

definition rx_um_example :: rlc_rx_um_entity where "rx_um_example = the (rx_um_create um_cfg_example)"

text \<open>
  A last segment with offset 0.  The reader consumes the two bytes of the SO, the packed length does not
  count them, so the receiver delivers them in front of the payload, and it leaves RX_Next_Highest behind the SN.
\<close>

lemma last_segment_at_zero:
  "\<exists>e'. rx_um_handle_pdu True [0x85, 0, 0, 7] rx_um_example = Some (e', [Um_on_new_sdu [0, 0, 7]]) \<and>
     um_rx_next_highest (rxu_st e') = 0 \<and> has_sn (rxu_window e') 5"
proof -
  have "map_option (\<lambda>(e, evs). (evs, um_rx_next_highest (rxu_st e), has_sn (rxu_window e) 5))
      (rx_um_handle_pdu True [0x85, 0, 0, 7] rx_um_example) = Some ([Um_on_new_sdu [0, 0, 7]], 0, True)"
    by code_simp
  then show ?thesis by auto
qed

fun rx_um_run :: "bytes list \<Rightarrow> rlc_rx_um_entity \<Rightarrow> (rlc_rx_um_entity \<times> rx_um_event list) option" where
  "rx_um_run [] e = Some (e, [])"
| "rx_um_run (pdu # pdus) e =
     do {
       (e1, evs) \<leftarrow> rx_um_handle_pdu True pdu e;
       (e2, evs2) \<leftarrow> rx_um_run pdus e1;
       Some (e2, evs @ evs2)
     }"

text \<open>
  Duplicated segments.  An SDU that was delivered ahead of RX_Next_Reassembly is reopened by a duplicate of
  one of its segments: it is delivered again when all of them come twice, and RX_Next_Reassembly then stops at its SN
  although it was reassembled and delivered.
\<close>

lemma duplicate_reopens_sdu:
  "map_option snd (rx_um_run [[0x41, 1, 2], [0x81, 0, 2, 9], [0x41, 1, 2], [0x81, 0, 2, 9]] rx_um_example) =
     Some [Um_on_new_sdu [1, 2, 9], Um_on_new_sdu [1, 2, 9]] \<and>
   map_option (rx_next_reassembly \<circ> rxu_st \<circ> fst)
     (rx_um_run [[0x41, 1, 2], [0x81, 0, 2, 9], [0x41, 1, 2], [0x40, 5], [0x80, 0, 1, 6]] rx_um_example) = Some 1 \<and>
   map_option (rx_next_reassembly \<circ> rxu_st \<circ> fst)
     (rx_um_run [[0x41, 1, 2], [0x81, 0, 2, 9], [0x40, 5], [0x80, 0, 1, 6]] rx_um_example) = Some 2"
  by code_simp

lemma rx_um_example_reachable: "rx_um_reachable um_cfg_example rx_um_example"
  by (rule created) (simp add: rx_um_example_def um_cfg_example_def rx_um_create_def cm_create_def)

text \<open>
  Gaps inside an SDU.  The window never holds an SDU at RX_Next_Highest, so in every reachable state the test
  for a missing segment before the last received byte fails, and t-Reassembly is (re)started exactly when
  RX_Next_Highest is past RX_Next_Reassembly + 1: a lost segment of the only buffered SDU does not start it.
\<close>

lemma um_gap_test_never_holds:
  assumes "rx_um_reachable cfg e" and "0 < um_t_reassembly cfg"
  shows "\<not> has_sn (rxu_window e) (um_rx_next_highest (rxu_st e)) \<and>
    (let s = rxu_st e; nh = um_rx_next_highest s; sz = um_rx_sn_field_length cfg in
     um_restart_needed e \<longleftrightarrow> um_mod_base sz nh (rx_next_reassembly s + 1) < um_mod_base sz nh nh)"
proof -
  have i: "rxu_inv e" "rxu_cfg e = cfg" using rx_um_reachable_inv [OF assms] by simp_all
  have "cm_get (rxu_window e) (um_rx_next_highest (rxu_st e)) = None"
    using i um_next_highest_dist [of "rxu_sz e" "um_rx_next_highest (rxu_st e)"] by (fastforce simp: rxu_inv_def Let_def)
  then show ?thesis using i(2) by (simp add: um_restart_needed_def um_has_gap_at_def Let_def cm_contains_get)
qed

definition um_first_example :: bytes where "um_first_example = [0x43, 1, 2]"

text \<open>The first segment of SN 3.\<close>

definition rx_um_example1 :: rlc_rx_um_entity where
  "rx_um_example1 = fst (the (rx_um_handle_pdu True um_first_example rx_um_example))"

lemma um_first_ok: "um_peer_ok e um_first_example" if "rxu_cfg e = um_cfg_example"
  using that by (simp add: um_peer_ok_def um_first_example_def um_cfg_example_def rlc_um_read_data_pdu_header_def um_read_so_def
      si_of_bits_def Let_def)

lemma rx_um_pdu_reachable:
  assumes r: "rx_um_reachable cfg e" and t: "0 < um_t_reassembly cfg" and ok: "um_peer_ok e buf"
  shows "rx_um_reachable cfg (fst (the (rx_um_handle_pdu True buf e)))"
proof -
  have i: "rxu_inv e" "rxu_cfg e = cfg" using rx_um_reachable_inv [OF r t] by simp_all
  obtain e' evs where e: "rx_um_handle_pdu True buf e = Some (e', evs)"
    using rx_um_handle_pdu_inv [OF i(1) _ ok, of True] i(2) t by auto
  then show ?thesis using stepped [OF r pdu [OF ok e]] by simp
qed

lemma um_cfg_example_timer: "0 < um_t_reassembly um_cfg_example" by (simp add: um_cfg_example_def)

lemma rx_um_example1_reachable: "rx_um_reachable um_cfg_example rx_um_example1"
  unfolding rx_um_example1_def
  by (rule rx_um_pdu_reachable [OF rx_um_example_reachable um_cfg_example_timer um_first_ok]) (simp add: rx_um_example_def um_cfg_example_def rx_um_create_def cm_create_def)

lemma rx_um_window_invariant_witness:
  "rx_um_handle_pdu True um_first_example rx_um_example1 \<noteq> None \<and> has_sn (rxu_window rx_um_example1) 3"
proof -
  have "rxu_cfg rx_um_example1 = um_cfg_example" "has_sn (rxu_window rx_um_example1) 3" by code_simp+
  then show ?thesis
    using rx_um_window_invariant [OF rx_um_example1_reachable _ um_first_ok] by (simp add: um_cfg_example_def)
qed

text \<open>A segment of SN 0 was lost: there is a gap, and the timer does not run.\<close>

definition rx_um_gap1 :: rlc_rx_um_entity where "rx_um_gap1 = fst (the (rx_um_handle_pdu True [0x40, 1, 2] rx_um_example))"

definition rx_um_gap2 :: rlc_rx_um_entity where "rx_um_gap2 = fst (the (rx_um_handle_pdu True [0xc0, 0, 5, 9] rx_um_gap1))"

lemma rx_um_gap_reachable: "rx_um_reachable um_cfg_example rx_um_gap2"
proof -
  have ok: "um_peer_ok rx_um_example [0x40, 1, 2]" "um_peer_ok rx_um_gap1 [0xc0, 0, 5, 9]" by code_simp+
  have "rx_um_reachable um_cfg_example rx_um_gap1"
    unfolding rx_um_gap1_def by (rule rx_um_pdu_reachable [OF rx_um_example_reachable um_cfg_example_timer ok(1)])
  then show ?thesis unfolding rx_um_gap2_def by (rule rx_um_pdu_reachable [OF _ um_cfg_example_timer ok(2)])
qed

lemma um_gap_test_never_holds_witness:
  "um_has_gap_at (rxu_window rx_um_gap2) (rx_next_reassembly (rxu_st rx_um_gap2)) \<and> \<not> um_restart_needed rx_um_gap2"
proof -
  have v: "um_has_gap_at (rxu_window rx_um_gap2) (rx_next_reassembly (rxu_st rx_um_gap2))"
    "um_mod_base um_size6bits (um_rx_next_highest (rxu_st rx_um_gap2)) (rx_next_reassembly (rxu_st rx_um_gap2) + 1) =
     um_mod_base um_size6bits (um_rx_next_highest (rxu_st rx_um_gap2)) (um_rx_next_highest (rxu_st rx_um_gap2))" by code_simp+
  then show ?thesis using um_gap_test_never_holds [OF rx_um_gap_reachable] by (simp add: um_cfg_example_def Let_def)
qed

theorem rx_um_delivers_witness:
  "\<exists>e'. rx_um_handle_pdu True (rlc_um_write_data_pdu_header \<lparr>um_si = last_segment, um_sn_size = um_size6bits, um_sn = 3, um_so = 2\<rparr> @ [9])
     rx_um_example1 = Some (e', [Um_on_new_sdu [1, 2, 9]])"
proof (rule rx_um_delivers [OF rx_um_example1_reachable])
  have s: "um_segs (rxu_window rx_um_example1) 3 = [\<lparr>seg_si = first_segment, seg_so = 0, seg_payload = [1, 2]\<rparr>]"
    "\<not> sn_invalid_for_rx_buffer rx_um_example1 3" by code_simp+
  have d: "{0..<Suc (Suc (Suc 0))} \<subseteq> {2..<3} \<union> {0..<Suc (Suc 0)}" by auto
  show "um_completes rx_um_example1 \<lparr>um_si = last_segment, um_sn_size = um_size6bits, um_sn = 3, um_so = 2\<rparr> [9] [1, 2, 9]"
    using s d by (simp add: um_completes_def um_segment_of_def seg_ok_def seg_dom_def Let_def)
qed (simp_all add: um_header_ok_def um_cfg_example_def push_bit_eq_mult)

end
