(* ===== verification/Rlc_Um_Link.thy ===== *)
theory Rlc_Um_Link
  imports Rlc_Tx_Um_Inv Rlc_Rx_Um_Inv
begin

text \<open>
  A UM link: the transmitting side of \<open>Rlc_Tx_Um\<close>, a MAC that gives grants and carries every PDU over in order, and the
  receiving side of \<open>Rlc_Rx_Um\<close>.  Segments come in order, so at most one SDU is in the reception buffer, the
  t-Reassembly timer is never started and the SDUs come out in the order in which they were accepted.
\<close>

section \<open>The receiver in step with the transmitter\<close>

text \<open>The receiver expects the SN \<open>x\<close>, of whose SDU it has the first \<open>so\<close> bytes.\<close>

definition link_rx :: "u32 \<Rightarrow> nat \<Rightarrow> bytes \<Rightarrow> rlc_rx_um_entity \<Rightarrow> bool" where
  "link_rx x so sdu e \<longleftrightarrow> rxu_inv e \<and> 0 < um_t_reassembly (rxu_cfg e) \<and> \<not> rxu_timer e \<and> rx_next_reassembly (rxu_st e) = x \<and>
     um_rx_next_highest (rxu_st e) = (if so = 0 then x else sn_next (um_mod (rxu_sz e)) x) \<and>
     (\<forall>k. k \<noteq> x \<longrightarrow> cm_get (rxu_window e) k = None) \<and> (so = 0 \<longrightarrow> cm_get (rxu_window e) x = None) \<and>
     segs_ok (seg_ok sdu) 0 (um_segs (rxu_window e) x) \<and> segs_dom (um_segs (rxu_window e) x) = {0..<so}"

lemma link_rx_fresh:
  assumes "rxu_inv e" "0 < um_t_reassembly (rxu_cfg e)" "\<not> rxu_timer e" "rx_next_reassembly (rxu_st e) = x"
    "um_rx_next_highest (rxu_st e) = x" "\<forall>k. cm_get (rxu_window e) k = None"
  shows "link_rx x 0 sdu e"
  using assms by (simp add: link_rx_def um_segs_def)

lemma um_d_self: "um_d sz nh nh = um_w sz"
  by (rule um_next_highest_dist)

lemma um_d_before: "x < um_mod sz \<Longrightarrow> um_d sz (sn_next (um_mod sz) x) x = um_w sz - 1"
proof -
  assume x: "x < um_mod sz"
  have "um_d sz (sn_next (um_mod sz) x) (sn_next (um_mod sz) x) = (um_d sz (sn_next (um_mod sz) x) x + 1) mod (2 * um_w sz)"
    by (rule um_d_next)
  then have "um_w sz = (um_d sz (sn_next (um_mod sz) x) x + 1) mod (2 * um_w sz)" unfolding um_d_self .
  moreover have "um_d sz (sn_next (um_mod sz) x) x + 1 < 2 * um_w sz \<or> um_d sz (sn_next (um_mod sz) x) x + 1 = 2 * um_w sz"
    using um_d_bounds(2) [of sz "sn_next (um_mod sz) x" x] by linarith
  moreover have "0 \<le> um_d sz (sn_next (um_mod sz) x) x" "0 < um_w sz" by (rule um_d_bounds(1), rule um_w_pos)
  ultimately show ?thesis by (smt (verit) mod_pos_pos_trivial mod_self)
qed

lemma um_base_mod: "um_mod_base sz nh (y + 1) = um_mod_base sz nh (sn_next (um_mod sz) y)"
proof -
  have "uint (um_mod_base sz nh (y + 1)) = uint (um_mod_base sz nh (sn_next (um_mod sz) y))"
    unfolding um_mod_base_dist um_sn.uint_sn_dist um_sn.uint_sn_next
    using uint_plus_mod [of y 1 sz] by (simp add: mod_simps) (metis mod_diff_left_eq)
  then show ?thesis by (simp add: word_uint_eq_iff)
qed

lemma link_no_restart:
  assumes "um_rx_next_highest (rxu_st e) = rx_next_reassembly (rxu_st e) \<or>
      (um_rx_next_highest (rxu_st e) = sn_next (um_mod (rxu_sz e)) (rx_next_reassembly (rxu_st e)) \<and>
       cm_get (rxu_window e) (um_rx_next_highest (rxu_st e)) = None)"
  shows "\<not> um_restart_needed e"
proof -
  define sz where "sz = rxu_sz e"
  define nh where "nh = um_rx_next_highest (rxu_st e)"
  define r where "r = rx_next_reassembly (rxu_st e)"
  from assms consider "nh = r" | "nh = sn_next (um_mod sz) r" "cm_get (rxu_window e) nh = None"
    by (auto simp: nh_def r_def sz_def)
  then show ?thesis
  proof cases
    case 1
    have w: "1 < um_w sz" by (cases sz) simp_all
    have "um_d sz r (sn_next (um_mod sz) r) = um_w sz + 1" using w unfolding um_d_next um_d_self by simp
    then show ?thesis using 1 w um_d_self [of sz r]
      by (simp add: um_restart_needed_def Let_def um_base_mod sz_def [symmetric] nh_def [symmetric] r_def [symmetric] word_less_def)
        (metis add_cancel_left_right zero_neq_one)
  next
    case 2
    then show ?thesis
      by (simp add: um_restart_needed_def Let_def um_base_mod sz_def [symmetric] nh_def [symmetric] r_def [symmetric] um_has_gap_at_def)
  qed
qed

section \<open>One PDU\<close>

lemma um_pdu_header:
  assumes p: "um_pdu_of sz x sdu so payload pdu" and l: "length sdu \<le> 65535" and x: "x < um_mod sz"
  shows "\<exists>h. pdu = rlc_um_write_data_pdu_header h @ payload \<and> um_header_ok h \<and> um_sn_size h = sz \<and> ucast (um_sn h) = x \<and>
    unat (um_so h) = so \<and> um_si h = um_segment_si so (length payload) (length sdu)"
proof -
  let ?h = "um_hdr_of sz x sdu so (length payload)"
  have pl: "payload \<noteq> []" "so + length payload \<le> length sdu" "pdu = rlc_um_write_data_pdu_header ?h @ payload"
    using p by (simp_all add: um_pdu_of_def)
  have so: "so < 65535" using pl(1,2) l by (cases payload) simp_all
  have u: "unat (of_nat so :: u16) = so" using so by (simp add: unat_of_nat take_bit_nat_eq_self)
  have so0: "(of_nat so :: u16) = 0 \<longleftrightarrow> so = 0" by (rule um_so16(2)) (use so in simp)
  have xs: "unat x < 2 ^ um_to_number sz" using x by (cases sz) (simp_all add: word_less_nat_alt)
  have xu: "unat (ucast x :: u16) = unat x" using xs by (cases sz) (simp_all add: unsigned_ucast_eq take_bit_nat_eq_self)
  have sn: "(ucast (ucast x :: u16) :: u32) = x"
    using xu by (simp add: word_unat_eq_iff unsigned_ucast_eq) (metis take_bit_nat_eq_self unsigned_take_bit_eq unsigned_less)
  have "(ucast x :: u16) < push_bit (um_to_number sz) 1"
    using xs xu by (cases sz) (simp_all add: word_less_nat_alt push_bit_eq_mult)
  then have "um_header_ok ?h" using so0 by (auto simp: um_header_ok_def um_hdr_of_def um_segment_si_def)
  then show ?thesis using pl(3) sn u by (intro exI [of _ ?h]) (simp add: um_hdr_of_def)
qed

lemma um_segment_seg_ok:
  assumes p: "um_pdu_of sz x sdu so payload pdu" and l: "length sdu \<le> 65535"
    and h: "unat (um_so h) = so" "um_si h = um_segment_si so (length payload) (length sdu)" and f: "um_si h \<noteq> full_sdu"
  shows "seg_ok sdu (um_segment_of h payload)" "seg_dom (um_segment_of h payload) = {so..<so + length payload}"
proof -
  have pl: "payload \<noteq> []" "so + length payload \<le> length sdu" "payload = take (length payload) (drop so sdu)"
    using p unfolding um_pdu_of_def by blast+
  have si: "um_si h = last_segment \<longleftrightarrow> so + length payload = length sdu"
    using h(2) f by (auto simp: um_segment_si_def split: if_splits)
  show "seg_ok sdu (um_segment_of h payload)" using pl l h(1) si
    by (simp add: seg_ok_def um_segment_of_def)
  show "seg_dom (um_segment_of h payload) = {so..<so + length payload}" using h(1) by (simp add: seg_dom_def um_segment_of_def)
qed

text \<open>What the receiver stores for a segment, before it looks at the window.\<close>

lemma link_segment:
  assumes L: "link_rx x so sdu e" and sz: "rxu_sz e = sz" and x: "x < um_mod sz" and l: "length sdu \<le> 65535"
    and p: "um_pdu_of sz x sdu so payload pdu" and seg: "so \<noteq> 0 \<or> length payload \<noteq> length sdu"
  shows "\<exists>w e2 e' i. rx_um_handle_pdu True pdu e = Some (e', snd (um_place_pdu True x (e\<lparr>rxu_window := w\<rparr>))) \<and>
      cm_get w x = Some i \<and> (\<forall>k. k \<noteq> x \<longrightarrow> cm_get w k = None) \<and> cm_wf w \<and> cm_max_size w = um_window_size sz \<and>
      e2 = fst (um_place_pdu True x (e\<lparr>rxu_window := w\<rparr>)) \<and> rxu_inv e' \<and> rxu_cfg e' = rxu_cfg e \<and> rxu_window e' = rxu_window e2 \<and>
      um_rx_next_highest (rxu_st e') = um_rx_next_highest (rxu_st e2) \<and> rx_next_reassembly (rxu_st e') = rx_next_reassembly (rxu_st e2) \<and>
      (\<not> rxu_timer e2 \<and> \<not> um_restart_needed e2 \<longrightarrow> \<not> rxu_timer e') \<and>
      segs_ok (seg_ok sdu) 0 (um_segments i) \<and> segs_dom (um_segments i) = {0..<so + length payload} \<and>
      (um_fully_received i \<longleftrightarrow> so + length payload = length sdu) \<and>
      (so + length payload = length sdu \<longrightarrow> um_reassemble_sdu True i = Some sdu)"
proof -
  have inv: "rxu_inv e" and t: "0 < um_t_reassembly (rxu_cfg e)" and r: "rx_next_reassembly (rxu_st e) = x"
    and keys: "\<forall>k. k \<noteq> x \<longrightarrow> cm_get (rxu_window e) k = None"
    and segs: "segs_ok (seg_ok sdu) 0 (um_segs (rxu_window e) x)" "segs_dom (um_segs (rxu_window e) x) = {0..<so}"
    using L by (simp_all add: link_rx_def)
  have pl: "payload \<noteq> []" "so + length payload \<le> length sdu" using p by (simp_all add: um_pdu_of_def)
  obtain h where h: "pdu = rlc_um_write_data_pdu_header h @ payload" "um_header_ok h" "um_sn_size h = sz" "ucast (um_sn h) = x"
    "unat (um_so h) = so" "um_si h = um_segment_si so (length payload) (length sdu)"
    using um_pdu_header [OF p l x] by blast
  have nf: "um_si h \<noteq> full_sdu" "\<not> (um_si h = last_segment \<and> um_so h = 0)"
    using h(5,6) seg by (auto simp: um_segment_si_def split: if_splits)
  define sg where "sg = um_segment_of h payload"
  note sg = um_segment_seg_ok [OF p l h(5,6) nf(1), folded sg_def]
  have wi: "um_wire h = h" using nf(1) by (simp add: um_wire_def)
  have rd: "rlc_um_read_data_pdu_header pdu (rxu_sz e) = Some h" "length (rlc_um_write_data_pdu_header h) = rlc_um_nr_packed_length h"
    using um_read_written [OF h(2), of payload] h(1,3) sz wi by simp_all
  have len: "rlc_um_nr_packed_length h < length pdu" using pl h(1) rd(2) by simp
  have dr: "drop (rlc_um_nr_packed_length h) pdu = payload" using h(1) rd(2) by simp
  have valid: "\<not> sn_invalid_for_rx_buffer e (ucast (um_sn h))" using r h(4) by (simp add: sn_invalid_for_rx_buffer_def Let_def)
  define i where "i = um_stored (rxu_window e) x sg"
  obtain w e2 e' where w: "rx_um_handle_pdu True pdu e = Some (e', snd (um_place_pdu True x (e\<lparr>rxu_window := w\<rparr>)))"
      "cm_get w x = Some i" "\<forall>k. k \<noteq> x \<and> cm_get w k \<noteq> None \<longrightarrow> cm_get w k = cm_get (rxu_window e) k"
      "e2 = fst (um_place_pdu True x (e\<lparr>rxu_window := w\<rparr>))" "cm_wf w" "cm_max_size w = um_window_size (rxu_sz e)"
      "rxu_inv e'" "rxu_cfg e' = rxu_cfg e" "rxu_window e' = rxu_window e2"
      "um_rx_next_highest (rxu_st e') = um_rx_next_highest (rxu_st e2)" "rx_next_reassembly (rxu_st e') = rx_next_reassembly (rxu_st e2)"
      "\<not> rxu_timer e2 \<and> \<not> um_restart_needed e2 \<longrightarrow> \<not> rxu_timer e'"
    using rx_um_handle_segment_pdu [OF inv t rd(1) len nf valid, of True] unfolding h(4) dr sg_def [symmetric] i_def by blast
  have wk: "\<forall>k. k \<noteq> x \<longrightarrow> cm_get w k = None" using w(3) keys by metis
  have st: "info_ok sdu (am_info i)" "segs_dom (um_segments i) = {0..<so + length payload}"
    using um_stored_ok [OF segs(1) sg(1)] segs(2) sg(2) by (auto simp: i_def)
  then have full: "segs_ok (seg_ok sdu) 0 (um_segments i)" "um_fully_received i \<longleftrightarrow> so + length payload = length sdu"
    using pl by (auto simp: info_ok_def am_info_def segments_of_def Let_def)
  have "um_reassemble_sdu True i = Some sdu" if "so + length payload = length sdu"
    unfolding i_def by (rule um_stored_complete(2) [OF segs(1) sg(1)]) (use segs(2) sg(2) that in auto)
  then show ?thesis using w(1,2,4-12) wk full st(2) sz by (intro exI [of _ w] exI [of _ e2] exI [of _ e'] exI [of _ i]) simp
qed

lemma um_next_neq: "x < um_mod sz \<Longrightarrow> sn_next (um_mod sz) x \<noteq> x"
  using um_d_before [of x sz] um_d_self [of sz x] by force

text \<open>A segment that does not complete its SDU.\<close>

lemma link_more:
  assumes L: "link_rx x so sdu e" and sz: "rxu_sz e = sz" and x: "x < um_mod sz" and l: "length sdu \<le> 65535"
    and p: "um_pdu_of sz x sdu so payload pdu" and more: "so + length payload < length sdu"
  shows "\<exists>e'. rx_um_handle_pdu True pdu e = Some (e', []) \<and> rxu_cfg e' = rxu_cfg e \<and> link_rx x (so + length payload) sdu e'"
proof -
  have inv: "rxu_inv e" and t: "0 < um_t_reassembly (rxu_cfg e)" and r: "rx_next_reassembly (rxu_st e) = x"
    and nt: "\<not> rxu_timer e" and keys: "\<forall>k. k \<noteq> x \<longrightarrow> cm_get (rxu_window e) k = None"
    and segs: "segs_ok (seg_ok sdu) 0 (um_segs (rxu_window e) x)" "segs_dom (um_segs (rxu_window e) x) = {0..<so}"
    and nh: "um_rx_next_highest (rxu_st e) = (if so = 0 then x else sn_next (um_mod sz) x)"
    using L sz by (simp_all add: link_rx_def)
  have pl: "payload \<noteq> []" using p by (simp add: um_pdu_of_def)
  obtain w e2 e' i where w: "rx_um_handle_pdu True pdu e = Some (e', snd (um_place_pdu True x (e\<lparr>rxu_window := w\<rparr>)))"
      "cm_get w x = Some i" "\<forall>k. k \<noteq> x \<longrightarrow> cm_get w k = None" "cm_wf w" "cm_max_size w = um_window_size sz"
      "e2 = fst (um_place_pdu True x (e\<lparr>rxu_window := w\<rparr>))" "rxu_inv e'" "rxu_cfg e' = rxu_cfg e" "rxu_window e' = rxu_window e2"
      "um_rx_next_highest (rxu_st e') = um_rx_next_highest (rxu_st e2)" "rx_next_reassembly (rxu_st e') = rx_next_reassembly (rxu_st e2)"
      "\<not> rxu_timer e2 \<and> \<not> um_restart_needed e2 \<longrightarrow> \<not> rxu_timer e'"
    and st: "segs_ok (seg_ok sdu) 0 (um_segments i)" "segs_dom (um_segments i) = {0..<so + length payload}" and nfull: "\<not> um_fully_received i"
    using link_segment [OF L sz x l p] more by (auto simp del: um_next_highest_dist)
  have wk: "cm_get w k = None" if "k \<noteq> x" for k using w(3) that by blast
  let ?e = "e\<lparr>rxu_window := w\<rparr>"
  have e2: "rx_next_reassembly (rxu_st e2) = x \<and> um_rx_next_highest (rxu_st e2) = sn_next (um_mod sz) x \<and>
    rxu_timer e2 = rxu_timer e \<and> rxu_cfg e2 = rxu_cfg e \<and> cm_get (rxu_window e2) x = cm_get w x \<and> (\<forall>k. k \<noteq> x \<longrightarrow> cm_get (rxu_window e2) k = None)"
  proof (cases "so = 0")
    case True
    have out: "um_w sz \<le> um_d sz x x" using um_d_self by simp
    then have p2: "e2 = um_move_window x ?e" unfolding w(6)
      using w(2) nfull nh True sz by (simp add: um_place_pdu_def Let_def in_window_dist del: um_next_highest_dist)
    have M: "rxu_inv (um_move_window x ?e) \<and> cm_get (rxu_window (um_move_window x ?e)) x = cm_get (rxu_window ?e) x \<and>
      rxu_cfg (um_move_window x ?e) = rxu_cfg ?e \<and> rxu_timer (um_move_window x ?e) = rxu_timer ?e \<and>
      um_rx_next_highest (rxu_st (um_move_window x ?e)) = sn_next (um_mod (rxu_sz ?e)) x \<and>
      (\<forall>k. cm_get (rxu_window (um_move_window x ?e)) k \<noteq> None \<longrightarrow> cm_get (rxu_window ?e) k \<noteq> None) \<and>
      (rx_next_reassembly (rxu_st ?e) = x \<and> cm_get (rxu_window ?e) x \<noteq> None \<longrightarrow> rx_next_reassembly (rxu_st (um_move_window x ?e)) = x)"
    proof (rule um_move_window_ok)
      show "um_w (rxu_sz ?e) \<le> um_d (rxu_sz ?e) (um_rx_next_highest (rxu_st ?e)) x"
        and "um_d (rxu_sz ?e) (um_rx_next_highest (rxu_st ?e)) (rx_next_reassembly (rxu_st ?e)) \<le> um_w (rxu_sz ?e)"
        using out um_d_self [of sz x] sz nh True r by simp_all
      show "\<not> um_fully_received_at (rxu_window ?e) x" using w(2) nfull by (simp add: um_fully_received_at_def)
      show "k = x \<or> (k < um_mod (rxu_sz ?e) \<and> um_d (rxu_sz ?e) (um_rx_next_highest (rxu_st ?e)) (rx_next_reassembly (rxu_st ?e)) \<le>
          um_d (rxu_sz ?e) (um_rx_next_highest (rxu_st ?e)) k \<and> um_d (rxu_sz ?e) (um_rx_next_highest (rxu_st ?e)) k < um_w (rxu_sz ?e))"
        if "cm_get (rxu_window ?e) k \<noteq> None" for k using that wk [of k] by (cases "k = x") simp_all
    qed (use r x sz w(4,5) in simp_all)
    have "\<forall>k. k \<noteq> x \<longrightarrow> cm_get (rxu_window e2) k = None" using M wk unfolding p2 by (metis rlc_rx_um_entity.select_convs(3) rlc_rx_um_entity.surjective rlc_rx_um_entity.update_convs(3))
    then show ?thesis using M r w(2) sz unfolding p2 by simp
  next
    case False
    have "sn_in_reassembly_window sz (sn_next (um_mod sz) x) x" using um_d_before [OF x] by (simp add: in_window_dist)
    then have "e2 = ?e" unfolding w(6) using w(2) nfull nh False sz by (simp add: um_place_pdu_def Let_def)
    then show ?thesis using r nh False wk by simp
  qed
  have ev: "snd (um_place_pdu True x ?e) = []" using w(2) nfull by (simp add: um_place_pdu_def)
  have x1: "sn_next (um_mod sz) x \<noteq> x" by (rule um_next_neq [OF x])
  have "\<not> um_restart_needed e2" by (rule link_no_restart) (use e2 x1 sz in simp)
  then have nt': "\<not> rxu_timer e'" using w(12) e2 nt by simp
  have "link_rx x (so + length payload) sdu e'"
    using w(7-11) e2 nt' t sz pl st w(2) by (simp add: link_rx_def um_segs_def)
  then show ?thesis using w(1,8) ev by simp
qed

text \<open>The last segment of an SDU.\<close>

lemma link_last:
  assumes L: "link_rx x so sdu e" and sz: "rxu_sz e = sz" and x: "x < um_mod sz" and l: "length sdu \<le> 65535"
    and p: "um_pdu_of sz x sdu so payload pdu" and so: "0 < so" and last: "so + length payload = length sdu"
  shows "\<exists>e'. rx_um_handle_pdu True pdu e = Some (e', [Um_on_new_sdu sdu]) \<and> rxu_cfg e' = rxu_cfg e \<and>
    link_rx (sn_next (um_mod sz) x) 0 sdu' e'"
proof -
  have t: "0 < um_t_reassembly (rxu_cfg e)" and r: "rx_next_reassembly (rxu_st e) = x" and nt: "\<not> rxu_timer e"
    and nh: "um_rx_next_highest (rxu_st e) = sn_next (um_mod sz) x"
    using L sz so by (simp_all add: link_rx_def)
  obtain w e2 e' i where w: "rx_um_handle_pdu True pdu e = Some (e', snd (um_place_pdu True x (e\<lparr>rxu_window := w\<rparr>)))"
      "cm_get w x = Some i" "\<forall>k. k \<noteq> x \<longrightarrow> cm_get w k = None" "cm_wf w" "cm_max_size w = um_window_size sz"
      "e2 = fst (um_place_pdu True x (e\<lparr>rxu_window := w\<rparr>))" "rxu_inv e'" "rxu_cfg e' = rxu_cfg e" "rxu_window e' = rxu_window e2"
      "um_rx_next_highest (rxu_st e') = um_rx_next_highest (rxu_st e2)" "rx_next_reassembly (rxu_st e') = rx_next_reassembly (rxu_st e2)"
      "\<not> rxu_timer e2 \<and> \<not> um_restart_needed e2 \<longrightarrow> \<not> rxu_timer e'"
    and full: "um_fully_received i" "um_reassemble_sdu True i = Some sdu"
    using link_segment [OF L sz x l p] so last by (auto simp del: um_next_highest_dist)
  define n where "n = sn_next (um_mod sz) x"
  define w1 where "w1 = cm_modify w x (\<lambda>i. i\<lparr>um_segments := []\<rparr>)"
  have w1: "cm_wf w1" "um_fully_received_at w1 x" "\<And>k. k \<noteq> x \<Longrightarrow> cm_get w1 k = None"
    using w(2-4) full(1) by (auto simp: w1_def cm_wf_modify cm_get_modify um_fully_received_at_def)
  have rm: "x mod um_mod sz = x" using x by (simp add: word_less_def word_uint_eq_iff uint_mod)
  obtain j w2 where sk: "um_skip_received sz n x w1 = (j, w2)" by (rule prod.exhaust)
  have dx: "um_d sz n x = um_w sz - 1" unfolding n_def by (rule um_d_before [OF x])
  have S: "j < um_mod sz \<and> um_d sz n x \<le> um_d sz n j \<and> um_d sz n j \<le> um_w sz \<and> cm_wf w2 \<and> cm_max_size w2 = cm_max_size w1 \<and>
    (\<forall>k. cm_get w2 k \<noteq> None \<longrightarrow> k < um_mod sz \<and> um_d sz n j \<le> um_d sz n k \<and> um_d sz n k < um_w sz) \<and>
    \<not> um_fully_received_at w2 j \<and> (\<forall>k. \<not> um_fully_received_at w1 k \<longrightarrow> cm_get w2 k = cm_get w1 k) \<and>
    (\<forall>k. cm_get w2 k = (if k < um_mod sz \<and> um_d sz n x \<le> um_d sz n k \<and> um_d sz n k < um_d sz n j then None else cm_get w1 k))"
  proof (rule um_skip_ok [OF sk x _ w1(1)])
    show "um_d sz n x \<le> um_w sz" using dx by simp
    show "k < um_mod sz \<and> um_d sz n x \<le> um_d sz n k \<and> um_d sz n k < um_w sz" if "cm_get w1 k \<noteq> None" for k
      using that w1(3) [of k] x dx by (cases "k = x") simp_all
  qed
  then have j: "j < um_mod sz" "um_d sz n x \<le> um_d sz n j" "um_d sz n j \<le> um_w sz" "\<not> um_fully_received_at w2 j"
    and get: "cm_get w2 k = (if k < um_mod sz \<and> um_d sz n x \<le> um_d sz n k \<and> um_d sz n k < um_d sz n j then None else cm_get w1 k)" for k
    by blast+
  have jn: "j = n"
  proof (rule um_d_inj [OF j(1)])
    show "n < um_mod sz" unfolding n_def by (rule um_sn.next_less)
    have "j \<noteq> x"
    proof
      assume "j = x"
      then have "cm_get w2 x = cm_get w1 x" using get [of x] by simp
      then show False using j(4) w1(2) \<open>j = x\<close> by (simp add: um_fully_received_at_def)
    qed
    then have "um_d sz n j \<noteq> um_d sz n x" using um_d_inj [OF j(1) x] by blast
    then show "um_d sz n j = um_d sz n n" using j(2,3) dx um_d_self [of sz n] by linarith
  qed
  have empty: "cm_get w2 k = None" for k
    using get [of k] w1(3) [of k] x dx um_d_self [of sz n] unfolding jn by (cases "k = x") simp_all
  have e2: "e2 = e\<lparr>rxu_window := w2, rxu_st := (rxu_st e)\<lparr>rx_next_reassembly := n\<rparr>\<rparr>" unfolding w(6)
    using w(2) full(1) r nh sz sk rm jn by (simp add: um_place_pdu_def Let_def w1_def n_def)
  have ev: "snd (um_place_pdu True x (e\<lparr>rxu_window := w\<rparr>)) = [Um_on_new_sdu sdu]"
    by (rule um_place_delivers [OF w(2) full])
  have "\<not> um_restart_needed e2" by (rule link_no_restart) (use e2 nh n_def in simp)
  then have "\<not> rxu_timer e'" using w(12) e2 nt by simp
  then have "link_rx n 0 sdu' e'"
    by (intro link_rx_fresh) (use w(7-11) e2 t nh empty n_def in simp_all)
  then show ?thesis using w(1,8) ev n_def by simp
qed

text \<open>Whatever the PDU carries.\<close>

lemma link_pdu:
  assumes L: "link_rx x so sdu e" and sz: "rxu_sz e = sz" and x: "x < um_mod sz" and l: "length sdu \<le> 65535"
    and p: "um_pdu_of sz x sdu so payload pdu"
  shows "\<exists>e'. rx_um_handle_pdu True pdu e = Some (e', if so + length payload = length sdu then [Um_on_new_sdu sdu] else []) \<and>
    rxu_cfg e' = rxu_cfg e \<and>
    (if so + length payload = length sdu then link_rx (if so = 0 then x else sn_next (um_mod sz) x) 0 sdu' e'
     else link_rx x (so + length payload) sdu e')"
proof (cases "so + length payload = length sdu")
  case False
  then have "so + length payload < length sdu" using p by (simp add: um_pdu_of_def)
  then show ?thesis using link_more [OF L sz x l p] False by simp
next
  case True
  show ?thesis
  proof (cases "so = 0")
    case False
    then show ?thesis using link_last [OF L sz x l p _ True] True by simp
  next
    case so: True
    have pl: "payload \<noteq> []" "payload = sdu" using p so True by (auto simp: um_pdu_of_def)
    obtain h where h: "pdu = rlc_um_write_data_pdu_header h @ payload" "um_header_ok h" "um_sn_size h = sz"
      "um_si h = um_segment_si so (length payload) (length sdu)"
      using um_pdu_header [OF p l x] by blast
    have f: "um_si h = full_sdu" using h(4) so True by (simp add: um_segment_si_def)
    have "um_completes e h payload sdu" using f pl by (simp add: um_completes_def)
    have rd: "rlc_um_read_data_pdu_header pdu (rxu_sz e) = Some (um_wire h)"
      "length (rlc_um_write_data_pdu_header h) = rlc_um_nr_packed_length (um_wire h)"
      using um_read_written [OF h(2), of payload] h(1,3) sz by simp_all
    have "um_si (um_wire h) = full_sdu" using f by (simp add: um_wire_def)
    then have "rx_um_handle_pdu True pdu e = Some (e, [Um_on_new_sdu sdu])"
      unfolding rx_um_handle_pdu_def rd(1) using rd(2) h(1) pl by (simp add: Let_def)
    moreover have "link_rx x 0 sdu' e" using L so unfolding link_rx_def by (auto simp: um_segs_def)
    ultimately show ?thesis using so True by simp
  qed
qed

section \<open>Runs\<close>

datatype um_link_op = Link_sdu int bytes | Link_discard u32 | Link_grant nat

type_synonym um_link = "rlc_tx_um_entity \<times> rlc_rx_um_entity"

fun um_delivered :: "rx_um_event \<Rightarrow> bytes" where "um_delivered (Um_on_new_sdu sdu) = sdu"

text \<open>One operation, and the SDUs the receiver delivers in it.\<close>

fun um_link_step :: "um_link_op \<Rightarrow> um_link \<Rightarrow> (um_link \<times> bytes list) option" where
  "um_link_step (Link_sdu now buf) (tx, rx) = Some ((fst (tx_um_handle_sdu now buf False tx), rx), [])"
| "um_link_step (Link_discard sn) (tx, rx) = Some ((fst (tx_um_discard_sdu sn tx), rx), [])"
| "um_link_step (Link_grant g) (tx, rx) =
     do {
       (tx1, _, pdu) \<leftarrow> tx_um_pull_pdu g tx;
       (if pdu = [] then Some ((tx1, rx), [])
        else do { (rx1, evs) \<leftarrow> rx_um_handle_pdu True pdu rx; Some ((tx1, rx1), map um_delivered evs) })
     }"

fun um_link_accepted :: "um_link_op \<Rightarrow> um_link \<Rightarrow> bytes list" where
  "um_link_accepted (Link_sdu now buf) (tx, rx) = (if um_accepts now buf tx \<and> buf \<noteq> [] then [buf] else [])"
| "um_link_accepted _ _ = []"

text \<open>The final state, the delivered SDUs and the accepted SDUs.\<close>

fun um_link_run :: "um_link_op list \<Rightarrow> um_link \<Rightarrow> (um_link \<times> bytes list \<times> bytes list) option" where
  "um_link_run [] link = Some (link, [], [])"
| "um_link_run (op # ops) link =
     do {
       (link1, ds) \<leftarrow> um_link_step op link;
       (link2, ds2, as2) \<leftarrow> um_link_run ops link1;
       Some (link2, ds @ ds2, um_link_accepted op link @ as2)
     }"

fun um_link_op_ok :: "um_link_op \<Rightarrow> bool" where
  "um_link_op_ok (Link_sdu now buf) \<longleftrightarrow> length buf \<le> 65535"
| "um_link_op_ok (Link_discard sn) \<longleftrightarrow> sn_ok sn"
| "um_link_op_ok (Link_grant g) \<longleftrightarrow> g < 2 ^ 32"

fun um_discards :: "um_link_op \<Rightarrow> bool" where
  "um_discards (Link_discard sn) \<longleftrightarrow> True"
| "um_discards _ \<longleftrightarrow> False"

definition link_ok :: "um_link \<Rightarrow> bool" where
  "link_ok link \<longleftrightarrow> (case link of (tx, rx) \<Rightarrow> txu_inv tx \<and> rxu_sz rx = txu_sz tx \<and>
     link_rx (txu_tx_next (txu_st tx)) (unat (txu_next_so tx)) (hd (txu_pending tx)) rx)"

lemma link_rx_none: "link_rx x 0 sdu e \<Longrightarrow> link_rx x 0 sdu' e"
  by (auto simp: link_rx_def um_segs_def)

lemma link_ok_keeps:
  assumes "link_ok (tx, rx)" "um_keeps tx tx'"
  shows "link_ok (tx', rx)"
proof (cases "txu_next_so tx = 0")
  case True
  have "link_rx (txu_tx_next (txu_st tx)) 0 (hd (txu_pending tx')) rx"
    by (rule link_rx_none [of _ "hd (txu_pending tx)"]) (use assms True in \<open>simp add: link_ok_def\<close>)
  then show ?thesis using assms True by (simp add: link_ok_def um_keeps_def)
next
  case False
  then have "sdu_buf (txu_sdu tx) \<noteq> []" using assms by (auto simp: link_ok_def txu_inv_def split: if_splits)
  then have "hd (txu_pending tx') = hd (txu_pending tx)" using assms(2) by (simp add: um_keeps_def txu_pending_def txu_current_def split: if_splits)
  then show ?thesis using assms by (simp add: link_ok_def um_keeps_def)
qed

lemma link_grant:
  assumes L: "link_ok (tx, rx)" and g: "g < 2 ^ 32"
  shows "\<exists>tx' rx' ds. um_link_step (Link_grant g) (tx, rx) = Some ((tx', rx'), ds) \<and> link_ok (tx', rx') \<and>
    ds @ txu_pending tx' = txu_pending tx \<and> txu_cfg tx' = txu_cfg tx \<and> txu_load tx' \<le> txu_load tx \<and>
    (um_head_len_not_first tx < g \<longrightarrow> txu_load tx' = 0 \<or> txu_load tx' < txu_load tx)"
proof -
  have inv: "txu_inv tx" and sz: "rxu_sz rx = txu_sz tx"
    and R: "link_rx (txu_tx_next (txu_st tx)) (unat (txu_next_so tx)) (hd (txu_pending tx)) rx"
    using L by (simp_all add: link_ok_def)
  obtain tx' evs pdu where p: "tx_um_pull_pdu g tx = Some (tx', evs, pdu)" "um_pulls g tx tx' pdu"
    using tx_um_pull_ok [OF inv g] by blast
  have load: "txu_cfg tx' = txu_cfg tx" "txu_inv tx'" "txu_load tx' \<le> txu_load tx"
    "um_head_len_not_first tx < g \<longrightarrow> txu_load tx' = 0 \<or> txu_load tx' < txu_load tx"
    using p(2) unfolding um_pulls_def by blast+
  show ?thesis
  proof (cases "pdu = []")
    case True
    then have k: "um_kept tx tx'" using p(2) unfolding um_pulls_def by blast
    then have "link_ok (tx', rx)" using R sz load(1,2) by (simp add: link_ok_def um_kept_def)
    then show ?thesis using p(1) True k load by (auto simp: um_kept_def)
  next
    case False
    then obtain sdu rest payload where s: "um_sent_from tx tx' pdu sdu rest payload" using p(2) unfolding um_pulls_def by blast
    have S: "txu_pending tx = sdu # rest" "length sdu \<le> 65535"
      "um_pdu_of (txu_sz tx) (txu_tx_next (txu_st tx)) sdu (unat (txu_next_so tx)) payload pdu"
      using s by (simp_all add: um_sent_from_def)
    have R': "link_rx (txu_tx_next (txu_st tx)) (unat (txu_next_so tx)) sdu rx" using R S(1) by simp
    have x: "txu_tx_next (txu_st tx) < txu_mod tx" using inv by (simp add: txu_inv_def)
    have so0: "txu_next_so tx = 0 \<longleftrightarrow> unat (txu_next_so tx) = 0" by (simp add: unsigned_eq_0_iff)
    obtain rx' where r: "rx_um_handle_pdu True pdu rx = Some (rx', if unat (txu_next_so tx) + length payload = length sdu then [Um_on_new_sdu sdu] else [])"
      "rxu_cfg rx' = rxu_cfg rx"
      "if unat (txu_next_so tx) + length payload = length sdu
       then link_rx (if unat (txu_next_so tx) = 0 then txu_tx_next (txu_st tx) else sn_next (txu_mod tx) (txu_tx_next (txu_st tx))) 0
         (hd (txu_pending tx')) rx'
       else link_rx (txu_tx_next (txu_st tx)) (unat (txu_next_so tx) + length payload) sdu rx'"
      using link_pdu [OF R' sz x S(2,3)] by blast
    have "link_ok (tx', rx')"
      using r(2,3) s sz load(1,2) unfolding um_sent_from_def so0 by (auto simp: link_ok_def split: if_splits)
    moreover have "map um_delivered (if unat (txu_next_so tx) + length payload = length sdu then [Um_on_new_sdu sdu] else []) @ txu_pending tx' =
        txu_pending tx"
      using s by (auto simp: um_sent_from_def split: if_splits)
    ultimately show ?thesis using p(1) r(1) False load by simp
  qed
qed

lemma link_step:
  assumes L: "link_ok (tx, rx)" and op: "um_link_op_ok op"
  shows "\<exists>tx' rx' ds. um_link_step op (tx, rx) = Some ((tx', rx'), ds) \<and> link_ok (tx', rx') \<and> txu_cfg tx' = txu_cfg tx \<and>
    subseq (ds @ txu_pending tx') (txu_pending tx @ um_link_accepted op (tx, rx)) \<and>
    (\<not> um_discards op \<longrightarrow> ds @ txu_pending tx' = txu_pending tx @ um_link_accepted op (tx, rx))"
proof (cases op)
  case (Link_sdu now buf)
  obtain tx' evs where h: "tx_um_handle_sdu now buf False tx = (tx', evs)" by (rule prod.exhaust)
  have H: "um_keeps tx tx'" "txu_backlog tx' = txu_backlog tx @ um_link_accepted op (tx, rx)"
    using tx_um_handle_sdu_ok [OF _ _ h] L op Link_sdu by (simp_all add: link_ok_def)
  then have "txu_pending tx' = txu_pending tx @ um_link_accepted op (tx, rx)" by (simp add: txu_pending_def um_keeps_def)
  then show ?thesis using h H(1) Link_sdu link_ok_keeps [OF L H(1)] by (simp add: um_keeps_def)
next
  case (Link_discard sn)
  obtain tx' evs where h: "tx_um_discard_sdu sn tx = (tx', evs)" by (rule prod.exhaust)
  have H: "um_keeps tx tx'" "subseq (txu_backlog tx') (txu_backlog tx)"
    using tx_um_discard_sdu_ok [OF _ _ h] L op Link_discard by (simp_all add: link_ok_def)
  then have "subseq (txu_pending tx') (txu_pending tx)"
    unfolding txu_pending_def by (intro list_emb_append_mono) (simp_all add: um_keeps_def)
  then show ?thesis using h H(1) Link_discard link_ok_keeps [OF L H(1)] by (simp add: um_keeps_def)
next
  case (Link_grant g)
  then show ?thesis using link_grant [OF L, of g] op by auto
qed

lemma link_run:
  assumes "link_ok (tx, rx)" "list_all um_link_op_ok ops"
  shows "\<exists>tx' rx' ds as. um_link_run ops (tx, rx) = Some ((tx', rx'), ds, as) \<and> link_ok (tx', rx') \<and> txu_cfg tx' = txu_cfg tx \<and>
    subseq (ds @ txu_pending tx') (txu_pending tx @ as) \<and>
    (\<not> list_ex um_discards ops \<longrightarrow> ds @ txu_pending tx' = txu_pending tx @ as)"
  using assms
proof (induction ops arbitrary: tx rx)
  case (Cons op ops)
  obtain tx1 rx1 ds1 where s: "um_link_step op (tx, rx) = Some ((tx1, rx1), ds1)" "link_ok (tx1, rx1)" "txu_cfg tx1 = txu_cfg tx"
    "subseq (ds1 @ txu_pending tx1) (txu_pending tx @ um_link_accepted op (tx, rx))"
    "\<not> um_discards op \<longrightarrow> ds1 @ txu_pending tx1 = txu_pending tx @ um_link_accepted op (tx, rx)"
    using link_step [OF Cons.prems(1), of op] Cons.prems(2) by auto
  obtain tx2 rx2 ds2 as2 where r: "um_link_run ops (tx1, rx1) = Some ((tx2, rx2), ds2, as2)" "link_ok (tx2, rx2)" "txu_cfg tx2 = txu_cfg tx1"
    "subseq (ds2 @ txu_pending tx2) (txu_pending tx1 @ as2)"
    "\<not> list_ex um_discards ops \<longrightarrow> ds2 @ txu_pending tx2 = txu_pending tx1 @ as2"
    using Cons.IH [OF s(2)] Cons.prems(2) by auto
  have "subseq ((ds1 @ ds2) @ txu_pending tx2) ((ds1 @ txu_pending tx1) @ as2)"
    unfolding append_assoc by (rule list_emb_append_mono [OF subseq_order.order_refl r(4)])
  moreover have "subseq ((ds1 @ txu_pending tx1) @ as2) ((txu_pending tx @ um_link_accepted op (tx, rx)) @ as2)"
    by (rule list_emb_append_mono [OF s(4) subseq_order.order_refl])
  ultimately have "subseq ((ds1 @ ds2) @ txu_pending tx2) (txu_pending tx @ um_link_accepted op (tx, rx) @ as2)"
    unfolding append_assoc by (rule subseq_order.order_trans)
  moreover have "(ds1 @ ds2) @ txu_pending tx2 = txu_pending tx @ um_link_accepted op (tx, rx) @ as2" if "\<not> list_ex um_discards (op # ops)"
  proof -
    have "(ds1 @ ds2) @ txu_pending tx2 = (ds1 @ txu_pending tx1) @ as2" using r(5) that by simp
    then show ?thesis using s(5) that by simp
  qed
  ultimately show ?case using s(1,3) r(1-3) by simp
qed simp

lemma link_created:
  assumes "tx_um_create m tcfg = Some tx" "rx_um_create rcfg = Some rx"
    "um_rx_sn_field_length rcfg = txu_sn_field_length tcfg" "0 < um_t_reassembly rcfg"
  shows "link_ok (tx, rx) \<and> txu_pending tx = []"
proof -
  have t: "txu_inv tx" "txu_cfg tx = tcfg" "txu_pending tx = []" "txu_next_so tx = 0" "txu_tx_next (txu_st tx) = 0"
    using tx_um_create_inv [OF assms(1)] by simp_all
  have r: "rxu_inv rx" "rxu_cfg rx = rcfg" using rx_um_create_inv [OF assms(2)] by simp_all
  obtain cm :: "rx_um_sdu_info circular_map" where cm: "cm_create (um_window_size (um_rx_sn_field_length rcfg)) = Some cm"
    "rx = \<lparr>rxu_cfg = rcfg, rxu_st = \<lparr>rx_next_reassembly = 0, rx_timer_trigger = 0, um_rx_next_highest = 0\<rparr>, rxu_window = cm, rxu_timer = False\<rparr>"
    using assms(2) by (auto simp: rx_um_create_def)
  have "window_size (um_to_number (um_rx_sn_field_length rcfg)) = 2 ^ (um_to_number (um_rx_sn_field_length rcfg) - 1)"
    "um_to_number (um_rx_sn_field_length rcfg) - 1 < 32"
    by (cases "um_rx_sn_field_length rcfg"; simp)+
  then have "\<forall>k. cm_get cm k = None"
    using cm_wf_create [of "um_to_number (um_rx_sn_field_length rcfg) - 1"] cm(1) by (metis option.inject)
  then have "link_rx 0 0 (hd []) rx" by (intro link_rx_fresh) (use r assms(4) cm(2) in simp_all)
  then show ?thesis using t r assms(3) by (simp add: link_ok_def)
qed

lemma link_drain:
  assumes "link_ok (tx, rx)" "list_all (\<lambda>g. rlc_um_pdu_header_size_with_so (txu_sz tx) < g \<and> g < 2 ^ 32) gs" "txu_load tx \<le> length gs"
  shows "\<exists>link. um_link_run (map Link_grant gs) (tx, rx) = Some (link, txu_pending tx, [])"
  using assms
proof (induction gs arbitrary: tx rx)
  case Nil
  have "txu_pending tx = []" using Nil by (auto simp: txu_load_def txu_pending_def txu_current_def txu_backlog_def link_ok_def txu_inv_def split: if_splits)
  then show ?case by simp
next
  case (Cons g gs)
  obtain tx1 rx1 ds where s: "um_link_step (Link_grant g) (tx, rx) = Some ((tx1, rx1), ds)" "link_ok (tx1, rx1)"
    "ds @ txu_pending tx1 = txu_pending tx" "txu_cfg tx1 = txu_cfg tx" "um_head_len_not_first tx < g \<longrightarrow> txu_load tx1 = 0 \<or> txu_load tx1 < txu_load tx"
    using link_grant [OF Cons.prems(1), of g] Cons.prems(2) by auto
  have "txu_load tx1 \<le> length gs" using s(5) Cons.prems(2,3) by auto
  then obtain link where "um_link_run (map Link_grant gs) (tx1, rx1) = Some (link, txu_pending tx1, [])"
    using Cons.IH [OF s(2)] Cons.prems(2) s(4) by auto
  then show ?case using s(1,3) by simp
qed

lemma um_link_run_append:
  "um_link_run ops link = Some (link1, ds, as) \<Longrightarrow> um_link_run ops2 link1 = Some (link2, ds2, as2) \<Longrightarrow>
   um_link_run (ops @ ops2) link = Some (link2, ds @ ds2, as @ as2)"
proof (induction ops arbitrary: link ds as)
  case (Cons op ops)
  obtain linkx dsx where x: "um_link_step op link = Some (linkx, dsx)" using Cons.prems(1) by (cases "um_link_step op link") auto
  obtain dsy asy where y: "um_link_run ops linkx = Some (link1, dsy, asy)" "ds = dsx @ dsy" "as = um_link_accepted op link @ asy"
    using Cons.prems(1) x by (cases "um_link_run ops linkx") auto
  show ?case using Cons.IH [OF y(1) Cons.prems(2)] x y(2,3) by simp
qed simp

section \<open>An example\<close>

definition um_link_example :: um_link where "um_link_example = (txu_example0, rx_um_example)"

definition um_ops_example :: "um_link_op list" where
  "um_ops_example = [Link_sdu 0 [0x80, 7, 5, 6], Link_grant 3, Link_sdu 1 [0x80, 8, 9], Link_grant 5]"

lemma um_link_example_created:
  "tx_um_create False txu_cfg_example = Some txu_example0" "rx_um_create um_cfg_example = Some rx_um_example"
  "um_rx_sn_field_length um_cfg_example = txu_sn_field_length txu_cfg_example" "0 < um_t_reassembly um_cfg_example"
  by (simp_all add: txu_example0_def tx_um_create_def txu_cfg_example_def rx_um_example_def um_cfg_example_def rx_um_create_def cm_create_def)

lemma um_ops_example_ok: "list_all um_link_op_ok um_ops_example" "\<not> list_ex um_discards um_ops_example"
  by (simp_all add: um_ops_example_def)

lemma um_link_example_run:
  "map_option (\<lambda>((tx, rx), ds, as). (ds, as, txu_pending tx, txu_load tx)) (um_link_run um_ops_example um_link_example) =
     Some ([[0x80, 7, 5, 6]], [[0x80, 7, 5, 6], [0x80, 8, 9]], [[0x80, 8, 9]], 4)"
  by code_simp

section \<open>Properties\<close>



text \<open>
  Property C17: a UM link delivers.  When no SDU is discarded, as many grants as there are bytes and SDUs left, each with
  room for the longest header and a byte, bring every accepted SDU to the upper layer of the peer.
\<close>

theorem um_link_drains:
  assumes "tx_um_create metrics tcfg = Some tx" and "rx_um_create rcfg = Some rx"
    and "um_rx_sn_field_length rcfg = txu_sn_field_length tcfg" and "0 < um_t_reassembly rcfg"
    and "list_all um_link_op_ok ops" and "\<not> list_ex um_discards ops" and "um_link_run ops (tx, rx) = Some ((tx', rx'), ds, as)"
    and "list_all (\<lambda>g. rlc_um_pdu_header_size_with_so (txu_sn_field_length tcfg) < g \<and> g < 2 ^ 32) gs" and "txu_load tx' \<le> length gs"
  shows "\<exists>link. um_link_run (ops @ map Link_grant gs) (tx, rx) = Some (link, as, as)"
proof -
  note C = link_created [OF assms(1-4)]
  have L: "link_ok (tx', rx')" "ds @ txu_pending tx' = as" "txu_cfg tx' = txu_cfg tx"
    using link_run [OF conjunct1 [OF C] assms(5)] C assms(6,7) by auto
  have "txu_sz tx' = txu_sn_field_length tcfg" using L(3) tx_um_create_inv [OF assms(1)] by simp
  then have "list_all (\<lambda>g. rlc_um_pdu_header_size_with_so (txu_sz tx') < g \<and> g < 2 ^ 32) gs" using assms(8) by simp
  from link_drain [OF L(1) this assms(9)] obtain link where "um_link_run (map Link_grant gs) (tx', rx') = Some (link, txu_pending tx', [])" ..
  from um_link_run_append [OF assms(7) this] show ?thesis using L(2) by simp
qed

theorem um_link_drains_witness:
  "\<exists>link. um_link_run (um_ops_example @ map Link_grant [5, 5, 5, 5]) um_link_example =
     Some (link, [[0x80, 7, 5, 6], [0x80, 8, 9]], [[0x80, 7, 5, 6], [0x80, 8, 9]])"
proof -
  obtain tx' rx' where r: "um_link_run um_ops_example (txu_example0, rx_um_example) =
      Some ((tx', rx'), [[0x80, 7, 5, 6]], [[0x80, 7, 5, 6], [0x80, 8, 9]])" "txu_load tx' = 4"
    using um_link_example_run unfolding um_link_example_def by auto
  have g: "list_all (\<lambda>g. rlc_um_pdu_header_size_with_so (txu_sn_field_length txu_cfg_example) < g \<and> g < 2 ^ 32) [5, 5, 5, 5 :: nat]"
    by (simp add: txu_cfg_example_def)
  show ?thesis unfolding um_link_example_def
    by (rule um_link_drains [OF um_link_example_created um_ops_example_ok r(1) g]) (simp add: r(2))
qed

end
