(* ===== verification/Pdcp_Common.thy ===== *)
theory Pdcp_Common
  imports Sdu_Window Pdcp_Sn_Util
begin

text \<open>
  What the transmitting and the receiving PDCP entity share (\<open>lib/pdcp/pdcp_sn.h\<close>, \<open>lib/pdcp/pdcp_pdu.h\<close>,
  \<open>lib/pdcp/pdcp_entity_tx_rx_base.h\<close>, \<open>include/srsran/pdcp/pdcp_config.h\<close>): the split of a COUNT into HFN and SN,
  the window and header sizes, the data PDU header, and the choice of the COUNT nearest to a state variable.  The lemmas
  show that a COUNT within a window of the state variable is recovered from its SN, and that a window of the PDCP
  entities, whose keys are COUNTs within one window size, is a map.
\<close>

section \<open>Configuration types\<close>

datatype pdcp_rb_type = rb_srb | rb_drb
datatype pdcp_rlc_mode = rlc_um | rlc_am
datatype pdcp_security_direction = pdcp_uplink | pdcp_downlink

record pdcp_max_count =
  mc_notify :: u32
  mc_hard :: u32

text \<open>\<open>size_invalid\<close> fails an assertion; the entities refuse it when they are created.\<close>

fun pdcp_sn_size_to_uint :: "pdcp_sn_size \<Rightarrow> nat" where
  "pdcp_sn_size_to_uint pdcp_size12bits = 12"
| "pdcp_sn_size_to_uint pdcp_size18bits = 18"
| "pdcp_sn_size_to_uint pdcp_size_invalid = 19"

definition pcdp_sn_cardinality :: "nat \<Rightarrow> u32" where
  "pcdp_sn_cardinality sn_size = push_bit sn_size 1"

definition pdcp_window_size :: "nat \<Rightarrow> u32" where
  "pdcp_window_size sn_size = pcdp_sn_cardinality (sn_size - 1)"

fun pdcp_window_size_of :: "pdcp_sn_size \<Rightarrow> u32 option" where
  "pdcp_window_size_of pdcp_size12bits = Some 2048"
| "pdcp_window_size_of pdcp_size18bits = Some 131072"
| "pdcp_window_size_of pdcp_size_invalid = None"

fun pdcp_data_pdu_header_size :: "pdcp_sn_size \<Rightarrow> nat option" where
  "pdcp_data_pdu_header_size pdcp_size12bits = Some 2"
| "pdcp_data_pdu_header_size pdcp_size18bits = Some 3"
| "pdcp_data_pdu_header_size pdcp_size_invalid = None"

definition pdcp_data_header_size :: "pdcp_sn_size \<Rightarrow> nat" where
  "pdcp_data_header_size sn_size = (if sn_size = pdcp_size12bits then 2 else 3)"

definition pdcp_data_trailer_size :: "pdcp_rb_type \<Rightarrow> bool \<Rightarrow> nat" where
  "pdcp_data_trailer_size rb_type integrity_enabled =
     (if rb_type = rb_srb then 4 else if integrity_enabled then 4 else 0)"

section \<open>SN, HFN and COUNT\<close>

definition pdcp_compute_sn :: "u32 \<Rightarrow> pdcp_sn_size \<Rightarrow> u32" where
  "pdcp_compute_sn count sn_size = count AND drop_bit (32 - pdcp_sn_size_to_uint sn_size) 0xffffffff"

definition pdcp_compute_hfn :: "u32 \<Rightarrow> pdcp_sn_size \<Rightarrow> u32" where
  "pdcp_compute_hfn count sn_size = drop_bit (pdcp_sn_size_to_uint sn_size) count"

definition pdcp_compute_count :: "u32 \<Rightarrow> u32 \<Rightarrow> pdcp_sn_size \<Rightarrow> u32" where
  "pdcp_compute_count hfn sn sn_size = push_bit (pdcp_sn_size_to_uint sn_size) hfn OR sn"

text \<open>The COUNT of a received SN: the HFN is the one of \<open>RX_DELIV\<close> or a neighbour of it.\<close>

definition pdcp_rcvd_count :: "pdcp_sn_size \<Rightarrow> u32 \<Rightarrow> u32 \<Rightarrow> u32 \<Rightarrow> u32" where
  "pdcp_rcvd_count sn_size win rx_deliv sn =
     (let rcvd_hfn =
        (if uint sn < uint (pdcp_compute_sn rx_deliv sn_size) - uint win
         then pdcp_compute_hfn rx_deliv sn_size + 1
         else if pdcp_compute_sn rx_deliv sn_size + win \<le> sn
         then pdcp_compute_hfn rx_deliv sn_size - 1
         else pdcp_compute_hfn rx_deliv sn_size)
      in pdcp_compute_count rcvd_hfn sn sn_size)"

section \<open>PDU headers\<close>

datatype pdcp_dc_field = dc_control | dc_data

fun pdcp_dc_to_number :: "pdcp_dc_field \<Rightarrow> u8" where
  "pdcp_dc_to_number dc_control = 0"
| "pdcp_dc_to_number dc_data = 1"

definition pdcp_pdu_get_dc :: "u8 \<Rightarrow> pdcp_dc_field" where
  "pdcp_pdu_get_dc first_byte = (if drop_bit 7 first_byte AND 1 = 0 then dc_control else dc_data)"

text \<open>The control PDU type; the cast of the three bits makes any number from 0 to 7 a value of the type.\<close>

datatype pdcp_control_pdu_type = status_report | interspersed_rohc_feedback | ehc_feedback | cpt_reserved u8

definition cpt_of_number :: "u8 \<Rightarrow> pdcp_control_pdu_type" where
  "cpt_of_number x = (if x = 0 then status_report else if x = 1 then interspersed_rohc_feedback
     else if x = 2 then ehc_feedback else cpt_reserved x)"

definition pdcp_control_pdu_get_cpt :: "u8 \<Rightarrow> pdcp_control_pdu_type" where
  "pdcp_control_pdu_get_cpt first_byte = cpt_of_number (drop_bit 4 first_byte AND 0x07)"

definition pdcp_read_data_pdu_header :: "pdcp_sn_size \<Rightarrow> bytes \<Rightarrow> u32 option" where
  "pdcp_read_data_pdu_header sn_size buf =
     (case pdcp_data_pdu_header_size sn_size of
        None \<Rightarrow> None
      | Some hdr_len_bytes \<Rightarrow>
          if length buf \<le> hdr_len_bytes then None
          else (case sn_size of
              pdcp_size12bits \<Rightarrow> Some (push_bit 8 (ucast (buf ! 0) AND 0x0f) OR (ucast (buf ! 1) AND 0xff))
            | pdcp_size18bits \<Rightarrow> Some (push_bit 16 (ucast (buf ! 0) AND 0x03) OR push_bit 8 (ucast (buf ! 1) AND 0xff) OR
                (ucast (buf ! 2) AND 0xff))
            | pdcp_size_invalid \<Rightarrow> None))"

text \<open>
  \<open>Inl True\<close> is the failed assertion, \<open>Inl False\<close> the reported error; \<open>prepend_ok\<close> is the result of reserving the
  header in front of the buffer.
\<close>

definition pdcp_write_data_pdu_header :: "pdcp_rb_type \<Rightarrow> pdcp_sn_size \<Rightarrow> bool \<Rightarrow> bytes \<Rightarrow> u32 \<Rightarrow> bool + bytes" where
  "pdcp_write_data_pdu_header rb_type sn_size prepend_ok buf sn =
     (if rb_type = rb_srb \<and> sn_size = pdcp_size18bits then Inl True
      else if \<not> prepend_ok then Inl False
      else let dc = (if rb_type = rb_srb then 0x00 else 0x80)
           in case sn_size of
                pdcp_size12bits \<Rightarrow> Inr ([dc OR ucast (drop_bit 8 (sn AND 0x00000f00)), ucast (sn AND 0x000000ff)] @ buf)
              | pdcp_size18bits \<Rightarrow> Inr ([dc OR ucast (drop_bit 16 (sn AND 0x00030000)), ucast (drop_bit 8 (sn AND 0x0000ff00)),
                  ucast (sn AND 0x000000ff)] @ buf)
              | pdcp_size_invalid \<Rightarrow> Inl False)"

section \<open>The number of bits\<close>

abbreviation sn_bits :: "pdcp_sn_size \<Rightarrow> nat" where "sn_bits \<equiv> pdcp_sn_size_to_uint"

lemma sn_bits_range: "2 \<le> sn_bits sz" "sn_bits sz < 20"
  by (cases sz; simp)+

lemma uint_push_one: "n < 32 \<Longrightarrow> uint (push_bit n 1 :: u32) = 2 ^ n"
  by (simp add: push_bit_eq_mult uint_pow2_u32 del: push_bit_of_1)

definition pdcp_win :: "pdcp_sn_size \<Rightarrow> int" where
  "pdcp_win sz = 2 ^ (sn_bits sz - 1)"

lemma pdcp_win_cases: "pdcp_win sz = 2048 \<or> pdcp_win sz = 131072 \<or> pdcp_win sz = 262144"
  by (cases sz) (simp_all add: pdcp_win_def)

lemma pdcp_win_double: "2 ^ sn_bits sz = 2 * pdcp_win sz"
  by (cases sz) (simp_all add: pdcp_win_def)

lemma pdcp_win_pos: "0 < pdcp_win sz" "pdcp_win sz \<le> 262144"
  using pdcp_win_cases [of sz] by auto

lemma uint_pdcp_window_size: "uint (pdcp_window_size (sn_bits sz)) = pdcp_win sz"
  using sn_bits_range [of sz]
  by (simp add: pdcp_window_size_def pcdp_sn_cardinality_def pdcp_win_def uint_push_one del: push_bit_of_1)

lemma pdcp_window_size_of_eq:
  "pdcp_window_size_of sz = (if sz = pdcp_size_invalid then None else Some (pdcp_window_size (sn_bits sz)))"
  by (cases sz) (simp_all add: pdcp_window_size_def pcdp_sn_cardinality_def)

lemma pdcp_compute_sn_take: "pdcp_compute_sn c sz = take_bit (sn_bits sz) c"
proof -
  have "(drop_bit (32 - sn_bits sz) 0xffffffff :: u32) = mask (sn_bits sz)"
    by (cases sz) (simp_all add: mask_eq_exp_minus_1)
  then show ?thesis by (simp add: pdcp_compute_sn_def take_bit_eq_mask)
qed

lemma uint_compute_sn: "uint (pdcp_compute_sn c sz) = uint c mod 2 ^ sn_bits sz"
  unfolding pdcp_compute_sn_take by (metis take_bit_eq_mod unsigned_take_bit_eq)

lemma uint_compute_hfn: "uint (pdcp_compute_hfn c sz) = uint c div 2 ^ sn_bits sz"
  unfolding pdcp_compute_hfn_def by (rule uint_drop_bit_u32)

lemma uint_compute_count:
  assumes "uint sn < 2 ^ sn_bits sz"
  shows "uint (pdcp_compute_count hfn sn sz) = (uint hfn * 2 ^ sn_bits sz + uint sn) mod 2 ^ 32"
proof -
  let ?n = "sn_bits sz"
  have t: "take_bit ?n sn = sn"
    using assms by (simp add: word_uint_eq_iff unsigned_take_bit_eq take_bit_int_eq_self)
  have "push_bit ?n hfn OR sn = push_bit ?n hfn + sn"
  proof (rule disjunctive_add [symmetric])
    fix i
    show "\<not> bit (push_bit ?n hfn) i \<or> \<not> bit sn i"
      using t by (metis bit_push_bit_iff bit_take_bit_iff not_le)
  qed
  then have "uint (pdcp_compute_count hfn sn sz) = (uint (push_bit ?n hfn) + uint sn) mod 2 ^ 32"
    by (simp add: pdcp_compute_count_def uint_word_ariths)
  moreover have "uint (push_bit ?n hfn) = uint hfn * 2 ^ ?n mod 2 ^ 32"
    by (simp add: push_bit_eq_mult uint_word_ariths uint_pow2_u32 sn_bits_range order_less_trans [OF sn_bits_range(2)])
  ultimately show ?thesis by (simp add: mod_simps)
qed

section \<open>The nearest COUNT\<close>

text \<open>The result is the only number in the two windows around \<open>RX_DELIV\<close> with the SN, modulo \<open>2\<^sup>32\<close>.\<close>

lemma pdcp_rcvd_count_near:
  assumes sn: "uint sn < 2 ^ sn_bits sz" and w: "uint w = pdcp_win sz"
  shows "\<exists>c. uint d - pdcp_win sz \<le> c \<and> c < uint d + pdcp_win sz \<and> c mod 2 ^ sn_bits sz = uint sn \<and>
    uint (pdcp_rcvd_count sz w d sn) = c mod 2 ^ 32"
proof -
  define N :: int where "N = 2 ^ sn_bits sz"
  define h where "h = uint d div N"
  define s where "s = uint d mod N"
  define W where "W = pdcp_win sz"
  have N: "N = 2 * W" "0 < W" unfolding N_def W_def using pdcp_win_double pdcp_win_pos by auto
  have d: "uint d = h * N + s" "0 \<le> s" "s < N" using N(2) unfolding h_def s_def N(1)
    by (simp_all only: div_mult_mod_eq, simp_all)
  have hfn: "uint (pdcp_compute_hfn d sz) = h" by (simp add: uint_compute_hfn h_def N_def)
  have snd: "uint (pdcp_compute_sn d sz) = s" by (simp add: uint_compute_sn s_def N_def)
  have sn': "uint sn < N" "0 \<le> uint sn" using sn by (simp_all add: N_def)
  have cnt: "uint (pdcp_compute_count x sn sz) = (uint x * N + uint sn) mod 2 ^ 32" for x
    unfolding N_def by (rule uint_compute_count [OF sn])
  have hfn1: "uint (pdcp_compute_hfn d sz + 1) = (h + 1) mod 2 ^ 32" "uint (pdcp_compute_hfn d sz - 1) = (h - 1) mod 2 ^ 32"
    by (simp_all add: uint_word_ariths hfn)
  have wrap: "(x mod 2 ^ 32 * N + y) mod 2 ^ 32 = (x * N + y) mod 2 ^ 32" for x y :: int
    by (metis mod_add_left_eq mod_mult_left_eq)
  have N32: "N < 2 ^ 20" unfolding N(1) using pdcp_win_pos(2) [of sz] by (simp add: W_def)
  have add: "uint (pdcp_compute_sn d sz + w) = s + W"
    using d(2,3) N N32 by (simp add: uint_word_ariths snd w W_def [symmetric])
  have "\<exists>c. uint d - W \<le> c \<and> c < uint d + W \<and> c mod N = uint sn \<and> uint (pdcp_rcvd_count sz w d sn) = c mod 2 ^ 32"
  proof (cases "uint sn < s - W")
    case True
    then have "uint (pdcp_rcvd_count sz w d sn) = (((h + 1) mod 2 ^ 32) * N + uint sn) mod 2 ^ 32"
      by (simp add: pdcp_rcvd_count_def snd w W_def [symmetric] cnt hfn1)
    then have "uint (pdcp_rcvd_count sz w d sn) = ((h + 1) * N + uint sn) mod 2 ^ 32" using wrap [of "h + 1"] by simp
    moreover have "((h + 1) * N + uint sn) mod N = uint sn" using sn' by simp
    moreover have "(h + 1) * N + uint sn = h * N + N + uint sn" by (simp add: algebra_simps)
    ultimately show ?thesis using True d sn' N by (intro exI [of _ "(h + 1) * N + uint sn"] conjI; linarith)
  next
    case f: False
    show ?thesis
    proof (cases "s + W \<le> uint sn")
      case True
      then have "uint (pdcp_rcvd_count sz w d sn) = (((h - 1) mod 2 ^ 32) * N + uint sn) mod 2 ^ 32"
        using f by (simp add: pdcp_rcvd_count_def snd w W_def [symmetric] cnt hfn1 word_le_def add)
      then have "uint (pdcp_rcvd_count sz w d sn) = ((h - 1) * N + uint sn) mod 2 ^ 32" using wrap [of "h - 1"] by simp
      moreover have "((h - 1) * N + uint sn) mod N = uint sn" using sn' by simp
      moreover have "(h - 1) * N + uint sn = h * N - N + uint sn" by (simp add: algebra_simps)
      ultimately show ?thesis using True d sn' N by (intro exI [of _ "(h - 1) * N + uint sn"] conjI; linarith)
    next
      case False
      then have "uint (pdcp_rcvd_count sz w d sn) = (h * N + uint sn) mod 2 ^ 32"
        using f by (simp add: pdcp_rcvd_count_def snd w W_def [symmetric] cnt hfn word_le_def add)
      moreover have "(h * N + uint sn) mod N = uint sn" using sn' by simp
      moreover have "h * N + uint sn = h * N + uint sn" by (simp add: algebra_simps)
      ultimately show ?thesis using False f d sn' N by (intro exI [of _ "h * N + uint sn"] conjI; linarith)
    qed
  qed
  then show ?thesis by (simp only: N_def W_def)
qed

lemma near_unique:
  assumes "lo \<le> c" "c < lo + M" "lo \<le> c'" "c' < lo + M" "c mod M = c' mod M"
  shows "c = (c' :: int)"
proof -
  have "M dvd (c - c')" using assms(5) by (rule mod_eq_dvd_iff [THEN iffD1])
  then obtain k where k: "c - c' = M * k" by (auto simp: dvd_def)
  have b: "- M < M * k" "M * k < M * 1" "0 < M" using assms unfolding k [symmetric] by linarith+
  then have "k < 1" by (simp only: mult_less_cancel_left_pos)
  moreover have "M * (-1) < M * k" using b(1) by simp
  then have "-1 < k" using b(3) by (simp only: mult_less_cancel_left_pos)
  ultimately have "k = 0" by linarith
  then show ?thesis using k by simp
qed

lemma pdcp_count_recovered:
  assumes w: "uint w = pdcp_win sz" and c: "uint d - pdcp_win sz \<le> uint c" "uint c < uint d + pdcp_win sz"
  shows "pdcp_rcvd_count sz w d (pdcp_compute_sn c sz) = c"
proof -
  define W where "W = pdcp_win sz"
  have N: "2 ^ sn_bits sz = 2 * W" by (simp add: W_def pdcp_win_double)
  have "uint (pdcp_compute_sn c sz) < 2 ^ sn_bits sz" by (simp add: uint_compute_sn)
  from pdcp_rcvd_count_near [OF this w, of d] obtain c' where c': "uint d - W \<le> c'" "c' < uint d + W"
    "c' mod (2 * W) = uint c mod (2 * W)" "uint (pdcp_rcvd_count sz w d (pdcp_compute_sn c sz)) = c' mod 2 ^ 32"
    by (auto simp: uint_compute_sn N W_def [symmetric])
  have "c' = uint c"
    by (rule near_unique [where lo = "uint d - W" and M = "2 * W"]) (use c c' in \<open>simp_all add: W_def\<close>)
  then have "uint (pdcp_rcvd_count sz w d (pdcp_compute_sn c sz)) = uint c" using c'(4) uint_lt2p [of c] by simp
  then show ?thesis by (simp only: word_uint_eq_iff)
qed

text \<open>Far from the end of the COUNT space an accepted COUNT is within a window of \<open>RX_DELIV\<close>.\<close>

lemma pdcp_rcvd_count_bounds:
  assumes sn: "uint sn < 2 ^ sn_bits sz" and w: "uint w = pdcp_win sz"
    and d: "uint d \<le> 2 ^ 32 - 2 * pdcp_win sz" and r: "uint (pdcp_rcvd_count sz w d sn) < 2 ^ 32 - 2 * pdcp_win sz"
  shows "uint d - pdcp_win sz \<le> uint (pdcp_rcvd_count sz w d sn)" "uint (pdcp_rcvd_count sz w d sn) < uint d + pdcp_win sz"
    "pdcp_compute_sn (pdcp_rcvd_count sz w d sn) sz = sn"
proof -
  define W where "W = pdcp_win sz"
  have W: "0 < W" "2 ^ sn_bits sz = 2 * W" using pdcp_win_pos [of sz] by (simp_all add: W_def pdcp_win_double)
  from pdcp_rcvd_count_near [OF sn w, of d] obtain c where c: "uint d - W \<le> c" "c < uint d + W"
    "c mod (2 * W) = uint sn" "uint (pdcp_rcvd_count sz w d sn) = c mod 2 ^ 32"
    by (auto simp: W(2) W_def [symmetric])
  have "0 \<le> c"
  proof (rule ccontr)
    assume "\<not> 0 \<le> c"
    then have "(c + 2 ^ 32) mod 2 ^ 32 = c + 2 ^ 32" using c(1) pdcp_win_pos(2) [of sz] order_trans [OF diff_right_mono [OF uint_ge_0 [of d]] c(1)]
      unfolding W_def by (intro mod_pos_pos_trivial) auto
    then have "c mod 2 ^ 32 = c + 2 ^ 32" by simp
    then show False using r c uint_ge_0 [of d] W(1) by (simp add: W_def)
  qed
  moreover have "c < 2 ^ 32" using c(2) d W(1) by (simp add: W_def)
  ultimately have u: "uint (pdcp_rcvd_count sz w d sn) = c" using c(4) by simp
  then show "uint d - pdcp_win sz \<le> uint (pdcp_rcvd_count sz w d sn)" "uint (pdcp_rcvd_count sz w d sn) < uint d + pdcp_win sz"
    using c by (simp_all add: W_def)
  show "pdcp_compute_sn (pdcp_rcvd_count sz w d sn) sz = sn"
    using c(3) by (simp add: word_uint_eq_iff uint_compute_sn u W(2))
qed

section \<open>The header\<close>

lemma pdcp_read_sn_less:
  assumes "pdcp_read_data_pdu_header sz buf = Some sn"
  shows "uint sn < 2 ^ sn_bits sz"
proof -
  have "bit sn i \<Longrightarrow> i < sn_bits sz" for i
    using assms by (cases sz) (auto simp: pdcp_read_data_pdu_header_def and_masks bit_simps split: if_splits dest: bit_imp_le_length)
  then have "sn < 2 ^ sn_bits sz" using sn_bits_range [of sz] by (intro word_less_exp_bits) auto
  then show ?thesis using sn_bits_range [of sz] by (simp add: word_less_def uint_pow2_u32)
qed

lemma pdcp_header_roundtrip:
  assumes "pdcp_write_data_pdu_header rb sz True buf (pdcp_compute_sn c sz) = Inr pdu" "buf \<noteq> []"
  shows "pdcp_read_data_pdu_header sz pdu = Some (pdcp_compute_sn c sz)"
    "length pdu = pdcp_data_header_size sz + length buf" "drop (pdcp_data_header_size sz) pdu = buf"
    "rb = rb_drb \<Longrightarrow> pdcp_pdu_get_dc (hd pdu) = dc_data"
proof -
  define s where "s = pdcp_compute_sn c sz"
  have s: "take_bit (sn_bits sz) s = s" by (simp add: s_def pdcp_compute_sn_take)
  have b: "bit s i \<Longrightarrow> i < sn_bits sz" for i using s by (metis bit_take_bit_iff)
  have w: "pdcp_write_data_pdu_header rb sz True buf s = Inr pdu" using assms(1) by (simp add: s_def)
  show "length pdu = pdcp_data_header_size sz + length buf" "drop (pdcp_data_header_size sz) pdu = buf"
    using w by (auto simp: pdcp_write_data_pdu_header_def pdcp_data_header_size_def Let_def split: if_splits pdcp_sn_size.splits)
  define dc where "dc = (if rb = rb_srb then 0x00 else 0x80 :: u8)"
  have dc: "i = 7" if "bit dc i" for i
  proof (cases "rb = rb_srb")
    case False
    then have "bit (0x80 :: u8) i" using that by (simp only: dc_def if_False)
    then show ?thesis by (simp only: bit_u8_flags)
  qed (use that in \<open>simp add: dc_def\<close>)
  have m: "(0xf00 :: u32) = push_bit 8 (mask 4)" "(0x30000 :: u32) = push_bit 16 (mask 2)" "(0xff00 :: u32) = push_bit 8 (mask 8)"
    "(0xff :: u32) = mask 8" "(0x0f :: u32) = mask 4" "(0x03 :: u32) = mask 2"
    by (simp_all add: mask_eq_exp_minus_1)
  have "pdcp_read_data_pdu_header sz pdu = Some s"
  proof (cases sz)
    case pdcp_size12bits
    have p: "pdu = [dc OR ucast (drop_bit 8 (s AND 0x00000f00)), ucast (s AND 0x000000ff)] @ buf"
      using w by (auto simp: pdcp_write_data_pdu_header_def pdcp_size12bits Let_def dc_def split: if_splits)
    have "push_bit 8 (ucast (dc OR ucast (drop_bit 8 (s AND 0x00000f00)) :: u8) AND 0x0f) OR
        (ucast (ucast (s AND 0x000000ff) :: u8) AND 0xff) = s"
      by (rule bit_word_eqI) (auto simp: m bit_simps bit_u8_flags pdcp_size12bits dest: b dc)
    then show ?thesis using assms(2) by (cases buf) (simp_all add: p pdcp_read_data_pdu_header_def pdcp_size12bits)
  next
    case pdcp_size18bits
    have p: "pdu = [dc OR ucast (drop_bit 16 (s AND 0x00030000)), ucast (drop_bit 8 (s AND 0x0000ff00)),
        ucast (s AND 0x000000ff)] @ buf"
      using w by (auto simp: pdcp_write_data_pdu_header_def pdcp_size18bits Let_def dc_def split: if_splits)
    have "push_bit 16 (ucast (dc OR ucast (drop_bit 16 (s AND 0x00030000)) :: u8) AND 0x03) OR
        push_bit 8 (ucast (ucast (drop_bit 8 (s AND 0x0000ff00)) :: u8) AND 0xff) OR
        (ucast (ucast (s AND 0x000000ff) :: u8) AND 0xff) = s" (is "?x = _")
    proof (rule bit_word_eqI)
      fix i :: nat
      assume "i < LENGTH(32)"
      then have "i < 32" by simp
      consider "i < 8" | "8 \<le> i" "i < 16" | "16 \<le> i" by linarith
      then show "bit ?x i = bit s i"
      proof cases
        case 3
        have "i < 18" if "bit s i" using b [OF that] by (simp add: pdcp_size18bits)
        then show ?thesis using 3 \<open>i < 32\<close> dc [of "i - 16"] by (auto simp: m bit_simps)
      qed (use \<open>i < 32\<close> in \<open>auto simp: m bit_simps\<close>)
    qed
    then show ?thesis using assms(2) by (cases buf) (simp_all add: p pdcp_read_data_pdu_header_def pdcp_size18bits)
  next
    case pdcp_size_invalid
    then show ?thesis using w by (simp add: pdcp_write_data_pdu_header_def split: if_splits)
  qed
  then show "pdcp_read_data_pdu_header sz pdu = Some (pdcp_compute_sn c sz)" by (simp add: s_def)
  show "pdcp_pdu_get_dc (hd pdu) = dc_data" if "rb = rb_drb"
    using w that by (auto simp: pdcp_write_data_pdu_header_def pdcp_pdu_get_dc_def Let_def drop_bit_and_one bit_simps bit_u8_flags
        split: pdcp_sn_size.splits)
qed

section \<open>The window as a map\<close>

text \<open>COUNTs within one window size have slots of their own, so the window is a map on them.\<close>

definition near_window :: "'a circular_map \<Rightarrow> int \<Rightarrow> int \<Rightarrow> bool" where
  "near_window w lo W \<longleftrightarrow> cm_wf w \<and> uint (cm_max_size w) = W \<and>
     (\<forall>k. cm_get w k \<noteq> None \<longrightarrow> lo \<le> uint k \<and> uint k < lo + W)"

lemma near_windowD:
  assumes "near_window w lo W"
  shows "cm_wf w" "uint (cm_max_size w) = W"
    "cm_get w k \<noteq> None \<Longrightarrow> lo \<le> uint k" "cm_get w k \<noteq> None \<Longrightarrow> uint k < lo + W"
  using assms by (simp_all add: near_window_def)

lemma near_windowI:
  assumes "cm_wf w" "uint (cm_max_size w) = W"
    "\<And>k. cm_get w k \<noteq> None \<Longrightarrow> lo \<le> uint k" "\<And>k. cm_get w k \<noteq> None \<Longrightarrow> uint k < lo + W"
  shows "near_window w lo W"
  using assms by (simp add: near_window_def)

lemma near_window_put:
  assumes "near_window w lo W" "lo \<le> uint c" "uint c < lo + W"
  shows "cm_get (cm_overwrite w c v) = (cm_get w)(c \<mapsto> v)" "near_window (cm_overwrite w c v) lo W"
proof -
  note w = near_windowD [OF assms(1)]
  have g: "cm_get (cm_overwrite w c v) k = ((cm_get w)(c \<mapsto> v)) k" for k
  proof (cases "k \<noteq> c \<and> uint k mod W = uint c mod W \<and> cm_get w k \<noteq> None")
    case True
    have "uint k = uint c"
      by (rule near_unique [OF w(3) w(4) assms(2,3)]) (use True in simp_all)
    then show ?thesis using True by (simp add: word_uint_eq_iff)
  next
    case False
    then show ?thesis using w(1,2) by (auto simp: cmw.get_put)
  qed
  then show "cm_get (cm_overwrite w c v) = (cm_get w)(c \<mapsto> v)" by blast
  show "near_window (cm_overwrite w c v) lo W"
  proof (rule near_windowI)
    show "cm_wf (cm_overwrite w c v)" "uint (cm_max_size (cm_overwrite w c v)) = W" using w by (simp_all add: cmw.wf_put)
    fix k
    assume "cm_get (cm_overwrite w c v) k \<noteq> None"
    then have "k = c \<or> cm_get w k \<noteq> None" unfolding g by (cases "k = c") simp_all
    then show "lo \<le> uint k" "uint k < lo + W" using w(3,4) assms(2,3) by auto
  qed
qed

lemma near_window_del: "near_window w lo W \<Longrightarrow> near_window (fst (cm_erase w c)) lo W"
  by (rule near_windowI) (auto simp: cmw.get_del cmw.wf_del dest: near_windowD split: if_splits)

lemma near_window_upd: "near_window w lo W \<Longrightarrow> near_window (cm_modify w c f) lo W"
  by (rule near_windowI) (auto simp: cmw.get_upd cmw.wf_upd dest: near_windowD split: if_splits)

lemma near_window_move:
  "near_window w lo W \<Longrightarrow> (\<And>k. cm_get w k \<noteq> None \<Longrightarrow> lo' \<le> uint k \<and> uint k < lo' + W) \<Longrightarrow> near_window w lo' W"
  by (simp add: near_window_def)

lemma near_window_create:
  "\<exists>w. cm_create (pdcp_window_size (sn_bits sz)) = Some w \<and> near_window w lo (pdcp_win sz) \<and> (\<forall>k. cm_get w k = None)"
proof -
  have e: "pdcp_window_size (sn_bits sz) = 2 ^ (sn_bits sz - 1)"
    by (simp add: pdcp_window_size_def pcdp_sn_cardinality_def push_bit_eq_mult)
  have "sn_bits sz - 1 < 32" using sn_bits_range [of sz] by simp
  from cm_wf_create [OF this, where ?'a = 'a] uint_pow2_u32 [OF this] show ?thesis
    unfolding e by (auto simp: near_window_def pdcp_win_def)
qed

end
