(* ===== verification/Pdcp_Status.thy ===== *)
theory Pdcp_Status
  imports Pdcp_Common
begin

text \<open>
  The PDCP status report (TS 38.323, 6.2.3.1) on the wire: the bit writer of \<open>lib/support/bit_encoding.cpp\<close>, the
  report \<open>compile_status_report\<close> of \<open>lib/pdcp/pdcp_entity_rx.cpp\<close> writes with it, and the reading of a report at the
  start of \<open>handle_status_report\<close> of \<open>lib/pdcp/pdcp_entity_tx.cpp\<close>.  The lemmas show that the writer appends the bits
  of the packed values, and that a report is read as it was written.
\<close>

section \<open>bit_encoder\<close>

text \<open>Appending a byte to the buffer is taken to succeed; the results of \<open>pack\<close> are not looked at.\<close>

record bit_encoder =
  ben_buf :: bytes
  ben_offset :: nat

definition ben_create :: bit_encoder where
  "ben_create = \<lparr>ben_buf = [], ben_offset = 0\<rparr>"

definition add_to_back :: "bytes \<Rightarrow> u8 \<Rightarrow> bytes" where
  "add_to_back buf x = butlast buf @ [last buf + x]"

function ben_pack_loop :: "bytes \<Rightarrow> nat \<Rightarrow> u64 \<Rightarrow> nat \<Rightarrow> bit_encoder" where
  "ben_pack_loop buf off val n_bits =
     (if n_bits = 0 then \<lparr>ben_buf = buf, ben_offset = off\<rparr>
      else
        let buf = (if off = 0 then buf @ [0] else buf);
            val = (if n_bits < 64 then val AND (push_bit n_bits 1 - 1) else val)
        in if 8 - off > n_bits
           then ben_pack_loop (add_to_back buf (ucast (push_bit (8 - off - n_bits) val))) (off + n_bits) val 0
           else ben_pack_loop (add_to_back buf (ucast (drop_bit (n_bits + off - 8) val))) 0 val (n_bits - (8 - off)))"
  by pat_completeness auto
termination
  by (relation "measure (\<lambda>(buf, off, val, n). 2 * n + of_bool (8 \<le> off))") (auto split: if_splits)

declare ben_pack_loop.simps [simp del]

definition ben_pack :: "u64 \<Rightarrow> nat \<Rightarrow> bit_encoder \<Rightarrow> bit_encoder" where
  "ben_pack val n_bits e = ben_pack_loop (ben_buf e) (ben_offset e) val n_bits"

section \<open>The bits written\<close>

definition val_bits :: "nat \<Rightarrow> 'a::len word \<Rightarrow> bool list" where
  "val_bits n v = map (\<lambda>i. bit v (n - 1 - i)) [0..<n]"

definition ben_bits :: "bit_encoder \<Rightarrow> bool list" where
  "ben_bits e = take (8 * length (ben_buf e) - (if ben_offset e = 0 then 0 else 8 - ben_offset e))
     (concat (map byte_bits (ben_buf e)))"

definition ben_ok :: "bit_encoder \<Rightarrow> bool" where
  "ben_ok e \<longleftrightarrow> ben_offset e < 8 \<and> (ben_offset e \<noteq> 0 \<longrightarrow> ben_buf e \<noteq> [] \<and> (\<forall>i < 8 - ben_offset e. \<not> bit (last (ben_buf e)) i))"

lemma ben_bits_snoc:
  assumes "0 < off" "off \<le> 8"
  shows "ben_bits \<lparr>ben_buf = bs @ [b], ben_offset = off mod 8\<rparr> = concat (map byte_bits bs) @ take off (byte_bits b)"
proof (cases "off = 8")
  case False
  then have "0 < off" "off < 8" using assms by simp_all
  then show ?thesis by (simp add: ben_bits_def)
qed (simp add: ben_bits_def)

text \<open>Writing the bits \<open>f 0, \<dots>, f (k - 1)\<close> behind the first \<open>off\<close> bits of a byte whose other bits are 0.\<close>

lemma byte_fill:
  fixes b x :: u8
  assumes "\<forall>i < 8 - off. \<not> bit b i" "off + k \<le> 8"
    and x: "\<And>j. j < 8 \<Longrightarrow> bit x j \<longleftrightarrow> 8 - off - k \<le> j \<and> j < 8 - off \<and> f (7 - off - j)"
  shows "take (off + k) (byte_bits (b + x)) = take off (byte_bits b) @ map f [0..<k]"
    "\<forall>i < 8 - (off + k). \<not> bit (b + x) i"
proof -
  have "b + x = b OR x"
  proof (rule disjunctive_add)
    fix i
    show "\<not> bit b i \<or> \<not> bit x i" using assms(1) x [of i] by (cases "i < 8") (auto dest: bit_imp_le_length)
  qed
  then have s: "bit (b + x) i \<longleftrightarrow> bit b i \<or> bit x i" for i by (simp add: bit_or_iff)
  show "\<forall>i < 8 - (off + k). \<not> bit (b + x) i" using assms x by (auto simp: s)
  show "take (off + k) (byte_bits (b + x)) = take off (byte_bits b) @ map f [0..<k]"
  proof (rule nth_equalityI)
    fix i
    assume "i < length (take (off + k) (byte_bits (b + x)))"
    then have i: "i < off + k" "i < 8" using assms(2) by simp_all
    show "take (off + k) (byte_bits (b + x)) ! i = (take off (byte_bits b) @ map f [0..<k]) ! i"
    proof (cases "i < off")
      case True
      then have "\<not> bit x (7 - i)" using x [of "7 - i"] by auto
      then show ?thesis using True i by (simp add: byte_bits_def nth_append s)
    next
      case False
      have "\<not> bit b (7 - i)" using assms(1) False i by simp
      moreover have "8 - off - k \<le> 7 - i" "7 - i < 8 - off" "7 - off - (7 - i) = i - off" using False i by linarith+
      then have "bit x (7 - i) \<longleftrightarrow> f (i - off)" using x [of "7 - i"] i by simp
      ultimately show ?thesis using False i by (simp add: byte_bits_def nth_append s)
    qed
  qed (use assms(2) in simp)
qed

lemma add_to_back_snoc [simp]: "add_to_back (bs @ [b]) x = bs @ [b + x]"
  by (simp add: add_to_back_def)

lemma ben_open:
  assumes "ben_ok \<lparr>ben_buf = buf, ben_offset = off\<rparr>"
  shows "\<exists>bs b. (if off = 0 then buf @ [0] else buf) = bs @ [b] \<and> (\<forall>i < 8 - off. \<not> bit b i) \<and> off < 8 \<and>
    ben_bits \<lparr>ben_buf = buf, ben_offset = off\<rparr> = concat (map byte_bits bs) @ take off (byte_bits b)"
proof (cases "off = 0")
  case True
  then show ?thesis by (intro exI [of _ buf] exI [of _ 0]) (simp add: ben_bits_def)
next
  case False
  with assms have "buf \<noteq> []" "off < 8" "\<forall>i < 8 - off. \<not> bit (last buf) i" by (auto simp: ben_ok_def)
  then show ?thesis using False ben_bits_snoc [of off "butlast buf" "last buf"]
    by (intro exI [of _ "butlast buf"] exI [of _ "last buf"]) simp
qed

lemma val_bits_split:
  assumes "m \<le> n"
  shows "val_bits n v = map (\<lambda>i. bit v (n - 1 - i)) [0..<m] @ val_bits (n - m) (take_bit n v)"
proof (rule nth_equalityI)
  fix i
  assume "i < length (val_bits n v)"
  then have i: "i < n" by (simp add: val_bits_def)
  show "val_bits n v ! i = (map (\<lambda>i. bit v (n - 1 - i)) [0..<m] @ val_bits (n - m) (take_bit n v)) ! i"
    using i assms by (cases "i < m") (simp_all add: val_bits_def nth_append bit_take_bit_iff diff_less_mono)
qed (use assms in \<open>simp add: val_bits_def\<close>)

lemma val_bits_take_bit: "val_bits n (take_bit n v) = val_bits n v"
  by (simp add: val_bits_def bit_take_bit_iff)

lemma pack_mask:
  assumes "n \<le> 64"
  shows "(if n < 64 then val AND (push_bit n 1 - 1) else val) = take_bit n (val :: u64)"
proof (cases "n < 64")
  case True
  then show ?thesis by (simp add: take_bit_eq_mask mask_eq_exp_minus_1)
next
  case False
  then have "n = 64" using assms by simp
  then show ?thesis by (simp add: take_bit_word_eq_self)
qed

text \<open>Packing appends the bits of the value, the most significant one first.\<close>

lemma ben_pack_loop_bits:
  assumes "ben_ok \<lparr>ben_buf = buf, ben_offset = off\<rparr>" "n \<le> 64"
  shows "ben_ok (ben_pack_loop buf off val n) \<and>
    ben_bits (ben_pack_loop buf off val n) = ben_bits \<lparr>ben_buf = buf, ben_offset = off\<rparr> @ val_bits n val"
  using assms
proof (induction n arbitrary: buf off val rule: less_induct)
  case (less n)
  show ?case
  proof (cases "n = 0")
    case True
    then show ?thesis using less.prems by (simp add: ben_pack_loop.simps val_bits_def)
  next
    case False
    from ben_open [OF less.prems(1)] obtain bs b where o: "(if off = 0 then buf @ [0] else buf) = bs @ [b]"
      "\<forall>i < 8 - off. \<not> bit b i" "off < 8"
      "ben_bits \<lparr>ben_buf = buf, ben_offset = off\<rparr> = concat (map byte_bits bs) @ take off (byte_bits b)" by blast
    define v where "v = take_bit n val"
    have bv: "bit v j \<longleftrightarrow> j < n \<and> bit val j" for j by (simp add: v_def bit_take_bit_iff)
    show ?thesis
    proof (cases "8 - off > n")
      case True
      let ?x = "ucast (push_bit (8 - off - n) v) :: u8"
      have x: "bit ?x j \<longleftrightarrow> 8 - off - n \<le> j \<and> j < 8 - off \<and> bit val (n - 1 - (7 - off - j))" if "j < 8" for j
      proof (cases "8 - off - n \<le> j \<and> j < 8 - off")
        case t: True
        then have "j - (8 - off - n) = n - 1 - (7 - off - j)" "j - (8 - off - n) < n" using True by linarith+
        then show ?thesis using that t by (simp add: bit_ucast_iff bit_push_bit_iff bv)
      next
        case f: False
        then have "\<not> (8 - off - n \<le> j \<and> j - (8 - off - n) < n)" using True by linarith
        then show ?thesis using f by (auto simp: bit_ucast_iff bit_push_bit_iff bv)
      qed
      note f = byte_fill [where off = off and k = n and b = b and x = ?x and f = "\<lambda>i. bit val (n - 1 - i)", OF o(2) _ x]
      have r: "ben_pack_loop buf off val n = \<lparr>ben_buf = bs @ [b + ?x], ben_offset = off + n\<rparr>"
        using False True by (subst ben_pack_loop.simps) (simp add: o(1) pack_mask [OF less.prems(2)] v_def [symmetric] Let_def ben_pack_loop.simps [of _ _ _ 0])
      have "ben_bits (ben_pack_loop buf off val n) = concat (map byte_bits bs) @ take (off + n) (byte_bits (b + ?x))"
        using ben_bits_snoc [of "off + n" bs "b + ?x"] True False unfolding r by simp
      moreover have "ben_ok (ben_pack_loop buf off val n)" unfolding r ben_ok_def using f(2) True by simp
      ultimately show ?thesis using f(1) True by (simp add: o(4) val_bits_def)
    next
      case full: False
      let ?m = "8 - off" let ?x = "ucast (drop_bit (n + off - 8) v) :: u8"
      have x: "bit ?x j \<longleftrightarrow> 8 - off - ?m \<le> j \<and> j < 8 - off \<and> bit val (n - 1 - (7 - off - j))" if "j < 8" for j
      proof -
        have "n + off - 8 + j < n \<longleftrightarrow> j < 8 - off" using full o(3) by linarith
        moreover have "n + off - 8 + j = n - 1 - (7 - off - j)" if "j < 8 - off" using full o(3) that by linarith
        ultimately show ?thesis using that by (auto simp: bit_simps bv)
      qed
      have "off + ?m \<le> 8" using o(3) by simp
      note f = byte_fill [where off = off and k = ?m and b = b and x = ?x and f = "\<lambda>i. bit val (n - 1 - i)", OF o(2) this x]
      have r: "ben_pack_loop buf off val n = ben_pack_loop (bs @ [b + ?x]) 0 v (n - ?m)"
        using False full by (subst ben_pack_loop.simps) (simp add: o(1) pack_mask [OF less.prems(2)] v_def [symmetric] Let_def)
      have ok: "ben_ok \<lparr>ben_buf = bs @ [b + ?x], ben_offset = 0\<rparr>" by (simp add: ben_ok_def)
      have "ben_bits \<lparr>ben_buf = bs @ [b + ?x], ben_offset = 0\<rparr> = concat (map byte_bits bs) @ byte_bits (b + ?x)"
        by (simp add: ben_bits_def)
      also have "byte_bits (b + ?x) = take off (byte_bits b) @ map (\<lambda>i. bit val (n - 1 - i)) [0..<?m]"
        using f(1) o(3) by simp
      finally have bits: "ben_bits \<lparr>ben_buf = bs @ [b + ?x], ben_offset = 0\<rparr> @ val_bits (n - ?m) v =
          ben_bits \<lparr>ben_buf = buf, ben_offset = off\<rparr> @ val_bits n val"
        using val_bits_split [of ?m n val] full by (simp add: o(4) v_def)
      have "n - ?m < n" using False o(3) by simp
      from less.IH [OF this ok, of v] less.prems(2) show ?thesis unfolding r bits [symmetric] by simp
    qed
  qed
qed

lemma ben_pack_bits:
  assumes "ben_ok e" "n \<le> 64"
  shows "ben_ok (ben_pack val n e)" "ben_bits (ben_pack val n e) = ben_bits e @ val_bits n val"
proof -
  have e: "\<lparr>ben_buf = ben_buf e, ben_offset = ben_offset e\<rparr> = e" by simp
  show "ben_ok (ben_pack val n e)" "ben_bits (ben_pack val n e) = ben_bits e @ val_bits n val"
    using ben_pack_loop_bits [of "ben_buf e" "ben_offset e" n val] assms unfolding e ben_pack_def by simp_all
qed


section \<open>Writing the report\<close>

text \<open>The bitmap loop; \<open>received\<close> tells which COUNTs are in the receive window.\<close>

function status_bitmap :: "(u32 \<Rightarrow> bool) \<Rightarrow> u32 \<Rightarrow> u32 \<Rightarrow> bit_encoder \<Rightarrow> bit_encoder" where
  "status_bitmap received i bitmap_end enc =
     (if i < bitmap_end
      then status_bitmap received (i + 1) bitmap_end (ben_pack (if received i then 1 else 0) 1 enc)
      else enc)"
  by pat_completeness auto

lemma count_step:
  assumes "i < (e :: u32)"
  shows "uint (i + 1) = uint i + 1" "unat e - unat (i + 1) < unat e - unat i" "i + 1 \<le> e"
proof -
  have "uint i + 1 < 2 ^ 32" using assms uint_lt2p [of e] by (simp add: word_less_def)
  then show u: "uint (i + 1) = uint i + 1" by (simp add: uint_word_ariths)
  have "int (unat (i + 1)) = int (unat i) + 1" using u by simp
  moreover have "unat i < unat e" using assms by (simp add: word_less_nat_alt)
  ultimately show "unat e - unat (i + 1) < unat e - unat i" by linarith
  show "i + 1 \<le> e" using assms u by (simp add: word_less_def word_le_def)
qed

termination status_bitmap
  by (relation "measure (\<lambda>(r, i, e, enc). unat e - unat i)") (auto simp: count_step)

declare status_bitmap.simps [simp del]

definition pdcp_control_pdu_max_size :: u32 where "pdcp_control_pdu_max_size = 9000"

definition compile_status_report :: "u32 \<Rightarrow> u32 \<Rightarrow> (u32 \<Rightarrow> bool) \<Rightarrow> bytes" where
  "compile_status_report rx_deliv rx_next received =
     (let enc = ben_pack (ucast (pdcp_dc_to_number dc_control)) 1 ben_create;
          enc = ben_pack 0 3 enc;
          enc = ben_pack 0 4 enc;
          enc = ben_pack (ucast rx_deliv) 32 enc;
          max_bits = (pdcp_control_pdu_max_size - 5) * 8;
          bitmap_begin = rx_deliv + 1;
          bitmap_end = (if bitmap_begin < rx_next \<and> max_bits < rx_next - bitmap_begin
                        then bitmap_begin + max_bits else rx_next)
      in ben_buf (status_bitmap received bitmap_begin bitmap_end enc))"

section \<open>Reading a report\<close>

text \<open>\<open>unpack\<close> with the value it leaves behind when the bits run out; the last component is its result.\<close>

function bd_read_loop :: "bytes \<Rightarrow> nat \<Rightarrow> nat \<Rightarrow> u32 \<Rightarrow> u32 \<times> bit_decoder \<times> bool" where
  "bd_read_loop rest off n_bits val =
     (if n_bits = 0 then (val, \<lparr>bd_rest = rest, bd_offset = off\<rparr>, True)
      else case rest of
        [] \<Rightarrow> (val, \<lparr>bd_rest = rest, bd_offset = off\<rparr>, False)
      | b # bs \<Rightarrow>
          if 8 - off > n_bits
          then let mask = (push_bit (8 - off) 1 - push_bit (8 - off - n_bits) 1 :: u8)
               in bd_read_loop rest (off + n_bits) 0 (val + ucast (drop_bit (8 - off - n_bits) (b AND mask)))
          else let mask = (push_bit (8 - off) 1 - 1 :: u8)
               in bd_read_loop bs 0 (n_bits - (8 - off)) (val + push_bit (n_bits + off - 8) (ucast (b AND mask))))"
  by pat_completeness auto
termination by (relation "measure (\<lambda>(rest, off, n, val). length rest + n)") auto

declare bd_read_loop.simps [simp del]

definition bd_read :: "bit_decoder \<Rightarrow> nat \<Rightarrow> u32 \<times> bit_decoder \<times> bool" where
  "bd_read d n_bits = bd_read_loop (bd_rest d) (bd_offset d) n_bits 0"

lemma bd_read_loop_shorter:
  "bd_read_loop rest off n val = (v, d, True) \<Longrightarrow> 0 < n \<Longrightarrow>
    9 * length (bd_rest d) + (8 - bd_offset d) < 9 * length rest + (8 - off)"
proof (induction rest off n val rule: bd_read_loop.induct)
  case (1 rest off n val)
  show ?case
  proof (cases rest)
    case Nil
    then show ?thesis using "1.prems" by (simp add: bd_read_loop.simps)
  next
    case (Cons b bs)
    show ?thesis
    proof (cases "8 - off > n")
      case True
      then have "fst (snd (bd_read_loop rest off n val)) = \<lparr>bd_rest = rest, bd_offset = off + n\<rparr>" using "1.prems"(2)
        by (subst bd_read_loop.simps) (simp add: Cons Let_def bd_read_loop.simps [of _ _ 0])
      then have "d = \<lparr>bd_rest = rest, bd_offset = off + n\<rparr>" using "1.prems"(1) by simp
      then show ?thesis using True "1.prems"(2) by simp
    next
      case False
      show ?thesis
      proof (cases "n - (8 - off) = 0")
        case True
        then have "fst (snd (bd_read_loop rest off n val)) = \<lparr>bd_rest = bs, bd_offset = 0\<rparr>" using "1.prems"(2) False
          by (subst bd_read_loop.simps) (simp add: Cons Let_def bd_read_loop.simps [of _ _ 0])
        then have "d = \<lparr>bd_rest = bs, bd_offset = 0\<rparr>" using "1.prems"(1) by simp
        then show ?thesis using Cons by simp
      next
        case rest_left: False
        have "9 * length (bd_rest d) + (8 - bd_offset d) < 9 * length bs + (8 - 0)"
          using "1.IH"(2) [OF _ Cons False refl] "1.prems" Cons False rest_left
          by (subst (asm) bd_read_loop.simps) (simp add: Let_def)
        then show ?thesis using Cons by simp
      qed
    qed
  qed
qed

lemma bd_read_shorter:
  "bd_read d 1 = (v, d', True) \<Longrightarrow> 9 * length (bd_rest d') + (8 - bd_offset d') < 9 * length (bd_rest d) + (8 - bd_offset d)"
  unfolding bd_read_def by (erule bd_read_loop_shorter) simp

text \<open>The single bits read up to the end of the buffer.\<close>

function bd_read_bits :: "bit_decoder \<Rightarrow> u32 list" where
  "bd_read_bits d = (case bd_read d 1 of (v, d', ok) \<Rightarrow> if ok then v # bd_read_bits d' else [])"
  by pat_completeness auto
termination
  by (relation "measure (\<lambda>d. 9 * length (bd_rest d) + (8 - bd_offset d))") (auto simp del: One_nat_def dest: bd_read_shorter [OF sym])

declare bd_read_bits.simps [simp del]

text \<open>
  The header checks of \<open>handle_status_report\<close>: \<open>None\<close> when the report is ignored, and otherwise FMC, whose result of
  \<open>unpack\<close> is not looked at, and the bitmap.
\<close>

definition read_status_report :: "bytes \<Rightarrow> (u32 \<times> u32 list) option" where
  "read_status_report buf =
     (let (dc, dec, _) = bd_read (bd_create buf) 1 in
      if dc \<noteq> ucast (pdcp_dc_to_number dc_control) then None
      else let (cpt, dec, _) = bd_read dec 3 in
      if cpt \<noteq> 0 then None
      else let (reserved, dec, _) = bd_read dec 4 in
      if reserved \<noteq> 0 then None
      else let (fmc, dec, _) = bd_read dec 32 in
      Some (fmc, bd_read_bits dec))"

section \<open>A report is read as it was written\<close>

lemma bd_unpack_read: "bd_unpack_loop rest off n val =
    (case bd_read_loop rest off n val of (v, d, ok) \<Rightarrow> if ok then Some (v, d) else None)"
proof (induction rest off n val rule: bd_read_loop.induct)
  case (1 rest off n val)
  show ?case
  proof (cases "n = 0 \<or> rest = []")
    case True
    then show ?thesis by (auto simp: bd_read_loop.simps [of rest] bd_unpack_loop.simps [of rest] split: list.splits)
  next
    case False
    then obtain b bs where r: "rest = b # bs" by (cases rest) auto
    show ?thesis
    proof (cases "n < 8 - off")
      case True
      then show ?thesis using False r "1.IH"(1) [OF _ r True refl]
        by (subst bd_read_loop.simps, subst bd_unpack_loop.simps) (simp add: Let_def)
    next
      case full: False
      then show ?thesis using False r "1.IH"(2) [OF _ r full refl]
        by (subst bd_read_loop.simps, subst bd_unpack_loop.simps) (simp add: Let_def)
    qed
  qed
qed

lemma bd_read_ok:
  assumes "bd_offset d < 8" "n \<le> length (bd_bits d)"
  shows "bd_read d n = (of_nat (bits_value (take n (bd_bits d))), bd_advance d n, True)"
proof -
  have "bd_unpack d n = Some (of_nat (bits_value (take n (bd_bits d))) :: u32, bd_advance d n)"
    using assms by (simp add: bd_unpack_bits)
  then show ?thesis by (auto simp: bd_unpack_def bd_unpack_read bd_read_def split: prod.splits if_splits)
qed

lemma bd_read_prefix:
  assumes "bd_offset d < 8" "bd_bits d = xs @ ys"
  shows "\<exists>d'. bd_read d (length xs) = (of_nat (bits_value xs), d', True) \<and> bd_offset d' < 8 \<and> bd_bits d' = ys"
  using bd_read_ok [OF assms(1), of "length xs"] assms(2) by (intro exI [of _ "bd_advance d (length xs)"]) simp

lemma bd_read_fails:
  assumes "bd_offset d < 8" "length (bd_bits d) < n"
  shows "\<exists>v d'. bd_read d n = (v, d', False)"
proof -
  have "(bd_unpack d n :: (u32 \<times> bit_decoder) option) = None" using assms by (simp add: bd_unpack_bits)
  then show ?thesis by (auto simp: bd_unpack_def bd_unpack_read bd_read_def split: prod.splits if_splits)
qed

lemma bd_read_bits_eq: "bd_offset d < 8 \<Longrightarrow> bd_read_bits d = map of_bool (bd_bits d)"
proof (induction "length (bd_bits d)" arbitrary: d)
  case 0
  then show ?case using bd_read_fails [of d 1] by (subst bd_read_bits.simps) auto
next
  case (Suc n)
  then obtain x xs where x: "bd_bits d = x # xs" by (cases "bd_bits d") auto
  have "bd_read d 1 = (of_bool x, bd_advance d 1, True)" using bd_read_ok [of d 1] Suc.prems by (simp add: x)
  moreover have "bd_read_bits (bd_advance d 1) = map of_bool xs"
    using Suc.hyps(1) [of "bd_advance d 1"] Suc.hyps(2) by (simp add: x)
  ultimately show ?case by (subst bd_read_bits.simps) (simp add: x)
qed

lemma bits_value_val_bits: "bits_value (val_bits n (v :: 'a::len word)) = take_bit n (unat v)"
proof (induction n)
  case (Suc n)
  have "val_bits n (take_bit (Suc n) v) = val_bits n v" by (auto simp: val_bits_def bit_take_bit_iff)
  then have "val_bits (Suc n) v = bit v n # val_bits n v" using val_bits_split [of 1 "Suc n" v] by simp
  moreover have "take_bit (Suc n) (unat v) = of_bool (bit (unat v) n) * 2 ^ n + take_bit n (unat v)"
    by (simp add: take_bit_Suc_from_most)
  moreover have "bit (unat v) n = bit v n" by (simp add: bit_unsigned_iff)
  moreover have "length (val_bits n v) = n" by (simp add: val_bits_def)
  ultimately show ?case using Suc.IH by simp
qed (simp add: val_bits_def)

lemma ben_padding:
  assumes "ben_ok e"
  shows "\<exists>k < 8. concat (map byte_bits (ben_buf e)) = ben_bits e @ replicate k False"
proof (cases "ben_offset e = 0")
  case True
  then show ?thesis by (intro exI [of _ 0]) (simp add: ben_bits_def)
next
  case False
  define off where "off = ben_offset e"
  obtain bs b where b: "ben_buf e = bs @ [b]" "\<forall>i < 8 - off. \<not> bit b i" "off < 8" "0 < off"
    using assms False by (cases "ben_buf e" rule: rev_cases) (auto simp: ben_ok_def off_def)
  have "drop off (byte_bits b) = replicate (8 - off) False"
    by (rule nth_equalityI) (use b in \<open>auto simp: byte_bits_def\<close>)
  then have "byte_bits b = take off (byte_bits b) @ replicate (8 - off) False" by (metis append_take_drop_id)
  moreover have "ben_bits e = concat (map byte_bits bs) @ take off (byte_bits b)"
    using b by (simp add: ben_bits_def off_def [symmetric])
  ultimately have "concat (map byte_bits (ben_buf e)) = ben_bits e @ replicate (8 - off) False" by (simp add: b(1))
  then show ?thesis using b(4) by (intro exI [of _ "8 - off"]) simp
qed

text \<open>The COUNTs the bitmap of a report is about.\<close>

definition count_range :: "u32 \<Rightarrow> u32 \<Rightarrow> u32 list" where
  "count_range b e = map (\<lambda>j. b + of_nat j) [0..<unat e - unat b]"

definition report_end :: "u32 \<Rightarrow> u32 \<Rightarrow> u32" where
  "report_end d n = (if d + 1 < n \<and> 71960 < n - (d + 1) then d + 1 + 71960 else n)"

lemma count_range_step:
  "count_range i e = (if i < e then i # count_range (i + 1) e else [])"
proof (cases "i < e")
  case True
  have "int (unat (i + 1)) = int (unat i) + 1" using count_step(1) [OF True] by simp
  then have u: "unat (i + 1) = Suc (unat i)" by linarith
  have "unat i < unat e" using True by (simp add: word_less_nat_alt)
  then have "unat e - unat i = Suc (unat e - Suc (unat i))" by simp
  then have "count_range i e = map (\<lambda>j. i + of_nat j) [0..<Suc (unat e - Suc (unat i))]" by (simp only: count_range_def)
  also have "\<dots> = i # map (\<lambda>j. i + 1 + of_nat j) [0..<unat e - Suc (unat i)]"
    by (rule nth_equalityI) (auto simp: nth_Cons algebra_simps simp del: upt_Suc split: nat.splits)
  finally show ?thesis using True by (simp add: count_range_def u)
qed (simp add: count_range_def word_less_nat_alt)

lemma val_bits_1: "val_bits 1 (if p then 1 else 0 :: u64) = [p]"
  by (simp add: val_bits_def)

lemma status_bitmap_bits:
  "ben_ok enc \<Longrightarrow> ben_ok (status_bitmap received i e enc) \<and>
    ben_bits (status_bitmap received i e enc) = ben_bits enc @ map received (count_range i e)"
proof (induction received i e enc rule: status_bitmap.induct)
  case (1 received i e enc)
  show ?case
  proof (cases "i < e")
    case True
    have ok: "ben_ok (ben_pack (if received i then 1 else 0) 1 enc)" using ben_pack_bits "1.prems" by simp
    show ?thesis using "1.IH" [OF True ok] True ben_pack_bits(2) [OF "1.prems", of 1 "if received i then 1 else 0"]
      by (subst (1 2) status_bitmap.simps) (simp add: val_bits_1 count_range_step [of i] del: One_nat_def)
  next
    case False
    then show ?thesis using "1.prems" by (subst (1 2) status_bitmap.simps) (simp add: count_range_step [of i])
  qed
qed

lemma read_compiled_report:
  "\<exists>pad < 8. read_status_report (compile_status_report d n received) =
    Some (d, map (\<lambda>c. of_bool (received c)) (count_range (d + 1) (report_end d n)) @ replicate pad 0)"
proof -
  have o: "ben_ok ben_create" "ben_bits ben_create = []" by (simp_all add: ben_create_def ben_ok_def ben_bits_def)
  define e1 where "e1 = ben_pack (ucast (pdcp_dc_to_number dc_control)) 1 ben_create"
  define e2 where "e2 = ben_pack 0 3 e1"
  define e3 where "e3 = ben_pack 0 4 e2"
  define e4 where "e4 = ben_pack (ucast d) 32 e3"
  have z: "val_bits k (0 :: u64) = replicate k False" for k by (simp add: val_bits_def map_replicate_trivial map_replicate_const)
  have ok: "ben_ok e1" "ben_ok e2" "ben_ok e3" "ben_ok e4" unfolding e1_def e2_def e3_def e4_def by (simp_all add: ben_pack_bits o)
  have "ben_bits e1 = val_bits 1 (ucast (pdcp_dc_to_number dc_control) :: u64)"
    unfolding e1_def by (subst ben_pack_bits(2) [OF o(1)]) (simp_all add: o)
  also have "\<dots> = replicate 1 False" by (simp only: pdcp_dc_to_number.simps unsigned_0 z)
  finally have "ben_bits e2 = replicate 1 False @ replicate 3 False"
    unfolding e2_def by (subst ben_pack_bits(2) [OF ok(1)]) (simp_all add: z)
  then have "ben_bits e3 = replicate 1 False @ replicate 3 False @ replicate 4 False"
    unfolding e3_def by (subst ben_pack_bits(2) [OF ok(2)]) (simp_all add: z)
  then have "ben_bits e4 = (replicate 1 False @ replicate 3 False @ replicate 4 False) @ val_bits 32 (ucast d :: u64)"
    unfolding e4_def by (subst ben_pack_bits(2) [OF ok(3)]) simp_all
  then have b4: "ben_bits e4 = replicate 8 False @ val_bits 32 (ucast d :: u64)" by (simp only: replicate_add [symmetric]) simp
  let ?enc = "status_bitmap received (d + 1) (report_end d n) e4"
  have buf: "compile_status_report d n received = ben_buf ?enc"
    by (simp add: compile_status_report_def Let_def e1_def e2_def e3_def e4_def report_end_def pdcp_control_pdu_max_size_def)
  let ?map = "map received (count_range (d + 1) (report_end d n))"
  have enc: "ben_ok ?enc" "ben_bits ?enc = replicate 8 False @ val_bits 32 (ucast d :: u64) @ ?map"
    using status_bitmap_bits [OF ok(4), of received "d + 1" "report_end d n"] by (simp_all add: b4)
  from ben_padding [OF enc(1)] obtain k where k: "k < 8" "concat (map byte_bits (ben_buf ?enc)) = ben_bits ?enc @ replicate k False" by blast
  let ?d0 = "bd_create (ben_buf ?enc)"
  have d0: "bd_offset ?d0 < 8" "bd_bits ?d0 = replicate 8 False @ val_bits 32 (ucast d :: u64) @ ?map @ replicate k False"
    by (simp_all add: bd_create_def bd_bits_def k(2) enc(2))
  have "replicate 8 False = replicate 1 False @ replicate 3 False @ replicate 4 False" by (simp only: replicate_add [symmetric]) simp
  then have b0: "bd_bits ?d0 = replicate 1 False @ replicate 3 False @ replicate 4 False @ val_bits 32 (ucast d :: u64) @ ?map @ replicate k False"
    by (simp only: d0(2) append_assoc)
  have "bits_value (replicate j False) = 0" for j by (simp add: bits_value_zero)
  then have v0: "(of_nat (bits_value (replicate j False)) :: u32) = 0" for j by simp
  from bd_read_prefix [OF d0(1) b0] obtain d1 where d1: "bd_read ?d0 1 = (0, d1, True)" "bd_offset d1 < 8"
    "bd_bits d1 = replicate 3 False @ replicate 4 False @ val_bits 32 (ucast d :: u64) @ ?map @ replicate k False"
    unfolding v0 length_replicate by blast
  from bd_read_prefix [OF d1(2,3)] obtain d2 where d2: "bd_read d1 3 = (0, d2, True)" "bd_offset d2 < 8"
    "bd_bits d2 = replicate 4 False @ val_bits 32 (ucast d :: u64) @ ?map @ replicate k False"
    unfolding v0 length_replicate by blast
  from bd_read_prefix [OF d2(2,3)] obtain d3 where d3: "bd_read d2 4 = (0, d3, True)" "bd_offset d3 < 8"
    "bd_bits d3 = val_bits 32 (ucast d :: u64) @ ?map @ replicate k False"
    unfolding v0 length_replicate by blast
  have l32: "length (val_bits 32 (ucast d :: u64)) = 32" by (simp add: val_bits_def)
  have "unat (ucast d :: u64) = take_bit 64 (unat d)" by (simp add: unsigned_ucast_eq)
  moreover have "unat d < 2 ^ 64" using unsigned_less [of d, where ?'a = nat] by simp
  ultimately have "unat (ucast d :: u64) = unat d" by (simp only: take_bit_nat_eq_self)
  moreover have "take_bit 32 (unat d) = unat d" using unsigned_less [of d, where ?'a = nat] by (simp add: take_bit_nat_eq_self)
  ultimately have vd: "(of_nat (bits_value (val_bits 32 (ucast d :: u64))) :: u32) = d" by (simp add: bits_value_val_bits)
  from bd_read_prefix [OF d3(2,3)] obtain d4 where d4: "bd_read d3 32 = (d, d4, True)" "bd_offset d4 < 8"
    "bd_bits d4 = ?map @ replicate k False"
    unfolding l32 vd by blast
  have r5: "bd_read_bits d4 = map of_bool ?map @ replicate k 0"
    unfolding bd_read_bits_eq [OF d4(2)] d4(3) by (simp add: map_replicate_const)
  have "read_status_report (ben_buf ?enc) = Some (d, map of_bool ?map @ replicate k 0)"
    by (simp add: read_status_report_def d1(1) d2(1) d3(1) d4(1) r5 del: One_nat_def)
  then show ?thesis using k(1) unfolding buf by (auto simp: comp_def)
qed

end
