(* ===== verification/Sec_Config.thy ===== *)
theory Sec_Config
  imports Srs_Prelude
begin

text \<open>
  Security configuration and key derivation (\<open>include/srsran/security/security.h\<close>,
  \<open>lib/security/security.cpp\<close>).  Keys, MACs and key-derivation inputs are byte lists, the fixed-size arrays of the
  sources having 32, 16, 4 and 2 bytes.  HMAC-SHA-256 comes from the TLS library and is the parameter \<open>sha256\<close>.  A failing
  assertion or \<open>report_error\<close> is \<open>None\<close>.
\<close>

section \<open>Algorithms, keys and configurations\<close>

definition sec_mac_len :: nat where "sec_mac_len = 4"
definition sec_key_len :: nat where "sec_key_len = 32"
definition sec_128_key_len :: nat where "sec_128_key_len = 16"
definition sec_max_pdu_size :: nat where "sec_max_pdu_size = 9100"

datatype ciphering_algorithm = nea0 | nea1 | nea2 | nea3
datatype integrity_algorithm = nia0 | nia1 | nia2 | nia3

fun nea_to_number :: "ciphering_algorithm \<Rightarrow> nat" where
  "nea_to_number nea0 = 0"
| "nea_to_number nea1 = 1"
| "nea_to_number nea2 = 2"
| "nea_to_number nea3 = 3"

definition ciphering_algorithm_from_number :: "nat \<Rightarrow> ciphering_algorithm option" where
  "ciphering_algorithm_from_number n =
     (if n < 4 then Some ([nea0, nea1, nea2, nea3] ! n) else None)"

fun nia_to_number :: "integrity_algorithm \<Rightarrow> nat" where
  "nia_to_number nia0 = 0"
| "nia_to_number nia1 = 1"
| "nia_to_number nia2 = 2"
| "nia_to_number nia3 = 3"

definition integrity_algorithm_from_number :: "nat \<Rightarrow> integrity_algorithm option" where
  "integrity_algorithm_from_number n =
     (if n < 4 then Some ([nia0, nia1, nia2, nia3] ! n) else None)"

datatype fc_value = algorithm_key_derivation | k_ng_ran_star_derivation

fun fc_to_number :: "fc_value \<Rightarrow> u8" where
  "fc_to_number algorithm_key_derivation = 0x69"
| "fc_to_number k_ng_ran_star_derivation = 0x70"

datatype security_algo_distinguisher = rrc_enc_alg | rrc_int_alg | up_enc_alg | up_int_alg

fun dist_to_number :: "security_algo_distinguisher \<Rightarrow> u8" where
  "dist_to_number rrc_enc_alg = 0x03"
| "dist_to_number rrc_int_alg = 0x04"
| "dist_to_number up_enc_alg = 0x05"
| "dist_to_number up_int_alg = 0x06"

datatype security_direction = dir_uplink | dir_downlink

fun dir_to_number :: "security_direction \<Rightarrow> u8" where
  "dir_to_number dir_uplink = 0"
| "dir_to_number dir_downlink = 1"

datatype sec_domain = dom_rrc | dom_up

record sec_128_as_config =
  c128_domain :: sec_domain
  k_128_int :: "bytes option"
  k_128_enc :: bytes
  c128_integ_algo :: "integrity_algorithm option"
  c128_cipher_algo :: ciphering_algorithm

record sec_as_config =
  ac_domain :: sec_domain
  ac_k_int :: "bytes option"
  ac_k_enc :: bytes
  ac_integ_algo :: "integrity_algorithm option"
  ac_cipher_algo :: ciphering_algorithm

record sec_selected_algos =
  algos_selected :: bool
  sel_integ_algo :: integrity_algorithm
  sel_cipher_algo :: ciphering_algorithm

record sec_as_keys =
  k_rrc_int :: bytes
  k_rrc_enc :: bytes
  k_up_int :: bytes
  k_up_enc :: bytes

record security_context =
  sctx_k :: bytes
  sctx_ncc :: u8
  supported_int_algos :: "bool list"
  supported_enc_algos :: "bool list"
  sel_algos :: sec_selected_algos
  as_keys :: sec_as_keys

section \<open>Selection of the algorithms\<close>

text \<open>
  The two loops over the preference lists, which are arrays of four algorithms; the lists of supported algorithms
  have three entries, for the algorithms 1 to 3.  The loops return the algorithm that is found.
\<close>

fun select_integrity :: "bool list \<Rightarrow> integrity_algorithm list \<Rightarrow> integrity_algorithm option" where
  "select_integrity supported [] = None"
| "select_integrity supported (a # pref_inte_list) =
     (let algo_id = nia_to_number a in
      if algo_id = 0 then None
      else if supported ! (algo_id - 1) then integrity_algorithm_from_number algo_id
      else select_integrity supported pref_inte_list)"

fun select_ciphering :: "bool list \<Rightarrow> ciphering_algorithm list \<Rightarrow> ciphering_algorithm option" where
  "select_ciphering supported [] = None"
| "select_ciphering supported (a # pref_ciph_list) =
     (let algo_id = nea_to_number a in
      if algo_id = 0 then Some nea0
      else if supported ! (algo_id - 1) then ciphering_algorithm_from_number algo_id
      else select_ciphering supported pref_ciph_list)"

definition select_algorithms ::
  "security_context \<Rightarrow> integrity_algorithm list \<Rightarrow> ciphering_algorithm list \<Rightarrow> bool \<times> security_context" where
  "select_algorithms ctx pref_inte_list pref_ciph_list =
     (case select_integrity (supported_int_algos ctx) pref_inte_list of
        None \<Rightarrow> (False, ctx)
      | Some integ_algo \<Rightarrow>
          (let ctx = ctx\<lparr>sel_algos := (sel_algos ctx)\<lparr>sel_integ_algo := integ_algo\<rparr>\<rparr> in
           case select_ciphering (supported_enc_algos ctx) pref_ciph_list of
             None \<Rightarrow> (False, ctx)
           | Some cipher_algo \<Rightarrow>
               (True, ctx\<lparr>sel_algos := (sel_algos ctx)\<lparr>sel_cipher_algo := cipher_algo, algos_selected := True\<rparr>\<rparr>)))"

section \<open>Key derivation\<close>

definition htons_bytes :: "nat \<Rightarrow> bytes" where
  "htons_bytes n = [of_nat (n div 256), of_nat n]"

definition kdf_input :: "fc_value \<Rightarrow> bytes \<Rightarrow> bytes \<Rightarrow> bytes" where
  "kdf_input fc p0 p1 = fc_to_number fc # p0 @ htons_bytes (length p0) @ p1 @ htons_bytes (length p1)"

definition generic_kdf :: "(bytes \<Rightarrow> bytes \<Rightarrow> bytes) \<Rightarrow> bytes \<Rightarrow> fc_value \<Rightarrow> bytes \<Rightarrow> bytes \<Rightarrow> bytes" where
  "generic_kdf sha256 key_in fc p0 p1 = sha256 key_in (kdf_input fc p0 p1)"

text \<open>Both functions return the encryption and the integrity key.\<close>

definition generate_k_rrc ::
  "(bytes \<Rightarrow> bytes \<Rightarrow> bytes) \<Rightarrow> bytes \<Rightarrow> ciphering_algorithm \<Rightarrow> integrity_algorithm \<Rightarrow> bytes \<times> bytes" where
  "generate_k_rrc sha256 k_gnb enc_alg_id int_alg_id =
     (generic_kdf sha256 k_gnb algorithm_key_derivation [dist_to_number rrc_enc_alg] [of_nat (nea_to_number enc_alg_id)],
      generic_kdf sha256 k_gnb algorithm_key_derivation [dist_to_number rrc_int_alg] [of_nat (nia_to_number int_alg_id)])"

definition generate_k_up ::
  "(bytes \<Rightarrow> bytes \<Rightarrow> bytes) \<Rightarrow> bytes \<Rightarrow> ciphering_algorithm \<Rightarrow> integrity_algorithm \<Rightarrow> bytes \<times> bytes" where
  "generate_k_up sha256 k_gnb enc_alg_id int_alg_id =
     (generic_kdf sha256 k_gnb algorithm_key_derivation [dist_to_number up_enc_alg] [of_nat (nea_to_number enc_alg_id)],
      generic_kdf sha256 k_gnb algorithm_key_derivation [dist_to_number up_int_alg] [of_nat (nia_to_number int_alg_id)])"

definition generate_k_ng_ran_star :: "(bytes \<Rightarrow> bytes \<Rightarrow> bytes) \<Rightarrow> bytes \<Rightarrow> u16 \<Rightarrow> u32 \<Rightarrow> bytes option" where
  "generate_k_ng_ran_star sha256 k target_pci target_ssb_arfcn =
     (let pci = [ucast (drop_bit 8 target_pci AND 0xff), ucast (target_pci AND 0xff)] in
      if target_ssb_arfcn < push_bit 16 1
      then Some (generic_kdf sha256 k k_ng_ran_star_derivation pci
             [ucast (drop_bit 8 target_ssb_arfcn AND 0xff), ucast (target_ssb_arfcn AND 0xff)])
      else if target_ssb_arfcn < push_bit 24 1
      then Some (generic_kdf sha256 k k_ng_ran_star_derivation pci
             [ucast (drop_bit 16 target_ssb_arfcn AND 0xff), ucast (drop_bit 8 target_ssb_arfcn AND 0xff),
              ucast (target_ssb_arfcn AND 0xff)])
      else None)"

definition truncate_key :: "bytes \<Rightarrow> bytes" where
  "truncate_key key_in = drop (sec_key_len - sec_128_key_len) key_in"

definition truncate_config :: "sec_as_config \<Rightarrow> sec_128_as_config" where
  "truncate_config cfg_in =
     \<lparr>c128_domain = ac_domain cfg_in,
      k_128_int = map_option truncate_key (ac_k_int cfg_in),
      k_128_enc = truncate_key (ac_k_enc cfg_in),
      c128_integ_algo = ac_integ_algo cfg_in,
      c128_cipher_algo = ac_cipher_algo cfg_in\<rparr>"

definition generate_as_keys :: "(bytes \<Rightarrow> bytes \<Rightarrow> bytes) \<Rightarrow> security_context \<Rightarrow> security_context option" where
  "generate_as_keys sha256 ctx =
     (if \<not> algos_selected (sel_algos ctx) then None
      else let (rrc_enc, rrc_int) = generate_k_rrc sha256 (sctx_k ctx) (sel_cipher_algo (sel_algos ctx)) (sel_integ_algo (sel_algos ctx));
               (up_enc, up_int) = generate_k_up sha256 (sctx_k ctx) (sel_cipher_algo (sel_algos ctx)) (sel_integ_algo (sel_algos ctx))
           in Some (ctx\<lparr>as_keys := \<lparr>k_rrc_int = rrc_int, k_rrc_enc = rrc_enc, k_up_int = up_int, k_up_enc = up_enc\<rparr>\<rparr>))"

definition horizontal_key_derivation ::
  "(bytes \<Rightarrow> bytes \<Rightarrow> bytes) \<Rightarrow> security_context \<Rightarrow> u16 \<Rightarrow> u32 \<Rightarrow> security_context option" where
  "horizontal_key_derivation sha256 ctx target_pci target_ssb_arfcn =
     (case generate_k_ng_ran_star sha256 (sctx_k ctx) target_pci target_ssb_arfcn of
        None \<Rightarrow> None
      | Some k_ng_ran_star \<Rightarrow> generate_as_keys sha256 (ctx\<lparr>sctx_k := k_ng_ran_star\<rparr>))"

definition get_as_config :: "security_context \<Rightarrow> sec_domain \<Rightarrow> sec_as_config option" where
  "get_as_config ctx domain =
     (if \<not> algos_selected (sel_algos ctx) then None
      else let (k_int, k_enc) = (case domain of
             dom_rrc \<Rightarrow> (k_rrc_int (as_keys ctx), k_rrc_enc (as_keys ctx))
           | dom_up \<Rightarrow> (k_up_int (as_keys ctx), k_up_enc (as_keys ctx)))
           in Some \<lparr>ac_domain = domain, ac_k_int = Some k_int, ac_k_enc = k_enc,
                    ac_integ_algo = Some (sel_integ_algo (sel_algos ctx)),
                    ac_cipher_algo = sel_cipher_algo (sel_algos ctx)\<rparr>)"

definition get_128_as_config :: "security_context \<Rightarrow> sec_domain \<Rightarrow> sec_128_as_config option" where
  "get_128_as_config ctx domain = map_option truncate_config (get_as_config ctx domain)"

section \<open>Tailing bits\<close>

text \<open>The overload on one byte, whose \<open>uint8_t\<close> parameter truncates the number of bits.\<close>

definition zero_tailing_bits :: "u8 \<Rightarrow> u32 \<Rightarrow> u8" where
  "zero_tailing_bits tail_byte length_bits =
     (let bits = (8 - (ucast length_bits AND 0x07)) AND 0x07 :: u8
      in tail_byte AND push_bit (unat bits) 0xff)"

lemma zero_tailing_bits_aligned [simp]: "zero_tailing_bits b (8 * n) = b"
proof -
  have "(8 * n :: u32) = push_bit 3 n" by (simp add: push_bit_eq_mult mult.commute)
  then have "(ucast (8 * n) :: u8) AND 0x07 = 0"
    by (simp add: and_masks) (rule bit_word_eqI, simp add: bit_simps)
  moreover have "b AND 0xff = b" using take_bit_length_eq [of b] by (simp add: and_masks)
  ultimately show ?thesis by (simp add: zero_tailing_bits_def Let_def)
qed

section \<open>The selected algorithms and keys\<close>

text \<open>Reference: the first preferred algorithm that is supported; NEA0 is always supported, NIA0 ends the list.\<close>

definition nia_supported :: "bool list \<Rightarrow> integrity_algorithm \<Rightarrow> bool" where
  "nia_supported supported a \<longleftrightarrow> a \<noteq> nia0 \<and> supported ! (nia_to_number a - 1)"

definition nea_supported :: "bool list \<Rightarrow> ciphering_algorithm \<Rightarrow> bool" where
  "nea_supported supported a \<longleftrightarrow> a = nea0 \<or> supported ! (nea_to_number a - 1)"

lemma nia_numbers [simp]:
  "integrity_algorithm_from_number (nia_to_number a) = Some a" "nia_to_number a = 0 \<longleftrightarrow> a = nia0"
  by (cases a; simp add: integrity_algorithm_from_number_def numeral_2_eq_2 numeral_3_eq_3)+

lemma nea_numbers [simp]:
  "ciphering_algorithm_from_number (nea_to_number b) = Some b" "nea_to_number b = 0 \<longleftrightarrow> b = nea0"
  by (cases b; simp add: ciphering_algorithm_from_number_def numeral_2_eq_2 numeral_3_eq_3)+

lemma select_integrity_eq:
  "select_integrity supported prefs = List.find (nia_supported supported) (takeWhile (\<lambda>a. a \<noteq> nia0) prefs)"
  by (induction prefs) (auto simp: nia_supported_def Let_def)

lemma select_ciphering_eq: "select_ciphering supported prefs = List.find (nea_supported supported) prefs"
  by (induction prefs) (auto simp: nea_supported_def Let_def)

text \<open>
  Algorithm selection succeeds exactly when the preference lists hold a supported integrity algorithm
  in front of any NIA0 and a supported ciphering algorithm, and then the first of each is selected; NIA0 is never
  selected.
\<close>

lemma select_algorithms_first:
  "select_algorithms ctx inte ciph =
    (case (List.find (nia_supported (supported_int_algos ctx)) (takeWhile (\<lambda>a. a \<noteq> nia0) inte),
           List.find (nea_supported (supported_enc_algos ctx)) ciph) of
       (Some i, Some c) \<Rightarrow> (True, ctx\<lparr>sel_algos := \<lparr>algos_selected = True, sel_integ_algo = i, sel_cipher_algo = c\<rparr>\<rparr>)
     | (Some i, None) \<Rightarrow> (False, ctx\<lparr>sel_algos := (sel_algos ctx)\<lparr>sel_integ_algo := i\<rparr>\<rparr>)
     | (None, _) \<Rightarrow> (False, ctx))"
  by (simp add: select_algorithms_def select_integrity_eq select_ciphering_eq split: option.splits)

text \<open>Domain separation: the input of the derivation determines the key that is derived and the algorithm.\<close>

lemma kdf_input_inj:
  assumes "kdf_input fc p0 p1 = kdf_input fc' p0' p1'" "length p0 = length p0'"
  shows "fc = fc' \<and> p0 = p0' \<and> p1 = p1'"
proof -
  have l: "length (htons_bytes n) = 2" for n by (simp add: htons_bytes_def)
  have "p0 = p0'" "p1 @ htons_bytes (length p1) = p1' @ htons_bytes (length p1')"
    using assms by (auto simp: kdf_input_def l)
  moreover from this(2) have "p1 = p1'" by (simp add: append_eq_append_conv [OF disjI2] l)
  moreover have "fc = fc'" using assms(1) by (cases fc; cases fc') (auto simp: kdf_input_def)
  ultimately show ?thesis by blast
qed

text \<open>
  The keys are derived exactly when algorithms were selected; then the four access-stratum keys come
  from the same base key by pairwise distinct inputs, whatever the algorithms, so no two of the keys are the same HMAC
  computation, and the configuration handed out for a domain holds the last 16 bytes of the keys of that domain.
\<close>

lemma as_keys_separated:
  "case generate_as_keys sha256 ctx of
     None \<Rightarrow> \<not> algos_selected (sel_algos ctx)
   | Some ctx' \<Rightarrow> algos_selected (sel_algos ctx) \<and>
      (\<exists>i1 i2 i3 i4. distinct [i1, i2, i3, i4] \<and>
        as_keys ctx' = \<lparr>k_rrc_int = sha256 (sctx_k ctx) i1, k_rrc_enc = sha256 (sctx_k ctx) i2,
          k_up_int = sha256 (sctx_k ctx) i3, k_up_enc = sha256 (sctx_k ctx) i4\<rparr> \<and>
        map_option (\<lambda>c. (k_128_int c, k_128_enc c)) (get_128_as_config ctx' dom_rrc) =
          Some (Some (drop 16 (sha256 (sctx_k ctx) i1)), drop 16 (sha256 (sctx_k ctx) i2)) \<and>
        map_option (\<lambda>c. (k_128_int c, k_128_enc c)) (get_128_as_config ctx' dom_up) =
          Some (Some (drop 16 (sha256 (sctx_k ctx) i3)), drop 16 (sha256 (sctx_k ctx) i4)))"
proof (cases "algos_selected (sel_algos ctx)")
  case sel: True
  let ?k = "sctx_k ctx" let ?e = "[of_nat (nea_to_number (sel_cipher_algo (sel_algos ctx)))] :: bytes"
  let ?i = "[of_nat (nia_to_number (sel_integ_algo (sel_algos ctx)))] :: bytes"
  let ?in = "\<lambda>d p. kdf_input algorithm_key_derivation [dist_to_number d] p"
  let ?ctx = "ctx\<lparr>as_keys := \<lparr>k_rrc_int = sha256 ?k (?in rrc_int_alg ?i), k_rrc_enc = sha256 ?k (?in rrc_enc_alg ?e),
      k_up_int = sha256 ?k (?in up_int_alg ?i), k_up_enc = sha256 ?k (?in up_enc_alg ?e)\<rparr>\<rparr>"
  have g: "generate_as_keys sha256 ctx = Some ?ctx"
    using sel by (simp add: generate_as_keys_def generate_k_rrc_def generate_k_up_def generic_kdf_def)
  have d: "distinct [?in rrc_int_alg ?i, ?in rrc_enc_alg ?e, ?in up_int_alg ?i, ?in up_enc_alg ?e]"
    by (auto dest!: kdf_input_inj)
  show ?thesis unfolding g option.case
    by (intro conjI sel exI, rule d) (simp_all add: get_128_as_config_def get_as_config_def sel truncate_config_def
        truncate_key_def sec_key_len_def sec_128_key_len_def)
qed (simp add: generate_as_keys_def)

end
