(* ===== verification/Sec_Zuc.thy ===== *)
theory Sec_Zuc
  imports Srs_Prelude
begin

text \<open>
  The stream cipher ZUC (\<open>include/srsran/security/zuc.h\<close>, \<open>lib/security/zuc.cpp\<close>) behind 128-NEA3 and
  128-NIA3.  The state record is the struct \<open>zuc_state_t\<close>; a function that updates the state through its pointer
  returns the new state.  The two S-boxes are indexed with values below 256 only.
\<close>

section \<open>State and tables\<close>

record zuc_state =
  LFSR_S0 :: u32
  LFSR_S1 :: u32
  LFSR_S2 :: u32
  LFSR_S3 :: u32
  LFSR_S4 :: u32
  LFSR_S5 :: u32
  LFSR_S6 :: u32
  LFSR_S7 :: u32
  LFSR_S8 :: u32
  LFSR_S9 :: u32
  LFSR_S10 :: u32
  LFSR_S11 :: u32
  LFSR_S12 :: u32
  LFSR_S13 :: u32
  LFSR_S14 :: u32
  LFSR_S15 :: u32
  F_R1 :: u32
  F_R2 :: u32
  BRC_X0 :: u32
  BRC_X1 :: u32
  BRC_X2 :: u32
  BRC_X3 :: u32

definition zuc_S0 :: "u8 list" where
  "zuc_S0 =
    [0x3e, 0x72, 0x5b, 0x47, 0xca, 0xe0, 0x00, 0x33, 0x04, 0xd1, 0x54, 0x98, 0x09, 0xb9, 0x6d, 0xcb, 0x7b,
     0x1b, 0xf9, 0x32, 0xaf, 0x9d, 0x6a, 0xa5, 0xb8, 0x2d, 0xfc, 0x1d, 0x08, 0x53, 0x03, 0x90, 0x4d, 0x4e,
     0x84, 0x99, 0xe4, 0xce, 0xd9, 0x91, 0xdd, 0xb6, 0x85, 0x48, 0x8b, 0x29, 0x6e, 0xac, 0xcd, 0xc1, 0xf8,
     0x1e, 0x73, 0x43, 0x69, 0xc6, 0xb5, 0xbd, 0xfd, 0x39, 0x63, 0x20, 0xd4, 0x38, 0x76, 0x7d, 0xb2, 0xa7,
     0xcf, 0xed, 0x57, 0xc5, 0xf3, 0x2c, 0xbb, 0x14, 0x21, 0x06, 0x55, 0x9b, 0xe3, 0xef, 0x5e, 0x31, 0x4f,
     0x7f, 0x5a, 0xa4, 0x0d, 0x82, 0x51, 0x49, 0x5f, 0xba, 0x58, 0x1c, 0x4a, 0x16, 0xd5, 0x17, 0xa8, 0x92,
     0x24, 0x1f, 0x8c, 0xff, 0xd8, 0xae, 0x2e, 0x01, 0xd3, 0xad, 0x3b, 0x4b, 0xda, 0x46, 0xeb, 0xc9, 0xde,
     0x9a, 0x8f, 0x87, 0xd7, 0x3a, 0x80, 0x6f, 0x2f, 0xc8, 0xb1, 0xb4, 0x37, 0xf7, 0x0a, 0x22, 0x13, 0x28,
     0x7c, 0xcc, 0x3c, 0x89, 0xc7, 0xc3, 0x96, 0x56, 0x07, 0xbf, 0x7e, 0xf0, 0x0b, 0x2b, 0x97, 0x52, 0x35,
     0x41, 0x79, 0x61, 0xa6, 0x4c, 0x10, 0xfe, 0xbc, 0x26, 0x95, 0x88, 0x8a, 0xb0, 0xa3, 0xfb, 0xc0, 0x18,
     0x94, 0xf2, 0xe1, 0xe5, 0xe9, 0x5d, 0xd0, 0xdc, 0x11, 0x66, 0x64, 0x5c, 0xec, 0x59, 0x42, 0x75, 0x12,
     0xf5, 0x74, 0x9c, 0xaa, 0x23, 0x0e, 0x86, 0xab, 0xbe, 0x2a, 0x02, 0xe7, 0x67, 0xe6, 0x44, 0xa2, 0x6c,
     0xc2, 0x93, 0x9f, 0xf1, 0xf6, 0xfa, 0x36, 0xd2, 0x50, 0x68, 0x9e, 0x62, 0x71, 0x15, 0x3d, 0xd6, 0x40,
     0xc4, 0xe2, 0x0f, 0x8e, 0x83, 0x77, 0x6b, 0x25, 0x05, 0x3f, 0x0c, 0x30, 0xea, 0x70, 0xb7, 0xa1, 0xe8,
     0xa9, 0x65, 0x8d, 0x27, 0x1a, 0xdb, 0x81, 0xb3, 0xa0, 0xf4, 0x45, 0x7a, 0x19, 0xdf, 0xee, 0x78, 0x34,
     0x60]"

definition zuc_S1 :: "u8 list" where
  "zuc_S1 =
    [0x55, 0xc2, 0x63, 0x71, 0x3b, 0xc8, 0x47, 0x86, 0x9f, 0x3c, 0xda, 0x5b, 0x29, 0xaa, 0xfd, 0x77, 0x8c,
     0xc5, 0x94, 0x0c, 0xa6, 0x1a, 0x13, 0x00, 0xe3, 0xa8, 0x16, 0x72, 0x40, 0xf9, 0xf8, 0x42, 0x44, 0x26,
     0x68, 0x96, 0x81, 0xd9, 0x45, 0x3e, 0x10, 0x76, 0xc6, 0xa7, 0x8b, 0x39, 0x43, 0xe1, 0x3a, 0xb5, 0x56,
     0x2a, 0xc0, 0x6d, 0xb3, 0x05, 0x22, 0x66, 0xbf, 0xdc, 0x0b, 0xfa, 0x62, 0x48, 0xdd, 0x20, 0x11, 0x06,
     0x36, 0xc9, 0xc1, 0xcf, 0xf6, 0x27, 0x52, 0xbb, 0x69, 0xf5, 0xd4, 0x87, 0x7f, 0x84, 0x4c, 0xd2, 0x9c,
     0x57, 0xa4, 0xbc, 0x4f, 0x9a, 0xdf, 0xfe, 0xd6, 0x8d, 0x7a, 0xeb, 0x2b, 0x53, 0xd8, 0x5c, 0xa1, 0x14,
     0x17, 0xfb, 0x23, 0xd5, 0x7d, 0x30, 0x67, 0x73, 0x08, 0x09, 0xee, 0xb7, 0x70, 0x3f, 0x61, 0xb2, 0x19,
     0x8e, 0x4e, 0xe5, 0x4b, 0x93, 0x8f, 0x5d, 0xdb, 0xa9, 0xad, 0xf1, 0xae, 0x2e, 0xcb, 0x0d, 0xfc, 0xf4,
     0x2d, 0x46, 0x6e, 0x1d, 0x97, 0xe8, 0xd1, 0xe9, 0x4d, 0x37, 0xa5, 0x75, 0x5e, 0x83, 0x9e, 0xab, 0x82,
     0x9d, 0xb9, 0x1c, 0xe0, 0xcd, 0x49, 0x89, 0x01, 0xb6, 0xbd, 0x58, 0x24, 0xa2, 0x5f, 0x38, 0x78, 0x99,
     0x15, 0x90, 0x50, 0xb8, 0x95, 0xe4, 0xd0, 0x91, 0xc7, 0xce, 0xed, 0x0f, 0xb4, 0x6f, 0xa0, 0xcc, 0xf0,
     0x02, 0x4a, 0x79, 0xc3, 0xde, 0xa3, 0xef, 0xea, 0x51, 0xe6, 0x6b, 0x18, 0xec, 0x1b, 0x2c, 0x80, 0xf7,
     0x74, 0xe7, 0xff, 0x21, 0x5a, 0x6a, 0x54, 0x1e, 0x41, 0x31, 0x92, 0x35, 0xc4, 0x33, 0x07, 0x0a, 0xba,
     0x7e, 0x0e, 0x34, 0x88, 0xb1, 0x98, 0x7c, 0xf3, 0x3d, 0x60, 0x6c, 0x7b, 0xca, 0xd3, 0x1f, 0x32, 0x65,
     0x04, 0x28, 0x64, 0xbe, 0x85, 0x9b, 0x2f, 0x59, 0x8a, 0xd7, 0xb0, 0x25, 0xac, 0xaf, 0x12, 0x03, 0xe2,
     0xf2]"

definition EK_d :: "u32 list" where
  "EK_d = [0x44d7, 0x26bc, 0x626b, 0x135e, 0x5789, 0x35e2, 0x7135, 0x09af,
     0x4d78, 0x2f13, 0x6bc4, 0x1af1, 0x5e26, 0x3c4d, 0x789a, 0x47ac]"

section \<open>Operations\<close>

text \<open>The macros of the file.\<close>

definition MAKEU32 :: "u8 \<Rightarrow> u8 \<Rightarrow> u8 \<Rightarrow> u8 \<Rightarrow> u32" where
  "MAKEU32 a b c d = push_bit 24 (ucast a) OR push_bit 16 (ucast b) OR push_bit 8 (ucast c) OR ucast d"

definition MulByPow2 :: "u32 \<Rightarrow> nat \<Rightarrow> u32" where
  "MulByPow2 x k = (push_bit k x OR drop_bit (31 - k) x) AND 0x7fffffff"

definition MAKEU31 :: "u8 \<Rightarrow> u32 \<Rightarrow> u8 \<Rightarrow> u32" where
  "MAKEU31 a b c = push_bit 23 (ucast a) OR push_bit 8 b OR ucast c"

definition ROT :: "u32 \<Rightarrow> nat \<Rightarrow> u32" where
  "ROT a k = push_bit k a OR drop_bit (32 - k) a"

definition AddM :: "u32 \<Rightarrow> u32 \<Rightarrow> u32" where
  "AddM a b = (let c = a + b in (c AND 0x7fffffff) + drop_bit 31 c)"

definition LFSRWithInitialisationMode :: "zuc_state \<Rightarrow> u32 \<Rightarrow> zuc_state" where
  "LFSRWithInitialisationMode state u =
     (let f = LFSR_S0 state;
          f = AddM f (MulByPow2 (LFSR_S0 state) 8);
          f = AddM f (MulByPow2 (LFSR_S4 state) 20);
          f = AddM f (MulByPow2 (LFSR_S10 state) 21);
          f = AddM f (MulByPow2 (LFSR_S13 state) 17);
          f = AddM f (MulByPow2 (LFSR_S15 state) 15);
          f = AddM f u
      in state\<lparr>LFSR_S0 := LFSR_S1 state, LFSR_S1 := LFSR_S2 state, LFSR_S2 := LFSR_S3 state,
       LFSR_S3 := LFSR_S4 state, LFSR_S4 := LFSR_S5 state, LFSR_S5 := LFSR_S6 state,
       LFSR_S6 := LFSR_S7 state, LFSR_S7 := LFSR_S8 state, LFSR_S8 := LFSR_S9 state,
       LFSR_S9 := LFSR_S10 state, LFSR_S10 := LFSR_S11 state, LFSR_S11 := LFSR_S12 state,
       LFSR_S12 := LFSR_S13 state, LFSR_S13 := LFSR_S14 state, LFSR_S14 := LFSR_S15 state,
       LFSR_S15 := f\<rparr>)"

definition LFSRWithWorkMode :: "zuc_state \<Rightarrow> zuc_state" where
  "LFSRWithWorkMode state =
     (let f = LFSR_S0 state;
          f = AddM f (MulByPow2 (LFSR_S0 state) 8);
          f = AddM f (MulByPow2 (LFSR_S4 state) 20);
          f = AddM f (MulByPow2 (LFSR_S10 state) 21);
          f = AddM f (MulByPow2 (LFSR_S13 state) 17);
          f = AddM f (MulByPow2 (LFSR_S15 state) 15)
      in state\<lparr>LFSR_S0 := LFSR_S1 state, LFSR_S1 := LFSR_S2 state, LFSR_S2 := LFSR_S3 state,
       LFSR_S3 := LFSR_S4 state, LFSR_S4 := LFSR_S5 state, LFSR_S5 := LFSR_S6 state,
       LFSR_S6 := LFSR_S7 state, LFSR_S7 := LFSR_S8 state, LFSR_S8 := LFSR_S9 state,
       LFSR_S9 := LFSR_S10 state, LFSR_S10 := LFSR_S11 state, LFSR_S11 := LFSR_S12 state,
       LFSR_S12 := LFSR_S13 state, LFSR_S13 := LFSR_S14 state, LFSR_S14 := LFSR_S15 state,
       LFSR_S15 := f\<rparr>)"

definition BitReorganization :: "zuc_state \<Rightarrow> zuc_state" where
  "BitReorganization state = state\<lparr>
     BRC_X0 := push_bit 1 (LFSR_S15 state AND 0x7fff8000) OR (LFSR_S14 state AND 0xffff),
     BRC_X1 := push_bit 16 (LFSR_S11 state AND 0xffff) OR drop_bit 15 (LFSR_S9 state),
     BRC_X2 := push_bit 16 (LFSR_S7 state AND 0xffff) OR drop_bit 15 (LFSR_S5 state),
     BRC_X3 := push_bit 16 (LFSR_S2 state AND 0xffff) OR drop_bit 15 (LFSR_S0 state)\<rparr>"

definition zuc_L1 :: "u32 \<Rightarrow> u32" where
  "zuc_L1 X = X XOR ROT X 2 XOR ROT X 10 XOR ROT X 18 XOR ROT X 24"

definition zuc_L2 :: "u32 \<Rightarrow> u32" where
  "zuc_L2 X = X XOR ROT X 8 XOR ROT X 14 XOR ROT X 22 XOR ROT X 30"

definition zuc_F :: "zuc_state \<Rightarrow> u32 \<times> zuc_state" where
  "zuc_F state =
     (let W = (BRC_X0 state XOR F_R1 state) + F_R2 state;
          W1 = F_R1 state + BRC_X1 state;
          W2 = F_R2 state XOR BRC_X2 state;
          u = zuc_L1 (push_bit 16 W1 OR drop_bit 16 W2);
          v = zuc_L2 (push_bit 16 W2 OR drop_bit 16 W1)
      in (W, state\<lparr>
        F_R1 := MAKEU32 (zuc_S0 ! unat (drop_bit 24 u)) (zuc_S1 ! unat (drop_bit 16 u AND 0xff))
                  (zuc_S0 ! unat (drop_bit 8 u AND 0xff)) (zuc_S1 ! unat (u AND 0xff)),
        F_R2 := MAKEU32 (zuc_S0 ! unat (drop_bit 24 v)) (zuc_S1 ! unat (drop_bit 16 v AND 0xff))
                  (zuc_S0 ! unat (drop_bit 8 v AND 0xff)) (zuc_S1 ! unat (v AND 0xff))\<rparr>))"

text \<open>One pass of the loop of \<open>zuc_initialize\<close>, and the function; \<open>k\<close> and \<open>iv\<close> are arrays of 16 bytes.\<close>

definition zuc_init_round :: "zuc_state \<Rightarrow> zuc_state" where
  "zuc_init_round state =
     (let (w, state) = zuc_F (BitReorganization state)
      in LFSRWithInitialisationMode state (drop_bit 1 w))"

definition zuc_load :: "bytes \<Rightarrow> bytes \<Rightarrow> zuc_state" where
  "zuc_load k iv =
    \<lparr>LFSR_S0 = MAKEU31 (k ! 0) (EK_d ! 0) (iv ! 0), LFSR_S1 = MAKEU31 (k ! 1) (EK_d ! 1) (iv ! 1),
      LFSR_S2 = MAKEU31 (k ! 2) (EK_d ! 2) (iv ! 2), LFSR_S3 = MAKEU31 (k ! 3) (EK_d ! 3) (iv ! 3),
      LFSR_S4 = MAKEU31 (k ! 4) (EK_d ! 4) (iv ! 4), LFSR_S5 = MAKEU31 (k ! 5) (EK_d ! 5) (iv ! 5),
      LFSR_S6 = MAKEU31 (k ! 6) (EK_d ! 6) (iv ! 6), LFSR_S7 = MAKEU31 (k ! 7) (EK_d ! 7) (iv ! 7),
      LFSR_S8 = MAKEU31 (k ! 8) (EK_d ! 8) (iv ! 8), LFSR_S9 = MAKEU31 (k ! 9) (EK_d ! 9) (iv ! 9),
      LFSR_S10 = MAKEU31 (k ! 10) (EK_d ! 10) (iv ! 10), LFSR_S11 = MAKEU31 (k ! 11) (EK_d ! 11) (iv ! 11),
      LFSR_S12 = MAKEU31 (k ! 12) (EK_d ! 12) (iv ! 12), LFSR_S13 = MAKEU31 (k ! 13) (EK_d ! 13) (iv ! 13),
      LFSR_S14 = MAKEU31 (k ! 14) (EK_d ! 14) (iv ! 14), LFSR_S15 = MAKEU31 (k ! 15) (EK_d ! 15) (iv ! 15),
      F_R1 = 0, F_R2 = 0, BRC_X0 = 0, BRC_X1 = 0, BRC_X2 = 0, BRC_X3 = 0\<rparr>"

definition zuc_initialize :: "bytes \<Rightarrow> bytes \<Rightarrow> zuc_state" where
  "zuc_initialize k iv = (zuc_init_round ^^ 32) (zuc_load k iv)"

fun zuc_keystream_loop :: "zuc_state \<Rightarrow> nat \<Rightarrow> u32 list" where
  "zuc_keystream_loop state 0 = []"
| "zuc_keystream_loop state (Suc n) =
     (let (w, s) = zuc_F (BitReorganization state)
      in (w XOR BRC_X3 s) # zuc_keystream_loop (LFSRWithWorkMode s) n)"

definition zuc_generate_keystream :: "zuc_state \<Rightarrow> nat \<Rightarrow> u32 list" where
  "zuc_generate_keystream state key_stream_len =
     (let (w, s) = zuc_F (BitReorganization state)
      in zuc_keystream_loop (LFSRWithWorkMode s) key_stream_len)"


section \<open>Arithmetic modulo \<open>2\<^sup>31 - 1\<close>\<close>

abbreviation zp :: int where "zp \<equiv> 2147483647"

lemma uint_and_31: "uint (x AND 0x7fffffff :: u32) = uint x mod 2147483648"
proof -
  have "(0x7fffffff :: u32) = mask 31" by (simp add: mask_eq_exp_minus_1)
  then have "uint (x AND 0x7fffffff) = take_bit 31 (uint x)"
    by (simp only: take_bit_eq_mask [symmetric] unsigned_take_bit_eq)
  then show ?thesis by (simp add: take_bit_eq_mod)
qed

lemma uint_AddM:
  assumes "uint a \<le> zp" "uint b \<le> zp"
  shows "uint (AddM a b) = (uint a + uint b) mod 2147483648 + (uint a + uint b) div 2147483648"
proof -
  let ?s = "uint a + uint b"
  have s: "uint (a + b) = ?s" using assms by (simp add: uint_word_ariths)
  have d: "uint (drop_bit 31 (a + b)) = ?s div 2147483648" 
    unfolding uint_drop_bit_u32 s by simp
  have m: "uint ((a + b) AND 0x7fffffff) = ?s mod 2147483648" unfolding uint_and_31 s ..
  have "?s < 4294967296" "0 \<le> ?s" using assms by simp_all
  then have "?s div 2147483648 < 2" "0 \<le> ?s div 2147483648" by (simp_all add: div_less_iff_less_mult pos_imp_zdiv_nonneg_iff)
  moreover have "?s mod 2147483648 < 2 ^ 31" "0 \<le> ?s mod 2147483648" by simp_all
  ultimately show ?thesis unfolding AddM_def Let_def uint_word_ariths m d by simp
qed

lemma AddM_ring:
  assumes "uint a \<le> zp" "uint b \<le> zp"
  shows "uint (AddM a b) mod zp = (uint a + uint b) mod zp" "uint (AddM a b) \<le> zp"
    "0 < uint a + uint b \<Longrightarrow> 0 < uint (AddM a b)"
proof -
  let ?s = "uint a + uint b" let ?q = "?s div 2147483648" let ?r = "?s mod 2147483648"
  have e: "?s = 2147483648 * ?q + ?r" by simp
  have q: "0 \<le> ?r" "?r < 2147483648" by simp_all
  have s: "0 \<le> ?s" "?s \<le> 4294967294" using assms by simp_all
  then have "0 \<le> ?q" using e q by linarith
  moreover have "?q \<le> 1" using e q s by linarith
  ultimately have q1: "0 \<le> ?q" "?q \<le> 1" by blast+
  have "?s = (?r + ?q) + ?q * zp" using e by simp
  then have "?s mod zp = (?r + ?q) mod zp" by (metis mod_mult_self1)
  then show "uint (AddM a b) mod zp = ?s mod zp" by (simp only: uint_AddM [OF assms])
  have "?q = 1 \<Longrightarrow> ?r \<le> 2147483646" using e assms by linarith
  then show "uint (AddM a b) \<le> zp" unfolding uint_AddM [OF assms] using q q1 by linarith
  show "0 < uint (AddM a b)" if "0 < ?s" unfolding uint_AddM [OF assms] using e q q1 that by linarith
qed

lemma MulByPow2_ring:
  assumes "uint x \<le> zp" "k \<le> 31"
  shows "uint (MulByPow2 x k) = (2 ^ k * uint x) mod 2147483648 + uint x div 2 ^ (31 - k)"
    "uint (MulByPow2 x k) mod zp = (2 ^ k * uint x) mod zp" "uint (MulByPow2 x k) \<le> zp"
    "0 < uint x \<Longrightarrow> 0 < uint (MulByPow2 x k)"
proof -
  let ?X = "uint x" let ?q = "?X div 2 ^ (31 - k)" let ?r = "(2 ^ k * ?X) mod 2147483648"
  have p: "(2147483648 :: int) = 2 ^ k * 2 ^ (31 - k)" using assms(2) by (simp flip: power_add)
  have q: "0 \<le> ?q" "?q < 2 ^ k"
  proof -
    show "0 \<le> ?q" by (simp add: pos_imp_zdiv_nonneg_iff)
    have "?X div 2147483648 = 0" using assms(1) by (simp add: zdiv_eq_0_iff)
    then have "?q div 2 ^ k = 0" unfolding p by (simp add: zdiv_zmult2_eq mult.commute [of "2 ^ k"])
    moreover have "0 \<le> ?q" by (simp add: pos_imp_zdiv_nonneg_iff)
    moreover have "(0 :: int) < 2 ^ k" by simp
    ultimately show "?q < 2 ^ k" unfolding zdiv_eq_0_iff by linarith
  qed
  have r: "?r = take_bit 31 (push_bit k ?X)" by (simp add: take_bit_eq_mod push_bit_eq_mult mult.commute)
  have d: "?q = drop_bit (31 - k) ?X" by (simp add: drop_bit_eq_div)
  have tq: "take_bit k ?q = ?q" using q by (simp add: take_bit_int_eq_self)
  have A: "uint (push_bit k x) = take_bit 32 (push_bit k ?X)" by (simp add: unsigned_push_bit_eq)
  have T: "a mod 2147483648 = take_bit 31 a" for a :: int by (simp add: take_bit_eq_mod)
  have "uint (MulByPow2 x k) = take_bit 31 (take_bit 32 (push_bit k ?X) OR ?q)"
    unfolding MulByPow2_def uint_and_31 unsigned_or_eq uint_drop_bit_u32 A T ..
  also have "\<dots> = take_bit 31 (push_bit k ?X) OR take_bit 31 ?q"
    unfolding take_bit_or take_bit_take_bit by simp
  also have "take_bit 31 ?q = ?q"
  proof -
    have "(2 :: int) ^ k \<le> 2 ^ 31" using assms(2) by (rule power_increasing) simp
    then show ?thesis using q by (simp add: take_bit_int_eq_self)
  qed
  also have "take_bit 31 (push_bit k ?X) OR ?q = take_bit 31 (push_bit k ?X) + ?q"
  proof (rule disjunctive_add_eq_or [symmetric], rule bit_eqI)
    fix n
    show "bit (take_bit 31 (push_bit k ?X) AND ?q) n = bit 0 n"
      using tq by (metis bit_0_eq bit_and_iff bit_push_bit_iff bit_take_bit_iff bot_apply bot_bool_def linorder_not_less)
  qed
  finally show u: "uint (MulByPow2 x k) = ?r + ?q" unfolding r .
  have "2 ^ k * ?X = 2147483648 * ((2 ^ k * ?X) div 2147483648) + ?r" by simp
  also have "(2 ^ k * ?X) div 2147483648 = ?q" unfolding p by simp
  finally have e: "2 ^ k * ?X = 2147483648 * ?q + ?r" .
  then have "2 ^ k * ?X = (?r + ?q) + ?q * zp" by simp
  then show "uint (MulByPow2 x k) mod zp = (2 ^ k * ?X) mod zp" unfolding u by (metis mod_mult_self1)
  show "uint (MulByPow2 x k) \<le> zp"
  proof -
    have "2 ^ k dvd ?r" unfolding p by (simp add: mod_mult_mult1)
    then obtain j where j: "?r = 2 ^ k * j" by (rule dvdE)
    have "?r < 2147483648" by simp
    then have "2 ^ k * j < 2 ^ k * 2 ^ (31 - k)" unfolding p [symmetric] j .
    then have "j + 1 \<le> 2 ^ (31 - k)" by simp
    then have "2 ^ k * (j + 1) \<le> 2 ^ k * 2 ^ (31 - k)" by (rule mult_left_mono) simp
    then have "?r + 2 ^ k \<le> 2147483648" unfolding p [symmetric] j by (simp add: algebra_simps)
    then show ?thesis unfolding u using q by linarith
  qed
  show "0 < uint (MulByPow2 x k)" if "0 < ?X"
  proof -
    have "0 < 2 ^ k * ?X" using that by simp
    moreover have "0 \<le> ?r" by simp
    ultimately show ?thesis unfolding u using e q by linarith
  qed
qed

section \<open>The LFSR of the specification\<close>

text \<open>
  The specification defines the LFSR over the field of integers modulo \<open>2\<^sup>31 - 1\<close>, its elements represented by
  \<open>1, ..., 2\<^sup>31 - 1\<close>, so that the value 0 of a feedback is replaced by \<open>2\<^sup>31 - 1\<close>.
\<close>

definition zuc_cells :: "zuc_state \<Rightarrow> u32 list" where
  "zuc_cells s = [LFSR_S0 s, LFSR_S1 s, LFSR_S2 s, LFSR_S3 s, LFSR_S4 s, LFSR_S5 s, LFSR_S6 s, LFSR_S7 s, LFSR_S8 s, LFSR_S9 s, LFSR_S10 s, LFSR_S11 s, LFSR_S12 s, LFSR_S13 s, LFSR_S14 s, LFSR_S15 s]"

definition in_field :: "u32 \<Rightarrow> bool" where
  "in_field c \<longleftrightarrow> 0 < uint c \<and> uint c \<le> zp"

definition zuc_wf :: "zuc_state \<Rightarrow> bool" where
  "zuc_wf s \<longleftrightarrow> list_all in_field (zuc_cells s)"

definition zuc_feedback :: "zuc_state \<Rightarrow> int" where
  "zuc_feedback s = 2 ^ 15 * uint (LFSR_S15 s) + 2 ^ 17 * uint (LFSR_S13 s) + 2 ^ 21 * uint (LFSR_S10 s)
     + 2 ^ 20 * uint (LFSR_S4 s) + (1 + 2 ^ 8) * uint (LFSR_S0 s)"

definition field_value :: "int \<Rightarrow> int" where
  "field_value v = (if v mod zp = 0 then zp else v mod zp)"

lemma field_value_unique:
  assumes "in_field c" "uint c mod zp = v mod zp"
  shows "uint c = field_value v"
proof (cases "uint c = zp")
  case False
  then have "uint c mod zp = uint c" using assms(1) by (simp add: in_field_def)
  then show ?thesis using assms by (auto simp: field_value_def in_field_def)
qed (use assms in \<open>auto simp: field_value_def\<close>)

lemma AddM_field:
  assumes "in_field a" "uint a mod zp = x mod zp" "uint b \<le> zp" "uint b mod zp = y mod zp"
  shows "in_field (AddM a b) \<and> uint (AddM a b) mod zp = (x + y) mod zp"
proof -
  have a: "uint a \<le> zp" "0 < uint a + uint b" using assms(1) uint_ge_0 [of b] by (auto simp: in_field_def intro: add_pos_nonneg)
  show ?thesis using AddM_ring [OF a(1) assms(3)] a(2) mod_add_cong [OF assms(2,4)] by (simp add: in_field_def)
qed

lemma MulByPow2_field:
  assumes "in_field x" "k \<le> 31"
  shows "uint (MulByPow2 x k) \<le> zp" "uint (MulByPow2 x k) mod zp = (2 ^ k * uint x) mod zp"
  using MulByPow2_ring [of x k] assms by (auto simp: in_field_def)

lemma zuc_feedback_chain:
  assumes "zuc_wf s"
  shows "let f = AddM (AddM (AddM (AddM (AddM (LFSR_S0 s) (MulByPow2 (LFSR_S0 s) 8)) (MulByPow2 (LFSR_S4 s) 20))
      (MulByPow2 (LFSR_S10 s) 21)) (MulByPow2 (LFSR_S13 s) 17)) (MulByPow2 (LFSR_S15 s) 15)
    in in_field f \<and> uint f mod zp = zuc_feedback s mod zp"
proof -
  have c: "in_field (LFSR_S0 s)" "in_field (LFSR_S4 s)" "in_field (LFSR_S10 s)" "in_field (LFSR_S13 s)" "in_field (LFSR_S15 s)"
    using assms by (simp_all add: zuc_wf_def zuc_cells_def)
  note m = MulByPow2_field [OF c(1), of 8] MulByPow2_field [OF c(2), of 20] MulByPow2_field [OF c(3), of 21]
    MulByPow2_field [OF c(4), of 17] MulByPow2_field [OF c(5), of 15]
  note f1 = AddM_field [OF c(1) refl m(1,2), simplified]
  note f2 = AddM_field [OF f1 [THEN conjunct1] f1 [THEN conjunct2] m(3,4), simplified]
  note f3 = AddM_field [OF f2 [THEN conjunct1] f2 [THEN conjunct2] m(5,6), simplified]
  note f4 = AddM_field [OF f3 [THEN conjunct1] f3 [THEN conjunct2] m(7,8), simplified]
  note f5 = AddM_field [OF f4 [THEN conjunct1] f4 [THEN conjunct2] m(9,10), simplified]
  show ?thesis using f5 by (simp add: Let_def zuc_feedback_def algebra_simps)
qed

lemma zuc_work_mode:
  assumes "zuc_wf s"
  shows "\<exists>c. zuc_cells (LFSRWithWorkMode s) = tl (zuc_cells s) @ [c] \<and> uint c = field_value (zuc_feedback s)"
    "zuc_wf (LFSRWithWorkMode s)"
proof -
  have "\<exists>c. zuc_cells (LFSRWithWorkMode s) = tl (zuc_cells s) @ [c] \<and> in_field c \<and> uint c mod zp = zuc_feedback s mod zp"
    using zuc_feedback_chain [OF assms] by (simp add: LFSRWithWorkMode_def Let_def zuc_cells_def)
  then obtain c where c: "zuc_cells (LFSRWithWorkMode s) = tl (zuc_cells s) @ [c]" "in_field c"
      "uint c mod zp = zuc_feedback s mod zp" by blast
  show "\<exists>c. zuc_cells (LFSRWithWorkMode s) = tl (zuc_cells s) @ [c] \<and> uint c = field_value (zuc_feedback s)"
    using c field_value_unique by blast
  show "zuc_wf (LFSRWithWorkMode s)" using assms c(2) unfolding zuc_wf_def c(1) by (simp add: zuc_cells_def)
qed

lemma zuc_wf_F [simp]: "zuc_wf (snd (zuc_F s)) = zuc_wf s" "zuc_wf (BitReorganization s) = zuc_wf s"
  by (simp_all add: zuc_F_def BitReorganization_def zuc_wf_def zuc_cells_def Let_def)

lemma zuc_init_mode:
  assumes "zuc_wf s" "uint u \<le> zp"
  shows "zuc_wf (LFSRWithInitialisationMode s u)"
proof -
  note f = zuc_feedback_chain [OF assms(1), unfolded Let_def]
  have "in_field (LFSR_S15 (LFSRWithInitialisationMode s u))"
    using AddM_field [OF f [THEN conjunct1] f [THEN conjunct2] assms(2) refl]
    by (simp add: LFSRWithInitialisationMode_def Let_def)
  then show ?thesis using assms(1) by (simp add: LFSRWithInitialisationMode_def Let_def zuc_wf_def zuc_cells_def)
qed

lemma zuc_wf_init_round: "zuc_wf s \<Longrightarrow> zuc_wf (zuc_init_round s)"
proof -
  assume s: "zuc_wf s"
  obtain w t where w: "zuc_F (BitReorganization s) = (w, t)" by (rule prod.exhaust)
  have "zuc_wf t" using s zuc_wf_F(1) [of "BitReorganization s"] by (simp add: w)
  moreover have "uint (drop_bit 1 w) \<le> zp" using uint_lt2p [of w] unfolding uint_drop_bit_u32 by simp
  ultimately show ?thesis using zuc_init_mode by (simp add: zuc_init_round_def w)
qed

lemma MAKEU31_field:
  assumes "uint d < 2 ^ 15" "0 < uint d"
  shows "in_field (MAKEU31 a d b)"
proof -
  have "MAKEU31 a d b < 2 ^ 31"
  proof (rule word_less_exp_bits)
    fix i
    assume "bit (MAKEU31 a d b) i"
    moreover have d: "bit d j \<Longrightarrow> j < 15" for j
      using assms(1) bit_less_exp [of d 15 j] by (simp add: word_less_def push_bit_eq_mult)
    ultimately show "i < 31"
      by (auto simp: MAKEU31_def bit_simps dest!: d dest: bit_imp_le_length)
  qed simp
  then have "uint (MAKEU31 a d b) \<le> zp" by (simp add: word_less_def)
  moreover have "MAKEU31 a d b \<noteq> 0"
  proof
    assume z: "MAKEU31 a d b = 0"
    have "d \<noteq> 0" using assms(2) by auto
    then obtain j where j: "bit d j" using bit_word_eqI [of d 0] by auto
    then have "j < 15" using assms(1) bit_less_exp [of d 15 j] by (simp add: word_less_def push_bit_eq_mult)
    then have "bit (MAKEU31 a d b) (8 + j)" using j by (simp add: MAKEU31_def bit_simps)
    then show False by (simp add: z)
  qed
  ultimately show ?thesis by (simp add: in_field_def uint_lt_0 word_neq_0_conv word_less_def)
qed

lemma zuc_wf_load: "zuc_wf (zuc_load k iv)"
proof -
  have "\<forall>d \<in> set EK_d. uint d < 2 ^ 15 \<and> 0 < uint d" by (simp add: EK_d_def)
  then have "i < 16 \<Longrightarrow> uint (EK_d ! i) < 2 ^ 15 \<and> 0 < uint (EK_d ! i)" for i
    using nth_mem [of i EK_d] by (simp only: EK_d_def list.size)
  then show ?thesis by (simp add: zuc_wf_def zuc_cells_def zuc_load_def MAKEU31_field)
qed

lemma zuc_wf_initialize: "zuc_wf (zuc_initialize k iv)"
proof -
  have "zuc_wf ((zuc_init_round ^^ n) (zuc_load k iv))" for n
    by (induction n) (simp_all add: zuc_wf_load zuc_wf_init_round)
  then show ?thesis by (simp add: zuc_initialize_def)
qed

text \<open>The states that the generation of a keystream goes through.\<close>

definition zuc_work_step :: "zuc_state \<Rightarrow> zuc_state" where
  "zuc_work_step s = LFSRWithWorkMode (snd (zuc_F (BitReorganization s)))"

lemma zuc_wf_work: "zuc_wf ((zuc_work_step ^^ n) (zuc_initialize k iv))"
  by (induction n) (simp_all add: zuc_wf_initialize zuc_work_step_def zuc_work_mode(2))

lemma zuc_keystream_loop_nth:
  "i < n \<Longrightarrow> zuc_keystream_loop s n ! i = (let (w, t) = zuc_F (BitReorganization ((zuc_work_step ^^ i) s)) in w XOR BRC_X3 t)"
proof (induction i arbitrary: n s)
  case 0
  then show ?case by (cases n) (simp_all split: prod.splits)
next
  case (Suc i)
  then obtain m where m: "n = Suc m" by (cases n) auto
  obtain w t where w: "zuc_F (BitReorganization s) = (w, t)" by (rule prod.exhaust)
  have "(zuc_work_step ^^ Suc i) s = (zuc_work_step ^^ i) (LFSRWithWorkMode t)"
    by (simp add: funpow_Suc_right zuc_work_step_def w del: funpow.simps)
  then show ?case using Suc m by (simp add: w del: funpow.simps)
qed

lemma length_zuc_keystream [simp]: "length (zuc_generate_keystream s n) = n"
proof -
  have "length (zuc_keystream_loop s n) = n" for s
    by (induction n arbitrary: s) (simp_all split: prod.splits)
  then show ?thesis by (simp add: zuc_generate_keystream_def split: prod.splits)
qed

text \<open>
  Property C29: every register of the LFSR is a non-zero 31-bit field element in every state that the generation of a
  keystream goes through, whatever key and IV it starts from, and every step shifts the registers and appends the
  feedback of the ZUC specification, \<open>2\<^sup>31 - 1\<close> taken for 0; keystream word \<open>i\<close> is the output of the nonlinear
  function on the state after \<open>i + 1\<close> steps.
\<close>

theorem zuc_keystream_spec:
  "let s = (zuc_work_step ^^ Suc i) (zuc_initialize k iv) in
    zuc_wf s \<and>
    (\<exists>c. zuc_cells (zuc_work_step s) = tl (zuc_cells s) @ [c] \<and> uint c = field_value (zuc_feedback s)) \<and>
    (zuc_generate_keystream (zuc_initialize k iv) (Suc i + n) ! i =
      (let (w, t) = zuc_F (BitReorganization s) in w XOR BRC_X3 t))"
proof -
  let ?init = "zuc_initialize k iv" let ?s = "(zuc_work_step ^^ Suc i) ?init"
  have wf: "zuc_wf ?s" by (rule zuc_wf_work)
  let ?t = "snd (zuc_F (BitReorganization ?s))"
  have cells: "zuc_cells ?t = zuc_cells ?s" "zuc_feedback ?t = zuc_feedback ?s"
    by (simp_all add: zuc_F_def BitReorganization_def zuc_cells_def zuc_feedback_def Let_def del: funpow.simps)
  have "zuc_wf ?t" using wf by (simp del: funpow.simps)
  from zuc_work_mode(1) [OF this]
  have step: "\<exists>c. zuc_cells (zuc_work_step ?s) = tl (zuc_cells ?s) @ [c] \<and> uint c = field_value (zuc_feedback ?s)"
    unfolding cells zuc_work_step_def [of ?s] .
  have e: "(zuc_work_step ^^ i) (zuc_work_step ?init) = ?s" by (simp only: funpow_Suc_right o_apply)
  have "zuc_keystream_loop (zuc_work_step ?init) (Suc i + n) ! i =
      (let (w, t) = zuc_F (BitReorganization ?s) in w XOR BRC_X3 t)"
    unfolding e [symmetric] by (rule zuc_keystream_loop_nth) simp
  moreover have "zuc_generate_keystream ?init (Suc i + n) = zuc_keystream_loop (zuc_work_step ?init) (Suc i + n)"
    by (simp add: zuc_generate_keystream_def zuc_work_step_def split: prod.splits del: zuc_keystream_loop.simps)
  ultimately show ?thesis using wf step unfolding Let_def by simp
qed

end
