(* ===== verification/Sec_Nea.thy ===== *)
theory Sec_Nea
  imports Sec_Config Sec_Zuc Sec_Snow3g
begin

text \<open>
  The ciphering algorithms 128-NEA1 and 128-NEA3 (\<open>include/srsran/security/ciphering.h\<close>), which XOR a keystream onto
  the bytes of a message.  The functions are modelled in the form in which they are called, with a length of
  \<open>msg.length() * 8\<close> bits; the view of the buffer is a byte list and the new content is returned.
\<close>

section \<open>The keystream loops\<close>

text \<open>The two loops that both algorithms share: whole words, then the bytes of the last block.\<close>

definition nea_xor_word :: "u32 list \<Rightarrow> nat \<Rightarrow> bytes \<Rightarrow> bytes" where
  "nea_xor_word ks i msg =
     (let offset = 4 * i;
          msg = msg[offset := msg ! offset XOR ucast (drop_bit 24 (ks ! i) AND 0xff)];
          msg = msg[offset + 1 := msg ! (offset + 1) XOR ucast (drop_bit 16 (ks ! i) AND 0xff)];
          msg = msg[offset + 2 := msg ! (offset + 2) XOR ucast (drop_bit 8 (ks ! i) AND 0xff)]
      in msg[offset + 3 := msg ! (offset + 3) XOR ucast (ks ! i AND 0xff)])"

definition nea_xor_byte :: "u32 list \<Rightarrow> nat \<Rightarrow> bytes \<Rightarrow> bytes" where
  "nea_xor_byte ks i msg =
     msg[i := msg ! i XOR ucast (drop_bit ((3 - i mod 4) * 8) (ks ! (i div 4)) AND 0xff)]"

definition nea_xor_stream :: "u32 list \<Rightarrow> nat \<Rightarrow> nat \<Rightarrow> bytes \<Rightarrow> bytes" where
  "nea_xor_stream ks msg_len_block_32 msg_len_block_8 msg =
     fold (nea_xor_byte ks) [(msg_len_block_32 - 1) * 4..<msg_len_block_8]
       (fold (nea_xor_word ks) [0..<msg_len_block_32 - 1] msg)"

section \<open>128-NEA1\<close>

definition nea1_key :: "bytes \<Rightarrow> nat \<Rightarrow> u32" where
  "nea1_key key i =
     push_bit 24 (ucast (key ! (4 * (3 - i) + 0))) OR push_bit 16 (ucast (key ! (4 * (3 - i) + 1))) OR
     push_bit 8 (ucast (key ! (4 * (3 - i) + 2))) OR ucast (key ! (4 * (3 - i) + 3))"

definition nea1_iv2 :: "u8 \<Rightarrow> security_direction \<Rightarrow> u32" where
  "nea1_iv2 bearer direction =
     push_bit 27 (ucast bearer AND 0x1f) OR push_bit 26 (ucast (dir_to_number direction) AND 0x01)"

definition security_nea1 :: "bytes \<Rightarrow> u32 \<Rightarrow> u8 \<Rightarrow> security_direction \<Rightarrow> bytes \<Rightarrow> bytes" where
  "security_nea1 key count bearer direction msg =
     (let msg_len = of_nat (length msg) * 8 :: u32;
          msg_len_block_8 = unat ((msg_len + 7) div 8);
          msg_len_block_32 = unat ((msg_len + 31) div 32);
          len = length msg
      in if msg_len_block_8 \<le> len \<and> len > 0
         then let k = map (nea1_key key) [0..<4];
                  iv2 = nea1_iv2 bearer direction;
                  ks = s3g_generate_keystream (s3g_initialize k [iv2, count, iv2, count]) msg_len_block_32;
                  msg = nea_xor_stream ks msg_len_block_32 msg_len_block_8 msg
              in msg[len - 1 := zero_tailing_bits (msg ! (len - 1)) msg_len]
         else msg)"

section \<open>128-NEA3\<close>

definition nea3_iv :: "u32 \<Rightarrow> u8 \<Rightarrow> security_direction \<Rightarrow> bytes" where
  "nea3_iv count bearer direction =
     (let iv0 = [ucast (drop_bit 24 count AND 0xff), ucast (drop_bit 16 count AND 0xff),
                 ucast (drop_bit 8 count AND 0xff), ucast (count AND 0xff),
                 push_bit 3 (bearer AND 0x1f) OR push_bit 2 (dir_to_number direction AND 0x01), 0, 0, 0]
      in iv0 @ iv0)"

definition security_nea3 :: "bytes \<Rightarrow> u32 \<Rightarrow> u8 \<Rightarrow> security_direction \<Rightarrow> bytes \<Rightarrow> bytes" where
  "security_nea3 key count bearer direction msg =
     (let msg_len = of_nat (length msg) * 8 :: u32;
          msg_len_block_8 = unat ((msg_len + 7) div 8);
          msg_len_block_32 = unat ((msg_len + 31) div 32);
          len = length msg
      in if msg_len_block_8 \<le> len \<and> len > 0
         then let ks = zuc_generate_keystream (zuc_initialize key (nea3_iv count bearer direction)) msg_len_block_32;
                  msg = nea_xor_stream ks msg_len_block_32 msg_len_block_8 msg
              in msg[len - 1 := zero_tailing_bits (msg ! (len - 1)) msg_len]
         else msg)"

section \<open>Ciphering is XOR with the keystream bytes\<close>

definition word_bytes :: "u32 \<Rightarrow> bytes" where
  "word_bytes w = [ucast (drop_bit 24 w), ucast (drop_bit 16 w), ucast (drop_bit 8 w), ucast w]"

definition stream_byte :: "u32 list \<Rightarrow> nat \<Rightarrow> u8" where
  "stream_byte ks i = word_bytes (ks ! (i div 4)) ! (i mod 4)"

lemma ucast_low_byte: "(ucast (w AND 0xff :: u32) :: u8) = ucast w"
  by (simp add: and_masks) (rule bit_word_eqI, auto simp: bit_simps dest: bit_imp_le_length)

lemma stream_byte_cases:
  "stream_byte ks (4 * i) = ucast (drop_bit 24 (ks ! i) AND 0xff)"
  "stream_byte ks (4 * i + 1) = ucast (drop_bit 16 (ks ! i) AND 0xff)"
  "stream_byte ks (4 * i + 2) = ucast (drop_bit 8 (ks ! i) AND 0xff)"
  "stream_byte ks (4 * i + 3) = ucast (ks ! i AND 0xff)"
proof -
  have d: "(4 * i + j) div 4 = i" "(4 * i + j) mod 4 = j" if "j < 4" for j using that by simp_all
  show "stream_byte ks (4 * i) = ucast (drop_bit 24 (ks ! i) AND 0xff)"
    "stream_byte ks (4 * i + 1) = ucast (drop_bit 16 (ks ! i) AND 0xff)"
    "stream_byte ks (4 * i + 2) = ucast (drop_bit 8 (ks ! i) AND 0xff)"
    "stream_byte ks (4 * i + 3) = ucast (ks ! i AND 0xff)"
    unfolding ucast_low_byte using d [of 0] d [of 1] d [of 2] d [of 3] by (simp_all add: stream_byte_def word_bytes_def)
qed

lemma stream_byte_shift: "stream_byte ks i = ucast (drop_bit ((3 - i mod 4) * 8) (ks ! (i div 4)) AND 0xff)"
proof -
  have "i mod 4 < 4" by simp
  then consider "i mod 4 = 0" | "i mod 4 = 1" | "i mod 4 = 2" | "i mod 4 = 3" by linarith
  then show ?thesis unfolding ucast_low_byte
    by cases (simp_all add: stream_byte_def word_bytes_def)
qed

lemma fold_xor_word:
  assumes "4 * n \<le> length msg"
  shows "length (fold (nea_xor_word ks) [0..<n] msg) = length msg \<and>
    (\<forall>i < length msg. fold (nea_xor_word ks) [0..<n] msg ! i =
      (if i < 4 * n then msg ! i XOR stream_byte ks i else msg ! i))"
  using assms
proof (induction n)
  case (Suc n)
  let ?m = "fold (nea_xor_word ks) [0..<n] msg"
  have ih: "length ?m = length msg" "\<And>i. i < length msg \<Longrightarrow> ?m ! i = (if i < 4 * n then msg ! i XOR stream_byte ks i else msg ! i)"
    using Suc by simp_all
  have "nea_xor_word ks n ?m = ((((?m[4 * n := ?m ! (4 * n) XOR stream_byte ks (4 * n)])
      [4 * n + 1 := ?m ! (4 * n + 1) XOR stream_byte ks (4 * n + 1)])
      [4 * n + 2 := ?m ! (4 * n + 2) XOR stream_byte ks (4 * n + 2)])
      [4 * n + 3 := ?m ! (4 * n + 3) XOR stream_byte ks (4 * n + 3)])"
    unfolding stream_byte_cases by (simp add: nea_xor_word_def Let_def)
  then have e: "fold (nea_xor_word ks) [0..<Suc n] msg = \<dots>" by simp
  show ?case unfolding e
  proof (intro conjI allI impI)
    fix i
    assume i: "i < length msg"
    consider "i < 4 * n" | "i = 4 * n" | "i = 4 * n + 1" | "i = 4 * n + 2" | "i = 4 * n + 3" | "4 * n + 4 \<le> i" by linarith
    then show "(((?m[4 * n := ?m ! (4 * n) XOR stream_byte ks (4 * n)])
      [4 * n + 1 := ?m ! (4 * n + 1) XOR stream_byte ks (4 * n + 1)])
      [4 * n + 2 := ?m ! (4 * n + 2) XOR stream_byte ks (4 * n + 2)])
      [4 * n + 3 := ?m ! (4 * n + 3) XOR stream_byte ks (4 * n + 3)] ! i =
      (if i < 4 * Suc n then msg ! i XOR stream_byte ks i else msg ! i)"
      by cases (use i ih Suc.prems in \<open>simp_all add: nth_list_update\<close>)
  qed (use ih in simp)
qed simp

lemma fold_xor_byte:
  assumes "m \<le> n" "n \<le> length msg"
  shows "length (fold (nea_xor_byte ks) [m..<n] msg) = length msg \<and>
    (\<forall>i < length msg. fold (nea_xor_byte ks) [m..<n] msg ! i =
      (if m \<le> i \<and> i < n then msg ! i XOR stream_byte ks i else msg ! i))"
  using assms
proof (induction n rule: dec_induct)
  case (step n)
  then show ?case
    by (auto simp: nea_xor_byte_def stream_byte_shift [symmetric] nth_list_update less_Suc_eq)
qed auto

lemma nea_xor_stream_eq:
  assumes "b32 = (n + 3) div 4" "n = length msg" "0 < n"
  shows "nea_xor_stream ks b32 n msg = map (\<lambda>i. msg ! i XOR stream_byte ks i) [0..<n]"
proof -
  let ?a = "fold (nea_xor_word ks) [0..<b32 - 1] msg"
  have b: "4 * (b32 - 1) \<le> length msg" "(b32 - 1) * 4 \<le> n" using assms by simp_all
  from fold_xor_word [OF b(1), of ks] have a: "length ?a = length msg"
    "\<And>i. i < length msg \<Longrightarrow> ?a ! i = (if i < 4 * (b32 - 1) then msg ! i XOR stream_byte ks i else msg ! i)" by blast+
  have "n \<le> length ?a" using a(1) assms by simp
  from fold_xor_byte [OF b(2) this, of ks] show ?thesis
    unfolding nea_xor_stream_def using a assms(2) by (intro nth_equalityI) (auto simp: mult.commute)
qed

text \<open>The lengths in bits, bytes and words.\<close>

lemma nea_block_lengths:
  assumes "n < 2 ^ 28"
  shows "unat ((of_nat n * 8 + 7 :: u32) div 8) = n" "unat ((of_nat n * 8 + 31 :: u32) div 32) = (n + 3) div 4"
proof -
  have e: "of_nat n * 8 + k = (of_nat (8 * n + unat k) :: u32)" for k by (simp add: mult.commute)
  have u: "unat (of_nat (8 * n + j) :: u32) = 8 * n + j" if "j < 2 ^ 28" for j
    by (rule unat_of_nat_u32) (use assms that in simp)
  show "unat ((of_nat n * 8 + 7 :: u32) div 8) = n" unfolding e unat_div using u [of 7] by simp
  show "unat ((of_nat n * 8 + 31 :: u32) div 32) = (n + 3) div 4" unfolding e unat_div using u [of 31] by simp
qed

lemma nea_tail: "zero_tailing_bits b (of_nat n * 8) = b"
  using zero_tailing_bits_aligned [of b "of_nat n"] by (simp add: mult.commute)

definition nea1_stream :: "bytes \<Rightarrow> u32 \<Rightarrow> u8 \<Rightarrow> security_direction \<Rightarrow> nat \<Rightarrow> u32 list" where
  "nea1_stream key count bearer direction n =
     (let iv2 = nea1_iv2 bearer direction
      in s3g_generate_keystream (s3g_initialize (map (nea1_key key) [0..<4]) [iv2, count, iv2, count]) n)"

definition nea3_stream :: "bytes \<Rightarrow> u32 \<Rightarrow> u8 \<Rightarrow> security_direction \<Rightarrow> nat \<Rightarrow> u32 list" where
  "nea3_stream key count bearer direction n =
     zuc_generate_keystream (zuc_initialize key (nea3_iv count bearer direction)) n"

definition xor_stream :: "u32 list \<Rightarrow> bytes \<Rightarrow> bytes" where
  "xor_stream ks msg = map (\<lambda>i. msg ! i XOR stream_byte ks i) [0..<length msg]"

lemma security_nea1_eq:
  assumes "length msg < 2 ^ 28"
  shows "security_nea1 key count bearer direction msg =
    xor_stream (nea1_stream key count bearer direction ((length msg + 3) div 4)) msg"
proof (cases "msg = []")
  case False
  then show ?thesis
    by (simp add: security_nea1_def Let_def nea_block_lengths [OF assms] nea_xor_stream_eq nea_tail nea1_stream_def xor_stream_def)
qed (simp add: security_nea1_def xor_stream_def)

lemma security_nea3_eq:
  assumes "length msg < 2 ^ 28"
  shows "security_nea3 key count bearer direction msg =
    xor_stream (nea3_stream key count bearer direction ((length msg + 3) div 4)) msg"
proof (cases "msg = []")
  case False
  then show ?thesis
    by (simp add: security_nea3_def Let_def nea_block_lengths [OF assms] nea_xor_stream_eq nea_tail nea3_stream_def xor_stream_def)
qed (simp add: security_nea3_def xor_stream_def)

lemma length_xor_stream [simp]: "length (xor_stream ks msg) = length msg"
  by (simp add: xor_stream_def)

lemma xor_stream_twice: "xor_stream ks (xor_stream ks msg) = msg"
  by (rule nth_equalityI) (simp_all add: xor_stream_def xor.assoc)

text \<open>
  For every message below 2 to the 28 bytes, 128-NEA1 and 128-NEA3 XOR each byte with its own byte of the
  keystream, most significant byte of a word first; the block loops, the bytes of the last block and the zeroing of
  tailing bits lose and change nothing else, so that ciphering twice gives the message back.
\<close>

lemma nea_stream_cipher:
  assumes "length msg < 2 ^ 28"
  shows "(\<forall>i < length msg.
      security_nea1 key count bearer direction msg ! i =
        msg ! i XOR stream_byte (nea1_stream key count bearer direction ((length msg + 3) div 4)) i \<and>
      security_nea3 key count bearer direction msg ! i =
        msg ! i XOR stream_byte (nea3_stream key count bearer direction ((length msg + 3) div 4)) i) \<and>
    length (security_nea1 key count bearer direction msg) = length msg \<and>
    length (security_nea3 key count bearer direction msg) = length msg \<and>
    security_nea1 key count bearer direction (security_nea1 key count bearer direction msg) = msg \<and>
    security_nea3 key count bearer direction (security_nea3 key count bearer direction msg) = msg"
  using assms by (simp add: security_nea1_eq security_nea3_eq xor_stream_twice) (simp add: xor_stream_def)

lemma nea_stream_cipher_witness:
  "length [1, 2, 3, 4, 5 :: u8] < 2 ^ 28 \<and>
    security_nea3 (replicate 16 0) 7 1 dir_uplink (security_nea3 (replicate 16 0) 7 1 dir_uplink [1, 2, 3, 4, 5]) =
      [1, 2, 3, 4, 5]"
proof
  show l: "length [1, 2, 3, 4, 5 :: u8] < 2 ^ 28" by simp
  show "security_nea3 (replicate 16 0) 7 1 dir_uplink (security_nea3 (replicate 16 0) 7 1 dir_uplink [1, 2, 3, 4, 5]) =
      [1, 2, 3, 4, 5]"
    using nea_stream_cipher [OF l, of "replicate 16 0" 7 1 dir_uplink] by blast
qed

end
