(* ===== verification/Sec_Snow3g_Mul.thy ===== *)
theory Sec_Snow3g_Mul
  imports Sec_Snow3g
begin

text \<open>
  The lookup tables of UIA2: \<open>s3g_MUL_P\<close> on the tables built by \<open>s3g_PRE_MUL_P\<close> is the multiplication
  \<open>s3g_MUL64\<close> of the field of 2 to the 64.  Sums over bits are \<open>xsum\<close>.
\<close>

section \<open>The tables multiply\<close>

fun xsum :: "(nat \<Rightarrow> 'a::len word) \<Rightarrow> nat \<Rightarrow> 'a word" where
  "xsum f 0 = 0"
| "xsum f (Suc n) = xsum f n XOR f n"

lemma xsum_cong: "(\<And>i. i < n \<Longrightarrow> f i = g i) \<Longrightarrow> xsum f n = xsum g n"
  by (induction n) auto

lemma xsum_zero [simp]: "xsum (\<lambda>_. 0) n = 0"
  by (induction n) auto

lemma xsum_xor: "xsum (\<lambda>i. f i XOR g i) n = xsum f n XOR xsum g n"
  by (induction n) (auto simp: xor.assoc xor.left_commute)

lemma xsum_swap: "xsum (\<lambda>i. xsum (\<lambda>j. f i j) m) n = xsum (\<lambda>j. xsum (\<lambda>i. f i j) n) m"
  by (induction n) (auto simp: xsum_xor)

lemma xsum_add: "xsum f (m + n) = xsum f m XOR xsum (\<lambda>i. f (m + i)) n"
  by (induction n) (auto simp: xor.assoc)

lemma xsum_linear:
  assumes "h 0 = 0" "\<And>a b. h (a XOR b) = h a XOR h b"
  shows "h (xsum f n) = xsum (\<lambda>i. h (f i)) n"
  by (induction n) (auto simp: assms)

lemma bit_xsum: "bit (xsum f n) k = odd (card {i. i < n \<and> bit (f i) k})"
proof (induction n)
  case (Suc n)
  have "{i. i < Suc n \<and> bit (f i) k} = {i. i < n \<and> bit (f i) k} \<union> (if bit (f n) k then {n} else {})"
    by (auto simp: less_Suc_eq)
  then show ?case using Suc by (auto simp: bit_xor_iff card_insert_if)
qed simp

lemma xsum_bits: "n \<le> LENGTH('a) \<Longrightarrow> xsum (\<lambda>i. if bit V i then push_bit i 1 else 0) n = take_bit n (V :: 'a::len word)"
proof (induction n)
  case (Suc n)
  have "take_bit (Suc n) V = take_bit n V XOR (if bit V n then push_bit n 1 else 0)"
    by (rule bit_word_eqI) (auto simp: bit_simps less_Suc_eq)
  then show ?case using Suc by simp
qed simp

text \<open>Multiplication by \<open>x\<close> is linear, and so are its powers.\<close>

lemma and_top: "V AND 0x8000000000000000 = 0 \<longleftrightarrow> \<not> bit (V :: u64) 63"
  using and_exp_eq_0_iff_not_bit [of V 63] by simp

lemma MUL64x_xor: "s3g_MUL64x (a XOR b) c = s3g_MUL64x a c XOR s3g_MUL64x b c"
  by (rule bit_word_eqI) (auto simp: s3g_MUL64x_def and_top bit_simps)

lemma MUL64x_zero [simp]: "s3g_MUL64x 0 c = 0"
  by (simp add: s3g_MUL64x_def)

lemma MUL64xPOW_zero [simp]: "s3g_MUL64xPOW 0 i c = 0"
  by (induction i) auto

lemma MUL64xPOW_xor: "s3g_MUL64xPOW (a XOR b) i c = s3g_MUL64xPOW a i c XOR s3g_MUL64xPOW b i c"
  by (induction i) (auto simp: MUL64x_xor)

lemma MUL64xPOW_add: "s3g_MUL64xPOW (s3g_MUL64xPOW V i c) j c = s3g_MUL64xPOW V (i + j) c"
  by (induction j) auto

lemma MUL64xPOW_unit: "i < 64 \<Longrightarrow> s3g_MUL64xPOW 1 i c = push_bit i 1"
proof (induction i)
  case (Suc i)
  then have "\<not> bit (push_bit i 1 :: u64) 63" by (simp add: bit_exp_iff)
  then show ?case using Suc by (simp add: s3g_MUL64x_def and_top)
qed simp

lemma bit_as_drop: "(drop_bit i (P :: 'a::len word) AND 1 \<noteq> 0) = bit P i"
  by (simp add: drop_bit_and_one)

lemma MUL64_xsum: "s3g_MUL64 V P c = xsum (\<lambda>i. if bit P i then s3g_MUL64xPOW V i c else 0) 64"
proof -
  have "fold (\<lambda>i r. if bit P i then r XOR s3g_MUL64xPOW V i c else r) [0..<n] 0 =
      xsum (\<lambda>i. if bit P i then s3g_MUL64xPOW V i c else 0) n" for n
    by (induction n) auto
  then show ?thesis by (simp only: s3g_MUL64_def bit_as_drop)
qed

lemma MUL64_comm: "s3g_MUL64 V P c = s3g_MUL64 P V c"
proof -
  have sym: "s3g_MUL64 V P c = xsum (\<lambda>i. xsum (\<lambda>j. if bit P i \<and> bit V j then s3g_MUL64xPOW 1 (i + j) c else 0) 64) 64" for V P
  proof -
    have "s3g_MUL64xPOW V i c = xsum (\<lambda>j. if bit V j then s3g_MUL64xPOW 1 (i + j) c else 0) 64" for i
    proof -
      have "V = xsum (\<lambda>j. if bit V j then push_bit j 1 else 0) 64" using take_bit_length_eq [of V] by (simp add: xsum_bits)
      also have "\<dots> = xsum (\<lambda>j. if bit V j then s3g_MUL64xPOW 1 j c else 0) 64"
        by (rule xsum_cong) (simp add: MUL64xPOW_unit)
      finally have "s3g_MUL64xPOW V i c = s3g_MUL64xPOW \<dots> i c" by simp
      also have "\<dots> = xsum (\<lambda>j. s3g_MUL64xPOW (if bit V j then s3g_MUL64xPOW 1 j c else 0) i c) 64"
        by (rule xsum_linear) (simp_all add: MUL64xPOW_xor)
      also have "\<dots> = xsum (\<lambda>j. if bit V j then s3g_MUL64xPOW 1 (i + j) c else 0) 64"
        by (rule xsum_cong) (simp add: MUL64xPOW_add add.commute)
      finally show ?thesis .
    qed
    then show ?thesis unfolding MUL64_xsum by (intro xsum_cong) auto
  qed
  show ?thesis unfolding sym [of V] sym [of P]
    by (subst xsum_swap, intro xsum_cong) (simp add: add.commute conj_commute)
qed


text \<open>The table of row \<open>r\<close>: entry \<open>x\<close> is the sum of \<open>P\<close> shifted by \<open>8r + t\<close> over the set bits \<open>t\<close> of \<open>x\<close>.\<close>

definition pm_rows_ok :: "u64 \<Rightarrow> u64 \<Rightarrow> nat \<Rightarrow> mul_table \<Rightarrow> bool" where
  "pm_rows_ok P c n PM \<longleftrightarrow> (\<forall>r < n. \<forall>x < 256. PM r x = xsum (\<lambda>t. if bit x t then s3g_MUL64xPOW P (8 * r + t) c else 0) 8)"

definition pm_basis_ok :: "u64 \<Rightarrow> u64 \<Rightarrow> nat \<Rightarrow> mul_table \<Rightarrow> bool" where
  "pm_basis_ok P c n PM \<longleftrightarrow> (\<forall>r < 8. PM r 0 = 0) \<and> (\<forall>i < n. PM (i div 8) (2 ^ (i mod 8)) = s3g_MUL64xPOW P i c)"

lemma nat_and_7: "(n :: nat) AND 7 = n mod 8"
proof -
  have "(7 :: nat) = mask 3" by (simp add: mask_eq_exp_minus_1)
  then show ?thesis by (simp only: take_bit_eq_mask [symmetric]) (simp add: take_bit_eq_mod)
qed

lemma pre_mul_shift_eq:
  "pre_mul_shift c i PM = pm_set PM (i div 8) (2 ^ (i mod 8)) (s3g_MUL64x (PM ((i - 1) div 8) (2 ^ ((i - 1) mod 8))) c)"
  by (auto simp: pre_mul_shift_def Let_def drop_bit_eq_div nat_and_7 s3g_MUL64x_def pm_set_def)

lemma pm_basis_loop:
  assumes "1 \<le> n" "n \<le> 64" "pm_basis_ok P c 1 PM"
  shows "pm_basis_ok P c n (fold (pre_mul_shift c) [1..<n] PM)"
  using assms(1,2)
proof (induction n rule: dec_induct)
  case (step n)
  let ?PM = "fold (pre_mul_shift c) [1..<n] PM"
  have ih: "pm_basis_ok P c n ?PM" using step by simp
  have v: "?PM ((n - 1) div 8) (2 ^ ((n - 1) mod 8)) = s3g_MUL64xPOW P (n - 1) c"
    using ih step(1) by (simp add: pm_basis_ok_def)
  have pw: "s3g_MUL64x (s3g_MUL64xPOW P (n - 1) c) c = s3g_MUL64xPOW P n c"
    using step(1) by (cases n) auto
  have ne: "i div 8 = n div 8 \<Longrightarrow> i mod 8 = n mod 8 \<Longrightarrow> i = n" for i by (metis div_mult_mod_eq)
  have "fold (pre_mul_shift c) [1..<Suc n] PM = pm_set ?PM (n div 8) (2 ^ (n mod 8)) (s3g_MUL64xPOW P n c)"
    using step(1) by (simp add: pre_mul_shift_eq v [simplified] pw [simplified])
  then show ?case using ih ne by (auto simp: pm_basis_ok_def pm_set_def less_Suc_eq)
qed (use assms in simp)

lemma pre_mul_fill_loop:
  assumes "m \<le> 2 ^ j"
  shows "fold (pre_mul_fill i j) [1..<m] PM = (\<lambda>r x. if r = i \<and> 2 ^ j < x \<and> x < 2 ^ j + m
    then PM i (2 ^ j) XOR PM i (x - 2 ^ j) else PM r x)"
  using assms
proof (induction m)
  case (Suc m)
  show ?case
  proof (cases "m = 0")
    case False
    then have u: "[1..<Suc m] = [1..<m] @ [m]" by simp
    have ih: "fold (pre_mul_fill i j) [1..<m] PM = (\<lambda>r x. if r = i \<and> 2 ^ j < x \<and> x < 2 ^ j + m
      then PM i (2 ^ j) XOR PM i (x - 2 ^ j) else PM r x)" using Suc by simp
    show ?thesis using Suc.prems False unfolding u fold_append o_apply ih
      by (intro ext) (auto simp: pre_mul_fill_def pm_set_def less_Suc_eq)
  qed (auto intro!: ext)
qed (auto intro!: ext)

lemma xsum_bit_zero [simp]: "xsum (\<lambda>t. if bit (0 :: nat) t then f t else 0) n = 0"
  by simp

lemma fill_row:
  fixes e :: "nat \<Rightarrow> u64"
  assumes "1 \<le> n" "n \<le> 8" "PM i 0 = 0" "\<And>t. t < 8 \<Longrightarrow> PM i (2 ^ t) = e t"
  defines "R \<equiv> fold (\<lambda>j. fold (pre_mul_fill i j) [1..<push_bit j 1]) [1..<n] PM"
  shows "(\<forall>x < 2 ^ n. R i x = xsum (\<lambda>t. if bit x t then e t else 0) n) \<and> (\<forall>t < 8. R i (2 ^ t) = e t) \<and>
    (\<forall>r x. r \<noteq> i \<longrightarrow> R r x = PM r x)"
  using assms(1,2) unfolding R_def
proof (induction n rule: dec_induct)
  case base
  have "x < 2 \<Longrightarrow> PM i x = (if bit x 0 then e 0 else 0)" for x
    using assms(3) assms(4) [of 0] by (auto simp: less_2_cases_iff bit_0)
  then show ?case using assms(4) by simp
next
  case (step n)
  let ?R = "fold (\<lambda>j. fold (pre_mul_fill i j) [1..<push_bit j 1]) [1..<n] PM"
  have ih: "x < 2 ^ n \<Longrightarrow> ?R i x = xsum (\<lambda>t. if bit x t then e t else 0) n" "t < 8 \<Longrightarrow> ?R i (2 ^ t) = e t"
    "r \<noteq> i \<Longrightarrow> ?R r x = PM r x" for x t r using step by simp_all
  have u: "[1..<Suc n] = [1..<n] @ [n]" using step(1) by simp
  have n8: "n < 8" using step.prems by simp
  have R: "fold (\<lambda>j. fold (pre_mul_fill i j) [1..<push_bit j 1]) [1..<Suc n] PM =
      (\<lambda>r x. if r = i \<and> 2 ^ n < x \<and> x < 2 ^ n + 2 ^ n then ?R i (2 ^ n) XOR ?R i (x - 2 ^ n) else ?R r x)"
    unfolding u fold_append o_apply using pre_mul_fill_loop [of "2 ^ n" n i ?R] by (simp add: push_bit_eq_mult)
  have hi: "xsum (\<lambda>t. if bit x t then e t else 0) (Suc n) = xsum (\<lambda>t. if bit (x - 2 ^ n) t then e t else 0) n XOR e n"
    if x: "2 ^ n \<le> x" "x < 2 ^ Suc n" for x :: nat
  proof -
    obtain k where k: "x = 2 ^ n + k" "k < 2 ^ n" using x that by (metis le_Suc_ex nat_add_left_cancel_less power_Suc mult_2)
    have "take_bit n x = k" using k by (simp add: take_bit_eq_mod)
    then have lo: "t < n \<Longrightarrow> bit x t = bit k t" for t by (metis bit_take_bit_iff)
    have "bit x n" using k by (simp add: bit_iff_odd div_add_self1)
    then show ?thesis using k lo xsum_cong [of n "\<lambda>t. if bit x t then e t else 0" "\<lambda>t. if bit k t then e t else 0"] by simp
  qed
  have lo: "xsum (\<lambda>t. if bit x t then e t else 0) (Suc n) = xsum (\<lambda>t. if bit x t then e t else 0) n"
    if "x < 2 ^ n" for x :: nat using that by (simp add: bit_iff_odd)
  show ?case unfolding R
  proof (intro conjI allI impI)
    fix x :: nat
    assume x: "x < 2 ^ Suc n"
    consider "x < 2 ^ n" | "x = 2 ^ n" | "2 ^ n < x" by linarith
    then show "(if i = i \<and> 2 ^ n < x \<and> x < 2 ^ n + 2 ^ n then ?R i (2 ^ n) XOR ?R i (x - 2 ^ n) else ?R i x) =
        xsum (\<lambda>t. if bit x t then e t else 0) (Suc n)"
    proof cases
      case 1
      then show ?thesis using lo [OF 1] ih(1) [OF 1] by simp
    next
      case 2
      then show ?thesis using hi [of x] ih(2) [of n] n8 by simp
    next
      case 3
      then have "x - 2 ^ n < 2 ^ n" using x by simp
      then show ?thesis using 3 x hi [of x] ih(1) [of "x - 2 ^ n"] ih(2) [of n] n8 by (simp add: xor.commute mult_2)
    qed
  next
    fix t :: nat
    assume t: "t < 8"
    have "\<not> (2 ^ n < (2 :: nat) ^ t \<and> (2 :: nat) ^ t < 2 ^ n + 2 ^ n)"
    proof
      assume "2 ^ n < (2 :: nat) ^ t \<and> (2 :: nat) ^ t < 2 ^ n + 2 ^ n"
      then have "(2 :: nat) ^ n < 2 ^ t" "(2 :: nat) ^ t < 2 ^ Suc n" by (simp_all add: mult_2)
      then have "n < t" "t < Suc n" by (simp_all only: power_strict_increasing_iff one_less_numeral_iff semiring_norm)
      then show False by simp
    qed
    then have np: "\<not> (i = i \<and> 2 ^ n < (2 :: nat) ^ t \<and> (2 :: nat) ^ t < 2 ^ n + 2 ^ n)" by simp
    show "(if i = i \<and> 2 ^ n < (2 :: nat) ^ t \<and> (2 :: nat) ^ t < 2 ^ n + 2 ^ n then ?R i (2 ^ n) XOR ?R i (2 ^ t - 2 ^ n) else ?R i (2 ^ t)) = e t"
      unfolding if_not_P [OF np] by (rule ih(2) [OF t])
  qed (use ih(3) in auto)
qed


lemma fill_rows:
  assumes "n \<le> 8" "pm_basis_ok P c 64 PM"
  shows "pm_rows_ok P c n (fold (\<lambda>i. fold (\<lambda>j. fold (pre_mul_fill i j) [1..<push_bit j 1]) [1..<8]) [0..<n] PM) \<and>
    (\<forall>r x. n \<le> r \<longrightarrow> fold (\<lambda>i. fold (\<lambda>j. fold (pre_mul_fill i j) [1..<push_bit j 1]) [1..<8]) [0..<n] PM r x = PM r x)"
  using assms(1)
proof (induction n)
  case (Suc n)
  let ?G = "\<lambda>i. fold (\<lambda>j. fold (pre_mul_fill i j) [1..<push_bit j 1]) [1..<8]"
  let ?R = "fold ?G [0..<n] PM"
  have ih: "pm_rows_ok P c n ?R" "n \<le> r \<Longrightarrow> ?R r x = PM r x" for r x using Suc by simp_all
  have "?R n 0 = 0" "t < 8 \<Longrightarrow> ?R n (2 ^ t) = s3g_MUL64xPOW P (8 * n + t) c" for t
  proof -
    show "?R n 0 = 0" using ih(2) assms(2) Suc.prems by (simp add: pm_basis_ok_def)
    assume t: "t < 8"
    then have d: "8 * n + t < 64" "(8 * n + t) div 8 = n" "(8 * n + t) mod 8 = t" using Suc.prems by simp_all
    have "PM ((8 * n + t) div 8) (2 ^ ((8 * n + t) mod 8)) = s3g_MUL64xPOW P (8 * n + t) c"
      using assms(2) d(1) unfolding pm_basis_ok_def by blast
    then show "?R n (2 ^ t) = s3g_MUL64xPOW P (8 * n + t) c" unfolding d(2,3) ih(2) [OF order_refl] .
  qed
  from fill_row [of 8 ?R n "\<lambda>t. s3g_MUL64xPOW P (8 * n + t) c", OF _ _ this]
  have row: "x < 256 \<Longrightarrow> ?G n ?R n x = xsum (\<lambda>t. if bit x t then s3g_MUL64xPOW P (8 * n + t) c else 0) 8"
    "r \<noteq> n \<Longrightarrow> ?G n ?R r x = ?R r x" for x r by simp_all
  have u: "fold ?G [0..<Suc n] PM = ?G n ?R" by simp
  show ?case unfolding u
  proof (intro conjI allI impI)
    show "pm_rows_ok P c (Suc n) (?G n ?R)" unfolding pm_rows_ok_def
    proof (intro allI impI)
      fix r x :: nat
      assume r: "r < Suc n" and x: "x < 256"
      show "?G n ?R r x = xsum (\<lambda>t. if bit x t then s3g_MUL64xPOW P (8 * r + t) c else 0) 8"
      proof (cases "r = n")
        case False
        then have "?R r x = xsum (\<lambda>t. if bit x t then s3g_MUL64xPOW P (8 * r + t) c else 0) 8"
          using ih(1) [unfolded pm_rows_ok_def, rule_format, of r x] r x by linarith
        then show ?thesis unfolding row(2) [OF False] .
      next
        case True
        show ?thesis unfolding True by (rule row(1) [OF x])
      qed
    qed
    fix r x :: nat
    assume "Suc n \<le> r"
    then have "r \<noteq> n" "n \<le> r" by simp_all
    show "?G n ?R r x = PM r x" unfolding row(2) [OF \<open>r \<noteq> n\<close>] by (rule ih(2) [OF \<open>n \<le> r\<close>])
  qed
qed (simp add: pm_rows_ok_def)

lemma PRE_MUL_P_rows: "pm_rows_ok P c 8 (s3g_PRE_MUL_P PM P c)"
proof -
  have z: "(\<forall>r < n. fold (\<lambda>i PM. pm_set PM i 0 0) [0..<n] PM r 0 = 0)" for n
    by (induction n) (auto simp: pm_set_def less_Suc_eq)
  have "pm_basis_ok P c 1 (pm_set (fold (\<lambda>i PM. pm_set PM i 0 0) [0..<8] PM) 0 1 P)"
    using z [of 8] by (auto simp: pm_basis_ok_def pm_set_def)
  from pm_basis_loop [OF _ _ this, of 64] show ?thesis
    unfolding s3g_PRE_MUL_P_def Let_def by (intro fill_rows [THEN conjunct1]) simp_all
qed

lemma MUL_P_eq: "s3g_MUL_P (s3g_PRE_MUL_P PM P c) X = s3g_MUL64 X P c"
proof -
  let ?PM = "s3g_PRE_MUL_P PM P c"
  define f where "f = (\<lambda>i. if bit X i then s3g_MUL64xPOW P i c else 0)"
  have e: "?PM r (unat (drop_bit (8 * r) X AND 0xff)) = xsum (\<lambda>t. f (8 * r + t)) 8" if "r < 8" for r
  proof -
    let ?x = "unat (drop_bit (8 * r) X AND 0xff)"
    have b: "t < 8 \<Longrightarrow> bit ?x t = bit X (8 * r + t)" for t
      by (simp add: and_masks bit_unsigned_iff bit_simps)
    have "?x < 256" using take_bit_nat_less_exp [of 8 "unat (drop_bit (8 * r) X)"]
      by (simp add: and_masks unsigned_take_bit_eq)
    then have "?PM r ?x = xsum (\<lambda>t. if bit ?x t then s3g_MUL64xPOW P (8 * r + t) c else 0) 8"
      using PRE_MUL_P_rows [of P c PM] that unfolding pm_rows_ok_def by blast
    also have "\<dots> = xsum (\<lambda>t. f (8 * r + t)) 8" by (rule xsum_cong) (simp add: b f_def)
    finally show ?thesis .
  qed
  have s: "xsum f (8 * r + 8) = xsum f (8 * r) XOR xsum (\<lambda>t. f (8 * r + t)) 8" for r
    by (rule xsum_add)
  have "s3g_MUL_P ?PM X = xsum f 64"
    unfolding s3g_MUL_P_def
    using e [of 0] e [of 1] e [of 2] e [of 3] e [of 4] e [of 5] e [of 6] e [of 7]
      s [of 7] s [of 6] s [of 5] s [of 4] s [of 3] s [of 2] s [of 1]
    by (simp add: xor.assoc del: xsum.simps)
  also have "\<dots> = s3g_MUL64 P X c" by (simp add: MUL64_xsum f_def del: xsum.simps)
  finally show ?thesis by (simp only: MUL64_comm)
qed

text \<open>
  Property C38: multiplying through the precomputed lookup tables gives the same value as the bit-by-bit
  multiplication in the field of 2 to the 64, for every constant, polynomial and argument, whatever the table held
  before it was built.
\<close>

theorem mul_tables_multiply: "s3g_MUL_P (s3g_PRE_MUL_P PM P c) X = s3g_MUL64 X P c"
  by (rule MUL_P_eq)

end
