(* ===== verification/Sec_Nia.thy ===== *)
theory Sec_Nia
  imports Sec_Nea Sec_Snow3g_Mul
begin

text \<open>
  The integrity algorithms 128-NIA1, 128-NIA2 and 128-NIA3 (\<open>include/srsran/security/integrity.h\<close>,
  \<open>lib/security/integrity_engine_nia2_non_cmac.cpp\<close>, \<open>s3g_f9\<close> of \<open>lib/security/s3g.cpp\<close>), each with the
  definition of the MAC in its specification.
\<close>

section \<open>The MAC of UIA2\<close>

text \<open>
  Reference: the message is cut into 64-bit blocks, the last one filled up with zero bytes; the blocks are absorbed by
  multiplication with \<open>P\<close>, then the length in bits by multiplication with \<open>Q\<close>, and the upper half is masked.
\<close>

definition uia2_block :: "bytes \<Rightarrow> u64" where
  "uia2_block bs = fold (\<lambda>i w. w OR push_bit (8 * (7 - i)) (ucast (bs ! i))) [0..<length bs] 0"

definition uia2_blocks :: "bytes \<Rightarrow> u64 list" where
  "uia2_blocks data = map (\<lambda>j. uia2_block (take 8 (drop (8 * j) data))) [0..<(length data + 7) div 8]"

definition uia2_mac :: "bytes \<Rightarrow> u32 \<Rightarrow> u32 \<Rightarrow> u32 \<Rightarrow> bytes \<Rightarrow> bytes" where
  "uia2_mac key count fresh dir data =
     (let z = s3g_generate_keystream (s3g_initialize (map (f9_key key) [3, 2, 1, 0])
                [fresh XOR push_bit 15 dir, count XOR push_bit 31 dir, fresh, count]) 5;
          P = push_bit 32 (ucast (z ! 0)) OR ucast (z ! 1);
          Q = push_bit 32 (ucast (z ! 2)) OR ucast (z ! 3);
          EVAL = foldl (\<lambda>E M. s3g_MUL64 (E XOR M) P 0x1b) 0 (uia2_blocks data);
          EVAL = s3g_MUL64 (EVAL XOR of_nat (8 * length data)) Q 0x1b
      in word_bytes (ucast (drop_bit 32 EVAL) XOR z ! 4))"

lemma s3g_byte_at:
  "n < length data \<Longrightarrow> length data < 2 ^ 29 \<Longrightarrow> i = of_nat n \<Longrightarrow> s3g_byte data i = Some (ucast (data ! n))"
  by (simp add: s3g_byte_def unat_of_nat_u32)

lemma upt_8: "[0..<8] = [0, 1, 2, 3, 4, 5, 6, 7]" "[0..<4] = [0, 1, 2, 3]"
  by (simp_all add: upt_rec)

lemma f9_block_at:
  assumes "8 * j + 8 \<le> length data" "length data < 2 ^ 29"
  shows "f9_block data (of_nat j) = Some (uia2_block (take 8 (drop (8 * j) data)))"
proof -
  have b: "s3g_byte data (8 * of_nat j + of_nat i) = Some (ucast (data ! (8 * j + i)))" if "i < 8" for i
    using assms that by (intro s3g_byte_at) simp_all
  have u: "uia2_block (take 8 (drop (8 * j) data)) =
      push_bit 56 (ucast (data ! (8 * j))) OR push_bit 48 (ucast (data ! (8 * j + 1))) OR
      push_bit 40 (ucast (data ! (8 * j + 2))) OR push_bit 32 (ucast (data ! (8 * j + 3))) OR
      push_bit 24 (ucast (data ! (8 * j + 4))) OR push_bit 16 (ucast (data ! (8 * j + 5))) OR
      push_bit 8 (ucast (data ! (8 * j + 6))) OR ucast (data ! (8 * j + 7))"
    using assms unfolding uia2_block_def length_take length_drop
    by (simp add: upt_8 or.assoc)
  show ?thesis unfolding u f9_block_def
    using b [of 0] b [of 1] b [of 2] b [of 3] b [of 4] b [of 5] b [of 6] b [of 7] by simp
qed

lemma f9_blocks_at:
  assumes "8 * (i + m) \<le> length data" "length data < 2 ^ 29"
  shows "f9_blocks PM data (of_nat i) m E =
    Some (foldl (\<lambda>E M. s3g_MUL_P PM (E XOR M)) E (map (\<lambda>j. uia2_block (take 8 (drop (8 * j) data))) [i..<i + m]))"
  using assms(1)
proof (induction m arbitrary: i E)
  case (Suc m)
  have b: "f9_block data (of_nat i) = Some (uia2_block (take 8 (drop (8 * i) data)))"
    using Suc.prems assms(2) by (intro f9_block_at) simp_all
  have u: "[i..<i + Suc m] = i # [Suc i..<Suc i + m]" by (simp add: upt_rec)
  have n: "of_nat i + 1 = (of_nat (Suc i) :: u32)" by simp
  show ?case unfolding u using Suc.IH [of "Suc i"] Suc.prems by (simp add: b n del: upt_Suc of_nat_Suc)
qed simp

lemma f9_last_at:
  assumes "i + r \<le> 8" "b + i + r \<le> length data" "length data < 2 ^ 29"
  shows "f9_last data (of_nat b) i (8 * r) M =
    Some (fold (\<lambda>i w. w OR push_bit (8 * (7 - i)) (ucast (data ! (b + i)))) [i..<i + r] M)"
  using assms(1,2)
proof (induction r arbitrary: i M)
  case 0
  then show ?case by (simp add: f9_last.simps)
next
  case (Suc r)
  have b: "s3g_byte data (of_nat b + of_nat i) = Some (ucast (data ! (b + i)))"
    using Suc.prems assms(3) by (intro s3g_byte_at) simp_all
  have u: "[i..<i + Suc r] = i # [Suc i..<Suc i + r]" by (simp add: upt_rec)
  show ?case unfolding u using Suc.IH [of "Suc i"] Suc.prems
    by (simp add: f9_last.simps [of _ _ i] b del: upt_Suc)
qed

lemma uia2_last:
  assumes "length bs \<le> 8"
  shows "uia2_block (take 8 bs) = uia2_block bs"
  using assms by simp

lemma word_bytes_high:
  "map (\<lambda>i. ucast ((drop_bit (56 - i * 8) (E :: u64) XOR ucast (drop_bit (24 - i * 8) (z :: u32))) AND 0xff) :: u8) [0..<4] =
    word_bytes (ucast (drop_bit 32 E) XOR z)"
proof -
  have "ucast ((drop_bit (32 + k) E XOR ucast (drop_bit k z)) AND 0xff) = (ucast (drop_bit k (ucast (drop_bit 32 E) XOR z)) :: u8)"
    if "k \<le> 24" for k
    by (rule bit_word_eqI) (use that in \<open>auto simp: and_masks bit_simps add.assoc dest: bit_imp_le_length\<close>)
  from this [of 24] this [of 16] this [of 8] this [of 0] show ?thesis
    by (simp add: word_bytes_def upt_rec)
qed

lemma ucast_of_nat_down: "ucast (of_nat m :: u64) = (of_nat m :: u32)"
  by (rule unsigned_word_eqI [where ?'a = nat]) (simp add: unsigned_of_nat unsigned_ucast_eq take_bit_take_bit del: take_bit_of_nat)

lemma s3g_f9_eq:
  assumes "length data < 2 ^ 29"
  shows "s3g_f9 key count fresh dir data (of_nat (8 * length data)) =
    (if data = [] then None else Some (uia2_mac key count fresh dir data))"
proof -
  let ?n = "length data" let ?len = "of_nat (8 * length data) :: u64" let ?j = "(?n - 1) div 8"
  define z where "z = s3g_generate_keystream (s3g_initialize (map (f9_key key) [3, 2, 1, 0])
                [fresh XOR push_bit 15 dir, count XOR push_bit 31 dir, fresh, count]) 5"
  have len: "unat ?len = 8 * ?n" using assms by (simp add: unsigned_of_nat take_bit_nat_eq_self del: of_nat_mult)
  let ?D = "ucast (if ?len mod 64 = 0 then drop_bit 6 ?len + 1 else drop_bit 6 ?len + 2) :: u32"
  show ?thesis
  proof (cases "data = []")
    case True
    have b: "f9_blocks PM data 0 (unat (?D - 2)) E = None" for PM E
    proof -
      have "unat (?D - 2) = Suc (unat (?D - 3))" by (simp add: True unsigned_minus_1_eq_mask mask_eq_exp_minus_1)
      moreover have "f9_block data 0 = None" by (simp add: f9_block_def s3g_byte_def True)
      ultimately show ?thesis by simp
    qed
    then show ?thesis by (simp add: s3g_f9_def Let_def True)
  next
    case False
    then have n: "0 < ?n" by simp
    have d6: "drop_bit 6 ?len = of_nat (?n div 8)"
    proof -
      have "unat (?len div 64) = ?n div 8" unfolding unat_div len by simp
      then have "unat (drop_bit 6 ?len) = ?n div 8" by (simp add: drop_bit_eq_div)
      moreover have "unat (of_nat (?n div 8) :: u64) = ?n div 8"
        using assms by (simp add: unsigned_of_nat take_bit_nat_eq_self)
      ultimately show ?thesis by (simp only: word_eq_iff_unsigned [where ?'a = nat])
    qed
    have m64: "unat (?len mod 64) = 8 * (?n mod 8)" unfolding unat_mod len by (simp add: mult_mod_right)
    then have m0: "?len mod 64 = 0 \<longleftrightarrow> ?n mod 8 = 0" by (metis mult_eq_0_iff unat_eq_zero zero_neq_numeral)
    have D: "?D - 2 = of_nat ?j"
    proof (cases "?n mod 8 = 0")
      case True
      then have m: "?n = 8 * (?n div 8)" using mult_div_mod_eq [of 8 ?n] by linarith
      then have "?n div 8 \<noteq> 0" using n by linarith
      then obtain k where q: "?n div 8 = Suc k" by (rule not0_implies_Suc [THEN exE])
      with m q have k: "?n = 8 * Suc k" by simp
      have j: "?j = k" unfolding k by simp
      have "drop_bit 6 ?len + 1 = of_nat (k + 2)" unfolding d6 q by simp
      then show ?thesis unfolding m0 if_P [OF True] j by (simp only: ucast_of_nat_down) simp
    next
      case False
      then have "?j = ?n div 8" by (metis One_nat_def Suc_pred div_Suc n)
      moreover have "drop_bit 6 ?len + 2 = of_nat (?n div 8 + 2)" unfolding d6 by simp
      ultimately show ?thesis unfolding m0 if_not_P [OF False] by (simp only: ucast_of_nat_down) simp
    qed
    have jn: "?j < 2 ^ 32" using assms by simp
    have unD: "unat (?D - 2) = ?j" unfolding D by (rule unat_of_nat_u32 [OF jn])
    let ?r = "?n - 8 * ?j"
    have r: "0 < ?r" "?r \<le> 8" "8 * ?j + ?r = ?n" using n by linarith+
    have rem: "(if ?len mod 64 = 0 then 64 else unat (?len mod 64)) = 8 * ?r"
    proof -
      have "(?r + 8 * ?j) mod 8 = ?r mod 8" by (rule mod_mult_self2)
      then have "?n mod 8 = ?r mod 8" using r(3) by (simp only: add.commute)
      moreover have "?r mod 8 = (if ?r = 8 then 0 else ?r)" using r(2) by simp
      ultimately show ?thesis unfolding m0 m64 using r(1) by simp
    qed
    have full: "f9_blocks PM data 0 ?j E =
        Some (foldl (\<lambda>E M. s3g_MUL_P PM (E XOR M)) E (map (\<lambda>j. uia2_block (take 8 (drop (8 * j) data))) [0..<?j]))" for PM E
      using f9_blocks_at [of 0 ?j data PM E] assms r by simp
    have last: "f9_last data (8 * (?D - 2)) 0 (8 * ?r) 0 = Some (uia2_block (take 8 (drop (8 * ?j) data)))"
    proof -
      have "f9_last data (of_nat (8 * ?j)) 0 (8 * ?r) 0 = Some (uia2_block (drop (8 * ?j) data))"
        unfolding uia2_block_def using f9_last_at [of 0 ?r "8 * ?j" data 0] r assms by simp
      then show ?thesis unfolding D using r by simp
    qed
    have bl: "uia2_blocks data = map (\<lambda>j. uia2_block (take 8 (drop (8 * j) data))) [0..<?j] @
        [uia2_block (take 8 (drop (8 * ?j) data))]"
    proof -
      have "(?n + 7) div 8 = Suc ?j" using n by linarith
      then show ?thesis by (simp add: uia2_blocks_def)
    qed
    have key: "[f9_key key 3, f9_key key 2, f9_key key 1, f9_key key 0] = map (f9_key key) [3, 2, 1, 0]" by simp
    show ?thesis unfolding s3g_f9_def Let_def key z_def [symmetric] unD full option.case rem last word_bytes_high
      uia2_mac_def bl using False by (simp add: MUL_P_eq)
  qed
qed

section \<open>128-NIA1\<close>

text \<open>
  The functions are modelled in the form in which they are called, with a length of \<open>msg.length() * 8\<close> bits.  \<open>mac\<close>
  is the MAC passed in, returned unchanged where the code does not write it.
\<close>

definition security_nia1 :: "bytes \<Rightarrow> bytes \<Rightarrow> u32 \<Rightarrow> u8 \<Rightarrow> security_direction \<Rightarrow> bytes \<Rightarrow> bytes option" where
  "security_nia1 mac key count bearer direction msg =
     (let msg_len = of_nat (length msg) * 8 :: u32 in
      if unat ((msg_len + 7) div 8) \<le> length msg
      then s3g_f9 key count (push_bit 27 (ucast bearer)) (ucast (dir_to_number direction)) msg (ucast msg_len)
      else Some mac)"

section \<open>128-NIA2\<close>

text \<open>
  The variant without the CMAC module of the TLS library (\<open>lib/security/integrity_engine_nia2_non_cmac.cpp\<close>).  The AES
  block encryption under the key of the context is the parameter \<open>aes_ecb\<close>.  The number of blocks is computed in
  \<open>float\<close>; the assertion bounds the length by 9076, so dividing by 16 and rounding up are exact.
\<close>

definition nia2_subkey :: "bytes \<Rightarrow> bytes" where
  "nia2_subkey l =
     (let k = map (\<lambda>i. push_bit 1 (l ! i) OR (drop_bit 7 (l ! (i + 1)) AND 0x01)) [0..<15] @ [push_bit 1 (l ! 15)]
      in if l ! 0 AND 0x80 \<noteq> 0 then k[15 := k ! 15 XOR 0x87] else k)"

definition nia2_k1 :: "(bytes \<Rightarrow> bytes) \<Rightarrow> bytes" where
  "nia2_k1 aes_ecb = nia2_subkey (aes_ecb (replicate 16 0))"

definition nia2_k2 :: "(bytes \<Rightarrow> bytes) \<Rightarrow> bytes" where
  "nia2_k2 aes_ecb = nia2_subkey (nia2_k1 aes_ecb)"

definition nia2_preamble :: "u32 \<Rightarrow> u8 \<Rightarrow> security_direction \<Rightarrow> bytes" where
  "nia2_preamble count bearer_id direction =
     [ucast (drop_bit 24 count AND 0xff), ucast (drop_bit 16 count AND 0xff), ucast (drop_bit 8 count AND 0xff),
      ucast (count AND 0xff), push_bit 3 bearer_id OR push_bit 2 (dir_to_number direction), 0, 0, 0]"

definition nia2_chain :: "(bytes \<Rightarrow> bytes) \<Rightarrow> bytes \<Rightarrow> nat \<Rightarrow> bytes \<Rightarrow> bytes" where
  "nia2_chain aes_ecb msg i tmp_mac = aes_ecb (map (\<lambda>j. tmp_mac ! j XOR msg ! (i * 16 + j)) [0..<16])"

definition nia2_compute_mac :: "(bytes \<Rightarrow> bytes) \<Rightarrow> u8 \<Rightarrow> security_direction \<Rightarrow> bytes \<Rightarrow> u32 \<Rightarrow> bytes option" where
  "nia2_compute_mac aes_ecb bearer_id direction v count =
     (let len = length v in
      if \<not> len + 8 + 16 \<le> sec_max_pdu_size then None
      else
        let k1 = nia2_k1 aes_ecb; k2 = nia2_k2 aes_ecb;
            msg = nia2_preamble count bearer_id direction @ v @ replicate 16 0;
            n = (len + 8 + 15) div 16;
            tmp_mac = fold (nia2_chain aes_ecb msg) [0..<n - 1] (replicate 16 0);
            pad_bits = (len * 8 + 64) mod 128
        in if pad_bits = 0
           then Some (take 4 (aes_ecb (map (\<lambda>j. tmp_mac ! j XOR k1 ! j XOR msg ! ((n - 1) * 16 + j)) [0..<16])))
           else let pad_bits = (128 - pad_bits) - 1;
                    p = (n - 1) * 16 + (15 - pad_bits div 8);
                    msg = msg[p := msg ! p OR push_bit (pad_bits mod 8) 0x1]
                in Some (take 4 (aes_ecb (map (\<lambda>j. tmp_mac ! j XOR k2 ! j XOR msg ! ((n - 1) * 16 + j)) [0..<16]))))"

section \<open>128-NIA3\<close>

text \<open>\<open>GET_WORD\<close> reads one or two words of the keystream; a read outside of it is \<open>None\<close>.\<close>

definition GET_WORD :: "u32 list \<Rightarrow> nat \<Rightarrow> u32 option" where
  "GET_WORD DATA i =
     (let ti = i mod 32 in
      if ti = 0 then (if i div 32 < length DATA then Some (DATA ! (i div 32)) else None)
      else if i div 32 + 1 < length DATA
      then Some (push_bit ti (DATA ! (i div 32)) OR drop_bit (32 - ti) (DATA ! (i div 32 + 1))) else None)"

definition nia3_iv :: "u32 \<Rightarrow> u8 \<Rightarrow> security_direction \<Rightarrow> bytes" where
  "nia3_iv count bearer direction =
     (let d = push_bit 7 (dir_to_number direction AND 1);
          iv4 = push_bit 3 bearer AND 0xf8
      in [ucast (drop_bit 24 count AND 0xff), ucast (drop_bit 16 count AND 0xff), ucast (drop_bit 8 count AND 0xff),
          ucast (count AND 0xff), iv4, 0, 0, 0,
          ucast (drop_bit 24 count AND 0xff) XOR d, ucast (drop_bit 16 count AND 0xff),
          ucast (drop_bit 8 count AND 0xff), ucast (count AND 0xff), iv4, 0, 0 XOR d, 0])"

fun nia3_loop :: "u32 list \<Rightarrow> bytes \<Rightarrow> nat \<Rightarrow> nat \<Rightarrow> u32 \<Rightarrow> u32 option" where
  "nia3_loop ks msg i 0 T = Some T"
| "nia3_loop ks msg i (Suc n) T =
     (if msg ! (i div 8) AND push_bit (7 - i mod 8) 1 \<noteq> 0
      then (case GET_WORD ks i of None \<Rightarrow> None | Some w \<Rightarrow> nia3_loop ks msg (i + 1) n (T XOR w))
      else nia3_loop ks msg (i + 1) n T)"

definition security_nia3 :: "bytes \<Rightarrow> bytes \<Rightarrow> u32 \<Rightarrow> u8 \<Rightarrow> security_direction \<Rightarrow> bytes \<Rightarrow> bytes option" where
  "security_nia3 mac key count bearer direction msg =
     (let msg_len = of_nat (length msg) * 8 :: u32 in
      if unat ((msg_len + 7) div 8) \<le> length msg
      then let L = unat ((msg_len + 64 + 31) div 32);
               ks = zuc_generate_keystream (zuc_initialize key (nia3_iv count bearer direction)) L
           in case nia3_loop ks msg 0 (unat msg_len) 0 of None \<Rightarrow> None
              | Some T \<Rightarrow>
                  (case GET_WORD ks (unat msg_len) of None \<Rightarrow> None
                   | Some w \<Rightarrow> if L - 1 < length ks then Some (word_bytes (T XOR w XOR ks ! (L - 1))) else None)
      else Some mac)"

section \<open>128-NIA1 is UIA2\<close>

lemma msg_bits_u32:
  assumes "n < 2 ^ 28"
  shows "unat (of_nat n * 8 :: u32) = 8 * n" "ucast (of_nat n * 8 :: u32) = (of_nat (8 * n) :: u64)"
    "unat ((of_nat n * 8 + 64 + 31 :: u32) div 32) = (8 * n + 95) div 32"
proof -
  have e: "of_nat n * 8 = (of_nat (8 * n) :: u32)" by (simp add: mult.commute)
  show u: "unat (of_nat n * 8 :: u32) = 8 * n" unfolding e by (rule unat_of_nat_u32) (use assms in simp)
  show "ucast (of_nat n * 8 :: u32) = (of_nat (8 * n) :: u64)"
    unfolding u [symmetric] of_nat_unat ..
  have "of_nat n * 8 + 64 + 31 = (of_nat (8 * n + 95) :: u32)" unfolding e by simp
  then show "unat ((of_nat n * 8 + 64 + 31 :: u32) div 32) = (8 * n + 95) div 32"
    unfolding \<open>_ = (of_nat (8 * n + 95) :: u32)\<close> unat_div using unat_of_nat_u32 [of "8 * n + 95"] assms by simp
qed

lemma security_nia1_eq:
  assumes "length msg < 2 ^ 28"
  shows "security_nia1 mac key count bearer direction msg = (if msg = [] then None
    else Some (uia2_mac key count (push_bit 27 (ucast bearer)) (ucast (dir_to_number direction)) msg))"
  using assms s3g_f9_eq [of msg]
  unfolding security_nia1_def Let_def msg_bits_u32(2) [OF assms] nea_block_lengths(1) [OF assms] by simp

section \<open>128-NIA3 is the sum of keystream windows\<close>

text \<open>Reference: the 32 bits of the keystream from bit \<open>i\<close> on, and the sum over the set bits of the message.\<close>

definition ks_bit :: "u32 list \<Rightarrow> nat \<Rightarrow> bool" where
  "ks_bit ks j = bit (ks ! (j div 32)) (31 - j mod 32)"

definition ks_window :: "u32 list \<Rightarrow> nat \<Rightarrow> u32" where
  "ks_window ks i = horner_sum of_bool 2 (map (\<lambda>k. ks_bit ks (i + 31 - k)) [0..<32])"

definition msg_bit :: "bytes \<Rightarrow> nat \<Rightarrow> bool" where
  "msg_bit msg i = bit (msg ! (i div 8)) (7 - i mod 8)"

definition eia3_mac :: "u32 list \<Rightarrow> bytes \<Rightarrow> u32" where
  "eia3_mac ks msg =
     xsum (\<lambda>i. if msg_bit msg i then ks_window ks i else 0) (8 * length msg) XOR ks_window ks (8 * length msg) XOR
     ks_window ks (32 * (length ks - 1))"

lemma ks_bit_at: "r < 32 \<Longrightarrow> ks_bit ks (32 * q + r) = bit (ks ! q) (31 - r)"
  by (simp add: ks_bit_def)

lemma bit_ks_window: "bit (ks_window ks i) k \<longleftrightarrow> k < 32 \<and> ks_bit ks (i + 31 - k)"
  by (auto simp: ks_window_def bit_horner_sum_bit_word_iff)

lemma GET_WORD_window:
  assumes "i + 32 \<le> 32 * length ks"
  shows "GET_WORD ks i = Some (ks_window ks i)"
proof (cases "i mod 32 = 0")
  case True
  then obtain q where q: "i = 32 * q" by (metis dvd_def dvd_eq_mod_eq_0)
  have "ks ! q = ks_window ks i"
  proof (rule bit_word_eqI)
    fix k
    assume "k < LENGTH(32)"
    then have k: "k < 32" by simp
    then have e: "i + 31 - k = 32 * q + (31 - k)" by (simp add: q)
    have "31 - k < 32" by simp
    then have "ks_bit ks (i + 31 - k) = bit (ks ! q) k" unfolding e ks_bit_at [OF \<open>31 - k < 32\<close>] using k by simp
    then show "bit (ks ! q) k = bit (ks_window ks i) k" using k by (simp add: bit_ks_window)
  qed
  then show ?thesis using True assms q by (simp add: GET_WORD_def)
next
  case False
  define q t where "q = i div 32" and "t = i mod 32"
  have i: "i = 32 * q + t" "0 < t" "t < 32" using False by (simp_all add: q_def t_def)
  have l: "q + 1 < length ks" using assms i by linarith
  have "push_bit t (ks ! q) OR drop_bit (32 - t) (ks ! (q + 1)) = ks_window ks i"
  proof (rule bit_word_eqI)
    fix k
    assume "k < LENGTH(32)"
    then have k: "k < 32" by simp
    show "bit (push_bit t (ks ! q) OR drop_bit (32 - t) (ks ! (q + 1))) k = bit (ks_window ks i) k"
    proof (cases "t \<le> k")
      case True
      then have e: "i + 31 - k = 32 * q + (31 - (k - t))" using i k by simp
      have "ks_bit ks (i + 31 - k) = bit (ks ! q) (k - t)" unfolding e using ks_bit_at [of "31 - (k - t)" ks q] True k i by simp
      moreover have "\<not> bit (ks ! (q + 1)) (32 - t + k)" using True i bit_imp_le_length by fastforce
      ultimately show ?thesis using True k by (simp add: bit_ks_window bit_or_iff bit_push_bit_iff bit_drop_bit_eq)
    next
      case less: False
      then have e: "i + 31 - k = 32 * (q + 1) + (t - 1 - k)" using i k by simp
      have "31 - (t - 1 - k) = 32 - t + k" using less i by simp
      then have "ks_bit ks (i + 31 - k) = bit (ks ! (q + 1)) (32 - t + k)" unfolding e using ks_bit_at [of "t - 1 - k" ks "q + 1"] less i by simp
      then show ?thesis using less k by (simp add: bit_ks_window bit_or_iff bit_push_bit_iff bit_drop_bit_eq)
    qed
  qed
  then show ?thesis using False l by (simp add: GET_WORD_def q_def [symmetric] t_def [symmetric])
qed

lemma nia3_msg_bit: "msg ! (i div 8) AND push_bit (7 - i mod 8) 1 \<noteq> 0 \<longleftrightarrow> msg_bit msg i"
  using and_exp_eq_0_iff_not_bit [of "msg ! (i div 8)" "7 - i mod 8"] by (simp add: msg_bit_def push_bit_eq_mult)

lemma nia3_loop_eq:
  assumes "i + n + 31 \<le> 32 * length ks"
  shows "nia3_loop ks msg i n T = Some (T XOR xsum (\<lambda>j. if msg_bit msg (i + j) then ks_window ks (i + j) else 0) n)"
  using assms
proof (induction n arbitrary: i T)
  case (Suc n)
  have g: "GET_WORD ks i = Some (ks_window ks i)" using Suc.prems by (intro GET_WORD_window) simp
  define f where "f = (\<lambda>j. if msg_bit msg (i + j) then ks_window ks (i + j) else 0)"
  have x1: "xsum f 1 = f 0" by simp
  have s: "xsum f (Suc n) = f 0 XOR xsum (\<lambda>j. f (Suc j)) n" using xsum_add [of f 1 n] unfolding x1 plus_1_eq_Suc .
  have f1: "(\<lambda>j. f (Suc j)) = (\<lambda>j. if msg_bit msg (i + 1 + j) then ks_window ks (i + 1 + j) else 0)"
    by (simp only: f_def add_Suc_right add_Suc_shift [symmetric] Suc_eq_plus1 add.assoc add.commute [of 1])
  have "nia3_loop ks msg i (Suc n) T = nia3_loop ks msg (i + 1) n (T XOR f 0)"
    by (simp only: nia3_loop.simps nia3_msg_bit g option.case f_def add_0_right xor.right_neutral split: if_splits)
      (simp add: g)
  then show ?case unfolding f_def [symmetric] s f1 using Suc.IH [of "i + 1" "T XOR f 0"] Suc.prems by (simp add: xor.assoc)
qed simp

lemma security_nia3_eq:
  assumes "length msg < 2 ^ 28"
  shows "security_nia3 mac key count bearer direction msg = Some (word_bytes (eia3_mac
    (zuc_generate_keystream (zuc_initialize key (nia3_iv count bearer direction)) ((8 * length msg + 95) div 32)) msg))"
proof -
  let ?L = "(8 * length msg + 95) div 32"
  let ?ks = "zuc_generate_keystream (zuc_initialize key (nia3_iv count bearer direction)) ?L"
  have L: "8 * length msg + 64 \<le> 32 * ?L" by linarith
  then have L1: "32 * (length ?ks - 1) + 32 \<le> 32 * length ?ks" by simp
  have "GET_WORD ?ks (8 * length msg) = Some (ks_window ?ks (8 * length msg))"
    using L by (intro GET_WORD_window) simp
  moreover have "nia3_loop ?ks msg 0 (8 * length msg) 0 =
      Some (xsum (\<lambda>j. if msg_bit msg j then ks_window ?ks j else 0) (8 * length msg))"
    using nia3_loop_eq [of 0 "8 * length msg" ?ks msg 0, unfolded add_0_left xor.left_neutral] L by simp
  moreover have "?ks ! (?L - 1) = ks_window ?ks (32 * (length ?ks - 1))"
    using GET_WORD_window [OF L1] L by (simp add: GET_WORD_def split: if_splits)
  ultimately show ?thesis
    unfolding security_nia3_def Let_def msg_bits_u32 [OF assms] nea_block_lengths(1) [OF assms] eia3_mac_def
    using L by simp
qed


end
