(* ===== verification/Sec_Cmac.thy ===== *)
theory Sec_Cmac
  imports Sec_Nia
begin

text \<open>
  128-NIA2 without the CMAC module of the TLS library is AES-CMAC (RFC 4493): the reference definition on 128-bit
  words, the agreement of the byte-wise subkeys with doubling, and of the chaining loop with the reference run.
\<close>

section \<open>AES-CMAC\<close>

text \<open>
  Reference (RFC 4493): the subkeys are doublings in the field of 2 to the 128 of the encryption of the zero block; the
  blocks are chained, and the last one is masked with the first subkey when it is complete, and otherwise padded and
  masked with the second.
\<close>

type_synonym u128 = "128 word"

definition be_word :: "bytes \<Rightarrow> u128" where
  "be_word bs = fold (\<lambda>b w. push_bit 8 w OR ucast b) bs 0"

definition be_bytes :: "u128 \<Rightarrow> bytes" where
  "be_bytes w = map (\<lambda>i. ucast (drop_bit (8 * (15 - i)) w)) [0..<16]"

definition cmac_dbl :: "u128 \<Rightarrow> u128" where
  "cmac_dbl w = (if bit w 127 then push_bit 1 w XOR 0x87 else push_bit 1 w)"

definition xorb :: "bytes \<Rightarrow> bytes \<Rightarrow> bytes" where
  "xorb xs ys = map2 (XOR) xs ys"

function cmac_run :: "(bytes \<Rightarrow> bytes) \<Rightarrow> bytes \<Rightarrow> bytes \<Rightarrow> bytes \<Rightarrow> bytes \<Rightarrow> bytes" where
  "cmac_run ecb K1 K2 X M =
     (if length M \<le> 16
      then ecb (xorb X (if length M = 16 then xorb M K1 else xorb (M @ [0x80] @ replicate (15 - length M) 0) K2))
      else cmac_run ecb K1 K2 (ecb (xorb X (take 16 M))) (drop 16 M))"
  by pat_completeness auto
termination by (relation "measure (\<lambda>(ecb, K1, K2, X, M). length M)") auto

declare cmac_run.simps [simp del]

definition aes_cmac :: "(bytes \<Rightarrow> bytes) \<Rightarrow> bytes \<Rightarrow> bytes" where
  "aes_cmac ecb M =
     (let L = be_word (ecb (replicate 16 0)) in
      cmac_run ecb (be_bytes (cmac_dbl L)) (be_bytes (cmac_dbl (cmac_dbl L))) (replicate 16 0) M)"

lemma bit_be_fold:
  "k < 128 \<Longrightarrow> bit (fold (\<lambda>b w. push_bit 8 w OR ucast b) (bs :: bytes) w) k =
    (if k < 8 * length bs then bit (bs ! (length bs - 1 - k div 8)) (k mod 8) else bit (w :: u128) (k - 8 * length bs))"
proof (induction bs arbitrary: w)
  case (Cons b bs)
  show ?case
  proof (cases "k < 8 * length bs")
    case True
    then have "length bs - k div 8 = Suc (length bs - 1 - k div 8)" by linarith
    then show ?thesis using Cons.IH [OF Cons.prems] True by simp
  next
    case False
    have e: "k - 8 * length (b # bs) = k - 8 * length bs - 8" by simp
    have i: "bit (fold (\<lambda>b w. push_bit 8 w OR ucast b) (b # bs) w) k = bit (push_bit 8 w OR ucast b) (k - 8 * length bs)"
      using Cons.IH [OF Cons.prems, of "push_bit 8 w OR ucast b"] False by simp
    show ?thesis
    proof (cases "k < 8 * length (b # bs)")
      case True
      then have d: "k div 8 = length bs" "k - 8 * length bs < 8" using False by auto
      have "k mod 8 = k - 8 * length bs" using minus_div_mult_eq_mod [of k 8] unfolding d(1) by (simp add: mult.commute)
      note j = d(1) this d(2)
      show ?thesis unfolding i using True j Cons.prems by (simp add: bit_or_iff bit_push_bit_iff bit_ucast_iff)
    next
      case k: False
      then have "\<not> bit b (k - 8 * length bs)" using bit_imp_le_length [of b "k - 8 * length bs"] by auto
      moreover have "8 \<le> k - 8 * length bs" "k - 8 * length bs < 128" using k Cons.prems by auto
      ultimately show ?thesis unfolding i e using k
        by (simp add: bit_or_iff bit_push_bit_iff bit_ucast_iff)
    qed
  qed
qed simp

lemma bit_be_word:
  assumes "length bs = 16" "k < 128"
  shows "bit (be_word bs) k = bit (bs ! (15 - k div 8)) (k mod 8)"
  using bit_be_fold [OF assms(2), of bs 0] assms by (simp add: be_word_def)

lemma bit_be_at:
  assumes "length bs = 16" "i < 16" "r < 8"
  shows "bit (be_word bs) (8 * (15 - i) + r) = bit (bs ! i) r"
proof -
  have "8 * (15 - i) + r < 128" using assms by simp
  moreover have "(8 * (15 - i) + r) div 8 = 15 - i" "(8 * (15 - i) + r) mod 8 = r" using assms(3) by simp_all
  ultimately show ?thesis using bit_be_word [OF assms(1)] assms(2) by simp
qed

lemma be_bytes_nth: "i < 16 \<Longrightarrow> be_bytes w ! i = ucast (drop_bit (8 * (15 - i)) w)"
  by (simp add: be_bytes_def)

lemma length_be_bytes [simp]: "length (be_bytes w) = 16"
  by (simp add: be_bytes_def)

lemma be_word_bytes [simp]: "be_word (be_bytes w) = w"
proof (rule bit_word_eqI)
  fix k
  assume "k < LENGTH(128)"
  then have k: "k < 128" by simp
  then have "15 - k div 8 < 16" "8 * (15 - (15 - k div 8)) + k mod 8 = k" "k mod 8 < 8" by auto
  then show "bit (be_word (be_bytes w)) k = bit w k"
    using bit_be_word [of "be_bytes w" k] k by (simp add: be_bytes_nth bit_ucast_iff bit_drop_bit_eq)
qed

lemma length_nia2_subkey [simp]: "length (nia2_subkey l) = 16"
  by (simp add: nia2_subkey_def Let_def)

text \<open>Shifting the bytes with their carries doubles the 128-bit word.\<close>

lemma bit_0x87: "bit (0x87 :: u128) k = bit (0x87 :: u8) k"
proof -
  have "(0x87 :: u128) = ucast (0x87 :: u8)" by simp
  then have "bit (0x87 :: u128) k \<longleftrightarrow> k < 128 \<and> bit (0x87 :: u8) k" by (simp only: bit_ucast_iff possible_bit_word) simp
  moreover have "bit (0x87 :: u8) k \<Longrightarrow> k < 8" using bit_imp_le_length by fastforce
  ultimately show ?thesis by auto
qed

lemma bit_shift_byte:
  "k < 8 \<Longrightarrow> bit (push_bit 1 (a :: u8)) k \<longleftrightarrow> k \<noteq> 0 \<and> bit a (k - 1)"
  "k < 8 \<Longrightarrow> bit (push_bit 1 a OR (drop_bit 7 (b :: u8) AND 0x01)) k \<longleftrightarrow> (if k = 0 then bit b 7 else bit a (k - 1))"
  unfolding drop_bit_and_one bit_or_iff bit_push_bit_iff possible_bit_word by (auto simp: bit_1_iff)

lemma nia2_subkey_nth:
  "i < 15 \<Longrightarrow> nia2_subkey l ! i = push_bit 1 (l ! i) OR (drop_bit 7 (l ! (i + 1)) AND 0x01)"
  "nia2_subkey l ! 15 = push_bit 1 (l ! 15) XOR (if l ! 0 AND 0x80 \<noteq> 0 then 0x87 else 0)"
  by (simp_all add: nia2_subkey_def Let_def nth_append)

lemma nia2_subkey_dbl:
  assumes l: "length l = 16"
  shows "nia2_subkey l = be_bytes (cmac_dbl (be_word l))"
proof (rule nth_equalityI)
  fix i
  assume "i < length (nia2_subkey l)"
  then have i: "i < 16" by simp
  have top: "bit (be_word l) 127 = (l ! 0 AND 0x80 \<noteq> 0)"
    using bit_be_word [OF l, of 127] and_flag_iff(1) [of "l ! 0"] by simp
  show "nia2_subkey l ! i = be_bytes (cmac_dbl (be_word l)) ! i"
  proof (rule bit_word_eqI)
    fix k
    assume "k < LENGTH(8)"
    then have k: "k < 8" by simp
    let ?p = "8 * (15 - i) + k"
    have p: "?p < 128" using i k by simp
    have r: "bit (be_bytes (cmac_dbl (be_word l)) ! i) k = bit (cmac_dbl (be_word l)) ?p"
      using i k by (simp add: be_bytes_nth bit_ucast_iff bit_drop_bit_eq)
    have sh: "bit (push_bit 1 (be_word l)) ?p = (?p \<noteq> 0 \<and> bit (be_word l) (?p - 1))"
      unfolding bit_push_bit_iff possible_bit_word using p by auto
    have src: "bit (push_bit 1 (be_word l)) ?p =
        (if k = 0 then i < 15 \<and> bit (l ! (i + 1)) 7 else bit (l ! i) (k - 1))"
    proof (cases "k = 0")
      case True
      show ?thesis
      proof (cases "i < 15")
        case i15: True
        then have q: "?p - 1 = 8 * (14 - i) + 7" using True by simp
        have "bit (be_word l) (?p - 1) = bit (l ! (i + 1)) 7"
          unfolding q using bit_be_at [OF l, of "i + 1" 7] i15 by simp
        then show ?thesis unfolding sh using True i15 by simp
      qed (use sh True i in simp)
    next
      case False
      then have q: "?p - 1 = 8 * (15 - i) + (k - 1)" by simp
      have "bit (be_word l) (?p - 1) = bit (l ! i) (k - 1)"
        unfolding q using bit_be_at [OF l, of i "k - 1"] i k by simp
      then show ?thesis unfolding sh using False by simp
    qed
    have x: "bit (0x87 :: u128) ?p = (i = 15 \<and> bit (0x87 :: u8) k)"
      using bit_0x87 [of ?p] bit_imp_le_length [of "0x87 :: u8" ?p] i by (cases "i = 15") auto
    have lhs: "bit (nia2_subkey l ! i) k = (bit (push_bit 1 (be_word l)) ?p \<noteq> (l ! 0 AND 0x80 \<noteq> 0 \<and> i = 15 \<and> bit (0x87 :: u8) k))"
    proof (cases "i < 15")
      case True
      then show ?thesis unfolding src nia2_subkey_nth(1) [OF True] bit_shift_byte(2) [OF k] by auto
    next
      case False
      then have i: "i = 15" using i by simp
      show ?thesis unfolding src unfolding i nia2_subkey_nth(2) bit_xor_iff bit_shift_byte(1) [OF k]
        by (cases "l ! 0 AND 0x80 = 0") simp_all
    qed
    have c: "bit (cmac_dbl (be_word l)) ?p = (bit (push_bit 1 (be_word l)) ?p \<noteq> (l ! 0 AND 0x80 \<noteq> 0 \<and> bit (0x87 :: u128) ?p))"
      unfolding cmac_dbl_def top by (cases "l ! 0 AND 0x80 = 0") (auto simp only: bit_xor_iff if_True if_False simp_thms)
    show "bit (nia2_subkey l ! i) k = bit (be_bytes (cmac_dbl (be_word l)) ! i) k"
      unfolding r lhs c x ..
  qed
qed simp

lemma length_xorb [simp]: "length (xorb xs ys) = min (length xs) (length ys)"
  by (simp add: xorb_def)

lemma xorb_nth: "i < length xs \<Longrightarrow> i < length ys \<Longrightarrow> xorb xs ys ! i = xs ! i XOR ys ! i"
  by (simp add: xorb_def)

lemma map_xor_block:
  assumes "length X = 16" "i * 16 + 16 \<le> length msg"
  shows "map (\<lambda>j. X ! j XOR msg ! (i * 16 + j)) [0..<16] = xorb X (take 16 (drop (i * 16) msg))"
  using assms by (intro nth_equalityI) (simp_all add: xorb_nth)

text \<open>The reference run after \<open>i\<close> blocks is the chaining loop of the code.\<close>

lemma cmac_run_chain:
  assumes ecb: "\<And>b. length (ecb b) = 16" and X: "length X = 16"
    and n: "i * 16 < length M" "length M + 16 \<le> length msg" "take (length M) msg = M"
  shows "cmac_run ecb K1 K2 X M =
    cmac_run ecb K1 K2 (fold (nia2_chain ecb msg) [0..<i] X) (drop (i * 16) M) \<and>
    length (fold (nia2_chain ecb msg) [0..<i] X) = 16"
  using n(1)
proof (induction i)
  case (Suc i)
  let ?X = "fold (nia2_chain ecb msg) [0..<i] X"
  have ih: "cmac_run ecb K1 K2 X M = cmac_run ecb K1 K2 ?X (drop (i * 16) M)" "length ?X = 16" using Suc by simp_all
  have b: "take 16 (drop (i * 16) msg) = take 16 (drop (i * 16) M)"
  proof -
    have "take 16 (drop (i * 16) (take (length M) msg)) = take 16 (drop (i * 16) msg)"
      using Suc.prems by (simp add: drop_take min_def)
    then show ?thesis unfolding n(3) by (rule sym)
  qed
  have c: "nia2_chain ecb msg i ?X = ecb (xorb ?X (take 16 (drop (i * 16) M)))"
    unfolding nia2_chain_def [of ecb msg i ?X] using map_xor_block [OF ih(2), of i msg] Suc.prems n(2) b by simp
  have "\<not> length (drop (i * 16) M) \<le> 16" using Suc.prems by simp
  then have "cmac_run ecb K1 K2 ?X (drop (i * 16) M) = cmac_run ecb K1 K2 (ecb (xorb ?X (take 16 (drop (i * 16) M)))) (drop 16 (drop (i * 16) M))"
    by (subst cmac_run.simps) simp
  then show ?case using ih ecb c by (simp add: add.commute)
qed (use X in simp)

lemma map_xor3:
  assumes "length X = 16" "length K = 16" "length B = 16" "\<And>j. j < 16 \<Longrightarrow> msg ! (p + j) = B ! j"
  shows "map (\<lambda>j. X ! j XOR K ! j XOR msg ! (p + j)) [0..<16] = xorb X (xorb B K)"
  using assms by (intro nth_equalityI) (simp_all add: xorb_nth xor.commute xor.left_commute)

lemma nia2_compute_mac_eq:
  assumes ecb: "\<And>b. length (aes_ecb b) = 16"
  shows "nia2_compute_mac aes_ecb bearer_id direction v count =
    (if length v \<le> 9076 then Some (take 4 (aes_cmac aes_ecb (nia2_preamble count bearer_id direction @ v))) else None)"
proof (cases "length v \<le> 9076")
  case True
  define M where "M = nia2_preamble count bearer_id direction @ v"
  define msg where "msg = M @ replicate 16 (0 :: u8)"
  have msg: "nia2_preamble count bearer_id direction @ v @ replicate 16 0 = msg" by (simp add: msg_def M_def)
  let ?N = "length v + 8" 
  define k where "k = (length v + 8 + 15) div 16 - 1"
  let ?K1 = "nia2_k1 aes_ecb" let ?K2 = "nia2_k2 aes_ecb"
  let ?X = "fold (nia2_chain aes_ecb msg) [0..<k] (replicate 16 0)"
  have lM: "length M = ?N" by (simp add: M_def nia2_preamble_def)
  have K: "?K1 = be_bytes (cmac_dbl (be_word (aes_ecb (replicate 16 0))))"
    "?K2 = be_bytes (cmac_dbl (cmac_dbl (be_word (aes_ecb (replicate 16 0)))))"
    by (simp_all add: nia2_k1_def nia2_k2_def nia2_subkey_dbl ecb)
  have i: "k * 16 < ?N" "?N \<le> k * 16 + 16" unfolding k_def by linarith+
  have chain: "aes_cmac aes_ecb M = cmac_run aes_ecb ?K1 ?K2 ?X (drop (k * 16) M)" "length ?X = 16"
    using cmac_run_chain [where ecb = aes_ecb and X = "replicate 16 0" and i = k and M = M and msg = msg and ?K1.0 = ?K1 and ?K2.0 = ?K2] ecb i lM
    by (simp_all add: aes_cmac_def Let_def K msg_def)
  let ?B = "drop (k * 16) M"
  have lB: "length ?B = ?N - k * 16" "length ?B \<le> 16" "0 < length ?B" using lM i by simp_all
  have at: "msg ! (k * 16 + j) = (if j < length ?B then ?B ! j else 0)" if "j < 16" for j
  proof (cases "j < length ?B")
    case True
    then show ?thesis using lB(1) lM by (simp add: msg_def nth_append) linarith
  next
    case False
    then have "\<not> k * 16 + j < length M" "k * 16 + j - length M < 16" using lB(1) lM i that by linarith+
    then show ?thesis using False unfolding msg_def nth_append by simp
  qed
  have m: "(length v * 8 + 64) mod 128 = 8 * (length ?B mod 16)"
  proof -
    have "?N = length ?B + 16 * k" using lB(1) i by linarith
    then have e: "?N mod 16 = length ?B mod 16" by (metis mod_mult_self2)
    have "(8 * ?N) mod (8 * 16) = 8 * (?N mod 16)" by (rule mult_mod_right [symmetric])
    then show ?thesis unfolding e by (simp add: algebra_simps)
  qed
  show ?thesis
  proof (cases "length ?B = 16")
    case full: True
    have "map (\<lambda>j. ?X ! j XOR ?K1 ! j XOR msg ! (k * 16 + j)) [0..<16] = xorb ?X (xorb ?B ?K1)"
      using at full chain(2) by (intro map_xor3) (simp_all add: nia2_k1_def)
    moreover have "cmac_run aes_ecb ?K1 ?K2 ?X ?B = aes_ecb (xorb ?X (xorb ?B ?K1))"
      using full by (subst cmac_run.simps) simp
    ultimately show ?thesis using True m full chain(1)
      unfolding nia2_compute_mac_def Let_def k_def [symmetric] msg M_def [symmetric] by (simp add: sec_max_pdu_size_def)
  next
    case part: False
    define r where "r = length ?B"
    have r: "0 < r" "r < 16" using lB part by (simp_all add: r_def)
    have pad: "128 - (length v * 8 + 64) mod 128 - 1 = 8 * (15 - r) + 7" unfolding m r_def [symmetric] using r by simp
    have p: "k * 16 + (15 - (8 * (15 - r) + 7) div 8) = k * 16 + r" "(8 * (15 - r) + 7) mod 8 = 7" using r by simp_all
    let ?msg' = "msg[k * 16 + r := msg ! (k * 16 + r) OR push_bit 7 1]"
    have "k * 16 + r < length msg" using lM lB(1) r by (simp add: r_def msg_def)
    then have at': "?msg' ! (k * 16 + j) = (?B @ [0x80] @ replicate (15 - r) 0) ! j" if "j < 16" for j
      using at [OF that] at [of r] that r by (auto simp: nth_list_update nth_append r_def nth_Cons')
    have "map (\<lambda>j. ?X ! j XOR ?K2 ! j XOR ?msg' ! (k * 16 + j)) [0..<16] =
        xorb ?X (xorb (?B @ [0x80] @ replicate (15 - r) 0) ?K2)"
      using at' chain(2) r by (intro map_xor3) (simp_all add: nia2_k2_def r_def)
    moreover have "cmac_run aes_ecb ?K1 ?K2 ?X ?B = aes_ecb (xorb ?X (xorb (?B @ [0x80] @ replicate (15 - r) 0) ?K2))"
      using part lB by (subst cmac_run.simps) (simp add: r_def)
    moreover have "(length v * 8 + 64) mod 128 \<noteq> 0" unfolding m using r by (simp add: r_def)
    ultimately show ?thesis using True chain(1)
      unfolding nia2_compute_mac_def Let_def k_def [symmetric] msg M_def [symmetric] pad p by (simp add: sec_max_pdu_size_def)
  qed
qed (simp add: nia2_compute_mac_def sec_max_pdu_size_def)

text \<open>
  Property C23: 128-NIA2 computed from single AES block encryptions is the first four bytes of AES-CMAC over the
  preamble and the message, for every message the assertion admits: the byte-wise subkeys, the padding bit and the
  chaining agree with RFC 4493 on every length.
\<close>

theorem nia2_is_cmac:
  assumes "\<And>b. length (aes_ecb b) = 16"
  shows "nia2_compute_mac aes_ecb bearer_id direction v count =
    (if length v \<le> 9076 then Some (take 4 (aes_cmac aes_ecb (nia2_preamble count bearer_id direction @ v))) else None)"
  using assms by (rule nia2_compute_mac_eq)

text \<open>The hypothesis holds of any block cipher; here of a byte permutation that stands for one.\<close>

theorem nia2_is_cmac_witness:
  "(\<forall>b. length (map (\<lambda>i. (b @ replicate 16 0) ! (15 - i) XOR 0x5a :: u8) [0..<16]) = 16) \<and>
    nia2_compute_mac (\<lambda>b. map (\<lambda>i. (b @ replicate 16 0) ! (15 - i) XOR 0x5a) [0..<16]) 1 dir_uplink [1, 2, 3] 7 =
      Some (take 4 (aes_cmac (\<lambda>b. map (\<lambda>i. (b @ replicate 16 0) ! (15 - i) XOR 0x5a) [0..<16])
        (nia2_preamble 7 1 dir_uplink @ [1, 2, 3])))"
  using nia2_is_cmac [of "\<lambda>b. map (\<lambda>i. (b @ replicate 16 0) ! (15 - i) XOR 0x5a) [0..<16]" 1 dir_uplink "[1, 2, 3]" 7] by simp

end
