(* ===== verification/Sec_Engine.thy ===== *)
theory Sec_Engine
  imports Sec_Cmac
begin

text \<open>
  The security engine of a bearer (\<open>lib/security/security_engine_impl.cpp\<close>) and its parts: the integrity engines
  (\<open>integrity_engine_generic.cpp\<close>, \<open>integrity_engine_nia2_cmac.cpp\<close>, \<open>integrity_engine_nia2_non_cmac.cpp\<close>) and
  the ciphering engines (\<open>ciphering_engine_nea1.cpp\<close>, \<open>ciphering_engine_nea2.cpp\<close>, \<open>ciphering_engine_nea3.cpp\<close>).
  The lemmas show that verifying inverts protecting, deciphering inverts ciphering, and so that the receiving side of
  an engine inverts its transmitting side.
\<close>

section \<open>The AES library\<close>

text \<open>
  AES comes from the TLS library: block encryption, counter mode over a whole message (the segments of a buffer are
  passed one after the other with the running offset), CMAC, and the build flag \<open>MBEDTLS_CMAC_C\<close>.  \<open>None\<close> is a
  return code other than 0.  \<open>aes_lib_ok\<close> is what is documented of it.
\<close>

record aes_lib =
  lib_ecb :: "bytes \<Rightarrow> bytes \<Rightarrow> bytes"
  lib_ctr :: "bytes \<Rightarrow> bytes \<Rightarrow> bytes \<Rightarrow> bytes option"
  lib_cmac :: "bytes \<Rightarrow> bytes \<Rightarrow> bytes option"
  lib_cmac_c :: bool

definition aes_lib_ok :: "aes_lib \<Rightarrow> bool" where
  "aes_lib_ok lib \<longleftrightarrow>
     (\<forall>key block. length (lib_ecb lib key block) = 16) \<and>
     (\<forall>key msg mac. lib_cmac lib key msg = Some mac \<longrightarrow> length mac = 16) \<and>
     (\<forall>key nonce msg out. lib_ctr lib key nonce msg = Some out \<longrightarrow>
        length out = length msg \<and> lib_ctr lib key nonce out = Some msg)"

section \<open>Errors and engines\<close>

datatype security_error = buffer_failure | engine_failure | integrity_failure | ciphering_failure

text \<open>The \<open>security_result\<close>; its count is always the one passed in.  \<open>None\<close> is a failed assertion or an exception.\<close>

type_synonym security_result = "(security_error + bytes) option"

datatype integrity_engine =
    integrity_engine_generic bytes u8 security_direction integrity_algorithm
  | integrity_engine_nia2_cmac bytes u8 security_direction
  | integrity_engine_nia2_non_cmac bytes u8 security_direction

datatype ciphering_engine =
    ciphering_engine_nea1 bytes u8 security_direction
  | ciphering_engine_nea2 bytes u8 security_direction
  | ciphering_engine_nea3 bytes u8 security_direction

section \<open>Integrity\<close>

definition nia2_cmac_compute_mac :: "aes_lib \<Rightarrow> bytes \<Rightarrow> u8 \<Rightarrow> security_direction \<Rightarrow> bytes \<Rightarrow> u32 \<Rightarrow> security_error + bytes" where
  "nia2_cmac_compute_mac lib key bearer_id direction v count =
     (case lib_cmac lib key (nia2_preamble count bearer_id direction @ v) of
        None \<Rightarrow> Inl integrity_failure
      | Some tmp_mac \<Rightarrow> Inr (take 4 tmp_mac))"

definition security_nia2_cmac :: "aes_lib \<Rightarrow> bytes \<Rightarrow> bytes \<Rightarrow> u32 \<Rightarrow> u8 \<Rightarrow> security_direction \<Rightarrow> bytes \<Rightarrow> bytes" where
  "security_nia2_cmac lib mac key count bearer direction msg =
     (case lib_cmac lib key (nia2_preamble count bearer direction @ msg) of
        None \<Rightarrow> mac
      | Some tmp_mac \<Rightarrow> take 4 tmp_mac)"

text \<open>The free-standing variant takes the length in bits; a failed assertion is \<open>None\<close>.\<close>

definition security_nia2_non_cmac :: "(bytes \<Rightarrow> bytes) \<Rightarrow> bytes \<Rightarrow> u32 \<Rightarrow> u8 \<Rightarrow> security_direction \<Rightarrow> bytes \<Rightarrow> nat \<Rightarrow> bytes option" where
  "security_nia2_non_cmac aes_ecb mac count bearer direction msg msg_len =
     (let len = length msg; msg_len_block_8 = (msg_len + 7) div 8 in
      if \<not> msg_len_block_8 + 8 + 16 \<le> sec_max_pdu_size then None
      else if \<not> msg_len_block_8 \<le> len then Some mac
      else
        let K1 = nia2_k1 aes_ecb; K2 = nia2_k2 aes_ecb;
            M = nia2_preamble count bearer direction @ take msg_len_block_8 msg @ replicate 16 0;
            n = (msg_len_block_8 + 8 + 15) div 16;
            T = fold (nia2_chain aes_ecb M) [0..<n - 1] (replicate 16 0);
            pad_bits = (msg_len + 64) mod 128
        in if pad_bits = 0
           then Some (take 4 (aes_ecb (map (\<lambda>j. T ! j XOR K1 ! j XOR M ! ((n - 1) * 16 + j)) [0..<16])))
           else let pad_bits = (128 - pad_bits) - 1;
                    p = (n - 1) * 16 + (15 - pad_bits div 8);
                    M = M[p := M ! p OR push_bit (pad_bits mod 8) 0x1]
                in Some (take 4 (aes_ecb (map (\<lambda>j. T ! j XOR K2 ! j XOR M ! ((n - 1) * 16 + j)) [0..<16]))))"

definition security_nia2 :: "aes_lib \<Rightarrow> bytes \<Rightarrow> bytes \<Rightarrow> u32 \<Rightarrow> u8 \<Rightarrow> security_direction \<Rightarrow> bytes \<Rightarrow> bytes option" where
  "security_nia2 lib mac key count bearer direction msg =
     (if lib_cmac_c lib
      then Some (security_nia2_cmac lib mac key count bearer direction msg)
      else security_nia2_non_cmac (lib_ecb lib key) mac count bearer direction msg (length msg * 8))"

lemma security_nia2_non_cmac_eq:
  "security_nia2_non_cmac aes_ecb mac count bearer direction msg (length msg * 8) =
    nia2_compute_mac aes_ecb bearer direction msg count"
proof -
  have l: "(length msg * 8 + 7) div 8 = length msg" by simp
  show ?thesis unfolding security_nia2_non_cmac_def nia2_compute_mac_def Let_def l by simp
qed

text \<open>The MAC an engine computes over a view; it starts from the zero MAC.\<close>

fun integrity_engine_mac :: "aes_lib \<Rightarrow> integrity_engine \<Rightarrow> bytes \<Rightarrow> u32 \<Rightarrow> security_result" where
  "integrity_engine_mac lib (integrity_engine_generic key bearer_id direction algo) v count =
     (let mac = [0, 0, 0, 0] in
      map_option Inr (case algo of
          nia0 \<Rightarrow> Some [0, 0, 0, 0]
        | nia1 \<Rightarrow> security_nia1 mac key count bearer_id direction v
        | nia2 \<Rightarrow> security_nia2 lib mac key count bearer_id direction v
        | nia3 \<Rightarrow> security_nia3 mac key count bearer_id direction v))"
| "integrity_engine_mac lib (integrity_engine_nia2_cmac key bearer_id direction) v count =
     Some (nia2_cmac_compute_mac lib key bearer_id direction v count)"
| "integrity_engine_mac lib (integrity_engine_nia2_non_cmac key bearer_id direction) v count =
     map_option Inr (nia2_compute_mac (lib_ecb lib key) bearer_id direction v count)"

text \<open>
  \<open>append_ok\<close> is the result of appending the MAC to the buffer; on failure the code still reads the value of the
  result for the log, which throws.
\<close>

definition protect_integrity :: "aes_lib \<Rightarrow> integrity_engine \<Rightarrow> bool \<Rightarrow> bytes \<Rightarrow> u32 \<Rightarrow> security_result" where
  "protect_integrity lib eng append_ok buf count =
     (case integrity_engine_mac lib eng buf count of
        None \<Rightarrow> None
      | Some (Inl err) \<Rightarrow> Some (Inl err)
      | Some (Inr mac) \<Rightarrow> if append_ok then Some (Inr (buf @ mac)) else None)"

definition verify_integrity :: "aes_lib \<Rightarrow> integrity_engine \<Rightarrow> bytes \<Rightarrow> u32 \<Rightarrow> security_result" where
  "verify_integrity lib eng buf count =
     (if length buf \<le> sec_mac_len then Some (Inl integrity_failure)
      else let v = take (length buf - sec_mac_len) buf;
               m = drop (length buf - sec_mac_len) buf
           in case integrity_engine_mac lib eng v count of
                None \<Rightarrow> None
              | Some (Inl err) \<Rightarrow> Some (Inl err)
              | Some (Inr mac) \<Rightarrow> if mac \<noteq> m then Some (Inl integrity_failure) else Some (Inr v))"

section \<open>Ciphering\<close>

definition nea2_nonce :: "u32 \<Rightarrow> u8 \<Rightarrow> security_direction \<Rightarrow> bytes" where
  "nea2_nonce count bearer_id direction =
     [ucast (drop_bit 24 count AND 0xff), ucast (drop_bit 16 count AND 0xff), ucast (drop_bit 8 count AND 0xff),
      ucast (count AND 0xff),
      push_bit 3 (bearer_id AND 0x1f) OR push_bit 2 (dir_to_number direction AND 0x01)] @ replicate 11 0"

fun cipher_view :: "aes_lib \<Rightarrow> ciphering_engine \<Rightarrow> bytes \<Rightarrow> u32 \<Rightarrow> bytes option" where
  "cipher_view lib (ciphering_engine_nea1 key bearer_id direction) msg count =
     Some (security_nea1 key count bearer_id direction msg)"
| "cipher_view lib (ciphering_engine_nea2 key bearer_id direction) msg count =
     lib_ctr lib key (nea2_nonce count bearer_id direction) msg"
| "cipher_view lib (ciphering_engine_nea3 key bearer_id direction) msg count =
     Some (security_nea3 key count bearer_id direction msg)"

definition apply_ciphering :: "aes_lib \<Rightarrow> ciphering_engine \<Rightarrow> bytes \<Rightarrow> nat \<Rightarrow> u32 \<Rightarrow> security_error + bytes" where
  "apply_ciphering lib eng buf offset count =
     (case cipher_view lib eng (drop offset buf) count of
        None \<Rightarrow> Inl ciphering_failure
      | Some msg \<Rightarrow> Inr (take offset buf @ msg))"

section \<open>The security engine\<close>

record security_engine =
  integ_eng :: "integrity_engine option"
  cipher_eng :: "ciphering_engine option"

definition make_integrity_engine :: "aes_lib \<Rightarrow> bytes \<Rightarrow> u8 \<Rightarrow> security_direction \<Rightarrow> integrity_algorithm \<Rightarrow> integrity_engine" where
  "make_integrity_engine lib key bearer_id direction algo =
     (case algo of
        nia2 \<Rightarrow> if lib_cmac_c lib then integrity_engine_nia2_cmac key bearer_id direction
                else integrity_engine_nia2_non_cmac key bearer_id direction
      | _ \<Rightarrow> integrity_engine_generic key bearer_id direction algo)"

definition make_ciphering_engine :: "bytes \<Rightarrow> u8 \<Rightarrow> security_direction \<Rightarrow> ciphering_algorithm \<Rightarrow> ciphering_engine option" where
  "make_ciphering_engine key bearer_id direction algo =
     (case algo of
        nea0 \<Rightarrow> None
      | nea1 \<Rightarrow> Some (ciphering_engine_nea1 key bearer_id direction)
      | nea2 \<Rightarrow> Some (ciphering_engine_nea2 key bearer_id direction)
      | nea3 \<Rightarrow> Some (ciphering_engine_nea3 key bearer_id direction))"

definition security_engine_impl ::
  "aes_lib \<Rightarrow> sec_128_as_config \<Rightarrow> u8 \<Rightarrow> security_direction \<Rightarrow> bool \<Rightarrow> bool \<Rightarrow> security_engine option" where
  "security_engine_impl lib sec_cfg bearer_id direction integrity_enabled ciphering_enabled =
     (if integrity_enabled \<and> (c128_integ_algo sec_cfg = None \<or> k_128_int sec_cfg = None) then None
      else Some
        \<lparr>integ_eng = (if integrity_enabled
           then Some (make_integrity_engine lib (the (k_128_int sec_cfg)) bearer_id direction (the (c128_integ_algo sec_cfg)))
           else None),
         cipher_eng = (if ciphering_enabled
           then make_ciphering_engine (k_128_enc sec_cfg) bearer_id direction (c128_cipher_algo sec_cfg)
           else None)\<rparr>)"

definition encrypt_and_protect_integrity :: "aes_lib \<Rightarrow> security_engine \<Rightarrow> bool \<Rightarrow> bytes \<Rightarrow> nat \<Rightarrow> u32 \<Rightarrow> security_result" where
  "encrypt_and_protect_integrity lib eng append_ok buf offset count =
     (case (case integ_eng eng of None \<Rightarrow> Some (Inr buf) | Some ie \<Rightarrow> protect_integrity lib ie append_ok buf count) of
        None \<Rightarrow> None
      | Some (Inl err) \<Rightarrow> Some (Inl err)
      | Some (Inr buf) \<Rightarrow>
          (case cipher_eng eng of None \<Rightarrow> Some (Inr buf) | Some ce \<Rightarrow> Some (apply_ciphering lib ce buf offset count)))"

definition decrypt_and_verify_integrity :: "aes_lib \<Rightarrow> security_engine \<Rightarrow> bytes \<Rightarrow> nat \<Rightarrow> u32 \<Rightarrow> security_result" where
  "decrypt_and_verify_integrity lib eng buf offset count =
     (case (case cipher_eng eng of None \<Rightarrow> Inr buf | Some ce \<Rightarrow> apply_ciphering lib ce buf offset count) of
        Inl err \<Rightarrow> Some (Inl err)
      | Inr buf \<Rightarrow>
          (case integ_eng eng of None \<Rightarrow> Some (Inr buf) | Some ie \<Rightarrow> verify_integrity lib ie buf count))"

section \<open>Protecting and verifying are inverse\<close>

lemma length_cmac_run:
  assumes "\<And>b. length (ecb b) = 16"
  shows "length (cmac_run ecb K1 K2 X M) = 16"
  using assms by (induction ecb K1 K2 X M rule: cmac_run.induct) (subst cmac_run.simps, simp)

lemma nia2_compute_mac_length:
  assumes "\<And>b. length (aes_ecb b) = 16" "nia2_compute_mac aes_ecb b d v c = Some m"
  shows "length m = 4"
  using assms length_cmac_run [OF assms(1)] by (auto simp: nia2_compute_mac_eq aes_cmac_def Let_def split: if_splits)

lemma integrity_mac_length:
  assumes "aes_lib_ok lib" "integrity_engine_mac lib eng v count = Some (Inr mac)" "length v < 2 ^ 28"
  shows "length mac = 4"
proof -
  have w: "length (word_bytes w) = 4" for w by (simp add: word_bytes_def)
  have ecb: "length (lib_ecb lib k x) = 16" for k x using assms(1) unfolding aes_lib_ok_def by blast
  have n2: "length m = 4" if "nia2_compute_mac (lib_ecb lib k) b d v c = Some m" for k b d c m
    by (rule nia2_compute_mac_length [OF ecb that])
  have cm: "length (take 4 m) = 4" if "lib_cmac lib k x = Some m" for k x m
  proof -
    have "length m = 16" using that assms(1) unfolding aes_lib_ok_def by blast
    then show ?thesis by simp
  qed
  show ?thesis
  proof (cases eng)
    case (integrity_engine_generic key b d algo)
    note g = assms(2) [unfolded integrity_engine_generic, simplified]
    show ?thesis
    proof (cases algo)
      case nia0
      then show ?thesis using g by auto
    next
      case nia1
      then show ?thesis using g by (auto simp: security_nia1_eq [OF assms(3)] uia2_mac_def Let_def w split: if_splits)
    next
      case nia2
      then have "security_nia2 lib [0, 0, 0, 0] key count b d v = Some mac" using g by simp
      then show ?thesis 
        using n2 cm by (auto simp: security_nia2_def security_nia2_cmac_def security_nia2_non_cmac_eq split: if_splits option.splits)
    next
      case nia3
      then show ?thesis using g by (auto simp: security_nia3_eq [OF assms(3)] w)
    qed
  next
    case (integrity_engine_nia2_cmac key b d)
    then show ?thesis using assms(2) cm by (auto simp: nia2_cmac_compute_mac_def split: option.splits)
  next
    case (integrity_engine_nia2_non_cmac key b d)
    then show ?thesis using assms(2) n2 by auto
  qed
qed

lemma stream_inverse:
  assumes "\<And>x. length x = length msg \<Longrightarrow> f x = xor_stream (ks (length x)) x"
  shows "xor_stream (ks (length msg)) msg = out \<longleftrightarrow> length out = length msg \<and> f out = msg"
proof
  assume o: "xor_stream (ks (length msg)) msg = out"
  then have l: "length out = length msg" by (metis length_xor_stream)
  then have "f out = xor_stream (ks (length msg)) out" using assms [OF l] by simp
  then show "length out = length msg \<and> f out = msg" using l unfolding o [symmetric] xor_stream_twice by simp
next
  assume o: "length out = length msg \<and> f out = msg"
  then have "msg = xor_stream (ks (length msg)) out" using assms [of out] by simp
  then show "xor_stream (ks (length msg)) msg = out" by (metis xor_stream_twice)
qed

lemma cipher_view_inverse:
  assumes "aes_lib_ok lib" "length msg < 2 ^ 28"
  shows "cipher_view lib eng msg count = Some out \<longleftrightarrow> length out = length msg \<and> cipher_view lib eng out count = Some msg"
proof (cases eng)
  case (ciphering_engine_nea1 key b d)
  have i: "security_nea1 key count b d msg = out \<longleftrightarrow> length out = length msg \<and> security_nea1 key count b d out = msg"
    unfolding security_nea1_eq [OF assms(2)]
    by (rule stream_inverse [where ks = "\<lambda>n. nea1_stream key count b d ((n + 3) div 4)"], rule security_nea1_eq) (use assms(2) in simp)
  show ?thesis using i by (auto simp: ciphering_engine_nea1)
next
  case (ciphering_engine_nea2 key b d)
  have c: "length y = length x \<and> lib_ctr lib k n y = Some x" if "lib_ctr lib k n x = Some y" for k n x y
    using assms(1) that unfolding aes_lib_ok_def by blast
  show ?thesis unfolding ciphering_engine_nea2 cipher_view.simps using c by blast
next
  case (ciphering_engine_nea3 key b d)
  have i: "security_nea3 key count b d msg = out \<longleftrightarrow> length out = length msg \<and> security_nea3 key count b d out = msg"
    unfolding security_nea3_eq [OF assms(2)]
    by (rule stream_inverse [where ks = "\<lambda>n. nea3_stream key count b d ((n + 3) div 4)"], rule security_nea3_eq) (use assms(2) in simp)
  show ?thesis using i by (auto simp: ciphering_engine_nea3)
qed

lemma apply_ciphering_inverse:
  assumes "aes_lib_ok lib" "length x < 2 ^ 28" "length y < 2 ^ 28" "offset \<le> length x" "offset \<le> length y"
  shows "apply_ciphering lib eng x offset count = Inr y \<longleftrightarrow> apply_ciphering lib eng y offset count = Inr x"
proof -
  have one: "apply_ciphering lib eng x offset count = Inr y \<Longrightarrow> apply_ciphering lib eng y offset count = Inr x"
    if l: "length x < 2 ^ 28" "offset \<le> length x" for x y
  proof -
    assume a: "apply_ciphering lib eng x offset count = Inr y"
    then obtain m where m: "cipher_view lib eng (drop offset x) count = Some m" "y = take offset x @ m"
      by (auto simp: apply_ciphering_def split: option.splits)
    have "length (drop offset x) < 2 ^ 28" using l by simp
    from cipher_view_inverse [OF assms(1) this] m(1) have "cipher_view lib eng m count = Some (drop offset x)" by blast
    then show ?thesis using l(2) by (simp add: apply_ciphering_def m(2))
  qed
  show ?thesis using one [of x y] one [of y x] assms by blast
qed

lemma protect_verify:
  assumes "aes_lib_ok lib" "length buf < 2 ^ 28"
  shows "verify_integrity lib ie x count = Some (Inr buf) \<longleftrightarrow>
    buf \<noteq> [] \<and> protect_integrity lib ie True buf count = Some (Inr x)"
proof
  assume v: "verify_integrity lib ie x count = Some (Inr buf)"
  then have l: "\<not> length x \<le> 4" by (auto simp: verify_integrity_def sec_mac_len_def)
  with v have m: "integrity_engine_mac lib ie (take (length x - 4) x) count = Some (Inr (drop (length x - 4) x))"
    "buf = take (length x - 4) x"
    by (auto simp: verify_integrity_def sec_mac_len_def Let_def split: option.splits sum.splits if_splits)
  then show "buf \<noteq> [] \<and> protect_integrity lib ie True buf count = Some (Inr x)"
    using l by (cases x) (simp_all add: protect_integrity_def)
next
  assume "buf \<noteq> [] \<and> protect_integrity lib ie True buf count = Some (Inr x)"
  then obtain mac where mac: "integrity_engine_mac lib ie buf count = Some (Inr mac)" "x = buf @ mac" "buf \<noteq> []"
    by (auto simp: protect_integrity_def split: option.splits sum.splits)
  then have "length mac = 4" using integrity_mac_length [OF assms(1) mac(1) assms(2)] by simp
  then show "verify_integrity lib ie x count = Some (Inr buf)"
    using mac by (simp add: verify_integrity_def sec_mac_len_def Let_def)
qed

lemma security_engine_exact:
  assumes lib: "aes_lib_ok lib" and len: "length buf < 2 ^ 27" "offset \<le> length buf" "buf \<noteq> []"
  shows "decrypt_and_verify_integrity lib eng pdu offset count = Some (Inr buf) \<and> offset \<le> length pdu \<and> length pdu < 2 ^ 28 \<longleftrightarrow>
    encrypt_and_protect_integrity lib eng True buf offset count = Some (Inr pdu)"
proof -
  have mac4: "length x = length buf + 4" if "protect_integrity lib ie True buf count = Some (Inr x)" for ie x
    using that integrity_mac_length [OF lib, of ie buf count] len(1)
    by (auto simp: protect_integrity_def split: option.splits sum.splits)
  have clen: "length y = length x" if "apply_ciphering lib ce x offset count = Inr y" "length x < 2 ^ 28" "offset \<le> length x" for ce x y
  proof -
    have "length (drop offset x) < 2 ^ 28" using that by simp
    from that cipher_view_inverse [OF lib this] show ?thesis by (auto simp: apply_ciphering_def split: option.splits)
  qed
  have b: "length buf < 2 ^ 28" using len by simp
  show ?thesis
  proof (cases "integ_eng eng")
    case None
    show ?thesis
    proof (cases "cipher_eng eng")
      case None
      then show ?thesis using \<open>integ_eng eng = None\<close> len
        by (auto simp: decrypt_and_verify_integrity_def encrypt_and_protect_integrity_def)
    next
      case (Some ce)
      have "apply_ciphering lib ce pdu offset count = Inr buf \<and> offset \<le> length pdu \<and> length pdu < 2 ^ 28 \<longleftrightarrow>
          apply_ciphering lib ce buf offset count = Inr pdu"
        using apply_ciphering_inverse [OF lib, of pdu buf offset ce count] clen [of ce buf pdu] len b by auto
      then show ?thesis using None Some
        by (auto simp: decrypt_and_verify_integrity_def encrypt_and_protect_integrity_def split: sum.splits)
    qed
  next
    case ie: (Some ie)
    show ?thesis
    proof (cases "cipher_eng eng")
      case None
      then show ?thesis using ie protect_verify [OF lib b, of ie pdu count] mac4 len
        by (auto simp: decrypt_and_verify_integrity_def encrypt_and_protect_integrity_def split: option.splits sum.splits)
    next
      case (Some ce)
      have "(\<exists>x. apply_ciphering lib ce pdu offset count = Inr x \<and> verify_integrity lib ie x count = Some (Inr buf)) \<and>
            offset \<le> length pdu \<and> length pdu < 2 ^ 28 \<longleftrightarrow>
          (\<exists>x. protect_integrity lib ie True buf count = Some (Inr x) \<and> apply_ciphering lib ce x offset count = Inr pdu)"
        (is "?l \<longleftrightarrow> ?r")
      proof
        assume ?l
        then obtain x where x: "apply_ciphering lib ce pdu offset count = Inr x" "verify_integrity lib ie x count = Some (Inr buf)"
          "offset \<le> length pdu" "length pdu < 2 ^ 28" by blast
        have lx: "length x = length pdu" using clen [OF x(1)] x by simp
        then have "apply_ciphering lib ce x offset count = Inr pdu"
          using apply_ciphering_inverse [OF lib, of pdu x offset ce count] x by simp
        then show ?r using x(2) protect_verify [OF lib b] by blast
      next
        assume ?r
        then obtain x where x: "protect_integrity lib ie True buf count = Some (Inr x)" "apply_ciphering lib ce x offset count = Inr pdu" by blast
        have lx: "length x = length buf + 4" using mac4 [OF x(1)] .
        then have lp: "length pdu = length x" using clen [OF x(2)] len by simp
        then have "apply_ciphering lib ce pdu offset count = Inr x"
          using apply_ciphering_inverse [OF lib, of x pdu offset ce count] x(2) lx len by simp
        then show ?l using x(1) protect_verify [OF lib b, of ie x count] len lx lp by auto
      qed
      then show ?thesis using ie Some
        by (auto simp: decrypt_and_verify_integrity_def encrypt_and_protect_integrity_def split: option.splits sum.splits)
    qed
  qed
qed

text \<open>
  Property C1: whatever algorithms a security engine was built for, its receiving side turns a PDU into a given
  buffer exactly when its transmitting side turns that buffer into that PDU: what was protected is recovered, and
  nothing else is accepted.
\<close>

theorem security_engine_inverse:
  assumes "aes_lib_ok lib" "length buf < 2 ^ 27" "offset \<le> length buf" "buf \<noteq> []"
  shows "decrypt_and_verify_integrity lib eng pdu offset count = Some (Inr buf) \<and> offset \<le> length pdu \<and> length pdu < 2 ^ 28 \<longleftrightarrow>
    encrypt_and_protect_integrity lib eng True buf offset count = Some (Inr pdu)"
  using assms by (rule security_engine_exact)

text \<open>A library with a fixed keystream meets the documented behaviour.\<close>

definition xor_lib :: aes_lib where
  "xor_lib = \<lparr>lib_ecb = (\<lambda>key block. replicate 16 (0x3c XOR fold (XOR) (key @ block) 0)),
     lib_ctr = (\<lambda>key nonce msg. Some (map (\<lambda>b. b XOR fold (XOR) (key @ nonce) 0x5a) msg)),
     lib_cmac = (\<lambda>key msg. Some (replicate 16 (fold (XOR) (key @ msg) 0x11))), lib_cmac_c = True\<rparr>"

lemma aes_lib_ok_xor: "aes_lib_ok xor_lib"
  by (auto simp: aes_lib_ok_def xor_lib_def xor.assoc comp_def)

theorem security_engine_inverse_witness:
  "\<exists>pdu. aes_lib_ok xor_lib \<and>
    (let eng = \<lparr>integ_eng = Some (integrity_engine_nia2_cmac (replicate 16 1) 1 dir_uplink),
                cipher_eng = Some (ciphering_engine_nea2 (replicate 16 2) 1 dir_uplink)\<rparr>
     in encrypt_and_protect_integrity xor_lib eng True [0x80, 1, 7, 7] 2 5 = Some (Inr pdu) \<and>
        decrypt_and_verify_integrity xor_lib eng pdu 2 5 = Some (Inr [0x80, 1, 7, 7]))"
proof -
  let ?eng = "\<lparr>integ_eng = Some (integrity_engine_nia2_cmac (replicate 16 1) 1 dir_uplink),
                cipher_eng = Some (ciphering_engine_nea2 (replicate 16 2) 1 dir_uplink)\<rparr>"
  have "\<exists>pdu. encrypt_and_protect_integrity xor_lib ?eng True [0x80, 1, 7, 7] 2 5 = Some (Inr pdu)"
    by (simp add: encrypt_and_protect_integrity_def protect_integrity_def nia2_cmac_compute_mac_def apply_ciphering_def xor_lib_def)
  then obtain pdu where "encrypt_and_protect_integrity xor_lib ?eng True [0x80, 1, 7, 7] 2 5 = Some (Inr pdu)" ..
  with security_engine_inverse [OF aes_lib_ok_xor, of "[0x80, 1, 7, 7]" 2 ?eng pdu 5] show ?thesis
    by (intro exI [of _ pdu]) (simp add: aes_lib_ok_xor Let_def)
qed
end
