(* ===== verification/Pdcp_Rx.thy ===== *)
theory Pdcp_Rx
  imports Pdcp_Status Sec_Engine
begin

text \<open>
  The receiving PDCP entity (\<open>lib/pdcp/pdcp_entity_rx.h\<close>, \<open>lib/pdcp/pdcp_entity_rx.cpp\<close>) with its crypto token
  manager (\<open>lib/pdcp/pdcp_crypto_token.h\<close>).  Deciphering runs on a pool of workers: the tasks handed to the crypto
  executor and those handed back to the UE executor are part of the state, so a run of the entity interleaves them in
  any order.  An operation returns the new state and the calls to the upper layers and to the transmitter; \<open>None\<close> is a
  failed assertion.
\<close>

section \<open>The crypto token manager\<close>

record pdcp_crypto_token_manager =
  tm_pending_crypto :: bool
  tm_tokens :: u32

definition increment_token :: "pdcp_crypto_token_manager \<Rightarrow> pdcp_crypto_token_manager" where
  "increment_token tm = tm\<lparr>tm_tokens := tm_tokens tm + 1\<rparr>"

definition return_token :: "pdcp_crypto_token_manager \<Rightarrow> pdcp_crypto_token_manager option" where
  "return_token tm =
     (let prev_token = tm_tokens tm in
      if prev_token = 0xffffffff then None
      else Some (tm\<lparr>tm_tokens := prev_token - 1, tm_pending_crypto := (prev_token = 0 \<or> tm_pending_crypto tm)\<rparr>))"

definition token_start :: "pdcp_crypto_token_manager \<Rightarrow> pdcp_crypto_token_manager" where
  "token_start tm = increment_token (tm\<lparr>tm_pending_crypto := False\<rparr>)"

definition token_stop :: "pdcp_crypto_token_manager \<Rightarrow> pdcp_crypto_token_manager option" where
  "token_stop tm = return_token tm"

section \<open>The entity\<close>

text \<open>t-Reordering: a number of milliseconds or infinity.\<close>

datatype pdcp_t_reordering = t_reordering_ms nat | t_reordering_infinity

record pdcp_rx_config =
  prx_rb_type :: pdcp_rb_type
  prx_rlc_mode :: pdcp_rlc_mode
  prx_sn_size :: pdcp_sn_size
  prx_direction :: pdcp_security_direction
  prx_header_compression :: bool
  prx_t_reordering :: pdcp_t_reordering
  prx_max_count :: pdcp_max_count

record pdcp_rx_state =
  rx_next_count :: u32
  rx_deliv :: u32
  rx_reord :: u32

record pdcp_rx_pdu_info =
  rpi_buf :: bytes
  rpi_count :: u32

record pdcp_rx_sdu_info =
  rsi_buf :: bytes
  rsi_count :: u32

datatype pdcp_rx_task = task_reordering pdcp_rx_pdu_info | task_failure security_error

datatype pdcp_rx_event =
    on_new_sdu u32 bytes
  | on_max_count_reached
  | on_protocol_failure
  | on_integrity_failure
  | on_status_report bytes

record pdcp_entity_rx =
  prx_cfg :: pdcp_rx_config
  prx_bearer_id :: u8
  prx_hdr_len_bytes :: nat
  prx_window_size :: u32
  prx_max_nof_crypto_workers :: nat
  prx_stopped :: bool
  prx_sec_engine_pool :: "security_engine option list"
  prx_integrity_enabled :: bool
  prx_ciphering_enabled :: bool
  prx_max_count_notified :: bool
  prx_max_count_overflow :: bool
  prx_st :: pdcp_rx_state
  prx_window :: "pdcp_rx_sdu_info circular_map"
  prx_reordering_timer :: bool
  prx_token_mngr :: pdcp_crypto_token_manager
  prx_buffering :: bool
  prx_pdu_buffer :: "bytes list"
  prx_crypto_tasks :: "pdcp_rx_pdu_info list"
  prx_ue_tasks :: "pdcp_rx_task list"

type_synonym pdcp_rx_result = "(pdcp_entity_rx \<times> pdcp_rx_event list) option"

abbreviation prx_is_srb :: "pdcp_entity_rx \<Rightarrow> bool" where "prx_is_srb e \<equiv> prx_rb_type (prx_cfg e) = rb_srb"
abbreviation prx_is_um :: "pdcp_entity_rx \<Rightarrow> bool" where "prx_is_um e \<equiv> prx_rlc_mode (prx_cfg e) = rlc_um"

text \<open>
  Creation: \<open>None\<close> is a failed assertion or a reported error that ends the program.  \<open>rb_id\<close> is the identity of the
  radio bearer, \<open>rohc_supported\<close> a property of the build.
\<close>

definition pdcp_rx_create :: "bool \<Rightarrow> nat \<Rightarrow> pdcp_rx_config \<Rightarrow> nat \<Rightarrow> pdcp_entity_rx option" where
  "pdcp_rx_create rohc_supported rb_id cfg max_nof_crypto_workers =
     (case (pdcp_data_pdu_header_size (prx_sn_size cfg), pdcp_window_size_of (prx_sn_size cfg),
            cm_create (pdcp_window_size (pdcp_sn_size_to_uint (prx_sn_size cfg)))) of
        (Some hdr_len, Some win, Some rx_window) \<Rightarrow>
          if prx_header_compression cfg \<and> (prx_rb_type cfg = rb_srb \<or> \<not> rohc_supported) then None
          else Some \<lparr>prx_cfg = cfg, prx_bearer_id = of_nat rb_id - 1, prx_hdr_len_bytes = hdr_len, prx_window_size = win,
            prx_max_nof_crypto_workers = max_nof_crypto_workers, prx_stopped = False,
            prx_sec_engine_pool = replicate max_nof_crypto_workers None,
            prx_integrity_enabled = False, prx_ciphering_enabled = False, prx_max_count_notified = False,
            prx_max_count_overflow = False, prx_st = \<lparr>rx_next_count = 0, rx_deliv = 0, rx_reord = 0\<rparr>,
            prx_window = rx_window, prx_reordering_timer = False,
            prx_token_mngr = \<lparr>tm_pending_crypto = False, tm_tokens = 0\<rparr>, prx_buffering = False, prx_pdu_buffer = [],
            prx_crypto_tasks = [], prx_ue_tasks = []\<rparr>
      | _ \<Rightarrow> None)"

section \<open>Stopping and buffering\<close>

definition pdcp_rx_stop :: "pdcp_entity_rx \<Rightarrow> pdcp_entity_rx option" where
  "pdcp_rx_stop e =
     (if \<not> prx_stopped e
      then map_option (\<lambda>tm. e\<lparr>prx_stopped := True, prx_reordering_timer := False, prx_token_mngr := tm\<rparr>)
             (token_stop (prx_token_mngr e))
      else Some e)"

definition notify_pdu_processing_stopped :: "pdcp_entity_rx \<Rightarrow> pdcp_entity_rx option" where
  "notify_pdu_processing_stopped e =
     (if \<not> prx_stopped e then map_option (\<lambda>tm. e\<lparr>prx_token_mngr := tm\<rparr>) (token_stop (prx_token_mngr e)) else Some e)"

definition restart_pdu_processing :: "pdcp_entity_rx \<Rightarrow> pdcp_entity_rx" where
  "restart_pdu_processing e =
     (if \<not> prx_stopped e then e\<lparr>prx_token_mngr := token_start (prx_token_mngr e)\<rparr> else e)"

definition begin_buffering :: "pdcp_entity_rx \<Rightarrow> pdcp_entity_rx" where
  "begin_buffering e = e\<lparr>prx_buffering := True\<rparr>"

section \<open>Received PDUs\<close>

definition return_rx_token :: "pdcp_entity_rx \<Rightarrow> pdcp_entity_rx option" where
  "return_rx_token e = map_option (\<lambda>tm. e\<lparr>prx_token_mngr := tm\<rparr>) (return_token (prx_token_mngr e))"

text \<open>The thresholds on the COUNT; the result tells whether the PDU is refused.\<close>

definition check_max_count :: "u32 \<Rightarrow> pdcp_entity_rx \<Rightarrow> pdcp_entity_rx \<times> pdcp_rx_event list \<times> bool" where
  "check_max_count rcvd_count e =
     (let (e, evs1) =
        (if rcvd_count > mc_notify (prx_max_count (prx_cfg e)) \<and> \<not> prx_max_count_notified e
         then (e\<lparr>prx_max_count_notified := True\<rparr>, [on_max_count_reached]) else (e, []))
      in if rcvd_count \<ge> mc_hard (prx_max_count (prx_cfg e))
         then if \<not> prx_max_count_overflow e
              then (e\<lparr>prx_max_count_overflow := True\<rparr>, evs1 @ [on_protocol_failure], True) else (e, evs1, True)
         else (e, evs1, False))"

text \<open>\<open>crypto_ok\<close> is the result of handing the task to the crypto executor.\<close>

definition pdcp_rx_handle_data_pdu :: "bool \<Rightarrow> bytes \<Rightarrow> pdcp_entity_rx \<Rightarrow> pdcp_rx_result" where
  "pdcp_rx_handle_data_pdu crypto_ok pdu e =
     (if length pdu \<le> prx_hdr_len_bytes e then Some (e, [])
      else case pdcp_read_data_pdu_header (prx_sn_size (prx_cfg e)) pdu of
        None \<Rightarrow> Some (e, [])
      | Some sn \<Rightarrow>
          (let rcvd_count = pdcp_rcvd_count (prx_sn_size (prx_cfg e)) (prx_window_size e) (rx_deliv (prx_st e)) sn;
               (e, evs, refused) = check_max_count rcvd_count e
           in if refused then Some (e, evs)
              else let e = e\<lparr>prx_token_mngr := increment_token (prx_token_mngr e)\<rparr>
                   in if crypto_ok
                      then Some (e\<lparr>prx_crypto_tasks := prx_crypto_tasks e @ [\<lparr>rpi_buf = pdu, rpi_count = rcvd_count\<rparr>]\<rparr>, evs)
                      else map_option (\<lambda>e. (e, evs)) (return_rx_token e)))"

definition pdcp_rx_handle_control_pdu :: "bytes \<Rightarrow> pdcp_entity_rx \<Rightarrow> pdcp_rx_result" where
  "pdcp_rx_handle_control_pdu pdu e =
     (if pdcp_pdu_get_dc (hd pdu) \<noteq> dc_control then None
      else case pdcp_control_pdu_get_cpt (hd pdu) of
        status_report \<Rightarrow> Some (e, [on_status_report pdu])
      | _ \<Rightarrow> Some (e, []))"

text \<open>\<open>copy_ok\<close> is the result of copying the PDU; the buffer of a paused entity holds 2048 PDUs.\<close>

definition pdcp_rx_handle_pdu :: "bool \<Rightarrow> bool \<Rightarrow> bytes \<Rightarrow> pdcp_entity_rx \<Rightarrow> pdcp_rx_result" where
  "pdcp_rx_handle_pdu copy_ok crypto_ok buf e =
     (if prx_stopped e then Some (e, [])
      else if prx_buffering e
      then Some (if length (prx_pdu_buffer e) < 2048 then e\<lparr>prx_pdu_buffer := prx_pdu_buffer e @ [buf]\<rparr> else e, [])
      else if buf = [] then Some (e, [])
      else if \<not> copy_ok then Some (e, [])
      else if prx_is_srb e \<or> pdcp_pdu_get_dc (hd buf) = dc_data
      then pdcp_rx_handle_data_pdu crypto_ok buf e
      else pdcp_rx_handle_control_pdu buf e)"

text \<open>The end of buffering handles the buffered PDUs; the two flags of each are the results of its allocations.\<close>

fun flush_pdu_buffer :: "(bool \<times> bool) list \<Rightarrow> bytes list \<Rightarrow> pdcp_entity_rx \<Rightarrow> pdcp_rx_result" where
  "flush_pdu_buffer oks [] e = Some (e, [])"
| "flush_pdu_buffer oks (buf # bufs) e =
     (let (copy_ok, crypto_ok) = (case oks of [] \<Rightarrow> (True, True) | ok # _ \<Rightarrow> ok) in
      case pdcp_rx_handle_pdu copy_ok crypto_ok buf (e\<lparr>prx_pdu_buffer := bufs\<rparr>) of
        None \<Rightarrow> None
      | Some (e, evs) \<Rightarrow> map_option (\<lambda>(e, evs'). (e, evs @ evs')) (flush_pdu_buffer (tl oks) bufs e))"

definition end_buffering :: "(bool \<times> bool) list \<Rightarrow> pdcp_entity_rx \<Rightarrow> pdcp_rx_result" where
  "end_buffering oks e = flush_pdu_buffer oks (prx_pdu_buffer e) (e\<lparr>prx_buffering := False\<rparr>)"

section \<open>Deciphering and integrity check\<close>

definition apply_deciphering_and_integrity_check ::
  "aes_lib \<Rightarrow> nat \<Rightarrow> bytes \<Rightarrow> u32 \<Rightarrow> pdcp_entity_rx \<Rightarrow> security_result" where
  "apply_deciphering_and_integrity_check lib worker_idx buf count e =
     (if worker_idx \<ge> prx_max_nof_crypto_workers e then None
      else case prx_sec_engine_pool e ! worker_idx of
        None \<Rightarrow>
          (if prx_is_srb e
           then if length buf \<le> sec_mac_len then Some (Inl buffer_failure)
                else Some (Inr (take (length buf - sec_mac_len) buf))
           else Some (Inr buf))
      | Some sec_engine \<Rightarrow>
          (let hdr_size = (if prx_sn_size (prx_cfg e) = pdcp_size12bits then 2 else 3)
           in decrypt_and_verify_integrity lib sec_engine buf hdr_size count))"

text \<open>
  A task of the crypto executor.  \<open>ue_ok\<close> is the result of handing the next task to the UE executor; otherwise the task
  is destroyed and returns its token.  Trimming more bytes than there are fails an assertion.
\<close>

definition pdcp_rx_apply_security :: "aes_lib \<Rightarrow> nat \<Rightarrow> bool \<Rightarrow> pdcp_rx_pdu_info \<Rightarrow> pdcp_entity_rx \<Rightarrow> pdcp_entity_rx option" where
  "pdcp_rx_apply_security lib worker_idx ue_ok pdu_info e =
     (case apply_deciphering_and_integrity_check lib worker_idx (rpi_buf pdu_info) (rpi_count pdu_info) e of
        None \<Rightarrow> None
      | Some (Inl sec_err) \<Rightarrow>
          (if ue_ok then Some (e\<lparr>prx_ue_tasks := prx_ue_tasks e @ [task_failure sec_err]\<rparr>) else return_rx_token e)
      | Some (Inr buf) \<Rightarrow>
          (let hdr_size = (if prx_sn_size (prx_cfg e) = pdcp_size12bits then 2 else 3) in
           if length buf < hdr_size then None
           else if ue_ok
           then Some (e\<lparr>prx_ue_tasks := prx_ue_tasks e @ [task_reordering (pdu_info\<lparr>rpi_buf := drop hdr_size buf\<rparr>)]\<rparr>)
           else return_rx_token e))"

section \<open>Delivery\<close>

function deliver_all_consecutive_counts :: "pdcp_entity_rx \<Rightarrow> pdcp_entity_rx \<times> pdcp_rx_event list" where
  "deliver_all_consecutive_counts e =
     (let count = rx_deliv (prx_st e) in
      if count \<noteq> rx_next_count (prx_st e) \<and> has_sn (prx_window e) count
      then let (e', evs) = deliver_all_consecutive_counts
                 (e\<lparr>prx_window := fst (cm_erase (prx_window e) count), prx_st := (prx_st e)\<lparr>rx_deliv := count + 1\<rparr>\<rparr>)
           in (e', on_new_sdu count (rsi_buf (the (cm_get (prx_window e) count))) # evs)
      else (e, []))"
  by pat_completeness auto

text \<open>The loops count up to another COUNT and wrap around before they miss it.\<close>

lemma count_distance_step:
  assumes "i \<noteq> (e :: u32)"
  shows "unat (e - (i + 1)) < unat (e - i)"
proof -
  have "e - i \<noteq> 0" using assms by simp
  then have "unat (e - i - 1) = unat (e - i) - 1" "unat (e - i) \<noteq> 0" by (simp_all add: unat_minus_one unat_eq_0)
  then have "unat (e - i - 1) < unat (e - i)" by linarith
  then show ?thesis by (simp add: algebra_simps)
qed

termination deliver_all_consecutive_counts
  by (relation "measure (\<lambda>e. unat (rx_next_count (prx_st e) - rx_deliv (prx_st e)))") (auto simp: count_distance_step)

declare deliver_all_consecutive_counts.simps [simp del]

text \<open>Delivery of everything below \<open>RX_REORD\<close> on the expiry of t-Reordering.\<close>

function deliver_below_reord :: "pdcp_entity_rx \<Rightarrow> pdcp_entity_rx \<times> pdcp_rx_event list" where
  "deliver_below_reord e =
     (let count = rx_deliv (prx_st e) in
      if count \<noteq> rx_reord (prx_st e)
      then if has_sn (prx_window e) count
           then let (e', evs) = deliver_below_reord
                      (e\<lparr>prx_window := fst (cm_erase (prx_window e) count), prx_st := (prx_st e)\<lparr>rx_deliv := count + 1\<rparr>\<rparr>)
                in (e', on_new_sdu count (rsi_buf (the (cm_get (prx_window e) count))) # evs)
           else deliver_below_reord (e\<lparr>prx_st := (prx_st e)\<lparr>rx_deliv := count + 1\<rparr>\<rparr>)
      else (e, []))"
  by pat_completeness auto

termination deliver_below_reord
  by (relation "measure (\<lambda>e. unat (rx_reord (prx_st e) - rx_deliv (prx_st e)))") (auto simp: count_distance_step)

declare deliver_below_reord.simps [simp del]

definition handle_t_reordering_expire :: "pdcp_entity_rx \<Rightarrow> pdcp_rx_result" where
  "handle_t_reordering_expire e =
     (let (e, evs1) = deliver_below_reord e;
          (e, evs2) = deliver_all_consecutive_counts e
      in if rx_deliv (prx_st e) < rx_next_count (prx_st e)
         then if prx_t_reordering (prx_cfg e) = t_reordering_ms 0 then Some (e, evs1 @ evs2)
              else Some (e\<lparr>prx_st := (prx_st e)\<lparr>rx_reord := rx_next_count (prx_st e)\<rparr>, prx_reordering_timer := True\<rparr>, evs1 @ evs2)
         else Some (e, evs1 @ evs2))"

definition reordering_callback :: "pdcp_entity_rx \<Rightarrow> pdcp_rx_result" where
  "reordering_callback e = (if prx_stopped e then Some (e, []) else handle_t_reordering_expire e)"

section \<open>Reordering\<close>

definition prx_store :: "u32 \<Rightarrow> bytes \<Rightarrow> pdcp_entity_rx \<Rightarrow> pdcp_entity_rx option" where
  "prx_store rcvd_count buf e =
     (case add_sn (prx_window e) rcvd_count \<lparr>rsi_buf = buf, rsi_count = rcvd_count\<rparr> of
        None \<Rightarrow> None
      | Some w \<Rightarrow> Some (e\<lparr>prx_window := w, prx_st := (if rcvd_count \<ge> rx_next_count (prx_st e)
            then (prx_st e)\<lparr>rx_next_count := rcvd_count + 1\<rparr> else prx_st e)\<rparr>))"

definition handle_reordering_timers :: "pdcp_entity_rx \<Rightarrow> pdcp_rx_result" where
  "handle_reordering_timers e =
     (let e = (if prx_reordering_timer e \<and> rx_deliv (prx_st e) \<ge> rx_reord (prx_st e)
               then e\<lparr>prx_reordering_timer := False\<rparr> else e)
      in case prx_t_reordering (prx_cfg e) of
           t_reordering_infinity \<Rightarrow> Some (e, [])
         | t_reordering_ms ms \<Rightarrow>
             (if ms = 0
              then handle_t_reordering_expire (e\<lparr>prx_st := (prx_st e)\<lparr>rx_reord := rx_next_count (prx_st e)\<rparr>\<rparr>)
              else if \<not> prx_reordering_timer e \<and> rx_deliv (prx_st e) < rx_next_count (prx_st e)
              then Some (e\<lparr>prx_st := (prx_st e)\<lparr>rx_reord := rx_next_count (prx_st e)\<rparr>, prx_reordering_timer := True\<rparr>, [])
              else Some (e, [])))"

definition apply_reordering_rx :: "pdcp_rx_pdu_info \<Rightarrow> pdcp_entity_rx \<Rightarrow> pdcp_rx_result" where
  "apply_reordering_rx pdu_info e =
     (let rcvd_count = rpi_count pdu_info in
      if rcvd_count < rx_deliv (prx_st e) then Some (e, [])
      else
        case (if has_sn (prx_window e) rcvd_count
              then if rsi_count (the (cm_get (prx_window e) rcvd_count)) = rcvd_count then None
                   else Some (fst (cm_erase (prx_window e) rcvd_count))
              else Some (prx_window e)) of
          None \<Rightarrow> Some (e, [])
        | Some w \<Rightarrow>
            (case prx_store rcvd_count (rpi_buf pdu_info) (e\<lparr>prx_window := w\<rparr>) of
               None \<Rightarrow> None
             | Some e \<Rightarrow>
                 (let (e, evs) = (if rcvd_count = rx_deliv (prx_st e) then deliver_all_consecutive_counts e else (e, []))
                  in map_option (\<lambda>(e, evs'). (e, evs @ evs')) (handle_reordering_timers e))))"

text \<open>A task of the UE executor; its token is returned when it is done.\<close>

definition failure_event :: "security_error \<Rightarrow> pdcp_rx_event" where
  "failure_event sec_err = (if sec_err = integrity_failure then on_integrity_failure else on_protocol_failure)"

fun run_ue_task :: "pdcp_rx_task \<Rightarrow> pdcp_entity_rx \<Rightarrow> pdcp_rx_result" where
  "run_ue_task (task_failure sec_err) e = map_option (\<lambda>e. (e, [failure_event sec_err])) (return_rx_token e)"
| "run_ue_task (task_reordering pdu_info) e =
     (case apply_reordering_rx pdu_info e of
        None \<Rightarrow> None
      | Some (e, evs) \<Rightarrow> map_option (\<lambda>e. (e, evs)) (return_rx_token e))"

section \<open>Re-establishment\<close>

function discard_all_sdus :: "pdcp_entity_rx \<Rightarrow> pdcp_entity_rx" where
  "discard_all_sdus e =
     (let count = rx_deliv (prx_st e) in
      if count \<noteq> rx_next_count (prx_st e)
      then let w = (if has_sn (prx_window e) count then fst (cm_erase (prx_window e) count) else prx_window e)
           in discard_all_sdus (e\<lparr>prx_window := w, prx_st := (prx_st e)\<lparr>rx_deliv := count + 1\<rparr>\<rparr>)
      else e)"
  by pat_completeness auto

termination discard_all_sdus
  by (relation "measure (\<lambda>e. unat (rx_next_count (prx_st e) - rx_deliv (prx_st e)))") (auto simp: count_distance_step)

declare discard_all_sdus.simps [simp del]

function deliver_all_loop :: "u32 \<Rightarrow> pdcp_entity_rx \<Rightarrow> pdcp_entity_rx \<times> pdcp_rx_event list" where
  "deliver_all_loop count e =
     (if count < rx_next_count (prx_st e)
      then if has_sn (prx_window e) count
           then let (e', evs) = deliver_all_loop (count + 1) (e\<lparr>prx_window := fst (cm_erase (prx_window e) count)\<rparr>)
                in (e', on_new_sdu count (rsi_buf (the (cm_get (prx_window e) count))) # evs)
           else deliver_all_loop (count + 1) e
      else (e, []))"
  by pat_completeness auto

termination deliver_all_loop
  by (relation "measure (\<lambda>(count, e). unat (rx_next_count (prx_st e)) - unat count)") (auto simp: count_step)

declare deliver_all_loop.simps [simp del]

definition deliver_all_sdus :: "pdcp_entity_rx \<Rightarrow> pdcp_entity_rx \<times> pdcp_rx_event list" where
  "deliver_all_sdus e = deliver_all_loop (rx_deliv (prx_st e)) e"

text \<open>\<open>None\<close> is a failed assertion of \<open>configure_security\<close> or of the construction of an engine.\<close>

definition pdcp_rx_configure_security :: "aes_lib \<Rightarrow> sec_128_as_config \<Rightarrow> bool \<Rightarrow> bool \<Rightarrow> pdcp_entity_rx \<Rightarrow> pdcp_entity_rx option" where
  "pdcp_rx_configure_security lib sec_cfg integrity_enabled ciphering_enabled e =
     (if \<not> (prx_is_srb e \<and> c128_domain sec_cfg = dom_rrc \<or> \<not> prx_is_srb e \<and> c128_domain sec_cfg = dom_up) then None
      else if integrity_enabled \<and> k_128_int sec_cfg = None then Some e
      else if integrity_enabled \<and> c128_integ_algo sec_cfg = None then Some e
      else if \<not> integrity_enabled \<and> prx_is_srb e then None
      else
        let direction = (if prx_direction (prx_cfg e) = pdcp_uplink then dir_uplink else dir_downlink) in
        case security_engine_impl lib sec_cfg (prx_bearer_id e) direction integrity_enabled ciphering_enabled of
          None \<Rightarrow> None
        | Some sec_engine \<Rightarrow>
            Some (e\<lparr>prx_integrity_enabled := integrity_enabled, prx_ciphering_enabled := ciphering_enabled,
                    prx_sec_engine_pool := replicate (prx_max_nof_crypto_workers e) (Some sec_engine)\<rparr>))"

definition pdcp_rx_reestablish :: "aes_lib \<Rightarrow> sec_128_as_config \<Rightarrow> pdcp_entity_rx \<Rightarrow> pdcp_rx_result" where
  "pdcp_rx_reestablish lib sec_cfg e =
     (let e = (if prx_is_srb e then discard_all_sdus e else e);
          e = (if (prx_is_srb e \<or> prx_is_um e) \<and> prx_reordering_timer e then e\<lparr>prx_reordering_timer := False\<rparr> else e);
          (e, evs) = (if (prx_is_srb e \<or> prx_is_um e) \<and> prx_is_um e then deliver_all_sdus e else (e, []));
          e = (if prx_is_srb e \<or> prx_is_um e then e\<lparr>prx_st := \<lparr>rx_next_count = 0, rx_deliv = 0, rx_reord = 0\<rparr>\<rparr> else e)
      in map_option (\<lambda>e. (e, evs)) (pdcp_rx_configure_security lib sec_cfg (prx_integrity_enabled e) (prx_ciphering_enabled e) e))"

section \<open>Status transfer and status report\<close>

record pdcp_count_info =
  ci_sn :: u32
  ci_hfn :: u32

definition pdcp_rx_get_count :: "pdcp_entity_rx \<Rightarrow> pdcp_count_info" where
  "pdcp_rx_get_count e =
     \<lparr>ci_sn = pdcp_compute_sn (rx_deliv (prx_st e)) (prx_sn_size (prx_cfg e)),
      ci_hfn = pdcp_compute_hfn (rx_deliv (prx_st e)) (prx_sn_size (prx_cfg e))\<rparr>"

definition pdcp_rx_set_count :: "pdcp_count_info \<Rightarrow> pdcp_entity_rx \<Rightarrow> pdcp_entity_rx" where
  "pdcp_rx_set_count count_info e =
     (let count = pdcp_compute_count (ci_hfn count_info) (ci_sn count_info) (prx_sn_size (prx_cfg e))
      in e\<lparr>prx_st := \<lparr>rx_next_count = count, rx_deliv = count, rx_reord = count\<rparr>\<rparr>)"

definition pdcp_rx_compile_status_report :: "pdcp_entity_rx \<Rightarrow> bytes" where
  "pdcp_rx_compile_status_report e =
     compile_status_report (rx_deliv (prx_st e)) (rx_next_count (prx_st e)) (has_sn (prx_window e))"

end
