(* ===== verification/Pdcp_Tx_Window.thy ===== *)
theory Pdcp_Tx_Window
  imports Pdcp_Common
begin

text \<open>
  The window of the transmitting PDCP entity (\<open>lib/pdcp/pdcp_tx_window.h\<close>, \<open>.cpp\<close>): the elements by COUNT and the totals that
  the check of the buffer size of the lower layers reads.
\<close>

section \<open>The window\<close>

record pdcp_tx_window_element =
  twe_sdu :: bytes
  twe_count :: u32
  twe_tick_point_of_arrival :: "u32 option"
  twe_pdu :: bytes
  twe_sdu_length :: u32

record pdcp_tx_window =
  tw_map :: "pdcp_tx_window_element circular_map"
  tw_sdu_bytes :: u32
  tw_nof_sdus :: u32

definition cm_clear :: "'a circular_map \<Rightarrow> 'a circular_map" where
  "cm_clear cm = cm\<lparr>cm_data := (\<lambda>_. None), cm_count := 0\<rparr>"

abbreviation tw_has_sn :: "pdcp_tx_window \<Rightarrow> u32 \<Rightarrow> bool" where "tw_has_sn w count \<equiv> has_sn (tw_map w) count"

definition tw_add_sdu :: "pdcp_tx_window_element \<Rightarrow> pdcp_tx_window \<Rightarrow> pdcp_tx_window option" where
  "tw_add_sdu elem w =
     (case add_sn (tw_map w) (twe_count elem) elem of
        None \<Rightarrow> None
      | Some m \<Rightarrow> Some (w\<lparr>tw_map := m, tw_sdu_bytes := tw_sdu_bytes w + twe_sdu_length elem, tw_nof_sdus := tw_nof_sdus w + 1\<rparr>))"

definition tw_remove_sdu :: "u32 \<Rightarrow> pdcp_tx_window \<Rightarrow> pdcp_tx_window" where
  "tw_remove_sdu count w =
     (case cm_get (tw_map w) count of
        None \<Rightarrow> w
      | Some elem \<Rightarrow> w\<lparr>tw_sdu_bytes := tw_sdu_bytes w - twe_sdu_length elem, tw_nof_sdus := tw_nof_sdus w - 1,
          tw_map := fst (cm_erase (tw_map w) count)\<rparr>)"

definition tw_clear :: "pdcp_tx_window \<Rightarrow> pdcp_tx_window" where
  "tw_clear w = w\<lparr>tw_sdu_bytes := 0, tw_nof_sdus := 0, tw_map := cm_clear (tw_map w)\<rparr>"

definition tw_get_pdu_bytes :: "pdcp_rb_type \<Rightarrow> pdcp_sn_size \<Rightarrow> bool \<Rightarrow> pdcp_tx_window \<Rightarrow> u32" where
  "tw_get_pdu_bytes rb_type sn_size integrity w =
     tw_sdu_bytes w + tw_nof_sdus w * of_nat (pdcp_data_header_size sn_size + pdcp_data_trailer_size rb_type integrity)"

text \<open>Assignment to the PDU of an element that is present.\<close>

definition tw_set_pdu :: "u32 \<Rightarrow> bytes \<Rightarrow> pdcp_tx_window \<Rightarrow> pdcp_tx_window" where
  "tw_set_pdu count pdu w = w\<lparr>tw_map := cm_modify (tw_map w) count (\<lambda>elem. elem\<lparr>twe_pdu := pdu\<rparr>)\<rparr>"

section \<open>The window as a map with its totals\<close>

abbreviation tw_get :: "pdcp_tx_window \<Rightarrow> u32 \<Rightarrow> pdcp_tx_window_element option" where "tw_get w \<equiv> cm_get (tw_map w)"

definition tw_keys :: "pdcp_tx_window \<Rightarrow> u32 set" where
  "tw_keys w = {k. tw_get w k \<noteq> None}"

definition tw_length :: "pdcp_tx_window \<Rightarrow> u32 \<Rightarrow> u32" where
  "tw_length w k = (case tw_get w k of None \<Rightarrow> 0 | Some elem \<Rightarrow> twe_sdu_length elem)"

text \<open>The totals are those of the SDUs in the window.\<close>

definition tw_totals :: "pdcp_tx_window \<Rightarrow> bool" where
  "tw_totals w \<longleftrightarrow> tw_sdu_bytes w = (\<Sum>k\<in>tw_keys w. tw_length w k) \<and> tw_nof_sdus w = of_nat (card (tw_keys w))"

lemma tw_get_remove: "tw_get (tw_remove_sdu c w) k = (if k = c then None else tw_get w k)"
  by (auto simp: tw_remove_sdu_def cmw.get_del split: option.splits)

lemma tw_remove_wf:
  "cm_wf (tw_map w) \<Longrightarrow> cm_wf (tw_map (tw_remove_sdu c w))" "cm_max_size (tw_map (tw_remove_sdu c w)) = cm_max_size (tw_map w)"
  by (auto simp: tw_remove_sdu_def cmw.wf_del split: option.splits)

lemma tw_get_set: "tw_get (tw_set_pdu c pdu w) k = (if k = c then map_option (twe_pdu_update (\<lambda>_. pdu)) (tw_get w c) else tw_get w k)"
  by (simp add: tw_set_pdu_def cmw.get_upd)

lemma tw_set_near: "near_window (tw_map w) lo W \<Longrightarrow> near_window (tw_map (tw_set_pdu c pdu w)) lo W"
  by (simp add: tw_set_pdu_def near_window_upd)

lemma tw_get_clear: "tw_get (tw_clear w) k = None"
  by (simp add: tw_clear_def cm_clear_def cm_get_def cm_contains_def)

lemma tw_clear_near: "near_window (tw_map w) lo W \<Longrightarrow> near_window (tw_map (tw_clear w)) lo' W"
  by (rule near_windowI) (auto dest: near_windowD(1,2) simp: tw_get_clear, auto simp: tw_clear_def cm_clear_def cm_wf_def near_window_def)

lemma tw_add_get:
  assumes "near_window (tw_map w) lo W" "lo \<le> uint (twe_count elem)" "uint (twe_count elem) < lo + W" "tw_get w (twe_count elem) = None"
  obtains w' where "tw_add_sdu elem w = Some w'" "tw_get w' = (tw_get w)(twe_count elem \<mapsto> elem)" "near_window (tw_map w') lo W"
    "tw_sdu_bytes w' = tw_sdu_bytes w + twe_sdu_length elem" "tw_nof_sdus w' = tw_nof_sdus w + 1"
  using assms(4) near_window_put [OF assms(1-3), of elem] by (simp add: tw_add_sdu_def add_sn_def cm_contains_get)

lemma totals_create: "(\<And>k. cm_get m k = None) \<Longrightarrow> tw_totals \<lparr>tw_map = m, tw_sdu_bytes = 0, tw_nof_sdus = 0\<rparr>"
  by (simp add: tw_totals_def tw_keys_def)

lemma totals_clear: "tw_totals (tw_clear w)"
  by (simp add: tw_totals_def tw_keys_def tw_get_clear) (simp add: tw_clear_def)

lemma totals_set:
  assumes "tw_totals w"
  shows "tw_totals (tw_set_pdu c pdu w)"
proof -
  have "tw_length (tw_set_pdu c pdu w) = tw_length w" "tw_keys (tw_set_pdu c pdu w) = tw_keys w"
    by (auto simp: tw_length_def tw_keys_def tw_get_set fun_eq_iff split: option.splits)
  then show ?thesis using assms by (simp add: tw_totals_def) (simp add: tw_set_pdu_def)
qed

lemma totals_remove:
  assumes "tw_totals w"
  shows "tw_totals (tw_remove_sdu c w)"
proof (cases "tw_get w c")
  case (Some elem)
  have keys: "tw_keys w = insert c (tw_keys (tw_remove_sdu c w))" "c \<notin> tw_keys (tw_remove_sdu c w)"
    using Some by (auto simp: tw_keys_def tw_get_remove)
  have len: "tw_length w c = twe_sdu_length elem" "(\<Sum>k\<in>tw_keys (tw_remove_sdu c w). tw_length (tw_remove_sdu c w) k) =
      (\<Sum>k\<in>tw_keys (tw_remove_sdu c w). tw_length w k)"
    using Some keys(2) by (auto simp: tw_length_def tw_get_remove intro!: sum.cong)
  have "tw_sdu_bytes w = twe_sdu_length elem + (\<Sum>k\<in>tw_keys (tw_remove_sdu c w). tw_length w k)"
    "tw_nof_sdus w = 1 + of_nat (card (tw_keys (tw_remove_sdu c w)))"
    using assms keys(2) len(1) unfolding tw_totals_def keys(1) by simp_all
  moreover have "tw_sdu_bytes (tw_remove_sdu c w) = tw_sdu_bytes w - twe_sdu_length elem" "tw_nof_sdus (tw_remove_sdu c w) = tw_nof_sdus w - 1"
    using Some by (simp_all add: tw_remove_sdu_def)
  ultimately show ?thesis using len(2) by (simp add: tw_totals_def)
qed (use assms in \<open>simp add: tw_remove_sdu_def\<close>)

lemma totals_add:
  assumes "tw_totals w" "tw_get w (twe_count elem) = None" "tw_get w' = (tw_get w)(twe_count elem \<mapsto> elem)"
    "tw_sdu_bytes w' = tw_sdu_bytes w + twe_sdu_length elem" "tw_nof_sdus w' = tw_nof_sdus w + 1"
  shows "tw_totals w'"
proof -
  have keys: "tw_keys w' = insert (twe_count elem) (tw_keys w)" "twe_count elem \<notin> tw_keys w" using assms(2,3) by (auto simp: tw_keys_def)
  have len: "tw_length w' (twe_count elem) = twe_sdu_length elem" "(\<Sum>k\<in>tw_keys w. tw_length w' k) = (\<Sum>k\<in>tw_keys w. tw_length w k)"
    using assms(3) keys(2) by (auto simp: tw_length_def intro!: sum.cong)
  show ?thesis using assms(1,4,5) keys(2) len unfolding tw_totals_def keys(1) by simp
qed

end
