(* ===== verification/Pdcp_Tx.thy ===== *)
theory Pdcp_Tx
  imports Pdcp_Rx Pdcp_Tx_Window
begin

text \<open>
  The transmitting PDCP entity (\<open>lib/pdcp/pdcp_entity_tx.h\<close>, \<open>lib/pdcp/pdcp_entity_tx.cpp\<close>).  As in \<open>Pdcp_Rx\<close> the tasks
  of the crypto workers and of the UE executor are
  lists of the state.  An operation returns the new state and the calls to the lower and upper layers; \<open>None\<close> is a
  failed assertion, among them every read of the window at a COUNT it does not hold.
\<close>

section \<open>The entity\<close>

datatype pdcp_discard_timer = discard_timer_ms nat | discard_timer_infinity

record pdcp_tx_config =
  ptx_rb_type :: pdcp_rb_type
  ptx_rlc_mode :: pdcp_rlc_mode
  ptx_sn_size :: pdcp_sn_size
  ptx_direction :: pdcp_security_direction
  ptx_header_compression :: bool
  ptx_discard_timer :: "pdcp_discard_timer option"
  ptx_status_report_required :: bool
  ptx_max_count :: pdcp_max_count
  ptx_test_mode :: bool

record pdcp_tx_state =
  ptx_next :: u32
  ptx_trans_crypto :: u32
  ptx_reord_crypto :: u32
  ptx_trans :: u32
  ptx_next_ack :: u32

record pdcp_tx_buffer_info =
  tbi_is_retx :: bool
  tbi_retx_id :: u16
  tbi_count :: u32
  tbi_buf :: bytes

datatype pdcp_tx_task = tx_task_reordering pdcp_tx_buffer_info | tx_task_failure security_error

text \<open>\<open>tx_on_new_pdu\<close> carries the COUNT that the code logs with the PDU.\<close>

datatype pdcp_tx_event =
    tx_on_new_pdu u32 bytes bool
  | tx_on_control_pdu bytes
  | tx_on_discard_pdu u32
  | tx_on_protocol_failure
  | tx_on_max_count_reached

record pdcp_entity_tx =
  ptx_cfg :: pdcp_tx_config
  ptx_bearer_id :: u8
  ptx_window_size :: u32
  ptx_max_nof_crypto_workers :: nat
  ptx_stopped :: bool
  ptx_sec_engine_pool :: "security_engine option list"
  ptx_integrity_enabled :: bool
  ptx_ciphering_enabled :: bool
  ptx_max_count_notified :: bool
  ptx_max_count_overflow :: bool
  ptx_st :: pdcp_tx_state
  ptx_desired_buffer_size :: u32
  ptx_retransmit_id :: u16
  ptx_window :: pdcp_tx_window
  ptx_disc_timer :: "u32 option"
  ptx_crypto_reordering_timer :: bool
  ptx_token_mngr :: pdcp_crypto_token_manager
  ptx_buffering :: bool
  ptx_sdu_buffer :: "bytes list"
  ptx_crypto_tasks :: "pdcp_tx_buffer_info list"
  ptx_ue_tasks :: "pdcp_tx_task list"

type_synonym pdcp_tx_result = "(pdcp_entity_tx \<times> pdcp_tx_event list) option"

abbreviation ptx_is_srb :: "pdcp_entity_tx \<Rightarrow> bool" where "ptx_is_srb e \<equiv> ptx_rb_type (ptx_cfg e) = rb_srb"
abbreviation ptx_is_um :: "pdcp_entity_tx \<Rightarrow> bool" where "ptx_is_um e \<equiv> ptx_rlc_mode (ptx_cfg e) = rlc_um"
abbreviation ptx_is_am :: "pdcp_entity_tx \<Rightarrow> bool" where "ptx_is_am e \<equiv> ptx_rlc_mode (ptx_cfg e) = rlc_am"

text \<open>One operation after another, with their calls in order.\<close>

definition ptx_then :: "pdcp_tx_result \<Rightarrow> (pdcp_entity_tx \<Rightarrow> pdcp_tx_result) \<Rightarrow> pdcp_tx_result" where
  "ptx_then r f = (case r of None \<Rightarrow> None | Some (e, evs) \<Rightarrow> map_option (\<lambda>(e', evs'). (e', evs @ evs')) (f e))"

text \<open>
  The discard timer is the duration it was last started with, or \<open>None\<close> when it does not run.  \<open>None\<close> as the result of
  the creation is a reported error that ends the program or a failed assertion.
\<close>

definition pdcp_tx_create :: "bool \<Rightarrow> nat \<Rightarrow> pdcp_tx_config \<Rightarrow> nat \<Rightarrow> pdcp_entity_tx option" where
  "pdcp_tx_create rohc_supported rb_id cfg max_nof_crypto_workers =
     (case (pdcp_data_pdu_header_size (ptx_sn_size cfg), pdcp_window_size_of (ptx_sn_size cfg),
            cm_create (pdcp_window_size (pdcp_sn_size_to_uint (ptx_sn_size cfg)))) of
        (Some _, Some win, Some m) \<Rightarrow>
          if ptx_rb_type cfg = rb_srb \<and>
             (ptx_sn_size cfg \<noteq> pdcp_size12bits \<or> ptx_rlc_mode cfg = rlc_um \<or> ptx_header_compression cfg) then None
          else if ptx_rb_type cfg = rb_drb \<and> ptx_header_compression cfg \<and> \<not> rohc_supported then None
          else Some \<lparr>ptx_cfg = cfg, ptx_bearer_id = of_nat rb_id - 1, ptx_window_size = win,
            ptx_max_nof_crypto_workers = max_nof_crypto_workers, ptx_stopped = False,
            ptx_sec_engine_pool = replicate max_nof_crypto_workers None, ptx_integrity_enabled = False,
            ptx_ciphering_enabled = False, ptx_max_count_notified = False, ptx_max_count_overflow = False,
            ptx_st = \<lparr>ptx_next = 0, ptx_trans_crypto = 0, ptx_reord_crypto = 0, ptx_trans = 0, ptx_next_ack = 0\<rparr>,
            ptx_desired_buffer_size = 0, ptx_retransmit_id = 0,
            ptx_window = \<lparr>tw_map = m, tw_sdu_bytes = 0, tw_nof_sdus = 0\<rparr>, ptx_disc_timer = None,
            ptx_crypto_reordering_timer = False, ptx_token_mngr = \<lparr>tm_pending_crypto = False, tm_tokens = 0\<rparr>,
            ptx_buffering = False, ptx_sdu_buffer = [], ptx_crypto_tasks = [], ptx_ue_tasks = []\<rparr>
      | _ \<Rightarrow> None)"

definition pdcp_tx_stop :: "pdcp_entity_tx \<Rightarrow> pdcp_entity_tx option" where
  "pdcp_tx_stop e =
     (if \<not> ptx_stopped e
      then let e = e\<lparr>ptx_stopped := True, ptx_window := tw_clear (ptx_window e)\<rparr>;
               e = (if ptx_discard_timer (ptx_cfg e) \<noteq> None then e\<lparr>ptx_disc_timer := None\<rparr> else e);
               e = e\<lparr>ptx_crypto_reordering_timer := False\<rparr>
           in map_option (\<lambda>tm. e\<lparr>ptx_token_mngr := tm\<rparr>) (token_stop (ptx_token_mngr e))
      else Some e)"

definition tx_notify_pdu_processing_stopped :: "pdcp_entity_tx \<Rightarrow> pdcp_entity_tx option" where
  "tx_notify_pdu_processing_stopped e =
     (if \<not> ptx_stopped e then map_option (\<lambda>tm. e\<lparr>ptx_token_mngr := tm\<rparr>) (token_stop (ptx_token_mngr e)) else Some e)"

definition tx_restart_pdu_processing :: "pdcp_entity_tx \<Rightarrow> pdcp_entity_tx" where
  "tx_restart_pdu_processing e =
     (if \<not> ptx_stopped e then e\<lparr>ptx_token_mngr := token_start (ptx_token_mngr e)\<rparr> else e)"

definition tx_begin_buffering :: "pdcp_entity_tx \<Rightarrow> pdcp_entity_tx" where
  "tx_begin_buffering e = e\<lparr>ptx_buffering := True\<rparr>"

definition return_tx_token :: "pdcp_entity_tx \<Rightarrow> pdcp_entity_tx option" where
  "return_tx_token e = map_option (\<lambda>tm. e\<lparr>ptx_token_mngr := tm\<rparr>) (return_token (ptx_token_mngr e))"

section \<open>Discarding\<close>

text \<open>
  The loop of \<open>stop_discard_timer\<close> runs up to \<open>highest_count\<close>, which is below TX_NEXT, so that \<open>highest_count + 1\<close> does
  not wrap around.
\<close>

definition stop_discard_loop :: "u32 \<Rightarrow> pdcp_entity_tx \<Rightarrow> pdcp_entity_tx" where
  "stop_discard_loop highest_count e =
     fold (\<lambda>c e. e\<lparr>ptx_window := (if tw_has_sn (ptx_window e) c then tw_remove_sdu c (ptx_window e) else ptx_window e),
                  ptx_st := (ptx_st e)\<lparr>ptx_next_ack := c + 1\<rparr>\<rparr>)
       (count_range (ptx_next_ack (ptx_st e)) (highest_count + 1)) e"

text \<open>\<open>now\<close> is the tick of the timer service.\<close>

definition stop_discard_timer :: "u32 \<Rightarrow> u32 \<Rightarrow> pdcp_entity_tx \<Rightarrow> pdcp_entity_tx option" where
  "stop_discard_timer now highest_count e =
     (case ptx_discard_timer (ptx_cfg e) of
        None \<Rightarrow> Some e
      | Some duration \<Rightarrow>
          if highest_count < ptx_next_ack (ptx_st e) \<or> highest_count \<ge> ptx_next (ptx_st e) then Some e
          else if \<not> tw_has_sn (ptx_window e) (ptx_next_ack (ptx_st e)) then Some e
          else
            let e = stop_discard_loop highest_count (e\<lparr>ptx_disc_timer := None\<rparr>);
                e = e\<lparr>ptx_st := (ptx_st e)\<lparr>ptx_trans := max (ptx_trans (ptx_st e)) (ptx_next_ack (ptx_st e))\<rparr>\<rparr>
            in case duration of
                 discard_timer_infinity \<Rightarrow> Some e
               | discard_timer_ms ms \<Rightarrow>
                   if ptx_next_ack (ptx_st e) \<noteq> ptx_next (ptx_st e)
                   then case cm_get (tw_map (ptx_window e)) (ptx_next_ack (ptx_st e)) of
                          None \<Rightarrow> None
                        | Some elem \<Rightarrow>
                            (case twe_tick_point_of_arrival elem of
                               None \<Rightarrow> None
                             | Some tick \<Rightarrow> Some (e\<lparr>ptx_disc_timer := Some (tick + of_nat ms - now)\<rparr>))
                   else Some e)"

function advance_next_ack :: "pdcp_entity_tx \<Rightarrow> pdcp_entity_tx" where
  "advance_next_ack e =
     (let ack = ptx_next_ack (ptx_st e) in
      if ack < ptx_next (ptx_st e) \<and> \<not> tw_has_sn (ptx_window e) ack
      then advance_next_ack (e\<lparr>ptx_st := (ptx_st e)\<lparr>ptx_next_ack := ack + 1\<rparr>\<rparr>)
      else e)"
  by pat_completeness auto

termination advance_next_ack
  by (relation "measure (\<lambda>e. unat (ptx_next (ptx_st e)) - unat (ptx_next_ack (ptx_st e)))") (auto simp: count_step)

declare advance_next_ack.simps [simp del]

definition discard_pdu :: "u32 \<Rightarrow> pdcp_entity_tx \<Rightarrow> pdcp_entity_tx \<times> pdcp_tx_event list" where
  "discard_pdu count e =
     (if ptx_discard_timer (ptx_cfg e) = None then (e, [])
      else if count < ptx_next_ack (ptx_st e) \<or> count \<ge> ptx_next (ptx_st e) then (e, [])
      else if \<not> tw_has_sn (ptx_window e) count then (e, [])
      else
        let e = advance_next_ack (e\<lparr>ptx_window := tw_remove_sdu count (ptx_window e)\<rparr>)
        in (e\<lparr>ptx_st := (ptx_st e)\<lparr>ptx_trans := max (ptx_trans (ptx_st e)) (ptx_next_ack (ptx_st e))\<rparr>\<rparr>,
            [tx_on_discard_pdu (pdcp_compute_sn count (ptx_sn_size (ptx_cfg e)))]))"

definition discard_counts :: "u32 list \<Rightarrow> pdcp_entity_tx \<Rightarrow> pdcp_entity_tx \<times> pdcp_tx_event list" where
  "discard_counts cs e = fold (\<lambda>c (e, evs). let (e', evs') = discard_pdu c e in (e', evs @ evs')) cs (e, [])"

text \<open>
  A status report discards everything below FMC and, for bit \<open>i\<close> of the bitmap that is set, the COUNT FMC + 1 + \<open>i\<close>.
\<close>

fun reported_counts :: "u32 \<Rightarrow> u32 list \<Rightarrow> u32 list" where
  "reported_counts fmc [] = []"
| "reported_counts fmc (b # bs) = (if b = 1 then (fmc + 1) # reported_counts (fmc + 1) bs else reported_counts (fmc + 1) bs)"

definition handle_status_report :: "bool \<Rightarrow> bytes \<Rightarrow> pdcp_entity_tx \<Rightarrow> pdcp_entity_tx \<times> pdcp_tx_event list" where
  "handle_status_report alloc_ok status e =
     (if \<not> alloc_ok then (e, [])
      else case read_status_report status of
        None \<Rightarrow> (e, [])
      | Some (fmc, bits) \<Rightarrow>
          (let (e, evs1) = discard_counts (count_range (ptx_next_ack (ptx_st e)) fmc) e;
               (e, evs2) = discard_counts (reported_counts fmc bits) e
           in (e, evs1 @ evs2)))"

text \<open>
  The expiry of the discard timer discards the SDUs that arrived at the tick of the oldest one.  \<open>None\<close> is a failed
  assertion or a loop that does not end.
\<close>

partial_function (option) discard_expired_loop :: "u32 \<Rightarrow> pdcp_entity_tx \<Rightarrow> pdcp_tx_result" where
  "discard_expired_loop oldest e =
     (let (e, evs) = discard_pdu (ptx_next_ack (ptx_st e)) e in
      case cm_get (tw_map (ptx_window e)) (ptx_next_ack (ptx_st e)) of
        None \<Rightarrow> Some (e, evs)
      | Some elem \<Rightarrow>
          (case twe_tick_point_of_arrival elem of
             None \<Rightarrow> None
           | Some tick \<Rightarrow>
               if tick \<noteq> oldest then Some (e\<lparr>ptx_disc_timer := Some (tick - oldest)\<rparr>, evs)
               else if ptx_next_ack (ptx_st e) \<noteq> ptx_next (ptx_st e)
               then Option.bind (discard_expired_loop oldest e) (\<lambda>(e', evs'). Some (e', evs @ evs'))
               else Some (e, evs)))"

definition discard_callback :: "pdcp_entity_tx \<Rightarrow> pdcp_tx_result" where
  "discard_callback e =
     (if ptx_stopped e then Some (e, [])
      else case cm_get (tw_map (ptx_window e)) (ptx_next_ack (ptx_st e)) of
        None \<Rightarrow> Some (e, [])
      | Some oldest_elem \<Rightarrow>
          (case twe_tick_point_of_arrival oldest_elem of
             None \<Rightarrow> None
           | Some oldest \<Rightarrow> discard_expired_loop oldest e))"

section \<open>Notifications from the lower layers\<close>

text \<open>The COUNT of a notified SN is estimated with the formula of the receiver.\<close>

definition notification_count_estimation :: "u32 \<Rightarrow> pdcp_entity_tx \<Rightarrow> u32" where
  "notification_count_estimation notification_sn e =
     (let tx_lower = (if ptx_discard_timer (ptx_cfg e) \<noteq> None then ptx_next_ack (ptx_st e) else ptx_trans (ptx_st e))
      in pdcp_rcvd_count (ptx_sn_size (ptx_cfg e)) (ptx_window_size e) tx_lower notification_sn)"

definition handle_transmit_notification_impl :: "u32 \<Rightarrow> u32 \<Rightarrow> pdcp_entity_tx \<Rightarrow> pdcp_entity_tx option" where
  "handle_transmit_notification_impl now notif_sn e =
     (if notif_sn \<ge> pcdp_sn_cardinality (pdcp_sn_size_to_uint (ptx_sn_size (ptx_cfg e))) then Some e
      else let notif_count = notification_count_estimation notif_sn e in
        if notif_count \<ge> ptx_trans_crypto (ptx_st e) then Some e
        else if notif_count < ptx_trans (ptx_st e) then Some e
        else if notif_count \<ge> ptx_next (ptx_st e) then Some e
        else let e = e\<lparr>ptx_st := (ptx_st e)\<lparr>ptx_trans := notif_count + 1\<rparr>\<rparr> in
          if ptx_discard_timer (ptx_cfg e) = None then Some e
          else if ptx_is_um e then stop_discard_timer now notif_count e
          else Some e)"

definition handle_transmit_notification :: "u32 \<Rightarrow> u32 \<Rightarrow> pdcp_entity_tx \<Rightarrow> pdcp_entity_tx option" where
  "handle_transmit_notification now notif_sn e =
     (if ptx_stopped e then Some e else handle_transmit_notification_impl now notif_sn e)"

definition handle_delivery_notification_impl :: "u32 \<Rightarrow> u32 \<Rightarrow> pdcp_entity_tx \<Rightarrow> pdcp_entity_tx option" where
  "handle_delivery_notification_impl now notif_sn e =
     (if notif_sn \<ge> pcdp_sn_cardinality (pdcp_sn_size_to_uint (ptx_sn_size (ptx_cfg e))) then Some e
      else let notif_count = notification_count_estimation notif_sn e in
        if notif_count \<ge> ptx_next (ptx_st e) then Some e
        else if ptx_discard_timer (ptx_cfg e) = None then Some e
        else if ptx_is_am e then stop_discard_timer now notif_count e
        else Some e)"

definition handle_delivery_notification :: "u32 \<Rightarrow> u32 \<Rightarrow> pdcp_entity_tx \<Rightarrow> pdcp_entity_tx option" where
  "handle_delivery_notification now notif_sn e =
     (if ptx_stopped e then Some e else handle_delivery_notification_impl now notif_sn e)"

definition handle_retransmit_notification :: "u32 \<Rightarrow> u32 \<Rightarrow> pdcp_entity_tx \<Rightarrow> pdcp_entity_tx option" where
  "handle_retransmit_notification now notif_sn e =
     (if ptx_stopped e \<or> ptx_is_srb e \<or> ptx_is_um e then Some e else handle_transmit_notification_impl now notif_sn e)"

definition handle_delivery_retransmitted_notification :: "u32 \<Rightarrow> u32 \<Rightarrow> pdcp_entity_tx \<Rightarrow> pdcp_entity_tx option" where
  "handle_delivery_retransmitted_notification now notif_sn e =
     (if ptx_stopped e \<or> ptx_is_srb e \<or> ptx_is_um e then Some e else handle_delivery_notification_impl now notif_sn e)"

definition handle_desired_buffer_size_notification :: "u32 \<Rightarrow> pdcp_entity_tx \<Rightarrow> pdcp_entity_tx" where
  "handle_desired_buffer_size_notification desired_bs e = (if ptx_stopped e then e else e\<lparr>ptx_desired_buffer_size := desired_bs\<rparr>)"

section \<open>SDUs\<close>

datatype early_drop_reason = zero_dbs | full_rlc_queue | full_window | no_drop

definition tx_get_pdu_size :: "bytes \<Rightarrow> pdcp_entity_tx \<Rightarrow> u32" where
  "tx_get_pdu_size sdu e =
     of_nat (pdcp_data_header_size (ptx_sn_size (ptx_cfg e))) + of_nat (length sdu) + (if ptx_integrity_enabled e then 4 else 0)"

definition check_early_drop :: "bytes \<Rightarrow> pdcp_entity_tx \<Rightarrow> early_drop_reason" where
  "check_early_drop buf e =
     (if ptx_desired_buffer_size e = 0 then zero_dbs
      else if tw_get_pdu_bytes (ptx_rb_type (ptx_cfg e)) (ptx_sn_size (ptx_cfg e)) (ptx_integrity_enabled e) (ptx_window e) +
         tx_get_pdu_size buf e > ptx_desired_buffer_size e then full_rlc_queue
      else if ptx_next (ptx_st e) - ptx_next_ack (ptx_st e) \<ge> ptx_window_size e - 1 then full_window
      else no_drop)"

text \<open>The discard timer starts with an SDU when it is finite and does not run.\<close>

definition start_discard_timer :: "pdcp_entity_tx \<Rightarrow> pdcp_entity_tx" where
  "start_discard_timer e =
     (case ptx_discard_timer (ptx_cfg e) of
        Some (discard_timer_ms ms) \<Rightarrow> if ptx_disc_timer e = None then e\<lparr>ptx_disc_timer := Some (of_nat ms)\<rparr> else e
      | _ \<Rightarrow> e)"

text \<open>A crypto task with its token, or the token back when the executor refuses the task.\<close>

definition submit_crypto_task :: "bool \<Rightarrow> pdcp_tx_buffer_info \<Rightarrow> pdcp_entity_tx \<Rightarrow> pdcp_entity_tx option" where
  "submit_crypto_task crypto_ok info e =
     (let e = e\<lparr>ptx_token_mngr := increment_token (ptx_token_mngr e)\<rparr>
      in if crypto_ok then Some (e\<lparr>ptx_crypto_tasks := ptx_crypto_tasks e @ [info]\<rparr>) else return_tx_token e)"

text \<open>The header, the COUNT and the crypto task of an SDU that is in the window; \<open>buf\<close> is the SDU.\<close>

definition transmit_sdu :: "bool \<Rightarrow> bool \<Rightarrow> bytes \<Rightarrow> pdcp_entity_tx \<Rightarrow> pdcp_tx_result" where
  "transmit_sdu prepend_ok crypto_ok buf e =
     (let count = ptx_next (ptx_st e) in
      case pdcp_write_data_pdu_header (ptx_rb_type (ptx_cfg e)) (ptx_sn_size (ptx_cfg e)) prepend_ok buf
             (pdcp_compute_sn count (ptx_sn_size (ptx_cfg e))) of
        Inl asserts \<Rightarrow> if asserts then None else Some (e, [tx_on_protocol_failure])
      | Inr buf \<Rightarrow>
          map_option (\<lambda>e. (e, []))
            (submit_crypto_task crypto_ok \<lparr>tbi_is_retx = False, tbi_retx_id = ptx_retransmit_id e, tbi_count = count, tbi_buf = buf\<rparr>
              (e\<lparr>ptx_st := (ptx_st e)\<lparr>ptx_next := count + 1\<rparr>\<rparr>)))"

text \<open>The thresholds on TX_NEXT; the result tells whether the SDU is refused.\<close>

definition tx_check_max_count :: "pdcp_entity_tx \<Rightarrow> pdcp_entity_tx \<times> pdcp_tx_event list \<times> bool" where
  "tx_check_max_count e =
     (if ptx_next (ptx_st e) \<ge> mc_hard (ptx_max_count (ptx_cfg e))
      then if \<not> ptx_max_count_overflow e then (e\<lparr>ptx_max_count_overflow := True\<rparr>, [tx_on_protocol_failure], True) else (e, [], True)
      else if ptx_next (ptx_st e) \<ge> mc_notify (ptx_max_count (ptx_cfg e)) \<and> \<not> ptx_max_count_notified e
      then (e\<lparr>ptx_max_count_notified := True\<rparr>, [tx_on_max_count_reached], False)
      else (e, [], False))"

text \<open>The flags are the results of copying the SDU, reserving the header and handing the task to the executor.\<close>

definition pdcp_tx_handle_sdu :: "u32 \<Rightarrow> bool \<times> bool \<times> bool \<Rightarrow> bytes \<Rightarrow> pdcp_entity_tx \<Rightarrow> pdcp_tx_result" where
  "pdcp_tx_handle_sdu now oks buf e =
     (let (copy_ok, prepend_ok, crypto_ok) = oks in
      if ptx_stopped e then Some (e, [])
      else if ptx_buffering e
      then Some (if length (ptx_sdu_buffer e) < 2048 then e\<lparr>ptx_sdu_buffer := ptx_sdu_buffer e @ [buf]\<rparr> else e, [])
      else if \<not> ptx_is_srb e \<and> check_early_drop buf e \<noteq> no_drop then Some (e, [])
      else
        let (e, evs1, refused) = tx_check_max_count e in
        if refused then Some (e, evs1)
        else
          let count = ptx_next (ptx_st e);
              e = start_discard_timer e;
              tick = (case ptx_discard_timer (ptx_cfg e) of Some (discard_timer_ms _) \<Rightarrow> Some now | _ \<Rightarrow> None);
              stores = (ptx_discard_timer (ptx_cfg e) \<noteq> None \<and> ptx_is_am e)
          in if stores \<and> \<not> copy_ok then Some (e, evs1 @ [tx_on_protocol_failure])
             else case tw_add_sdu \<lparr>twe_sdu = (if stores then buf else []), twe_count = count, twe_tick_point_of_arrival = tick,
                    twe_pdu = [], twe_sdu_length = of_nat (length buf)\<rparr> (ptx_window e) of
                    None \<Rightarrow> None
                  | Some w \<Rightarrow> ptx_then (Some (e\<lparr>ptx_window := w\<rparr>, evs1)) (transmit_sdu prepend_ok crypto_ok buf))"

text \<open>The end of buffering handles the buffered SDUs.\<close>

fun flush_sdu_buffer :: "u32 \<Rightarrow> (bool \<times> bool \<times> bool) list \<Rightarrow> bytes list \<Rightarrow> pdcp_entity_tx \<Rightarrow> pdcp_tx_result" where
  "flush_sdu_buffer now oks [] e = Some (e, [])"
| "flush_sdu_buffer now oks (buf # bufs) e =
     ptx_then (pdcp_tx_handle_sdu now (case oks of [] \<Rightarrow> (True, True, True) | ok # _ \<Rightarrow> ok) buf (e\<lparr>ptx_sdu_buffer := bufs\<rparr>))
       (flush_sdu_buffer now (tl oks) bufs)"

definition tx_end_buffering :: "u32 \<Rightarrow> (bool \<times> bool \<times> bool) list \<Rightarrow> pdcp_entity_tx \<Rightarrow> pdcp_tx_result" where
  "tx_end_buffering now oks e = flush_sdu_buffer now oks (ptx_sdu_buffer e) (e\<lparr>ptx_buffering := False\<rparr>)"

section \<open>Ciphering and integrity protection\<close>

text \<open>
  \<open>append_ok\<close> is the result of appending the MAC-I.  An error of the security engine fails: the code reads the value of
  the result after it has logged the error.
\<close>

definition apply_ciphering_and_integrity_protection ::
  "aes_lib \<Rightarrow> nat \<Rightarrow> bool \<Rightarrow> bytes \<Rightarrow> u32 \<Rightarrow> pdcp_entity_tx \<Rightarrow> security_result" where
  "apply_ciphering_and_integrity_protection lib worker_idx append_ok buf count e =
     (if worker_idx \<ge> ptx_max_nof_crypto_workers e then None
      else case ptx_sec_engine_pool e ! worker_idx of
        None \<Rightarrow>
          (if ptx_is_srb e
           then if append_ok then Some (Inr (buf @ [0, 0, 0, 0])) else Some (Inl buffer_failure)
           else Some (Inl engine_failure))
      | Some sec_engine \<Rightarrow>
          (let hdr_size = (if ptx_sn_size (ptx_cfg e) = pdcp_size12bits then 2 else 3)
           in case encrypt_and_protect_integrity lib sec_engine append_ok buf hdr_size count of
                Some (Inr pdu) \<Rightarrow> Some (Inr pdu)
              | _ \<Rightarrow> None))"

text \<open>A task of the crypto executor.  The task that reports a failure does not keep the token.\<close>

definition pdcp_tx_apply_security :: "aes_lib \<Rightarrow> nat \<Rightarrow> bool \<Rightarrow> bool \<Rightarrow> pdcp_tx_buffer_info \<Rightarrow> pdcp_entity_tx \<Rightarrow> pdcp_entity_tx option" where
  "pdcp_tx_apply_security lib worker_idx append_ok ue_ok buf_info e =
     (case apply_ciphering_and_integrity_protection lib worker_idx append_ok (tbi_buf buf_info) (tbi_count buf_info) e of
        None \<Rightarrow> None
      | Some (Inl sec_err) \<Rightarrow>
          return_tx_token (if ue_ok then e\<lparr>ptx_ue_tasks := ptx_ue_tasks e @ [tx_task_failure sec_err]\<rparr> else e)
      | Some (Inr pdu) \<Rightarrow>
          (if ue_ok then Some (e\<lparr>ptx_ue_tasks := ptx_ue_tasks e @ [tx_task_reordering (buf_info\<lparr>tbi_buf := pdu\<rparr>)]\<rparr>)
           else return_tx_token e))"

section \<open>Reordering\<close>

text \<open>The state variable TX_NEXT is not changed by notifications, so the delivery loop ends.\<close>

lemma stop_discard_loop_fields:
  "ptx_next (ptx_st (stop_discard_loop h e)) = ptx_next (ptx_st e)" "ptx_cfg (stop_discard_loop h e) = ptx_cfg e"
proof -
  have "ptx_next (ptx_st (fold (\<lambda>c e. e\<lparr>ptx_window := (if tw_has_sn (ptx_window e) c then tw_remove_sdu c (ptx_window e) else ptx_window e),
      ptx_st := (ptx_st e)\<lparr>ptx_next_ack := c + 1\<rparr>\<rparr>) cs e)) = ptx_next (ptx_st e) \<and>
    ptx_cfg (fold (\<lambda>c e. e\<lparr>ptx_window := (if tw_has_sn (ptx_window e) c then tw_remove_sdu c (ptx_window e) else ptx_window e),
      ptx_st := (ptx_st e)\<lparr>ptx_next_ack := c + 1\<rparr>\<rparr>) cs e) = ptx_cfg e" for cs
    by (induction cs arbitrary: e) simp_all
  then show "ptx_next (ptx_st (stop_discard_loop h e)) = ptx_next (ptx_st e)" "ptx_cfg (stop_discard_loop h e) = ptx_cfg e"
    by (simp_all add: stop_discard_loop_def)
qed

lemma stop_discard_timer_next: "stop_discard_timer now h e = Some e' \<Longrightarrow> ptx_next (ptx_st e') = ptx_next (ptx_st e)"
  by (auto simp: stop_discard_timer_def Let_def stop_discard_loop_fields split: option.splits pdcp_discard_timer.splits if_splits)

lemma handle_transmit_notification_next:
  "handle_transmit_notification now sn e = Some e' \<Longrightarrow> ptx_next (ptx_st e') = ptx_next (ptx_st e)"
  by (auto simp: handle_transmit_notification_def handle_transmit_notification_impl_def Let_def split: if_splits
      dest!: stop_discard_timer_next)

text \<open>The loop that hands protected PDUs over in the order of their COUNTs; in test mode it notifies itself.\<close>

function tx_deliver_loop :: "u32 \<Rightarrow> bool \<Rightarrow> u32 \<Rightarrow> pdcp_entity_tx \<Rightarrow> pdcp_tx_result" where
  "tx_deliver_loop now is_retx count e =
     (if count < ptx_next (ptx_st e)
      then case cm_get (tw_map (ptx_window e)) count of
             None \<Rightarrow> None
           | Some elem \<Rightarrow>
               if twe_pdu elem = [] then Some (e, [])
               else
                 (case (let e = e\<lparr>ptx_window := tw_set_pdu count [] (ptx_window e), ptx_st := (ptx_st e)\<lparr>ptx_trans_crypto := count + 1\<rparr>\<rparr>
                        in if ptx_test_mode (ptx_cfg e)
                           then handle_transmit_notification now (pdcp_compute_sn count (ptx_sn_size (ptx_cfg e))) e else Some e) of
                    None \<Rightarrow> None
                  | Some e' \<Rightarrow> map_option (\<lambda>(e'', evs). (e'', tx_on_new_pdu count (twe_pdu elem) is_retx # evs))
                      (tx_deliver_loop now is_retx (count + 1) e'))
      else Some (e, []))"
  by pat_completeness auto

termination tx_deliver_loop
proof (relation "measure (\<lambda>(now, r, count, e). unat (ptx_next (ptx_st e)) - unat count)", goal_cases)
  case (2 now is_retx count e elem e')
  have "ptx_next (ptx_st e') = ptx_next (ptx_st e)"
    using 2(4) by (auto simp: Let_def dest!: handle_transmit_notification_next split: if_splits)
  then show ?case using count_step(2) [OF 2(1)] by simp
qed simp

declare tx_deliver_loop.simps [simp del]

definition tx_apply_reordering :: "u32 \<Rightarrow> pdcp_tx_buffer_info \<Rightarrow> pdcp_entity_tx \<Rightarrow> pdcp_tx_result" where
  "tx_apply_reordering now info e =
     (if ptx_stopped e then Some (e, [])
      else if tbi_retx_id info \<noteq> ptx_retransmit_id e then Some (e, [])
      else if tbi_count info < ptx_next_ack (ptx_st e) then Some (e, [])
      else if tbi_count info < ptx_trans (ptx_st e) then Some (e, [])
      else if \<not> tw_has_sn (ptx_window e) (tbi_count info) then Some (e, [])
      else
        ptx_then (tx_deliver_loop now (tbi_is_retx info) (ptx_trans_crypto (ptx_st e))
            (e\<lparr>ptx_window := tw_set_pdu (tbi_count info) (tbi_buf info) (ptx_window e)\<rparr>))
          (\<lambda>e. let e = (if ptx_crypto_reordering_timer e \<and> ptx_trans_crypto (ptx_st e) \<ge> ptx_reord_crypto (ptx_st e)
                       then e\<lparr>ptx_crypto_reordering_timer := False\<rparr> else e)
               in Some (if \<not> ptx_crypto_reordering_timer e \<and> ptx_trans_crypto (ptx_st e) < ptx_next (ptx_st e)
                        then e\<lparr>ptx_st := (ptx_st e)\<lparr>ptx_reord_crypto := ptx_next (ptx_st e)\<rparr>, ptx_crypto_reordering_timer := True\<rparr>
                        else e, [])))"

text \<open>A task of the UE executor; a reordering task returns its token.\<close>

fun run_tx_ue_task :: "u32 \<Rightarrow> pdcp_tx_task \<Rightarrow> pdcp_entity_tx \<Rightarrow> pdcp_tx_result" where
  "run_tx_ue_task now (tx_task_failure sec_err) e = Some (e, [tx_on_protocol_failure])"
| "run_tx_ue_task now (tx_task_reordering info) e =
     (case tx_apply_reordering now info e of
        None \<Rightarrow> None
      | Some (e, evs) \<Rightarrow> map_option (\<lambda>e. (e, evs)) (return_tx_token e))"

text \<open>The expiry of the crypto reordering timer: nothing below TX_REORD_CRYPTO is waited for any longer.\<close>

function tx_pass_reord :: "pdcp_entity_tx \<Rightarrow> pdcp_entity_tx \<times> pdcp_tx_event list" where
  "tx_pass_reord e =
     (let count = ptx_trans_crypto (ptx_st e) in
      if count \<noteq> ptx_reord_crypto (ptx_st e)
      then let elem = cm_get (tw_map (ptx_window e)) count;
               pdu = (case elem of None \<Rightarrow> [] | Some elem \<Rightarrow> twe_pdu elem);
               (e', evs) = tx_pass_reord
                 (e\<lparr>ptx_window := (if pdu \<noteq> [] then tw_set_pdu count [] (ptx_window e) else ptx_window e),
                    ptx_st := (ptx_st e)\<lparr>ptx_trans_crypto := count + 1\<rparr>\<rparr>)
           in (e', (if pdu \<noteq> [] then [tx_on_new_pdu count pdu False] else []) @ evs)
      else (e, []))"
  by pat_completeness auto

termination tx_pass_reord
  by (relation "measure (\<lambda>e. unat (ptx_reord_crypto (ptx_st e) - ptx_trans_crypto (ptx_st e)))") (auto simp: count_distance_step)

declare tx_pass_reord.simps [simp del]

definition crypto_reordering_timeout :: "u32 \<Rightarrow> pdcp_entity_tx \<Rightarrow> pdcp_tx_result" where
  "crypto_reordering_timeout now e =
     (if ptx_stopped e then Some (e, [])
      else
        ptx_then (ptx_then (Some (tx_pass_reord e)) (\<lambda>e. tx_deliver_loop now False (ptx_trans_crypto (ptx_st e)) e))
          (\<lambda>e. Some (if ptx_trans_crypto (ptx_st e) < ptx_next (ptx_st e)
                    then e\<lparr>ptx_st := (ptx_st e)\<lparr>ptx_reord_crypto := ptx_next (ptx_st e)\<rparr>, ptx_crypto_reordering_timer := True\<rparr>
                    else e, [])))"

section \<open>Retransmission, re-establishment and data recovery\<close>

text \<open>The flags are the results of copying the SDU, reserving the header and handing the task to the executor.\<close>

fun retransmit_loop :: "(bool \<times> bool \<times> bool) list \<Rightarrow> u32 list \<Rightarrow> pdcp_entity_tx \<Rightarrow> pdcp_tx_result" where
  "retransmit_loop oks [] e = Some (e, [])"
| "retransmit_loop oks (count # counts) e =
     (case cm_get (tw_map (ptx_window e)) count of
        None \<Rightarrow> retransmit_loop oks counts e
      | Some elem \<Rightarrow>
          (let (copy_ok, prepend_ok, crypto_ok) = (case oks of [] \<Rightarrow> (True, True, True) | ok # _ \<Rightarrow> ok) in
           if \<not> copy_ok then Some (e, [tx_on_protocol_failure])
           else case pdcp_write_data_pdu_header (ptx_rb_type (ptx_cfg e)) (ptx_sn_size (ptx_cfg e)) prepend_ok (twe_sdu elem)
                  (pdcp_compute_sn count (ptx_sn_size (ptx_cfg e))) of
               Inl asserts \<Rightarrow> if asserts then None else Some (e, [tx_on_protocol_failure])
             | Inr buf \<Rightarrow>
                 (case submit_crypto_task crypto_ok
                    \<lparr>tbi_is_retx = True, tbi_retx_id = ptx_retransmit_id e, tbi_count = count, tbi_buf = buf\<rparr> e of
                    None \<Rightarrow> None
                  | Some e \<Rightarrow> retransmit_loop (tl oks) counts e)))"

definition retransmit_all_pdus :: "(bool \<times> bool \<times> bool) list \<Rightarrow> pdcp_entity_tx \<Rightarrow> pdcp_tx_result" where
  "retransmit_all_pdus oks e =
     (if ptx_discard_timer (ptx_cfg e) = None \<or> \<not> ptx_is_am e then Some (e, [])
      else let ack = ptx_next_ack (ptx_st e) in
        retransmit_loop oks (count_range ack (ptx_next (ptx_st e)))
          (e\<lparr>ptx_st := (ptx_st e)\<lparr>ptx_trans := ack, ptx_trans_crypto := ack\<rparr>, ptx_retransmit_id := ptx_retransmit_id e + 1\<rparr>))"

definition tx_reset :: "pdcp_entity_tx \<Rightarrow> pdcp_entity_tx" where
  "tx_reset e = e\<lparr>ptx_st := \<lparr>ptx_next = 0, ptx_trans_crypto = 0, ptx_reord_crypto = 0, ptx_trans = 0, ptx_next_ack = 0\<rparr>,
     ptx_window := tw_clear (ptx_window e)\<rparr>"

text \<open>\<open>None\<close> is a failed assertion of \<open>configure_security\<close> or of the construction of an engine.\<close>

definition pdcp_tx_configure_security :: "aes_lib \<Rightarrow> sec_128_as_config \<Rightarrow> bool \<Rightarrow> bool \<Rightarrow> pdcp_entity_tx \<Rightarrow> pdcp_entity_tx option" where
  "pdcp_tx_configure_security lib sec_cfg integrity_enabled ciphering_enabled e =
     (if \<not> (ptx_is_srb e \<and> c128_domain sec_cfg = dom_rrc \<or> \<not> ptx_is_srb e \<and> c128_domain sec_cfg = dom_up) then None
      else if integrity_enabled \<and> k_128_int sec_cfg = None then Some e
      else if integrity_enabled \<and> c128_integ_algo sec_cfg = None then Some e
      else if \<not> integrity_enabled \<and> ptx_is_srb e then None
      else
        let direction = (if ptx_direction (ptx_cfg e) = pdcp_uplink then dir_uplink else dir_downlink) in
        case security_engine_impl lib sec_cfg (ptx_bearer_id e) direction integrity_enabled ciphering_enabled of
          None \<Rightarrow> None
        | Some sec_engine \<Rightarrow>
            Some (e\<lparr>ptx_integrity_enabled := integrity_enabled, ptx_ciphering_enabled := ciphering_enabled,
                    ptx_sec_engine_pool := replicate (ptx_max_nof_crypto_workers e) (Some sec_engine)\<rparr>))"

definition pdcp_tx_reestablish :: "aes_lib \<Rightarrow> sec_128_as_config \<Rightarrow> (bool \<times> bool \<times> bool) list \<Rightarrow> pdcp_entity_tx \<Rightarrow> pdcp_tx_result" where
  "pdcp_tx_reestablish lib sec_cfg oks e =
     (let e = (if ptx_is_srb e \<or> ptx_is_um e then tx_reset e else e) in
      case pdcp_tx_configure_security lib sec_cfg (ptx_integrity_enabled e) (ptx_ciphering_enabled e) e of
        None \<Rightarrow> None
      | Some e \<Rightarrow> if ptx_is_am e then retransmit_all_pdus oks e else Some (e, []))"

text \<open>\<open>report\<close> is the status report that the receiving side of the bearer compiles.\<close>

definition send_status_report :: "bytes \<Rightarrow> pdcp_entity_tx \<Rightarrow> pdcp_tx_event list" where
  "send_status_report report e = (if ptx_status_report_required (ptx_cfg e) then [tx_on_control_pdu report] else [])"

definition data_recovery :: "bytes \<Rightarrow> (bool \<times> bool \<times> bool) list \<Rightarrow> pdcp_entity_tx \<Rightarrow> pdcp_tx_result" where
  "data_recovery report oks e =
     (if ptx_is_srb e \<or> \<not> ptx_is_am e then None
      else ptx_then (Some (e, if ptx_status_report_required (ptx_cfg e) then send_status_report report e else [])) (retransmit_all_pdus oks))"

section \<open>Status transfer\<close>

definition pdcp_tx_get_count :: "pdcp_entity_tx \<Rightarrow> pdcp_count_info" where
  "pdcp_tx_get_count e =
     \<lparr>ci_sn = pdcp_compute_sn (ptx_next (ptx_st e)) (ptx_sn_size (ptx_cfg e)),
      ci_hfn = pdcp_compute_hfn (ptx_next (ptx_st e)) (ptx_sn_size (ptx_cfg e))\<rparr>"

definition pdcp_tx_set_count :: "pdcp_count_info \<Rightarrow> pdcp_entity_tx \<Rightarrow> pdcp_entity_tx" where
  "pdcp_tx_set_count count_info e =
     (let count = pdcp_compute_count (ci_hfn count_info) (ci_sn count_info) (ptx_sn_size (ptx_cfg e))
      in e\<lparr>ptx_st := \<lparr>ptx_next = count, ptx_trans_crypto = count, ptx_reord_crypto = count, ptx_trans = count, ptx_next_ack = count\<rparr>\<rparr>)"

end
