(* ===== verification/Pdcp_Rx_Inv.thy ===== *)
theory Pdcp_Rx_Inv
  imports Pdcp_Rx
begin

text \<open>
  The invariant of the receiving PDCP entity on its state variables, window and t-Reordering, and the loops of the
  delivery: what they hand over and where they stop.
\<close>

section \<open>The window and the state variables\<close>

abbreviation prx_n :: "pdcp_entity_rx \<Rightarrow> u32" where "prx_n e \<equiv> rx_next_count (prx_st e)"
abbreviation prx_d :: "pdcp_entity_rx \<Rightarrow> u32" where "prx_d e \<equiv> rx_deliv (prx_st e)"
abbreviation prx_r :: "pdcp_entity_rx \<Rightarrow> u32" where "prx_r e \<equiv> rx_reord (prx_st e)"
abbreviation prx_W :: "pdcp_entity_rx \<Rightarrow> int" where "prx_W e \<equiv> pdcp_win (prx_sn_size (prx_cfg e))"
abbreviation prx_hard :: "pdcp_entity_rx \<Rightarrow> u32" where "prx_hard e \<equiv> mc_hard (prx_max_count (prx_cfg e))"

text \<open>What holds between any two statements of the delivery.\<close>

definition prx_core :: "pdcp_entity_rx \<Rightarrow> bool" where
  "prx_core e \<longleftrightarrow>
     near_window (prx_window e) (uint (prx_d e)) (prx_W e) \<and> prx_d e \<le> prx_n e \<and>
     (\<forall>k i. cm_get (prx_window e) k = Some i \<longrightarrow> k < prx_n e \<and> rsi_count i = k) \<and>
     prx_sn_size (prx_cfg e) \<noteq> pdcp_size_invalid \<and>
     uint (prx_window_size e) = prx_W e \<and> Some (prx_hdr_len_bytes e) = pdcp_data_pdu_header_size (prx_sn_size (prx_cfg e))"

lemma prx_coreD:
  assumes "prx_core e"
  shows "near_window (prx_window e) (uint (prx_d e)) (prx_W e)" "prx_d e \<le> prx_n e"
    "has_sn (prx_window e) k \<Longrightarrow> prx_d e \<le> k" "has_sn (prx_window e) k \<Longrightarrow> k < prx_n e"
    "cm_get (prx_window e) k = Some i \<Longrightarrow> rsi_count i = k"
    "uint (prx_window_size e) = prx_W e" "prx_sn_size (prx_cfg e) \<noteq> pdcp_size_invalid"
  using assms near_windowD(3) [of "prx_window e" "uint (prx_d e)" "prx_W e" k]
  by (auto simp: prx_core_def cm_contains_get word_le_def)

text \<open>The SDUs stored with a COUNT from \<open>b\<close> up to below \<open>e\<close>, handed over in ascending order.\<close>

definition deliver_events :: "pdcp_rx_sdu_info circular_map \<Rightarrow> u32 \<Rightarrow> u32 \<Rightarrow> pdcp_rx_event list" where
  "deliver_events w b e = map (\<lambda>c. on_new_sdu c (rsi_buf (the (cm_get w c)))) (filter (has_sn w) (count_range b e))"

text \<open>The effect of the delivery loops: everything below the new \<open>RX_DELIV\<close> leaves the window.\<close>

definition prx_moved :: "pdcp_entity_rx \<Rightarrow> pdcp_rx_sdu_info circular_map \<Rightarrow> u32 \<Rightarrow> pdcp_entity_rx" where
  "prx_moved e w d = e\<lparr>prx_window := w, prx_st := (prx_st e)\<lparr>rx_deliv := d\<rparr>\<rparr>"

lemma prx_moved_simps [simp]:
  "prx_window (prx_moved e w d) = w" "prx_d (prx_moved e w d) = d" "prx_n (prx_moved e w d) = prx_n e"
  "prx_r (prx_moved e w d) = prx_r e" "prx_cfg (prx_moved e w d) = prx_cfg e"
  "prx_window_size (prx_moved e w d) = prx_window_size e" "prx_hdr_len_bytes (prx_moved e w d) = prx_hdr_len_bytes e"
  "prx_moved (prx_moved e w d) w' d' = prx_moved e w' d'"
  by (simp_all add: prx_moved_def)

definition prx_delivered :: "pdcp_entity_rx \<Rightarrow> pdcp_entity_rx \<Rightarrow> bool" where
  "prx_delivered e e' \<longleftrightarrow>
     (\<exists>w'. e' = prx_moved e w' (prx_d e') \<and>
       cm_wf w' \<and> cm_max_size w' = cm_max_size (prx_window e) \<and>
       (\<forall>c. cm_get w' c = (if c < prx_d e' then None else cm_get (prx_window e) c))) \<and>
     prx_d e \<le> prx_d e' \<and> prx_d e' \<le> prx_n e"

lemma prx_delivered_core:
  assumes "prx_core e" "prx_delivered e e'"
  shows "prx_core e'"
proof -
  obtain w' where e': "e' = prx_moved e w' (prx_d e')"
    and w': "cm_wf w'" "cm_max_size w' = cm_max_size (prx_window e)"
      "\<And>c. cm_get w' c = (if c < prx_d e' then None else cm_get (prx_window e) c)"
    and d: "prx_d e \<le> prx_d e'" "prx_d e' \<le> prx_n e"
    using assms(2) unfolding prx_delivered_def by blast
  note c = prx_coreD [OF assms(1)]
  have near: "near_window w' (uint (prx_d e')) (prx_W e)"
  proof (rule near_windowI)
    show "cm_wf w'" "uint (cm_max_size w') = prx_W e" using w'(1,2) near_windowD(2) [OF c(1)] by simp_all
    fix k
    assume "cm_get w' k \<noteq> None"
    then have k: "\<not> k < prx_d e'" "cm_get (prx_window e) k \<noteq> None" by (simp_all add: w'(3) split: if_splits)
    then show "uint (prx_d e') \<le> uint k" by (simp add: word_less_def)
    have "uint k < uint (prx_d e) + prx_W e" using near_windowD(4) [OF c(1) k(2)] .
    then show "uint k < uint (prx_d e') + prx_W e" using d(1) by (simp add: word_le_def)
  qed
  have st: "prx_n e' = prx_n e" "prx_window e' = w'" "prx_cfg e' = prx_cfg e" "prx_window_size e' = prx_window_size e"
    "prx_hdr_len_bytes e' = prx_hdr_len_bytes e"
    by (subst e', simp)+
  show ?thesis using near d(2) w'(3) assms(1) unfolding prx_core_def st by (auto split: if_splits)
qed

lemma prx_delivered_refl:
  assumes "prx_core e"
  shows "prx_delivered e e"
proof -
  note c = prx_coreD [OF assms]
  have "cm_get (prx_window e) k = (if k < prx_d e then None else cm_get (prx_window e) k)" for k
    using c(3) [of k] by (cases "cm_get (prx_window e) k") (auto simp: cm_contains_get)
  then show ?thesis using c(2) near_windowD(1) [OF c(1)] unfolding prx_delivered_def
    by (intro conjI exI [of _ "prx_window e"]) (simp_all add: prx_moved_def)
qed

lemma prx_delivered_trans:
  assumes "prx_delivered a b" "prx_delivered b c"
  shows "prx_delivered a c"
proof -
  obtain w where b: "b = prx_moved a w (prx_d b)" "cm_wf w"
      "cm_max_size w = cm_max_size (prx_window a)" "\<And>k. cm_get w k = (if k < prx_d b then None else cm_get (prx_window a) k)"
    and db: "prx_d a \<le> prx_d b" "prx_d b \<le> prx_n a"
    using assms(1) unfolding prx_delivered_def by blast
  obtain v where c: "c = prx_moved b v (prx_d c)" "cm_wf v"
      "cm_max_size v = cm_max_size (prx_window b)" "\<And>k. cm_get v k = (if k < prx_d c then None else cm_get (prx_window b) k)"
    and dc: "prx_d b \<le> prx_d c" "prx_d c \<le> prx_n b"
    using assms(2) unfolding prx_delivered_def by blast
  have wb: "prx_window b = w" "prx_n b = prx_n a" by (subst b(1), simp)+
  have "c = prx_moved a v (prx_d c)" using b(1) c(1) prx_moved_simps(8) by metis
  moreover have "cm_get v k = (if k < prx_d c then None else cm_get (prx_window a) k)" for k
    using dc(1) by (simp add: c(4) wb b(4) order_less_le_trans)
  ultimately show ?thesis using c(2,3) b(3) db dc unfolding prx_delivered_def wb
    by (intro conjI exI [of _ v]) auto
qed

text \<open>One step over a COUNT, which is handed over when it is stored.\<close>

lemma prx_delivered_step:
  assumes "prx_core e" "prx_d e < prx_n e"
  shows "prx_delivered e (prx_moved e (if has_sn (prx_window e) (prx_d e) then fst (cm_erase (prx_window e) (prx_d e)) else prx_window e)
      (prx_d e + 1))" (is "prx_delivered e ?e'")
proof -
  note c = prx_coreD [OF assms(1)]
  let ?w = "if has_sn (prx_window e) (prx_d e) then fst (cm_erase (prx_window e) (prx_d e)) else prx_window e"
  have s: "prx_d e + 1 \<le> prx_n e" "prx_d e \<le> prx_d e + 1" "k < prx_d e + 1 \<longleftrightarrow> k \<le> prx_d e" for k
    using count_step(1,3) [OF assms(2)] by (auto simp: word_le_def word_less_def)
  have g: "cm_get ?w k = (if k < prx_d e + 1 then None else cm_get (prx_window e) k)" for k
  proof (cases "k \<le> prx_d e")
    case True
    then have "cm_get (prx_window e) k = None \<or> k = prx_d e"
      using c(3) [of k] by (cases "cm_get (prx_window e) k") (auto simp: cm_contains_get)
    then show ?thesis using True by (auto simp: s cmw.get_del cm_contains_get)
  next
    case False
    then show ?thesis by (auto simp: s cmw.get_del)
  qed
  have "cm_wf ?w" "cm_max_size ?w = cm_max_size (prx_window e)"
    using near_windowD(1) [OF c(1)] by (simp_all add: cmw.wf_del)
  then show ?thesis using g s unfolding prx_delivered_def by (intro conjI exI [of _ ?w]) simp_all
qed

lemma deliver_events_step:
  assumes "b < e"
  shows "deliver_events w b e = (if has_sn w b then on_new_sdu b (rsi_buf (the (cm_get w b))) # deliver_events w (b + 1) e
    else deliver_events w (b + 1) e)"
  using assms by (simp add: deliver_events_def count_range_step [of b])

lemma deliver_events_empty: "deliver_events w b b = []"
  by (simp add: deliver_events_def count_range_def)

lemma set_count_range: "set (count_range b e) = {c. b \<le> c \<and> c < e}"
proof (induction "unat e - unat b" arbitrary: b)
  case 0
  then have "e \<le> b" by (simp add: word_le_nat_alt)
  then show ?case by (auto simp: count_range_step [of b])
next
  case (Suc n)
  then have b: "b < e" by (simp add: word_less_nat_alt)
  have "int (unat (b + 1)) = int (unat b) + 1" using count_step(1) [OF b] by simp
  then have "n = unat e - unat (b + 1)" using Suc(2) by linarith
  from Suc(1) [OF this] have ih: "set (count_range (b + 1) e) = {c. b + 1 \<le> c \<and> c < e}" .
  have "b + 1 \<le> c \<longleftrightarrow> b < c" for c using count_step(1) [OF b] by (auto simp: word_le_def word_less_def)
  then have "set (count_range b e) = insert b {c. b < c \<and> c < e}" using b by (simp add: count_range_step [of b] ih)
  also have "\<dots> = {c. b \<le> c \<and> c < e}" using b by (auto simp: order_le_less)
  finally show ?case .
qed

lemma deliver_events_cong:
  assumes "\<And>c. b \<le> c \<Longrightarrow> c < e \<Longrightarrow> cm_get w c = cm_get w' c"
  shows "deliver_events w b e = deliver_events w' b e"
proof -
  have "filter (has_sn w) (count_range b e) = filter (has_sn w') (count_range b e)"
    by (rule filter_cong) (simp_all add: set_count_range assms cm_contains_get)
  then show ?thesis unfolding deliver_events_def using assms by (auto simp: set_count_range)
qed

section \<open>The delivery loops\<close>

lemma prx_delivered_events:
  assumes "prx_core e" "prx_delivered e e'" "prx_d e' \<le> b"
  shows "deliver_events (prx_window e') b c = deliver_events (prx_window e) b c"
proof (rule deliver_events_cong)
  fix k
  assume "b \<le> k" "k < c"
  then have "\<not> k < prx_d e'" using assms(3) by auto
  moreover obtain w' where "e' = prx_moved e w' (prx_d e')" "cm_get w' k = (if k < prx_d e' then None else cm_get (prx_window e) k)"
    using assms(2) unfolding prx_delivered_def by blast
  ultimately show "cm_get (prx_window e') k = cm_get (prx_window e) k" by (metis prx_moved_simps(1))
qed

lemma prx_delivered_get:
  assumes "prx_delivered e e'"
  shows "cm_get (prx_window e') k = (if k < prx_d e' then None else cm_get (prx_window e) k)"
    "prx_n e' = prx_n e" "prx_r e' = prx_r e" "prx_cfg e' = prx_cfg e" "prx_d e \<le> prx_d e'" "prx_d e' \<le> prx_n e"
    "prx_moved e (prx_window e') (prx_d e') = e'"
proof -
  obtain w' where w': "e' = prx_moved e w' (prx_d e')" "\<And>k. cm_get w' k = (if k < prx_d e' then None else cm_get (prx_window e) k)"
    and d: "prx_d e \<le> prx_d e'" "prx_d e' \<le> prx_n e"
    using assms unfolding prx_delivered_def by blast
  have w: "prx_window e' = w'" by (subst w'(1), simp)
  show "cm_get (prx_window e') k = (if k < prx_d e' then None else cm_get (prx_window e) k)" unfolding w by (rule w'(2))
  show "prx_n e' = prx_n e" "prx_r e' = prx_r e" "prx_cfg e' = prx_cfg e" by (subst w'(1), simp)+
  show "prx_d e \<le> prx_d e'" "prx_d e' \<le> prx_n e" by (fact d)+
  show "prx_moved e (prx_window e') (prx_d e') = e'" using w'(1) unfolding w by simp
qed

lemma consecutive_unfold:
  "deliver_all_consecutive_counts e =
    (if prx_d e \<noteq> prx_n e \<and> has_sn (prx_window e) (prx_d e)
     then let (e', evs) = deliver_all_consecutive_counts (prx_moved e (fst (cm_erase (prx_window e) (prx_d e))) (prx_d e + 1))
          in (e', on_new_sdu (prx_d e) (rsi_buf (the (cm_get (prx_window e) (prx_d e)))) # evs)
     else (e, []))"
  by (subst deliver_all_consecutive_counts.simps) (simp add: Let_def prx_moved_def)

lemma below_reord_unfold:
  "deliver_below_reord e =
    (if prx_d e \<noteq> prx_r e
     then let w = (if has_sn (prx_window e) (prx_d e) then fst (cm_erase (prx_window e) (prx_d e)) else prx_window e);
              (e', evs) = deliver_below_reord (prx_moved e w (prx_d e + 1))
          in (e', (if has_sn (prx_window e) (prx_d e)
                   then [on_new_sdu (prx_d e) (rsi_buf (the (cm_get (prx_window e) (prx_d e))))] else []) @ evs)
     else (e, []))"
  by (subst deliver_below_reord.simps) (auto simp: Let_def prx_moved_def split: prod.splits)

lemma deliver_consecutive_ok:
  assumes "prx_core e" "deliver_all_consecutive_counts e = (e', evs)"
  shows "prx_delivered e e' \<and> evs = deliver_events (prx_window e) (prx_d e) (prx_d e') \<and>
    (\<forall>c. prx_d e \<le> c \<longrightarrow> c < prx_d e' \<longrightarrow> has_sn (prx_window e) c) \<and> (prx_d e' = prx_n e \<or> \<not> has_sn (prx_window e) (prx_d e'))"
  using assms
proof (induction e arbitrary: e' evs rule: deliver_all_consecutive_counts.induct)
  case (1 e)
  note c = prx_coreD [OF "1.prems"(1)]
  show ?case
  proof (cases "prx_d e \<noteq> prx_n e \<and> has_sn (prx_window e) (prx_d e)")
    case True
    define e1 where "e1 = prx_moved e (fst (cm_erase (prx_window e) (prx_d e))) (prx_d e + 1)"
    have lt: "prx_d e < prx_n e" using True c(2) by auto
    have st: "prx_delivered e e1" using prx_delivered_step [OF "1.prems"(1) lt] True by (simp add: e1_def)
    obtain e2 evs1 where run: "deliver_all_consecutive_counts e1 = (e2, evs1)" by (cases "deliver_all_consecutive_counts e1") simp
    then have r: "deliver_all_consecutive_counts e1 = (e', evs1)"
      "evs = on_new_sdu (prx_d e) (rsi_buf (the (cm_get (prx_window e) (prx_d e)))) # evs1"
      using "1.prems"(2) unfolding consecutive_unfold [of e] if_P [OF True] e1_def [symmetric] run Let_def by simp_all
    have core1: "prx_core e1" by (rule prx_delivered_core [OF "1.prems"(1) st])
    have d1: "prx_d e1 = prx_d e + 1" by (simp add: e1_def)
    have ih: "prx_delivered e1 e'" "evs1 = deliver_events (prx_window e1) (prx_d e1) (prx_d e')"
      "\<And>c. prx_d e1 \<le> c \<Longrightarrow> c < prx_d e' \<Longrightarrow> has_sn (prx_window e1) c" "prx_d e' = prx_n e1 \<or> \<not> has_sn (prx_window e1) (prx_d e')"
      using "1.IH" [OF refl True, folded prx_moved_def e1_def, OF core1 r(1)] by blast+
    note g1 = prx_delivered_get [OF st] and g2 = prx_delivered_get [OF ih(1)]
    have lt': "prx_d e < prx_d e'" using count_step(1) [OF lt] g2(5) d1 by (auto simp: word_le_def word_less_def)
    have sn1: "has_sn (prx_window e1) k \<longleftrightarrow> \<not> k < prx_d e1 \<and> has_sn (prx_window e) k" for k
      by (simp add: cm_contains_get g1(1))
    have "evs = deliver_events (prx_window e) (prx_d e) (prx_d e')"
      using r(2) ih(2) True prx_delivered_events [OF "1.prems"(1) st order_refl] d1
      by (simp add: deliver_events_step [OF lt'])
    moreover have "\<forall>c. prx_d e \<le> c \<longrightarrow> c < prx_d e' \<longrightarrow> has_sn (prx_window e) c"
    proof (intro allI impI)
      fix k
      assume k: "prx_d e \<le> k" "k < prx_d e'"
      then have "k = prx_d e \<or> prx_d e1 \<le> k" using count_step(1) [OF lt] d1 by (auto simp: word_le_def word_uint_eq_iff)
      then show "has_sn (prx_window e) k" using True ih(3) k(2) sn1 by blast
    qed
    moreover have "prx_d e' = prx_n e \<or> \<not> has_sn (prx_window e) (prx_d e')" 
    proof (cases "prx_d e' = prx_n e1")
      case False
      then have "\<not> has_sn (prx_window e1) (prx_d e')" "\<not> prx_d e' < prx_d e1" using ih(4) g2(5) by simp_all
      then show ?thesis using sn1 [of "prx_d e'"] by simp
    qed (simp add: g1(2))
    ultimately show ?thesis using prx_delivered_trans [OF st ih(1)] by blast
  next
    case False
    then have r: "e' = e" "evs = []" using "1.prems"(2) unfolding consecutive_unfold [of e] if_not_P [OF False] by simp_all
    then show ?thesis using False prx_delivered_refl [OF "1.prems"(1)] by (auto simp: deliver_events_empty)
  qed
qed

lemma deliver_below_reord_ok:
  assumes "prx_core e" "prx_d e \<le> prx_r e" "prx_r e \<le> prx_n e" "deliver_below_reord e = (e', evs)"
  shows "prx_delivered e e' \<and> evs = deliver_events (prx_window e) (prx_d e) (prx_r e) \<and> prx_d e' = prx_r e"
  using assms
proof (induction e arbitrary: e' evs rule: deliver_below_reord.induct)
  case (1 e)
  note c = prx_coreD [OF "1.prems"(1)]
  show ?case
  proof (cases "prx_d e = prx_r e")
    case False
    define w where "w = (if has_sn (prx_window e) (prx_d e) then fst (cm_erase (prx_window e) (prx_d e)) else prx_window e)"
    define e1 where "e1 = prx_moved e w (prx_d e + 1)"
    have lr: "prx_d e < prx_r e" using False "1.prems"(2) by simp
    then have lt: "prx_d e < prx_n e" using "1.prems"(3) by (rule order_less_le_trans)
    have st: "prx_delivered e e1" using prx_delivered_step [OF "1.prems"(1) lt] by (simp add: e1_def w_def)
    have d1: "prx_d e1 = prx_d e + 1" "prx_r e1 = prx_r e" "prx_n e1 = prx_n e" by (simp_all add: e1_def)
    obtain e2 evs1 where run: "deliver_below_reord e1 = (e2, evs1)" by (cases "deliver_below_reord e1") simp
    then have r: "deliver_below_reord e1 = (e', evs1)"
      "evs = (if has_sn (prx_window e) (prx_d e) then [on_new_sdu (prx_d e) (rsi_buf (the (cm_get (prx_window e) (prx_d e))))] else []) @ evs1"
      using "1.prems"(4) unfolding below_reord_unfold [of e] if_P [OF False] Let_def w_def [symmetric] e1_def [symmetric] run by simp_all
    have core1: "prx_core e1" by (rule prx_delivered_core [OF "1.prems"(1) st])
    have le: "prx_d e1 \<le> prx_r e1" "prx_r e1 \<le> prx_n e1" using count_step(3) [OF lr] "1.prems"(3) by (simp_all add: d1)
    have ih: "prx_delivered e1 e'" "evs1 = deliver_events (prx_window e1) (prx_d e1) (prx_r e1)" "prx_d e' = prx_r e1"
    proof -
      have "prx_delivered e1 e' \<and> evs1 = deliver_events (prx_window e1) (prx_d e1) (prx_r e1) \<and> prx_d e' = prx_r e1"
      proof (cases "has_sn (prx_window e) (prx_d e)")
        case True
        then have "e1 = e\<lparr>prx_window := fst (cm_erase (prx_window e) (prx_d e)), prx_st := prx_st e\<lparr>rx_deliv := prx_d e + 1\<rparr>\<rparr>"
          by (simp add: e1_def w_def prx_moved_def)
        then show ?thesis using "1.IH"(1) [OF refl False True, of e' evs1] core1 le r(1) by (simp only:)
      next
        case f: False
        then have "e1 = e\<lparr>prx_st := prx_st e\<lparr>rx_deliv := prx_d e + 1\<rparr>\<rparr>" by (simp add: e1_def w_def prx_moved_def)
        then show ?thesis using "1.IH"(2) [OF refl False f, of e' evs1] core1 le r(1) by (simp only:)
      qed
      then show "prx_delivered e1 e'" "evs1 = deliver_events (prx_window e1) (prx_d e1) (prx_r e1)" "prx_d e' = prx_r e1" by blast+
    qed
    have "evs = deliver_events (prx_window e) (prx_d e) (prx_r e)"
      using r(2) ih(2) prx_delivered_events [OF "1.prems"(1) st order_refl] d1 by (simp add: deliver_events_step [OF lr])
    then show ?thesis using prx_delivered_trans [OF st ih(1)] ih(3) d1(2) by simp
  next
    case True
    then have r: "e' = e" "evs = []" using "1.prems"(4) unfolding below_reord_unfold [of e] by simp_all
    then show ?thesis using True prx_delivered_refl [OF "1.prems"(1)] by (simp add: deliver_events_empty)
  qed
qed

lemma count_range_append:
  assumes "b \<le> m" "m \<le> e"
  shows "count_range b e = count_range b m @ count_range m e"
  using assms(1)
proof (induction "unat m - unat b" arbitrary: b)
  case 0
  then have "m \<le> b" by (simp add: word_le_nat_alt)
  with 0 have "b = m" by simp
  then show ?case by (simp add: count_range_def)
next
  case (Suc k)
  then have lt: "b < m" by (simp add: word_less_nat_alt)
  have "int (unat (b + 1)) = int (unat b) + 1" using count_step(1) [OF lt] by simp
  then have "k = unat m - unat (b + 1)" using Suc(2) by linarith
  from Suc(1) [OF this count_step(3) [OF lt]] show ?case
    using lt assms(2) by (simp add: count_range_step [of b])
qed

lemma deliver_events_append:
  "b \<le> m \<Longrightarrow> m \<le> e \<Longrightarrow> deliver_events w b m @ deliver_events w m e = deliver_events w b e"
  by (simp add: deliver_events_def count_range_append [of b m e])

text \<open>The expiry of t-Reordering delivers up to the first missing COUNT from \<open>RX_REORD\<close> on.\<close>

definition first_missing :: "pdcp_rx_sdu_info circular_map \<Rightarrow> u32 \<Rightarrow> u32 \<Rightarrow> u32 \<Rightarrow> bool" where
  "first_missing w b n m \<longleftrightarrow> b \<le> m \<and> m \<le> n \<and> (\<forall>c. b \<le> c \<longrightarrow> c < m \<longrightarrow> has_sn w c) \<and> (m = n \<or> \<not> has_sn w m)"

lemma expire_ok:
  assumes "prx_core e" "prx_d e \<le> prx_r e" "prx_r e \<le> prx_n e"
  obtains e' where "prx_delivered e e'" "first_missing (prx_window e) (prx_r e) (prx_n e) (prx_d e')"
    "handle_t_reordering_expire e =
      Some (if prx_d e' < prx_n e \<and> prx_t_reordering (prx_cfg e) \<noteq> t_reordering_ms 0
            then e'\<lparr>prx_st := (prx_st e')\<lparr>rx_reord := prx_n e\<rparr>, prx_reordering_timer := True\<rparr> else e',
        deliver_events (prx_window e) (prx_d e) (prx_d e'))"
proof -
  obtain e1 evs1 where r1: "deliver_below_reord e = (e1, evs1)" by (cases "deliver_below_reord e")
  have b: "prx_delivered e e1" "evs1 = deliver_events (prx_window e) (prx_d e) (prx_r e)" "prx_d e1 = prx_r e"
    using deliver_below_reord_ok [OF assms r1] by blast+
  note core1 = prx_delivered_core [OF assms(1) b(1)]
  obtain e2 evs2 where r2: "deliver_all_consecutive_counts e1 = (e2, evs2)" by (cases "deliver_all_consecutive_counts e1")
  have c: "prx_delivered e1 e2" "evs2 = deliver_events (prx_window e1) (prx_d e1) (prx_d e2)"
    "\<And>c. prx_d e1 \<le> c \<Longrightarrow> c < prx_d e2 \<Longrightarrow> has_sn (prx_window e1) c" "prx_d e2 = prx_n e1 \<or> \<not> has_sn (prx_window e1) (prx_d e2)"
    using deliver_consecutive_ok [OF core1 r2] by blast+
  have d: "prx_delivered e e2" by (rule prx_delivered_trans [OF b(1) c(1)])
  note g1 = prx_delivered_get [OF b(1)] and g2 = prx_delivered_get [OF c(1)]
  have sn: "has_sn (prx_window e1) k \<longleftrightarrow> has_sn (prx_window e) k" if "prx_r e \<le> k" for k
    using leD [OF that] by (simp add: cm_contains_get g1(1) b(3))
  have fm: "first_missing (prx_window e) (prx_r e) (prx_n e) (prx_d e2)"
    unfolding first_missing_def
  proof (intro conjI allI impI)
    show "prx_r e \<le> prx_d e2" "prx_d e2 \<le> prx_n e" using g2(5,6) b(3) g1(2) by simp_all
    then show "prx_d e2 = prx_n e \<or> \<not> has_sn (prx_window e) (prx_d e2)" using c(4) sn g1(2) by auto
    fix k
    assume "prx_r e \<le> k" "k < prx_d e2"
    then show "has_sn (prx_window e) k" using c(3) [of k] sn b(3) by simp
  qed
  have evs: "evs1 @ evs2 = deliver_events (prx_window e) (prx_d e) (prx_d e2)"
    using deliver_events_append [of "prx_d e" "prx_r e" "prx_d e2" "prx_window e"] assms(2) g2(5)
      prx_delivered_events [OF assms(1) b(1) order_refl, of "prx_d e2"] by (simp add: b(2,3) c(2))
  have n2: "prx_n e2 = prx_n e" "prx_cfg e2 = prx_cfg e" using prx_delivered_get [OF d] by simp_all
  have "handle_t_reordering_expire e =
      Some (if prx_d e2 < prx_n e \<and> prx_t_reordering (prx_cfg e) \<noteq> t_reordering_ms 0
            then e2\<lparr>prx_st := (prx_st e2)\<lparr>rx_reord := prx_n e\<rparr>, prx_reordering_timer := True\<rparr> else e2,
        deliver_events (prx_window e) (prx_d e) (prx_d e2))"
    unfolding handle_t_reordering_expire_def r1 prod.case Let_def r2 n2 evs [symmetric] by simp
  with d fm show thesis by (rule that)
qed

section \<open>The invariant\<close>

definition prx_tasks :: "pdcp_entity_rx \<Rightarrow> nat" where
  "prx_tasks e = length (prx_crypto_tasks e) + length (prx_ue_tasks e)"

definition task_ok :: "pdcp_entity_rx \<Rightarrow> pdcp_rx_pdu_info \<Rightarrow> bool" where
  "task_ok e info \<longleftrightarrow> rpi_count info < prx_hard e \<and> uint (rpi_count info) < uint (prx_d e) + prx_W e"

definition reord_timer_ok :: "pdcp_entity_rx \<Rightarrow> bool" where
  "reord_timer_ok e \<longleftrightarrow>
     (case prx_t_reordering (prx_cfg e) of
        t_reordering_infinity \<Rightarrow> \<not> prx_reordering_timer e
      | t_reordering_ms ms \<Rightarrow>
          if ms = 0 then \<not> prx_reordering_timer e \<and> prx_d e = prx_n e
          else (prx_reordering_timer e \<longrightarrow> prx_d e < prx_r e \<and> prx_r e \<le> prx_n e) \<and>
               (\<not> prx_stopped e \<longrightarrow> prx_d e < prx_n e \<longrightarrow> prx_reordering_timer e))"

definition prx_inv :: "pdcp_entity_rx \<Rightarrow> bool" where
  "prx_inv e \<longleftrightarrow>
     prx_core e \<and> \<not> has_sn (prx_window e) (prx_d e) \<and> uint (prx_n e) \<le> uint (prx_d e) + prx_W e \<and> prx_n e \<le> prx_hard e \<and>
     uint (prx_hard e) \<le> 2 ^ 32 - 2 * prx_W e \<and> reord_timer_ok e \<and>
     (\<forall>info \<in> set (prx_crypto_tasks e). task_ok e info) \<and>
     (\<forall>info. task_reordering info \<in> set (prx_ue_tasks e) \<longrightarrow> task_ok e info)"

lemma prx_invD:
  assumes "prx_inv e"
  shows "prx_core e" "\<not> has_sn (prx_window e) (prx_d e)" "uint (prx_n e) \<le> uint (prx_d e) + prx_W e" "prx_n e \<le> prx_hard e"
    "uint (prx_hard e) \<le> 2 ^ 32 - 2 * prx_W e" "reord_timer_ok e"
    "info \<in> set (prx_crypto_tasks e) \<Longrightarrow> task_ok e info" "task_reordering info \<in> set (prx_ue_tasks e) \<Longrightarrow> task_ok e info"
  using assms by (simp_all add: prx_inv_def)

lemmas prx_inv_defs = prx_inv_def prx_core_def reord_timer_ok_def task_ok_def

lemma prx_inv_frame [simp]:
  "prx_inv (e\<lparr>prx_token_mngr := a\<rparr>) = prx_inv e" "prx_inv (e\<lparr>prx_buffering := b\<rparr>) = prx_inv e"
  "prx_inv (e\<lparr>prx_pdu_buffer := c\<rparr>) = prx_inv e" "prx_inv (e\<lparr>prx_max_count_notified := b\<rparr>) = prx_inv e"
  "prx_inv (e\<lparr>prx_max_count_overflow := b\<rparr>) = prx_inv e" "prx_inv (e\<lparr>prx_integrity_enabled := b\<rparr>) = prx_inv e"
  "prx_inv (e\<lparr>prx_ciphering_enabled := b\<rparr>) = prx_inv e" "prx_inv (e\<lparr>prx_sec_engine_pool := p\<rparr>) = prx_inv e"
  by (simp_all add: prx_inv_defs cong: if_cong pdcp_t_reordering.case_cong)

lemma prx_inv_tasks:
  assumes "prx_inv e" "\<And>i. i \<in> set cs \<Longrightarrow> task_ok e i" "\<And>i. task_reordering i \<in> set us \<Longrightarrow> task_ok e i"
  shows "prx_inv (e\<lparr>prx_crypto_tasks := cs, prx_ue_tasks := us\<rparr>)"
  using assms by (simp add: prx_inv_defs cong: if_cong pdcp_t_reordering.case_cong)

lemma prx_inv_delivered:
  assumes "prx_inv e" "prx_delivered e e'"
  shows "prx_core e'" "uint (prx_n e') \<le> uint (prx_d e') + prx_W e'" "prx_n e' \<le> prx_hard e'"
    "uint (prx_hard e') \<le> 2 ^ 32 - 2 * prx_W e'"
    "info \<in> set (prx_crypto_tasks e') \<Longrightarrow> task_ok e' info" "task_reordering info \<in> set (prx_ue_tasks e') \<Longrightarrow> task_ok e' info"
proof -
  note i = prx_invD [OF assms(1)] and g = prx_delivered_get [OF assms(2)]
  have m: "e' = prx_moved e (prx_window e') (prx_d e')" using g(7) by simp
  have t: "prx_crypto_tasks e' = prx_crypto_tasks e" "prx_ue_tasks e' = prx_ue_tasks e" by (subst m, simp add: prx_moved_def)+
  have d: "uint (prx_d e) \<le> uint (prx_d e')" using g(5) by (simp add: word_le_def)
  show "prx_core e'" by (rule prx_delivered_core [OF i(1) assms(2)])
  show "uint (prx_n e') \<le> uint (prx_d e') + prx_W e'" "prx_n e' \<le> prx_hard e'" "uint (prx_hard e') \<le> 2 ^ 32 - 2 * prx_W e'"
    using i(3,4,5) d by (simp_all add: g(2,4))
  show "task_ok e' info" if "info \<in> set (prx_crypto_tasks e')"
    using i(7) [of info] that d by (simp add: t task_ok_def g(4))
  show "task_ok e' info" if "task_reordering info \<in> set (prx_ue_tasks e')"
    using i(8) [of info] that d by (simp add: t task_ok_def g(4))
qed

lemma prx_delivered_fields:
  assumes "prx_delivered e e'"
  shows "prx_reordering_timer e' = prx_reordering_timer e" "prx_stopped e' = prx_stopped e" "prx_crypto_tasks e' = prx_crypto_tasks e"
    "prx_ue_tasks e' = prx_ue_tasks e" "prx_token_mngr e' = prx_token_mngr e" "prx_buffering e' = prx_buffering e"
    "prx_pdu_buffer e' = prx_pdu_buffer e" "prx_sec_engine_pool e' = prx_sec_engine_pool e"
    "prx_max_nof_crypto_workers e' = prx_max_nof_crypto_workers e"
proof -
  have m: "e' = prx_moved e (prx_window e') (prx_d e')" using prx_delivered_get(7) [OF assms] by simp
  show "prx_reordering_timer e' = prx_reordering_timer e" "prx_stopped e' = prx_stopped e" "prx_crypto_tasks e' = prx_crypto_tasks e"
    "prx_ue_tasks e' = prx_ue_tasks e" "prx_token_mngr e' = prx_token_mngr e" "prx_buffering e' = prx_buffering e"
    "prx_pdu_buffer e' = prx_pdu_buffer e" "prx_sec_engine_pool e' = prx_sec_engine_pool e"
    "prx_max_nof_crypto_workers e' = prx_max_nof_crypto_workers e"
    by (subst m, simp add: prx_moved_def)+
qed

text \<open>Storing an SDU of an accepted COUNT.\<close>

definition stored_window :: "u32 \<Rightarrow> bytes \<Rightarrow> pdcp_entity_rx \<Rightarrow> pdcp_rx_sdu_info circular_map" where
  "stored_window c buf e = cm_overwrite (prx_window e) c \<lparr>rsi_buf = buf, rsi_count = c\<rparr>"

definition stored_next :: "u32 \<Rightarrow> pdcp_entity_rx \<Rightarrow> u32" where
  "stored_next c e = (if c \<ge> prx_n e then c + 1 else prx_n e)"

lemma prx_store_ok:
  assumes "prx_core e" "uint (prx_n e) \<le> uint (prx_d e) + prx_W e" "prx_n e \<le> prx_hard e"
    and c: "prx_d e \<le> c" "\<not> has_sn (prx_window e) c" "c < prx_hard e" "uint c < uint (prx_d e) + prx_W e"
  obtains e' where "prx_store c buf e = Some e'"
    "e' = e\<lparr>prx_window := stored_window c buf e, prx_st := (prx_st e)\<lparr>rx_next_count := stored_next c e\<rparr>\<rparr>"
    "cm_get (prx_window e') = (cm_get (prx_window e))(c \<mapsto> \<lparr>rsi_buf = buf, rsi_count = c\<rparr>)"
    "prx_core e'" "uint (prx_n e') \<le> uint (prx_d e') + prx_W e'" "prx_n e' \<le> prx_hard e'" "prx_n e \<le> prx_n e'" "c < prx_n e'"
proof -
  note i = prx_coreD [OF assms(1)]
  let ?w = "stored_window c buf e"
  let ?e' = "e\<lparr>prx_window := ?w, prx_st := (prx_st e)\<lparr>rx_next_count := stored_next c e\<rparr>\<rparr>"
  have c1: "uint (c + 1) = uint c + 1" "c + 1 \<le> prx_hard e" using count_step(1,3) [OF c(3)] by simp_all
  have n: "prx_n e \<le> stored_next c e" "c < stored_next c e" "stored_next c e \<le> prx_hard e"
    "uint (stored_next c e) \<le> uint (prx_d e) + prx_W e"
    using c1 assms(2,3) c(4) by (auto simp: stored_next_def word_le_def word_less_def)
  have near: "near_window ?w (uint (prx_d e)) (prx_W e)" and
    get: "cm_get ?w = (cm_get (prx_window e))(c \<mapsto> \<lparr>rsi_buf = buf, rsi_count = c\<rparr>)"
    using near_window_put [OF i(1), of c] c(1,4) by (simp_all add: stored_window_def word_le_def)
  have keys: "k < stored_next c e \<and> rsi_count s = k" if "cm_get ?w k = Some s" for k s
  proof (cases "k = c")
    case False
    then have g: "cm_get (prx_window e) k = Some s" using that by (simp add: get)
    then have "k < prx_n e" using i(4) [of k] by (simp add: cm_contains_get)
    then show ?thesis using i(5) [OF g] n(1) by (simp add: order_less_le_trans)
  qed (use that n in \<open>auto simp: get\<close>)
  have core: "prx_core ?e'"
    using assms(1) near keys order_trans [OF i(2) n(1)] by (simp add: prx_core_def)
  have "prx_store c buf e = Some ?e'"
    using c(2) by (simp add: prx_store_def add_sn_Some stored_window_def stored_next_def)
  then show thesis by (rule that [of ?e']) (use core n get in simp_all)
qed

text \<open>What an operation on the window leaves alone.\<close>

definition prx_rest :: "pdcp_entity_rx \<Rightarrow> pdcp_entity_rx \<Rightarrow> bool" where
  "prx_rest e e' \<longleftrightarrow> prx_cfg e' = prx_cfg e \<and> prx_stopped e' = prx_stopped e \<and> prx_crypto_tasks e' = prx_crypto_tasks e \<and>
     prx_ue_tasks e' = prx_ue_tasks e \<and> prx_token_mngr e' = prx_token_mngr e \<and> prx_buffering e' = prx_buffering e \<and>
     prx_pdu_buffer e' = prx_pdu_buffer e \<and> prx_sec_engine_pool e' = prx_sec_engine_pool e \<and>
     prx_max_nof_crypto_workers e' = prx_max_nof_crypto_workers e"

lemma prx_rest_refl [simp]: "prx_rest e e" by (simp add: prx_rest_def)

lemma prx_rest_trans: "prx_rest a b \<Longrightarrow> prx_rest b c \<Longrightarrow> prx_rest a c" by (simp add: prx_rest_def)

lemma prx_delivered_rest: "prx_delivered e e' \<Longrightarrow> prx_rest e e'"
  by (simp add: prx_rest_def prx_delivered_fields prx_delivered_get)

definition prx_base :: "pdcp_entity_rx \<Rightarrow> bool" where
  "prx_base e \<longleftrightarrow> prx_core e \<and> uint (prx_n e) \<le> uint (prx_d e) + prx_W e \<and> prx_n e \<le> prx_hard e \<and>
     uint (prx_hard e) \<le> 2 ^ 32 - 2 * prx_W e \<and> (\<forall>info \<in> set (prx_crypto_tasks e). task_ok e info) \<and>
     (\<forall>info. task_reordering info \<in> set (prx_ue_tasks e) \<longrightarrow> task_ok e info)"

lemma prx_inv_base: "prx_inv e \<longleftrightarrow> prx_base e \<and> \<not> has_sn (prx_window e) (prx_d e) \<and> reord_timer_ok e"
  by (auto simp: prx_inv_def prx_base_def)

lemma prx_base_delivered:
  assumes "prx_base e" "prx_delivered e e'"
  shows "prx_base e'"
proof -
  note g = prx_delivered_get [OF assms(2)] and f = prx_delivered_fields [OF assms(2)]
  have d: "uint (prx_d e) \<le> uint (prx_d e')" using g(5) by (simp add: word_le_def)
  have t: "task_ok e i \<Longrightarrow> task_ok e' i" for i using d by (simp add: task_ok_def g(4))
  show ?thesis using assms(1) prx_delivered_core [OF _ assms(2)] d t
    unfolding prx_base_def g(2) g(4) f(3,4) by auto
qed

lemma prx_base_timer [simp]:
  "prx_base (e\<lparr>prx_reordering_timer := b\<rparr>) = prx_base e" "prx_base (e\<lparr>prx_st := (prx_st e)\<lparr>rx_reord := r\<rparr>\<rparr>) = prx_base e"
  "prx_base (e\<lparr>prx_st := (prx_st e)\<lparr>rx_reord := r\<rparr>, prx_reordering_timer := b\<rparr>) = prx_base e"
  "prx_core (e\<lparr>prx_reordering_timer := b\<rparr>) = prx_core e" "prx_core (e\<lparr>prx_st := (prx_st e)\<lparr>rx_reord := r\<rparr>\<rparr>) = prx_core e"
  by (simp_all add: prx_base_def prx_core_def task_ok_def)

lemma not_stored_at_next: "prx_core e \<Longrightarrow> prx_d e = prx_n e \<Longrightarrow> \<not> has_sn (prx_window e) (prx_d e)"
  using prx_coreD(4) [of e "prx_n e"] by auto

definition reord_timer_pre :: "pdcp_entity_rx \<Rightarrow> bool" where
  "reord_timer_pre e \<longleftrightarrow>
     (case prx_t_reordering (prx_cfg e) of
        t_reordering_infinity \<Rightarrow> \<not> prx_reordering_timer e
      | t_reordering_ms ms \<Rightarrow> if ms = 0 then \<not> prx_reordering_timer e else (prx_reordering_timer e \<longrightarrow> prx_r e \<le> prx_n e))"

lemma handle_reordering_timers_ok:
  assumes b: "prx_base e" and t: "reord_timer_pre e"
    and free: "prx_t_reordering (prx_cfg e) \<noteq> t_reordering_ms 0 \<Longrightarrow> \<not> has_sn (prx_window e) (prx_d e)"
  obtains e' where "handle_reordering_timers e = Some (e', deliver_events (prx_window e) (prx_d e) (prx_d e'))"
    "prx_inv e'" "prx_rest e e'" "prx_n e' = prx_n e" "prx_d e \<le> prx_d e'"
    "prx_d e' = (if prx_t_reordering (prx_cfg e) = t_reordering_ms 0 then prx_n e else prx_d e)"
    "\<And>k. cm_get (prx_window e') k = (if k < prx_d e' then None else cm_get (prx_window e) k)"
proof (cases "prx_t_reordering (prx_cfg e) = t_reordering_ms 0")
  case True
  let ?e1 = "e\<lparr>prx_st := (prx_st e)\<lparr>rx_reord := prx_n e\<rparr>\<rparr>"
  have core: "prx_core e" using b by (simp add: prx_base_def)
  have nt: "\<not> prx_reordering_timer e" using t True by (simp add: reord_timer_pre_def)
  have "prx_core ?e1" "prx_d ?e1 \<le> prx_r ?e1" "prx_r ?e1 \<le> prx_n ?e1" using core prx_coreD(2) [OF core] by simp_all
  from expire_ok [OF this] obtain e' where e': "prx_delivered ?e1 e'" "first_missing (prx_window ?e1) (prx_r ?e1) (prx_n ?e1) (prx_d e')"
    "handle_t_reordering_expire ?e1 = Some (e', deliver_events (prx_window e) (prx_d e) (prx_d e'))"
    using True by auto
  have dn: "prx_d e' = prx_n e" by (rule order_antisym) (use e'(2) in \<open>simp_all add: first_missing_def\<close>)
  note g = prx_delivered_get [OF e'(1)] and f = prx_delivered_fields [OF e'(1)]
  have b1: "prx_base ?e1" using b by simp
  have b': "prx_base e'" by (rule prx_base_delivered [OF b1 e'(1)])
  have "prx_core e'" using b' by (simp add: prx_base_def)
  moreover have "prx_d e' = prx_n e'" using dn g(2) by simp
  ultimately have "\<not> has_sn (prx_window e') (prx_d e')" by (rule not_stored_at_next)
  then have inv: "prx_inv e'" using b' nt True dn g(2,4) f(1) by (simp add: prx_inv_base reord_timer_ok_def)
  have h: "handle_reordering_timers e = Some (e', deliver_events (prx_window e) (prx_d e) (prx_d e'))"
    using e'(3) nt True by (simp add: handle_reordering_timers_def Let_def)
  have "prx_rest ?e1 e'" by (rule prx_delivered_rest [OF e'(1)])
  then have r: "prx_rest e e'" by (simp add: prx_rest_def)
  show thesis
    by (rule that [OF h inv r]) (use g(1,2,5) dn True in simp_all)
next
  case False
  have core: "prx_core e" using b by (simp add: prx_base_def)
  note c = prx_coreD [OF core]
  have keep: "cm_get (prx_window e) k = (if k < prx_d e then None else cm_get (prx_window e) k)" for k
    using c(3) [of k] by (cases "cm_get (prx_window e) k") (auto simp: cm_contains_get)
  note free' = free [OF False]
  define e1 where "e1 = (if prx_reordering_timer e \<and> prx_d e \<ge> prx_r e then e\<lparr>prx_reordering_timer := False\<rparr> else e)"
  have e1: "prx_st e1 = prx_st e" "prx_window e1 = prx_window e" "prx_cfg e1 = prx_cfg e" "prx_base e1" "prx_rest e e1"
    "prx_reordering_timer e1 \<longleftrightarrow> prx_reordering_timer e \<and> \<not> prx_d e \<ge> prx_r e"
    using b by (auto simp: e1_def prx_rest_def)
  have ev: "deliver_events (prx_window e) (prx_d e) (prx_d e) = []" by (rule deliver_events_empty)
  show thesis
  proof (cases "prx_t_reordering (prx_cfg e)")
    case t_reordering_infinity
    have h: "handle_reordering_timers e = Some (e1, [])"
      using t_reordering_infinity by (simp add: handle_reordering_timers_def e1_def Let_def)
    have "\<not> prx_reordering_timer e1" using t e1(6) by (simp add: reord_timer_pre_def t_reordering_infinity)
    then have "prx_inv e1" using e1 free' t_reordering_infinity by (simp add: prx_inv_base reord_timer_ok_def)
    then show thesis by (intro that [of e1]) (use h e1 ev keep False in simp_all)
  next
    case (t_reordering_ms ms)
    then have ms: "ms \<noteq> 0" using False by auto
    show thesis
    proof (cases "\<not> prx_reordering_timer e1 \<and> prx_d e < prx_n e")
      case True
      let ?e2 = "e1\<lparr>prx_st := (prx_st e1)\<lparr>rx_reord := prx_n e1\<rparr>, prx_reordering_timer := True\<rparr>"
      have h: "handle_reordering_timers e = Some (?e2, [])"
        using t_reordering_ms ms True e1(1) by (simp add: handle_reordering_timers_def e1_def [symmetric] Let_def e1(3))
      have "prx_base ?e2" using e1(4) by (simp only: prx_base_timer)
      then have "prx_inv ?e2" using e1(1-3,6) free' True t_reordering_ms ms by (simp add: prx_inv_base reord_timer_ok_def)
      then show thesis by (intro that [of ?e2]) (use h e1 ev keep False in \<open>simp_all add: prx_rest_def\<close>)
    next
      case f: False
      have h: "handle_reordering_timers e = Some (e1, [])"
        using t_reordering_ms ms f e1(1) by (auto simp: handle_reordering_timers_def e1_def [symmetric] Let_def e1(3))
      have "prx_reordering_timer e1 \<longrightarrow> prx_d e < prx_r e \<and> prx_r e \<le> prx_n e"
        using t e1(6) t_reordering_ms ms by (auto simp: reord_timer_pre_def not_le)
      then have "prx_inv e1" using e1 free' f t_reordering_ms ms by (auto simp: prx_inv_base reord_timer_ok_def)
      then show thesis by (intro that [of e1]) (use h e1 ev keep False in simp_all)
    qed
  qed
qed

end
