(* ===== verification/Pdcp_Rx_Steps.thy ===== *)
theory Pdcp_Rx_Steps
  imports Pdcp_Rx_Inv
begin

text \<open>
  The operations of the receiving PDCP entity one by one: each succeeds under the invariant and keeps it, together with
  the token count and the origin of every stored SDU, and hands SDUs over in ascending order of COUNT.
\<close>

section \<open>Reordering\<close>

text \<open>
  The effect of a deciphered PDU: dropped when its COUNT was delivered or is stored, otherwise stored, and everything
  below the new \<open>RX_DELIV\<close> is delivered.
\<close>

definition reordering_effect :: "pdcp_rx_pdu_info \<Rightarrow> pdcp_entity_rx \<Rightarrow> pdcp_entity_rx \<Rightarrow> pdcp_rx_event list \<Rightarrow> bool" where
  "reordering_effect info e e' evs \<longleftrightarrow>
     (let c = rpi_count info; w = stored_window c (rpi_buf info) e in
      if c < prx_d e \<or> has_sn (prx_window e) c then e' = e \<and> evs = []
      else evs = deliver_events w (prx_d e) (prx_d e') \<and> prx_d e \<le> prx_d e' \<and> prx_n e' = stored_next c e \<and>
        (\<forall>k. cm_get (prx_window e') k = (if k < prx_d e' then None else cm_get w k)) \<and>
        (if prx_t_reordering (prx_cfg e) = t_reordering_ms 0 then prx_d e' = prx_n e'
         else if c = prx_d e then first_missing w (prx_d e) (prx_n e') (prx_d e') else prx_d e' = prx_d e))"

lemma apply_reordering_rx_ok:
  assumes inv: "prx_inv e" and t: "task_ok e info"
  obtains e' evs where "apply_reordering_rx info e = Some (e', evs)" "prx_inv e'" "prx_rest e e'"
    "reordering_effect info e e' evs"
proof -
  define c where "c = rpi_count info"
  note i = prx_invD [OF inv] and k = prx_coreD [OF prx_invD(1) [OF inv]]
  show thesis
  proof (cases "c < prx_d e \<or> has_sn (prx_window e) c")
    case True
    have r: "apply_reordering_rx info e = Some (e, [])"
    proof (cases "c < prx_d e")
      case f: False
      then obtain s where s: "cm_get (prx_window e) c = Some s" using True by (auto simp: cm_contains_get)
      then have "rsi_count s = c" by (rule k(5))
      then show ?thesis using f s by (simp add: apply_reordering_rx_def c_def [symmetric] cm_contains_get Let_def)
    qed (simp add: apply_reordering_rx_def c_def)
    have "reordering_effect info e e []" using True by (simp add: reordering_effect_def Let_def c_def)
    then show thesis by (rule that [OF r inv prx_rest_refl])
  next
    case False
    then have nd: "\<not> c < prx_d e" and sn: "\<not> has_sn (prx_window e) c" and le: "prx_d e \<le> c" by auto
    have b: "c < prx_hard e" "uint c < uint (prx_d e) + prx_W e" using t by (simp_all add: task_ok_def c_def)
    obtain e1 where e1: "prx_store c (rpi_buf info) e = Some e1"
      "e1 = e\<lparr>prx_window := stored_window c (rpi_buf info) e, prx_st := (prx_st e)\<lparr>rx_next_count := stored_next c e\<rparr>\<rparr>"
      "cm_get (prx_window e1) = (cm_get (prx_window e))(c \<mapsto> \<lparr>rsi_buf = rpi_buf info, rsi_count = c\<rparr>)"
      "prx_core e1" "uint (prx_n e1) \<le> uint (prx_d e1) + prx_W e1" "prx_n e1 \<le> prx_hard e1" "prx_n e \<le> prx_n e1" "c < prx_n e1"
      by (rule prx_store_ok [OF i(1,3,4) le sn b])
    have s1: "prx_d e1 = prx_d e" "prx_r e1 = prx_r e" "prx_cfg e1 = prx_cfg e" "prx_reordering_timer e1 = prx_reordering_timer e"
      "prx_window e1 = stored_window c (rpi_buf info) e" "prx_n e1 = stored_next c e" "prx_rest e e1"
      unfolding e1(2) by (simp_all add: prx_rest_def)
    have base1: "prx_base e1"
    proof -
      have "task_ok e1 j \<longleftrightarrow> task_ok e j" for j by (simp add: task_ok_def s1)
      moreover have "prx_crypto_tasks e1 = prx_crypto_tasks e" "prx_ue_tasks e1 = prx_ue_tasks e"
        using s1(7) by (simp_all add: prx_rest_def)
      ultimately show ?thesis using i(5,7,8) e1(4-6) by (simp add: prx_base_def s1(3))
    qed
    obtain e2 evs1 where r2: "(if c = prx_d e1 then deliver_all_consecutive_counts e1 else (e1, [])) = (e2, evs1)"
      by (cases "if c = prx_d e1 then deliver_all_consecutive_counts e1 else (e1, [])")
    have D: "prx_delivered e1 e2" "evs1 = deliver_events (prx_window e1) (prx_d e1) (prx_d e2)"
        "\<not> has_sn (prx_window e2) (prx_d e2)"
      and D2: "if c = prx_d e then first_missing (prx_window e1) (prx_d e) (prx_n e1) (prx_d e2) else prx_d e2 = prx_d e"
    proof -
      have "prx_delivered e1 e2 \<and> evs1 = deliver_events (prx_window e1) (prx_d e1) (prx_d e2) \<and>
        \<not> has_sn (prx_window e2) (prx_d e2) \<and>
        (if c = prx_d e then first_missing (prx_window e1) (prx_d e) (prx_n e1) (prx_d e2) else prx_d e2 = prx_d e)"
      proof (cases "c = prx_d e1")
        case True
        then have r: "deliver_all_consecutive_counts e1 = (e2, evs1)" using r2 by simp
        note dc = deliver_consecutive_ok [OF e1(4) r]
        then have del: "prx_delivered e1 e2" by blast
        note g = prx_delivered_get [OF del] and core2 = prx_delivered_core [OF e1(4) del]
        have free: "\<not> has_sn (prx_window e2) (prx_d e2)"
        proof (cases "prx_d e2 = prx_n e1")
          case True
          then show ?thesis using not_stored_at_next [OF core2] g(2) by simp
        next
          case f: False
          then have "\<not> has_sn (prx_window e1) (prx_d e2)" using dc by blast
          then show ?thesis by (simp add: cm_contains_get g(1))
        qed
        have "first_missing (prx_window e1) (prx_d e) (prx_n e1) (prx_d e2)"
          using dc g(5,6) unfolding first_missing_def s1(1) by blast
        then show ?thesis using dc free True s1(1) by simp
      next
        case f: False
        then have r: "e2 = e1" "evs1 = []" using r2 by simp_all
        have "prx_d e \<noteq> c" using f s1(1) by simp
        then have "\<not> has_sn (prx_window e1) (prx_d e1)" using i(2) by (simp add: cm_contains_get e1(3) s1(1))
        then show ?thesis using f s1(1) prx_delivered_refl [OF e1(4)] unfolding r by (simp add: deliver_events_empty)
      qed
      then show "prx_delivered e1 e2" "evs1 = deliver_events (prx_window e1) (prx_d e1) (prx_d e2)"
        "\<not> has_sn (prx_window e2) (prx_d e2)"
        "if c = prx_d e then first_missing (prx_window e1) (prx_d e) (prx_n e1) (prx_d e2) else prx_d e2 = prx_d e" by blast+
    qed
    note g2 = prx_delivered_get [OF D(1)] and f2 = prx_delivered_fields [OF D(1)]
    have base2: "prx_base e2" by (rule prx_base_delivered [OF base1 D(1)])
    have pre: "reord_timer_pre e2"
    proof (cases "prx_t_reordering (prx_cfg e)")
      case (t_reordering_ms ms)
      show ?thesis
      proof (cases "ms = 0")
        case True
        then show ?thesis using i(6) t_reordering_ms by (simp add: reord_timer_pre_def reord_timer_ok_def f2 g2 s1)
      next
        case f: False
        have "prx_r e \<le> prx_n e1" if "prx_reordering_timer e"
        proof -
          have "prx_r e \<le> prx_n e" using i(6) t_reordering_ms f that by (simp add: reord_timer_ok_def)
          then show ?thesis using e1(7) by (rule order_trans)
        qed
        then show ?thesis using t_reordering_ms f by (simp add: reord_timer_pre_def f2 g2 s1)
      qed
    qed (use i(6) in \<open>simp add: reord_timer_pre_def reord_timer_ok_def f2 g2 s1\<close>)
    obtain e3 where e3: "handle_reordering_timers e2 = Some (e3, deliver_events (prx_window e2) (prx_d e2) (prx_d e3))"
      "prx_inv e3" "prx_rest e2 e3" "prx_n e3 = prx_n e2" "prx_d e2 \<le> prx_d e3"
      "prx_d e3 = (if prx_t_reordering (prx_cfg e2) = t_reordering_ms 0 then prx_n e2 else prx_d e2)"
      "\<And>k. cm_get (prx_window e3) k = (if k < prx_d e3 then None else cm_get (prx_window e2) k)"
      by (rule handle_reordering_timers_ok [OF base2 pre]) (use D(3) in simp_all)
    have evs: "evs1 @ deliver_events (prx_window e2) (prx_d e2) (prx_d e3) = deliver_events (prx_window e1) (prx_d e) (prx_d e3)"
      using deliver_events_append [of "prx_d e" "prx_d e2" "prx_d e3" "prx_window e1"] g2(5) e3(5)
        prx_delivered_events [OF e1(4) D(1) order_refl, of "prx_d e3"] by (simp add: D(2) s1(1))
    have r: "apply_reordering_rx info e = Some (e3, deliver_events (prx_window e1) (prx_d e) (prx_d e3))"
      using nd sn e1(1) r2 e3(1) evs s1(1) by (simp add: apply_reordering_rx_def c_def [symmetric] Let_def)
    have rest: "prx_rest e e3"
      by (rule prx_rest_trans [OF s1(7) prx_rest_trans [OF prx_delivered_rest [OF D(1)] e3(3)]])
    have get: "cm_get (prx_window e3) k = (if k < prx_d e3 then None else cm_get (prx_window e1) k)" for k
      using e3(5) by (simp add: e3(7) g2(1) order_less_le_trans)
    have "reordering_effect info e e3 (deliver_events (prx_window e1) (prx_d e) (prx_d e3))"
      unfolding reordering_effect_def Let_def c_def [symmetric] if_not_P [OF False]
      using get D2 e3(4,5,6) g2 s1 order_trans [OF g2(5) e3(5)] by (simp split: if_splits)
    then show thesis by (rule that [OF r e3(2) rest])
  qed
qed

text \<open>The expiry of t-Reordering.\<close>

lemma reordering_callback_ok:
  assumes inv: "prx_inv e" and run: "prx_reordering_timer e"
  obtains e' where "reordering_callback (e\<lparr>prx_reordering_timer := False\<rparr>) =
      Some (e', deliver_events (prx_window e) (prx_d e) (prx_d e'))" "prx_inv e'" "prx_rest e e'" "prx_d e \<le> prx_d e'"
    "prx_n e' = prx_n e" "\<And>k. cm_get (prx_window e') k = (if k < prx_d e' then None else cm_get (prx_window e) k)"
    "\<not> prx_stopped e \<Longrightarrow> first_missing (prx_window e) (prx_r e) (prx_n e) (prx_d e')"
proof -
  note i = prx_invD [OF inv] and k = prx_coreD [OF prx_invD(1) [OF inv]]
  let ?e1 = "e\<lparr>prx_reordering_timer := False\<rparr>"
  obtain ms where ms: "prx_t_reordering (prx_cfg e) = t_reordering_ms ms" "ms \<noteq> 0" "prx_d e < prx_r e" "prx_r e \<le> prx_n e"
    using i(6) run by (auto simp: reord_timer_ok_def split: pdcp_t_reordering.splits if_splits)
  have b: "prx_base e" using inv by (simp add: prx_inv_base)
  show thesis
  proof (cases "prx_stopped e")
    case True
    have keep: "cm_get (prx_window e) j = (if j < prx_d e then None else cm_get (prx_window e) j)" for j
      using k(3) [of j] by (cases "cm_get (prx_window e) j") (auto simp: cm_contains_get)
    have "prx_inv ?e1" using b i(2) ms(1,2) True by (simp add: prx_inv_base reord_timer_ok_def)
    then show thesis by (intro that [of ?e1]) (use True keep in \<open>simp_all add: reordering_callback_def deliver_events_empty prx_rest_def\<close>)
  next
    case False
    have "prx_core ?e1" "prx_d ?e1 \<le> prx_r ?e1" "prx_r ?e1 \<le> prx_n ?e1" using i(1) ms by simp_all
    from expire_ok [OF this] obtain e2 where e2: "prx_delivered ?e1 e2" "first_missing (prx_window ?e1) (prx_r ?e1) (prx_n ?e1) (prx_d e2)"
      "handle_t_reordering_expire ?e1 =
        Some (if prx_d e2 < prx_n ?e1 \<and> prx_t_reordering (prx_cfg ?e1) \<noteq> t_reordering_ms 0
              then e2\<lparr>prx_st := (prx_st e2)\<lparr>rx_reord := prx_n ?e1\<rparr>, prx_reordering_timer := True\<rparr> else e2,
          deliver_events (prx_window ?e1) (prx_d ?e1) (prx_d e2))" by blast
    define e3 where "e3 = (if prx_d e2 < prx_n e then e2\<lparr>prx_st := (prx_st e2)\<lparr>rx_reord := prx_n e\<rparr>, prx_reordering_timer := True\<rparr> else e2)"
    note g = prx_delivered_get [OF e2(1)] and f = prx_delivered_fields [OF e2(1)]
    have s3: "prx_d e3 = prx_d e2" "prx_n e3 = prx_n e" "prx_window e3 = prx_window e2" "prx_cfg e3 = prx_cfg e"
      "prx_reordering_timer e3 \<longleftrightarrow> prx_d e2 < prx_n e" "prx_reordering_timer e3 \<Longrightarrow> prx_r e3 = prx_n e"
      using g(2,3,4) f(1) by (simp_all add: e3_def split: if_splits)
    have "prx_base ?e1" using b by simp
    then have b2: "prx_base e2" by (rule prx_base_delivered [OF _ e2(1)])
    have b3: "prx_base e3" unfolding e3_def using b2 by (simp only: prx_base_timer simp_thms split: if_split)
    have free: "\<not> has_sn (prx_window e2) (prx_d e2)"
    proof (cases "prx_d e2 = prx_n e")
      case True
      have "prx_core e2" using b2 by (simp add: prx_base_def)
      then show ?thesis using True g(2) by (intro not_stored_at_next) simp_all
    next
      case fl: False
      then have "\<not> has_sn (prx_window e) (prx_d e2)" using e2(2) by (simp add: first_missing_def)
      then show ?thesis by (simp add: cm_contains_get g(1))
    qed
    have "prx_inv e3" using b3 free ms(1,2) s3 by (simp add: prx_inv_base reord_timer_ok_def)
    moreover have "prx_rest ?e1 e2" by (rule prx_delivered_rest [OF e2(1)])
    then have "prx_rest e e3" by (simp add: prx_rest_def e3_def)
    moreover have "reordering_callback ?e1 = Some (e3, deliver_events (prx_window e) (prx_d e) (prx_d e3))"
      unfolding s3(1) unfolding e3_def using e2(3) ms False by (simp add: reordering_callback_def cong: if_cong)
    ultimately show thesis by (intro that [of e3]) (use g s3 e2(2) in simp_all)
  qed
qed

section \<open>What the state holds\<close>

text \<open>
  An SDU is accepted from a PDU under a COUNT when the SN of the PDU is that of the COUNT and the security engine of
  the worker, if any, deciphers the PDU to the SDU after its header.  In the following \<open>S\<close> is the set of security
  engines that were configured and \<open>P\<close> the set of PDUs that were received.
\<close>

definition sdu_accepted :: "aes_lib \<Rightarrow> pdcp_rx_config \<Rightarrow> security_engine option \<Rightarrow> bytes \<Rightarrow> u32 \<Rightarrow> bytes \<Rightarrow> bool" where
  "sdu_accepted lib cfg eng pdu c sdu \<longleftrightarrow>
     pdcp_read_data_pdu_header (prx_sn_size cfg) pdu = Some (pdcp_compute_sn c (prx_sn_size cfg)) \<and>
     (\<exists>buf. (case eng of
         None \<Rightarrow> (if prx_rb_type cfg = rb_srb then sec_mac_len < length pdu \<and> buf = take (length pdu - sec_mac_len) pdu else buf = pdu)
       | Some g \<Rightarrow> decrypt_and_verify_integrity lib g pdu (pdcp_data_header_size (prx_sn_size cfg)) c = Some (Inr buf)) \<and>
       pdcp_data_header_size (prx_sn_size cfg) \<le> length buf \<and> sdu = drop (pdcp_data_header_size (prx_sn_size cfg)) buf)"

definition sdu_from :: "aes_lib \<Rightarrow> security_engine option set \<Rightarrow> bytes set \<Rightarrow> pdcp_rx_config \<Rightarrow> u32 \<Rightarrow> bytes \<Rightarrow> bool" where
  "sdu_from lib S P cfg c sdu \<longleftrightarrow> (\<exists>pdu \<in> P. \<exists>eng \<in> S. sdu_accepted lib cfg eng pdu c sdu)"

definition prx_contents :: "aes_lib \<Rightarrow> security_engine option set \<Rightarrow> bytes set \<Rightarrow> pdcp_entity_rx \<Rightarrow> bool" where
  "prx_contents lib S P e \<longleftrightarrow>
     length (prx_sec_engine_pool e) = prx_max_nof_crypto_workers e \<and> set (prx_sec_engine_pool e) \<subseteq> S \<and> set (prx_pdu_buffer e) \<subseteq> P \<and>
     (\<forall>info \<in> set (prx_crypto_tasks e). rpi_buf info \<in> P \<and> pdcp_read_data_pdu_header (prx_sn_size (prx_cfg e)) (rpi_buf info) =
        Some (pdcp_compute_sn (rpi_count info) (prx_sn_size (prx_cfg e)))) \<and>
     (\<forall>info. task_reordering info \<in> set (prx_ue_tasks e) \<longrightarrow> sdu_from lib S P (prx_cfg e) (rpi_count info) (rpi_buf info)) \<and>
     (\<forall>k i. cm_get (prx_window e) k = Some i \<longrightarrow> sdu_from lib S P (prx_cfg e) k (rsi_buf i))"

text \<open>
  The token count: the tasks in flight, less one while the processing of PDUs is stopped; the event is set exactly when
  it is stopped and no task is in flight.
\<close>

definition tokens_ok :: "bool \<Rightarrow> pdcp_entity_rx \<Rightarrow> bool" where
  "tokens_ok paused e \<longleftrightarrow> prx_tasks e \<le> 2 ^ 30 \<and>
     prx_token_mngr e = \<lparr>tm_pending_crypto = (paused \<and> prx_tasks e = 0), tm_tokens = of_nat (prx_tasks e) - of_bool paused\<rparr>"

lemma return_token_ok:
  assumes "n \<le> 2 ^ 30"
  shows "return_token \<lparr>tm_pending_crypto = (p \<and> Suc n = 0), tm_tokens = of_nat (Suc n) - of_bool p\<rparr> =
    Some \<lparr>tm_pending_crypto = (p \<and> n = 0), tm_tokens = of_nat n - of_bool p\<rparr>"
proof -
  have u: "unat (of_nat k :: u32) = k" if "k \<le> 2 ^ 30 + 1" for k
    using that by (simp add: unat_of_nat take_bit_nat_eq_self)
  have m: "of_nat k \<noteq> (0xffffffff :: u32)" if "k \<le> 2 ^ 30 + 1" for k
  proof
    assume "of_nat k = (0xffffffff :: u32)"
    then have "unat (of_nat k :: u32) = unat (0xffffffff :: u32)" by simp
    then show False using u [OF that] that by simp
  qed
  have z: "of_nat n = (0 :: u32) \<longleftrightarrow> n = 0" using u [of n] assms by (cases "n = 0") auto
  show ?thesis
  proof (cases p)
    case True
    then show ?thesis using m [of n] assms z by (simp add: return_token_def Let_def)
  next
    case False
    have n1: "of_nat (Suc n) \<noteq> (0xffffffff :: u32)" using m [of "Suc n"] assms by simp
    have n2: "of_nat (Suc n) \<noteq> (0 :: u32)"
    proof
      assume "of_nat (Suc n) = (0 :: u32)"
      then have "unat (of_nat (Suc n) :: u32) = 0" by simp
      then show False using u [of "Suc n"] assms by simp
    qed
    show ?thesis using False n1 n2 by (simp add: return_token_def Let_def)
  qed
qed

text \<open>The token of a task that is done.\<close>

lemma return_rx_token_ok:
  assumes "tokens_ok p e" "prx_token_mngr e' = prx_token_mngr e" "prx_tasks e = Suc (prx_tasks e')"
  obtains e'' where "return_rx_token e' = Some e''" "e'' = e'\<lparr>prx_token_mngr := prx_token_mngr e''\<rparr>" "tokens_ok p e''"
proof -
  define tm where "tm = \<lparr>tm_pending_crypto = (p \<and> prx_tasks e' = 0), tm_tokens = of_nat (prx_tasks e') - of_bool p\<rparr>"
  have le: "prx_tasks e' \<le> 2 ^ 30" using assms(1,3) by (simp add: tokens_ok_def)
  have "return_token (prx_token_mngr e') = Some tm"
    using return_token_ok [OF le, of p] assms unfolding tm_def tokens_ok_def by simp
  then have "return_rx_token e' = Some (e'\<lparr>prx_token_mngr := tm\<rparr>)" by (simp add: return_rx_token_def)
  then show thesis
    by (rule that) (use le in \<open>simp_all add: tokens_ok_def prx_tasks_def tm_def\<close>)
qed

definition prx_ok :: "aes_lib \<Rightarrow> security_engine option set \<Rightarrow> bytes set \<Rightarrow> bool \<Rightarrow> pdcp_entity_rx \<Rightarrow> bool" where
  "prx_ok lib S P paused e \<longleftrightarrow> prx_inv e \<and> tokens_ok paused e \<and> prx_contents lib S P e"

lemma prx_okD:
  assumes "prx_ok lib S P paused e"
  shows "prx_inv e" "tokens_ok paused e" "prx_contents lib S P e"
  using assms by (simp_all add: prx_ok_def)

section \<open>Traces\<close>

fun event_count :: "pdcp_rx_event \<Rightarrow> u32 list" where
  "event_count (on_new_sdu c sdu) = [c]"
| "event_count _ = []"

definition sdu_counts :: "pdcp_rx_event list \<Rightarrow> u32 list" where
  "sdu_counts evs = concat (map event_count evs)"

lemma sdu_counts_simps [simp]:
  "sdu_counts [] = []" "sdu_counts (ev # evs) = event_count ev @ sdu_counts evs" "sdu_counts (xs @ ys) = sdu_counts xs @ sdu_counts ys"
  by (simp_all add: sdu_counts_def)

lemma set_sdu_counts: "c \<in> set (sdu_counts evs) \<longleftrightarrow> (\<exists>sdu. on_new_sdu c sdu \<in> set evs)"
proof -
  have "c \<in> set (event_count ev) \<longleftrightarrow> (\<exists>sdu. ev = on_new_sdu c sdu)" for ev by (cases ev) auto
  then show ?thesis by (auto simp: sdu_counts_def)
qed

lemma sdu_counts_deliver: "sdu_counts (deliver_events w b e) = filter (has_sn w) (count_range b e)"
  by (simp add: sdu_counts_def deliver_events_def comp_def)

lemma sorted_count_range: "sorted_wrt (<) (count_range b e)"
proof (induction "unat e - unat b" arbitrary: b)
  case 0
  then have "e \<le> b" by (simp add: word_le_nat_alt)
  then show ?case by (simp add: count_range_step [of b] leD)
next
  case (Suc n)
  then have b: "b < e" by (simp add: word_less_nat_alt)
  have s: "int (unat (b + 1)) = int (unat b) + 1" using count_step(1) [OF b] by simp
  then have "n = unat e - unat (b + 1)" using Suc(2) by linarith
  then have "sorted_wrt (<) (count_range (b + 1) e)" by (rule Suc(1))
  moreover have "b < c" if "b + 1 \<le> c" for c using that count_step(1) [OF b] by (simp add: word_le_def word_less_def)
  ultimately show ?case using b by (subst count_range_step) (simp add: set_count_range)
qed

text \<open>A trace up to \<open>RX_DELIV\<close>: COUNTs in ascending order below it, each from an accepted PDU.\<close>

definition trace_ok :: "(u32 \<Rightarrow> bytes \<Rightarrow> bool) \<Rightarrow> pdcp_rx_event list \<Rightarrow> bool" where
  "trace_ok Q evs \<longleftrightarrow> sorted_wrt (<) (sdu_counts evs) \<and> (\<forall>c sdu. on_new_sdu c sdu \<in> set evs \<longrightarrow> Q c sdu)"

definition trace_below :: "u32 \<Rightarrow> pdcp_rx_event list \<Rightarrow> bool" where
  "trace_below d evs \<longleftrightarrow> (\<forall>c \<in> set (sdu_counts evs). c < d)"

lemma trace_silent:
  assumes "trace_ok Q evs" "trace_below d evs" "sdu_counts evs' = []" "d \<le> d'"
  shows "trace_ok Q (evs @ evs')" "trace_below d' (evs @ evs')"
proof -
  have "on_new_sdu c sdu \<notin> set evs'" for c sdu using set_sdu_counts [of c evs'] assms(3) by auto
  then show "trace_ok Q (evs @ evs')" using assms by (auto simp: trace_ok_def)
  show "trace_below d' (evs @ evs')" using assms by (auto simp: trace_below_def intro: order_less_le_trans)
qed

lemma trace_deliver:
  assumes "trace_ok Q evs" "trace_below d evs" "d \<le> d'" "\<And>k i. cm_get w k = Some i \<Longrightarrow> Q k (rsi_buf i)"
  shows "trace_ok Q (evs @ deliver_events w d d')" "trace_below d' (evs @ deliver_events w d d')"
proof -
  have s: "sorted_wrt (<) (filter (has_sn w) (count_range d d'))"
    using sorted_count_range [of d d'] by (rule sorted_wrt_filter)
  have "sorted_wrt (<) (sdu_counts evs @ filter (has_sn w) (count_range d d'))"
    using assms(1,2) s by (auto simp: sorted_wrt_append trace_ok_def trace_below_def set_count_range intro: order_less_le_trans)
  moreover have "Q c sdu" if "on_new_sdu c sdu \<in> set (evs @ deliver_events w d d')" for c sdu
    using that assms(1,4) by (auto simp: deliver_events_def trace_ok_def cm_contains_get)
  ultimately show "trace_ok Q (evs @ deliver_events w d d')" by (simp add: trace_ok_def sdu_counts_deliver)
  show "trace_below d' (evs @ deliver_events w d d')"
    using assms(2,3) by (auto simp: trace_below_def sdu_counts_deliver set_count_range intro: order_less_le_trans)
qed

section \<open>The operations keep the invariant\<close>

definition prx_quiet :: "pdcp_entity_rx \<Rightarrow> pdcp_entity_rx \<Rightarrow> bool" where
  "prx_quiet e e' \<longleftrightarrow> prx_st e' = prx_st e \<and> prx_cfg e' = prx_cfg e \<and> prx_stopped e' = prx_stopped e \<and>
     prx_buffering e' = prx_buffering e"

lemma prx_quiet_refl [simp]: "prx_quiet e e" by (simp add: prx_quiet_def)

text \<open>Fields that neither the invariant of the window nor the contents depend on.\<close>

lemma prx_contents_frame [simp]:
  "prx_contents lib S P (e\<lparr>prx_token_mngr := a\<rparr>) = prx_contents lib S P e"
  "prx_contents lib S P (e\<lparr>prx_buffering := b\<rparr>) = prx_contents lib S P e"
  "prx_contents lib S P (e\<lparr>prx_stopped := b\<rparr>) = prx_contents lib S P e"
  "prx_contents lib S P (e\<lparr>prx_reordering_timer := b\<rparr>) = prx_contents lib S P e"
  "prx_contents lib S P (e\<lparr>prx_max_count_notified := b\<rparr>) = prx_contents lib S P e"
  "prx_contents lib S P (e\<lparr>prx_max_count_overflow := b\<rparr>) = prx_contents lib S P e"
  by (simp_all add: prx_contents_def)

lemma tokens_ok_frame [simp]:
  "tokens_ok p (e\<lparr>prx_buffering := b\<rparr>) = tokens_ok p e" "tokens_ok p (e\<lparr>prx_stopped := b\<rparr>) = tokens_ok p e"
  "tokens_ok p (e\<lparr>prx_reordering_timer := b\<rparr>) = tokens_ok p e" "tokens_ok p (e\<lparr>prx_pdu_buffer := q\<rparr>) = tokens_ok p e"
  "tokens_ok p (e\<lparr>prx_max_count_notified := b\<rparr>) = tokens_ok p e" "tokens_ok p (e\<lparr>prx_max_count_overflow := b\<rparr>) = tokens_ok p e"
  "tokens_ok p (e\<lparr>prx_integrity_enabled := b\<rparr>) = tokens_ok p e" "tokens_ok p (e\<lparr>prx_ciphering_enabled := b\<rparr>) = tokens_ok p e"
  "tokens_ok p (e\<lparr>prx_sec_engine_pool := g\<rparr>) = tokens_ok p e" "tokens_ok p (e\<lparr>prx_st := s\<rparr>) = tokens_ok p e"
  "tokens_ok p (e\<lparr>prx_window := w\<rparr>) = tokens_ok p e"
  by (simp_all add: tokens_ok_def prx_tasks_def)

lemma prx_ok_frame [simp]:
  "prx_ok lib S P p (e\<lparr>prx_buffering := b\<rparr>) = prx_ok lib S P p e"
  "prx_ok lib S P p (e\<lparr>prx_max_count_notified := b\<rparr>) = prx_ok lib S P p e"
  "prx_ok lib S P p (e\<lparr>prx_max_count_overflow := b\<rparr>) = prx_ok lib S P p e"
  by (simp_all add: prx_ok_def)

lemma prx_ok_buffer:
  "prx_ok lib S P p e \<Longrightarrow> set bufs \<subseteq> P \<Longrightarrow> prx_ok lib S P p (e\<lparr>prx_pdu_buffer := bufs\<rparr>)"
  by (simp add: prx_ok_def prx_contents_def)

lemma check_max_count_ok:
  assumes "check_max_count c e = (e1, evs, refused)"
  shows "refused \<longleftrightarrow> c \<ge> prx_hard e" "sdu_counts evs = []" "prx_quiet e e1" "prx_tasks e1 = prx_tasks e"
    "prx_ok lib S P p e1 = prx_ok lib S P p e" "prx_token_mngr e1 = prx_token_mngr e" "prx_crypto_tasks e1 = prx_crypto_tasks e"
    "prx_ue_tasks e1 = prx_ue_tasks e"
  using assms by (auto simp: check_max_count_def Let_def prx_quiet_def prx_tasks_def split: if_splits)

lemma prx_inv_token_crypto [simp]:
  "prx_inv (e\<lparr>prx_token_mngr := a, prx_crypto_tasks := cs\<rparr>) = prx_inv (e\<lparr>prx_crypto_tasks := cs\<rparr>)"
  by (simp add: prx_inv_defs cong: if_cong pdcp_t_reordering.case_cong)

lemma prx_ok_add_crypto_task:
  assumes "prx_ok lib S P False e" "task_ok e info" "rpi_buf info \<in> P" "prx_tasks e < 2 ^ 30"
    "pdcp_read_data_pdu_header (prx_sn_size (prx_cfg e)) (rpi_buf info) = Some (pdcp_compute_sn (rpi_count info) (prx_sn_size (prx_cfg e)))"
  shows "prx_ok lib S P False (e\<lparr>prx_token_mngr := increment_token (prx_token_mngr e), prx_crypto_tasks := prx_crypto_tasks e @ [info]\<rparr>)"
    (is "prx_ok lib S P False ?e")
proof -
  note o = prx_okD [OF assms(1)]
  have "prx_inv (e\<lparr>prx_crypto_tasks := prx_crypto_tasks e @ [info], prx_ue_tasks := prx_ue_tasks e\<rparr>)"
    by (rule prx_inv_tasks) (use o(1) assms(2) prx_invD(7,8) [OF o(1)] in auto)
  then have "prx_inv ?e" by simp
  moreover have "tokens_ok False ?e" using o(2) assms(4) by (simp add: tokens_ok_def prx_tasks_def increment_token_def)
  moreover have "prx_contents lib S P ?e" using o(3) assms(3,5) by (auto simp: prx_contents_def)
  ultimately show ?thesis by (simp add: prx_ok_def)
qed

lemma handle_data_pdu_ok:
  assumes ok: "prx_ok lib S P False e" and pdu: "pdu \<in> P" and t: "prx_tasks e < 2 ^ 30"
  obtains e' evs where "pdcp_rx_handle_data_pdu crypto_ok pdu e = Some (e', evs)" "prx_ok lib S P False e'" "prx_quiet e e'"
    "sdu_counts evs = []" "prx_tasks e' \<le> Suc (prx_tasks e)"
proof -
  let ?sz = "prx_sn_size (prx_cfg e)"
  note o = prx_okD [OF ok]
  note i = prx_invD [OF o(1)] and k = prx_coreD [OF prx_invD(1) [OF prx_okD(1) [OF ok]]]
  show thesis
  proof (cases "length pdu \<le> prx_hdr_len_bytes e")
    case True
    then show thesis by (intro that [of e "[]"]) (use ok in \<open>simp_all add: pdcp_rx_handle_data_pdu_def\<close>)
  next
    case long: False
    show thesis
    proof (cases "pdcp_read_data_pdu_header ?sz pdu")
      case None
      then show thesis by (intro that [of e "[]"]) (use ok in \<open>simp_all add: pdcp_rx_handle_data_pdu_def\<close>)
    next
      case (Some sn)
      define c where "c = pdcp_rcvd_count ?sz (prx_window_size e) (prx_d e) sn"
      obtain e1 evs refused where m: "check_max_count c e = (e1, evs, refused)" by (cases "check_max_count c e")
      note m' = check_max_count_ok [OF m]
      have ok1: "prx_ok lib S P False e1" using ok m'(5) by simp
      note run = pdcp_rx_handle_data_pdu_def [of crypto_ok pdu e, unfolded if_not_P [OF long] Some option.case c_def [symmetric] Let_def m prod.case]
      show thesis
      proof (cases refused)
        case True
        then show thesis by (intro that [of e1 evs]) (use ok1 m' run in simp_all)
      next
        case False
        then have h: "c < prx_hard e" using m'(1) by (simp add: not_le)
        have d: "uint (prx_d e) \<le> 2 ^ 32 - 2 * prx_W e" using i(4,5) k(2) by (simp add: word_le_def)
        have r: "uint c < 2 ^ 32 - 2 * prx_W e" using h i(5) by (simp add: word_less_def)
        note b = pdcp_rcvd_count_bounds [OF pdcp_read_sn_less [OF Some] k(6) d, folded c_def, OF r]
        let ?info = "\<lparr>rpi_buf = pdu, rpi_count = c\<rparr>"
        have q: "prx_cfg e1 = prx_cfg e" "prx_st e1 = prx_st e" using m'(3) by (simp_all add: prx_quiet_def)
        have task: "task_ok e1 ?info" using h b(2) by (simp add: task_ok_def q)
        show thesis
        proof (cases crypto_ok)
          case True
          let ?e2 = "e1\<lparr>prx_token_mngr := increment_token (prx_token_mngr e1), prx_crypto_tasks := prx_crypto_tasks e1 @ [?info]\<rparr>"
          have "prx_ok lib S P False ?e2"
            by (rule prx_ok_add_crypto_task [OF ok1 task]) (use pdu t m'(4) Some b(3) q in simp_all)
          then show thesis
            by (intro that [of ?e2 evs]) (use run False True m' in \<open>simp_all add: prx_quiet_def prx_tasks_def\<close>)
        next
          case f: False
          have tm: "prx_token_mngr e1 = \<lparr>tm_pending_crypto = False, tm_tokens = of_nat (prx_tasks e)\<rparr>"
            using o(2) m'(6) by (simp add: tokens_ok_def)
          have le: "prx_tasks e \<le> 2 ^ 30" using t by simp
          have "return_token (increment_token (prx_token_mngr e1)) = Some (prx_token_mngr e1)"
            using return_token_ok [OF le, of False] by (simp add: increment_token_def tm add.commute)
          then have "return_rx_token (e1\<lparr>prx_token_mngr := increment_token (prx_token_mngr e1)\<rparr>) = Some e1"
            by (simp add: return_rx_token_def)
          then show thesis by (intro that [of e1 evs]) (use ok1 m' run False f in simp_all)
        qed
      qed
    qed
  qed
qed

lemma handle_pdu_ok:
  assumes ok: "prx_ok lib S P p e" and pdu: "pdu \<in> P" and t: "prx_tasks e < 2 ^ 30"
    and p: "p \<Longrightarrow> prx_stopped e \<or> prx_buffering e"
  obtains e' evs where "pdcp_rx_handle_pdu copy_ok crypto_ok pdu e = Some (e', evs)" "prx_ok lib S P p e'" "prx_quiet e e'"
    "sdu_counts evs = []" "prx_tasks e' \<le> Suc (prx_tasks e)"
proof -
  consider (drop) "prx_stopped e \<or> (\<not> prx_buffering e \<and> (pdu = [] \<or> \<not> copy_ok))"
    | (buffer) "\<not> prx_stopped e" "prx_buffering e"
    | (data) "\<not> prx_stopped e" "\<not> prx_buffering e" "pdu \<noteq> []" "copy_ok" "prx_is_srb e \<or> pdcp_pdu_get_dc (hd pdu) = dc_data"
    | (control) "\<not> prx_stopped e" "\<not> prx_buffering e" "pdu \<noteq> []" "copy_ok" "\<not> prx_is_srb e" "pdcp_pdu_get_dc (hd pdu) = dc_control"
    by (cases "pdcp_pdu_get_dc (hd pdu)") auto
  then show thesis
  proof cases
    case drop
    then have "pdcp_rx_handle_pdu copy_ok crypto_ok pdu e = Some (e, [])" by (auto simp: pdcp_rx_handle_pdu_def)
    then show thesis by (rule that) (use ok in simp_all)
  next
    case buffer
    let ?e = "if length (prx_pdu_buffer e) < 2048 then e\<lparr>prx_pdu_buffer := prx_pdu_buffer e @ [pdu]\<rparr> else e"
    have "set (prx_pdu_buffer e @ [pdu]) \<subseteq> P" using prx_okD(3) [OF ok] pdu by (simp add: prx_contents_def)
    then have "prx_ok lib S P p ?e" using prx_ok_buffer [OF ok] ok by simp
    then show thesis
      by (intro that [of ?e "[]"]) (use buffer in \<open>simp_all add: pdcp_rx_handle_pdu_def prx_quiet_def prx_tasks_def\<close>)
  next
    case data
    then have np: "p = False" using p by blast
    obtain e' evs where "pdcp_rx_handle_data_pdu crypto_ok pdu e = Some (e', evs)" "prx_ok lib S P False e'" "prx_quiet e e'"
      "sdu_counts evs = []" "prx_tasks e' \<le> Suc (prx_tasks e)"
      by (rule handle_data_pdu_ok [OF ok [unfolded np] pdu t])
    then show thesis by (intro that [of e' evs]) (use data np in \<open>simp_all add: pdcp_rx_handle_pdu_def\<close>)
  next
    case control
    obtain evs where evs: "pdcp_rx_handle_control_pdu pdu e = Some (e, evs)" "sdu_counts evs = []"
    proof (cases "pdcp_control_pdu_get_cpt (hd pdu) = status_report")
      case True
      then show thesis using control(6) by (intro that [of "[on_status_report pdu]"]) (simp_all add: pdcp_rx_handle_control_pdu_def)
    next
      case False
      then show thesis using control(6)
        by (intro that [of "[]"]) (simp_all add: pdcp_rx_handle_control_pdu_def split: pdcp_control_pdu_type.split)
    qed
    show thesis by (rule that [of e evs]) (use evs control ok in \<open>simp_all add: pdcp_rx_handle_pdu_def\<close>)
  qed
qed

text \<open>Tasks leave the lists or move from one to the other.\<close>

lemma prx_ok_tasks:
  assumes ok: "prx_ok lib S P p e" and c: "set cs \<subseteq> set (prx_crypto_tasks e)"
    and u: "\<And>i. task_reordering i \<in> set us \<Longrightarrow> task_reordering i \<in> set (prx_ue_tasks e) \<or>
      (task_ok e i \<and> sdu_from lib S P (prx_cfg e) (rpi_count i) (rpi_buf i))"
  shows "prx_inv (e\<lparr>prx_crypto_tasks := cs, prx_ue_tasks := us\<rparr>)" "prx_contents lib S P (e\<lparr>prx_crypto_tasks := cs, prx_ue_tasks := us\<rparr>)"
proof -
  note o = prx_okD [OF ok]
  note i = prx_invD [OF o(1)]
  show "prx_inv (e\<lparr>prx_crypto_tasks := cs, prx_ue_tasks := us\<rparr>)"
    by (rule prx_inv_tasks [OF o(1)]) (use i(7,8) c u in blast)+
  show "prx_contents lib S P (e\<lparr>prx_crypto_tasks := cs, prx_ue_tasks := us\<rparr>)"
    using o(3) c u unfolding prx_contents_def by (simp add: subset_iff) blast
qed

lemma sdu_accepted_engine:
  assumes "apply_deciphering_and_integrity_check lib w pdu c e = Some (Inr buf)"
    and len: "length (prx_sec_engine_pool e) = prx_max_nof_crypto_workers e"
    and sn: "pdcp_read_data_pdu_header (prx_sn_size (prx_cfg e)) pdu = Some (pdcp_compute_sn c (prx_sn_size (prx_cfg e)))"
    and hdr: "\<not> length buf < (if prx_sn_size (prx_cfg e) = pdcp_size12bits then 2 else 3)"
  shows "\<exists>eng \<in> set (prx_sec_engine_pool e). sdu_accepted lib (prx_cfg e) eng pdu c
    (drop (if prx_sn_size (prx_cfg e) = pdcp_size12bits then 2 else 3) buf)"
proof -
  have w: "w < prx_max_nof_crypto_workers e"
    using assms(1) by (simp add: apply_deciphering_and_integrity_check_def split: if_splits)
  then have mem: "prx_sec_engine_pool e ! w \<in> set (prx_sec_engine_pool e)" using len by simp
  have "sdu_accepted lib (prx_cfg e) (prx_sec_engine_pool e ! w) pdu c
      (drop (if prx_sn_size (prx_cfg e) = pdcp_size12bits then 2 else 3) buf)"
    unfolding sdu_accepted_def
    using assms(1) w sn hdr
    by (auto simp: apply_deciphering_and_integrity_check_def pdcp_data_header_size_def Let_def not_less
        split: option.splits if_splits)
  then show ?thesis using mem by blast
qed

lemma apply_security_ok:
  assumes ok: "prx_ok lib S P p e" and split: "prx_crypto_tasks e = as @ info # bs"
    and run: "pdcp_rx_apply_security lib w ue_ok info (e\<lparr>prx_crypto_tasks := as @ bs\<rparr>) = Some e'"
  shows "prx_ok lib S P p e'" "prx_quiet e e'"
proof -
  let ?e0 = "e\<lparr>prx_crypto_tasks := as @ bs\<rparr>"
  let ?hdr = "if prx_sn_size (prx_cfg e) = pdcp_size12bits then 2 else 3 :: nat"
  note o = prx_okD [OF ok]
  note i = prx_invD [OF o(1)]
  have info: "info \<in> set (prx_crypto_tasks e)" by (simp add: split)
  have sub: "set (as @ bs) \<subseteq> set (prx_crypto_tasks e)" by (auto simp: split)
  have fin: "prx_ok lib S P p e' \<and> prx_quiet e e'" if "return_rx_token ?e0 = Some e'"
  proof -
    have tk: "prx_tasks e = Suc (prx_tasks ?e0)" "prx_token_mngr ?e0 = prx_token_mngr e" by (simp_all add: prx_tasks_def split)
    obtain e'' where "return_rx_token ?e0 = Some e''" "e'' = ?e0\<lparr>prx_token_mngr := prx_token_mngr e''\<rparr>" "tokens_ok p e''"
      by (rule return_rx_token_ok [OF o(2) tk(2,1)])
    then have e': "e' = ?e0\<lparr>prx_token_mngr := prx_token_mngr e'\<rparr>" "tokens_ok p e'" using that by simp_all
    have "prx_inv (?e0\<lparr>prx_token_mngr := prx_token_mngr e'\<rparr>)" "prx_contents lib S P (?e0\<lparr>prx_token_mngr := prx_token_mngr e'\<rparr>)"
      using prx_ok_tasks [OF ok sub, of "prx_ue_tasks e"] by (simp_all only: prx_inv_frame prx_contents_frame) simp_all
    then have "prx_inv e'" "prx_contents lib S P e'" using e'(1) by simp_all
    moreover have "prx_quiet e e'" by (subst e'(1)) (simp add: prx_quiet_def)
    ultimately show ?thesis using e'(2) by (simp add: prx_ok_def)
  qed
  have moved: "prx_ok lib S P p (?e0\<lparr>prx_ue_tasks := prx_ue_tasks e @ [t]\<rparr>) \<and> prx_quiet e (?e0\<lparr>prx_ue_tasks := prx_ue_tasks e @ [t]\<rparr>)"
    if t: "\<And>j. t = task_reordering j \<Longrightarrow> task_ok e j \<and> sdu_from lib S P (prx_cfg e) (rpi_count j) (rpi_buf j)" for t
  proof -
    have "tokens_ok p (?e0\<lparr>prx_ue_tasks := prx_ue_tasks e @ [t]\<rparr>)" using o(2) by (simp add: tokens_ok_def prx_tasks_def split)
    moreover have "prx_inv (?e0\<lparr>prx_ue_tasks := prx_ue_tasks e @ [t]\<rparr>)" "prx_contents lib S P (?e0\<lparr>prx_ue_tasks := prx_ue_tasks e @ [t]\<rparr>)"
      by (rule prx_ok_tasks [OF ok sub]; use t in auto)+
    ultimately show ?thesis by (simp add: prx_ok_def prx_quiet_def)
  qed
  show "prx_ok lib S P p e'" "prx_quiet e e'"
  proof -
    have "prx_ok lib S P p e' \<and> prx_quiet e e'"
    proof (cases "apply_deciphering_and_integrity_check lib w (rpi_buf info) (rpi_count info) ?e0")
      case None
      then show ?thesis using run by (simp add: pdcp_rx_apply_security_def)
    next
      case (Some r)
      show ?thesis
      proof (cases r)
        case (Inl err)
        then show ?thesis using run Some fin moved [of "task_failure err"] by (simp add: pdcp_rx_apply_security_def split: if_splits)
      next
        case (Inr buf)
        show ?thesis
        proof (cases "ue_ok \<and> \<not> length buf < ?hdr")
          case False
          then show ?thesis using run Some Inr fin by (auto simp: pdcp_rx_apply_security_def Let_def split: if_splits)
        next
          case True
          let ?j = "info\<lparr>rpi_buf := drop ?hdr buf\<rparr>"
          have pool: "length (prx_sec_engine_pool ?e0) = prx_max_nof_crypto_workers ?e0" "set (prx_sec_engine_pool e) \<subseteq> S"
            "rpi_buf info \<in> P" "pdcp_read_data_pdu_header (prx_sn_size (prx_cfg ?e0)) (rpi_buf info) =
              Some (pdcp_compute_sn (rpi_count info) (prx_sn_size (prx_cfg ?e0)))"
            using o(3) info by (simp_all add: prx_contents_def)
          have "\<exists>eng \<in> set (prx_sec_engine_pool ?e0). sdu_accepted lib (prx_cfg ?e0) eng (rpi_buf info) (rpi_count info) (drop ?hdr buf)"
            using sdu_accepted_engine [OF Some [unfolded Inr] pool(1,4)] True by simp
          then obtain eng where eng: "eng \<in> set (prx_sec_engine_pool e)"
            "sdu_accepted lib (prx_cfg e) eng (rpi_buf info) (rpi_count info) (drop ?hdr buf)" by auto
          then have "eng \<in> S" using pool(2) by blast
          then have "sdu_from lib S P (prx_cfg e) (rpi_count info) (drop ?hdr buf)"
            using eng(2) pool(3) unfolding sdu_from_def by blast
          then have "sdu_from lib S P (prx_cfg e) (rpi_count ?j) (rpi_buf ?j)" by simp
          moreover have "task_ok e ?j" using i(7) [OF info] by (simp add: task_ok_def)
          ultimately show ?thesis using moved [of "task_reordering ?j"] run Some Inr True
            by (simp add: pdcp_rx_apply_security_def Let_def)
        qed
      qed
    qed
    then show "prx_ok lib S P p e'" "prx_quiet e e'" by blast+
  qed
qed

text \<open>What an operation hands over: nothing, or the SDUs of a window up to the new \<open>RX_DELIV\<close>.\<close>

definition prx_emits :: "(u32 \<Rightarrow> bytes \<Rightarrow> bool) \<Rightarrow> pdcp_entity_rx \<Rightarrow> pdcp_entity_rx \<Rightarrow> pdcp_rx_event list \<Rightarrow> bool" where
  "prx_emits Q e e' evs \<longleftrightarrow> prx_d e \<le> prx_d e' \<and> (sdu_counts evs = [] \<or>
     (\<exists>w. evs = deliver_events w (prx_d e) (prx_d e') \<and> (\<forall>k i. cm_get w k = Some i \<longrightarrow> Q k (rsi_buf i))))"

lemma prx_emits_trace:
  assumes "trace_ok Q evs" "trace_below (prx_d e) evs" "prx_emits Q e e' evs'"
  shows "trace_ok Q (evs @ evs')" "trace_below (prx_d e') (evs @ evs')"
proof -
  have d: "prx_d e \<le> prx_d e'" using assms(3) by (simp add: prx_emits_def)
  have "trace_ok Q (evs @ evs') \<and> trace_below (prx_d e') (evs @ evs')"
  proof (cases "sdu_counts evs' = []")
    case True
    then show ?thesis using trace_silent [OF assms(1,2) True d] by blast
  next
    case False
    then obtain w where "evs' = deliver_events w (prx_d e) (prx_d e')" "\<And>k i. cm_get w k = Some i \<Longrightarrow> Q k (rsi_buf i)"
      using assms(3) by (auto simp: prx_emits_def)
    then show ?thesis using trace_deliver [OF assms(1,2) d, of w] by simp
  qed
  then show "trace_ok Q (evs @ evs')" "trace_below (prx_d e') (evs @ evs')" by blast+
qed

lemma prx_quiet_emits: "prx_quiet e e' \<Longrightarrow> sdu_counts evs = [] \<Longrightarrow> prx_emits Q e e' evs"
  by (simp add: prx_quiet_def prx_emits_def)

lemma stored_window_get:
  assumes "prx_core e" "prx_d e \<le> c" "uint c < uint (prx_d e) + prx_W e"
  shows "cm_get (stored_window c buf e) = (cm_get (prx_window e))(c \<mapsto> \<lparr>rsi_buf = buf, rsi_count = c\<rparr>)"
  using near_window_put [OF prx_coreD(1) [OF assms(1)], of c] assms(2,3) by (simp add: stored_window_def word_le_def)

lemma prx_contents_rest:
  assumes "prx_contents lib S P e" "prx_rest e e'"
    "\<And>k i. cm_get (prx_window e') k = Some i \<Longrightarrow> sdu_from lib S P (prx_cfg e) k (rsi_buf i)"
  shows "prx_contents lib S P e'"
  using assms by (simp add: prx_contents_def prx_rest_def)

lemma prx_rest_tokens: "prx_rest e e' \<Longrightarrow> tokens_ok p e' = tokens_ok p e"
  by (simp add: tokens_ok_def prx_tasks_def prx_rest_def)

definition prx_same :: "pdcp_entity_rx \<Rightarrow> pdcp_entity_rx \<Rightarrow> bool" where
  "prx_same e e' \<longleftrightarrow> prx_cfg e' = prx_cfg e \<and> prx_stopped e' = prx_stopped e \<and> prx_buffering e' = prx_buffering e"

lemma prx_rest_same: "prx_rest e e' \<Longrightarrow> prx_same e e'"
  by (simp add: prx_rest_def prx_same_def)

lemma prx_quiet_same: "prx_quiet e e' \<Longrightarrow> prx_same e e'"
  by (simp add: prx_quiet_def prx_same_def)

lemma run_ue_task_ok:
  assumes ok: "prx_ok lib S P p e" and split: "prx_ue_tasks e = as @ t # bs"
  obtains e' evs where "run_ue_task t (e\<lparr>prx_ue_tasks := as @ bs\<rparr>) = Some (e', evs)" "prx_ok lib S P p e'" "prx_same e e'"
    "prx_emits (sdu_from lib S P (prx_cfg e)) e e' evs"
proof -
  let ?e0 = "e\<lparr>prx_ue_tasks := as @ bs\<rparr>"
  note result = that
  note o = prx_okD [OF ok]
  note i = prx_invD [OF o(1)]
  have t: "t \<in> set (prx_ue_tasks e)" and sub: "set (as @ bs) \<subseteq> set (prx_ue_tasks e)" by (auto simp: split)
  have tk: "prx_token_mngr ?e0 = prx_token_mngr e" "prx_tasks e = Suc (prx_tasks ?e0)" by (simp_all add: prx_tasks_def split)
  have "prx_inv (e\<lparr>prx_crypto_tasks := prx_crypto_tasks e, prx_ue_tasks := as @ bs\<rparr>)"
    "prx_contents lib S P (e\<lparr>prx_crypto_tasks := prx_crypto_tasks e, prx_ue_tasks := as @ bs\<rparr>)"
    by (rule prx_ok_tasks [OF ok order_refl]; use sub in blast)+
  then have inv0: "prx_inv ?e0" "prx_contents lib S P ?e0" by simp_all
  have finish: thesis if e1: "prx_inv e1" "prx_contents lib S P e1" "prx_rest ?e0 e1"
      "prx_emits (sdu_from lib S P (prx_cfg e)) ?e0 e1 evs"
      "run_ue_task t ?e0 = map_option (\<lambda>e. (e, evs)) (return_rx_token e1)" for e1 evs
  proof -
    have tk1: "prx_token_mngr e1 = prx_token_mngr e" "prx_tasks e = Suc (prx_tasks e1)"
      using e1(3) tk by (simp_all add: prx_rest_def prx_tasks_def)
    obtain f where f: "return_rx_token e1 = Some f" "f = e1\<lparr>prx_token_mngr := prx_token_mngr f\<rparr>" "tokens_ok p f"
      by (rule return_rx_token_ok [OF o(2) tk1])
    have r: "run_ue_task t ?e0 = Some (f, evs)" using e1(5) f(1) by simp
    have "prx_inv (e1\<lparr>prx_token_mngr := prx_token_mngr f\<rparr>)" "prx_contents lib S P (e1\<lparr>prx_token_mngr := prx_token_mngr f\<rparr>)"
      using e1(1,2) by (simp_all only: prx_inv_frame prx_contents_frame)
    then have "prx_ok lib S P p f" using f(2,3) by (simp add: prx_ok_def)
    moreover have "prx_same e f" by (subst f(2)) (use e1(3) in \<open>simp add: prx_same_def prx_rest_def\<close>)
    moreover have "prx_d f = prx_d e1" by (subst f(2)) simp
    then have "prx_emits (sdu_from lib S P (prx_cfg e)) e f evs" using e1(4) by (simp add: prx_emits_def)
    ultimately show thesis by (rule result [OF r])
  qed
  show thesis
  proof (cases t)
    case (task_failure err)
    show thesis
      by (rule finish [OF inv0 prx_rest_refl, of "[failure_event err]"])
        (simp_all add: task_failure prx_emits_def failure_event_def)
  next
    case (task_reordering info)
    have ti: "task_ok ?e0 info" using i(8) [of info] t task_reordering by (simp add: task_ok_def)
    have src: "sdu_from lib S P (prx_cfg e) (rpi_count info) (rpi_buf info)" using o(3) t task_reordering by (simp add: prx_contents_def)
    obtain e1 evs where e1: "apply_reordering_rx info ?e0 = Some (e1, evs)" "prx_inv e1" "prx_rest ?e0 e1"
      "reordering_effect info ?e0 e1 evs"
      by (rule apply_reordering_rx_ok [OF inv0(1) ti])
    let ?c = "rpi_count info" let ?w = "stored_window ?c (rpi_buf info) ?e0"
    have win: "sdu_from lib S P (prx_cfg e) k (rsi_buf j)" if "cm_get (prx_window e) k = Some j" for k j
      using o(3) that by (simp add: prx_contents_def)
    have both: "prx_contents lib S P e1 \<and> prx_emits (sdu_from lib S P (prx_cfg e)) ?e0 e1 evs"
    proof (cases "?c < prx_d ?e0 \<or> has_sn (prx_window ?e0) ?c")
      case True
      then show ?thesis using e1(4) inv0(2) by (simp add: reordering_effect_def prx_emits_def Let_def)
    next
      case False
      then have le: "prx_d ?e0 \<le> ?c" by auto
      have b: "uint ?c < uint (prx_d ?e0) + prx_W ?e0" using ti by (simp add: task_ok_def)
      note eff = e1(4) [unfolded reordering_effect_def Let_def if_not_P [OF False]]
      have w: "sdu_from lib S P (prx_cfg e) k (rsi_buf j)" if "cm_get ?w k = Some j" for k j
        using that src win [of k j] unfolding stored_window_get [OF prx_invD(1) [OF inv0(1)] le b] by (auto split: if_splits)
      have "sdu_from lib S P (prx_cfg ?e0) k (rsi_buf j)" if "cm_get (prx_window e1) k = Some j" for k j
        using that eff w [of k j] by (auto split: if_splits)
      then have "prx_contents lib S P e1" by (rule prx_contents_rest [OF inv0(2) e1(3)])
      then show ?thesis using eff w unfolding prx_emits_def by blast
    qed
    show thesis
      by (rule finish [OF e1(2) _ e1(3), of evs]) (use both e1(1) task_reordering in simp_all)
  qed
qed

lemma expiry_ok:
  assumes ok: "prx_ok lib S P p e" and run: "prx_reordering_timer e"
  obtains e' evs where "reordering_callback (e\<lparr>prx_reordering_timer := False\<rparr>) = Some (e', evs)" "prx_ok lib S P p e'" "prx_same e e'"
    "prx_emits (sdu_from lib S P (prx_cfg e)) e e' evs"
proof -
  note o = prx_okD [OF ok]
  obtain e' where e': "reordering_callback (e\<lparr>prx_reordering_timer := False\<rparr>) =
      Some (e', deliver_events (prx_window e) (prx_d e) (prx_d e'))" "prx_inv e'" "prx_rest e e'" "prx_d e \<le> prx_d e'"
    "\<And>k. cm_get (prx_window e') k = (if k < prx_d e' then None else cm_get (prx_window e) k)"
    using reordering_callback_ok [OF o(1) run] by metis
  have w: "sdu_from lib S P (prx_cfg e) k (rsi_buf j)" if "cm_get (prx_window e) k = Some j" for k j
    using o(3) that by (simp add: prx_contents_def)
  have "prx_contents lib S P e'"
    by (rule prx_contents_rest [OF o(3) e'(3)]) (use w e'(5) in \<open>auto split: if_splits\<close>)
  then have "prx_ok lib S P p e'" using e'(2,3) o(2) by (simp add: prx_ok_def prx_rest_tokens)
  moreover have "prx_emits (sdu_from lib S P (prx_cfg e)) e e' (deliver_events (prx_window e) (prx_d e) (prx_d e'))"
    using e'(4) w unfolding prx_emits_def by blast
  ultimately show thesis using that [OF e'(1)] prx_rest_same [OF e'(3)] by blast
qed

section \<open>Stopping, buffering and security\<close>

lemma prx_quiet_trans: "prx_quiet a b \<Longrightarrow> prx_quiet b c \<Longrightarrow> prx_quiet a c" by (simp add: prx_quiet_def)

lemma token_stop_ok:
  assumes "tokens_ok False e"
  shows "token_stop (prx_token_mngr e) =
    Some \<lparr>tm_pending_crypto = (True \<and> prx_tasks e = 0), tm_tokens = of_nat (prx_tasks e) - of_bool True\<rparr>"
proof (cases "prx_tasks e")
  case 0
  then show ?thesis using assms by (simp add: tokens_ok_def token_stop_def return_token_def)
next
  case (Suc n)
  then have "n \<le> 2 ^ 30" using assms by (simp add: tokens_ok_def)
  from return_token_ok [OF this, of False] assms Suc show ?thesis by (simp add: tokens_ok_def token_stop_def)
qed

lemma pdcp_rx_stop_ok:
  assumes ok: "prx_ok lib S P False e" and run: "\<not> prx_stopped e"
  obtains e' where "pdcp_rx_stop e = Some e'" "prx_ok lib S P True e'" "prx_stopped e'" "prx_st e' = prx_st e" "prx_cfg e' = prx_cfg e"
proof -
  note o = prx_okD [OF ok]
  define tm where "tm = \<lparr>tm_pending_crypto = (True \<and> prx_tasks e = 0), tm_tokens = of_nat (prx_tasks e) - of_bool True :: u32\<rparr>"
  let ?e = "e\<lparr>prx_stopped := True, prx_reordering_timer := False, prx_token_mngr := tm\<rparr>"
  have "prx_inv (e\<lparr>prx_stopped := True, prx_reordering_timer := False\<rparr>)"
    using o(1) by (simp add: prx_inv_defs split: pdcp_t_reordering.splits if_splits)
  then have "prx_inv ((e\<lparr>prx_stopped := True, prx_reordering_timer := False\<rparr>)\<lparr>prx_token_mngr := tm\<rparr>)" by (simp only: prx_inv_frame)
  moreover have "prx_contents lib S P ?e" using o(3) by (simp add: prx_contents_def)
  moreover have "tokens_ok True ?e" using o(2) by (simp add: tokens_ok_def prx_tasks_def tm_def)
  ultimately have "prx_ok lib S P True ?e" by (simp add: prx_ok_def)
  then show thesis
    by (intro that [of ?e]) (use run token_stop_ok [OF o(2)] in \<open>simp_all add: pdcp_rx_stop_def tm_def\<close>)
qed

lemma notify_stopped_ok:
  assumes ok: "prx_ok lib S P False e" and run: "\<not> prx_stopped e"
  obtains e' where "notify_pdu_processing_stopped e = Some e'" "prx_ok lib S P True e'" "prx_quiet e e'"
proof -
  note o = prx_okD [OF ok]
  define tm where "tm = \<lparr>tm_pending_crypto = (True \<and> prx_tasks e = 0), tm_tokens = of_nat (prx_tasks e) - of_bool True :: u32\<rparr>"
  have "tokens_ok True (e\<lparr>prx_token_mngr := tm\<rparr>)" using o(2) by (simp add: tokens_ok_def prx_tasks_def tm_def)
  then have "prx_ok lib S P True (e\<lparr>prx_token_mngr := tm\<rparr>)" using o by (simp add: prx_ok_def)
  then show thesis
    by (intro that [of "e\<lparr>prx_token_mngr := tm\<rparr>"])
      (use run token_stop_ok [OF o(2)] in \<open>simp_all add: notify_pdu_processing_stopped_def tm_def prx_quiet_def\<close>)
qed

lemma restart_ok:
  assumes ok: "prx_ok lib S P True e" and run: "\<not> prx_stopped e"
  shows "prx_ok lib S P False (restart_pdu_processing e)" "prx_quiet e (restart_pdu_processing e)"
proof -
  note o = prx_okD [OF ok]
  have "tokens_ok False (restart_pdu_processing e)"
    using o(2) run by (simp add: tokens_ok_def prx_tasks_def restart_pdu_processing_def token_start_def increment_token_def)
  then show "prx_ok lib S P False (restart_pdu_processing e)" using o run by (simp add: prx_ok_def restart_pdu_processing_def)
  show "prx_quiet e (restart_pdu_processing e)" by (simp add: restart_pdu_processing_def prx_quiet_def)
qed

lemma flush_ok:
  assumes "prx_ok lib S P p e" "set bufs \<subseteq> P" "prx_tasks e + length bufs \<le> 2 ^ 30" "p \<Longrightarrow> prx_stopped e"
  shows "\<exists>e' evs. flush_pdu_buffer oks bufs e = Some (e', evs) \<and> prx_ok lib S P p e' \<and> prx_quiet e e' \<and> sdu_counts evs = []"
  using assms
proof (induction oks bufs e rule: flush_pdu_buffer.induct)
  case (2 oks buf bufs e)
  obtain copy_ok crypto_ok where f: "(case oks of [] \<Rightarrow> (True, True) | ok # _ \<Rightarrow> ok) = (copy_ok, crypto_ok)"
    by (cases "case oks of [] \<Rightarrow> (True, True) | ok # _ \<Rightarrow> ok")
  let ?e = "e\<lparr>prx_pdu_buffer := bufs\<rparr>"
  have ok: "prx_ok lib S P p ?e" by (rule prx_ok_buffer [OF "2.prems"(1)]) (use "2.prems"(2) in simp)
  have tk: "prx_tasks ?e = prx_tasks e" by (simp add: prx_tasks_def)
  have "buf \<in> P" "prx_tasks ?e < 2 ^ 30" "p \<Longrightarrow> prx_stopped ?e \<or> prx_buffering ?e" using "2.prems"(2-4) tk by simp_all
  from handle_pdu_ok [OF ok this] obtain e1 evs1 where h: "pdcp_rx_handle_pdu copy_ok crypto_ok buf ?e = Some (e1, evs1)"
    "prx_ok lib S P p e1" "prx_quiet ?e e1" "sdu_counts evs1 = []" "prx_tasks e1 \<le> Suc (prx_tasks ?e)" by blast
  have q: "prx_quiet e e1" using h(3) by (simp add: prx_quiet_def)
  have "prx_tasks e1 + length bufs \<le> 2 ^ 30" "set bufs \<subseteq> P" "p \<Longrightarrow> prx_stopped e1"
    using h(5) tk "2.prems" q by (simp_all add: prx_quiet_def)
  from "2.IH" [OF f [symmetric] refl h(1) refl h(2) this(2,1,3)] obtain e2 evs2 where
    "flush_pdu_buffer (tl oks) bufs e1 = Some (e2, evs2)" "prx_ok lib S P p e2" "prx_quiet e1 e2" "sdu_counts evs2 = []" by blast
  then show ?case using f h prx_quiet_trans [OF q] by (auto simp: Let_def)
qed simp

lemma end_buffering_ok:
  assumes ok: "prx_ok lib S P p e" and t: "prx_tasks e + length (prx_pdu_buffer e) \<le> 2 ^ 30" and p: "p \<Longrightarrow> prx_stopped e"
  obtains e' evs where "end_buffering oks e = Some (e', evs)" "prx_ok lib S P p e'" "prx_st e' = prx_st e" "prx_cfg e' = prx_cfg e"
    "prx_stopped e' = prx_stopped e" "sdu_counts evs = []"
proof -
  have "set (prx_pdu_buffer e) \<subseteq> P" using prx_okD(3) [OF ok] by (simp add: prx_contents_def)
  moreover have "prx_tasks (e\<lparr>prx_buffering := False\<rparr>) = prx_tasks e" by (simp add: prx_tasks_def)
  ultimately show thesis
    using flush_ok [of lib S P p "e\<lparr>prx_buffering := False\<rparr>" "prx_pdu_buffer e" oks] ok t p that
    by (auto simp: end_buffering_def prx_quiet_def)
qed

lemma configure_security_ok:
  assumes ok: "prx_ok lib S P p e" and run: "pdcp_rx_configure_security lib' cfg i c e = Some e'" and S: "set (prx_sec_engine_pool e') \<subseteq> S"
  shows "prx_ok lib S P p e'" "prx_quiet e e'"
proof -
  note o = prx_okD [OF ok]
  have "e' = e \<or> (\<exists>g. e' = e\<lparr>prx_integrity_enabled := i, prx_ciphering_enabled := c,
      prx_sec_engine_pool := replicate (prx_max_nof_crypto_workers e) g\<rparr>)"
    using run by (auto simp: pdcp_rx_configure_security_def Let_def split: if_splits option.splits)
  then consider "e' = e" | g where "e' = e\<lparr>prx_integrity_enabled := i, prx_ciphering_enabled := c,
      prx_sec_engine_pool := replicate (prx_max_nof_crypto_workers e) g\<rparr>" by blast
  then have "prx_ok lib S P p e' \<and> prx_quiet e e'"
  proof cases
    case 1
    then show ?thesis using ok by simp
  next
    case (2 g)
    have "prx_contents lib S P e'" using o(3) S unfolding 2 by (simp add: prx_contents_def)
    then show ?thesis using o(1,2) unfolding 2 by (simp add: prx_ok_def prx_quiet_def)
  qed
  then show "prx_ok lib S P p e'" "prx_quiet e e'" by blast+
qed

end
