(* ===== verification/Pdcp_Tx_Inv.thy ===== *)
theory Pdcp_Tx_Inv
  imports Pdcp_Tx Pdcp_Rx_Steps
begin

text \<open>
  The invariant of the transmitting PDCP entity and the operations that only shrink its window: discards, status
  reports and notifications.
\<close>

section \<open>The invariant\<close>

abbreviation tx_pn :: "pdcp_entity_tx \<Rightarrow> u32" where "tx_pn e \<equiv> ptx_next (ptx_st e)"
abbreviation tx_pc :: "pdcp_entity_tx \<Rightarrow> u32" where "tx_pc e \<equiv> ptx_trans_crypto (ptx_st e)"
abbreviation tx_pr :: "pdcp_entity_tx \<Rightarrow> u32" where "tx_pr e \<equiv> ptx_reord_crypto (ptx_st e)"
abbreviation tx_pt :: "pdcp_entity_tx \<Rightarrow> u32" where "tx_pt e \<equiv> ptx_trans (ptx_st e)"
abbreviation tx_pa :: "pdcp_entity_tx \<Rightarrow> u32" where "tx_pa e \<equiv> ptx_next_ack (ptx_st e)"
abbreviation tx_W :: "pdcp_entity_tx \<Rightarrow> int" where "tx_W e \<equiv> pdcp_win (ptx_sn_size (ptx_cfg e))"
abbreviation tx_get :: "pdcp_entity_tx \<Rightarrow> u32 \<Rightarrow> pdcp_tx_window_element option" where "tx_get e \<equiv> cm_get (tw_map (ptx_window e))"

text \<open>SDUs have a tick of arrival exactly when the discard timer is finite.\<close>

definition ticks_ok :: "pdcp_tx_config \<Rightarrow> pdcp_tx_window_element \<Rightarrow> bool" where
  "ticks_ok cfg elem \<longleftrightarrow> (twe_tick_point_of_arrival elem \<noteq> None \<longleftrightarrow> (\<exists>ms. ptx_discard_timer cfg = Some (discard_timer_ms ms)))"

definition ptx_core :: "pdcp_entity_tx \<Rightarrow> bool" where
  "ptx_core e \<longleftrightarrow>
     near_window (tw_map (ptx_window e)) (uint (tx_pa e)) (tx_W e) \<and>
     tw_totals (ptx_window e) \<and>
     (\<forall>k elem. tx_get e k = Some elem \<longrightarrow> k < tx_pn e \<and> twe_count elem = k \<and> ticks_ok (ptx_cfg e) elem) \<and>
     tx_pa e \<le> tx_pn e \<and> uint (tx_pn e) \<le> uint (tx_pa e) + tx_W e \<and> tx_pc e \<le> tx_pn e \<and>
     tx_pa e \<le> tx_pt e \<and> (tx_pt e \<le> tx_pc e \<or> tx_pt e = tx_pa e) \<and>
     ptx_sn_size (ptx_cfg e) \<noteq> pdcp_size_invalid \<and> uint (ptx_window_size e) = tx_W e \<and>
     (ptx_is_srb e \<longrightarrow> ptx_sn_size (ptx_cfg e) = pdcp_size12bits) \<and> \<not> ptx_test_mode (ptx_cfg e)"

definition tx_reord_ok :: "pdcp_entity_tx \<Rightarrow> bool" where
  "tx_reord_ok e \<longleftrightarrow> (ptx_crypto_reordering_timer e \<longrightarrow> tx_pc e \<le> tx_pr e \<and> tx_pr e \<le> tx_pn e)"

text \<open>Every SDU that waits for its PDU is in the window.\<close>

definition ptx_whole :: "pdcp_entity_tx \<Rightarrow> bool" where
  "ptx_whole e \<longleftrightarrow> (\<forall>k. tx_pc e \<le> k \<longrightarrow> k < tx_pn e \<longrightarrow> tx_get e k \<noteq> None)"

lemma ptx_coreD:
  assumes "ptx_core e"
  shows "near_window (tw_map (ptx_window e)) (uint (tx_pa e)) (tx_W e)" "tx_pa e \<le> tx_pn e"
    "tx_get e k = Some elem \<Longrightarrow> tx_pa e \<le> k" "tx_get e k = Some elem \<Longrightarrow> k < tx_pn e" "tx_get e k = Some elem \<Longrightarrow> twe_count elem = k"
    "tx_get e k = Some elem \<Longrightarrow> ticks_ok (ptx_cfg e) elem" "uint (tx_pn e) \<le> uint (tx_pa e) + tx_W e" "tx_pc e \<le> tx_pn e"
    "tx_pa e \<le> tx_pt e" "tx_pt e \<le> tx_pc e \<or> tx_pt e = tx_pa e"
    "tw_totals (ptx_window e)" "ptx_sn_size (ptx_cfg e) \<noteq> pdcp_size_invalid" "uint (ptx_window_size e) = tx_W e"
    "ptx_is_srb e \<Longrightarrow> ptx_sn_size (ptx_cfg e) = pdcp_size12bits" "\<not> ptx_test_mode (ptx_cfg e)"
  using assms near_windowD(3) [of "tw_map (ptx_window e)" "uint (tx_pa e)" "tx_W e" k]
  by (auto simp: ptx_core_def word_le_def)

text \<open>
  What acknowledgements and discards do: SDUs leave the window from below or from the middle, TX_NEXT_ACK and TX_TRANS
  move up, the discard timer is set.
\<close>

definition ptx_set :: "pdcp_entity_tx \<Rightarrow> pdcp_tx_window \<Rightarrow> u32 \<Rightarrow> u32 \<Rightarrow> u32 option \<Rightarrow> pdcp_entity_tx" where
  "ptx_set e w t a d = e\<lparr>ptx_window := w, ptx_st := (ptx_st e)\<lparr>ptx_trans := t, ptx_next_ack := a\<rparr>, ptx_disc_timer := d\<rparr>"

lemma ptx_set_simps [simp]:
  "ptx_window (ptx_set e w t a d) = w" "tx_pt (ptx_set e w t a d) = t" "tx_pa (ptx_set e w t a d) = a"
  "ptx_disc_timer (ptx_set e w t a d) = d" "tx_pn (ptx_set e w t a d) = tx_pn e" "tx_pc (ptx_set e w t a d) = tx_pc e"
  "tx_pr (ptx_set e w t a d) = tx_pr e" "ptx_cfg (ptx_set e w t a d) = ptx_cfg e" "ptx_window_size (ptx_set e w t a d) = ptx_window_size e"
  "ptx_crypto_reordering_timer (ptx_set e w t a d) = ptx_crypto_reordering_timer e" "ptx_stopped (ptx_set e w t a d) = ptx_stopped e"
  "ptx_crypto_tasks (ptx_set e w t a d) = ptx_crypto_tasks e" "ptx_ue_tasks (ptx_set e w t a d) = ptx_ue_tasks e"
  "ptx_token_mngr (ptx_set e w t a d) = ptx_token_mngr e" "ptx_sec_engine_pool (ptx_set e w t a d) = ptx_sec_engine_pool e"
  "ptx_max_nof_crypto_workers (ptx_set e w t a d) = ptx_max_nof_crypto_workers e" "ptx_sdu_buffer (ptx_set e w t a d) = ptx_sdu_buffer e"
  "ptx_retransmit_id (ptx_set e w t a d) = ptx_retransmit_id e" "ptx_buffering (ptx_set e w t a d) = ptx_buffering e"
  "ptx_set (ptx_set e w t a d) w' t' a' d' = ptx_set e w' t' a' d'"
  by (simp_all add: ptx_set_def)

lemma ptx_set_self: "ptx_set e (ptx_window e) (tx_pt e) (tx_pa e) (ptx_disc_timer e) = e"
  by (simp add: ptx_set_def)

definition ptx_shrunk :: "pdcp_entity_tx \<Rightarrow> pdcp_entity_tx \<Rightarrow> bool" where
  "ptx_shrunk e e' \<longleftrightarrow>
     e' = ptx_set e (ptx_window e') (tx_pt e') (tx_pa e') (ptx_disc_timer e') \<and>
     tw_totals (ptx_window e') \<and> cm_wf (tw_map (ptx_window e')) \<and> cm_max_size (tw_map (ptx_window e')) = cm_max_size (tw_map (ptx_window e)) \<and>
     (\<forall>k elem. tx_get e' k = Some elem \<longrightarrow> tx_get e k = Some elem \<and> tx_pa e' \<le> k) \<and>
     tx_pa e \<le> tx_pa e' \<and> tx_pa e' \<le> tx_pn e \<and> tx_pa e' \<le> tx_pt e' \<and> (tx_pt e' \<le> tx_pc e \<or> tx_pt e' = tx_pa e')"

lemma ptx_shrunkD:
  assumes "ptx_shrunk e e'"
  shows "e' = ptx_set e (ptx_window e') (tx_pt e') (tx_pa e') (ptx_disc_timer e')" "cm_wf (tw_map (ptx_window e'))"
    "cm_max_size (tw_map (ptx_window e')) = cm_max_size (tw_map (ptx_window e))"
    "tx_get e' k = Some elem \<Longrightarrow> tx_get e k = Some elem" "tx_get e' k = Some elem \<Longrightarrow> tx_pa e' \<le> k"
    "tx_pa e \<le> tx_pa e'" "tx_pa e' \<le> tx_pn e" "tx_pa e' \<le> tx_pt e'" "tx_pt e' \<le> tx_pc e \<or> tx_pt e' = tx_pa e'"
    "tw_totals (ptx_window e')"
  using assms by (simp_all add: ptx_shrunk_def)

lemma ptx_shrunk_fields:
  assumes "ptx_shrunk e e'"
  shows "tx_pn e' = tx_pn e" "tx_pc e' = tx_pc e" "tx_pr e' = tx_pr e" "ptx_cfg e' = ptx_cfg e" "ptx_window_size e' = ptx_window_size e"
    "ptx_crypto_reordering_timer e' = ptx_crypto_reordering_timer e" "ptx_stopped e' = ptx_stopped e"
    "ptx_crypto_tasks e' = ptx_crypto_tasks e" "ptx_ue_tasks e' = ptx_ue_tasks e" "ptx_token_mngr e' = ptx_token_mngr e"
    "ptx_sec_engine_pool e' = ptx_sec_engine_pool e" "ptx_max_nof_crypto_workers e' = ptx_max_nof_crypto_workers e"
    "ptx_sdu_buffer e' = ptx_sdu_buffer e" "ptx_retransmit_id e' = ptx_retransmit_id e" "ptx_buffering e' = ptx_buffering e"
  by (subst ptx_shrunkD(1) [OF assms], simp)+

lemma ptx_shrunkI:
  assumes "tw_totals w" "cm_wf (tw_map w)" "cm_max_size (tw_map w) = cm_max_size (tw_map (ptx_window e))"
    "\<And>k elem. tw_get w k = Some elem \<Longrightarrow> tx_get e k = Some elem" "\<And>k elem. tw_get w k = Some elem \<Longrightarrow> a \<le> k"
    "tx_pa e \<le> a" "a \<le> tx_pn e" "a \<le> t" "t \<le> tx_pc e \<or> t = a"
  shows "ptx_shrunk e (ptx_set e w t a d)"
  unfolding ptx_shrunk_def ptx_set_simps by (intro conjI allI impI assms refl)

lemma ptx_shrunk_refl:
  assumes "ptx_core e"
  shows "ptx_shrunk e e"
  using ptx_coreD(2,3,9,10,11) [OF assms] near_windowD(1) [OF ptx_coreD(1) [OF assms]]
  by (simp add: ptx_shrunk_def ptx_set_self)

lemma ptx_shrunk_trans:
  assumes "ptx_shrunk a b" "ptx_shrunk b c"
  shows "ptx_shrunk a c"
proof -
  note ab = ptx_shrunkD [OF assms(1)] and bc = ptx_shrunkD [OF assms(2)] and f = ptx_shrunk_fields [OF assms(1)]
  have "c = ptx_set b (ptx_window c) (tx_pt c) (tx_pa c) (ptx_disc_timer c)" by (rule bc(1))
  also have "\<dots> = ptx_set (ptx_set a (ptx_window b) (tx_pt b) (tx_pa b) (ptx_disc_timer b)) (ptx_window c) (tx_pt c) (tx_pa c) (ptx_disc_timer c)"
    by (subst ab(1)) (rule refl)
  finally have "c = ptx_set a (ptx_window c) (tx_pt c) (tx_pa c) (ptx_disc_timer c)" by simp
  moreover have "tx_get c k = Some elem \<Longrightarrow> tx_get a k = Some elem" for k elem using ab(4) bc(4) by blast
  ultimately show ?thesis
    using bc ab(3) order_trans [OF ab(6) bc(6)] f unfolding ptx_shrunk_def by (intro conjI) simp_all
qed

lemma ptx_shrunk_core:
  assumes "ptx_core e" "ptx_shrunk e e'"
  shows "ptx_core e'"
proof -
  note c = ptx_coreD [OF assms(1)] and s = ptx_shrunkD [OF assms(2)] and f = ptx_shrunk_fields [OF assms(2)]
  have near: "near_window (tw_map (ptx_window e')) (uint (tx_pa e')) (tx_W e)"
  proof (rule near_windowI)
    show "cm_wf (tw_map (ptx_window e'))" "uint (cm_max_size (tw_map (ptx_window e'))) = tx_W e"
      using s(2,3) near_windowD(2) [OF c(1)] by simp_all
    fix k assume "tx_get e' k \<noteq> None"
    then obtain elem where g: "tx_get e' k = Some elem" by blast
    then have g0: "tx_get e k = Some elem" by (rule s(4))
    show "uint (tx_pa e') \<le> uint k" using s(5) [OF g] by (simp add: word_le_def)
    have "uint k < uint (tx_pa e) + tx_W e" by (rule near_windowD(4) [OF c(1)]) (simp add: g0)
    then show "uint k < uint (tx_pa e') + tx_W e" using s(6) by (simp add: word_le_def)
  qed
  have "uint (tx_pn e) \<le> uint (tx_pa e') + tx_W e" using c(7) s(6) by (simp add: word_le_def)
  then show ?thesis
    using assms(1) near s c unfolding ptx_core_def f by blast
qed

section \<open>Discards\<close>

lemma advance_unfold:
  "advance_next_ack e =
    (if tx_pa e < tx_pn e \<and> \<not> tw_has_sn (ptx_window e) (tx_pa e)
     then advance_next_ack (e\<lparr>ptx_st := (ptx_st e)\<lparr>ptx_next_ack := tx_pa e + 1\<rparr>\<rparr>) else e)"
  by (subst advance_next_ack.simps) (simp add: Let_def)

lemma advance_ok:
  assumes "tx_pa e \<le> tx_pn e"
  shows "advance_next_ack e = e\<lparr>ptx_st := (ptx_st e)\<lparr>ptx_next_ack := tx_pa (advance_next_ack e)\<rparr>\<rparr> \<and>
    tx_pa e \<le> tx_pa (advance_next_ack e) \<and> tx_pa (advance_next_ack e) \<le> tx_pn e \<and>
    (\<forall>k. tx_pa e \<le> k \<longrightarrow> k < tx_pa (advance_next_ack e) \<longrightarrow> \<not> tw_has_sn (ptx_window e) k) \<and>
    (tx_pa (advance_next_ack e) = tx_pn e \<or> tw_has_sn (ptx_window e) (tx_pa (advance_next_ack e)))"
  using assms
proof (induction e rule: advance_next_ack.induct)
  case (1 e)
  show ?case
  proof (cases "tx_pa e < tx_pn e \<and> \<not> tw_has_sn (ptx_window e) (tx_pa e)")
    case True
    define e1 where "e1 = e\<lparr>ptx_st := (ptx_st e)\<lparr>ptx_next_ack := tx_pa e + 1\<rparr>\<rparr>"
    have s: "tx_pa e + 1 \<le> tx_pn e" "tx_pa e \<le> k \<longleftrightarrow> k = tx_pa e \<or> tx_pa e + 1 \<le> k" "tx_pa e \<le> tx_pa e + 1" for k
      using count_step(1,3) [of "tx_pa e" "tx_pn e"] True by (auto simp: word_le_def word_uint_eq_iff)
    have r: "advance_next_ack e = advance_next_ack e1" unfolding e1_def by (subst advance_unfold) (simp only: if_P [OF True])
    note ih = "1.IH" [OF refl True, folded e1_def]
    have "tx_pa e1 \<le> tx_pn e1" using s(1) by (simp add: e1_def)
    from ih [OF this] show ?thesis unfolding r using s True by (auto simp: e1_def intro: order_trans)
  next
    case False
    then have "advance_next_ack e = e" by (subst advance_unfold) (simp only: if_False refl)
    then show ?thesis using False "1.prems" by auto
  qed
qed

lemma discard_pdu_ok:
  assumes core: "ptx_core e"
  shows "ptx_shrunk e (fst (discard_pdu c e))" "\<forall>ev \<in> set (snd (discard_pdu c e)). \<exists>sn. ev = tx_on_discard_pdu sn"
proof -
  note k = ptx_coreD [OF core]
  show "ptx_shrunk e (fst (discard_pdu c e))"
  proof (cases "ptx_discard_timer (ptx_cfg e) = None \<or> c < tx_pa e \<or> c \<ge> tx_pn e \<or> \<not> tw_has_sn (ptx_window e) c")
    case True
    then have "fst (discard_pdu c e) = e" by (auto simp: discard_pdu_def)
    then show ?thesis using ptx_shrunk_refl [OF core] by simp
  next
    case False
    define e1 where "e1 = e\<lparr>ptx_window := tw_remove_sdu c (ptx_window e)\<rparr>"
    define a where "a = tx_pa (advance_next_ack e1)"
    have "tx_pa e1 \<le> tx_pn e1" using k(2) by (simp add: e1_def)
    note adv = advance_ok [OF this, folded a_def]
    define e2 where "e2 = ptx_set e (tw_remove_sdu c (ptx_window e)) (max (tx_pt e) a) a (ptx_disc_timer e)"
    have "advance_next_ack e1 = e1\<lparr>ptx_st := (ptx_st e1)\<lparr>ptx_next_ack := a\<rparr>\<rparr>" using adv by blast
    then have r: "fst (discard_pdu c e) = e2"
      using False by (auto simp: discard_pdu_def Let_def e1_def e2_def ptx_set_def)
    have keys: "tx_get e k = Some elem \<and> a \<le> k" if g: "tx_get e2 k = Some elem" for k elem
    proof -
      have g0: "tx_get e k = Some elem" "k \<noteq> c" using g by (auto simp: e2_def tw_get_remove split: if_splits)
      have "tw_has_sn (ptx_window e1) k" using g0 by (simp add: e1_def cm_contains_get tw_get_remove)
      moreover have "tx_pa e1 \<le> k" using k(3) [OF g0(1)] by (simp add: e1_def)
      ultimately have "\<not> k < a" using adv by blast
      then show ?thesis using g0 by simp
    qed
    have "tx_pa e \<le> a" "a \<le> tx_pn e" using adv by (simp_all add: e1_def)
    moreover have "max (tx_pt e) a \<le> tx_pc e \<or> max (tx_pt e) a = a"
      using k(9,10) \<open>tx_pa e \<le> a\<close> by (auto simp: max_def)
    ultimately show ?thesis unfolding r ptx_shrunk_def
      using keys near_windowD(1) [OF k(1)] totals_remove [OF k(11)] by (simp add: e2_def tw_remove_wf)
  qed
  show "\<forall>ev \<in> set (snd (discard_pdu c e)). \<exists>sn. ev = tx_on_discard_pdu sn" by (simp add: discard_pdu_def Let_def)
qed

section \<open>Acknowledgements\<close>

lemma ptx_set_alt:
  "e\<lparr>ptx_window := w, ptx_st := (ptx_st e)\<lparr>ptx_next_ack := a, ptx_trans := t\<rparr>, ptx_disc_timer := d\<rparr> = ptx_set e w t a d"
proof -
  have "s\<lparr>ptx_next_ack := a, ptx_trans := t\<rparr> = s\<lparr>ptx_trans := t, ptx_next_ack := a\<rparr>" for s :: pdcp_tx_state by simp
  then show ?thesis by (simp add: ptx_set_def)
qed

definition stop_one :: "u32 \<Rightarrow> pdcp_entity_tx \<Rightarrow> pdcp_entity_tx" where
  "stop_one c e = e\<lparr>ptx_window := tw_remove_sdu c (ptx_window e), ptx_st := (ptx_st e)\<lparr>ptx_next_ack := c + 1\<rparr>\<rparr>"

lemma stop_discard_loop_eq: "stop_discard_loop h e = fold stop_one (count_range (tx_pa e) (h + 1)) e"
proof -
  have "(\<lambda>c e. e\<lparr>ptx_window := (if tw_has_sn (ptx_window e) c then tw_remove_sdu c (ptx_window e) else ptx_window e),
      ptx_st := (ptx_st e)\<lparr>ptx_next_ack := c + 1\<rparr>\<rparr>) = stop_one"
    by (auto simp: stop_one_def fun_eq_iff tw_remove_sdu_def cm_contains_get split: option.splits)
  then show ?thesis by (simp only: stop_discard_loop_def)
qed

lemma stop_fold_ok:
  assumes "cm_wf (tw_map (ptx_window e))" "tw_totals (ptx_window e)" "b \<le> n" "tx_pa e = b"
  shows "\<exists>w. fold stop_one (count_range b n) e = ptx_set e w (tx_pt e) n (ptx_disc_timer e) \<and> tw_totals w \<and> cm_wf (tw_map w) \<and>
    cm_max_size (tw_map w) = cm_max_size (tw_map (ptx_window e)) \<and> (\<forall>k. tw_get w k = (if b \<le> k \<and> k < n then None else tx_get e k))"
  using assms
proof (induction "unat n - unat b" arbitrary: b e)
  case 0
  then have "n = b" by (simp add: word_le_nat_alt word_unat_eq_iff)
  then show ?case using 0 ptx_set_self [of e] by (intro exI [of _ "ptx_window e"]) (auto simp: count_range_def)
next
  case (Suc m)
  then have b: "b < n" by (simp add: word_less_nat_alt)
  have u: "int (unat (b + 1)) = int (unat b) + 1" using count_step(1) [OF b] by simp
  have le: "b + 1 \<le> n" and eq: "b \<le> k \<longleftrightarrow> k = b \<or> b + 1 \<le> k" for k
    using count_step(1) [OF b] b by (auto simp: word_le_def word_less_def word_uint_eq_iff)
  let ?e = "stop_one b e"
  have m: "m = unat n - unat (b + 1)" using u Suc(2) by linarith
  have "cm_wf (tw_map (ptx_window ?e))" "tw_totals (ptx_window ?e)" "tx_pa ?e = b + 1"
    using Suc(3,4) by (simp_all add: stop_one_def tw_remove_wf totals_remove)
  from Suc(1) [OF m this(1,2) le this(3)] obtain w where w: "fold stop_one (count_range (b + 1) n) ?e = ptx_set ?e w (tx_pt ?e) n (ptx_disc_timer ?e)"
    "tw_totals w" "cm_wf (tw_map w)" "cm_max_size (tw_map w) = cm_max_size (tw_map (ptx_window ?e))"
    "\<And>k. tw_get w k = (if b + 1 \<le> k \<and> k < n then None else tx_get ?e k)" by blast
  have "fold stop_one (count_range b n) e = ptx_set e w (tx_pt e) n (ptx_disc_timer e)"
    using b w(1) by (simp add: count_range_step [of b]) (simp add: stop_one_def ptx_set_def)
  moreover have "tw_get w k = (if b \<le> k \<and> k < n then None else tx_get e k)" for k
    unfolding w(5) using b eq [of k] by (auto simp: stop_one_def tw_get_remove)
  ultimately show ?case using w(2-4) by (intro exI [of _ w]) (simp add: stop_one_def tw_remove_wf)
qed

lemma count_succ: "(c :: u32) < n \<Longrightarrow> k < c + 1 \<longleftrightarrow> k \<le> c" "(c :: u32) < n \<Longrightarrow> c + 1 \<le> n" "(c :: u32) < n \<Longrightarrow> c < c + 1"
  using count_step(1) [of c n] by (auto simp: word_le_def word_less_def)

text \<open>The acknowledged SDUs leave the window; the code then reads the oldest SDU that is left for its tick of arrival.\<close>

lemma stop_discard_timer_ok:
  assumes core: "ptx_core e" and run: "stop_discard_timer now h e = Some e'"
  shows "ptx_shrunk e e'" "\<And>k. h < k \<Longrightarrow> tx_get e' k = tx_get e k" "tx_pa e' \<le> max (tx_pa e) (h + 1)"
proof -
  note k = ptx_coreD [OF core]
  have r0: "ptx_shrunk e e' \<and> (\<forall>k. h < k \<longrightarrow> tx_get e' k = tx_get e k) \<and> tx_pa e' \<le> max (tx_pa e) (h + 1)"
  proof (cases "e' = e")
    case True
    then show ?thesis using ptx_shrunk_refl [OF core] by simp
  next
    case False
    then have c: "ptx_discard_timer (ptx_cfg e) \<noteq> None" "\<not> h < tx_pa e" "\<not> tx_pn e \<le> h"
      using run by (auto simp: stop_discard_timer_def Let_def split: option.splits if_splits)
    have h: "h < tx_pn e" using c(3) by simp
    note s = count_succ [OF h]
    have hn: "tx_pa e \<le> h + 1" "h + 1 \<le> tx_pn e" using c s(2,3) by auto
    let ?e = "e\<lparr>ptx_disc_timer := None\<rparr>"
    obtain w where w: "stop_discard_loop h ?e = ptx_set ?e w (tx_pt ?e) (h + 1) None" "tw_totals w" "cm_wf (tw_map w)"
      "cm_max_size (tw_map w) = cm_max_size (tw_map (ptx_window e))"
      "\<And>k. tw_get w k = (if tx_pa e \<le> k \<and> k < h + 1 then None else tx_get e k)"
      using stop_fold_ok [of ?e "tx_pa e" "h + 1"] near_windowD(1) [OF k(1)] k(11) hn by (auto simp: stop_discard_loop_eq)
    obtain d where e': "e' = ptx_set e w (max (tx_pt e) (h + 1)) (h + 1) d"
    proof -
      have "\<exists>d. e' = e\<lparr>ptx_window := w, ptx_st := (ptx_st e)\<lparr>ptx_next_ack := h + 1, ptx_trans := max (tx_pt e) (h + 1)\<rparr>, ptx_disc_timer := d\<rparr>"
        using run c False unfolding stop_discard_timer_def w(1) Let_def
        by (auto simp: ptx_set_def split: option.splits if_splits pdcp_discard_timer.splits intro: exI [of _ None])
      then show thesis using that unfolding ptx_set_alt by blast
    qed
    have keys: "tx_get e k = Some elem \<and> h + 1 \<le> k" if g: "tw_get w k = Some elem" for k elem
    proof -
      have "tx_get e k = Some elem" "\<not> (tx_pa e \<le> k \<and> k < h + 1)" using g w(5) [of k] by (auto split: if_splits)
      then show ?thesis using k(3) [of k elem] by auto
    qed
    have "max (tx_pt e) (h + 1) \<le> tx_pc e \<or> max (tx_pt e) (h + 1) = h + 1"
      using k(10) hn(1) s(2) by (auto simp: max_def)
    moreover have "\<forall>k. h < k \<longrightarrow> tx_get e' k = tx_get e k" unfolding e' using w(5) s(1) by auto
    moreover have "ptx_shrunk e (ptx_set e w (max (tx_pt e) (h + 1)) (h + 1) d)"
      by (rule ptx_shrunkI) (use calculation(1) w(2-4) hn keys in auto)
    ultimately show ?thesis unfolding e' by simp
  qed
  then show "ptx_shrunk e e'" "\<And>k. h < k \<Longrightarrow> tx_get e' k = tx_get e k" "tx_pa e' \<le> max (tx_pa e) (h + 1)" by blast+
qed

lemma stop_discard_timer_some:
  assumes core: "ptx_core e" and full: "\<And>k. tx_pa e \<le> k \<Longrightarrow> k < tx_pn e \<Longrightarrow> tx_get e k \<noteq> None"
  shows "stop_discard_timer now h e \<noteq> None"
proof (cases "ptx_discard_timer (ptx_cfg e) = None \<or> h < tx_pa e \<or> tx_pn e \<le> h \<or> \<not> tw_has_sn (ptx_window e) (tx_pa e)")
  case False
  note k = ptx_coreD [OF core]
  have h: "h < tx_pn e" "tx_pa e \<le> h" using False by auto
  note s = count_succ [OF h(1)]
  let ?e = "e\<lparr>ptx_disc_timer := None\<rparr>"
  have hn: "tx_pa e \<le> h + 1" using h s(3) by simp
  obtain w where w: "stop_discard_loop h ?e = ptx_set ?e w (tx_pt ?e) (h + 1) None"
    "\<And>k. tw_get w k = (if tx_pa e \<le> k \<and> k < h + 1 then None else tx_get e k)"
    using stop_fold_ok [of ?e "tx_pa e" "h + 1"] near_windowD(1) [OF k(1)] k(11) hn by (auto simp: stop_discard_loop_eq)
  have tick: "\<exists>elem t. tw_get w (h + 1) = Some elem \<and> twe_tick_point_of_arrival elem = Some t"
    if ms: "ptx_discard_timer (ptx_cfg e) = Some (discard_timer_ms ms)" and "h + 1 \<noteq> tx_pn e" for ms
  proof -
    have "h + 1 < tx_pn e" using s(2) that(2) by simp
    then obtain elem where e: "tx_get e (h + 1) = Some elem" using full [OF hn] by blast
    then have "tw_get w (h + 1) = Some elem" using w(2) by simp
    moreover have "twe_tick_point_of_arrival elem \<noteq> None" using k(6) [OF e] ms by (simp add: ticks_ok_def)
    ultimately show ?thesis by blast
  qed
  show ?thesis using False tick unfolding stop_discard_timer_def Let_def w(1)
    by (auto simp: ptx_set_def split: option.split pdcp_discard_timer.split)
qed (auto simp: stop_discard_timer_def Let_def split: option.split)

text \<open>What the notifications of the lower layers do.\<close>

definition transmitted :: "pdcp_entity_tx \<Rightarrow> u32 \<Rightarrow> pdcp_entity_tx" where
  "transmitted e h = ptx_set e (ptx_window e) (h + 1) (tx_pa e) (ptx_disc_timer e)"

lemma transmit_impl_eq:
  "handle_transmit_notification_impl now sn e =
     (let h = notification_count_estimation sn e in
      if sn \<ge> pcdp_sn_cardinality (pdcp_sn_size_to_uint (ptx_sn_size (ptx_cfg e))) \<or> h \<ge> tx_pc e \<or> h < tx_pt e \<or> h \<ge> tx_pn e then Some e
      else if ptx_discard_timer (ptx_cfg e) = None \<or> \<not> ptx_is_um e then Some (transmitted e h)
      else stop_discard_timer now h (transmitted e h))"
  by (simp add: handle_transmit_notification_impl_def Let_def transmitted_def ptx_set_def)

lemma transmitted_shrunk:
  assumes "ptx_core e" "h < tx_pc e" "tx_pt e \<le> h"
  shows "ptx_shrunk e (transmitted e h)"
proof -
  have le: "tx_pa e \<le> h + 1" "h + 1 \<le> tx_pc e" using count_succ(2,3) [OF assms(2)] assms(3) ptx_coreD(9) [OF assms(1)] by auto
  note k = ptx_coreD [OF assms(1)]
  show ?thesis unfolding transmitted_def
  proof (rule ptx_shrunkI)
    show "tw_totals (ptx_window e)" "cm_wf (tw_map (ptx_window e))" "tx_pa e \<le> tx_pn e" by (fact k(11) near_windowD(1) [OF k(1)] k(2))+
    show "tx_get e c = Some elem \<Longrightarrow> tx_pa e \<le> c" for c elem by (rule k(3))
    show "tx_pa e \<le> h + 1" "h + 1 \<le> tx_pc e \<or> h + 1 = tx_pa e" using le by blast+
  qed simp_all
qed

lemma transmit_impl_ok:
  assumes core: "ptx_core e" and run: "handle_transmit_notification_impl now sn e = Some e'"
  shows "ptx_shrunk e e'" "\<And>k. tx_pc e \<le> k \<Longrightarrow> tx_get e' k = tx_get e k" "tx_pa e' \<le> max (tx_pa e) (tx_pc e)"
proof -
  define h where "h = notification_count_estimation sn e"
  define e1 where "e1 = transmitted e h"
  have r: "e' = e \<or> (h < tx_pc e \<and> tx_pt e \<le> h \<and> (e' = e1 \<or> stop_discard_timer now h e1 = Some e'))"
    using run unfolding transmit_impl_eq Let_def h_def [symmetric] e1_def [symmetric] by (auto simp: not_le not_less split: if_splits)
  note k = ptx_coreD [OF core]
  have "ptx_shrunk e e' \<and> (\<forall>k. tx_pc e \<le> k \<longrightarrow> tx_get e' k = tx_get e k) \<and> tx_pa e' \<le> max (tx_pa e) (tx_pc e)"
    using r
  proof (elim disjE conjE)
    assume "e' = e"
    then show ?thesis using ptx_shrunk_refl [OF core] by simp
  next
    assume h: "h < tx_pc e" "tx_pt e \<le> h" and "e' = e1"
    have "tx_pa e' \<le> max (tx_pa e) (tx_pc e)" "\<forall>k. tx_get e' k = tx_get e k" by (simp_all add: \<open>e' = e1\<close> e1_def transmitted_def)
    then show ?thesis using transmitted_shrunk [OF core h] \<open>e' = e1\<close> by (simp only: e1_def simp_thms)
  next
    assume h: "h < tx_pc e" "tx_pt e \<le> h" and e': "stop_discard_timer now h e1 = Some e'"
    have le: "tx_pa e \<le> h + 1" "h + 1 \<le> tx_pc e" using count_succ(2,3) [OF h(1)] h(2) k(9) by auto
    have s1: "ptx_shrunk e e1" using transmitted_shrunk [OF core h] by (simp add: e1_def)
    note st = stop_discard_timer_ok [OF ptx_shrunk_core [OF core s1] e']
    have "ptx_shrunk e e'" by (rule ptx_shrunk_trans [OF s1 st(1)])
    moreover have "\<forall>k. tx_pc e \<le> k \<longrightarrow> tx_get e' k = tx_get e k" using st(2) h(1) by (simp add: e1_def transmitted_def)
    moreover have "tx_pa e' \<le> max (tx_pa e) (tx_pc e)" using st(3) le by (auto simp: e1_def transmitted_def max_def split: if_splits)
    ultimately show ?thesis by blast
  qed
  then show "ptx_shrunk e e'" "\<And>k. tx_pc e \<le> k \<Longrightarrow> tx_get e' k = tx_get e k" "tx_pa e' \<le> max (tx_pa e) (tx_pc e)" by blast+
qed

lemma transmit_notification_ok:
  assumes "ptx_core e" "handle_transmit_notification now sn e = Some e'"
  shows "ptx_shrunk e e'" "\<And>k. tx_pc e \<le> k \<Longrightarrow> tx_get e' k = tx_get e k"
  using assms ptx_shrunk_refl [OF assms(1)] transmit_impl_ok [OF assms(1)] by (auto simp: handle_transmit_notification_def split: if_splits)

lemma retransmit_notification_ok:
  assumes "ptx_core e" "handle_retransmit_notification now sn e = Some e'"
  shows "ptx_shrunk e e'" "\<And>k. tx_pc e \<le> k \<Longrightarrow> tx_get e' k = tx_get e k"
  using assms ptx_shrunk_refl [OF assms(1)] transmit_impl_ok [OF assms(1)] by (auto simp: handle_retransmit_notification_def split: if_splits)

lemma delivery_impl_ok:
  assumes "ptx_core e" "handle_delivery_notification_impl now sn e = Some e'"
  shows "ptx_shrunk e e'"
  using assms ptx_shrunk_refl [OF assms(1)] stop_discard_timer_ok(1) [OF assms(1)]
  by (auto simp: handle_delivery_notification_impl_def Let_def split: if_splits)

lemma delivery_notification_ok:
  assumes "ptx_core e" "handle_delivery_notification now sn e = Some e' \<or> handle_delivery_retransmitted_notification now sn e = Some e'"
  shows "ptx_shrunk e e'"
  using assms ptx_shrunk_refl [OF assms(1)] delivery_impl_ok [OF assms(1)]
  by (auto simp: handle_delivery_notification_def handle_delivery_retransmitted_notification_def split: if_splits)

lemma notifications_some:
  assumes core: "ptx_core e" and full: "\<And>k. tx_pa e \<le> k \<Longrightarrow> k < tx_pn e \<Longrightarrow> tx_get e k \<noteq> None"
  shows "handle_transmit_notification now sn e \<noteq> None" "handle_delivery_notification now sn e \<noteq> None"
    "handle_retransmit_notification now sn e \<noteq> None" "handle_delivery_retransmitted_notification now sn e \<noteq> None"
proof -
  have t: "handle_transmit_notification_impl now sn e \<noteq> None"
  proof -
    define h where "h = notification_count_estimation sn e"
    have some: "stop_discard_timer now h (transmitted e h) \<noteq> None" if h: "h < tx_pc e" "tx_pt e \<le> h"
      by (intro stop_discard_timer_some ptx_shrunk_core [OF core] transmitted_shrunk [OF core h]) (use full in \<open>simp_all add: transmitted_def\<close>)
    show ?thesis using some unfolding transmit_impl_eq Let_def h_def [symmetric] by (auto simp: not_le not_less)
  qed
  have d: "handle_delivery_notification_impl now sn e \<noteq> None"
    using stop_discard_timer_some [OF assms] by (auto simp: handle_delivery_notification_impl_def Let_def)
  show "handle_transmit_notification now sn e \<noteq> None" "handle_delivery_notification now sn e \<noteq> None"
    "handle_retransmit_notification now sn e \<noteq> None" "handle_delivery_retransmitted_notification now sn e \<noteq> None"
    using t d by (simp_all add: handle_transmit_notification_def handle_delivery_notification_def handle_retransmit_notification_def
        handle_delivery_retransmitted_notification_def)
qed

section \<open>Discards\<close>

lemma discard_pdu_get:
  assumes "ptx_core e" "ptx_discard_timer (ptx_cfg e) \<noteq> None"
  shows "tx_get (fst (discard_pdu c e)) k = (if k = c then None else tx_get e k)"
proof (cases "c < tx_pa e \<or> c \<ge> tx_pn e \<or> \<not> tw_has_sn (ptx_window e) c")
  case True
  then have "tx_get e c = None"
    using ptx_coreD(3,4) [OF assms(1), of c] by (cases "tx_get e c") (auto simp: cm_contains_get dest: leD)
  then show ?thesis using True by (auto simp: discard_pdu_def)
next
  case False
  let ?e1 = "e\<lparr>ptx_window := tw_remove_sdu c (ptx_window e)\<rparr>"
  have "tx_pa ?e1 \<le> tx_pn ?e1" using ptx_coreD(2) [OF assms(1)] by simp
  from advance_ok [OF this] have "ptx_window (advance_next_ack ?e1) = ptx_window ?e1"
    by (metis (no_types, lifting) pdcp_entity_tx.select_convs(14) pdcp_entity_tx.surjective pdcp_entity_tx.update_convs(11))
  then show ?thesis using False assms(2) by (auto simp: discard_pdu_def Let_def tw_get_remove)
qed

text \<open>What a discard tells the lower layers.\<close>

definition discard_events :: "pdcp_tx_event list \<Rightarrow> bool" where
  "discard_events evs \<longleftrightarrow> (\<forall>ev \<in> set evs. \<exists>sn. ev = tx_on_discard_pdu sn)"

lemma discard_events_simps [simp]: "discard_events []" "discard_events (xs @ ys) \<longleftrightarrow> discard_events xs \<and> discard_events ys"
  by (auto simp: discard_events_def)

lemma discard_pdu_events: "discard_events (snd (discard_pdu c e))"
  by (simp add: discard_events_def discard_pdu_def Let_def)

lemma discard_counts_Nil: "discard_counts [] e = (e, [])" by (simp add: discard_counts_def)

lemma discard_counts_Cons:
  "fst (discard_counts (c # cs) e) = fst (discard_counts cs (fst (discard_pdu c e)))"
  "snd (discard_counts (c # cs) e) = snd (discard_pdu c e) @ snd (discard_counts cs (fst (discard_pdu c e)))"
proof -
  have acc: "fold (\<lambda>c (e, evs). let (e', evs') = discard_pdu c e in (e', evs @ evs')) cs (e, xs) =
      (fst (fold (\<lambda>c (e, evs). let (e', evs') = discard_pdu c e in (e', evs @ evs')) cs (e, [])),
       xs @ snd (fold (\<lambda>c (e, evs). let (e', evs') = discard_pdu c e in (e', evs @ evs')) cs (e, [])))" for cs e xs
  proof (induction cs arbitrary: e xs)
    case (Cons c cs)
    obtain e' ys where d: "discard_pdu c e = (e', ys)" by (cases "discard_pdu c e")
    show ?case using Cons [of e' "xs @ ys"] Cons [of e' ys] by (simp add: d)
  qed simp
  obtain e' ys where d: "discard_pdu c e = (e', ys)" by (cases "discard_pdu c e")
  show "fst (discard_counts (c # cs) e) = fst (discard_counts cs (fst (discard_pdu c e)))"
    "snd (discard_counts (c # cs) e) = snd (discard_pdu c e) @ snd (discard_counts cs (fst (discard_pdu c e)))"
    using acc [of cs e' ys] by (simp_all add: discard_counts_def d)
qed

lemma discard_counts_ok:
  "ptx_core e \<Longrightarrow> ptx_shrunk e (fst (discard_counts cs e)) \<and> discard_events (snd (discard_counts cs e))"
proof (induction cs arbitrary: e)
  case (Cons c cs)
  let ?e = "fst (discard_pdu c e)"
  have s: "ptx_shrunk e ?e" by (rule discard_pdu_ok(1) [OF Cons.prems])
  have "ptx_core ?e" by (rule ptx_shrunk_core [OF Cons.prems s])
  then show ?case using Cons.IH [of ?e] ptx_shrunk_trans [OF s] discard_pdu_events [of c e] by (simp add: discard_counts_Cons)
qed (simp add: discard_counts_Nil ptx_shrunk_refl)

lemma discard_counts_get:
  "ptx_core e \<Longrightarrow> ptx_discard_timer (ptx_cfg e) \<noteq> None \<Longrightarrow>
    tx_get (fst (discard_counts cs e)) k = (if k \<in> set cs then None else tx_get e k)"
proof (induction cs arbitrary: e)
  case (Cons c cs)
  let ?e = "fst (discard_pdu c e)"
  have s: "ptx_shrunk e ?e" by (rule discard_pdu_ok(1) [OF Cons.prems(1)])
  have "ptx_core ?e" "ptx_discard_timer (ptx_cfg ?e) \<noteq> None" using ptx_shrunk_core [OF Cons.prems(1) s] ptx_shrunk_fields(4) [OF s] Cons.prems(2) by simp_all
  then show ?case using Cons.IH [of ?e] discard_pdu_get [OF Cons.prems, of c k] by (cases "k = c") (simp_all add: discard_counts_Cons)
qed (simp add: discard_counts_Nil)

lemma handle_status_report_ok:
  assumes "ptx_core e" "handle_status_report ok report e = (e', evs)"
  shows "ptx_shrunk e e'" "discard_events evs"
proof -
  have "ptx_shrunk e e' \<and> discard_events evs"
  proof (cases "ok \<and> read_status_report report \<noteq> None")
    case True
    then obtain fmc bits where r: "read_status_report report = Some (fmc, bits)" by auto
    let ?cs = "count_range (tx_pa e) fmc"
    let ?e = "fst (discard_counts ?cs e)"
    note d = discard_counts_ok [OF assms(1), of ?cs]
    note d2 = discard_counts_ok [OF ptx_shrunk_core [OF assms(1) conjunct1 [OF d]], of "reported_counts fmc bits"]
    have "e' = fst (discard_counts (reported_counts fmc bits) ?e)" "evs = snd (discard_counts ?cs e) @ snd (discard_counts (reported_counts fmc bits) ?e)"
      using assms(2) True r by (auto simp: handle_status_report_def Let_def split: prod.splits)
    then show ?thesis using d d2 ptx_shrunk_trans by auto
  next
    case False
    then have "e' = e" "evs = []" using assms(2) by (auto simp: handle_status_report_def split: option.splits if_splits)
    then show ?thesis using ptx_shrunk_refl [OF assms(1)] by simp
  qed
  then show "ptx_shrunk e e'" "discard_events evs" by blast+
qed

lemma set_reported_counts:
  assumes "bits = map f cs" "cs = map (\<lambda>j. fmc + 1 + of_nat j) [0..<length bits]"
  shows "set (reported_counts fmc bits) = {c \<in> set cs. f c = 1}"
  using assms
proof (induction bits arbitrary: fmc cs)
  case (Cons b bits)
  have cs: "cs = (fmc + 1) # map (\<lambda>j. (fmc + 1) + 1 + of_nat j) [0..<length bits]"
  proof -
    have "[0..<length (b # bits)] = 0 # map Suc [0..<length bits]" by (simp add: upt_conv_Cons map_Suc_upt del: upt_Suc)
    then show ?thesis unfolding Cons.prems(2) by (simp add: add_ac)
  qed
  let ?t = "map (\<lambda>j. (fmc + 1) + 1 + of_nat j) [0..<length bits]"
  have "bits = map f ?t" "b = f (fmc + 1)" using Cons.prems(1) unfolding cs by simp_all
  then show ?case using Cons.IH [OF \<open>bits = map f ?t\<close> refl] unfolding cs by auto
qed simp

text \<open>Discarding the oldest SDU moves the window up.\<close>

lemma discard_oldest:
  assumes core: "ptx_core e" and "ptx_discard_timer (ptx_cfg e) \<noteq> None" "tx_get e (tx_pa e) \<noteq> None"
  shows "tx_pa e < tx_pa (fst (discard_pdu (tx_pa e) e))"
proof -
  let ?e = "fst (discard_pdu (tx_pa e) e)"
  have lt: "tx_pa e < tx_pn e" using ptx_coreD(4) [OF core] assms(3) by blast
  let ?e1 = "e\<lparr>ptx_window := tw_remove_sdu (tx_pa e) (ptx_window e)\<rparr>"
  have "tx_pa ?e1 \<le> tx_pn ?e1" using lt by simp
  note adv = advance_ok [OF this]
  have "tx_pa ?e = tx_pa (advance_next_ack ?e1)"
    using assms(2,3) lt by (auto simp: discard_pdu_def Let_def cm_contains_get)
  moreover have "\<not> tw_has_sn (ptx_window ?e1) (tx_pa e)" by (simp add: cm_contains_get tw_get_remove)
  then have "tx_pa (advance_next_ack ?e1) \<noteq> tx_pa e" using adv lt by auto
  moreover have "tx_pa e \<le> tx_pa (advance_next_ack ?e1)" using adv by simp
  ultimately show ?thesis by simp
qed

text \<open>The loop of the expiry ends, as every round moves the window up.\<close>

lemma discard_expired_ok:
  assumes "ptx_core e" "ptx_discard_timer (ptx_cfg e) = Some (discard_timer_ms ms)" "tx_get e (tx_pa e) \<noteq> None"
  shows "\<exists>e' evs. discard_expired_loop oldest e = Some (e', evs) \<and> ptx_shrunk e e' \<and> discard_events evs"
  using assms
proof (induction "unat (tx_pn e) - unat (tx_pa e)" arbitrary: e rule: less_induct)
  case less
  obtain e1 evs1 where d: "discard_pdu (tx_pa e) e = (e1, evs1)" by (cases "discard_pdu (tx_pa e) e")
  have s: "ptx_shrunk e e1" and ev: "discard_events evs1"
    using discard_pdu_ok(1) [OF less(2), of "tx_pa e"] discard_pdu_events [of "tx_pa e" e] d by simp_all
  note f = ptx_shrunk_fields [OF s]
  have core1: "ptx_core e1" by (rule ptx_shrunk_core [OF less(2) s])
  have lt: "tx_pa e < tx_pa e1" using discard_oldest [OF less(2) _ less(4)] less(3) d by simp
  show ?case
  proof (cases "tx_get e1 (tx_pa e1)")
    case None
    then show ?thesis using s ev by (subst discard_expired_loop.simps) (simp add: d)
  next
    case (Some elem)
    have "twe_tick_point_of_arrival elem \<noteq> None" using ptx_coreD(6) [OF core1 Some] less(3) f(4) by (simp add: ticks_ok_def)
    then obtain tick where t: "twe_tick_point_of_arrival elem = Some tick" by blast
    have sd: "ptx_shrunk e (e1\<lparr>ptx_disc_timer := d'\<rparr>)" for d'
    proof -
      have "e1\<lparr>ptx_disc_timer := d'\<rparr> = ptx_set e1 (ptx_window e1) (tx_pt e1) (tx_pa e1) d'" by (simp add: ptx_set_def)
      moreover have "ptx_shrunk e1 (ptx_set e1 (ptx_window e1) (tx_pt e1) (tx_pa e1) d')"
        by (rule ptx_shrunkI) (use ptx_coreD(2,3,9,10,11) [OF core1] near_windowD(1) [OF ptx_coreD(1) [OF core1]] in simp_all)
      ultimately show ?thesis using ptx_shrunk_trans [OF s] by simp
    qed
    show ?thesis
    proof (cases "tick \<noteq> oldest \<or> tx_pa e1 = tx_pn e1")
      case True
      then show ?thesis using s ev sd Some t by (subst discard_expired_loop.simps) (auto simp: d)
    next
      case False
      have "tx_pa e1 \<le> tx_pn e" using ptx_shrunkD(7) [OF s] .
      then have "unat (tx_pn e1) - unat (tx_pa e1) < unat (tx_pn e) - unat (tx_pa e)"
        using lt f(1) by (simp add: word_less_nat_alt word_le_nat_alt)
      from less(1) [OF this core1] less(3) f(4) Some obtain e2 evs2 where
        "discard_expired_loop oldest e1 = Some (e2, evs2)" "ptx_shrunk e1 e2" "discard_events evs2" by auto
      then show ?thesis using False Some t ev ptx_shrunk_trans [OF s] by (subst discard_expired_loop.simps) (simp add: d)
    qed
  qed
qed

lemma discard_callback_ok:
  assumes "ptx_core e" "ptx_discard_timer (ptx_cfg e) = Some (discard_timer_ms ms)"
  obtains e' evs where "discard_callback e = Some (e', evs)" "ptx_shrunk e e'" "discard_events evs"
proof (cases "ptx_stopped e \<or> tx_get e (tx_pa e) = None")
  case True
  then show thesis using that [of e "[]"] ptx_shrunk_refl [OF assms(1)] by (auto simp: discard_callback_def)
next
  case False
  then obtain elem where g: "tx_get e (tx_pa e) = Some elem" by blast
  then obtain t where "twe_tick_point_of_arrival elem = Some t" using ptx_coreD(6) [OF assms(1) g] assms(2) by (auto simp: ticks_ok_def)
  moreover obtain e' evs where "discard_expired_loop t e = Some (e', evs)" "ptx_shrunk e e'" "discard_events evs"
    using discard_expired_ok [OF assms] g by blast
  ultimately show thesis using False g that by (simp add: discard_callback_def)
qed

end
