(* ===== verification/Pdcp_Tx_Reorder.thy ===== *)
theory Pdcp_Tx_Reorder
  imports Pdcp_Tx_Inv
begin

text \<open>
  The reordering stage of the transmitting PDCP entity: the loops that hand PDUs to the lower layers, what they hand over
  and what they leave in the window.
\<close>

section \<open>Handing over in order\<close>

definition has_pdu :: "pdcp_tx_window \<Rightarrow> u32 \<Rightarrow> bool" where
  "has_pdu w c \<longleftrightarrow> (\<exists>elem. tw_get w c = Some elem \<and> twe_pdu elem \<noteq> [])"

definition pdu_at :: "pdcp_tx_window \<Rightarrow> u32 \<Rightarrow> bytes" where
  "pdu_at w c = (case tw_get w c of None \<Rightarrow> [] | Some elem \<Rightarrow> twe_pdu elem)"

text \<open>The PDUs of a window in the order of their COUNTs.\<close>

definition handed_events :: "pdcp_tx_window \<Rightarrow> bool \<Rightarrow> u32 \<Rightarrow> u32 \<Rightarrow> pdcp_tx_event list" where
  "handed_events w r b n = map (\<lambda>c. tx_on_new_pdu c (pdu_at w c) r) (filter (has_pdu w) (count_range b n))"

lemma has_pdu_at: "has_pdu w c \<longleftrightarrow> pdu_at w c \<noteq> []"
  by (auto simp: has_pdu_def pdu_at_def split: option.splits)

lemma handed_events_empty [simp]: "handed_events w r b b = []"
  by (simp add: handed_events_def count_range_def)

lemma handed_events_step:
  "b < n \<Longrightarrow> handed_events w r b n = (if has_pdu w b then [tx_on_new_pdu b (pdu_at w b) r] else []) @ handed_events w r (b + 1) n"
  by (simp add: handed_events_def count_range_step [of b])

lemma handed_events_cong:
  assumes "\<And>k. b \<le> k \<Longrightarrow> tw_get w k = tw_get w' k"
  shows "handed_events w r b n = handed_events w' r b n"
proof -
  have "filter (has_pdu w) (count_range b n) = filter (has_pdu w') (count_range b n)"
    by (rule filter_cong) (simp_all add: set_count_range assms has_pdu_def)
  then show ?thesis unfolding handed_events_def using assms by (auto simp: set_count_range pdu_at_def)
qed

lemma handed_events_append: "b \<le> m \<Longrightarrow> m \<le> n \<Longrightarrow> handed_events w r b n = handed_events w r b m @ handed_events w r m n"
  by (simp add: handed_events_def count_range_append [of b m n])

text \<open>Handing over moves TX_TRANS_CRYPTO up and takes the PDUs from the elements it passes.\<close>

definition ptx_handed :: "pdcp_entity_tx \<Rightarrow> pdcp_entity_tx \<Rightarrow> bool" where
  "ptx_handed e e' \<longleftrightarrow> e' = e\<lparr>ptx_window := ptx_window e', ptx_st := (ptx_st e)\<lparr>ptx_trans_crypto := tx_pc e'\<rparr>\<rparr> \<and>
     tw_totals (ptx_window e') \<and> cm_wf (tw_map (ptx_window e')) \<and> cm_max_size (tw_map (ptx_window e')) = cm_max_size (tw_map (ptx_window e)) \<and>
     tx_pc e \<le> tx_pc e' \<and>
     (\<forall>k. tx_get e' k = (if tx_pc e \<le> k \<and> k < tx_pc e' then map_option (twe_pdu_update (\<lambda>_. [])) (tx_get e k) else tx_get e k))"

lemma ptx_handedD:
  assumes "ptx_handed e e'"
  shows "e' = e\<lparr>ptx_window := ptx_window e', ptx_st := (ptx_st e)\<lparr>ptx_trans_crypto := tx_pc e'\<rparr>\<rparr>"
    "tw_totals (ptx_window e')" "cm_wf (tw_map (ptx_window e'))" "cm_max_size (tw_map (ptx_window e')) = cm_max_size (tw_map (ptx_window e))"
    "tx_pc e \<le> tx_pc e'"
    "tx_get e' k = (if tx_pc e \<le> k \<and> k < tx_pc e' then map_option (twe_pdu_update (\<lambda>_. [])) (tx_get e k) else tx_get e k)"
  using assms by (simp_all add: ptx_handed_def)

lemma ptx_handed_fields:
  assumes "ptx_handed e e'"
  shows "tx_pn e' = tx_pn e" "tx_pa e' = tx_pa e" "tx_pr e' = tx_pr e" "tx_pt e' = tx_pt e" "ptx_cfg e' = ptx_cfg e" "ptx_window_size e' = ptx_window_size e"
    "ptx_crypto_reordering_timer e' = ptx_crypto_reordering_timer e" "ptx_stopped e' = ptx_stopped e"
    "ptx_crypto_tasks e' = ptx_crypto_tasks e" "ptx_ue_tasks e' = ptx_ue_tasks e" "ptx_token_mngr e' = ptx_token_mngr e"
    "ptx_sec_engine_pool e' = ptx_sec_engine_pool e" "ptx_max_nof_crypto_workers e' = ptx_max_nof_crypto_workers e"
    "ptx_sdu_buffer e' = ptx_sdu_buffer e" "ptx_retransmit_id e' = ptx_retransmit_id e" "ptx_buffering e' = ptx_buffering e"
    "ptx_disc_timer e' = ptx_disc_timer e"
  by (subst ptx_handedD(1) [OF assms], simp)+

lemma ptx_handed_refl: "ptx_core e \<Longrightarrow> ptx_handed e e"
  using ptx_coreD(11) [of e] near_windowD(1) [OF ptx_coreD(1) [of e]] by (auto simp: ptx_handed_def dest: leD)

lemma ptx_handed_trans:
  assumes "ptx_handed a b" "ptx_handed b c"
  shows "ptx_handed a c"
proof -
  note ab = ptx_handedD [OF assms(1)] and bc = ptx_handedD [OF assms(2)]
  have "c = a\<lparr>ptx_window := ptx_window c, ptx_st := (ptx_st a)\<lparr>ptx_trans_crypto := tx_pc c\<rparr>\<rparr>"
    by (subst bc(1), subst (1 2) ab(1)) simp
  moreover have "tx_get c k = (if tx_pc a \<le> k \<and> k < tx_pc c then map_option (twe_pdu_update (\<lambda>_. [])) (tx_get a k) else tx_get a k)" for k
    unfolding bc(6) [of k] ab(6) [of k] using ab(5) bc(5) by (auto simp: option.map_comp comp_def)
  ultimately show ?thesis unfolding ptx_handed_def using bc(2-5) ab(4,5) by (intro conjI allI) (assumption | simp)+
qed

definition handed_one :: "pdcp_entity_tx \<Rightarrow> pdcp_entity_tx" where
  "handed_one e = e\<lparr>ptx_window := tw_set_pdu (tx_pc e) [] (ptx_window e), ptx_st := (ptx_st e)\<lparr>ptx_trans_crypto := tx_pc e + 1\<rparr>\<rparr>"

lemma tw_set_wf: "cm_wf (tw_map w) \<Longrightarrow> cm_wf (tw_map (tw_set_pdu c pdu w))" "cm_max_size (tw_map (tw_set_pdu c pdu w)) = cm_max_size (tw_map w)"
  by (simp_all add: tw_set_pdu_def cmw.wf_upd)

lemma handed_one_ok:
  assumes "ptx_core e" "tx_pc e < m"
  shows "ptx_handed e (handed_one e)" "tx_pc (handed_one e) = tx_pc e + 1" "tx_pn (handed_one e) = tx_pn e" "tx_pr (handed_one e) = tx_pr e"
proof -
  note s = count_succ [OF assms(2)]
  have "tx_pc e \<le> k \<and> k < tx_pc e + 1 \<longleftrightarrow> k = tx_pc e" for k using s(1) [of k] by auto
  then show "ptx_handed e (handed_one e)"
    using totals_set [OF ptx_coreD(11) [OF assms(1)]] near_windowD(1) [OF ptx_coreD(1) [OF assms(1)]] less_imp_le [OF s(3)]
    by (auto simp: ptx_handed_def handed_one_def tw_get_set tw_set_wf)
qed (simp_all add: handed_one_def)

lemma ptx_handed_core:
  assumes "ptx_core e" "ptx_handed e e'" "tx_pc e' \<le> tx_pn e"
  shows "ptx_core e'"
proof -
  note c = ptx_coreD [OF assms(1)] and h = ptx_handedD [OF assms(2)] and f = ptx_handed_fields [OF assms(2)]
  have g: "\<exists>elem0. tx_get e k = Some elem0 \<and> (elem = elem0 \<or> elem = elem0\<lparr>twe_pdu := []\<rparr>)" if "tx_get e' k = Some elem" for k elem
    using that h(6) [of k] by (auto split: if_splits)
  have near: "near_window (tw_map (ptx_window e')) (uint (tx_pa e)) (tx_W e)"
    by (rule near_windowI) (use h(3,4) g near_windowD [OF c(1)] in fastforce)+
  have elems: "\<forall>k elem. tx_get e' k = Some elem \<longrightarrow> k < tx_pn e \<and> twe_count elem = k \<and> ticks_ok (ptx_cfg e) elem"
  proof (intro allI impI)
    fix k elem
    assume "tx_get e' k = Some elem"
    then obtain elem0 where "tx_get e k = Some elem0" "elem = elem0 \<or> elem = elem0\<lparr>twe_pdu := []\<rparr>" using g by blast
    then show "k < tx_pn e \<and> twe_count elem = k \<and> ticks_ok (ptx_cfg e) elem"
      using c(4,5,6) [of k elem0] by (auto simp: ticks_ok_def)
  qed
  have "tx_pt e \<le> tx_pc e' \<or> tx_pt e = tx_pa e" using c(10) h(5) by auto
  then show ?thesis using near elems h(2) c assms(3) unfolding ptx_core_def f by blast
qed

text \<open>Over a window without holes the delivery loop hands over exactly the PDUs up to the first that is not there yet.\<close>

lemma ptx_handed_whole:
  assumes "ptx_handed e e'" "ptx_whole e"
  shows "ptx_whole e'"
proof (unfold ptx_whole_def, intro allI impI)
  fix k
  assume "tx_pc e' \<le> k" "k < tx_pn e'"
  then have "tx_get e k \<noteq> None" using assms(2) ptx_handedD(5) [OF assms(1)] ptx_handed_fields(1) [OF assms(1)] by (auto simp: ptx_whole_def)
  then show "tx_get e' k \<noteq> None" by (simp add: ptx_handedD(6) [OF assms(1)])
qed

lemma deliver_step:
  assumes "\<not> ptx_test_mode (ptx_cfg e)"
  shows "tx_deliver_loop now r (tx_pc e) e =
    (if tx_pc e < tx_pn e
     then if tx_get e (tx_pc e) = None then None
          else if \<not> has_pdu (ptx_window e) (tx_pc e) then Some (e, [])
          else map_option (\<lambda>(e', evs). (e', tx_on_new_pdu (tx_pc e) (pdu_at (ptx_window e) (tx_pc e)) r # evs))
                 (tx_deliver_loop now r (tx_pc (handed_one e)) (handed_one e))
     else Some (e, []))"
  by (subst tx_deliver_loop.simps) (auto simp: assms handed_one_def has_pdu_def pdu_at_def Let_def split: option.split)

lemma tx_deliver_ok:
  assumes "ptx_core e" "ptx_whole e"
  shows "\<exists>e'. tx_deliver_loop now r (tx_pc e) e = Some (e', handed_events (ptx_window e) r (tx_pc e) (tx_pc e')) \<and> ptx_handed e e' \<and>
    tx_pc e' \<le> tx_pn e \<and> (\<forall>k. tx_pc e \<le> k \<longrightarrow> k < tx_pc e' \<longrightarrow> has_pdu (ptx_window e) k) \<and>
    (tx_pc e' = tx_pn e \<or> \<not> has_pdu (ptx_window e) (tx_pc e'))"
  using assms
proof (induction "unat (tx_pn e) - unat (tx_pc e)" arbitrary: e rule: less_induct)
  case less
  note core = less(2) and whole = less(3)
  note t = ptx_coreD(15) [OF core]
  show ?case
  proof (cases "tx_pc e < tx_pn e \<and> has_pdu (ptx_window e) (tx_pc e)")
    case False
    then have "tx_deliver_loop now r (tx_pc e) e = Some (e, [])"
      using whole by (subst deliver_step [OF t]) (auto simp: ptx_whole_def)
    then show ?thesis using ptx_handed_refl [OF core] ptx_coreD(8) [OF core] False by (intro exI [of _ e]) (auto dest: leD)
  next
    case True
    then have lt: "tx_pc e < tx_pn e" by simp
    let ?e = "handed_one e"
    note o = handed_one_ok [OF core lt] and s = count_succ [OF lt]
    have pc: "tx_pc ?e = tx_pc e + 1" and le: "tx_pc e + 1 \<le> tx_pn e" by (rule o(2), rule s(2))
    have core1: "ptx_core ?e" by (rule ptx_handed_core [OF core o(1)]) (simp add: pc le)
    have "unat (tx_pn ?e) - unat (tx_pc ?e) < unat (tx_pn e) - unat (tx_pc e)" using count_step(2) [OF lt] by (simp add: o(2,3))
    from less(1) [OF this core1 ptx_handed_whole [OF o(1) whole]] obtain e' where e':
      "tx_deliver_loop now r (tx_pc ?e) ?e = Some (e', handed_events (ptx_window ?e) r (tx_pc ?e) (tx_pc e'))" "ptx_handed ?e e'" "tx_pc e' \<le> tx_pn e"
      "\<And>k. tx_pc ?e \<le> k \<Longrightarrow> k < tx_pc e' \<Longrightarrow> has_pdu (ptx_window ?e) k" "tx_pc e' = tx_pn e \<or> \<not> has_pdu (ptx_window ?e) (tx_pc e')"
      unfolding o(3) by blast
    have mono: "tx_pc e + 1 \<le> tx_pc e'" using ptx_handedD(5) [OF e'(2)] by (simp add: pc)
    then have lt': "tx_pc e < tx_pc e'" using s(3) by (rule order_less_le_trans [rotated])
    have same: "tx_get ?e k = tx_get e k" if "tx_pc e + 1 \<le> k" for k
      using that s(3) by (auto simp: ptx_handedD(6) [OF o(1)] pc dest: leD)
    have hp: "has_pdu (ptx_window ?e) k = has_pdu (ptx_window e) k" if "tx_pc e + 1 \<le> k" for k using same [OF that] by (simp add: has_pdu_def)
    have ev: "handed_events (ptx_window ?e) r (tx_pc e + 1) n = handed_events (ptx_window e) r (tx_pc e + 1) n" for n
      by (rule handed_events_cong) (rule same)
    have g: "tx_get e (tx_pc e) \<noteq> None" using True by (auto simp: has_pdu_def)
    have r: "tx_deliver_loop now r (tx_pc e) e = Some (e', handed_events (ptx_window e) r (tx_pc e) (tx_pc e'))"
      using True g e'(1) handed_events_step [OF lt', of "ptx_window e" r] by (subst deliver_step [OF t]) (simp add: pc ev)
    have "has_pdu (ptx_window e) k" if "tx_pc e \<le> k" "k < tx_pc e'" for k
    proof (cases "k = tx_pc e")
      case False
      then have "tx_pc e + 1 \<le> k" using that(1) s(1) [of k] by (auto simp: not_less [symmetric])
      then show ?thesis using e'(4) [of k] that(2) hp by (simp add: pc)
    qed (use True in simp)
    then show ?thesis using r ptx_handed_trans [OF o(1) e'(2)] e'(3,5) hp [OF mono] by (intro exI [of _ e']) simp
  qed
qed

text \<open>The expiry passes everything below TX_REORD_CRYPTO.\<close>

definition passed_one :: "pdcp_entity_tx \<Rightarrow> pdcp_entity_tx" where
  "passed_one e = e\<lparr>ptx_window := (if has_pdu (ptx_window e) (tx_pc e) then tw_set_pdu (tx_pc e) [] (ptx_window e) else ptx_window e),
     ptx_st := (ptx_st e)\<lparr>ptx_trans_crypto := tx_pc e + 1\<rparr>\<rparr>"

lemma pass_step:
  "tx_pass_reord e =
    (if tx_pc e \<noteq> tx_pr e
     then let (e', evs) = tx_pass_reord (passed_one e)
          in (e', (if has_pdu (ptx_window e) (tx_pc e) then [tx_on_new_pdu (tx_pc e) (pdu_at (ptx_window e) (tx_pc e)) False] else []) @ evs)
     else (e, []))"
  by (subst tx_pass_reord.simps) (simp add: Let_def passed_one_def has_pdu_at pdu_at_def)

lemma no_pdu_same: "twe_pdu elem = [] \<Longrightarrow> elem\<lparr>twe_pdu := []\<rparr> = elem"
  by (cases elem) simp

lemma passed_one_ok:
  assumes "ptx_core e" "tx_pc e < m"
  shows "ptx_handed e (passed_one e)" "tx_pc (passed_one e) = tx_pc e + 1" "tx_pn (passed_one e) = tx_pn e" "tx_pr (passed_one e) = tx_pr e"
proof -
  show "ptx_handed e (passed_one e)"
  proof (cases "has_pdu (ptx_window e) (tx_pc e)")
    case True
    then have "passed_one e = handed_one e" by (simp add: passed_one_def handed_one_def)
    then show ?thesis using handed_one_ok(1) [OF assms] by simp
  next
    case False
    note s = count_succ [OF assms(2)]
    have "tx_pc e \<le> k \<and> k < tx_pc e + 1 \<longleftrightarrow> k = tx_pc e" for k using s(1) [of k] by auto
    moreover have "map_option (twe_pdu_update (\<lambda>_. [])) (tx_get e (tx_pc e)) = tx_get e (tx_pc e)"
      using False by (cases "tx_get e (tx_pc e)") (simp_all add: has_pdu_def no_pdu_same)
    ultimately show ?thesis using False
        ptx_coreD(11) [OF assms(1)] near_windowD(1) [OF ptx_coreD(1) [OF assms(1)]] less_imp_le [OF s(3)]
      by (auto simp: ptx_handed_def passed_one_def)
  qed
qed (simp_all add: passed_one_def)

lemma handed_get_above:
  "ptx_handed e e' \<Longrightarrow> tx_pc e' \<le> k \<Longrightarrow> tx_get e' k = tx_get e k"
  by (auto simp: ptx_handedD(6) dest: leD)

lemma tx_pass_ok:
  assumes "ptx_core e" "tx_pc e \<le> tx_pr e" "tx_pr e \<le> tx_pn e"
  shows "\<exists>e'. tx_pass_reord e = (e', handed_events (ptx_window e) False (tx_pc e) (tx_pr e)) \<and> ptx_handed e e' \<and> tx_pc e' = tx_pr e"
  using assms
proof (induction "unat (tx_pr e) - unat (tx_pc e)" arbitrary: e rule: less_induct)
  case less
  note core = less(2)
  show ?case
  proof (cases "tx_pc e = tx_pr e")
    case True
    then show ?thesis using ptx_handed_refl [OF core] by (subst pass_step) simp
  next
    case False
    then have lt: "tx_pc e < tx_pr e" using less(3) by simp
    let ?e = "passed_one e"
    note o = passed_one_ok [OF core lt] and s = count_succ [OF lt]
    have core1: "ptx_core ?e" by (rule ptx_handed_core [OF core o(1)]) (use s(2) less(4) in \<open>simp add: o(2)\<close>)
    have "unat (tx_pr ?e) - unat (tx_pc ?e) < unat (tx_pr e) - unat (tx_pc e)" using count_step(2) [OF lt] by (simp add: o(2,4))
    moreover have "tx_pc ?e \<le> tx_pr ?e" "tx_pr ?e \<le> tx_pn ?e" using s(2) less(4) by (simp_all add: o)
    ultimately obtain e' where e': "tx_pass_reord ?e = (e', handed_events (ptx_window ?e) False (tx_pc ?e) (tx_pr ?e))" "ptx_handed ?e e'" "tx_pc e' = tx_pr ?e"
      using less(1) core1 by blast
    have "handed_events (ptx_window ?e) False (tx_pc e + 1) (tx_pr e) = handed_events (ptx_window e) False (tx_pc e + 1) (tx_pr e)"
      by (rule handed_events_cong) (use handed_get_above [OF o(1)] in \<open>simp add: o(2)\<close>)
    then have "tx_pass_reord e = (e', handed_events (ptx_window e) False (tx_pc e) (tx_pr e))"
      using False e'(1) handed_events_step [OF lt, of "ptx_window e" False] by (subst pass_step) (simp add: o)
    then show ?thesis using ptx_handed_trans [OF o(1) e'(2)] e'(3) o(4) by auto
  qed
qed

section \<open>The reordering stage\<close>

text \<open>An element takes its PDU.\<close>

definition ptx_store :: "u32 \<Rightarrow> bytes \<Rightarrow> pdcp_entity_tx \<Rightarrow> pdcp_entity_tx" where
  "ptx_store c pdu e = e\<lparr>ptx_window := tw_set_pdu c pdu (ptx_window e)\<rparr>"

lemma ptx_store_simps [simp]:
  "ptx_st (ptx_store c pdu e) = ptx_st e" "ptx_cfg (ptx_store c pdu e) = ptx_cfg e"
  "ptx_crypto_reordering_timer (ptx_store c pdu e) = ptx_crypto_reordering_timer e"
  by (simp_all add: ptx_store_def)

lemma ptx_store_get: "tx_get (ptx_store c pdu e) k = (if k = c then map_option (twe_pdu_update (\<lambda>_. pdu)) (tx_get e c) else tx_get e k)"
  by (simp add: ptx_store_def tw_get_set)

lemma ptx_store_core:
  assumes "ptx_core e"
  shows "ptx_core (ptx_store c pdu e)"
proof -
  note k = ptx_coreD [OF assms]
  have "near_window (tw_map (ptx_window (ptx_store c pdu e))) (uint (tx_pa e)) (tx_W e)"
    using tw_set_near [OF k(1)] by (simp add: ptx_store_def)
  moreover have "tw_totals (ptx_window (ptx_store c pdu e))" using totals_set [OF k(11)] by (simp add: ptx_store_def)
  moreover have "j < tx_pn e \<and> twe_count elem = j \<and> ticks_ok (ptx_cfg e) elem" if g: "tx_get (ptx_store c pdu e) j = Some elem" for j elem
  proof -
    obtain elem0 where e0: "tx_get e j = Some elem0" "elem = elem0 \<or> elem = elem0\<lparr>twe_pdu := pdu\<rparr>"
      using g by (auto simp: ptx_store_get split: if_splits)
    then show ?thesis using k(4-6) [OF e0(1)] by (auto simp: ticks_ok_def)
  qed
  moreover have "ptx_window_size (ptx_store c pdu e) = ptx_window_size e" by (simp add: ptx_store_def)
  ultimately show ?thesis using k unfolding ptx_core_def by simp
qed

lemma ptx_store_whole: "ptx_whole e \<Longrightarrow> ptx_whole (ptx_store c pdu e)"
  by (simp add: ptx_whole_def ptx_store_get)

text \<open>Only the reordering timer and TX_REORD_CRYPTO.\<close>

definition reord_started :: "pdcp_entity_tx \<Rightarrow> pdcp_entity_tx" where
  "reord_started e = e\<lparr>ptx_st := (ptx_st e)\<lparr>ptx_reord_crypto := tx_pn e\<rparr>, ptx_crypto_reordering_timer := True\<rparr>"

definition reord_timers :: "pdcp_entity_tx \<Rightarrow> pdcp_entity_tx" where
  "reord_timers e =
     (let e = (if ptx_crypto_reordering_timer e \<and> tx_pc e \<ge> tx_pr e then e\<lparr>ptx_crypto_reordering_timer := False\<rparr> else e)
      in if \<not> ptx_crypto_reordering_timer e \<and> tx_pc e < tx_pn e then reord_started e else e)"

definition ptx_stored :: "pdcp_entity_tx \<Rightarrow> pdcp_tx_buffer_info \<Rightarrow> bool" where
  "ptx_stored e info \<longleftrightarrow> \<not> ptx_stopped e \<and> tbi_retx_id info = ptx_retransmit_id e \<and> tx_pa e \<le> tbi_count info \<and> tx_pt e \<le> tbi_count info \<and>
     tx_get e (tbi_count info) \<noteq> None"

lemma apply_reordering_eq:
  "tx_apply_reordering now info e =
     (if \<not> ptx_stored e info then Some (e, [])
      else map_option (\<lambda>(e', evs). (reord_timers e', evs))
        (tx_deliver_loop now (tbi_is_retx info) (tx_pc e) (ptx_store (tbi_count info) (tbi_buf info) e)))"
  unfolding tx_apply_reordering_def ptx_stored_def ptx_then_def reord_timers_def reord_started_def ptx_store_def
  by (auto simp: not_less cm_contains_get Let_def split: option.split)

end
