(* ===== verification/Pdcp_Tx_Steps.thy ===== *)
theory Pdcp_Tx_Steps
  imports Pdcp_Tx_Reorder
begin

text \<open>
  What the transmitting PDCP entity holds, the tokens of its tasks and the traces of what it hands over; the crypto stage
  and the reordering stage keep the invariant.
\<close>

section \<open>What the entity holds\<close>

text \<open>
  A PDU protects an SDU under a COUNT when it is the header with the SN of the COUNT and the SDU, protected by one of the
  engines \<open>S\<close> that were configured; without an engine an SRB appends four zero bytes.
\<close>

definition sdu_protected :: "aes_lib \<Rightarrow> security_engine option set \<Rightarrow> pdcp_tx_config \<Rightarrow> u32 \<Rightarrow> bytes \<Rightarrow> bytes \<Rightarrow> bool" where
  "sdu_protected lib S cfg c sdu pdu \<longleftrightarrow>
     (\<exists>buf. pdcp_write_data_pdu_header (ptx_rb_type cfg) (ptx_sn_size cfg) True sdu (pdcp_compute_sn c (ptx_sn_size cfg)) = Inr buf \<and>
       (\<exists>eng \<in> S. case eng of
           None \<Rightarrow> ptx_rb_type cfg = rb_srb \<and> pdu = buf @ [0, 0, 0, 0]
         | Some g \<Rightarrow> encrypt_and_protect_integrity lib g True buf (pdcp_data_header_size (ptx_sn_size cfg)) c = Some (Inr pdu)))"

text \<open>\<open>M\<close> maps every COUNT that was given out to its SDU.\<close>

type_synonym tx_sdus = "u32 \<Rightarrow> bytes option"

definition pdu_from :: "aes_lib \<Rightarrow> security_engine option set \<Rightarrow> pdcp_tx_config \<Rightarrow> tx_sdus \<Rightarrow> u32 \<Rightarrow> bytes \<Rightarrow> bool" where
  "pdu_from lib S cfg M c pdu \<longleftrightarrow> (\<exists>sdu. M c = Some sdu \<and> sdu_protected lib S cfg c sdu pdu)"

definition buf_from :: "pdcp_tx_config \<Rightarrow> tx_sdus \<Rightarrow> u32 \<Rightarrow> bytes \<Rightarrow> bool" where
  "buf_from cfg M c buf \<longleftrightarrow> (\<exists>sdu. M c = Some sdu \<and>
     pdcp_write_data_pdu_header (ptx_rb_type cfg) (ptx_sn_size cfg) True sdu (pdcp_compute_sn c (ptx_sn_size cfg)) = Inr buf)"

definition elem_from :: "aes_lib \<Rightarrow> security_engine option set \<Rightarrow> pdcp_tx_config \<Rightarrow> tx_sdus \<Rightarrow> u32 \<Rightarrow> pdcp_tx_window_element \<Rightarrow> bool" where
  "elem_from lib S cfg M k elem \<longleftrightarrow>
     (\<exists>sdu. M k = Some sdu \<and> (ptx_discard_timer cfg \<noteq> None \<and> ptx_rlc_mode cfg = rlc_am \<longrightarrow> twe_sdu elem = sdu)) \<and>
     (twe_pdu elem \<noteq> [] \<longrightarrow> pdu_from lib S cfg M k (twe_pdu elem))"

definition ptx_contents :: "aes_lib \<Rightarrow> security_engine option set \<Rightarrow> bytes set \<Rightarrow> tx_sdus \<Rightarrow> pdcp_entity_tx \<Rightarrow> bool" where
  "ptx_contents lib S D M e \<longleftrightarrow>
     length (ptx_sec_engine_pool e) = ptx_max_nof_crypto_workers e \<and> set (ptx_sec_engine_pool e) \<subseteq> S \<and> set (ptx_sdu_buffer e) \<subseteq> D \<and>
     (\<forall>c sdu. M c = Some sdu \<longrightarrow> c < tx_pn e \<and> sdu \<in> D) \<and>
     (\<forall>k elem. tx_get e k = Some elem \<longrightarrow> elem_from lib S (ptx_cfg e) M k elem) \<and>
     (\<forall>info \<in> set (ptx_crypto_tasks e). buf_from (ptx_cfg e) M (tbi_count info) (tbi_buf info)) \<and>
     (\<forall>info. tx_task_reordering info \<in> set (ptx_ue_tasks e) \<longrightarrow> pdu_from lib S (ptx_cfg e) M (tbi_count info) (tbi_buf info))"

lemma ptx_contentsD:
  assumes "ptx_contents lib S D M e"
  shows "length (ptx_sec_engine_pool e) = ptx_max_nof_crypto_workers e" "set (ptx_sec_engine_pool e) \<subseteq> S" "set (ptx_sdu_buffer e) \<subseteq> D"
    "M c = Some sdu \<Longrightarrow> c < tx_pn e" "M c = Some sdu \<Longrightarrow> sdu \<in> D" "tx_get e k = Some elem \<Longrightarrow> elem_from lib S (ptx_cfg e) M k elem"
    "info \<in> set (ptx_crypto_tasks e) \<Longrightarrow> buf_from (ptx_cfg e) M (tbi_count info) (tbi_buf info)"
    "tx_task_reordering info \<in> set (ptx_ue_tasks e) \<Longrightarrow> pdu_from lib S (ptx_cfg e) M (tbi_count info) (tbi_buf info)"
  using assms by (simp_all add: ptx_contents_def)

lemma ptx_contentsI:
  assumes "ptx_contents lib S D M e" "ptx_cfg e' = ptx_cfg e" "ptx_max_nof_crypto_workers e' = ptx_max_nof_crypto_workers e"
    "ptx_sec_engine_pool e' = ptx_sec_engine_pool e" "set (ptx_sdu_buffer e') \<subseteq> set (ptx_sdu_buffer e)" "tx_pn e' = tx_pn e"
    "set (ptx_crypto_tasks e') \<subseteq> set (ptx_crypto_tasks e)" "set (ptx_ue_tasks e') \<subseteq> set (ptx_ue_tasks e)"
    "\<And>k elem. tx_get e' k = Some elem \<Longrightarrow> elem_from lib S (ptx_cfg e) M k elem"
  shows "ptx_contents lib S D M e'"
  using ptx_contentsD [OF assms(1)] assms(2-9) unfolding ptx_contents_def by (simp add: subset_iff)

lemma pdu_from_mono: "M \<subseteq>\<^sub>m M' \<Longrightarrow> pdu_from lib S cfg M c pdu \<Longrightarrow> pdu_from lib S cfg M' c pdu"
  by (auto simp: pdu_from_def map_le_def dom_def)

lemma buf_from_mono: "M \<subseteq>\<^sub>m M' \<Longrightarrow> buf_from cfg M c buf \<Longrightarrow> buf_from cfg M' c buf"
  by (force simp: buf_from_def map_le_def dom_def)

lemma elem_from_mono: "M \<subseteq>\<^sub>m M' \<Longrightarrow> elem_from lib S cfg M k elem \<Longrightarrow> elem_from lib S cfg M' k elem"
  using pdu_from_mono [of M M' lib S cfg k] by (force simp: elem_from_def map_le_def dom_def)

section \<open>Tokens\<close>

text \<open>A task that reports a failure of the security engine does not hold a token.\<close>

fun holds_token :: "pdcp_tx_task \<Rightarrow> bool" where
  "holds_token (tx_task_reordering info) = True"
| "holds_token (tx_task_failure err) = False"

definition tx_tasks :: "pdcp_entity_tx \<Rightarrow> nat" where
  "tx_tasks e = length (ptx_crypto_tasks e) + length (filter holds_token (ptx_ue_tasks e))"

definition ptx_tokens :: "bool \<Rightarrow> pdcp_entity_tx \<Rightarrow> bool" where
  "ptx_tokens paused e \<longleftrightarrow> tx_tasks e \<le> 2 ^ 30 \<and>
     ptx_token_mngr e = \<lparr>tm_pending_crypto = (paused \<and> tx_tasks e = 0), tm_tokens = of_nat (tx_tasks e) - of_bool paused\<rparr>"

lemma return_tx_token_ok:
  assumes "ptx_tokens p e" "ptx_token_mngr e' = ptx_token_mngr e" "tx_tasks e = Suc (tx_tasks e')"
  obtains tm where "return_tx_token e' = Some (e'\<lparr>ptx_token_mngr := tm\<rparr>)" "ptx_tokens p (e'\<lparr>ptx_token_mngr := tm\<rparr>)"
proof -
  define tm where "tm = \<lparr>tm_pending_crypto = (p \<and> tx_tasks e' = 0), tm_tokens = of_nat (tx_tasks e') - of_bool p\<rparr>"
  have le: "tx_tasks e' \<le> 2 ^ 30" using assms(1,3) by (simp add: ptx_tokens_def)
  have "return_token (ptx_token_mngr e') = Some tm"
    using return_token_ok [OF le, of p] assms unfolding tm_def ptx_tokens_def by simp
  then have "return_tx_token e' = Some (e'\<lparr>ptx_token_mngr := tm\<rparr>)" by (simp add: return_tx_token_def)
  then show thesis by (rule that) (use le in \<open>simp add: ptx_tokens_def tx_tasks_def tm_def\<close>)
qed

lemma tx_token_stop_ok:
  assumes "ptx_tokens False e"
  shows "token_stop (ptx_token_mngr e) =
    Some \<lparr>tm_pending_crypto = (True \<and> tx_tasks e = 0), tm_tokens = of_nat (tx_tasks e) - of_bool True\<rparr>"
proof (cases "tx_tasks e")
  case 0
  then show ?thesis using assms by (simp add: ptx_tokens_def token_stop_def return_token_def)
next
  case (Suc n)
  then have "n \<le> 2 ^ 30" using assms by (simp add: ptx_tokens_def)
  from return_token_ok [OF this, of False] assms Suc show ?thesis by (simp add: ptx_tokens_def token_stop_def)
qed

section \<open>The operations keep the invariant\<close>

definition ptx_inv :: "pdcp_entity_tx \<Rightarrow> bool" where
  "ptx_inv e \<longleftrightarrow> ptx_core e \<and> tx_reord_ok e \<and> (\<not> ptx_stopped e \<longrightarrow> ptx_whole e)"

definition ptx_ok :: "aes_lib \<Rightarrow> security_engine option set \<Rightarrow> bytes set \<Rightarrow> tx_sdus \<Rightarrow> bool \<Rightarrow> pdcp_entity_tx \<Rightarrow> bool" where
  "ptx_ok lib S D M paused e \<longleftrightarrow> ptx_inv e \<and> ptx_tokens paused e \<and> ptx_contents lib S D M e"

lemma ptx_okD:
  assumes "ptx_ok lib S D M p e"
  shows "ptx_core e" "tx_reord_ok e" "\<not> ptx_stopped e \<Longrightarrow> ptx_whole e" "ptx_tokens p e" "ptx_contents lib S D M e"
  using assms by (simp_all add: ptx_ok_def ptx_inv_def)

lemma ptx_okI:
  "ptx_core e \<Longrightarrow> tx_reord_ok e \<Longrightarrow> (\<not> ptx_stopped e \<Longrightarrow> ptx_whole e) \<Longrightarrow> ptx_tokens p e \<Longrightarrow> ptx_contents lib S D M e \<Longrightarrow> ptx_ok lib S D M p e"
  by (simp add: ptx_ok_def ptx_inv_def)

definition ptx_same :: "pdcp_entity_tx \<Rightarrow> pdcp_entity_tx \<Rightarrow> bool" where
  "ptx_same e e' \<longleftrightarrow> ptx_cfg e' = ptx_cfg e \<and> ptx_stopped e' = ptx_stopped e \<and> ptx_buffering e' = ptx_buffering e"

lemma ptx_same_refl [simp]: "ptx_same e e" by (simp add: ptx_same_def)

lemma ptx_same_trans: "ptx_same a b \<Longrightarrow> ptx_same b c \<Longrightarrow> ptx_same a c" by (simp add: ptx_same_def)

text \<open>Fields that the invariant does not read.\<close>

lemma ptx_core_frame [simp]:
  "ptx_core (e\<lparr>ptx_token_mngr := a\<rparr>) = ptx_core e" "ptx_core (e\<lparr>ptx_crypto_tasks := cs\<rparr>) = ptx_core e"
  "ptx_core (e\<lparr>ptx_ue_tasks := us\<rparr>) = ptx_core e" "ptx_core (e\<lparr>ptx_buffering := b\<rparr>) = ptx_core e" "ptx_core (e\<lparr>ptx_sdu_buffer := q\<rparr>) = ptx_core e"
  "ptx_core (e\<lparr>ptx_max_count_notified := b\<rparr>) = ptx_core e" "ptx_core (e\<lparr>ptx_max_count_overflow := b\<rparr>) = ptx_core e"
  "ptx_core (e\<lparr>ptx_disc_timer := d\<rparr>) = ptx_core e" "ptx_core (e\<lparr>ptx_stopped := b\<rparr>) = ptx_core e"
  "ptx_core (e\<lparr>ptx_crypto_reordering_timer := b\<rparr>) = ptx_core e" "ptx_core (e\<lparr>ptx_desired_buffer_size := n\<rparr>) = ptx_core e"
  by (simp_all add: ptx_core_def)

lemma ptx_whole_frame [simp]:
  "ptx_whole (e\<lparr>ptx_token_mngr := a\<rparr>) = ptx_whole e" "ptx_whole (e\<lparr>ptx_crypto_tasks := cs\<rparr>) = ptx_whole e"
  "ptx_whole (e\<lparr>ptx_ue_tasks := us\<rparr>) = ptx_whole e" "ptx_whole (e\<lparr>ptx_buffering := b\<rparr>) = ptx_whole e" "ptx_whole (e\<lparr>ptx_sdu_buffer := q\<rparr>) = ptx_whole e"
  "ptx_whole (e\<lparr>ptx_max_count_notified := b\<rparr>) = ptx_whole e" "ptx_whole (e\<lparr>ptx_max_count_overflow := b\<rparr>) = ptx_whole e"
  "ptx_whole (e\<lparr>ptx_disc_timer := d\<rparr>) = ptx_whole e" "ptx_whole (e\<lparr>ptx_stopped := b\<rparr>) = ptx_whole e"
  "ptx_whole (e\<lparr>ptx_crypto_reordering_timer := b\<rparr>) = ptx_whole e" "ptx_whole (e\<lparr>ptx_desired_buffer_size := n\<rparr>) = ptx_whole e"
  by (simp_all add: ptx_whole_def)

lemma tx_reord_ok_frame [simp]:
  "tx_reord_ok (e\<lparr>ptx_token_mngr := a\<rparr>) = tx_reord_ok e" "tx_reord_ok (e\<lparr>ptx_crypto_tasks := cs\<rparr>) = tx_reord_ok e"
  "tx_reord_ok (e\<lparr>ptx_ue_tasks := us\<rparr>) = tx_reord_ok e" "tx_reord_ok (e\<lparr>ptx_buffering := b\<rparr>) = tx_reord_ok e"
  "tx_reord_ok (e\<lparr>ptx_sdu_buffer := q\<rparr>) = tx_reord_ok e"
  "tx_reord_ok (e\<lparr>ptx_max_count_notified := b\<rparr>) = tx_reord_ok e" "tx_reord_ok (e\<lparr>ptx_max_count_overflow := b\<rparr>) = tx_reord_ok e"
  "tx_reord_ok (e\<lparr>ptx_disc_timer := d\<rparr>) = tx_reord_ok e" "tx_reord_ok (e\<lparr>ptx_stopped := b\<rparr>) = tx_reord_ok e"
  "tx_reord_ok (e\<lparr>ptx_window := w\<rparr>) = tx_reord_ok e" "tx_reord_ok (e\<lparr>ptx_crypto_reordering_timer := False\<rparr>)"
  "tx_reord_ok (e\<lparr>ptx_desired_buffer_size := n\<rparr>) = tx_reord_ok e"
  by (simp_all add: tx_reord_ok_def)

lemma shrunk_ok:
  assumes ok: "ptx_ok lib S D M p e" and s: "ptx_shrunk e e'" and w: "\<not> ptx_stopped e \<Longrightarrow> ptx_whole e'"
  shows "ptx_ok lib S D M p e'" "ptx_same e e'"
proof -
  note o = ptx_okD [OF ok] and f = ptx_shrunk_fields [OF s]
  show "ptx_ok lib S D M p e'"
  proof (rule ptx_okI)
    show "ptx_core e'" by (rule ptx_shrunk_core [OF o(1) s])
    show "tx_reord_ok e'" using o(2) f by (simp add: tx_reord_ok_def)
    show "\<not> ptx_stopped e' \<Longrightarrow> ptx_whole e'" using w f by simp
    show "ptx_tokens p e'" using o(4) f by (simp add: ptx_tokens_def tx_tasks_def)
    show "ptx_contents lib S D M e'"
      by (rule ptx_contentsI [OF o(5)]) (use f ptx_contentsD(6) [OF o(5)] ptx_shrunkD(4) [OF s] in auto)
  qed
  show "ptx_same e e'" using f by (simp add: ptx_same_def)
qed

lemma kept_whole: "ptx_whole e \<Longrightarrow> ptx_shrunk e e' \<Longrightarrow> (\<And>k. tx_pc e \<le> k \<Longrightarrow> tx_get e' k = tx_get e k) \<Longrightarrow> ptx_whole e'"
  using ptx_shrunk_fields(1,2) [of e e'] by (simp add: ptx_whole_def)

section \<open>Traces\<close>

fun new_pdu_count :: "pdcp_tx_event \<Rightarrow> u32 list" where
  "new_pdu_count (tx_on_new_pdu c pdu r) = [c]"
| "new_pdu_count _ = []"

definition pdu_counts :: "pdcp_tx_event list \<Rightarrow> u32 list" where
  "pdu_counts evs = concat (map new_pdu_count evs)"

lemma pdu_counts_simps [simp]:
  "pdu_counts [] = []" "pdu_counts (ev # evs) = new_pdu_count ev @ pdu_counts evs" "pdu_counts (xs @ ys) = pdu_counts xs @ pdu_counts ys"
  by (simp_all add: pdu_counts_def)

lemma set_pdu_counts: "c \<in> set (pdu_counts evs) \<longleftrightarrow> (\<exists>pdu r. tx_on_new_pdu c pdu r \<in> set evs)"
proof -
  have "c \<in> set (new_pdu_count ev) \<longleftrightarrow> (\<exists>pdu r. ev = tx_on_new_pdu c pdu r)" for ev by (cases ev) auto
  then show ?thesis by (auto simp: pdu_counts_def)
qed

lemma pdu_counts_handed: "pdu_counts (handed_events w r b n) = filter (has_pdu w) (count_range b n)"
  by (simp add: pdu_counts_def handed_events_def comp_def)

lemma discard_events_silent: "discard_events evs \<Longrightarrow> pdu_counts evs = []"
  by (induction evs) (auto simp: discard_events_def)

text \<open>A trace up to TX_TRANS_CRYPTO: COUNTs in ascending order below it, each PDU with property \<open>Q\<close>.\<close>

definition tx_trace_ok :: "(u32 \<Rightarrow> bytes \<Rightarrow> bool) \<Rightarrow> pdcp_tx_event list \<Rightarrow> bool" where
  "tx_trace_ok Q evs \<longleftrightarrow> sorted_wrt (<) (pdu_counts evs) \<and> (\<forall>c pdu r. tx_on_new_pdu c pdu r \<in> set evs \<longrightarrow> Q c pdu)"

definition tx_trace_below :: "u32 \<Rightarrow> pdcp_tx_event list \<Rightarrow> bool" where
  "tx_trace_below d evs \<longleftrightarrow> (\<forall>c \<in> set (pdu_counts evs). c < d)"

definition tx_emits :: "(u32 \<Rightarrow> bytes \<Rightarrow> bool) \<Rightarrow> pdcp_entity_tx \<Rightarrow> pdcp_entity_tx \<Rightarrow> pdcp_tx_event list \<Rightarrow> bool" where
  "tx_emits Q e e' evs \<longleftrightarrow> tx_pc e \<le> tx_pc e' \<and> (pdu_counts evs = [] \<or>
     (\<exists>w r. evs = handed_events w r (tx_pc e) (tx_pc e') \<and> (\<forall>k. pdu_at w k \<noteq> [] \<longrightarrow> Q k (pdu_at w k))))"

lemma tx_emits_silent: "tx_pc e' = tx_pc e \<Longrightarrow> pdu_counts evs = [] \<Longrightarrow> tx_emits Q e e' evs"
  by (simp add: tx_emits_def)

lemma tx_emits_trace:
  assumes "tx_trace_ok Q evs" "tx_trace_below (tx_pc e) evs" "tx_emits Q e e' evs'"
  shows "tx_trace_ok Q (evs @ evs')" "tx_trace_below (tx_pc e') (evs @ evs')"
proof -
  have le: "tx_pc e \<le> tx_pc e'" using assms(3) by (simp add: tx_emits_def)
  have "sorted_wrt (<) (pdu_counts evs') \<and> (\<forall>c \<in> set (pdu_counts evs'). tx_pc e \<le> c \<and> c < tx_pc e') \<and>
      (\<forall>c pdu r. tx_on_new_pdu c pdu r \<in> set evs' \<longrightarrow> Q c pdu)"
  proof (cases "pdu_counts evs' = []")
    case True
    then show ?thesis using set_pdu_counts [of _ evs'] by auto
  next
    case False
    then obtain w r where w: "evs' = handed_events w r (tx_pc e) (tx_pc e')" "\<And>k. pdu_at w k \<noteq> [] \<Longrightarrow> Q k (pdu_at w k)"
      using assms(3) by (auto simp: tx_emits_def)
    have "sorted_wrt (<) (filter (has_pdu w) (count_range (tx_pc e) (tx_pc e')))"
      using sorted_count_range by (rule sorted_wrt_filter)
    moreover have "Q c pdu" if "tx_on_new_pdu c pdu r' \<in> set evs'" for c pdu r'
      using that w(2) by (auto simp: w(1) handed_events_def has_pdu_at)
    ultimately show ?thesis by (auto simp: w(1) pdu_counts_handed set_count_range)
  qed
  then have new: "sorted_wrt (<) (pdu_counts evs')" "\<And>c. c \<in> set (pdu_counts evs') \<Longrightarrow> tx_pc e \<le> c \<and> c < tx_pc e'"
    "\<And>c pdu r. tx_on_new_pdu c pdu r \<in> set evs' \<Longrightarrow> Q c pdu" by blast+
  have "sorted_wrt (<) (pdu_counts (evs @ evs'))"
    using assms(1,2) new(1,2) by (auto simp: tx_trace_ok_def tx_trace_below_def sorted_wrt_append intro: order_less_le_trans)
  moreover have "Q c pdu" if "tx_on_new_pdu c pdu r \<in> set (evs @ evs')" for c pdu r
    using that assms(1) new(3) unfolding tx_trace_ok_def set_append by blast
  ultimately show "tx_trace_ok Q (evs @ evs')" by (simp add: tx_trace_ok_def)
  show "tx_trace_below (tx_pc e') (evs @ evs')"
    using assms(2) new(2) le by (auto simp: tx_trace_below_def intro: order_less_le_trans)
qed

lemma tx_trace_mono: "tx_trace_ok Q evs \<Longrightarrow> (\<And>c pdu. Q c pdu \<Longrightarrow> Q' c pdu) \<Longrightarrow> tx_trace_ok Q' evs"
  by (auto simp: tx_trace_ok_def)

section \<open>The crypto stage\<close>

lemma integrity_append: "protect_integrity lib ie ok buf c = Some (Inr x) \<Longrightarrow> protect_integrity lib ie True buf c = Some (Inr x)"
  by (auto simp: protect_integrity_def split: option.splits sum.splits if_splits)

lemma encrypt_append:
  assumes "encrypt_and_protect_integrity lib g ok buf n c = Some (Inr pdu)"
  shows "encrypt_and_protect_integrity lib g True buf n c = Some (Inr pdu)"
  using assms integrity_append unfolding encrypt_and_protect_integrity_def
  by (cases "integ_eng g") (auto split: option.splits sum.splits)

lemma apply_ciphering_protects:
  assumes "apply_ciphering_and_integrity_protection lib w ok buf c e = Some (Inr pdu)" "ptx_contents lib S D M e" "buf_from (ptx_cfg e) M c buf"
  shows "pdu_from lib S (ptx_cfg e) M c pdu"
proof -
  obtain sdu where sdu: "M c = Some sdu"
    "pdcp_write_data_pdu_header (ptx_rb_type (ptx_cfg e)) (ptx_sn_size (ptx_cfg e)) True sdu (pdcp_compute_sn c (ptx_sn_size (ptx_cfg e))) = Inr buf"
    using assms(3) by (auto simp: buf_from_def)
  have w: "w < ptx_max_nof_crypto_workers e" using assms(1) by (auto simp: apply_ciphering_and_integrity_protection_def split: if_splits)
  then have mem: "ptx_sec_engine_pool e ! w \<in> S" using ptx_contentsD(1,2) [OF assms(2)] by auto
  have n: "(if ptx_sn_size (ptx_cfg e) = pdcp_size12bits then 2 else 3) = pdcp_data_header_size (ptx_sn_size (ptx_cfg e))"
    by (simp add: pdcp_data_header_size_def)
  have "case ptx_sec_engine_pool e ! w of None \<Rightarrow> ptx_is_srb e \<and> pdu = buf @ [0, 0, 0, 0]
    | Some g \<Rightarrow> encrypt_and_protect_integrity lib g True buf (pdcp_data_header_size (ptx_sn_size (ptx_cfg e))) c = Some (Inr pdu)"
    using assms(1) w encrypt_append unfolding apply_ciphering_and_integrity_protection_def n
    by (auto split: option.splits if_splits sum.splits)
  then show ?thesis using sdu mem by (auto simp: pdu_from_def sdu_protected_def)
qed

text \<open>A worker takes a task from any position.\<close>

lemma apply_security_tx_ok:
  assumes ok: "ptx_ok lib S D M p e" and split: "ptx_crypto_tasks e = as @ info # bs"
    and run: "pdcp_tx_apply_security lib w append_ok ue_ok info (e\<lparr>ptx_crypto_tasks := as @ bs\<rparr>) = Some e'"
  shows "ptx_ok lib S D M p e'" "ptx_same e e'" "ptx_st e' = ptx_st e"
proof -
  note o = ptx_okD [OF ok]
  let ?e0 = "e\<lparr>ptx_crypto_tasks := as @ bs\<rparr>"
  have c0: "ptx_contents lib S D M ?e0"
    by (rule ptx_contentsI [OF o(5)]) (use ptx_contentsD(6) [OF o(5)] in \<open>auto simp: split\<close>)
  have tk: "ptx_token_mngr e1 = ptx_token_mngr e \<Longrightarrow> tx_tasks e = Suc (tx_tasks e1) \<Longrightarrow> return_tx_token e1 = Some e' \<Longrightarrow>
      \<exists>tm. e' = e1\<lparr>ptx_token_mngr := tm\<rparr> \<and> ptx_tokens p e'" for e1
    using return_tx_token_ok [OF o(4), of e1] by (metis option.inject)
  have fin: "ptx_ok lib S D M p e' \<and> ptx_same e e' \<and> ptx_st e' = ptx_st e"
    if e1: "e' = ?e0\<lparr>ptx_ue_tasks := ptx_ue_tasks e @ ts, ptx_token_mngr := tm\<rparr>" and t: "ptx_tokens p e'"
      and ts: "\<And>i. tx_task_reordering i \<in> set ts \<Longrightarrow> pdu_from lib S (ptx_cfg e) M (tbi_count i) (tbi_buf i)" for ts tm
  proof -
    have "ptx_contents lib S D M e'"
      using ptx_contentsD [OF c0] ts unfolding ptx_contents_def e1 by (auto simp: subset_iff)
    then show ?thesis using o t unfolding e1 by (intro conjI ptx_okI) (simp_all add: ptx_same_def)
  qed
  have fin0: "ptx_ok lib S D M p e' \<and> ptx_same e e' \<and> ptx_st e' = ptx_st e" if "e' = ?e0\<lparr>ptx_token_mngr := tm\<rparr>" "ptx_tokens p e'" for tm
    by (rule fin [of tm "[]"]) (use that in simp_all)
  obtain r where r: "apply_ciphering_and_integrity_protection lib w append_ok (tbi_buf info) (tbi_count info) ?e0 = Some r"
    using run by (auto simp: pdcp_tx_apply_security_def split: option.splits)
  have "ptx_ok lib S D M p e' \<and> ptx_same e e' \<and> ptx_st e' = ptx_st e"
  proof (cases r)
    case (Inl err)
    show ?thesis
    proof (cases ue_ok)
      case True
      then have ret: "return_tx_token (?e0\<lparr>ptx_ue_tasks := ptx_ue_tasks e @ [tx_task_failure err]\<rparr>) = Some e'"
        using run r Inl by (simp add: pdcp_tx_apply_security_def)
      from tk [OF _ _ this] obtain tm where "e' = (?e0\<lparr>ptx_ue_tasks := ptx_ue_tasks e @ [tx_task_failure err]\<rparr>)\<lparr>ptx_token_mngr := tm\<rparr>" "ptx_tokens p e'"
        by (auto simp: tx_tasks_def split)
      then show ?thesis by (rule fin) simp
    next
      case False
      then have "return_tx_token ?e0 = Some e'" using run r Inl by (simp add: pdcp_tx_apply_security_def)
      from tk [OF _ _ this] obtain tm where "e' = ?e0\<lparr>ptx_token_mngr := tm\<rparr>" "ptx_tokens p e'" by (auto simp: tx_tasks_def split)
      then show ?thesis by (rule fin0)
    qed
  next
    case (Inr pdu)
    show ?thesis
    proof (cases ue_ok)
      case True
      let ?i = "info\<lparr>tbi_buf := pdu\<rparr>"
      have e': "e' = ?e0\<lparr>ptx_ue_tasks := ptx_ue_tasks e @ [tx_task_reordering ?i], ptx_token_mngr := ptx_token_mngr e\<rparr>"
        using run r Inr True by (auto simp: pdcp_tx_apply_security_def)
      have "buf_from (ptx_cfg ?e0) M (tbi_count info) (tbi_buf info)" using ptx_contentsD(7) [OF o(5), of info] by (simp add: split)
      from apply_ciphering_protects [OF r [unfolded Inr] c0 this] have "pdu_from lib S (ptx_cfg e) M (tbi_count info) pdu" by simp
      moreover have "ptx_tokens p e'" using o(4) by (simp add: e' ptx_tokens_def tx_tasks_def split)
      ultimately show ?thesis using fin [OF e'] by simp
    next
      case False
      then have "return_tx_token ?e0 = Some e'" using run r Inr by (simp add: pdcp_tx_apply_security_def)
      from tk [OF _ _ this] obtain tm where "e' = ?e0\<lparr>ptx_token_mngr := tm\<rparr>" "ptx_tokens p e'" by (auto simp: tx_tasks_def split)
      then show ?thesis by (rule fin0)
    qed
  qed
  then show "ptx_ok lib S D M p e'" "ptx_same e e'" "ptx_st e' = ptx_st e" by blast+
qed

section \<open>The reordering stage\<close>

definition ptx_rest :: "pdcp_entity_tx \<Rightarrow> pdcp_entity_tx \<Rightarrow> bool" where
  "ptx_rest e e' \<longleftrightarrow> ptx_same e e' \<and> ptx_crypto_tasks e' = ptx_crypto_tasks e \<and> ptx_ue_tasks e' = ptx_ue_tasks e \<and>
     ptx_token_mngr e' = ptx_token_mngr e \<and> ptx_sec_engine_pool e' = ptx_sec_engine_pool e \<and>
     ptx_max_nof_crypto_workers e' = ptx_max_nof_crypto_workers e \<and> ptx_sdu_buffer e' = ptx_sdu_buffer e \<and>
     ptx_retransmit_id e' = ptx_retransmit_id e \<and> tx_pn e' = tx_pn e \<and> tx_pa e' = tx_pa e \<and> tx_pt e' = tx_pt e"

lemma ptx_rest_refl [simp]: "ptx_rest e e" by (simp add: ptx_rest_def)

lemma ptx_rest_trans: "ptx_rest a b \<Longrightarrow> ptx_rest b c \<Longrightarrow> ptx_rest a c" by (simp add: ptx_rest_def ptx_same_def)

lemma ptx_handed_rest: "ptx_handed e e' \<Longrightarrow> ptx_rest e e'"
  using ptx_handed_fields [of e e'] by (simp add: ptx_rest_def ptx_same_def)

lemma ptx_store_rest: "ptx_rest e (ptx_store c pdu e)"
  by (simp add: ptx_rest_def ptx_same_def) (simp add: ptx_store_def)

lemma ptx_rest_contents:
  assumes "ptx_contents lib S D M e" "ptx_rest e e'" "\<And>k elem. tx_get e' k = Some elem \<Longrightarrow> elem_from lib S (ptx_cfg e) M k elem"
  shows "ptx_contents lib S D M e'"
  using assms(2) by (intro ptx_contentsI [OF assms(1)] assms(3)) (simp_all add: ptx_rest_def ptx_same_def)

lemma ptx_rest_tokens: "ptx_rest e e' \<Longrightarrow> ptx_tokens p e' = ptx_tokens p e"
  by (simp add: ptx_rest_def ptx_tokens_def tx_tasks_def)

lemma reord_timers_ok:
  assumes "ptx_core e" "ptx_crypto_reordering_timer e \<longrightarrow> tx_pr e \<le> tx_pn e"
  shows "ptx_core (reord_timers e)" "tx_reord_ok (reord_timers e)" "ptx_whole (reord_timers e) = ptx_whole e" "ptx_rest e (reord_timers e)"
    "tx_pc (reord_timers e) = tx_pc e" "ptx_window (reord_timers e) = ptx_window e"
proof -
  have st: "ptx_core (reord_started e) = ptx_core e" "ptx_whole (reord_started e) = ptx_whole e" for e
    by (simp_all add: reord_started_def ptx_core_def ptx_whole_def)
  show "ptx_core (reord_timers e)" "ptx_whole (reord_timers e) = ptx_whole e" using assms(1) by (simp_all add: reord_timers_def Let_def st)
  show "tx_reord_ok (reord_timers e)"
    using assms(2) by (auto simp: reord_timers_def reord_started_def tx_reord_ok_def Let_def)
qed (simp_all add: reord_timers_def reord_started_def ptx_rest_def ptx_same_def Let_def)

lemma elem_from_handed:
  assumes "ptx_handed e e'" "\<And>k elem. tx_get e k = Some elem \<Longrightarrow> elem_from lib S cfg M k elem" "tx_get e' k = Some elem"
  shows "elem_from lib S cfg M k elem"
  using assms(2,3) ptx_handedD(6) [OF assms(1), of k] by (auto simp: elem_from_def split: if_splits)

lemma elem_from_pdu_at:
  "(\<And>k elem. tw_get w k = Some elem \<Longrightarrow> elem_from lib S cfg M k elem) \<Longrightarrow> pdu_at w k \<noteq> [] \<Longrightarrow> pdu_from lib S cfg M k (pdu_at w k)"
  by (auto simp: pdu_at_def elem_from_def split: option.splits)

lemma tx_apply_reordering_ok:
  assumes inv: "ptx_inv e" and con: "ptx_contents lib S D M e" and pdu: "pdu_from lib S (ptx_cfg e) M (tbi_count info) (tbi_buf info)"
  obtains e' evs where "tx_apply_reordering now info e = Some (e', evs)" "ptx_inv e'" "ptx_contents lib S D M e'" "ptx_rest e e'"
    "tx_emits (pdu_from lib S (ptx_cfg e) M) e e' evs"
proof (cases "ptx_stored e info")
  case False
  then show thesis using that [of e "[]"] inv con by (simp add: apply_reordering_eq tx_emits_silent)
next
  case True
  have run: "\<not> ptx_stopped e" using True by (simp add: ptx_stored_def)
  have i: "ptx_core e" "tx_reord_ok e" "ptx_whole e" using inv run by (simp_all add: ptx_inv_def)
  let ?e = "ptx_store (tbi_count info) (tbi_buf info) e"
  note core = ptx_store_core [OF i(1), of "tbi_count info" "tbi_buf info"]
  have pc: "tx_pc ?e = tx_pc e" by simp
  obtain e1 where e1: "tx_deliver_loop now (tbi_is_retx info) (tx_pc e) ?e =
      Some (e1, handed_events (ptx_window ?e) (tbi_is_retx info) (tx_pc e) (tx_pc e1))" "ptx_handed ?e e1" "tx_pc e1 \<le> tx_pn ?e"
    using tx_deliver_ok [OF core ptx_store_whole [OF i(3)], of now "tbi_is_retx info"] unfolding pc by blast
  have core1: "ptx_core e1" by (rule ptx_handed_core [OF core e1(2,3)])
  note f = ptx_handed_fields [OF e1(2)]
  have "ptx_crypto_reordering_timer e1 \<longrightarrow> tx_pr e1 \<le> tx_pn e1" using i(2) f(1,3,7) by (simp add: tx_reord_ok_def)
  note r = reord_timers_ok [OF core1 this]
  have whole1: "ptx_whole e1" by (rule ptx_handed_whole [OF e1(2) ptx_store_whole [OF i(3)]])
  have rest: "ptx_rest e (reord_timers e1)"
    by (rule ptx_rest_trans [OF ptx_rest_trans [OF ptx_store_rest ptx_handed_rest [OF e1(2)]] r(4)])
  have el: "elem_from lib S (ptx_cfg e) M k elem" if "tx_get ?e k = Some elem" for k elem
    using that pdu ptx_contentsD(6) [OF con] by (auto simp: ptx_store_get elem_from_def split: if_splits)
  have el1: "elem_from lib S (ptx_cfg e) M k elem" if "tx_get e1 k = Some elem" for k elem
    by (rule elem_from_handed [OF e1(2) el that])
  have con1: "ptx_contents lib S D M (reord_timers e1)" by (rule ptx_rest_contents [OF con rest]) (simp add: r(6) el1)
  have pf: "pdu_from lib S (ptx_cfg e) M k (pdu_at (ptx_window ?e) k)" if "pdu_at (ptx_window ?e) k \<noteq> []" for k
    by (rule elem_from_pdu_at [OF el that])
  have em: "tx_emits (pdu_from lib S (ptx_cfg e) M) e (reord_timers e1) (handed_events (ptx_window ?e) (tbi_is_retx info) (tx_pc e) (tx_pc e1))"
    using ptx_handedD(5) [OF e1(2)] pf unfolding tx_emits_def r(5) pc by blast
  show thesis
    by (rule that [OF _ _ con1 rest em]) (use True e1(1) r(1-3) whole1 in \<open>simp_all add: apply_reordering_eq ptx_inv_def\<close>)
qed

text \<open>The UE executor takes a task from any position.\<close>

lemma run_tx_ue_task_ok:
  assumes ok: "ptx_ok lib S D M p e" and split: "ptx_ue_tasks e = us @ t # vs"
  obtains e' evs where "run_tx_ue_task now t (e\<lparr>ptx_ue_tasks := us @ vs\<rparr>) = Some (e', evs)" "ptx_ok lib S D M p e'" "ptx_same e e'"
    "tx_emits (pdu_from lib S (ptx_cfg e) M) e e' evs"
proof -
  note o = ptx_okD [OF ok]
  let ?start = "e\<lparr>ptx_ue_tasks := us @ vs\<rparr>"
  have inv0: "ptx_inv ?start" using o(1-3) by (simp add: ptx_inv_def)
  have con0: "ptx_contents lib S D M ?start"
    by (rule ptx_contentsI [OF o(5)]) (use ptx_contentsD(6) [OF o(5)] in \<open>auto simp: split\<close>)
  show thesis
  proof (cases t)
    case (tx_task_failure err)
    have "ptx_tokens p ?start" using o(4) by (simp add: ptx_tokens_def tx_tasks_def split tx_task_failure)
    then show thesis
      by (intro that [of ?start "[tx_on_protocol_failure]"])
        (use inv0 con0 in \<open>simp_all add: tx_task_failure ptx_ok_def tx_emits_silent ptx_same_def\<close>)
  next
    case (tx_task_reordering info)
    have "pdu_from lib S (ptx_cfg ?start) M (tbi_count info) (tbi_buf info)" using ptx_contentsD(8) [OF o(5), of info] by (simp add: split tx_task_reordering)
    from tx_apply_reordering_ok [OF inv0 con0 this] obtain e1 evs where e1: "tx_apply_reordering now info ?start = Some (e1, evs)" "ptx_inv e1"
      "ptx_contents lib S D M e1" "ptx_rest ?start e1" "tx_emits (pdu_from lib S (ptx_cfg ?start) M) ?start e1 evs" by metis
    have "ptx_token_mngr e1 = ptx_token_mngr e" "tx_tasks e = Suc (tx_tasks e1)"
      using e1(4) by (simp_all add: ptx_rest_def tx_tasks_def split tx_task_reordering)
    from return_tx_token_ok [OF o(4) this] obtain tm where tm: "return_tx_token e1 = Some (e1\<lparr>ptx_token_mngr := tm\<rparr>)" "ptx_tokens p (e1\<lparr>ptx_token_mngr := tm\<rparr>)" .
    let ?e = "e1\<lparr>ptx_token_mngr := tm\<rparr>"
    have "ptx_contents lib S D M ?e" by (rule ptx_contentsI [OF e1(3)]) (use ptx_contentsD(6) [OF e1(3)] in auto)
    then have "ptx_ok lib S D M p ?e" using e1(2) tm(2) by (simp add: ptx_ok_def ptx_inv_def)
    then show thesis
      by (intro that [of ?e evs]) (use e1 tm(1) in \<open>simp_all add: tx_task_reordering ptx_rest_def ptx_same_def tx_emits_def\<close>)
  qed
qed

lemma tx_timeout_ok:
  assumes ok: "ptx_ok lib S D M p e" and timer: "ptx_crypto_reordering_timer e"
  obtains e' evs where "crypto_reordering_timeout now (e\<lparr>ptx_crypto_reordering_timer := False\<rparr>) = Some (e', evs)" "ptx_ok lib S D M p e'" "ptx_same e e'"
    "tx_emits (pdu_from lib S (ptx_cfg e) M) e e' evs"
proof -
  note o = ptx_okD [OF ok]
  let ?start = "e\<lparr>ptx_crypto_reordering_timer := False\<rparr>"
  have con0: "ptx_contents lib S D M ?start" by (rule ptx_contentsI [OF o(5)]) (use ptx_contentsD(6) [OF o(5)] in auto)
  show thesis
  proof (cases "ptx_stopped e")
    case True
    have "ptx_tokens p ?start" using o(4) by (simp add: ptx_tokens_def tx_tasks_def)
    then have "ptx_ok lib S D M p ?start" using o(1,3) con0 by (intro ptx_okI) simp_all
    then show thesis
      by (intro that [of ?start "[]"]) (use True in \<open>simp_all add: crypto_reordering_timeout_def tx_emits_silent ptx_same_def\<close>)
  next
    case run: False
    have core0: "ptx_core ?start" and whole0: "ptx_whole ?start" using o(1,3) run by simp_all
    have "tx_pc ?start \<le> tx_pr ?start" "tx_pr ?start \<le> tx_pn ?start" using o(2) timer by (simp_all add: tx_reord_ok_def)
    from tx_pass_ok [OF core0 this] obtain e1 where e1: "tx_pass_reord ?start = (e1, handed_events (ptx_window e) False (tx_pc e) (tx_pr e))"
      "ptx_handed ?start e1" "tx_pc e1 = tx_pr e" by auto
    have le: "tx_pr e \<le> tx_pn e" "tx_pc e \<le> tx_pr e" using o(2) timer by (simp_all add: tx_reord_ok_def)
    have core1: "ptx_core e1" by (rule ptx_handed_core [OF core0 e1(2)]) (simp add: e1(3) le)
    have whole1: "ptx_whole e1" by (rule ptx_handed_whole [OF e1(2) whole0])
    obtain e2 where e2: "tx_deliver_loop now False (tx_pc e1) e1 = Some (e2, handed_events (ptx_window e1) False (tx_pc e1) (tx_pc e2))"
      "ptx_handed e1 e2" "tx_pc e2 \<le> tx_pn e1" using tx_deliver_ok [OF core1 whole1, of now False] by blast
    have h: "ptx_handed ?start e2" by (rule ptx_handed_trans [OF e1(2) e2(2)])
    have core2: "ptx_core e2" by (rule ptx_handed_core [OF core1 e2(2,3)])
    have whole2: "ptx_whole e2" by (rule ptx_handed_whole [OF e2(2) whole1])
    note f = ptx_handed_fields [OF h]
    have pr: "tx_pr e \<le> tx_pc e2" "tx_pc e2 \<le> tx_pn e2" using ptx_handedD(5) [OF e2(2)] e1(3) ptx_coreD(8) [OF core2] by simp_all
    have "handed_events (ptx_window e1) False (tx_pc e1) (tx_pc e2) = handed_events (ptx_window e) False (tx_pr e) (tx_pc e2)"
      unfolding e1(3)
    proof (rule handed_events_cong)
      fix k
      assume "tx_pr e \<le> k"
      then have "tx_get e1 k = tx_get ?start k" by (intro handed_get_above [OF e1(2)]) (simp add: e1(3))
      then show "tx_get e1 k = tx_get e k" by simp
    qed
    then have evs: "handed_events (ptx_window e) False (tx_pc e) (tx_pr e) @ handed_events (ptx_window e1) False (tx_pc e1) (tx_pc e2) =
        handed_events (ptx_window e) False (tx_pc e) (tx_pc e2)"
      using handed_events_append [OF le(2) pr(1)] by simp
    let ?new = "if tx_pc e2 < tx_pn e2 then reord_started e2 else e2"
    have eq: "crypto_reordering_timeout now ?start = Some (?new, handed_events (ptx_window e) False (tx_pc e) (tx_pc e2))"
      using run e1(1) e2(1) evs by (simp add: crypto_reordering_timeout_def ptx_then_def reord_started_def)
    have same: "?new = reord_timers e2" using f(7) by (simp add: reord_timers_def)
    have "ptx_crypto_reordering_timer e2 \<longrightarrow> tx_pr e2 \<le> tx_pn e2" using f(7) by simp
    note r = reord_timers_ok [OF core2 this]
    have rest0: "ptx_rest ?start (reord_timers e2)" by (rule ptx_rest_trans [OF ptx_handed_rest [OF h] r(4)])
    have el: "elem_from lib S (ptx_cfg e) M k elem" if "tx_get ?start k = Some elem" for k elem using ptx_contentsD(6) [OF con0 that] by simp
    have el2: "elem_from lib S (ptx_cfg e) M k elem" if "tx_get e2 k = Some elem" for k elem by (rule elem_from_handed [OF h el that])
    have con: "ptx_contents lib S D M (reord_timers e2)" by (rule ptx_rest_contents [OF con0 rest0]) (simp add: r(6) el2)
    have "ptx_tokens p (reord_timers e2)" using o(4) ptx_rest_tokens [OF rest0] by (simp add: ptx_tokens_def tx_tasks_def)
    then have ok': "ptx_ok lib S D M p ?new" unfolding same by (intro ptx_okI r(1,2) con) (simp_all add: r(3) whole2)
    have pf: "pdu_from lib S (ptx_cfg e) M k (pdu_at (ptx_window e) k)" if "pdu_at (ptx_window e) k \<noteq> []" for k
      by (rule elem_from_pdu_at [OF ptx_contentsD(6) [OF o(5)] that])
    have "tx_emits (pdu_from lib S (ptx_cfg e) M) e ?new (handed_events (ptx_window e) False (tx_pc e) (tx_pc e2))"
      unfolding same tx_emits_def r(5) using pf order_trans [OF le(2) pr(1)] by blast
    moreover have "ptx_same e ?new" unfolding same using rest0 by (simp add: ptx_rest_def ptx_same_def)
    ultimately show thesis using that [OF eq ok'] by blast
  qed
qed

end
