(* ===== verification/Pdcp_Tx_Ops.thy ===== *)
theory Pdcp_Tx_Ops
  imports Pdcp_Tx_Steps
begin

text \<open>
  The other operations of the transmitting PDCP entity keep the invariant: SDUs, buffering, retransmission, stopping,
  security, re-establishment, data recovery and status transfer.
\<close>

section \<open>New SDUs\<close>

lemma header_written:
  assumes "ptx_core e"
  obtains buf where "pdcp_write_data_pdu_header (ptx_rb_type (ptx_cfg e)) (ptx_sn_size (ptx_cfg e)) True sdu (pdcp_compute_sn c (ptx_sn_size (ptx_cfg e))) = Inr buf"
proof -
  have "\<exists>buf. pdcp_write_data_pdu_header (ptx_rb_type (ptx_cfg e)) (ptx_sn_size (ptx_cfg e)) True sdu (pdcp_compute_sn c (ptx_sn_size (ptx_cfg e))) = Inr buf"
    using ptx_coreD(12,14) [OF assms] by (cases "ptx_sn_size (ptx_cfg e)") (auto simp: pdcp_write_data_pdu_header_def Let_def)
  then show thesis using that by blast
qed

text \<open>An SDU enters the window under TX_NEXT.\<close>

definition ptx_added :: "pdcp_entity_tx \<Rightarrow> pdcp_tx_window \<Rightarrow> pdcp_entity_tx" where
  "ptx_added e w = e\<lparr>ptx_window := w, ptx_st := (ptx_st e)\<lparr>ptx_next := tx_pn e + 1\<rparr>\<rparr>"

lemma ptx_added_inv:
  assumes inv: "ptx_inv e" and lt: "tx_pn e < m" and elem: "twe_count elem = tx_pn e" "ticks_ok (ptx_cfg e) elem"
    and room: "uint (tx_pn e) < uint (tx_pa e) + tx_W e" and add: "tw_add_sdu elem (ptx_window e) = Some w"
  shows "ptx_inv (ptx_added e w)" "tw_get w = (tx_get e)(tx_pn e \<mapsto> elem)"
proof -
  have core: "ptx_core e" using inv by (simp add: ptx_inv_def)
  note k = ptx_coreD [OF core] and s = count_succ [OF lt]
  have free: "tx_get e (twe_count elem) = None" using k(4) [of "tx_pn e"] by (cases "tx_get e (tx_pn e)") (auto simp: elem)
  obtain w' where "tw_add_sdu elem (ptx_window e) = Some w'" and g: "tw_get w' = (tx_get e)(twe_count elem \<mapsto> elem)"
    and near: "near_window (tw_map w') (uint (tx_pa e)) (tx_W e)"
    and tot: "tw_sdu_bytes w' = tw_sdu_bytes (ptx_window e) + twe_sdu_length elem" "tw_nof_sdus w' = tw_nof_sdus (ptx_window e) + 1"
    by (rule tw_add_get [OF k(1) _ _ free]) (use room k(2) in \<open>simp_all add: elem word_le_def\<close>)
  then have w: "w' = w" using add by simp
  show get: "tw_get w = (tx_get e)(tx_pn e \<mapsto> elem)" using g by (simp add: w elem)
  have totals: "tw_totals w" using totals_add [OF k(11) free g tot] by (simp add: w)
  have u: "uint (tx_pn e + 1) = uint (tx_pn e) + 1" by (rule count_step(1) [OF lt])
  have le: "j \<le> tx_pn e + 1" if "j \<le> tx_pn e" for j using that s(3) by simp
  have "\<forall>j el. tw_get w j = Some el \<longrightarrow> j < tx_pn e + 1 \<and> twe_count el = j \<and> ticks_ok (ptx_cfg e) el"
  proof (intro allI impI)
    fix j el
    assume g: "tw_get w j = Some el"
    show "j < tx_pn e + 1 \<and> twe_count el = j \<and> ticks_ok (ptx_cfg e) el"
    proof (cases "j = tx_pn e")
      case True
      then show ?thesis using g elem s(3) by (simp add: get)
    next
      case False
      then have "tx_get e j = Some el" using g by (simp add: get)
      from k(4-6) [OF this] show ?thesis using s(3) by auto
    qed
  qed
  then have "ptx_core (ptx_added e w)"
    using near totals room u le [OF k(2)] le [OF k(8)] k(9,10,12,13,14,15) unfolding ptx_core_def ptx_added_def by (simp add: w)
  moreover have "tx_reord_ok (ptx_added e w)" using inv le by (auto simp: ptx_inv_def tx_reord_ok_def ptx_added_def)
  moreover have "ptx_whole (ptx_added e w)" if whole: "ptx_whole e"
  proof (unfold ptx_whole_def, intro allI impI)
    fix j
    assume j: "tx_pc (ptx_added e w) \<le> j" "j < tx_pn (ptx_added e w)"
    show "tx_get (ptx_added e w) j \<noteq> None"
    proof (cases "j = tx_pn e")
      case False
      then have "j < tx_pn e" using j(2) s(1) [of j] by (simp add: ptx_added_def order_le_less)
      then show ?thesis using whole j(1) False by (simp add: ptx_whole_def ptx_added_def get)
    qed (simp add: ptx_added_def get)
  qed
  ultimately show "ptx_inv (ptx_added e w)" using inv by (auto simp: ptx_inv_def ptx_added_def)
qed

lemma ptx_added_contents:
  assumes con: "ptx_contents lib S D M e" and lt: "tx_pn e < m" and sdu: "sdu \<in> D"
    and get: "tw_get w = (tx_get e)(tx_pn e \<mapsto> elem)" and elem: "twe_pdu elem = []"
    "ptx_discard_timer (ptx_cfg e) \<noteq> None \<Longrightarrow> ptx_is_am e \<Longrightarrow> twe_sdu elem = sdu"
  shows "ptx_contents lib S D (M(tx_pn e \<mapsto> sdu)) (ptx_added e w)" "M \<subseteq>\<^sub>m M(tx_pn e \<mapsto> sdu)"
proof -
  note c = ptx_contentsD [OF con] and s = count_succ [OF lt]
  have "M (tx_pn e) = None" using c(4) [of "tx_pn e"] by (cases "M (tx_pn e)") auto
  then show le: "M \<subseteq>\<^sub>m M(tx_pn e \<mapsto> sdu)" by (simp add: map_le_def dom_def)
  have "\<forall>c x. (M(tx_pn e \<mapsto> sdu)) c = Some x \<longrightarrow> c < tx_pn e + 1 \<and> x \<in> D"
  proof (intro allI impI)
    fix c x
    assume "(M(tx_pn e \<mapsto> sdu)) c = Some x"
    then show "c < tx_pn e + 1 \<and> x \<in> D" using c(4,5) [of c x] s(3) sdu by (auto split: if_splits)
  qed
  moreover have "\<forall>k el. tw_get w k = Some el \<longrightarrow> elem_from lib S (ptx_cfg e) (M(tx_pn e \<mapsto> sdu)) k el"
  proof (intro allI impI)
    fix k el
    assume g: "tw_get w k = Some el"
    show "elem_from lib S (ptx_cfg e) (M(tx_pn e \<mapsto> sdu)) k el"
    proof (cases "k = tx_pn e")
      case True
      then show ?thesis using g elem by (simp add: get elem_from_def)
    next
      case False
      then have "tx_get e k = Some el" using g by (simp add: get)
      from elem_from_mono [OF le c(6) [OF this]] show ?thesis .
    qed
  qed
  ultimately show "ptx_contents lib S D (M(tx_pn e \<mapsto> sdu)) (ptx_added e w)"
    using c(1-3) buf_from_mono [OF le c(7)] pdu_from_mono [OF le c(8)] unfolding ptx_contents_def ptx_added_def by (simp del: fun_upd_apply)
qed

text \<open>A task of the crypto pool with its token.\<close>

lemma submit_crypto_task_ok:
  assumes inv: "ptx_inv e" and con: "ptx_contents lib S D M e" and tok: "ptx_tokens False e" "tx_tasks e < 2 ^ 30"
    and buf: "buf_from (ptx_cfg e) M (tbi_count info) (tbi_buf info)"
  obtains tm cs where "submit_crypto_task crypto_ok info e = Some (e\<lparr>ptx_token_mngr := tm, ptx_crypto_tasks := cs\<rparr>)"
    "ptx_ok lib S D M False (e\<lparr>ptx_token_mngr := tm, ptx_crypto_tasks := cs\<rparr>)" "cs = (if crypto_ok then ptx_crypto_tasks e @ [info] else ptx_crypto_tasks e)"
proof (cases crypto_ok)
  case True
  let ?e = "e\<lparr>ptx_token_mngr := increment_token (ptx_token_mngr e), ptx_crypto_tasks := ptx_crypto_tasks e @ [info]\<rparr>"
  have "ptx_tokens False ?e" using tok by (simp add: ptx_tokens_def tx_tasks_def increment_token_def)
  moreover have "ptx_contents lib S D M ?e" using ptx_contentsD [OF con] buf by (auto simp: ptx_contents_def)
  ultimately show thesis
    by (intro that [of "ptx_crypto_tasks e @ [info]" "increment_token (ptx_token_mngr e)"])
      (use True inv in \<open>simp_all add: submit_crypto_task_def ptx_ok_def ptx_inv_def\<close>)
next
  case False
  have "return_token (increment_token (ptx_token_mngr e)) = Some (ptx_token_mngr e)"
    using return_token_ok [of "tx_tasks e" False] tok by (simp add: ptx_tokens_def increment_token_def add.commute)
  then have "submit_crypto_task crypto_ok info e = Some (e\<lparr>ptx_token_mngr := ptx_token_mngr e, ptx_crypto_tasks := ptx_crypto_tasks e\<rparr>)"
    using False by (simp add: submit_crypto_task_def return_tx_token_def)
  then show thesis by (rule that) (use False inv con tok in \<open>simp_all add: ptx_ok_def\<close>)
qed

lemma check_max_count_tx_ok:
  assumes "tx_check_max_count e = (e1, evs, refused)"
  obtains a b where "e1 = e\<lparr>ptx_max_count_notified := a, ptx_max_count_overflow := b\<rparr>" "pdu_counts evs = []"
    "refused \<longleftrightarrow> tx_pn e \<ge> mc_hard (ptx_max_count (ptx_cfg e))"
proof -
  have "refused \<longleftrightarrow> tx_pn e \<ge> mc_hard (ptx_max_count (ptx_cfg e))" "pdu_counts evs = []"
    using assms by (auto simp: tx_check_max_count_def split: if_splits)
  moreover have "\<exists>a b. e1 = e\<lparr>ptx_max_count_notified := a, ptx_max_count_overflow := b\<rparr>"
  proof -
    consider "e1 = e\<lparr>ptx_max_count_overflow := True\<rparr>" | "e1 = e\<lparr>ptx_max_count_notified := True\<rparr>" | "e1 = e"
      using assms by (auto simp: tx_check_max_count_def split: if_splits)
    then show ?thesis
    proof cases
      case 1
      then show ?thesis by (intro exI [of _ "ptx_max_count_notified e"] exI [of _ True]) simp
    next
      case 2
      then show ?thesis by (intro exI [of _ True] exI [of _ "ptx_max_count_overflow e"]) simp
    next
      case 3
      then show ?thesis by (intro exI [of _ "ptx_max_count_notified e"] exI [of _ "ptx_max_count_overflow e"]) simp
    qed
  qed
  ultimately show thesis using that by blast
qed

lemma early_drop_room:
  assumes "ptx_core e" "check_early_drop buf e = no_drop"
  shows "uint (tx_pn e) < uint (tx_pa e) + tx_W e"
proof -
  note k = ptx_coreD [OF assms(1)]
  have "tx_pn e - tx_pa e < ptx_window_size e - 1" using assms(2) by (auto simp: check_early_drop_def Let_def split: if_splits)
  moreover have "uint (tx_pn e - tx_pa e) = uint (tx_pn e) - uint (tx_pa e)" using k(2) by (simp add: uint_sub_if' word_le_def)
  moreover have "uint (ptx_window_size e - 1) \<le> tx_W e"
    using k(13) pdcp_win_pos [of "ptx_sn_size (ptx_cfg e)"] by (simp add: uint_sub_if')
  ultimately show ?thesis by (simp add: word_less_def)
qed

text \<open>What an SDU does: nothing, or it takes TX_NEXT.\<close>

definition sdu_taken :: "tx_sdus \<Rightarrow> bytes \<Rightarrow> pdcp_entity_tx \<Rightarrow> pdcp_entity_tx \<Rightarrow> tx_sdus \<Rightarrow> bool" where
  "sdu_taken M buf e e' M' \<longleftrightarrow> ptx_same e e' \<and> tx_pc e' = tx_pc e \<and> tx_pa e' = tx_pa e \<and> tx_tasks e' \<le> Suc (tx_tasks e) \<and>
     (M' = M \<and> tx_pn e' = tx_pn e \<or> M' = M(tx_pn e \<mapsto> buf) \<and> tx_pn e' = tx_pn e + 1 \<and> uint (tx_pn e') = uint (tx_pn e) + 1)"

lemma sdu_taken_none: "sdu_taken M buf e e M" by (simp add: sdu_taken_def)

lemma ptx_flags_ok:
  assumes "ptx_ok lib S D M p e"
  shows "ptx_ok lib S D M p (e\<lparr>ptx_max_count_notified := a, ptx_max_count_overflow := b\<rparr>)" "ptx_ok lib S D M p (e\<lparr>ptx_disc_timer := d\<rparr>)"
    "ptx_ok lib S D M p (e\<lparr>ptx_buffering := f\<rparr>)" "ptx_ok lib S D M p (e\<lparr>ptx_desired_buffer_size := n\<rparr>)"
    "set q \<subseteq> D \<Longrightarrow> ptx_ok lib S D M p (e\<lparr>ptx_sdu_buffer := q\<rparr>)"
  using assms by (simp_all add: ptx_ok_def ptx_inv_def ptx_tokens_def tx_tasks_def ptx_contents_def)

lemma start_discard_eq: "\<exists>d. start_discard_timer e = e\<lparr>ptx_disc_timer := d\<rparr>"
proof -
  have same: "\<exists>d. e = e\<lparr>ptx_disc_timer := d\<rparr>" by (rule exI [of _ "ptx_disc_timer e"]) simp
  show ?thesis
  proof (cases "\<exists>ms. ptx_discard_timer (ptx_cfg e) = Some (discard_timer_ms ms) \<and> ptx_disc_timer e = None")
    case True
    then obtain ms where "ptx_discard_timer (ptx_cfg e) = Some (discard_timer_ms ms)" "ptx_disc_timer e = None" by blast
    then have "start_discard_timer e = e\<lparr>ptx_disc_timer := Some (of_nat ms)\<rparr>" by (simp add: start_discard_timer_def)
    then show ?thesis by blast
  next
    case False
    then have "start_discard_timer e = e" unfolding start_discard_timer_def by (cases "ptx_discard_timer (ptx_cfg e)") (auto split: pdcp_discard_timer.split)
    then show ?thesis using same by (simp only:)
  qed
qed

text \<open>The element of an SDU in the window.\<close>

definition sdu_elem :: "u32 \<Rightarrow> bytes \<Rightarrow> pdcp_entity_tx \<Rightarrow> pdcp_tx_window_element" where
  "sdu_elem now buf e =
     \<lparr>twe_sdu = (if ptx_discard_timer (ptx_cfg e) \<noteq> None \<and> ptx_is_am e then buf else []), twe_count = tx_pn e,
      twe_tick_point_of_arrival = (case ptx_discard_timer (ptx_cfg e) of Some (discard_timer_ms _) \<Rightarrow> Some now | _ \<Rightarrow> None),
      twe_pdu = [], twe_sdu_length = of_nat (length buf)\<rparr>"

lemma sdu_elem_ok: "twe_count (sdu_elem now buf e) = tx_pn e" "ticks_ok (ptx_cfg e) (sdu_elem now buf e)" "twe_pdu (sdu_elem now buf e) = []"
  "ptx_discard_timer (ptx_cfg e) \<noteq> None \<Longrightarrow> ptx_is_am e \<Longrightarrow> twe_sdu (sdu_elem now buf e) = buf"
  by (auto simp: sdu_elem_def ticks_ok_def split: option.splits pdcp_discard_timer.splits)

lemma transmit_sdu_ok:
  assumes ok: "ptx_ok lib S D M False e" and run: "\<not> ptx_stopped e" and buf: "buf \<in> D" and few: "tx_tasks e < 2 ^ 30" and lt: "tx_pn e < m"
    and room: "uint (tx_pn e) < uint (tx_pa e) + tx_W e"
  obtains w e' where "tw_add_sdu (sdu_elem now buf e) (ptx_window e) = Some w" "transmit_sdu True crypto_ok buf (e\<lparr>ptx_window := w\<rparr>) = Some (e', [])"
    "ptx_ok lib S D (M(tx_pn e \<mapsto> buf)) False e'" "M \<subseteq>\<^sub>m M(tx_pn e \<mapsto> buf)" "sdu_taken M buf e e' (M(tx_pn e \<mapsto> buf))"
proof -
  note o = ptx_okD [OF ok]
  have inv: "ptx_inv e" using ok by (simp add: ptx_ok_def)
  have free: "tx_get e (twe_count (sdu_elem now buf e)) = None"
    using ptx_coreD(4) [OF o(1), of "tx_pn e"] by (cases "tx_get e (tx_pn e)") (auto simp: sdu_elem_ok)
  obtain w where w: "tw_add_sdu (sdu_elem now buf e) (ptx_window e) = Some w"
    by (rule tw_add_get [OF ptx_coreD(1) [OF o(1)] _ _ free]) (use room ptx_coreD(2) [OF o(1)] in \<open>simp_all add: sdu_elem_ok word_le_def\<close>)
  note a = ptx_added_inv [OF inv lt sdu_elem_ok(1,2) room w]
  note c = ptx_added_contents [OF o(5) lt buf a(2) sdu_elem_ok(3,4)]
  let ?M = "M(tx_pn e \<mapsto> buf)"
  obtain pdu where h: "pdcp_write_data_pdu_header (ptx_rb_type (ptx_cfg e)) (ptx_sn_size (ptx_cfg e)) True buf
      (pdcp_compute_sn (tx_pn e) (ptx_sn_size (ptx_cfg e))) = Inr pdu" by (rule header_written [OF o(1)])
  let ?info = "\<lparr>tbi_is_retx = False, tbi_retx_id = ptx_retransmit_id e, tbi_count = tx_pn e, tbi_buf = pdu\<rparr>"
  have t: "ptx_tokens False (ptx_added e w)" "tx_tasks (ptx_added e w) < 2 ^ 30" using o(4) few by (simp_all add: ptx_added_def ptx_tokens_def tx_tasks_def)
  have b: "buf_from (ptx_cfg (ptx_added e w)) ?M (tbi_count ?info) (tbi_buf ?info)" using h by (simp add: buf_from_def ptx_added_def)
  obtain tm cs where e': "submit_crypto_task crypto_ok ?info (ptx_added e w) = Some ((ptx_added e w)\<lparr>ptx_token_mngr := tm, ptx_crypto_tasks := cs\<rparr>)"
    "ptx_ok lib S D ?M False ((ptx_added e w)\<lparr>ptx_token_mngr := tm, ptx_crypto_tasks := cs\<rparr>)"
    "cs = (if crypto_ok then ptx_crypto_tasks (ptx_added e w) @ [?info] else ptx_crypto_tasks (ptx_added e w))"
    by (rule submit_crypto_task_ok [OF a(1) c(1) t b])
  have eq: "(e\<lparr>ptx_window := w\<rparr>)\<lparr>ptx_st := (ptx_st (e\<lparr>ptx_window := w\<rparr>))\<lparr>ptx_next := tx_pn e + 1\<rparr>\<rparr> = ptx_added e w" by (simp add: ptx_added_def)
  have "transmit_sdu True crypto_ok buf (e\<lparr>ptx_window := w\<rparr>) = Some ((ptx_added e w)\<lparr>ptx_token_mngr := tm, ptx_crypto_tasks := cs\<rparr>, [])"
    using h e'(1) eq by (simp add: transmit_sdu_def Let_def)
  moreover have "sdu_taken M buf e ((ptx_added e w)\<lparr>ptx_token_mngr := tm, ptx_crypto_tasks := cs\<rparr>) ?M"
    using count_step(1) [OF lt] by (simp add: sdu_taken_def ptx_same_def tx_tasks_def ptx_added_def e'(3))
  ultimately show thesis by (intro that [OF w _ e'(2) c(2)])
qed

lemma handle_sdu_ok:
  assumes ok: "ptx_ok lib S D M p e" and buf: "buf \<in> D" and few: "tx_tasks e < 2 ^ 30" and p: "p \<Longrightarrow> ptx_stopped e \<or> ptx_buffering e"
    and room: "ptx_is_srb e \<Longrightarrow> uint (tx_pn e) < uint (tx_pa e) + tx_W e"
  obtains e' evs M' where "pdcp_tx_handle_sdu now (copy_ok, True, crypto_ok) buf e = Some (e', evs)" "ptx_ok lib S D M' p e'" "M \<subseteq>\<^sub>m M'"
    "sdu_taken M buf e e' M'" "pdu_counts evs = []"
proof -
  note result = that
  note o = ptx_okD [OF ok]
  show thesis
  proof (cases "ptx_stopped e \<or> ptx_buffering e \<or> \<not> ptx_is_srb e \<and> check_early_drop buf e \<noteq> no_drop")
    case True
    let ?q = "e\<lparr>ptx_sdu_buffer := ptx_sdu_buffer e @ [buf]\<rparr>"
    have "ptx_ok lib S D M p ?q" by (rule ptx_flags_ok(5) [OF ok]) (use ptx_contentsD(3) [OF o(5)] buf in simp)
    moreover have "sdu_taken M buf e ?q M" by (simp add: sdu_taken_def ptx_same_def tx_tasks_def)
    moreover have "pdcp_tx_handle_sdu now (copy_ok, True, crypto_ok) buf e =
        Some (if \<not> ptx_stopped e \<and> ptx_buffering e \<and> length (ptx_sdu_buffer e) < 2048 then ?q else e, [])"
      using True by (auto simp: pdcp_tx_handle_sdu_def)
    ultimately show thesis using result [of _ "[]" M] ok sdu_taken_none by (simp split: if_splits)
  next
    case False
    then have run: "\<not> ptx_stopped e" "\<not> p" using p by blast+
    obtain e1 evs1 refused where mc: "tx_check_max_count e = (e1, evs1, refused)" by (cases "tx_check_max_count e")
    obtain a b where e1: "e1 = e\<lparr>ptx_max_count_notified := a, ptx_max_count_overflow := b\<rparr>" "pdu_counts evs1 = []"
      "refused \<longleftrightarrow> tx_pn e \<ge> mc_hard (ptx_max_count (ptx_cfg e))" by (rule check_max_count_tx_ok [OF mc])
    have ok1: "ptx_ok lib S D M p e1" unfolding e1(1) by (rule ptx_flags_ok(1) [OF ok])
    have t1: "sdu_taken M buf e e1 M" by (simp add: e1(1) sdu_taken_def ptx_same_def tx_tasks_def)
    show thesis
    proof (cases refused)
      case True
      then show thesis using False mc by (intro result [OF _ ok1 map_le_refl t1 e1(2)]) (auto simp: pdcp_tx_handle_sdu_def)
    next
      case accepted: False
      then have lt: "tx_pn e < mc_hard (ptx_max_count (ptx_cfg e))" using e1(3) by simp
      define e2 where "e2 = start_discard_timer e1"
      obtain d where e2: "e2 = e1\<lparr>ptx_disc_timer := d\<rparr>" using start_discard_eq unfolding e2_def by blast
      have ok2: "ptx_ok lib S D M p e2" unfolding e2 by (rule ptx_flags_ok(2) [OF ok1])
      have f1: "ptx_st e1 = ptx_st e" "ptx_cfg e1 = ptx_cfg e" by (simp_all add: e1(1))
      have f2: "ptx_st e2 = ptx_st e" "ptx_cfg e2 = ptx_cfg e" "ptx_window e2 = ptx_window e" "ptx_stopped e2 = ptx_stopped e" "ptx_buffering e2 = ptx_buffering e"
        "ptx_crypto_tasks e2 = ptx_crypto_tasks e" "ptx_ue_tasks e2 = ptx_ue_tasks e"
        by (simp_all add: e2 e1(1))
      have room2: "uint (tx_pn e2) < uint (tx_pa e2) + tx_W e2"
        using room early_drop_room [OF o(1), of buf] False by (cases "ptx_is_srb e") (simp_all add: f2)
      have run2: "\<not> ptx_stopped e2" "ptx_ok lib S D M False e2" "tx_tasks e2 < 2 ^ 30" "tx_pn e2 < mc_hard (ptx_max_count (ptx_cfg e))"
        using run ok2 few lt by (simp_all add: f2 tx_tasks_def)
      obtain w e3 where e3: "tw_add_sdu (sdu_elem now buf e2) (ptx_window e2) = Some w"
        "transmit_sdu True crypto_ok buf (e2\<lparr>ptx_window := w\<rparr>) = Some (e3, [])" "ptx_ok lib S D (M(tx_pn e2 \<mapsto> buf)) False e3"
        "M \<subseteq>\<^sub>m M(tx_pn e2 \<mapsto> buf)" "sdu_taken M buf e2 e3 (M(tx_pn e2 \<mapsto> buf))"
        by (rule transmit_sdu_ok [OF run2(2,1) buf run2(3,4) room2])
      have tk: "sdu_taken M buf e e' M'" if "sdu_taken M buf e2 e' M'" for e' M' using that by (simp add: sdu_taken_def ptx_same_def tx_tasks_def f2)
      let ?drop = "ptx_discard_timer (ptx_cfg e) \<noteq> None \<and> ptx_is_am e \<and> \<not> copy_ok"
      have eq: "pdcp_tx_handle_sdu now (copy_ok, True, crypto_ok) buf e =
          (if ?drop then Some (e2, evs1 @ [tx_on_protocol_failure])
           else case tw_add_sdu (sdu_elem now buf e2) (ptx_window e2) of None \<Rightarrow> None
             | Some w \<Rightarrow> ptx_then (Some (e2\<lparr>ptx_window := w\<rparr>, evs1)) (transmit_sdu True crypto_ok buf))"
        using False mc accepted f1 f2 unfolding pdcp_tx_handle_sdu_def sdu_elem_def e2_def by (cases "ptx_is_srb e") (auto simp: Let_def)
      show thesis
      proof (cases ?drop)
        case True
        then show thesis using result [of e2 "evs1 @ [tx_on_protocol_failure]" M] ok2 tk [OF sdu_taken_none] e1(2) eq by simp
      next
        case keep: False
        have "pdcp_tx_handle_sdu now (copy_ok, True, crypto_ok) buf e = Some (e3, evs1)"
          unfolding eq if_not_P [OF keep] using e3(1,2) by (simp add: ptx_then_def)
        then show thesis using result [OF _ _ e3(4) tk [OF e3(5)] e1(2)] e3(3) run(2) by simp
      qed
    qed
  qed
qed

section \<open>Buffered SDUs\<close>

lemma sdu_taken_step:
  assumes "sdu_taken M buf e e1 M1"
  shows "ptx_same e e1" "tx_pc e1 = tx_pc e" "tx_pa e1 = tx_pa e" "tx_tasks e1 \<le> Suc (tx_tasks e)" "uint (tx_pn e1) \<le> uint (tx_pn e) + 1"
  using assms by (auto simp: sdu_taken_def)

lemma flush_sdu_ok:
  assumes "ptx_ok lib S D M p e" "set bufs \<subseteq> D" "tx_tasks e + length bufs \<le> 2 ^ 30" "p \<Longrightarrow> ptx_stopped e" "\<forall>ok \<in> set oks. fst (snd ok)"
    "ptx_is_srb e \<longrightarrow> uint (tx_pn e) + int (length bufs) \<le> uint (tx_pa e) + tx_W e"
  shows "\<exists>e' evs M'. flush_sdu_buffer now oks bufs e = Some (e', evs) \<and> ptx_ok lib S D M' p e' \<and> M \<subseteq>\<^sub>m M' \<and> ptx_same e e' \<and>
    tx_pc e' = tx_pc e \<and> pdu_counts evs = []"
  using assms
proof (induction bufs arbitrary: oks e M)
  case (Cons buf bufs)
  obtain copy_ok prepend_ok crypto_ok where f: "(case oks of [] \<Rightarrow> (True, True, True) | ok # _ \<Rightarrow> ok) = (copy_ok, prepend_ok, crypto_ok)"
    by (cases "case oks of [] \<Rightarrow> (True, True, True) | ok # _ \<Rightarrow> ok")
  then have prepend: "prepend_ok" using Cons.prems(5) by (cases oks) auto
  let ?e = "e\<lparr>ptx_sdu_buffer := bufs\<rparr>"
  have ok: "ptx_ok lib S D M p ?e" by (rule ptx_flags_ok(5) [OF Cons.prems(1)]) (use Cons.prems(2) in simp)
  have tk: "tx_tasks ?e = tx_tasks e" by (simp add: tx_tasks_def)
  have "buf \<in> D" "tx_tasks ?e < 2 ^ 30" "p \<Longrightarrow> ptx_stopped ?e \<or> ptx_buffering ?e" "ptx_is_srb ?e \<Longrightarrow> uint (tx_pn ?e) < uint (tx_pa ?e) + tx_W ?e"
    using Cons.prems(2-4,6) tk by auto
  from handle_sdu_ok [OF ok this] obtain e1 evs1 M1 where h: "pdcp_tx_handle_sdu now (copy_ok, True, crypto_ok) buf ?e = Some (e1, evs1)"
    "ptx_ok lib S D M1 p e1" "M \<subseteq>\<^sub>m M1" "sdu_taken M buf ?e e1 M1" "pdu_counts evs1 = []" by metis
  note t = sdu_taken_step [OF h(4)]
  have "tx_tasks e1 + length bufs \<le> 2 ^ 30" "set bufs \<subseteq> D" "p \<Longrightarrow> ptx_stopped e1"
    "ptx_is_srb e1 \<longrightarrow> uint (tx_pn e1) + int (length bufs) \<le> uint (tx_pa e1) + tx_W e1"
    using t tk Cons.prems(2-6) by (auto simp: ptx_same_def)
  moreover have "\<forall>ok \<in> set (tl oks). fst (snd ok)" using Cons.prems(5) by (cases oks) auto
  ultimately obtain e2 evs2 M2 where r: "flush_sdu_buffer now (tl oks) bufs e1 = Some (e2, evs2)" "ptx_ok lib S D M2 p e2"
    "M1 \<subseteq>\<^sub>m M2" "ptx_same e1 e2" "tx_pc e2 = tx_pc e1" "pdu_counts evs2 = []" using Cons.IH [OF h(2), of "tl oks"] by blast
  have "flush_sdu_buffer now oks (buf # bufs) e = Some (e2, evs1 @ evs2)"
    using h(1) r(1) f prepend by (simp add: ptx_then_def)
  moreover have "M \<subseteq>\<^sub>m M2" by (rule map_le_trans [OF h(3) r(3)])
  moreover have "ptx_same e e2" "tx_pc e2 = tx_pc e" using t(1,2) r(4,5) by (simp_all add: ptx_same_def)
  ultimately show ?case using r(2,6) h(5) by (intro exI [of _ e2] exI [of _ "evs1 @ evs2"] exI [of _ M2]) simp
qed (auto intro: exI [of _ M])

lemma tx_end_buffering_ok:
  assumes ok: "ptx_ok lib S D M p e" and t: "tx_tasks e + length (ptx_sdu_buffer e) \<le> 2 ^ 30" and p: "p \<Longrightarrow> ptx_stopped e"
    and oks: "\<forall>ok \<in> set oks. fst (snd ok)"
    and room: "ptx_is_srb e \<longrightarrow> uint (tx_pn e) + int (length (ptx_sdu_buffer e)) \<le> uint (tx_pa e) + tx_W e"
  obtains e' evs M' where "tx_end_buffering now oks e = Some (e', evs)" "ptx_ok lib S D M' p e'" "M \<subseteq>\<^sub>m M'" "ptx_cfg e' = ptx_cfg e"
    "ptx_stopped e' = ptx_stopped e" "tx_pc e' = tx_pc e" "pdu_counts evs = []"
proof -
  let ?e = "e\<lparr>ptx_buffering := False\<rparr>"
  have "ptx_ok lib S D M p ?e" "set (ptx_sdu_buffer e) \<subseteq> D" "tx_tasks ?e + length (ptx_sdu_buffer e) \<le> 2 ^ 30"
    using ptx_flags_ok(3) [OF ok] ptx_contentsD(3) [OF ptx_okD(5) [OF ok]] t by (simp_all add: tx_tasks_def)
  from flush_sdu_ok [OF this _ oks] p room that show thesis by (auto simp: tx_end_buffering_def ptx_same_def)
qed

section \<open>Retransmission\<close>

lemma retransmit_loop_ok:
  assumes "ptx_ok lib S D M False e" "tx_tasks e + length counts \<le> 2 ^ 30" "ptx_discard_timer (ptx_cfg e) \<noteq> None" "ptx_is_am e"
  shows "\<exists>e' evs. retransmit_loop oks counts e = Some (e', evs) \<and> ptx_ok lib S D M False e' \<and> ptx_same e e' \<and> ptx_st e' = ptx_st e \<and> pdu_counts evs = []"
  using assms
proof (induction counts arbitrary: oks e)
  case (Cons c counts)
  note o = ptx_okD [OF Cons.prems(1)]
  show ?case
  proof (cases "tx_get e c")
    case None
    then show ?thesis using Cons.IH [OF Cons.prems(1) _ Cons.prems(3,4), of oks] Cons.prems(2) by simp
  next
    case (Some elem)
    obtain sdu where sdu: "M c = Some sdu" "twe_sdu elem = sdu" using ptx_contentsD(6) [OF o(5) Some] Cons.prems(3,4) by (auto simp: elem_from_def)
    obtain buf where h: "pdcp_write_data_pdu_header (ptx_rb_type (ptx_cfg e)) (ptx_sn_size (ptx_cfg e)) True sdu
        (pdcp_compute_sn c (ptx_sn_size (ptx_cfg e))) = Inr buf" by (rule header_written [OF o(1)])
    obtain copy_ok prepend_ok crypto_ok where f: "(case oks of [] \<Rightarrow> (True, True, True) | ok # _ \<Rightarrow> ok) = (copy_ok, prepend_ok, crypto_ok)"
      by (cases "case oks of [] \<Rightarrow> (True, True, True) | ok # _ \<Rightarrow> ok")
    let ?info = "\<lparr>tbi_is_retx = True, tbi_retx_id = ptx_retransmit_id e, tbi_count = c, tbi_buf = buf\<rparr>"
    show ?thesis
    proof (cases "copy_ok \<and> prepend_ok")
      case False
      have "pdcp_write_data_pdu_header (ptx_rb_type (ptx_cfg e)) (ptx_sn_size (ptx_cfg e)) False sdu
        (pdcp_compute_sn c (ptx_sn_size (ptx_cfg e))) = Inl False" using h by (auto simp: pdcp_write_data_pdu_header_def split: if_splits)
      then have "retransmit_loop oks (c # counts) e = Some (e, [tx_on_protocol_failure])" using False Some f sdu(2) by (cases copy_ok) auto
      then show ?thesis using Cons.prems(1) by auto
    next
      case True
      have b: "buf_from (ptx_cfg e) M (tbi_count ?info) (tbi_buf ?info)" using sdu(1) h by (simp add: buf_from_def)
      have inv: "ptx_inv e" using Cons.prems(1) by (simp add: ptx_ok_def)
      have few: "tx_tasks e < 2 ^ 30" using Cons.prems(2) by simp
      obtain tm cs where s: "submit_crypto_task crypto_ok ?info e = Some (e\<lparr>ptx_token_mngr := tm, ptx_crypto_tasks := cs\<rparr>)"
        "ptx_ok lib S D M False (e\<lparr>ptx_token_mngr := tm, ptx_crypto_tasks := cs\<rparr>)" "cs = (if crypto_ok then ptx_crypto_tasks e @ [?info] else ptx_crypto_tasks e)"
        by (rule submit_crypto_task_ok [OF inv o(5,4) few b])
      let ?e = "e\<lparr>ptx_token_mngr := tm, ptx_crypto_tasks := cs\<rparr>"
      have "tx_tasks ?e + length counts \<le> 2 ^ 30" using Cons.prems(2) by (simp add: tx_tasks_def s(3))
      from Cons.IH [OF s(2) this, of "tl oks"] Cons.prems(3,4) obtain e' evs where "retransmit_loop (tl oks) counts ?e = Some (e', evs)" "ptx_ok lib S D M False e'"
        "ptx_same ?e e'" "ptx_st e' = ptx_st ?e" "pdu_counts evs = []" by auto
      moreover have "retransmit_loop oks (c # counts) e = retransmit_loop (tl oks) counts ?e"
        using True Some f sdu(2) h s(1) by simp
      ultimately show ?thesis by (auto simp: ptx_same_def)
    qed
  qed
qed auto

text \<open>No SDU between TX_NEXT_ACK and TX_NEXT is missing from the window.\<close>

definition ptx_full :: "pdcp_entity_tx \<Rightarrow> bool" where
  "ptx_full e \<longleftrightarrow> (\<forall>k. tx_pa e \<le> k \<longrightarrow> k < tx_pn e \<longrightarrow> tx_get e k \<noteq> None)"

lemma whole_ack: "ptx_core e \<Longrightarrow> ptx_whole e \<Longrightarrow> tx_pa e \<le> tx_pc e"
  using ptx_coreD(2) [of e] ptx_coreD(8) [of e] ptx_coreD(3) [of e "tx_pc e"] by (fastforce simp: ptx_whole_def order_le_less)

lemma count_range_length: "ptx_core e \<Longrightarrow> length (count_range (tx_pa e) (tx_pn e)) \<le> 2 ^ 18"
proof -
  assume "ptx_core e"
  from ptx_coreD(7) [OF this] pdcp_win_pos(2) [of "ptx_sn_size (ptx_cfg e)"] have "uint (tx_pn e) \<le> uint (tx_pa e) + 262144" by simp
  moreover have "uint (tx_pn e) = int (unat (tx_pn e))" "uint (tx_pa e) = int (unat (tx_pa e))" by simp_all
  ultimately have "unat (tx_pn e) \<le> unat (tx_pa e) + 262144" by linarith
  then show "length (count_range (tx_pa e) (tx_pn e)) \<le> 2 ^ 18" by (simp add: count_range_def)
qed

lemma retransmit_all_ok:
  assumes ok: "ptx_ok lib S D M False e" and run: "\<not> ptx_stopped e" and full: "ptx_full e" and few: "tx_tasks e \<le> 2 ^ 29"
  obtains e' evs where "retransmit_all_pdus oks e = Some (e', evs)" "ptx_ok lib S D M False e'" "ptx_same e e'" "pdu_counts evs = []"
    "ptx_discard_timer (ptx_cfg e) = None \<or> \<not> ptx_is_am e \<Longrightarrow> e' = e"
proof (cases "ptx_discard_timer (ptx_cfg e) = None \<or> \<not> ptx_is_am e")
  case True
  then show thesis using that [of e "[]"] ok by (simp add: retransmit_all_pdus_def)
next
  case False
  note o = ptx_okD [OF ok]
  note k = ptx_coreD [OF o(1)]
  let ?e = "e\<lparr>ptx_st := (ptx_st e)\<lparr>ptx_trans := tx_pa e, ptx_trans_crypto := tx_pa e\<rparr>, ptx_retransmit_id := ptx_retransmit_id e + 1\<rparr>"
  have "ptx_core ?e" using o(1) k(2) by (simp add: ptx_core_def)
  moreover have "tx_reord_ok ?e" using o(2) whole_ack [OF o(1,3) ] run by (auto simp: tx_reord_ok_def intro: order_trans)
  moreover have "ptx_whole ?e" using full by (simp add: ptx_full_def ptx_whole_def)
  moreover have "ptx_tokens False ?e" using o(4) by (simp add: ptx_tokens_def tx_tasks_def)
  moreover have "ptx_contents lib S D M ?e" by (rule ptx_contentsI [OF o(5)]) (use ptx_contentsD(6) [OF o(5)] in auto)
  ultimately have ok': "ptx_ok lib S D M False ?e" by (intro ptx_okI)
  have "tx_tasks ?e + length (count_range (tx_pa e) (tx_pn e)) \<le> 2 ^ 30"
    using few count_range_length [OF o(1)] by (simp add: tx_tasks_def)
  from retransmit_loop_ok [OF ok' this, of oks] False obtain e' evs where
    "retransmit_loop oks (count_range (tx_pa e) (tx_pn e)) ?e = Some (e', evs)" "ptx_ok lib S D M False e'" "ptx_same ?e e'" "pdu_counts evs = []" by auto
  then show thesis using that [of e' evs] False by (simp add: retransmit_all_pdus_def Let_def ptx_same_def)
qed

section \<open>Stopping, security, resets\<close>

lemma ptx_core_empty:
  assumes "near_window (tw_map w) (uint a) (tx_W e)" "tw_totals w" "\<And>k. tw_get w k = None"
    "a = n" "c \<le> n" "t = a" "ptx_sn_size (ptx_cfg e) \<noteq> pdcp_size_invalid" "uint (ptx_window_size e) = tx_W e"
    "ptx_is_srb e \<Longrightarrow> ptx_sn_size (ptx_cfg e) = pdcp_size12bits" "\<not> ptx_test_mode (ptx_cfg e)"
    "ptx_window e = w" "tx_pa e = a" "tx_pn e = n" "tx_pc e = c" "tx_pt e = t"
  shows "ptx_core e"
  using assms pdcp_win_pos(1) [of "ptx_sn_size (ptx_cfg e)"] by (simp add: ptx_core_def)

lemma tx_stop_ok:
  assumes ok: "ptx_ok lib S D M False e" and run: "\<not> ptx_stopped e"
  obtains e' where "pdcp_tx_stop e = Some e'" "ptx_ok lib S D M True e'" "ptx_stopped e'" "tx_pc e' = tx_pc e" "ptx_cfg e' = ptx_cfg e"
proof -
  note o = ptx_okD [OF ok]
  note k = ptx_coreD [OF o(1)]
  define tm where "tm = \<lparr>tm_pending_crypto = (True \<and> tx_tasks e = 0), tm_tokens = of_nat (tx_tasks e) - of_bool True :: u32\<rparr>"
  define d where "d = (if ptx_discard_timer (ptx_cfg e) \<noteq> None then None else ptx_disc_timer e)"
  let ?e = "e\<lparr>ptx_stopped := True, ptx_window := tw_clear (ptx_window e), ptx_disc_timer := d, ptx_crypto_reordering_timer := False, ptx_token_mngr := tm\<rparr>"
  have core: "ptx_core ?e"
    using o(1) tw_clear_near [OF k(1)] totals_clear [of "ptx_window e"] by (simp add: ptx_core_def tw_get_clear)
  have "ptx_tokens True ?e" using o(4) by (simp add: ptx_tokens_def tx_tasks_def tm_def)
  moreover have "ptx_contents lib S D M ?e" by (rule ptx_contentsI [OF o(5)]) (simp_all add: tw_get_clear)
  moreover have "tx_reord_ok ?e" by (simp add: tx_reord_ok_def)
  ultimately have ok': "ptx_ok lib S D M True ?e" using core by (intro ptx_okI) simp_all
  have "pdcp_tx_stop e = Some ?e"
    using run tx_token_stop_ok [OF o(4)] by (simp add: pdcp_tx_stop_def Let_def d_def tm_def)
  then show thesis using that [of ?e] ok' by simp
qed

lemma tx_notify_stopped_ok:
  assumes ok: "ptx_ok lib S D M False e" and run: "\<not> ptx_stopped e"
  obtains e' where "tx_notify_pdu_processing_stopped e = Some e'" "ptx_ok lib S D M True e'" "ptx_same e e'" "tx_pc e' = tx_pc e"
proof -
  note o = ptx_okD [OF ok]
  define tm where "tm = \<lparr>tm_pending_crypto = (True \<and> tx_tasks e = 0), tm_tokens = of_nat (tx_tasks e) - of_bool True :: u32\<rparr>"
  let ?e = "e\<lparr>ptx_token_mngr := tm\<rparr>"
  have "ptx_tokens True ?e" using o(4) by (simp add: ptx_tokens_def tx_tasks_def tm_def)
  moreover have "ptx_contents lib S D M ?e" by (rule ptx_contentsI [OF o(5)]) (use ptx_contentsD(6) [OF o(5)] in auto)
  ultimately have "ptx_ok lib S D M True ?e" using o by (intro ptx_okI) simp_all
  moreover have "tx_notify_pdu_processing_stopped e = Some ?e"
    using run tx_token_stop_ok [OF o(4)] by (simp add: tx_notify_pdu_processing_stopped_def tm_def)
  ultimately show thesis using that [of ?e] by (simp add: ptx_same_def)
qed

lemma tx_restart_ok:
  assumes ok: "ptx_ok lib S D M True e" and run: "\<not> ptx_stopped e"
  shows "ptx_ok lib S D M False (tx_restart_pdu_processing e)" "ptx_same e (tx_restart_pdu_processing e)" "tx_pc (tx_restart_pdu_processing e) = tx_pc e"
proof -
  note o = ptx_okD [OF ok]
  let ?e = "e\<lparr>ptx_token_mngr := token_start (ptx_token_mngr e)\<rparr>"
  have r: "tx_restart_pdu_processing e = ?e" using run by (simp add: tx_restart_pdu_processing_def)
  have "ptx_tokens False ?e" using o(4) by (simp add: ptx_tokens_def tx_tasks_def token_start_def increment_token_def)
  moreover have "ptx_contents lib S D M ?e" by (rule ptx_contentsI [OF o(5)]) (use ptx_contentsD(6) [OF o(5)] in auto)
  ultimately show "ptx_ok lib S D M False (tx_restart_pdu_processing e)" unfolding r using o by (intro ptx_okI) simp_all
qed (use run in \<open>simp_all add: tx_restart_pdu_processing_def ptx_same_def\<close>)

lemma tx_configure_ok:
  assumes ok: "ptx_ok lib S D M p e" and run: "pdcp_tx_configure_security lib' sec i c e = Some e'" and S: "set (ptx_sec_engine_pool e') \<subseteq> S"
  shows "ptx_ok lib S D M p e'" "ptx_same e e'" "ptx_st e' = ptx_st e" "ptx_window e' = ptx_window e" "tx_tasks e' = tx_tasks e"
proof -
  note o = ptx_okD [OF ok]
  have e: "e' = e \<or> (\<exists>g. e' = e\<lparr>ptx_integrity_enabled := i, ptx_ciphering_enabled := c,
      ptx_sec_engine_pool := replicate (ptx_max_nof_crypto_workers e) g\<rparr>)"
    using run by (auto simp: pdcp_tx_configure_security_def Let_def split: if_splits option.splits)
  have "ptx_ok lib S D M p e' \<and> ptx_same e e' \<and> ptx_st e' = ptx_st e \<and> ptx_window e' = ptx_window e \<and> tx_tasks e' = tx_tasks e"
  proof (cases "e' = e")
    case False
    then obtain g where g: "e' = e\<lparr>ptx_integrity_enabled := i, ptx_ciphering_enabled := c,
      ptx_sec_engine_pool := replicate (ptx_max_nof_crypto_workers e) g\<rparr>" using e by blast
    have "ptx_contents lib S D M e'" using o(5) S unfolding g by (simp add: ptx_contents_def)
    moreover have "ptx_core e'" "ptx_whole e' = ptx_whole e" "tx_reord_ok e'" "ptx_tokens p e'"
      using o unfolding g by (simp_all add: ptx_core_def ptx_whole_def tx_reord_ok_def ptx_tokens_def tx_tasks_def)
    ultimately have "ptx_ok lib S D M p e'" using o(3) by (intro ptx_okI) (simp_all add: g)
    then show ?thesis by (simp add: g ptx_same_def tx_tasks_def)
  qed (use ok in simp)
  then show "ptx_ok lib S D M p e'" "ptx_same e e'" "ptx_st e' = ptx_st e" "ptx_window e' = ptx_window e" "tx_tasks e' = tx_tasks e" by blast+
qed

text \<open>A new period starts with an empty window and no COUNT given out.\<close>

lemma ptx_fresh_ok:
  assumes ok: "ptx_ok lib S D M p e" and none: "tx_tasks e = 0" and empty: "\<And>k. tw_get w k = None"
    and w: "near_window (tw_map w) (uint c) (tx_W e)" "tw_totals w"
    and e': "e' = e\<lparr>ptx_st := \<lparr>ptx_next = c, ptx_trans_crypto = c, ptx_reord_crypto = c, ptx_trans = c, ptx_next_ack = c\<rparr>, ptx_window := w\<rparr>"
  shows "ptx_ok lib S D Map.empty p e'"
proof -
  note o = ptx_okD [OF ok]
  note k = ptx_coreD [OF o(1)]
  have none': "ptx_crypto_tasks e = []" "tx_task_reordering info \<notin> set (ptx_ue_tasks e)" for info
    using none by (auto simp: tx_tasks_def filter_empty_conv)
  have "ptx_core e'" by (rule ptx_core_empty [OF _ w(2) empty]) (use w(1) k(12-15) in \<open>simp_all add: e'\<close>)
  moreover have "ptx_contents lib S D Map.empty e'"
    using ptx_contentsD(1-3) [OF o(5)] none' empty by (simp add: ptx_contents_def e')
  moreover have "ptx_tokens p e'" using o(4) by (simp add: ptx_tokens_def tx_tasks_def e')
  ultimately show ?thesis by (intro ptx_okI) (auto simp: e' tx_reord_ok_def ptx_whole_def dest: leD)
qed

lemma tx_reset_ok:
  assumes "ptx_ok lib S D M p e" "tx_tasks e = 0"
  shows "ptx_ok lib S D Map.empty p (tx_reset e)" "ptx_full (tx_reset e)" "ptx_same e (tx_reset e)" "tx_tasks (tx_reset e) = 0"
proof -
  note k = ptx_coreD [OF ptx_okD(1) [OF assms(1)]]
  have "near_window (tw_map (tw_clear (ptx_window e))) (uint (0 :: u32)) (tx_W e)" using tw_clear_near [OF k(1), of 0] by simp
  then show "ptx_ok lib S D Map.empty p (tx_reset e)"
    by (rule ptx_fresh_ok [OF assms tw_get_clear _ totals_clear]) (simp add: tx_reset_def)
qed (use assms(2) in \<open>simp_all add: tx_reset_def ptx_full_def ptx_same_def tx_tasks_def\<close>)

lemma tx_set_count_ok:
  assumes ok: "ptx_ok lib S D M p e" and none: "tx_tasks e = 0" "tx_pa e = tx_pn e"
  shows "ptx_ok lib S D Map.empty p (pdcp_tx_set_count ci e)" "ptx_same e (pdcp_tx_set_count ci e)"
proof -
  note k = ptx_coreD [OF ptx_okD(1) [OF ok]]
  have empty: "tx_get e j = None" for j
  proof (cases "tx_get e j")
    case (Some elem)
    from k(3) [OF Some] k(4) [OF Some] none(2) show ?thesis by simp
  qed
  let ?c = "pdcp_compute_count (ci_hfn ci) (ci_sn ci) (ptx_sn_size (ptx_cfg e))"
  have near: "near_window (tw_map (ptx_window e)) (uint ?c) (tx_W e)"
    by (rule near_window_move [OF k(1)]) (simp add: empty)
  show "ptx_ok lib S D Map.empty p (pdcp_tx_set_count ci e)"
    by (rule ptx_fresh_ok [OF ok none(1) empty near k(11)]) (simp add: pdcp_tx_set_count_def Let_def)
qed (simp add: pdcp_tx_set_count_def ptx_same_def Let_def)

lemma tx_create_ok:
  assumes "pdcp_tx_create rohc rb_id cfg workers = Some e" "\<not> ptx_test_mode cfg" "None \<in> S"
  shows "ptx_ok lib S D Map.empty False e" "ptx_cfg e = cfg" "\<not> ptx_stopped e"
proof -
  obtain m :: "pdcp_tx_window_element circular_map" where m: "cm_create (pdcp_window_size (sn_bits (ptx_sn_size cfg))) = Some m"
    "near_window m (uint (0 :: u32)) (pdcp_win (ptx_sn_size cfg))" "\<And>k. cm_get m k = None"
    using near_window_create [of "ptx_sn_size cfg" "uint (0 :: u32)"] by blast
  let ?w = "\<lparr>tw_map = m, tw_sdu_bytes = 0, tw_nof_sdus = 0\<rparr>"
  have inv: "ptx_sn_size cfg \<noteq> pdcp_size_invalid"
    using assms(1) by (auto simp: pdcp_tx_create_def)
  obtain win where win: "pdcp_window_size_of (ptx_sn_size cfg) = Some win" "uint win = pdcp_win (ptx_sn_size cfg)"
    using assms(1) pdcp_window_size_of_eq [of "ptx_sn_size cfg"] uint_pdcp_window_size [of "ptx_sn_size cfg"] inv
    by (auto simp: pdcp_tx_create_def split: option.splits)
  have e: "ptx_cfg e = cfg" "ptx_window e = ?w" "ptx_window_size e = win" "ptx_st e = \<lparr>ptx_next = 0, ptx_trans_crypto = 0, ptx_reord_crypto = 0, ptx_trans = 0, ptx_next_ack = 0\<rparr>"
    "\<not> ptx_stopped e" "ptx_crypto_tasks e = []" "ptx_ue_tasks e = []" "ptx_sdu_buffer e = []" "ptx_token_mngr e = \<lparr>tm_pending_crypto = False, tm_tokens = 0\<rparr>"
    "ptx_sec_engine_pool e = replicate workers None" "ptx_max_nof_crypto_workers e = workers" "\<not> ptx_crypto_reordering_timer e"
    using assms(1) m(1) win(1) by (auto simp: pdcp_tx_create_def split: option.splits if_splits)
  have srb: "ptx_rb_type cfg = rb_srb \<Longrightarrow> ptx_sn_size cfg = pdcp_size12bits"
    using assms(1) by (auto simp: pdcp_tx_create_def split: option.splits if_splits)
  have "ptx_core e"
    by (rule ptx_core_empty [of ?w 0]) (use m(2,3) totals_create [OF m(3)] inv win(2) srb assms(2) in \<open>simp_all add: e\<close>)
  moreover have "ptx_contents lib S D Map.empty e" using m(3) assms(3) by (simp add: ptx_contents_def e set_replicate_conv_if)
  moreover have "ptx_tokens False e" by (simp add: ptx_tokens_def tx_tasks_def e)
  ultimately show "ptx_ok lib S D Map.empty False e" by (intro ptx_okI) (auto simp: tx_reord_ok_def ptx_whole_def e dest: leD)
  show "ptx_cfg e = cfg" "\<not> ptx_stopped e" by (fact e)+
qed

section \<open>Re-establishment and data recovery\<close>

lemma retransmit_loop_pool: "retransmit_loop oks cs e = Some (e', evs) \<Longrightarrow> ptx_sec_engine_pool e' = ptx_sec_engine_pool e"
proof (induction oks cs e arbitrary: evs rule: retransmit_loop.induct)
  case (2 oks c cs e)
  have pool: "ptx_sec_engine_pool f = ptx_sec_engine_pool e" if "submit_crypto_task ok info e = Some f" for ok info f
    using that by (auto simp: submit_crypto_task_def return_tx_token_def Let_def split: if_splits)
  show ?case using 2 pool by (auto simp: Let_def split: option.splits if_splits sum.splits prod.splits)
qed simp

lemma retransmit_all_pool: "retransmit_all_pdus oks e = Some (e', evs) \<Longrightarrow> ptx_sec_engine_pool e' = ptx_sec_engine_pool e"
  by (auto simp: retransmit_all_pdus_def Let_def split: if_splits dest: retransmit_loop_pool)

lemma tx_reestablish_ok:
  assumes ok: "ptx_ok lib S D M False e" and run: "\<not> ptx_stopped e" and none: "tx_tasks e = 0" and full: "ptx_full e"
    and step: "pdcp_tx_reestablish lib' sec oks e = Some (e', evs)" and S: "set (ptx_sec_engine_pool e') \<subseteq> S"
  shows "ptx_ok lib S D (if ptx_is_srb e \<or> ptx_is_um e then Map.empty else M) False e'" "ptx_same e e'" "pdu_counts evs = []"
proof -
  let ?M = "if ptx_is_srb e \<or> ptx_is_um e then Map.empty else M"
  define e1 where "e1 = (if ptx_is_srb e \<or> ptx_is_um e then tx_reset e else e)"
  have e1: "ptx_ok lib S D ?M False e1" "ptx_full e1" "ptx_same e e1" "tx_tasks e1 = 0"
    using tx_reset_ok [OF ok none] ok none full by (simp_all add: e1_def)
  obtain e2 where conf: "pdcp_tx_configure_security lib' sec (ptx_integrity_enabled e1) (ptx_ciphering_enabled e1) e1 = Some e2"
    "(if ptx_is_am e2 then retransmit_all_pdus oks e2 else Some (e2, [])) = Some (e', evs)"
    using step by (auto simp: pdcp_tx_reestablish_def e1_def Let_def split: option.splits)
  have pool: "ptx_sec_engine_pool e' = ptx_sec_engine_pool e2"
    using conf(2) retransmit_all_pool [of oks e2] by (auto split: if_splits)
  note c = tx_configure_ok [OF e1(1) conf(1) S [unfolded pool]]
  have ok2: "ptx_ok lib S D ?M False e2" "ptx_full e2" "\<not> ptx_stopped e2" "tx_tasks e2 \<le> 2 ^ 29"
    using c e1 run by (simp_all add: ptx_full_def ptx_same_def)
  have same2: "ptx_same e e2" by (rule ptx_same_trans [OF e1(3) c(2)])
  obtain f gs where f: "retransmit_all_pdus oks e2 = Some (f, gs)" "ptx_ok lib S D ?M False f" "ptx_same e2 f" "pdu_counts gs = []"
    using retransmit_all_ok [OF ok2(1,3,2,4)] by metis
  show "ptx_ok lib S D ?M False e'" "ptx_same e e'" "pdu_counts evs = []"
    using conf(2) f ok2(1) same2 ptx_same_trans [OF same2 f(3)] by (auto split: if_splits)
qed

lemma data_recovery_ok:
  assumes ok: "ptx_ok lib S D M False e" and run: "\<not> ptx_stopped e" and few: "tx_tasks e \<le> 2 ^ 29" and full: "ptx_full e"
    and step: "data_recovery report oks e = Some (e', evs)"
  shows "ptx_ok lib S D M False e'" "ptx_same e e'" "pdu_counts evs = []"
proof -
  obtain f gs where f: "retransmit_all_pdus oks e = Some (f, gs)" "ptx_ok lib S D M False f" "ptx_same e f" "pdu_counts gs = []"
    using retransmit_all_ok [OF ok run full few] by metis
  then have "e' = f" "evs = (if ptx_status_report_required (ptx_cfg e) then send_status_report report e else []) @ gs"
    using step by (auto simp: data_recovery_def ptx_then_def split: if_splits)
  then show "ptx_ok lib S D M False e'" "ptx_same e e'" "pdu_counts evs = []" using f by (simp_all add: send_status_report_def)
qed

end
