(* ===== verification/Pdcp_Tx_Run.thy ===== *)
theory Pdcp_Tx_Run
  imports Pdcp_Tx_Ops
begin

text \<open>
  The runs of the transmitting PDCP entity; every state of a run meets the invariant and its trace is in order.
\<close>

section \<open>Runs\<close>

text \<open>
  A run of a transmitting entity with configuration \<open>cfg\<close>: SDUs of the set \<open>D\<close> arrive, workers take crypto tasks and the
  UE executor takes its tasks from any position of the lists, the lower layers notify, status reports arrive, the timers
  expire, and the control plane stops, buffers, secures, re-establishes and recovers.  The engines it sets up are in
  \<open>S\<close>.  The flag says that the control plane has taken its token back.  The list holds the calls of the current period
  in segments, the latest first: a period begins when the COUNT starts over, at the re-establishment of an SRB or UM DRB
  or at a status transfer; a segment begins at every retransmission.

  The conditions: the callers in \<open>lib/cu_up\<close> buffer while processing is stopped and re-establish, transfer a status and
  recover data only while it is not; re-establishment and status transfer wait for the crypto tasks.  The header of an
  SDU can be reserved.  No SDU leaves the window before its PDU was handed over, and none between TX_NEXT_ACK and TX_NEXT is
  missing when everything is sent again; without these two conditions assertions fail, as \<open>Pdcp_Tx_Props\<close> shows.  An
  SRB, for which the code does not bound the window, has fewer SDUs in flight than the window has places.  Fewer than
  2 to the 30 tasks are in flight, and the entity is not in its test mode.
\<close>

inductive ptx_run :: "aes_lib \<Rightarrow> security_engine option set \<Rightarrow> bytes set \<Rightarrow> pdcp_tx_config \<Rightarrow> bool \<Rightarrow> pdcp_tx_event list list \<Rightarrow>
    pdcp_entity_tx \<Rightarrow> bool" for lib S D cfg where
  txr_create: "pdcp_tx_create rohc rb_id cfg workers = Some e \<Longrightarrow> \<not> ptx_test_mode cfg \<Longrightarrow> None \<in> S \<Longrightarrow> ptx_run lib S D cfg False [[]] e"
| txr_create_secure: "pdcp_tx_create rohc rb_id cfg workers = Some e \<Longrightarrow> \<not> ptx_test_mode cfg \<Longrightarrow>
    pdcp_tx_configure_security lib sec integ ciph e = Some e' \<Longrightarrow> set (ptx_sec_engine_pool e') \<subseteq> S \<Longrightarrow> ptx_run lib S D cfg False [[]] e'"
| txr_sdu: "ptx_run lib S D cfg p (evs # segs) e \<Longrightarrow> buf \<in> D \<Longrightarrow> tx_tasks e < 2 ^ 30 \<Longrightarrow> p \<longrightarrow> ptx_stopped e \<or> ptx_buffering e \<Longrightarrow>
    ptx_is_srb e \<longrightarrow> uint (tx_pn e) < uint (tx_pa e) + tx_W e \<Longrightarrow>
    pdcp_tx_handle_sdu now (copy_ok, True, crypto_ok) buf e = Some (e', evs') \<Longrightarrow> ptx_run lib S D cfg p ((evs @ evs') # segs) e'"
| txr_crypto: "ptx_run lib S D cfg p segs e \<Longrightarrow> ptx_crypto_tasks e = as @ info # bs \<Longrightarrow>
    pdcp_tx_apply_security lib worker append_ok ue_ok info (e\<lparr>ptx_crypto_tasks := as @ bs\<rparr>) = Some e' \<Longrightarrow> ptx_run lib S D cfg p segs e'"
| txr_ue: "ptx_run lib S D cfg p (evs # segs) e \<Longrightarrow> ptx_ue_tasks e = us @ t # vs \<Longrightarrow>
    run_tx_ue_task now t (e\<lparr>ptx_ue_tasks := us @ vs\<rparr>) = Some (e', evs') \<Longrightarrow> ptx_run lib S D cfg p ((evs @ evs') # segs) e'"
| txr_timeout: "ptx_run lib S D cfg p (evs # segs) e \<Longrightarrow> ptx_crypto_reordering_timer e \<Longrightarrow>
    crypto_reordering_timeout now (e\<lparr>ptx_crypto_reordering_timer := False\<rparr>) = Some (e', evs') \<Longrightarrow> ptx_run lib S D cfg p ((evs @ evs') # segs) e'"
| txr_transmit: "ptx_run lib S D cfg p segs e \<Longrightarrow>
    handle_transmit_notification now sn e = Some e' \<or> handle_retransmit_notification now sn e = Some e' \<Longrightarrow> ptx_run lib S D cfg p segs e'"
| txr_delivery: "ptx_run lib S D cfg p segs e \<Longrightarrow>
    handle_delivery_notification now sn e = Some e' \<or> handle_delivery_retransmitted_notification now sn e = Some e' \<Longrightarrow>
    \<not> ptx_stopped e \<longrightarrow> ptx_whole e' \<Longrightarrow> ptx_run lib S D cfg p segs e'"
| txr_buffer_size: "ptx_run lib S D cfg p segs e \<Longrightarrow> ptx_run lib S D cfg p segs (handle_desired_buffer_size_notification n e)"
| txr_report: "ptx_run lib S D cfg p (evs # segs) e \<Longrightarrow> handle_status_report alloc_ok report e = (e', evs') \<Longrightarrow>
    \<not> ptx_stopped e \<longrightarrow> ptx_whole e' \<Longrightarrow> ptx_run lib S D cfg p ((evs @ evs') # segs) e'"
| txr_discard: "ptx_run lib S D cfg p (evs # segs) e \<Longrightarrow> ptx_discard_timer cfg = Some (discard_timer_ms ms) \<Longrightarrow>
    discard_callback (e\<lparr>ptx_disc_timer := None\<rparr>) = Some (e', evs') \<Longrightarrow> \<not> ptx_stopped e \<longrightarrow> ptx_whole e' \<Longrightarrow>
    ptx_run lib S D cfg p ((evs @ evs') # segs) e'"
| txr_stop: "ptx_run lib S D cfg False segs e \<Longrightarrow> pdcp_tx_stop e = Some e' \<Longrightarrow> ptx_run lib S D cfg True segs e'"
| txr_notify: "ptx_run lib S D cfg False segs e \<Longrightarrow> tx_notify_pdu_processing_stopped e = Some e' \<Longrightarrow> ptx_run lib S D cfg True segs e'"
| txr_restart: "ptx_run lib S D cfg True segs e \<Longrightarrow> \<not> ptx_stopped e \<Longrightarrow> ptx_run lib S D cfg False segs (tx_restart_pdu_processing e)"
| txr_begin: "ptx_run lib S D cfg p segs e \<Longrightarrow> ptx_run lib S D cfg p segs (tx_begin_buffering e)"
| txr_end: "ptx_run lib S D cfg p (evs # segs) e \<Longrightarrow> p \<longrightarrow> ptx_stopped e \<Longrightarrow> tx_tasks e + length (ptx_sdu_buffer e) \<le> 2 ^ 30 \<Longrightarrow>
    \<forall>ok \<in> set oks. fst (snd ok) \<Longrightarrow> ptx_is_srb e \<longrightarrow> uint (tx_pn e) + int (length (ptx_sdu_buffer e)) \<le> uint (tx_pa e) + tx_W e \<Longrightarrow>
    tx_end_buffering now oks e = Some (e', evs') \<Longrightarrow> ptx_run lib S D cfg p ((evs @ evs') # segs) e'"
| txr_security: "ptx_run lib S D cfg p segs e \<Longrightarrow> pdcp_tx_configure_security lib sec integ ciph e = Some e' \<Longrightarrow>
    set (ptx_sec_engine_pool e') \<subseteq> S \<Longrightarrow> ptx_run lib S D cfg p segs e'"
| txr_reestablish: "ptx_run lib S D cfg False segs e \<Longrightarrow> tx_tasks e = 0 \<Longrightarrow> ptx_full e \<Longrightarrow>
    pdcp_tx_reestablish lib sec oks e = Some (e', evs') \<Longrightarrow> set (ptx_sec_engine_pool e') \<subseteq> S \<Longrightarrow>
    ptx_run lib S D cfg False (evs' # (if ptx_is_srb e \<or> ptx_is_um e then [] else segs)) e'"
| txr_recovery: "ptx_run lib S D cfg False segs e \<Longrightarrow> tx_tasks e \<le> 2 ^ 29 \<Longrightarrow> ptx_full e \<Longrightarrow>
    data_recovery report oks e = Some (e', evs') \<Longrightarrow> ptx_run lib S D cfg False (evs' # segs) e'"
| txr_set_count: "ptx_run lib S D cfg p segs e \<Longrightarrow> tx_tasks e = 0 \<Longrightarrow> tx_pa e = tx_pn e \<Longrightarrow>
    ptx_run lib S D cfg p [[]] (pdcp_tx_set_count ci e)"

definition ptx_run_ok :: "aes_lib \<Rightarrow> security_engine option set \<Rightarrow> bytes set \<Rightarrow> pdcp_tx_config \<Rightarrow> tx_sdus \<Rightarrow> bool \<Rightarrow> pdcp_tx_event list list \<Rightarrow>
    pdcp_entity_tx \<Rightarrow> bool" where
  "ptx_run_ok lib S D cfg M p segs e \<longleftrightarrow> ptx_ok lib S D M p e \<and> ptx_cfg e = cfg \<and> (ptx_stopped e \<longrightarrow> p) \<and>
     segs \<noteq> [] \<and> tx_trace_below (tx_pc e) (hd segs) \<and> (\<forall>evs \<in> set segs. tx_trace_ok (pdu_from lib S cfg M) evs)"

lemma tx_trace_empty [simp]: "tx_trace_ok Q []" "tx_trace_below d []" by (simp_all add: tx_trace_ok_def tx_trace_below_def)

lemma tx_trace_silent: "pdu_counts evs = [] \<Longrightarrow> tx_trace_ok Q evs" "pdu_counts evs = [] \<Longrightarrow> tx_trace_below d evs"
  using set_pdu_counts [of _ evs] by (auto simp: tx_trace_ok_def tx_trace_below_def)

lemma ptx_run_emits:
  assumes "ptx_run_ok lib S D cfg M p (evs # segs) e" "ptx_ok lib S D M p e'" "ptx_same e e'" "tx_emits (pdu_from lib S (ptx_cfg e) M) e e' evs'"
  shows "ptx_run_ok lib S D cfg M p ((evs @ evs') # segs) e'"
proof -
  have c: "ptx_cfg e = cfg" "tx_trace_ok (pdu_from lib S cfg M) evs" "tx_trace_below (tx_pc e) evs" using assms(1) by (simp_all add: ptx_run_ok_def)
  from tx_emits_trace [OF c(2,3) assms(4) [unfolded c(1)]] assms show ?thesis by (simp add: ptx_run_ok_def ptx_same_def)
qed

lemma ptx_run_silent:
  assumes "ptx_run_ok lib S D cfg M p (evs # segs) e" "ptx_ok lib S D M p e'" "ptx_same e e'" "tx_pc e' = tx_pc e" "pdu_counts evs' = []"
  shows "ptx_run_ok lib S D cfg M p ((evs @ evs') # segs) e'"
  using ptx_run_emits [OF assms(1-3)] assms(4,5) by (simp add: tx_emits_silent)

lemma ptx_run_quiet:
  assumes "ptx_run_ok lib S D cfg M p segs e" "ptx_ok lib S D M p' e'" "tx_pc e' = tx_pc e" "ptx_cfg e' = ptx_cfg e" "ptx_stopped e' \<longrightarrow> p'"
  shows "ptx_run_ok lib S D cfg M p' segs e'"
  using assms by (simp add: ptx_run_ok_def)

text \<open>COUNTs are only ever added to those given out.\<close>

lemma ptx_run_more:
  assumes "ptx_run_ok lib S D cfg M p segs e" "M \<subseteq>\<^sub>m M'" "ptx_ok lib S D M' p e'" "tx_pc e' = tx_pc e" "ptx_cfg e' = ptx_cfg e" "ptx_stopped e' = ptx_stopped e"
  shows "ptx_run_ok lib S D cfg M' p segs e'"
  using assms tx_trace_mono [OF _ pdu_from_mono [OF assms(2)]] by (auto simp: ptx_run_ok_def)

lemma ptx_run_shrunk:
  assumes r: "ptx_run_ok lib S D cfg M p segs e" and s: "ptx_shrunk e e'" and w: "\<not> ptx_stopped e \<longrightarrow> ptx_whole e'"
  shows "ptx_run_ok lib S D cfg M p segs e'"
proof -
  have "ptx_ok lib S D M p e'" using shrunk_ok(1) [OF _ s] r w by (simp add: ptx_run_ok_def)
  then show ?thesis
    by (rule ptx_run_quiet [OF r]) (use r in \<open>simp_all add: ptx_shrunk_fields [OF s] ptx_run_ok_def\<close>)
qed

lemma ptx_run_shrunk_events:
  assumes r: "ptx_run_ok lib S D cfg M p (evs # segs) e" and s: "ptx_shrunk e e'" and w: "\<not> ptx_stopped e \<longrightarrow> ptx_whole e'" and "discard_events evs'"
  shows "ptx_run_ok lib S D cfg M p ((evs @ evs') # segs) e'"
proof -
  note r' = ptx_run_shrunk [OF r s w]
  then have "ptx_ok lib S D M p e'" by (simp add: ptx_run_ok_def)
  then show ?thesis by (rule ptx_run_silent [OF r']) (simp_all add: discard_events_silent [OF assms(4)])
qed

lemma tx_create_secure_ok:
  assumes c: "pdcp_tx_create rohc rb_id cfg workers = Some e" "\<not> ptx_test_mode cfg" and sec: "pdcp_tx_configure_security lib sec i ci e = Some e'"
    and S: "set (ptx_sec_engine_pool e') \<subseteq> S"
  shows "ptx_ok lib S D Map.empty False e'" "ptx_cfg e' = cfg" "\<not> ptx_stopped e'"
proof -
  have ok: "ptx_ok lib (insert None S) D Map.empty False e" by (rule tx_create_ok [OF c]) simp
  note f = tx_configure_ok [OF ok sec] and g = tx_create_ok(2,3) [OF c, of "insert None S"]
  have ok': "ptx_ok lib (insert None S) D Map.empty False e'" by (rule f(1)) (use S in blast)
  have e: "ptx_sdu_buffer e = []" "ptx_crypto_tasks e = []" "ptx_ue_tasks e = []"
    using c(1) by (auto simp: pdcp_tx_create_def split: option.splits if_splits)
  have e': "ptx_sdu_buffer e' = ptx_sdu_buffer e" "ptx_crypto_tasks e' = ptx_crypto_tasks e" "ptx_ue_tasks e' = ptx_ue_tasks e"
    using sec by (auto simp: pdcp_tx_configure_security_def Let_def split: if_splits option.splits)
  have empty: "tx_get e' k = None" for k
    using ptx_contentsD(6) [OF ptx_okD(5) [OF ok'], of k] by (cases "tx_get e' k") (auto simp: elem_from_def)
  have "ptx_contents lib S D Map.empty e'"
    using ptx_contentsD(1) [OF ptx_okD(5) [OF ok']] S empty by (simp add: ptx_contents_def e e')
  then show "ptx_ok lib S D Map.empty False e'" using ok' by (simp add: ptx_ok_def)
  show "ptx_cfg e' = cfg" "\<not> ptx_stopped e'" using f(2) g S by (auto simp: ptx_same_def)
qed

lemma ptx_run_okD:
  assumes "ptx_run_ok lib S D cfg M p segs e"
  shows "ptx_ok lib S D M p e" "ptx_cfg e = cfg" "ptx_stopped e \<Longrightarrow> p" "ptx_core e" "\<not> ptx_stopped e \<Longrightarrow> ptx_whole e"
  using assms by (simp_all add: ptx_run_ok_def ptx_ok_def ptx_inv_def)

lemma whole_if_kept:
  assumes "ptx_run_ok lib S D cfg M p segs e" "ptx_shrunk e e'" "\<And>k. tx_pc e \<le> k \<Longrightarrow> tx_get e' k = tx_get e k"
  shows "\<not> ptx_stopped e \<longrightarrow> ptx_whole e'"
  using kept_whole [OF _ assms(2,3)] ptx_run_okD(5) [OF assms(1)] by blast

text \<open>A new segment or period after the entity went back to the oldest SDU.\<close>

lemma ptx_run_rewind:
  assumes "ptx_run_ok lib S D cfg M p segs e" "ptx_ok lib S D M p' e'" "ptx_same e e'" "pdu_counts evs' = []" "ptx_stopped e \<longrightarrow> p'"
  shows "ptx_run_ok lib S D cfg M p' (evs' # segs) e'"
  using assms tx_trace_silent [OF assms(4)] by (simp add: ptx_run_ok_def ptx_same_def)

lemma ptx_run_fresh:
  assumes "ptx_ok lib S D M p e" "ptx_cfg e = cfg" "ptx_stopped e \<longrightarrow> p" "pdu_counts evs = []"
  shows "ptx_run_ok lib S D cfg M p [evs] e"
  using assms tx_trace_silent [OF assms(4)] by (simp add: ptx_run_ok_def)

lemma ptx_run_invariant: "ptx_run lib S D cfg p segs e \<Longrightarrow> \<exists>M. ptx_run_ok lib S D cfg M p segs e"
proof (induction rule: ptx_run.induct)
  case (txr_create rohc rb_id workers e)
  from tx_create_ok(1) [OF txr_create, of lib D] tx_create_ok(2,3) [OF txr_create] show ?case by (intro exI ptx_run_fresh) simp_all
next
  case (txr_create_secure rohc rb_id workers e sec integ ciph e')
  from tx_create_secure_ok(1) [OF txr_create_secure, of D] tx_create_secure_ok(2,3) [OF txr_create_secure] show ?case
    by (intro exI ptx_run_fresh) simp_all
next
  case (txr_sdu p evs segs e buf now copy_ok crypto_ok e' evs')
  then obtain M where r: "ptx_run_ok lib S D cfg M p (evs # segs) e" by blast
  note ok = ptx_run_okD(1) [OF r]
  obtain f gs M' where f: "pdcp_tx_handle_sdu now (copy_ok, True, crypto_ok) buf e = Some (f, gs)" "ptx_ok lib S D M' p f" "M \<subseteq>\<^sub>m M'"
    "sdu_taken M buf e f M'" "pdu_counts gs = []"
    using handle_sdu_ok [OF ok txr_sdu(2,3)] txr_sdu(4,5) by metis
  then have eq: "e' = f" "evs' = gs" using txr_sdu(6) by simp_all
  note t = sdu_taken_step [OF f(4)]
  have r': "ptx_run_ok lib S D cfg M' p (evs # segs) f" by (rule ptx_run_more [OF r f(3,2) t(2)]) (use t(1) in \<open>simp_all add: ptx_same_def\<close>)
  have "ptx_run_ok lib S D cfg M' p ((evs @ gs) # segs) f" by (rule ptx_run_silent [OF r' f(2)]) (simp_all add: f(5))
  then show ?case unfolding eq by blast
next
  case (txr_crypto p segs e as info bs worker append_ok ue_ok e')
  then obtain M where r: "ptx_run_ok lib S D cfg M p segs e" by blast
  note a = apply_security_tx_ok [OF ptx_run_okD(1) [OF r] txr_crypto(2,3)]
  have "ptx_run_ok lib S D cfg M p segs e'"
    by (rule ptx_run_quiet [OF r a(1)]) (use a(2,3) ptx_run_okD(3) [OF r] in \<open>simp_all add: ptx_same_def\<close>)
  then show ?case by blast
next
  case (txr_ue p evs segs e us t vs now e' evs')
  then obtain M where r: "ptx_run_ok lib S D cfg M p (evs # segs) e" by blast
  obtain f gs where f: "run_tx_ue_task now t (e\<lparr>ptx_ue_tasks := us @ vs\<rparr>) = Some (f, gs)" "ptx_ok lib S D M p f" "ptx_same e f"
    "tx_emits (pdu_from lib S (ptx_cfg e) M) e f gs" by (rule run_tx_ue_task_ok [OF ptx_run_okD(1) [OF r] txr_ue(2)])
  then have "e' = f" "evs' = gs" using txr_ue(3) by simp_all
  then show ?case using ptx_run_emits [OF r f(2-4)] by blast
next
  case (txr_timeout p evs segs e now e' evs')
  then obtain M where r: "ptx_run_ok lib S D cfg M p (evs # segs) e" by blast
  obtain f gs where f: "crypto_reordering_timeout now (e\<lparr>ptx_crypto_reordering_timer := False\<rparr>) = Some (f, gs)" "ptx_ok lib S D M p f" "ptx_same e f"
    "tx_emits (pdu_from lib S (ptx_cfg e) M) e f gs" by (rule tx_timeout_ok [OF ptx_run_okD(1) [OF r] txr_timeout(2)])
  then have "e' = f" "evs' = gs" using txr_timeout(3) by simp_all
  then show ?case using ptx_run_emits [OF r f(2-4)] by blast
next
  case (txr_transmit p segs e now sn e')
  then obtain M where r: "ptx_run_ok lib S D cfg M p segs e" by blast
  note core = ptx_run_okD(4) [OF r]
  have s: "ptx_shrunk e e'" "tx_pc e \<le> k \<Longrightarrow> tx_get e' k = tx_get e k" for k
    using txr_transmit(2) transmit_notification_ok [OF core] retransmit_notification_ok [OF core] by blast+
  from ptx_run_shrunk [OF r s(1) whole_if_kept [OF r s]] show ?case by blast
next
  case (txr_delivery p segs e now sn e')
  then obtain M where r: "ptx_run_ok lib S D cfg M p segs e" by blast
  from ptx_run_shrunk [OF r delivery_notification_ok [OF ptx_run_okD(4) [OF r] txr_delivery(2)] txr_delivery(3)] show ?case by blast
next
  case (txr_buffer_size p segs e n)
  then obtain M where r: "ptx_run_ok lib S D cfg M p segs e" by blast
  have "ptx_run_ok lib S D cfg M p segs (e\<lparr>ptx_desired_buffer_size := n\<rparr>)"
    by (rule ptx_run_quiet [OF r ptx_flags_ok(4) [OF ptx_run_okD(1) [OF r]]]) (use ptx_run_okD(3) [OF r] in simp_all)
  then show ?case using r by (auto simp: handle_desired_buffer_size_notification_def)
next
  case (txr_report p evs segs e alloc_ok report e' evs')
  then obtain M where r: "ptx_run_ok lib S D cfg M p (evs # segs) e" by blast
  note s = handle_status_report_ok [OF ptx_run_okD(4) [OF r] txr_report(2)]
  from ptx_run_shrunk_events [OF r s(1) txr_report(3) s(2)] show ?case by blast
next
  case (txr_discard p evs segs e ms e' evs')
  then obtain M where r: "ptx_run_ok lib S D cfg M p (evs # segs) e" by blast
  let ?e = "e\<lparr>ptx_disc_timer := None\<rparr>"
  have r0: "ptx_run_ok lib S D cfg M p (evs # segs) ?e"
    by (rule ptx_run_quiet [OF r ptx_flags_ok(2) [OF ptx_run_okD(1) [OF r]]]) (use ptx_run_okD(3) [OF r] in simp_all)
  have t: "ptx_discard_timer (ptx_cfg ?e) = Some (discard_timer_ms ms)" using txr_discard(2) ptx_run_okD(2) [OF r] by simp
  obtain f gs where f: "discard_callback ?e = Some (f, gs)" "ptx_shrunk ?e f" "discard_events gs"
    by (rule discard_callback_ok [OF ptx_run_okD(4) [OF r0] t])
  then have eq: "e' = f" "evs' = gs" using txr_discard(3) by simp_all
  have w: "\<not> ptx_stopped ?e \<longrightarrow> ptx_whole f" using txr_discard(4) eq by simp
  from ptx_run_shrunk_events [OF r0 f(2) w f(3)] show ?case unfolding eq by blast
next
  case (txr_stop segs e e')
  then obtain M where r: "ptx_run_ok lib S D cfg M False segs e" by blast
  have run: "\<not> ptx_stopped e" using ptx_run_okD(3) [OF r] by blast
  obtain f where f: "pdcp_tx_stop e = Some f" "ptx_ok lib S D M True f" "ptx_stopped f" "tx_pc f = tx_pc e" "ptx_cfg f = ptx_cfg e"
    by (rule tx_stop_ok [OF ptx_run_okD(1) [OF r] run])
  have "ptx_run_ok lib S D cfg M True segs f" by (rule ptx_run_quiet [OF r f(2,4,5)]) simp
  then show ?case using f(1) txr_stop(2) by auto
next
  case (txr_notify segs e e')
  then obtain M where r: "ptx_run_ok lib S D cfg M False segs e" by blast
  have run: "\<not> ptx_stopped e" using ptx_run_okD(3) [OF r] by blast
  obtain f where f: "tx_notify_pdu_processing_stopped e = Some f" "ptx_ok lib S D M True f" "ptx_same e f" "tx_pc f = tx_pc e"
    by (rule tx_notify_stopped_ok [OF ptx_run_okD(1) [OF r] run])
  have "ptx_run_ok lib S D cfg M True segs f" by (rule ptx_run_quiet [OF r f(2,4)]) (use f(3) in \<open>simp_all add: ptx_same_def\<close>)
  then show ?case using f(1) txr_notify(2) by auto
next
  case (txr_restart segs e)
  then obtain M where r: "ptx_run_ok lib S D cfg M True segs e" by blast
  note f = tx_restart_ok [OF ptx_run_okD(1) [OF r] txr_restart(2)]
  have "ptx_run_ok lib S D cfg M False segs (tx_restart_pdu_processing e)"
    by (rule ptx_run_quiet [OF r f(1,3)]) (use f(2) txr_restart(2) in \<open>simp_all add: ptx_same_def\<close>)
  then show ?case by blast
next
  case (txr_begin p segs e)
  then obtain M where r: "ptx_run_ok lib S D cfg M p segs e" by blast
  have "ptx_run_ok lib S D cfg M p segs (tx_begin_buffering e)" unfolding tx_begin_buffering_def
    by (rule ptx_run_quiet [OF r ptx_flags_ok(3) [OF ptx_run_okD(1) [OF r]]]) (use ptx_run_okD(3) [OF r] in simp_all)
  then show ?case by blast
next
  case (txr_end p evs segs e oks now e' evs')
  then obtain M where r: "ptx_run_ok lib S D cfg M p (evs # segs) e" by blast
  obtain f gs M' where f: "tx_end_buffering now oks e = Some (f, gs)" "ptx_ok lib S D M' p f" "M \<subseteq>\<^sub>m M'" "ptx_cfg f = ptx_cfg e"
    "ptx_stopped f = ptx_stopped e" "tx_pc f = tx_pc e" "pdu_counts gs = []"
    using tx_end_buffering_ok [OF ptx_run_okD(1) [OF r] txr_end(3) _ txr_end(4,5)] txr_end(2) by metis
  then have eq: "e' = f" "evs' = gs" using txr_end(6) by simp_all
  have r': "ptx_run_ok lib S D cfg M' p (evs # segs) f" by (rule ptx_run_more [OF r f(3,2,6,4,5)])
  have "ptx_run_ok lib S D cfg M' p ((evs @ gs) # segs) f" by (rule ptx_run_silent [OF r' f(2)]) (simp_all add: f(7))
  then show ?case unfolding eq by blast
next
  case (txr_security p segs e sec integ ciph e')
  then obtain M where r: "ptx_run_ok lib S D cfg M p segs e" by blast
  note a = tx_configure_ok [OF ptx_run_okD(1) [OF r] txr_security(2,3)]
  have "ptx_run_ok lib S D cfg M p segs e'"
    by (rule ptx_run_quiet [OF r a(1)]) (use a(2,3) ptx_run_okD(3) [OF r] in \<open>simp_all add: ptx_same_def\<close>)
  then show ?case by blast
next
  case (txr_reestablish segs e sec oks e' evs')
  then obtain M where r: "ptx_run_ok lib S D cfg M False segs e" by blast
  have run: "\<not> ptx_stopped e" using ptx_run_okD(3) [OF r] by blast
  note f = tx_reestablish_ok [OF ptx_run_okD(1) [OF r] run txr_reestablish(2-5)]
  have cfg: "ptx_cfg e' = cfg" "\<not> ptx_stopped e'" using f(2) run ptx_run_okD(2) [OF r] by (simp_all add: ptx_same_def)
  show ?case
  proof (cases "ptx_is_srb e \<or> ptx_is_um e")
    case True
    have "ptx_ok lib S D Map.empty False e'" using f(1) True by (simp only: if_True)
    from ptx_run_fresh [OF this cfg(1) _ f(3)] show ?thesis using True cfg(2) by auto
  next
    case False
    have "ptx_ok lib S D M False e'" using f(1) False by (simp only: if_False)
    from ptx_run_rewind [OF r this f(2,3)] show ?thesis using False run by auto
  qed
next
  case (txr_recovery segs e report oks e' evs')
  then obtain M where r: "ptx_run_ok lib S D cfg M False segs e" by blast
  have run: "\<not> ptx_stopped e" using ptx_run_okD(3) [OF r] by blast
  note f = data_recovery_ok [OF ptx_run_okD(1) [OF r] run txr_recovery(2-4)]
  from ptx_run_rewind [OF r f] run show ?case by blast
next
  case (txr_set_count p segs e ci)
  then obtain M where r: "ptx_run_ok lib S D cfg M p segs e" by blast
  note f = tx_set_count_ok [OF ptx_run_okD(1) [OF r] txr_set_count(2,3), of ci]
  from ptx_run_fresh [OF f(1), of cfg "[]"] show ?case using f(2) ptx_run_okD(2,3) [OF r] by (auto simp: ptx_same_def)
qed

end
