(* ===== verification/Pdcp_Rx_Reset.thy ===== *)
theory Pdcp_Rx_Reset
  imports Pdcp_Rx_Steps
begin

text \<open>
  Creation, re-establishment and status transfer of the receiving PDCP entity: each gives a state that meets the
  invariant, re-establishment of an SRB or UM DRB with an empty window at COUNT 0.
\<close>

section \<open>Re-establishment and status transfer\<close>

lemma discard_unfold:
  "discard_all_sdus e =
    (if prx_d e \<noteq> prx_n e
     then discard_all_sdus (prx_moved e (if has_sn (prx_window e) (prx_d e) then fst (cm_erase (prx_window e) (prx_d e)) else prx_window e)
       (prx_d e + 1))
     else e)"
  by (subst discard_all_sdus.simps) (simp add: Let_def prx_moved_def)

lemma discard_all_ok:
  assumes "prx_core e"
  shows "prx_delivered e (discard_all_sdus e) \<and> prx_d (discard_all_sdus e) = prx_n e"
  using assms
proof (induction e rule: discard_all_sdus.induct)
  case (1 e)
  note c = prx_coreD [OF "1.prems"]
  show ?case
  proof (cases "prx_d e = prx_n e")
    case False
    define w where "w = (if has_sn (prx_window e) (prx_d e) then fst (cm_erase (prx_window e) (prx_d e)) else prx_window e)"
    define e1 where "e1 = prx_moved e w (prx_d e + 1)"
    have lt: "prx_d e < prx_n e" using False c(2) by simp
    have st: "prx_delivered e e1" using prx_delivered_step [OF "1.prems" lt] by (simp add: e1_def w_def)
    have r: "discard_all_sdus e = discard_all_sdus e1"
      unfolding discard_unfold [of e] if_P [OF False] w_def [symmetric] e1_def ..
    have core1: "prx_core e1" by (rule prx_delivered_core [OF "1.prems" st])
    have "prx_delivered e1 (discard_all_sdus e1) \<and> prx_d (discard_all_sdus e1) = prx_n e1"
      using "1.IH" [OF refl False refl] core1 unfolding w_def [symmetric] prx_moved_def [symmetric] e1_def [symmetric] .
    then show ?thesis using prx_delivered_trans [OF st] unfolding r by (auto simp: e1_def)
  next
    case True
    then show ?thesis using prx_delivered_refl [OF "1.prems"] by (simp add: discard_unfold [of e])
  qed
qed

lemma deliver_all_loop_ok:
  assumes "cm_wf (prx_window e)" "deliver_all_loop b e = (e', evs)"
  shows "e' = e\<lparr>prx_window := prx_window e'\<rparr> \<and> cm_wf (prx_window e') \<and> cm_max_size (prx_window e') = cm_max_size (prx_window e) \<and>
    (\<forall>k. cm_get (prx_window e') k = (if b \<le> k \<and> k < prx_n e then None else cm_get (prx_window e) k)) \<and>
    evs = deliver_events (prx_window e) b (prx_n e)"
  using assms
proof (induction b e arbitrary: e' evs rule: deliver_all_loop.induct)
  case (1 b e)
  show ?case
  proof (cases "b < prx_n e")
    case True
    have s: "b \<le> k \<longleftrightarrow> k = b \<or> b + 1 \<le> k" for k
      using count_step(1) [OF True] by (auto simp: word_le_def word_uint_eq_iff)
    have nb: "\<not> b + 1 \<le> b" using count_step(1) [OF True] by (simp add: word_le_def)
    show ?thesis
    proof (cases "has_sn (prx_window e) b")
      case sn: True
      let ?e1 = "e\<lparr>prx_window := fst (cm_erase (prx_window e) b)\<rparr>"
      obtain e2 evs1 where r: "deliver_all_loop (b + 1) ?e1 = (e2, evs1)" by (cases "deliver_all_loop (b + 1) ?e1")
      have run: "e' = e2" "evs = on_new_sdu b (rsi_buf (the (cm_get (prx_window e) b))) # evs1"
        using "1.prems"(2) by (subst (asm) deliver_all_loop.simps, simp add: True sn r)+
      have "cm_wf (prx_window ?e1)" using "1.prems"(1) by (simp add: cmw.wf_del)
      note ih = "1.IH"(1) [OF True sn this r]
      have g: "cm_get (prx_window ?e1) k = (if k = b then None else cm_get (prx_window e) k)" for k by (simp add: cmw.get_del)
      have "deliver_events (prx_window ?e1) (b + 1) (prx_n e) = deliver_events (prx_window e) (b + 1) (prx_n e)"
        by (rule deliver_events_cong) (use g nb in auto)
      then have "evs = deliver_events (prx_window e) b (prx_n e)" using run(2) ih sn True by (simp add: deliver_events_step [OF True])
      moreover have "cm_get (prx_window e2) k = (if b \<le> k \<and> k < prx_n e then None else cm_get (prx_window e) k)" for k
        using ih g [of k] s [of k] True by (auto split: if_splits)
      moreover have "e2 = e\<lparr>prx_window := prx_window e2\<rparr>" using ih by simp
      moreover have "cm_wf (prx_window e2)" "cm_max_size (prx_window e2) = cm_max_size (prx_window e)" using ih by simp_all
      ultimately show ?thesis unfolding run(1) by blast
    next
      case sn: False
      have r: "deliver_all_loop (b + 1) e = (e', evs)"
        using "1.prems"(2) by (subst (asm) deliver_all_loop.simps) (simp add: True sn)
      note ih = "1.IH"(2) [OF True sn "1.prems"(1) r]
      have "cm_get (prx_window e) b = None" using sn by (simp add: cm_contains_get)
      then have "cm_get (prx_window e') k = (if b \<le> k \<and> k < prx_n e then None else cm_get (prx_window e) k)" for k
        using ih s [of k] by (auto split: if_splits)
      then show ?thesis using ih sn by (simp add: deliver_events_step [OF True])
    qed
  next
    case False
    then have "e' = e" "evs = []" using "1.prems"(2) by (subst (asm) deliver_all_loop.simps, simp)+
    then show ?thesis using False "1.prems"(1) by (auto simp: deliver_events_def count_range_step [of b])
  qed
qed

text \<open>The state after a reset: an empty window at one COUNT.\<close>

lemma prx_inv_fresh:
  assumes inv: "prx_inv e" and w: "cm_wf w" "cm_max_size w = cm_max_size (prx_window e)" "\<And>k. cm_get w k = None"
    and t: "prx_tasks e = 0" and c: "c \<le> prx_hard e"
  shows "prx_inv (e\<lparr>prx_window := w, prx_st := \<lparr>rx_next_count = c, rx_deliv = c, rx_reord = c\<rparr>, prx_reordering_timer := False\<rparr>)"
proof -
  note i = prx_invD [OF inv]
  have near: "near_window w (uint c) (prx_W e)"
    by (rule near_windowI) (use w near_windowD(2) [OF prx_coreD(1) [OF i(1)]] in simp_all)
  have "prx_crypto_tasks e = []" "prx_ue_tasks e = []" using t by (simp_all add: prx_tasks_def)
  moreover have "0 < prx_W e" by (rule pdcp_win_pos)
  ultimately show ?thesis using near w(3) c i(5) i(1)
    by (simp add: prx_inv_defs cm_contains_get split: pdcp_t_reordering.splits)
qed

lemma prx_timer_off:
  assumes "prx_inv e" "prx_d e = prx_n e"
  shows "\<not> prx_reordering_timer e"
  using prx_invD(6) [OF assms(1)] assms(2) by (auto simp: reord_timer_ok_def split: pdcp_t_reordering.splits if_splits)

definition prx_reset :: "pdcp_rx_sdu_info circular_map \<Rightarrow> u32 \<Rightarrow> pdcp_entity_rx \<Rightarrow> pdcp_entity_rx" where
  "prx_reset w c e = e\<lparr>prx_window := w, prx_st := \<lparr>rx_next_count = c, rx_deliv = c, rx_reord = c\<rparr>, prx_reordering_timer := False\<rparr>"

lemma prx_reset_ok:
  assumes ok: "prx_ok lib S P p e" and w: "cm_wf w" "cm_max_size w = cm_max_size (prx_window e)" "\<And>k. cm_get w k = None"
    and t: "prx_tasks e = 0" and c: "c \<le> prx_hard e"
  shows "prx_ok lib S P p (prx_reset w c e)"
proof -
  note o = prx_okD [OF ok]
  have "prx_contents lib S P (prx_reset w c e)" using o(3) w(3) by (simp add: prx_contents_def prx_reset_def)
  moreover have "tokens_ok p (prx_reset w c e)" using o(2) by (simp add: tokens_ok_def prx_tasks_def prx_reset_def)
  ultimately show ?thesis using prx_inv_fresh [OF o(1) w t c] by (simp add: prx_ok_def prx_reset_def)
qed

text \<open>What re-establishment hands over, and the reset that precedes the new security engines.\<close>

definition reestablish_events :: "pdcp_entity_rx \<Rightarrow> pdcp_rx_event list" where
  "reestablish_events e =
     (if prx_is_um e \<and> \<not> prx_is_srb e then deliver_events (prx_window e) (prx_d e) (prx_n e) else [])"

lemma reestablish_am:
  assumes "\<not> prx_is_srb e" "\<not> prx_is_um e"
  shows "pdcp_rx_reestablish lib cfg e = map_option (\<lambda>e'. (e', reestablish_events e))
    (pdcp_rx_configure_security lib cfg (prx_integrity_enabled e) (prx_ciphering_enabled e) e)"
  using assms by (simp add: pdcp_rx_reestablish_def reestablish_events_def Let_def)

lemma reestablish_reset:
  assumes inv: "prx_inv e" and b: "prx_is_srb e \<or> prx_is_um e"
  obtains w where "cm_wf w" "cm_max_size w = cm_max_size (prx_window e)" "\<And>k. cm_get w k = None"
    "pdcp_rx_reestablish lib cfg e = map_option (\<lambda>e'. (e', reestablish_events e))
      (pdcp_rx_configure_security lib cfg (prx_integrity_enabled e) (prx_ciphering_enabled e) (prx_reset w 0 e))"
proof -
  note i = prx_invD [OF inv]
  define e1 where "e1 = (if prx_is_srb e then discard_all_sdus e else e)"
  have e1: "prx_delivered e e1" "prx_is_srb e \<Longrightarrow> prx_d e1 = prx_n e" "\<not> prx_is_srb e \<Longrightarrow> e1 = e"
    using discard_all_ok [OF i(1)] prx_delivered_refl [OF i(1)] by (simp_all add: e1_def)
  note g = prx_delivered_get [OF e1(1)]
  have core1: "prx_core e1" by (rule prx_delivered_core [OF i(1) e1(1)])
  note k1 = prx_coreD [OF core1]
  define e2 where "e2 = e1\<lparr>prx_reordering_timer := False\<rparr>"
  have e2: "(if (prx_is_srb e1 \<or> prx_is_um e1) \<and> prx_reordering_timer e1 then e1\<lparr>prx_reordering_timer := False\<rparr> else e1) = e2"
    using b g(4) by (simp add: e2_def)
  obtain e3 evs where r: "deliver_all_loop (prx_d e1) e2 = (e3, evs)" by (cases "deliver_all_loop (prx_d e1) e2")
  have "cm_wf (prx_window e2)" using near_windowD(1) [OF k1(1)] by (simp add: e2_def)
  note d = deliver_all_loop_ok [OF this r]
  define w where "w = (if prx_is_um e then prx_window e3 else prx_window e1)"
  have empty: "cm_get w k = None" for k
  proof (cases "prx_is_um e")
    case True
    have "cm_get (prx_window e3) k = (if prx_d e1 \<le> k \<and> k < prx_n e1 then None else cm_get (prx_window e1) k)"
      using d by (simp add: e2_def)
    moreover have "prx_d e1 \<le> k \<and> k < prx_n e1" if "cm_get (prx_window e1) k \<noteq> None"
      using k1(3,4) [of k] that by (auto simp: cm_contains_get)
    ultimately show ?thesis using True by (cases "cm_get (prx_window e1) k") (auto simp: w_def)
  next
    case False
    then have "prx_d e1 = prx_n e1" using b e1(2) g(2) by simp
    then show ?thesis using k1(3,4) [of k] False by (cases "cm_get (prx_window e1) k") (auto simp: cm_contains_get w_def)
  qed
  have wf: "cm_wf w" "cm_max_size w = cm_max_size (prx_window e)"
  proof -
    have "cm_max_size (prx_window e1) = cm_max_size (prx_window e)"
      using near_windowD(2) [OF prx_coreD(1) [OF i(1)]] near_windowD(2) [OF k1(1)] g(4) by (simp add: word_uint_eq_iff)
    then show "cm_wf w" "cm_max_size w = cm_max_size (prx_window e)"
      using d near_windowD(1) [OF k1(1)] by (simp_all add: w_def e2_def)
  qed
  have m: "prx_moved e (prx_window e1) (prx_d e1) = e1" by (rule g(7))
  have "prx_reset w 0 (prx_moved e (prx_window e1) (prx_d e1)) = prx_reset w 0 e" by (simp add: prx_reset_def prx_moved_def)
  then have reset: "prx_reset w 0 e1 = prx_reset w 0 e" by (simp only: m)
  have um: "e3 = e2\<lparr>prx_window := prx_window e3\<rparr>" using d by blast
  have after: "(if prx_is_um e1 then deliver_all_sdus e2 else (e2, [])) = (e2\<lparr>prx_window := w\<rparr>, if prx_is_um e then evs else [])"
    using um r g(4) by (auto simp: w_def deliver_all_sdus_def e2_def)
  have st: "(e2\<lparr>prx_window := w\<rparr>)\<lparr>prx_st := \<lparr>rx_next_count = 0, rx_deliv = 0, rx_reord = 0\<rparr>\<rparr> = prx_reset w 0 e"
    unfolding reset [symmetric] by (simp add: prx_reset_def e2_def)
  have ev: "(if prx_is_um e then evs else []) = reestablish_events e"
    using d e1(2,3) g(2) by (cases "prx_is_srb e") (simp_all add: reestablish_events_def e2_def deliver_events_empty)
  have cfg2: "prx_cfg e2 = prx_cfg e" "prx_cfg e1 = prx_cfg e" using g(4) by (simp_all add: e2_def)
  have "pdcp_rx_reestablish lib cfg e = map_option (\<lambda>e'. (e', reestablish_events e))
      (pdcp_rx_configure_security lib cfg (prx_integrity_enabled (prx_reset w 0 e)) (prx_ciphering_enabled (prx_reset w 0 e)) (prx_reset w 0 e))"
    unfolding pdcp_rx_reestablish_def e1_def [symmetric] Let_def e2
    using after b by (simp add: cfg2 st ev)
  then show thesis using that [OF wf empty] by (simp add: prx_reset_def)
qed

lemma reestablish_ok:
  assumes ok: "prx_ok lib S P p e" and t: "prx_tasks e = 0" and run: "pdcp_rx_reestablish lib' cfg e = Some (e', evs)"
    and S: "set (prx_sec_engine_pool e') \<subseteq> S"
  shows "prx_ok lib S P p e'" "prx_same e e'" "evs = reestablish_events e"
    "prx_is_srb e \<or> prx_is_um e \<Longrightarrow> prx_d e' = 0 \<and> prx_n e' = 0"
    "\<not> prx_is_srb e \<Longrightarrow> \<not> prx_is_um e \<Longrightarrow> prx_st e' = prx_st e"
proof -
  have "prx_ok lib S P p e' \<and> prx_same e e' \<and> evs = reestablish_events e \<and>
    (if prx_is_srb e \<or> prx_is_um e then prx_d e' = 0 \<and> prx_n e' = 0 else prx_st e' = prx_st e)"
  proof (cases "prx_is_srb e \<or> prx_is_um e")
    case False
    then have c: "pdcp_rx_configure_security lib' cfg (prx_integrity_enabled e) (prx_ciphering_enabled e) e = Some e'" "evs = reestablish_events e"
      using run reestablish_am [of e lib' cfg] by auto
    have q: "prx_quiet e e'" by (rule configure_security_ok(2) [OF ok c(1) S])
    show ?thesis using configure_security_ok(1) [OF ok c(1) S] prx_quiet_same [OF q] q c(2) False by (simp add: prx_quiet_def)
  next
    case True
    obtain w where w: "cm_wf w" "cm_max_size w = cm_max_size (prx_window e)" "\<And>k. cm_get w k = None"
      "pdcp_rx_reestablish lib' cfg e = map_option (\<lambda>e'. (e', reestablish_events e))
        (pdcp_rx_configure_security lib' cfg (prx_integrity_enabled e) (prx_ciphering_enabled e) (prx_reset w 0 e))"
      using reestablish_reset [OF prx_okD(1) [OF ok] True] by blast
    have ok': "prx_ok lib S P p (prx_reset w 0 e)" by (rule prx_reset_ok [OF ok w(1-3) t]) simp
    have c: "pdcp_rx_configure_security lib' cfg (prx_integrity_enabled e) (prx_ciphering_enabled e) (prx_reset w 0 e) = Some e'"
      "evs = reestablish_events e" using run w(4) by auto
    have q: "prx_quiet (prx_reset w 0 e) e'" by (rule configure_security_ok(2) [OF ok' c(1) S])
    then show ?thesis using configure_security_ok(1) [OF ok' c(1) S] c(2) True
      by (simp add: prx_quiet_def prx_same_def prx_reset_def)
  qed
  then show "prx_ok lib S P p e'" "prx_same e e'" "evs = reestablish_events e"
    "prx_is_srb e \<or> prx_is_um e \<Longrightarrow> prx_d e' = 0 \<and> prx_n e' = 0"
    "\<not> prx_is_srb e \<Longrightarrow> \<not> prx_is_um e \<Longrightarrow> prx_st e' = prx_st e" by (simp_all split: if_splits)
qed

lemma set_count_ok:
  assumes ok: "prx_ok lib S P p e" and t: "prx_tasks e = 0" and dn: "prx_d e = prx_n e"
    and c: "pdcp_compute_count (ci_hfn ci) (ci_sn ci) (prx_sn_size (prx_cfg e)) \<le> prx_hard e"
  shows "prx_ok lib S P p (pdcp_rx_set_count ci e)" "prx_same e (pdcp_rx_set_count ci e)"
proof -
  note o = prx_okD [OF ok]
  note k = prx_coreD [OF prx_invD(1) [OF o(1)]]
  have "cm_get (prx_window e) j = None" for j
    using k(3,4) [of j] dn by (cases "cm_get (prx_window e) j") (auto simp: cm_contains_get)
  then have "prx_ok lib S P p (prx_reset (prx_window e) (pdcp_compute_count (ci_hfn ci) (ci_sn ci) (prx_sn_size (prx_cfg e))) e)"
    by (intro prx_reset_ok [OF ok _ _ _ t c]) (simp_all add: near_windowD(1) [OF k(1)])
  moreover have "prx_reset (prx_window e) (pdcp_compute_count (ci_hfn ci) (ci_sn ci) (prx_sn_size (prx_cfg e))) e = pdcp_rx_set_count ci e"
    using prx_timer_off [OF o(1) dn] by (simp add: prx_reset_def pdcp_rx_set_count_def Let_def)
  ultimately show "prx_ok lib S P p (pdcp_rx_set_count ci e)" by simp
  show "prx_same e (pdcp_rx_set_count ci e)" by (simp add: pdcp_rx_set_count_def prx_same_def Let_def)
qed

lemma create_ok:
  assumes run: "pdcp_rx_create rohc rb_id cfg workers = Some e" and hard: "uint (mc_hard (prx_max_count cfg)) \<le> 2 ^ 32 - 2 * pdcp_win (prx_sn_size cfg)"
    and S: "None \<in> S"
  shows "prx_ok lib S P False e" "prx_cfg e = cfg" "prx_d e = 0" "\<not> prx_stopped e"
proof -
  let ?sz = "prx_sn_size cfg"
  obtain w :: "pdcp_rx_sdu_info circular_map" where w: "cm_create (pdcp_window_size (sn_bits ?sz)) = Some w" "near_window w 0 (pdcp_win ?sz)"
    "\<And>k. cm_get w k = None" using near_window_create by blast
  have sz: "?sz \<noteq> pdcp_size_invalid" using run by (auto simp: pdcp_rx_create_def)
  then obtain hdr where hdr: "pdcp_data_pdu_header_size ?sz = Some hdr" by (cases ?sz) auto
  have win: "pdcp_window_size_of ?sz = Some (pdcp_window_size (sn_bits ?sz))" using sz by (simp add: pdcp_window_size_of_eq)
  note e = run [unfolded pdcp_rx_create_def hdr win w(1) prod.case option.case]
  have f: "prx_cfg e = cfg" "prx_st e = \<lparr>rx_next_count = 0, rx_deliv = 0, rx_reord = 0\<rparr>" "prx_window e = w" "\<not> prx_stopped e"
    "prx_reordering_timer e = False" "prx_token_mngr e = \<lparr>tm_pending_crypto = False, tm_tokens = 0\<rparr>" "prx_crypto_tasks e = []"
    "prx_ue_tasks e = []" "prx_pdu_buffer e = []" "prx_sec_engine_pool e = replicate workers None"
    "prx_max_nof_crypto_workers e = workers" "prx_window_size e = pdcp_window_size (sn_bits ?sz)" "prx_hdr_len_bytes e = hdr"
    using e by (auto split: if_splits)
  have "0 < pdcp_win ?sz" by (rule pdcp_win_pos)
  then have "prx_inv e" using w hard sz hdr
    by (simp add: prx_inv_defs f cm_contains_get uint_pdcp_window_size split: pdcp_t_reordering.splits)
  moreover have "tokens_ok False e" by (simp add: tokens_ok_def prx_tasks_def f)
  moreover have "prx_contents lib S P e" using S w(3) by (auto simp: prx_contents_def f)
  ultimately show "prx_ok lib S P False e" by (simp add: prx_ok_def)
  show "prx_cfg e = cfg" "prx_d e = 0" "\<not> prx_stopped e" by (simp_all add: f)
qed

end
