(* ===== verification/Pdcp_Rx_Run.thy ===== *)
theory Pdcp_Rx_Run
  imports Pdcp_Rx_Reset
begin

text \<open>
  The runs of the receiving PDCP entity: every state of a run meets the invariant and its trace is in order.  Lemmas on
  what a security engine protects and on the expiries of t-Reordering for the properties in \<open>Pdcp_Rx_Props\<close>.
\<close>

section \<open>Runs\<close>

text \<open>
  A run of an entity with configuration \<open>cfg\<close>: PDUs of the set \<open>P\<close> arrive, workers take crypto tasks and the UE
  executor takes its tasks from any position of the lists, t-Reordering expires while it runs, and the control plane
  stops, buffers, secures and re-establishes.  The engines it sets up are in \<open>S\<close>.  The flag says that the control plane
  has taken its token back (\<open>stop\<close>, \<open>notify_pdu_processing_stopped\<close>).  The list holds the calls to the upper layers,
  the latest first by period: a period ends when the COUNT starts over, at the re-establishment of an SRB or UM DRB or
  at a status transfer.

  The conditions are those the callers in \<open>lib/cu_up\<close> keep to: buffering is on while processing is stopped, the
  entity is re-established and its COUNT set when the crypto tasks were awaited, the COUNT only of a bearer that waits
  for nothing.  Fewer than 2 to the 30 tasks are in flight.
\<close>

inductive prx_run :: "aes_lib \<Rightarrow> security_engine option set \<Rightarrow> bytes set \<Rightarrow> pdcp_rx_config \<Rightarrow> bool \<Rightarrow> pdcp_rx_event list list \<Rightarrow>
    pdcp_entity_rx \<Rightarrow> bool" for lib S P cfg where
  run_create: "pdcp_rx_create rohc rb_id cfg workers = Some e \<Longrightarrow> uint (mc_hard (prx_max_count cfg)) \<le> 2 ^ 32 - 2 * pdcp_win (prx_sn_size cfg) \<Longrightarrow>
    None \<in> S \<Longrightarrow> prx_run lib S P cfg False [[]] e"
| run_create_secure: "pdcp_rx_create rohc rb_id cfg workers = Some e \<Longrightarrow>
    uint (mc_hard (prx_max_count cfg)) \<le> 2 ^ 32 - 2 * pdcp_win (prx_sn_size cfg) \<Longrightarrow>
    pdcp_rx_configure_security lib sec integ ciph e = Some e' \<Longrightarrow> set (prx_sec_engine_pool e') \<subseteq> S \<Longrightarrow> prx_run lib S P cfg False [[]] e'"
| run_pdu: "prx_run lib S P cfg p (evs # old) e \<Longrightarrow> pdu \<in> P \<Longrightarrow> prx_tasks e < 2 ^ 30 \<Longrightarrow> p \<longrightarrow> prx_stopped e \<or> prx_buffering e \<Longrightarrow>
    pdcp_rx_handle_pdu copy_ok crypto_ok pdu e = Some (e', evs') \<Longrightarrow> prx_run lib S P cfg p ((evs @ evs') # old) e'"
| run_crypto: "prx_run lib S P cfg p evss e \<Longrightarrow> prx_crypto_tasks e = as @ info # bs \<Longrightarrow>
    pdcp_rx_apply_security lib worker ue_ok info (e\<lparr>prx_crypto_tasks := as @ bs\<rparr>) = Some e' \<Longrightarrow> prx_run lib S P cfg p evss e'"
| run_ue: "prx_run lib S P cfg p (evs # old) e \<Longrightarrow> prx_ue_tasks e = us @ t # vs \<Longrightarrow>
    run_ue_task t (e\<lparr>prx_ue_tasks := us @ vs\<rparr>) = Some (e', evs') \<Longrightarrow> prx_run lib S P cfg p ((evs @ evs') # old) e'"
| run_expiry: "prx_run lib S P cfg p (evs # old) e \<Longrightarrow> prx_reordering_timer e \<Longrightarrow>
    reordering_callback (e\<lparr>prx_reordering_timer := False\<rparr>) = Some (e', evs') \<Longrightarrow> prx_run lib S P cfg p ((evs @ evs') # old) e'"
| run_stop: "prx_run lib S P cfg False evss e \<Longrightarrow> pdcp_rx_stop e = Some e' \<Longrightarrow> prx_run lib S P cfg True evss e'"
| run_notify: "prx_run lib S P cfg False evss e \<Longrightarrow> notify_pdu_processing_stopped e = Some e' \<Longrightarrow> prx_run lib S P cfg True evss e'"
| run_restart: "prx_run lib S P cfg True evss e \<Longrightarrow> \<not> prx_stopped e \<Longrightarrow> prx_run lib S P cfg False evss (restart_pdu_processing e)"
| run_begin: "prx_run lib S P cfg p evss e \<Longrightarrow> prx_run lib S P cfg p evss (begin_buffering e)"
| run_end: "prx_run lib S P cfg p (evs # old) e \<Longrightarrow> p \<longrightarrow> prx_stopped e \<Longrightarrow> prx_tasks e + length (prx_pdu_buffer e) \<le> 2 ^ 30 \<Longrightarrow>
    end_buffering oks e = Some (e', evs') \<Longrightarrow> prx_run lib S P cfg p ((evs @ evs') # old) e'"
| run_security: "prx_run lib S P cfg p evss e \<Longrightarrow> pdcp_rx_configure_security lib sec integ ciph e = Some e' \<Longrightarrow>
    set (prx_sec_engine_pool e') \<subseteq> S \<Longrightarrow> prx_run lib S P cfg p evss e'"
| run_reestablish: "prx_run lib S P cfg p (evs # old) e \<Longrightarrow> prx_tasks e = 0 \<Longrightarrow> pdcp_rx_reestablish lib sec e = Some (e', evs') \<Longrightarrow>
    set (prx_sec_engine_pool e') \<subseteq> S \<Longrightarrow>
    prx_run lib S P cfg p (if prx_is_srb e \<or> prx_is_um e then [] # (evs @ evs') # old else (evs @ evs') # old) e'"
| run_set_count: "prx_run lib S P cfg p evss e \<Longrightarrow> prx_tasks e = 0 \<Longrightarrow> prx_d e = prx_n e \<Longrightarrow>
    pdcp_compute_count (ci_hfn ci) (ci_sn ci) (prx_sn_size cfg) \<le> mc_hard (prx_max_count cfg) \<Longrightarrow>
    prx_run lib S P cfg p ([] # evss) (pdcp_rx_set_count ci e)"

definition run_ok :: "aes_lib \<Rightarrow> security_engine option set \<Rightarrow> bytes set \<Rightarrow> pdcp_rx_config \<Rightarrow> bool \<Rightarrow> pdcp_rx_event list list \<Rightarrow> pdcp_entity_rx \<Rightarrow> bool" where
  "run_ok lib S P cfg p evss e \<longleftrightarrow> prx_ok lib S P p e \<and> prx_cfg e = cfg \<and> (prx_stopped e \<longrightarrow> p) \<and>
     evss \<noteq> [] \<and> trace_below (prx_d e) (hd evss) \<and> (\<forall>evs \<in> set evss. trace_ok (sdu_from lib S P cfg) evs)"

lemma trace_empty [simp]: "trace_ok Q []" "trace_below d []" by (simp_all add: trace_ok_def trace_below_def)

lemma run_ok_emits:
  assumes "run_ok lib S P cfg p (evs # old) e" "prx_ok lib S P p e'" "prx_same e e'" "prx_emits (sdu_from lib S P (prx_cfg e)) e e' evs'"
  shows "run_ok lib S P cfg p ((evs @ evs') # old) e'"
proof -
  have c: "prx_cfg e = cfg" "trace_ok (sdu_from lib S P cfg) evs" "trace_below (prx_d e) evs" using assms(1) by (simp_all add: run_ok_def)
  from prx_emits_trace [OF c(2,3) assms(4) [unfolded c(1)]] assms show ?thesis by (simp add: run_ok_def prx_same_def)
qed

lemma run_ok_silent:
  assumes "run_ok lib S P cfg p (evs # old) e" "prx_ok lib S P p e'" "prx_quiet e e'" "sdu_counts evs' = []"
  shows "run_ok lib S P cfg p ((evs @ evs') # old) e'"
  using run_ok_emits [OF assms(1,2) prx_quiet_same [OF assms(3)] prx_quiet_emits [OF assms(3,4)]] .

lemma run_ok_quiet:
  assumes "run_ok lib S P cfg p evss e" "prx_ok lib S P p' e'" "prx_st e' = prx_st e" "prx_cfg e' = prx_cfg e" "prx_stopped e' \<longrightarrow> p'"
  shows "run_ok lib S P cfg p' evss e'"
  using assms by (simp add: run_ok_def)

lemma create_secure_ok:
  assumes run: "pdcp_rx_create rohc rb_id cfg workers = Some e" and hard: "uint (mc_hard (prx_max_count cfg)) \<le> 2 ^ 32 - 2 * pdcp_win (prx_sn_size cfg)"
    and sec: "pdcp_rx_configure_security lib sec i c e = Some e'" and S: "set (prx_sec_engine_pool e') \<subseteq> S"
  shows "prx_ok lib S P False e'" "prx_quiet e e'"
proof -
  have ok: "prx_ok lib (insert None S) P False e" by (rule create_ok [OF run hard]) simp
  have ok': "prx_ok lib (insert None S) P False e'" and q: "prx_quiet e e'"
    by (rule configure_security_ok [OF ok sec]; use S in blast)+
  have e: "prx_crypto_tasks e = []" "prx_ue_tasks e = []" "prx_window e = the (cm_create (pdcp_window_size (sn_bits (prx_sn_size cfg))))"
    using run by (auto simp: pdcp_rx_create_def split: option.splits if_splits)
  have e': "prx_crypto_tasks e' = prx_crypto_tasks e" "prx_ue_tasks e' = prx_ue_tasks e" "prx_window e' = prx_window e"
    using sec by (auto simp: pdcp_rx_configure_security_def Let_def split: if_splits option.splits)
  obtain w :: "pdcp_rx_sdu_info circular_map" where "cm_create (pdcp_window_size (sn_bits (prx_sn_size cfg))) = Some w" "\<And>k. cm_get w k = None"
    using near_window_create by blast
  then have "prx_contents lib S P e'" using prx_okD(3) [OF ok'] S by (simp add: prx_contents_def e e')
  then show "prx_ok lib S P False e'" using ok' by (simp add: prx_ok_def)
  show "prx_quiet e e'" by (rule q)
qed

lemma reestablish_trace:
  assumes "trace_ok Q evs" "trace_below (prx_d e) evs" "prx_core e" "\<And>k i. cm_get (prx_window e) k = Some i \<Longrightarrow> Q k (rsi_buf i)"
  shows "trace_ok Q (evs @ reestablish_events e)"
  using trace_deliver(1) [OF assms(1,2) prx_coreD(2) [OF assms(3)], of "prx_window e"] assms(1,4) by (simp add: reestablish_events_def)

lemma prx_run_ok: "prx_run lib S P cfg p evss e \<Longrightarrow> run_ok lib S P cfg p evss e"
proof (induction rule: prx_run.induct)
  case (run_create rohc rb_id workers e)
  then show ?case using create_ok(1) [OF run_create, of lib P] create_ok(2,4) [OF run_create] by (simp add: run_ok_def)
next
  case (run_create_secure rohc rb_id workers e sec integ ciph e')
  note c = create_secure_ok(1) [OF run_create_secure, of P] create_secure_ok(2) [OF run_create_secure]
  have "prx_cfg e = cfg" "\<not> prx_stopped e" using create_ok(2,4) [OF run_create_secure(1,2), of UNIV] by simp_all
  then show ?case using c by (simp add: run_ok_def prx_quiet_def)
next
  case (run_pdu p evs old e pdu copy_ok crypto_ok e' evs')
  have ok: "prx_ok lib S P p e" using run_pdu.IH by (simp add: run_ok_def)
  obtain f gs where "pdcp_rx_handle_pdu copy_ok crypto_ok pdu e = Some (f, gs)" "prx_ok lib S P p f" "prx_quiet e f" "sdu_counts gs = []"
    using handle_pdu_ok [OF ok run_pdu(2,3), of copy_ok crypto_ok] run_pdu(4) by blast
  then show ?case using run_ok_silent [OF run_pdu.IH] run_pdu(5) by simp
next
  case (run_crypto p evss e as info bs worker ue_ok e')
  have ok: "prx_ok lib S P p e" using run_crypto.IH by (simp add: run_ok_def)
  note a = apply_security_ok [OF ok run_crypto(2,3)]
  show ?case by (rule run_ok_quiet [OF run_crypto.IH a(1)]) (use a(2) run_crypto.IH in \<open>simp_all add: prx_quiet_def run_ok_def\<close>)
next
  case (run_ue p evs old e us t vs e' evs')
  have ok: "prx_ok lib S P p e" using run_ue.IH by (simp add: run_ok_def)
  obtain f gs where "run_ue_task t (e\<lparr>prx_ue_tasks := us @ vs\<rparr>) = Some (f, gs)" "prx_ok lib S P p f" "prx_same e f"
    "prx_emits (sdu_from lib S P (prx_cfg e)) e f gs" by (rule run_ue_task_ok [OF ok run_ue(2)])
  then show ?case using run_ok_emits [OF run_ue.IH] run_ue(3) by simp
next
  case (run_expiry p evs old e e' evs')
  have ok: "prx_ok lib S P p e" using run_expiry.IH by (simp add: run_ok_def)
  obtain f gs where "reordering_callback (e\<lparr>prx_reordering_timer := False\<rparr>) = Some (f, gs)" "prx_ok lib S P p f" "prx_same e f"
    "prx_emits (sdu_from lib S P (prx_cfg e)) e f gs" by (rule expiry_ok [OF ok run_expiry(2)])
  then show ?case using run_ok_emits [OF run_expiry.IH] run_expiry(3) by simp
next
  case (run_stop evss e e')
  have ok: "prx_ok lib S P False e" "\<not> prx_stopped e" using run_stop.IH by (simp_all add: run_ok_def)
  obtain f where "pdcp_rx_stop e = Some f" "prx_ok lib S P True f" "prx_st f = prx_st e" "prx_cfg f = prx_cfg e"
    using pdcp_rx_stop_ok [OF ok] by blast
  then show ?case using run_ok_quiet [OF run_stop.IH] run_stop(2) by simp
next
  case (run_notify evss e e')
  have ok: "prx_ok lib S P False e" "\<not> prx_stopped e" using run_notify.IH by (simp_all add: run_ok_def)
  obtain f where "notify_pdu_processing_stopped e = Some f" "prx_ok lib S P True f" "prx_quiet e f"
    by (rule notify_stopped_ok [OF ok])
  then show ?case using run_ok_quiet [OF run_notify.IH] run_notify(2) by (simp add: prx_quiet_def)
next
  case (run_restart evss e)
  have ok: "prx_ok lib S P True e" using run_restart.IH by (simp add: run_ok_def)
  note r = restart_ok [OF ok run_restart(2)]
  show ?case by (rule run_ok_quiet [OF run_restart.IH r(1)]) (use r(2) run_restart(2) in \<open>simp_all add: prx_quiet_def\<close>)
next
  case (run_begin p evss e)
  show ?case by (rule run_ok_quiet [OF run_begin.IH]) (use run_begin.IH in \<open>simp_all add: begin_buffering_def run_ok_def\<close>)
next
  case (run_end p evs old e oks e' evs')
  have ok: "prx_ok lib S P p e" using run_end.IH by (simp add: run_ok_def)
  obtain f gs where f: "end_buffering oks e = Some (f, gs)" "prx_ok lib S P p f" "prx_st f = prx_st e" "prx_cfg f = prx_cfg e"
    "prx_stopped f = prx_stopped e" "sdu_counts gs = []"
    using end_buffering_ok [OF ok run_end(3), of oks] run_end(2) by blast
  then have "run_ok lib S P cfg p (evs # old) e'" using run_ok_quiet [OF run_end.IH, of p f] run_end.IH run_end(4) by (simp add: run_ok_def)
  then show ?case using run_ok_silent [of lib S P cfg p evs old e' e' gs] f run_end(4) by simp
next
  case (run_security p evss e sec integ ciph e')
  have ok: "prx_ok lib S P p e" using run_security.IH by (simp add: run_ok_def)
  note a = configure_security_ok [OF ok run_security(2,3)]
  show ?case by (rule run_ok_quiet [OF run_security.IH a(1)]) (use a(2) run_security.IH in \<open>simp_all add: prx_quiet_def run_ok_def\<close>)
next
  case (run_reestablish p evs old e sec e' evs')
  have ok: "prx_ok lib S P p e" and cfg: "prx_cfg e = cfg" and st: "prx_stopped e \<longrightarrow> p"
    and t: "trace_ok (sdu_from lib S P cfg) evs" "trace_below (prx_d e) evs" "\<forall>evs \<in> set old. trace_ok (sdu_from lib S P cfg) evs"
    using run_reestablish.IH by (simp_all add: run_ok_def)
  note r = reestablish_ok [OF ok run_reestablish(2,3,4)]
  have src: "sdu_from lib S P cfg k (rsi_buf i)" if "cm_get (prx_window e) k = Some i" for k i
    using prx_okD(3) [OF ok] cfg that by (simp add: prx_contents_def)
  have tr: "trace_ok (sdu_from lib S P cfg) (evs @ evs')"
    unfolding r(3) by (rule reestablish_trace [OF t(1,2) prx_invD(1) [OF prx_okD(1) [OF ok]] src])
  show ?case
  proof (cases "prx_is_srb e \<or> prx_is_um e")
    case True
    then show ?thesis using r(1,2) cfg st tr t(3) by (simp add: run_ok_def prx_same_def)
  next
    case False
    then have "evs' = []" using r(3) by (simp add: reestablish_events_def)
    then show ?thesis using r(1,2,5) False cfg st tr t by (simp add: run_ok_def prx_same_def)
  qed
next
  case (run_set_count p evss e ci)
  have ok: "prx_ok lib S P p e" and cfg: "prx_cfg e = cfg" using run_set_count.IH by (simp_all add: run_ok_def)
  note s = set_count_ok [OF ok run_set_count(2,3), of ci, unfolded cfg, OF run_set_count(4)]
  then show ?case using run_set_count.IH cfg by (simp add: run_ok_def prx_same_def)
qed

lemma prx_runD:
  assumes "prx_run lib S P cfg p evss e"
  shows "prx_inv e" "tokens_ok p e" "prx_contents lib S P e" "prx_ok lib S P p e" "prx_cfg e = cfg" "prx_stopped e \<Longrightarrow> p"
    "trace_below (prx_d e) (hd evss)" "evs \<in> set evss \<Longrightarrow> trace_ok (sdu_from lib S P cfg) evs"
  using prx_run_ok [OF assms] by (simp_all add: run_ok_def prx_ok_def)

section \<open>What protects an SDU\<close>

lemma apply_ciphering_shape:
  assumes "aes_lib_ok lib" "apply_ciphering lib ce x offset count = Inr y" "offset \<le> length x" "length x < 2 ^ 28"
  shows "length y = length x" "take offset y = take offset x"
proof -
  obtain v where v: "cipher_view lib ce (drop offset x) count = Some v" "y = take offset x @ v"
    using assms(2) by (auto simp: apply_ciphering_def split: option.splits)
  have "length (drop offset x) < 2 ^ 28" using assms(4) by simp
  then have "length v = length (drop offset x)" using cipher_view_inverse [OF assms(1), of "drop offset x" ce count v] v(1) by simp
  then show "length y = length x" "take offset y = take offset x" using v(2) assms(3) by simp_all
qed

lemma decrypt_length:
  assumes "aes_lib_ok lib" "decrypt_and_verify_integrity lib g pdu offset count = Some (Inr buf)" "offset \<le> length pdu" "length pdu < 2 ^ 28"
  shows "length buf \<le> length pdu"
proof -
  obtain x where x: "(case cipher_eng g of None \<Rightarrow> Inr pdu | Some ce \<Rightarrow> apply_ciphering lib ce pdu offset count) = Inr x"
    "(case integ_eng g of None \<Rightarrow> Some (Inr x) | Some ie \<Rightarrow> verify_integrity lib ie x count) = Some (Inr buf)"
    using assms(2) unfolding decrypt_and_verify_integrity_def by (auto split: sum.splits)
  have "length x = length pdu" using x(1) apply_ciphering_shape(1) [OF assms(1) _ assms(3,4)] by (auto split: option.splits)
  moreover have "length buf \<le> length x" using x(2)
    by (auto simp: verify_integrity_def Let_def split: option.splits sum.splits if_splits)
  ultimately show ?thesis by simp
qed

lemma encrypt_shape:
  assumes "aes_lib_ok lib" "encrypt_and_protect_integrity lib g True buf offset count = Some (Inr pdu)" "offset \<le> length buf"
    "length buf < 2 ^ 27"
  shows "take offset pdu = take offset buf" "length buf \<le> length pdu"
proof -
  obtain x where x: "(case integ_eng g of None \<Rightarrow> Some (Inr buf) | Some ie \<Rightarrow> protect_integrity lib ie True buf count) = Some (Inr x)"
    "(case cipher_eng g of None \<Rightarrow> Some (Inr x) | Some ce \<Rightarrow> Some (apply_ciphering lib ce x offset count)) = Some (Inr pdu)"
    using assms(2) unfolding encrypt_and_protect_integrity_def by (auto split: option.splits sum.splits)
  have "\<exists>m. x = buf @ m \<and> length m \<le> 4"
  proof (cases "integ_eng g")
    case (Some ie)
    then obtain mac where "integrity_engine_mac lib ie buf count = Some (Inr mac)" "x = buf @ mac"
      using x(1) by (auto simp: protect_integrity_def split: option.splits sum.splits)
    then show ?thesis using integrity_mac_length [OF assms(1), of ie buf count mac] assms(4) by simp
  qed (use x(1) in simp)
  then obtain m where m: "x = buf @ m" "length m \<le> 4" by blast
  then have l: "offset \<le> length x" "length x < 2 ^ 28" using assms(3,4) by simp_all
  have "take offset pdu = take offset x \<and> length pdu = length x"
    using x(2) apply_ciphering_shape [OF assms(1) _ l] by (auto split: option.splits)
  then show "take offset pdu = take offset buf" "length buf \<le> length pdu" using m(1) assms(3) by simp_all
qed

lemma read_header_prefix:
  assumes "take (pdcp_data_header_size sz) a = take (pdcp_data_header_size sz) b"
    "pdcp_data_header_size sz < length a" "pdcp_data_header_size sz < length b"
  shows "pdcp_read_data_pdu_header sz a = pdcp_read_data_pdu_header sz b" "hd a = hd b"
proof -
  have n: "a ! i = b ! i" if "i < pdcp_data_header_size sz" for i using assms(1) that by (metis nth_take)
  show "pdcp_read_data_pdu_header sz a = pdcp_read_data_pdu_header sz b"
    using n assms(2,3) by (cases sz) (simp_all add: pdcp_read_data_pdu_header_def pdcp_data_header_size_def)
  have "0 < pdcp_data_header_size sz" by (simp add: pdcp_data_header_size_def)
  then show "hd a = hd b" using n [of 0] assms(2,3) by (cases a; cases b) auto
qed

lemma read_header_length:
  "pdcp_read_data_pdu_header sz pdu = Some sn \<Longrightarrow> pdcp_data_header_size sz < length pdu"
  by (cases sz) (auto simp: pdcp_read_data_pdu_header_def pdcp_data_header_size_def split: if_splits)

text \<open>An SDU that came out of a security engine is the payload of exactly that PDU.\<close>

lemma sdu_accepted_protected:
  assumes lib: "aes_lib_ok lib" and a: "sdu_accepted lib cfg (Some g) pdu c sdu" and l: "length pdu < 2 ^ 27"
  shows "\<exists>h. length h = pdcp_data_header_size (prx_sn_size cfg) \<and>
    encrypt_and_protect_integrity lib g True (h @ sdu) (pdcp_data_header_size (prx_sn_size cfg)) c = Some (Inr pdu)"
proof -
  let ?n = "pdcp_data_header_size (prx_sn_size cfg)"
  have h: "?n < length pdu" using a by (auto simp: sdu_accepted_def dest: read_header_length)
  obtain buf where b: "decrypt_and_verify_integrity lib g pdu ?n c = Some (Inr buf)" "?n \<le> length buf" "sdu = drop ?n buf"
    using a by (auto simp: sdu_accepted_def)
  have "length buf \<le> length pdu" by (rule decrypt_length [OF lib b(1)]) (use h l in simp_all)
  then have lb: "length buf < 2 ^ 27" using l by simp
  have ne: "buf \<noteq> []" using b(2) by (auto simp: pdcp_data_header_size_def split: if_splits)
  have "encrypt_and_protect_integrity lib g True buf ?n c = Some (Inr pdu)"
    using security_engine_exact [OF lib lb b(2) ne, of g pdu c] b(1) h l by simp
  then show ?thesis using b(2,3) by (intro exI [of _ "take ?n buf"]) simp
qed

section \<open>Expiries of t-Reordering\<close>

text \<open>Up to \<open>n\<close> expiries, as long as the timer runs.\<close>

fun prx_expire :: "nat \<Rightarrow> pdcp_entity_rx \<Rightarrow> pdcp_rx_result" where
  "prx_expire 0 e = Some (e, [])"
| "prx_expire (Suc n) e =
     (if prx_reordering_timer e
      then case reordering_callback (e\<lparr>prx_reordering_timer := False\<rparr>) of
             None \<Rightarrow> None
           | Some (e', evs) \<Rightarrow> map_option (\<lambda>(e'', evs'). (e'', evs @ evs')) (prx_expire n e')
      else Some (e, []))"

lemma filter_has_sn_empty:
  assumes "prx_core e" "prx_d e = prx_n e"
  shows "filter (has_sn (prx_window e)) (count_range b n) = []"
  using prx_coreD(3,4) [OF assms(1)] assms(2) by (fastforce simp: filter_empty_conv set_count_range)

lemma expiry_effect:
  assumes inv: "prx_inv e" and run: "prx_reordering_timer e" "\<not> prx_stopped e"
  obtains e' where "reordering_callback (e\<lparr>prx_reordering_timer := False\<rparr>) = Some (e', deliver_events (prx_window e) (prx_d e) (prx_d e'))"
    "prx_inv e'" "prx_d e \<le> prx_d e'" "prx_d e' \<le> prx_n e" "prx_n e' = prx_n e" "\<not> prx_stopped e'" "prx_cfg e' = prx_cfg e"
    "\<And>k. prx_d e' \<le> k \<Longrightarrow> cm_get (prx_window e') k = cm_get (prx_window e) k"
    "prx_reordering_timer e' \<longleftrightarrow> prx_d e' < prx_n e" "prx_reordering_timer e' \<Longrightarrow> prx_r e' = prx_n e"
    "prx_r e \<le> prx_d e'"
proof -
  note i = prx_invD [OF inv]
  let ?e1 = "e\<lparr>prx_reordering_timer := False\<rparr>"
  obtain ms where ms: "prx_t_reordering (prx_cfg e) = t_reordering_ms ms" "ms \<noteq> 0" "prx_d e < prx_r e" "prx_r e \<le> prx_n e"
    using i(6) run by (auto simp: reord_timer_ok_def split: pdcp_t_reordering.splits if_splits)
  obtain e' where e': "reordering_callback ?e1 = Some (e', deliver_events (prx_window e) (prx_d e) (prx_d e'))" "prx_inv e'" "prx_rest e e'"
    "prx_d e \<le> prx_d e'" "prx_n e' = prx_n e" "\<And>k. cm_get (prx_window e') k = (if k < prx_d e' then None else cm_get (prx_window e) k)"
    "first_missing (prx_window e) (prx_r e) (prx_n e) (prx_d e')"
    using reordering_callback_ok [OF inv run(1)] run(2) by metis
  have "prx_core ?e1" "prx_d ?e1 \<le> prx_r ?e1" "prx_r ?e1 \<le> prx_n ?e1" using i(1) ms by simp_all
  from expire_ok [OF this] obtain e2 where e2: "prx_delivered ?e1 e2"
    "handle_t_reordering_expire ?e1 =
      Some (if prx_d e2 < prx_n ?e1 \<and> prx_t_reordering (prx_cfg ?e1) \<noteq> t_reordering_ms 0
            then e2\<lparr>prx_st := (prx_st e2)\<lparr>rx_reord := prx_n ?e1\<rparr>, prx_reordering_timer := True\<rparr> else e2,
        deliver_events (prx_window ?e1) (prx_d ?e1) (prx_d e2))" by blast
  have t2: "\<not> prx_reordering_timer e2" using prx_delivered_fields(1) [OF e2(1)] by simp
  have eq: "e' = (if prx_d e2 < prx_n e then e2\<lparr>prx_st := (prx_st e2)\<lparr>rx_reord := prx_n e\<rparr>, prx_reordering_timer := True\<rparr> else e2)"
    using e'(1) e2(2) run(2) ms(1,2) by (auto simp: reordering_callback_def split: if_splits)
  have tm: "prx_reordering_timer e' \<longleftrightarrow> prx_d e' < prx_n e" "prx_reordering_timer e' \<Longrightarrow> prx_r e' = prx_n e"
    using t2 unfolding eq by (auto split: if_splits)
  have fm: "prx_d e' \<le> prx_n e" "prx_r e \<le> prx_d e'" using e'(7) by (simp_all add: first_missing_def)
  have keep: "cm_get (prx_window e') k = cm_get (prx_window e) k" if "prx_d e' \<le> k" for k using e'(6) leD [OF that] by simp
  show thesis
    by (rule that [OF e'(1,2,4) fm(1) e'(5) _ _ keep tm fm(2)]) (use e'(3) run(2) in \<open>simp_all add: prx_rest_def\<close>)
qed

lemma two_expiries:
  assumes inv: "prx_inv e" and run: "\<not> prx_stopped e" "prx_t_reordering (prx_cfg e) \<noteq> t_reordering_infinity"
  shows "\<exists>e' evs. prx_expire 2 e = Some (e', evs) \<and> \<not> prx_reordering_timer e' \<and> prx_d e' = prx_n e \<and> prx_n e' = prx_n e \<and>
    sdu_counts evs = filter (has_sn (prx_window e)) (count_range (prx_d e) (prx_n e))"
proof (cases "prx_reordering_timer e")
  case False
  note i = prx_invD [OF inv]
  have "prx_d e = prx_n e"
    using i(6) run False prx_coreD(2) [OF i(1)] by (auto simp: reord_timer_ok_def split: pdcp_t_reordering.splits if_splits)
  then show ?thesis using False filter_has_sn_empty [OF i(1)] by (simp add: numeral_2_eq_2)
next
  case True
  obtain e1 where e1: "reordering_callback (e\<lparr>prx_reordering_timer := False\<rparr>) = Some (e1, deliver_events (prx_window e) (prx_d e) (prx_d e1))"
    "prx_inv e1" "prx_d e \<le> prx_d e1" "prx_d e1 \<le> prx_n e" "prx_n e1 = prx_n e" "\<not> prx_stopped e1"
    "\<And>k. prx_d e1 \<le> k \<Longrightarrow> cm_get (prx_window e1) k = cm_get (prx_window e) k"
    "prx_reordering_timer e1 \<longleftrightarrow> prx_d e1 < prx_n e" "prx_reordering_timer e1 \<Longrightarrow> prx_r e1 = prx_n e"
    using expiry_effect [OF inv True run(1)] by metis
  show ?thesis
  proof (cases "prx_reordering_timer e1")
    case False
    then have "prx_d e1 = prx_n e" using e1(4,8) by simp
    then show ?thesis using e1(1,5) True False by (simp add: numeral_2_eq_2 sdu_counts_deliver)
  next
    case t1: True
    obtain e2 where e2: "reordering_callback (e1\<lparr>prx_reordering_timer := False\<rparr>) = Some (e2, deliver_events (prx_window e1) (prx_d e1) (prx_d e2))"
      "prx_d e2 \<le> prx_n e1" "prx_n e2 = prx_n e1" "prx_reordering_timer e2 \<longleftrightarrow> prx_d e2 < prx_n e1" "prx_r e1 \<le> prx_d e2"
      using expiry_effect [OF e1(2) t1 e1(6)] by metis
    have d2: "prx_d e2 = prx_n e" by (rule order_antisym) (use e2(2,5) e1(5,9) t1 in simp_all)
    have "deliver_events (prx_window e1) (prx_d e1) (prx_n e) = deliver_events (prx_window e) (prx_d e1) (prx_n e)"
      by (rule deliver_events_cong) (rule e1(7))
    then have evs: "deliver_events (prx_window e) (prx_d e) (prx_d e1) @ deliver_events (prx_window e1) (prx_d e1) (prx_d e2) =
        deliver_events (prx_window e) (prx_d e) (prx_n e)"
      using deliver_events_append [OF e1(3,4)] by (simp add: d2)
    have "prx_expire 2 e = Some (e2, deliver_events (prx_window e) (prx_d e) (prx_n e))"
      using True t1 e1(1) e2(1) evs by (simp add: numeral_2_eq_2)
    then show ?thesis using d2 e2(3,4) e1(5) by (simp add: sdu_counts_deliver)
  qed
qed

end
