(* ===== verification/Pdcp_Rx_Props.thy ===== *)
theory Pdcp_Rx_Props
  imports Pdcp_Rx_Run
begin

text \<open>
  The properties of the receiving PDCP entity: the COUNTs come out once and in ascending order, an SDU is delivered only
  from a PDU that the peer protected and a protected PDU gives its SDU, a status report tells exactly what was received,
  t-Reordering ends every wait, and the crypto tasks can be awaited.
\<close>

section \<open>An example\<close>

text \<open>A DRB with 12-bit SNs: the second PDU of the peer arrives first.\<close>

definition prx_cfg_example :: pdcp_rx_config where
  "prx_cfg_example = \<lparr>prx_rb_type = rb_drb, prx_rlc_mode = rlc_am, prx_sn_size = pdcp_size12bits, prx_direction = pdcp_uplink,
     prx_header_compression = False, prx_t_reordering = t_reordering_ms 100,
     prx_max_count = \<lparr>mc_notify = 0xc0000000, mc_hard = 0xd0000000\<rparr>\<rparr>"

definition prx_sec_example :: sec_128_as_config where
  "prx_sec_example = \<lparr>c128_domain = dom_up, k_128_int = Some (replicate 16 1), k_128_enc = replicate 16 2,
     c128_integ_algo = Some nia2, c128_cipher_algo = nea2\<rparr>"

definition prx_engine_example :: security_engine where
  "prx_engine_example = the (security_engine_impl xor_lib prx_sec_example 0 dir_uplink True True)"

text \<open>What the peer sends for an SDU under a COUNT.\<close>

definition prx_buf_example :: "u32 \<Rightarrow> bytes \<Rightarrow> bytes" where
  "prx_buf_example c sdu = projr (pdcp_write_data_pdu_header rb_drb pdcp_size12bits True sdu (pdcp_compute_sn c pdcp_size12bits))"

definition prx_pdu_example :: "u32 \<Rightarrow> bytes \<Rightarrow> bytes" where
  "prx_pdu_example c sdu = projr (the (encrypt_and_protect_integrity xor_lib prx_engine_example True (prx_buf_example c sdu) 2 c))"

definition prx_example0 :: pdcp_entity_rx where
  "prx_example0 = the (pdcp_rx_configure_security xor_lib prx_sec_example True True (the (pdcp_rx_create False 1 prx_cfg_example 2)))"

definition prx_example1 :: pdcp_entity_rx where
  "prx_example1 = fst (the (pdcp_rx_handle_pdu True True (prx_pdu_example 1 [7, 8]) prx_example0))"

definition prx_example2 :: pdcp_entity_rx where
  "prx_example2 = the (pdcp_rx_apply_security xor_lib 1 True \<lparr>rpi_buf = prx_pdu_example 1 [7, 8], rpi_count = 1\<rparr>
     (prx_example1\<lparr>prx_crypto_tasks := []\<rparr>))"

definition prx_example3 :: pdcp_entity_rx where
  "prx_example3 = fst (the (run_ue_task (task_reordering \<lparr>rpi_buf = [7, 8], rpi_count = 1\<rparr>) (prx_example2\<lparr>prx_ue_tasks := []\<rparr>)))"

lemmas prx_example_defs = prx_cfg_example_def prx_sec_example_def prx_engine_example_def prx_buf_example_def prx_pdu_example_def
  prx_example0_def prx_example1_def prx_example2_def prx_example3_def

lemma ex_engine: "security_engine_impl xor_lib prx_sec_example 0 dir_uplink True True = Some prx_engine_example"
  by (simp add: prx_engine_example_def prx_sec_example_def security_engine_impl_def)

lemma ex_engine_pool: "prx_sec_engine_pool prx_example0 = [Some prx_engine_example, Some prx_engine_example]"
  by code_simp

lemma ex_run0: "prx_run xor_lib {Some prx_engine_example} {prx_pdu_example 1 [7, 8]} prx_cfg_example False [[]] prx_example0"
proof (rule run_create_secure)
  have "pdcp_rx_create False 1 prx_cfg_example 2 \<noteq> None" by code_simp
  then show "pdcp_rx_create False 1 prx_cfg_example 2 = Some (the (pdcp_rx_create False 1 prx_cfg_example 2))" by simp
  have "pdcp_rx_configure_security xor_lib prx_sec_example True True (the (pdcp_rx_create False 1 prx_cfg_example 2)) \<noteq> None" by code_simp
  then show "pdcp_rx_configure_security xor_lib prx_sec_example True True (the (pdcp_rx_create False 1 prx_cfg_example 2)) = Some prx_example0"
    by (simp add: prx_example0_def)
  show "uint (mc_hard (prx_max_count prx_cfg_example)) \<le> 2 ^ 32 - 2 * pdcp_win (prx_sn_size prx_cfg_example)"
    by (simp add: prx_cfg_example_def pdcp_win_def)
  show "set (prx_sec_engine_pool prx_example0) \<subseteq> {Some prx_engine_example}" by (simp add: ex_engine_pool)
qed

lemma ex_run1: "prx_run xor_lib {Some prx_engine_example} {prx_pdu_example 1 [7, 8]} prx_cfg_example False [[]] prx_example1"
proof -
  have "pdcp_rx_handle_pdu True True (prx_pdu_example 1 [7, 8]) prx_example0 \<noteq> None"
    "snd (the (pdcp_rx_handle_pdu True True (prx_pdu_example 1 [7, 8]) prx_example0)) = []" by code_simp+
  then have h: "pdcp_rx_handle_pdu True True (prx_pdu_example 1 [7, 8]) prx_example0 = Some (prx_example1, [])"
    by (auto simp: prx_example1_def)
  have "prx_tasks prx_example0 = 0" by code_simp
  then show ?thesis using run_pdu [OF ex_run0 _ _ _ h] by simp
qed

lemma ex_run2: "prx_run xor_lib {Some prx_engine_example} {prx_pdu_example 1 [7, 8]} prx_cfg_example False [[]] prx_example2"
proof (rule run_crypto [OF ex_run1])
  have "prx_crypto_tasks prx_example1 = [\<lparr>rpi_buf = prx_pdu_example 1 [7, 8], rpi_count = 1\<rparr>]" by code_simp
  then show "prx_crypto_tasks prx_example1 = [] @ \<lparr>rpi_buf = prx_pdu_example 1 [7, 8], rpi_count = 1\<rparr> # []" by simp
  have "pdcp_rx_apply_security xor_lib 1 True \<lparr>rpi_buf = prx_pdu_example 1 [7, 8], rpi_count = 1\<rparr> (prx_example1\<lparr>prx_crypto_tasks := []\<rparr>) \<noteq> None"
    by code_simp
  then show "pdcp_rx_apply_security xor_lib 1 True \<lparr>rpi_buf = prx_pdu_example 1 [7, 8], rpi_count = 1\<rparr>
      (prx_example1\<lparr>prx_crypto_tasks := [] @ []\<rparr>) = Some prx_example2"
    by (simp add: prx_example2_def)
qed

lemma ex_run3: "prx_run xor_lib {Some prx_engine_example} {prx_pdu_example 1 [7, 8]} prx_cfg_example False [[]] prx_example3"
proof -
  have u: "prx_ue_tasks prx_example2 = [] @ task_reordering \<lparr>rpi_buf = [7, 8], rpi_count = 1\<rparr> # []" by code_simp
  have "run_ue_task (task_reordering \<lparr>rpi_buf = [7, 8], rpi_count = 1\<rparr>) (prx_example2\<lparr>prx_ue_tasks := []\<rparr>) \<noteq> None"
    "snd (the (run_ue_task (task_reordering \<lparr>rpi_buf = [7, 8], rpi_count = 1\<rparr>) (prx_example2\<lparr>prx_ue_tasks := []\<rparr>))) = []" by code_simp+
  then have "run_ue_task (task_reordering \<lparr>rpi_buf = [7, 8], rpi_count = 1\<rparr>) (prx_example2\<lparr>prx_ue_tasks := [] @ []\<rparr>) = Some (prx_example3, [])"
    by (auto simp: prx_example3_def)
  from run_ue [OF ex_run2 u this] show ?thesis by simp
qed

definition prx_example4 :: pdcp_entity_rx where
  "prx_example4 = fst (the (reordering_callback (prx_example3\<lparr>prx_reordering_timer := False\<rparr>)))"

lemma ex_run4: "prx_run xor_lib {Some prx_engine_example} {prx_pdu_example 1 [7, 8]} prx_cfg_example False [[on_new_sdu 1 [7, 8]]] prx_example4"
proof -
  have t: "prx_reordering_timer prx_example3" by code_simp
  have "reordering_callback (prx_example3\<lparr>prx_reordering_timer := False\<rparr>) \<noteq> None"
    "snd (the (reordering_callback (prx_example3\<lparr>prx_reordering_timer := False\<rparr>))) = [on_new_sdu 1 [7, 8]]" by code_simp+
  then have "reordering_callback (prx_example3\<lparr>prx_reordering_timer := False\<rparr>) = Some (prx_example4, [on_new_sdu 1 [7, 8]])"
    by (auto simp: prx_example4_def)
  from run_expiry [OF ex_run3 t this] show ?thesis by simp
qed

section \<open>Delivery\<close>

text \<open>
  Property C2: in every run, whatever order the PDUs, the crypto workers and the timer come in, the COUNTs of the SDUs
  handed to the upper layers in a period are strictly ascending, so none is delivered twice, and those of the current
  period are below RX_DELIV.
\<close>

theorem pdcp_rx_in_order:
  assumes "prx_run lib S P cfg p evss e"
  shows "(\<forall>evs \<in> set evss. sorted_wrt (<) (sdu_counts evs)) \<and> (\<forall>c \<in> set (sdu_counts (hd evss)). c < prx_d e)"
  using prx_runD(7,8) [OF assms] by (simp add: trace_ok_def trace_below_def)

theorem pdcp_rx_in_order_witness:
  "sorted_wrt (<) (sdu_counts [on_new_sdu 1 [7, 8]]) \<and> (1 :: u32) < prx_d prx_example4"
  using pdcp_rx_in_order [OF ex_run4] by simp

text \<open>
  Property C7: when only PDUs below 2^27 bytes arrive and every configured worker has a security engine, each SDU
  handed to the upper layers is the payload of a received PDU that is exactly what the transmitting side of a
  configured engine makes of a header and that SDU under the COUNT it is delivered with.
\<close>

theorem pdcp_rx_protected:
  assumes "prx_run lib S P cfg p evss e" "aes_lib_ok lib" "\<forall>pdu \<in> P. length pdu < 2 ^ 27" "None \<notin> S"
    "evs \<in> set evss" "on_new_sdu c sdu \<in> set evs"
  shows "\<exists>pdu \<in> P. \<exists>g h. Some g \<in> S \<and> length h = pdcp_data_header_size (prx_sn_size cfg) \<and>
    pdcp_read_data_pdu_header (prx_sn_size cfg) pdu = Some (pdcp_compute_sn c (prx_sn_size cfg)) \<and>
    encrypt_and_protect_integrity lib g True (h @ sdu) (pdcp_data_header_size (prx_sn_size cfg)) c = Some (Inr pdu)"
proof -
  have "sdu_from lib S P cfg c sdu" using prx_runD(8) [OF assms(1,5)] assms(6) by (simp add: trace_ok_def)
  then obtain pdu eng where p: "pdu \<in> P" "eng \<in> S" "sdu_accepted lib cfg eng pdu c sdu" by (auto simp: sdu_from_def)
  then obtain g where g: "eng = Some g" using assms(4) by (cases eng) auto
  have "pdcp_read_data_pdu_header (prx_sn_size cfg) pdu = Some (pdcp_compute_sn c (prx_sn_size cfg))"
    using p(3) by (simp add: sdu_accepted_def)
  then show ?thesis using sdu_accepted_protected [OF assms(2) p(3) [unfolded g]] assms(3) p(1,2) g by blast
qed

theorem pdcp_rx_protected_witness:
  "\<exists>h. encrypt_and_protect_integrity xor_lib prx_engine_example True (h @ [7, 8]) 2 1 = Some (Inr (prx_pdu_example 1 [7, 8]))"
proof -
  have l: "length (prx_pdu_example 1 [7, 8]) = 8" by code_simp
  have "\<forall>pdu \<in> {prx_pdu_example 1 [7, 8]}. length pdu < 2 ^ 27" "on_new_sdu 1 [7, 8] \<in> set [on_new_sdu 1 [7, 8]]" using l by simp_all
  from pdcp_rx_protected [OF ex_run4 aes_lib_ok_xor this(1) _ _ this(2)]
  show ?thesis by (auto simp: prx_cfg_example_def pdcp_data_header_size_def)
qed

text \<open>A PDU in the window of an entity that takes PDUs becomes a crypto task.\<close>

lemma accept_pdu:
  assumes ok: "prx_ok lib S P False e" and on: "\<not> prx_stopped e" "\<not> prx_buffering e" and pdu: "pdu \<in> P" and t: "prx_tasks e < 2 ^ 30"
    and hdr: "pdcp_read_data_pdu_header (prx_sn_size (prx_cfg e)) pdu = Some (pdcp_compute_sn c (prx_sn_size (prx_cfg e)))"
    and dc: "prx_is_srb e \<or> pdcp_pdu_get_dc (hd pdu) = dc_data"
    and c: "uint (prx_d e) - prx_W e \<le> uint c" "uint c < uint (prx_d e) + prx_W e" "c < prx_hard e"
  obtains e1 evs where "pdcp_rx_handle_pdu True True pdu e = Some (e1, evs)" "prx_ok lib S P False e1" "prx_quiet e e1"
    "prx_crypto_tasks e1 = prx_crypto_tasks e @ [\<lparr>rpi_buf = pdu, rpi_count = c\<rparr>]" "prx_ue_tasks e1 = prx_ue_tasks e"
    "prx_window e1 = prx_window e" "prx_sec_engine_pool e1 = prx_sec_engine_pool e"
    "prx_max_nof_crypto_workers e1 = prx_max_nof_crypto_workers e" "sdu_counts evs = []"
proof -
  let ?sz = "prx_sn_size (prx_cfg e)"
  note o = prx_okD [OF ok]
  note k = prx_coreD [OF prx_invD(1) [OF o(1)]]
  have len: "pdcp_data_header_size ?sz < length pdu" by (rule read_header_length [OF hdr])
  have "Some (prx_hdr_len_bytes e) = pdcp_data_pdu_header_size ?sz" using prx_invD(1) [OF o(1)] by (simp add: prx_core_def)
  then have "prx_hdr_len_bytes e = pdcp_data_header_size ?sz" using k(7) by (cases ?sz) (simp_all add: pdcp_data_header_size_def)
  then have long: "\<not> length pdu \<le> prx_hdr_len_bytes e" using len by simp
  have rc: "pdcp_rcvd_count ?sz (prx_window_size e) (prx_d e) (pdcp_compute_sn c ?sz) = c"
    by (rule pdcp_count_recovered [OF k(6) c(1,2)])
  obtain em evs refused where m: "check_max_count c e = (em, evs, refused)" by (cases "check_max_count c e")
  note m' = check_max_count_ok [OF m]
  have nr: "\<not> refused" using m'(1) c(3) by (simp add: not_le)
  have fields: "prx_window em = prx_window e" "prx_sec_engine_pool em = prx_sec_engine_pool e"
    "prx_max_nof_crypto_workers em = prx_max_nof_crypto_workers e"
    using m by (auto simp: check_max_count_def Let_def split: if_splits)
  have okm: "prx_ok lib S P False em" using ok m'(5) by simp
  have q: "prx_cfg em = prx_cfg e" "prx_st em = prx_st e" using m'(3) by (simp_all add: prx_quiet_def)
  let ?info = "\<lparr>rpi_buf = pdu, rpi_count = c\<rparr>"
  let ?e1 = "em\<lparr>prx_token_mngr := increment_token (prx_token_mngr em), prx_crypto_tasks := prx_crypto_tasks em @ [?info]\<rparr>"
  have "task_ok em ?info" using c by (simp add: task_ok_def q)
  then have ok1: "prx_ok lib S P False ?e1"
    by (rule prx_ok_add_crypto_task [OF okm]) (use pdu t m'(4) hdr q in simp_all)
  have "pdcp_rx_handle_data_pdu True pdu e = Some (?e1, evs)"
    unfolding pdcp_rx_handle_data_pdu_def if_not_P [OF long] hdr option.case rc Let_def m prod.case using nr by simp
  moreover have "pdu \<noteq> []" using len by auto
  ultimately have run: "pdcp_rx_handle_pdu True True pdu e = Some (?e1, evs)"
    using on dc by (simp add: pdcp_rx_handle_pdu_def)
  show thesis
    by (rule that [OF run ok1]) (use m' fields in \<open>simp_all add: prx_quiet_def\<close>)
qed

lemma deciphers_protected:
  assumes lib: "aes_lib_ok lib" and enc: "encrypt_and_protect_integrity lib g True buf n c = Some (Inr pdu)"
    and l: "length buf < 2 ^ 27" "n \<le> length buf" "buf \<noteq> []"
  shows "decrypt_and_verify_integrity lib g pdu n c = Some (Inr buf)"
  using security_engine_exact [OF lib l, of g pdu c] enc by simp

text \<open>The UE task of a COUNT that is new stores the SDU or delivers it.\<close>

lemma ue_task_takes:
  assumes ok: "prx_ok lib S P p e" and split: "prx_ue_tasks e = us @ task_reordering info # vs"
    and new: "prx_d e \<le> rpi_count info" "\<not> has_sn (prx_window e) (rpi_count info)"
  obtains e' evs where "run_ue_task (task_reordering info) (e\<lparr>prx_ue_tasks := us @ vs\<rparr>) = Some (e', evs)"
    "on_new_sdu (rpi_count info) (rpi_buf info) \<in> set evs \<or>
      cm_get (prx_window e') (rpi_count info) = Some \<lparr>rsi_buf = rpi_buf info, rsi_count = rpi_count info\<rparr>"
    "rpi_count info = prx_d e \<Longrightarrow> on_new_sdu (rpi_count info) (rpi_buf info) \<in> set evs"
proof -
  let ?e0 = "e\<lparr>prx_ue_tasks := us @ vs\<rparr>" let ?c = "rpi_count info"
  note o = prx_okD [OF ok]
  have sub: "set (us @ vs) \<subseteq> set (prx_ue_tasks e)" by (auto simp: split)
  have "prx_inv (e\<lparr>prx_crypto_tasks := prx_crypto_tasks e, prx_ue_tasks := us @ vs\<rparr>)"
    by (rule prx_ok_tasks [OF ok order_refl]) (use sub in blast)
  then have inv0: "prx_inv ?e0" by simp
  have "task_ok e info" using prx_invD(8) [OF o(1), of info] by (simp add: split)
  then have ti: "task_ok ?e0 info" by (simp add: task_ok_def)
  obtain e1 evs where e1: "apply_reordering_rx info ?e0 = Some (e1, evs)" "prx_inv e1" "prx_rest ?e0 e1"
    "reordering_effect info ?e0 e1 evs"
    by (rule apply_reordering_rx_ok [OF inv0 ti])
  obtain e' evs' where e': "run_ue_task (task_reordering info) ?e0 = Some (e', evs')"
    using run_ue_task_ok [OF ok split] by blast
  then have w: "evs' = evs" "prx_window e' = prx_window e1" "prx_d e' = prx_d e1"
    using e1(1) by (auto simp: return_rx_token_def)
  let ?w = "stored_window ?c (rpi_buf info) ?e0"
  have nd: "\<not> (?c < prx_d ?e0 \<or> has_sn (prx_window ?e0) ?c)" using new by auto
  note eff = e1(4) [unfolded reordering_effect_def Let_def if_not_P [OF nd]]
  have b: "prx_d ?e0 \<le> ?c" "uint ?c < uint (prx_d ?e0) + prx_W ?e0" using new ti by (simp_all add: task_ok_def)
  have g: "cm_get ?w ?c = Some \<lparr>rsi_buf = rpi_buf info, rsi_count = ?c\<rparr>"
    unfolding stored_window_get [OF prx_invD(1) [OF inv0] b] by simp
  have out: "on_new_sdu ?c (rpi_buf info) \<in> set evs" if "?c < prx_d e1"
    using eff b(1) that g by (auto simp: deliver_events_def set_count_range cm_contains_get intro!: image_eqI)
  have some: "on_new_sdu ?c (rpi_buf info) \<in> set evs' \<or> cm_get (prx_window e') ?c = Some \<lparr>rsi_buf = rpi_buf info, rsi_count = ?c\<rparr>"
    using eff out g by (cases "?c < prx_d e1") (simp_all add: w)
  have lower: "on_new_sdu ?c (rpi_buf info) \<in> set evs'" if "?c = prx_d e"
  proof -
    have "?c < prx_n e1" using eff count_step(1) [of ?c "prx_hard ?e0"] ti
      by (auto simp: stored_next_def task_ok_def word_less_def not_le)
    then have "?c < prx_d e1"
      using eff that g unfolding first_missing_def
      by (auto simp: cm_contains_get split: if_splits intro: order_le_neq_trans)
    then show ?thesis using out w by simp
  qed
  show thesis by (rule that [OF e' some lower])
qed

text \<open>The way of a PDU through an entity that takes it.\<close>

lemma rx_takes_protected:
  assumes "prx_run lib S P cfg False evss e" "aes_lib_ok lib" "\<not> prx_buffering e" "prx_tasks e < 2 ^ 30" "pdu \<in> P"
    "worker < prx_max_nof_crypto_workers e" "prx_sec_engine_pool e ! worker = Some g" "sdu \<noteq> []" "length sdu < 2 ^ 26"
    "pdcp_write_data_pdu_header (prx_rb_type cfg) (prx_sn_size cfg) True sdu (pdcp_compute_sn c (prx_sn_size cfg)) = Inr buf"
    "encrypt_and_protect_integrity lib g True buf (pdcp_data_header_size (prx_sn_size cfg)) c = Some (Inr pdu)"
    "prx_d e \<le> c" "uint c < uint (prx_d e) + pdcp_win (prx_sn_size cfg)" "c < mc_hard (prx_max_count cfg)"
    "\<not> has_sn (prx_window e) c"
  shows "\<exists>e1 evs1 e2 e3 evs3. pdcp_rx_handle_pdu True True pdu e = Some (e1, evs1) \<and>
    prx_crypto_tasks e1 = prx_crypto_tasks e @ [\<lparr>rpi_buf = pdu, rpi_count = c\<rparr>] \<and>
    pdcp_rx_apply_security lib worker True \<lparr>rpi_buf = pdu, rpi_count = c\<rparr> (e1\<lparr>prx_crypto_tasks := prx_crypto_tasks e\<rparr>) = Some e2 \<and>
    prx_ue_tasks e2 = prx_ue_tasks e @ [task_reordering \<lparr>rpi_buf = sdu, rpi_count = c\<rparr>] \<and>
    run_ue_task (task_reordering \<lparr>rpi_buf = sdu, rpi_count = c\<rparr>) (e2\<lparr>prx_ue_tasks := prx_ue_tasks e\<rparr>) = Some (e3, evs3) \<and>
    (on_new_sdu c sdu \<in> set evs3 \<or> cm_get (prx_window e3) c = Some \<lparr>rsi_buf = sdu, rsi_count = c\<rparr>) \<and>
    (c = prx_d e \<longrightarrow> on_new_sdu c sdu \<in> set evs3)"
proof -
  let ?sz = "prx_sn_size cfg" let ?n = "pdcp_data_header_size (prx_sn_size cfg)" let ?info = "\<lparr>rpi_buf = pdu, rpi_count = c\<rparr>"
  note r = prx_runD [OF assms(1)]
  have on: "\<not> prx_stopped e" using r(6) by blast
  note h = pdcp_header_roundtrip [OF assms(10,8)]
  have n3: "?n \<le> 3" "0 < ?n" by (simp_all add: pdcp_data_header_size_def)
  have lb: "length buf < 2 ^ 27" "?n \<le> length buf" "buf \<noteq> []" using h(2) assms(9) n3 by auto
  note es = encrypt_shape [OF assms(2,11) lb(2,1)]
  have "?n < length buf" using h(2) assms(8) by simp
  then have rd: "pdcp_read_data_pdu_header ?sz pdu = Some (pdcp_compute_sn c ?sz)" "hd pdu = hd buf"
    using read_header_prefix [OF es(1)] es(2) h(1) by simp_all
  have dc: "prx_is_srb e \<or> pdcp_pdu_get_dc (hd pdu) = dc_data"
    using h(4) rd(2) r(5) by (cases "prx_rb_type cfg") simp_all
  have "uint (prx_d e) - prx_W e \<le> uint c" using assms(12) pdcp_win_pos(1) [of "prx_sn_size (prx_cfg e)"] by (simp add: word_le_def)
  from accept_pdu [OF r(4) on assms(3,5,4) rd(1) [folded r(5)] dc this]
  obtain e1 evs1 where e1: "pdcp_rx_handle_pdu True True pdu e = Some (e1, evs1)" "prx_ok lib S P False e1" "prx_quiet e e1"
    "prx_crypto_tasks e1 = prx_crypto_tasks e @ [?info]" "prx_ue_tasks e1 = prx_ue_tasks e" "prx_window e1 = prx_window e"
    "prx_sec_engine_pool e1 = prx_sec_engine_pool e" "prx_max_nof_crypto_workers e1 = prx_max_nof_crypto_workers e"
    using assms(13,14) r(5) by (metis (no_types))
  have q: "prx_cfg e1 = cfg" "prx_st e1 = prx_st e" using e1(3) r(5) by (simp_all add: prx_quiet_def)
  have dec: "decrypt_and_verify_integrity lib g pdu ?n c = Some (Inr buf)" by (rule deciphers_protected [OF assms(2,11) lb])
  let ?t = "task_reordering \<lparr>rpi_buf = sdu, rpi_count = c\<rparr>"
  let ?e2 = "e1\<lparr>prx_crypto_tasks := prx_crypto_tasks e, prx_ue_tasks := prx_ue_tasks e @ [?t]\<rparr>"
  have nn: "(if ?sz = pdcp_size12bits then 2 else 3) = ?n" by (simp add: pdcp_data_header_size_def)
  have sec: "pdcp_rx_apply_security lib worker True ?info (e1\<lparr>prx_crypto_tasks := prx_crypto_tasks e\<rparr>) = Some ?e2"
    using assms(6,7) dec lb(2) h(3)
    by (simp add: pdcp_rx_apply_security_def apply_deciphering_and_integrity_check_def Let_def q e1(5,7,8) nn)
  have ok2: "prx_ok lib S P False ?e2"
    by (rule apply_security_ok [OF e1(2), of "prx_crypto_tasks e" ?info "[]" worker True]) (use e1(4) sec in simp_all)
  have u: "prx_ue_tasks ?e2 = prx_ue_tasks e @ task_reordering \<lparr>rpi_buf = sdu, rpi_count = c\<rparr> # []" by simp
  obtain e3 evs3 where e3: "run_ue_task ?t (?e2\<lparr>prx_ue_tasks := prx_ue_tasks e @ []\<rparr>) = Some (e3, evs3)"
    "on_new_sdu c sdu \<in> set evs3 \<or> cm_get (prx_window e3) c = Some \<lparr>rsi_buf = sdu, rsi_count = c\<rparr>"
    "c = prx_d e \<Longrightarrow> on_new_sdu c sdu \<in> set evs3"
    using ue_task_takes [OF ok2 u] assms(12,15) e1(6) q(2) by (auto simp del: run_ue_task.simps)
  have "run_ue_task ?t (?e2\<lparr>prx_ue_tasks := prx_ue_tasks e\<rparr>) = Some (e3, evs3)" using e3(1) unfolding append_Nil2 .
  moreover have "prx_ue_tasks ?e2 = prx_ue_tasks e @ [?t]" by simp
  moreover have "c = prx_d e \<longrightarrow> on_new_sdu c sdu \<in> set evs3" using e3(3) by blast
  ultimately show ?thesis
    by (intro exI [of _ e1] exI [of _ evs1] exI [of _ ?e2] exI [of _ e3] exI [of _ evs3] conjI e1(1) e1(4) sec e3(2))
qed

text \<open>
  Property C6: a PDU that the peer's security engine made of a header and an SDU under a COUNT within one window of
  RX_DELIV comes through: it becomes a crypto task with that COUNT, the task of any worker gives the SDU back, and the
  UE task stores it for its COUNT or delivers it; it delivers it when it is the one RX_DELIV waits for.
\<close>

theorem pdcp_rx_takes_protected:
  assumes "prx_run lib S P cfg False evss e" "aes_lib_ok lib" "\<not> prx_buffering e" "prx_tasks e < 2 ^ 30" "pdu \<in> P"
    "worker < prx_max_nof_crypto_workers e" "prx_sec_engine_pool e ! worker = Some g" "sdu \<noteq> []" "length sdu < 2 ^ 26"
    "pdcp_write_data_pdu_header (prx_rb_type cfg) (prx_sn_size cfg) True sdu (pdcp_compute_sn c (prx_sn_size cfg)) = Inr buf"
    "encrypt_and_protect_integrity lib g True buf (pdcp_data_header_size (prx_sn_size cfg)) c = Some (Inr pdu)"
    "prx_d e \<le> c" "uint c < uint (prx_d e) + pdcp_win (prx_sn_size cfg)" "c < mc_hard (prx_max_count cfg)"
    "\<not> has_sn (prx_window e) c"
  shows "\<exists>e1 evs1 e2 e3 evs3. pdcp_rx_handle_pdu True True pdu e = Some (e1, evs1) \<and>
    prx_crypto_tasks e1 = prx_crypto_tasks e @ [\<lparr>rpi_buf = pdu, rpi_count = c\<rparr>] \<and>
    pdcp_rx_apply_security lib worker True \<lparr>rpi_buf = pdu, rpi_count = c\<rparr> (e1\<lparr>prx_crypto_tasks := prx_crypto_tasks e\<rparr>) = Some e2 \<and>
    prx_ue_tasks e2 = prx_ue_tasks e @ [task_reordering \<lparr>rpi_buf = sdu, rpi_count = c\<rparr>] \<and>
    run_ue_task (task_reordering \<lparr>rpi_buf = sdu, rpi_count = c\<rparr>) (e2\<lparr>prx_ue_tasks := prx_ue_tasks e\<rparr>) = Some (e3, evs3) \<and>
    (on_new_sdu c sdu \<in> set evs3 \<or> cm_get (prx_window e3) c = Some \<lparr>rsi_buf = sdu, rsi_count = c\<rparr>) \<and>
    (c = prx_d e \<longrightarrow> on_new_sdu c sdu \<in> set evs3)"
  by (rule rx_takes_protected [OF assms])

theorem pdcp_rx_takes_protected_witness:
  "\<exists>e1 evs1 e2 e3 evs3. pdcp_rx_handle_pdu True True (prx_pdu_example 1 [7, 8]) prx_example0 = Some (e1, evs1) \<and>
    prx_crypto_tasks e1 = prx_crypto_tasks prx_example0 @ [\<lparr>rpi_buf = prx_pdu_example 1 [7, 8], rpi_count = 1\<rparr>] \<and>
    pdcp_rx_apply_security xor_lib 1 True \<lparr>rpi_buf = prx_pdu_example 1 [7, 8], rpi_count = 1\<rparr>
      (e1\<lparr>prx_crypto_tasks := prx_crypto_tasks prx_example0\<rparr>) = Some e2 \<and>
    prx_ue_tasks e2 = prx_ue_tasks prx_example0 @ [task_reordering \<lparr>rpi_buf = [7, 8], rpi_count = 1\<rparr>] \<and>
    run_ue_task (task_reordering \<lparr>rpi_buf = [7, 8], rpi_count = 1\<rparr>) (e2\<lparr>prx_ue_tasks := prx_ue_tasks prx_example0\<rparr>) = Some (e3, evs3) \<and>
    (on_new_sdu 1 [7, 8] \<in> set evs3 \<or> cm_get (prx_window e3) 1 = Some \<lparr>rsi_buf = [7, 8], rsi_count = 1\<rparr>) \<and>
    (1 = prx_d prx_example0 \<longrightarrow> on_new_sdu 1 [7, 8] \<in> set evs3)"
proof (rule pdcp_rx_takes_protected [OF ex_run0 aes_lib_ok_xor])
  show "\<not> prx_buffering prx_example0" "(1 :: nat) < prx_max_nof_crypto_workers prx_example0" "prx_d prx_example0 \<le> 1" "\<not> has_sn (prx_window prx_example0) 1"
    by code_simp+
  have "prx_tasks prx_example0 = 0" "prx_d prx_example0 = 0" by code_simp+
  then show "prx_tasks prx_example0 < 2 ^ 30" "uint (1 :: u32) < uint (prx_d prx_example0) + pdcp_win (prx_sn_size prx_cfg_example)"
    by (simp_all add: prx_cfg_example_def pdcp_win_def)
  show "prx_sec_engine_pool prx_example0 ! 1 = Some prx_engine_example" by (simp add: ex_engine_pool)
  show "pdcp_write_data_pdu_header (prx_rb_type prx_cfg_example) (prx_sn_size prx_cfg_example) True [7, 8]
      (pdcp_compute_sn 1 (prx_sn_size prx_cfg_example)) = Inr (prx_buf_example 1 [7, 8])" by code_simp
  show "encrypt_and_protect_integrity xor_lib prx_engine_example True (prx_buf_example 1 [7, 8])
      (pdcp_data_header_size (prx_sn_size prx_cfg_example)) 1 = Some (Inr (prx_pdu_example 1 [7, 8]))" by code_simp
qed (simp_all add: prx_cfg_example_def)

section \<open>The window, t-Reordering and the status report\<close>



text \<open>The report of a state of a run.\<close>

lemma status_report_read:
  assumes "prx_run lib S P cfg p evss e"
  shows "\<exists>pad < 8. read_status_report (pdcp_rx_compile_status_report e) =
      Some (prx_d e, map (\<lambda>c. of_bool (has_sn (prx_window e) c)) (count_range (prx_d e + 1) (report_end (prx_d e) (prx_n e))) @
        replicate pad 0) \<and>
    \<not> has_sn (prx_window e) (prx_d e) \<and>
    (\<forall>c. has_sn (prx_window e) c \<longrightarrow> c \<in> set (count_range (prx_d e + 1) (report_end (prx_d e) (prx_n e))) \<or>
      uint (prx_d e) + 71960 < uint c \<and> prx_sn_size cfg \<noteq> pdcp_size12bits)"
proof -
  note r = prx_runD [OF assms]
  note i = prx_invD [OF r(1)]
  note k = prx_coreD [OF i(1)]
  obtain pad where pad: "pad < 8" "read_status_report (pdcp_rx_compile_status_report e) =
      Some (prx_d e, map (\<lambda>c. of_bool (has_sn (prx_window e) c)) (count_range (prx_d e + 1) (report_end (prx_d e) (prx_n e))) @
        replicate pad 0)"
    using read_compiled_report unfolding pdcp_rx_compile_status_report_def by blast
  have "c \<in> set (count_range (prx_d e + 1) (report_end (prx_d e) (prx_n e))) \<or>
      uint (prx_d e) + 71960 < uint c \<and> prx_sn_size cfg \<noteq> pdcp_size12bits" if h: "has_sn (prx_window e) c" for c
  proof -
    have "c \<noteq> prx_d e" using i(2) h by blast
    then have d: "prx_d e < c" and cn: "c < prx_n e" using k(3,4) [OF h] by simp_all
    have s: "uint (prx_d e + 1) = uint (prx_d e) + 1" using count_step(1) [OF d] .
    have lo: "prx_d e + 1 \<le> c" using count_step(3) [OF d] .
    show ?thesis
    proof (cases "c < report_end (prx_d e) (prx_n e)")
      case True
      then show ?thesis using lo by (simp add: set_count_range)
    next
      case False
      then have t: "report_end (prx_d e) (prx_n e) = prx_d e + 1 + 71960" "71960 < prx_n e - (prx_d e + 1)" "prx_d e + 1 < prx_n e"
        using cn by (auto simp: report_end_def split: if_splits)
      have "uint (prx_n e - (prx_d e + 1)) = uint (prx_n e) - (uint (prx_d e) + 1)"
        using t(3) s by (subst uint_sub_if') (simp add: word_less_def)
      then have big: "uint (prx_d e) + 71961 < uint (prx_n e)" using t(2) by (simp add: word_less_def)
      have "uint (prx_d e + 1 + 71960) = uint (prx_d e) + 1 + 71960"
        using big uint_lt2p [of "prx_n e"] s by (subst uint_plus_if') simp
      then have "uint (prx_d e) + 71960 < uint c" using False t(1) by (simp add: word_le_def not_less)
      moreover have "prx_sn_size cfg \<noteq> pdcp_size12bits"
        using big i(3) r(5) by (auto simp: pdcp_win_def)
      ultimately show ?thesis by blast
    qed
  qed
  then show ?thesis using pad i(2) by blast
qed



text \<open>
  Property C22: t-Reordering ends every wait.  In a run with a finite t-Reordering, when no more PDUs come, at most two
  expiries deliver every stored SDU in ascending order, move RX_DELIV to RX_NEXT and leave the timer stopped.
\<close>

theorem pdcp_two_expiries_drain:
  assumes "prx_run lib S P cfg p evss e" "\<not> prx_stopped e" "prx_t_reordering cfg \<noteq> t_reordering_infinity"
  shows "\<exists>e' evs. prx_expire 2 e = Some (e', evs) \<and> \<not> prx_reordering_timer e' \<and> prx_d e' = prx_n e \<and> prx_n e' = prx_n e \<and>
    sdu_counts evs = filter (has_sn (prx_window e)) (count_range (prx_d e) (prx_n e))"
  using two_expiries [OF prx_runD(1) [OF assms(1)] assms(2)] assms(3) prx_runD(5) [OF assms(1)] by simp

theorem pdcp_two_expiries_drain_witness:
  "\<exists>e' evs. prx_expire 2 prx_example3 = Some (e', evs) \<and> \<not> prx_reordering_timer e' \<and> sdu_counts evs = [1]"
proof -
  have "\<not> prx_stopped prx_example3" "prx_t_reordering prx_cfg_example \<noteq> t_reordering_infinity"
    "filter (has_sn (prx_window prx_example3)) (count_range (prx_d prx_example3) (prx_n prx_example3)) = [1]" by code_simp+
  with pdcp_two_expiries_drain [OF ex_run3] show ?thesis by auto
qed

section \<open>Assertions and tokens\<close>

text \<open>
  The event that the control plane awaits before it destroys or re-establishes a bearer is set exactly when
  it has taken its token back and no task is with a crypto worker or waiting for the UE executor.
\<close>

lemma pdcp_crypto_awaitable:
  assumes "prx_run lib S P cfg p evss e"
  shows "tm_pending_crypto (prx_token_mngr e) \<longleftrightarrow> p \<and> prx_crypto_tasks e = [] \<and> prx_ue_tasks e = []"
  using prx_runD(2) [OF assms] by (simp add: tokens_ok_def prx_tasks_def)

lemma pdcp_crypto_awaitable_witness:
  "\<not> tm_pending_crypto (prx_token_mngr prx_example1) \<and> prx_crypto_tasks prx_example1 \<noteq> []"
proof -
  have "prx_crypto_tasks prx_example1 \<noteq> []" by code_simp
  then show ?thesis using pdcp_crypto_awaitable [OF ex_run1] by simp
qed

text \<open>
  Property C33: in every state of a run no PDU, no task of the UE executor, no expiry of t-Reordering, no end of buffering
  and, while the control plane holds its token, neither \<open>stop\<close> nor \<open>notify_pdu_processing_stopped\<close> fails an assertion.
\<close>

theorem pdcp_rx_never_asserts:
  assumes "prx_run lib S P cfg p evss e"
  shows "(\<forall>pdu \<in> P. \<forall>copy_ok crypto_ok. prx_tasks e < 2 ^ 30 \<longrightarrow> (p \<longrightarrow> prx_stopped e \<or> prx_buffering e) \<longrightarrow>
      pdcp_rx_handle_pdu copy_ok crypto_ok pdu e \<noteq> None) \<and>
    (\<forall>us t vs. prx_ue_tasks e = us @ t # vs \<longrightarrow> run_ue_task t (e\<lparr>prx_ue_tasks := us @ vs\<rparr>) \<noteq> None) \<and>
    (prx_reordering_timer e \<longrightarrow> reordering_callback (e\<lparr>prx_reordering_timer := False\<rparr>) \<noteq> None) \<and>
    (\<forall>oks. (p \<longrightarrow> prx_stopped e) \<longrightarrow> prx_tasks e + length (prx_pdu_buffer e) \<le> 2 ^ 30 \<longrightarrow> end_buffering oks e \<noteq> None) \<and>
    (\<not> p \<longrightarrow> pdcp_rx_stop e \<noteq> None \<and> notify_pdu_processing_stopped e \<noteq> None)"
proof -
  note r = prx_runD [OF assms]
  note ok = r(4)
  have "pdcp_rx_handle_pdu copy_ok crypto_ok pdu e \<noteq> None"
    if "pdu \<in> P" "prx_tasks e < 2 ^ 30" "p \<longrightarrow> prx_stopped e \<or> prx_buffering e" for pdu copy_ok crypto_ok
    using handle_pdu_ok [OF ok that(1,2), of copy_ok crypto_ok] that(3) by fastforce
  moreover have "run_ue_task t (e\<lparr>prx_ue_tasks := us @ vs\<rparr>) \<noteq> None" if "prx_ue_tasks e = us @ t # vs" for us t vs
    using run_ue_task_ok [OF ok that] by fastforce
  moreover have "reordering_callback (e\<lparr>prx_reordering_timer := False\<rparr>) \<noteq> None" if "prx_reordering_timer e"
    using expiry_ok [OF ok that] by fastforce
  moreover have "end_buffering oks e \<noteq> None"
    if "p \<longrightarrow> prx_stopped e" "prx_tasks e + length (prx_pdu_buffer e) \<le> 2 ^ 30" for oks
    using end_buffering_ok [OF ok that(2), of oks] that(1) by fastforce
  moreover have "pdcp_rx_stop e \<noteq> None \<and> notify_pdu_processing_stopped e \<noteq> None" if "\<not> p"
  proof -
    have "prx_ok lib S P False e" "\<not> prx_stopped e" using ok that r(6) by auto
    then show ?thesis using pdcp_rx_stop_ok [of lib S P e] notify_stopped_ok [of lib S P e] by fastforce
  qed
  ultimately show ?thesis by blast
qed

theorem pdcp_rx_never_asserts_witness:
  "pdcp_rx_handle_pdu False True (prx_pdu_example 1 [7, 8]) prx_example1 \<noteq> None"
proof -
  have "prx_tasks prx_example1 = 1" by code_simp
  then show ?thesis using pdcp_rx_never_asserts [OF ex_run1] by simp
qed

text \<open>
  Property C37: an SRB without security takes a PDU of five bytes whose COUNT is in the window, since it is longer than
  the header; the crypto task then strips four bytes as the MAC-I and fails the assertion of \<open>trim_head\<close> when it strips
  the two bytes of the header from the one that is left, whichever worker runs it.
\<close>

theorem short_srb_pdu_asserts:
  assumes "prx_run lib S P cfg False evss e" "prx_rb_type cfg = rb_srb" "prx_sn_size cfg = pdcp_size12bits"
    "\<not> prx_buffering e" "prx_tasks e < 2 ^ 30" "set (prx_sec_engine_pool e) \<subseteq> {None}" "pdu \<in> P" "length pdu = 5"
    "pdcp_read_data_pdu_header pdcp_size12bits pdu = Some (pdcp_compute_sn c pdcp_size12bits)"
    "prx_d e \<le> c" "uint c < uint (prx_d e) + 2048" "c < mc_hard (prx_max_count cfg)"
  shows "\<exists>e1 evs1. pdcp_rx_handle_pdu True True pdu e = Some (e1, evs1) \<and>
    prx_crypto_tasks e1 = prx_crypto_tasks e @ [\<lparr>rpi_buf = pdu, rpi_count = c\<rparr>] \<and>
    (\<forall>worker ue_ok. pdcp_rx_apply_security lib worker ue_ok \<lparr>rpi_buf = pdu, rpi_count = c\<rparr>
      (e1\<lparr>prx_crypto_tasks := prx_crypto_tasks e\<rparr>) = None)"
proof -
  note r = prx_runD [OF assms(1)]
  have on: "\<not> prx_stopped e" using r(6) by blast
  have W: "prx_W e = 2048" using assms(3) r(5) by (simp add: pdcp_win_def)
  have hdr: "pdcp_read_data_pdu_header (prx_sn_size (prx_cfg e)) pdu = Some (pdcp_compute_sn c (prx_sn_size (prx_cfg e)))"
    using assms(3,9) r(5) by simp
  have srb: "prx_is_srb e \<or> pdcp_pdu_get_dc (hd pdu) = dc_data" using assms(2) r(5) by simp
  have lo: "uint (prx_d e) - prx_W e \<le> uint c" using assms(10) W by (simp add: word_le_def)
  have hi: "uint c < uint (prx_d e) + prx_W e" "c < prx_hard e" using assms(11,12) W r(5) by simp_all
  obtain e1 evs1 where e1: "pdcp_rx_handle_pdu True True pdu e = Some (e1, evs1)" "prx_ok lib S P False e1" "prx_quiet e e1"
    "prx_crypto_tasks e1 = prx_crypto_tasks e @ [\<lparr>rpi_buf = pdu, rpi_count = c\<rparr>]"
    "prx_sec_engine_pool e1 = prx_sec_engine_pool e" "prx_max_nof_crypto_workers e1 = prx_max_nof_crypto_workers e"
    by (rule accept_pdu [OF r(4) on assms(4,7,5) hdr srb lo hi])
  have q: "prx_cfg e1 = cfg" using e1(3) r(5) by (simp add: prx_quiet_def)
  have len: "length (prx_sec_engine_pool e) = prx_max_nof_crypto_workers e" using r(3) by (simp add: prx_contents_def)
  have "prx_sec_engine_pool e ! worker = None" if "worker < prx_max_nof_crypto_workers e" for worker
  proof -
    have "prx_sec_engine_pool e ! worker \<in> set (prx_sec_engine_pool e)" by (rule nth_mem) (use len that in simp)
    then show ?thesis using assms(6) by blast
  qed
  then have "pdcp_rx_apply_security lib worker ue_ok \<lparr>rpi_buf = pdu, rpi_count = c\<rparr> (e1\<lparr>prx_crypto_tasks := prx_crypto_tasks e\<rparr>) = None"
    for worker ue_ok
    using assms(2,3,8) by (simp add: pdcp_rx_apply_security_def apply_deciphering_and_integrity_check_def e1(5,6) q sec_mac_len_def Let_def)
  then show ?thesis using e1(1,4) by blast
qed

definition srb_cfg_example :: pdcp_rx_config where
  "srb_cfg_example = prx_cfg_example\<lparr>prx_rb_type := rb_srb, prx_t_reordering := t_reordering_infinity\<rparr>"

definition srb_example :: pdcp_entity_rx where
  "srb_example = the (pdcp_rx_create False 1 srb_cfg_example 2)"

theorem short_srb_pdu_asserts_witness:
  "\<exists>e1 evs1. pdcp_rx_handle_pdu True True [0, 0, 0, 0, 0] srb_example = Some (e1, evs1) \<and>
    pdcp_rx_apply_security xor_lib 1 True \<lparr>rpi_buf = [0, 0, 0, 0, 0], rpi_count = 0\<rparr>
      (e1\<lparr>prx_crypto_tasks := prx_crypto_tasks srb_example\<rparr>) = None"
proof -
  have "pdcp_rx_create False 1 srb_cfg_example 2 \<noteq> None" by code_simp
  then have c: "pdcp_rx_create False 1 srb_cfg_example 2 = Some srb_example" by (simp add: srb_example_def)
  have run: "prx_run xor_lib {None} {[0, 0, 0, 0, 0]} srb_cfg_example False [[]] srb_example"
    by (rule run_create [OF c]) (simp_all add: srb_cfg_example_def prx_cfg_example_def pdcp_win_def)
  have f: "\<not> prx_buffering srb_example" "prx_tasks srb_example = 0" "prx_sec_engine_pool srb_example = [None, None]" "prx_d srb_example = 0"
    "pdcp_read_data_pdu_header pdcp_size12bits [0, 0, 0, 0, 0] = Some (pdcp_compute_sn 0 pdcp_size12bits)" by code_simp+
  have "\<exists>e1 evs1. pdcp_rx_handle_pdu True True [0, 0, 0, 0, 0] srb_example = Some (e1, evs1) \<and>
    prx_crypto_tasks e1 = prx_crypto_tasks srb_example @ [\<lparr>rpi_buf = [0, 0, 0, 0, 0], rpi_count = 0\<rparr>] \<and>
    (\<forall>worker ue_ok. pdcp_rx_apply_security xor_lib worker ue_ok \<lparr>rpi_buf = [0, 0, 0, 0, 0], rpi_count = 0\<rparr>
      (e1\<lparr>prx_crypto_tasks := prx_crypto_tasks srb_example\<rparr>) = None)"
    by (rule short_srb_pdu_asserts [OF run]) (use f in \<open>simp_all add: srb_cfg_example_def prx_cfg_example_def\<close>)
  then show ?thesis by blast
qed

end
