(* ===== verification/Pdcp_Tx_Props.thy ===== *)
theory Pdcp_Tx_Props
  imports Pdcp_Tx_Run Pdcp_Rx_Props
begin

text \<open>
  The properties of the transmitting PDCP entity, over its runs: what it hands to the lower layers, its window, the
  reordering of what the crypto workers finish, when assertions fail and when they do not, and the exchange with the
  receiver.
\<close>

section \<open>An example\<close>

text \<open>A DRB with 12-bit SNs in acknowledged mode: of two SDUs the workers finish the second first.\<close>

definition ptx_cfg_example :: pdcp_tx_config where
  "ptx_cfg_example = \<lparr>ptx_rb_type = rb_drb, ptx_rlc_mode = rlc_am, ptx_sn_size = pdcp_size12bits, ptx_direction = pdcp_downlink,
     ptx_header_compression = False, ptx_discard_timer = Some (discard_timer_ms 10), ptx_status_report_required = False,
     ptx_max_count = \<lparr>mc_notify = 0xc0000000, mc_hard = 0xd0000000\<rparr>, ptx_test_mode = False\<rparr>"

definition ptx_engine_example :: security_engine where
  "ptx_engine_example = the (security_engine_impl xor_lib prx_sec_example 0 dir_downlink True True)"

definition ptx_info_example :: "u32 \<Rightarrow> pdcp_tx_buffer_info" where
  "ptx_info_example c = \<lparr>tbi_is_retx = False, tbi_retx_id = 0, tbi_count = c,
     tbi_buf = projr (pdcp_write_data_pdu_header rb_drb pdcp_size12bits True [7 + of_nat (unat c)] (pdcp_compute_sn c pdcp_size12bits))\<rparr>"

definition ptx_done_example :: "u32 \<Rightarrow> pdcp_tx_buffer_info" where
  "ptx_done_example c = (ptx_info_example c)
     \<lparr>tbi_buf := projr (the (encrypt_and_protect_integrity xor_lib ptx_engine_example True (tbi_buf (ptx_info_example c)) 2 c))\<rparr>"

definition ptx_example0 :: pdcp_entity_tx where
  "ptx_example0 = handle_desired_buffer_size_notification 1000
     (the (pdcp_tx_configure_security xor_lib prx_sec_example True True (the (pdcp_tx_create False 1 ptx_cfg_example 2))))"

definition ptx_example1 :: pdcp_entity_tx where
  "ptx_example1 = fst (the (pdcp_tx_handle_sdu 0 (True, True, True) [7] ptx_example0))"

definition ptx_example2 :: pdcp_entity_tx where
  "ptx_example2 = fst (the (pdcp_tx_handle_sdu 0 (True, True, True) [8] ptx_example1))"

definition ptx_example3 :: pdcp_entity_tx where
  "ptx_example3 = the (pdcp_tx_apply_security xor_lib 1 True True (ptx_info_example 1) (ptx_example2\<lparr>ptx_crypto_tasks := [ptx_info_example 0]\<rparr>))"

definition ptx_example4 :: pdcp_entity_tx where
  "ptx_example4 = the (pdcp_tx_apply_security xor_lib 0 True True (ptx_info_example 0) (ptx_example3\<lparr>ptx_crypto_tasks := []\<rparr>))"

definition ptx_example5 :: pdcp_entity_tx where
  "ptx_example5 = fst (the (run_tx_ue_task 0 (tx_task_reordering (ptx_done_example 1))
     (ptx_example4\<lparr>ptx_ue_tasks := [tx_task_reordering (ptx_done_example 0)]\<rparr>)))"

definition ptx_example6 :: pdcp_entity_tx where
  "ptx_example6 = fst (the (run_tx_ue_task 0 (tx_task_reordering (ptx_done_example 0)) (ptx_example5\<lparr>ptx_ue_tasks := []\<rparr>)))"

lemma ptx_ex_pool: "ptx_sec_engine_pool (the (pdcp_tx_configure_security xor_lib prx_sec_example True True (the (pdcp_tx_create False 1 ptx_cfg_example 2)))) =
    [Some ptx_engine_example, Some ptx_engine_example]"
  by code_simp

abbreviation ptx_run_example :: "pdcp_tx_event list list \<Rightarrow> pdcp_entity_tx \<Rightarrow> bool" where
  "ptx_run_example segs e \<equiv> ptx_run xor_lib {Some ptx_engine_example} {[7], [8]} ptx_cfg_example False segs e"

lemma tx_ex_run0: "ptx_run_example [[]] ptx_example0"
  unfolding ptx_example0_def
proof (rule txr_buffer_size, rule txr_create_secure)
  have "pdcp_tx_create False 1 ptx_cfg_example 2 \<noteq> None" by code_simp
  then show "pdcp_tx_create False 1 ptx_cfg_example 2 = Some (the (pdcp_tx_create False 1 ptx_cfg_example 2))" by simp
  have "pdcp_tx_configure_security xor_lib prx_sec_example True True (the (pdcp_tx_create False 1 ptx_cfg_example 2)) \<noteq> None" by code_simp
  then show "pdcp_tx_configure_security xor_lib prx_sec_example True True (the (pdcp_tx_create False 1 ptx_cfg_example 2)) =
      Some (the (pdcp_tx_configure_security xor_lib prx_sec_example True True (the (pdcp_tx_create False 1 ptx_cfg_example 2))))" by simp
qed (simp add: ptx_cfg_example_def, simp only: ptx_ex_pool, simp)

lemma some_result: "r \<noteq> None \<Longrightarrow> snd (the r) = evs \<Longrightarrow> r = Some (fst (the r), evs)" by auto

lemma tx_ex_sdus:
  "pdcp_tx_handle_sdu 0 (True, True, True) [7] ptx_example0 = Some (ptx_example1, [])"
  "pdcp_tx_handle_sdu 0 (True, True, True) [8] ptx_example1 = Some (ptx_example2, [])"
  unfolding ptx_example1_def ptx_example2_def by (rule some_result, code_simp, code_simp)+

lemma tx_ex_run2: "ptx_run_example [[]] ptx_example2"
proof -
  have t: "tx_tasks ptx_example0 = 0" "tx_tasks ptx_example1 = 1" "\<not> ptx_is_srb ptx_example0" "\<not> ptx_is_srb ptx_example1" by code_simp+
  have run1: "ptx_run_example [[] @ []] ptx_example1"
    by (rule txr_sdu [OF tx_ex_run0 _ _ _ _ tx_ex_sdus(1)]) (use t in simp_all)
  have "ptx_run_example [[] @ []] ptx_example2"
    by (rule txr_sdu [OF run1 [unfolded append_Nil] _ _ _ _ tx_ex_sdus(2)]) (use t in simp_all)
  then show ?thesis by simp
qed

lemma tx_ex_crypto:
  "pdcp_tx_apply_security xor_lib 1 True True (ptx_info_example 1) (ptx_example2\<lparr>ptx_crypto_tasks := [ptx_info_example 0]\<rparr>) = Some ptx_example3"
  "pdcp_tx_apply_security xor_lib 0 True True (ptx_info_example 0) (ptx_example3\<lparr>ptx_crypto_tasks := []\<rparr>) = Some ptx_example4"
proof -
  have "pdcp_tx_apply_security xor_lib 1 True True (ptx_info_example 1) (ptx_example2\<lparr>ptx_crypto_tasks := [ptx_info_example 0]\<rparr>) \<noteq> None"
    by code_simp
  then show "pdcp_tx_apply_security xor_lib 1 True True (ptx_info_example 1) (ptx_example2\<lparr>ptx_crypto_tasks := [ptx_info_example 0]\<rparr>) = Some ptx_example3"
    by (simp add: ptx_example3_def)
  have "pdcp_tx_apply_security xor_lib 0 True True (ptx_info_example 0) (ptx_example3\<lparr>ptx_crypto_tasks := []\<rparr>) \<noteq> None" by code_simp
  then show "pdcp_tx_apply_security xor_lib 0 True True (ptx_info_example 0) (ptx_example3\<lparr>ptx_crypto_tasks := []\<rparr>) = Some ptx_example4"
    by (simp add: ptx_example4_def)
qed

lemma tx_ex_tasks:
  "ptx_crypto_tasks ptx_example2 = [ptx_info_example 0, ptx_info_example 1]" "ptx_crypto_tasks ptx_example3 = [ptx_info_example 0]"
  "ptx_ue_tasks ptx_example4 = [tx_task_reordering (ptx_done_example 1), tx_task_reordering (ptx_done_example 0)]"
  "ptx_ue_tasks ptx_example5 = [tx_task_reordering (ptx_done_example 0)]"
  by code_simp+

lemma tx_ex_run4: "ptx_run_example [[]] ptx_example4"
proof -
  have "ptx_crypto_tasks ptx_example2 = [ptx_info_example 0] @ ptx_info_example 1 # []" by (simp add: tx_ex_tasks)
  then have "ptx_run_example [[]] ptx_example3" by (rule txr_crypto [OF tx_ex_run2]) (use tx_ex_crypto(1) in simp)
  moreover have "ptx_crypto_tasks ptx_example3 = [] @ ptx_info_example 0 # []" by (simp add: tx_ex_tasks)
  ultimately show ?thesis by (rule txr_crypto) (use tx_ex_crypto(2) in simp)
qed

lemma tx_ex_ue:
  "run_tx_ue_task 0 (tx_task_reordering (ptx_done_example 1)) (ptx_example4\<lparr>ptx_ue_tasks := [tx_task_reordering (ptx_done_example 0)]\<rparr>) = Some (ptx_example5, [])"
  "run_tx_ue_task 0 (tx_task_reordering (ptx_done_example 0)) (ptx_example5\<lparr>ptx_ue_tasks := []\<rparr>) =
    Some (ptx_example6, [tx_on_new_pdu 0 (tbi_buf (ptx_done_example 0)) False, tx_on_new_pdu 1 (tbi_buf (ptx_done_example 1)) False])"
  unfolding ptx_example5_def ptx_example6_def by (rule some_result, code_simp, code_simp)+

lemma tx_ex_run5: "ptx_run_example [[]] ptx_example5"
proof -
  have "ptx_ue_tasks ptx_example4 = [] @ tx_task_reordering (ptx_done_example 1) # [tx_task_reordering (ptx_done_example 0)]" by (simp add: tx_ex_tasks)
  from txr_ue [OF tx_ex_run4 this] tx_ex_ue(1) show ?thesis by (simp del: run_tx_ue_task.simps)
qed

definition ptx_events_example :: "pdcp_tx_event list" where
  "ptx_events_example = [tx_on_new_pdu 0 (tbi_buf (ptx_done_example 0)) False, tx_on_new_pdu 1 (tbi_buf (ptx_done_example 1)) False]"

lemma tx_ex_run6: "ptx_run_example [ptx_events_example] ptx_example6"
proof -
  have "ptx_ue_tasks ptx_example5 = [] @ tx_task_reordering (ptx_done_example 0) # []" by (simp add: tx_ex_tasks)
  from txr_ue [OF tx_ex_run5 this] tx_ex_ue(2) show ?thesis by (simp add: ptx_events_example_def del: run_tx_ue_task.simps)
qed

section \<open>What is handed to the lower layers\<close>

text \<open>
  Property C3: in every run of the PDCP transmitter, in whatever order the crypto workers finish, the COUNTs of the PDUs
  handed to the lower layers between two retransmissions are strictly ascending, and those of the current segment are
  below TX_TRANS_CRYPTO.
\<close>

theorem pdcp_tx_in_order:
  assumes "ptx_run lib S D cfg p segs e"
  shows "(\<forall>evs \<in> set segs. sorted_wrt (<) (pdu_counts evs)) \<and> (\<forall>c \<in> set (pdu_counts (hd segs)). c < tx_pc e)"
proof -
  obtain M where "ptx_run_ok lib S D cfg M p segs e" using ptx_run_invariant [OF assms] by blast
  then show ?thesis by (simp add: ptx_run_ok_def tx_trace_ok_def tx_trace_below_def)
qed

theorem pdcp_tx_in_order_witness:
  "sorted_wrt (<) (pdu_counts ptx_events_example) \<and> (1 :: u32) < tx_pc ptx_example6"
  using pdcp_tx_in_order [OF tx_ex_run6] by (simp add: ptx_events_example_def)

lemma tx_handed_protected:
  assumes "ptx_run_ok lib S D cfg M p segs e" "evs \<in> set segs" "tx_on_new_pdu c pdu r \<in> set evs"
  shows "\<exists>sdu. M c = Some sdu \<and> sdu_protected lib S cfg c sdu pdu"
proof -
  have "pdu_from lib S cfg M c pdu" using assms unfolding ptx_run_ok_def tx_trace_ok_def by blast
  then show ?thesis by (simp add: pdu_from_def)
qed

text \<open>
  Property C4: in every run each COUNT of a period is given to at most one SDU that arrived, and every PDU handed to the
  lower layers under that COUNT, by the first transmission or by any retransmission, is the header with the SN of the
  COUNT and this SDU, protected under this COUNT by a security engine that was configured (before there is one, an SRB
  appends four zero bytes).  So no COUNT ever protects two different SDUs.
\<close>

theorem pdcp_tx_protected:
  assumes "ptx_run lib S D cfg p segs e"
  shows "\<exists>M. (\<forall>c sdu. M c = Some sdu \<longrightarrow> sdu \<in> D \<and> c < tx_pn e) \<and>
    (\<forall>evs \<in> set segs. \<forall>c pdu r. tx_on_new_pdu c pdu r \<in> set evs \<longrightarrow> (\<exists>sdu. M c = Some sdu \<and> sdu_protected lib S cfg c sdu pdu))"
proof -
  obtain M where M: "ptx_run_ok lib S D cfg M p segs e" using ptx_run_invariant [OF assms] by blast
  note con = ptx_okD(5) [OF ptx_run_okD(1) [OF M]]
  show ?thesis using ptx_contentsD(4,5) [OF con] tx_handed_protected [OF M] by blast
qed

theorem pdcp_tx_protected_witness:
  "\<exists>sdu \<in> {[7], [8]}. sdu_protected xor_lib {Some ptx_engine_example} ptx_cfg_example 1 sdu (tbi_buf (ptx_done_example 1))"
proof -
  obtain M where M: "\<forall>c sdu. M c = Some sdu \<longrightarrow> sdu \<in> {[7], [8]} \<and> c < tx_pn ptx_example6"
    "\<forall>evs \<in> set [ptx_events_example]. \<forall>c pdu r. tx_on_new_pdu c pdu r \<in> set evs \<longrightarrow>
      (\<exists>sdu. M c = Some sdu \<and> sdu_protected xor_lib {Some ptx_engine_example} ptx_cfg_example c sdu pdu)"
    using pdcp_tx_protected [OF tx_ex_run6] by (elim exE conjE)
  have "tx_on_new_pdu 1 (tbi_buf (ptx_done_example 1)) False \<in> set ptx_events_example" "ptx_events_example \<in> set [ptx_events_example]"
    by (simp_all add: ptx_events_example_def)
  with M(2) obtain sdu where "M 1 = Some sdu" "sdu_protected xor_lib {Some ptx_engine_example} ptx_cfg_example 1 sdu (tbi_buf (ptx_done_example 1))"
    by blast
  with M(1) show ?thesis by blast
qed

section \<open>The window\<close>



section \<open>Reordering\<close>

text \<open>The reordering stage for what the workers return, in their order.\<close>

fun tx_reorder_all :: "u32 \<Rightarrow> pdcp_tx_buffer_info list \<Rightarrow> pdcp_entity_tx \<Rightarrow> pdcp_tx_result" where
  "tx_reorder_all now [] e = Some (e, [])"
| "tx_reorder_all now (info # infos) e = ptx_then (tx_apply_reordering now info e) (tx_reorder_all now infos)"

text \<open>One PDU: everything from TX_TRANS_CRYPTO up to the next missing PDU goes out.\<close>

lemma reorder_one:
  assumes inv: "ptx_inv e" and run: "\<not> ptx_stopped e" and info: "tbi_retx_id info = ptx_retransmit_id e" "tbi_buf info \<noteq> []"
    "tx_pc e \<le> tbi_count info" "tbi_count info < tx_pn e"
  obtains e' evs where "tx_apply_reordering now info e = Some (e', evs)" "ptx_inv e'" "ptx_rest e e'"
    "pdu_counts evs = count_range (tx_pc e) (tx_pc e')" "tx_pc e \<le> tx_pc e'" "tx_pc e' \<le> tx_pn e"
    "\<not> has_pdu (ptx_window e') (tx_pc e')"
    "\<And>k. tx_pc e' \<le> k \<Longrightarrow> pdu_at (ptx_window e') k = (if k = tbi_count info then tbi_buf info else pdu_at (ptx_window e) k)"
    "\<And>k. tx_pc e \<le> k \<Longrightarrow> k < tx_pc e' \<Longrightarrow> k = tbi_count info \<or> has_pdu (ptx_window e) k"
    "\<And>k pdu r. tx_on_new_pdu k pdu r \<in> set evs \<Longrightarrow> pdu = (if k = tbi_count info then tbi_buf info else pdu_at (ptx_window e) k)"
    "ptx_crypto_reordering_timer e' \<longleftrightarrow> tx_pc e' < tx_pn e"
proof -
  have i: "ptx_core e" "tx_reord_ok e" "ptx_whole e" using inv run by (simp_all add: ptx_inv_def)
  have pt: "tx_pt e \<le> tbi_count info" "tx_pa e \<le> tbi_count info"
    using ptx_coreD(10) [OF i(1)] whole_ack [OF i(1,3)] info(3) by auto
  have g: "tx_get e (tbi_count info) \<noteq> None" using i(3) info(3,4) by (simp add: ptx_whole_def)
  have st: "ptx_stored e info" using run info(1) pt g by (simp add: ptx_stored_def)
  let ?e = "ptx_store (tbi_count info) (tbi_buf info) e"
  have at: "pdu_at (ptx_window ?e) k = (if k = tbi_count info then tbi_buf info else pdu_at (ptx_window e) k)" for k
    using g by (auto simp: pdu_at_def ptx_store_get)
  note core = ptx_store_core [OF i(1), of "tbi_count info" "tbi_buf info"] and whole = ptx_store_whole [OF i(3), of "tbi_count info" "tbi_buf info"]
  obtain e1 where e1: "tx_deliver_loop now (tbi_is_retx info) (tx_pc e) ?e =
      Some (e1, handed_events (ptx_window ?e) (tbi_is_retx info) (tx_pc e) (tx_pc e1))" "ptx_handed ?e e1" "tx_pc e1 \<le> tx_pn e"
    "\<And>k. tx_pc e \<le> k \<Longrightarrow> k < tx_pc e1 \<Longrightarrow> has_pdu (ptx_window ?e) k" "tx_pc e1 = tx_pn e \<or> \<not> has_pdu (ptx_window ?e) (tx_pc e1)"
    using tx_deliver_ok [OF core whole, of now "tbi_is_retx info"] by auto
  note f = ptx_handed_fields [OF e1(2)]
  have core1: "ptx_core e1" by (rule ptx_handed_core [OF core e1(2)]) (simp add: e1(3))
  have timer: "ptx_crypto_reordering_timer e1 \<longrightarrow> tx_pr e1 \<le> tx_pn e1" using i(2) f(1,3,7) by (simp add: tx_reord_ok_def)
  note r = reord_timers_ok [OF core1 timer]
  have up: "pdu_at (ptx_window e1) k = pdu_at (ptx_window ?e) k" if "tx_pc e1 \<le> k" for k
    using handed_get_above [OF e1(2) that] by (simp add: pdu_at_def)
  have none: "\<not> has_pdu (ptx_window e1) (tx_pc e1)"
  proof (cases "tx_pc e1 = tx_pn e")
    case True
    then show ?thesis using ptx_coreD(4) [OF core1, of "tx_pc e1"] f(1) by (auto simp: has_pdu_def)
  qed (use e1(5) up [of "tx_pc e1"] in \<open>simp add: has_pdu_at\<close>)
  have w: "ptx_whole e1" by (rule ptx_handed_whole [OF e1(2) whole])
  have all: "filter (has_pdu (ptx_window ?e)) (count_range (tx_pc e) (tx_pc e1)) = count_range (tx_pc e) (tx_pc e1)"
    using e1(4) by (auto simp: filter_id_conv set_count_range)
  have apply_eq: "tx_apply_reordering now info e =
      Some (reord_timers e1, handed_events (ptx_window ?e) (tbi_is_retx info) (tx_pc e) (tx_pc e1))"
    using st e1(1) by (simp add: apply_reordering_eq)
  show thesis
  proof (rule that [OF apply_eq])
    show "ptx_inv (reord_timers e1)" using r(1-3) w by (simp add: ptx_inv_def)
    show "ptx_rest e (reord_timers e1)" by (rule ptx_rest_trans [OF ptx_rest_trans [OF ptx_store_rest ptx_handed_rest [OF e1(2)]] r(4)])
    show "ptx_crypto_reordering_timer (reord_timers e1) \<longleftrightarrow> tx_pc (reord_timers e1) < tx_pn e"
      using timer f(1) by (auto simp: reord_timers_def reord_started_def Let_def)
    show "pdu_counts (handed_events (ptx_window ?e) (tbi_is_retx info) (tx_pc e) (tx_pc e1)) = count_range (tx_pc e) (tx_pc (reord_timers e1))"
      by (simp add: r(5) pdu_counts_handed all)
    show "\<not> has_pdu (ptx_window (reord_timers e1)) (tx_pc (reord_timers e1))" by (simp add: r(5,6) none)
    show "tx_pc e \<le> tx_pc (reord_timers e1)" "tx_pc (reord_timers e1) \<le> tx_pn e" using ptx_handedD(5) [OF e1(2)] e1(3) by (simp_all add: r(5))
    show "pdu_at (ptx_window (reord_timers e1)) k = (if k = tbi_count info then tbi_buf info else pdu_at (ptx_window e) k)"
      if "tx_pc (reord_timers e1) \<le> k" for k using that up at by (simp add: r(5,6))
    show "k = tbi_count info \<or> has_pdu (ptx_window e) k" if "tx_pc e \<le> k" "k < tx_pc (reord_timers e1)" for k
      using e1(4) [OF that(1)] that(2) at [of k] by (auto simp: r(5) has_pdu_at)
    show "pdu = (if k = tbi_count info then tbi_buf info else pdu_at (ptx_window e) k)"
      if "tx_on_new_pdu k pdu r' \<in> set (handed_events (ptx_window ?e) (tbi_is_retx info) (tx_pc e) (tx_pc e1))" for k pdu r'
      using that at [of k] by (auto simp: handed_events_def)
  qed
qed

lemma reorder_all:
  assumes "ptx_inv e" "\<not> ptx_stopped e" "\<not> has_pdu (ptx_window e) (tx_pc e)" "distinct (map tbi_count infos)"
    "\<forall>info \<in> set infos. tbi_retx_id info = ptx_retransmit_id e \<and> tbi_buf info \<noteq> []"
    "tbi_count ` set infos = {c. tx_pc e \<le> c \<and> c < tx_pn e \<and> \<not> has_pdu (ptx_window e) c}"
  shows "\<exists>e' evs. tx_reorder_all now infos e = Some (e', evs) \<and> pdu_counts evs = count_range (tx_pc e) (tx_pn e) \<and> tx_pc e' = tx_pn e \<and>
    (infos \<noteq> [] \<longrightarrow> \<not> ptx_crypto_reordering_timer e') \<and>
    (\<forall>c pdu r. tx_on_new_pdu c pdu r \<in> set evs \<longrightarrow>
       (\<exists>info \<in> set infos. tbi_count info = c \<and> tbi_buf info = pdu) \<or> c \<notin> tbi_count ` set infos \<and> pdu = pdu_at (ptx_window e) c)"
  using assms
proof (induction infos arbitrary: e)
  case Nil
  have "tx_pc e \<le> tx_pn e" using ptx_coreD(8) Nil(1) by (simp add: ptx_inv_def)
  moreover have "tx_pc e \<notin> {c. tx_pc e \<le> c \<and> c < tx_pn e \<and> \<not> has_pdu (ptx_window e) c}" using Nil(6) by auto
  ultimately have "tx_pc e = tx_pn e" using Nil(3) by auto
  then show ?case by (simp add: count_range_def)
next
  case (Cons info infos)
  let ?c = "tbi_count info"
  have c: "tx_pc e \<le> ?c" "?c < tx_pn e" "\<not> has_pdu (ptx_window e) ?c" using Cons.prems(6) by auto
  have i: "tbi_retx_id info = ptx_retransmit_id e" "tbi_buf info \<noteq> []" using Cons.prems(5) by simp_all
  obtain e1 evs1 where e1: "tx_apply_reordering now info e = Some (e1, evs1)" "ptx_inv e1" "ptx_rest e e1"
    "pdu_counts evs1 = count_range (tx_pc e) (tx_pc e1)" "tx_pc e \<le> tx_pc e1" "tx_pc e1 \<le> tx_pn e" "\<not> has_pdu (ptx_window e1) (tx_pc e1)"
    "\<And>k. tx_pc e1 \<le> k \<Longrightarrow> pdu_at (ptx_window e1) k = (if k = ?c then tbi_buf info else pdu_at (ptx_window e) k)"
    "\<And>k. tx_pc e \<le> k \<Longrightarrow> k < tx_pc e1 \<Longrightarrow> k = ?c \<or> has_pdu (ptx_window e) k"
    "\<And>k pdu r. tx_on_new_pdu k pdu r \<in> set evs1 \<Longrightarrow> pdu = (if k = ?c then tbi_buf info else pdu_at (ptx_window e) k)"
    "ptx_crypto_reordering_timer e1 \<longleftrightarrow> tx_pc e1 < tx_pn e"
    using reorder_one [where now = now, OF Cons.prems(1,2) i c(1,2)] by blast
  have f: "ptx_stopped e1 = ptx_stopped e" "ptx_retransmit_id e1 = ptx_retransmit_id e" "tx_pn e1 = tx_pn e"
    using e1(3) by (simp_all add: ptx_rest_def ptx_same_def)
  have hp: "has_pdu (ptx_window e1) k \<longleftrightarrow> k = ?c \<or> has_pdu (ptx_window e) k" if "tx_pc e1 \<le> k" for k
    using e1(8) [OF that] i(2) by (auto simp: has_pdu_at)
  have fresh: "?c \<notin> tbi_count ` set infos" using Cons.prems(4) by simp
  have ins: "insert ?c (tbi_count ` set infos) = {c. tx_pc e \<le> c \<and> c < tx_pn e \<and> \<not> has_pdu (ptx_window e) c}" using Cons.prems(6) by simp
  have left: "tbi_count ` set infos = {c. tx_pc e1 \<le> c \<and> c < tx_pn e1 \<and> \<not> has_pdu (ptx_window e1) c}"
  proof (rule set_eqI)
    fix k
    have "k \<in> tbi_count ` set infos \<longleftrightarrow> k \<noteq> ?c \<and> tx_pc e \<le> k \<and> k < tx_pn e \<and> \<not> has_pdu (ptx_window e) k" using ins fresh by blast
    also have "\<dots> \<longleftrightarrow> tx_pc e1 \<le> k \<and> k < tx_pn e1 \<and> \<not> has_pdu (ptx_window e1) k"
      using e1(5) e1(9) [of k] hp [of k] f(3) by (auto simp: not_less [symmetric])
    finally show "k \<in> tbi_count ` set infos \<longleftrightarrow> k \<in> {c. tx_pc e1 \<le> c \<and> c < tx_pn e1 \<and> \<not> has_pdu (ptx_window e1) c}" by simp
  qed
  obtain e' evs where e': "tx_reorder_all now infos e1 = Some (e', evs)" "pdu_counts evs = count_range (tx_pc e1) (tx_pn e)" "tx_pc e' = tx_pn e"
    "infos \<noteq> [] \<longrightarrow> \<not> ptx_crypto_reordering_timer e'"
    "\<And>c pdu r. tx_on_new_pdu c pdu r \<in> set evs \<Longrightarrow>
      (\<exists>i \<in> set infos. tbi_count i = c \<and> tbi_buf i = pdu) \<or> c \<notin> tbi_count ` set infos \<and> pdu = pdu_at (ptx_window e1) c"
    using Cons.IH [OF e1(2) _ e1(7) _ _ left] Cons.prems(2,4,5) unfolding f by fastforce
  have all: "tx_reorder_all now (info # infos) e = Some (e', evs1 @ evs)" using e1(1) e'(1) by (simp add: ptx_then_def)
  have counts: "pdu_counts (evs1 @ evs) = count_range (tx_pc e) (tx_pn e)"
    using e1(4,5,6) e'(2) by (simp add: count_range_append [of "tx_pc e" "tx_pc e1" "tx_pn e"])
  have from1: "(\<exists>i \<in> set (info # infos). tbi_count i = c \<and> tbi_buf i = pdu) \<or> c \<notin> tbi_count ` set (info # infos) \<and> pdu = pdu_at (ptx_window e) c"
    if ev: "tx_on_new_pdu c pdu r \<in> set evs1" for c pdu r
  proof (cases "c = ?c")
    case False
    have "c \<in> set (pdu_counts evs1)" using ev set_pdu_counts by blast
    then have "tx_pc e \<le> c" "c < tx_pc e1" by (simp_all add: e1(4) set_count_range)
    then have "has_pdu (ptx_window e) c" using e1(9) [of c] False by simp
    then have "c \<notin> insert ?c (tbi_count ` set infos)" unfolding ins by simp
    then show ?thesis using e1(10) [OF ev] False by simp
  qed (use e1(10) [OF ev] in simp)
  have from2: "(\<exists>i \<in> set (info # infos). tbi_count i = c \<and> tbi_buf i = pdu) \<or> c \<notin> tbi_count ` set (info # infos) \<and> pdu = pdu_at (ptx_window e) c"
    if ev: "tx_on_new_pdu c pdu r \<in> set evs" for c pdu r
  proof -
    have "c \<in> set (pdu_counts evs)" using ev set_pdu_counts by blast
    then have "tx_pc e1 \<le> c" by (simp add: e'(2) set_count_range)
    then show ?thesis using e'(5) [OF ev] e1(8) [of c] by auto
  qed
  have "\<not> ptx_crypto_reordering_timer e'"
  proof (cases "infos = []")
    case True
    then have "e' = e1" "tx_pc e1 = tx_pn e" using e'(1,3) by simp_all
    then show ?thesis using e1(11) by simp
  qed (use e'(4) in simp)
  moreover have "\<forall>c pdu r. tx_on_new_pdu c pdu r \<in> set (evs1 @ evs) \<longrightarrow>
      (\<exists>i \<in> set (info # infos). tbi_count i = c \<and> tbi_buf i = pdu) \<or> c \<notin> tbi_count ` set (info # infos) \<and> pdu = pdu_at (ptx_window e) c"
    using from1 from2 unfolding set_append by blast
  ultimately show ?case using all counts e'(3) by (intro exI [of _ e'] exI [of _ "evs1 @ evs"] conjI) blast+
qed

text \<open>
  Property C14: the reordering of the crypto workers.  When the workers return the PDUs that are still missing between
  TX_TRANS_CRYPTO and TX_NEXT, in any order, the transmitter hands over exactly the COUNTs of this range in ascending
  order, each with the PDU its worker made or the one that waited in the window, and stops the reordering timer.
\<close>

theorem pdcp_tx_reorders:
  assumes "ptx_run lib S D cfg p segs e" "\<not> ptx_stopped e" "\<not> has_pdu (ptx_window e) (tx_pc e)" "distinct (map tbi_count infos)"
    "\<forall>info \<in> set infos. tbi_retx_id info = ptx_retransmit_id e \<and> tbi_buf info \<noteq> []"
    "tbi_count ` set infos = {c. tx_pc e \<le> c \<and> c < tx_pn e \<and> \<not> has_pdu (ptx_window e) c}"
  shows "\<exists>e' evs. tx_reorder_all now infos e = Some (e', evs) \<and> pdu_counts evs = count_range (tx_pc e) (tx_pn e) \<and> tx_pc e' = tx_pn e \<and>
    (infos \<noteq> [] \<longrightarrow> \<not> ptx_crypto_reordering_timer e') \<and>
    (\<forall>c pdu r. tx_on_new_pdu c pdu r \<in> set evs \<longrightarrow>
       (\<exists>info \<in> set infos. tbi_count info = c \<and> tbi_buf info = pdu) \<or> c \<notin> tbi_count ` set infos \<and> pdu = pdu_at (ptx_window e) c)"
proof -
  obtain M where M: "ptx_run_ok lib S D cfg M p segs e" using ptx_run_invariant [OF assms(1)] by blast
  have "ptx_inv e" using ptx_run_okD(1) [OF M] by (simp add: ptx_ok_def)
  from reorder_all [OF this assms(2-6)] show ?thesis .
qed

theorem pdcp_tx_reorders_witness:
  "\<exists>e' evs. tx_reorder_all 0 [ptx_done_example 1, ptx_done_example 0] ptx_example2 = Some (e', evs) \<and> pdu_counts evs = [0, 1] \<and> tx_pc e' = 2"
proof -
  have e: "\<not> ptx_stopped ptx_example2" "\<not> has_pdu (ptx_window ptx_example2) (tx_pc ptx_example2)" "ptx_retransmit_id ptx_example2 = 0"
    "tx_pc ptx_example2 = 0" "tx_pn ptx_example2 = 2" "\<not> has_pdu (ptx_window ptx_example2) 0" "\<not> has_pdu (ptx_window ptx_example2) 1"
    "tbi_buf (ptx_done_example 0) \<noteq> []" "tbi_buf (ptx_done_example 1) \<noteq> []" "count_range 0 (2 :: u32) = [0, 1]"
    unfolding has_pdu_at by code_simp+
  have i: "tbi_count (ptx_done_example c) = c" "tbi_retx_id (ptx_done_example c) = 0" for c by (simp_all add: ptx_done_example_def ptx_info_example_def)
  have "c < 2 \<longleftrightarrow> c = 0 \<or> c = 1" for c :: u32 by (simp add: word_less_nat_alt word_unat_eq_iff) linarith
  then have "tbi_count ` set [ptx_done_example 1, ptx_done_example 0] =
      {c. tx_pc ptx_example2 \<le> c \<and> c < tx_pn ptx_example2 \<and> \<not> has_pdu (ptx_window ptx_example2) c}"
    using e by (auto simp: i)
  from pdcp_tx_reorders [OF tx_ex_run2 e(1,2) _ _ this, of 0] show ?thesis using e by (simp add: i) blast
qed

section \<open>Assertions\<close>



text \<open>What a status report leaves in the window.\<close>

lemma status_report_get:
  assumes "ptx_core e" "ptx_discard_timer (ptx_cfg e) \<noteq> None" "read_status_report report = Some (fmc, bits)"
    "handle_status_report True report e = (e', evs)"
  shows "tx_get e' k = (if k < fmc \<or> k \<in> set (reported_counts fmc bits) then None else tx_get e k)"
proof -
  let ?cs = "count_range (tx_pa e) fmc"
  let ?e = "fst (discard_counts ?cs e)"
  have s: "ptx_shrunk e ?e" using discard_counts_ok [OF assms(1)] by blast
  have d: "ptx_discard_timer (ptx_cfg ?e) \<noteq> None" using ptx_shrunk_fields(4) [OF s] assms(2) by simp
  have "e' = fst (discard_counts (reported_counts fmc bits) ?e)"
    using assms(3,4) by (auto simp: handle_status_report_def Let_def split: prod.splits)
  then have "tx_get e' k = (if k \<in> set (reported_counts fmc bits) then None else if k \<in> set ?cs then None else tx_get e k)"
    using discard_counts_get [OF ptx_shrunk_core [OF assms(1) s] d] discard_counts_get [OF assms(1,2)] by simp
  moreover have "tx_get e k = None" if "k < fmc" "k \<notin> set ?cs"
    using that ptx_coreD(3) [OF assms(1), of k] by (cases "tx_get e k") (auto simp: set_count_range)
  ultimately show ?thesis by (auto simp: set_count_range)
qed





section \<open>With the receiver\<close>

lemma reported_counts_pad: "reported_counts fmc (bits @ replicate n 0) = reported_counts fmc bits"
proof (induction bits arbitrary: fmc)
  case Nil
  show ?case by (induction n arbitrary: fmc) simp_all
qed simp



text \<open>
  Property C5: the PDCP link.  A PDU that a transmitter whose only engine is \<open>g\<close> hands over under some COUNT, in any of its
  runs and however often it sent it, comes through a receiver that has \<open>g\<close> for its direction when the COUNT is new to it
  and in its window: it becomes a crypto task with that COUNT, every worker deciphers it to an SDU that was given to the
  transmitter, whose protection under that COUNT the PDU is, and this SDU is stored or delivered under its COUNT; it is
  delivered when RX_DELIV waits for it.
\<close>

theorem pdcp_link_delivers:
  assumes "ptx_run lib {Some g} D tcfg tp segs t" "events \<in> set segs" "tx_on_new_pdu c pdu retx \<in> set events"
    "prx_run lib S P rcfg False evss e" "pdu \<in> P" "prx_rb_type rcfg = ptx_rb_type tcfg" "prx_sn_size rcfg = ptx_sn_size tcfg"
    "aes_lib_ok lib" "\<forall>sdu \<in> D. sdu \<noteq> [] \<and> length sdu < 2 ^ 26"
    "\<not> prx_buffering e" "prx_tasks e < 2 ^ 30" "worker < prx_max_nof_crypto_workers e" "prx_sec_engine_pool e ! worker = Some g"
    "prx_d e \<le> c" "uint c < uint (prx_d e) + pdcp_win (prx_sn_size rcfg)" "c < mc_hard (prx_max_count rcfg)" "\<not> has_sn (prx_window e) c"
  shows "\<exists>sdu \<in> D. sdu_protected lib {Some g} tcfg c sdu pdu \<and>
    (\<exists>e1 evs1 e2 e3 evs3. pdcp_rx_handle_pdu True True pdu e = Some (e1, evs1) \<and>
      prx_crypto_tasks e1 = prx_crypto_tasks e @ [\<lparr>rpi_buf = pdu, rpi_count = c\<rparr>] \<and>
      pdcp_rx_apply_security lib worker True \<lparr>rpi_buf = pdu, rpi_count = c\<rparr> (e1\<lparr>prx_crypto_tasks := prx_crypto_tasks e\<rparr>) = Some e2 \<and>
      prx_ue_tasks e2 = prx_ue_tasks e @ [task_reordering \<lparr>rpi_buf = sdu, rpi_count = c\<rparr>] \<and>
      run_ue_task (task_reordering \<lparr>rpi_buf = sdu, rpi_count = c\<rparr>) (e2\<lparr>prx_ue_tasks := prx_ue_tasks e\<rparr>) = Some (e3, evs3) \<and>
      (on_new_sdu c sdu \<in> set evs3 \<or> cm_get (prx_window e3) c = Some \<lparr>rsi_buf = sdu, rsi_count = c\<rparr>) \<and>
      (c = prx_d e \<longrightarrow> on_new_sdu c sdu \<in> set evs3))"
proof -
  obtain M where M: "ptx_run_ok lib {Some g} D tcfg M tp segs t" using ptx_run_invariant [OF assms(1)] by blast
  obtain sdu where sdu: "M c = Some sdu" "sdu_protected lib {Some g} tcfg c sdu pdu" using tx_handed_protected [OF M assms(2,3)] by blast
  have D: "sdu \<in> D" using ptx_contentsD(5) [OF ptx_okD(5) [OF ptx_run_okD(1) [OF M]] sdu(1)] .
  then have s: "sdu \<noteq> []" "length sdu < 2 ^ 26" using assms(9) by blast+
  obtain buf where buf:
    "pdcp_write_data_pdu_header (prx_rb_type rcfg) (prx_sn_size rcfg) True sdu (pdcp_compute_sn c (prx_sn_size rcfg)) = Inr buf"
    "encrypt_and_protect_integrity lib g True buf (pdcp_data_header_size (prx_sn_size rcfg)) c = Some (Inr pdu)"
    using sdu(2) unfolding sdu_protected_def assms(6,7) by auto
  note rx = rx_takes_protected [OF assms(4,8,10,11,5,12,13) s buf assms(14-17)]
  show ?thesis by (rule bexI [where x = sdu], rule conjI, rule sdu(2), rule rx, rule D)
qed

text \<open>The receiver of the UE takes the first PDU of the example.\<close>

definition prx_example_ue :: pdcp_entity_rx where
  "prx_example_ue = the (pdcp_rx_configure_security xor_lib prx_sec_example True True
     (the (pdcp_rx_create False 1 (prx_cfg_example\<lparr>prx_direction := pdcp_downlink\<rparr>) 2)))"

lemma ex_ue_pool: "prx_sec_engine_pool prx_example_ue = [Some ptx_engine_example, Some ptx_engine_example]"
  by code_simp

lemma ex_ue_run: "prx_run xor_lib {Some ptx_engine_example} {tbi_buf (ptx_done_example 0)} (prx_cfg_example\<lparr>prx_direction := pdcp_downlink\<rparr>) False [[]] prx_example_ue"
proof (rule run_create_secure)
  let ?e = "pdcp_rx_create False 1 (prx_cfg_example\<lparr>prx_direction := pdcp_downlink\<rparr>) 2"
  have "?e \<noteq> None" by code_simp
  then show "?e = Some (the ?e)" by simp
  have "pdcp_rx_configure_security xor_lib prx_sec_example True True (the ?e) \<noteq> None" by code_simp
  then show "pdcp_rx_configure_security xor_lib prx_sec_example True True (the ?e) = Some prx_example_ue" by (simp add: prx_example_ue_def)
qed (simp_all add: ex_ue_pool, simp_all add: prx_cfg_example_def pdcp_win_def)

theorem pdcp_link_delivers_witness:
  "\<exists>sdu \<in> {[7], [8]}. \<exists>e1 evs1 e2 e3 evs3.
    pdcp_rx_handle_pdu True True (tbi_buf (ptx_done_example 0)) prx_example_ue = Some (e1, evs1) \<and>
    pdcp_rx_apply_security xor_lib 1 True \<lparr>rpi_buf = tbi_buf (ptx_done_example 0), rpi_count = 0\<rparr>
      (e1\<lparr>prx_crypto_tasks := prx_crypto_tasks prx_example_ue\<rparr>) = Some e2 \<and>
    run_ue_task (task_reordering \<lparr>rpi_buf = sdu, rpi_count = 0\<rparr>) (e2\<lparr>prx_ue_tasks := prx_ue_tasks prx_example_ue\<rparr>) = Some (e3, evs3) \<and>
    on_new_sdu 0 sdu \<in> set evs3"
proof -
  let ?P = "{tbi_buf (ptx_done_example 0)}"
  have t: "ptx_events_example \<in> set [ptx_events_example]" "tx_on_new_pdu 0 (tbi_buf (ptx_done_example 0)) False \<in> set ptx_events_example"
    by (simp_all add: ptx_events_example_def)
  have c: "prx_rb_type (prx_cfg_example\<lparr>prx_direction := pdcp_downlink\<rparr>) = ptx_rb_type ptx_cfg_example"
    "prx_sn_size (prx_cfg_example\<lparr>prx_direction := pdcp_downlink\<rparr>) = ptx_sn_size ptx_cfg_example"
    by (simp_all add: prx_cfg_example_def ptx_cfg_example_def)
  have d: "\<forall>sdu \<in> {[7], [8]} :: bytes set. sdu \<noteq> [] \<and> length sdu < 2 ^ 26" by simp
  have e: "\<not> prx_buffering prx_example_ue" "prx_tasks prx_example_ue = 0" "(1 :: nat) < prx_max_nof_crypto_workers prx_example_ue"
    "prx_d prx_example_ue = 0" "\<not> has_sn (prx_window prx_example_ue) 0"
    by code_simp+
  have w: "prx_sec_engine_pool prx_example_ue ! 1 = Some ptx_engine_example" by (simp add: ex_ue_pool)
  have b: "prx_d prx_example_ue \<le> 0" "uint (0 :: u32) < uint (prx_d prx_example_ue) + pdcp_win (prx_sn_size (prx_cfg_example\<lparr>prx_direction := pdcp_downlink\<rparr>))"
    "0 < mc_hard (prx_max_count (prx_cfg_example\<lparr>prx_direction := pdcp_downlink\<rparr>))" "prx_tasks prx_example_ue < 2 ^ 30"
    using e(2,4) by (simp_all add: prx_cfg_example_def pdcp_win_def)
  have p: "tbi_buf (ptx_done_example 0) \<in> ?P" by simp
  show ?thesis
    using pdcp_link_delivers [OF tx_ex_run6 t ex_ue_run p c aes_lib_ok_xor d e(1) b(4) e(3) w b(1-3) e(5)] e(4) by metis
qed

end
