(* ===== verification/Spec2Isabelle.thy ===== *)
theory Spec2Isabelle
  imports Rlc_Tx_Am_Props Rlc_Um_Link Pdcp_Tx_Props
begin

text \<open>
  The user plane of srsRAN Project between PDCP and MAC: radio link control, the access-stratum security functions and
  PDCP.  Paths are relative to \<open>src/srsRAN_Project\<close>.

  \<^bold>\<open>The program.\<close>  srsRAN Project is a 5G base station.  In the uplink the MAC hands the RLC PDUs of a bearer to its RLC
  receiver, which puts the segments of an SDU together and passes complete SDUs to the PDCP receiver.  PDCP recovers
  the 32-bit COUNT of a PDU from its sequence number, has a pool of crypto workers decipher it and check its MAC-I, and
  delivers the SDUs in the order of their COUNTs; t-Reordering bounds the wait for a missing one.  In the downlink the
  PDCP transmitter gives every SDU the next COUNT and keeps it in a window, the crypto workers protect it, and the PDUs go
  to RLC in the order of their COUNTs; discard timers and status reports of the peer empty the window, and a
  re-establishment or data recovery sends what is left in it again.  RLC queues the PDCP PDUs, cuts them into PDUs that fit
  the grants of the MAC and, in acknowledged mode, sends again what a status report of the peer says is missing.

  \<^bold>\<open>Modelling conventions.\<close>  An entity is a record with the fields of the class; an operation takes the record and
  returns the new one with the calls it makes on its neighbours.  \<open>None\<close> is a failed \<open>srsran_assert\<close>,
  \<open>report_error\<close> or an access outside of a container, so a theorem that a result is \<open>Some\<close> says that none fails.
  Machine integers are words of their width; byte buffers are byte lists.  A timer is the flag that it is running, and
  its expiry an operation.  What an allocation, an executor or a lock-free queue answers is an argument.  Loops that
  are not structural have a termination proof, so no definition uses fuel.

  \<^bold>\<open>Shared.\<close>  \<open>Srs_Prelude\<close>: machine integers, big-endian fields and sequence-number arithmetic with the locale
  \<open>sn_space\<close>.  \<open>Sdu_Window\<close>: \<open>circular_map.h\<close> and \<open>sdu_window.h\<close>, the window of every entity, with the contract
  \<open>window_ops\<close>.  \<open>Rlc_Config\<close>: the enumerations of \<open>rlc_config.h\<close>.

  \<^bold>\<open>RLC AM.\<close>  \<open>Rlc_Am_Pdu\<close> models \<open>rlc_am_pdu.h/.cpp\<close>: data PDU headers, the NACK container with its merging, and
  the wire format of STATUS PDUs, with round trips.  \<open>Rlc_Segments\<close>: the buffer of SDU segments, overlaps trimmed, and
  reassembly; its lemmas hold for any property of segments that trimming keeps (locale \<open>segment_kind\<close>).
  \<open>Rlc_Rx_Am\<close> and \<open>Rlc_Rx_Am_Inv\<close>: \<open>rlc_rx_am_entity\<close>, its window invariant over every execution, what it delivers,
  and that a status report is exactly what the window misses.  \<open>Rlc_Sdu_Queue\<close> and \<open>Rlc_Retx_Queue\<close>: the two
  queues of the transmitter as refinements of FIFOs (locales \<open>sdu_fifo\<close>, \<open>retx_fifo\<close>).  \<open>Rlc_Tx_Am\<close>,
  \<open>Rlc_Tx_Am_Inv\<close>, \<open>Rlc_Tx_Am_Retx\<close>, \<open>Rlc_Tx_Am_Status\<close>, \<open>Rlc_Tx_Am_Props\<close>: \<open>rlc_tx_am_entity\<close>, its
  invariant, the contents of every PDU it builds, the effect of a status report, polling, and the exchange with the
  receiver.  SDUs have 1 to 32767 bytes there, PDCP's maximum being 9000.

  \<^bold>\<open>RLC UM.\<close>  \<open>Rlc_Um_Pdu\<close>, \<open>Rlc_Rx_Um\<close>, \<open>Rlc_Rx_Um_Inv\<close>, \<open>Rlc_Tx_Um\<close>, \<open>Rlc_Tx_Um_Inv\<close>: headers, the two
  entities and their invariants.  \<open>Rlc_Um_Link\<close> composes them: over a MAC that keeps the order the link is a FIFO of
  SDUs and drains.  SDUs have at most 65535 bytes, so that offsets fit the SO field; grants are below 2 to the 32.

  \<^bold>\<open>Security.\<close>  \<open>Sec_Config\<close>: algorithm selection and key derivation (\<open>lib/security/security.cpp\<close>).
  \<open>Sec_Zuc\<close>, \<open>Sec_Snow3g\<close>, \<open>Sec_Snow3g_Mul\<close>: the two stream ciphers.  \<open>Sec_Nea\<close>, \<open>Sec_Nia\<close>, \<open>Sec_Cmac\<close>: the
  ciphering and integrity algorithms built on them and on AES, against the definitions of their specifications.
  \<open>Sec_Engine\<close>: the engine of a bearer; its receiving side inverts its transmitting side.  AES, its CMAC and
  HMAC-SHA-256 belong to the TLS library and are parameters: \<open>aes_lib_ok\<close> states that the CTR mode XORs a keystream
  that depends on key and nonce only and that a MAC has 16 bytes.  Messages are below 2 to the 28 bytes, where the
  32-bit bit lengths of the code are exact.

  \<^bold>\<open>PDCP.\<close>  \<open>Pdcp_Sn_Util\<close>: the bit reader and \<open>get_pdcp_sn\<close>, against the header layout.  \<open>Pdcp_Common\<close>: COUNT, SN
  and HFN, the data PDU header with its round trip, recovery of a COUNT from its SN.  \<open>Pdcp_Status\<close>: the bit encoder,
  the compilation of a status report and its decoding, which gives the compiled content back.  \<open>Pdcp_Rx\<close>: the receiving
  entity \<open>pdcp_entity_rx\<close> with its crypto token manager; the tasks that wait for the crypto workers and for the UE
  executor are lists of the state, and a run takes them from any position, which covers every interleaving of the
  workers at the granularity of a task.  \<open>Pdcp_Rx_Inv\<close> has the invariant of the window and t-Reordering and the delivery
  loops, \<open>Pdcp_Rx_Steps\<close> and \<open>Pdcp_Rx_Reset\<close> the effect of each operation, \<open>Pdcp_Rx_Run\<close> the runs with their traces,
  and \<open>Pdcp_Rx_Props\<close> the properties: order of delivery, delivery of protected SDUs and of nothing else, the exact
  status report, the end of every wait, and the tokens.  \<open>max_count.hard\<close> is at most 2 to the 32 less two windows there
  (the default is \<open>0xd0000000\<close>), so that no COUNT wraps, and fewer than 2 to the 30 tasks are in flight.
  \<open>Pdcp_Tx_Window\<close> and \<open>Pdcp_Tx\<close>: the window with its running totals and the transmitting entity \<open>pdcp_entity_tx\<close>, with
  the tasks in flight as lists in the same way.  \<open>Pdcp_Tx_Inv\<close> has the invariant of the window and everything that only
  removes SDUs (notifications, discards, status reports), \<open>Pdcp_Tx_Reorder\<close> the loops that hand PDUs over,
  \<open>Pdcp_Tx_Steps\<close> and \<open>Pdcp_Tx_Ops\<close> the effect of each operation, \<open>Pdcp_Tx_Run\<close> the runs with the conditions the
  callers meet, and \<open>Pdcp_Tx_Props\<close> the properties: order and content of the PDUs handed over, the window, the
  reordering of what the workers finish in any order, the cases in which an assertion fails, and the exchange of a status
  report with the receiver.

  \<^bold>\<open>Not modelled.\<close>  The bearer management of the CU-UP, SDAP and NR-U; MAC and scheduler; the CU-CP with its
  coroutines; generated ASN.1 code; the physical layer and fronthaul, which compute on floating-point samples and
  hardware; in the modelled classes metrics, tracing, pcap, logging and times of arrival, and the interleaving of two
  threads inside one operation of the lock-free SDU queue.
\<close>

end
